(* ===== verification/Sniper_Prelude.thy ===== *)
theory Sniper_Prelude
  imports Main "HOL-Library.Word"
begin

text \<open>
  Shared vocabulary of the development: the fixed-width integer types of
  \<^verbatim>\<open>common/misc/fixed_types.h\<close>, the result type in which every \<^verbatim>\<open>assert\<close>,
  \<^verbatim>\<open>LOG_ASSERT_ERROR\<close> and \<^verbatim>\<open>LOG_PRINT_ERROR\<close> of the simulator is a value, the
  shapes into which its counting loops are translated, and the generic lemmas on lists,
  results and words that the component theories rest on.
\<close>

unbundle bit_operations_syntax

section \<open>Fixed-width types\<close>

type_synonym UInt8 = "8 word"
type_synonym UInt16 = "16 word"
type_synonym UInt32 = "32 word"
type_synonym UInt64 = "64 word"
type_synonym IntPtr = "64 word"
type_synonym core_id_t = int
type_synonym thread_id_t = int

abbreviation INVALID_CORE_ID :: core_id_t where
  "INVALID_CORE_ID \<equiv> - 1"

abbreviation INVALID_THREAD_ID :: thread_id_t where
  "INVALID_THREAD_ID \<equiv> - 1"

abbreviation INVALID_ADDRESS :: IntPtr where
  "INVALID_ADDRESS \<equiv> - 1"

section \<open>Results: a value, or the error that stops the simulator\<close>

text \<open>
  \<open>AssertFail\<close> is a failing \<^verbatim>\<open>assert\<close>, \<open>LogError\<close> a \<^verbatim>\<open>LOG_PRINT_ERROR\<close> or a failing
  \<^verbatim>\<open>LOG_ASSERT_ERROR\<close> (both call \<^verbatim>\<open>exit(-1)\<close>), \<open>Trap\<close> a fault of the machine such as a
  division by zero. \<open>Diverges\<close> is the value of a loop or a
  recursion that has used up the fuel of its model.
\<close>

datatype sim_error = AssertFail string | LogError string | Trap string | Diverges

type_synonym 'a result = "sim_error + 'a"

definition bindR :: "'a result \<Rightarrow> ('a \<Rightarrow> 'b result) \<Rightarrow> 'b result" where
  "bindR r f = (case r of Inl e \<Rightarrow> Inl e | Inr x \<Rightarrow> f x)"

definition assertR :: "bool \<Rightarrow> string \<Rightarrow> unit result" where
  "assertR b msg = (if b then Inr () else Inl (AssertFail msg))"

definition logAssertR :: "bool \<Rightarrow> string \<Rightarrow> unit result" where
  "logAssertR b msg = (if b then Inr () else Inl (LogError msg))"

text \<open>C's \<^verbatim>\<open>%\<close> on unsigned operands, which traps on a zero divisor.\<close>

definition modR :: "'a::len word \<Rightarrow> 'a word \<Rightarrow> 'a word result" where
  "modR a b = (if b = 0 then Inl (Trap ''division by zero'') else Inr (a mod b))"

definition is_ok :: "'a result \<Rightarrow> bool" where
  "is_ok r = (case r of Inl _ \<Rightarrow> False | Inr _ \<Rightarrow> True)"

named_theorems result_simps \<open>evaluation of the result monad\<close>

lemma bindR_Inr [simp, result_simps]: "bindR (Inr x) f = f x"
  by (simp add: bindR_def)

lemma bindR_Inl [simp, result_simps]: "bindR (Inl e) f = Inl e"
  by (simp add: bindR_def)

lemma assertR_True [simp, result_simps]: "assertR True m = Inr ()"
  by (simp add: assertR_def)

lemma assertR_False [simp, result_simps]: "assertR False m = Inl (AssertFail m)"
  by (simp add: assertR_def)

lemma logAssertR_True [simp, result_simps]: "logAssertR True m = Inr ()"
  by (simp add: logAssertR_def)

lemma logAssertR_False [simp, result_simps]: "logAssertR False m = Inl (LogError m)"
  by (simp add: logAssertR_def)

lemma bindR_eq_Inr [simp]: "bindR r f = Inr y \<longleftrightarrow> (\<exists>x. r = Inr x \<and> f x = Inr y)"
  by (cases r) simp_all

lemma assertR_eq_Inr [simp]: "assertR b m = Inr u \<longleftrightarrow> b"
  by (cases b) simp_all

lemma logAssertR_eq_Inr [simp]: "logAssertR b m = Inr u \<longleftrightarrow> b"
  by (cases b) simp_all

lemma modR_eq_Inr [simp]: "modR a b = Inr c \<longleftrightarrow> b \<noteq> 0 \<and> c = a mod b"
  by (auto simp: modR_def)

lemma bindR_cong [fundef_cong]:
  "r = r' \<Longrightarrow> (\<And>x. r' = Inr x \<Longrightarrow> f x = f' x) \<Longrightarrow> bindR r f = bindR r' f'"
  by (cases r') (simp_all add: bindR_def)

lemma is_ok_iff: "is_ok r \<longleftrightarrow> (\<exists>x. r = Inr x)"
  by (cases r) (simp_all add: is_ok_def)

lemma is_ok_Inr [simp, result_simps]: "is_ok (Inr x)"
  by (simp add: is_ok_def)

lemma is_ok_Inl [simp, result_simps]: "\<not> is_ok (Inl e)"
  by (simp add: is_ok_def)

section \<open>Counting loops\<close>

text \<open>
  \<^verbatim>\<open>for (i = 0; i < n; i++) if (P(i)) return i;\<close> is \<open>first_index P n\<close>; the loop that
  counts down from \<^verbatim>\<open>n-1\<close> is \<open>last_index P n\<close>; a loop that transforms a state is
  \<open>for_upto n body\<close>.
\<close>

definition first_index :: "(nat \<Rightarrow> bool) \<Rightarrow> nat \<Rightarrow> nat option" where
  "first_index P n = find P [0..<n]"

definition last_index :: "(nat \<Rightarrow> bool) \<Rightarrow> nat \<Rightarrow> nat option" where
  "last_index P n = find P (rev [0..<n])"

definition for_upto :: "nat \<Rightarrow> (nat \<Rightarrow> 's \<Rightarrow> 's) \<Rightarrow> 's \<Rightarrow> 's" where
  "for_upto n body s = fold body [0..<n] s"

text \<open>\<^verbatim>\<open>memcpy(dst + k, src, n)\<close>, where \<open>src\<close> are the n bytes.\<close>

definition memcpy_at :: "nat \<Rightarrow> 'b list \<Rightarrow> 'b list \<Rightarrow> 'b list" where
  "memcpy_at k src dst = take k dst @ src @ drop (k + length src) dst"

lemma first_index_Some:
  "first_index P n = Some i \<Longrightarrow> i < n \<and> P i \<and> (\<forall>j<i. \<not> P j)"
  by (auto simp: first_index_def find_Some_iff)

lemma first_index_None: "first_index P n = None \<longleftrightarrow> (\<forall>i<n. \<not> P i)"
  by (auto simp: first_index_def find_None_iff)

lemma last_index_Some:
  "last_index P n = Some i \<Longrightarrow> i < n \<and> P i \<and> (\<forall>j. i < j \<and> j < n \<longrightarrow> \<not> P j)"
proof -
  assume "last_index P n = Some i"
  then obtain k where k: "k < n" "P (rev [0..<n] ! k)" "i = rev [0..<n] ! k"
    "\<forall>j<k. \<not> P (rev [0..<n] ! j)"
    by (auto simp: last_index_def find_Some_iff)
  have i: "i = n - Suc k" using k by (simp add: rev_nth)
  have "\<not> P j" if "i < j" "j < n" for j
  proof -
    have "n - Suc j < k" using that i k(1) by arith
    with k(4) have "\<not> P (rev [0..<n] ! (n - Suc j))" by blast
    then show ?thesis using that by (simp add: rev_nth)
  qed
  with i k show ?thesis by auto
qed

lemma last_index_None: "last_index P n = None \<longleftrightarrow> (\<forall>i<n. \<not> P i)"
  by (auto simp: last_index_def find_None_iff)

lemma for_upto_0 [simp]: "for_upto 0 body s = s"
  by (simp add: for_upto_def)

lemma for_upto_Suc [simp]: "for_upto (Suc n) body s = body n (for_upto n body s)"
  by (simp add: for_upto_def)

text \<open>The loop rule: an invariant indexed by the iteration.\<close>

lemma for_upto_invariant:
  assumes "I 0 s" and "\<And>i t. i < n \<Longrightarrow> I i t \<Longrightarrow> I (Suc i) (body i t)"
  shows "I n (for_upto n body s)"
  using assms
proof (induction n)
  case 0
  then show ?case by simp
next
  case (Suc n)
  then have "I n (for_upto n body s)" by simp
  with Suc.prems(2) show ?case by simp
qed

text \<open>A loop over a list whose body can fail, and an access to a vector that is checked.\<close>

fun foldR :: "('a \<Rightarrow> 's \<Rightarrow> 's result) \<Rightarrow> 'a list \<Rightarrow> 's \<Rightarrow> 's result" where
  "foldR f [] st = Inr st"
| "foldR f (x # xs) st = bindR (f x st) (foldR f xs)"

definition atR :: "'a list \<Rightarrow> nat \<Rightarrow> 'a result" where
  "atR xs i = (if i < length xs then Inr (xs ! i) else Inl (Trap ''vector index''))"

lemma atR_eq_Inr [simp]: "atR xs i = Inr x \<longleftrightarrow> i < length xs \<and> x = xs ! i"
  by (auto simp: atR_def)

lemma atR_ok [simp]: "i < length xs \<Longrightarrow> atR xs i = Inr (xs ! i)"
  by (simp add: atR_def)

lemma foldR_inv:
  assumes "\<And>x st st'. P st \<Longrightarrow> f x st = Inr st' \<Longrightarrow> P st'" "P st" "foldR f xs st = Inr st'"
  shows "P st'"
  using assms(2,3) by (induction xs arbitrary: st) (auto intro: assms(1))

lemma foldR_inv_set:
  assumes "\<And>x st st'. x \<in> set xs \<Longrightarrow> P st \<Longrightarrow> f x st = Inr st' \<Longrightarrow> P st'" "P st" "foldR f xs st = Inr st'"
  shows "P st'"
  using assms by (induction xs arbitrary: st) auto

lemma foldR_total:
  assumes "\<And>x st. x \<in> set xs \<Longrightarrow> P st \<Longrightarrow> \<exists>st'. f x st = Inr st' \<and> P st'" "P st"
  shows "\<exists>st'. foldR f xs st = Inr st' \<and> P st'"
  using assms
proof (induction xs arbitrary: st)
  case (Cons x xs)
  then obtain st1 where "f x st = Inr st1" "P st1" by (metis list.set_intros(1))
  with Cons show ?case by simp
qed simp

section \<open>Lists and permutations\<close>

lemma distinct_map_unique_index:
  "distinct (map f xs) \<Longrightarrow> i < length xs \<Longrightarrow> j < length xs \<Longrightarrow> f (xs ! i) = f (xs ! j) \<Longrightarrow> i = j"
  by (metis length_map nth_eq_iff_index_eq nth_map)

lemma list_update_map_nth:
  "length xs = n \<Longrightarrow> xs[i := v] = map (\<lambda>j. if j = i then v else xs ! j) [0..<n]"
  by (rule nth_equalityI) (auto simp: nth_list_update)

lemma find_NoneI: "(\<And>x. x \<in> set xs \<Longrightarrow> \<not> P x) \<Longrightarrow> find P xs = None"
  by (auto simp: find_None_iff)

lemma find_append: "find P (xs @ ys) = (case find P xs of Some x \<Rightarrow> Some x | None \<Rightarrow> find P ys)"
  by (induction xs) simp_all

section \<open>Words\<close>

lemma unat_word_Suc:
  fixes a :: "'a::len word"
  shows "unat a < 2 ^ LENGTH('a) - 1 \<Longrightarrow> unat (a + 1) = Suc (unat a)"
  by (metis Suc_eq_plus1 add.commute less_diff_conv unat_1 unat_add_lem unsigned_1 plus_1_eq_Suc)

lemma unat_of_nat_small [simp]:
  "n < 2 ^ LENGTH('a) \<Longrightarrow> unat (of_nat n :: 'a::len word) = n"
  by (simp add: unat_of_nat take_bit_nat_eq_self)

lemma word_shift_right_div:
  fixes a :: "'a::len word"
  shows "unat (drop_bit k a) = unat a div 2 ^ k"
  by (simp add: unat_drop_bit_eq drop_bit_nat_def)

lemma unat_exp [simp]:
  assumes "k < LENGTH('a)"
  shows "unat (2 ^ k :: 'a::len word) = 2 ^ k"
proof -
  have "(2::nat) ^ k < 2 ^ LENGTH('a)" using assms by simp
  then have "unat (of_nat (2 ^ k) :: 'a word) = 2 ^ k" by (rule unat_of_nat_small)
  then show ?thesis by simp
qed

lemma unat_ucast_le:
  fixes a :: "'a::len word"
  shows "unat a < 2 ^ LENGTH('b) \<Longrightarrow> unat (ucast a :: 'b::len word) = unat a"
  by (simp add: unsigned_ucast_eq take_bit_nat_eq_self)

section \<open>Step relations\<close>

text \<open>States reachable from an initial state, and the interface through which a component proves an invariant.\<close>

inductive reach :: "('s \<Rightarrow> bool) \<Rightarrow> ('s \<Rightarrow> 's \<Rightarrow> bool) \<Rightarrow> 's \<Rightarrow> bool" for init step where
  reach_init: "init s \<Longrightarrow> reach init step s"
| reach_step: "reach init step s \<Longrightarrow> step s s' \<Longrightarrow> reach init step s'"

locale inductive_invariant =
  fixes init :: "'s \<Rightarrow> bool" and step :: "'s \<Rightarrow> 's \<Rightarrow> bool" and inv :: "'s \<Rightarrow> bool"
  assumes init_inv: "init s \<Longrightarrow> inv s"
    and step_inv: "inv s \<Longrightarrow> step s s' \<Longrightarrow> inv s'"
begin

lemma reach_inv: "reach init step s \<Longrightarrow> inv s"
  by (induction rule: reach.induct) (blast intro: init_inv step_inv)+

end

section \<open>Sums over the counters of a table\<close>

lemma sum_fun_upd:
  fixes f :: "'k::finite \<Rightarrow> 'v::comm_monoid_add"
  shows "(\<Sum>s\<in>UNIV. (f(r := f r + d)) s) = (\<Sum>s\<in>UNIV. f s) + d"
proof -
  have "(\<Sum>s\<in>UNIV. (f(r := f r + d)) s) = (f r + d) + (\<Sum>s\<in>UNIV - {r}. (f(r := f r + d)) s)"
    by (subst sum.remove [of _ r]) simp_all
  also have "(\<Sum>s\<in>UNIV - {r}. (f(r := f r + d)) s) = (\<Sum>s\<in>UNIV - {r}. f s)" by (rule sum.cong) auto
  also have "(f r + d) + (\<Sum>s\<in>UNIV - {r}. f s) = (\<Sum>s\<in>UNIV. f s) + d"
    by (subst sum.remove [of UNIV r f]) (simp_all add: ac_simps)
  finally show ?thesis .
qed

lemma finite_UNIV_set:
  assumes "\<And>x :: 'a. x \<in> set xs"
  shows "finite (UNIV :: 'a set)"
  by (rule finite_subset [OF _ finite_set [of xs]]) (use assms in auto)

end
