(* ===== verification/Sync_Server.thy ===== *)
theory Sync_Server
  imports Sniper_Prelude
begin

text \<open>
  Synchronisation of simulated threads: \<^verbatim>\<open>SimMutex\<close>, \<^verbatim>\<open>SimCond\<close>, \<^verbatim>\<open>SimBarrier\<close> and \<^verbatim>\<open>SyncServer\<close>
  (\<^verbatim>\<open>system/sync_server.cc\<close>), with the part of \<^verbatim>\<open>ThreadManager\<close> that stalls and resumes threads. All
  entry points run under the lock of the thread manager, so each is one atomic step. An entry point
  either returns, or stalls its thread: then the value is a function of the wake-up time that the
  later \<^verbatim>\<open>resumeThread\<close> supplies. The hooks called on a stall or resume are outside this state.
\<close>

section \<open>Threads\<close>

datatype thread_status = RUNNING | INITIALIZING | STALLED | SLEEPING | WAKING_UP | IDLE | BROKEN

datatype stall_type_t =
    STALL_UNSCHEDULED | STALL_BROKEN | STALL_JOIN | STALL_MUTEX | STALL_COND | STALL_BARRIER | STALL_FUTEX
  | STALL_PAUSE | STALL_SLEEP | STALL_SYSCALL

record ThreadState =
  th_status :: thread_status
  th_stalled_reason :: stall_type_t
  th_wakeup_time :: UInt64

type_synonym threads = "thread_id_t \<Rightarrow> ThreadState"

definition stallThread_async :: "thread_id_t \<Rightarrow> stall_type_t \<Rightarrow> threads \<Rightarrow> threads" where
  "stallThread_async t reason th = th(t := (th t)\<lparr>th_status := STALLED, th_stalled_reason := reason\<rparr>)"

definition resumeThread :: "thread_id_t \<Rightarrow> thread_id_t \<Rightarrow> UInt64 \<Rightarrow> threads \<Rightarrow> threads" where
  "resumeThread t thread_by time th = th(t := (th t)\<lparr>th_wakeup_time := time, th_status := RUNNING\<rparr>)"

datatype 'a outcome = Returns 'a | Stalls "UInt64 \<Rightarrow> 'a"

fun map_outcome_value :: "('a \<Rightarrow> 'b) \<Rightarrow> 'a outcome \<Rightarrow> 'b outcome" where
  "map_outcome_value f (Returns x) = Returns (f x)"
| "map_outcome_value f (Stalls k) = Stalls (\<lambda>t. f (k t))"

text \<open>The thread sleeps in \<^verbatim>\<open>stallThread\<close> and comes back with its wake-up time.\<close>

definition stallThread :: "thread_id_t \<Rightarrow> stall_type_t \<Rightarrow> UInt64 \<Rightarrow> threads \<Rightarrow> UInt64 outcome \<times> threads" where
  "stallThread t reason time th = (Stalls (\<lambda>wakeup. wakeup), stallThread_async t reason th)"

section \<open>SimMutex\<close>

abbreviation NO_OWNER :: thread_id_t where "NO_OWNER \<equiv> - 1"

record SimMutex =
  mx_waiting :: "thread_id_t list"
  mx_owner :: thread_id_t

definition SimMutex_new :: SimMutex where
  "SimMutex_new = \<lparr>mx_waiting = [], mx_owner = NO_OWNER\<rparr>"

definition SimMutex_isLocked :: "thread_id_t \<Rightarrow> SimMutex \<Rightarrow> bool" where
  "SimMutex_isLocked t m = (if mx_owner m = NO_OWNER then False else if mx_owner m = t then False else True)"

definition SimMutex_lock :: "thread_id_t \<Rightarrow> UInt64 \<Rightarrow> SimMutex \<Rightarrow> threads \<Rightarrow> UInt64 outcome \<times> SimMutex \<times> threads" where
  "SimMutex_lock t time m th =
     (if mx_owner m = NO_OWNER then (Returns time, m\<lparr>mx_owner := t\<rparr>, th)
      else case stallThread t STALL_MUTEX time th of
             (r, th') \<Rightarrow> (r, m\<lparr>mx_waiting := mx_waiting m @ [t]\<rparr>, th'))"

definition SimMutex_lock_async ::
  "thread_id_t \<Rightarrow> thread_id_t \<Rightarrow> UInt64 \<Rightarrow> SimMutex \<Rightarrow> threads \<Rightarrow> bool \<times> SimMutex \<times> threads" where
  "SimMutex_lock_async t thread_by time m th =
     (if mx_owner m = NO_OWNER then (True, m\<lparr>mx_owner := t\<rparr>, resumeThread t thread_by time th)
      else (False, m\<lparr>mx_waiting := mx_waiting m @ [t]\<rparr>, th))"

definition SimMutex_unlock :: "thread_id_t \<Rightarrow> UInt64 \<Rightarrow> SimMutex \<Rightarrow> threads \<Rightarrow> (thread_id_t \<times> SimMutex \<times> threads) result" where
  "SimMutex_unlock t time m th =
     bindR (assertR (mx_owner m = t) ''m_owner == thread_id'') (\<lambda>_.
     case mx_waiting m of
       [] \<Rightarrow> Inr (NO_OWNER, m\<lparr>mx_owner := NO_OWNER\<rparr>, th)
     | waiter # rest \<Rightarrow>
         Inr (waiter, m\<lparr>mx_waiting := rest, mx_owner := waiter\<rparr>, resumeThread waiter t time th))"

section \<open>SyncServer and its tables\<close>

text \<open>
  Mutexes and condition variables are keyed by the address of the pthread object; entries are
  never removed. A \<^verbatim>\<open>CondWaiter\<close> holds a pointer to its mutex, here the key of the mutex.
\<close>

record SimBarrier =
  br_waiting :: "thread_id_t list"
  br_count :: UInt32

record SyncServer =
  sy_mutexes :: "IntPtr \<Rightarrow> SimMutex option"
  sy_conds :: "IntPtr \<Rightarrow> (thread_id_t \<times> IntPtr) list option"
  sy_barriers :: "SimBarrier list"
  sy_reschedule_cost :: UInt64
  sy_threads :: threads

definition getMutex :: "IntPtr \<Rightarrow> bool \<Rightarrow> SyncServer \<Rightarrow> (SimMutex \<times> SyncServer) result" where
  "getMutex mux canCreate s =
     (case sy_mutexes s mux of
        Some m \<Rightarrow> Inr (m, s)
      | None \<Rightarrow>
          if canCreate then Inr (SimMutex_new, s\<lparr>sy_mutexes := (sy_mutexes s)(mux \<mapsto> SimMutex_new)\<rparr>)
          else Inl (LogError ''Invalid mutex id passed''))"

definition getCond :: "IntPtr \<Rightarrow> bool \<Rightarrow> SyncServer \<Rightarrow> ((thread_id_t \<times> IntPtr) list \<times> SyncServer) result" where
  "getCond cond canCreate s =
     (case sy_conds s cond of
        Some c \<Rightarrow> Inr (c, s)
      | None \<Rightarrow>
          if canCreate then Inr ([], s\<lparr>sy_conds := (sy_conds s)(cond \<mapsto> [])\<rparr>)
          else Inl (LogError ''Invalid cond id passed''))"

definition put_mutex :: "IntPtr \<Rightarrow> SimMutex \<Rightarrow> threads \<Rightarrow> SyncServer \<Rightarrow> SyncServer" where
  "put_mutex mux m th s = s\<lparr>sy_mutexes := (sy_mutexes s)(mux \<mapsto> m), sy_threads := th\<rparr>"

definition mutexInit :: "thread_id_t \<Rightarrow> IntPtr \<Rightarrow> SyncServer \<Rightarrow> SyncServer result" where
  "mutexInit t mux s = bindR (getMutex mux True s) (\<lambda>(m, s). Inr s)"

definition mutexLock ::
  "thread_id_t \<Rightarrow> IntPtr \<Rightarrow> bool \<Rightarrow> UInt64 \<Rightarrow> SyncServer \<Rightarrow> ((UInt64 \<times> bool) outcome \<times> SyncServer) result" where
  "mutexLock t mux tryLock time s =
     bindR (getMutex mux True s) (\<lambda>(m, s).
     if tryLock \<and> SimMutex_isLocked t m then Inr (Returns (time, False), s)
     else case SimMutex_lock t time m (sy_threads s) of
            (r, m', th') \<Rightarrow>
              Inr (map_outcome_value (\<lambda>time_end. (time_end + sy_reschedule_cost s, True)) r, put_mutex mux m' th' s))"

definition mutexUnlock :: "thread_id_t \<Rightarrow> IntPtr \<Rightarrow> UInt64 \<Rightarrow> SyncServer \<Rightarrow> (UInt64 \<times> SyncServer) result" where
  "mutexUnlock t mux time s =
     bindR (getMutex mux False s) (\<lambda>(m, s).
     bindR (SimMutex_unlock t (time + sy_reschedule_cost s) m (sy_threads s)) (\<lambda>(new_owner, m', th').
     Inr (time + (if new_owner = NO_OWNER then 0 else sy_reschedule_cost s), put_mutex mux m' th' s)))"

section \<open>SimCond\<close>

definition condInit :: "thread_id_t \<Rightarrow> IntPtr \<Rightarrow> SyncServer \<Rightarrow> SyncServer result" where
  "condInit t cond s = bindR (getCond cond True s) (\<lambda>(c, s). Inr s)"

definition SimCond_wait :: "IntPtr \<Rightarrow> thread_id_t \<Rightarrow> UInt64 \<Rightarrow> IntPtr \<Rightarrow> SyncServer \<Rightarrow> (UInt64 outcome \<times> SyncServer) result" where
  "SimCond_wait cond t time mux s =
     bindR (SimMutex_unlock t time (the (sy_mutexes s mux)) (sy_threads s)) (\<lambda>(new_owner, m', th').
     let s = put_mutex mux m' th' s;
         s = s\<lparr>sy_conds := (sy_conds s)(cond \<mapsto> the (sy_conds s cond) @ [(t, mux)])\<rparr>
     in case stallThread t STALL_COND time (sy_threads s) of
          (r, th'') \<Rightarrow> Inr (r, s\<lparr>sy_threads := th''\<rparr>))"

text \<open>\<open>cond_wake\<close> is the body shared by \<^verbatim>\<open>signal\<close> and the loop of \<^verbatim>\<open>broadcast\<close>.\<close>

definition cond_wake :: "thread_id_t \<Rightarrow> UInt64 \<Rightarrow> thread_id_t \<times> IntPtr \<Rightarrow> SyncServer \<Rightarrow> bool \<times> SyncServer" where
  "cond_wake t time woken s =
     (case SimMutex_lock_async (fst woken) t time (the (sy_mutexes s (snd woken))) (sy_threads s) of
        (got, m', th') \<Rightarrow> (got, put_mutex (snd woken) m' th' s))"

definition SimCond_signal :: "IntPtr \<Rightarrow> thread_id_t \<Rightarrow> UInt64 \<Rightarrow> SyncServer \<Rightarrow> thread_id_t \<times> SyncServer" where
  "SimCond_signal cond t time s =
     (case the (sy_conds s cond) of
        woken # rest \<Rightarrow>
          (case cond_wake t time woken (s\<lparr>sy_conds := (sy_conds s)(cond \<mapsto> rest)\<rparr>) of
             (got, s') \<Rightarrow> (if got then fst woken else INVALID_THREAD_ID, s'))
      | [] \<Rightarrow> (INVALID_THREAD_ID, s))"

text \<open>The loop of \<^verbatim>\<open>broadcast\<close>, by recursion on the length of the waiting queue.\<close>

primrec cond_broadcast_loop :: "nat \<Rightarrow> IntPtr \<Rightarrow> thread_id_t \<Rightarrow> UInt64 \<Rightarrow> SyncServer \<Rightarrow> SyncServer" where
  "cond_broadcast_loop 0 cond t time s = s"
| "cond_broadcast_loop (Suc k) cond t time s =
     cond_broadcast_loop k cond t time (snd (SimCond_signal cond t time s))"

definition SimCond_broadcast :: "IntPtr \<Rightarrow> thread_id_t \<Rightarrow> UInt64 \<Rightarrow> SyncServer \<Rightarrow> SyncServer" where
  "SimCond_broadcast cond t time s = cond_broadcast_loop (length (the (sy_conds s cond))) cond t time s"

definition condWait ::
  "thread_id_t \<Rightarrow> IntPtr \<Rightarrow> IntPtr \<Rightarrow> UInt64 \<Rightarrow> SyncServer \<Rightarrow> (UInt64 outcome \<times> SyncServer) result" where
  "condWait t cond mux time s =
     bindR (getMutex mux True s) (\<lambda>(m, s).
     bindR (getCond cond True s) (\<lambda>(c, s).
     SimCond_wait cond t time mux s))"

definition condSignal :: "thread_id_t \<Rightarrow> IntPtr \<Rightarrow> UInt64 \<Rightarrow> SyncServer \<Rightarrow> (UInt64 \<times> SyncServer) result" where
  "condSignal t cond time s =
     bindR (getCond cond True s) (\<lambda>(c, s). Inr (time, snd (SimCond_signal cond t time s)))"

definition condBroadcast :: "thread_id_t \<Rightarrow> IntPtr \<Rightarrow> UInt64 \<Rightarrow> SyncServer \<Rightarrow> (UInt64 \<times> SyncServer) result" where
  "condBroadcast t cond time s =
     bindR (getCond cond True s) (\<lambda>(c, s). Inr (time, SimCond_broadcast cond t time s))"

section \<open>SimBarrier\<close>

text \<open>\<^verbatim>\<open>m_count - 1\<close> is computed in 32 bits.\<close>

definition SimBarrier_wait :: "thread_id_t \<Rightarrow> UInt64 \<Rightarrow> SimBarrier \<Rightarrow> threads \<Rightarrow> UInt64 outcome \<times> SimBarrier \<times> threads" where
  "SimBarrier_wait t time b th =
     (if length (br_waiting b) = unat (br_count b - 1)
      then (Returns time, b\<lparr>br_waiting := []\<rparr>, fold (\<lambda>waiter. resumeThread waiter t time) (br_waiting b) th)
      else case stallThread t STALL_BARRIER time th of
             (r, th') \<Rightarrow> (r, b\<lparr>br_waiting := br_waiting b @ [t]\<rparr>, th'))"

definition barrierInit :: "thread_id_t \<Rightarrow> UInt32 \<Rightarrow> SyncServer \<Rightarrow> nat \<times> SyncServer" where
  "barrierInit t count s =
     (let s = s\<lparr>sy_barriers := sy_barriers s @ [\<lparr>br_waiting = [], br_count = count\<rparr>]\<rparr>
      in (length (sy_barriers s) - 1, s))"

definition barrierWait :: "thread_id_t \<Rightarrow> nat \<Rightarrow> UInt64 \<Rightarrow> SyncServer \<Rightarrow> (UInt64 outcome \<times> SyncServer) result" where
  "barrierWait t barrier time s =
     (if barrier < length (sy_barriers s)
      then case SimBarrier_wait t time (sy_barriers s ! barrier) (sy_threads s) of
             (r, b', th') \<Rightarrow> Inr (r, s\<lparr>sy_barriers := (sy_barriers s)[barrier := b'], sy_threads := th'\<rparr>)
      else Inl (Trap ''m_barriers out of range''))"

section \<open>Wait queues, abstractly\<close>

text \<open>
  The abstract view of the server is one FIFO queue per object together with the set of threads
  that are stalled for a synchronisation reason. In a good state every stalled thread is in exactly one queue,
  once, and no other thread is in a queue: this is what makes a wake-up impossible to lose.
\<close>

datatype wait_queue = QMutex IntPtr | QCond IntPtr | QBarrier nat

fun queue_of :: "SyncServer \<Rightarrow> wait_queue \<Rightarrow> thread_id_t list" where
  "queue_of s (QMutex mux) = (case sy_mutexes s mux of None \<Rightarrow> [] | Some m \<Rightarrow> mx_waiting m)"
| "queue_of s (QCond cond) = (case sy_conds s cond of None \<Rightarrow> [] | Some c \<Rightarrow> map fst c)"
| "queue_of s (QBarrier b) = (if b < length (sy_barriers s) then br_waiting (sy_barriers s ! b) else [])"

definition sync_stalled :: "ThreadState \<Rightarrow> bool" where
  "sync_stalled x = (th_status x = STALLED \<and> th_stalled_reason x \<in> {STALL_MUTEX, STALL_COND, STALL_BARRIER})"

definition stalled_set :: "threads \<Rightarrow> thread_id_t set" where
  "stalled_set th = {t. sync_stalled (th t)}"

definition waits_ok :: "(wait_queue \<Rightarrow> thread_id_t list) \<Rightarrow> thread_id_t set \<Rightarrow> bool" where
  "waits_ok Q S =
     ((\<forall>q. distinct (Q q)) \<and> (\<forall>q q' t. t \<in> set (Q q) \<longrightarrow> t \<in> set (Q q') \<longrightarrow> q = q') \<and> S = (\<Union>q. set (Q q)))"

lemma waits_ok_park:
  assumes "waits_ok Q S" "t \<notin> S"
  shows "waits_ok (Q(q := Q q @ [t])) (insert t S)"
proof -
  have n: "t \<notin> set (Q q')" for q' using assms by (auto simp: waits_ok_def)
  show ?thesis using assms n unfolding waits_ok_def by (auto split: if_splits)
qed

lemma waits_ok_wake:
  assumes ok: "waits_ok Q S" and q: "Q q = t # rest"
  shows "waits_ok (Q(q := rest)) (S - {t})"
proof -
  have d: "t \<notin> set rest" "distinct rest" using ok q by (auto simp: waits_ok_def dest: spec[of _ q])
  have o: "q' = q" if "t \<in> set (Q q')" for q'
    using ok q that unfolding waits_ok_def by (metis list.set_intros(1))
  have sub: "set rest \<subseteq> set (Q q)" using q by auto
  have U: "S - {t} = (\<Union>q'. set ((Q(q := rest)) q'))"
  proof -
    have S: "S = set (Q q) \<union> (\<Union>q' \<in> - {q}. set (Q q'))" using ok by (auto simp: waits_ok_def)
    have R: "(\<Union>q'. set ((Q(q := rest)) q')) = set rest \<union> (\<Union>q' \<in> - {q}. set (Q q'))"
      by (auto split: if_splits)
    have "t \<notin> (\<Union>q' \<in> - {q}. set (Q q'))" using o by auto
    then show ?thesis unfolding R S using q d(1) by auto
  qed
  show ?thesis unfolding waits_ok_def
  proof (intro conjI allI impI)
    show "distinct ((Q(q := rest)) q')" for q' using ok d(2) by (simp add: waits_ok_def)
    fix q1 q2 x
    assume "x \<in> set ((Q(q := rest)) q1)" "x \<in> set ((Q(q := rest)) q2)"
    then have "x \<in> set (Q q1)" "x \<in> set (Q q2)" using sub by (auto split: if_splits)
    then show "q1 = q2" using ok by (auto simp: waits_ok_def)
  next
    show "S - {t} = (\<Union>q'. set ((Q(q := rest)) q'))" by (rule U)
  qed
qed

lemma waits_ok_move:
  assumes ok: "waits_ok Q S" and q: "Q q = t # rest" and ne: "q' \<noteq> q"
  shows "waits_ok (Q(q := rest, q' := Q q' @ [t])) S"
proof -
  have t: "t \<in> S" using ok q by (auto simp: waits_ok_def intro: exI[of _ q])
  have "waits_ok ((Q(q := rest))(q' := (Q(q := rest)) q' @ [t])) (insert t (S - {t}))"
    by (rule waits_ok_park [OF waits_ok_wake [OF ok q]]) simp
  then show ?thesis using t ne by (simp add: insert_absorb)
qed

lemma waits_ok_flush:
  assumes "waits_ok Q S"
  shows "waits_ok (Q(q := [])) (S - set (Q q))"
  using assms unfolding waits_ok_def by (auto split: if_splits)

section \<open>The invariant\<close>

definition mutex_ok :: "SimMutex \<Rightarrow> bool" where
  "mutex_ok m = ((mx_owner m = NO_OWNER \<longrightarrow> mx_waiting m = []) \<and> NO_OWNER \<notin> set (mx_waiting m))"

definition sync_ok :: "SyncServer \<Rightarrow> bool" where
  "sync_ok s =
     (waits_ok (queue_of s) (stalled_set (sy_threads s))
      \<and> (\<forall>mux m. sy_mutexes s mux = Some m \<longrightarrow> mutex_ok m)
      \<and> (\<forall>cond c. sy_conds s cond = Some c \<longrightarrow> (\<forall>w \<in> set c. fst w \<noteq> NO_OWNER \<and> sy_mutexes s (snd w) \<noteq> None))
      \<and> (\<forall>b \<in> set (sy_barriers s). length (br_waiting b) \<le> unat (br_count b - 1)))"

lemma stalled_set_stall [simp]:
  "reason \<in> {STALL_MUTEX, STALL_COND, STALL_BARRIER}
   \<Longrightarrow> stalled_set (stallThread_async t reason th) = insert t (stalled_set th)"
  by (auto simp: stalled_set_def stallThread_async_def sync_stalled_def)

lemma stalled_set_resume [simp]: "stalled_set (resumeThread t by_t time th) = stalled_set th - {t}"
  by (auto simp: stalled_set_def resumeThread_def sync_stalled_def)

lemma stalled_set_resume_all:
  "stalled_set (fold (\<lambda>w. resumeThread w t time) ws th) = stalled_set th - set ws"
  by (induction ws arbitrary: th) auto

lemma queue_of_put_mutex: "queue_of (put_mutex mux m th s) = (queue_of s)(QMutex mux := mx_waiting m)"
proof
  show "queue_of (put_mutex mux m th s) q = ((queue_of s)(QMutex mux := mx_waiting m)) q" for q
    by (cases q) (auto simp: put_mutex_def)
qed

lemma queue_of_set_cond:
  "queue_of (s\<lparr>sy_conds := (sy_conds s)(cond \<mapsto> c)\<rparr>) = (queue_of s)(QCond cond := map fst c)"
proof
  show "queue_of (s\<lparr>sy_conds := (sy_conds s)(cond \<mapsto> c)\<rparr>) q = ((queue_of s)(QCond cond := map fst c)) q" for q
    by (cases q) auto
qed

lemma queue_of_set_barrier:
  "b < length (sy_barriers s) \<Longrightarrow>
   queue_of (s\<lparr>sy_barriers := (sy_barriers s)[b := x], sy_threads := th\<rparr>) = (queue_of s)(QBarrier b := br_waiting x)"
proof
  assume "b < length (sy_barriers s)"
  then show "queue_of (s\<lparr>sy_barriers := (sy_barriers s)[b := x], sy_threads := th\<rparr>) q
             = ((queue_of s)(QBarrier b := br_waiting x)) q" for q
    by (cases q) (auto simp: nth_list_update)
qed

lemma queue_of_threads [simp]: "queue_of (s\<lparr>sy_threads := th\<rparr>) = queue_of s"
proof
  show "queue_of (s\<lparr>sy_threads := th\<rparr>) q = queue_of s q" for q by (cases q) auto
qed

lemma sync_okD:
  assumes "sync_ok s"
  shows "waits_ok (queue_of s) (stalled_set (sy_threads s))"
    "sy_mutexes s mux = Some m \<Longrightarrow> mutex_ok m"
    "sy_conds s cond = Some c \<Longrightarrow> w \<in> set c \<Longrightarrow> fst w \<noteq> NO_OWNER \<and> sy_mutexes s (snd w) \<noteq> None"
    "b \<in> set (sy_barriers s) \<Longrightarrow> length (br_waiting b) \<le> unat (br_count b - 1)"
  using assms unfolding sync_ok_def by blast+

lemma sync_ok_put_mutex:
  assumes "sync_ok s" "mutex_ok m"
    "waits_ok ((queue_of s)(QMutex mux := mx_waiting m)) (stalled_set th)"
  shows "sync_ok (put_mutex mux m th s)"
  using assms unfolding sync_ok_def queue_of_put_mutex by (simp add: put_mutex_def)

lemma sync_ok_set_cond:
  assumes ok: "sync_ok s" and w: "\<forall>w \<in> set c. fst w \<noteq> NO_OWNER \<and> sy_mutexes s (snd w) \<noteq> None"
    and q: "waits_ok ((queue_of s)(QCond cond := map fst c)) (stalled_set (sy_threads s))"
  shows "sync_ok (s\<lparr>sy_conds := (sy_conds s)(cond \<mapsto> c)\<rparr>)"
  using assms unfolding sync_ok_def queue_of_set_cond by simp

lemma getMutex_ok:
  assumes "sync_ok s" "getMutex mux c s = Inr (m, s')"
  shows "sync_ok s' \<and> sy_mutexes s' mux = Some m \<and> sy_threads s' = sy_threads s \<and> sy_conds s' = sy_conds s
    \<and> queue_of s' = queue_of s \<and> sy_reschedule_cost s' = sy_reschedule_cost s"
proof (cases "sy_mutexes s mux")
  case None
  let ?p = "put_mutex mux SimMutex_new (sy_threads s) s"
  have q: "(queue_of s)(QMutex mux := []) = queue_of s" using None by (simp add: fun_upd_idem)
  have s': "s' = ?p" "m = SimMutex_new"
    using assms(2) None by (auto simp: getMutex_def put_mutex_def split: if_splits)
  have "sync_ok ?p"
    by (rule sync_ok_put_mutex) (use assms(1) q in \<open>simp_all add: mutex_ok_def SimMutex_new_def sync_okD\<close>)
  then show ?thesis using q unfolding s' queue_of_put_mutex by (simp add: put_mutex_def SimMutex_new_def)
qed (use assms in \<open>simp add: getMutex_def\<close>)

lemma getCond_ok:
  assumes "sync_ok s" "getCond cond b s = Inr (c, s')"
  shows "sync_ok s' \<and> sy_conds s' cond = Some c \<and> sy_threads s' = sy_threads s \<and> sy_mutexes s' = sy_mutexes s
    \<and> queue_of s' = queue_of s"
proof (cases "sy_conds s cond")
  case None
  have q: "(queue_of s)(QCond cond := []) = queue_of s" using None by (simp add: fun_upd_idem)
  have s': "s' = s\<lparr>sy_conds := (sy_conds s)(cond \<mapsto> [])\<rparr>" "c = []"
    using assms(2) None by (auto simp: getCond_def split: if_splits)
  have "sync_ok s'" unfolding s'
    by (rule sync_ok_set_cond) (use assms(1) q in \<open>simp_all add: sync_okD\<close>)
  then show ?thesis using q unfolding s' queue_of_set_cond by simp
qed (use assms in \<open>simp add: getCond_def\<close>)

lemma queue_of_mutex: "sy_mutexes s mux = Some m \<Longrightarrow> queue_of s (QMutex mux) = mx_waiting m"
  by simp

lemma SimMutex_lock_ok:
  assumes ok: "sync_ok s" and m: "sy_mutexes s mux = Some m"
    and t: "t \<noteq> NO_OWNER" "t \<notin> stalled_set (sy_threads s)"
    and l: "SimMutex_lock t time m (sy_threads s) = (r, m', th')"
  shows "sync_ok (put_mutex mux m' th' s)"
proof (rule sync_ok_put_mutex [OF ok])
  have mo: "mutex_ok m" by (rule sync_okD(2) [OF ok m])
  show "mutex_ok m'" using l mo t(1)
    by (auto simp: SimMutex_lock_def mutex_ok_def stallThread_def split: if_splits)
  note W = sync_okD(1) [OF ok]
  show "waits_ok ((queue_of s)(QMutex mux := mx_waiting m')) (stalled_set th')"
    using l W waits_ok_park [OF W t(2), of "QMutex mux"] m
    by (auto simp: SimMutex_lock_def stallThread_def fun_upd_idem split: if_splits)
qed

lemma SimMutex_unlock_ok:
  assumes ok: "sync_ok s" and m: "sy_mutexes s mux = Some m"
    and l: "SimMutex_unlock t time m (sy_threads s) = Inr (new_owner, m', th')"
  shows "sync_ok (put_mutex mux m' th' s)"
proof (rule sync_ok_put_mutex [OF ok])
  have mo: "mutex_ok m" by (rule sync_okD(2) [OF ok m])
  show "mutex_ok m'" using l mo
    by (auto simp: SimMutex_unlock_def mutex_ok_def split: list.splits)
  note W = sync_okD(1) [OF ok]
  show "waits_ok ((queue_of s)(QMutex mux := mx_waiting m')) (stalled_set th')"
  proof (cases "mx_waiting m")
    case Nil
    then show ?thesis using l W m by (auto simp: SimMutex_unlock_def fun_upd_idem)
  next
    case (Cons w rest)
    then show ?thesis using l m waits_ok_wake [OF W, of "QMutex mux" w rest]
      by (auto simp: SimMutex_unlock_def)
  qed
qed

lemma mutexLock_ok:
  assumes "sync_ok s" "t \<noteq> NO_OWNER" "t \<notin> stalled_set (sy_threads s)" "mutexLock t mux tr time s = Inr (r, s')"
  shows "sync_ok s'"
proof -
  obtain m s1 where g: "getMutex mux True s = Inr (m, s1)" using assms(4) by (auto simp: mutexLock_def)
  note G = getMutex_ok [OF assms(1) g]
  obtain r1 m1 th1 where l: "SimMutex_lock t time m (sy_threads s1) = (r1, m1, th1)" by (metis prod_cases3)
  have "sync_ok (put_mutex mux m1 th1 s1)" by (rule SimMutex_lock_ok [OF _ _ assms(2) _ l]) (use G assms(3) in auto)
  then show ?thesis using assms(4) g G l by (auto simp: mutexLock_def split: if_splits)
qed

lemma mutexUnlock_ok:
  assumes "sync_ok s" "mutexUnlock t mux time s = Inr (r, s')"
  shows "sync_ok s'"
proof -
  obtain m s1 n m1 th1 where g: "getMutex mux False s = Inr (m, s1)"
    and l: "SimMutex_unlock t (time + sy_reschedule_cost s1) m (sy_threads s1) = Inr (n, m1, th1)"
    and s': "s' = put_mutex mux m1 th1 s1"
    using assms(2) by (auto simp: mutexUnlock_def)
  note G = getMutex_ok [OF assms(1) g]
  show ?thesis unfolding s' by (rule SimMutex_unlock_ok [OF _ _ l]) (use G in auto)
qed

lemma sync_ok_park_cond:
  assumes ok: "sync_ok s" and t: "t \<noteq> NO_OWNER" "t \<notin> stalled_set (sy_threads s)"
    and c: "sy_conds s cond = Some c" and mux: "sy_mutexes s mux \<noteq> None"
  shows "sync_ok (s\<lparr>sy_conds := (sy_conds s)(cond \<mapsto> c @ [(t, mux)]), sy_threads := stallThread_async t STALL_COND (sy_threads s)\<rparr>)"
    (is "sync_ok ?s")
proof -
  have "queue_of ?s = queue_of (s\<lparr>sy_conds := (sy_conds s)(cond \<mapsto> c @ [(t, mux)])\<rparr>)"
    by (rule queue_of_threads)
  also have "\<dots> = (queue_of s)(QCond cond := queue_of s (QCond cond) @ [t])"
    unfolding queue_of_set_cond using c by simp
  finally have Q: "queue_of ?s = (queue_of s)(QCond cond := queue_of s (QCond cond) @ [t])" .
  have "waits_ok (queue_of ?s) (stalled_set (sy_threads ?s))"
    unfolding Q using waits_ok_park [OF sync_okD(1) [OF ok] t(2), of "QCond cond"] by simp
  then show ?thesis unfolding sync_ok_def using ok c t mux by (auto simp: sync_ok_def)
qed

lemma SimCond_wait_ok:
  assumes ok: "sync_ok s" and t: "t \<noteq> NO_OWNER" "t \<notin> stalled_set (sy_threads s)"
    and c: "sy_conds s cond = Some c" and m: "sy_mutexes s mux = Some m"
    and w: "SimCond_wait cond t time mux s = Inr (r, s')"
  shows "sync_ok s'"
proof -
  obtain n m1 th1 where u: "SimMutex_unlock t time m (sy_threads s) = Inr (n, m1, th1)"
    using w m by (auto simp: SimCond_wait_def)
  have s': "s' = (put_mutex mux m1 th1 s)\<lparr>sy_conds := (sy_conds s)(cond \<mapsto> c @ [(t, mux)]), sy_threads := stallThread_async t STALL_COND th1\<rparr>"
    using w m c u by (auto simp: SimCond_wait_def stallThread_def put_mutex_def)
  have th: "stalled_set th1 \<subseteq> stalled_set (sy_threads s)"
    using u by (auto simp: SimMutex_unlock_def split: list.splits)
  have ok1: "sync_ok (put_mutex mux m1 th1 s)" by (rule SimMutex_unlock_ok [OF ok m u])
  show ?thesis using sync_ok_park_cond [OF ok1 t(1), of cond c mux] t(2) th c
    unfolding s' by (auto simp: put_mutex_def)
qed

lemma condWait_ok:
  assumes "sync_ok s" "t \<noteq> NO_OWNER" "t \<notin> stalled_set (sy_threads s)" "condWait t cond mux time s = Inr (r, s')"
  shows "sync_ok s'"
proof -
  obtain m s1 c s2 where g: "getMutex mux True s = Inr (m, s1)" "getCond cond True s1 = Inr (c, s2)"
    and w: "SimCond_wait cond t time mux s2 = Inr (r, s')"
    using assms(4) by (auto simp: condWait_def)
  note G = getMutex_ok [OF assms(1) g(1)]
  then have ok1: "sync_ok s1" by blast
  note H = getCond_ok [OF ok1 g(2)]
  show ?thesis by (rule SimCond_wait_ok [OF _ assms(2) _ _ _ w]) (use G H assms(3) in auto)
qed

lemma SimCond_signal_Cons:
  assumes "sy_conds s cond = Some ((w, mux) # rest)" "sy_mutexes s mux = Some m"
  shows "snd (SimCond_signal cond t time s) =
     (if mx_owner m = NO_OWNER
      then put_mutex mux (m\<lparr>mx_owner := w\<rparr>) (resumeThread w t time (sy_threads s)) (s\<lparr>sy_conds := (sy_conds s)(cond \<mapsto> rest)\<rparr>)
      else put_mutex mux (m\<lparr>mx_waiting := mx_waiting m @ [w]\<rparr>) (sy_threads s) (s\<lparr>sy_conds := (sy_conds s)(cond \<mapsto> rest)\<rparr>))"
  using assms by (simp add: SimCond_signal_def cond_wake_def SimMutex_lock_async_def)

lemma sync_ok_signal_state:
  assumes ok: "sync_ok s" and c: "sy_conds s cond = Some ((w, mux) # rest)" and mo: "mutex_ok m"
    and W: "waits_ok ((queue_of s)(QCond cond := map fst rest, QMutex mux := mx_waiting m)) (stalled_set th)"
  shows "sync_ok (put_mutex mux m th (s\<lparr>sy_conds := (sy_conds s)(cond \<mapsto> rest)\<rparr>))" (is "sync_ok ?s")
proof -
  have Q: "queue_of ?s = (queue_of s)(QCond cond := map fst rest, QMutex mux := mx_waiting m)"
    by (simp only: queue_of_put_mutex queue_of_set_cond)
  show ?thesis unfolding sync_ok_def Q using ok c mo W
    by (auto simp: sync_ok_def put_mutex_def)
qed

lemma SimCond_signal_ok:
  assumes ok: "sync_ok s" and c: "sy_conds s cond = Some c"
  shows "sync_ok (snd (SimCond_signal cond t time s))"
proof (cases c)
  case Nil
  then show ?thesis using ok c by (simp add: SimCond_signal_def)
next
  case (Cons wm rest)
  obtain w mux where wm: "wm = (w, mux)" by force
  have c': "sy_conds s cond = Some ((w, mux) # rest)" using c Cons wm by simp
  obtain m where m: "sy_mutexes s mux = Some m" and w: "w \<noteq> NO_OWNER"
    using sync_okD(3) [OF ok c', of "(w, mux)"] by auto
  have mo: "mutex_ok m" by (rule sync_okD(2) [OF ok m])
  note W = sync_okD(1) [OF ok]
  have q: "queue_of s (QCond cond) = w # map fst rest" using c' by simp
  show ?thesis
  proof (cases "mx_owner m = NO_OWNER")
    case True
    then have nw: "mx_waiting m = []" using mo by (simp add: mutex_ok_def)
    have "(queue_of s)(QCond cond := map fst rest, QMutex mux := []) = (queue_of s)(QCond cond := map fst rest)"
      using m nw by (auto simp: fun_eq_iff)
    then have "waits_ok ((queue_of s)(QCond cond := map fst rest, QMutex mux := mx_waiting (m\<lparr>mx_owner := w\<rparr>)))
        (stalled_set (resumeThread w t time (sy_threads s)))"
      using waits_ok_wake [OF W q] nw by simp
    then show ?thesis unfolding SimCond_signal_Cons [OF c' m] using True nw w
      by (auto intro!: sync_ok_signal_state [OF ok c'] simp: mutex_ok_def)
  next
    case False
    have "waits_ok ((queue_of s)(QCond cond := map fst rest, QMutex mux := queue_of s (QMutex mux) @ [w])) (stalled_set (sy_threads s))"
      by (rule waits_ok_move [OF W q]) simp
    then show ?thesis unfolding SimCond_signal_Cons [OF c' m] using False mo w m
      by (auto intro!: sync_ok_signal_state [OF ok c'] simp: mutex_ok_def)
  qed
qed

lemma SimCond_signal_conds:
  "sy_conds s cond = Some c \<Longrightarrow> sy_conds (snd (SimCond_signal cond t time s)) cond = Some (tl c)"
  by (cases c) (auto simp: SimCond_signal_def cond_wake_def put_mutex_def split: prod.splits)

lemma cond_broadcast_loop_ok:
  "sync_ok s \<Longrightarrow> sy_conds s cond = Some c \<Longrightarrow> sync_ok (cond_broadcast_loop k cond t time s)"
proof (induction k arbitrary: s c)
  case (Suc k)
  then show ?case using SimCond_signal_ok [of s cond c] SimCond_signal_conds [of s cond c] by simp
qed simp

lemma condSignal_ok:
  assumes "sync_ok s" "condSignal t cond time s = Inr (r, s')"
  shows "sync_ok s'"
proof -
  obtain c s1 where g: "getCond cond True s = Inr (c, s1)" and s': "s' = snd (SimCond_signal cond t time s1)"
    using assms(2) by (auto simp: condSignal_def)
  show ?thesis unfolding s' using getCond_ok [OF assms(1) g] by (auto intro: SimCond_signal_ok)
qed

lemma condBroadcast_ok:
  assumes "sync_ok s" "condBroadcast t cond time s = Inr (r, s')"
  shows "sync_ok s'"
proof -
  obtain c s1 where g: "getCond cond True s = Inr (c, s1)" and s': "s' = SimCond_broadcast cond t time s1"
    using assms(2) by (auto simp: condBroadcast_def)
  show ?thesis unfolding s' SimCond_broadcast_def using getCond_ok [OF assms(1) g]
    by (auto intro: cond_broadcast_loop_ok)
qed

lemma sync_ok_set_barrier:
  assumes ok: "sync_ok s" and b: "b < length (sy_barriers s)"
    and l: "length (br_waiting x) \<le> unat (br_count x - 1)"
    and W: "waits_ok ((queue_of s)(QBarrier b := br_waiting x)) (stalled_set th)"
  shows "sync_ok (s\<lparr>sy_barriers := (sy_barriers s)[b := x], sy_threads := th\<rparr>)"
proof -
  have "\<forall>y \<in> set ((sy_barriers s)[b := x]). length (br_waiting y) \<le> unat (br_count y - 1)"
    using sync_okD(4) [OF ok] l set_update_subset_insert [of "sy_barriers s" b x] by auto
  then show ?thesis unfolding sync_ok_def queue_of_set_barrier [OF b] using ok W by (simp add: sync_ok_def)
qed

lemma barrierWait_ok:
  assumes ok: "sync_ok s" and t: "t \<notin> stalled_set (sy_threads s)" and w: "barrierWait t b time s = Inr (r, s')"
  shows "sync_ok s'"
proof -
  let ?b = "sy_barriers s ! b"
  have b: "b < length (sy_barriers s)" using w by (auto simp: barrierWait_def split: if_splits)
  note W = sync_okD(1) [OF ok]
  have l: "length (br_waiting ?b) \<le> unat (br_count ?b - 1)" using ok b by (simp add: sync_okD)
  have q: "queue_of s (QBarrier b) = br_waiting ?b" using b by simp
  show ?thesis
  proof (cases "length (br_waiting ?b) = unat (br_count ?b - 1)")
    case True
    then have s': "s' = s\<lparr>sy_barriers := (sy_barriers s)[b := ?b\<lparr>br_waiting := []\<rparr>],
        sy_threads := fold (\<lambda>w. resumeThread w t time) (br_waiting ?b) (sy_threads s)\<rparr>"
      using w b by (simp add: barrierWait_def SimBarrier_wait_def)
    show ?thesis unfolding s'
      by (rule sync_ok_set_barrier [OF ok b]) (use waits_ok_flush [OF W, of "QBarrier b"] q b in \<open>simp_all add: stalled_set_resume_all\<close>)
  next
    case False
    then have s': "s' = s\<lparr>sy_barriers := (sy_barriers s)[b := ?b\<lparr>br_waiting := br_waiting ?b @ [t]\<rparr>],
        sy_threads := stallThread_async t STALL_BARRIER (sy_threads s)\<rparr>"
      using w b by (simp add: barrierWait_def SimBarrier_wait_def stallThread_def)
    show ?thesis unfolding s'
      by (rule sync_ok_set_barrier [OF ok b]) (use waits_ok_park [OF W t, of "QBarrier b"] q b l False in simp_all)
  qed
qed

lemma barrierInit_ok:
  assumes "sync_ok s"
  shows "sync_ok (snd (barrierInit t count s))"
proof -
  let ?s = "s\<lparr>sy_barriers := sy_barriers s @ [\<lparr>br_waiting = [], br_count = count\<rparr>]\<rparr>"
  have "queue_of ?s q = queue_of s q" for q by (cases q) (auto simp: nth_append)
  then have "queue_of ?s = queue_of s" by auto
  then have "sync_ok ?s" using assms by (auto simp: sync_ok_def)
  then show ?thesis by (simp add: barrierInit_def)
qed

section \<open>The server as a state machine\<close>

text \<open>
  A call is made by a running thread. Other parts of the simulator (thread creation, joins, futexes, the
  scheduler) change threads that are not waiting here: \<open>env\<close>.
\<close>

definition can_call :: "SyncServer \<Rightarrow> thread_id_t \<Rightarrow> bool" where
  "can_call s t = (t \<noteq> NO_OWNER \<and> th_status (sy_threads s t) = RUNNING)"

definition sync_init :: "SyncServer \<Rightarrow> bool" where
  "sync_init s = (sy_mutexes s = Map.empty \<and> sy_conds s = Map.empty \<and> sy_barriers s = [] \<and> stalled_set (sy_threads s) = {})"

inductive sync_step :: "SyncServer \<Rightarrow> SyncServer \<Rightarrow> bool" where
  mutex_init: "mutexInit t mux s = Inr s' \<Longrightarrow> sync_step s s'"
| mutex_lock: "can_call s t \<Longrightarrow> mutexLock t mux tr time s = Inr (r, s') \<Longrightarrow> sync_step s s'"
| mutex_unlock: "can_call s t \<Longrightarrow> mutexUnlock t mux time s = Inr (r', s') \<Longrightarrow> sync_step s s'"
| cond_init: "condInit t cond s = Inr s' \<Longrightarrow> sync_step s s'"
| cond_wait: "can_call s t \<Longrightarrow> condWait t cond mux time s = Inr (r'', s') \<Longrightarrow> sync_step s s'"
| cond_signal: "can_call s t \<Longrightarrow> condSignal t cond time s = Inr (r', s') \<Longrightarrow> sync_step s s'"
| cond_broadcast: "can_call s t \<Longrightarrow> condBroadcast t cond time s = Inr (r', s') \<Longrightarrow> sync_step s s'"
| barrier_init: "barrierInit t count s = (i, s') \<Longrightarrow> sync_step s s'"
| barrier_wait: "can_call s t \<Longrightarrow> barrierWait t b time s = Inr (r'', s') \<Longrightarrow> sync_step s s'"
| env: "\<not> sync_stalled (sy_threads s t) \<Longrightarrow> \<not> sync_stalled x \<Longrightarrow>
    sync_step s (s\<lparr>sy_threads := (sy_threads s)(t := x)\<rparr>)"

lemma can_callD: "can_call s t \<Longrightarrow> t \<noteq> NO_OWNER" "can_call s t \<Longrightarrow> t \<notin> stalled_set (sy_threads s)"
  by (auto simp: can_call_def stalled_set_def sync_stalled_def)

lemma sync_step_ok:
  assumes "sync_step s s'" "sync_ok s"
  shows "sync_ok s'"
  using assms
proof (induction rule: sync_step.induct)
  case (mutex_init t mux s s')
  then show ?case using getMutex_ok by (fastforce simp: mutexInit_def)
next
  case (cond_init t cond s s')
  then show ?case using getCond_ok by (fastforce simp: condInit_def)
next
  case (barrier_init t count s i s')
  then show ?case using barrierInit_ok [of s t count] by simp
next
  case (env s t x)
  have "stalled_set ((sy_threads s)(t := x)) = stalled_set (sy_threads s)"
    using env by (auto simp: stalled_set_def)
  then show ?case using env(3) by (simp add: sync_ok_def)
next
  case (mutex_lock s t mux tr time r s')
  show ?case by (rule mutexLock_ok [OF mutex_lock(3) can_callD(1) [OF mutex_lock(1)] can_callD(2) [OF mutex_lock(1)] mutex_lock(2)])
next
  case (mutex_unlock s t mux time r' s')
  show ?case by (rule mutexUnlock_ok [OF mutex_unlock(3) mutex_unlock(2)])
next
  case (cond_wait s t cond mux time r'' s')
  show ?case by (rule condWait_ok [OF cond_wait(3) can_callD(1) [OF cond_wait(1)] can_callD(2) [OF cond_wait(1)] cond_wait(2)])
next
  case (cond_signal s t cond time r' s')
  show ?case by (rule condSignal_ok [OF cond_signal(3) cond_signal(2)])
next
  case (cond_broadcast s t cond time r' s')
  show ?case by (rule condBroadcast_ok [OF cond_broadcast(3) cond_broadcast(2)])
next
  case (barrier_wait s t b time r'' s')
  show ?case by (rule barrierWait_ok [OF barrier_wait(3) can_callD(2) [OF barrier_wait(1)] barrier_wait(2)])
qed

lemma sync_init_ok: "sync_init s \<Longrightarrow> sync_ok s"
proof -
  assume a: "sync_init s"
  then have "queue_of s q = []" for q by (cases q) (auto simp: sync_init_def)
  then show ?thesis using a by (simp add: sync_ok_def sync_init_def waits_ok_def)
qed

interpretation sync: inductive_invariant sync_init sync_step sync_ok
  by unfold_locales (auto intro: sync_init_ok sync_step_ok)

section \<open>Runs of calls\<close>

text \<open>Several threads make the same call one after the other.\<close>

fun lock_all :: "IntPtr \<Rightarrow> UInt64 \<Rightarrow> thread_id_t list \<Rightarrow> SyncServer \<Rightarrow> SyncServer result" where
  "lock_all mux time [] s = Inr s"
| "lock_all mux time (t # ts) s = bindR (mutexLock t mux False time s) (\<lambda>(r, s). lock_all mux time ts s)"

fun unlock_all :: "IntPtr \<Rightarrow> UInt64 \<Rightarrow> thread_id_t list \<Rightarrow> SyncServer \<Rightarrow> SyncServer result" where
  "unlock_all mux time [] s = Inr s"
| "unlock_all mux time (t # ts) s = bindR (mutexUnlock t mux time s) (\<lambda>(r, s). unlock_all mux time ts s)"

fun barrier_all :: "nat \<Rightarrow> UInt64 \<Rightarrow> thread_id_t list \<Rightarrow> SyncServer \<Rightarrow> SyncServer result" where
  "barrier_all b time [] s = Inr s"
| "barrier_all b time (t # ts) s = bindR (barrierWait t b time s) (\<lambda>(r, s). barrier_all b time ts s)"

definition mutex_free :: "IntPtr \<Rightarrow> SyncServer \<Rightarrow> bool" where
  "mutex_free mux s = (case sy_mutexes s mux of None \<Rightarrow> True | Some m \<Rightarrow> mx_owner m = NO_OWNER)"

lemma put_mutex_simps [simp]:
  "sy_mutexes (put_mutex mux m th s) mux = Some m"
  "sy_threads (put_mutex mux m th s) = th"
  "sy_conds (put_mutex mux m th s) = sy_conds s"
  "sy_reschedule_cost (put_mutex mux m th s) = sy_reschedule_cost s"
  "put_mutex mux m' th' (put_mutex mux m th s) = put_mutex mux m' th' s"
  by (simp_all add: put_mutex_def)

lemma lock_all_held:
  "sy_mutexes s mux = Some m \<Longrightarrow> mx_owner m \<noteq> NO_OWNER \<Longrightarrow>
   lock_all mux time ts s
   = Inr (put_mutex mux (m\<lparr>mx_waiting := mx_waiting m @ ts\<rparr>) (fold (\<lambda>t. stallThread_async t STALL_MUTEX) ts (sy_threads s)) s)"
proof (induction ts arbitrary: s m)
  case Nil
  then show ?case by (simp add: put_mutex_def fun_upd_idem)
next
  case (Cons t ts)
  let ?m = "m\<lparr>mx_waiting := mx_waiting m @ [t]\<rparr>"
  show ?case
    using Cons.prems Cons.IH [of "put_mutex mux ?m (stallThread_async t STALL_MUTEX (sy_threads s)) s" ?m]
    by (simp add: mutexLock_def getMutex_def SimMutex_lock_def stallThread_def)
qed

lemma lock_all_free:
  assumes ok: "sync_ok s" and f: "mutex_free mux s" and t: "t \<noteq> NO_OWNER"
  shows "lock_all mux time (t # ts) s
    = Inr (put_mutex mux \<lparr>mx_waiting = ts, mx_owner = t\<rparr> (fold (\<lambda>t. stallThread_async t STALL_MUTEX) ts (sy_threads s)) s)"
proof -
  obtain m s1 where g: "getMutex mux True s = Inr (m, s1)" and m: "m = SimMutex_new"
      and p: "\<And>m' th. put_mutex mux m' th s1 = put_mutex mux m' th s" "sy_threads s1 = sy_threads s"
  proof (cases "sy_mutexes s mux")
    case None
    then show ?thesis using that [of SimMutex_new "s\<lparr>sy_mutexes := (sy_mutexes s)(mux \<mapsto> SimMutex_new)\<rparr>"]
      by (simp add: getMutex_def put_mutex_def)
  next
    case (Some m)
    then have "m = SimMutex_new"
      using f sync_okD(2) [OF ok Some] by (cases m) (simp add: mutex_free_def mutex_ok_def SimMutex_new_def)
    then show ?thesis using that [of m s] Some by (simp add: getMutex_def)
  qed
  let ?m = "\<lparr>mx_waiting = [], mx_owner = t\<rparr>"
  have "mutexLock t mux False time s = Inr (Returns (time + sy_reschedule_cost s1, True), put_mutex mux ?m (sy_threads s) s)"
    using g m p by (simp add: mutexLock_def SimMutex_lock_def SimMutex_new_def)
  then show ?thesis using lock_all_held [of "put_mutex mux ?m (sy_threads s) s" mux ?m time ts] t by simp
qed

lemma resumeThread_by: "resumeThread t a time th = resumeThread t b time th"
  by (simp add: resumeThread_def)

lemma unlock_all_owner:
  "sy_mutexes s mux = Some \<lparr>mx_waiting = ts, mx_owner = t\<rparr> \<Longrightarrow> NO_OWNER \<notin> set ts \<Longrightarrow>
   unlock_all mux time (t # ts) s
   = Inr (put_mutex mux SimMutex_new (fold (\<lambda>w. resumeThread w NO_OWNER (time + sy_reschedule_cost s)) ts (sy_threads s)) s)"
proof (induction ts arbitrary: s t)
  case Nil
  then show ?case by (simp add: mutexUnlock_def getMutex_def SimMutex_unlock_def SimMutex_new_def)
next
  case (Cons w ts)
  let ?th = "resumeThread w t (time + sy_reschedule_cost s) (sy_threads s)"
  let ?s = "put_mutex mux \<lparr>mx_waiting = ts, mx_owner = w\<rparr> ?th s"
  have "mutexUnlock t mux time s = Inr (time + sy_reschedule_cost s, ?s)"
    using Cons.prems by (auto simp: mutexUnlock_def getMutex_def SimMutex_unlock_def)
  then have "unlock_all mux time (t # w # ts) s = unlock_all mux time (w # ts) ?s" by simp
  also have "\<dots> = Inr (put_mutex mux SimMutex_new
      (fold (\<lambda>w. resumeThread w NO_OWNER (time + sy_reschedule_cost s)) ts ?th) s)"
    using Cons.IH [of ?s w] Cons.prems by simp
  finally show ?case by (simp add: resumeThread_by [of w t _ _ NO_OWNER])
qed

lemma stallThread_async_at: "stallThread_async t r th t = (th t)\<lparr>th_status := STALLED, th_stalled_reason := r\<rparr>"
  by (simp add: stallThread_async_def)

lemma resumeThread_at: "resumeThread t b time th t = (th t)\<lparr>th_wakeup_time := time, th_status := RUNNING\<rparr>"
  by (simp add: resumeThread_def)

lemma fold_stall_other: "t \<notin> set ts \<Longrightarrow> fold (\<lambda>t. stallThread_async t r) ts th t = th t"
  by (induction ts arbitrary: th) (auto simp: stallThread_async_def)

lemma fold_stall_in:
  "t \<in> set ts \<Longrightarrow> th_status (fold (\<lambda>t. stallThread_async t r) ts th t) = STALLED
     \<and> th_stalled_reason (fold (\<lambda>t. stallThread_async t r) ts th t) = r"
proof (induction ts arbitrary: th)
  case (Cons a ts)
  then show ?case by (cases "t \<in> set ts") (auto simp: fold_stall_other stallThread_async_at)
qed simp

lemma fold_resume_other: "t \<notin> set ts \<Longrightarrow> fold (\<lambda>w. resumeThread w b time) ts th t = th t"
  by (induction ts arbitrary: th) (auto simp: resumeThread_def)

lemma fold_resume_in:
  "t \<in> set ts \<Longrightarrow> th_status (fold (\<lambda>w. resumeThread w b time) ts th t) = RUNNING
     \<and> th_wakeup_time (fold (\<lambda>w. resumeThread w b time) ts th t) = time"
proof (induction ts arbitrary: th)
  case (Cons a ts)
  then show ?case by (cases "t \<in> set ts") (auto simp: fold_resume_other resumeThread_at)
qed simp

lemmas fold_threads = fold_stall_other fold_stall_in fold_resume_other fold_resume_in

lemma barrier_all_stall:
  "b < length (sy_barriers s) \<Longrightarrow> length (br_waiting (sy_barriers s ! b)) + length ts \<le> unat (br_count (sy_barriers s ! b) - 1) \<Longrightarrow>
   barrier_all b time ts s
   = Inr (s\<lparr>sy_barriers := (sy_barriers s)[b := (sy_barriers s ! b)\<lparr>br_waiting := br_waiting (sy_barriers s ! b) @ ts\<rparr>],
            sy_threads := fold (\<lambda>t. stallThread_async t STALL_BARRIER) ts (sy_threads s)\<rparr>)"
proof (induction ts arbitrary: s)
  case Nil
  then show ?case by (simp add: list_update_id)
next
  case (Cons t ts)
  let ?b = "sy_barriers s ! b"
  let ?s = "s\<lparr>sy_barriers := (sy_barriers s)[b := ?b\<lparr>br_waiting := br_waiting ?b @ [t]\<rparr>],
      sy_threads := stallThread_async t STALL_BARRIER (sy_threads s)\<rparr>"
  have "barrierWait t b time s = Inr (Stalls (\<lambda>w. w), ?s)"
    using Cons.prems by (simp add: barrierWait_def SimBarrier_wait_def stallThread_def)
  then show ?case using Cons.IH [of ?s] Cons.prems by simp
qed

lemma barrier_all_append:
  "barrier_all b time (xs @ ys) s = bindR (barrier_all b time xs s) (barrier_all b time ys)"
proof (induction xs arbitrary: s)
  case (Cons t xs)
  then show ?case by (cases "barrierWait t b time s") auto
qed simp

text \<open>What a broadcast does to one mutex: the waiters that come with it are appended, or the first takes a free mutex.\<close>

definition wake_into :: "SimMutex \<Rightarrow> thread_id_t list \<Rightarrow> SimMutex" where
  "wake_into m ws =
     (if mx_owner m \<noteq> NO_OWNER then m\<lparr>mx_waiting := mx_waiting m @ ws\<rparr>
      else case ws of [] \<Rightarrow> m | w # r \<Rightarrow> m\<lparr>mx_owner := w, mx_waiting := mx_waiting m @ r\<rparr>)"

lemma wake_into_Nil [simp]: "wake_into m [] = m"
  by (simp add: wake_into_def)

lemma wake_into_Cons: "w \<noteq> NO_OWNER \<Longrightarrow> wake_into m (w # ws) = wake_into (wake_into m [w]) ws"
  by (cases ws) (simp_all add: wake_into_def)

definition waiters_of :: "IntPtr \<Rightarrow> (thread_id_t \<times> IntPtr) list \<Rightarrow> thread_id_t list" where
  "waiters_of mux c = map fst (filter (\<lambda>w. snd w = mux) c)"

lemma waiters_of_simps [simp]:
  "waiters_of mux [] = []"
  "waiters_of mux (w # c) = (if snd w = mux then fst w # waiters_of mux c else waiters_of mux c)"
  by (simp_all add: waiters_of_def)

lemma signal_mutexes:
  assumes c: "sy_conds s cond = Some ((w, mux) # rest)" and m: "sy_mutexes s mux \<noteq> None"
  shows "sy_mutexes (snd (SimCond_signal cond t time s)) mux' = map_option (\<lambda>m. wake_into m (waiters_of mux' [(w, mux)])) (sy_mutexes s mux')"
proof -
  obtain m' where "sy_mutexes s mux = Some m'" using m by blast
  then show ?thesis unfolding SimCond_signal_Cons [OF c \<open>sy_mutexes s mux = Some m'\<close>]
    by (cases "sy_mutexes s mux'") (auto simp: put_mutex_def wake_into_def)
qed

lemma signal_threads:
  assumes c: "sy_conds s cond = Some ((w, mux) # rest)" and m: "sy_mutexes s mux \<noteq> None" and x: "x \<noteq> w"
  shows "sy_threads (snd (SimCond_signal cond t time s)) x = sy_threads s x"
proof -
  obtain m' where "sy_mutexes s mux = Some m'" using m by blast
  then show ?thesis unfolding SimCond_signal_Cons [OF c \<open>sy_mutexes s mux = Some m'\<close>] using x
    by (simp add: resumeThread_def)
qed

lemma broadcast_loop_effect:
  "sync_ok s \<Longrightarrow> sy_conds s cond = Some c \<Longrightarrow>
   sy_conds (cond_broadcast_loop (length c) cond t time s) cond = Some []
   \<and> (\<forall>mux. sy_mutexes (cond_broadcast_loop (length c) cond t time s) mux
        = map_option (\<lambda>m. wake_into m (waiters_of mux c)) (sy_mutexes s mux))
   \<and> (\<forall>x. x \<notin> fst ` set c \<longrightarrow> sy_threads (cond_broadcast_loop (length c) cond t time s) x = sy_threads s x)"
proof (induction c arbitrary: s)
  case Nil
  then show ?case by (simp add: option.map_ident)
next
  case (Cons wm c)
  obtain w mux where wm: "wm = (w, mux)" by force
  let ?s = "snd (SimCond_signal cond t time s)"
  have w: "w \<noteq> NO_OWNER" "sy_mutexes s mux \<noteq> None"
    using sync_okD(3) [OF Cons.prems, of wm] wm by auto
  have c': "sy_conds s cond = Some ((w, mux) # c)" using Cons.prems(2) wm by simp
  have IH: "sy_conds (cond_broadcast_loop (length c) cond t time ?s) cond = Some []"
    "\<forall>mux. sy_mutexes (cond_broadcast_loop (length c) cond t time ?s) mux
        = map_option (\<lambda>m. wake_into m (waiters_of mux c)) (sy_mutexes ?s mux)"
    "\<forall>x. x \<notin> fst ` set c \<longrightarrow> sy_threads (cond_broadcast_loop (length c) cond t time ?s) x = sy_threads ?s x"
    using Cons.IH [OF SimCond_signal_ok [OF Cons.prems, of t time]]
      SimCond_signal_conds [OF Cons.prems(2), of t time] by auto
  have "map_option (\<lambda>m. wake_into m (waiters_of mux' c)) (sy_mutexes ?s mux')
      = map_option (\<lambda>m. wake_into m (waiters_of mux' ((w, mux) # c))) (sy_mutexes s mux')" for mux'
    unfolding signal_mutexes [OF c' w(2)] by (cases "sy_mutexes s mux'") (auto simp: wake_into_Cons [OF w(1), symmetric])
  moreover have "sy_threads ?s x = sy_threads s x" if "x \<noteq> w" for x by (rule signal_threads [OF c' w(2) that])
  ultimately show ?case using IH wm by simp
qed

section \<open>Properties\<close>

text \<open>
  C11: No wake-up is lost. In every state reachable by calls of running threads (mutexes, condition
  variables, barriers, in any interleaving), the threads stalled for a synchronisation reason are exactly the threads in
  a wait queue; each waits in one queue, once; a mutex with waiters has an owner that will hand it on; and a
  barrier never holds as many threads as it waits for.
\<close>

theorem sync_no_lost_wakeup:
  assumes "reach sync_init sync_step s"
  shows "(\<forall>t. sync_stalled (sy_threads s t) \<longleftrightarrow> (\<exists>q. t \<in> set (queue_of s q)))
    \<and> (\<forall>q. distinct (queue_of s q))
    \<and> (\<forall>q q' t. t \<in> set (queue_of s q) \<longrightarrow> t \<in> set (queue_of s q') \<longrightarrow> q = q')
    \<and> (\<forall>mux m. sy_mutexes s mux = Some m \<longrightarrow> mx_waiting m \<noteq> [] \<longrightarrow> mx_owner m \<noteq> NO_OWNER)
    \<and> (\<forall>b \<in> set (sy_barriers s). length (br_waiting b) \<le> unat (br_count b - 1))"
proof -
  have ok: "sync_ok s" by (rule sync.reach_inv [OF assms])
  have W: "stalled_set (sy_threads s) = (\<Union>q. set (queue_of s q))"
    "\<forall>q. distinct (queue_of s q)" "\<forall>q q' t. t \<in> set (queue_of s q) \<longrightarrow> t \<in> set (queue_of s q') \<longrightarrow> q = q'"
    using sync_okD(1) [OF ok] unfolding waits_ok_def by blast+
  have "sync_stalled (sy_threads s t) \<longleftrightarrow> (\<exists>q. t \<in> set (queue_of s q))" for t
    using W(1) unfolding stalled_set_def by blast
  moreover have "mx_owner m \<noteq> NO_OWNER" if "sy_mutexes s mux = Some m" "mx_waiting m \<noteq> []" for mux m
    using sync_okD(2) [OF ok that(1)] that(2) by (auto simp: mutex_ok_def)
  ultimately show ?thesis using W(2,3) sync_okD(4) [OF ok] by blast
qed

text \<open>
  C34: Mutexes are handed over in the order of arrival. When the threads of a list lock a free mutex one after the other,
  the first owns it and the others are stalled in that order; the threads can then unlock it in the same
  order, each call passing the assertion that the caller is the owner, and at the end the mutex is
  free and all of them are running, the later ones from the time of the unlock plus the rescheduling cost.
\<close>

theorem mutex_fifo_handover:
  assumes "sync_ok s" "mutex_free mux s" "distinct (t # ts)" "NO_OWNER \<notin> set (t # ts)"
    and "\<forall>x \<in> set (t # ts). th_status (sy_threads s x) = RUNNING"
  shows "\<exists>s1 s2. lock_all mux time (t # ts) s = Inr s1
    \<and> sy_mutexes s1 mux = Some \<lparr>mx_waiting = ts, mx_owner = t\<rparr>
    \<and> th_status (sy_threads s1 t) = RUNNING \<and> (\<forall>x \<in> set ts. th_status (sy_threads s1 x) = STALLED)
    \<and> unlock_all mux time2 (t # ts) s1 = Inr s2
    \<and> mutex_free mux s2 \<and> (\<forall>x \<in> set (t # ts). th_status (sy_threads s2 x) = RUNNING)
    \<and> (\<forall>x \<in> set ts. th_wakeup_time (sy_threads s2 x) = time2 + sy_reschedule_cost s)
    \<and> (\<forall>x. x \<notin> set ts \<longrightarrow> sy_threads s2 x = sy_threads s x)"
proof -
  let ?th = "fold (\<lambda>t. stallThread_async t STALL_MUTEX) ts (sy_threads s)"
  let ?s1 = "put_mutex mux \<lparr>mx_waiting = ts, mx_owner = t\<rparr> ?th s"
  let ?th2 = "fold (\<lambda>w. resumeThread w NO_OWNER (time2 + sy_reschedule_cost s)) ts ?th"
  have l: "lock_all mux time (t # ts) s = Inr ?s1"
    by (rule lock_all_free) (use assms in auto)
  have u: "unlock_all mux time2 (t # ts) ?s1 = Inr (put_mutex mux SimMutex_new ?th2 s)"
    using unlock_all_owner [of ?s1 mux ts t time2] assms(4) by simp
  have t: "t \<notin> set ts" using assms(3) by simp
  have f: "mutex_free mux (put_mutex mux SimMutex_new ?th2 s)" by (simp add: mutex_free_def SimMutex_new_def)
  show ?thesis
    by (rule exI [of _ ?s1], rule exI [of _ "put_mutex mux SimMutex_new ?th2 s"])
      (use l u f t assms(5) in \<open>simp add: fold_threads\<close>)
qed

text \<open>
  C35: A barrier releases everybody with the last arrival, and nobody before. When as many distinct threads as the barrier counts
  arrive one after the other, every proper prefix of them is stalled in the queue of the barrier, and after the last one the
  queue is empty, all threads are running, and the early ones continue at the time of the last arrival.
\<close>

theorem barrier_releases_all:
  assumes "b < length (sy_barriers s)" "sy_barriers s ! b = \<lparr>br_waiting = [], br_count = count\<rparr>"
    and "length (ts @ [t]) = unat count" "distinct (ts @ [t])" "th_status (sy_threads s t) = RUNNING"
  shows "(\<forall>k \<le> length ts. \<exists>s1. barrier_all b time (take k ts) s = Inr s1
      \<and> br_waiting (sy_barriers s1 ! b) = take k ts \<and> (\<forall>x \<in> set (take k ts). th_status (sy_threads s1 x) = STALLED))
    \<and> (\<exists>s2. barrier_all b time (ts @ [t]) s = Inr s2 \<and> br_waiting (sy_barriers s2 ! b) = []
      \<and> (\<forall>x \<in> set (ts @ [t]). th_status (sy_threads s2 x) = RUNNING)
      \<and> (\<forall>x \<in> set ts. th_wakeup_time (sy_threads s2 x) = time))"
proof -
  have u: "unat (count - 1) = length ts"
  proof -
    have "count \<noteq> 0" using assms(3) by auto
    then show ?thesis using assms(3) by (simp add: unat_minus_one)
  qed
  have P: "barrier_all b time xs s = Inr (s\<lparr>sy_barriers := (sy_barriers s)[b := \<lparr>br_waiting = xs, br_count = count\<rparr>],
      sy_threads := fold (\<lambda>t. stallThread_async t STALL_BARRIER) xs (sy_threads s)\<rparr>)"
    if "length xs \<le> length ts" for xs
    using barrier_all_stall [of b s xs time] assms(1,2) u that by simp
  have "\<exists>s1. barrier_all b time (take k ts) s = Inr s1
      \<and> br_waiting (sy_barriers s1 ! b) = take k ts \<and> (\<forall>x \<in> set (take k ts). th_status (sy_threads s1 x) = STALLED)" for k
    using P [of "take k ts"] assms(1) fold_stall_in [of _ "take k ts"] by simp
  moreover have "\<exists>s2. barrier_all b time (ts @ [t]) s = Inr s2 \<and> br_waiting (sy_barriers s2 ! b) = []
      \<and> (\<forall>x \<in> set (ts @ [t]). th_status (sy_threads s2 x) = RUNNING)
      \<and> (\<forall>x \<in> set ts. th_wakeup_time (sy_threads s2 x) = time)"
    using P [of ts] assms(1,4,5) u
    by (simp add: barrier_all_append barrierWait_def SimBarrier_wait_def fold_threads)
  ultimately show ?thesis by blast
qed

text \<open>
  A broadcast wakes every waiter. It returns at the caller's time, the queue of the condition variable is empty afterwards, every
  waiter has been passed to the mutex it waited with (each mutex takes its own waiters in their order of
  arrival: the first becomes the owner if the mutex was free, the others queue behind the threads already there),
  no other thread is touched, and the invariant is kept, so every woken thread either runs or is in a mutex queue.
\<close>

theorem condBroadcast_wakes_all:
  assumes "sync_ok s" "sy_conds s cond = Some c"
  shows "\<exists>s'. condBroadcast t cond time s = Inr (time, s') \<and> sync_ok s' \<and> sy_conds s' cond = Some []
    \<and> (\<forall>mux. sy_mutexes s' mux = map_option (\<lambda>m. wake_into m (waiters_of mux c)) (sy_mutexes s mux))
    \<and> (\<forall>x. x \<notin> fst ` set c \<longrightarrow> sy_threads s' x = sy_threads s x)"
proof -
  let ?s' = "cond_broadcast_loop (length c) cond t time s"
  have "condBroadcast t cond time s = Inr (time, ?s')"
    using assms(2) by (simp add: condBroadcast_def getCond_def SimCond_broadcast_def)
  then show ?thesis using broadcast_loop_effect [OF assms, of t time] cond_broadcast_loop_ok [OF assms, of "length c" t time]
    by blast
qed

text \<open>
  \<^verbatim>\<open>isLocked\<close> answers false for the owner of a mutex, so a try-lock by the owner does not fail as it
  does for every other thread: the owner is put into the wait queue of the mutex it owns and stalled, where
  only its own unlock could wake it.
\<close>

theorem tryLock_by_owner_stalls:
  assumes "sy_mutexes s mux = Some m" "mx_owner m \<noteq> NO_OWNER"
  shows "\<exists>s'. mutexLock t mux True time s
        = Inr (if t = mx_owner m then Stalls (\<lambda>wakeup. (wakeup + sy_reschedule_cost s, True)) else Returns (time, False), s')
    \<and> (t \<noteq> mx_owner m \<longrightarrow> s' = s)
    \<and> (t = mx_owner m \<longrightarrow> sync_stalled (sy_threads s' t) \<and> t \<in> set (queue_of s' (QMutex mux))
         \<and> map_option mx_owner (sy_mutexes s' mux) = Some t)"
  using assms
  by (simp add: mutexLock_def getMutex_def SimMutex_isLocked_def SimMutex_lock_def stallThread_def
      sync_stalled_def stallThread_async_at)

section \<open>Witnesses\<close>

definition example_threads :: threads where
  "example_threads = (\<lambda>t. \<lparr>th_status = RUNNING, th_stalled_reason = STALL_UNSCHEDULED, th_wakeup_time = 0\<rparr>)"

definition example_server :: SyncServer where
  "example_server = \<lparr>sy_mutexes = Map.empty, sy_conds = Map.empty, sy_barriers = [], sy_reschedule_cost = 5, sy_threads = example_threads\<rparr>"

lemma example_server_init: "sync_init example_server"
  by (simp add: sync_init_def example_server_def example_threads_def stalled_set_def sync_stalled_def)

lemma example_running: "th_status (sy_threads example_server x) = RUNNING"
  by (simp add: example_server_def example_threads_def)

text \<open>Two threads have locked one mutex: the first owns it, the second waits.\<close>

definition example_locked :: SyncServer where
  "example_locked = put_mutex 64 \<lparr>mx_waiting = [1], mx_owner = 0\<rparr> (stallThread_async 1 STALL_MUTEX example_threads) example_server"

lemma example_locked_reach: "reach sync_init sync_step example_locked"
proof -
  let ?s = "put_mutex 64 \<lparr>mx_waiting = [], mx_owner = 0\<rparr> example_threads example_server"
  have a: "mutexLock 0 64 False 0 example_server = Inr (Returns (5, True), ?s)"
    by (simp add: mutexLock_def getMutex_def example_server_def SimMutex_lock_def SimMutex_new_def put_mutex_def)
  have b: "mutexLock 1 64 False 0 ?s = Inr (Stalls (\<lambda>w. (w + 5, True)), example_locked)"
    by (simp add: mutexLock_def getMutex_def example_server_def SimMutex_lock_def stallThread_def example_locked_def)
  have "sync_step example_server ?s"
    by (rule sync_step.mutex_lock [OF _ a]) (simp add: can_call_def example_running)
  moreover have "sync_step ?s example_locked"
    by (rule sync_step.mutex_lock [OF _ b]) (simp add: can_call_def example_threads_def)
  ultimately show ?thesis using reach_init [of sync_init example_server sync_step] example_server_init
    by (blast intro: reach_step)
qed

theorem sync_no_lost_wakeup_witness:
  "reach sync_init sync_step example_locked \<and> (\<forall>t. sync_stalled (sy_threads example_locked t) \<longleftrightarrow> (\<exists>q. t \<in> set (queue_of example_locked q)))
   \<and> sync_stalled (sy_threads example_locked 1)"
  using sync_no_lost_wakeup [OF example_locked_reach] example_locked_reach
  by (simp add: example_locked_def sync_stalled_def stallThread_async_at)

theorem mutex_fifo_handover_witness:
  "\<exists>s1 s2. lock_all 64 10 [2, 0, 1] example_server = Inr s1 \<and> unlock_all 64 20 [2, 0, 1] s1 = Inr s2
     \<and> mutex_free 64 s2 \<and> th_wakeup_time (sy_threads s2 1) = 25"
  using mutex_fifo_handover [of example_server 64 2 "[0, 1]" 10 20] sync_init_ok [OF example_server_init]
  by (auto simp: mutex_free_def example_running) (auto simp: example_server_def)

definition example_barrier :: SyncServer where
  "example_barrier = snd (barrierInit 0 3 example_server)"

theorem barrier_releases_all_witness:
  "\<exists>s2. barrier_all 0 7 [0, 1, 2] example_barrier = Inr s2 \<and> br_waiting (sy_barriers s2 ! 0) = []
     \<and> th_wakeup_time (sy_threads s2 1) = 7"
  using barrier_releases_all [of 0 example_barrier 3 "[0, 1]" 2 7]
  by (auto simp: example_barrier_def barrierInit_def example_server_def example_threads_def)

definition example_cond :: SyncServer where
  "example_cond = \<lparr>sy_mutexes = [64 \<mapsto> \<lparr>mx_waiting = [], mx_owner = 0\<rparr>], sy_conds = [8 \<mapsto> [(1, 64), (2, 64)]], sy_barriers = [],
     sy_reschedule_cost = 5, sy_threads = stallThread_async 2 STALL_COND (stallThread_async 1 STALL_COND example_threads)\<rparr>"

lemma example_cond_ok: "sync_ok example_cond"
proof -
  have q: "queue_of example_cond q = (if q = QCond 8 then [1, 2] else [])" for q
    by (cases q) (auto simp: example_cond_def)
  have "stalled_set (sy_threads example_cond) = {1, 2}"
    by (auto simp: example_cond_def stalled_set_def sync_stalled_def stallThread_async_def example_threads_def)
  then have "waits_ok (queue_of example_cond) (stalled_set (sy_threads example_cond))"
    by (auto simp: waits_ok_def q split: if_splits)
  then show ?thesis by (auto simp: sync_ok_def example_cond_def mutex_ok_def split: if_splits)
qed

theorem condBroadcast_wakes_all_witness:
  "\<exists>s'. condBroadcast 0 8 30 example_cond = Inr (30, s')
     \<and> sy_mutexes s' 64 = Some \<lparr>mx_waiting = [1, 2], mx_owner = 0\<rparr>"
  using condBroadcast_wakes_all [OF example_cond_ok, of 8 "[(1, 64), (2, 64)]" 0 30]
  by (auto simp: example_cond_def wake_into_def)

theorem tryLock_by_owner_stalls_witness:
  "\<exists>s'. mutexLock 0 64 True 9 example_locked = Inr (Stalls (\<lambda>w. (w + 5, True)), s')"
  using tryLock_by_owner_stalls [of example_locked 64 "\<lparr>mx_waiting = [1], mx_owner = 0\<rparr>" 0 9]
  by (auto simp: example_locked_def example_server_def)

end
