(* ===== verification/Sniper_Utils.thy ===== *)
theory Sniper_Utils
  imports Sniper_Prelude
begin

text \<open>
  The bit-twiddling helpers of \<^verbatim>\<open>common/misc/utils.cc\<close>, the two pseudo-random
  generators of \<^verbatim>\<open>common/misc/rng.h\<close> and \<^verbatim>\<open>common/misc/random.h\<close>, and the modular
  counters of \<^verbatim>\<open>common/misc/modulo_num.cc\<close>, at their machine widths.
\<close>

section \<open>utils.cc\<close>

definition isPower2 :: "UInt32 \<Rightarrow> bool" where
  "isPower2 n = (n AND (n - 1) = 0)"

text \<open>
  Each line \<^verbatim>\<open>if (n & mask) { p += k; n >>= k; }\<close> is one step on the pair \<open>(p, n)\<close>.
\<close>

definition floorLog2_step :: "UInt32 \<Rightarrow> nat \<Rightarrow> int \<times> UInt32 \<Rightarrow> int \<times> UInt32" where
  "floorLog2_step m k s =
     (case s of (p, n) \<Rightarrow> if n AND m \<noteq> 0 then (p + int k, drop_bit k n) else (p, n))"

definition floorLog2 :: "UInt32 \<Rightarrow> int" where
  "floorLog2 n =
     (if n = 0 then - 1
      else
        (let s = floorLog2_step 0xffff0000 16 (0, n);
             s = floorLog2_step 0x0000ff00 8 s;
             s = floorLog2_step 0x000000f0 4 s;
             s = floorLog2_step 0x0000000c 2 s
         in (if snd s AND 0x00000002 \<noteq> 0 then fst s + 1 else fst s)))"

definition ceilLog2 :: "UInt32 \<Rightarrow> int" where
  "ceilLog2 n = floorLog2 (n - 1) + 1"

text \<open>The loop of \<^verbatim>\<open>countBits\<close>: each round clears the lowest set bit.\<close>

lemma word_dec_less: "n \<noteq> 0 \<Longrightarrow> unat (n AND (n - 1)) < unat (n::'a::len word)"
proof -
  assume "n \<noteq> 0"
  then have "n - 1 < n" by (simp add: word_less_nat_alt unat_minus_one unat_gt_0)
  moreover have "n AND (n - 1) \<le> n - 1" by (rule word_and_le1)
  ultimately have "n AND (n - 1) < n" by simp
  then show ?thesis by (simp add: word_less_nat_alt)
qed

function countBits_loop :: "UInt64 \<Rightarrow> UInt64 \<Rightarrow> UInt64" where
  "countBits_loop n result =
     (let n' = n AND (n - 1)
      in if n' \<noteq> 0 then countBits_loop n' (result + 1) else result)"
  by pat_completeness auto
termination
proof (relation "measure (\<lambda>(n, result). unat n)")
  fix n result n' :: UInt64
  assume "n' = n AND (n - 1)" and "n' \<noteq> 0"
  then show "((n', result + 1), (n, result)) \<in> measure (\<lambda>(n, result). unat n)"
    using word_dec_less [of n] by (cases "n = 0") auto
qed simp

declare countBits_loop.simps [simp del]

definition countBits :: "UInt64 \<Rightarrow> UInt64" where
  "countBits n = (if n = 0 then 0 else countBits_loop n 1)"

section \<open>rng.h: the inlined drand48\<close>

definition RNG_A :: UInt64 where "RNG_A = 0x5DEECE66D"
definition RNG_C :: UInt64 where "RNG_C = 0xB"
definition RNG_M :: UInt64 where "RNG_M = push_bit 48 1 - 1"

text \<open>\<^verbatim>\<open>rng_next\<close> updates its reference argument and returns the high bits: (state, value).\<close>

definition rng_next :: "UInt64 \<Rightarrow> UInt64 \<times> UInt64" where
  "rng_next state = (let state' = (RNG_A * state + RNG_C) AND RNG_M in (state', drop_bit 16 state'))"

definition rng_seed :: "UInt64 \<Rightarrow> UInt64" where
  "rng_seed seed = push_bit 16 seed + 0x330E"

section \<open>random.h\<close>

definition Random_next :: "UInt32 \<Rightarrow> UInt32 \<Rightarrow> UInt32 \<times> UInt32" where
  "Random_next sd limit =
     (let sd' = sd * 1103515245 + 12345 in (sd', (sd' div 65536) mod limit))"

section \<open>modulo\_num.cc\<close>

record ModuloNum =
  mn_value :: UInt32
  mn_max_value :: UInt32

definition ModuloNum_add :: "ModuloNum \<Rightarrow> ModuloNum \<Rightarrow> ModuloNum result" where
  "ModuloNum_add a b =
     bindR (assertR (mn_max_value a = mn_max_value b) ''m_max_value == num.getMaxValue()'') (\<lambda>_.
     bindR (modR (mn_value a + mn_value b) (mn_max_value a)) (\<lambda>v.
     Inr \<lparr>mn_value = v, mn_max_value = mn_max_value a\<rparr>))"

definition ModuloNum_sub :: "ModuloNum \<Rightarrow> ModuloNum \<Rightarrow> ModuloNum result" where
  "ModuloNum_sub a b =
     bindR (assertR (mn_max_value a = mn_max_value b) ''m_max_value == num.getMaxValue()'') (\<lambda>_.
     Inr \<lparr>mn_value = (if mn_value a \<ge> mn_value b then mn_value a - mn_value b
                      else mn_max_value a - mn_value b + mn_value a),
          mn_max_value = mn_max_value a\<rparr>)"

definition ModuloNum_add_int :: "ModuloNum \<Rightarrow> UInt32 \<Rightarrow> ModuloNum result" where
  "ModuloNum_add_int a v =
     bindR (modR v (mn_max_value a)) (\<lambda>v.
     ModuloNum_add a \<lparr>mn_value = v, mn_max_value = mn_max_value a\<rparr>)"

definition ModuloNum_sub_int :: "ModuloNum \<Rightarrow> UInt32 \<Rightarrow> ModuloNum result" where
  "ModuloNum_sub_int a v =
     bindR (modR v (mn_max_value a)) (\<lambda>v.
     ModuloNum_sub a \<lparr>mn_value = v, mn_max_value = mn_max_value a\<rparr>)"

definition ModuloNum_eq :: "ModuloNum \<Rightarrow> ModuloNum \<Rightarrow> bool" where
  "ModuloNum_eq a b = (mn_value a = mn_value b \<and> mn_max_value a = mn_max_value b)"

section \<open>The logarithm\<close>

lemma and_high_mask_zero_iff:
  fixes n :: "32 word"
  assumes "unat n < 2 ^ (2 * k)" "2 * k \<le> 32"
  shows "n AND push_bit k (mask k) = 0 \<longleftrightarrow> unat n < 2 ^ k"
proof -
  have "n AND push_bit k (mask k) = push_bit k (drop_bit k n AND mask k)"
    by (rule bit_word_eqI) (auto simp: bit_simps)
  also have "drop_bit k n AND mask k = drop_bit k n"
  proof -
    have "unat (drop_bit k n) < 2 ^ k" using assms(1)
      by (simp add: word_shift_right_div less_mult_imp_div_less mult_2 power_add)
    then have "unat (take_bit k (drop_bit k n)) = unat (drop_bit k n)"
      by (simp add: unsigned_take_bit_eq take_bit_nat_eq_self)
    then show ?thesis by (simp add: take_bit_eq_mask [symmetric] word_unat_eq_iff)
  qed
  finally have "n AND push_bit k (mask k) = 0 \<longleftrightarrow> push_bit k (drop_bit k n) = 0" by simp
  also have "\<dots> \<longleftrightarrow> drop_bit k n = 0"
  proof
    assume "push_bit k (drop_bit k n) = 0"
    then have "drop_bit k (push_bit k (drop_bit k n)) = 0" by simp
    moreover have "drop_bit k (push_bit k (drop_bit k n)) = drop_bit k n"
      by (rule bit_word_eqI) (auto simp: bit_simps dest: bit_imp_le_length)
    ultimately show "drop_bit k n = 0" by simp
  qed simp
  also have "\<dots> \<longleftrightarrow> unat (drop_bit k n) = 0" by (simp add: unat_eq_zero)
  also have "\<dots> \<longleftrightarrow> unat n < 2 ^ k"
    by (simp add: word_shift_right_div div_eq_0_iff)
  finally show ?thesis .
qed

text \<open>
  The loop invariant of \<^verbatim>\<open>floorLog2\<close>: the remaining word is the input shifted right by the
  position found so far, it is not zero, and it fits in the bits still to be searched.
\<close>

definition log_inv :: "UInt32 \<Rightarrow> nat \<Rightarrow> int \<times> UInt32 \<Rightarrow> bool" where
  "log_inv n w s \<longleftrightarrow> 0 \<le> fst s \<and> unat (snd s) = unat n div 2 ^ nat (fst s)
     \<and> 0 < unat (snd s) \<and> unat (snd s) < 2 ^ w"

lemma floorLog2_step_inv:
  assumes "log_inv n (2 * k) s" and "2 * k \<le> 32" and "m = push_bit k (mask k)"
  shows "log_inv n k (floorLog2_step m k s)"
proof (cases s)
  case (Pair p x)
  have x: "unat x < 2 ^ (2 * k)" "0 \<le> p" "unat x = unat n div 2 ^ nat p" "0 < unat x"
    using assms(1) Pair by (auto simp: log_inv_def)
  have iff: "x AND m = 0 \<longleftrightarrow> unat x < 2 ^ k"
    using and_high_mask_zero_iff [OF x(1) assms(2)] assms(3) by simp
  show ?thesis
  proof (cases "unat x < 2 ^ k")
    case True
    with iff x show ?thesis by (simp add: log_inv_def floorLog2_step_def Pair)
  next
    case False
    have "unat x div 2 ^ k < 2 ^ k"
      using x(1) by (simp add: less_mult_imp_div_less mult_2 power_add)
    moreover have "0 < unat x div 2 ^ k" using False by (simp add: div_greater_zero_iff)
    moreover have "unat x div 2 ^ k = unat n div 2 ^ nat (p + int k)"
      using x(2,3) by (simp add: nat_add_distrib power_add div_mult2_eq)
    ultimately show ?thesis using False iff x(2)
      by (simp add: log_inv_def floorLog2_step_def Pair word_shift_right_div)
  qed
qed

lemma floorLog2_masks:
  "(0xffff0000 :: UInt32) = push_bit 16 (mask 16)" "(0xff00 :: UInt32) = push_bit 8 (mask 8)"
  "(0xf0 :: UInt32) = push_bit 4 (mask 4)" "(0xc :: UInt32) = push_bit 2 (mask 2)"
  "(2 :: UInt32) = push_bit 1 (mask 1)"
  by (simp_all add: mask_eq_exp_minus_1 push_bit_eq_mult)

lemma fst_floorLog2_step_1:
  "fst (floorLog2_step m 1 s) = (if snd s AND m \<noteq> 0 then fst s + 1 else fst s)"
  by (cases s) (simp add: floorLog2_step_def)

lemma nat_div_eq_1D: "(a::nat) div d = 1 \<Longrightarrow> d \<le> a \<and> a < 2 * d"
proof -
  assume a: "a div d = 1"
  then have "0 < d" by (cases d) auto
  then have "a mod d < d" by simp
  moreover have "a = d + a mod d" using div_mult_mod_eq [of a d] a by simp
  ultimately show ?thesis by linarith
qed

lemma floorLog2_bounds:
  assumes "n \<noteq> 0"
  shows "0 \<le> floorLog2 n \<and> 2 ^ nat (floorLog2 n) \<le> unat n \<and> unat n < 2 ^ (nat (floorLog2 n) + 1)"
proof -
  define s1 where "s1 = floorLog2_step 0xffff0000 16 (0, n)"
  define s2 where "s2 = floorLog2_step 0xff00 8 s1"
  define s3 where "s3 = floorLog2_step 0xf0 4 s2"
  define s4 where "s4 = floorLog2_step 0xc 2 s3"
  define s5 where "s5 = floorLog2_step 2 1 s4"
  have "log_inv n (2 * 16) (0, n)"
    using assms unsigned_less [of n, where ?'a = nat] by (simp add: log_inv_def unat_gt_0)
  then have "log_inv n 16 s1"
    unfolding s1_def by (rule floorLog2_step_inv [OF _ _ floorLog2_masks(1)]) simp
  then have "log_inv n 8 s2"
    unfolding s2_def by (intro floorLog2_step_inv [OF _ _ floorLog2_masks(2)]) simp_all
  then have "log_inv n 4 s3"
    unfolding s3_def by (intro floorLog2_step_inv [OF _ _ floorLog2_masks(3)]) simp_all
  then have "log_inv n 2 s4"
    unfolding s4_def by (intro floorLog2_step_inv [OF _ _ floorLog2_masks(4)]) simp_all
  then have inv: "log_inv n 1 s5"
    unfolding s5_def by (intro floorLog2_step_inv [OF _ _ floorLog2_masks(5)]) simp_all
  have "fst s5 = (if snd s4 AND 2 \<noteq> 0 then fst s4 + 1 else fst s4)"
    unfolding s5_def by (rule fst_floorLog2_step_1)
  also have "\<dots> = floorLog2 n"
    unfolding floorLog2_def Let_def s1_def s2_def s3_def s4_def using assms by (simp only: if_False)
  finally have eq: "floorLog2 n = fst s5" by (rule sym)
  from inv have "unat n div 2 ^ nat (fst s5) = 1" "0 \<le> fst s5"
    by (auto simp: log_inv_def)
  then have "2 ^ nat (fst s5) \<le> unat n" "unat n < 2 * 2 ^ nat (fst s5)"
    using nat_div_eq_1D by blast+
  with eq \<open>0 \<le> fst s5\<close> show ?thesis by simp
qed

lemma ceilLog2_bounds:
  assumes "n \<noteq> 0"
  shows "0 \<le> ceilLog2 n \<and> unat n \<le> 2 ^ nat (ceilLog2 n) \<and> (n \<noteq> 1 \<longrightarrow> 2 ^ nat (ceilLog2 n) < 2 * unat n)"
proof (cases "n = 1")
  case True
  then show ?thesis by (simp add: ceilLog2_def floorLog2_def)
next
  case False
  then have "n - 1 \<noteq> 0" by simp
  from floorLog2_bounds [OF this] have "0 \<le> floorLog2 (n - 1)"
    "2 ^ nat (floorLog2 (n - 1)) \<le> unat n - 1" "unat n - 1 < 2 * 2 ^ nat (floorLog2 (n - 1))"
    using assms by (simp_all add: unat_minus_one)
  moreover have "0 < unat n" using assms by (simp add: unat_gt_0)
  ultimately show ?thesis unfolding ceilLog2_def by (auto simp: nat_add_distrib)
qed

text \<open>
  \<^verbatim>\<open>floorLog2\<close> finds the position of the most significant set bit: for every non-zero
  32-bit \<open>n\<close> the result \<open>p\<close> satisfies \<open>2^p \<le> n < 2^(p+1)\<close>; \<^verbatim>\<open>ceilLog2\<close> finds the smallest
  \<open>p\<close> with \<open>n \<le> 2^p\<close>.
\<close>

theorem floorLog2_correct:
  assumes "n \<noteq> 0"
  shows "0 \<le> floorLog2 n \<and> 2 ^ nat (floorLog2 n) \<le> unat n \<and> unat n < 2 ^ (nat (floorLog2 n) + 1)
    \<and> 0 \<le> ceilLog2 n \<and> unat n \<le> 2 ^ nat (ceilLog2 n) \<and> (n \<noteq> 1 \<longrightarrow> 2 ^ nat (ceilLog2 n) < 2 * unat n)"
  using floorLog2_bounds [OF assms] ceilLog2_bounds [OF assms] by blast

theorem floorLog2_correct_witness:
  "2 ^ nat (floorLog2 48) \<le> (48 :: nat) \<and> (48 :: nat) \<le> 2 ^ nat (ceilLog2 48)"
  using floorLog2_correct [of 48] by simp

lemma floorLog2_unique:
  assumes "2 ^ k \<le> unat n" and "unat n < 2 ^ Suc k"
  shows "floorLog2 n = int k"
proof -
  have "n \<noteq> 0" using assms(1) by (auto simp: not_le)
  from floorLog2_bounds [OF this] have b: "0 \<le> floorLog2 n"
    "2 ^ nat (floorLog2 n) \<le> unat n" "unat n < 2 ^ Suc (nat (floorLog2 n))" by simp_all
  have "(2::nat) ^ k < 2 ^ Suc (nat (floorLog2 n))" "(2::nat) ^ nat (floorLog2 n) < 2 ^ Suc k"
    using assms b by linarith+
  then have "k < Suc (nat (floorLog2 n))" "nat (floorLog2 n) < Suc k"
    by (simp_all only: power_strict_increasing_iff one_less_numeral_iff semiring_norm(76))
  with b(1) show ?thesis by simp
qed

section \<open>Counting bits\<close>

lemma nat_dec_bits:
  "0 < n \<Longrightarrow> \<exists>k. bit n k \<and> (\<forall>j. (bit n j \<and> bit (n - 1) j) = (bit n j \<and> j \<noteq> k))" for n :: nat
proof (induction n rule: less_induct)
  case (less n)
  show ?case
  proof (cases "even n")
    case True
    then obtain m where m: "n = 2 * m" by (rule evenE)
    with less.prems have "0 < m" "m < n" by auto
    from less.IH [OF this(2,1)] obtain k where k: "bit m k"
      "\<And>j. (bit m j \<and> bit (m - 1) j) = (bit m j \<and> j \<noteq> k)" by blast
    have d: "(2 * m - 1) div 2 = m - 1" using \<open>0 < m\<close> by arith
    have "(bit n j \<and> bit (n - 1) j) = (bit n j \<and> j \<noteq> Suc k)" for j
      using k(2) d by (cases j) (simp_all add: m bit_0 bit_Suc)
    moreover have "bit n (Suc k)" using k(1) by (simp add: m bit_Suc)
    ultimately show ?thesis by blast
  next
    case False
    then have d: "(n - 1) div 2 = n div 2" by (auto elim: oddE)
    have "(bit n j \<and> bit (n - 1) j) = (bit n j \<and> j \<noteq> 0)" for j
      using False d by (cases j) (simp_all add: bit_0 bit_Suc)
    moreover have "bit n 0" using False by (simp add: bit_0)
    ultimately show ?thesis by blast
  qed
qed

lemma word_dec_bits:
  fixes n :: "'a::len word"
  assumes "n \<noteq> 0"
  obtains k where "bit n k" and "n AND (n - 1) = unset_bit k n"
proof -
  have "0 < unat n" using assms by (simp add: unat_gt_0)
  then obtain k where k: "bit (unat n) k"
    "\<And>j. (bit (unat n) j \<and> bit (unat n - 1) j) = (bit (unat n) j \<and> j \<noteq> k)"
    using nat_dec_bits by blast
  have nb: "bit w j = bit (unat w) j" for w :: "'a word" and j
    by (simp add: bit_unsigned_iff)
  have "n AND (n - 1) = unset_bit k n"
  proof (rule bit_word_eqI)
    fix j
    have "bit (n AND (n - 1)) j = (bit (unat n) j \<and> bit (unat n - 1) j)"
      using assms by (simp add: bit_and_iff nb [of n] nb [of "n - 1"] unat_minus_one)
    also have "\<dots> = bit (unset_bit k n) j"
      unfolding k(2) by (auto simp: bit_unset_bit_iff nb [of n, symmetric])
    finally show "bit (n AND (n - 1)) j = bit (unset_bit k n) j" .
  qed
  moreover have "bit n k" using k(1) by (simp add: bit_unsigned_iff)
  ultimately show ?thesis using that by blast
qed

definition popcount :: "'a::len word \<Rightarrow> nat" where
  "popcount n = card {k. bit n k}"

lemma finite_bits [simp]: "finite {k. bit (n::'a::len word) k}"
  by (rule finite_subset [of _ "{..<LENGTH('a)}"]) (auto dest: bit_imp_le_length)

lemma popcount_le: "popcount (n::'a::len word) \<le> LENGTH('a)"
proof -
  have "card {k. bit n k} \<le> card {..<LENGTH('a)}"
    by (rule card_mono) (auto dest: bit_imp_le_length)
  then show ?thesis by (simp add: popcount_def)
qed

lemma popcount_0_iff: "popcount n = 0 \<longleftrightarrow> n = 0"
  using bit_eq_iff [of n 0] by (auto simp: popcount_def)

lemma popcount_dec: "n \<noteq> 0 \<Longrightarrow> popcount n = Suc (popcount (n AND (n - 1)))"
proof -
  assume "n \<noteq> 0"
  then obtain k where k: "bit n k" "n AND (n - 1) = unset_bit k n" by (rule word_dec_bits)
  have "{j. bit n j} = insert k {j. bit (unset_bit k n) j}"
    using k(1) by (auto simp: bit_simps)
  moreover have "k \<notin> {j. bit (unset_bit k n) j}" by (simp add: bit_simps)
  ultimately show ?thesis by (simp add: popcount_def k(2))
qed

lemma isPower2_iff_popcount: "isPower2 n \<longleftrightarrow> popcount n \<le> 1"
proof (cases "n = 0")
  case True
  then show ?thesis by (simp add: isPower2_def popcount_def)
next
  case False
  then show ?thesis using popcount_dec [of n] popcount_0_iff [of "n AND (n - 1)"]
    by (simp add: isPower2_def)
qed

lemma popcount_1_iff:
  "popcount (n::'a::len word) = 1 \<longleftrightarrow> (\<exists>k<LENGTH('a). n = 2 ^ k)"
proof
  assume "popcount n = 1"
  then obtain k where k: "{j. bit n j} = {k}" by (auto simp: popcount_def card_1_singleton_iff)
  then have "n = 2 ^ k"
    by (intro bit_word_eqI) (auto simp: bit_exp_iff)
  moreover have "k < LENGTH('a)" using k by (auto dest: bit_imp_le_length)
  ultimately show "\<exists>k<LENGTH('a). n = 2 ^ k" by blast
next
  assume "\<exists>k<LENGTH('a). n = 2 ^ k"
  then obtain k where "k < LENGTH('a)" "n = 2 ^ k" by blast
  then have "{j. bit n j} = {k}" by (auto simp: bit_exp_iff)
  then show "popcount n = 1" by (simp add: popcount_def)
qed

text \<open>
  \<^verbatim>\<open>isPower2\<close> accepts exactly the 32 powers of two and, against its comment, zero.
\<close>

theorem isPower2_correct: "isPower2 n \<longleftrightarrow> n = 0 \<or> (\<exists>k<32. n = 2 ^ k)"
  using popcount_1_iff [of n] popcount_0_iff [of n] by (auto simp: isPower2_iff_popcount le_Suc_eq)

lemma countBits_loop_popcount:
  "n \<noteq> 0 \<Longrightarrow> countBits_loop n r = r + of_nat (popcount n - 1)"
proof (induction n r rule: countBits_loop.induct)
  case (1 n r)
  let ?n = "n AND (n - 1)"
  have pc: "popcount n = Suc (popcount ?n)" using "1.prems" by (rule popcount_dec)
  show ?case
  proof (cases "?n = 0")
    case True
    then show ?thesis using pc by (simp add: countBits_loop.simps [of n] popcount_0_iff [THEN iffD2])
  next
    case False
    then have "0 < popcount ?n" using popcount_0_iff [of ?n] by simp
    moreover have "countBits_loop n r = countBits_loop ?n (r + 1)"
      using False by (simp add: countBits_loop.simps [of n] Let_def)
    ultimately show ?thesis using "1.IH" [OF refl] False pc by (simp add: of_nat_diff)
  qed
qed

text \<open>
  \<^verbatim>\<open>countBits\<close> terminates and returns the number of set bits of its 64-bit argument.
\<close>

theorem countBits_correct: "unat (countBits n) = popcount n"
proof (cases "n = 0")
  case True
  then show ?thesis by (simp add: countBits_def popcount_def)
next
  case False
  then have "0 < popcount n" using popcount_0_iff [of n] by simp
  then have "countBits n = of_nat (popcount n)"
    using False by (simp add: countBits_def countBits_loop_popcount of_nat_diff)
  moreover have "popcount n < 2 ^ 64" using popcount_le [of n] by simp
  ultimately show ?thesis by simp
qed

section \<open>Laws of the generators and of the modular counters\<close>

lemma rng_next_state_bound: "unat (fst (rng_next s)) < 2 ^ 48"
proof -
  have "fst (rng_next s) = take_bit 48 (RNG_A * s + RNG_C)"
    by (simp add: rng_next_def Let_def RNG_M_def take_bit_eq_mask mask_eq_exp_minus_1 push_bit_eq_mult)
  then show ?thesis by (simp add: unsigned_take_bit_eq take_bit_nat_less_exp [of 48, simplified])
qed

lemma Random_next_bound: "0 < limit \<Longrightarrow> unat (snd (Random_next sd limit)) < unat limit"
  by (simp add: Random_next_def Let_def unat_mod_distrib word_less_nat_alt)

lemma ModuloNum_add_value:
  assumes "mn_max_value a = mn_max_value b" "unat (mn_max_value a) \<le> 2 ^ 31"
    "mn_value a < mn_max_value a" "mn_value b < mn_max_value b"
  shows "\<exists>c. ModuloNum_add a b = Inr c \<and> mn_max_value c = mn_max_value a
     \<and> unat (mn_value c) = (unat (mn_value a) + unat (mn_value b)) mod unat (mn_max_value a)"
proof -
  have "unat (mn_value a + mn_value b) = unat (mn_value a) + unat (mn_value b)"
    using assms by (subst unat_plus_if') (simp_all add: word_less_nat_alt)
  then show ?thesis using assms(1,3) by (auto simp: ModuloNum_add_def modR_def unat_mod_distrib word_less_nat_alt)
qed

lemma ModuloNum_sub_value:
  assumes "mn_max_value a = mn_max_value b" "unat (mn_max_value a) \<le> 2 ^ 31"
    "mn_value a < mn_max_value a" "mn_value b < mn_max_value b"
  shows "\<exists>c. ModuloNum_sub a b = Inr c \<and> mn_max_value c = mn_max_value a
     \<and> unat (mn_value c) =
       (unat (mn_value a) + unat (mn_max_value a) - unat (mn_value b)) mod unat (mn_max_value a)"
proof -
  let ?a = "unat (mn_value a)" and ?b = "unat (mn_value b)" and ?m = "unat (mn_max_value a)"
  have lt: "?a < ?m" "?b < ?m" using assms by (simp_all add: word_less_nat_alt)
  show ?thesis
  proof (cases "mn_value b \<le> mn_value a")
    case True
    then have "?b \<le> ?a" by (simp add: word_le_nat_alt)
    with lt have "(?a + ?m - ?b) mod ?m = ?a - ?b" by (simp add: le_mod_geq)
    with True assms(1) show ?thesis by (simp add: ModuloNum_sub_def unat_sub)
  next
    case False
    then have ab: "?a < ?b" by (simp add: word_le_nat_alt)
    have "mn_value b \<le> mn_max_value a" using assms(1,4) by simp
    then have "unat (mn_max_value a - mn_value b + mn_value a) = ?m - ?b + ?a"
      using ab lt assms(2) by (subst unat_plus_if') (simp add: unat_sub)
    moreover have "(?a + ?m - ?b) mod ?m = ?m - ?b + ?a"
      using ab lt by simp
    ultimately show ?thesis using False assms(1) by (simp add: ModuloNum_sub_def)
  qed
qed

end
