(* ===== verification/Subsecond_Time.thy ===== *)
theory Subsecond_Time
  imports Sniper_Utils
begin

text \<open>
  Simulated time, \<^verbatim>\<open>misc/subsecond_time.h\<close>: 64-bit counts of femtoseconds, the conversions to and from larger
  units and clock cycles, and the latencies of components with a fixed bandwidth. A \<^verbatim>\<open>ComponentPeriod*\<close>
  is a pointer into a store of periods, since frequency scaling changes the period behind the pointer; the store is
  an argument. The conversions from floating point are not modelled.
\<close>

section \<open>Units\<close>

type_synonym SubsecondTime = "64 word"

definition FS_1 :: UInt64 where "FS_1 = 1"

definition PS_1 :: UInt64 where "PS_1 = FS_1 * 1000"

definition NS_1 :: UInt64 where "NS_1 = PS_1 * 1000"

definition US_1 :: UInt64 where "US_1 = NS_1 * 1000"

definition MS_1 :: UInt64 where "MS_1 = US_1 * 1000"

definition SEC_1 :: UInt64 where "SEC_1 = MS_1 * 1000"

datatype time_unit = Unit_FS | Unit_PS | Unit_NS | Unit_US | Unit_MS | Unit_SEC

primrec unit_time :: "time_unit \<Rightarrow> SubsecondTime" where
  "unit_time Unit_FS = FS_1"
| "unit_time Unit_PS = PS_1"
| "unit_time Unit_NS = NS_1"
| "unit_time Unit_US = US_1"
| "unit_time Unit_MS = MS_1"
| "unit_time Unit_SEC = SEC_1"

text \<open>\<^verbatim>\<open>SubsecondTime::NS(n)\<close> is \<open>time_in Unit_NS n\<close>, \<^verbatim>\<open>getNS()\<close> is \<open>get_in Unit_NS\<close>, and so on for each unit.\<close>

definition time_in :: "time_unit \<Rightarrow> UInt64 \<Rightarrow> SubsecondTime" where
  "time_in u n = n * unit_time u"

definition get_in :: "time_unit \<Rightarrow> SubsecondTime \<Rightarrow> UInt64" where
  "get_in u t = t div unit_time u"

abbreviation MaxTime :: SubsecondTime where
  "MaxTime \<equiv> 0xffffffffffffffff"

definition divR :: "UInt64 \<Rightarrow> UInt64 \<Rightarrow> UInt64 result" where
  "divR a b = (if b = 0 then Inl (Trap ''division by zero'') else Inr (a div b))"

definition divideRounded :: "SubsecondTime \<Rightarrow> SubsecondTime \<Rightarrow> UInt64 result" where
  "divideRounded lhs rhs = divR (lhs + ((rhs div 2) + 1)) rhs"

section \<open>Periods, cycles and latencies\<close>

definition fromFreqHz :: "UInt64 \<Rightarrow> SubsecondTime result" where
  "fromFreqHz freq_in_hz = divR (time_in Unit_SEC 1) freq_in_hz"

definition getPeriodInFreqMHz :: "SubsecondTime \<Rightarrow> UInt64 result" where
  "getPeriodInFreqMHz period = divR US_1 period"

definition cyclesToSubsecondTime :: "SubsecondTime \<Rightarrow> UInt64 \<Rightarrow> SubsecondTime" where
  "cyclesToSubsecondTime period cycles = period * cycles"

definition subsecondTimeToCycles :: "SubsecondTime \<Rightarrow> SubsecondTime \<Rightarrow> UInt64 result" where
  "subsecondTimeToCycles period time = divR time period"

text \<open>The bandwidth is the integer \<^verbatim>\<open>m_bw_in_bits_per_us\<close>.\<close>

definition ComponentBandwidth_getLatency :: "UInt64 \<Rightarrow> UInt64 \<Rightarrow> SubsecondTime result" where
  "ComponentBandwidth_getLatency bw bits_transmitted = divR (bits_transmitted * time_in Unit_US 1) bw"

definition ComponentBandwidth_getRoundedLatency :: "UInt64 \<Rightarrow> UInt64 \<Rightarrow> SubsecondTime result" where
  "ComponentBandwidth_getRoundedLatency bw bits_transmitted =
     (let us = time_in Unit_US 1 in divR (bits_transmitted * us + us div 2) bw)"

record ComponentBandwidthPerCycle =
  bpc_period :: nat
  bpc_bits :: UInt64

definition isInfinite :: "ComponentBandwidthPerCycle \<Rightarrow> bool" where
  "isInfinite b = (bpc_bits b = 0)"

definition BandwidthPerCycle_getLatency :: "(nat \<Rightarrow> SubsecondTime) \<Rightarrow> ComponentBandwidthPerCycle \<Rightarrow> UInt64 \<Rightarrow> SubsecondTime result" where
  "BandwidthPerCycle_getLatency periods b bits_transmitted = divR (bits_transmitted * periods (bpc_period b)) (bpc_bits b)"

definition BandwidthPerCycle_getRoundedLatency ::
  "(nat \<Rightarrow> SubsecondTime) \<Rightarrow> ComponentBandwidthPerCycle \<Rightarrow> UInt64 \<Rightarrow> SubsecondTime result" where
  "BandwidthPerCycle_getRoundedLatency periods b bits_transmitted =
     (let period = periods (bpc_period b) in divR (bits_transmitted * period + period div 2) (bpc_bits b))"

record ComponentLatency =
  cl_period :: nat
  cl_cycles :: UInt64

definition ComponentLatency_getLatency :: "(nat \<Rightarrow> SubsecondTime) \<Rightarrow> ComponentLatency \<Rightarrow> SubsecondTime" where
  "ComponentLatency_getLatency periods l = periods (cl_period l) * cl_cycles l"

definition ComponentLatency_add :: "UInt64 \<Rightarrow> ComponentLatency \<Rightarrow> ComponentLatency" where
  "ComponentLatency_add rhs l = l\<lparr>cl_cycles := cl_cycles l + rhs\<rparr>"

record ComponentTime =
  ct_period :: nat
  ct_time :: SubsecondTime

definition ComponentTime_create :: "nat \<Rightarrow> ComponentTime" where
  "ComponentTime_create base_period = \<lparr>ct_period = base_period, ct_time = 0\<rparr>"

definition addCycleLatency :: "(nat \<Rightarrow> SubsecondTime) \<Rightarrow> UInt64 \<Rightarrow> ComponentTime \<Rightarrow> ComponentTime" where
  "addCycleLatency periods num_cycles t = t\<lparr>ct_time := ct_time t + periods (ct_period t) * num_cycles\<rparr>"

definition addLatency :: "SubsecondTime \<Rightarrow> ComponentTime \<Rightarrow> ComponentTime" where
  "addLatency time_to_add t = t\<lparr>ct_time := ct_time t + time_to_add\<rparr>"

definition addLatency_time :: "ComponentTime \<Rightarrow> ComponentTime \<Rightarrow> ComponentTime result" where
  "addLatency_time time_to_add t =
     bindR (assertR (ct_period time_to_add = ct_period t) ''time_to_add.m_period == this->m_period'') (\<lambda>_.
     Inr (t\<lparr>ct_time := ct_time t + ct_time time_to_add\<rparr>))"

definition ComponentTime_reset :: "ComponentTime \<Rightarrow> ComponentTime" where
  "ComponentTime_reset t = t\<lparr>ct_time := 0\<rparr>"

definition getLatencyGenerator :: "ComponentTime \<Rightarrow> ComponentTime" where
  "getLatencyGenerator t = ComponentTime_create (ct_period t)"

definition getCycleCount :: "(nat \<Rightarrow> SubsecondTime) \<Rightarrow> ComponentTime \<Rightarrow> UInt64 result" where
  "getCycleCount periods t = divideRounded (ct_time t) (periods (ct_period t))"

definition ComponentTime_setElapsedTime :: "SubsecondTime \<Rightarrow> ComponentTime \<Rightarrow> ComponentTime" where
  "ComponentTime_setElapsedTime new_time t = t\<lparr>ct_time := new_time\<rparr>"

section \<open>Conversions are exact as long as nothing wraps\<close>

lemma divR_eq_Inr [simp]: "divR a b = Inr c \<longleftrightarrow> b \<noteq> 0 \<and> c = a div b"
  by (auto simp: divR_def)

lemma word_mult_div_exact:
  fixes a b :: "'a::len word"
  assumes "b \<noteq> 0" "unat a * unat b < 2 ^ LENGTH('a)"
  shows "a * b div b = a"
proof -
  have "unat (a * b) = unat a * unat b" using assms(2) by (simp add: unat_mult_lem)
  moreover have "unat b \<noteq> 0" using assms(1) by (simp add: unat_eq_0)
  ultimately have "unat (a * b div b) = unat a" by (simp add: unat_div_distrib)
  then show ?thesis by (simp add: word_unat_eq_iff)
qed

lemma unit_time_values:
  "unit_time u = (case u of Unit_FS \<Rightarrow> 1 | Unit_PS \<Rightarrow> 1000 | Unit_NS \<Rightarrow> 1000000 | Unit_US \<Rightarrow> 1000000000
     | Unit_MS \<Rightarrow> 1000000000000 | Unit_SEC \<Rightarrow> 1000000000000000)"
  by (cases u) (simp_all add: SEC_1_def MS_1_def US_1_def NS_1_def PS_1_def FS_1_def)

lemma unit_time_nonzero [simp]: "unit_time u \<noteq> 0"
  by (cases u) (simp_all add: unit_time_values)

lemma get_in_time_in: "unat n * unat (unit_time u) < 2 ^ 64 \<Longrightarrow> get_in u (time_in u n) = n"
  unfolding get_in_def time_in_def by (rule word_mult_div_exact) simp_all

lemma cycles_exact:
  assumes "p \<noteq> 0" "unat p * unat n < 2 ^ 64"
  shows "subsecondTimeToCycles p (cyclesToSubsecondTime p n) = Inr n"
  using word_mult_div_exact [of p n] assms
  by (simp add: subsecondTimeToCycles_def cyclesToSubsecondTime_def mult.commute)

text \<open>Rounding adds half a period and one femtosecond, which stays below the next multiple for every period of at least three.\<close>

lemma divideRounded_multiple:
  assumes "3 \<le> unat p" "unat p * unat n + unat p < 2 ^ 64"
  shows "divideRounded (p * n) p = Inr n"
proof -
  have pn: "unat (p * n) = unat p * unat n" using assms(2) by (subst unat_mult_lem [THEN iffD1]) simp_all
  have p2: "unat (p div 2) = unat p div 2" by (simp add: unat_div_distrib)
  have half: "unat (p div 2 + 1) = unat p div 2 + 1" using p2 assms by (subst unat_add_lem [THEN iffD1]) simp_all
  have "unat (p * n + (p div 2 + 1)) = unat p * unat n + (unat p div 2 + 1)"
    using pn half assms by (subst unat_add_lem [THEN iffD1]) simp_all
  moreover have "(unat p * unat n + (unat p div 2 + 1)) div unat p = unat n"
  proof -
    have "unat p div 2 + 1 < unat p" using assms(1) by arith
    then show ?thesis using div_mult_self4 [of "unat p" "unat n" "unat p div 2 + 1"] by simp
  qed
  ultimately have "unat ((p * n + (p div 2 + 1)) div p) = unat n" by (simp add: unat_div_distrib)
  moreover have "p \<noteq> 0" using assms(1) by auto
  ultimately show ?thesis by (simp add: divideRounded_def word_unat_eq_iff)
qed

lemma fold_addCycleLatency:
  "fold (addCycleLatency periods) ns t = t\<lparr>ct_time := ct_time t + periods (ct_period t) * sum_list ns\<rparr>"
  by (induction ns arbitrary: t) (simp_all add: addCycleLatency_def algebra_simps)

section \<open>Properties\<close>

text \<open>
  The clock of a component counts cycles exactly. Cycle latencies added one after the other to a fresh \<^verbatim>\<open>ComponentTime\<close> are
  counted by \<^verbatim>\<open>getCycleCount\<close> as their sum, and the elapsed time converts back to that number of cycles, as long as the
  period is at least three femtoseconds and the total with one more period stays below 2^64 femtoseconds.
\<close>

theorem getCycleCount_roundtrip:
  assumes "3 \<le> unat (periods p)" "unat (periods p) * unat (sum_list ns) + unat (periods p) < 2 ^ 64"
  shows "getCycleCount periods (fold (addCycleLatency periods) ns (ComponentTime_create p)) = Inr (sum_list ns)
    \<and> subsecondTimeToCycles (periods p) (ct_time (fold (addCycleLatency periods) ns (ComponentTime_create p))) = Inr (sum_list ns)"
proof
  show "getCycleCount periods (fold (addCycleLatency periods) ns (ComponentTime_create p)) = Inr (sum_list ns)"
    using divideRounded_multiple [OF assms] by (simp add: getCycleCount_def fold_addCycleLatency ComponentTime_create_def)
  have "periods p \<noteq> 0" "unat (periods p) * unat (sum_list ns) < 2 ^ 64" using assms by auto
  from cycles_exact [OF this]
  show "subsecondTimeToCycles (periods p) (ct_time (fold (addCycleLatency periods) ns (ComponentTime_create p))) = Inr (sum_list ns)"
    by (simp add: fold_addCycleLatency ComponentTime_create_def cyclesToSubsecondTime_def)
qed

theorem getCycleCount_roundtrip_witness:
  "getCycleCount (\<lambda>_. 375939) (fold (addCycleLatency (\<lambda>_. 375939)) [3, 4, 100] (ComponentTime_create 0)) = Inr 107"
  using getCycleCount_roundtrip [of "\<lambda>_. 375939" 0 "[3, 4, 100]"] by simp

end
