(* ===== verification/Thread_System.thy ===== *)
theory Thread_System
  imports Sync_Server Subsecond_Time
begin

text \<open>
  The threads of the simulated application: \<^verbatim>\<open>system/thread_manager.cc\<close>, \<^verbatim>\<open>core/thread.cc\<close>, the schedulers of
  \<^verbatim>\<open>scheduler/\<close>, the futexes and sleeping threads of \<^verbatim>\<open>system/syscall_server.cc\<close> and the barrier of
  \<^verbatim>\<open>system/barrier_sync_server.cc\<close>. They call each other through hooks, so they share one state, and every operation that the lock of
  the thread manager protects is a function on it. A thread or a core is its number, and \<^term>\<open>None\<close> stands for \<^verbatim>\<open>INVALID_THREAD_ID\<close>,
  \<^verbatim>\<open>INVALID_CORE_ID\<close> and a null pointer. Hooks of statistics, scripts and the SMT timer are left out, as are the memory
  accesses of the futex calls, whose values are arguments.
\<close>

section \<open>State\<close>

text \<open>\<^verbatim>\<open>Thread\<close> together with its \<^verbatim>\<open>ThreadManager::ThreadState\<close>: the two vectors grow together.\<close>

record sim_thread =
  tr_status :: thread_status
  tr_stalled_reason :: stall_type_t
  tr_waiter :: "nat option"
  tr_core :: "nat option"
  tr_wakeup_time :: SubsecondTime
  tr_wakeup_msg :: bool
  tr_clear_tid :: "IntPtr option"

definition Thread_create :: sim_thread where
  "Thread_create = \<lparr>tr_status = IDLE, tr_stalled_reason = STALL_UNSCHEDULED, tr_waiter = None, tr_core = None, tr_wakeup_time = 0,
     tr_wakeup_msg = False, tr_clear_tid = None\<rparr>"

record sim_core =
  sc_state :: thread_status
  sc_thread :: "nat option"
  sc_elapsed_time :: SubsecondTime
  sc_instruction_count :: UInt64

datatype sched_pseudo = SpawnPseudo SubsecondTime | JoinPseudo SubsecondTime | UnscheduledPseudo SubsecondTime

subsection \<open>Schedulers\<close>

record ThreadInfo =
  ti_has_affinity :: bool
  ti_explicit_affinity :: bool
  ti_core_affinity :: "bool list"
  ti_core_running :: "nat option"
  ti_last_scheduled_in :: SubsecondTime
  ti_last_scheduled_out :: SubsecondTime

definition ThreadInfo_create :: "nat \<Rightarrow> ThreadInfo" where
  "ThreadInfo_create cores = \<lparr>ti_has_affinity = False, ti_explicit_affinity = False, ti_core_affinity = replicate cores False,
     ti_core_running = None, ti_last_scheduled_in = 0, ti_last_scheduled_out = 0\<rparr>"

definition clearAffinity :: "ThreadInfo \<Rightarrow> ThreadInfo" where
  "clearAffinity i = i\<lparr>ti_core_affinity := map (\<lambda>_. False) (ti_core_affinity i)\<rparr>"

definition addAffinity :: "nat \<Rightarrow> ThreadInfo \<Rightarrow> ThreadInfo" where
  "addAffinity core i = i\<lparr>ti_core_affinity := (ti_core_affinity i)[core := True], ti_has_affinity := True\<rparr>"

definition setAffinitySingle :: "nat \<Rightarrow> ThreadInfo \<Rightarrow> ThreadInfo" where
  "setAffinitySingle core i = addAffinity core (clearAffinity i)"

definition hasAffinity :: "nat \<Rightarrow> ThreadInfo \<Rightarrow> bool" where
  "hasAffinity core i = ti_core_affinity i ! core"

definition isRunning :: "ThreadInfo \<Rightarrow> bool" where
  "isRunning i = (ti_core_running i \<noteq> None)"

record big_small =
  sb_num_big_cores :: nat
  sb_mask_big :: "bool list"
  sb_mask_small :: "bool list"
  sb_last_reshuffle :: SubsecondTime
  sb_rng :: UInt64
  sb_thread_isbig :: "nat \<Rightarrow> bool"

text \<open>A priority queue with the smallest thread on top is a sorted list.\<close>

record sequential =
  sq_core_waiting_threads :: "nat list list"
  sq_current_pinball_set :: nat
  sq_seqs :: "int list"
  sq_next_thread_to_execute :: "int list"
  sq_total_pinballs :: UInt32

datatype sched_policy =
    SchedStatic "bool list"
  | SchedPinned nat "bool list" nat
  | SchedRoaming "bool list"
  | SchedBigSmall big_small
  | SchedSequential sequential

record scheduler =
  sp_policy :: sched_policy
  sp_quantum :: SubsecondTime
  sp_last_periodic :: SubsecondTime
  sp_thread_info :: "ThreadInfo list"
  sp_core_thread_running :: "nat option list"
  sp_quantum_left :: "SubsecondTime list"
  sp_threads_runnable :: "bool list"
  sp_in_periodic :: bool

subsection \<open>Barrier, futexes and the whole\<close>

datatype barrier_event = BarrierEnter nat | BarrierExit nat | CondSignal nat

record BarrierSyncServer =
  bss_barrier_interval :: SubsecondTime
  bss_next_barrier_time :: SubsecondTime
  bss_local_clock_list :: "SubsecondTime list"
  bss_barrier_acquire_list :: "bool list"
  bss_to_release :: "nat list"
  bss_core_group :: "nat option list"
  bss_core_thread :: "nat option list"
  bss_global_time :: SubsecondTime
  bss_fastforward :: bool
  bss_disable :: bool
  bss_events :: "barrier_event list"

record futex_waiter =
  fw_thread_id :: nat
  fw_mask :: UInt32
  fw_timeout :: SubsecondTime

record thread_sys =
  ts_threads :: "sim_thread list"
  ts_cores :: "sim_core list"
  ts_sched :: scheduler
  ts_barrier :: BarrierSyncServer
  ts_futexes :: "(IntPtr \<times> futex_waiter list) list"
  ts_sleeping :: "futex_waiter list"
  ts_spawn_list :: "(nat option \<times> nat \<times> SubsecondTime) list"
  ts_pseudo :: "(nat \<times> sched_pseudo) list"

text \<open>
  What the system takes from outside: the shuffle of the cores to release, the number of host cores, the costs of a wake-up, the iteration order of the
  table of futexes and the translation of addresses.
\<close>

record thread_env =
  te_shuffle :: "nat list \<Rightarrow> nat list"
  te_host_cores :: int
  te_reschedule_cost :: SubsecondTime
  te_order :: "IntPtr list \<Rightarrow> IntPtr list"
  te_va2pa :: "nat \<Rightarrow> IntPtr \<Rightarrow> IntPtr"

abbreviation num_cores :: "thread_sys \<Rightarrow> nat" where
  "num_cores s \<equiv> length (ts_cores s)"

definition upd_thread :: "nat \<Rightarrow> (sim_thread \<Rightarrow> sim_thread) \<Rightarrow> thread_sys \<Rightarrow> thread_sys" where
  "upd_thread t f s = s\<lparr>ts_threads := (ts_threads s)[t := f (ts_threads s ! t)]\<rparr>"

definition upd_core :: "nat \<Rightarrow> (sim_core \<Rightarrow> sim_core) \<Rightarrow> thread_sys \<Rightarrow> thread_sys" where
  "upd_core c f s = s\<lparr>ts_cores := (ts_cores s)[c := f (ts_cores s ! c)]\<rparr>"

definition upd_sched :: "(scheduler \<Rightarrow> scheduler) \<Rightarrow> thread_sys \<Rightarrow> thread_sys" where
  "upd_sched f s = s\<lparr>ts_sched := f (ts_sched s)\<rparr>"

definition upd_info :: "nat \<Rightarrow> (ThreadInfo \<Rightarrow> ThreadInfo) \<Rightarrow> thread_sys \<Rightarrow> thread_sys" where
  "upd_info t f = upd_sched (\<lambda>sp. sp\<lparr>sp_thread_info := (sp_thread_info sp)[t := f (sp_thread_info sp ! t)]\<rparr>)"

definition upd_barrier :: "(BarrierSyncServer \<Rightarrow> BarrierSyncServer) \<Rightarrow> thread_sys \<Rightarrow> thread_sys" where
  "upd_barrier f s = s\<lparr>ts_barrier := f (ts_barrier s)\<rparr>"

section \<open>Construction\<close>

text \<open>
  What the constructors read from the configuration: the keys \<^verbatim>\<open>quantum\<close> and \<^verbatim>\<open>core_mask\<close> are those of the chosen
  policy, and \<open>scf_is_big\<close> is the tag \<^verbatim>\<open>big\<close> of a core. The scheduler \<^verbatim>\<open>static\<close> has only its mask.
\<close>

record sched_config =
  scf_type :: string
  scf_quantum :: int
  scf_interleaving :: nat
  scf_core_mask :: "nat \<Rightarrow> bool"
  scf_is_big :: "nat \<Rightarrow> bool"
  scf_sequence :: "int list"
  scf_barrier_quantum :: int

definition SchedulerPinnedBase_create :: "sched_policy \<Rightarrow> SubsecondTime \<Rightarrow> nat \<Rightarrow> scheduler" where
  "SchedulerPinnedBase_create policy quantum cores =
     \<lparr>sp_policy = policy, sp_quantum = quantum, sp_last_periodic = 0, sp_thread_info = [], sp_core_thread_running = replicate cores None,
       sp_quantum_left = replicate cores 0, sp_threads_runnable = replicate 16 False, sp_in_periodic = False\<rparr>"

definition SchedulerBigSmall_create :: "(nat \<Rightarrow> bool) \<Rightarrow> nat \<Rightarrow> sched_policy" where
  "SchedulerBigSmall_create is_big cores = SchedBigSmall
     \<lparr>sb_num_big_cores = length (filter is_big [0..<cores]), sb_mask_big = map is_big [0..<cores], sb_mask_small = map (\<lambda>c. \<not> is_big c) [0..<cores],
       sb_last_reshuffle = 0, sb_rng = rng_seed 42, sb_thread_isbig = (\<lambda>_. False)\<rparr>"

text \<open>The first thread of every core follows those of the cores before it; \<^verbatim>\<open>seqs.at(i)\<close> is read for every core.\<close>

definition SchedulerSequential_create :: "int list \<Rightarrow> nat \<Rightarrow> sched_policy result" where
  "SchedulerSequential_create seqs cores =
     bindR (logAssertR (length seqs \<le> cores) ''Not enought cores. Every pinballs set must be executed on a different core.'') (\<lambda>_.
     bindR (foldR (\<lambda>i (ttes, next_tte). bindR (atR seqs i) (\<lambda>n. Inr (ttes @ [next_tte], next_tte + n))) [0..<cores] ([], 0)) (\<lambda>(ttes, _).
     Inr (SchedSequential \<lparr>sq_core_waiting_threads = replicate cores [], sq_current_pinball_set = 0, sq_seqs = seqs,
       sq_next_thread_to_execute = ttes, sq_total_pinballs = 0\<rparr>)))"

definition Scheduler_create :: "sched_config \<Rightarrow> nat \<Rightarrow> scheduler result" where
  "Scheduler_create cfg cores =
     (let msk = map (scf_core_mask cfg) [0..<cores]; quantum = time_in Unit_NS (word_of_int (scf_quantum cfg))
      in if scf_type cfg = ''static'' then Inr (SchedulerPinnedBase_create (SchedStatic msk) 0 cores)
         else if scf_type cfg = ''pinned'' then Inr (SchedulerPinnedBase_create (SchedPinned (scf_interleaving cfg) msk 0) quantum cores)
         else if scf_type cfg = ''roaming'' then Inr (SchedulerPinnedBase_create (SchedRoaming msk) quantum cores)
         else if scf_type cfg = ''big_small'' then Inr (SchedulerPinnedBase_create (SchedulerBigSmall_create (scf_is_big cfg) cores) quantum cores)
         else if scf_type cfg = ''sequential''
         then bindR (SchedulerSequential_create (scf_sequence cfg) cores) (\<lambda>policy.
              Inr (SchedulerPinnedBase_create policy (time_in Unit_NS 10000000000) cores))
         else Inl (LogError ''Unknown scheduler type''))"

definition BarrierSyncServer_create :: "SubsecondTime \<Rightarrow> nat \<Rightarrow> BarrierSyncServer" where
  "BarrierSyncServer_create interval cores =
     \<lparr>bss_barrier_interval = interval, bss_next_barrier_time = interval, bss_local_clock_list = replicate cores 0,
       bss_barrier_acquire_list = replicate cores False, bss_to_release = [], bss_core_group = replicate cores None,
       bss_core_thread = replicate cores None, bss_global_time = 0, bss_fastforward = False, bss_disable = False, bss_events = []\<rparr>"

definition ThreadManager_create :: "sched_config \<Rightarrow> nat \<Rightarrow> thread_sys result" where
  "ThreadManager_create cfg cores =
     bindR (Scheduler_create cfg cores) (\<lambda>sched.
     Inr \<lparr>ts_threads = [],
       ts_cores = replicate cores \<lparr>sc_state = IDLE, sc_thread = None, sc_elapsed_time = 0, sc_instruction_count = 0\<rparr>,
       ts_sched = sched, ts_barrier = BarrierSyncServer_create (time_in Unit_NS (word_of_int (scf_barrier_quantum cfg))) cores,
       ts_futexes = [], ts_sleeping = [], ts_spawn_list = [], ts_pseudo = []\<rparr>)"

section \<open>Release of threads that wait in the barrier\<close>

definition doRelease :: "int \<Rightarrow> BarrierSyncServer \<Rightarrow> BarrierSyncServer" where
  "doRelease n b =
     (let m = length (bss_to_release b); k = (if n < 0 then m else min (nat n) m)
      in b\<lparr>bss_to_release := take (m - k) (bss_to_release b),
           bss_events := bss_events b @ map CondSignal (take k (rev (bss_to_release b)))\<rparr>)"

definition releaseThread :: "nat \<Rightarrow> BarrierSyncServer \<Rightarrow> BarrierSyncServer" where
  "releaseThread t b =
     doRelease 1 (b\<lparr>bss_local_clock_list := map (\<lambda>core.
        if bss_barrier_acquire_list b ! core \<and> bss_core_thread b ! core = Some t then 0 else bss_local_clock_list b ! core)
        [0..<length (bss_local_clock_list b)]\<rparr>)"

definition barrier_threadMigrate :: "nat \<Rightarrow> thread_sys \<Rightarrow> thread_sys" where
  "barrier_threadMigrate t = upd_barrier (releaseThread t)"

section \<open>Placing threads on cores\<close>

text \<open>\<^verbatim>\<open>Thread::setCore\<close>\<close>

definition Thread_setCore :: "nat \<Rightarrow> nat option \<Rightarrow> thread_sys \<Rightarrow> thread_sys result" where
  "Thread_setCore t core s =
     (let s1 = (case tr_core (ts_threads s ! t) of Some c \<Rightarrow> upd_core c (sc_thread_update (\<lambda>_. None)) s | None \<Rightarrow> s);
          s2 = upd_thread t (tr_core_update (\<lambda>_. core)) s1
      in case core of
           None \<Rightarrow> Inr s2
         | Some c \<Rightarrow> bindR (logAssertR (sc_thread (ts_cores s2 ! c) = None) ''Cannot move thread to core as it is already running a thread'')
             (\<lambda>_. Inr (upd_core c (sc_thread_update (\<lambda>_. Some t)) s2)))"

definition findFreeCoreForThread :: "nat \<Rightarrow> thread_sys \<Rightarrow> nat option" where
  "findFreeCoreForThread t s =
     first_index (\<lambda>core. hasAffinity core (sp_thread_info (ts_sched s) ! t) \<and> sp_core_thread_running (ts_sched s) ! core = None) (num_cores s)"

text \<open>
  A resumed thread goes to a free core, where \<^verbatim>\<open>reschedule\<close> decides, which moves threads, which resumes threads: the functions up to
  \<^verbatim>\<open>reschedule\<close> take it as an argument.
\<close>

type_synonym rescheduler = "SubsecondTime \<Rightarrow> nat \<Rightarrow> bool \<Rightarrow> thread_sys \<Rightarrow> thread_sys result"

definition pinned_threadResume :: "rescheduler \<Rightarrow> nat \<Rightarrow> SubsecondTime \<Rightarrow> thread_sys \<Rightarrow> thread_sys result" where
  "pinned_threadResume resched t time s =
     (case findFreeCoreForThread t s of None \<Rightarrow> Inr s | Some core \<Rightarrow> resched time core False s)"

definition set_runnable :: "nat \<Rightarrow> bool \<Rightarrow> thread_sys \<Rightarrow> thread_sys result" where
  "set_runnable t v s =
     (if t < length (sp_threads_runnable (ts_sched s))
      then Inr (upd_sched (\<lambda>sp. sp\<lparr>sp_threads_runnable := (sp_threads_runnable sp)[t := v]\<rparr>) s)
      else Inl (Trap ''vector index''))"

definition is_static :: "thread_sys \<Rightarrow> bool" where
  "is_static s = (case sp_policy (ts_sched s) of SchedStatic _ \<Rightarrow> True | _ \<Rightarrow> False)"

definition dynamic_threadResume :: "rescheduler \<Rightarrow> nat \<Rightarrow> SubsecondTime \<Rightarrow> thread_sys \<Rightarrow> thread_sys result" where
  "dynamic_threadResume resched t time s =
     (if is_static s then Inr s else bindR (set_runnable t True s) (pinned_threadResume resched t time))"

definition resumeThread_async_with :: "rescheduler \<Rightarrow> nat \<Rightarrow> SubsecondTime \<Rightarrow> thread_sys \<Rightarrow> thread_sys result" where
  "resumeThread_async_with resched t time s = dynamic_threadResume resched t time (upd_thread t (tr_status_update (\<lambda>_. RUNNING)) s)"

definition resumeThread_with :: "rescheduler \<Rightarrow> nat \<Rightarrow> SubsecondTime \<Rightarrow> bool \<Rightarrow> thread_sys \<Rightarrow> thread_sys result" where
  "resumeThread_with resched t time msg s =
     (if t < length (ts_threads s)
      then resumeThread_async_with resched t time (upd_thread t (\<lambda>x. x\<lparr>tr_wakeup_time := time, tr_wakeup_msg := msg\<rparr>) s)
      else Inl (LogError ''Invalid thread_id''))"

definition moveThread_with :: "rescheduler \<Rightarrow> nat \<Rightarrow> nat option \<Rightarrow> SubsecondTime \<Rightarrow> thread_sys \<Rightarrow> thread_sys result" where
  "moveThread_with resched t core time s =
     bindR (logAssertR (t < length (ts_threads s)) ''Invalid thread_id'') (\<lambda>_.
     let s1 = (case tr_core (ts_threads s ! t) of Some c \<Rightarrow> upd_core c (sc_state_update (\<lambda>_. IDLE)) s | None \<Rightarrow> s)
     in bindR
          (case core of
             None \<Rightarrow> Thread_setCore t None s1
           | Some c \<Rightarrow>
               bindR (if tr_core (ts_threads s1 ! t) = None \<and> tr_status (ts_threads s1 ! t) = STALLED
                         \<and> tr_stalled_reason (ts_threads s1 ! t) = STALL_UNSCHEDULED
                      then resumeThread_with resched t time False s1 else Inr s1) (\<lambda>s2.
               bindR (Thread_setCore t (Some c) s2) (\<lambda>s3.
               Inr (if tr_status (ts_threads s3 ! t) \<noteq> STALLED then upd_core c (sc_state_update (\<lambda>_. RUNNING)) s3 else s3))))
          (\<lambda>s4. Inr (barrier_threadMigrate t s4)))"

section \<open>The choice of a thread\<close>

definition eligible :: "nat \<Rightarrow> nat \<Rightarrow> scheduler \<Rightarrow> bool" where
  "eligible core t sp =
     (hasAffinity core (sp_thread_info sp ! t) \<and> sp_threads_runnable sp ! t
      \<and> (\<not> isRunning (sp_thread_info sp ! t) \<or> ti_core_running (sp_thread_info sp ! t) = Some core))"

definition sched_score :: "SubsecondTime \<Rightarrow> ThreadInfo \<Rightarrow> int" where
  "sched_score time i =
     (if isRunning i then sint (get_in Unit_PS (ti_last_scheduled_in i) - get_in Unit_PS time)
      else sint (get_in Unit_PS time - get_in Unit_PS (ti_last_scheduled_out i)))"

definition pick_step :: "SubsecondTime \<Rightarrow> nat \<Rightarrow> scheduler \<Rightarrow> nat \<Rightarrow> nat option \<times> int \<Rightarrow> nat option \<times> int" where
  "pick_step time core sp t best =
     (if eligible core t sp \<and> sched_score time (sp_thread_info sp ! t) > snd best
      then (Some t, sched_score time (sp_thread_info sp ! t)) else best)"

definition pick_thread :: "SubsecondTime \<Rightarrow> nat \<Rightarrow> scheduler \<Rightarrow> nat option" where
  "pick_thread time core sp = fst (fold (pick_step time core sp) [0..<length (sp_threads_runnable sp)] (None, - (2 ^ 63)))"

definition unschedule_current :: "rescheduler \<Rightarrow> SubsecondTime \<Rightarrow> nat \<Rightarrow> nat \<Rightarrow> thread_sys \<Rightarrow> thread_sys result" where
  "unschedule_current resched time core t s =
     moveThread_with resched t None time
       (upd_info t (\<lambda>i. i\<lparr>ti_core_running := None, ti_last_scheduled_out := time + time_in Unit_PS (of_nat core)\<rparr>) s)"

definition set_core_thread :: "nat \<Rightarrow> nat option \<Rightarrow> thread_sys \<Rightarrow> thread_sys" where
  "set_core_thread core t = upd_sched (\<lambda>sp. sp\<lparr>sp_core_thread_running := (sp_core_thread_running sp)[core := t]\<rparr>)"

definition schedule_new :: "rescheduler \<Rightarrow> SubsecondTime \<Rightarrow> nat \<Rightarrow> nat \<Rightarrow> thread_sys \<Rightarrow> thread_sys result" where
  "schedule_new resched time core t s =
     (let s1 = (case ti_core_running (sp_thread_info (ts_sched s) ! t) of Some c \<Rightarrow> set_core_thread c None s | None \<Rightarrow> s)
      in moveThread_with resched t (Some core) time (upd_info t (\<lambda>i. i\<lparr>ti_core_running := Some core, ti_last_scheduled_in := time\<rparr>) s1))"

definition set_quantum_left :: "nat \<Rightarrow> SubsecondTime \<Rightarrow> thread_sys \<Rightarrow> thread_sys" where
  "set_quantum_left core q = upd_sched (\<lambda>sp. sp\<lparr>sp_quantum_left := (sp_quantum_left sp)[core := q]\<rparr>)"

definition reschedule_with :: "rescheduler \<Rightarrow> rescheduler" where
  "reschedule_with resched time core is_periodic s =
     (let sp = ts_sched s; current = sp_core_thread_running sp ! core
      in bindR (case current of Some t \<Rightarrow> atR (map tr_status (ts_threads s)) t | None \<Rightarrow> Inr IDLE) (\<lambda>status.
         if current \<noteq> None \<and> status = INITIALIZING then Inr s
         else bindR (if length (sp_threads_runnable sp) \<le> length (sp_thread_info sp) then Inr (pick_thread time core sp)
                     else Inl (Trap ''vector index'')) (\<lambda>new.
         bindR (if current \<noteq> new
                then bindR (case current of Some t \<Rightarrow> unschedule_current resched time core t s | None \<Rightarrow> Inr s) (\<lambda>s1.
                     let s2 = set_core_thread core new s1
                     in case new of Some t \<Rightarrow> schedule_new resched time core t s2 | None \<Rightarrow> Inr s2)
                else Inr s) (\<lambda>s3.
         Inr (set_quantum_left core (sp_quantum (ts_sched s3)) s3)))))"

primrec reschedule_fuel :: "nat \<Rightarrow> rescheduler" where
  "reschedule_fuel 0 = (\<lambda>time core is_periodic s. Inl Diverges)"
| "reschedule_fuel (Suc n) = reschedule_with (reschedule_fuel n)"

text \<open>The recursion is as deep as there are free cores.\<close>

definition reschedule :: rescheduler where
  "reschedule time core is_periodic s = reschedule_fuel (num_cores s + 2) time core is_periodic s"

definition resumeThread_sys :: "nat \<Rightarrow> SubsecondTime \<Rightarrow> bool \<Rightarrow> thread_sys \<Rightarrow> thread_sys result" where
  "resumeThread_sys t time msg s = resumeThread_with reschedule t time msg s"

section \<open>The operations of the pinned schedulers\<close>

definition threadYield :: "nat \<Rightarrow> thread_sys \<Rightarrow> thread_sys result" where
  "threadYield t s =
     bindR (atR (sp_thread_info (ts_sched s)) t) (\<lambda>info.
     case ti_core_running info of
       None \<Rightarrow> Inr s
     | Some core \<Rightarrow>
         let time = sc_elapsed_time (ts_cores s ! core)
         in bindR (reschedule time core False (set_quantum_left core 0 s)) (\<lambda>s1.
            if hasAffinity core (sp_thread_info (ts_sched s1) ! t) then Inr s1
            else case findFreeCoreForThread t s1 of Some free \<Rightarrow> reschedule time free False s1 | None \<Rightarrow> Inr s1))"

definition grow_info :: "nat \<Rightarrow> nat \<Rightarrow> thread_sys \<Rightarrow> thread_sys" where
  "grow_info t new_size s =
     (if length (sp_thread_info (ts_sched s)) \<le> t
      then upd_sched (\<lambda>sp. sp\<lparr>sp_thread_info := sp_thread_info sp
             @ replicate (new_size - length (sp_thread_info sp)) (ThreadInfo_create (num_cores s))\<rparr>) s
      else s)"

definition setAffinityMask :: "nat \<Rightarrow> bool list option \<Rightarrow> ThreadInfo \<Rightarrow> ThreadInfo result" where
  "setAffinityMask cores msk i =
     (case msk of
        None \<Rightarrow> Inr (fold addAffinity [0..<cores] i)
      | Some bits \<Rightarrow>
          foldR (\<lambda>cpu i. if bits ! cpu
                         then bindR (logAssertR (cpu < cores) ''Invalid core found in sched_setaffinity() mask'') (\<lambda>_. Inr (addAffinity cpu i))
                         else Inr i)
            [0..<length bits] (clearAffinity i))"

definition threadSetAffinity :: "nat option \<Rightarrow> nat \<Rightarrow> bool list option \<Rightarrow> thread_sys \<Rightarrow> thread_sys result" where
  "threadSetAffinity calling t msk s =
     (let s1 = grow_info t (t + 16) s
      in bindR (setAffinityMask (num_cores s) msk ((sp_thread_info (ts_sched s1) ! t)\<lparr>ti_explicit_affinity := True\<rparr>)) (\<lambda>info.
         let s2 = upd_info t (\<lambda>_. info) s1
         in if length (ts_threads s2) \<le> t then Inr s2
            else if calling = Some t then threadYield t s2
            else case ti_core_running info of
                   Some core \<Rightarrow>
                     if hasAffinity core info then bindR (atR (sp_threads_runnable (ts_sched s2)) t) (\<lambda>_. Inr s2)
                     else Inr (set_quantum_left core 0 s2)
                 | None \<Rightarrow>
                     bindR (atR (sp_threads_runnable (ts_sched s2)) t) (\<lambda>runnable.
                     if runnable
                     then case findFreeCoreForThread t s2 of
                            Some free \<Rightarrow> reschedule (max (sc_elapsed_time (ts_cores s2 ! free)) (bss_global_time (ts_barrier s2))) free False s2
                          | None \<Rightarrow> Inr s2
                     else Inr s2)))"

definition threadGetAffinity :: "nat \<Rightarrow> nat \<Rightarrow> thread_sys \<Rightarrow> bool list option result" where
  "threadGetAffinity t cpusetsize s =
     (if cpusetsize * 8 < num_cores s then Inr None
      else bindR (atR (sp_thread_info (ts_sched s)) t) (\<lambda>info.
           Inr (Some (map (\<lambda>cpu. cpu < num_cores s \<and> (hasAffinity cpu info \<or> \<not> ti_explicit_affinity info)) [0..<cpusetsize * 8]))))"

definition pinned_threadStart :: "nat \<Rightarrow> SubsecondTime \<Rightarrow> thread_sys \<Rightarrow> thread_sys result" where
  "pinned_threadStart t time s = pinned_threadResume reschedule t time s"

definition pinned_threadStall :: "nat \<Rightarrow> SubsecondTime \<Rightarrow> thread_sys \<Rightarrow> thread_sys result" where
  "pinned_threadStall t time s =
     bindR (atR (sp_thread_info (ts_sched s)) t) (\<lambda>info.
     case ti_core_running info of Some core \<Rightarrow> reschedule time core False s | None \<Rightarrow> Inr s)"

definition pinned_periodic :: "SubsecondTime \<Rightarrow> thread_sys \<Rightarrow> thread_sys result" where
  "pinned_periodic time s =
     (let delta = time - sp_last_periodic (ts_sched s)
      in bindR (foldR (\<lambda>core s.
           let left = sp_quantum_left (ts_sched s) ! core
           in if delta > left \<or> sp_core_thread_running (ts_sched s) ! core = None then reschedule time core True s
              else Inr (set_quantum_left core (left - delta) s)) [0..<num_cores s] s) (\<lambda>s1.
         Inr (upd_sched (\<lambda>sp. sp\<lparr>sp_last_periodic := time\<rparr>) s1)))"

section \<open>The five policies\<close>

text \<open>The next core that the mask allows, \<open>interleaving\<close> cores on; \<^term>\<open>None\<close> when the loop does not end.\<close>

definition next_core :: "nat \<Rightarrow> nat \<Rightarrow> nat \<Rightarrow> nat result" where
  "next_core cores interleaving core =
     (if core + interleaving < cores then Inr (core + interleaving)
      else if cores = 0 \<or> interleaving = 0 then Inl (Trap ''division by zero'')
      else Inr (((core + interleaving) mod cores + 1) mod interleaving))"

partial_function (option) getNextCore :: "nat \<Rightarrow> nat \<Rightarrow> bool list \<Rightarrow> nat \<Rightarrow> nat result option" where
  "getNextCore cores interleaving msk core =
     (case next_core cores interleaving core of
        Inl e \<Rightarrow> Some (Inl e)
      | Inr next \<Rightarrow>
          if length msk \<le> next then Some (Inl (Trap ''vector index''))
          else if msk ! next then Some (Inr next) else getNextCore cores interleaving msk next)"

partial_function (option) getFreeCore_loop :: "nat \<Rightarrow> nat \<Rightarrow> bool list \<Rightarrow> nat option list \<Rightarrow> nat \<Rightarrow> nat \<Rightarrow> nat result option" where
  "getFreeCore_loop cores interleaving msk running first core =
     (if running ! core = None \<and> msk ! core then Some (Inr core)
      else case getNextCore cores interleaving msk core of
             None \<Rightarrow> None
           | Some (Inl e) \<Rightarrow> Some (Inl e)
           | Some (Inr next) \<Rightarrow> if next = first then Some (Inr first) else getFreeCore_loop cores interleaving msk running first next)"

definition of_loop :: "'a result option \<Rightarrow> 'a result" where
  "of_loop r = (case r of None \<Rightarrow> Inl Diverges | Some x \<Rightarrow> x)"

definition set_policy :: "sched_policy \<Rightarrow> thread_sys \<Rightarrow> thread_sys" where
  "set_policy p = upd_sched (\<lambda>sp. sp\<lparr>sp_policy := p\<rparr>)"

definition moveToMask :: "bool \<Rightarrow> nat \<Rightarrow> big_small \<Rightarrow> thread_sys \<Rightarrow> thread_sys result" where
  "moveToMask big t b s =
     bindR (threadSetAffinity None t (Some (if big then sb_mask_big b else sb_mask_small b)) s) (\<lambda>s1.
     Inr (set_policy (SchedBigSmall (b\<lparr>sb_thread_isbig := (sb_thread_isbig b)(t := big)\<rparr>)) s1))"

definition of_big_small :: "thread_sys \<Rightarrow> big_small" where
  "of_big_small s = (case sp_policy (ts_sched s) of SchedBigSmall b \<Rightarrow> b
     | _ \<Rightarrow> \<lparr>sb_num_big_cores = 0, sb_mask_big = [], sb_mask_small = [], sb_last_reshuffle = 0, sb_rng = 0, sb_thread_isbig = (\<lambda>_. False)\<rparr>)"

definition moveToSmall :: "nat \<Rightarrow> thread_sys \<Rightarrow> thread_sys result" where
  "moveToSmall t s = moveToMask False t (of_big_small s) s"

definition moveToBig :: "nat \<Rightarrow> thread_sys \<Rightarrow> thread_sys result" where
  "moveToBig t s = moveToMask True t (of_big_small s) s"

definition pickBigThread :: "thread_sys \<Rightarrow> thread_sys result" where
  "pickBigThread s =
     (let b = of_big_small s; n = length (ts_threads s)
      in bindR (foldR (\<lambda>t acc. if sb_thread_isbig b t then Inr acc
                               else bindR (atR (sp_threads_runnable (ts_sched s)) t) (\<lambda>r. Inr (if r then acc @ [t] else acc))) [0..<n] [])
         (\<lambda>eligible_threads.
          if eligible_threads = [] then Inr s
          else case rng_next (sb_rng b) of (rng, r) \<Rightarrow>
                 moveToBig (eligible_threads ! unat (r mod of_nat (length eligible_threads))) (set_policy (SchedBigSmall (b\<lparr>sb_rng := rng\<rparr>)) s)))"

definition sequential_core :: "ThreadInfo \<Rightarrow> nat" where
  "sequential_core i = (case first_index (\<lambda>c. ti_core_affinity i ! c) (length (ti_core_affinity i)) of Some c \<Rightarrow> c | None \<Rightarrow> 0)"

definition pinned_threadSetInitialAffinity :: "nat \<Rightarrow> bool list \<Rightarrow> nat \<Rightarrow> nat \<Rightarrow> thread_sys \<Rightarrow> thread_sys result" where
  "pinned_threadSetInitialAffinity interleaving msk next t s =
     bindR (of_loop (getFreeCore_loop (num_cores s) interleaving msk (sp_core_thread_running (ts_sched s)) next next)) (\<lambda>core.
     bindR (of_loop (getNextCore (num_cores s) interleaving msk core)) (\<lambda>next1.
     Inr (upd_info t (setAffinitySingle core) (set_policy (SchedPinned interleaving msk next1) s))))"

definition roaming_threadSetInitialAffinity :: "bool list \<Rightarrow> nat \<Rightarrow> thread_sys \<Rightarrow> thread_sys" where
  "roaming_threadSetInitialAffinity msk t s =
     upd_info t (\<lambda>i. fold (\<lambda>core i. if msk ! core then addAffinity core i else i) [0..<num_cores s] (clearAffinity i)) s"

definition sequential_threadSetInitialAffinity :: "sequential \<Rightarrow> nat \<Rightarrow> thread_sys \<Rightarrow> thread_sys result" where
  "sequential_threadSetInitialAffinity q t s =
     (let k = sq_current_pinball_set q
      in bindR (atR (sq_seqs q) k) (\<lambda>n.
         Inr (upd_info t (\<lambda>i. (setAffinitySingle k i)\<lparr>ti_explicit_affinity := True\<rparr>)
               (set_policy (SchedSequential (q\<lparr>sq_seqs := (sq_seqs q)[k := n - 1], sq_current_pinball_set := (if n - 1 = 0 then k + 1 else k)\<rparr>)) s))))"

definition threadSetInitialAffinity :: "nat \<Rightarrow> thread_sys \<Rightarrow> thread_sys result" where
  "threadSetInitialAffinity t s =
     (case sp_policy (ts_sched s) of
        SchedStatic msk \<Rightarrow> Inr s
      | SchedPinned interleaving msk next \<Rightarrow> pinned_threadSetInitialAffinity interleaving msk next t s
      | SchedRoaming msk \<Rightarrow> Inr (roaming_threadSetInitialAffinity msk t s)
      | SchedBigSmall b \<Rightarrow> moveToSmall t s
      | SchedSequential q \<Rightarrow> sequential_threadSetInitialAffinity q t s)"

definition static_threadCreate :: "bool list \<Rightarrow> thread_sys \<Rightarrow> (nat option \<times> thread_sys) result" where
  "static_threadCreate msk s =
     (case first_index (\<lambda>core. msk ! core \<and> sc_state (ts_cores s ! core) = IDLE) (num_cores s) of
        None \<Rightarrow> Inl (LogError ''No cores available for spawnThread request.'')
      | Some core \<Rightarrow> Inr (Some core, s))"

definition pinned_threadCreate :: "nat \<Rightarrow> thread_sys \<Rightarrow> (nat option \<times> thread_sys) result" where
  "pinned_threadCreate t s =
     (let s1 = grow_info t (length (sp_thread_info (ts_sched s)) + 16) s
      in bindR (atR (sp_thread_info (ts_sched s1)) t) (\<lambda>info.
         bindR (if ti_has_affinity info then Inr s1 else threadSetInitialAffinity t s1) (\<lambda>s2.
         case findFreeCoreForThread t s2 of
           Some core \<Rightarrow>
             Inr (Some core, set_quantum_left core (sp_quantum (ts_sched s2)) (set_core_thread core (Some t)
                   (upd_info t (\<lambda>i. i\<lparr>ti_core_running := Some core\<rparr>) s2)))
         | None \<Rightarrow> Inr (None, upd_info t (\<lambda>i. i\<lparr>ti_core_running := None\<rparr>) s2))))"

definition scheduler_threadCreate :: "nat \<Rightarrow> thread_sys \<Rightarrow> (nat option \<times> thread_sys) result" where
  "scheduler_threadCreate t s = (case sp_policy (ts_sched s) of SchedStatic msk \<Rightarrow> static_threadCreate msk s | _ \<Rightarrow> pinned_threadCreate t s)"

definition sequential_threadStart :: "sequential \<Rightarrow> nat \<Rightarrow> thread_sys \<Rightarrow> thread_sys result" where
  "sequential_threadStart q t s =
     bindR (atR (sp_thread_info (ts_sched s)) t) (\<lambda>info.
     let core = sequential_core info; q1 = q\<lparr>sq_total_pinballs := sq_total_pinballs q + 1\<rparr>
     in if sp_core_thread_running (ts_sched s) ! core = Some t
        then Inr (set_policy (SchedSequential (q1\<lparr>sq_next_thread_to_execute :=
               (sq_next_thread_to_execute q)[core := sq_next_thread_to_execute q ! core + 1]\<rparr>)) s)
        else set_runnable t False (set_policy (SchedSequential (q1\<lparr>sq_core_waiting_threads :=
               (sq_core_waiting_threads q)[core := insort t (sq_core_waiting_threads q ! core)]\<rparr>)) s))"

definition policy_threadStart :: "nat \<Rightarrow> SubsecondTime \<Rightarrow> thread_sys \<Rightarrow> thread_sys result" where
  "policy_threadStart t time s =
     (case sp_policy (ts_sched s) of SchedSequential q \<Rightarrow> sequential_threadStart q t s | _ \<Rightarrow> pinned_threadStart t time s)"

definition bigSmall_threadStall :: "big_small \<Rightarrow> nat \<Rightarrow> SubsecondTime \<Rightarrow> thread_sys \<Rightarrow> thread_sys result" where
  "bigSmall_threadStall b t time s =
     bindR (if sb_thread_isbig b t then bindR (pickBigThread s) (moveToSmall t) else Inr s) (pinned_threadStall t time)"

definition policy_threadStall :: "nat \<Rightarrow> SubsecondTime \<Rightarrow> thread_sys \<Rightarrow> thread_sys result" where
  "policy_threadStall t time s =
     (case sp_policy (ts_sched s) of SchedBigSmall b \<Rightarrow> bigSmall_threadStall b t time s | _ \<Rightarrow> pinned_threadStall t time s)"

definition bigSmall_threadExit :: "big_small \<Rightarrow> nat \<Rightarrow> SubsecondTime \<Rightarrow> thread_sys \<Rightarrow> thread_sys result" where
  "bigSmall_threadExit b t time s = bindR (if sb_thread_isbig b t then pickBigThread s else Inr s) (pinned_threadStall t time)"

definition sequential_threadExit :: "sequential \<Rightarrow> nat \<Rightarrow> SubsecondTime \<Rightarrow> thread_sys \<Rightarrow> thread_sys result" where
  "sequential_threadExit q t time s =
     bindR (set_runnable t False s) (\<lambda>s1.
     bindR (atR (sp_thread_info (ts_sched s1)) t) (\<lambda>info.
     let core = sequential_core info; s2 = upd_info t (\<lambda>i. i\<lparr>ti_last_scheduled_out := time\<rparr>) s1
     in case sq_core_waiting_threads q ! core of
          [] \<Rightarrow> Inr s2
        | next # rest \<Rightarrow>
            if int next \<noteq> sq_next_thread_to_execute q ! core then Inr s2
            else bindR (set_runnable next True (set_policy (SchedSequential (q\<lparr>
                     sq_core_waiting_threads := (sq_core_waiting_threads q)[core := rest],
                     sq_next_thread_to_execute := (sq_next_thread_to_execute q)[core := sq_next_thread_to_execute q ! core + 1]\<rparr>)) s2))
                   (reschedule time core False)))"

text \<open>\<^verbatim>\<open>threadExit\<close> of the pinned schedulers is their \<^verbatim>\<open>threadStall\<close>.\<close>

definition policy_threadExit :: "nat \<Rightarrow> SubsecondTime \<Rightarrow> thread_sys \<Rightarrow> thread_sys result" where
  "policy_threadExit t time s =
     (case sp_policy (ts_sched s) of
        SchedBigSmall b \<Rightarrow> bigSmall_threadExit b t time s
      | SchedSequential q \<Rightarrow> sequential_threadExit q t time s
      | _ \<Rightarrow> pinned_threadStall t time s)"

definition bigSmall_periodic :: "big_small \<Rightarrow> SubsecondTime \<Rightarrow> thread_sys \<Rightarrow> thread_sys result" where
  "bigSmall_periodic b time s =
     bindR (if time > sb_last_reshuffle b + sp_quantum (ts_sched s)
            then bindR (foldR (\<lambda>t s. if sb_thread_isbig (of_big_small s) t then moveToSmall t s else Inr s) [0..<length (ts_threads s)] s) (\<lambda>s1.
                 bindR (foldR (\<lambda>_. pickBigThread) [0..<min (sb_num_big_cores b) (length (ts_threads s))] s1) (\<lambda>s2.
                 Inr (set_policy (SchedBigSmall ((of_big_small s2)\<lparr>sb_last_reshuffle := time\<rparr>)) s2)))
            else Inr s) (pinned_periodic time)"

definition policy_periodic :: "SubsecondTime \<Rightarrow> thread_sys \<Rightarrow> thread_sys result" where
  "policy_periodic time s =
     (case sp_policy (ts_sched s) of SchedBigSmall b \<Rightarrow> bigSmall_periodic b time s | _ \<Rightarrow> pinned_periodic time s)"

section \<open>The hooks of the dynamic schedulers\<close>

definition set_in_periodic :: "bool \<Rightarrow> thread_sys \<Rightarrow> thread_sys" where
  "set_in_periodic v = upd_sched (\<lambda>sp. sp\<lparr>sp_in_periodic := v\<rparr>)"

definition dynamic_periodic :: "SubsecondTime \<Rightarrow> thread_sys \<Rightarrow> thread_sys result" where
  "dynamic_periodic time s =
     (if is_static s then Inr s
      else bindR (policy_periodic time (set_in_periodic True s)) (\<lambda>s1. Inr (set_in_periodic False s1)))"

definition dynamic_threadStart :: "nat \<Rightarrow> SubsecondTime \<Rightarrow> thread_sys \<Rightarrow> thread_sys result" where
  "dynamic_threadStart t time s =
     (if is_static s then Inr s
      else let s1 = (if length (sp_threads_runnable (ts_sched s)) \<le> t
                     then upd_sched (\<lambda>sp. sp\<lparr>sp_threads_runnable := sp_threads_runnable sp @ replicate 16 False\<rparr>) s else s)
           in bindR (set_runnable t True s1) (policy_threadStart t time))"

definition dynamic_threadStall :: "nat \<Rightarrow> stall_type_t \<Rightarrow> SubsecondTime \<Rightarrow> thread_sys \<Rightarrow> thread_sys result" where
  "dynamic_threadStall t reason time s =
     (if is_static s \<or> reason = STALL_UNSCHEDULED then Inr s else bindR (set_runnable t False s) (policy_threadStall t time))"

definition dynamic_threadExit :: "nat \<Rightarrow> SubsecondTime \<Rightarrow> thread_sys \<Rightarrow> thread_sys result" where
  "dynamic_threadExit t time s = (if is_static s then Inr s else bindR (set_runnable t False s) (policy_threadExit t time))"

section \<open>Futexes and sleeping threads\<close>

text \<open>\<^verbatim>\<open>m_futexes[address]\<close>: an address that is not in the table has no waiters.\<close>

definition futex_queue :: "IntPtr \<Rightarrow> thread_sys \<Rightarrow> futex_waiter list" where
  "futex_queue a s = (case map_of (ts_futexes s) a of Some q \<Rightarrow> q | None \<Rightarrow> [])"

fun alist_put :: "'k \<Rightarrow> 'v \<Rightarrow> ('k \<times> 'v) list \<Rightarrow> ('k \<times> 'v) list" where
  "alist_put k v [] = [(k, v)]"
| "alist_put k v ((k', v') # m) = (if k = k' then (k, v) # m else (k', v') # alist_put k v m)"

definition set_futex_queue :: "IntPtr \<Rightarrow> futex_waiter list \<Rightarrow> thread_sys \<Rightarrow> thread_sys" where
  "set_futex_queue a q s = s\<lparr>ts_futexes := alist_put a q (ts_futexes s)\<rparr>"

text \<open>Removal of the first element that satisfies a condition.\<close>

fun take_first :: "('a \<Rightarrow> bool) \<Rightarrow> 'a list \<Rightarrow> ('a \<times> 'a list) option" where
  "take_first P [] = None"
| "take_first P (x # xs) = (if P x then Some (x, xs) else case take_first P xs of None \<Rightarrow> None | Some (y, ys) \<Rightarrow> Some (y, x # ys))"

definition dequeueWaiter :: "IntPtr \<Rightarrow> UInt32 \<Rightarrow> SubsecondTime \<Rightarrow> thread_sys \<Rightarrow> (nat option \<times> thread_sys) result" where
  "dequeueWaiter a msk time s =
     (case take_first (\<lambda>w. msk AND fw_mask w \<noteq> 0) (futex_queue a s) of
        None \<Rightarrow> Inr (None, s)
      | Some (w, q) \<Rightarrow>
          bindR (resumeThread_sys (fw_thread_id w) time True (set_futex_queue a q s)) (\<lambda>s1. Inr (Some (fw_thread_id w), s1)))"

definition requeueWaiter :: "IntPtr \<Rightarrow> IntPtr \<Rightarrow> thread_sys \<Rightarrow> nat option \<times> thread_sys" where
  "requeueWaiter a b s =
     (case futex_queue a s of
        [] \<Rightarrow> (None, s)
      | w # q \<Rightarrow> (let s1 = set_futex_queue a q s in (Some (fw_thread_id w), set_futex_queue b (futex_queue b s1 @ [w]) s1)))"

definition wakeTimedOut :: "SubsecondTime \<Rightarrow> IntPtr \<Rightarrow> thread_sys \<Rightarrow> thread_sys result" where
  "wakeTimedOut time a s =
     (case take_first (\<lambda>w. fw_timeout w \<le> time) (futex_queue a s) of
        None \<Rightarrow> Inr s
      | Some (w, q) \<Rightarrow> resumeThread_sys (fw_thread_id w) time False (set_futex_queue a q s))"

definition futexPeriodic :: "thread_env \<Rightarrow> SubsecondTime \<Rightarrow> thread_sys \<Rightarrow> thread_sys result" where
  "futexPeriodic env time s =
     bindR (case take_first (\<lambda>w. fw_timeout w \<le> time) (ts_sleeping s) of
              None \<Rightarrow> Inr s
            | Some (w, q) \<Rightarrow> resumeThread_sys (fw_thread_id w) time False (s\<lparr>ts_sleeping := q\<rparr>))
       (\<lambda>s1. foldR (wakeTimedOut time) (te_order env (map fst (ts_futexes s1))) s1)"

definition last_timeout :: "futex_waiter list \<Rightarrow> SubsecondTime" where
  "last_timeout q = fold (\<lambda>w next. if fw_timeout w < MaxTime then fw_timeout w else next) q MaxTime"

definition getNextTimeout :: "thread_sys \<Rightarrow> SubsecondTime" where
  "getNextTimeout s = fold (\<lambda>(a, q) next. min (last_timeout q) next) (ts_futexes s) (last_timeout (ts_sleeping s))"

section \<open>The barrier\<close>

definition isThreadRunning :: "nat \<Rightarrow> thread_sys \<Rightarrow> bool" where
  "isThreadRunning t s = (tr_status (ts_threads s ! t) = RUNNING)"

definition isThreadInitializing :: "nat \<Rightarrow> thread_sys \<Rightarrow> bool" where
  "isThreadInitializing t s = (tr_status (ts_threads s ! t) = INITIALIZING)"

definition anyThreadRunning :: "thread_sys \<Rightarrow> bool" where
  "anyThreadRunning s = list_ex (\<lambda>t. isThreadRunning t s \<or> isThreadInitializing t s) [0..<length (ts_threads s)]"

definition areAllCoresRunning :: "thread_sys \<Rightarrow> bool" where
  "areAllCoresRunning s = list_all (\<lambda>x. tr_status x \<noteq> IDLE) (ts_threads s)"

definition core_itself_running :: "thread_sys \<Rightarrow> nat \<Rightarrow> bool result" where
  "core_itself_running s core =
     (if sc_state (ts_cores s ! core) = RUNNING
      then case sc_thread (ts_cores s ! core) of
             None \<Rightarrow> Inl (LogError ''Core is running but has no thread'')
           | Some t \<Rightarrow> Inr (isThreadRunning t s)
      else Inr False)"

definition isCoreRunning :: "thread_sys \<Rightarrow> nat \<Rightarrow> bool result" where
  "isCoreRunning s core =
     bindR (core_itself_running s core) (\<lambda>r.
     if r then Inr True
     else if bss_fastforward (ts_barrier s) then Inr False
     else foldR (\<lambda>sibling found. if found then Inr True
                                 else if bss_core_group (ts_barrier s) ! sibling = Some core then core_itself_running s sibling else Inr False)
            [0..<num_cores s] False)"

text \<open>The loop of \<^verbatim>\<open>isBarrierReached\<close>, which returns as soon as it finds a core that has not arrived.\<close>

fun barrier_scan :: "thread_sys \<Rightarrow> nat list \<Rightarrow> bool \<Rightarrow> bool result" where
  "barrier_scan s [] reached = Inr reached"
| "barrier_scan s (core # rest) reached =
     (let b = ts_barrier s
      in if bss_fastforward b
         then if bss_barrier_acquire_list b ! core then barrier_scan s rest True
              else bindR (isCoreRunning s core) (\<lambda>r. if r then Inr False else barrier_scan s rest reached)
         else if bss_core_group b ! core \<noteq> None then barrier_scan s rest reached
         else bindR (isCoreRunning s core) (\<lambda>r.
              if r then if bss_local_clock_list b ! core < bss_next_barrier_time b then Inr False else barrier_scan s rest True
              else barrier_scan s rest reached))"

definition isBarrierReached :: "thread_sys \<Rightarrow> bool result" where
  "isBarrierReached s = barrier_scan s [0..<num_cores s] False"

text \<open>\<^verbatim>\<open>HOOK_PERIODIC\<close>: the futexes are notified before the schedulers act.\<close>

definition hook_periodic :: "thread_env \<Rightarrow> SubsecondTime \<Rightarrow> thread_sys \<Rightarrow> thread_sys result" where
  "hook_periodic env time s = bindR (futexPeriodic env time s) (dynamic_periodic time)"

text \<open>The cores that leave the barrier: (one was released, the caller must wait, the server).\<close>

definition release_core :: "nat option \<Rightarrow> nat \<Rightarrow> bool \<times> bool \<times> BarrierSyncServer \<Rightarrow> bool \<times> bool \<times> BarrierSyncServer" where
  "release_core caller core = (\<lambda>(resumed, must_wait, b).
     if bss_local_clock_list b ! core < bss_next_barrier_time b \<and> bss_barrier_acquire_list b ! core
     then let b1 = b\<lparr>bss_barrier_acquire_list := (bss_barrier_acquire_list b)[core := False]\<rparr>
          in if bss_core_thread b ! core = caller then (True, False, b1)
             else (True, must_wait, b1\<lparr>bss_events := bss_events b1 @ [BarrierExit core], bss_to_release := bss_to_release b1 @ [core]\<rparr>)
     else (resumed, must_wait, b))"

definition release_cores :: "nat \<Rightarrow> nat option \<Rightarrow> BarrierSyncServer \<Rightarrow> bool \<times> bool \<times> BarrierSyncServer" where
  "release_cores cores caller b = fold (release_core caller) [0..<cores] (False, True, b)"

text \<open>The result is \<^term>\<open>None\<close> where \<^verbatim>\<open>barrierRelease\<close> returns false from within its loop.\<close>

primrec barrier_loop :: "nat \<Rightarrow> thread_env \<Rightarrow> nat option \<Rightarrow> bool \<Rightarrow> thread_sys \<Rightarrow> (bool option \<times> thread_sys) result" where
  "barrier_loop 0 env caller until_release s = Inl Diverges"
| "barrier_loop (Suc n) env caller until_release s =
     (let time = bss_next_barrier_time (ts_barrier s)
      in bindR (hook_periodic env time (upd_barrier (\<lambda>b. b\<lparr>bss_global_time := time\<rparr>) s)) (\<lambda>s1.
         if until_release \<and> anyThreadRunning s1 then Inr (None, s1)
         else bindR (logAssertR (until_release \<longrightarrow> getNextTimeout s1 < MaxTime) ''No threads running, no timeout. Application has deadlocked...'') (\<lambda>_.
         if bss_disable (ts_barrier s1) then Inr (None, s1)
         else case release_cores (num_cores s1) caller
                     ((ts_barrier s1)\<lparr>bss_next_barrier_time := bss_next_barrier_time (ts_barrier s1) + bss_barrier_interval (ts_barrier s1)\<rparr>) of
                (resumed, must_wait, b) \<Rightarrow>
                  let s2 = s1\<lparr>ts_barrier := b\<rparr>
                  in if resumed then Inr (Some must_wait, s2) else barrier_loop n env caller until_release s2)))"

definition barrierRelease :: "nat \<Rightarrow> thread_env \<Rightarrow> nat option \<Rightarrow> bool \<Rightarrow> thread_sys \<Rightarrow> (bool \<times> thread_sys) result" where
  "barrierRelease fuel env caller until_release s =
     bindR (logAssertR (bss_to_release (ts_barrier s) = []) ''Reached the barrier while some threads haven't even restarted?'') (\<lambda>_.
     let s1 = (if bss_fastforward (ts_barrier s)
               then upd_barrier (\<lambda>b. b\<lparr>bss_next_barrier_time := fold max (bss_local_clock_list b) (bss_next_barrier_time b)\<rparr>) s else s)
     in bindR (barrier_loop fuel env caller until_release s1) (\<lambda>(r, s2).
        case r of
          None \<Rightarrow> Inr (False, s2)
        | Some must_wait \<Rightarrow>
            Inr (must_wait, upd_barrier (\<lambda>b. doRelease (if bss_fastforward b then -1 else te_host_cores env)
                   (b\<lparr>bss_to_release := te_shuffle env (bss_to_release b)\<rparr>)) s2)))"

definition barrier_signal :: "nat \<Rightarrow> thread_env \<Rightarrow> thread_sys \<Rightarrow> thread_sys result" where
  "barrier_signal fuel env s =
     (if bss_disable (ts_barrier s) then Inr s
      else bindR (isBarrierReached s) (\<lambda>r. if r then bindR (barrierRelease fuel env None False s) (\<lambda>x. Inr (snd x)) else Inr s))"

text \<open>The hooks \<^verbatim>\<open>threadExit\<close> and \<^verbatim>\<open>threadStall\<close> of the barrier.\<close>

definition barrier_threadStall :: "nat \<Rightarrow> thread_env \<Rightarrow> nat \<Rightarrow> thread_sys \<Rightarrow> thread_sys result" where
  "barrier_threadStall fuel env t s = barrier_signal fuel env (upd_barrier (releaseThread t) s)"

definition barrier_enter :: "nat \<Rightarrow> nat \<Rightarrow> SubsecondTime \<Rightarrow> nat \<Rightarrow> BarrierSyncServer \<Rightarrow> BarrierSyncServer" where
  "barrier_enter core master time t b =
     (let b1 = doRelease 1 b
      in b1\<lparr>bss_events := bss_events b1 @ [BarrierEnter core], bss_local_clock_list := (bss_local_clock_list b1)[master := time],
            bss_barrier_acquire_list := (bss_barrier_acquire_list b1)[master := True], bss_core_thread := (bss_core_thread b1)[master := Some t]\<rparr>)"

definition barrier_wait :: "nat \<Rightarrow> thread_env \<Rightarrow> nat \<Rightarrow> nat \<Rightarrow> thread_sys \<Rightarrow> (bool \<times> thread_sys) result" where
  "barrier_wait fuel env core t s =
     bindR (isBarrierReached s) (\<lambda>reached.
     bindR (if reached then barrierRelease fuel env (Some t) False s else Inr (True, s)) (\<lambda>(must_wait, s1).
     Inr (must_wait, if must_wait then s1 else upd_barrier (\<lambda>b. b\<lparr>bss_events := bss_events b @ [BarrierExit core]\<rparr>) s1)))"

text \<open>
  \<^verbatim>\<open>synchronize\<close>: whether the thread has to wait. The performance model that is told is that of the core itself, not that of its master.
\<close>

definition barrier_master :: "nat \<Rightarrow> BarrierSyncServer \<Rightarrow> nat" where
  "barrier_master core b = (if bss_fastforward b then core else case bss_core_group b ! core of None \<Rightarrow> core | Some m \<Rightarrow> m)"

definition barrier_synchronize :: "nat \<Rightarrow> thread_env \<Rightarrow> nat \<Rightarrow> SubsecondTime \<Rightarrow> thread_sys \<Rightarrow> (bool \<times> thread_sys) result" where
  "barrier_synchronize fuel env core time s =
     (let b = ts_barrier s; master = barrier_master core b
      in if bss_disable b then Inr (False, s)
         else case sc_thread (ts_cores s ! core) of
                None \<Rightarrow> Inl (Trap ''null thread'')
              | Some t \<Rightarrow>
                  bindR (logAssertR (sc_state (ts_cores s ! core) \<in> {RUNNING, INITIALIZING}) ''Core is not running or initializing'') (\<lambda>_.
                  bindR (logAssertR (\<not> bss_barrier_acquire_list b ! master) ''Core or its sibling is already in the barrier'') (\<lambda>_.
                  if time < bss_next_barrier_time b \<and> \<not> bss_fastforward b then Inr (False, s)
                  else barrier_wait fuel env core t (upd_barrier (barrier_enter core master time t) s))))"

definition barrier_advance :: "nat \<Rightarrow> thread_env \<Rightarrow> thread_sys \<Rightarrow> thread_sys result" where
  "barrier_advance fuel env s = bindR (barrierRelease fuel env None True s) (\<lambda>x. Inr (snd x))"

definition abortBarrier :: "BarrierSyncServer \<Rightarrow> BarrierSyncServer" where
  "abortBarrier b =
     fold (\<lambda>core b. if bss_barrier_acquire_list b ! core
                    then b\<lparr>bss_barrier_acquire_list := (bss_barrier_acquire_list b)[core := False],
                           bss_events := bss_events b @ [BarrierExit core, CondSignal core]\<rparr>
                    else b) [0..<length (bss_barrier_acquire_list b)] b"

definition barrier_setDisable :: "bool \<Rightarrow> BarrierSyncServer \<Rightarrow> BarrierSyncServer" where
  "barrier_setDisable disable b = (let b1 = b\<lparr>bss_disable := disable\<rparr> in if disable then abortBarrier b1 else b1)"

definition barrier_setGroup :: "nat \<Rightarrow> nat option \<Rightarrow> BarrierSyncServer \<Rightarrow> BarrierSyncServer result" where
  "barrier_setGroup core master b =
     bindR (logAssertR (master \<noteq> None \<longrightarrow> \<not> bss_barrier_acquire_list b ! core) ''Core is in the barrier, cannot set participate to false'') (\<lambda>_.
     Inr (b\<lparr>bss_core_group := (bss_core_group b)[core := master]\<rparr>))"

definition barrier_setFastForward :: "bool \<Rightarrow> SubsecondTime \<Rightarrow> BarrierSyncServer \<Rightarrow> BarrierSyncServer" where
  "barrier_setFastForward fastforward next b =
     (let b1 = b\<lparr>bss_fastforward := fastforward\<rparr>
      in if next \<noteq> MaxTime then b1\<lparr>bss_next_barrier_time := max (bss_next_barrier_time b1) next\<rparr> else b1)"

definition barrier_setBarrierInterval :: "SubsecondTime \<Rightarrow> BarrierSyncServer \<Rightarrow> BarrierSyncServer" where
  "barrier_setBarrierInterval interval b = b\<lparr>bss_barrier_interval := interval\<rparr>"

definition barrier_getGlobalTime :: "bool \<Rightarrow> BarrierSyncServer \<Rightarrow> SubsecondTime" where
  "barrier_getGlobalTime upper_bound b = (if upper_bound then bss_next_barrier_time b else bss_global_time b)"

text \<open>The client of a core: it enters the barrier when it has passed the next multiple of the interval.\<close>

definition next_sync_time :: "SubsecondTime \<Rightarrow> SubsecondTime \<Rightarrow> SubsecondTime result" where
  "next_sync_time interval now = bindR (divR now interval) (\<lambda>k. Inr (k * interval + interval))"

definition client_must_synchronize :: "SubsecondTime \<Rightarrow> SubsecondTime \<Rightarrow> bool \<Rightarrow> bool" where
  "client_must_synchronize next_sync now ignore_time = (now \<ge> next_sync \<or> ignore_time)"

section \<open>The thread manager\<close>

definition createThread :: "thread_sys \<Rightarrow> (nat \<times> thread_sys) result" where
  "createThread s =
     (let t = length (ts_threads s); s1 = s\<lparr>ts_threads := ts_threads s @ [Thread_create\<lparr>tr_status := INITIALIZING\<rparr>]\<rparr>
      in bindR (scheduler_threadCreate t s1) (\<lambda>(core, s2).
         case core of
           None \<Rightarrow> Inr (t, s2)
         | Some c \<Rightarrow> bindR (Thread_setCore t (Some c) s2) (\<lambda>s3. Inr (t, upd_core c (sc_state_update (\<lambda>_. INITIALIZING)) s3))))"

definition queue_pseudo :: "nat \<Rightarrow> sched_pseudo \<Rightarrow> thread_sys \<Rightarrow> thread_sys" where
  "queue_pseudo c p s = s\<lparr>ts_pseudo := ts_pseudo s @ [(c, p)]\<rparr>"

definition Thread_signal :: "nat \<Rightarrow> SubsecondTime \<Rightarrow> bool \<Rightarrow> thread_sys \<Rightarrow> thread_sys" where
  "Thread_signal t time msg = upd_thread t (\<lambda>x. x\<lparr>tr_wakeup_time := time, tr_wakeup_msg := msg\<rparr>)"

definition set_stalled :: "nat \<Rightarrow> stall_type_t \<Rightarrow> thread_sys \<Rightarrow> thread_sys" where
  "set_stalled t reason = upd_thread t (\<lambda>x. x\<lparr>tr_status := STALLED, tr_stalled_reason := reason\<rparr>)"

definition onThreadStart :: "nat \<Rightarrow> SubsecondTime \<Rightarrow> thread_sys \<Rightarrow> thread_sys result" where
  "onThreadStart t time s =
     bindR (logAssertR (t < length (ts_threads s)) ''Invalid thread_id'') (\<lambda>_.
     bindR (dynamic_threadStart t time (upd_thread t (tr_status_update (\<lambda>_. RUNNING)) s)) (\<lambda>s1.
     let (time1, s2) =
           (case tr_core (ts_threads s1 ! t) of
              Some c \<Rightarrow>
                let time1 = max time (sc_elapsed_time (ts_cores s1 ! c))
                in (time1, barrier_threadMigrate t (upd_thread t (tr_status_update (\<lambda>_. RUNNING))
                      (queue_pseudo c (SpawnPseudo time1) (upd_core c (sc_state_update (\<lambda>_. RUNNING)) s1))))
            | None \<Rightarrow> (time, set_stalled t STALL_UNSCHEDULED s1))
     in case tr_waiter (ts_threads s2 ! t) of
          None \<Rightarrow> Inr s2
        | Some w \<Rightarrow> bindR (logAssertR (w < length (ts_threads s2)) ''Invalid thread_id'') (\<lambda>_.
                    Inr (upd_thread t (tr_waiter_update (\<lambda>_. None)) (Thread_signal w time1 False s2)))))"

definition wakeUpWaiter :: "nat \<Rightarrow> SubsecondTime \<Rightarrow> thread_sys \<Rightarrow> thread_sys result" where
  "wakeUpWaiter t time s =
     (case tr_waiter (ts_threads s ! t) of
        None \<Rightarrow> Inr s
      | Some w \<Rightarrow> bindR (resumeThread_sys w time False s) (\<lambda>s1. Inr (upd_thread t (tr_waiter_update (\<lambda>_. None)) s1)))"

definition spawnThread :: "nat option \<Rightarrow> thread_sys \<Rightarrow> (nat \<times> thread_sys) result" where
  "spawnThread by_thread s =
     bindR (case by_thread of
              None \<Rightarrow> Inr 0
            | Some t \<Rightarrow> bindR (logAssertR (t < length (ts_threads s)) ''Invalid thread_id'') (\<lambda>_.
                         case tr_core (ts_threads s ! t) of None \<Rightarrow> Inl (Trap ''null core'') | Some c \<Rightarrow> Inr (sc_elapsed_time (ts_cores s ! c))))
       (\<lambda>start. bindR (createThread s) (\<lambda>(t, s1). Inr (t, s1\<lparr>ts_spawn_list := ts_spawn_list s1 @ [(by_thread, t, start)]\<rparr>)))"

definition getThreadToSpawn :: "thread_sys \<Rightarrow> (nat \<times> SubsecondTime \<times> thread_sys) result" where
  "getThreadToSpawn s =
     (case ts_spawn_list s of
        [] \<Rightarrow> Inl (LogError ''Have no thread to spawn'')
      | (_, t, time) # rest \<Rightarrow> Inr (t, time, s\<lparr>ts_spawn_list := rest\<rparr>))"

text \<open>The result says whether the calling thread goes to sleep.\<close>

definition waitForThreadStart :: "nat \<Rightarrow> nat \<Rightarrow> thread_sys \<Rightarrow> (bool \<times> thread_sys) result" where
  "waitForThreadStart t wait_t s =
     bindR (logAssertR (t < length (ts_threads s)) ''Invalid thread_id'') (\<lambda>_.
     bindR (atR (ts_threads s) wait_t) (\<lambda>x.
     if tr_status x = INITIALIZING
     then bindR (logAssertR (tr_waiter x = None) ''Multiple threads waiting for thread'') (\<lambda>_.
          Inr (True, upd_thread t (tr_wakeup_msg_update (\<lambda>_. False)) (upd_thread wait_t (tr_waiter_update (\<lambda>_. Some t)) s)))
     else Inr (False, s)))"

definition stallThread_async_sys :: "nat \<Rightarrow> thread_env \<Rightarrow> nat \<Rightarrow> stall_type_t \<Rightarrow> SubsecondTime \<Rightarrow> thread_sys \<Rightarrow> thread_sys result" where
  "stallThread_async_sys fuel env t reason time s =
     bindR (dynamic_threadStall t reason time (set_stalled t reason s)) (barrier_threadStall fuel env t)"

primrec advance_loop :: "nat \<Rightarrow> nat \<Rightarrow> thread_env \<Rightarrow> thread_sys \<Rightarrow> thread_sys result" where
  "advance_loop 0 fuel env s = (if anyThreadRunning s then Inr s else Inl Diverges)"
| "advance_loop (Suc n) fuel env s = (if anyThreadRunning s then Inr s else bindR (barrier_advance fuel env s) (advance_loop n fuel env))"

text \<open>A thread that is woken before it goes to sleep returns at once.\<close>

definition stallThread_sys ::
  "nat \<Rightarrow> thread_env \<Rightarrow> nat \<Rightarrow> stall_type_t \<Rightarrow> SubsecondTime \<Rightarrow> thread_sys \<Rightarrow> (SubsecondTime option \<times> thread_sys) result" where
  "stallThread_sys fuel env t reason time s =
     bindR (stallThread_async_sys fuel env t reason time s) (\<lambda>s1.
     bindR (advance_loop fuel fuel env s1) (\<lambda>s2.
     if tr_status (ts_threads s2 ! t) = RUNNING then Inr (Some (tr_wakeup_time (ts_threads s2 ! t)), s2)
     else Inr (None, upd_thread t (tr_wakeup_msg_update (\<lambda>_. False)) s2)))"

definition joinThread :: "nat \<Rightarrow> thread_env \<Rightarrow> nat \<Rightarrow> nat \<Rightarrow> thread_sys \<Rightarrow> (bool \<times> thread_sys) result" where
  "joinThread fuel env t join_t s =
     bindR (logAssertR (t < length (ts_threads s)) ''Invalid thread_id'') (\<lambda>_.
     bindR (atR (ts_threads s) join_t) (\<lambda>x.
     if tr_status x = IDLE then Inr (False, s)
     else case tr_core (ts_threads s ! t) of
            None \<Rightarrow> Inl (Trap ''null core'')
          | Some c \<Rightarrow>
              bindR (logAssertR (tr_waiter x = None) ''Multiple threads joining on thread'') (\<lambda>_.
              bindR (stallThread_sys fuel env t STALL_JOIN (sc_elapsed_time (ts_cores s ! c)) (upd_thread join_t (tr_waiter_update (\<lambda>_. Some t)) s))
                (\<lambda>(_, s1). Inr (True, s1)))))"

text \<open>
  One round of \<^verbatim>\<open>Thread::reschedule\<close>: the thread is still on the core it had, or goes to sleep until it gets a core, or goes on on its new core.
\<close>

definition Thread_reschedule :: "nat \<Rightarrow> thread_env \<Rightarrow> nat \<Rightarrow> SubsecondTime \<Rightarrow> nat option \<Rightarrow> thread_sys \<Rightarrow> (bool option \<times> thread_sys) result" where
  "Thread_reschedule fuel env t time current s =
     (case tr_core (ts_threads s ! t) of
        None \<Rightarrow> bindR (stallThread_sys fuel env t STALL_UNSCHEDULED time s) (\<lambda>(_, s1). Inr (None, s1))
      | Some c \<Rightarrow> if current = Some c then Inr (Some False, s) else Inr (Some True, queue_pseudo c (UnscheduledPseudo time) s))"

text \<open>
  The end of \<^verbatim>\<open>joinThread\<close>, after the thread has been woken: true when the thread goes on, on the core it has then.
\<close>

definition joinThread_end :: "nat \<Rightarrow> thread_env \<Rightarrow> nat \<Rightarrow> SubsecondTime \<Rightarrow> nat option \<Rightarrow> thread_sys \<Rightarrow> (bool \<times> thread_sys) result" where
  "joinThread_end fuel env t end_time current s =
     bindR (Thread_reschedule fuel env t end_time current s) (\<lambda>(moved, s1).
     case moved of
       None \<Rightarrow> Inr (False, s1)
     | Some m \<Rightarrow>
         (case if m then tr_core (ts_threads s1 ! t) else current of
            None \<Rightarrow> Inl (Trap ''null core'')
          | Some c \<Rightarrow> Inr (True, queue_pseudo c (JoinPseudo end_time) s1)))"

section \<open>The calls on futexes\<close>

definition applyRescheduleCost :: "thread_env \<Rightarrow> nat \<Rightarrow> bool \<Rightarrow> thread_sys \<Rightarrow> SubsecondTime result" where
  "applyRescheduleCost env t conditional s =
     (if \<not> conditional then Inr 0
      else case tr_core (ts_threads s ! t) of
             None \<Rightarrow> Inl (Trap ''null core'')
           | Some c \<Rightarrow> Inr (if sc_instruction_count (ts_cores s ! c) = 0 then 0 else te_reschedule_cost env))"

primrec futex_wake_loop :: "nat \<Rightarrow> thread_env \<Rightarrow> nat \<Rightarrow> IntPtr \<Rightarrow> UInt32 \<Rightarrow> SubsecondTime \<Rightarrow> nat \<Rightarrow> thread_sys \<Rightarrow> (nat \<times> thread_sys) result" where
  "futex_wake_loop 0 env t a msk now woken s = Inr (woken, s)"
| "futex_wake_loop (Suc n) env t a msk now woken s =
     bindR (applyRescheduleCost env t True s) (\<lambda>cost.
     bindR (dequeueWaiter a msk (now + cost) s) (\<lambda>(w, s1).
     if w = None then Inr (woken, s1) else futex_wake_loop n env t a msk now (woken + 1) s1))"

definition futexWake :: "thread_env \<Rightarrow> nat \<Rightarrow> IntPtr \<Rightarrow> int \<Rightarrow> UInt32 \<Rightarrow> SubsecondTime \<Rightarrow> thread_sys \<Rightarrow> (nat \<times> SubsecondTime \<times> thread_sys) result" where
  "futexWake env t uaddr nr_wake msk now s =
     bindR (futex_wake_loop (nat nr_wake) env t (te_va2pa env t uaddr) msk now 0 s) (\<lambda>(woken, s1).
     bindR (applyRescheduleCost env t (woken > 0) s1) (\<lambda>cost. Inr (woken, now + cost, s1)))"

abbreviation FUTEX_BITSET_MATCH_ANY :: UInt32 where
  "FUTEX_BITSET_MATCH_ANY \<equiv> 0xffffffff"

datatype futex_result = FutexWouldBlock | FutexAgain | FutexWoken nat | FutexSleeps | FutexTimedOut

text \<open>The value of a wait is decided by the message of the wake-up: woken, or timed out. A call that sleeps gets its end time when it is woken.\<close>

definition futexWait ::
  "nat \<Rightarrow> thread_env \<Rightarrow> nat \<Rightarrow> IntPtr \<Rightarrow> UInt32 \<Rightarrow> UInt32 \<Rightarrow> UInt32 \<Rightarrow> SubsecondTime \<Rightarrow> SubsecondTime \<Rightarrow> thread_sys
   \<Rightarrow> (futex_result \<times> SubsecondTime option \<times> thread_sys) result" where
  "futexWait fuel env t uaddr val act_val msk now timeout s =
     (let a = te_va2pa env t uaddr
      in if val \<noteq> act_val then Inr (FutexWouldBlock, Some now, s)
         else let w = \<lparr>fw_thread_id = t, fw_mask = msk, fw_timeout = timeout\<rparr>
              in bindR (stallThread_sys fuel env t STALL_FUTEX now (set_futex_queue a (futex_queue a s @ [w]) s)) (\<lambda>(r, s1).
                 Inr (case r of None \<Rightarrow> FutexSleeps | Some _ \<Rightarrow> if tr_wakeup_msg (ts_threads s1 ! t) then FutexWoken 0 else FutexTimedOut, r, s1)))"

text \<open>\<^verbatim>\<open>futexDoOp\<close> on the value of the futex: the new value and whether the comparison holds. The count of the shift is taken modulo 32, as the machine does.\<close>

definition futexDoOp :: "UInt32 \<Rightarrow> UInt32 \<Rightarrow> (UInt32 \<times> bool) result" where
  "futexDoOp encoded oldval =
     (let opcode = drop_bit 28 encoded AND 7; cmp = drop_bit 24 encoded AND 15;
          oparg0 = signed_drop_bit 20 (push_bit 8 encoded); cmparg = signed_drop_bit 20 (push_bit 20 encoded);
          oparg = (if bit encoded 31 then push_bit (unat (oparg0 AND 31)) 1 else oparg0)
      in bindR (if opcode = 0 then Inr oparg else if opcode = 1 then Inr (oldval + oparg) else if opcode = 2 then Inr (oldval OR oparg)
                else if opcode = 3 then Inr (oldval AND NOT oparg) else if opcode = 4 then Inr (oldval XOR oparg)
                else Inl (LogError ''futexWakeOp: unknown op'')) (\<lambda>newval.
         if cmp = 0 then Inr (newval, oldval = cmparg) else if cmp = 1 then Inr (newval, oldval \<noteq> cmparg)
         else if cmp = 2 then Inr (newval, oldval <s cmparg) else if cmp = 3 then Inr (newval, oldval <=s cmparg)
         else if cmp = 4 then Inr (newval, cmparg <s oldval) else if cmp = 5 then Inr (newval, cmparg <=s oldval)
         else Inl (LogError ''futexWakeOp: unknown cmp'')))"

definition futexWakeOp ::
  "thread_env \<Rightarrow> nat \<Rightarrow> IntPtr \<Rightarrow> IntPtr \<Rightarrow> int \<Rightarrow> int \<Rightarrow> UInt32 \<Rightarrow> UInt32 \<Rightarrow> SubsecondTime \<Rightarrow> thread_sys \<Rightarrow> (nat \<times> UInt32 \<times> SubsecondTime \<times> thread_sys) result" where
  "futexWakeOp env t uaddr uaddr2 nr_wake nr_wake2 op oldval now s =
     bindR (logAssertR (tr_core (ts_threads s ! t) \<noteq> None) ''Cannot execute futexWakeOp() for a thread that is unscheduled'') (\<lambda>_.
     bindR (futexDoOp op oldval) (\<lambda>(newval, holds).
     bindR (futex_wake_loop (nat nr_wake) env t (te_va2pa env t uaddr) FUTEX_BITSET_MATCH_ANY now 0 s) (\<lambda>(woken, s1).
     bindR (if holds then futex_wake_loop (nat nr_wake2) env t (te_va2pa env t uaddr2) FUTEX_BITSET_MATCH_ANY now woken s1 else Inr (woken, s1))
       (\<lambda>(woken, s2).
     bindR (applyRescheduleCost env t (woken > 0) s2) (\<lambda>cost. Inr (woken, newval, now + cost, s2))))))"

primrec requeue_wake_loop :: "nat \<Rightarrow> IntPtr \<Rightarrow> SubsecondTime \<Rightarrow> nat \<Rightarrow> thread_sys \<Rightarrow> (nat \<times> thread_sys) result" where
  "requeue_wake_loop 0 a now woken s = Inr (woken, s)"
| "requeue_wake_loop (Suc n) a now woken s =
     bindR (dequeueWaiter a FUTEX_BITSET_MATCH_ANY now s) (\<lambda>(w, s1).
     if w = None then Inr (woken, s1) else requeue_wake_loop n a now (woken + 1) s1)"

primrec requeue_loop :: "nat \<Rightarrow> IntPtr \<Rightarrow> IntPtr \<Rightarrow> thread_sys \<Rightarrow> thread_sys result" where
  "requeue_loop 0 a b s = Inl Diverges"
| "requeue_loop (Suc n) a b s = (case requeueWaiter a b s of (w, s1) \<Rightarrow> if w = None then Inr s1 else requeue_loop n a b s1)"

definition futexCmpRequeue ::
  "thread_env \<Rightarrow> nat \<Rightarrow> IntPtr \<Rightarrow> int \<Rightarrow> IntPtr \<Rightarrow> UInt32 \<Rightarrow> UInt32 \<Rightarrow> SubsecondTime \<Rightarrow> thread_sys
   \<Rightarrow> (futex_result \<times> SubsecondTime option \<times> thread_sys) result" where
  "futexCmpRequeue env t uaddr val uaddr2 val3 act_val now s =
     (if val3 \<noteq> act_val then Inr (FutexAgain, Some now, s)
      else let a = te_va2pa env t uaddr
           in bindR (requeue_wake_loop (nat val) a now 0 s) (\<lambda>(woken, s1).
              bindR (requeue_loop (Suc (length (futex_queue a s1))) a (te_va2pa env t uaddr2) s1) (\<lambda>s2.
              Inr (FutexWoken woken, Some now, s2))))"

text \<open>
  The commands of \<^verbatim>\<open>handleFutexCall\<close>, with the value of the futex and the absolute time-out already read from the memory of the core. The mask of a
  wake-up is \<^verbatim>\<open>args.val3\<close> only when the command is \<^verbatim>\<open>FUTEX_WAIT_BITSET\<close>, which it never is on that branch.
\<close>

datatype futex_cmd = FUTEX_WAIT | FUTEX_WAIT_BITSET | FUTEX_WAKE | FUTEX_WAKE_BITSET | FUTEX_WAKE_OP | FUTEX_CMP_REQUEUE | FUTEX_OTHER

record futex_args =
  fa_uaddr :: IntPtr
  fa_cmd :: futex_cmd
  fa_val :: UInt32
  fa_val2 :: UInt32
  fa_uaddr2 :: IntPtr
  fa_val3 :: UInt32
  fa_timeout :: SubsecondTime

definition handleFutexCall ::
  "nat \<Rightarrow> thread_env \<Rightarrow> nat \<Rightarrow> futex_args \<Rightarrow> UInt32 \<Rightarrow> UInt32 \<Rightarrow> SubsecondTime \<Rightarrow> thread_sys
   \<Rightarrow> (futex_result \<times> SubsecondTime option \<times> thread_sys) result" where
  "handleFutexCall fuel env t args act_val act_val2 now s =
     bindR (logAssertR (tr_core (ts_threads s ! t) \<noteq> None) ''Core should not be NULL'') (\<lambda>_.
     case fa_cmd args of
       FUTEX_OTHER \<Rightarrow> Inl (LogError ''op'')
     | FUTEX_WAKE_OP \<Rightarrow>
         bindR (futexWakeOp env t (fa_uaddr args) (fa_uaddr2 args) (sint (fa_val args)) (sint (fa_val2 args)) (fa_val3 args) act_val2 now s)
           (\<lambda>(woken, newval, end_time, s1). Inr (FutexWoken woken, Some end_time, s1))
     | FUTEX_CMP_REQUEUE \<Rightarrow>
         bindR (logAssertR (fa_uaddr args \<noteq> fa_uaddr2 args) ''FUTEX_CMP_REQUEUE: uaddr == uaddr2'') (\<lambda>_.
         futexCmpRequeue env t (fa_uaddr args) (sint (fa_val args)) (fa_uaddr2 args) (fa_val3 args) act_val now s)
     | cmd \<Rightarrow>
         if cmd = FUTEX_WAIT \<or> cmd = FUTEX_WAIT_BITSET
         then futexWait fuel env t (fa_uaddr args) (fa_val args) act_val (if cmd = FUTEX_WAIT_BITSET then fa_val3 args else FUTEX_BITSET_MATCH_ANY)
                now (fa_timeout args) s
         else bindR (futexWake env t (fa_uaddr args) (sint (fa_val args))
                       (if cmd = FUTEX_WAIT_BITSET then fa_val3 args else FUTEX_BITSET_MATCH_ANY) now s)
                (\<lambda>(woken, end_time, s1). Inr (FutexWoken woken, Some end_time, s1)))"

definition handleSleepCall :: "nat \<Rightarrow> thread_env \<Rightarrow> nat \<Rightarrow> SubsecondTime \<Rightarrow> SubsecondTime \<Rightarrow> thread_sys \<Rightarrow> (SubsecondTime option \<times> thread_sys) result" where
  "handleSleepCall fuel env t wake_time now s =
     stallThread_sys fuel env t STALL_SLEEP now (s\<lparr>ts_sleeping := ts_sleeping s @ [\<lparr>fw_thread_id = t, fw_mask = 0, fw_timeout = wake_time\<rparr>]\<rparr>)"

section \<open>The end of a thread\<close>

definition onThreadExit :: "nat \<Rightarrow> thread_env \<Rightarrow> nat \<Rightarrow> thread_sys \<Rightarrow> thread_sys result" where
  "onThreadExit fuel env t s =
     bindR (logAssertR (t < length (ts_threads s)) ''Thread id out of range'') (\<lambda>_.
     case tr_core (ts_threads s ! t) of
       None \<Rightarrow> Inl (LogError ''Thread ended while not running on a core?'')
     | Some c \<Rightarrow>
         let time = sc_elapsed_time (ts_cores s ! c)
         in bindR (assertR (tr_status (ts_threads s ! t) = RUNNING) ''m_thread_state[thread_id].status == Core::RUNNING'') (\<lambda>_.
            bindR (wakeUpWaiter t time (upd_thread t (tr_status_update (\<lambda>_. IDLE)) s)) (\<lambda>s1.
            bindR (case tr_clear_tid (ts_threads s1 ! t) of
                     None \<Rightarrow> Inr s1
                   | Some tid_ptr \<Rightarrow> bindR (futexWake env t tid_ptr 1 FUTEX_BITSET_MATCH_ANY time s1) (\<lambda>(_, _, s2). Inr s2)) (\<lambda>s2.
            bindR (Thread_setCore t None (upd_core c (sc_state_update (\<lambda>_. IDLE)) s2)) (\<lambda>s3.
            bindR (dynamic_threadExit t time s3) (barrier_threadStall fuel env t))))))"

end
