(* ===== verification/Thread_Scheduling.thy ===== *)
theory Thread_Scheduling
  imports Thread_System
begin

text \<open>
  What the thread system guarantees with the pinned, roaming and big-small schedulers: the scheduler, the threads and the cores agree on who
  runs where, a core runs at most one thread and never a stalled one, the assertion of \<^verbatim>\<open>Thread::setCore\<close> cannot fail, and the recursion
  of \<^verbatim>\<open>reschedule\<close> through the resume hook ends.
\<close>

section \<open>Abbreviations and frames\<close>

abbreviation ctr :: "thread_sys \<Rightarrow> nat \<Rightarrow> nat option" where
  "ctr s c \<equiv> sp_core_thread_running (ts_sched s) ! c"

abbreviation info :: "thread_sys \<Rightarrow> nat \<Rightarrow> ThreadInfo" where
  "info s t \<equiv> sp_thread_info (ts_sched s) ! t"

abbreviation thr :: "thread_sys \<Rightarrow> nat \<Rightarrow> sim_thread" where
  "thr s t \<equiv> ts_threads s ! t"

abbreviation runnable :: "thread_sys \<Rightarrow> bool list" where
  "runnable s \<equiv> sp_threads_runnable (ts_sched s)"

abbreviation num_threads :: "thread_sys \<Rightarrow> nat" where
  "num_threads s \<equiv> length (ts_threads s)"

abbreviation num_infos :: "thread_sys \<Rightarrow> nat" where
  "num_infos s \<equiv> length (sp_thread_info (ts_sched s))"

definition awaits_core :: "sim_thread \<Rightarrow> bool" where
  "awaits_core x = (tr_status x = STALLED \<and> tr_stalled_reason x = STALL_UNSCHEDULED)"

text \<open>The sizes of the tables, and a scheduler that moves threads.\<close>

definition shape :: "thread_sys \<Rightarrow> bool" where
  "shape s \<longleftrightarrow> length (sp_core_thread_running (ts_sched s)) = num_cores s \<and> length (sp_quantum_left (ts_sched s)) = num_cores s
     \<and> (\<forall>t<num_infos s. length (ti_core_affinity (info s t)) = num_cores s) \<and> length (runnable s) \<le> num_infos s \<and> num_threads s \<le> num_infos s
     \<and> (\<forall>m q. sp_policy (ts_sched s) \<noteq> SchedStatic m \<and> sp_policy (ts_sched s) \<noteq> SchedSequential q)"

text \<open>Scheduler, threads and cores agree. The threads of \<open>P\<close> have a core in the scheduler but are not on it, as in the middle of a move.\<close>

definition placed :: "nat set \<Rightarrow> thread_sys \<Rightarrow> bool" where
  "placed P s \<longleftrightarrow>
     (\<forall>c<num_cores s. \<forall>t. ctr s c = Some t \<longrightarrow> t < num_threads s \<and> ti_core_running (info s t) = Some c)
   \<and> (\<forall>t<num_infos s. \<forall>c. ti_core_running (info s t) = Some c \<longrightarrow> c < num_cores s \<and> ctr s c = Some t)
   \<and> (\<forall>t<num_threads s. tr_core (thr s t) = (if t \<in> P then None else ti_core_running (info s t)))
   \<and> (\<forall>c<num_cores s. \<forall>t. sc_thread (ts_cores s ! c) = Some t \<longleftrightarrow> t < num_threads s \<and> tr_core (thr s t) = Some c)
   \<and> (\<forall>c<num_cores s. sc_thread (ts_cores s ! c) = None \<longrightarrow> sc_state (ts_cores s ! c) = IDLE)
   \<and> (\<forall>t\<in>P. t < num_threads s \<and> ti_core_running (info s t) \<noteq> None)"

text \<open>A thread that is ready runs or waits for a core, and a core runs a thread that is ready; the threads of \<open>X\<close> are just leaving.\<close>

definition ready_ok :: "nat set \<Rightarrow> thread_sys \<Rightarrow> bool" where
  "ready_ok X s \<longleftrightarrow>
     (\<forall>t<length (runnable s). runnable s ! t \<longrightarrow> t < num_threads s
        \<and> (tr_status (thr s t) = RUNNING \<or> awaits_core (thr s t) \<and> tr_core (thr s t) = None \<or> t \<in> X \<and> ti_core_running (info s t) \<noteq> None))
   \<and> (\<forall>c<num_cores s. \<forall>t. ctr s c = Some t \<longrightarrow> t \<notin> X \<longrightarrow> tr_status (thr s t) = INITIALIZING \<or> t < length (runnable s) \<and> runnable s ! t)"

definition sched_inv :: "nat set \<Rightarrow> nat set \<Rightarrow> thread_sys \<Rightarrow> bool" where
  "sched_inv P X s \<longleftrightarrow> shape s \<and> placed P s \<and> ready_ok X s"

text \<open>What rescheduling leaves alone: it only wakes threads that wait for a core.\<close>

definition sched_frame :: "thread_sys \<Rightarrow> thread_sys \<Rightarrow> bool" where
  "sched_frame s s' \<longleftrightarrow> num_cores s' = num_cores s \<and> num_threads s' = num_threads s \<and> num_infos s' = num_infos s \<and> runnable s' = runnable s
     \<and> sp_policy (ts_sched s') = sp_policy (ts_sched s) \<and> sp_quantum (ts_sched s') = sp_quantum (ts_sched s)
     \<and> ts_futexes s' = ts_futexes s \<and> ts_sleeping s' = ts_sleeping s \<and> ts_spawn_list s' = ts_spawn_list s \<and> ts_pseudo s' = ts_pseudo s
     \<and> (\<forall>t<num_threads s. tr_waiter (thr s' t) = tr_waiter (thr s t) \<and> tr_clear_tid (thr s' t) = tr_clear_tid (thr s t)
          \<and> tr_stalled_reason (thr s' t) = tr_stalled_reason (thr s t)
          \<and> (tr_status (thr s' t) = tr_status (thr s t) \<or> awaits_core (thr s t) \<and> tr_status (thr s' t) = RUNNING))
     \<and> (\<forall>t<num_infos s. ti_core_affinity (info s' t) = ti_core_affinity (info s t))"

lemma sched_frame_refl [simp]: "sched_frame s s"
  by (simp add: sched_frame_def)

lemma sched_frame_trans: "sched_frame s s' \<Longrightarrow> sched_frame s' s'' \<Longrightarrow> sched_frame s s''"
  unfolding sched_frame_def awaits_core_def by (smt (verit) thread_status.distinct)

section \<open>Lookups after updates\<close>

lemma upd_thread_simps [simp]:
  "ts_threads (upd_thread t f s) = (ts_threads s)[t := f (thr s t)]" "ts_cores (upd_thread t f s) = ts_cores s"
  "ts_sched (upd_thread t f s) = ts_sched s" "ts_barrier (upd_thread t f s) = ts_barrier s" "ts_futexes (upd_thread t f s) = ts_futexes s"
  "ts_sleeping (upd_thread t f s) = ts_sleeping s" "ts_spawn_list (upd_thread t f s) = ts_spawn_list s" "ts_pseudo (upd_thread t f s) = ts_pseudo s"
  by (simp_all add: upd_thread_def)

lemma upd_core_simps [simp]:
  "ts_cores (upd_core c g s) = (ts_cores s)[c := g (ts_cores s ! c)]" "ts_threads (upd_core c g s) = ts_threads s"
  "ts_sched (upd_core c g s) = ts_sched s" "ts_barrier (upd_core c g s) = ts_barrier s" "ts_futexes (upd_core c g s) = ts_futexes s"
  "ts_sleeping (upd_core c g s) = ts_sleeping s" "ts_spawn_list (upd_core c g s) = ts_spawn_list s" "ts_pseudo (upd_core c g s) = ts_pseudo s"
  by (simp_all add: upd_core_def)

lemma upd_sched_simps [simp]:
  "ts_sched (upd_sched h s) = h (ts_sched s)" "ts_threads (upd_sched h s) = ts_threads s"
  "ts_cores (upd_sched h s) = ts_cores s" "ts_barrier (upd_sched h s) = ts_barrier s" "ts_futexes (upd_sched h s) = ts_futexes s"
  "ts_sleeping (upd_sched h s) = ts_sleeping s" "ts_spawn_list (upd_sched h s) = ts_spawn_list s" "ts_pseudo (upd_sched h s) = ts_pseudo s"
  by (simp_all add: upd_sched_def)

lemma upd_barrier_simps [simp]:
  "ts_barrier (upd_barrier k s) = k (ts_barrier s)" "ts_threads (upd_barrier k s) = ts_threads s"
  "ts_cores (upd_barrier k s) = ts_cores s" "ts_sched (upd_barrier k s) = ts_sched s" "ts_futexes (upd_barrier k s) = ts_futexes s"
  "ts_sleeping (upd_barrier k s) = ts_sleeping s" "ts_spawn_list (upd_barrier k s) = ts_spawn_list s" "ts_pseudo (upd_barrier k s) = ts_pseudo s"
  by (simp_all add: upd_barrier_def)

lemmas sched_update_defs = upd_info_def set_core_thread_def set_quantum_left_def barrier_threadMigrate_def set_policy_def

text \<open>The quantum, the barrier and the times of a thread do not matter to the invariant.\<close>

lemma sched_inv_upd_barrier [simp]: "sched_inv P X (upd_barrier k s) = sched_inv P X s"
  by (simp add: sched_inv_def shape_def placed_def ready_ok_def)

lemma sched_inv_quantum [simp]: "sched_inv P X (set_quantum_left c q s) = sched_inv P X s"
  by (simp add: sched_inv_def shape_def placed_def ready_ok_def set_quantum_left_def)

lemma sched_frame_upd_barrier [simp]: "sched_frame s (upd_barrier k s') = sched_frame s s'"
  by (simp add: sched_frame_def)

lemma sched_frame_quantum [simp]: "sched_frame s (set_quantum_left c q s') = sched_frame s s'"
  by (simp add: sched_frame_def set_quantum_left_def)

lemma ctr_upd [simp]: "ctr (upd_barrier k s) c = ctr s c" "ctr (set_quantum_left c' q s) c = ctr s c"
  by (simp_all add: set_quantum_left_def)

section \<open>Leaving and taking a core\<close>

lemma shapeD:
  assumes "shape s"
  shows "length (sp_core_thread_running (ts_sched s)) = num_cores s" "length (runnable s) \<le> num_infos s" "num_threads s \<le> num_infos s"
    "length (sp_quantum_left (ts_sched s)) = num_cores s" "t < num_infos s \<Longrightarrow> length (ti_core_affinity (info s t)) = num_cores s"
  using assms by (simp_all add: shape_def)

lemma placedD:
  assumes "placed P s"
  shows "c < num_cores s \<Longrightarrow> ctr s c = Some t \<Longrightarrow> t < num_threads s \<and> ti_core_running (info s t) = Some c"
    "t < num_infos s \<Longrightarrow> ti_core_running (info s t) = Some c \<Longrightarrow> c < num_cores s \<and> ctr s c = Some t"
    "t < num_threads s \<Longrightarrow> tr_core (thr s t) = (if t \<in> P then None else ti_core_running (info s t))"
    "c < num_cores s \<Longrightarrow> sc_thread (ts_cores s ! c) = Some t \<longleftrightarrow> t < num_threads s \<and> tr_core (thr s t) = Some c"
    "c < num_cores s \<Longrightarrow> sc_thread (ts_cores s ! c) = None \<Longrightarrow> sc_state (ts_cores s ! c) = IDLE"
    "t \<in> P \<Longrightarrow> t < num_threads s \<and> ti_core_running (info s t) \<noteq> None"
proof -
  note a = assms [unfolded placed_def]
  show "c < num_cores s \<Longrightarrow> ctr s c = Some t \<Longrightarrow> t < num_threads s \<and> ti_core_running (info s t) = Some c"
    by (rule a [THEN conjunct1, rule_format])
  note a = a [THEN conjunct2]
  show "t < num_infos s \<Longrightarrow> ti_core_running (info s t) = Some c \<Longrightarrow> c < num_cores s \<and> ctr s c = Some t"
    by (rule a [THEN conjunct1, rule_format])
  note a = a [THEN conjunct2]
  show "t < num_threads s \<Longrightarrow> tr_core (thr s t) = (if t \<in> P then None else ti_core_running (info s t))"
    by (rule a [THEN conjunct1, rule_format])
  note a = a [THEN conjunct2]
  show "c < num_cores s \<Longrightarrow> sc_thread (ts_cores s ! c) = Some t \<longleftrightarrow> t < num_threads s \<and> tr_core (thr s t) = Some c"
    by (rule a [THEN conjunct1, rule_format])
  note a = a [THEN conjunct2]
  show "c < num_cores s \<Longrightarrow> sc_thread (ts_cores s ! c) = None \<Longrightarrow> sc_state (ts_cores s ! c) = IDLE"
    by (rule a [THEN conjunct1, rule_format])
  show "t \<in> P \<Longrightarrow> t < num_threads s \<and> ti_core_running (info s t) \<noteq> None"
    by (rule a [THEN conjunct2, rule_format])
qed

lemma readyD:
  assumes "ready_ok X s" "t < length (runnable s)" "runnable s ! t"
  shows "t < num_threads s"
    "tr_status (thr s t) = RUNNING \<or> awaits_core (thr s t) \<and> tr_core (thr s t) = None \<or> t \<in> X \<and> ti_core_running (info s t) \<noteq> None"
  using assms unfolding ready_ok_def by simp_all

lemma sched_inv_parts: "sched_inv P X s \<Longrightarrow> shape s" "sched_inv P X s \<Longrightarrow> placed P s" "sched_inv P X s \<Longrightarrow> ready_ok X s"
  by (simp_all add: sched_inv_def)

lemmas sched_invD = shapeD(1-3) [OF sched_inv_parts(1)] placedD(1-3) [OF sched_inv_parts(2)] readyD [OF sched_inv_parts(3)]
  placedD(6) [OF sched_inv_parts(2)] shapeD(4,5) [OF sched_inv_parts(1)]

lemma sched_inv_dynamic: "sched_inv P X s \<Longrightarrow> \<not> is_static s"
  by (auto simp: sched_inv_def shape_def is_static_def split: sched_policy.splits)

lemma core_thread_iff:
  assumes "sched_inv P X s" "c < num_cores s"
  shows "sc_thread (ts_cores s ! c) = Some t \<longleftrightarrow> t < num_threads s \<and> tr_core (thr s t) = Some c"
  using placedD(4) [OF sched_inv_parts(2)] assms .

lemma core_idle: "sched_inv P X s \<Longrightarrow> c < num_cores s \<Longrightarrow> sc_thread (ts_cores s ! c) = None \<Longrightarrow> sc_state (ts_cores s ! c) = IDLE"
  using placedD(5) [OF sched_inv_parts(2)] .

text \<open>The scheduler takes a core from its thread.\<close>

lemma unschedule_ok:
  assumes inv: "sched_inv P X s" and c: "c < num_cores s" "ctr s c = Some u" and X: "u \<in> X \<Longrightarrow> u < length (runnable s) \<Longrightarrow> \<not> runnable s ! u"
  shows "\<exists>s1. unschedule_current r time c u s = Inr s1
    \<and> sched_inv (P - {u}) (X - {u}) (set_core_thread c None s1) \<and> sched_frame s (set_core_thread c None s1)
    \<and> (\<forall>c'<num_cores s. ctr (set_core_thread c None s1) c' = (if c' = c then None else ctr s c'))"
proof -
  note D = sched_invD [OF inv]
  have u: "u < num_threads s" "ti_core_running (info s u) = Some c" using D(4) c by auto
  have uniq: "ti_core_running (info s v) = Some c \<Longrightarrow> v < num_infos s \<Longrightarrow> v = u" for v using D(5) c by fastforce
  have on: "tr_core (thr s u) = (if u \<in> P then None else Some c)" using D(6) u by auto
  let ?i = "upd_info u (\<lambda>i. i\<lparr>ti_core_running := None, ti_last_scheduled_out := time + time_in Unit_PS (of_nat c)\<rparr>) s"
  define m where "m = (if u \<in> P then upd_thread u (tr_core_update (\<lambda>_. None)) ?i
    else upd_thread u (tr_core_update (\<lambda>_. None)) (upd_core c (sc_thread_update (\<lambda>_. None)) (upd_core c (sc_state_update (\<lambda>_. IDLE)) ?i)))"
  define s2 where "s2 = set_core_thread c None (upd_barrier (releaseThread u) m)"
  have run: "unschedule_current r time c u s = Inr (upd_barrier (releaseThread u) m)"
    using u on c by (auto simp: unschedule_current_def moveThread_with_def Thread_setCore_def Let_def barrier_threadMigrate_def upd_info_def m_def)
  have th: "\<And>v. v < num_threads s \<Longrightarrow> tr_core (thr m v) = (if v = u then None else tr_core (thr s v))"
    "\<And>v. v < num_threads s \<Longrightarrow> tr_status (thr m v) = tr_status (thr s v)"
    "\<And>v. v < num_threads s \<Longrightarrow> awaits_core (thr m v) = awaits_core (thr s v)"
    "num_threads m = num_threads s" "num_cores m = num_cores s"
    using u by (auto simp: m_def upd_info_def nth_list_update awaits_core_def)
  have co: "\<And>k. k < num_cores s \<Longrightarrow> sc_thread (ts_cores m ! k) = (if k = c \<and> u \<notin> P then None else sc_thread (ts_cores s ! k))"
    "\<And>k. k < num_cores s \<Longrightarrow> sc_state (ts_cores m ! k) = (if k = c \<and> u \<notin> P then IDLE else sc_state (ts_cores s ! k))"
    by (auto simp: m_def upd_info_def nth_list_update)
  have sched: "ts_sched m = ts_sched ?i" by (simp add: m_def)
  have sc: "\<And>k. k < num_cores s \<Longrightarrow> ctr s2 k = (if k = c then None else ctr s k)"
    using D(1) by (auto simp: s2_def sched set_core_thread_def upd_info_def nth_list_update)
  have inf: "\<And>v. v < num_infos s \<Longrightarrow> ti_core_running (info s2 v) = (if v = u then None else ti_core_running (info s v))"
     "\<And>v. v < num_infos s \<Longrightarrow> ti_core_affinity (info s2 v) = ti_core_affinity (info s v)" "num_infos s2 = num_infos s"
    using u D(3) by (auto simp: s2_def sched set_core_thread_def upd_info_def nth_list_update)
  have rest: "runnable s2 = runnable s" "sp_policy (ts_sched s2) = sp_policy (ts_sched s)" "ts_threads s2 = ts_threads m" "ts_cores s2 = ts_cores m"
    "length (sp_core_thread_running (ts_sched s2)) = num_cores s" "length (sp_quantum_left (ts_sched s2)) = length (sp_quantum_left (ts_sched s))"
    using D(1) by (simp_all add: s2_def sched set_core_thread_def upd_info_def)
  have "shape s2" using inv unfolding sched_inv_def shape_def rest th inf(3) by (auto simp: inf)
  moreover have "placed (P - {u}) s2"
  proof -
    have "\<forall>k<num_cores s. \<forall>t. ctr s2 k = Some t \<longrightarrow> t < num_threads s \<and> ti_core_running (info s2 t) = Some k"
    proof (intro allI impI)
      fix k t assume "k < num_cores s" "ctr s2 k = Some t"
      then have "k \<noteq> c" "ctr s k = Some t" by (auto simp: sc split: if_splits)
      then have "t < num_threads s" "ti_core_running (info s t) = Some k" using D(4) \<open>k < num_cores s\<close> by blast+
      moreover from this have "t \<noteq> u" using u \<open>k \<noteq> c\<close> by auto
      ultimately show "t < num_threads s \<and> ti_core_running (info s2 t) = Some k" using D(3) by (simp add: inf)
    qed
    moreover have "\<forall>t<num_infos s. \<forall>k. ti_core_running (info s2 t) = Some k \<longrightarrow> k < num_cores s \<and> ctr s2 k = Some t"
      using D(5) uniq by (auto simp: inf sc split: if_splits)
    moreover have "\<forall>t<num_threads s. tr_core (thr m t) = (if t \<in> P - {u} then None else ti_core_running (info s2 t))"
      using D(3,6) by (auto simp: th inf)
    moreover have "\<forall>k<num_cores s. \<forall>t. sc_thread (ts_cores m ! k) = Some t \<longleftrightarrow> t < num_threads s \<and> tr_core (thr m t) = Some k"
    proof (intro allI impI)
      fix k t assume k: "k < num_cores s"
      have only: "tr_core (thr s t) = Some c \<Longrightarrow> t < num_threads s \<Longrightarrow> t = u" using D(3) D(6) [of t] uniq [of t] by (auto split: if_splits)
      show "(sc_thread (ts_cores m ! k) = Some t) = (t < num_threads s \<and> tr_core (thr m t) = Some k)"
      proof (cases "k = c \<and> u \<notin> P")
        case True
        then have "sc_thread (ts_cores m ! k) = None" using co(1) [OF k] by simp
        then show ?thesis using True only th(1) [of t] by auto
      next
        case False
        then have "(sc_thread (ts_cores m ! k) = Some t) = (t < num_threads s \<and> tr_core (thr s t) = Some k)"
          using core_thread_iff [OF inv k, of t] by (simp only: co(1) [OF k] if_False)
        moreover have "tr_core (thr s u) \<noteq> Some k" using False on by auto
        ultimately show ?thesis using th(1) [of t] by (cases "t = u") auto
      qed
    qed
    moreover have "\<forall>k<num_cores s. sc_thread (ts_cores m ! k) = None \<longrightarrow> sc_state (ts_cores m ! k) = IDLE"
      using core_idle [OF inv] by (auto simp: co)
    moreover have "\<forall>t\<in>P - {u}. t < num_threads s \<and> ti_core_running (info s2 t) \<noteq> None"
    proof
      fix t assume "t \<in> P - {u}"
      then show "t < num_threads s \<and> ti_core_running (info s2 t) \<noteq> None" using D(3) D(9) [of t] inf(1) [of t] by auto
    qed
    ultimately show ?thesis unfolding placed_def rest th(4,5) inf(3) by blast
  qed
  moreover have "ready_ok (X - {u}) s2"
  proof -
    have "\<forall>t<length (runnable s). runnable s ! t \<longrightarrow> t < num_threads s \<and> (tr_status (thr m t) = RUNNING
      \<or> awaits_core (thr m t) \<and> tr_core (thr m t) = None \<or> t \<in> X - {u} \<and> ti_core_running (info s2 t) \<noteq> None)"
    proof (intro allI impI)
      fix t assume t: "t < length (runnable s)" "runnable s ! t"
      have "t < num_infos s" using t D(2) by simp
      with D(7,8) [OF t] X t show "t < num_threads s \<and> (tr_status (thr m t) = RUNNING
        \<or> awaits_core (thr m t) \<and> tr_core (thr m t) = None \<or> t \<in> X - {u} \<and> ti_core_running (info s2 t) \<noteq> None)"
        by (auto simp: th inf)
    qed
    moreover have "\<forall>k<num_cores s. \<forall>t. ctr s2 k = Some t \<longrightarrow> t \<notin> X - {u} \<longrightarrow> tr_status (thr m t) = INITIALIZING \<or> t < length (runnable s) \<and> runnable s ! t"
    proof (intro allI impI)
      fix k t assume k: "k < num_cores s" "ctr s2 k = Some t" "t \<notin> X - {u}"
      then have "k \<noteq> c" "ctr s k = Some t" by (auto simp: sc split: if_splits)
      then have "t < num_threads s" "t \<noteq> u" using D(4) k(1) u by auto
      then show "tr_status (thr m t) = INITIALIZING \<or> t < length (runnable s) \<and> runnable s ! t"
        using inv k \<open>ctr s k = Some t\<close> unfolding sched_inv_def ready_ok_def by (simp add: th)
    qed
    ultimately show ?thesis unfolding ready_ok_def rest th(4,5) by blast
  qed
  moreover have "sched_frame s s2"
    unfolding sched_frame_def rest th inf(3) using th(4) u D(3)
    by (auto simp: inf th nth_list_update m_def s2_def set_core_thread_def upd_info_def)
  ultimately show ?thesis using run sc unfolding s2_def sched_inv_def by blast
qed

text \<open>The scheduler gives a free core to a thread that is ready: the thread is on its way.\<close>

definition assign :: "SubsecondTime \<Rightarrow> nat \<Rightarrow> nat \<Rightarrow> thread_sys \<Rightarrow> thread_sys" where
  "assign time c t s = upd_info t (\<lambda>i. i\<lparr>ti_core_running := Some c, ti_last_scheduled_in := time\<rparr>) (set_core_thread c (Some t) s)"

lemma assign_simps:
  assumes "length (sp_core_thread_running (ts_sched s)) = num_cores s" "c < num_cores s" "t < num_infos s"
  shows "k < num_cores s \<Longrightarrow> ctr (assign time c t s) k = (if k = c then Some t else ctr s k)"
    "v < num_infos s \<Longrightarrow> ti_core_running (info (assign time c t s) v) = (if v = t then Some c else ti_core_running (info s v))"
    "v < num_infos s \<Longrightarrow> ti_core_affinity (info (assign time c t s) v) = ti_core_affinity (info s v)"
    "num_infos (assign time c t s) = num_infos s" "ts_threads (assign time c t s) = ts_threads s" "ts_cores (assign time c t s) = ts_cores s"
    "runnable (assign time c t s) = runnable s" "length (sp_core_thread_running (ts_sched (assign time c t s))) = num_cores s"
    "sp_quantum_left (ts_sched (assign time c t s)) = sp_quantum_left (ts_sched s)" "sp_policy (ts_sched (assign time c t s)) = sp_policy (ts_sched s)"
    "sp_quantum (ts_sched (assign time c t s)) = sp_quantum (ts_sched s)"
    "ts_futexes (assign time c t s) = ts_futexes s" "ts_sleeping (assign time c t s) = ts_sleeping s" "ts_spawn_list (assign time c t s) = ts_spawn_list s"
    "ts_pseudo (assign time c t s) = ts_pseudo s"
  using assms by (auto simp: assign_def set_core_thread_def upd_info_def nth_list_update)

lemma assign_ok:
  assumes inv: "sched_inv P X s" and c: "c < num_cores s" "ctr s c = None"
    and t: "t < num_threads s" "t < length (runnable s) \<and> runnable s ! t \<or> tr_status (thr s t) = INITIALIZING" "ti_core_running (info s t) = None"
  shows "sched_inv (insert t P) X (assign time c t s)" "sched_frame s (assign time c t s)"
    "k < num_cores s \<Longrightarrow> ctr (assign time c t s) k = (if k = c then Some t else ctr s k)"
proof -
  note D = sched_invD [OF inv]
  have tn: "t < num_threads s" "t < num_infos s" using D(3) t by auto
  define s2 where "s2 = assign time c t s"
  note A = assign_simps [OF D(1) c(1) tn(2), where time = time, folded s2_def]
  have "shape s2" using sched_inv_parts(1) [OF inv] unfolding shape_def A(4-10) by (auto simp: A(3))
  moreover have "placed (insert t P) s2"
  proof -
    have "\<forall>k<num_cores s. \<forall>v. ctr s2 k = Some v \<longrightarrow> v < num_threads s \<and> ti_core_running (info s2 v) = Some k"
    proof (intro allI impI)
      fix k v assume k: "k < num_cores s" "ctr s2 k = Some v"
      show "v < num_threads s \<and> ti_core_running (info s2 v) = Some k"
      proof (cases "k = c")
        case True
        then show ?thesis using k tn by (simp add: A)
      next
        case False
        then have v: "v < num_threads s" "ti_core_running (info s v) = Some k" using k D(4) [of k v] by (auto simp: A)
        then have "v \<noteq> t" using t by auto
        then show ?thesis using v D(3) by (simp add: A)
      qed
    qed
    moreover have "\<forall>v<num_infos s. \<forall>k. ti_core_running (info s2 v) = Some k \<longrightarrow> k < num_cores s \<and> ctr s2 k = Some v"
    proof (intro allI impI)
      fix v k assume v: "v < num_infos s" "ti_core_running (info s2 v) = Some k"
      show "k < num_cores s \<and> ctr s2 k = Some v"
      proof (cases "v = t")
        case True
        then show ?thesis using v c by (simp add: A)
      next
        case False
        then have "k < num_cores s \<and> ctr s k = Some v" using v D(5) [of v k] by (simp add: A)
        then show ?thesis using c by (auto simp: A)
      qed
    qed
    moreover have "\<forall>v<num_threads s. tr_core (thr s v) = (if v \<in> insert t P then None else ti_core_running (info s2 v))"
      using D(3) D(6) t(3) by (simp add: A)
    moreover have "\<forall>v\<in>insert t P. v < num_threads s \<and> ti_core_running (info s2 v) \<noteq> None"
    proof
      fix v assume "v \<in> insert t P"
      then show "v < num_threads s \<and> ti_core_running (info s2 v) \<noteq> None" using D(3) D(9) [of v] tn A(2) [of v] by auto
    qed
    ultimately show ?thesis using placedD(4,5) [OF sched_inv_parts(2) [OF inv]] unfolding placed_def A(4-6) by blast
  qed
  moreover have "ready_ok X s2"
  proof -
    have "\<forall>k<num_cores s. \<forall>v. ctr s2 k = Some v \<longrightarrow> v \<notin> X \<longrightarrow> tr_status (thr s v) = INITIALIZING \<or> v < length (runnable s) \<and> runnable s ! v"
    proof (intro allI impI)
      fix k v assume k: "k < num_cores s" "ctr s2 k = Some v" "v \<notin> X"
      show "tr_status (thr s v) = INITIALIZING \<or> v < length (runnable s) \<and> runnable s ! v"
      proof (cases "k = c")
        case True
        then show ?thesis using k t by (auto simp: A(1))
      next
        case False
        then have "ctr s k = Some v" using k by (simp add: A(1))
        then show ?thesis using sched_inv_parts(3) [OF inv] k unfolding ready_ok_def by blast
      qed
    qed
    moreover have "\<forall>v<length (runnable s). runnable s ! v \<longrightarrow> v < num_threads s \<and> (tr_status (thr s v) = RUNNING
      \<or> awaits_core (thr s v) \<and> tr_core (thr s v) = None \<or> v \<in> X \<and> ti_core_running (info s2 v) \<noteq> None)"
    proof (intro allI impI)
      fix v assume v: "v < length (runnable s)" "runnable s ! v"
      have "v < num_infos s" using v D(2) by simp
      with D(7,8) [OF v] show "v < num_threads s \<and> (tr_status (thr s v) = RUNNING
        \<or> awaits_core (thr s v) \<and> tr_core (thr s v) = None \<or> v \<in> X \<and> ti_core_running (info s2 v) \<noteq> None)" by (auto simp: A(2))
    qed
    ultimately show ?thesis unfolding ready_ok_def A(5-7) by blast
  qed
  ultimately show "sched_inv (insert t P) X (assign time c t s)" by (simp add: sched_inv_def s2_def)
  show "sched_frame s (assign time c t s)" using A(3) unfolding s2_def [symmetric] by (simp add: sched_frame_def A)
  show "k < num_cores s \<Longrightarrow> ctr (assign time c t s) k = (if k = c then Some t else ctr s k)" using A(1) by (simp add: s2_def)
qed

text \<open>A thread that was waiting for a core is running again.\<close>

lemma wake_ok:
  assumes inv: "sched_inv P X s" and t: "t < length (runnable s)" "runnable s ! t" "awaits_core (thr s t)"
    and f: "\<And>x. tr_core (f x) = tr_core x" "\<And>x. tr_status (f x) = RUNNING" "\<And>x. tr_waiter (f x) = tr_waiter x" "\<And>x. tr_clear_tid (f x) = tr_clear_tid x"
      "\<And>x. tr_stalled_reason (f x) = tr_stalled_reason x"
  shows "sched_inv P X (upd_thread t f s)" "sched_frame s (upd_thread t f s)"
proof -
  note D = sched_invD [OF inv]
  have tn: "t < num_threads s" using D(7) t by auto
  define s2 where "s2 = upd_thread t f s"
  have th: "num_threads s2 = num_threads s" "ts_cores s2 = ts_cores s" "ts_sched s2 = ts_sched s"
    "\<And>v. v < num_threads s \<Longrightarrow> tr_core (thr s2 v) = tr_core (thr s v)"
    "\<And>v. v < num_threads s \<Longrightarrow> tr_status (thr s2 v) = (if v = t then RUNNING else tr_status (thr s v))"
    "\<And>v. v < num_threads s \<Longrightarrow> v \<noteq> t \<Longrightarrow> thr s2 v = thr s v"
    using tn by (auto simp: s2_def nth_list_update f)
  have "placed P s2" unfolding placed_def th(1-3)
  proof (intro conjI allI impI ballI)
    fix k v assume k: "k < num_cores s" "ctr s k = Some v"
    show "v < num_threads s" "ti_core_running (info s v) = Some k" using D(4) [OF k] by auto
  next
    fix k v assume k: "v < num_infos s" "ti_core_running (info s v) = Some k"
    show "k < num_cores s" "ctr s k = Some v" using D(5) [OF k] by auto
  next
    fix v assume v: "v < num_threads s"
    show "tr_core (thr s2 v) = (if v \<in> P then None else ti_core_running (info s v))" using D(6) [OF v] by (simp only: th(4) [OF v])
  next
    fix k v assume k: "k < num_cores s"
    show "(sc_thread (ts_cores s ! k) = Some v) = (v < num_threads s \<and> tr_core (thr s2 v) = Some k)"
      using core_thread_iff [OF inv k, of v] th(4) [of v] by auto
  next
    fix k assume "k < num_cores s" "sc_thread (ts_cores s ! k) = None"
    then show "sc_state (ts_cores s ! k) = IDLE" using core_idle [OF inv, of k] by simp
  next
    fix v assume "v \<in> P"
    then show "v < num_threads s" "ti_core_running (info s v) \<noteq> None" using D(9) [of v] by auto
  qed
  moreover have "shape s2" using sched_inv_parts(1) [OF inv] unfolding shape_def th(1-3) .
  moreover have "ready_ok X s2" unfolding ready_ok_def th(1-3)
  proof (intro conjI allI impI)
    fix v assume v: "v < length (runnable s)" "runnable s ! v"
    show vn: "v < num_threads s" using D(7) v by blast
    show "tr_status (thr s2 v) = RUNNING \<or> awaits_core (thr s2 v) \<and> tr_core (thr s2 v) = None \<or> v \<in> X \<and> ti_core_running (info s v) \<noteq> None"
      using D(8) [OF v] th(5,6) [OF vn] by (cases "v = t") auto
  next
    fix k v assume k: "k < num_cores s" "ctr s k = Some v" "v \<notin> X"
    show "tr_status (thr s2 v) = INITIALIZING \<or> v < length (runnable s) \<and> runnable s ! v"
    proof (cases "v = t")
      case False
      then have "thr s2 v = thr s v" using D(4) k th(6) by blast
      then show ?thesis using k sched_inv_parts(3) [OF inv] unfolding ready_ok_def by simp
    qed (use t in simp)
  qed
  ultimately show "sched_inv P X (upd_thread t f s)" by (simp add: sched_inv_def s2_def)
  show "sched_frame s (upd_thread t f s)" using t(3) tn by (auto simp: sched_frame_def nth_list_update f)
qed

text \<open>The thread arrives on its core.\<close>

lemma arrive_ok:
  assumes inv: "sched_inv (insert t P) X s" and c: "c < num_cores s" "ctr s c = Some t"
    and t: "t \<notin> P" "t < length (runnable s) \<Longrightarrow> runnable s ! t \<Longrightarrow> tr_status (thr s t) = RUNNING"
  shows "\<exists>s3. Thread_setCore t (Some c) s = Inr s3 \<and> ts_threads s3 = (ts_threads s)[t := (thr s t)\<lparr>tr_core := Some c\<rparr>]
    \<and> sched_inv P X (upd_core c (sc_state_update (\<lambda>_. st)) s3) \<and> sched_frame s (upd_core c (sc_state_update (\<lambda>_. st)) s3)
    \<and> ts_sched s3 = ts_sched s"
proof -
  note D = sched_invD [OF inv]
  have tn: "t < num_threads s" "ti_core_running (info s t) = Some c" using D(4) c by auto
  have off: "tr_core (thr s t) = None" using D(6) tn by simp
  have none: "tr_core (thr s v) \<noteq> Some c" if "v < num_threads s" for v
    using D(3) D(5) [of v c] D(6) [OF that] that c off by (auto split: if_splits)
  have free: "sc_thread (ts_cores s ! c) = None" using core_thread_iff [OF inv c(1)] none by (cases "sc_thread (ts_cores s ! c)") auto
  define s3 where "s3 = upd_core c (sc_thread_update (\<lambda>_. Some t)) (upd_thread t (tr_core_update (\<lambda>_. Some c)) s)"
  define s4 where "s4 = upd_core c (sc_state_update (\<lambda>_. st)) s3"
  have run: "Thread_setCore t (Some c) s = Inr s3" using off free by (simp add: Thread_setCore_def s3_def)
  have stt: "num_threads s4 = num_threads s" "num_cores s4 = num_cores s" "ts_sched s4 = ts_sched s"
    "\<And>v. v < num_threads s \<Longrightarrow> tr_core (thr s4 v) = (if v = t then Some c else tr_core (thr s v))"
    "\<And>v. v < num_threads s \<Longrightarrow> tr_status (thr s4 v) = tr_status (thr s v)"
    "\<And>v. v < num_threads s \<Longrightarrow> v \<noteq> t \<Longrightarrow> thr s4 v = thr s v"
    "\<And>k. k < num_cores s \<Longrightarrow> sc_thread (ts_cores s4 ! k) = (if k = c then Some t else sc_thread (ts_cores s ! k))"
    "\<And>k. k < num_cores s \<Longrightarrow> k \<noteq> c \<Longrightarrow> sc_state (ts_cores s4 ! k) = sc_state (ts_cores s ! k)"
    using tn c by (auto simp: s4_def s3_def nth_list_update)
  have "shape s4" using sched_inv_parts(1) [OF inv] unfolding shape_def stt(1-3) .
  moreover have "placed P s4"
    unfolding placed_def stt(1-3)
  proof (intro conjI allI impI ballI)
    fix k v assume k: "k < num_cores s" "ctr s k = Some v"
    show "v < num_threads s" "ti_core_running (info s v) = Some k" using D(4) [OF k] by auto
  next
    fix k v assume k: "v < num_infos s" "ti_core_running (info s v) = Some k"
    show "k < num_cores s" "ctr s k = Some v" using D(5) [OF k] by auto
  next
    fix v assume v: "v < num_threads s"
    show "tr_core (thr s4 v) = (if v \<in> P then None else ti_core_running (info s v))" using D(6) [OF v] tn t by (auto simp: stt(4) [OF v])
  next
    fix k v assume k: "k < num_cores s"
    show "(sc_thread (ts_cores s4 ! k) = Some v) = (v < num_threads s \<and> tr_core (thr s4 v) = Some k)"
    proof (cases "k = c")
      case True
      then show ?thesis using stt(7) [OF k] stt(4) [of v] none [of v] tn by (auto split: if_splits)
    next
      case False
      then have "(sc_thread (ts_cores s4 ! k) = Some v) = (v < num_threads s \<and> tr_core (thr s v) = Some k)"
        using core_thread_iff [OF inv k, of v] stt(7) [OF k] by simp
      then show ?thesis using stt(4) [of v] off False by (cases "v = t") auto
    qed
  next
    fix k assume "k < num_cores s" "sc_thread (ts_cores s4 ! k) = None"
    then show "sc_state (ts_cores s4 ! k) = IDLE" using core_idle [OF inv, of k] by (cases "k = c") (auto simp: stt)
  next
    fix v assume "v \<in> P"
    then show "v < num_threads s" "ti_core_running (info s v) \<noteq> None" using D(9) [of v] by auto
  qed
  moreover have "ready_ok X s4" unfolding ready_ok_def stt(1-3)
  proof (intro conjI allI impI)
    fix v assume v: "v < length (runnable s)" "runnable s ! v"
    show vn: "v < num_threads s" using D(7) v by blast
    show "tr_status (thr s4 v) = RUNNING \<or> awaits_core (thr s4 v) \<and> tr_core (thr s4 v) = None \<or> v \<in> X \<and> ti_core_running (info s v) \<noteq> None"
      using D(8) [OF v] stt(5,6) [OF vn] t(2) v by (cases "v = t") auto
  next
    fix k v assume k: "k < num_cores s" "ctr s k = Some v" "v \<notin> X"
    then have "v < num_threads s" using D(4) by blast
    then show "tr_status (thr s4 v) = INITIALIZING \<or> v < length (runnable s) \<and> runnable s ! v"
      using k sched_inv_parts(3) [OF inv] unfolding ready_ok_def by (simp add: stt(5))
  qed
  moreover have "sched_frame s s4"
    unfolding sched_frame_def stt(1-3) using tn by (auto simp: s4_def s3_def nth_list_update)
  moreover have "ts_threads s3 = (ts_threads s)[t := (thr s t)\<lparr>tr_core := Some c\<rparr>]" "ts_sched s3 = ts_sched s" by (simp_all add: s3_def)
  ultimately show ?thesis using run by (auto simp: sched_inv_def s4_def)
qed

section \<open>Rescheduling a core\<close>

definition free_cores :: "thread_sys \<Rightarrow> nat" where
  "free_cores s = card {c. c < num_cores s \<and> ctr s c = None}"

lemma free_cores_le: "free_cores s \<le> num_cores s"
  unfolding free_cores_def by (rule order_trans [OF card_mono [of "{..<num_cores s}"]]) auto

definition keeps_threads :: "thread_sys \<Rightarrow> thread_sys \<Rightarrow> bool" where
  "keeps_threads s s' \<longleftrightarrow> (\<forall>c<num_cores s. \<forall>t. ctr s c = Some t \<longrightarrow> ctr s' c = Some t)"

text \<open>A rescheduler that fills free cores, as long as there are at most \<open>k\<close> of them, and leaves the busy ones alone.\<close>

definition fills :: "nat \<Rightarrow> rescheduler \<Rightarrow> bool" where
  "fills k r \<longleftrightarrow> (\<forall>time c p s P X. sched_inv P X s \<longrightarrow> c < num_cores s \<longrightarrow> ctr s c = None \<longrightarrow> free_cores s \<le> k
     \<longrightarrow> (\<exists>s'. r time c p s = Inr s' \<and> sched_inv P X s' \<and> sched_frame s s' \<and> keeps_threads s s'))"

lemma fillsD:
  assumes "fills k r" "sched_inv P X s" "c < num_cores s" "ctr s c = None" "free_cores s \<le> k"
  shows "\<exists>s'. r time c p s = Inr s' \<and> sched_inv P X s' \<and> sched_frame s s' \<and> keeps_threads s s'"
  using assms unfolding fills_def by blast

lemma fills_0: "fills 0 r"
proof -
  have "free_cores s \<noteq> 0" if "c < num_cores s" "ctr s c = None" for s c
    using that by (auto simp: free_cores_def)
  then show ?thesis unfolding fills_def by (metis le_zero_eq)
qed

lemma sched_frame_sizes:
  "sched_frame s s' \<Longrightarrow> num_cores s' = num_cores s" "sched_frame s s' \<Longrightarrow> num_threads s' = num_threads s"
  "sched_frame s s' \<Longrightarrow> num_infos s' = num_infos s" "sched_frame s s' \<Longrightarrow> runnable s' = runnable s"
  by (simp_all add: sched_frame_def)

lemma sched_frame_running:
  "sched_frame s s' \<Longrightarrow> t < num_threads s \<Longrightarrow> tr_status (thr s t) = RUNNING \<Longrightarrow> tr_status (thr s' t) = RUNNING"
  by (auto simp: sched_frame_def awaits_core_def)

lemma findFreeCore_Some:
  "findFreeCoreForThread t s = Some c \<Longrightarrow> c < num_cores s \<and> ctr s c = None \<and> hasAffinity c (info s t)"
  unfolding findFreeCoreForThread_def by (drule first_index_Some) auto

lemma set_runnable_same: "t < length (runnable s) \<Longrightarrow> runnable s ! t = v \<Longrightarrow> set_runnable t v s = Inr s"
  using list_update_id [of "runnable s" t] by (simp add: set_runnable_def upd_sched_def)

text \<open>A thread that is ready and resumed: another free core may be filled on the way.\<close>

lemma resume_ready:
  assumes inv: "sched_inv P X s" and r: "fills k r" "free_cores s \<le> k"
    and t: "t < length (runnable s)" "runnable s ! t" "awaits_core (thr s t)"
  shows "\<exists>s'. resumeThread_with r t time msg s = Inr s' \<and> sched_inv P X s' \<and> sched_frame s s' \<and> keeps_threads s s' \<and> tr_status (thr s' t) = RUNNING"
proof -
  have tn: "t < num_threads s" using sched_invD(7) [OF inv] t by blast
  define s1 where "s1 = upd_thread t (\<lambda>x. x\<lparr>tr_wakeup_time := time, tr_wakeup_msg := msg, tr_status := RUNNING\<rparr>) s"
  have i1: "sched_inv P X s1" "sched_frame s s1" unfolding s1_def by (rule wake_ok [OF inv t]; simp)+
  have sc: "ts_sched s1 = ts_sched s" "ts_cores s1 = ts_cores s" "tr_status (thr s1 t) = RUNNING" using tn by (simp_all add: s1_def)
  have eq: "upd_thread t (tr_status_update (\<lambda>_. RUNNING)) (upd_thread t (\<lambda>x. x\<lparr>tr_wakeup_time := time, tr_wakeup_msg := msg\<rparr>) s) = s1"
    using tn by (simp add: s1_def upd_thread_def)
  have run: "resumeThread_with r t time msg s = pinned_threadResume r t time s1"
    using tn t sched_inv_dynamic [OF i1(1)] sc by (simp add: resumeThread_with_def resumeThread_async_with_def eq dynamic_threadResume_def set_runnable_same)
  show ?thesis
  proof (cases "findFreeCoreForThread t s1")
    case None
    then show ?thesis using run i1 sc by (simp add: pinned_threadResume_def keeps_threads_def)
  next
    case (Some c2)
    then have c2: "c2 < num_cores s1" "ctr s1 c2 = None" using findFreeCore_Some by auto
    have "free_cores s1 \<le> k" using r(2) sc by (simp add: free_cores_def)
    then obtain s2 where s2: "r time c2 False s1 = Inr s2" "sched_inv P X s2" "sched_frame s1 s2" "keeps_threads s1 s2"
      using fillsD [OF r(1) i1(1) c2] by blast
    have "sched_frame s s2" by (rule sched_frame_trans [OF i1(2) s2(3)])
    moreover have "keeps_threads s s2" using s2(4) sc by (simp add: keeps_threads_def)
    moreover have "tr_status (thr s2 t) = RUNNING" using sched_frame_running [OF s2(3)] tn sc by (simp add: s1_def)
    ultimately show ?thesis using run Some s2 by (simp add: pinned_threadResume_def)
  qed
qed

lemma schedule_new_ok:
  assumes inv: "sched_inv P X s" and c: "c < num_cores s" "ctr s c = None" and r: "fills k r" "free_cores s \<le> Suc k"
    and t: "t < length (runnable s)" "runnable s ! t" "ti_core_running (info s t) = None"
  shows "\<exists>s'. schedule_new r time c t (set_core_thread c (Some t) s) = Inr s' \<and> sched_inv P X s' \<and> sched_frame s s' \<and> keeps_threads s s' \<and> ctr s' c = Some t"
proof -
  note D = sched_invD [OF inv]
  have tn: "t < num_threads s" "t < num_infos s" using D(2,7) t by auto
  define s1 where "s1 = assign time c t s"
  note a = assign_ok [OF inv c tn(1) _ t(3), where time = time, folded s1_def, OF disjI1 [OF conjI [OF t(1,2)]]]
  note sz = sched_frame_sizes [OF a(2)]
  have tP: "t \<notin> P" using D(9) t by blast
  have th: "thr s1 t = thr s t" by (simp add: s1_def assign_def upd_info_def set_core_thread_def)
  have free: "free_cores s1 \<le> k"
  proof -
    have "{k. k < num_cores s1 \<and> ctr s1 k = None} = {k. k < num_cores s \<and> ctr s k = None} - {c}" using a(3) sz by (auto split: if_splits)
    moreover have "c \<in> {k. k < num_cores s \<and> ctr s k = None}" using c by simp
    ultimately have "free_cores s1 = free_cores s - 1" by (simp add: free_cores_def card_Diff_singleton)
    then show ?thesis using r(2) by simp
  qed
  have off: "tr_core (thr s1 t) = None" using D(6) tn t(3) th by simp
  have run: "schedule_new r time c t (set_core_thread c (Some t) s) = moveThread_with r t (Some c) time s1"
    using t(3) by (simp add: schedule_new_def s1_def assign_def set_core_thread_def)
  have "\<exists>s2. (if tr_core (thr s1 t) = None \<and> tr_status (thr s1 t) = STALLED \<and> tr_stalled_reason (thr s1 t) = STALL_UNSCHEDULED
       then resumeThread_with r t time False s1 else Inr s1) = Inr s2 \<and> sched_inv (insert t P) X s2 \<and> sched_frame s1 s2 \<and> keeps_threads s1 s2
       \<and> tr_status (thr s2 t) = RUNNING"
  proof (cases "awaits_core (thr s1 t)")
    case True
    then show ?thesis using resume_ready [OF a(1) r(1) free, of t time False] t sz off by (simp add: awaits_core_def)
  next
    case False
    then have "tr_status (thr s1 t) = RUNNING" using D(8) [OF t(1,2)] t(3) th by auto
    then show ?thesis using a(1) by (auto simp: keeps_threads_def)
  qed
  then obtain s2 where s2: "(if tr_core (thr s1 t) = None \<and> tr_status (thr s1 t) = STALLED \<and> tr_stalled_reason (thr s1 t) = STALL_UNSCHEDULED
       then resumeThread_with r t time False s1 else Inr s1) = Inr s2" "sched_inv (insert t P) X s2" "sched_frame s1 s2" "keeps_threads s1 s2"
      "tr_status (thr s2 t) = RUNNING" by blast
  note sz2 = sched_frame_sizes [OF s2(3)]
  have at: "ctr s2 c = Some t" using s2(4) a(3) [OF c(1)] sz c by (simp add: keeps_threads_def)
  obtain s3 where s3: "Thread_setCore t (Some c) s2 = Inr s3" "ts_threads s3 = (ts_threads s2)[t := (thr s2 t)\<lparr>tr_core := Some c\<rparr>]"
    "sched_inv P X (upd_core c (sc_state_update (\<lambda>_. RUNNING)) s3)" "sched_frame s2 (upd_core c (sc_state_update (\<lambda>_. RUNNING)) s3)" "ts_sched s3 = ts_sched s2"
    using arrive_ok [OF s2(2) _ at tP, of RUNNING] s2(5) c sz sz2 by auto
  have t3: "tr_status (thr s3 t) \<noteq> STALLED" using s3(2) tn sz sz2 s2(5) by simp
  define s4 where "s4 = upd_barrier (releaseThread t) (upd_core c (sc_state_update (\<lambda>_. RUNNING)) s3)"
  have "moveThread_with r t (Some c) time s1 = Inr s4"
    using tn sz off s2(1) s3(1) t3 by (simp add: moveThread_with_def Let_def s4_def barrier_threadMigrate_def)
  moreover have "sched_inv P X s4" using s3(3) by (simp add: s4_def)
  moreover have "sched_frame s s4" using sched_frame_trans [OF sched_frame_trans [OF a(2) s2(3)] s3(4)] by (simp add: s4_def)
  moreover have "ctr s4 k = ctr s2 k" for k using s3(5) by (simp add: s4_def)
  moreover have "keeps_threads s s2" unfolding keeps_threads_def
  proof (intro allI impI)
    fix k v assume k: "k < num_cores s" "ctr s k = Some v"
    then have "ctr s1 k = Some v" using a(3) [OF k(1)] c by auto
    then show "ctr s2 k = Some v" using s2(4) k(1) sz by (simp add: keeps_threads_def)
  qed
  ultimately show ?thesis using run at by (auto simp: keeps_threads_def)
qed

section \<open>The thread that is chosen\<close>

lemma pick_fold:
  assumes "fold (pick_step time core sp) ts (b, m) = (b', m')"
  shows "(b' = b \<and> m' = m \<or> (\<exists>t\<in>set ts. b' = Some t \<and> eligible core t sp \<and> m' = sched_score time (sp_thread_info sp ! t))) \<and> m \<le> m'
    \<and> (\<forall>t\<in>set ts. eligible core t sp \<longrightarrow> sched_score time (sp_thread_info sp ! t) \<le> m')"
  using assms
proof (induction ts arbitrary: b m)
  case (Cons t ts)
  obtain b1 m1 where b1: "pick_step time core sp t (b, m) = (b1, m1)" by fastforce
  have st: "(b1 = b \<and> m1 = m \<and> (eligible core t sp \<longrightarrow> sched_score time (sp_thread_info sp ! t) \<le> m)) \<or>
      (b1 = Some t \<and> eligible core t sp \<and> m1 = sched_score time (sp_thread_info sp ! t) \<and> m < m1)"
    using b1 by (auto simp: pick_step_def split: if_splits)
  have ih: "(b' = b1 \<and> m' = m1 \<or> (\<exists>t\<in>set ts. b' = Some t \<and> eligible core t sp \<and> m' = sched_score time (sp_thread_info sp ! t))) \<and> m1 \<le> m'
    \<and> (\<forall>t\<in>set ts. eligible core t sp \<longrightarrow> sched_score time (sp_thread_info sp ! t) \<le> m')"
    using Cons.IH [of b1 m1] Cons.prems b1 by simp
  show ?case using st ih by auto
qed simp

lemma pick_thread_eligible:
  assumes "pick_thread time core sp = Some t"
  shows "t < length (sp_threads_runnable sp)" "eligible core t sp"
    "\<And>v. v < length (sp_threads_runnable sp) \<Longrightarrow> eligible core v sp \<Longrightarrow> sched_score time (sp_thread_info sp ! v) \<le> sched_score time (sp_thread_info sp ! t)"
proof -
  obtain b m where b: "fold (pick_step time core sp) [0..<length (sp_threads_runnable sp)] (None, - (2 ^ 63)) = (b, m)" by fastforce
  then have "b = Some t" using assms by (simp add: pick_thread_def)
  with pick_fold [OF b] show "t < length (sp_threads_runnable sp)" "eligible core t sp"
    "\<And>v. v < length (sp_threads_runnable sp) \<Longrightarrow> eligible core v sp \<Longrightarrow> sched_score time (sp_thread_info sp ! v) \<le> sched_score time (sp_thread_info sp ! t)"
    by auto
qed

lemma pick_thread_None:
  assumes "pick_thread time core sp = None" "v < length (sp_threads_runnable sp)" "eligible core v sp"
  shows "sched_score time (sp_thread_info sp ! v) \<le> - (2 ^ 63)"
proof -
  obtain b m where b: "fold (pick_step time core sp) [0..<length (sp_threads_runnable sp)] (None, - (2 ^ 63)) = (b, m)" by fastforce
  then have "b = None" using assms(1) by (simp add: pick_thread_def)
  with pick_fold [OF b] assms(2,3) show ?thesis by auto
qed

section \<open>Rescheduling keeps the invariant and ends\<close>

lemma eligible_new:
  assumes "sched_inv P X s" "pick_thread time c (ts_sched s) = Some t" "ctr s c \<noteq> Some t"
  shows "t < length (runnable s)" "runnable s ! t" "ti_core_running (info s t) = None"
proof -
  note e = pick_thread_eligible [OF assms(2)]
  show t: "t < length (runnable s)" "runnable s ! t" using e by (simp_all add: eligible_def)
  have "t < num_infos s" using t(1) sched_invD(2) [OF assms(1)] by simp
  then have "ti_core_running (info s t) \<noteq> Some c" using sched_invD(5) [OF assms(1)] assms(3) by blast
  then show "ti_core_running (info s t) = None" using e(2) by (auto simp: eligible_def isRunning_def)
qed

lemma reschedule_step_free:
  assumes r: "fills k r" and inv: "sched_inv P X s" and c: "c < num_cores s" "ctr s c = None" and f: "free_cores s \<le> Suc k"
  shows "\<exists>s'. reschedule_with r time c p s = Inr s' \<and> sched_inv P X s' \<and> sched_frame s s' \<and> keeps_threads s s'
    \<and> ctr s' c = pick_thread time c (ts_sched s)"
proof -
  note D = sched_invD [OF inv]
  show ?thesis
  proof (cases "pick_thread time c (ts_sched s)")
    case None
    then show ?thesis using inv c D(2) by (simp add: reschedule_with_def Let_def keeps_threads_def)
  next
    case (Some t)
    obtain s' where "schedule_new r time c t (set_core_thread c (Some t) s) = Inr s'" "sched_inv P X s'" "sched_frame s s'" "keeps_threads s s'" "ctr s' c = Some t"
      using schedule_new_ok [OF inv c r f] eligible_new [OF inv Some] c by auto
    then show ?thesis using Some c D(2) by (simp add: reschedule_with_def Let_def keeps_threads_def)
  qed
qed

lemma reschedule_fills: "fills k r \<Longrightarrow> fills (Suc k) (reschedule_with r)"
  using reschedule_step_free unfolding fills_def [of "Suc k"] by blast

lemma reschedule_fuel_fills: "fills n (reschedule_fuel n)"
proof (induction n)
  case (Suc n)
  then show ?case using reschedule_fills by simp
qed (rule fills_0)

lemma fills_mono: "fills k r \<Longrightarrow> j \<le> k \<Longrightarrow> fills j r"
  unfolding fills_def by (meson order_trans)

text \<open>A core that is in use: its thread gives it up unless it is the best choice itself.\<close>

lemma reschedule_busy:
  assumes r: "fills (free_cores s) r" and inv: "sched_inv P X s" and c: "c < num_cores s" "ctr s c = Some u"
    and u: "tr_status (thr s u) \<noteq> INITIALIZING" "u \<in> P \<union> X \<Longrightarrow> u < length (runnable s) \<Longrightarrow> \<not> runnable s ! u"
  shows "\<exists>s'. reschedule_with r time c p s = Inr s' \<and> sched_inv (P - {u}) (X - {u}) s' \<and> sched_frame s s'
    \<and> (\<forall>c'<num_cores s. \<forall>t. c' \<noteq> c \<longrightarrow> ctr s c' = Some t \<longrightarrow> ctr s' c' = Some t) \<and> ctr s' c = pick_thread time c (ts_sched s)"
proof -
  note D = sched_invD [OF inv]
  have un: "u < num_threads s" using D(4) c by blast
  define new where "new = pick_thread time c (ts_sched s)"
  show ?thesis
  proof (cases "new = Some u")
    case True
    then have e: "u < length (runnable s)" "runnable s ! u" using pick_thread_eligible [of time c "ts_sched s" u] by (simp_all add: new_def eligible_def)
    have "P - {u} = P" using u(2) e by blast
    moreover have "X - {u} = X" using u(2) e by blast
    ultimately have "sched_inv (P - {u}) (X - {u}) s" using inv by (simp add: sched_inv_def)
    then show ?thesis using True c un u(1) D(2) by (simp add: reschedule_with_def Let_def new_def)
  next
    case False
    obtain s1 where s1: "unschedule_current r time c u s = Inr s1" "sched_inv (P - {u}) (X - {u}) (set_core_thread c None s1)"
      "sched_frame s (set_core_thread c None s1)" "\<And>c'. c' < num_cores s \<Longrightarrow> ctr (set_core_thread c None s1) c' = (if c' = c then None else ctr s c')"
      using unschedule_ok [OF inv c] u(2) by blast
    define s2 where "s2 = set_core_thread c None s1"
    have s1': "set_core_thread c new s1 = set_core_thread c new s2" by (simp add: s2_def set_core_thread_def upd_sched_def)
    note i2 = s1(2-4) [folded s2_def]
    note sz = sched_frame_sizes [OF i2(2)]
    show ?thesis
    proof (cases new)
      case None
      then have "set_core_thread c new s1 = s2" by (simp add: s2_def)
      then show ?thesis using None c un u(1) D(2) s1(1) i2 False by (simp add: reschedule_with_def Let_def new_def)
    next
      case (Some t)
      have e: "t < length (runnable s)" "runnable s ! t" "ti_core_running (info s t) = None"
        using eligible_new [OF inv, of time c t] Some False c by (auto simp: new_def)
      have "ti_core_running (info s2 t) = None"
      proof (rule ccontr)
        assume "ti_core_running (info s2 t) \<noteq> None"
        then obtain k where k: "ti_core_running (info s2 t) = Some k" by blast
        have "t < num_infos s2" using e(1) D(2) sz by simp
        then have "k < num_cores s" "ctr s2 k = Some t" using sched_invD(5) [OF i2(1) _ k] sz by auto
        then have "ctr s k = Some t" using i2(3) by (auto split: if_splits)
        then show False using D(4) \<open>k < num_cores s\<close> e(3) by auto
      qed
      moreover have "ctr s2 c = None" using i2(3) c by simp
      moreover have "free_cores s2 \<le> Suc (free_cores s)"
      proof -
        have "{k. k < num_cores s2 \<and> ctr s2 k = None} = insert c {k. k < num_cores s \<and> ctr s k = None}"
          using i2(3) sz c by auto
        then show ?thesis by (simp add: free_cores_def card_insert_if)
      qed
      ultimately obtain s' where s': "schedule_new r time c t (set_core_thread c (Some t) s2) = Inr s'" "sched_inv (P - {u}) (X - {u}) s'"
        "sched_frame s2 s'" "keeps_threads s2 s'" "ctr s' c = Some t"
        using schedule_new_ok [OF i2(1) _ _ r, of c t time] e c sz by auto
      have "\<forall>c'<num_cores s. \<forall>t. c' \<noteq> c \<longrightarrow> ctr s c' = Some t \<longrightarrow> ctr s' c' = Some t"
        using s'(4) i2(3) sz by (simp add: keeps_threads_def)
      moreover have "reschedule_with r time c p s = Inr (set_quantum_left c (sp_quantum (ts_sched s')) s')"
        using Some c un u(1) D(2) s1(1) s1' s'(1) False by (simp add: reschedule_with_def Let_def new_def)
      ultimately show ?thesis using s'(2,5) sched_frame_trans [OF i2(2) s'(3)] Some by (simp add: new_def)
    qed
  qed
qed

text \<open>The three cases of \<^verbatim>\<open>reschedule\<close> with the fuel of the definition.\<close>

lemma reschedule_free:
  assumes "sched_inv P X s" "c < num_cores s" "ctr s c = None"
  shows "\<exists>s'. reschedule time c p s = Inr s' \<and> sched_inv P X s' \<and> sched_frame s s' \<and> keeps_threads s s' \<and> ctr s' c = pick_thread time c (ts_sched s)"
proof -
  have "fills (Suc (num_cores s)) (reschedule_fuel (Suc (num_cores s)))" by (rule reschedule_fuel_fills)
  then show ?thesis using reschedule_step_free [OF _ assms] free_cores_le [of s] by (simp add: reschedule_def)
qed

lemma reschedule_taken:
  assumes "sched_inv P X s" "c < num_cores s" "ctr s c = Some u"
    and "tr_status (thr s u) \<noteq> INITIALIZING" "u \<in> P \<union> X \<Longrightarrow> u < length (runnable s) \<Longrightarrow> \<not> runnable s ! u"
  shows "\<exists>s'. reschedule time c p s = Inr s' \<and> sched_inv (P - {u}) (X - {u}) s' \<and> sched_frame s s'
    \<and> (\<forall>c'<num_cores s. \<forall>t. c' \<noteq> c \<longrightarrow> ctr s c' = Some t \<longrightarrow> ctr s' c' = Some t) \<and> ctr s' c = pick_thread time c (ts_sched s)"
proof -
  have "fills (free_cores s) (reschedule_fuel (Suc (num_cores s)))"
    by (rule fills_mono [OF reschedule_fuel_fills]) (use free_cores_le [of s] in simp)
  then show ?thesis using reschedule_busy [OF _ assms] by (simp add: reschedule_def)
qed

lemma reschedule_starting:
  assumes "sched_inv P X s" "c < num_cores s" "ctr s c = Some u" "tr_status (thr s u) = INITIALIZING"
  shows "reschedule time c p s = Inr s"
  using assms sched_invD(4) [OF assms(1,2,3)] by (simp add: reschedule_def reschedule_with_def Let_def)

text \<open>Outside of a move rescheduling any core is possible.\<close>

lemma reschedule_ok:
  assumes "sched_inv {} X s" "c < num_cores s" and X: "\<And>u. u \<in> X \<Longrightarrow> u < length (runnable s) \<Longrightarrow> \<not> runnable s ! u"
  shows "\<exists>s'. reschedule time c p s = Inr s' \<and> sched_inv {} X s' \<and> sched_frame s s'"
proof -
  have mono: "sched_inv {} (X - {u}) s' \<Longrightarrow> sched_inv {} X s'" for u s'
    unfolding sched_inv_def ready_ok_def by blast
  consider "ctr s c = None" | u where "ctr s c = Some u" "tr_status (thr s u) = INITIALIZING"
    | u where "ctr s c = Some u" "tr_status (thr s u) \<noteq> INITIALIZING" by (cases "ctr s c") auto
  then show ?thesis
  proof cases
    case 1
    then show ?thesis using reschedule_free [OF assms(1,2)] by blast
  next
    case 2
    then show ?thesis using reschedule_starting [OF assms(1,2) 2] assms by simp
  next
    case 3
    then show ?thesis using reschedule_taken [OF assms(1,2) 3(1,2)] X mono by fastforce
  qed
qed

end
