(* ===== verification/Thread_Safety.thy ===== *)
theory Thread_Safety
  imports Thread_Scheduling
begin

text \<open>
  Every operation of the thread system keeps the agreement of \<^verbatim>\<open>Thread_Scheduling\<close>: creation, start, stall, resumption and end of threads,
  changes of affinity, the periodic rescheduling, futexes and the barrier. The properties of reachable states follow.
\<close>

section \<open>Updates and the invariant\<close>

text \<open>A change of one thread, and of whether it is ready.\<close>

definition set_ready :: "bool list \<Rightarrow> thread_sys \<Rightarrow> thread_sys" where
  "set_ready R = upd_sched (\<lambda>sp. sp\<lparr>sp_threads_runnable := R\<rparr>)"

lemma set_ready_simps [simp]:
  "ts_threads (set_ready R s) = ts_threads s" "ts_cores (set_ready R s) = ts_cores s" "runnable (set_ready R s) = R"
  "sp_core_thread_running (ts_sched (set_ready R s)) = sp_core_thread_running (ts_sched s)" "sp_thread_info (ts_sched (set_ready R s)) = sp_thread_info (ts_sched s)"
  "sp_quantum_left (ts_sched (set_ready R s)) = sp_quantum_left (ts_sched s)" "sp_policy (ts_sched (set_ready R s)) = sp_policy (ts_sched s)"
  "ts_futexes (set_ready R s) = ts_futexes s" "ts_sleeping (set_ready R s) = ts_sleeping s" "ts_barrier (set_ready R s) = ts_barrier s"
  "ts_spawn_list (set_ready R s) = ts_spawn_list s" "ts_pseudo (set_ready R s) = ts_pseudo s" "sp_quantum (ts_sched (set_ready R s)) = sp_quantum (ts_sched s)"
  by (simp_all add: set_ready_def)

lemma set_ready_id [simp]: "set_ready (runnable s) s = s"
  by (simp add: set_ready_def upd_sched_def)

lemma on_core_ready:
  assumes "sched_inv P X s" "k < num_cores s" "ctr s k = Some v" "v \<notin> X"
  shows "tr_status (thr s v) = INITIALIZING \<or> v < length (runnable s) \<and> runnable s ! v"
  using sched_inv_parts(3) [OF assms(1)] assms(2-4) unfolding ready_ok_def by blast

lemma sched_inv_update:
  assumes inv: "sched_inv P X s" and t: "t < num_threads s" and core: "tr_core (f (thr s t)) = tr_core (thr s t)"
    and R: "length R = length (runnable s)" "\<And>u. u < length R \<Longrightarrow> u \<noteq> t \<Longrightarrow> R ! u = runnable s ! u"
    and X: "\<And>u. u \<noteq> t \<Longrightarrow> u \<in> X' \<longleftrightarrow> u \<in> X"
    and A: "t < length R \<Longrightarrow> R ! t \<Longrightarrow> tr_status (f (thr s t)) = RUNNING \<or> awaits_core (f (thr s t)) \<and> tr_core (thr s t) = None
        \<or> t \<in> X' \<and> ti_core_running (info s t) \<noteq> None"
    and B: "t \<notin> X' \<Longrightarrow> ti_core_running (info s t) \<noteq> None \<Longrightarrow> tr_status (f (thr s t)) = INITIALIZING \<or> t < length R \<and> R ! t"
  shows "sched_inv P X' (set_ready R (upd_thread t f s))"
proof -
  note D = sched_invD [OF inv]
  define s2 where "s2 = upd_thread t f s"
  have th: "num_threads s2 = num_threads s" "ts_cores s2 = ts_cores s" "ts_sched s2 = ts_sched s"
    "\<And>v. v < num_threads s \<Longrightarrow> tr_core (thr s2 v) = tr_core (thr s v)" "thr s2 t = f (thr s t)"
    "\<And>v. v \<noteq> t \<Longrightarrow> thr s2 v = thr s v"
    using t core by (auto simp: s2_def nth_list_update)
  have "placed P (set_ready R s2)" unfolding placed_def set_ready_simps th(1-3)
  proof (intro conjI allI impI ballI)
    fix k v assume k: "k < num_cores s" "ctr s k = Some v"
    show "v < num_threads s" "ti_core_running (info s v) = Some k" using D(4) [OF k] by auto
  next
    fix k v assume k: "v < num_infos s" "ti_core_running (info s v) = Some k"
    show "k < num_cores s" "ctr s k = Some v" using D(5) [OF k] by auto
  next
    fix v assume v: "v < num_threads s"
    show "tr_core (thr s2 v) = (if v \<in> P then None else ti_core_running (info s v))" using D(6) [OF v] by (simp only: th(4) [OF v])
  next
    fix k v assume k: "k < num_cores s"
    show "(sc_thread (ts_cores s ! k) = Some v) = (v < num_threads s \<and> tr_core (thr s2 v) = Some k)"
      using core_thread_iff [OF inv k, of v] th(4) [of v] by auto
  next
    fix k assume "k < num_cores s" "sc_thread (ts_cores s ! k) = None"
    then show "sc_state (ts_cores s ! k) = IDLE" using core_idle [OF inv, of k] by simp
  next
    fix v assume "v \<in> P"
    then show "v < num_threads s" "ti_core_running (info s v) \<noteq> None" using D(9) [of v] by auto
  qed
  moreover have "shape (set_ready R s2)" using sched_inv_parts(1) [OF inv] R(1) unfolding shape_def set_ready_simps th(1-3) by simp
  moreover have "ready_ok X' (set_ready R s2)" unfolding ready_ok_def set_ready_simps th(1-3)
  proof (intro conjI allI impI)
    fix v assume v: "v < length R" "R ! v"
    have old: "v \<noteq> t \<Longrightarrow> runnable s ! v" using R v by simp
    show vn: "v < num_threads s" using D(7) v old t R by (cases "v = t") auto
    show "tr_status (thr s2 v) = RUNNING \<or> awaits_core (thr s2 v) \<and> tr_core (thr s2 v) = None \<or> v \<in> X' \<and> ti_core_running (info s v) \<noteq> None"
    proof (cases "v = t")
      case True
      then show ?thesis using A v th(4) [OF t] by (auto simp: th(5))
    next
      case False
      then show ?thesis using D(8) [of v] v old R(1) X th(6) by auto
    qed
  next
    fix k v assume k: "k < num_cores s" "ctr s k = Some v" "v \<notin> X'"
    have on: "v < num_threads s" "ti_core_running (info s v) = Some k" using D(4) [OF k(1,2)] by auto
    show "tr_status (thr s2 v) = INITIALIZING \<or> v < length R \<and> R ! v"
    proof (cases "v = t")
      case True
      then show ?thesis using B k(3) on by (auto simp: th(5))
    next
      case False
      then show ?thesis using on_core_ready [OF inv k(1,2)] k(3) X [of v] R th(6) by auto
    qed
  qed
  ultimately show ?thesis by (simp add: sched_inv_def s2_def)
qed

lemma sched_inv_thread:
  assumes "sched_inv P X s" "t < num_threads s" "tr_core (f (thr s t)) = tr_core (thr s t)"
    and "t < length (runnable s) \<Longrightarrow> runnable s ! t \<Longrightarrow> tr_status (f (thr s t)) = RUNNING \<or> awaits_core (f (thr s t)) \<and> tr_core (thr s t) = None
        \<or> t \<in> X \<and> ti_core_running (info s t) \<noteq> None"
    and "t \<notin> X \<Longrightarrow> ti_core_running (info s t) \<noteq> None \<Longrightarrow> tr_status (f (thr s t)) = INITIALIZING \<or> t < length (runnable s) \<and> runnable s ! t"
  shows "sched_inv P X (upd_thread t f s)"
  using sched_inv_update [of P X s t f "runnable s" X] assms set_ready_id [of "upd_thread t f s"] by simp

text \<open>Everything else that operations change: what no part of the invariant mentions.\<close>

definition same_places :: "thread_sys \<Rightarrow> thread_sys \<Rightarrow> bool" where
  "same_places s s' \<longleftrightarrow> num_cores s' = num_cores s \<and> num_threads s' = num_threads s \<and> num_infos s' = num_infos s \<and> runnable s' = runnable s
     \<and> sp_core_thread_running (ts_sched s') = sp_core_thread_running (ts_sched s)
     \<and> (\<forall>c<num_cores s. sc_thread (ts_cores s' ! c) = sc_thread (ts_cores s ! c)
          \<and> (sc_thread (ts_cores s ! c) = None \<longrightarrow> sc_state (ts_cores s' ! c) = sc_state (ts_cores s ! c)))
     \<and> (\<forall>t<num_infos s. ti_core_running (info s' t) = ti_core_running (info s t))
     \<and> (\<forall>t<num_threads s. tr_core (thr s' t) = tr_core (thr s t) \<and> tr_status (thr s' t) = tr_status (thr s t)
          \<and> tr_stalled_reason (thr s' t) = tr_stalled_reason (thr s t))"

lemma sched_inv_same:
  assumes inv: "sched_inv P X s" and same: "same_places s s'" and sh: "shape s'"
  shows "sched_inv P X s'"
proof -
  note D = sched_invD [OF inv]
  note S = same [unfolded same_places_def]
  have sz: "num_cores s' = num_cores s" "num_threads s' = num_threads s" "num_infos s' = num_infos s" "runnable s' = runnable s"
    "sp_core_thread_running (ts_sched s') = sp_core_thread_running (ts_sched s)" using S by blast+
  have co: "\<And>c. c < num_cores s \<Longrightarrow> sc_thread (ts_cores s' ! c) = sc_thread (ts_cores s ! c)"
    "\<And>c. c < num_cores s \<Longrightarrow> sc_thread (ts_cores s ! c) = None \<Longrightarrow> sc_state (ts_cores s' ! c) = sc_state (ts_cores s ! c)"
    and inf: "\<And>t. t < num_infos s \<Longrightarrow> ti_core_running (info s' t) = ti_core_running (info s t)"
    and th: "\<And>t. t < num_threads s \<Longrightarrow> tr_core (thr s' t) = tr_core (thr s t)" "\<And>t. t < num_threads s \<Longrightarrow> tr_status (thr s' t) = tr_status (thr s t)"
      "\<And>t. t < num_threads s \<Longrightarrow> awaits_core (thr s' t) = awaits_core (thr s t)"
    using S by (auto simp: awaits_core_def)
  have inf': "\<And>t. t < num_threads s \<Longrightarrow> ti_core_running (info s' t) = ti_core_running (info s t)" using inf D(3) by simp
  have "placed P s'" unfolding placed_def sz
  proof (intro conjI allI impI ballI)
    fix k v assume k: "k < num_cores s" "ctr s k = Some v"
    show "v < num_threads s" "ti_core_running (info s' v) = Some k" using D(4) [OF k] inf' by auto
  next
    fix k v assume k: "v < num_infos s" "ti_core_running (info s' v) = Some k"
    show "k < num_cores s" "ctr s k = Some v" using D(5) [OF k(1)] k inf by auto
  next
    fix v assume v: "v < num_threads s"
    show "tr_core (thr s' v) = (if v \<in> P then None else ti_core_running (info s' v))" using D(6) [OF v] by (simp only: th(1) [OF v] inf' [OF v])
  next
    fix k v assume k: "k < num_cores s"
    show "(sc_thread (ts_cores s' ! k) = Some v) = (v < num_threads s \<and> tr_core (thr s' v) = Some k)"
      using core_thread_iff [OF inv k, of v] co(1) [OF k] th(1) [of v] by auto
  next
    fix k assume "k < num_cores s" "sc_thread (ts_cores s' ! k) = None"
    then show "sc_state (ts_cores s' ! k) = IDLE" using core_idle [OF inv, of k] co [of k] by simp
  next
    fix v assume "v \<in> P"
    then show "v < num_threads s" "ti_core_running (info s' v) \<noteq> None" using D(9) [of v] inf' [of v] by auto
  qed
  moreover have "ready_ok X s'" unfolding ready_ok_def sz
  proof (intro conjI allI impI)
    fix v assume v: "v < length (runnable s)" "runnable s ! v"
    show vn: "v < num_threads s" using D(7) v by blast
    show "tr_status (thr s' v) = RUNNING \<or> awaits_core (thr s' v) \<and> tr_core (thr s' v) = None \<or> v \<in> X \<and> ti_core_running (info s' v) \<noteq> None"
      using D(8) [OF v] vn by (simp only: th inf')
  next
    fix k v assume k: "k < num_cores s" "ctr s k = Some v" "v \<notin> X"
    then have "v < num_threads s" using D(4) by blast
    then show "tr_status (thr s' v) = INITIALIZING \<or> v < length (runnable s) \<and> runnable s ! v"
      using k sched_inv_parts(3) [OF inv] th(2) unfolding ready_ok_def by simp
  qed
  ultimately show ?thesis using sh by (simp add: sched_inv_def)
qed

lemma sched_inv_same_sched:
  assumes "sched_inv P X s" "same_places s s'" "ts_sched s' = ts_sched s"
  shows "sched_inv P X s'"
proof -
  have "num_cores s' = num_cores s" "num_threads s' = num_threads s" using assms(2) by (simp_all add: same_places_def)
  then have "shape s'" using sched_inv_parts(1) [OF assms(1)] assms(3) by (simp add: shape_def)
  then show ?thesis by (rule sched_inv_same [OF assms(1,2)])
qed

lemma sched_inv_weaken_X:
  assumes "sched_inv P X s" "\<And>t. t \<in> X \<Longrightarrow> t < num_threads s \<Longrightarrow> ti_core_running (info s t) = None"
  shows "sched_inv P {} s"
proof -
  note D = sched_invD [OF assms(1)]
  have "ready_ok {} s" unfolding ready_ok_def
  proof (intro conjI allI impI)
    fix v assume v: "v < length (runnable s)" "runnable s ! v"
    show vn: "v < num_threads s" using D(7) v by blast
    show "tr_status (thr s v) = RUNNING \<or> awaits_core (thr s v) \<and> tr_core (thr s v) = None \<or> v \<in> {} \<and> ti_core_running (info s v) \<noteq> None"
      using D(8) [OF v] assms(2) vn by auto
  next
    fix k v assume k: "k < num_cores s" "ctr s k = Some v"
    then have "v < num_threads s" "ti_core_running (info s v) = Some k" using D(4) by blast+
    then show "tr_status (thr s v) = INITIALIZING \<or> v < length (runnable s) \<and> runnable s ! v"
      using k sched_inv_parts(3) [OF assms(1)] assms(2) [of v] unfolding ready_ok_def by auto
  qed
  then show ?thesis using assms(1) by (simp add: sched_inv_def)
qed

section \<open>Resumption and stalls\<close>

lemma set_runnable_Inr: "set_runnable t v s = Inr s' \<longleftrightarrow> t < length (runnable s) \<and> s' = set_ready ((runnable s)[t := v]) s"
  by (auto simp: set_runnable_def set_ready_def upd_sched_def)

text \<open>What happens to the other threads while one is resumed, stalled or moved: at most, they get a core.\<close>

definition mild_frame :: "thread_sys \<Rightarrow> thread_sys \<Rightarrow> bool" where
  "mild_frame s s' \<longleftrightarrow> num_cores s' = num_cores s \<and> num_threads s' = num_threads s \<and> num_infos s' = num_infos s \<and> runnable s' = runnable s
     \<and> (\<forall>t<num_threads s. tr_clear_tid (thr s' t) = tr_clear_tid (thr s t) \<and> tr_stalled_reason (thr s' t) = tr_stalled_reason (thr s t)
          \<and> (tr_status (thr s' t) = tr_status (thr s t) \<or> awaits_core (thr s t) \<and> tr_status (thr s' t) = RUNNING))"

lemma sched_frame_mild: "sched_frame s s' \<Longrightarrow> mild_frame s s'"
  by (simp add: sched_frame_def mild_frame_def)

lemma mild_frame_status:
  "mild_frame s s' \<Longrightarrow> t < num_threads s \<Longrightarrow> \<not> awaits_core (thr s t) \<Longrightarrow> tr_status (thr s' t) = tr_status (thr s t)"
  by (auto simp: mild_frame_def)

lemma pinned_resume_ok:
  assumes "sched_inv P X s"
  shows "\<exists>s'. pinned_threadResume reschedule t time s = Inr s' \<and> sched_inv P X s' \<and> sched_frame s s' \<and> keeps_threads s s'"
proof (cases "findFreeCoreForThread t s")
  case None
  then show ?thesis using assms by (simp add: pinned_threadResume_def keeps_threads_def)
next
  case (Some c)
  have "\<exists>s'. reschedule time c False s = Inr s' \<and> sched_inv P X s' \<and> sched_frame s s' \<and> keeps_threads s s'"
    using reschedule_free [OF assms, of c time False] findFreeCore_Some [OF Some] by auto
  then show ?thesis using Some by (simp add: pinned_threadResume_def)
qed

lemma resume_ok:
  assumes inv: "sched_inv P X s" and t: "t < num_threads s" "t < length (runnable s)"
  shows "\<exists>s'. resumeThread_sys t time msg s = Inr s' \<and> sched_inv P X s' \<and> keeps_threads s s' \<and> tr_status (thr s' t) = RUNNING
    \<and> sched_frame (set_ready ((runnable s)[t := True]) (upd_thread t (\<lambda>x. x\<lparr>tr_wakeup_time := time, tr_wakeup_msg := msg, tr_status := RUNNING\<rparr>) s)) s'"
proof -
  define f :: "sim_thread \<Rightarrow> sim_thread" where "f = (\<lambda>x. x\<lparr>tr_wakeup_time := time, tr_wakeup_msg := msg, tr_status := RUNNING\<rparr>)"
  define s1 where "s1 = set_ready ((runnable s)[t := True]) (upd_thread t f s)"
  have i1: "sched_inv P X s1" unfolding s1_def
    by (rule sched_inv_update [OF inv t(1), where X' = X]) (use t in \<open>auto simp: f_def nth_list_update\<close>)
  have eq: "upd_thread t (tr_status_update (\<lambda>_. RUNNING)) (upd_thread t (\<lambda>x. x\<lparr>tr_wakeup_time := time, tr_wakeup_msg := msg\<rparr>) s) = upd_thread t f s"
    using t by (simp add: upd_thread_def f_def)
  have "\<not> is_static (upd_thread t f s)" using sched_inv_dynamic [OF inv] by (simp add: is_static_def)
  moreover have "set_runnable t True (upd_thread t f s) = Inr s1" using t by (simp add: set_runnable_Inr s1_def)
  ultimately have run: "resumeThread_sys t time msg s = pinned_threadResume reschedule t time s1"
    using t by (simp add: resumeThread_sys_def resumeThread_with_def resumeThread_async_with_def eq dynamic_threadResume_def)
  obtain s' where s': "pinned_threadResume reschedule t time s1 = Inr s'" "sched_inv P X s'" "sched_frame s1 s'" "keeps_threads s1 s'"
    using pinned_resume_ok [OF i1] by blast
  have "tr_status (thr s1 t) = RUNNING" using t by (simp add: s1_def f_def)
  then have "tr_status (thr s' t) = RUNNING" using sched_frame_running [OF s'(3)] t by (simp add: s1_def)
  moreover have "keeps_threads s s'" using s'(4) by (simp add: keeps_threads_def s1_def)
  ultimately show ?thesis using run s' by (simp add: s1_def f_def)
qed

text \<open>A thread that is no longer ready leaves its core.\<close>

lemma pinned_stall_ok:
  assumes inv: "sched_inv P {t} s" and P: "P \<subseteq> {t}" and t: "t < num_threads s" "t < length (runnable s) \<Longrightarrow> \<not> runnable s ! t" "tr_status (thr s t) \<noteq> INITIALIZING"
  shows "\<exists>s'. pinned_threadStall t time s = Inr s' \<and> sched_inv {} {} s' \<and> sched_frame s s'"
proof -
  note D = sched_invD [OF inv]
  have ti: "t < num_infos s" using t D(3) by simp
  show ?thesis
  proof (cases "ti_core_running (info s t)")
    case None
    then have "P = {}" using D(9) P by (cases "t \<in> P") auto
    then show ?thesis using None ti sched_inv_weaken_X [OF inv] by (auto simp: pinned_threadStall_def)
  next
    case (Some c)
    then have c: "c < num_cores s" "ctr s c = Some t" using D(5) [OF ti] by auto
    have e: "P - {t} = {}" "{t} - {t} = {}" using P by blast+
    have "\<exists>s'. reschedule time c False s = Inr s' \<and> sched_inv {} {} s' \<and> sched_frame s s'"
      using reschedule_taken [OF inv c t(3), of time False, unfolded e] t(2) by blast
    then show ?thesis using Some ti by (simp add: pinned_threadStall_def)
  qed
qed

section \<open>Affinities\<close>

lemma length_affinity [simp]:
  "length (ti_core_affinity (clearAffinity i)) = length (ti_core_affinity i)" "length (ti_core_affinity (addAffinity c i)) = length (ti_core_affinity i)"
  "length (ti_core_affinity (setAffinitySingle c i)) = length (ti_core_affinity i)"
  "ti_core_running (clearAffinity i) = ti_core_running i" "ti_core_running (addAffinity c i) = ti_core_running i"
  "ti_core_running (setAffinitySingle c i) = ti_core_running i"
  by (simp_all add: clearAffinity_def addAffinity_def setAffinitySingle_def)

lemma setAffinityMask_keeps:
  assumes "setAffinityMask n m i = Inr i'"
  shows "length (ti_core_affinity i') = length (ti_core_affinity i)" "ti_core_running i' = ti_core_running i"
proof -
  let ?P = "\<lambda>j. length (ti_core_affinity j) = length (ti_core_affinity i) \<and> ti_core_running j = ti_core_running i"
  have "?P i'"
  proof (cases m)
    case None
    have "?P (fold addAffinity xs j)" if "?P j" for xs j using that by (induction xs arbitrary: j) simp_all
    then show ?thesis using assms None by (auto simp: setAffinityMask_def)
  next
    case (Some bits)
    let ?f = "\<lambda>cpu i. if bits ! cpu then bindR (logAssertR (cpu < n) ''Invalid core found in sched_setaffinity() mask'') (\<lambda>_. Inr (addAffinity cpu i)) else Inr i"
    have "foldR ?f [0..<length bits] (clearAffinity i) = Inr i'" using assms Some by (simp add: setAffinityMask_def)
    then show ?thesis by (rule foldR_inv [where P = ?P, rotated 2]) (auto split: if_splits)
  qed
  then show "length (ti_core_affinity i') = length (ti_core_affinity i)" "ti_core_running i' = ti_core_running i" by auto
qed

lemma upd_info_ok:
  assumes inv: "sched_inv P X s" and t: "t < num_infos s"
    and i: "length (ti_core_affinity (f (info s t))) = length (ti_core_affinity (info s t))" "ti_core_running (f (info s t)) = ti_core_running (info s t)"
  shows "sched_inv P X (upd_info t f s)" "mild_frame s (upd_info t f s)" "keeps_threads s (upd_info t f s)"
proof -
  have "same_places s (upd_info t f s)" using t i by (auto simp: same_places_def upd_info_def nth_list_update)
  moreover have "shape (upd_info t f s)" using sched_inv_parts(1) [OF inv] t i by (auto simp: shape_def upd_info_def nth_list_update)
  ultimately show "sched_inv P X (upd_info t f s)" by (rule sched_inv_same [OF inv])
  show "mild_frame s (upd_info t f s)" "keeps_threads s (upd_info t f s)" using t by (simp_all add: mild_frame_def keeps_threads_def upd_info_def)
qed

lemma set_policy_ok:
  assumes inv: "sched_inv P X s" and p: "\<And>m q. p \<noteq> SchedStatic m \<and> p \<noteq> SchedSequential q"
  shows "sched_inv P X (set_policy p s)" "mild_frame s (set_policy p s)" "keeps_threads s (set_policy p s)"
proof -
  have "same_places s (set_policy p s)" by (simp add: same_places_def set_policy_def)
  moreover have "shape (set_policy p s)" using sched_inv_parts(1) [OF inv] p by (simp add: shape_def set_policy_def)
  ultimately show "sched_inv P X (set_policy p s)" by (rule sched_inv_same [OF inv])
  show "mild_frame s (set_policy p s)" "keeps_threads s (set_policy p s)" by (simp_all add: mild_frame_def keeps_threads_def set_policy_def)
qed

lemma mild_frame_refl [simp]: "mild_frame s s"
  by (simp add: mild_frame_def)

lemma mild_frame_sizes:
  "mild_frame s s' \<Longrightarrow> num_cores s' = num_cores s" "mild_frame s s' \<Longrightarrow> num_threads s' = num_threads s"
  "mild_frame s s' \<Longrightarrow> num_infos s' = num_infos s" "mild_frame s s' \<Longrightarrow> runnable s' = runnable s"
  by (simp_all add: mild_frame_def)

lemma mild_frame_trans: "mild_frame s s' \<Longrightarrow> mild_frame s' s'' \<Longrightarrow> mild_frame s s''"
  unfolding mild_frame_def awaits_core_def by (smt (verit) thread_status.distinct)

text \<open>An operation keeps the invariant and leaves the other threads alone.\<close>

definition keeps_sched :: "nat set \<Rightarrow> nat set \<Rightarrow> thread_sys \<Rightarrow> thread_sys \<Rightarrow> bool" where
  "keeps_sched P X s s' \<longleftrightarrow> sched_inv P X s' \<and> mild_frame s s'"

lemma keeps_schedD: "keeps_sched P X s s' \<Longrightarrow> sched_inv P X s'" "keeps_sched P X s s' \<Longrightarrow> mild_frame s s'"
  by (simp_all add: keeps_sched_def)

lemma keeps_sched_trans: "keeps_sched P X s s' \<Longrightarrow> keeps_sched P' X' s' s'' \<Longrightarrow> keeps_sched P' X' s s''"
  using mild_frame_trans by (auto simp: keeps_sched_def)

lemma keeps_sched_quantum: "sched_inv P X s \<Longrightarrow> keeps_sched P X s (set_quantum_left c q s)"
  unfolding keeps_sched_def sched_inv_quantum by (simp add: mild_frame_def set_quantum_left_def)

lemma keeps_sched_free:
  assumes "sched_inv P X s" "c < num_cores s" "ctr s c = None" "reschedule time c p s = Inr s'"
  shows "keeps_sched P X s s'"
  using reschedule_free [OF assms(1-3), of time p] assms(4) sched_frame_mild by (auto simp: keeps_sched_def)

lemma keeps_sched_any:
  assumes "sched_inv {} {} s" "c < num_cores s" "reschedule time c p s = Inr s'"
  shows "keeps_sched {} {} s s'"
  using reschedule_ok [OF assms(1,2), of time p] assms(3) sched_frame_mild by (auto simp: keeps_sched_def)

lemma threadYield_ok:
  assumes inv: "sched_inv {} {} s" and run: "threadYield t s = Inr s'"
  shows "keeps_sched {} {} s s'"
proof -
  have t: "t < num_infos s" using run by (simp add: threadYield_def)
  show ?thesis
  proof (cases "ti_core_running (info s t)")
    case None
    then show ?thesis using run t inv by (simp add: threadYield_def keeps_sched_def)
  next
    case (Some c)
    define s0 where "s0 = set_quantum_left c 0 s"
    have c: "c < num_cores s" using sched_invD(5) [OF inv t Some] by blast
    have k0: "keeps_sched {} {} s s0" unfolding s0_def by (rule keeps_sched_quantum [OF inv])
    obtain s1 where s1: "reschedule (sc_elapsed_time (ts_cores s ! c)) c False s0 = Inr s1"
      "(if hasAffinity c (info s1 t) then Inr s1
        else case findFreeCoreForThread t s1 of Some free \<Rightarrow> reschedule (sc_elapsed_time (ts_cores s ! c)) free False s1 | None \<Rightarrow> Inr s1) = Inr s'"
      using run t Some by (auto simp: threadYield_def Let_def s0_def)
    have k1: "keeps_sched {} {} s s1"
      by (rule keeps_sched_trans [OF k0 keeps_sched_any [OF keeps_schedD(1) [OF k0] _ s1(1)]]) (use c in \<open>simp add: s0_def set_quantum_left_def\<close>)
    show ?thesis
    proof (cases "hasAffinity c (info s1 t) \<or> findFreeCoreForThread t s1 = None")
      case True
      then show ?thesis using s1(2) k1 by (auto split: if_splits)
    next
      case False
      then obtain f where f: "findFreeCoreForThread t s1 = Some f" "\<not> hasAffinity c (info s1 t)" by auto
      then have "reschedule (sc_elapsed_time (ts_cores s ! c)) f False s1 = Inr s'" using s1(2) by simp
      then show ?thesis using keeps_sched_trans [OF k1 keeps_sched_free [OF keeps_schedD(1) [OF k1]]] findFreeCore_Some [OF f(1)] by blast
    qed
  qed
qed

lemma grow_info_ok:
  assumes inv: "sched_inv P X s"
  shows "sched_inv P X (grow_info t n s)" "num_threads (grow_info t n s) = num_threads s" "num_cores (grow_info t n s) = num_cores s"
proof -
  note D = sched_invD [OF inv]
  define s2 where "s2 = grow_info t n s"
  have eq: "ts_threads s2 = ts_threads s" "ts_cores s2 = ts_cores s" "runnable s2 = runnable s" "\<And>k. ctr s2 k = ctr s k" "num_infos s \<le> num_infos s2"
    "length (sp_core_thread_running (ts_sched s2)) = length (sp_core_thread_running (ts_sched s))" "sp_policy (ts_sched s2) = sp_policy (ts_sched s)"
    "length (sp_quantum_left (ts_sched s2)) = length (sp_quantum_left (ts_sched s))"
    by (auto simp: s2_def grow_info_def)
  have old: "\<And>v. v < num_infos s \<Longrightarrow> info s2 v = info s v" by (auto simp: s2_def grow_info_def nth_append)
  have new: "info s2 v = ThreadInfo_create (num_cores s)" if "\<not> v < num_infos s" "v < num_infos s2" for v
    using that by (auto simp: s2_def grow_info_def nth_append)
  have old': "\<And>v. v < num_threads s \<Longrightarrow> info s2 v = info s v" using old D(3) by simp
  have "shape s2" unfolding shape_def eq
  proof (intro conjI allI impI)
    fix v assume "v < num_infos s2"
    then show "length (ti_core_affinity (info s2 v)) = num_cores s"
      using old [of v] new [of v] D(11) [of v] by (cases "v < num_infos s") (auto simp: ThreadInfo_create_def)
  qed (use D(1-3,10) eq(5) sched_inv_parts(1) [OF inv] in \<open>auto simp: shape_def\<close>)
  moreover have "placed P s2" unfolding placed_def eq
  proof (intro conjI allI impI ballI)
    fix k v assume k: "k < num_cores s" "ctr s k = Some v"
    show "v < num_threads s" "ti_core_running (info s2 v) = Some k" using D(4) [OF k] old' by auto
  next
    fix k v assume k: "v < num_infos s2" "ti_core_running (info s2 v) = Some k"
    then have "v < num_infos s" using new [of v] by (cases "v < num_infos s") (auto simp: ThreadInfo_create_def)
    then show "k < num_cores s" "ctr s k = Some v" using D(5) [of v k] k(2) old by auto
  next
    fix v assume v: "v < num_threads s"
    show "tr_core (thr s v) = (if v \<in> P then None else ti_core_running (info s2 v))" using D(6) [OF v] by (simp only: old' [OF v])
  next
    fix k v assume k: "k < num_cores s"
    show "(sc_thread (ts_cores s ! k) = Some v) = (v < num_threads s \<and> tr_core (thr s v) = Some k)" by (rule core_thread_iff [OF inv k])
  next
    fix k assume "k < num_cores s" "sc_thread (ts_cores s ! k) = None"
    then show "sc_state (ts_cores s ! k) = IDLE" using core_idle [OF inv, of k] by simp
  next
    fix v assume "v \<in> P"
    then show "v < num_threads s" "ti_core_running (info s2 v) \<noteq> None" using D(9) [of v] old' [of v] by auto
  qed
  moreover have "ready_ok X s2" unfolding ready_ok_def eq
  proof (intro conjI allI impI)
    fix v assume v: "v < length (runnable s)" "runnable s ! v"
    show vn: "v < num_threads s" using D(7) v by blast
    show "tr_status (thr s v) = RUNNING \<or> awaits_core (thr s v) \<and> tr_core (thr s v) = None \<or> v \<in> X \<and> ti_core_running (info s2 v) \<noteq> None"
      using D(8) [OF v] by (simp only: old' [OF vn])
  next
    fix k v assume k: "k < num_cores s" "ctr s k = Some v" "v \<notin> X"
    show "tr_status (thr s v) = INITIALIZING \<or> v < length (runnable s) \<and> runnable s ! v" by (rule on_core_ready [OF inv k])
  qed
  ultimately show "sched_inv P X (grow_info t n s)" by (simp add: sched_inv_def s2_def)
  show "num_threads (grow_info t n s) = num_threads s" "num_cores (grow_info t n s) = num_cores s" using eq by (simp_all add: s2_def)
qed

lemma threadSetAffinity_other:
  assumes inv: "sched_inv P X s" and t: "t < num_threads s" and c: "calling \<noteq> Some t" and run: "threadSetAffinity calling t m s = Inr s'"
  shows "keeps_sched P X s s'"
proof -
  have ti: "t < num_infos s" using sched_invD(3) [OF inv] t by simp
  then have g: "grow_info t (t + 16) s = s" by (simp add: grow_info_def)
  obtain i where i: "setAffinityMask (num_cores s) m ((info s t)\<lparr>ti_explicit_affinity := True\<rparr>) = Inr i"
    using run by (auto simp: threadSetAffinity_def Let_def g)
  define s2 where "s2 = upd_info t (\<lambda>_. i) s"
  have k2: "keeps_sched P X s s2" unfolding s2_def keeps_sched_def
    using upd_info_ok(1,2) [OF inv ti, of "\<lambda>_. i"] setAffinityMask_keeps [OF i] by simp
  note i2 = keeps_schedD(1) [OF k2]
  have t2: "t < num_threads s2" using t by (simp add: s2_def upd_info_def)
  note run' = run [unfolded threadSetAffinity_def Let_def g i bindR_Inr s2_def [symmetric]]
  show ?thesis
  proof (cases "ti_core_running i")
    case (Some core)
    then have "s' = s2 \<or> s' = set_quantum_left core 0 s2" using run' t2 c by (auto split: if_splits)
    then show ?thesis using k2 keeps_sched_trans [OF k2 keeps_sched_quantum [OF i2]] by blast
  next
    case None
    then consider "s' = s2" | f time where "findFreeCoreForThread t s2 = Some f" "reschedule time f False s2 = Inr s'"
      using run' t2 c by (auto split: if_splits option.splits)
    then show ?thesis
    proof cases
      case 2
      then show ?thesis using keeps_sched_trans [OF k2 keeps_sched_free [OF i2 _ _ 2(2)]] findFreeCore_Some [OF 2(1)] by simp
    qed (use k2 in simp)
  qed
qed

section \<open>The policies\<close>

lemma moveToMask_ok:
  assumes inv: "sched_inv P X s" and t: "t < num_threads s" and run: "moveToMask big t b s = Inr s'"
  shows "keeps_sched P X s s'"
proof -
  obtain s1 where s1: "threadSetAffinity None t (Some (if big then sb_mask_big b else sb_mask_small b)) s = Inr s1"
    "s' = set_policy (SchedBigSmall (b\<lparr>sb_thread_isbig := (sb_thread_isbig b)(t := big)\<rparr>)) s1"
    using run by (auto simp: moveToMask_def)
  have k1: "keeps_sched P X s s1" by (rule threadSetAffinity_other [OF inv t _ s1(1)]) simp
  have "keeps_sched P X s1 s'" unfolding s1(2) keeps_sched_def using set_policy_ok(1,2) [OF keeps_schedD(1) [OF k1]] by simp
  then show ?thesis by (rule keeps_sched_trans [OF k1])
qed

lemma random_index:
  fixes r :: UInt64
  assumes "xs \<noteq> []"
  shows "unat (r mod of_nat (length xs)) < length xs"
proof (cases "(of_nat (length xs) :: UInt64) = 0")
  case True
  then have "2 ^ 64 dvd length xs" by (simp add: word_of_nat_eq_0_iff)
  then have "2 ^ 64 \<le> length xs" using assms by (simp add: dvd_imp_le)
  moreover have "unat (r mod of_nat (length xs)) < 2 ^ 64" using unsigned_less [of "r mod of_nat (length xs)"] by simp
  ultimately show ?thesis by simp
next
  case False
  then have "r mod of_nat (length xs) < (of_nat (length xs) :: UInt64)" by (simp add: word_mod_less_divisor word_greater_zero_iff)
  then have "unat (r mod of_nat (length xs)) < unat (of_nat (length xs) :: UInt64)" by (simp add: word_less_nat_alt)
  also have "\<dots> \<le> length xs" by (simp add: unat_of_nat take_bit_eq_mod)
  finally show ?thesis .
qed

lemma pickBigThread_ok:
  assumes inv: "sched_inv P X s" and run: "pickBigThread s = Inr s'"
  shows "keeps_sched P X s s'"
proof -
  define b where "b = of_big_small s"
  let ?f = "\<lambda>t acc. if sb_thread_isbig b t then Inr acc else bindR (atR (runnable s) t) (\<lambda>r. Inr (if r then acc @ [t] else acc))"
  obtain el where el: "foldR ?f [0..<num_threads s] [] = Inr el"
    "(if el = [] then Inr s else case rng_next (sb_rng b) of (rng, r) \<Rightarrow>
        moveToBig (el ! unat (r mod of_nat (length el))) (set_policy (SchedBigSmall (b\<lparr>sb_rng := rng\<rparr>)) s)) = Inr s'"
    using run unfolding pickBigThread_def Let_def b_def [symmetric] bindR_eq_Inr by blast
  have mem: "set el \<subseteq> {0..<num_threads s}"
    by (rule foldR_inv_set [where P = "\<lambda>acc. set acc \<subseteq> {0..<num_threads s}", OF _ _ el(1)]) (auto split: if_splits)
  show ?thesis
  proof (cases "el = []")
    case True
    then show ?thesis using el(2) inv by (simp add: keeps_sched_def)
  next
    case False
    obtain rng r where rr: "rng_next (sb_rng b) = (rng, r)" by fastforce
    define v where "v = el ! unat (r mod of_nat (length el))"
    define s1 where "s1 = set_policy (SchedBigSmall (b\<lparr>sb_rng := rng\<rparr>)) s"
    have k1: "keeps_sched P X s s1" unfolding s1_def keeps_sched_def using set_policy_ok(1,2) [OF inv] by simp
    have "v \<in> set el" unfolding v_def by (rule nth_mem [OF random_index [OF False]])
    then have v: "v < num_threads s1" using mem by (auto simp: s1_def set_policy_def)
    have "moveToMask True v (of_big_small s1) s1 = Inr s'" using el(2) False rr by (simp add: v_def s1_def moveToBig_def)
    then show ?thesis using keeps_sched_trans [OF k1 moveToMask_ok [OF keeps_schedD(1) [OF k1] v]] by blast
  qed
qed

lemma moveToSmall_ok: "sched_inv P X s \<Longrightarrow> t < num_threads s \<Longrightarrow> moveToSmall t s = Inr s' \<Longrightarrow> keeps_sched P X s s'"
  unfolding moveToSmall_def by (rule moveToMask_ok)

text \<open>A thread that has stalled or ended.\<close>

lemma stall_after:
  assumes k: "keeps_sched P {t} s s1" and P: "P \<subseteq> {t}" and t: "t < num_threads s" "t < length (runnable s) \<Longrightarrow> \<not> runnable s ! t"
    "tr_status (thr s t) \<noteq> INITIALIZING" "\<not> awaits_core (thr s t)" and run: "pinned_threadStall t time s1 = Inr s'"
  shows "keeps_sched {} {} s s'"
proof -
  note sz = mild_frame_sizes [OF keeps_schedD(2) [OF k]]
  have "tr_status (thr s1 t) = tr_status (thr s t)" by (rule mild_frame_status [OF keeps_schedD(2) [OF k] t(1,4)])
  then have "\<exists>s'. pinned_threadStall t time s1 = Inr s' \<and> sched_inv {} {} s' \<and> sched_frame s1 s'"
    using pinned_stall_ok [OF keeps_schedD(1) [OF k] P] t sz by simp
  then have "keeps_sched {} {} s1 s'" using run sched_frame_mild by (auto simp: keeps_sched_def)
  then show ?thesis by (rule keeps_sched_trans [OF k])
qed

lemma policy_threadStall_ok:
  assumes inv: "sched_inv {} {t} s" and t: "t < num_threads s" "t < length (runnable s) \<Longrightarrow> \<not> runnable s ! t"
    "tr_status (thr s t) \<noteq> INITIALIZING" "\<not> awaits_core (thr s t)" and run: "policy_threadStall t time s = Inr s'"
  shows "keeps_sched {} {} s s'"
proof -
  have k0: "keeps_sched {} {t} s s" using inv by (simp add: keeps_sched_def)
  have plain: ?thesis if "pinned_threadStall t time s = Inr s'" by (rule stall_after [OF k0 _ t that]) simp
  show ?thesis
  proof (cases "sp_policy (ts_sched s)")
    case (SchedBigSmall b)
    show ?thesis
    proof (cases "sb_thread_isbig b t")
      case True
      then obtain s1 s2 where s: "pickBigThread s = Inr s1" "moveToSmall t s1 = Inr s2" "pinned_threadStall t time s2 = Inr s'"
        using run SchedBigSmall by (auto simp: policy_threadStall_def bigSmall_threadStall_def)
      have k1: "keeps_sched {} {t} s s1" by (rule pickBigThread_ok [OF inv s(1)])
      have "t < num_threads s1" using mild_frame_sizes(2) [OF keeps_schedD(2) [OF k1]] t by simp
      from keeps_sched_trans [OF k1 moveToSmall_ok [OF keeps_schedD(1) [OF k1] this s(2)]] show ?thesis
        by (rule stall_after [OF _ _ t s(3)]) simp
    next
      case False
      then show ?thesis using run SchedBigSmall plain by (simp add: policy_threadStall_def bigSmall_threadStall_def)
    qed
  qed (use run plain in \<open>simp_all add: policy_threadStall_def bigSmall_threadStall_def\<close>)
qed

lemma policy_threadExit_ok:
  assumes inv: "sched_inv P {t} s" and P: "P \<subseteq> {t}" and t: "t < num_threads s" "t < length (runnable s) \<Longrightarrow> \<not> runnable s ! t"
    "tr_status (thr s t) \<noteq> INITIALIZING" "\<not> awaits_core (thr s t)" and run: "policy_threadExit t time s = Inr s'"
  shows "keeps_sched {} {} s s'"
proof -
  have k0: "keeps_sched P {t} s s" using inv by (simp add: keeps_sched_def)
  have plain: ?thesis if "pinned_threadStall t time s = Inr s'" by (rule stall_after [OF k0 P t that])
  show ?thesis
  proof (cases "sp_policy (ts_sched s)")
    case (SchedBigSmall b)
    show ?thesis
    proof (cases "sb_thread_isbig b t")
      case True
      then obtain s1 where s: "pickBigThread s = Inr s1" "pinned_threadStall t time s1 = Inr s'"
        using run SchedBigSmall by (auto simp: policy_threadExit_def bigSmall_threadExit_def)
      show ?thesis by (rule stall_after [OF pickBigThread_ok [OF inv s(1)] P t s(2)])
    next
      case False
      then show ?thesis using run SchedBigSmall plain by (simp add: policy_threadExit_def bigSmall_threadExit_def)
    qed
  next
    case (SchedSequential q)
    then show ?thesis using sched_inv_parts(1) [OF inv] by (simp add: shape_def)
  qed (use run plain in \<open>simp_all add: policy_threadExit_def bigSmall_threadExit_def\<close>)
qed

lemma pinned_periodic_ok:
  assumes inv: "sched_inv {} {} s" and run: "pinned_periodic time s = Inr s'"
  shows "keeps_sched {} {} s s'"
proof -
  define delta where "delta = time - sp_last_periodic (ts_sched s)"
  let ?f = "\<lambda>core s. let left = sp_quantum_left (ts_sched s) ! core
     in if delta > left \<or> ctr s core = None then reschedule time core True s else Inr (set_quantum_left core (left - delta) s)"
  obtain s1 where s1: "foldR ?f [0..<num_cores s] s = Inr s1" "s' = upd_sched (\<lambda>sp. sp\<lparr>sp_last_periodic := time\<rparr>) s1"
    using run unfolding pinned_periodic_def Let_def delta_def [symmetric] bindR_eq_Inr by blast
  have k1: "keeps_sched {} {} s s1"
  proof (rule foldR_inv_set [where P = "keeps_sched {} {} s", OF _ _ s1(1)])
    fix c st st' assume c: "c \<in> set [0..<num_cores s]" and k: "keeps_sched {} {} s st" and st: "?f c st = Inr st'"
    note i = keeps_schedD(1) [OF k]
    have cn: "c < num_cores st" using c mild_frame_sizes(1) [OF keeps_schedD(2) [OF k]] by simp
    have "keeps_sched {} {} st st'"
    proof (cases "delta > sp_quantum_left (ts_sched st) ! c \<or> ctr st c = None")
      case True
      then show ?thesis using keeps_sched_any [OF i cn] st by (simp add: Let_def)
    next
      case False
      then have "st' = set_quantum_left c (sp_quantum_left (ts_sched st) ! c - delta) st" using st by (auto simp: Let_def split: if_splits)
      then show ?thesis using keeps_sched_quantum [OF i] by blast
    qed
    then show "keeps_sched {} {} s st'" by (rule keeps_sched_trans [OF k])
  qed (use inv in \<open>simp add: keeps_sched_def\<close>)
  have "same_places s1 s'" "shape s'" using sched_inv_parts(1) [OF keeps_schedD(1) [OF k1]] by (simp_all add: same_places_def s1(2) shape_def)
  then have "keeps_sched {} {} s1 s'" unfolding keeps_sched_def using sched_inv_same [OF keeps_schedD(1) [OF k1]]
    by (simp add: mild_frame_def s1(2))
  then show ?thesis by (rule keeps_sched_trans [OF k1])
qed

lemma policy_periodic_ok:
  assumes inv: "sched_inv {} {} s" and run: "policy_periodic time s = Inr s'"
  shows "keeps_sched {} {} s s'"
proof (cases "\<exists>b. sp_policy (ts_sched s) = SchedBigSmall b \<and> time > sb_last_reshuffle b + sp_quantum (ts_sched s)")
  case False
  then have "pinned_periodic time s = Inr s'" using run by (auto simp: policy_periodic_def bigSmall_periodic_def split: sched_policy.splits)
  then show ?thesis by (rule pinned_periodic_ok [OF inv])
next
  case True
  then obtain b where b: "sp_policy (ts_sched s) = SchedBigSmall b" "time > sb_last_reshuffle b + sp_quantum (ts_sched s)" by blast
  let ?f = "\<lambda>t s. if sb_thread_isbig (of_big_small s) t then moveToSmall t s else Inr s"
  obtain s1 s2 where s: "foldR ?f [0..<num_threads s] s = Inr s1"
    "foldR (\<lambda>_. pickBigThread) [0..<min (sb_num_big_cores b) (num_threads s)] s1 = Inr s2"
    "pinned_periodic time (set_policy (SchedBigSmall ((of_big_small s2)\<lparr>sb_last_reshuffle := time\<rparr>)) s2) = Inr s'"
    using run b by (auto simp: policy_periodic_def bigSmall_periodic_def)
  have k1: "keeps_sched {} {} s s1"
  proof (rule foldR_inv_set [where P = "keeps_sched {} {} s", OF _ _ s(1)])
    fix t st st' assume t: "t \<in> set [0..<num_threads s]" and k: "keeps_sched {} {} s st" and st: "?f t st = Inr st'"
    have "t < num_threads st" using t mild_frame_sizes(2) [OF keeps_schedD(2) [OF k]] by simp
    then have "keeps_sched {} {} st st'" using moveToSmall_ok [OF keeps_schedD(1) [OF k]] st keeps_schedD(1) [OF k]
      by (auto simp: keeps_sched_def split: if_splits)
    then show "keeps_sched {} {} s st'" by (rule keeps_sched_trans [OF k])
  qed (use inv in \<open>simp add: keeps_sched_def\<close>)
  have k2: "keeps_sched {} {} s s2"
    by (rule foldR_inv_set [where P = "keeps_sched {} {} s", OF _ k1 s(2)]) (blast intro: keeps_sched_trans pickBigThread_ok dest: keeps_schedD(1))
  have k3: "keeps_sched {} {} s (set_policy (SchedBigSmall ((of_big_small s2)\<lparr>sb_last_reshuffle := time\<rparr>)) s2)"
    by (rule keeps_sched_trans [OF k2]) (use set_policy_ok(1,2) [OF keeps_schedD(1) [OF k2]] in \<open>simp add: keeps_sched_def\<close>)
  show ?thesis by (rule keeps_sched_trans [OF k3 pinned_periodic_ok [OF keeps_schedD(1) [OF k3] s(3)]])
qed

section \<open>Hooks, futexes and the barrier\<close>

lemma sched_inv_other [simp]:
  "sched_inv P X (s\<lparr>ts_futexes := q\<rparr>) = sched_inv P X s" "sched_inv P X (s\<lparr>ts_sleeping := w\<rparr>) = sched_inv P X s"
  "sched_inv P X (s\<lparr>ts_spawn_list := l\<rparr>) = sched_inv P X s" "sched_inv P X (s\<lparr>ts_pseudo := p\<rparr>) = sched_inv P X s"
  "sched_inv P X (s\<lparr>ts_barrier := b\<rparr>) = sched_inv P X s" "sched_inv P X (set_futex_queue a q' s) = sched_inv P X s"
  by (simp_all add: sched_inv_def shape_def placed_def ready_ok_def set_futex_queue_def)

lemma thread_inv_note:
  assumes "sched_inv P X s" "t < num_threads s" "\<And>x. tr_core (f x) = tr_core x" "\<And>x. tr_status (f x) = tr_status x" "\<And>x. tr_stalled_reason (f x) = tr_stalled_reason x"
  shows "sched_inv P X (upd_thread t f s)"
  by (rule sched_inv_same_sched [OF assms(1)]) (use assms(2-5) in \<open>auto simp: same_places_def nth_list_update\<close>)

text \<open>Threads that resume others while one of them, \<open>t\<close>, is leaving core \<open>c\<close>.\<close>

definition leaving :: "nat \<Rightarrow> nat \<Rightarrow> thread_sys \<Rightarrow> bool" where
  "leaving t c s \<longleftrightarrow> sched_inv {} {t} s \<and> t < num_threads s \<and> c < num_cores s \<and> ctr s c = Some t \<and> tr_status (thr s t) \<in> {RUNNING, IDLE}"

lemma resume_bounds:
  assumes "\<not> is_static s" "resumeThread_sys v time msg s = Inr s'"
  shows "v < num_threads s" "v < length (runnable s)"
proof -
  show v: "v < num_threads s" using assms(2) by (auto simp: resumeThread_sys_def resumeThread_with_def split: if_splits)
  have st: "\<not> is_static (upd_thread v f (upd_thread v g s))" for f g using assms(1) by (simp add: is_static_def)
  show "v < length (runnable s)"
    using assms(2) v st by (auto simp: resumeThread_sys_def resumeThread_with_def resumeThread_async_with_def dynamic_threadResume_def set_runnable_Inr)
qed

lemma resume_keeps:
  assumes inv: "sched_inv P X s" and run: "resumeThread_sys v time msg s = Inr s'"
  shows "sched_inv P X s'" "leaving t c s \<Longrightarrow> leaving t c s'" "num_threads s' = num_threads s"
proof -
  note v = resume_bounds [OF sched_inv_dynamic [OF inv] run]
  let ?f = "\<lambda>x. x\<lparr>tr_wakeup_time := time, tr_wakeup_msg := msg, tr_status := RUNNING\<rparr>"
  let ?s = "set_ready ((runnable s)[v := True]) (upd_thread v ?f s)"
  have *: "sched_inv P' X' s' \<and> keeps_threads s s' \<and> sched_frame ?s s'" if "sched_inv P' X' s" for P' X'
    using resume_ok [OF that v, of time msg] run by auto
  show "sched_inv P X s'" using * [OF inv] by blast
  show n: "num_threads s' = num_threads s" using * [OF inv] sched_frame_sizes(2) [of ?s s'] by simp
  assume l: "leaving t c s"
  then have "sched_inv {} {t} s" by (simp add: leaving_def)
  note i = * [OF this]
  have "tr_status (thr ?s t) \<in> {RUNNING, IDLE}" using l v by (cases "t = v") (auto simp: leaving_def)
  then have "tr_status (thr s' t) \<in> {RUNNING, IDLE}" using i l by (auto simp: sched_frame_def leaving_def)
  moreover have "num_cores s' = num_cores s" using i sched_frame_sizes(1) [of ?s s'] by simp
  ultimately show "leaving t c s'" using i l n by (auto simp: leaving_def keeps_threads_def)
qed

lemma dequeueWaiter_keeps:
  assumes inv: "sched_inv P X s" and run: "dequeueWaiter a m time s = Inr (w, s')"
  shows "sched_inv P X s'" "leaving t c s \<Longrightarrow> leaving t c s'" "num_threads s' = num_threads s"
proof -
  consider "s' = s" | v q where "resumeThread_sys v time True (set_futex_queue a q s) = Inr s'"
    using run by (auto simp: dequeueWaiter_def split: option.splits)
  then have "sched_inv P X s' \<and> (leaving t c s \<longrightarrow> leaving t c s') \<and> num_threads s' = num_threads s"
  proof cases
    case 2
    have i: "sched_inv P X (set_futex_queue a q s)" using inv by simp
    have "leaving t c (set_futex_queue a q s) = leaving t c s" by (simp add: leaving_def set_futex_queue_def)
    then show ?thesis using resume_keeps(1,3) [OF i 2] resume_keeps(2) [OF i 2, of t c] by (simp add: set_futex_queue_def)
  qed (use inv in simp)
  then show "sched_inv P X s'" "leaving t c s \<Longrightarrow> leaving t c s'" "num_threads s' = num_threads s" by auto
qed

lemma wake_loop_keeps:
  assumes "sched_inv P X s" "futex_wake_loop n env u a m now woken s = Inr (k, s')"
  shows "sched_inv P X s' \<and> (leaving t c s \<longrightarrow> leaving t c s') \<and> num_threads s' = num_threads s"
  using assms
proof (induction n arbitrary: woken s)
  case (Suc n)
  then obtain cost w s1 where s1: "dequeueWaiter a m (now + cost) s = Inr (w, s1)"
    "(if w = None then Inr (woken, s1) else futex_wake_loop n env u a m now (woken + 1) s1) = Inr (k, s')" by auto
  note d = dequeueWaiter_keeps(1) [OF Suc.prems(1) s1(1)] dequeueWaiter_keeps(2) [OF Suc.prems(1) s1(1), of t c]
    dequeueWaiter_keeps(3) [OF Suc.prems(1) s1(1)]
  show ?case
  proof (cases "w = None")
    case True
    then show ?thesis using s1(2) d by simp
  next
    case False
    then show ?thesis using Suc.IH [OF d(1)] s1(2) d(2,3) by auto
  qed
qed simp

lemma futexWake_keeps:
  assumes "sched_inv P X s" "futexWake env u a n m now s = Inr (k, e, s')"
  shows "sched_inv P X s' \<and> (leaving t c s \<longrightarrow> leaving t c s') \<and> num_threads s' = num_threads s"
  using assms(2) wake_loop_keeps [OF assms(1)] by (fastforce simp: futexWake_def)

abbreviation all_agree :: "thread_sys \<Rightarrow> bool" where
  "all_agree s \<equiv> sched_inv {} {} s"

lemma hook_periodic_ok:
  assumes inv: "all_agree s" and run: "hook_periodic env time s = Inr s'"
  shows "all_agree s'"
proof -
  obtain s2 where s2: "futexPeriodic env time s = Inr s2" "dynamic_periodic time s2 = Inr s'" using run by (auto simp: hook_periodic_def)
  obtain s1 where s1: "(case take_first (\<lambda>w. fw_timeout w \<le> time) (ts_sleeping s) of None \<Rightarrow> Inr s
       | Some (w, q) \<Rightarrow> resumeThread_sys (fw_thread_id w) time False (s\<lparr>ts_sleeping := q\<rparr>)) = Inr s1"
    "foldR (wakeTimedOut time) (te_order env (map fst (ts_futexes s1))) s1 = Inr s2" using s2(1) by (auto simp: futexPeriodic_def)
  have "all_agree s1"
  proof (cases "take_first (\<lambda>w. fw_timeout w \<le> time) (ts_sleeping s)")
    case (Some wq)
    obtain w q where "wq = (w, q)" by fastforce
    then have "resumeThread_sys (fw_thread_id w) time False (s\<lparr>ts_sleeping := q\<rparr>) = Inr s1" using s1(1) Some by simp
    then show ?thesis using resume_keeps(1) [of "{}" "{}" "s\<lparr>ts_sleeping := q\<rparr>"] inv by simp
  qed (use s1(1) inv in simp)
  then have "all_agree s2"
  proof (rule foldR_inv [where P = all_agree, OF _ _ s1(2), rotated])
    fix a st st' assume st: "all_agree st" "wakeTimedOut time a st = Inr st'"
    show "all_agree st'"
    proof (cases "take_first (\<lambda>w. fw_timeout w \<le> time) (futex_queue a st)")
      case (Some wq)
      obtain w q where "wq = (w, q)" by fastforce
      then have "resumeThread_sys (fw_thread_id w) time False (set_futex_queue a q st) = Inr st'" using st(2) Some by (simp add: wakeTimedOut_def)
      then show ?thesis using resume_keeps(1) [of "{}" "{}" "set_futex_queue a q st"] st(1) by simp
    qed (use st in \<open>simp add: wakeTimedOut_def\<close>)
  qed
  note i2 = this
  obtain s3 where s3: "policy_periodic time (set_in_periodic True s2) = Inr s3" "s' = set_in_periodic False s3"
    using s2(2) sched_inv_dynamic [OF i2] by (auto simp: dynamic_periodic_def)
  have per: "sched_inv P X (set_in_periodic v st) = sched_inv P X st" for P X v st
    by (simp add: set_in_periodic_def sched_inv_def shape_def placed_def ready_ok_def)
  have "all_agree s3" using keeps_schedD(1) [OF policy_periodic_ok [OF _ s3(1)]] i2 by (simp add: per)
  then show ?thesis by (simp add: s3(2) per)
qed

lemma barrier_loop_ok: "all_agree s \<Longrightarrow> barrier_loop n env caller u s = Inr (r, s') \<Longrightarrow> all_agree s'"
proof (induction n arbitrary: s)
  case (Suc n)
  define time where "time = bss_next_barrier_time (ts_barrier s)"
  obtain s1 where s1: "hook_periodic env time (upd_barrier (\<lambda>b. b\<lparr>bss_global_time := time\<rparr>) s) = Inr s1"
    using Suc.prems(2) by (auto simp: Let_def time_def)
  have i1: "all_agree s1" using hook_periodic_ok [OF _ s1] Suc.prems(1) by simp
  obtain res mw b where rc: "release_cores (num_cores s1) caller
      ((ts_barrier s1)\<lparr>bss_next_barrier_time := bss_next_barrier_time (ts_barrier s1) + bss_barrier_interval (ts_barrier s1)\<rparr>) = (res, mw, b)"
    by (metis prod_cases3)
  note run = Suc.prems(2) [unfolded barrier_loop.simps Let_def time_def [symmetric] s1 bindR_Inr]
  show ?case
  proof (cases "u \<and> anyThreadRunning s1 \<or> bss_disable (ts_barrier s1)")
    case True
    then show ?thesis using run i1 by (auto split: if_splits)
  next
    case False
    then have "(if res then Inr (Some mw, s1\<lparr>ts_barrier := b\<rparr>) else barrier_loop n env caller u (s1\<lparr>ts_barrier := b\<rparr>)) = Inr (r, s')"
      using run rc by (auto split: if_splits)
    then show ?thesis using Suc.IH [of "s1\<lparr>ts_barrier := b\<rparr>"] i1 by (auto split: if_splits)
  qed
qed simp

lemma barrierRelease_ok:
  assumes "all_agree s" "barrierRelease fuel env caller u s = Inr (w, s')"
  shows "all_agree s'"
proof -
  define s1 where "s1 = (if bss_fastforward (ts_barrier s)
     then upd_barrier (\<lambda>b. b\<lparr>bss_next_barrier_time := fold max (bss_local_clock_list b) (bss_next_barrier_time b)\<rparr>) s else s)"
  have i1: "all_agree s1" using assms(1) by (simp add: s1_def)
  obtain r s2 where "barrier_loop fuel env caller u s1 = Inr (r, s2)" and
    s2: "(case r of None \<Rightarrow> Inr (False, s2) | Some mw \<Rightarrow> Inr (mw, upd_barrier (\<lambda>b. doRelease (if bss_fastforward b then -1 else te_host_cores env)
       (b\<lparr>bss_to_release := te_shuffle env (bss_to_release b)\<rparr>)) s2)) = (Inr (w, s') :: (bool \<times> thread_sys) result)"
    using assms(2) unfolding barrierRelease_def Let_def s1_def [symmetric] by auto
  then show ?thesis using barrier_loop_ok [OF i1] by (auto split: option.splits)
qed

lemma barrier_signal_ok: "all_agree s \<Longrightarrow> barrier_signal fuel env s = Inr s' \<Longrightarrow> all_agree s'"
  by (auto simp: barrier_signal_def split: if_splits dest: barrierRelease_ok)

lemma barrier_threadStall_ok: "all_agree s \<Longrightarrow> barrier_threadStall fuel env t s = Inr s' \<Longrightarrow> all_agree s'"
  by (auto simp: barrier_threadStall_def dest!: barrier_signal_ok [rotated])

lemma barrier_wait_ok:
  assumes inv: "all_agree s" and run: "barrier_wait fuel env core t s = Inr (w, s')"
  shows "all_agree s'"
proof -
  obtain r w2 s2 where s2: "(if r then barrierRelease fuel env (Some t) False s else Inr (True, s)) = Inr (w2, s2)"
      "s' = (if w2 then s2 else upd_barrier (\<lambda>b. b\<lparr>bss_events := bss_events b @ [BarrierExit core]\<rparr>) s2)"
    using run by (auto simp: barrier_wait_def)
  then have "all_agree s2" using barrierRelease_ok inv by (auto split: if_splits)
  then show ?thesis using s2(2) by simp
qed

lemma barrier_synchronize_ok:
  assumes inv: "all_agree s" and run: "barrier_synchronize fuel env core time s = Inr (w, s')"
  shows "all_agree s'"
proof -
  have "s' = s \<or> (\<exists>k t. barrier_wait fuel env core t (upd_barrier k s) = Inr (w, s'))"
    using run by (auto simp: barrier_synchronize_def Let_def split: if_splits option.splits)
  then show ?thesis using inv barrier_wait_ok [of "upd_barrier k s" for k] by auto
qed

lemma advance_loop_ok: "all_agree s \<Longrightarrow> advance_loop n fuel env s = Inr s' \<Longrightarrow> all_agree s'"
  by (induction n arbitrary: s) (auto simp: barrier_advance_def split: if_splits dest: barrierRelease_ok)

section \<open>The thread manager\<close>

lemma dynamic_threadStall_ok:
  assumes inv: "all_agree s" and t: "t < num_threads s" and un: "reason = STALL_UNSCHEDULED \<Longrightarrow> tr_core (thr s t) = None"
    and run: "dynamic_threadStall t reason time (set_stalled t reason s) = Inr s'"
  shows "all_agree s'" "num_threads s' = num_threads s"
proof -
  note D = sched_invD [OF inv]
  let ?f = "\<lambda>x. x\<lparr>tr_status := STALLED, tr_stalled_reason := reason\<rparr>"
  have dyn: "\<not> is_static (set_stalled t reason s)" using sched_inv_dynamic [OF inv] by (simp add: is_static_def set_stalled_def)
  have "all_agree s' \<and> num_threads s' = num_threads s"
  proof (cases "reason = STALL_UNSCHEDULED")
    case True
    then have s': "s' = upd_thread t ?f s" using run by (simp add: dynamic_threadStall_def set_stalled_def)
    have "ti_core_running (info s t) = None" using D(6) [OF t] un [OF True] by simp
    then have "all_agree s'" unfolding s' by (intro sched_inv_thread [OF inv t]) (use un True in \<open>auto simp: awaits_core_def\<close>)
    then show ?thesis by (simp add: s')
  next
    case False
    then obtain s2 where s2: "set_runnable t False (set_stalled t reason s) = Inr s2" "policy_threadStall t time s2 = Inr s'"
      using run dyn by (auto simp: dynamic_threadStall_def)
    have tr: "t < length (runnable s)" "s2 = set_ready ((runnable s)[t := False]) (upd_thread t ?f s)"
      using s2(1) by (auto simp: set_runnable_Inr set_stalled_def)
    have "sched_inv {} {t} s2" unfolding tr(2)
      by (rule sched_inv_update [OF inv t, where X' = "{t}"]) (use tr(1) in \<open>auto simp: nth_list_update\<close>)
    moreover have "t < num_threads s2" "\<not> runnable s2 ! t" "tr_status (thr s2 t) \<noteq> INITIALIZING" "\<not> awaits_core (thr s2 t)"
      using t tr False by (simp_all add: awaits_core_def)
    ultimately have k: "keeps_sched {} {} s2 s'" by (intro policy_threadStall_ok [OF _ _ _ _ _ s2(2)]) auto
    then show ?thesis using keeps_schedD(1) [OF k] mild_frame_sizes(2) [OF keeps_schedD(2) [OF k]] by (simp add: tr(2))
  qed
  then show "all_agree s'" "num_threads s' = num_threads s" by auto
qed

lemma stallThread_async_ok:
  assumes "all_agree s" "t < num_threads s" "reason = STALL_UNSCHEDULED \<Longrightarrow> tr_core (thr s t) = None"
    "stallThread_async_sys fuel env t reason time s = Inr s'"
  shows "all_agree s'"
  using assms(4) dynamic_threadStall_ok(1) [OF assms(1-3)] by (auto simp: stallThread_async_sys_def intro: barrier_threadStall_ok)

lemma stallThread_sys_ok:
  assumes "all_agree s" "t < num_threads s" "reason = STALL_UNSCHEDULED \<Longrightarrow> tr_core (thr s t) = None"
    and run: "stallThread_sys fuel env t reason time s = Inr (r, s')"
  shows "all_agree s'"
proof -
  obtain s1 s2 where s: "stallThread_async_sys fuel env t reason time s = Inr s1" "advance_loop fuel fuel env s1 = Inr s2"
    "s' = s2 \<or> s' = upd_thread t (tr_wakeup_msg_update (\<lambda>_. False)) s2"
    using run by (auto simp: stallThread_sys_def split: if_splits)
  have i2: "all_agree s2" using advance_loop_ok [OF _ s(2)] stallThread_async_ok [OF assms(1-3) s(1)] by blast
  show ?thesis
  proof (cases "t < num_threads s2")
    case True
    then show ?thesis using s(3) i2 thread_inv_note [OF i2 True, of "tr_wakeup_msg_update (\<lambda>_. False)"] by auto
  next
    case False
    then have "upd_thread t (tr_wakeup_msg_update (\<lambda>_. False)) s2 = s2" by (simp add: upd_thread_def list_update_beyond)
    then show ?thesis using s(3) i2 by auto
  qed
qed

text \<open>A thread ends: it leaves its core before the scheduler is told.\<close>

lemma leave_core:
  assumes l: "leaving t c s"
  shows "\<exists>s'. Thread_setCore t None (upd_core c (sc_state_update (\<lambda>_. IDLE)) s) = Inr s' \<and> sched_inv {t} {t} s' \<and> num_threads s' = num_threads s
    \<and> runnable s' = runnable s \<and> tr_status (thr s' t) \<in> {RUNNING, IDLE}"
proof -
  have inv: "sched_inv {} {t} s" and t: "t < num_threads s" and c: "c < num_cores s" "ctr s c = Some t" and st: "tr_status (thr s t) \<in> {RUNNING, IDLE}"
    using l by (simp_all add: leaving_def)
  note D = sched_invD [OF inv]
  have run: "ti_core_running (info s t) = Some c" "tr_core (thr s t) = Some c" using D(4) [OF c] D(6) [OF t] by auto
  have only: "tr_core (thr s v) = Some c \<Longrightarrow> v < num_threads s \<Longrightarrow> v = t" for v using D(3) D(5) [of v c] D(6) [of v] c by auto
  define s2 where "s2 = upd_thread t (tr_core_update (\<lambda>_. None)) (upd_core c (sc_thread_update (\<lambda>_. None)) (upd_core c (sc_state_update (\<lambda>_. IDLE)) s))"
  have "Thread_setCore t None (upd_core c (sc_state_update (\<lambda>_. IDLE)) s) = Inr s2" using run by (simp add: Thread_setCore_def s2_def)
  moreover have eq: "num_threads s2 = num_threads s" "num_cores s2 = num_cores s" "ts_sched s2 = ts_sched s"
    "\<And>v. v < num_threads s \<Longrightarrow> tr_core (thr s2 v) = (if v = t then None else tr_core (thr s v))"
    "\<And>v. v < num_threads s \<Longrightarrow> tr_status (thr s2 v) = tr_status (thr s v)" "\<And>v. v < num_threads s \<Longrightarrow> awaits_core (thr s2 v) = awaits_core (thr s v)"
    "\<And>k. k < num_cores s \<Longrightarrow> sc_thread (ts_cores s2 ! k) = (if k = c then None else sc_thread (ts_cores s ! k))"
    "\<And>k. k < num_cores s \<Longrightarrow> sc_state (ts_cores s2 ! k) = (if k = c then IDLE else sc_state (ts_cores s ! k))"
    using t c by (auto simp: s2_def nth_list_update awaits_core_def)
  have "placed {t} s2" unfolding placed_def eq(1-3)
  proof (intro conjI allI impI ballI)
    fix k v assume k: "k < num_cores s" "ctr s k = Some v"
    show "v < num_threads s" "ti_core_running (info s v) = Some k" using D(4) [OF k] by auto
  next
    fix k v assume k: "v < num_infos s" "ti_core_running (info s v) = Some k"
    show "k < num_cores s" "ctr s k = Some v" using D(5) [OF k] by auto
  next
    fix v assume v: "v < num_threads s"
    show "tr_core (thr s2 v) = (if v \<in> {t} then None else ti_core_running (info s v))" using D(6) [OF v] eq(4) [OF v] by simp
  next
    fix k v assume k: "k < num_cores s"
    show "(sc_thread (ts_cores s2 ! k) = Some v) = (v < num_threads s \<and> tr_core (thr s2 v) = Some k)"
    proof (cases "k = c")
      case True
      then have "sc_thread (ts_cores s2 ! k) = None" using eq(7) [OF k] by simp
      then show ?thesis using True only [of v] eq(4) [of v] by (cases "v = t") auto
    next
      case False
      then have "(sc_thread (ts_cores s2 ! k) = Some v) = (v < num_threads s \<and> tr_core (thr s v) = Some k)"
        using core_thread_iff [OF inv k, of v] eq(7) [OF k] by simp
      then show ?thesis using False run eq(4) [of v] by (cases "v = t") auto
    qed
  next
    fix k assume "k < num_cores s" "sc_thread (ts_cores s2 ! k) = None"
    then show "sc_state (ts_cores s2 ! k) = IDLE" using core_idle [OF inv, of k] eq(7,8) [of k] by (cases "k = c") auto
  next
    fix v assume "v \<in> {t}"
    then show "v < num_threads s" "ti_core_running (info s v) \<noteq> None" using run t by auto
  qed
  moreover have "shape s2" using sched_inv_parts(1) [OF inv] unfolding shape_def eq(1-3) .
  moreover have "ready_ok {t} s2" unfolding ready_ok_def eq(1-3)
  proof (intro conjI allI impI)
    fix v assume v: "v < length (runnable s)" "runnable s ! v"
    show vn: "v < num_threads s" using D(7) v by blast
    show "tr_status (thr s2 v) = RUNNING \<or> awaits_core (thr s2 v) \<and> tr_core (thr s2 v) = None \<or> v \<in> {t} \<and> ti_core_running (info s v) \<noteq> None"
      using D(8) [OF v] eq(4-6) [OF vn] by auto
  next
    fix k v assume k: "k < num_cores s" "ctr s k = Some v" "v \<notin> {t}"
    then have "v < num_threads s" using D(4) by blast
    then show "tr_status (thr s2 v) = INITIALIZING \<or> v < length (runnable s) \<and> runnable s ! v" using on_core_ready [OF inv k] eq(5) by simp
  qed
  ultimately show ?thesis using st eq(1,3) eq(5) [OF t] by (auto simp: sched_inv_def)
qed

lemma onThreadExit_ok:
  assumes inv: "all_agree s" and run: "onThreadExit fuel env t s = Inr s'"
  shows "all_agree s'"
proof -
  note D = sched_invD [OF inv]
  have t: "t < num_threads s" using run by (simp add: onThreadExit_def)
  obtain c where c: "tr_core (thr s t) = Some c" using run by (auto simp: onThreadExit_def split: option.splits)
  define time where "time = sc_elapsed_time (ts_cores s ! c)"
  define s0 where "s0 = upd_thread t (tr_status_update (\<lambda>_. IDLE)) s"
  note r = run [unfolded onThreadExit_def c Let_def option.case time_def [symmetric] s0_def [symmetric]]
  obtain s1 s2 s3 s4 where s: "wakeUpWaiter t time s0 = Inr s1"
    "(case tr_clear_tid (thr s1 t) of None \<Rightarrow> Inr s1 | Some a \<Rightarrow> bindR (futexWake env t a 1 FUTEX_BITSET_MATCH_ANY time s1) (\<lambda>(_, _, s2). Inr s2)) = Inr s2"
    "Thread_setCore t None (upd_core c (sc_state_update (\<lambda>_. IDLE)) s2) = Inr s3" "dynamic_threadExit t time s3 = Inr s4" "barrier_threadStall fuel env t s4 = Inr s'"
    using r t by auto
  have run_c: "ti_core_running (info s t) = Some c" using D(6) [OF t] c by simp
  then have cn: "c < num_cores s" "ctr s c = Some t" using D(5) [of t c] D(3) t by auto
  have "sched_inv {} {t} (set_ready (runnable s) (upd_thread t (tr_status_update (\<lambda>_. IDLE)) s))"
    by (rule sched_inv_update [OF inv t, where X' = "{t}"]) (use run_c in auto)
  then have "sched_inv {} {t} s0" using set_ready_id [of "upd_thread t (tr_status_update (\<lambda>_. IDLE)) s"] by (simp add: s0_def)
  then have l0: "leaving t c s0" using t cn by (simp add: leaving_def s0_def)
  have l1: "leaving t c s1"
  proof (cases "tr_waiter (thr s0 t)")
    case None
    then show ?thesis using s(1) l0 by (simp add: wakeUpWaiter_def)
  next
    case (Some w)
    then obtain sa where sa: "resumeThread_sys w time False s0 = Inr sa" "s1 = upd_thread t (tr_waiter_update (\<lambda>_. None)) sa"
      using s(1) by (auto simp: wakeUpWaiter_def)
    have la: "leaving t c sa" using resume_keeps(2) [OF _ sa(1)] l0 by (auto simp: leaving_def)
    then have "sched_inv {} {t} s1" unfolding sa(2) by (intro thread_inv_note) (auto simp: leaving_def)
    then show ?thesis using la by (simp add: leaving_def sa(2))
  qed
  have l2: "leaving t c s2"
  proof (cases "tr_clear_tid (thr s1 t)")
    case None
    then show ?thesis using s(2) l1 by simp
  next
    case (Some a)
    then obtain k e where "futexWake env t a 1 FUTEX_BITSET_MATCH_ANY time s1 = Inr (k, e, s2)" using s(2) by auto
    then show ?thesis using futexWake_keeps l1 by (metis leaving_def)
  qed
  have i3: "sched_inv {t} {t} s3" "num_threads s3 = num_threads s2" "tr_status (thr s3 t) \<in> {RUNNING, IDLE}" using leave_core [OF l2] s(3) by auto
  have t3: "t < num_threads s3" using i3(2) l2 by (simp add: leaving_def)
  obtain s5 where s5: "set_runnable t False s3 = Inr s5" "policy_threadExit t time s5 = Inr s4"
    using s(4) sched_inv_dynamic [OF i3(1)] by (auto simp: dynamic_threadExit_def)
  have tr: "t < length (runnable s3)" "s5 = set_ready ((runnable s3)[t := False]) s3" using s5(1) by (auto simp: set_runnable_Inr)
  have "sched_inv {t} {t} (set_ready ((runnable s3)[t := False]) (upd_thread t (\<lambda>x. x) s3))"
    by (rule sched_inv_update [OF i3(1) t3, where X' = "{t}"]) (use tr(1) in \<open>auto simp: nth_list_update\<close>)
  then have i5: "sched_inv {t} {t} s5" by (simp add: tr(2) upd_thread_def)
  have "keeps_sched {} {} s5 s4"
    by (rule policy_threadExit_ok [OF i5 _ _ _ _ _ s5(2)]) (use t3 tr i3(3) in \<open>auto simp: awaits_core_def\<close>)
  then show ?thesis using barrier_threadStall_ok [OF _ s(5)] keeps_schedD(1) by blast
qed

end
