(* ===== verification/Thread_Reach.thy ===== *)
theory Thread_Reach
  imports Thread_Safety
begin

text \<open>
  The life of threads: creation and start, and the step relation of the whole thread system, whose reachable states all satisfy the agreement of
  scheduler, threads and cores.
\<close>

section \<open>Creation\<close>

definition push_thread :: "thread_sys \<Rightarrow> thread_sys" where
  "push_thread s = s\<lparr>ts_threads := ts_threads s @ [Thread_create\<lparr>tr_status := INITIALIZING\<rparr>]\<rparr>"

lemma push_thread_ok:
  assumes inv: "all_agree s" and n: "num_threads s < num_infos s"
  shows "all_agree (push_thread s)" "ti_core_running (info s (num_threads s)) = None" "num_threads s < length (runnable s) \<Longrightarrow> \<not> runnable s ! num_threads s"
proof -
  note D = sched_invD [OF inv]
  show none: "ti_core_running (info s (num_threads s)) = None"
    using D(4,5) n by (metis less_irrefl option.exhaust)
  show idle: "num_threads s < length (runnable s) \<Longrightarrow> \<not> runnable s ! num_threads s" using D(7) by blast
  define s2 where "s2 = push_thread s"
  have eq: "num_threads s2 = Suc (num_threads s)" "ts_cores s2 = ts_cores s" "ts_sched s2 = ts_sched s" by (simp_all add: s2_def push_thread_def)
  have old: "\<And>v. v < num_threads s \<Longrightarrow> thr s2 v = thr s v" and new: "thr s2 (num_threads s) = Thread_create\<lparr>tr_status := INITIALIZING\<rparr>"
    by (simp_all add: s2_def push_thread_def nth_append)
  have "placed {} s2" unfolding placed_def eq
  proof (intro conjI allI impI ballI)
    fix k v assume k: "k < num_cores s" "ctr s k = Some v"
    show "v < Suc (num_threads s)" "ti_core_running (info s v) = Some k" using D(4) [OF k] by auto
  next
    fix k v assume k: "v < num_infos s" "ti_core_running (info s v) = Some k"
    show "k < num_cores s" "ctr s k = Some v" using D(5) [OF k] by auto
  next
    fix v assume "v < Suc (num_threads s)"
    then show "tr_core (thr s2 v) = (if v \<in> {} then None else ti_core_running (info s v))"
      using D(6) [of v] old [of v] new none by (cases "v = num_threads s") (auto simp: Thread_create_def)
  next
    fix k v assume k: "k < num_cores s"
    show "(sc_thread (ts_cores s ! k) = Some v) = (v < Suc (num_threads s) \<and> tr_core (thr s2 v) = Some k)"
      using core_thread_iff [OF inv k, of v] old [of v] new by (cases "v = num_threads s") (auto simp: Thread_create_def)
  next
    fix k assume "k < num_cores s" "sc_thread (ts_cores s ! k) = None"
    then show "sc_state (ts_cores s ! k) = IDLE" using core_idle [OF inv, of k] by simp
  qed auto
  moreover have "shape s2" using sched_inv_parts(1) [OF inv] n unfolding shape_def eq by simp
  moreover have "ready_ok {} s2" unfolding ready_ok_def eq
  proof (intro conjI allI impI)
    fix v assume v: "v < length (runnable s)" "runnable s ! v"
    show "v < Suc (num_threads s)" using D(7) [OF v] by simp
    show "tr_status (thr s2 v) = RUNNING \<or> awaits_core (thr s2 v) \<and> tr_core (thr s2 v) = None \<or> v \<in> {} \<and> ti_core_running (info s v) \<noteq> None"
      using D(8) [OF v] old [OF D(7) [OF v]] by simp
  next
    fix k v assume k: "k < num_cores s" "ctr s k = Some v" "v \<notin> {}"
    then have "v < num_threads s" using D(4) by blast
    then show "tr_status (thr s2 v) = INITIALIZING \<or> v < length (runnable s) \<and> runnable s ! v" using on_core_ready [OF inv k] old by simp
  qed
  ultimately show "all_agree (push_thread s)" by (simp add: sched_inv_def s2_def)
qed

lemma fold_affinity [simp]:
  "length (ti_core_affinity (fold (\<lambda>core i. if m ! core then addAffinity core i else i) cs i)) = length (ti_core_affinity i)"
  "ti_core_running (fold (\<lambda>core i. if m ! core then addAffinity core i else i) cs i) = ti_core_running i"
  by (induction cs arbitrary: i) simp_all

lemma setAffinity_idle:
  assumes "t < num_infos s" "t < length (runnable s) \<Longrightarrow> \<not> runnable s ! t" "ti_core_running (info s t) = None" "threadSetAffinity None t m s = Inr s'"
  shows "ti_core_running (info s' t) = None"
proof -
  have g: "grow_info t (t + 16) s = s" using assms(1) by (simp add: grow_info_def)
  obtain i where i: "setAffinityMask (num_cores s) m ((info s t)\<lparr>ti_explicit_affinity := True\<rparr>) = Inr i"
    using assms(4) by (auto simp: threadSetAffinity_def Let_def g)
  have run: "ti_core_running i = None" using setAffinityMask_keeps(2) [OF i] assms(3) by simp
  have "s' = upd_info t (\<lambda>_. i) s"
    using assms(2,4) run by (auto simp: threadSetAffinity_def Let_def g i upd_info_def split: if_splits)
  then show ?thesis using run assms(1) by (simp add: upd_info_def)
qed

lemma initialAffinity_ok:
  assumes inv: "all_agree s" and t: "t < num_threads s" "t < length (runnable s) \<Longrightarrow> \<not> runnable s ! t" "ti_core_running (info s t) = None"
    and run: "threadSetInitialAffinity t s = Inr s'"
  shows "keeps_sched {} {} s s' \<and> ti_core_running (info s' t) = None"
proof -
  have ti: "t < num_infos s" using sched_invD(3) [OF inv] t by simp
  show ?thesis
  proof (cases "sp_policy (ts_sched s)")
    case (SchedPinned n m nx)
    obtain c next1 where s': "s' = upd_info t (setAffinitySingle c) (set_policy (SchedPinned n m next1) s)"
      using run SchedPinned by (auto simp: threadSetInitialAffinity_def pinned_threadSetInitialAffinity_def roaming_threadSetInitialAffinity_def)
    have k1: "keeps_sched {} {} s (set_policy (SchedPinned n m next1) s)" using set_policy_ok(1,2) [OF inv] by (simp add: keeps_sched_def)
    have "keeps_sched {} {} (set_policy (SchedPinned n m next1) s) s'" unfolding s' keeps_sched_def
      using upd_info_ok(1,2) [OF keeps_schedD(1) [OF k1], of t "setAffinitySingle c"] ti by (simp add: set_policy_def)
    then show ?thesis using keeps_sched_trans [OF k1] t(3) ti by (simp add: s' upd_info_def set_policy_def)
  next
    case (SchedRoaming m)
    let ?f = "\<lambda>i. fold (\<lambda>core i. if m ! core then addAffinity core i else i) [0..<num_cores s] (clearAffinity i)"
    have s': "s' = upd_info t ?f s" using run SchedRoaming by (simp add: threadSetInitialAffinity_def pinned_threadSetInitialAffinity_def roaming_threadSetInitialAffinity_def)
    have "keeps_sched {} {} s s'" unfolding s' keeps_sched_def using upd_info_ok(1,2) [OF inv ti, of ?f] by simp
    then show ?thesis using t(3) ti by (simp add: s' upd_info_def)
  next
    case (SchedBigSmall b)
    then have m: "moveToSmall t s = Inr s'" using run by (simp add: threadSetInitialAffinity_def pinned_threadSetInitialAffinity_def roaming_threadSetInitialAffinity_def)
    then obtain s1 p where "threadSetAffinity None t (Some (sb_mask_small (of_big_small s))) s = Inr s1" "s' = set_policy p s1"
      by (auto simp: moveToSmall_def moveToMask_def)
    then have "ti_core_running (info s' t) = None" using setAffinity_idle [OF ti t(2,3)] by (simp add: set_policy_def)
    then show ?thesis using moveToSmall_ok [OF inv t(1) m] by blast
  qed (use sched_inv_parts(1) [OF inv] in \<open>simp_all add: shape_def\<close>)
qed

lemma assign_create:
  assumes "t < num_infos s"
  shows "set_core_thread c (Some t) (upd_info t (\<lambda>i. i\<lparr>ti_core_running := Some c\<rparr>) s) = assign (ti_last_scheduled_in (info s t)) c t s"
  using assms by (simp add: assign_def set_core_thread_def upd_info_def upd_sched_def)

text \<open>The last part of \<^verbatim>\<open>threadCreate\<close>, for a thread that is in the table, and what \<^verbatim>\<open>createThread\<close> does with the core.\<close>

definition place_new :: "nat \<Rightarrow> thread_sys \<Rightarrow> (nat option \<times> thread_sys) result" where
  "place_new t s =
     bindR (if ti_has_affinity (info s t) then Inr s else threadSetInitialAffinity t s) (\<lambda>s2.
     case findFreeCoreForThread t s2 of
       Some core \<Rightarrow> Inr (Some core, set_quantum_left core (sp_quantum (ts_sched s2)) (set_core_thread core (Some t)
             (upd_info t (\<lambda>i. i\<lparr>ti_core_running := Some core\<rparr>) s2)))
     | None \<Rightarrow> Inr (None, upd_info t (\<lambda>i. i\<lparr>ti_core_running := None\<rparr>) s2))"

definition enter_core :: "nat \<Rightarrow> nat option \<times> thread_sys \<Rightarrow> (nat \<times> thread_sys) result" where
  "enter_core t = (\<lambda>(core, s). case core of None \<Rightarrow> Inr (t, s)
     | Some c \<Rightarrow> bindR (Thread_setCore t (Some c) s) (\<lambda>s1. Inr (t, upd_core c (sc_state_update (\<lambda>_. INITIALIZING)) s1)))"

lemma create_from:
  assumes inv: "all_agree s" and n: "num_threads s < num_infos s"
    and run: "place_new (num_threads s) (push_thread s) = Inr (core, s3)" and place: "enter_core (num_threads s) (core, s3) = Inr (t, s')"
  shows "all_agree s'"
proof -
  define u where "u = num_threads s"
  define s1 where "s1 = push_thread s"
  note p = push_thread_ok [OF inv n, folded s1_def u_def]
  have s1: "u < num_threads s1" "ts_sched s1 = ts_sched s" "tr_status (thr s1 u) = INITIALIZING" by (simp_all add: s1_def u_def push_thread_def nth_append)
  obtain s2 where s2: "(if ti_has_affinity (info s u) then Inr s1 else threadSetInitialAffinity u s1) = Inr s2"
    "(case findFreeCoreForThread u s2 of
       Some core \<Rightarrow> Inr (Some core, set_quantum_left core (sp_quantum (ts_sched s2)) (set_core_thread core (Some u) (upd_info u (\<lambda>i. i\<lparr>ti_core_running := Some core\<rparr>) s2)))
     | None \<Rightarrow> Inr (None, upd_info u (\<lambda>i. i\<lparr>ti_core_running := None\<rparr>) s2)) = (Inr (core, s3) :: (nat option \<times> thread_sys) result)"
    using run s1(2) unfolding u_def [symmetric] s1_def [symmetric] place_new_def by auto
  have k2: "keeps_sched {} {} s1 s2 \<and> ti_core_running (info s2 u) = None"
  proof (cases "ti_has_affinity (info s u)")
    case True
    then show ?thesis using s2(1) p s1 by (simp add: keeps_sched_def)
  next
    case False
    then show ?thesis using initialAffinity_ok [of s1 u s2] s2(1) p s1 by simp
  qed
  note i2 = keeps_schedD(1) [OF conjunct1 [OF k2]] and m2 = keeps_schedD(2) [OF conjunct1 [OF k2]]
  have u2: "u < num_threads s2" "u < num_infos s2" using mild_frame_sizes [OF m2] s1 n by (simp_all add: u_def)
  have st: "tr_status (thr s2 u) = INITIALIZING" using mild_frame_status [OF m2 s1(1)] s1(3) by (simp add: awaits_core_def)
  show ?thesis
  proof (cases "findFreeCoreForThread u s2")
    case None
    then have "core = None" "s3 = upd_info u (\<lambda>i. i\<lparr>ti_core_running := None\<rparr>) s2" using s2(2) by auto
    then have "s' = s3" "all_agree s3" using place upd_info_ok(1) [OF i2 u2(2), of "\<lambda>i. i\<lparr>ti_core_running := None\<rparr>"] k2 by (auto simp: enter_core_def)
    then show ?thesis by simp
  next
    case (Some c)
    note c = findFreeCore_Some [OF Some]
    define time where "time = ti_last_scheduled_in (info s2 u)"
    have s3: "core = Some c" "s3 = set_quantum_left c (sp_quantum (ts_sched s2)) (assign time c u s2)"
      using s2(2) Some assign_create [OF u2(2)] by (auto simp: time_def)
    note a = assign_ok [OF i2 _ _ u2(1) disjI2 [OF st] conjunct2 [OF k2], where c = c and time = time]
    have i3: "sched_inv (insert u {}) {} s3" using a(1) c by (simp add: s3)
    have at: "c < num_cores s3" "ctr s3 c = Some u" using a(3) [of c] c sched_frame_sizes(1) [OF a(2)] by (simp_all add: s3 set_quantum_left_def)
    have st3: "tr_status (thr s3 u) = INITIALIZING" using st by (simp add: s3 set_quantum_left_def assign_def upd_info_def set_core_thread_def)
    have "u < length (runnable s3) \<Longrightarrow> runnable s3 ! u \<Longrightarrow> tr_status (thr s3 u) = RUNNING"
      using sched_invD(8) [OF i3, of u] st3 by (auto simp: awaits_core_def)
    then obtain s4 where "Thread_setCore u (Some c) s3 = Inr s4" "all_agree (upd_core c (sc_state_update (\<lambda>_. INITIALIZING)) s4)"
      using arrive_ok [OF i3 at, of INITIALIZING] by auto
    then show ?thesis using place s3(1) by (auto simp: u_def enter_core_def)
  qed
qed

lemma grow_push: "grow_info t n (push_thread s) = push_thread (grow_info t n s)"
  by (simp add: grow_info_def push_thread_def upd_sched_def)

lemma createThread_steps:
  assumes "\<And>m. sp_policy (ts_sched s) \<noteq> SchedStatic m"
  shows "createThread s = (let g = grow_info (num_threads s) (num_infos s + 16) s in
    if num_threads g < num_infos g then bindR (place_new (num_threads g) (push_thread g)) (enter_core (num_threads g)) else Inl (Trap ''vector index''))"
proof -
  define t where "t = num_threads s"
  define g where "g = grow_info t (num_infos s + 16) s"
  have g: "num_threads g = t" by (simp add: g_def t_def grow_info_def)
  have p: "sp_thread_info (ts_sched (push_thread s)) = sp_thread_info (ts_sched s)" "sp_thread_info (ts_sched (push_thread g)) = sp_thread_info (ts_sched g)"
    "sp_policy (ts_sched (push_thread s)) = sp_policy (ts_sched s)"
    by (simp_all add: push_thread_def)
  have "scheduler_threadCreate t (push_thread s) = bindR (atR (sp_thread_info (ts_sched g)) t) (\<lambda>_. place_new t (push_thread g))"
  proof (cases "sp_policy (ts_sched s)")
    case (SchedStatic m)
    then show ?thesis using assms by blast
  qed (simp_all add: scheduler_threadCreate_def pinned_threadCreate_def p grow_push g_def [symmetric] place_new_def Let_def bindR_def atR_def)
  moreover have "createThread s = bindR (scheduler_threadCreate t (push_thread s)) (enter_core t)"
    unfolding createThread_def enter_core_def push_thread_def t_def Let_def by (rule refl)
  ultimately show ?thesis by (simp add: Let_def g_def [symmetric] t_def [symmetric] g atR_def)
qed

lemma createThread_ok:
  assumes inv: "all_agree (grow_info (num_threads s) (num_infos s + 16) s)" and run: "createThread s = Inr (t, s')"
  shows "all_agree s'"
proof -
  define g where "g = grow_info (num_threads s) (num_infos s + 16) s"
  have "sp_policy (ts_sched s) = sp_policy (ts_sched g)" by (simp add: g_def grow_info_def)
  then have "\<And>m. sp_policy (ts_sched s) \<noteq> SchedStatic m" using sched_inv_parts(1) [OF inv] by (simp add: shape_def g_def)
  from createThread_steps [OF this] have "num_threads g < num_infos g" "bindR (place_new (num_threads g) (push_thread g)) (enter_core (num_threads g)) = Inr (t, s')"
    unfolding run Let_def g_def [symmetric] by (auto split: if_splits)
  then obtain core s3 where "num_threads g < num_infos g" "place_new (num_threads g) (push_thread g) = Inr (core, s3)"
    "enter_core (num_threads g) (core, s3) = Inr (t, s')" by auto
  then show ?thesis using create_from inv by (auto simp: g_def)
qed

text \<open>The system when it has been built, before the first thread.\<close>

definition thread_boot :: "thread_sys \<Rightarrow> bool" where
  "thread_boot s \<longleftrightarrow> ts_threads s = [] \<and> sp_thread_info (ts_sched s) = [] \<and> runnable s = replicate 16 False
     \<and> sp_core_thread_running (ts_sched s) = replicate (num_cores s) None \<and> length (sp_quantum_left (ts_sched s)) = num_cores s
     \<and> (\<forall>c<num_cores s. sc_thread (ts_cores s ! c) = None \<and> sc_state (ts_cores s ! c) = IDLE)
     \<and> (\<forall>m q. sp_policy (ts_sched s) \<noteq> SchedStatic m \<and> sp_policy (ts_sched s) \<noteq> SchedSequential q)"

lemma boot_create:
  assumes "thread_boot s" "createThread s = Inr (t, s')"
  shows "all_agree s'"
proof (rule createThread_ok [OF _ assms(2)])
  note b = assms(1) [unfolded thread_boot_def]
  define g where "g = grow_info (num_threads s) (num_infos s + 16) s"
  have g: "ts_threads g = []" "sp_thread_info (ts_sched g) = replicate 16 (ThreadInfo_create (num_cores s))" "runnable g = replicate 16 False"
    "sp_core_thread_running (ts_sched g) = replicate (num_cores s) None" "length (sp_quantum_left (ts_sched g)) = num_cores s" "ts_cores g = ts_cores s"
    "sp_policy (ts_sched g) = sp_policy (ts_sched s)"
    using b by (simp_all add: g_def grow_info_def)
  show "all_agree (grow_info (num_threads s) (num_infos s + 16) s)"
    unfolding g_def [symmetric] sched_inv_def shape_def placed_def ready_ok_def g using b by (auto simp: ThreadInfo_create_def)
qed

section \<open>Start\<close>

lemma grow_ready_ok:
  assumes inv: "all_agree s" and n: "length (runnable s) + 16 \<le> num_infos s"
  shows "all_agree (set_ready (runnable s @ replicate 16 False) s)"
proof -
  note D = sched_invD [OF inv]
  have "shape (set_ready (runnable s @ replicate 16 False) s)" using sched_inv_parts(1) [OF inv] n by (simp add: shape_def)
  moreover have "placed {} (set_ready (runnable s @ replicate 16 False) s)" using sched_inv_parts(2) [OF inv] unfolding placed_def set_ready_simps .
  moreover have "ready_ok {} (set_ready (runnable s @ replicate 16 False) s)" unfolding ready_ok_def set_ready_simps
  proof (intro conjI allI impI)
    fix v assume v: "v < length (runnable s @ replicate 16 False)" "(runnable s @ replicate 16 False) ! v"
    then have "v < length (runnable s)" "runnable s ! v" by (auto simp: nth_append split: if_splits)
    note v = this
    show "v < num_threads s" using D(7) [OF v] .
    show "tr_status (thr s v) = RUNNING \<or> awaits_core (thr s v) \<and> tr_core (thr s v) = None \<or> v \<in> {} \<and> ti_core_running (info s v) \<noteq> None"
      using D(8) [OF v] .
  next
    fix k v assume k: "k < num_cores s" "ctr s k = Some v" "v \<notin> {}"
    show "tr_status (thr s v) = INITIALIZING \<or> v < length (runnable s @ replicate 16 False) \<and> (runnable s @ replicate 16 False) ! v"
      using on_core_ready [OF inv k] by (auto simp: nth_append)
  qed
  ultimately show ?thesis by (simp add: sched_inv_def)
qed

text \<open>The vector of the scheduler that says who is ready grows by sixteen at a time; it must not outgrow the table of threads.\<close>

definition vectors_suffice :: "nat \<Rightarrow> thread_sys \<Rightarrow> bool" where
  "vectors_suffice t s \<longleftrightarrow> (length (runnable s) \<le> t \<longrightarrow> length (runnable s) + 16 \<le> num_infos s)"

lemma set_ready_upd_thread: "set_ready R (upd_thread t f s) = upd_thread t f (set_ready R s)"
  by (simp add: set_ready_def upd_thread_def upd_sched_def)

lemma onThreadStart_ok:
  assumes inv: "all_agree s" and v: "vectors_suffice t s" and run: "onThreadStart t time s = Inr s'"
  shows "all_agree s'"
proof -
  have t: "t < num_threads s" using run by (simp add: onThreadStart_def)
  define f :: "sim_thread \<Rightarrow> sim_thread" where "f = tr_status_update (\<lambda>_. RUNNING)"
  define R where "R = (if length (runnable s) \<le> t then runnable s @ replicate 16 False else runnable s)"
  have iR: "all_agree (set_ready R s)" using grow_ready_ok [OF inv] v inv by (simp add: R_def vectors_suffice_def)
  obtain s2 where s2: "dynamic_threadStart t time (upd_thread t f s) = Inr s2" using run by (auto simp: onThreadStart_def f_def)
  have "\<not> is_static (upd_thread t f s)" using sched_inv_dynamic [OF inv] by (simp add: is_static_def)
  then obtain s1 where s1: "set_runnable t True (set_ready R (upd_thread t f s)) = Inr s1" "policy_threadStart t time s1 = Inr s2"
    using s2 by (auto simp: dynamic_threadStart_def Let_def R_def set_ready_def upd_sched_def upd_thread_def split: if_splits)
  have tR: "t < length R" "s1 = set_ready (R[t := True]) (upd_thread t f (set_ready R s))"
    using s1(1) by (auto simp: set_runnable_Inr set_ready_upd_thread [symmetric])
  have i1: "all_agree s1" unfolding tR(2)
    by (rule sched_inv_update [OF iR, where X' = "{}"]) (use t tR(1) in \<open>auto simp: f_def nth_list_update\<close>)
  have n1: "num_threads s1 = num_threads s" "tr_status (thr s1 t) = RUNNING" using t by (simp_all add: tR(2) f_def)
  have "pinned_threadResume reschedule t time s1 = Inr s2"
    using s1(2) sched_inv_parts(1) [OF i1] by (auto simp: policy_threadStart_def pinned_threadStart_def shape_def split: sched_policy.splits)
  then have r2: "all_agree s2" "sched_frame s1 s2" using pinned_resume_ok [OF i1, of t time] by auto
  have t2: "t < num_threads s2" "tr_status (thr s2 t) = RUNNING"
    using sched_frame_sizes(2) [OF r2(2)] sched_frame_running [OF r2(2), of t] n1 t by simp_all
  note D2 = sched_invD [OF r2(1)]
  define x where "x = (case tr_core (thr s2 t) of
       Some c \<Rightarrow> let time1 = max time (sc_elapsed_time (ts_cores s2 ! c))
         in (time1, barrier_threadMigrate t (upd_thread t f
               (queue_pseudo c (SpawnPseudo time1) (upd_core c (sc_state_update (\<lambda>_. RUNNING)) s2))))
     | None \<Rightarrow> (time, set_stalled t STALL_UNSCHEDULED s2))"
  have i3: "all_agree (snd x)" "num_threads (snd x) = num_threads s2"
  proof -
    have "all_agree (snd x) \<and> num_threads (snd x) = num_threads s2"
    proof (cases "tr_core (thr s2 t)")
      case None
      then have "ti_core_running (info s2 t) = None" using D2(6) [OF t2(1)] by simp
      then have "all_agree (set_stalled t STALL_UNSCHEDULED s2)"
        unfolding set_stalled_def by (intro sched_inv_thread [OF r2(1) t2(1)]) (use None in \<open>auto simp: awaits_core_def\<close>)
      then show ?thesis using None by (simp add: x_def set_stalled_def)
    next
      case (Some c)
      then have "ti_core_running (info s2 t) = Some c" using D2(6) [OF t2(1)] by simp
      then have cn: "c < num_cores s2" using D2(3) D2(5) [of t c] t2(1) by auto
      then have "sc_thread (ts_cores s2 ! c) \<noteq> None" using core_thread_iff [OF r2(1), of c t] Some t2(1) by simp
      then have "same_places s2 (snd x)" "ts_sched (snd x) = ts_sched s2" using Some t2 cn
        by (auto simp: x_def f_def Let_def same_places_def queue_pseudo_def barrier_threadMigrate_def nth_list_update)
      then show ?thesis using sched_inv_same_sched [OF r2(1)] by (simp add: same_places_def)
    qed
    then show "all_agree (snd x)" "num_threads (snd x) = num_threads s2" by auto
  qed
  have eq: "(case x of (time1, s3) \<Rightarrow> case tr_waiter (thr s3 t) of None \<Rightarrow> Inr s3
       | Some w \<Rightarrow> bindR (logAssertR (w < num_threads s3) ''Invalid thread_id'') (\<lambda>_.
           Inr (upd_thread t (tr_waiter_update (\<lambda>_. None)) (Thread_signal w time1 False s3)))) = Inr s'"
    using run t s2 unfolding onThreadStart_def x_def f_def by simp
  have "s' = snd x \<or> (\<exists>w. w < num_threads (snd x) \<and> s' = upd_thread t (tr_waiter_update (\<lambda>_. None)) (Thread_signal w (fst x) False (snd x)))"
    using eq by (cases x) (auto split: option.splits)
  then show ?thesis
  proof (elim disjE exE conjE)
    fix w assume w: "w < num_threads (snd x)" "s' = upd_thread t (tr_waiter_update (\<lambda>_. None)) (Thread_signal w (fst x) False (snd x))"
    have "all_agree (Thread_signal w (fst x) False (snd x))" unfolding Thread_signal_def by (rule thread_inv_note [OF i3(1) w(1)]) simp_all
    then show ?thesis unfolding w(2) by (rule thread_inv_note) (use i3(2) t2 in \<open>simp_all add: Thread_signal_def\<close>)
  qed (use i3 in simp)
qed

section \<open>Calls on futexes\<close>

lemma futexWait_ok:
  assumes "all_agree s" "t < num_threads s" "futexWait fuel env t a v av m now timeout s = Inr (r, e, s')"
  shows "all_agree s'"
proof (cases "v = av")
  case False
  then show ?thesis using assms by (simp add: futexWait_def Let_def)
next
  case True
  then obtain q r' where q: "stallThread_sys fuel env t STALL_FUTEX now (set_futex_queue (te_va2pa env t a) q s) = Inr (r', s')"
    using assms(3) by (auto simp: futexWait_def Let_def)
  show ?thesis by (rule stallThread_sys_ok [OF _ _ _ q]) (use assms in \<open>simp_all add: set_futex_queue_def\<close>)
qed

lemma futexWakeOp_ok:
  assumes "all_agree s" "futexWakeOp env t a b n n2 opc old now s = Inr (w, v, e, s')"
  shows "all_agree s'"
proof -
  obtain w1 s1 h w2 where s: "futex_wake_loop (nat n) env t (te_va2pa env t a) FUTEX_BITSET_MATCH_ANY now 0 s = Inr (w1, s1)"
    "(if h then futex_wake_loop (nat n2) env t (te_va2pa env t b) FUTEX_BITSET_MATCH_ANY now w1 s1 else Inr (w1, s1)) = Inr (w2, s')"
    using assms(2) by (auto simp: futexWakeOp_def)
  have "all_agree s1" using wake_loop_keeps [OF assms(1) s(1)] by blast
  then show ?thesis using s(2) wake_loop_keeps by (cases h) auto
qed

lemma requeue_wake_loop_ok: "all_agree s \<Longrightarrow> requeue_wake_loop n a now woken s = Inr (k, s') \<Longrightarrow> all_agree s'"
proof (induction n arbitrary: woken s)
  case (Suc n)
  then obtain w s1 where s1: "dequeueWaiter a FUTEX_BITSET_MATCH_ANY now s = Inr (w, s1)"
    "(if w = None then Inr (woken, s1) else requeue_wake_loop n a now (woken + 1) s1) = Inr (k, s')" by auto
  have "all_agree s1" by (rule dequeueWaiter_keeps(1) [OF Suc.prems(1) s1(1)])
  then show ?case using s1(2) Suc.IH by (auto split: if_splits)
qed simp

lemma requeue_loop_ok: "all_agree s \<Longrightarrow> requeue_loop n a b s = Inr s' \<Longrightarrow> all_agree s'"
proof (induction n arbitrary: s)
  case (Suc n)
  obtain w s1 where s1: "requeueWaiter a b s = (w, s1)" by fastforce
  then have "all_agree s1" using Suc.prems(1) by (auto simp: requeueWaiter_def Let_def split: list.splits)
  then show ?case using Suc s1 by (auto split: if_splits)
qed simp

lemma futexCmpRequeue_ok:
  assumes "all_agree s" "futexCmpRequeue env t a n b v3 av now s = Inr (r, e, s')"
  shows "all_agree s'"
proof (cases "v3 = av")
  case True
  then obtain k s1 n' where s: "requeue_wake_loop (nat n) (te_va2pa env t a) now 0 s = Inr (k, s1)"
    "requeue_loop n' (te_va2pa env t a) (te_va2pa env t b) s1 = Inr s'"
    using assms(2) by (auto simp: futexCmpRequeue_def Let_def simp del: requeue_loop.simps)
  show ?thesis by (rule requeue_loop_ok [OF requeue_wake_loop_ok [OF assms(1) s(1)] s(2)])
qed (use assms in \<open>simp add: futexCmpRequeue_def\<close>)

lemma handleFutexCall_ok:
  assumes inv: "all_agree s" and t: "t < num_threads s" and run: "handleFutexCall fuel env t args av av2 now s = Inr (r, e, s')"
  shows "all_agree s'"
proof (cases "fa_cmd args")
  case FUTEX_WAKE_OP
  then obtain w v e' where "futexWakeOp env t (fa_uaddr args) (fa_uaddr2 args) (sint (fa_val args)) (sint (fa_val2 args)) (fa_val3 args) av2 now s = Inr (w, v, e', s')"
    using run by (auto simp: handleFutexCall_def)
  then show ?thesis by (rule futexWakeOp_ok [OF inv])
next
  case FUTEX_CMP_REQUEUE
  then show ?thesis using run futexCmpRequeue_ok [OF inv] by (auto simp: handleFutexCall_def)
next
  case FUTEX_WAIT
  then show ?thesis using run futexWait_ok [OF inv t] by (auto simp: handleFutexCall_def)
next
  case FUTEX_WAIT_BITSET
  then show ?thesis using run futexWait_ok [OF inv t] by (auto simp: handleFutexCall_def)
next
  case FUTEX_WAKE
  then show ?thesis using run futexWake_keeps [OF inv] by (auto simp: handleFutexCall_def)
next
  case FUTEX_WAKE_BITSET
  then show ?thesis using run futexWake_keeps [OF inv] by (auto simp: handleFutexCall_def)
qed (use run in \<open>simp add: handleFutexCall_def\<close>)

lemma joinThread_ok:
  assumes inv: "all_agree s" and run: "joinThread fuel env t j s = Inr (w, s')"
  shows "all_agree s'"
proof -
  have b: "t < num_threads s" "j < num_threads s" using run by (auto simp: joinThread_def)
  show ?thesis
  proof (cases "tr_status (thr s j) = IDLE")
    case True
    then show ?thesis using run b inv by (simp add: joinThread_def)
  next
    case False
    then obtain time r where st: "stallThread_sys fuel env t STALL_JOIN time (upd_thread j (tr_waiter_update (\<lambda>_. Some t)) s) = Inr (r, s')"
      using run b by (auto simp: joinThread_def split: option.splits)
    have "all_agree (upd_thread j (tr_waiter_update (\<lambda>_. Some t)) s)" by (rule thread_inv_note [OF inv b(2)]) simp_all
    then show ?thesis by (rule stallThread_sys_ok [OF _ _ _ st]) (use b in simp_all)
  qed
qed

lemma waitForThreadStart_ok:
  assumes inv: "all_agree s" and run: "waitForThreadStart t j s = Inr (w, s')"
  shows "all_agree s'"
proof -
  have b: "t < num_threads s" "j < num_threads s" using run by (auto simp: waitForThreadStart_def)
  have "s' = s \<or> s' = upd_thread t (tr_wakeup_msg_update (\<lambda>_. False)) (upd_thread j (tr_waiter_update (\<lambda>_. Some t)) s)"
    using run b by (auto simp: waitForThreadStart_def split: if_splits)
  moreover have "all_agree (upd_thread j (tr_waiter_update (\<lambda>_. Some t)) s)" by (rule thread_inv_note [OF inv b(2)]) simp_all
  ultimately show ?thesis using inv thread_inv_note [of "{}" "{}" "upd_thread j (tr_waiter_update (\<lambda>_. Some t)) s" t "tr_wakeup_msg_update (\<lambda>_. False)"] b by auto
qed

section \<open>The step relation\<close>

text \<open>
  Every entry point of the thread manager, the scheduler, the syscall server and the barrier; time and instructions of a core advance by themselves. The
  number of rounds that a step may take is arbitrary.
\<close>

inductive thread_step :: "thread_sys \<Rightarrow> thread_sys \<Rightarrow> bool" where
  step_create: "createThread s = Inr (t, s') \<Longrightarrow> thread_step s s'"
| step_spawn: "spawnThread by_thread s = Inr (t, s') \<Longrightarrow> thread_step s s'"
| step_spawned: "getThreadToSpawn s = Inr (t, time, s') \<Longrightarrow> thread_step s s'"
| step_start: "vectors_suffice t s \<Longrightarrow> onThreadStart t time s = Inr s' \<Longrightarrow> thread_step s s'"
| step_exit: "onThreadExit fuel env t s = Inr s' \<Longrightarrow> thread_step s s'"
| step_stall: "t < num_threads s \<Longrightarrow> reason \<noteq> STALL_UNSCHEDULED \<Longrightarrow> stallThread_sys fuel env t reason time s = Inr (r, s') \<Longrightarrow> thread_step s s'"
| step_stall_async: "t < num_threads s \<Longrightarrow> reason \<noteq> STALL_UNSCHEDULED \<Longrightarrow> stallThread_async_sys fuel env t reason time s = Inr s' \<Longrightarrow> thread_step s s'"
| step_resume: "resumeThread_sys t time msg s = Inr s' \<Longrightarrow> thread_step s s'"
| step_reschedule: "t < num_threads s \<Longrightarrow> Thread_reschedule fuel env t time current s = Inr (r, s') \<Longrightarrow> thread_step s s'"
| step_join_end: "t < num_threads s \<Longrightarrow> joinThread_end fuel env t time current s = Inr (w, s') \<Longrightarrow> thread_step s s'"
| step_join: "joinThread fuel env t j s = Inr (w, s') \<Longrightarrow> thread_step s s'"
| step_wait_start: "waitForThreadStart t j s = Inr (w, s') \<Longrightarrow> thread_step s s'"
| step_yield: "threadYield t s = Inr s' \<Longrightarrow> thread_step s s'"
| step_affinity: "threadSetAffinity calling t m s = Inr s' \<Longrightarrow> thread_step s s'"
| step_futex: "t < num_threads s \<Longrightarrow> handleFutexCall fuel env t args av av2 now s = Inr (fr, e, s') \<Longrightarrow> thread_step s s'"
| step_sleep: "t < num_threads s \<Longrightarrow> handleSleepCall fuel env t wake now s = Inr (r, s') \<Longrightarrow> thread_step s s'"
| step_barrier: "barrier_synchronize fuel env core time s = Inr (w, s') \<Longrightarrow> thread_step s s'"
| step_disable: "thread_step s (upd_barrier (barrier_setDisable d) s)"
| step_group: "barrier_setGroup core master (ts_barrier s) = Inr b \<Longrightarrow> thread_step s (s\<lparr>ts_barrier := b\<rparr>)"
| step_fastforward: "thread_step s (upd_barrier (barrier_setFastForward f next) s)"
| step_interval: "thread_step s (upd_barrier (barrier_setBarrierInterval interval) s)"
| step_time: "thread_step s (upd_core c (\<lambda>x. x\<lparr>sc_elapsed_time := time, sc_instruction_count := n\<rparr>) s)"

text \<open>A run starts with the first thread of a system that was built with one of the policies \<^verbatim>\<open>pinned\<close>, \<^verbatim>\<open>roaming\<close> and \<^verbatim>\<open>big_small\<close>.\<close>

definition thread_init :: "thread_sys \<Rightarrow> bool" where
  "thread_init s \<longleftrightarrow> (\<exists>cfg cores b t. scf_type cfg \<in> {''pinned'', ''roaming'', ''big_small''} \<and> ThreadManager_create cfg cores = Inr b \<and> createThread b = Inr (t, s))"

lemma built_boot:
  assumes "scf_type cfg \<in> {''pinned'', ''roaming'', ''big_small''}" "ThreadManager_create cfg cores = Inr b"
  shows "thread_boot b"
  using assms
  by (auto simp: thread_boot_def ThreadManager_create_def Scheduler_create_def SchedulerPinnedBase_create_def SchedulerBigSmall_create_def Let_def)

lemma affinity_ok:
  assumes inv: "all_agree s" and run: "threadSetAffinity calling t m s = Inr s'"
  shows "all_agree s'"
proof -
  define g where "g = grow_info t (t + 16) s"
  have g: "all_agree g" "num_threads g = num_threads s" "num_cores g = num_cores s" using grow_info_ok [OF inv] by (simp_all add: g_def)
  obtain i where i: "setAffinityMask (num_cores s) m ((info g t)\<lparr>ti_explicit_affinity := True\<rparr>) = Inr i"
    using run by (auto simp: threadSetAffinity_def Let_def g_def)
  have tg: "t < num_infos g" by (simp add: g_def grow_info_def)
  have i2: "all_agree (upd_info t (\<lambda>_. i) g)" using upd_info_ok(1) [OF g(1) tg, of "\<lambda>_. i"] setAffinityMask_keeps [OF i] by simp
  show ?thesis
  proof (cases "num_threads s \<le> t")
    case True
    then have "s' = upd_info t (\<lambda>_. i) g" using run i g by (auto simp: threadSetAffinity_def Let_def g_def [symmetric] upd_info_def)
    then show ?thesis using i2 by simp
  next
    case False
    show ?thesis
    proof (cases "calling = Some t")
      case True
      then have "threadYield t (upd_info t (\<lambda>_. i) g) = Inr s'" using run i g False by (auto simp: threadSetAffinity_def Let_def g_def [symmetric] upd_info_def)
      then show ?thesis using keeps_schedD(1) [OF threadYield_ok [OF i2]] by blast
    next
      case neq: False
      then show ?thesis using keeps_schedD(1) [OF threadSetAffinity_other [OF inv _ neq run]] False by simp
    qed
  qed
qed

lemma Thread_reschedule_ok:
  assumes "all_agree s" "t < num_threads s" "Thread_reschedule fuel env t time current s = Inr (r, s')"
  shows "all_agree s'"
  using assms stallThread_sys_ok [OF assms(1), of t STALL_UNSCHEDULED]
  by (auto simp: Thread_reschedule_def queue_pseudo_def split: option.splits if_splits)

lemma joinThread_end_ok:
  assumes "all_agree s" "t < num_threads s" "joinThread_end fuel env t time current s = Inr (w, s')"
  shows "all_agree s'"
proof -
  from assms(3) obtain m x where x: "Thread_reschedule fuel env t time current s = Inr (m, x)" and
    rest: "(case m of None \<Rightarrow> Inr (False, x)
       | Some m \<Rightarrow> (case if m then tr_core (thr x t) else current of None \<Rightarrow> Inl (Trap ''null core'')
            | Some c \<Rightarrow> Inr (True, queue_pseudo c (JoinPseudo time) x))) = Inr (w, s')"
    unfolding joinThread_end_def bindR_eq_Inr by (elim exE conjE) (simp only: split_paired_all case_prod_conv)
  from rest have "s' = x \<or> (\<exists>c. s' = queue_pseudo c (JoinPseudo time) x)"
    by (cases m; cases "if the m then tr_core (thr x t) else current") auto
  then show ?thesis using Thread_reschedule_ok [OF assms(1,2) x] by (auto simp: queue_pseudo_def)
qed

interpretation ths: inductive_invariant thread_init thread_step all_agree
proof
  fix s assume "thread_init s"
  then show "all_agree s" using boot_create built_boot unfolding thread_init_def by blast
next
  fix s s' assume inv: "all_agree s" and st: "thread_step s s'"
  from st inv show "all_agree s'"
  proof cases
    case (step_create t)
    show ?thesis by (rule createThread_ok [OF grow_info_ok(1) [OF inv] step_create])
  next
    case (step_spawn b t)
    then obtain x start where x: "createThread s = Inr (t, x)" "s' = x\<lparr>ts_spawn_list := ts_spawn_list x @ [(b, t, start)]\<rparr>"
      by (auto simp: spawnThread_def)
    then show ?thesis using createThread_ok [OF grow_info_ok(1) [OF inv] x(1)] by simp
  next
    case (step_spawned t time)
    then show ?thesis using inv by (auto simp: getThreadToSpawn_def split: list.splits)
  next
    case (step_start t time)
    then show ?thesis using onThreadStart_ok [OF inv] by blast
  next
    case (step_exit fuel env t)
    then show ?thesis using onThreadExit_ok [OF inv] by blast
  next
    case (step_stall t reason fuel env time r)
    then show ?thesis using stallThread_sys_ok [OF inv] by blast
  next
    case (step_stall_async t reason fuel env time)
    then show ?thesis using stallThread_async_ok [OF inv] by blast
  next
    case (step_resume t time msg)
    then show ?thesis using resume_keeps(1) [OF inv] by blast
  next
    case (step_reschedule t fuel env time current r)
    then show ?thesis using Thread_reschedule_ok [OF inv] by blast
  next
    case (step_join_end t fuel env time current w)
    then show ?thesis using joinThread_end_ok [OF inv] by blast
  next
    case (step_join fuel env t j w)
    then show ?thesis using joinThread_ok [OF inv] by blast
  next
    case (step_wait_start t j w)
    then show ?thesis using waitForThreadStart_ok [OF inv] by blast
  next
    case (step_yield t)
    then show ?thesis using keeps_schedD(1) [OF threadYield_ok [OF inv]] by blast
  next
    case (step_affinity calling t m)
    then show ?thesis using affinity_ok [OF inv] by blast
  next
    case (step_futex t fuel env args av av2 now fr e)
    then show ?thesis using handleFutexCall_ok [OF inv] by blast
  next
    case (step_sleep t fuel env wake now r)
    define x where "x = s\<lparr>ts_sleeping := ts_sleeping s @ [\<lparr>fw_thread_id = t, fw_mask = 0, fw_timeout = wake\<rparr>]\<rparr>"
    have "stallThread_sys fuel env t STALL_SLEEP now x = Inr (r, s')" using step_sleep by (simp add: handleSleepCall_def x_def)
    note st = this
    have "all_agree x" "t < num_threads x" using inv step_sleep(1) by (simp_all add: x_def)
    then show ?thesis by (rule stallThread_sys_ok [OF _ _ _ st]) simp
  next
    case (step_barrier fuel env core time w)
    then show ?thesis using barrier_synchronize_ok [OF inv] by blast
  next
    case (step_time c time n)
    have "same_places s s'" by (cases "c < num_cores s") (auto simp: step_time same_places_def nth_list_update list_update_beyond)
    then show ?thesis using sched_inv_same_sched [OF inv] step_time by simp
  qed auto
qed

section \<open>Properties of reachable states\<close>

lemma on_core_status:
  assumes inv: "all_agree s" and c: "c < num_cores s" "sc_thread (ts_cores s ! c) = Some t"
  shows "t < num_threads s" "tr_status (thr s t) \<in> {INITIALIZING, RUNNING}" "ctr s c = Some t"
proof -
  note D = sched_invD [OF inv]
  have on: "t < num_threads s" "tr_core (thr s t) = Some c" using core_thread_iff [OF inv c(1)] c(2) by auto
  then show "t < num_threads s" "ctr s c = Some t" using D(3) D(5) [of t c] D(6) [of t] by auto
  then have "tr_status (thr s t) = INITIALIZING \<or> t < length (runnable s) \<and> runnable s ! t" using on_core_ready [OF inv c(1)] by simp
  then show "tr_status (thr s t) \<in> {INITIALIZING, RUNNING}" using D(8) [of t] on by auto
qed

lemma core_view:
  assumes inv: "all_agree s" and c: "c < num_cores s"
  shows "sc_thread (ts_cores s ! c) = ctr s c"
proof (cases "ctr s c")
  case (Some t)
  then have "t < num_threads s" "ti_core_running (info s t) = Some c" using sched_invD(4) [OF inv c] by auto
  then show ?thesis using Some core_thread_iff [OF inv c, of t] sched_invD(6) [OF inv, of t] by simp
next
  case None
  then show ?thesis using on_core_status(3) [OF inv c] by (cases "sc_thread (ts_cores s ! c)") auto
qed

text \<open>
  C12: In every reachable state the scheduler, the threads and the cores agree: a core has the thread that the scheduler has placed there, a thread is on a core
  exactly when the core has it, so no thread is on two cores and no core has two threads. A thread on a core is starting or running, never stalled, and a core
  without a thread is idle.
\<close>

theorem threads_and_cores_agree:
  assumes "reach thread_init thread_step s"
  shows "(\<forall>c<num_cores s. sc_thread (ts_cores s ! c) = sp_core_thread_running (ts_sched s) ! c)
    \<and> (\<forall>t<length (ts_threads s). \<forall>c. tr_core (ts_threads s ! t) = Some c \<longleftrightarrow> c < num_cores s \<and> sc_thread (ts_cores s ! c) = Some t)
    \<and> (\<forall>c<num_cores s. \<forall>t. sc_thread (ts_cores s ! c) = Some t \<longrightarrow> t < length (ts_threads s) \<and> tr_status (ts_threads s ! t) \<in> {INITIALIZING, RUNNING})
    \<and> (\<forall>c<num_cores s. sc_thread (ts_cores s ! c) = None \<longrightarrow> sc_state (ts_cores s ! c) = IDLE)"
proof -
  have inv: "all_agree s" by (rule ths.reach_inv [OF assms])
  have "tr_core (thr s t) = Some c \<longleftrightarrow> c < num_cores s \<and> sc_thread (ts_cores s ! c) = Some t" if "t < num_threads s" for t c
  proof
    assume "tr_core (thr s t) = Some c"
    then have "ti_core_running (info s t) = Some c" using sched_invD(6) [OF inv that] by simp
    then have "c < num_cores s" using sched_invD(3) [OF inv] sched_invD(5) [OF inv, of t c] that by auto
    then show "c < num_cores s \<and> sc_thread (ts_cores s ! c) = Some t" using core_thread_iff [OF inv, of c t] \<open>tr_core (thr s t) = Some c\<close> that by simp
  qed (use core_thread_iff [OF inv, of c t] in simp)
  then show ?thesis using core_view [OF inv] on_core_status(1,2) [OF inv] core_idle [OF inv] by blast
qed

text \<open>
  C13: Rescheduling always comes to an end, although resuming a thread reschedules another core: in a reachable state any core can be
  rescheduled and any started thread resumed, and no assertion, in particular that the core of a thread to move is empty, fails on the way.
\<close>

theorem rescheduling_terminates:
  assumes "reach thread_init thread_step s"
  shows "(\<forall>c<num_cores s. \<exists>s'. reschedule time c is_periodic s = Inr s')
    \<and> (\<forall>t<length (ts_threads s). t < length (sp_threads_runnable (ts_sched s))
        \<longrightarrow> (\<exists>s'. resumeThread_sys t time msg s = Inr s' \<and> tr_status (ts_threads s' ! t) = RUNNING))"
  using reschedule_ok [OF ths.reach_inv [OF assms]] resume_ok [OF ths.reach_inv [OF assms]] by blast

text \<open>
  C19: Unless its thread is still starting, a rescheduled core runs a thread that may run there and has the highest score, that is, has waited the
  longest or, when none waits, has run the shortest; it is left without a thread only when no such thread has a score above the least integer.
\<close>

theorem reschedule_picks_longest_waiting:
  assumes "reach thread_init thread_step s" and "c < num_cores s"
    and "\<And>t. sp_core_thread_running (ts_sched s) ! c = Some t \<Longrightarrow> tr_status (ts_threads s ! t) \<noteq> INITIALIZING"
  shows "\<exists>s'. reschedule time c is_periodic s = Inr s'
    \<and> (case sp_core_thread_running (ts_sched s') ! c of
         Some t \<Rightarrow> eligible c t (ts_sched s) \<and> (\<forall>v<length (sp_threads_runnable (ts_sched s)). eligible c v (ts_sched s)
             \<longrightarrow> sched_score time (sp_thread_info (ts_sched s) ! v) \<le> sched_score time (sp_thread_info (ts_sched s) ! t))
       | None \<Rightarrow> (\<forall>v<length (sp_threads_runnable (ts_sched s)). eligible c v (ts_sched s) \<longrightarrow> sched_score time (sp_thread_info (ts_sched s) ! v) \<le> - (2 ^ 63)))"
proof -
  note inv = ths.reach_inv [OF assms(1)]
  have "\<exists>s'. reschedule time c is_periodic s = Inr s' \<and> ctr s' c = pick_thread time c (ts_sched s)"
  proof (cases "ctr s c")
    case None
    then show ?thesis using reschedule_free [OF inv assms(2)] by blast
  next
    case (Some u)
    then show ?thesis using reschedule_taken [OF inv assms(2) Some assms(3) [OF Some]] by blast
  qed
  then obtain s' where s': "reschedule time c is_periodic s = Inr s'" "ctr s' c = pick_thread time c (ts_sched s)" by blast
  show ?thesis
  proof (intro exI conjI)
    show "case ctr s' c of
         Some t \<Rightarrow> eligible c t (ts_sched s) \<and> (\<forall>v<length (runnable s). eligible c v (ts_sched s) \<longrightarrow> sched_score time (info s v) \<le> sched_score time (info s t))
       | None \<Rightarrow> (\<forall>v<length (runnable s). eligible c v (ts_sched s) \<longrightarrow> sched_score time (info s v) \<le> - (2 ^ 63))"
      using pick_thread_eligible(2,3) [of time c "ts_sched s"] pick_thread_None [of time c "ts_sched s"] s'(2) by (auto split: option.splits)
  qed (rule s'(1))
qed

section \<open>The pinned policy hands out all cores\<close>

definition step_core :: "nat \<Rightarrow> nat \<Rightarrow> nat \<Rightarrow> nat" where
  "step_core n k c = (if c + k < n then c + k else ((c + k) mod n + 1) mod k)"

lemma getNextCore_full:
  assumes "0 < k" "k \<le> n" "c < n"
  shows "getNextCore n k (replicate n True) c = Some (Inr (step_core n k c))" "step_core n k c < n"
proof -
  show lt: "step_core n k c < n" using assms by (auto simp: step_core_def intro: less_le_trans [OF mod_less_divisor])
  have "next_core n k c = Inr (step_core n k c)" using assms by (auto simp: next_core_def step_core_def)
  then show "getNextCore n k (replicate n True) c = Some (Inr (step_core n k c))" using lt by (subst getNextCore.simps) simp
qed

lemma step_core_orbit:
  assumes "0 < k" "0 < m" "i < k * m"
  shows "(step_core (k * m) k ^^ i) 0 = i div m + (i mod m) * k"
  using assms(3)
proof (induction i)
  case (Suc i)
  define r where "r = i div m"
  define j where "j = i mod m"
  have j: "j < m" "r < k" using assms Suc.prems by (simp_all add: j_def r_def less_mult_imp_div_less mult.commute)
  have ih: "(step_core (k * m) k ^^ i) 0 = r + j * k" using Suc by (simp add: r_def j_def)
  have i: "i = r * m + j" by (simp add: r_def j_def)
  show ?case
  proof (cases "Suc j < m")
    case True
    then have "Suc i div m = r" "Suc i mod m = Suc j" using i by (simp_all add: div_nat_eqI mod_nat_eqI algebra_simps)
    moreover have "r + j * k + k < k * m"
    proof -
      have "r + j * k + k < k + (j + 1) * k" using j by simp
      also have "\<dots> = k * (Suc (Suc j))" by simp
      also have "\<dots> \<le> k * m" using True by (intro mult_le_mono) simp_all
      finally show ?thesis .
    qed
    moreover from this have "step_core (k * m) k (r + j * k) = r + j * k + k" by (simp add: step_core_def)
    ultimately show ?thesis using ih by simp
  next
    case False
    then have jm: "Suc j = m" using j by simp
    then have d: "Suc i = Suc r * m" using i by simp
    then have "Suc r * m < k * m" using Suc.prems by simp
    then have "Suc r < k" by (simp only: mult_less_cancel2)
    have e: "r + j * k + k = r + k * m" using jm by (metis add.assoc add.commute mult.commute mult_Suc)
    have "step_core (k * m) k (r + j * k) = (r mod (k * m) + 1) mod k" unfolding step_core_def e by simp
    also have "r mod (k * m) = r" using j assms(2) by (metis mod_less less_le_trans nat_mult_1_right Suc_leI One_nat_def mult_le_mono2)
    finally have f: "step_core (k * m) k (r + j * k) = Suc r" using \<open>Suc r < k\<close> by simp
    have "Suc i div m = Suc r" "Suc i mod m = 0" unfolding d using assms(2) by simp_all
    then show ?thesis using ih f by simp
  qed
qed simp

text \<open>
  The pinned scheduler hands out the cores in turn: when the interleaving divides the number of cores and no core is masked, as many steps of
  \<^verbatim>\<open>getNextCore\<close> from core 0 as there are cores visit every core exactly once.
\<close>

theorem pinned_visits_all_cores:
  assumes "0 < interleaving" and "interleaving dvd cores" and "0 < cores"
  shows "\<exists>visit. visit 0 = 0 \<and> (\<forall>i<cores. getNextCore cores interleaving (replicate cores True) (visit i) = Some (Inr (visit (Suc i))))
    \<and> bij_betw visit {..<cores} {..<cores}"
proof -
  obtain m where m: "cores = interleaving * m" "0 < m" using assms by auto
  define visit where "visit = (\<lambda>i. (step_core cores interleaving ^^ i) 0)"
  have orbit: "visit i = i div m + (i mod m) * interleaving" if "i < cores" for i
    using step_core_orbit [OF assms(1) m(2)] that by (simp add: visit_def m(1))
  have lt: "visit i < cores" for i
    using getNextCore_full(2) [OF assms(1) _, of cores] m assms by (induction i) (auto simp: visit_def dvd_imp_le)
  have "inj_on visit {..<cores}"
  proof (rule inj_onI)
    fix a b assume ab: "a \<in> {..<cores}" "b \<in> {..<cores}" "visit a = visit b"
    have q: "a div m < interleaving" "b div m < interleaving" using ab m by (simp_all add: less_mult_imp_div_less)
    have "a div m + (a mod m) * interleaving = b div m + (b mod m) * interleaving" using ab orbit by simp
    then have "(a div m + (a mod m) * interleaving) mod interleaving = (b div m + (b mod m) * interleaving) mod interleaving"
      "(a div m + (a mod m) * interleaving) div interleaving = (b div m + (b mod m) * interleaving) div interleaving" by simp_all
    then have "a div m = b div m" "a mod m = b mod m" using q by simp_all
    then show "a = b" by (metis div_mult_mod_eq)
  qed
  moreover have "visit ` {..<cores} \<subseteq> {..<cores}" using lt by auto
  ultimately have "bij_betw visit {..<cores} {..<cores}" by (simp add: bij_betw_def endo_inj_surj)
  moreover have "getNextCore cores interleaving (replicate cores True) (visit i) = Some (Inr (visit (Suc i)))" for i
    using getNextCore_full(1) [OF assms(1) dvd_imp_le [OF assms(2,3)] lt] by (simp add: visit_def)
  ultimately show ?thesis by (intro exI [of _ visit]) (simp add: visit_def)
qed

text \<open>With an interleaving that does not divide the number of cores some cores are never handed out: of three cores every second one is used.\<close>

lemma pinned_skips_core:
  "getNextCore 3 2 (replicate 3 True) 0 = Some (Inr 2)" "getNextCore 3 2 (replicate 3 True) 2 = Some (Inr 0)"
  using getNextCore_full(1) [of 2 3 0] getNextCore_full(1) [of 2 3 2] by (simp_all add: step_core_def)

section \<open>A run with three threads on two cores\<close>

definition example_config :: sched_config where
  "example_config = \<lparr>scf_type = ''roaming'', scf_quantum = 1000, scf_interleaving = 1, scf_core_mask = (\<lambda>_. True), scf_is_big = (\<lambda>_. False),
     scf_sequence = [], scf_barrier_quantum = 100\<rparr>"

definition example_boot :: thread_sys where
  "example_boot = projr (ThreadManager_create example_config 2)"

definition example_created :: thread_sys where
  "example_created = snd (projr (createThread (snd (projr (createThread (snd (projr (createThread example_boot))))))))"

definition example_started :: thread_sys where
  "example_started = projr (onThreadStart 2 5000 (projr (onThreadStart 0 5000 example_created)))"

lemma is_ok_projr: "is_ok r \<Longrightarrow> r = Inr (projr r)"
  by (cases r) simp_all

lemma is_ok_pair: "is_ok r \<Longrightarrow> r = Inr (fst (projr r), snd (projr r))"
  by (cases r) simp_all

lemma example_steps_ok:
  "is_ok (createThread example_boot)" "is_ok (createThread (snd (projr (createThread example_boot))))"
  "is_ok (createThread (snd (projr (createThread (snd (projr (createThread example_boot)))))))" "is_ok (onThreadStart 0 5000 example_created)"
  "is_ok (onThreadStart 2 5000 (projr (onThreadStart 0 5000 example_created)))"
  by code_simp+

lemma example_vectors: "vectors_suffice 0 example_created" "vectors_suffice 2 (projr (onThreadStart 0 5000 example_created))"
  unfolding vectors_suffice_def by code_simp+

lemma started_reach: "reach thread_init thread_step example_started"
proof -
  let ?a = "snd (projr (createThread example_boot))"
  let ?b = "snd (projr (createThread ?a))"
  have "ThreadManager_create example_config 2 = Inr example_boot" "scf_type example_config = ''roaming''"
    by (simp_all add: example_boot_def example_config_def ThreadManager_create_def Scheduler_create_def Let_def)
  then have "thread_init ?a" using is_ok_pair [OF example_steps_ok(1)] unfolding thread_init_def by blast
  then have "reach thread_init thread_step ?a" by (rule reach_init)
  then have "reach thread_init thread_step ?b" by (rule reach_step) (rule step_create [OF is_ok_pair [OF example_steps_ok(2)]])
  then have "reach thread_init thread_step example_created"
    unfolding example_created_def by (rule reach_step) (rule step_create [OF is_ok_pair [OF example_steps_ok(3)]])
  then have "reach thread_init thread_step (projr (onThreadStart 0 5000 example_created))"
    by (rule reach_step) (rule step_start [OF example_vectors(1) is_ok_projr [OF example_steps_ok(4)]])
  then show ?thesis unfolding example_started_def
    by (rule reach_step) (rule step_start [OF example_vectors(2) is_ok_projr [OF example_steps_ok(5)]])
qed

lemma example_facts:
  "num_cores example_started = 2" "length (ts_threads example_started) = 3" "sc_thread (ts_cores example_started ! 0) = Some 0"
  "length (sp_threads_runnable (ts_sched example_started)) = 16" "tr_status (ts_threads example_started ! 0) = RUNNING"
  "map tr_core (ts_threads example_started) = [Some 0, Some 1, None]" "sp_core_thread_running (ts_sched example_started) ! 0 = Some 0"
  by code_simp+

theorem threads_and_cores_agree_witness:
  "sc_thread (ts_cores example_started ! 0) = Some 0 \<and> sp_core_thread_running (ts_sched example_started) ! 0 = Some 0
    \<and> tr_core (ts_threads example_started ! 0) = Some 0 \<and> tr_core (ts_threads example_started ! 2) \<noteq> Some 0
    \<and> tr_status (ts_threads example_started ! 0) \<in> {INITIALIZING, RUNNING}"
proof -
  note T = threads_and_cores_agree [OF started_reach]
  have a: "sc_thread (ts_cores example_started ! 0) = sp_core_thread_running (ts_sched example_started) ! 0" using T example_facts by simp
  have b: "tr_core (ts_threads example_started ! t) = Some 0 \<longleftrightarrow> sc_thread (ts_cores example_started ! 0) = Some t" if "t < 3" for t
    using T example_facts(1,2) that by auto
  have c: "tr_status (ts_threads example_started ! 0) \<in> {INITIALIZING, RUNNING}" using T [THEN conjunct2, THEN conjunct2, THEN conjunct1, rule_format, of 0 0] example_facts(1,3) by simp
  show ?thesis using b [of 0] b [of 2] c example_facts(3) unfolding a [symmetric] by simp
qed

theorem rescheduling_terminates_witness:
  "(\<exists>s'. reschedule 7000 1 True example_started = Inr s')
    \<and> (\<exists>s'. resumeThread_sys 2 7000 True example_started = Inr s' \<and> tr_status (ts_threads s' ! 2) = RUNNING)"
  using rescheduling_terminates [OF started_reach, of 7000 True True] example_facts by simp

theorem reschedule_picks_longest_waiting_witness:
  "\<exists>s'. reschedule 7000 0 True example_started = Inr s'
    \<and> (case sp_core_thread_running (ts_sched s') ! 0 of
         Some t \<Rightarrow> eligible 0 t (ts_sched example_started) \<and> (\<forall>v<16. eligible 0 v (ts_sched example_started)
             \<longrightarrow> sched_score 7000 (sp_thread_info (ts_sched example_started) ! v) \<le> sched_score 7000 (sp_thread_info (ts_sched example_started) ! t))
       | None \<Rightarrow> (\<forall>v<16. eligible 0 v (ts_sched example_started) \<longrightarrow> sched_score 7000 (sp_thread_info (ts_sched example_started) ! v) \<le> - (2 ^ 63)))"
  by (rule reschedule_picks_longest_waiting [OF started_reach, of 0 7000 True, unfolded example_facts(1,4,7)]) (simp_all add: example_facts(5))

theorem pinned_visits_all_cores_witness:
  "\<exists>visit. visit 0 = 0 \<and> (\<forall>i<6. getNextCore 6 2 (replicate 6 True) (visit i) = Some (Inr (visit (Suc i)))) \<and> bij_betw visit {..<6} {..<6}"
  using pinned_visits_all_cores [of 2 6] by simp

section \<open>Where the code does not do what it means to\<close>

text \<open>
  \<^verbatim>\<open>FUTEX_WAKE_BITSET\<close> is \<^verbatim>\<open>FUTEX_WAKE\<close>: the mask of the call is ignored, because the branch of the wake-ups tests for
  \<^verbatim>\<open>FUTEX_WAIT_BITSET\<close>. Waiters whose mask does not meet that of the call are woken, too.
\<close>

lemma wake_bitset_ignores_mask:
  "handleFutexCall fuel env t (args\<lparr>fa_cmd := FUTEX_WAKE_BITSET, fa_val3 := m\<rparr>) v v2 now s
    = handleFutexCall fuel env t (args\<lparr>fa_cmd := FUTEX_WAKE\<rparr>) v v2 now s"
  by (simp add: handleFutexCall_def)

text \<open>The next time-out is the last one of the list, not the earliest one.\<close>

lemma next_timeout_not_earliest:
  "last_timeout [\<lparr>fw_thread_id = 0, fw_mask = 0, fw_timeout = 100\<rparr>, \<lparr>fw_thread_id = 1, fw_mask = 0, fw_timeout = 200\<rparr>] = 200"
  by (simp add: last_timeout_def)

text \<open>
  The assertion of the sequential scheduler allows fewer sets than cores, but its constructor then leaves the vector of the sets.
\<close>

lemma foldR_in_range:
  assumes "foldR (\<lambda>i (x, y). bindR (atR seqs i) (\<lambda>n. Inr (f n x y))) xs acc = Inr r"
  shows "\<forall>i\<in>set xs. i < length seqs"
  using assms by (induction xs arbitrary: acc) (auto split: prod.splits)

lemma sequential_needs_set_per_core:
  assumes "length seqs \<noteq> cores"
  shows "\<not> is_ok (SchedulerSequential_create seqs cores)"
proof
  assume "is_ok (SchedulerSequential_create seqs cores)"
  then obtain p where p: "SchedulerSequential_create seqs cores = Inr p" by (cases "SchedulerSequential_create seqs cores") auto
  then have "length seqs < cores" using assms by (auto simp: SchedulerSequential_create_def)
  moreover have "\<forall>i\<in>set [0..<cores]. i < length seqs"
    using p unfolding SchedulerSequential_create_def bindR_eq_Inr by (elim exE conjE) (erule foldR_in_range)
  ultimately show False by auto
qed

end
