(* ===== verification/Thread_Barrier.thy ===== *)
theory Thread_Barrier
  imports Thread_System
begin

text \<open>
  The barrier that keeps the clocks of the cores together (\<^verbatim>\<open>system/barrier_sync_server.cc\<close>): when it is reached, which cores a release
  lets go, and that host threads are let go one by one and each exactly once.
\<close>

section \<open>When the barrier is reached\<close>

text \<open>A core that takes part in the barrier and has to arrive; in fast-forward mode waiting is enough, otherwise the clock of a running master counts.\<close>

definition takes_part :: "thread_sys \<Rightarrow> nat \<Rightarrow> bool" where
  "takes_part s c =
     (if bss_fastforward (ts_barrier s) then bss_barrier_acquire_list (ts_barrier s) ! c \<or> isCoreRunning s c = Inr True
      else bss_core_group (ts_barrier s) ! c = None \<and> isCoreRunning s c = Inr True)"

definition has_arrived :: "thread_sys \<Rightarrow> nat \<Rightarrow> bool" where
  "has_arrived s c =
     (if bss_fastforward (ts_barrier s) then bss_barrier_acquire_list (ts_barrier s) ! c
      else bss_next_barrier_time (ts_barrier s) \<le> bss_local_clock_list (ts_barrier s) ! c)"

lemma barrier_scan_iff:
  assumes "barrier_scan s cs reached = Inr r"
  shows "r \<longleftrightarrow> (reached \<or> (\<exists>c\<in>set cs. takes_part s c)) \<and> (\<forall>c\<in>set cs. takes_part s c \<longrightarrow> has_arrived s c)"
  using assms
proof (induction cs arbitrary: reached)
  case (Cons c rest)
  show ?case
  proof (cases "isCoreRunning s c")
    case (Inl e)
    then have "\<not> takes_part s c \<or> has_arrived s c" "barrier_scan s rest (reached \<or> takes_part s c) = Inr r"
      using Cons.prems by (auto simp: Let_def takes_part_def has_arrived_def split: if_splits)
    then show ?thesis using Cons.IH [of "reached \<or> takes_part s c"] by auto
  next
    case (Inr running)
    have "if takes_part s c \<and> \<not> has_arrived s c then r = False else barrier_scan s rest (reached \<or> takes_part s c) = Inr r"
      using Cons.prems Inr by (auto simp: Let_def takes_part_def has_arrived_def not_less split: if_splits)
    then show ?thesis using Cons.IH [of "reached \<or> takes_part s c"] by (auto split: if_splits)
  qed
qed simp

section \<open>Which cores a release lets go\<close>

definition waits_below :: "BarrierSyncServer \<Rightarrow> nat \<Rightarrow> bool" where
  "waits_below b c \<longleftrightarrow> bss_barrier_acquire_list b ! c \<and> bss_local_clock_list b ! c < bss_next_barrier_time b"

definition released :: "nat \<Rightarrow> nat option \<Rightarrow> BarrierSyncServer \<Rightarrow> bool \<times> bool \<times> BarrierSyncServer \<Rightarrow> bool" where
  "released n caller b = (\<lambda>(resumed, must_wait, b').
     bss_local_clock_list b' = bss_local_clock_list b \<and> bss_next_barrier_time b' = bss_next_barrier_time b \<and> bss_core_thread b' = bss_core_thread b
     \<and> bss_barrier_acquire_list b' = map (\<lambda>c. bss_barrier_acquire_list b ! c \<and> (c < n \<longrightarrow> \<not> waits_below b c)) [0..<length (bss_barrier_acquire_list b)]
     \<and> bss_to_release b' = bss_to_release b @ filter (\<lambda>c. waits_below b c \<and> bss_core_thread b ! c \<noteq> caller) [0..<n]
     \<and> (resumed \<longleftrightarrow> (\<exists>c<n. waits_below b c)) \<and> (must_wait \<longleftrightarrow> (\<forall>c<n. waits_below b c \<longrightarrow> bss_core_thread b ! c \<noteq> caller)))"

lemma release_core_step:
  assumes "released n caller b (resumed, must_wait, x)" "n < length (bss_barrier_acquire_list b)"
  shows "released (Suc n) caller b (release_core caller n (resumed, must_wait, x))"
proof -
  note r = assms(1) [unfolded released_def prod.case]
  have w: "bss_local_clock_list x ! n < bss_next_barrier_time x \<and> bss_barrier_acquire_list x ! n \<longleftrightarrow> waits_below b n"
    using r assms(2) by (auto simp: waits_below_def)
  have clear: "(map (\<lambda>c. bss_barrier_acquire_list b ! c \<and> (c < n \<longrightarrow> \<not> waits_below b c)) [0..<length (bss_barrier_acquire_list b)])[n := False]
      = map (\<lambda>c. bss_barrier_acquire_list b ! c \<and> (c < Suc n \<longrightarrow> \<not> waits_below b c)) [0..<length (bss_barrier_acquire_list b)]" if "waits_below b n"
    using that assms(2) by (auto intro!: nth_equalityI simp: nth_list_update less_Suc_eq split: if_splits)
  have keep: "map (\<lambda>c. bss_barrier_acquire_list b ! c \<and> (c < Suc n \<longrightarrow> \<not> waits_below b c)) [0..<length (bss_barrier_acquire_list b)]
      = map (\<lambda>c. bss_barrier_acquire_list b ! c \<and> (c < n \<longrightarrow> \<not> waits_below b c)) [0..<length (bss_barrier_acquire_list b)]" if "\<not> waits_below b n"
    using that by (auto simp: less_Suc_eq)
  show ?thesis
  proof (cases "waits_below b n")
    case True
    then show ?thesis using r unfolding release_core_def prod.case w by (simp add: released_def Let_def clear All_less_Suc Ex_less_Suc)
  next
    case False
    then show ?thesis using r unfolding release_core_def prod.case w by (simp add: released_def keep All_less_Suc Ex_less_Suc)
  qed
qed

lemma release_cores_released:
  assumes "cores = length (bss_barrier_acquire_list b)"
  shows "released cores caller b (release_cores cores caller b)"
proof -
  have "released n caller b (fold (release_core caller) [0..<n] (False, True, b))" if "n \<le> length (bss_barrier_acquire_list b)" for n
    using that
  proof (induction n)
    case 0
    show ?case by (simp add: released_def map_nth)
  next
    case (Suc n)
    then show ?case using release_core_step by (cases "fold (release_core caller) [0..<n] (False, True, b)") auto
  qed
  then show ?thesis using assms by (simp add: release_cores_def)
qed

section \<open>Letting host threads go\<close>

definition signals :: "barrier_event list \<Rightarrow> nat list" where
  "signals es = concat (map (\<lambda>e. case e of CondSignal c \<Rightarrow> [c] | _ \<Rightarrow> []) es)"

lemma signals_simps [simp]: "signals [] = []" "signals (es @ fs) = signals es @ signals fs" "signals (map CondSignal cs) = cs"
  by (induction cs) (simp_all add: signals_def)

text \<open>How many of \<open>m\<close> waiting cores a call \<^verbatim>\<open>doRelease(n)\<close> may signal: all of them when \<open>n\<close> is negative.\<close>

definition release_quota :: "nat \<Rightarrow> int \<Rightarrow> nat" where
  "release_quota m n = (if n < 0 then m else nat n)"

lemma doRelease_signals:
  assumes "m = length (bss_to_release b)"
  shows "signals (bss_events (doRelease n b)) = signals (bss_events b) @ take (release_quota m n) (rev (bss_to_release b))
    \<and> bss_to_release (doRelease n b) = take (m - release_quota m n) (bss_to_release b)"
  using assms by (auto simp: doRelease_def Let_def release_quota_def min_def)

lemma doReleases_signal:
  "length (bss_to_release b) \<le> m \<Longrightarrow> k = (\<Sum>n\<leftarrow>ns. release_quota m n) \<Longrightarrow>
    signals (bss_events (fold doRelease ns b)) = signals (bss_events b) @ take k (rev (bss_to_release b))
    \<and> bss_to_release (fold doRelease ns b) = take (length (bss_to_release b) - k) (bss_to_release b)"
proof (induction ns arbitrary: b k)
  case (Cons n ns)
  let ?l = "length (bss_to_release b)" and ?q = "release_quota m n" and ?k = "\<Sum>n\<leftarrow>ns. release_quota m n"
  have q: "take (release_quota ?l n) xs = take ?q xs" if "length xs = ?l" for xs :: "nat list"
    using Cons.prems(1) that by (simp add: release_quota_def)
  have lq: "?l - release_quota ?l n = ?l - ?q" using Cons.prems(1) by (simp add: release_quota_def)
  have d: "signals (bss_events (doRelease n b)) = signals (bss_events b) @ take ?q (rev (bss_to_release b))"
    "bss_to_release (doRelease n b) = take (?l - ?q) (bss_to_release b)"
    using doRelease_signals [OF refl, of n b] q [of "rev (bss_to_release b)"] lq by simp_all
  have "rev (take (?l - ?q) (bss_to_release b)) = drop ?q (rev (bss_to_release b))"
    by (cases "?q \<le> ?l") (simp_all add: rev_take)
  moreover have "take ?q xs @ take ?k (drop ?q xs) = take (?q + ?k) xs" for xs :: "nat list" by (simp add: take_add)
  ultimately show ?case using Cons.IH [of "doRelease n b" ?k] Cons.prems d
    by (simp add: min.absorb1 min.absorb2 diff_diff_eq)
qed simp

section \<open>Properties\<close>

text \<open>
  C21: The barrier is reached exactly when at least one core takes part and every core that does has arrived. Outside fast-forward mode the masters of the groups
  take part whose group runs a thread, and a core has arrived when its clock is at the barrier; in fast-forward mode a core that runs must wait in the barrier.
\<close>

theorem barrier_reached_iff:
  assumes "isBarrierReached s = Inr r"
  shows "r \<longleftrightarrow> (\<exists>c<num_cores s. takes_part s c) \<and> (\<forall>c<num_cores s. takes_part s c \<longrightarrow> has_arrived s c)"
  using barrier_scan_iff [OF assms [unfolded isBarrierReached_def]] by (auto simp: Bex_def)

text \<open>
  C20: A round of the release lets exactly the waiting cores go whose clock is below the next barrier: they stop waiting, all but that of the caller are put on the
  list of threads to release, every other core waits on, and the caller must wait unless one of the cores is its own. Whatever calls
  \<^verbatim>\<open>doRelease(n)\<close> follow, they signal exactly as many cores of the list as they may (all of them for a negative \<open>n\<close>), each one once, from
  the back, and leave the others on the list; so calls for as many cores as the list has signal every one of them.
\<close>

theorem barrier_release_exact:
  assumes "length (bss_barrier_acquire_list b) = cores" and "release_cores cores caller b = (resumed, must_wait, b')"
  shows "(\<forall>c<cores. bss_barrier_acquire_list b' ! c \<longleftrightarrow> bss_barrier_acquire_list b ! c \<and> bss_next_barrier_time b \<le> bss_local_clock_list b ! c)
    \<and> bss_to_release b' = bss_to_release b @ filter (\<lambda>c. bss_barrier_acquire_list b ! c \<and> bss_local_clock_list b ! c < bss_next_barrier_time b
         \<and> bss_core_thread b ! c \<noteq> caller) [0..<cores]
    \<and> (resumed \<longleftrightarrow> (\<exists>c<cores. bss_barrier_acquire_list b ! c \<and> bss_local_clock_list b ! c < bss_next_barrier_time b))
    \<and> (must_wait \<longleftrightarrow> (\<forall>c<cores. bss_barrier_acquire_list b ! c \<and> bss_local_clock_list b ! c < bss_next_barrier_time b \<longrightarrow> bss_core_thread b ! c \<noteq> caller))
    \<and> (let m = length (bss_to_release b'); k = (\<Sum>n\<leftarrow>ns. release_quota m n); b'' = fold doRelease ns b'
       in signals (bss_events b'') = signals (bss_events b') @ take k (rev (bss_to_release b'))
          \<and> bss_to_release b'' = take (m - k) (bss_to_release b'))"
  using release_cores_released [of cores b caller] assms doReleases_signal [of b' _ _ ns, OF order_refl refl] unfolding Let_def
  by (auto simp: released_def waits_below_def not_less)

definition example_barrier :: BarrierSyncServer where
  "example_barrier = \<lparr>bss_barrier_interval = 100, bss_next_barrier_time = 300, bss_local_clock_list = [210, 320, 250, 0],
     bss_barrier_acquire_list = [True, True, True, False], bss_to_release = [], bss_core_group = replicate 4 None,
     bss_core_thread = [Some 0, Some 1, Some 2, None], bss_global_time = 200, bss_fastforward = False, bss_disable = False, bss_events = []\<rparr>"

theorem barrier_release_exact_witness:
  "bss_to_release (snd (snd (release_cores 4 (Some 0) example_barrier))) = [2] \<and> \<not> fst (snd (release_cores 4 (Some 0) example_barrier))
    \<and> signals (bss_events (fold doRelease [0, 1, 5] (snd (snd (release_cores 4 (Some 0) example_barrier))))) =
        signals (bss_events (snd (snd (release_cores 4 (Some 0) example_barrier)))) @ [2]"
proof -
  obtain r m b' where r: "release_cores 4 (Some 0) example_barrier = (r, m, b')" by (metis prod_cases3)
  note T = barrier_release_exact [OF _ r]
  have f: "filter (\<lambda>c. bss_barrier_acquire_list example_barrier ! c \<and> bss_local_clock_list example_barrier ! c < bss_next_barrier_time example_barrier
         \<and> bss_core_thread example_barrier ! c \<noteq> Some 0) [0..<4] = [2]"
    by code_simp
  have b: "bss_to_release b' = [2]" using T unfolding f by (simp add: example_barrier_def)
  moreover have "signals (bss_events (fold doRelease [0, 1, 5] b')) = signals (bss_events b') @ [2]"
    using T [of "[0, 1, 5]"] b by (simp add: example_barrier_def release_quota_def Let_def)
  moreover have "\<not> m" using T by (auto simp: example_barrier_def intro!: exI [of _ 0])
  ultimately show ?thesis by (simp add: r)
qed

definition example_synchronised :: thread_sys where
  "example_synchronised = (projr (ThreadManager_create
     \<lparr>scf_type = ''roaming'', scf_quantum = 1000, scf_interleaving = 1, scf_core_mask = (\<lambda>_. True), scf_is_big = (\<lambda>_. False), scf_sequence = [],
       scf_barrier_quantum = 100\<rparr> 2))
     \<lparr>ts_threads := [Thread_create\<lparr>tr_status := RUNNING, tr_core := Some 0\<rparr>],
       ts_cores := [\<lparr>sc_state = RUNNING, sc_thread = Some 0, sc_elapsed_time = 0, sc_instruction_count = 0\<rparr>,
         \<lparr>sc_state = IDLE, sc_thread = None, sc_elapsed_time = 0, sc_instruction_count = 0\<rparr>]\<rparr>"

theorem barrier_reached_iff_witness:
  "isBarrierReached example_synchronised = Inr False \<and> takes_part example_synchronised 0 \<and> \<not> has_arrived example_synchronised 0"
proof -
  have f: "isBarrierReached example_synchronised = Inr False" "num_cores example_synchronised = 2" by code_simp+
  have "takes_part example_synchronised 0" "\<not> takes_part example_synchronised 1" unfolding takes_part_def by code_simp+
  moreover from this have "\<not> has_arrived example_synchronised 0" using barrier_reached_iff [OF f(1)] f(2) by (auto simp: less_2_cases_iff)
  ultimately show ?thesis using f(1) by simp
qed

end
