(* ===== verification/Directory.thy ===== *)
theory Directory
  imports Sniper_Utils
begin

text \<open>
  The coherence directory: entries (\<^verbatim>\<open>directory_entry.h\<close> with its two sharer representations
  \<^verbatim>\<open>directory_entry_limited_no_broadcast.h\<close> and \<^verbatim>\<open>directory_entry_limitless.h\<close>) and the
  array of entries of \<^verbatim>\<open>directory.cc\<close>. The code hands out pointers to entries and the directory cache moves
  entries out of the array, so entries live in an explicit store: a pointer is a
  natural number, and \<open>dir_heap\<close> gives the entry it points to.
\<close>

section \<open>Directory entries\<close>

datatype dstate_t = D_UNCACHED | D_SHARED | D_OWNED | D_MODIFIED | D_EXCLUSIVE

datatype DirectoryType = FULL_MAP | LIMITED_NO_BROADCAST | LIMITLESS

text \<open>
  The two subclasses: \<open>LimitedNoBroadcast\<close> has the seed of its \<^verbatim>\<open>Random\<close> object,
  \<open>Limitless\<close> its flag and the penalty of the software trap.
\<close>

datatype entry_kind = LimitedNoBroadcast UInt32 | Limitless bool UInt64

record DirectoryEntry =
  de_address :: IntPtr
  de_dstate :: dstate_t
  de_owner :: core_id_t
  de_forwarder :: core_id_t
  de_sharers :: "bool list"
  de_kind :: entry_kind

text \<open>\<^verbatim>\<open>m_sharers[sharer_id]\<close>; outside the bitset or vector the access is undefined.\<close>

definition valid_sharer :: "core_id_t \<Rightarrow> DirectoryEntry \<Rightarrow> bool" where
  "valid_sharer c e = (0 \<le> c \<and> nat c < length (de_sharers e))"

definition hasSharer :: "core_id_t \<Rightarrow> DirectoryEntry \<Rightarrow> bool result" where
  "hasSharer sharer_id e =
     (if valid_sharer sharer_id e then Inr (de_sharers e ! nat sharer_id) else Inl (Trap ''m_sharers out of range''))"

definition getNumSharers :: "DirectoryEntry \<Rightarrow> UInt32" where
  "getNumSharers e = of_nat (length (filter (\<lambda>b. b) (de_sharers e)))"

definition getSharersList :: "DirectoryEntry \<Rightarrow> bool \<times> core_id_t list" where
  "getSharersList e = (False, map int (filter (\<lambda>j. de_sharers e ! j) [0..<length (de_sharers e)]))"

definition set_sharer :: "core_id_t \<Rightarrow> bool \<Rightarrow> DirectoryEntry \<Rightarrow> DirectoryEntry" where
  "set_sharer c b e = e\<lparr>de_sharers := (de_sharers e)[nat c := b]\<rparr>"

definition addSharer :: "core_id_t \<Rightarrow> UInt32 \<Rightarrow> DirectoryEntry \<Rightarrow> (bool \<times> DirectoryEntry) result" where
  "addSharer sharer_id max_hw_sharers e =
     bindR (hasSharer sharer_id e) (\<lambda>b.
     bindR (assertR (\<not> b) ''! m_sharers[sharer_id]'') (\<lambda>_.
     case de_kind e of
       LimitedNoBroadcast sd \<Rightarrow>
         if getNumSharers e \<ge> max_hw_sharers then Inr (False, e)
         else Inr (True, set_sharer sharer_id True e)
     | Limitless trap penalty \<Rightarrow>
         let trap' = (if word_of_nat (length (de_sharers e)) = max_hw_sharers then True else trap)
         in Inr (True, set_sharer sharer_id True (e\<lparr>de_kind := Limitless trap' penalty\<rparr>))))"

definition removeSharer :: "core_id_t \<Rightarrow> bool \<Rightarrow> DirectoryEntry \<Rightarrow> DirectoryEntry result" where
  "removeSharer sharer_id reply_expected e =
     bindR (assertR (\<not> reply_expected) ''!reply_expected'') (\<lambda>_.
     bindR (hasSharer sharer_id e) (\<lambda>b.
     bindR (assertR b ''m_sharers[sharer_id]'') (\<lambda>_.
     Inr (set_sharer sharer_id False e))))"

definition setOwner :: "core_id_t \<Rightarrow> DirectoryEntry \<Rightarrow> DirectoryEntry result" where
  "setOwner owner_id e =
     bindR (if owner_id \<noteq> INVALID_CORE_ID
            then bindR (hasSharer owner_id e) (\<lambda>b. assertR b ''m_sharers[owner_id]'')
            else Inr ()) (\<lambda>_.
     Inr (e\<lparr>de_owner := owner_id\<rparr>))"

text \<open>A sharer to evict, and the entry with its random number generator advanced.\<close>

definition getOneSharer :: "DirectoryEntry \<Rightarrow> (core_id_t \<times> DirectoryEntry) result" where
  "getOneSharer e =
     (case de_kind e of
        LimitedNoBroadcast sd \<Rightarrow>
          let sharers_list = getSharersList e in
          bindR (assertR (\<not> fst sharers_list) ''!sharers_list.first'') (\<lambda>_.
          bindR (assertR (length (snd sharers_list) > 0) ''sharers_list.second.size() > 0'') (\<lambda>_.
          case Random_next sd (of_nat (length (snd sharers_list))) of
            (sd', index) \<Rightarrow> Inr (snd sharers_list ! unat index, e\<lparr>de_kind := LimitedNoBroadcast sd'\<rparr>)))
      | Limitless trap penalty \<Rightarrow>
          (case first_index (\<lambda>j. de_sharers e ! j) (length (de_sharers e)) of
             None \<Rightarrow> Inl (AssertFail ''sharer_id != -1'')
           | Some j \<Rightarrow> Inr (int j, e)))"

definition DirectoryEntry_getLatency :: "DirectoryEntry \<Rightarrow> UInt64" where
  "DirectoryEntry_getLatency e =
     (case de_kind e of LimitedNoBroadcast sd \<Rightarrow> 0 | Limitless trap penalty \<Rightarrow> if trap then penalty else 0)"

section \<open>The directory array\<close>

text \<open>
  \<open>dir_uninit\<close> is what fresh memory holds: the constructor of an entry leaves
  \<^verbatim>\<open>m_forwarder_id\<close> uninitialised.
\<close>

record Directory =
  dir_type :: DirectoryType
  dir_num_entries :: UInt32
  dir_num_entries_allocated :: UInt64
  dir_max_hw_sharers :: UInt32
  dir_use_max_hw_sharers :: UInt32
  dir_max_num_sharers :: UInt32
  dir_penalty :: UInt64
  dir_entry_list :: "nat option list"
  dir_heap :: "nat \<Rightarrow> DirectoryEntry"
  dir_next :: nat
  dir_uninit :: "nat \<Rightarrow> core_id_t"

definition parseDirectoryType :: "string \<Rightarrow> DirectoryType result" where
  "parseDirectoryType s =
     (if s = ''full_map'' then Inr FULL_MAP
      else if s = ''limited_no_broadcast'' then Inr LIMITED_NO_BROADCAST
      else if s = ''limitless'' then Inr LIMITLESS
      else Inl (LogError ''Unsupported Directory Type''))"

text \<open>\<open>penalty\<close> is the configured software trap penalty of a limitless directory.\<close>

definition Directory_create ::
  "string \<Rightarrow> UInt32 \<Rightarrow> UInt32 \<Rightarrow> UInt32 \<Rightarrow> UInt64 \<Rightarrow> (nat \<Rightarrow> DirectoryEntry) \<Rightarrow> (nat \<Rightarrow> core_id_t) \<Rightarrow> Directory result" where
  "Directory_create directory_type_str num_entries max_hw_sharers max_num_sharers penalty heap uninit =
     bindR (parseDirectoryType directory_type_str) (\<lambda>ty.
     Inr \<lparr>dir_type = ty, dir_num_entries = num_entries, dir_num_entries_allocated = 0,
          dir_max_hw_sharers = max_hw_sharers, dir_use_max_hw_sharers = max_hw_sharers,
          dir_max_num_sharers = max_num_sharers, dir_penalty = (if ty = LIMITLESS then penalty else 0),
          dir_entry_list = replicate (unat num_entries) None, dir_heap = heap, dir_next = 0, dir_uninit = uninit\<rparr>)"

text \<open>The number of bits of the sharer set that the entry is instantiated with.\<close>

definition sharers_size :: "UInt32 \<Rightarrow> nat" where
  "sharers_size max_num_sharers =
     (if max_num_sharers \<le> 64 then 64 else if max_num_sharers \<le> 128 then 128
      else if max_num_sharers \<le> 256 then 256 else if max_num_sharers \<le> 1024 then 1024 else unat max_num_sharers)"

definition createDirectoryEntry :: "Directory \<Rightarrow> nat \<times> Directory" where
  "createDirectoryEntry d =
     (let kind = (if dir_type d = LIMITLESS then Limitless False (dir_penalty d) else LimitedNoBroadcast 1);
          use_max = (if dir_type d = FULL_MAP then dir_max_num_sharers d else dir_use_max_hw_sharers d);
          e = \<lparr>de_address = INVALID_ADDRESS, de_dstate = D_UNCACHED, de_owner = INVALID_CORE_ID,
               de_forwarder = dir_uninit d (dir_next d),
               de_sharers = replicate (sharers_size (dir_max_num_sharers d)) False, de_kind = kind\<rparr>
      in (dir_next d,
          d\<lparr>dir_use_max_hw_sharers := use_max, dir_heap := (dir_heap d)(dir_next d := e), dir_next := Suc (dir_next d)\<rparr>))"

definition Directory_getDirectoryEntry :: "UInt32 \<Rightarrow> Directory \<Rightarrow> (nat \<times> Directory) result" where
  "Directory_getDirectoryEntry entry_num d =
     bindR (logAssertR (entry_num < dir_num_entries d) ''Invalid entry_num'') (\<lambda>_.
     case dir_entry_list d ! unat entry_num of
       Some p \<Rightarrow> Inr (p, d)
     | None \<Rightarrow>
         (case createDirectoryEntry d of
            (p, d) \<Rightarrow> Inr (p, d\<lparr>dir_entry_list := (dir_entry_list d)[unat entry_num := Some p],
                               dir_num_entries_allocated := dir_num_entries_allocated d + 1\<rparr>)))"

definition setDirectoryEntry :: "UInt32 \<Rightarrow> nat \<Rightarrow> Directory \<Rightarrow> Directory result" where
  "setDirectoryEntry entry_num p d =
     (if unat entry_num < length (dir_entry_list d)
      then Inr (d\<lparr>dir_entry_list := (dir_entry_list d)[unat entry_num := Some p]\<rparr>)
      else Inl (Trap ''m_directory_entry_list out of range''))"

definition update_entry :: "nat \<Rightarrow> (DirectoryEntry \<Rightarrow> DirectoryEntry) \<Rightarrow> Directory \<Rightarrow> Directory" where
  "update_entry p f d = d\<lparr>dir_heap := (dir_heap d)(p := f (dir_heap d p))\<rparr>"

section \<open>Entries as sets of sharers\<close>

definition sharer_set :: "DirectoryEntry \<Rightarrow> core_id_t set" where
  "sharer_set e = {c. valid_sharer c e \<and> de_sharers e ! nat c}"

definition entry_wf :: "DirectoryEntry \<Rightarrow> bool" where
  "entry_wf e = (length (de_sharers e) < 2 ^ 32)"

text \<open>
  The contract of the abstract class \<^verbatim>\<open>DirectoryEntry\<close>, which the directory controller relies on whatever
  the representation: the sharers are a finite set, counted, listed and updated consistently.
\<close>

locale sharer_tracking =
  fixes sharers :: "'e \<Rightarrow> core_id_t set"
    and wf :: "'e \<Rightarrow> bool"
    and has :: "core_id_t \<Rightarrow> 'e \<Rightarrow> bool result"
    and num :: "'e \<Rightarrow> UInt32"
    and lst :: "'e \<Rightarrow> bool \<times> core_id_t list"
    and add :: "core_id_t \<Rightarrow> UInt32 \<Rightarrow> 'e \<Rightarrow> (bool \<times> 'e) result"
    and rem :: "core_id_t \<Rightarrow> bool \<Rightarrow> 'e \<Rightarrow> 'e result"
    and one :: "'e \<Rightarrow> (core_id_t \<times> 'e) result"
  assumes has_sharer: "has c e = Inr b \<Longrightarrow> b \<longleftrightarrow> c \<in> sharers e"
    and num_card: "wf e \<Longrightarrow> unat (num e) = card (sharers e)"
    and fin: "finite (sharers e)"
    and list_sharers: "fst (lst e) = False \<and> distinct (snd (lst e)) \<and> set (snd (lst e)) = sharers e"
    and add_True: "add c mx e = Inr (True, e') \<Longrightarrow> c \<notin> sharers e \<and> sharers e' = insert c (sharers e) \<and> (wf e \<longrightarrow> wf e')"
    and add_False: "add c mx e = Inr (False, e') \<Longrightarrow> e' = e \<and> c \<notin> sharers e \<and> mx \<le> num e"
    and rem_sharers: "rem c r e = Inr e' \<Longrightarrow> c \<in> sharers e \<and> sharers e' = sharers e - {c} \<and> (wf e \<longrightarrow> wf e')"
    and one_sharer: "wf e \<Longrightarrow> one e = Inr (c, e') \<Longrightarrow> c \<in> sharers e \<and> sharers e' = sharers e \<and> wf e'"
    and one_total: "wf e \<Longrightarrow> is_ok (one e) \<longleftrightarrow> sharers e \<noteq> {}"
begin

lemma num_0_iff: "wf e \<Longrightarrow> num e = 0 \<longleftrightarrow> sharers e = {}"
  using num_card [of e] fin [of e] by (metis card_0_eq unat_eq_zero)

lemma num_1_iff: "wf e \<Longrightarrow> num e = 1 \<longleftrightarrow> (\<exists>c. sharers e = {c})"
proof -
  assume "wf e"
  then have "num e = 1 \<longleftrightarrow> card (sharers e) = 1" using num_card [of e] by (metis unat_1 word_unat_eq_iff)
  then show ?thesis by (simp add: card_1_singleton_iff)
qed

lemma rem_last: "wf e \<Longrightarrow> rem c r e = Inr e' \<Longrightarrow> num e' = 0 \<longleftrightarrow> sharers e = {c}"
  using rem_sharers [of c r e e'] num_0_iff [of e'] by auto

lemma list_length: "wf e \<Longrightarrow> length (snd (lst e)) = unat (num e)"
  using list_sharers [of e] num_card [of e] by (metis distinct_card)

end

lemma sharer_set_alt: "sharer_set e = int ` {j. j < length (de_sharers e) \<and> de_sharers e ! j}"
proof -
  have "c \<in> int ` {j. j < length (de_sharers e) \<and> de_sharers e ! j}" if "c \<in> sharer_set e" for c
    using that by (intro image_eqI [of _ _ "nat c"]) (auto simp: sharer_set_def valid_sharer_def)
  then show ?thesis by (auto simp: sharer_set_def valid_sharer_def)
qed

lemma finite_sharer_set: "finite (sharer_set e)"
  by (simp add: sharer_set_alt)

lemma card_sharer_set: "card (sharer_set e) = length (filter (\<lambda>b. b) (de_sharers e))"
  by (simp add: sharer_set_alt card_image length_filter_conv_card)

lemma getNumSharers_card: "entry_wf e \<Longrightarrow> unat (getNumSharers e) = card (sharer_set e)"
proof -
  assume "entry_wf e"
  then have "length (filter (\<lambda>b. b) (de_sharers e)) < 2 ^ 32"
    unfolding entry_wf_def by (rule le_less_trans [OF length_filter_le])
  then show ?thesis by (simp add: getNumSharers_def card_sharer_set unat_of_nat_small)
qed

lemma getSharersList_set: "distinct (snd (getSharersList e)) \<and> set (snd (getSharersList e)) = sharer_set e"
  by (auto simp: getSharersList_def distinct_map inj_on_def sharer_set_alt)

lemma set_sharer_simps [simp]:
  "de_address (set_sharer c b e) = de_address e" "de_dstate (set_sharer c b e) = de_dstate e"
  "de_owner (set_sharer c b e) = de_owner e" "de_forwarder (set_sharer c b e) = de_forwarder e"
  "entry_wf (set_sharer c b e) = entry_wf e"
  by (simp_all add: set_sharer_def entry_wf_def)

lemma sharer_set_set_sharer:
  "valid_sharer c e \<Longrightarrow> sharer_set (set_sharer c b e) = (if b then insert c (sharer_set e) else sharer_set e - {c})"
  by (auto simp: sharer_set_def valid_sharer_def set_sharer_def nth_list_update split: if_splits)

lemma sharer_set_update [simp]:
  "sharer_set (e\<lparr>de_kind := k\<rparr>) = sharer_set e" "sharer_set (e\<lparr>de_dstate := d\<rparr>) = sharer_set e"
  "sharer_set (e\<lparr>de_owner := c\<rparr>) = sharer_set e" "sharer_set (e\<lparr>de_forwarder := c\<rparr>) = sharer_set e"
  "sharer_set (e\<lparr>de_address := a\<rparr>) = sharer_set e"
  by (simp_all add: sharer_set_def valid_sharer_def)

lemma entry_wf_update [simp]:
  "entry_wf (e\<lparr>de_kind := k\<rparr>) = entry_wf e" "entry_wf (e\<lparr>de_dstate := d\<rparr>) = entry_wf e"
  "entry_wf (e\<lparr>de_owner := c\<rparr>) = entry_wf e" "entry_wf (e\<lparr>de_forwarder := c\<rparr>) = entry_wf e"
  "entry_wf (e\<lparr>de_address := a\<rparr>) = entry_wf e"
  by (simp_all add: entry_wf_def)

lemma hasSharer_Inr: "hasSharer c e = Inr b \<longleftrightarrow> valid_sharer c e \<and> b = (c \<in> sharer_set e)"
  by (auto simp: hasSharer_def sharer_set_def)

lemma addSharer_True:
  "addSharer c mx e = Inr (True, e') \<Longrightarrow>
   c \<notin> sharer_set e \<and> valid_sharer c e \<and> sharer_set e' = insert c (sharer_set e) \<and> entry_wf e' = entry_wf e
   \<and> de_address e' = de_address e \<and> de_dstate e' = de_dstate e \<and> de_owner e' = de_owner e \<and> de_forwarder e' = de_forwarder e"
  by (auto simp: addSharer_def hasSharer_Inr sharer_set_set_sharer Let_def valid_sharer_def
      split: entry_kind.splits if_splits)

lemma addSharer_False:
  "addSharer c mx e = Inr (False, e') \<Longrightarrow> e' = e \<and> c \<notin> sharer_set e \<and> mx \<le> getNumSharers e"
  by (auto simp: addSharer_def hasSharer_Inr Let_def split: entry_kind.splits if_splits)

lemma removeSharer_Inr:
  "removeSharer c r e = Inr e' \<Longrightarrow>
   c \<in> sharer_set e \<and> sharer_set e' = sharer_set e - {c} \<and> entry_wf e' = entry_wf e
   \<and> de_address e' = de_address e \<and> de_dstate e' = de_dstate e \<and> de_owner e' = de_owner e \<and> de_forwarder e' = de_forwarder e"
  by (auto simp: removeSharer_def hasSharer_Inr sharer_set_set_sharer)

lemma setOwner_Inr:
  "setOwner c e = Inr e' \<Longrightarrow> e' = e\<lparr>de_owner := c\<rparr> \<and> (c \<noteq> INVALID_CORE_ID \<longrightarrow> c \<in> sharer_set e)"
  by (auto simp: setOwner_def hasSharer_Inr split: if_splits)

lemma getOneSharer_Inr:
  assumes wf: "entry_wf e" and o: "getOneSharer e = Inr (c, e')"
  shows "c \<in> sharer_set e \<and> (\<exists>k. e' = e\<lparr>de_kind := k\<rparr>)"
proof (cases "de_kind e")
  case (LimitedNoBroadcast sd)
  let ?l = "snd (getSharersList e)"
  have n: "?l \<noteq> []" and c: "c = ?l ! unat (snd (Random_next sd (of_nat (length ?l))))"
    and e': "\<exists>k. e' = e\<lparr>de_kind := k\<rparr>"
    using o LimitedNoBroadcast by (auto simp: getOneSharer_def Let_def split: prod.splits)
  have l: "length ?l < 2 ^ 32"
    using wf length_filter_le [of "\<lambda>j. de_sharers e ! j" "[0..<length (de_sharers e)]"]
    by (auto simp: getSharersList_def entry_wf_def)
  have u: "unat (of_nat (length ?l) :: UInt32) = length ?l" using l by (simp add: unat_of_nat_small)
  have "unat (snd (Random_next sd (of_nat (length ?l)))) < unat (of_nat (length ?l) :: UInt32)"
    by (rule Random_next_bound) (use n u in \<open>simp add: word_less_nat_alt\<close>)
  then have "c \<in> set ?l" using c u by simp
  then show ?thesis using getSharersList_set e' by blast
next
  case (Limitless trap penalty)
  then show ?thesis using o
    by (auto simp: getOneSharer_def sharer_set_alt dest: first_index_Some split: option.splits intro: exI [of _ "de_kind e"])
qed

lemma getOneSharer_ok_iff: "is_ok (getOneSharer e) \<longleftrightarrow> sharer_set e \<noteq> {}"
proof (cases "de_kind e")
  case (LimitedNoBroadcast sd)
  have "snd (getSharersList e) \<noteq> [] \<longleftrightarrow> sharer_set e \<noteq> {}" using getSharersList_set [of e] by (metis set_empty)
  then show ?thesis using LimitedNoBroadcast
    by (cases "snd (getSharersList e)") (auto simp: getOneSharer_def getSharersList_def Let_def is_ok_def split: prod.splits)
next
  case (Limitless trap penalty)
  have "first_index (\<lambda>j. de_sharers e ! j) (length (de_sharers e)) = None \<longleftrightarrow> sharer_set e = {}"
    by (auto simp: first_index_None sharer_set_alt)
  then show ?thesis using Limitless by (auto simp: getOneSharer_def is_ok_def split: option.splits)
qed

interpretation de: sharer_tracking sharer_set entry_wf hasSharer getNumSharers getSharersList addSharer removeSharer getOneSharer
proof
  show "entry_wf e \<Longrightarrow> getOneSharer e = Inr (c, e') \<Longrightarrow> c \<in> sharer_set e \<and> sharer_set e' = sharer_set e \<and> entry_wf e'"
    for e c e' using getOneSharer_Inr by fastforce
  show "fst (getSharersList e) = False \<and> distinct (snd (getSharersList e)) \<and> set (snd (getSharersList e)) = sharer_set e" for e
    using getSharersList_set [of e] by (simp add: getSharersList_def)
qed (use finite_sharer_set getNumSharers_card addSharer_True addSharer_False removeSharer_Inr getOneSharer_ok_iff in
    \<open>auto simp: hasSharer_Inr\<close>)

lemma addSharer_cases:
  assumes "entry_wf e"
  shows "case addSharer c mx e of
           Inl _ \<Rightarrow> \<not> valid_sharer c e \<or> c \<in> sharer_set e
         | Inr (b, e') \<Rightarrow> if b then sharer_set e' = insert c (sharer_set e) \<and> card (sharer_set e') = Suc (card (sharer_set e))
                         else e' = e \<and> unat mx \<le> card (sharer_set e)"
proof (cases "addSharer c mx e")
  case (Inl x)
  then show ?thesis using hasSharer_Inr [of c e]
    by (auto simp: addSharer_def hasSharer_def sharer_set_def Let_def assertR_def split: if_splits entry_kind.splits)
next
  case (Inr r)
  obtain b e' where r: "r = (b, e')" by force
  show ?thesis
  proof (cases b)
    case True
    then show ?thesis using addSharer_True [of c mx e e'] de.fin [of e] Inr r by simp
  next
    case False
    then have "e' = e \<and> mx \<le> getNumSharers e" using addSharer_False [of c mx e e'] Inr r by simp
    then show ?thesis using False Inr r de.num_card [OF assms] by (simp add: word_le_nat_alt)
  qed
qed

lemma removeSharer_cases:
  "case removeSharer c False e of
     Inl _ \<Rightarrow> \<not> valid_sharer c e \<or> c \<notin> sharer_set e
   | Inr e' \<Rightarrow> c \<in> sharer_set e \<and> sharer_set e' = sharer_set e - {c}"
proof (cases "removeSharer c False e")
  case (Inl x)
  then show ?thesis by (auto simp: removeSharer_def hasSharer_def sharer_set_def split: if_splits)
next
  case (Inr e')
  then show ?thesis using removeSharer_Inr [of c False e e'] by simp
qed

section \<open>Properties\<close>

text \<open>
  C31: A directory entry implements a set of sharers whatever its representation: adding inserts a core that was absent and is refused, without
  change, only when the hardware sharers are used up; removing deletes a core that was present; the list has each sharer once
  and the count is its length; \<^verbatim>\<open>getOneSharer\<close> chooses a member whenever there is one.
\<close>

theorem DirectoryEntry_tracks_sharers:
  assumes "entry_wf e"
  shows "(case addSharer c mx e of
            Inl _ \<Rightarrow> \<not> valid_sharer c e \<or> c \<in> sharer_set e
          | Inr (b, e') \<Rightarrow> if b then sharer_set e' = insert c (sharer_set e) \<and> card (sharer_set e') = Suc (card (sharer_set e))
                          else e' = e \<and> unat mx \<le> card (sharer_set e))
    \<and> (case removeSharer c False e of
         Inl _ \<Rightarrow> \<not> valid_sharer c e \<or> c \<notin> sharer_set e
       | Inr e' \<Rightarrow> c \<in> sharer_set e \<and> sharer_set e' = sharer_set e - {c})
    \<and> distinct (snd (getSharersList e)) \<and> set (snd (getSharersList e)) = sharer_set e
    \<and> length (snd (getSharersList e)) = unat (getNumSharers e)
    \<and> (case getOneSharer e of Inl _ \<Rightarrow> sharer_set e = {} | Inr (s, e') \<Rightarrow> s \<in> sharer_set e \<and> sharer_set e' = sharer_set e)"
proof -
  have "case getOneSharer e of Inl _ \<Rightarrow> sharer_set e = {} | Inr (s, e') \<Rightarrow> s \<in> sharer_set e \<and> sharer_set e' = sharer_set e"
    using de.one_total [OF assms] de.one_sharer [OF assms] by (cases "getOneSharer e") auto
  then show ?thesis
    using addSharer_cases [OF assms] removeSharer_cases [of c e] getSharersList_set [of e] de.list_length [OF assms] by blast
qed

text \<open>
  The software trap of a limitless entry is not triggered by the number of sharers: the test compares the capacity of the
  sharer set, so two entries of equal capacity and equal trap flag have the same latency after an \<^verbatim>\<open>addSharer\<close>, whatever
  sharers they hold, and for a capacity other than the hardware limit the trap is never set.
\<close>

theorem limitless_trap_ignores_sharers:
  assumes "de_kind e = Limitless trap penalty" "addSharer c mx e = Inr (b, e')"
  shows "DirectoryEntry_getLatency e' = (if trap \<or> word_of_nat (length (de_sharers e)) = mx then penalty else 0)"
  using assms by (auto simp: addSharer_def DirectoryEntry_getLatency_def Let_def set_sharer_def)

section \<open>Witnesses\<close>

definition example_entry :: DirectoryEntry where
  "example_entry = \<lparr>de_address = 64, de_dstate = D_SHARED, de_owner = INVALID_CORE_ID, de_forwarder = INVALID_CORE_ID,
     de_sharers = [True, False, True, False], de_kind = Limitless False 7\<rparr>"

theorem DirectoryEntry_tracks_sharers_witness:
  "sharer_set example_entry = {0, 2} \<and> length (snd (getSharersList example_entry)) = unat (getNumSharers example_entry)"
proof -
  have wf: "entry_wf example_entry" by (simp add: example_entry_def entry_wf_def)
  have "set (snd (getSharersList example_entry)) = {0, 2}" by code_simp
  then show ?thesis using DirectoryEntry_tracks_sharers [OF wf] by simp
qed

theorem limitless_trap_ignores_sharers_witness:
  "\<exists>e. addSharer 1 3 example_entry = Inr (True, e) \<and> getNumSharers e = 3 \<and> DirectoryEntry_getLatency e = 0"
proof -
  have k: "de_kind example_entry = Limitless False 7" by (simp add: example_entry_def)
  have "is_ok (addSharer 1 3 example_entry) \<and> fst (projr (addSharer 1 3 example_entry))
    \<and> getNumSharers (snd (projr (addSharer 1 3 example_entry))) = 3" by code_simp
  then obtain e where a: "addSharer 1 3 example_entry = Inr (True, e)" "getNumSharers e = 3" by (auto simp: is_ok_iff)
  show ?thesis using limitless_trap_ignores_sharers [OF k a(1)] a by (simp add: example_entry_def)
qed

end
