(* ===== verification/Directory_Cache.thy ===== *)
theory Directory_Cache
  imports Directory
begin

text \<open>
  The directory cache \<^verbatim>\<open>DramDirectoryCache\<close> of
  \<^verbatim>\<open>pr_l1_pr_l2_dram_directory_msi/dram_directory_cache.cc\<close>: a set-associative directory with a list of
  replaced entries that are still being nullified. Seen from the controller it is a
  map from addresses to entries, and that is what the lemmas show.
  The performance model is reached through \<open>dd_elapsed\<close>, the elapsed time of the simulation thread.
\<close>

section \<open>State and operations\<close>

record DramDirectoryCache =
  dd_directory :: Directory
  dd_replacement_ptrs :: "UInt32 list"
  dd_replaced :: "nat list"
  dd_total_entries :: UInt32
  dd_associativity :: UInt32
  dd_num_sets :: UInt32
  dd_cache_block_size :: UInt32
  dd_log_num_sets :: UInt32
  dd_log_cache_block_size :: UInt32
  dd_access_time :: UInt64
  dd_elapsed :: UInt64

text \<open>\<open>ptrs\<close> is what the uninitialised array of replacement pointers holds.\<close>

definition DramDirectoryCache_create ::
  "Directory \<Rightarrow> UInt32 \<Rightarrow> UInt32 \<Rightarrow> UInt32 \<Rightarrow> UInt64 \<Rightarrow> (nat \<Rightarrow> UInt32) \<Rightarrow> DramDirectoryCache result" where
  "DramDirectoryCache_create directory total_entries associativity cache_block_size access_time ptrs =
     (if associativity = 0 then Inl (Trap ''division by zero'')
      else let num_sets = total_entries div associativity in
        Inr \<lparr>dd_directory = directory, dd_replacement_ptrs = map ptrs [0..<unat num_sets], dd_replaced = [],
             dd_total_entries = total_entries, dd_associativity = associativity, dd_num_sets = num_sets,
             dd_cache_block_size = cache_block_size, dd_log_num_sets = word_of_int (floorLog2 num_sets),
             dd_log_cache_block_size = word_of_int (floorLog2 cache_block_size),
             dd_access_time = access_time, dd_elapsed = 0\<rparr>)"

definition dir_splitAddress :: "IntPtr \<Rightarrow> DramDirectoryCache \<Rightarrow> IntPtr \<times> UInt32" where
  "dir_splitAddress address dd =
     (let cache_block_address = drop_bit (unat (dd_log_cache_block_size dd)) address;
          tag = drop_bit (unat (dd_log_num_sets dd)) cache_block_address;
          set_index = ucast cache_block_address AND (dd_num_sets dd - 1)
      in (tag, set_index))"

text \<open>
  The loops over the ways of a set: \<open>dir_search P ns d\<close> gets the entries with the given numbers, one after the other (each
  call may allocate an entry), up to the first that satisfies \<open>P\<close>.
\<close>

fun dir_search :: "(DirectoryEntry \<Rightarrow> bool) \<Rightarrow> UInt32 list \<Rightarrow> Directory \<Rightarrow> ((UInt32 \<times> nat) option \<times> Directory) result" where
  "dir_search P [] d = Inr (None, d)"
| "dir_search P (n # ns) d =
     bindR (Directory_getDirectoryEntry n d) (\<lambda>(p, d).
     if P (dir_heap d p) then Inr (Some (n, p), d) else dir_search P ns d)"

definition set_ways :: "UInt32 \<Rightarrow> DramDirectoryCache \<Rightarrow> UInt32 list" where
  "set_ways set_index dd =
     map (\<lambda>i. set_index * dd_associativity dd + of_nat i) [0..<unat (dd_associativity dd)]"

definition dir_getDirectoryEntry :: "IntPtr \<Rightarrow> bool \<Rightarrow> DramDirectoryCache \<Rightarrow> (nat option \<times> DramDirectoryCache) result" where
  "dir_getDirectoryEntry address modeled dd =
     (let dd = (if modeled then dd\<lparr>dd_elapsed := dd_elapsed dd + dd_access_time dd\<rparr> else dd);
          ways = set_ways (snd (dir_splitAddress address dd)) dd
      in bindR (dir_search (\<lambda>e. de_address e = address) ways (dd_directory dd)) (\<lambda>(r, d).
         case r of
           Some (n, p) \<Rightarrow>
             Inr (Some p, dd\<lparr>dd_directory := d,
                             dd_elapsed := (if modeled then dd_elapsed dd + DirectoryEntry_getLatency (dir_heap d p) else dd_elapsed dd)\<rparr>)
         | None \<Rightarrow>
             bindR (dir_search (\<lambda>e. de_address e = INVALID_ADDRESS) ways d) (\<lambda>(r, d).
             case r of
               Some (n, p) \<Rightarrow>
                 Inr (Some p, dd\<lparr>dd_directory := update_entry p (\<lambda>e. e\<lparr>de_address := address\<rparr>) d\<rparr>)
             | None \<Rightarrow>
                 Inr (find (\<lambda>p. de_address (dir_heap d p) = address) (dd_replaced dd), dd\<lparr>dd_directory := d\<rparr>))))"

fun dir_collect :: "UInt32 list \<Rightarrow> Directory \<Rightarrow> (nat list \<times> Directory) result" where
  "dir_collect [] d = Inr ([], d)"
| "dir_collect (n # ns) d =
     bindR (Directory_getDirectoryEntry n d) (\<lambda>(p, d).
     bindR (dir_collect ns d) (\<lambda>(ps, d). Inr (p # ps, d)))"

definition getReplacementCandidates :: "IntPtr \<Rightarrow> DramDirectoryCache \<Rightarrow> (nat list \<times> DramDirectoryCache) result" where
  "getReplacementCandidates address dd =
     bindR (dir_getDirectoryEntry address False dd) (\<lambda>(r, dd).
     bindR (assertR (r = None) ''getDirectoryEntry(address) == NULL'') (\<lambda>_.
     let set_index = snd (dir_splitAddress address dd);
         ptr = dd_replacement_ptrs dd ! unat set_index;
         ways = map (\<lambda>i. set_index * dd_associativity dd + (of_nat i + ptr) mod dd_associativity dd)
                  [0..<unat (dd_associativity dd)]
     in bindR (dir_collect ways (dd_directory dd)) (\<lambda>(ps, d).
        Inr (ps, dd\<lparr>dd_directory := d, dd_replacement_ptrs := (dd_replacement_ptrs dd)[unat set_index := ptr + 1]\<rparr>))))"

definition replaceDirectoryEntry :: "IntPtr \<Rightarrow> IntPtr \<Rightarrow> bool \<Rightarrow> DramDirectoryCache \<Rightarrow> (nat \<times> DramDirectoryCache) result" where
  "replaceDirectoryEntry replaced_address address modeled dd =
     (let dd = (if modeled then dd\<lparr>dd_elapsed := dd_elapsed dd + dd_access_time dd\<rparr> else dd);
          ways = set_ways (snd (dir_splitAddress replaced_address dd)) dd
      in bindR (dir_search (\<lambda>e. de_address e = replaced_address) ways (dd_directory dd)) (\<lambda>(r, d).
         case r of
           None \<Rightarrow> Inl (LogError '''')
         | Some (n, p) \<Rightarrow>
             (case createDirectoryEntry d of
                (q, d) \<Rightarrow>
                  bindR (setDirectoryEntry n q (update_entry q (\<lambda>e. e\<lparr>de_address := address\<rparr>) d)) (\<lambda>d.
                  Inr (q, dd\<lparr>dd_directory := d, dd_replaced := dd_replaced dd @ [p]\<rparr>)))))"

text \<open>The entry is deleted and its pointer erased from the list.\<close>

definition invalidateDirectoryEntry :: "IntPtr \<Rightarrow> DramDirectoryCache \<Rightarrow> DramDirectoryCache result" where
  "invalidateDirectoryEntry address dd =
     (case find (\<lambda>p. de_address (dir_heap (dd_directory dd) p) = address) (dd_replaced dd) of
        Some p \<Rightarrow> Inr (dd\<lparr>dd_replaced := remove1 p (dd_replaced dd)\<rparr>)
      | None \<Rightarrow> Inl (LogError ''''))"

definition dir_getMaxHwSharers :: "DramDirectoryCache \<Rightarrow> UInt32" where
  "dir_getMaxHwSharers dd = dir_use_max_hw_sharers (dd_directory dd)"

section \<open>Lazy allocation\<close>

text \<open>
  A slot that has not been allocated yet behaves like one with an invalid address. \<open>dir_ext d d'\<close> says that
  \<open>d'\<close> is \<open>d\<close> with some slots allocated.
\<close>

definition slot_addr :: "Directory \<Rightarrow> nat \<Rightarrow> IntPtr" where
  "slot_addr d i = (case dir_entry_list d ! i of None \<Rightarrow> INVALID_ADDRESS | Some p \<Rightarrow> de_address (dir_heap d p))"

definition fresh_entry :: "DirectoryEntry \<Rightarrow> bool" where
  "fresh_entry e = (de_dstate e = D_UNCACHED \<and> sharer_set e = {} \<and> entry_wf e)"

definition dir_wf :: "Directory \<Rightarrow> bool" where
  "dir_wf d =
     (length (dir_entry_list d) = unat (dir_num_entries d)
      \<and> (\<forall>i p. i < length (dir_entry_list d) \<longrightarrow> dir_entry_list d ! i = Some p \<longrightarrow> p < dir_next d)
      \<and> (\<forall>i j p. i < length (dir_entry_list d) \<longrightarrow> j < length (dir_entry_list d) \<longrightarrow>
           dir_entry_list d ! i = Some p \<longrightarrow> dir_entry_list d ! j = Some p \<longrightarrow> i = j))"

definition dir_ext :: "Directory \<Rightarrow> Directory \<Rightarrow> bool" where
  "dir_ext d d' =
     (dir_wf d' \<and> dir_num_entries d' = dir_num_entries d \<and> dir_max_num_sharers d' = dir_max_num_sharers d
      \<and> dir_next d \<le> dir_next d'
      \<and> (\<forall>p < dir_next d. dir_heap d' p = dir_heap d p)
      \<and> (\<forall>i < unat (dir_num_entries d). dir_entry_list d ! i \<noteq> None \<longrightarrow> dir_entry_list d' ! i = dir_entry_list d ! i)
      \<and> (\<forall>i p. i < unat (dir_num_entries d) \<longrightarrow> dir_entry_list d ! i = None \<longrightarrow> dir_entry_list d' ! i = Some p \<longrightarrow>
           dir_next d \<le> p \<and> fresh_entry (dir_heap d' p) \<and> de_address (dir_heap d' p) = INVALID_ADDRESS))"

lemma sharers_size_less: "sharers_size m < 2 ^ 32"
  using unsigned_less [of m, where ?'a = nat] by (auto simp: sharers_size_def)

lemma createDirectoryEntry_props:
  assumes "createDirectoryEntry d = (p, d')"
  shows "p = dir_next d \<and> dir_next d' = Suc p \<and> dir_entry_list d' = dir_entry_list d
    \<and> (\<forall>q. q \<noteq> p \<longrightarrow> dir_heap d' q = dir_heap d q) \<and> fresh_entry (dir_heap d' p) \<and> de_address (dir_heap d' p) = INVALID_ADDRESS
    \<and> dir_num_entries d' = dir_num_entries d \<and> dir_max_num_sharers d' = dir_max_num_sharers d"
  using assms sharers_size_less [of "dir_max_num_sharers d"]
  by (auto simp: createDirectoryEntry_def Let_def fresh_entry_def sharer_set_def valid_sharer_def entry_wf_def)

lemma dir_ext_refl: "dir_wf d \<Longrightarrow> dir_ext d d"
  by (simp add: dir_ext_def)

lemma dir_ext_trans:
  assumes "dir_ext d d'" "dir_ext d' d''" "dir_wf d"
  shows "dir_ext d d''"
proof -
  have "dir_next d \<le> p \<and> fresh_entry (dir_heap d'' p) \<and> de_address (dir_heap d'' p) = INVALID_ADDRESS"
    if i: "i < unat (dir_num_entries d)" "dir_entry_list d ! i = None" "dir_entry_list d'' ! i = Some p" for i p
  proof (cases "dir_entry_list d' ! i")
    case None
    then show ?thesis using assms i by (auto simp: dir_ext_def)
  next
    case (Some q)
    then have q: "q = p" using assms(1,2) i by (simp add: dir_ext_def)
    then have "p < dir_next d'" using assms(1) Some i by (auto simp: dir_ext_def dir_wf_def)
    then show ?thesis using assms i Some q by (auto simp: dir_ext_def)
  qed
  then show ?thesis using assms by (auto simp: dir_ext_def)
qed

lemma dir_ext_slot_addr:
  assumes "dir_ext d d'" "dir_wf d" "i < unat (dir_num_entries d)"
  shows "slot_addr d' i = slot_addr d i"
proof (cases "dir_entry_list d ! i")
  case None
  then show ?thesis using assms by (auto simp: slot_addr_def dir_ext_def split: option.splits)
next
  case (Some p)
  then have "p < dir_next d" using assms by (auto simp: dir_wf_def)
  then show ?thesis using assms Some by (auto simp: slot_addr_def dir_ext_def)
qed

lemma Directory_getDirectoryEntry_ext:
  assumes wf: "dir_wf d" and n: "n < dir_num_entries d"
  shows "\<exists>p d'. Directory_getDirectoryEntry n d = Inr (p, d') \<and> dir_ext d d' \<and> dir_entry_list d' ! unat n = Some p
    \<and> de_address (dir_heap d' p) = slot_addr d (unat n)"
proof (cases "dir_entry_list d ! unat n")
  case (Some p)
  then show ?thesis using n dir_ext_refl [OF wf] by (auto simp: Directory_getDirectoryEntry_def slot_addr_def)
next
  case None
  obtain p d1 where c: "createDirectoryEntry d = (p, d1)" by force
  note C = createDirectoryEntry_props [OF c]
  have u: "unat n < length (dir_entry_list d)" using wf n by (simp add: dir_wf_def word_less_nat_alt)
  let ?d = "d1\<lparr>dir_entry_list := (dir_entry_list d1)[unat n := Some p], dir_num_entries_allocated := dir_num_entries_allocated d1 + 1\<rparr>"
  have r: "Directory_getDirectoryEntry n d = Inr (p, ?d)"
    using n None c by (simp add: Directory_getDirectoryEntry_def)
  have old: "q < p" if "i < length (dir_entry_list d)" "dir_entry_list d ! i = Some q" for i q
    using wf that C by (auto simp: dir_wf_def)
  have wf': "dir_wf ?d" unfolding dir_wf_def
  proof (intro conjI allI impI)
    show "length (dir_entry_list ?d) = unat (dir_num_entries ?d)" using C wf by (simp add: dir_wf_def)
    show "q < dir_next ?d" if "i < length (dir_entry_list ?d)" "dir_entry_list ?d ! i = Some q" for i q
      using C old that u by (cases "i = unat n") (auto simp: less_Suc_eq)
    show "i = j" if "i < length (dir_entry_list ?d)" "j < length (dir_entry_list ?d)"
      "dir_entry_list ?d ! i = Some q" "dir_entry_list ?d ! j = Some q" for i j q
      using C wf that old [of i q] old [of j q] u by (cases "i = unat n"; cases "j = unat n") (auto simp: dir_wf_def)
  qed
  have "dir_ext d ?d" unfolding dir_ext_def
  proof (intro conjI allI impI)
    show "dir_entry_list ?d ! i = dir_entry_list d ! i" if "dir_entry_list d ! i \<noteq> None" for i
      using that None C by (cases "i = unat n") auto
    fix i q assume "i < unat (dir_num_entries d)" "dir_entry_list d ! i = None" "dir_entry_list ?d ! i = Some q"
    then have "q = p" using C u by (cases "i = unat n") auto
    then show "dir_next d \<le> q" "fresh_entry (dir_heap ?d q)" "de_address (dir_heap ?d q) = INVALID_ADDRESS" using C by auto
  qed (use wf' C in auto)
  then show ?thesis using r C u None by (auto simp: slot_addr_def)
qed

text \<open>What a search over some slots finds depends only on the addresses of the slots.\<close>

lemma dir_search_ext:
  assumes "dir_wf d" "\<forall>n \<in> set ns. n < dir_num_entries d"
  shows "\<exists>r d'. dir_search (\<lambda>e. de_address e = a) ns d = Inr (r, d') \<and> dir_ext d d'
    \<and> (case find (\<lambda>n. slot_addr d (unat n) = a) ns of
         None \<Rightarrow> r = None
       | Some n \<Rightarrow> \<exists>p. r = Some (n, p) \<and> dir_entry_list d' ! unat n = Some p)"
  using assms
proof (induction ns arbitrary: d)
  case Nil
  then show ?case by (simp add: dir_ext_refl)
next
  case (Cons n ns)
  obtain p d1 where g: "Directory_getDirectoryEntry n d = Inr (p, d1)" "dir_ext d d1" "dir_entry_list d1 ! unat n = Some p"
    "de_address (dir_heap d1 p) = slot_addr d (unat n)"
    using Directory_getDirectoryEntry_ext [of d n] Cons.prems by auto
  show ?case
  proof (cases "slot_addr d (unat n) = a")
    case True
    then show ?thesis using g by simp
  next
    case False
    have wf1: "dir_wf d1" "\<forall>n \<in> set ns. n < dir_num_entries d1" using g(2) Cons.prems by (auto simp: dir_ext_def)
    have f: "find (\<lambda>n. slot_addr d1 (unat n) = a) ns = find (\<lambda>n. slot_addr d (unat n) = a) ns"
      by (rule find_cong) (use dir_ext_slot_addr [OF g(2) Cons.prems(1)] Cons.prems(2) in \<open>auto simp: word_less_nat_alt\<close>)
    obtain r d' where IH: "dir_search (\<lambda>e. de_address e = a) ns d1 = Inr (r, d')" "dir_ext d1 d'"
      "case find (\<lambda>n. slot_addr d (unat n) = a) ns of None \<Rightarrow> r = None
       | Some n \<Rightarrow> \<exists>p. r = Some (n, p) \<and> dir_entry_list d' ! unat n = Some p"
      using Cons.IH [OF wf1] unfolding f by blast
    have "dir_ext d d'" by (rule dir_ext_trans [OF g(2) IH(2) Cons.prems(1)])
    then show ?thesis using IH g False by simp
  qed
qed

section \<open>The directory cache as a map\<close>

definition dir_slots :: "DramDirectoryCache \<Rightarrow> nat" where
  "dir_slots dd = unat (dd_num_sets dd) * unat (dd_associativity dd)"

definition way_range :: "IntPtr \<Rightarrow> DramDirectoryCache \<Rightarrow> nat list" where
  "way_range a dd =
     (let base = unat (snd (dir_splitAddress a dd)) * unat (dd_associativity dd)
      in [base..<base + unat (dd_associativity dd)])"

definition entry_addr :: "DramDirectoryCache \<Rightarrow> nat \<Rightarrow> IntPtr" where
  "entry_addr dd p = de_address (dir_heap (dd_directory dd) p)"

text \<open>The pointer to the entry of an address, in its set or among the replaced entries.\<close>

definition dir_lookup :: "DramDirectoryCache \<Rightarrow> IntPtr \<Rightarrow> nat option" where
  "dir_lookup dd a =
     (case find (\<lambda>i. slot_addr (dd_directory dd) i = a) (way_range a dd) of
        Some i \<Rightarrow> dir_entry_list (dd_directory dd) ! i
      | None \<Rightarrow> find (\<lambda>p. entry_addr dd p = a) (dd_replaced dd))"

definition dir_geometry :: "DramDirectoryCache \<Rightarrow> bool" where
  "dir_geometry dd =
     (dd_associativity dd \<noteq> 0 \<and> dd_num_sets dd \<noteq> 0 \<and> dir_slots dd \<le> unat (dir_num_entries (dd_directory dd))
      \<and> length (dd_replacement_ptrs dd) = unat (dd_num_sets dd) \<and> dir_wf (dd_directory dd))"

text \<open>
  The invariant: every address is stored once, in its own set; the replaced entries are apart from the array,
  and their sets are full, so that a search for one of them does not take a free way.
\<close>

definition slots_ok :: "DramDirectoryCache \<Rightarrow> bool" where
  "slots_ok dd =
     (\<forall>i < dir_slots dd. slot_addr (dd_directory dd) i \<noteq> INVALID_ADDRESS \<longrightarrow>
        i \<in> set (way_range (slot_addr (dd_directory dd) i) dd)
        \<and> (\<forall>j < dir_slots dd. slot_addr (dd_directory dd) j = slot_addr (dd_directory dd) i \<longrightarrow> j = i))"

definition replaced_ok :: "DramDirectoryCache \<Rightarrow> nat \<Rightarrow> bool" where
  "replaced_ok dd p =
     (p < dir_next (dd_directory dd) \<and> Some p \<notin> set (dir_entry_list (dd_directory dd)) \<and> entry_addr dd p \<noteq> INVALID_ADDRESS
      \<and> (\<forall>i \<in> set (way_range (entry_addr dd p) dd). slot_addr (dd_directory dd) i \<noteq> INVALID_ADDRESS)
      \<and> (\<forall>i < dir_slots dd. slot_addr (dd_directory dd) i \<noteq> entry_addr dd p))"

definition dd_ok :: "DramDirectoryCache \<Rightarrow> bool" where
  "dd_ok dd =
     (dir_geometry dd \<and> slots_ok dd \<and> (\<forall>p \<in> set (dd_replaced dd). replaced_ok dd p)
      \<and> distinct (map (entry_addr dd) (dd_replaced dd)))"

lemma set_index_less: "dd_num_sets dd \<noteq> 0 \<Longrightarrow> unat (snd (dir_splitAddress a dd)) < unat (dd_num_sets dd)"
proof -
  assume n: "dd_num_sets dd \<noteq> 0"
  let ?x = "ucast (drop_bit (unat (dd_log_cache_block_size dd)) a) :: UInt32"
  have "unat (?x AND (dd_num_sets dd - 1)) \<le> unat (dd_num_sets dd - 1)"
    by (metis word_and_le1 word_le_nat_alt)
  also have "\<dots> < unat (dd_num_sets dd)" using n by (simp add: unat_minus_one unat_gt_0)
  finally show ?thesis by (simp add: dir_splitAddress_def Let_def)
qed

lemma way_range_less:
  assumes "dd_num_sets dd \<noteq> 0" "i \<in> set (way_range a dd)"
  shows "i < dir_slots dd"
proof -
  let ?s = "unat (snd (dir_splitAddress a dd))" and ?A = "unat (dd_associativity dd)"
  have "i < Suc ?s * ?A" using assms(2) by (simp add: way_range_def Let_def)
  also have "Suc ?s * ?A \<le> unat (dd_num_sets dd) * ?A"
    using set_index_less [OF assms(1), of a] by (intro mult_le_mono1) simp
  finally show ?thesis by (simp add: dir_slots_def)
qed

lemma set_ways_unat:
  assumes "dir_geometry dd"
  shows "map unat (set_ways (snd (dir_splitAddress a dd)) dd) = way_range a dd"
proof -
  let ?s = "snd (dir_splitAddress a dd)" and ?A = "dd_associativity dd"
  have "unat (?s * ?A + of_nat i) = unat ?s * unat ?A + i" if i: "i < unat ?A" for i
  proof -
    have "unat ?s * unat ?A + i \<in> set (way_range a dd)" using i by (simp add: way_range_def Let_def)
    then have "unat ?s * unat ?A + i < unat (dir_num_entries (dd_directory dd))"
      using way_range_less [of dd _ a] assms by (fastforce simp: dir_geometry_def)
    then have "unat ?s * unat ?A + i < 2 ^ 32"
      using unsigned_less [of "dir_num_entries (dd_directory dd)", where ?'a = nat] by simp
    then have "unat (of_nat (unat ?s * unat ?A + i) :: UInt32) = unat ?s * unat ?A + i"
      by (intro unat_of_nat_small) simp
    moreover have "?s * ?A + of_nat i = of_nat (unat ?s * unat ?A + i)" by simp
    ultimately show ?thesis by (simp only:)
  qed
  then show ?thesis by (auto simp: set_ways_def way_range_def Let_def intro!: nth_equalityI)
qed

lemma set_ways_less:
  assumes "dir_geometry dd" "n \<in> set (set_ways (snd (dir_splitAddress a dd)) dd)"
  shows "n < dir_num_entries (dd_directory dd) \<and> unat n \<in> set (way_range a dd)"
proof -
  have "unat n \<in> set (way_range a dd)" using assms set_ways_unat [OF assms(1), of a] by (metis image_eqI set_map)
  then show ?thesis using way_range_less [of dd "unat n" a] assms(1) by (auto simp: dir_geometry_def word_less_nat_alt)
qed

lemma find_map_unat: "find P (map f xs) = map_option f (find (\<lambda>x. P (f x)) xs)"
  by (induction xs) auto

lemma find_ways:
  assumes "dir_geometry dd"
  shows "find (\<lambda>i. slot_addr d i = b) (way_range a dd)
    = map_option unat (find (\<lambda>n. slot_addr d (unat n) = b) (set_ways (snd (dir_splitAddress a dd)) dd))"
  unfolding set_ways_unat [OF assms, symmetric] by (rule find_map_unat)

lemma dir_splitAddress_update [simp]:
  "dir_splitAddress a (dd\<lparr>dd_directory := d\<rparr>) = dir_splitAddress a dd"
  "dir_splitAddress a (dd\<lparr>dd_elapsed := t\<rparr>) = dir_splitAddress a dd"
  "dir_splitAddress a (dd\<lparr>dd_replaced := r\<rparr>) = dir_splitAddress a dd"
  "dir_splitAddress a (dd\<lparr>dd_replacement_ptrs := q\<rparr>) = dir_splitAddress a dd"
  by (simp_all add: dir_splitAddress_def)

lemma way_range_update [simp]:
  "way_range a (dd\<lparr>dd_directory := d\<rparr>) = way_range a dd"
  "way_range a (dd\<lparr>dd_elapsed := t\<rparr>) = way_range a dd"
  "way_range a (dd\<lparr>dd_replaced := r\<rparr>) = way_range a dd"
  "way_range a (dd\<lparr>dd_replacement_ptrs := q\<rparr>) = way_range a dd"
  by (simp_all add: way_range_def)

lemma dir_slots_update [simp]:
  "dir_slots (dd\<lparr>dd_directory := d\<rparr>) = dir_slots dd" "dir_slots (dd\<lparr>dd_elapsed := t\<rparr>) = dir_slots dd"
  "dir_slots (dd\<lparr>dd_replaced := r\<rparr>) = dir_slots dd" "dir_slots (dd\<lparr>dd_replacement_ptrs := q\<rparr>) = dir_slots dd"
  by (simp_all add: dir_slots_def)

text \<open>The time and the replacement pointers do not matter for the contents.\<close>

lemma entry_addr_update [simp]:
  "entry_addr (dd\<lparr>dd_elapsed := t\<rparr>) = entry_addr dd" "entry_addr (dd\<lparr>dd_replacement_ptrs := q\<rparr>) = entry_addr dd"
  "entry_addr (dd\<lparr>dd_replaced := r\<rparr>) = entry_addr dd"
  by (simp_all add: entry_addr_def fun_eq_iff)

lemma dir_time_irrelevant [simp]:
  "dd_ok (dd\<lparr>dd_elapsed := t\<rparr>) = dd_ok dd" "dir_lookup (dd\<lparr>dd_elapsed := t\<rparr>) = dir_lookup dd"
  "dir_lookup (dd\<lparr>dd_replacement_ptrs := q\<rparr>) = dir_lookup dd"
  by (simp_all add: dd_ok_def dir_geometry_def slots_ok_def replaced_ok_def dir_lookup_def fun_eq_iff cong: option.case_cong)

lemma dd_ok_ptrs:
  "dd_ok dd \<Longrightarrow> length q = length (dd_replacement_ptrs dd) \<Longrightarrow> dd_ok (dd\<lparr>dd_replacement_ptrs := q\<rparr>)"
  by (simp add: dd_ok_def dir_geometry_def slots_ok_def replaced_ok_def)

lemma dd_okD:
  assumes "dd_ok dd"
  shows "dir_geometry dd" "slots_ok dd" "p \<in> set (dd_replaced dd) \<Longrightarrow> replaced_ok dd p"
    "distinct (map (entry_addr dd) (dd_replaced dd))"
  using assms by (auto simp: dd_ok_def)

lemma dir_geometryD:
  assumes "dir_geometry dd"
  shows "dir_wf (dd_directory dd)" "dd_num_sets dd \<noteq> 0"
    "i < dir_slots dd \<Longrightarrow> i < unat (dir_num_entries (dd_directory dd))"
    "i \<in> set (way_range a dd) \<Longrightarrow> i < unat (dir_num_entries (dd_directory dd))"
  using assms way_range_less [of dd i a] by (auto simp: dir_geometry_def)

text \<open>Two directory caches with the same contents as seen by the controller.\<close>

definition same_contents :: "DramDirectoryCache \<Rightarrow> DramDirectoryCache \<Rightarrow> bool" where
  "same_contents dd dd' =
     (\<forall>b. b \<noteq> INVALID_ADDRESS \<longrightarrow> dir_lookup dd' b = dir_lookup dd b
        \<and> (\<forall>p. dir_lookup dd b = Some p \<longrightarrow> dir_heap (dd_directory dd') p = dir_heap (dd_directory dd) p))"

lemma slot_Some:
  "slot_addr d i \<noteq> INVALID_ADDRESS \<Longrightarrow> \<exists>p. dir_entry_list d ! i = Some p \<and> de_address (dir_heap d p) = slot_addr d i"
  by (auto simp: slot_addr_def split: option.splits)

lemma find_SomeD: "find P xs = Some x \<Longrightarrow> x \<in> set xs \<and> P x"
  by (auto simp: find_Some_iff)

text \<open>A pointer that the lookup returns is allocated and has the address.\<close>

lemma dir_lookup_Some:
  assumes ok: "dd_ok dd" and l: "dir_lookup dd a = Some p" and a: "a \<noteq> INVALID_ADDRESS"
  shows "p < dir_next (dd_directory dd) \<and> entry_addr dd p = a
    \<and> ((\<exists>i \<in> set (way_range a dd). dir_entry_list (dd_directory dd) ! i = Some p) \<or> p \<in> set (dd_replaced dd))"
proof (cases "find (\<lambda>i. slot_addr (dd_directory dd) i = a) (way_range a dd)")
  case None
  then have f: "find (\<lambda>p. entry_addr dd p = a) (dd_replaced dd) = Some p" using l by (simp add: dir_lookup_def)
  show ?thesis using find_SomeD [OF f] dd_okD(3) [OF ok] by (auto simp: replaced_ok_def)
next
  case (Some i)
  note i = find_SomeD [OF Some]
  have li: "i < unat (dir_num_entries (dd_directory dd))" using dir_geometryD(4) [OF dd_okD(1) [OF ok]] i by blast
  have "dir_entry_list (dd_directory dd) ! i = Some p" using l Some by (simp add: dir_lookup_def)
  then show ?thesis using i li dir_geometryD(1) [OF dd_okD(1) [OF ok]]
    by (auto simp: dir_wf_def slot_addr_def entry_addr_def)
qed

lemma dd_ok_ext:
  assumes ok: "dd_ok dd" and e: "dir_ext (dd_directory dd) d'"
  shows "dd_ok (dd\<lparr>dd_directory := d'\<rparr>) \<and> same_contents dd (dd\<lparr>dd_directory := d'\<rparr>)"
proof -
  let ?d = "dd_directory dd" and ?dd = "dd\<lparr>dd_directory := d'\<rparr>"
  note G = dir_geometryD [OF dd_okD(1) [OF ok]]
  have sa: "slot_addr d' i = slot_addr ?d i" if "i < unat (dir_num_entries ?d)" for i
    by (rule dir_ext_slot_addr [OF e G(1) that])
  have rp: "entry_addr ?dd p = entry_addr dd p \<and> dir_heap d' p = dir_heap ?d p" if "p < dir_next ?d" for p
    using e that by (simp add: entry_addr_def dir_ext_def)
  have geo: "dir_geometry ?dd" using dd_okD(1) [OF ok] e by (auto simp: dir_geometry_def dir_ext_def)
  have sl: "slots_ok ?dd" using dd_okD(2) [OF ok] sa G(3) by (simp add: slots_ok_def)
  have "replaced_ok ?dd p" if p: "p \<in> set (dd_replaced dd)" for p
  proof -
    note R = dd_okD(3) [OF ok p]
    have lt: "p < dir_next ?d" using R by (simp add: replaced_ok_def)
    have "Some p \<notin> set (dir_entry_list d')"
    proof
      assume "Some p \<in> set (dir_entry_list d')"
      then obtain i where i: "i < length (dir_entry_list d')" "dir_entry_list d' ! i = Some p" by (metis in_set_conv_nth)
      have li: "i < unat (dir_num_entries ?d)" using i(1) e by (simp add: dir_ext_def dir_wf_def)
      have "dir_entry_list ?d ! i \<noteq> None"
      proof
        assume "dir_entry_list ?d ! i = None"
        then have "dir_next ?d \<le> p" using e li i(2) unfolding dir_ext_def by blast
        then show False using lt by simp
      qed
      then have "dir_entry_list ?d ! i = Some p" using e li i(2) unfolding dir_ext_def by metis
      moreover have "i < length (dir_entry_list ?d)" using li G(1) by (simp add: dir_wf_def)
      ultimately show False using R nth_mem unfolding replaced_ok_def by metis
    qed
    moreover have "p < dir_next d'" using lt e by (auto simp: dir_ext_def)
    ultimately show ?thesis using R rp [OF lt] sa G(3,4) by (simp add: replaced_ok_def)
  qed
  moreover have "map (entry_addr ?dd) (dd_replaced ?dd) = map (entry_addr dd) (dd_replaced dd)"
    using rp dd_okD(3) [OF ok] by (auto simp: replaced_ok_def)
  ultimately have ok': "dd_ok ?dd" using geo sl dd_okD(4) [OF ok] by (simp add: dd_ok_def del: map_eq_conv)
  have "dir_lookup ?dd b = dir_lookup dd b" if b: "b \<noteq> INVALID_ADDRESS" for b
  proof -
    have f: "find (\<lambda>i. slot_addr d' i = b) (way_range b dd) = find (\<lambda>i. slot_addr ?d i = b) (way_range b dd)"
      by (rule find_cong) (use sa G(4) in auto)
    have r: "find (\<lambda>p. entry_addr ?dd p = b) (dd_replaced dd) = find (\<lambda>p. entry_addr dd p = b) (dd_replaced dd)"
      by (rule find_cong) (use rp dd_okD(3) [OF ok] in \<open>auto simp: replaced_ok_def\<close>)
    show ?thesis
    proof (cases "find (\<lambda>i. slot_addr ?d i = b) (way_range b dd)")
      case None
      then show ?thesis using f r by (simp add: dir_lookup_def)
    next
      case (Some i)
      note i = find_SomeD [OF Some]
      have "dir_entry_list d' ! i = dir_entry_list ?d ! i"
        using e i b slot_Some [of ?d i] G(4) [of i b] by (auto simp: dir_ext_def)
      then show ?thesis using Some f by (simp add: dir_lookup_def)
    qed
  qed
  then have "same_contents dd ?dd" using dir_lookup_Some [OF ok] rp by (auto simp: same_contents_def)
  then show ?thesis using ok' by blast
qed

lemma slot_addr_update_entry:
  assumes "dir_wf d" "i < unat (dir_num_entries d)" "j < unat (dir_num_entries d)" "dir_entry_list d ! i = Some p"
  shows "slot_addr (update_entry p f d) j = (if j = i then de_address (f (dir_heap d p)) else slot_addr d j)"
proof (cases "dir_entry_list d ! j")
  case None
  then show ?thesis using assms(4) by (auto simp: slot_addr_def update_entry_def)
next
  case (Some q)
  have "q = p \<longleftrightarrow> j = i" using assms Some by (auto simp: dir_wf_def)
  then show ?thesis using Some by (auto simp: slot_addr_def update_entry_def)
qed

lemma dir_wf_update_entry [simp]: "dir_wf (update_entry p f d) = dir_wf d"
  by (simp add: update_entry_def dir_wf_def)

lemma update_entry_simps [simp]:
  "dir_entry_list (update_entry p f d) = dir_entry_list d" "dir_num_entries (update_entry p f d) = dir_num_entries d"
  "dir_next (update_entry p f d) = dir_next d" "dir_use_max_hw_sharers (update_entry p f d) = dir_use_max_hw_sharers d"
  "dir_heap (update_entry p f d) q = (if q = p then f (dir_heap d p) else dir_heap d q)"
  by (simp_all add: update_entry_def)

lemma not_in_slots:
  assumes ok: "dd_ok dd" and n: "find (\<lambda>i. slot_addr (dd_directory dd) i = a) (way_range a dd) = None"
    and a: "a \<noteq> INVALID_ADDRESS" and i: "i < dir_slots dd"
  shows "slot_addr (dd_directory dd) i \<noteq> a"
proof
  assume s: "slot_addr (dd_directory dd) i = a"
  have "i \<in> set (way_range a dd)" using dd_okD(2) [OF ok] i a s unfolding slots_ok_def by auto
  then show False using n s by (auto simp: find_None_iff)
qed

text \<open>A free way of the set of \<open>a\<close> takes the address \<open>a\<close>.\<close>

lemma dd_ok_claim:
  assumes ok: "dd_ok dd" and i: "i \<in> set (way_range a dd)" and p: "dir_entry_list (dd_directory dd) ! i = Some p"
    and free: "slot_addr (dd_directory dd) i = INVALID_ADDRESS" and a: "a \<noteq> INVALID_ADDRESS"
    and n: "find (\<lambda>i. slot_addr (dd_directory dd) i = a) (way_range a dd) = None"
  defines "dd' \<equiv> dd\<lparr>dd_directory := update_entry p (\<lambda>e. e\<lparr>de_address := a\<rparr>) (dd_directory dd)\<rparr>"
  shows "dd_ok dd' \<and> dir_lookup dd a = None \<and> (\<forall>b. b \<noteq> INVALID_ADDRESS \<longrightarrow> dir_lookup dd' b = ((dir_lookup dd)(a \<mapsto> p)) b)
    \<and> (\<forall>b q. dir_lookup dd b = Some q \<longrightarrow> b \<noteq> INVALID_ADDRESS \<longrightarrow> q \<noteq> p)"
proof -
  let ?d = "dd_directory dd" and ?d' = "dd_directory dd'"
  note G = dir_geometryD [OF dd_okD(1) [OF ok]]
  have ni: "i < dir_slots dd" by (rule way_range_less [OF G(2) i])
  have sa: "slot_addr ?d' j = (if j = i then a else slot_addr ?d j)" if "j < unat (dir_num_entries ?d)" for j
    using slot_addr_update_entry [OF G(1) G(3) [OF ni] that p] by (simp add: dd'_def)
  note nis = not_in_slots [OF ok n a]
  have pl: "p \<notin> set (dd_replaced dd)"
  proof
    assume "p \<in> set (dd_replaced dd)"
    then have "Some p \<notin> set (dir_entry_list ?d)" using dd_okD(3) [OF ok] by (simp add: replaced_ok_def)
    then show False using p G(1) G(3) [OF ni] nth_mem [of i "dir_entry_list ?d"] by (simp add: dir_wf_def)
  qed
  have ea: "entry_addr dd' q = entry_addr dd q" if "q \<in> set (dd_replaced dd)" for q
    using that pl by (auto simp: entry_addr_def dd'_def)
  have ra: "entry_addr dd q \<noteq> a" if "q \<in> set (dd_replaced dd)" for q
    using dd_okD(3) [OF ok that] free i by (auto simp: replaced_ok_def)
  have W: "way_range b dd' = way_range b dd" "dir_slots dd' = dir_slots dd" "dd_replaced dd' = dd_replaced dd" for b
    by (simp_all add: dd'_def)
  have "dir_geometry dd'" using dd_okD(1) [OF ok] by (simp add: dir_geometry_def dd'_def)
  moreover have "slots_ok dd'"
    using dd_okD(2) [OF ok] sa G(3) nis i unfolding slots_ok_def W by (metis (full_types))
  moreover have "replaced_ok dd' q" if q: "q \<in> set (dd_replaced dd)" for q
    using dd_okD(3) [OF ok q] sa G(3,4) ra [OF q] a unfolding replaced_ok_def ea [OF q] W
    by (auto simp: dd'_def)
  moreover have "map (entry_addr dd') (dd_replaced dd) = map (entry_addr dd) (dd_replaced dd)" using ea by auto
  ultimately have ok': "dd_ok dd'" using dd_okD(4) [OF ok] unfolding dd_ok_def W by metis
  have none: "dir_lookup dd a = None"
  proof -
    have "find (\<lambda>p. entry_addr dd p = a) (dd_replaced dd) = None" using ra by (auto simp: find_None_iff)
    then show ?thesis using n by (simp add: dir_lookup_def)
  qed
  have "dir_lookup dd' b = ((dir_lookup dd)(a \<mapsto> p)) b" if b: "b \<noteq> INVALID_ADDRESS" for b
  proof (cases "b = a")
    case True
    have "\<exists>j. find (\<lambda>j. slot_addr ?d' j = a) (way_range a dd) = Some j"
      using i sa G(4) by (fastforce simp: find_None_iff simp flip: not_None_eq)
    then obtain j where j: "find (\<lambda>j. slot_addr ?d' j = a) (way_range a dd) = Some j" by blast
    have "j = i" using find_SomeD [OF j] sa G(4) nis way_range_less [OF G(2)] by metis
    then show ?thesis using j p True by (simp add: dir_lookup_def W) (simp add: dd'_def)
  next
    case False
    have f: "find (\<lambda>i. slot_addr ?d' i = b) (way_range b dd) = find (\<lambda>i. slot_addr ?d i = b) (way_range b dd)"
      by (rule find_cong) (use sa G(4) False b free in auto)
    have r: "find (\<lambda>p. entry_addr dd' p = b) (dd_replaced dd) = find (\<lambda>p. entry_addr dd p = b) (dd_replaced dd)"
      by (rule find_cong) (use ea in auto)
    have "dir_entry_list ?d' = dir_entry_list ?d" by (simp add: dd'_def)
    then show ?thesis using False f r by (simp add: dir_lookup_def W cong: option.case_cong)
  qed
  moreover have "q \<noteq> p" if "dir_lookup dd b = Some q" "b \<noteq> INVALID_ADDRESS" for b q
    using dir_lookup_Some [OF ok that] p free that(2) by (auto simp: slot_addr_def entry_addr_def)
  ultimately show ?thesis using ok' none by blast
qed

text \<open>
  \<^verbatim>\<open>getDirectoryEntry\<close>: an entry that exists is found and nothing changes; an address without entry gets a free
  way of its set with an uncached entry; when its set is full the answer is NULL.
\<close>

definition set_full :: "IntPtr \<Rightarrow> DramDirectoryCache \<Rightarrow> bool" where
  "set_full a dd = (\<forall>i \<in> set (way_range a dd). slot_addr (dd_directory dd) i \<noteq> INVALID_ADDRESS)"

lemma fresh_address [simp]: "fresh_entry (e\<lparr>de_address := a\<rparr>) = fresh_entry e"
  by (simp add: fresh_entry_def)

text \<open>Slots without an address are fresh: the controller works on an entry only after it has an address.\<close>

definition free_fresh :: "DramDirectoryCache \<Rightarrow> bool" where
  "free_fresh dd =
     (\<forall>i p. i < unat (dir_num_entries (dd_directory dd)) \<longrightarrow> dir_entry_list (dd_directory dd) ! i = Some p \<longrightarrow>
        entry_addr dd p = INVALID_ADDRESS \<longrightarrow> fresh_entry (dir_heap (dd_directory dd) p))"

lemma free_fresh_ext:
  assumes "free_fresh dd" "dir_ext (dd_directory dd) d'" "dir_wf (dd_directory dd)"
  shows "free_fresh (dd\<lparr>dd_directory := d'\<rparr>)"
  unfolding free_fresh_def
proof (intro allI impI)
  fix i p
  let ?d = "dd_directory dd" and ?dd = "dd\<lparr>dd_directory := d'\<rparr>"
  assume i: "i < unat (dir_num_entries (dd_directory ?dd))" "dir_entry_list (dd_directory ?dd) ! i = Some p"
    "entry_addr ?dd p = INVALID_ADDRESS"
  have li: "i < unat (dir_num_entries ?d)" using i(1) assms(2) by (simp add: dir_ext_def)
  show "fresh_entry (dir_heap (dd_directory ?dd) p)"
  proof (cases "dir_entry_list ?d ! i")
    case None
    then show ?thesis using i(2) li assms(2) unfolding dir_ext_def by simp
  next
    case (Some q)
    then have "q = p" "q < dir_next ?d" using i(2) li assms(2,3) by (auto simp: dir_ext_def dir_wf_def)
    then show ?thesis using Some i(3) li assms(1,2) by (auto simp: free_fresh_def dir_ext_def entry_addr_def)
  qed
qed

lemma dir_search_addr:
  assumes ok: "dd_ok dd" and ff: "free_fresh dd"
  shows "\<exists>r d'. dir_search (\<lambda>e. de_address e = b) (set_ways (snd (dir_splitAddress a dd)) dd) (dd_directory dd) = Inr (r, d')
    \<and> dd_ok (dd\<lparr>dd_directory := d'\<rparr>) \<and> free_fresh (dd\<lparr>dd_directory := d'\<rparr>) \<and> same_contents dd (dd\<lparr>dd_directory := d'\<rparr>)
    \<and> (\<forall>i < unat (dir_num_entries (dd_directory dd)). slot_addr d' i = slot_addr (dd_directory dd) i)
    \<and> (case find (\<lambda>i. slot_addr (dd_directory dd) i = b) (way_range a dd) of
         None \<Rightarrow> r = None
       | Some i \<Rightarrow> \<exists>n p. r = Some (n, p) \<and> unat n = i \<and> dir_entry_list d' ! i = Some p)"
proof -
  note geo = dd_okD(1) [OF ok]
  have wf: "dir_wf (dd_directory dd)" by (rule dir_geometryD(1) [OF geo])
  obtain r d' where s: "dir_search (\<lambda>e. de_address e = b) (set_ways (snd (dir_splitAddress a dd)) dd) (dd_directory dd) = Inr (r, d')"
    and e: "dir_ext (dd_directory dd) d'"
    and c: "case find (\<lambda>n. slot_addr (dd_directory dd) (unat n) = b) (set_ways (snd (dir_splitAddress a dd)) dd) of
         None \<Rightarrow> r = None | Some n \<Rightarrow> \<exists>p. r = Some (n, p) \<and> dir_entry_list d' ! unat n = Some p"
    using dir_search_ext [OF wf, of "set_ways (snd (dir_splitAddress a dd)) dd" b] set_ways_less [OF geo] by blast
  show ?thesis
    using s dd_ok_ext [OF ok e] free_fresh_ext [OF ff e wf] dir_ext_slot_addr [OF e wf] c unfolding find_ways [OF geo]
    by (cases "find (\<lambda>n. slot_addr (dd_directory dd) (unat n) = b) (set_ways (snd (dir_splitAddress a dd)) dd)") auto
qed

lemma same_contentsD:
  assumes "same_contents dd dd'" "b \<noteq> INVALID_ADDRESS"
  shows "dir_lookup dd' b = dir_lookup dd b"
    "dir_lookup dd b = Some p \<Longrightarrow> dir_heap (dd_directory dd') p = dir_heap (dd_directory dd) p"
  using assms by (auto simp: same_contents_def)

lemma same_contents_trans: "same_contents dd dd' \<Longrightarrow> same_contents dd' dd'' \<Longrightarrow> same_contents dd dd''"
  by (simp add: same_contents_def)

lemma same_contents_refl [simp]: "same_contents dd dd"
  by (simp add: same_contents_def)

lemma same_contents_time [simp]:
  "same_contents (dd\<lparr>dd_elapsed := t\<rparr>) dd' = same_contents dd dd'"
  "same_contents dd (dd'\<lparr>dd_elapsed := t\<rparr>) = same_contents dd dd'"
  by (simp_all add: same_contents_def)

lemma free_fresh_time [simp]: "free_fresh (dd\<lparr>dd_elapsed := t\<rparr>) = free_fresh dd"
  by (simp add: free_fresh_def)

lemma set_full_time [simp]: "set_full a (dd\<lparr>dd_elapsed := t\<rparr>) = set_full a dd"
  by (simp add: set_full_def)

definition dir_inv :: "DramDirectoryCache \<Rightarrow> bool" where
  "dir_inv dd = (dd_ok dd \<and> free_fresh dd)"

lemma dir_inv_time [simp]: "dir_inv (dd\<lparr>dd_elapsed := t\<rparr>) = dir_inv dd"
  by (simp add: dir_inv_def)

text \<open>The three outcomes of \<^verbatim>\<open>getDirectoryEntry\<close>.\<close>

definition get_outcome :: "IntPtr \<Rightarrow> DramDirectoryCache \<Rightarrow> nat option \<Rightarrow> DramDirectoryCache \<Rightarrow> bool" where
  "get_outcome a dd r dd' =
     (case dir_lookup dd a of
        Some p \<Rightarrow> r = Some p \<and> same_contents dd dd'
      | None \<Rightarrow>
          if set_full a dd then r = None \<and> same_contents dd dd' \<and> set_full a dd'
          else \<exists>p. r = Some p \<and> fresh_entry (dir_heap (dd_directory dd') p) \<and> entry_addr dd' p = a
                 \<and> (\<forall>b. b \<noteq> INVALID_ADDRESS \<longrightarrow> dir_lookup dd' b = ((dir_lookup dd)(a \<mapsto> p)) b)
                 \<and> (\<forall>b q. b \<noteq> INVALID_ADDRESS \<longrightarrow> dir_lookup dd b = Some q \<longrightarrow>
                      q \<noteq> p \<and> dir_heap (dd_directory dd') q = dir_heap (dd_directory dd) q))"

lemma get_outcome_time [simp]:
  "get_outcome a (dd\<lparr>dd_elapsed := t\<rparr>) r dd' = get_outcome a dd r dd'"
  "get_outcome a dd r (dd'\<lparr>dd_elapsed := t\<rparr>) = get_outcome a dd r dd'"
  by (simp_all add: get_outcome_def cong: option.case_cong)

lemma dir_lookup_slot:
  assumes ok: "dd_ok dd" and a: "a \<noteq> INVALID_ADDRESS"
    and f: "find (\<lambda>i. slot_addr (dd_directory dd) i = a) (way_range a dd) = Some i"
  shows "dir_lookup dd a = dir_entry_list (dd_directory dd) ! i"
  using f by (simp add: dir_lookup_def)

lemma find_slot_same:
  assumes geo: "dir_geometry dd" and sa: "\<forall>i < unat (dir_num_entries (dd_directory dd)). slot_addr d' i = slot_addr (dd_directory dd) i"
  shows "find (\<lambda>i. slot_addr d' i = b) (way_range a dd) = find (\<lambda>i. slot_addr (dd_directory dd) i = b) (way_range a dd)"
  by (rule find_cong) (use sa dir_geometryD(4) [OF geo] in auto)

lemma claim_outcome:
  assumes I: "dir_inv dd" and a: "a \<noteq> INVALID_ADDRESS"
    and n: "find (\<lambda>i. slot_addr (dd_directory dd) i = a) (way_range a dd) = None"
    and i: "find (\<lambda>i. slot_addr (dd_directory dd) i = INVALID_ADDRESS) (way_range a dd) = Some i"
    and p: "dir_entry_list (dd_directory dd) ! i = Some p"
  defines "dd' \<equiv> dd\<lparr>dd_directory := update_entry p (\<lambda>e. e\<lparr>de_address := a\<rparr>) (dd_directory dd)\<rparr>"
  shows "dir_inv dd' \<and> get_outcome a dd (Some p) dd'"
proof -
  have ok: "dd_ok dd" and ff: "free_fresh dd" using I by (auto simp: dir_inv_def)
  note i' = find_SomeD [OF i]
  have li: "i < unat (dir_num_entries (dd_directory dd))" using i' dir_geometryD(4) [OF dd_okD(1) [OF ok]] by blast
  note C = dd_ok_claim [OF ok conjunct1 [OF i'] p conjunct2 [OF i'] a n, folded dd'_def]
  have fr: "fresh_entry (dir_heap (dd_directory dd) p)"
    using ff li p conjunct2 [OF i'] by (auto simp: free_fresh_def slot_addr_def entry_addr_def)
  have nf: "\<not> set_full a dd" using i' by (auto simp: set_full_def)
  have "free_fresh dd'"
    using ff a unfolding free_fresh_def by (auto simp: dd'_def entry_addr_def split: if_splits)
  moreover have "get_outcome a dd (Some p) dd'"
    using C fr nf by (auto simp: get_outcome_def) (auto simp: dd'_def entry_addr_def)
  ultimately show ?thesis using C by (simp add: dir_inv_def)
qed

lemma get_outcome_same:
  assumes "same_contents dd dd1" "get_outcome a dd1 r dd'" "a \<noteq> INVALID_ADDRESS" "set_full a dd1 = set_full a dd"
  shows "get_outcome a dd r dd'"
proof -
  have l: "dir_lookup dd1 b = dir_lookup dd b" if "b \<noteq> INVALID_ADDRESS" for b using same_contentsD(1) [OF assms(1) that] .
  show ?thesis
  proof (cases "dir_lookup dd a")
    case (Some p)
    then show ?thesis using assms same_contents_trans l [OF assms(3)] by (auto simp: get_outcome_def)
  next
    case None
    show ?thesis
    proof (cases "set_full a dd")
      case True
      then show ?thesis using assms None same_contents_trans l [OF assms(3)] by (auto simp: get_outcome_def)
    next
      case False
      then obtain p where p: "r = Some p" "fresh_entry (dir_heap (dd_directory dd') p)" "entry_addr dd' p = a"
        "\<And>b. b \<noteq> INVALID_ADDRESS \<Longrightarrow> dir_lookup dd' b = ((dir_lookup dd1)(a \<mapsto> p)) b"
        "\<And>b q. b \<noteq> INVALID_ADDRESS \<Longrightarrow> dir_lookup dd1 b = Some q \<Longrightarrow> q \<noteq> p \<and> dir_heap (dd_directory dd') q = dir_heap (dd_directory dd1) q"
        using assms(2,4) None l [OF assms(3)] by (auto simp: get_outcome_def)
      have "dir_lookup dd' b = ((dir_lookup dd)(a \<mapsto> p)) b" if "b \<noteq> INVALID_ADDRESS" for b
        using p(4) [OF that] l [OF that] by simp
      moreover have "q \<noteq> p \<and> dir_heap (dd_directory dd') q = dir_heap (dd_directory dd) q"
        if "b \<noteq> INVALID_ADDRESS" "dir_lookup dd b = Some q" for b q
        using p(5) [OF that(1), of q] l [OF that(1)] same_contentsD(2) [OF assms(1) that] that(2) by simp
      ultimately show ?thesis using p(1-3) None False by (auto simp: get_outcome_def)
    qed
  qed
qed

lemma dir_getDirectoryEntry_spec:
  assumes I: "dir_inv dd" and a: "a \<noteq> INVALID_ADDRESS"
  shows "\<exists>r dd'. dir_getDirectoryEntry a modeled dd = Inr (r, dd') \<and> dir_inv dd' \<and> get_outcome a dd r dd'"
proof -
  define dd0 where "dd0 = (if modeled then dd\<lparr>dd_elapsed := dd_elapsed dd + dd_access_time dd\<rparr> else dd)"
  have I0: "dir_inv dd0" and g0: "\<And>r dd'. get_outcome a dd0 r dd' = get_outcome a dd r dd'" using I by (auto simp: dd0_def)
  then have ok0: "dd_ok dd0" and ff0: "free_fresh dd0" by (auto simp: dir_inv_def)
  note geo = dd_okD(1) [OF ok0]
  let ?ways = "set_ways (snd (dir_splitAddress a dd0)) dd0"
  obtain r1 d1 where s1: "dir_search (\<lambda>e. de_address e = a) ?ways (dd_directory dd0) = Inr (r1, d1)"
    and D1: "dd_ok (dd0\<lparr>dd_directory := d1\<rparr>)" "free_fresh (dd0\<lparr>dd_directory := d1\<rparr>)" "same_contents dd0 (dd0\<lparr>dd_directory := d1\<rparr>)"
    and sa1: "\<forall>i < unat (dir_num_entries (dd_directory dd0)). slot_addr d1 i = slot_addr (dd_directory dd0) i"
    and c1: "case find (\<lambda>i. slot_addr (dd_directory dd0) i = a) (way_range a dd0) of None \<Rightarrow> r1 = None
       | Some i \<Rightarrow> \<exists>n p. r1 = Some (n, p) \<and> unat n = i \<and> dir_entry_list d1 ! i = Some p"
    using dir_search_addr [OF ok0 ff0, of a a] by blast
  let ?dd1 = "dd0\<lparr>dd_directory := d1\<rparr>"
  note f1 = find_slot_same [OF geo sa1]
  show ?thesis
  proof (cases "find (\<lambda>i. slot_addr (dd_directory dd0) i = a) (way_range a dd0)")
    case (Some i)
    then obtain n p where r1: "r1 = Some (n, p)" "dir_entry_list d1 ! i = Some p" using c1 by auto
    have "dir_lookup ?dd1 a = Some p" using Some r1 f1 by (simp add: dir_lookup_def)
    then have l: "dir_lookup dd0 a = Some p" using same_contentsD(1) [OF D1(3) a] by simp
    have "dir_inv ?dd1 \<and> get_outcome a dd0 (Some p) ?dd1" using l D1 by (simp add: dir_inv_def get_outcome_def)
    then show ?thesis using s1 r1(1) g0
      unfolding dir_getDirectoryEntry_def Let_def dd0_def [symmetric] by simp
  next
    case None
    then have r1: "r1 = None" using c1 by simp
    have w1: "set_ways (snd (dir_splitAddress a ?dd1)) ?dd1 = ?ways" by (simp add: set_ways_def)
    obtain r2 d2 where s2: "dir_search (\<lambda>e. de_address e = INVALID_ADDRESS) ?ways d1 = Inr (r2, d2)"
      and D2: "dd_ok (dd0\<lparr>dd_directory := d2\<rparr>)" "free_fresh (dd0\<lparr>dd_directory := d2\<rparr>)" "same_contents ?dd1 (dd0\<lparr>dd_directory := d2\<rparr>)"
      and sa2: "\<forall>i < unat (dir_num_entries d1). slot_addr d2 i = slot_addr d1 i"
      and c2: "case find (\<lambda>i. slot_addr d1 i = INVALID_ADDRESS) (way_range a dd0) of None \<Rightarrow> r2 = None
         | Some i \<Rightarrow> \<exists>n p. r2 = Some (n, p) \<and> unat n = i \<and> dir_entry_list d2 ! i = Some p"
      using dir_search_addr [OF D1(1,2), of INVALID_ADDRESS a] unfolding w1 by auto
    let ?dd2 = "dd0\<lparr>dd_directory := d2\<rparr>"
    have sc: "same_contents dd0 ?dd2" using D1(3) D2(3) by (rule same_contents_trans)
    have f2: "find (\<lambda>i. slot_addr d2 i = b) (way_range a dd0) = find (\<lambda>i. slot_addr (dd_directory dd0) i = b) (way_range a dd0)" for b
      using find_slot_same [of ?dd1 d2 b a] dd_okD(1) [OF D1(1)] sa2 f1 by simp
    have full: "set_full a ?dd2 = set_full a dd0"
      using f2 [of INVALID_ADDRESS] find_None_iff [of "\<lambda>i. slot_addr d2 i = INVALID_ADDRESS" "way_range a dd0"]
        find_None_iff [of "\<lambda>i. slot_addr (dd_directory dd0) i = INVALID_ADDRESS" "way_range a dd0"]
      by (auto simp: set_full_def)
    have I2: "dir_inv ?dd2" using D2 by (simp add: dir_inv_def)
    show ?thesis
    proof (cases "find (\<lambda>i. slot_addr d2 i = INVALID_ADDRESS) (way_range a dd0)")
      case (Some i)
      then obtain n p where r2: "r2 = Some (n, p)" "dir_entry_list d2 ! i = Some p" using c2 f1 f2 by auto
      let ?dd' = "dd0\<lparr>dd_directory := update_entry p (\<lambda>e. e\<lparr>de_address := a\<rparr>) d2\<rparr>"
      have "dir_inv ?dd' \<and> get_outcome a ?dd2 (Some p) ?dd'"
        using claim_outcome [OF I2 a, of i p] None f2 Some r2(2) by simp
      then have "dir_inv ?dd' \<and> get_outcome a dd0 (Some p) ?dd'" using get_outcome_same [OF sc _ a full] by blast
      then show ?thesis using s1 s2 r1 r2(1) g0
        unfolding dir_getDirectoryEntry_def Let_def dd0_def [symmetric] by simp
    next
      case None2: None
      then have r2: "r2 = None" using c2 f1 f2 by simp
      have "set_full a dd0" using None2 f2 by (auto simp: set_full_def find_None_iff)
      moreover have "dir_lookup ?dd2 a = find (\<lambda>p. de_address (dir_heap d2 p) = a) (dd_replaced dd0)"
        using None f2 by (simp add: dir_lookup_def entry_addr_def)
      ultimately have "get_outcome a dd0 (find (\<lambda>p. de_address (dir_heap d2 p) = a) (dd_replaced dd0)) ?dd2"
        using sc full same_contentsD(1) [OF sc a]
        by (cases "find (\<lambda>p. de_address (dir_heap d2 p) = a) (dd_replaced dd0)") (simp_all add: get_outcome_def)
      then show ?thesis using s1 s2 r1 r2 g0 I2
        unfolding dir_getDirectoryEntry_def Let_def dd0_def [symmetric] by simp
    qed
  qed
qed

lemma dir_collect_ext:
  assumes "dir_wf d" "\<forall>n \<in> set ns. n < dir_num_entries d"
  shows "\<exists>ps d'. dir_collect ns d = Inr (ps, d') \<and> dir_ext d d' \<and> length ps = length ns
    \<and> (\<forall>k < length ns. dir_entry_list d' ! unat (ns ! k) = Some (ps ! k))"
  using assms
proof (induction ns arbitrary: d)
  case Nil
  then show ?case by (simp add: dir_ext_refl)
next
  case (Cons n ns)
  obtain p d1 where g: "Directory_getDirectoryEntry n d = Inr (p, d1)" "dir_ext d d1" "dir_entry_list d1 ! unat n = Some p"
    using Directory_getDirectoryEntry_ext [of d n] Cons.prems by auto
  have wf1: "dir_wf d1" "\<forall>n \<in> set ns. n < dir_num_entries d1" using g(2) Cons.prems by (auto simp: dir_ext_def)
  obtain ps d' where IH: "dir_collect ns d1 = Inr (ps, d')" "dir_ext d1 d'" "length ps = length ns"
    "\<forall>k < length ns. dir_entry_list d' ! unat (ns ! k) = Some (ps ! k)"
    using Cons.IH [OF wf1] by blast
  have "unat n < unat (dir_num_entries d1)" using g(2) Cons.prems(2) by (simp add: dir_ext_def word_less_nat_alt)
  then have "dir_entry_list d' ! unat n = Some p" using IH(2) g(3) by (simp add: dir_ext_def)
  moreover have "dir_ext d d'" by (rule dir_ext_trans [OF g(2) IH(2) Cons.prems(1)])
  ultimately show ?case using g(1) IH by (auto simp: nth_Cons split: nat.split)
qed

lemma way_range_cases: "i \<in> set (way_range a dd) \<longleftrightarrow>
    unat (snd (dir_splitAddress a dd)) * unat (dd_associativity dd) \<le> i
    \<and> i < Suc (unat (snd (dir_splitAddress a dd))) * unat (dd_associativity dd)"
  by (auto simp: way_range_def Let_def)

lemma way_range_eq:
  assumes "i \<in> set (way_range a dd)" "i \<in> set (way_range b dd)"
  shows "way_range a dd = way_range b dd"
proof -
  let ?A = "unat (dd_associativity dd)"
  have "i div ?A = unat (snd (dir_splitAddress x dd))" if "i \<in> set (way_range x dd)" for x
    using that unfolding way_range_cases by (metis div_nat_eqI mult.commute)
  then have "unat (snd (dir_splitAddress a dd)) = unat (snd (dir_splitAddress b dd))" using assms by metis
  then show ?thesis by (simp add: way_range_def)
qed

lemma slot_lookup:
  assumes ok: "dd_ok dd" and i: "i < dir_slots dd" and p: "dir_entry_list (dd_directory dd) ! i = Some p"
    and a: "slot_addr (dd_directory dd) i \<noteq> INVALID_ADDRESS"
  shows "dir_lookup dd (slot_addr (dd_directory dd) i) = Some p"
proof -
  let ?b = "slot_addr (dd_directory dd) i"
  have i': "i \<in> set (way_range ?b dd)" using dd_okD(2) [OF ok] i a unfolding slots_ok_def by blast
  then obtain j where j: "find (\<lambda>j. slot_addr (dd_directory dd) j = ?b) (way_range ?b dd) = Some j"
    by (cases "find (\<lambda>j. slot_addr (dd_directory dd) j = ?b) (way_range ?b dd)") (auto simp: find_None_iff)
  have "j < dir_slots dd" using way_range_less [OF dir_geometryD(2) [OF dd_okD(1) [OF ok]]] find_SomeD [OF j] by blast
  then have "j = i" using find_SomeD [OF j] dd_okD(2) [OF ok] i a unfolding slots_ok_def by metis
  then show ?thesis using j p by (simp add: dir_lookup_def)
qed

lemma candidate_way:
  fixes dd :: DramDirectoryCache and a :: IntPtr
  assumes geo: "dir_geometry dd"
  defines "s \<equiv> snd (dir_splitAddress a dd)"
  shows "s * dd_associativity dd + x mod dd_associativity dd < dir_num_entries (dd_directory dd)
    \<and> unat (s * dd_associativity dd + x mod dd_associativity dd) \<in> set (way_range a dd)"
proof -
  have A: "dd_associativity dd \<noteq> 0" using geo by (simp add: dir_geometry_def)
  define k where "k = unat (x mod dd_associativity dd)"
  have k: "k < unat (dd_associativity dd)" using A by (simp add: k_def unat_mod_distrib unat_gt_0)
  have "s * dd_associativity dd + x mod dd_associativity dd \<in> set (set_ways s dd)"
    using k by (auto simp: set_ways_def k_def intro!: image_eqI [of _ _ k])
  then show ?thesis using set_ways_less [OF geo] by (simp add: s_def)
qed

lemma getReplacementCandidates_spec:
  assumes I: "dir_inv dd" and a: "a \<noteq> INVALID_ADDRESS" and l: "dir_lookup dd a = None" and f: "set_full a dd"
  shows "\<exists>ps dd'. getReplacementCandidates a dd = Inr (ps, dd') \<and> dir_inv dd' \<and> same_contents dd dd' \<and> set_full a dd'
    \<and> ps \<noteq> []
    \<and> (\<forall>p \<in> set ps. \<exists>i \<in> set (way_range a dd'). dir_entry_list (dd_directory dd') ! i = Some p)"
proof -
  obtain dd1 where g: "dir_getDirectoryEntry a False dd = Inr (None, dd1)" "dir_inv dd1" "same_contents dd dd1" "set_full a dd1"
    using dir_getDirectoryEntry_spec [OF I a, of False] l f by (auto simp: get_outcome_def)
  have ok: "dd_ok dd1" and ff: "free_fresh dd1" using g(2) by (auto simp: dir_inv_def)
  note geo = dd_okD(1) [OF ok]
  let ?s = "snd (dir_splitAddress a dd1)"
  let ?ptr = "dd_replacement_ptrs dd1 ! unat ?s"
  let ?ways = "map (\<lambda>i. ?s * dd_associativity dd1 + (of_nat i + ?ptr) mod dd_associativity dd1) [0..<unat (dd_associativity dd1)]"
  have w: "n < dir_num_entries (dd_directory dd1) \<and> unat n \<in> set (way_range a dd1)" if "n \<in> set ?ways" for n
    using that candidate_way [OF geo] by auto
  obtain ps d' where c: "dir_collect ?ways (dd_directory dd1) = Inr (ps, d')" "dir_ext (dd_directory dd1) d'"
    "length ps = length ?ways" "\<forall>k < length ?ways. dir_entry_list d' ! unat (?ways ! k) = Some (ps ! k)"
    using dir_collect_ext [OF dir_geometryD(1) [OF geo], of ?ways] w by blast
  let ?dd2 = "dd1\<lparr>dd_directory := d'\<rparr>"
  let ?dd' = "?dd2\<lparr>dd_replacement_ptrs := (dd_replacement_ptrs dd1)[unat ?s := ?ptr + 1]\<rparr>"
  have E: "dd_ok ?dd2" "same_contents dd1 ?dd2" "free_fresh ?dd2"
    using dd_ok_ext [OF ok c(2)] free_fresh_ext [OF ff c(2) dir_geometryD(1) [OF geo]] by auto
  have "dd_ok ?dd'" using dd_ok_ptrs [OF E(1)] by simp
  moreover have "free_fresh ?dd'" using E(3) by (simp add: free_fresh_def)
  moreover have "same_contents dd ?dd'"
    using same_contents_trans [OF g(3) E(2)] by (simp add: same_contents_def)
  moreover have "set_full a ?dd'"
    using g(4) dir_ext_slot_addr [OF c(2) dir_geometryD(1) [OF geo]] dir_geometryD(4) [OF geo] by (simp add: set_full_def)
  moreover have "ps \<noteq> []" using c(3) geo by (auto simp: dir_geometry_def unat_eq_zero)
  moreover have "\<exists>i \<in> set (way_range a dd1). dir_entry_list d' ! i = Some p" if p: "p \<in> set ps" for p
  proof -
    obtain k where k: "k < length ps" "ps ! k = p" using p by (auto simp: in_set_conv_nth)
    then show ?thesis using c(3,4) w [OF nth_mem, of k] by auto
  qed
  ultimately show ?thesis using g(1) c(1) by (simp add: getReplacementCandidates_def dir_inv_def Let_def)
qed

text \<open>The change of \<^verbatim>\<open>replaceDirectoryEntry\<close>: slot \<open>i\<close> gets a new entry for \<open>a\<close>, its old entry joins the replaced ones.\<close>

definition install :: "nat \<Rightarrow> IntPtr \<Rightarrow> Directory \<Rightarrow> Directory" where
  "install i a d =
     (case createDirectoryEntry d of
        (q, d1) \<Rightarrow> (update_entry q (\<lambda>e. e\<lparr>de_address := a\<rparr>) d1)\<lparr>dir_entry_list := (dir_entry_list d1)[i := Some q]\<rparr>)"

lemma install_props:
  assumes wf: "dir_wf d" and i: "i < unat (dir_num_entries d)"
  shows "dir_next (install i a d) = Suc (dir_next d)" "dir_num_entries (install i a d) = dir_num_entries d"
    "length (dir_entry_list (install i a d)) = unat (dir_num_entries d)"
    "dir_entry_list (install i a d) ! j = (if j = i then Some (dir_next d) else dir_entry_list d ! j)"
    "x < dir_next d \<Longrightarrow> dir_heap (install i a d) x = dir_heap d x"
    "fresh_entry (dir_heap (install i a d) (dir_next d))" "de_address (dir_heap (install i a d) (dir_next d)) = a"
proof -
  obtain q d1 where c: "createDirectoryEntry d = (q, d1)" by force
  note C = createDirectoryEntry_props [OF c]
  have len: "length (dir_entry_list d) = unat (dir_num_entries d)" using wf by (simp add: dir_wf_def)
  show "dir_next (install i a d) = Suc (dir_next d)" "dir_num_entries (install i a d) = dir_num_entries d"
    "length (dir_entry_list (install i a d)) = unat (dir_num_entries d)"
    "dir_entry_list (install i a d) ! j = (if j = i then Some (dir_next d) else dir_entry_list d ! j)"
    "x < dir_next d \<Longrightarrow> dir_heap (install i a d) x = dir_heap d x"
    "fresh_entry (dir_heap (install i a d) (dir_next d))" "de_address (dir_heap (install i a d) (dir_next d)) = a"
    using C len i by (auto simp: install_def c nth_list_update)
qed

lemma slot_ptr_less: "dir_wf d \<Longrightarrow> j < unat (dir_num_entries d) \<Longrightarrow> dir_entry_list d ! j = Some x \<Longrightarrow> x < dir_next d"
  by (simp add: dir_wf_def)

lemma slot_ptr_inj:
  "dir_wf d \<Longrightarrow> j < unat (dir_num_entries d) \<Longrightarrow> k < unat (dir_num_entries d) \<Longrightarrow>
   dir_entry_list d ! j = Some x \<Longrightarrow> dir_entry_list d ! k = Some x \<Longrightarrow> j = k"
  by (simp add: dir_wf_def)

lemma ptr_in_slots: "dir_wf d \<Longrightarrow> Some x \<in> set (dir_entry_list d) \<longleftrightarrow> (\<exists>j < unat (dir_num_entries d). dir_entry_list d ! j = Some x)"
  by (auto simp: in_set_conv_nth dir_wf_def)

lemma install_wf:
  assumes wf: "dir_wf d" and i: "i < unat (dir_num_entries d)"
  shows "dir_wf (install i a d)"
  unfolding dir_wf_def
proof (intro conjI allI impI)
  note P = install_props [OF wf i]
  let ?d' = "install i a d"
  show "length (dir_entry_list ?d') = unat (dir_num_entries ?d')" using P by simp
  show "x < dir_next ?d'" if "j < length (dir_entry_list ?d')" "dir_entry_list ?d' ! j = Some x" for j x
    using that P slot_ptr_less [OF wf, of j x] by (auto simp: less_Suc_eq split: if_splits)
  show "j = k" if "j < length (dir_entry_list ?d')" "k < length (dir_entry_list ?d')"
    "dir_entry_list ?d' ! j = Some x" "dir_entry_list ?d' ! k = Some x" for j k x
    using that P(3,4) slot_ptr_less [OF wf, of j x] slot_ptr_less [OF wf, of k x] slot_ptr_inj [OF wf, of j k x]
    by (auto split: if_splits)
qed

lemma install_slot_addr:
  assumes wf: "dir_wf d" and i: "i < unat (dir_num_entries d)" and j: "j < unat (dir_num_entries d)"
  shows "slot_addr (install i a d) j = (if j = i then a else slot_addr d j)"
  using install_props [OF wf i] slot_ptr_less [OF wf j] by (auto simp: slot_addr_def split: option.splits)

lemma lookup_None_slots:
  assumes ok: "dd_ok dd" and a: "a \<noteq> INVALID_ADDRESS" and l: "dir_lookup dd a = None"
  shows "j < dir_slots dd \<Longrightarrow> slot_addr (dd_directory dd) j \<noteq> a" "x \<in> set (dd_replaced dd) \<Longrightarrow> entry_addr dd x \<noteq> a"
proof -
  have n: "find (\<lambda>i. slot_addr (dd_directory dd) i = a) (way_range a dd) = None"
  proof (rule ccontr)
    assume "find (\<lambda>i. slot_addr (dd_directory dd) i = a) (way_range a dd) \<noteq> None"
    then obtain j where j: "find (\<lambda>i. slot_addr (dd_directory dd) i = a) (way_range a dd) = Some j" by blast
    then show False using l find_SomeD [OF j] a slot_Some [of "dd_directory dd" j] by (auto simp: dir_lookup_def)
  qed
  show "j < dir_slots dd \<Longrightarrow> slot_addr (dd_directory dd) j \<noteq> a" by (rule not_in_slots [OF ok n a])
  have "find (\<lambda>x. entry_addr dd x = a) (dd_replaced dd) = None" using l n by (simp add: dir_lookup_def)
  then show "x \<in> set (dd_replaced dd) \<Longrightarrow> entry_addr dd x \<noteq> a" by (auto simp: find_None_iff)
qed

lemma dd_ok_replace:
  assumes ok: "dd_ok dd" and i: "i \<in> set (way_range a dd)" and p: "dir_entry_list (dd_directory dd) ! i = Some p"
    and full: "set_full a dd" and a: "a \<noteq> INVALID_ADDRESS" and l: "dir_lookup dd a = None"
  defines "dd' \<equiv> dd\<lparr>dd_directory := install i a (dd_directory dd), dd_replaced := dd_replaced dd @ [p]\<rparr>"
  shows "dd_ok dd'"
proof -
  let ?d = "dd_directory dd" and ?d' = "install i a (dd_directory dd)"
  note geo = dd_okD(1) [OF ok]
  note G = dir_geometryD [OF geo]
  have ni: "i < dir_slots dd" by (rule way_range_less [OF G(2) i])
  note li = G(3) [OF ni]
  note P = install_props [OF G(1) li, where a = a]
  note sa = install_slot_addr [OF G(1) li, of _ a]
  note nslot = lookup_None_slots [OF ok a l]
  have W: "way_range b dd' = way_range b dd" "dir_slots dd' = dir_slots dd" "dd_directory dd' = ?d'" "dd_replaced dd' = dd_replaced dd @ [p]" for b
    by (simp_all add: dd'_def)
  have si: "slot_addr ?d i \<noteq> INVALID_ADDRESS" using full i by (simp add: set_full_def)
  have pq: "p < dir_next ?d" by (rule slot_ptr_less [OF G(1) li p])
  have ea: "entry_addr dd' x = entry_addr dd x" if "x < dir_next ?d" for x using P(5) [OF that] by (simp add: entry_addr_def W)
  have rq: "x < dir_next ?d" if "x \<in> set (dd_replaced dd)" for x using dd_okD(3) [OF ok that] by (simp add: replaced_ok_def)
  have pa: "entry_addr dd p = slot_addr ?d i" using p by (simp add: slot_addr_def entry_addr_def)
  have outside: "Some x \<notin> set (dir_entry_list ?d')" if "x < dir_next ?d" "\<forall>j < unat (dir_num_entries ?d). j \<noteq> i \<longrightarrow> dir_entry_list ?d ! j \<noteq> Some x" for x
    using that P(2,4) ptr_in_slots [OF install_wf [OF G(1) li], of x a] by auto
  have "dir_geometry dd'" using geo install_wf [OF G(1) li] P(2) by (simp add: dir_geometry_def W dd'_def dir_slots_def)
  moreover have "slots_ok dd'"
    using dd_okD(2) [OF ok] sa G(3) nslot(1) i unfolding slots_ok_def W by (metis (full_types))
  moreover have "replaced_ok dd' x" if x: "x \<in> set (dd_replaced dd)" for x
  proof -
    have "Some x \<notin> set (dir_entry_list ?d')"
      by (rule outside [OF rq [OF x]]) (use dd_okD(3) [OF ok x] ptr_in_slots [OF G(1)] in \<open>auto simp: replaced_ok_def\<close>)
    then show ?thesis using dd_okD(3) [OF ok x] nslot(2) [OF x] sa G(3,4) a P(1) unfolding replaced_ok_def W ea [OF rq [OF x]] by auto
  qed
  moreover have "replaced_ok dd' p"
  proof -
    have "Some p \<notin> set (dir_entry_list ?d')" by (rule outside [OF pq]) (use slot_ptr_inj [OF G(1) li _ p] in auto)
    moreover have "way_range (slot_addr ?d i) dd = way_range a dd"
      using way_range_eq [OF _ i] dd_okD(2) [OF ok] ni si unfolding slots_ok_def by blast
    moreover have "slot_addr ?d j \<noteq> slot_addr ?d i" if "j < dir_slots dd" "j \<noteq> i" for j
      using dd_okD(2) [OF ok] ni si that unfolding slots_ok_def by metis
    ultimately show ?thesis using full sa G(3,4) a si P(1) pq nslot(1) [OF ni] unfolding replaced_ok_def W ea [OF pq] set_full_def pa by auto
  qed
  moreover have "distinct (map (entry_addr dd') (dd_replaced dd'))"
  proof -
    have "map (entry_addr dd') (dd_replaced dd) = map (entry_addr dd) (dd_replaced dd)" using ea rq by auto
    moreover have "entry_addr dd p \<notin> entry_addr dd ` set (dd_replaced dd)"
      using dd_okD(3) [OF ok] ni pa unfolding replaced_ok_def by (metis imageE)
    then have "entry_addr dd p \<notin> set (map (entry_addr dd) (dd_replaced dd))" by simp
    ultimately show ?thesis using dd_okD(4) [OF ok] ea [OF pq] unfolding W map_append distinct_append
      by (simp del: map_eq_conv set_map)
  qed
  ultimately show ?thesis unfolding dd_ok_def W by auto
qed

lemma replaced_okD:
  assumes "dd_ok dd" "x \<in> set (dd_replaced dd)"
  shows "x < dir_next (dd_directory dd)" "entry_addr dd x \<noteq> INVALID_ADDRESS" "set_full (entry_addr dd x) dd"
    "i < dir_slots dd \<Longrightarrow> slot_addr (dd_directory dd) i \<noteq> entry_addr dd x"
  using dd_okD(3) [OF assms] by (simp_all add: replaced_ok_def set_full_def)

lemma slots_okD:
  assumes "dd_ok dd" "i < dir_slots dd" "slot_addr (dd_directory dd) i \<noteq> INVALID_ADDRESS"
  shows "i \<in> set (way_range (slot_addr (dd_directory dd) i) dd)"
    "j < dir_slots dd \<Longrightarrow> slot_addr (dd_directory dd) j = slot_addr (dd_directory dd) i \<Longrightarrow> j = i"
  using dd_okD(2) [OF assms(1)] assms(2,3) unfolding slots_ok_def by blast+

lemma free_fresh_install:
  assumes ff: "free_fresh dd" and wf: "dir_wf (dd_directory dd)" and i: "i < unat (dir_num_entries (dd_directory dd))"
  shows "free_fresh (dd\<lparr>dd_directory := install i a (dd_directory dd), dd_replaced := r\<rparr>)"
  unfolding free_fresh_def
proof (intro allI impI)
  fix j p
  note P = install_props [OF wf i, where a = a]
  let ?dd = "dd\<lparr>dd_directory := install i a (dd_directory dd), dd_replaced := r\<rparr>"
  assume j: "j < unat (dir_num_entries (dd_directory ?dd))" "dir_entry_list (dd_directory ?dd) ! j = Some p"
    "entry_addr ?dd p = INVALID_ADDRESS"
  show "fresh_entry (dir_heap (dd_directory ?dd) p)"
  proof (cases "j = i")
    case True
    then show ?thesis using j P by simp
  next
    case False
    then have "p < dir_next (dd_directory dd)" "dir_entry_list (dd_directory dd) ! j = Some p"
      using j P slot_ptr_less [OF wf] by auto
    then show ?thesis using ff j P by (simp add: free_fresh_def entry_addr_def)
  qed
qed

lemma lookup_replace:
  assumes ok: "dd_ok dd" and i: "i \<in> set (way_range a dd)" and p: "dir_entry_list (dd_directory dd) ! i = Some p"
    and full: "set_full a dd" and a: "a \<noteq> INVALID_ADDRESS" and l: "dir_lookup dd a = None" and b: "b \<noteq> INVALID_ADDRESS"
  defines "dd' \<equiv> dd\<lparr>dd_directory := install i a (dd_directory dd), dd_replaced := dd_replaced dd @ [p]\<rparr>"
  shows "dir_lookup dd' b = ((dir_lookup dd)(a \<mapsto> dir_next (dd_directory dd))) b"
proof -
  let ?d = "dd_directory dd"
  note G = dir_geometryD [OF dd_okD(1) [OF ok]]
  have ni: "i < dir_slots dd" by (rule way_range_less [OF G(2) i])
  note li = G(3) [OF ni]
  note P = install_props [OF G(1) li, where a = a]
  note sa = install_slot_addr [OF G(1) li, of _ a]
  have ok': "dd_ok dd'" unfolding dd'_def by (rule dd_ok_replace [OF ok i p full a l])
  have W: "way_range c dd' = way_range c dd" "dir_slots dd' = dir_slots dd" "dd_directory dd' = install i a ?d" "dd_replaced dd' = dd_replaced dd @ [p]" for c
    by (simp_all add: dd'_def)
  have pa: "entry_addr dd p = slot_addr ?d i" using p by (simp add: slot_addr_def entry_addr_def)
  have si: "slot_addr ?d i \<noteq> INVALID_ADDRESS" using full i by (simp add: set_full_def)
  have ea: "entry_addr dd' x = entry_addr dd x" if "x \<in> set (dd_replaced dd @ [p])" for x
    using that P(5) [of x] slot_ptr_less [OF G(1) li p] dd_okD(3) [OF ok] by (auto simp: entry_addr_def W replaced_ok_def)
  have r: "find (\<lambda>x. entry_addr dd' x = b) (dd_replaced dd @ [p]) = find (\<lambda>x. entry_addr dd x = b) (dd_replaced dd @ [p])"
    by (rule find_cong) (use ea in auto)
  consider "b = a" | "b \<noteq> a" "b = slot_addr ?d i" | "b \<noteq> a" "b \<noteq> slot_addr ?d i" by blast
  then show ?thesis
  proof cases
    case 1
    have "dir_lookup dd' (slot_addr (dd_directory dd') i) = Some (dir_next ?d)"
      by (rule slot_lookup [OF ok']) (use ni P sa [OF li] a in \<open>simp_all add: W\<close>)
    then show ?thesis using 1 sa [OF li] by (simp add: W)
  next
    case 2
    have "slot_addr (install i a ?d) j \<noteq> b" if j: "j \<in> set (way_range b dd)" for j
    proof -
      have "j < dir_slots dd" by (rule way_range_less [OF G(2) j])
      then show ?thesis using 2 sa [OF G(3)] dd_okD(2) [OF ok] ni si unfolding slots_ok_def by (metis (full_types))
    qed
    then have "find (\<lambda>j. slot_addr (install i a ?d) j = b) (way_range b dd) = None" by (auto simp: find_None_iff)
    moreover have "find (\<lambda>x. entry_addr dd x = b) (dd_replaced dd) = None"
    proof -
      have "\<not> (\<exists>x. x \<in> set (dd_replaced dd) \<and> entry_addr dd x = b)" using replaced_okD(4) [OF ok _ ni] 2(2) by metis
      then show ?thesis unfolding find_None_iff .
    qed
    ultimately have "dir_lookup dd' b = Some p" using r 2 pa by (simp add: dir_lookup_def W find_append)
    then show ?thesis using slot_lookup [OF ok ni p si] 2 by simp
  next
    case 3
    have f: "find (\<lambda>j. slot_addr (install i a ?d) j = b) (way_range b dd) = find (\<lambda>j. slot_addr ?d j = b) (way_range b dd)"
      by (rule find_cong) (use sa G(4) 3 in auto)
    have f2: "find (\<lambda>x. entry_addr dd x = b) (dd_replaced dd @ [p]) = find (\<lambda>x. entry_addr dd x = b) (dd_replaced dd)"
      using 3 pa by (auto simp: find_append split: option.splits)
    have "dir_entry_list (install i a ?d) ! j = dir_entry_list ?d ! j"
      if "find (\<lambda>j. slot_addr ?d j = b) (way_range b dd) = Some j" for j
      using find_SomeD [OF that] 3 P(4) [of j] by auto
    then show ?thesis using 3(1) r f f2 by (auto simp: dir_lookup_def W split: option.splits)
  qed
qed

lemma replaceDirectoryEntry_spec:
  assumes I: "dir_inv dd" and a: "a \<noteq> INVALID_ADDRESS" and l: "dir_lookup dd a = None" and full: "set_full a dd"
    and i: "i \<in> set (way_range a dd)" and p: "dir_entry_list (dd_directory dd) ! i = Some p"
  shows "\<exists>q dd'. replaceDirectoryEntry (entry_addr dd p) a modeled dd = Inr (q, dd') \<and> dir_inv dd'
    \<and> fresh_entry (dir_heap (dd_directory dd') q) \<and> entry_addr dd' q = a \<and> p \<in> set (dd_replaced dd')
    \<and> (\<forall>b. b \<noteq> INVALID_ADDRESS \<longrightarrow> dir_lookup dd' b = ((dir_lookup dd)(a \<mapsto> q)) b)
    \<and> (\<forall>b x. b \<noteq> INVALID_ADDRESS \<longrightarrow> dir_lookup dd b = Some x \<longrightarrow>
         x \<noteq> q \<and> dir_heap (dd_directory dd') x = dir_heap (dd_directory dd) x)"
proof -
  define dd0 where "dd0 = (if modeled then dd\<lparr>dd_elapsed := dd_elapsed dd + dd_access_time dd\<rparr> else dd)"
  have E: "dd_ok dd0" "free_fresh dd0" "dir_lookup dd0 = dir_lookup dd" "set_full a dd0" "dd_directory dd0 = dd_directory dd"
    "way_range b dd0 = way_range b dd" "entry_addr dd0 = entry_addr dd" for b
    using I full by (auto simp: dd0_def dir_inv_def)
  let ?ra = "entry_addr dd p" and ?d = "dd_directory dd"
  have ok: "dd_ok dd" using I by (simp add: dir_inv_def)
  note G = dir_geometryD [OF dd_okD(1) [OF ok]]
  have ni: "i < dir_slots dd" by (rule way_range_less [OF G(2) i])
  have ra: "?ra = slot_addr ?d i" "slot_addr ?d i \<noteq> INVALID_ADDRESS" "i \<in> set (way_range ?ra dd)"
  proof -
    show r: "?ra = slot_addr ?d i" using p by (simp add: slot_addr_def entry_addr_def)
    show v: "slot_addr ?d i \<noteq> INVALID_ADDRESS" using full i by (simp add: set_full_def)
    show "i \<in> set (way_range ?ra dd)" unfolding r by (rule slots_okD(1) [OF ok ni v])
  qed
  let ?ways = "set_ways (snd (dir_splitAddress ?ra dd0)) dd0"
  have fi: "find (\<lambda>j. slot_addr ?d j = ?ra) (way_range ?ra dd0) = Some i"
  proof -
    have "find (\<lambda>j. slot_addr ?d j = ?ra) (way_range ?ra dd) \<noteq> None" using ra by (auto simp: find_None_iff)
    then obtain j where j: "find (\<lambda>j. slot_addr ?d j = ?ra) (way_range ?ra dd) = Some j" by blast
    moreover have "j = i" using slots_okD(2) [OF ok ni ra(2)] find_SomeD [OF j] ra(1) way_range_less [OF G(2)] by metis
    ultimately show ?thesis by (simp add: E)
  qed
  obtain r d1 where s: "dir_search (\<lambda>e. de_address e = ?ra) ?ways ?d = Inr (r, d1)"
    and D: "dd_ok (dd0\<lparr>dd_directory := d1\<rparr>)" "free_fresh (dd0\<lparr>dd_directory := d1\<rparr>)" "same_contents dd0 (dd0\<lparr>dd_directory := d1\<rparr>)"
    and sa: "\<forall>i < unat (dir_num_entries ?d). slot_addr d1 i = slot_addr ?d i"
    and r: "\<exists>n q. r = Some (n, q) \<and> unat n = i \<and> dir_entry_list d1 ! i = Some q"
    using dir_search_addr [OF E(1,2), of ?ra ?ra] fi unfolding E(5) by auto
  let ?dd1 = "dd0\<lparr>dd_directory := d1\<rparr>"
  have L1: "dir_lookup ?dd1 b = dir_lookup dd b" if "b \<noteq> INVALID_ADDRESS" for b using same_contentsD(1) [OF D(3) that] E(3) by simp
  obtain n q where nq: "r = Some (n, q)" "unat n = i" "dir_entry_list d1 ! i = Some q" using r by blast
  have full1: "set_full a ?dd1" using full sa G(4) E(6) by (simp add: set_full_def)
  have i1: "i \<in> set (way_range a ?dd1)" using i E(6) by simp
  have qp: "q = p"
  proof -
    have s1: "slot_addr d1 i = slot_addr ?d i" using sa G(3) [OF ni] by simp
    have "dir_lookup ?dd1 (slot_addr (dd_directory ?dd1) i) = Some q"
      by (rule slot_lookup [OF D(1)]) (use ni nq(3) s1 ra E in \<open>auto simp: dir_slots_def dd0_def\<close>)
    then show ?thesis using slot_lookup [OF ok ni p ra(2)] L1 [OF ra(2)] s1 by simp
  qed
  let ?dd' = "?dd1\<lparr>dd_directory := install i a d1, dd_replaced := dd_replaced ?dd1 @ [p]\<rparr>"
  have pi: "dir_entry_list (dd_directory ?dd1) ! i = Some p" using nq(3) qp by simp
  have la: "dir_lookup ?dd1 a = None" using L1 [OF a] l by simp
  note geo1 = dir_geometryD [OF dd_okD(1) [OF D(1)]]
  have li1: "i < unat (dir_num_entries d1)" using way_range_less [OF geo1(2) i1] geo1(3) [of i] by simp
  note P = install_props [OF _ li1, where a = a]
  have wf1: "dir_wf d1" using geo1(1) by simp
  have res: "replaceDirectoryEntry ?ra a modeled dd = Inr (dir_next d1, ?dd')"
  proof -
    obtain x d2 where c: "createDirectoryEntry d1 = (x, d2)" by force
    note C = createDirectoryEntry_props [OF c]
    have "length (dir_entry_list d2) = unat (dir_num_entries d1)" using C wf1 by (simp add: dir_wf_def)
    then have sd: "setDirectoryEntry n x (update_entry x (\<lambda>e. e\<lparr>de_address := a\<rparr>) d2) = Inr (install i a d1)"
      using nq(2) li1 C by (simp add: setDirectoryEntry_def install_def c update_entry_def)
    show ?thesis unfolding replaceDirectoryEntry_def Let_def dd0_def [symmetric]
      using s nq(1) qp c C sd E(5) by simp
  qed
  have lk: "dir_lookup ?dd' b = ((dir_lookup dd)(a \<mapsto> dir_next d1)) b" if b: "b \<noteq> INVALID_ADDRESS" for b
    using lookup_replace [OF D(1) i1 pi full1 a la b] L1 [OF b] by simp
  have "dd_ok ?dd'" using dd_ok_replace [OF D(1) i1 pi full1 a la] by simp
  moreover have "free_fresh ?dd'" using free_fresh_install [OF D(2), where i = i and a = a] geo1 li1 by simp
  moreover have "x \<noteq> dir_next d1 \<and> dir_heap (install i a d1) x = dir_heap ?d x"
    if b: "b \<noteq> INVALID_ADDRESS" "dir_lookup dd b = Some x" for b x
  proof -
    have "dir_lookup ?dd1 b = Some x" using L1 [OF b(1)] b(2) by simp
    then have "x < dir_next d1" using dir_lookup_Some [OF D(1) _ b(1)] by simp
    then show ?thesis using P(5) [OF wf1] same_contentsD(2) [OF D(3) b(1)] b(2) E by simp
  qed
  ultimately show ?thesis using res lk P [OF wf1] by (simp add: dir_inv_def entry_addr_def)
qed

lemma find_unique:
  assumes "distinct (map f xs)" "x \<in> set xs"
  shows "find (\<lambda>y. f y = f x) xs = Some x"
proof (cases "find (\<lambda>y. f y = f x) xs")
  case None
  then show ?thesis using assms(2) by (auto simp: find_None_iff)
next
  case (Some y)
  then show ?thesis using find_SomeD [OF Some] assms by (auto simp: distinct_map inj_on_def)
qed

lemma find_remove1_other: "f p \<noteq> b \<Longrightarrow> find (\<lambda>x. f x = b) (remove1 p xs) = find (\<lambda>x. f x = b) xs"
  by (induction xs) auto

lemma invalidateDirectoryEntry_spec:
  assumes I: "dir_inv dd" and p: "p \<in> set (dd_replaced dd)"
  shows "\<exists>dd'. invalidateDirectoryEntry (entry_addr dd p) dd = Inr dd' \<and> dir_inv dd'
    \<and> dir_lookup dd (entry_addr dd p) = Some p
    \<and> (\<forall>b. b \<noteq> INVALID_ADDRESS \<longrightarrow> dir_lookup dd' b = ((dir_lookup dd)(entry_addr dd p := None)) b)
    \<and> dd_directory dd' = dd_directory dd"
proof -
  have ok: "dd_ok dd" and ff: "free_fresh dd" using I by (auto simp: dir_inv_def)
  let ?a = "entry_addr dd p"
  let ?dd = "dd\<lparr>dd_replaced := remove1 p (dd_replaced dd)\<rparr>"
  note D = dd_okD(4) [OF ok]
  have f: "find (\<lambda>x. entry_addr dd x = ?a) (dd_replaced dd) = Some p" by (rule find_unique [OF D p])
  have dist: "distinct (dd_replaced dd)" using D by (simp add: distinct_map)
  have sub: "set (remove1 p (dd_replaced dd)) = set (dd_replaced dd) - {p}" using dist by (rule set_remove1_eq)
  have "distinct (map (entry_addr dd) (remove1 p (dd_replaced dd)))"
    using D dist sub by (auto simp: distinct_map intro: inj_on_subset)
  moreover have "dir_geometry ?dd = dir_geometry dd" "slots_ok ?dd = slots_ok dd" "replaced_ok ?dd = replaced_ok dd"
    by (simp_all add: dir_geometry_def slots_ok_def replaced_ok_def fun_eq_iff)
  ultimately have ok': "dd_ok ?dd" using ok sub by (simp add: dd_ok_def)
  have ff': "free_fresh ?dd" using ff by (simp add: free_fresh_def)
  have sl: "find (\<lambda>i. slot_addr (dd_directory dd) i = ?a) (way_range ?a dd) = None"
    by (rule find_NoneI, rule replaced_okD(4) [OF ok p], rule way_range_less [OF dir_geometryD(2) [OF dd_okD(1) [OF ok]]])
  have "dir_lookup ?dd b = ((dir_lookup dd)(?a := None)) b" for b
  proof (cases "b = ?a")
    case True
    have "entry_addr dd x \<noteq> ?a" if "x \<in> set (dd_replaced dd) - {p}" for x
      using that p D by (auto simp: distinct_map inj_on_def)
    then have "find (\<lambda>x. entry_addr dd x = ?a) (remove1 p (dd_replaced dd)) = None"
      by (intro find_NoneI) (simp add: sub)
    then show ?thesis using True sl by (simp add: dir_lookup_def)
  next
    case False
    then show ?thesis using find_remove1_other [of "entry_addr dd" p b "dd_replaced dd"]
      by (simp add: dir_lookup_def cong: option.case_cong)
  qed
  then show ?thesis using f ok' ff' sl
    by (simp add: invalidateDirectoryEntry_def dir_inv_def dir_lookup_def entry_addr_def)
qed

text \<open>The controller changes an entry through the pointer it has, and never its address.\<close>

definition dir_update :: "nat \<Rightarrow> (DirectoryEntry \<Rightarrow> DirectoryEntry) \<Rightarrow> DramDirectoryCache \<Rightarrow> DramDirectoryCache" where
  "dir_update p f dd = dd\<lparr>dd_directory := update_entry p f (dd_directory dd)\<rparr>"

definition dir_entry :: "DramDirectoryCache \<Rightarrow> nat \<Rightarrow> DirectoryEntry" where
  "dir_entry dd p = dir_heap (dd_directory dd) p"

lemma slot_addr_keep: "de_address (f (dir_heap d p)) = de_address (dir_heap d p) \<Longrightarrow> slot_addr (update_entry p f d) i = slot_addr d i"
  by (simp add: slot_addr_def split: option.splits)

lemma dir_update_spec:
  assumes I: "dir_inv dd" and k: "de_address (f (dir_entry dd p)) = de_address (dir_entry dd p)"
    and v: "de_address (dir_entry dd p) \<noteq> INVALID_ADDRESS"
  shows "dir_inv (dir_update p f dd) \<and> dir_lookup (dir_update p f dd) = dir_lookup dd
    \<and> dir_entry (dir_update p f dd) = (dir_entry dd)(p := f (dir_entry dd p))
    \<and> dd_replaced (dir_update p f dd) = dd_replaced dd"
proof -
  let ?dd = "dir_update p f dd"
  have ea: "entry_addr ?dd = entry_addr dd" using k by (auto simp: entry_addr_def dir_update_def dir_entry_def)
  have sa: "slot_addr (dd_directory ?dd) i = slot_addr (dd_directory dd) i" for i
    using k slot_addr_keep [of f "dd_directory dd" p i] by (simp add: dir_update_def dir_entry_def)
  have W: "way_range b ?dd = way_range b dd" "dir_slots ?dd = dir_slots dd" "dd_replaced ?dd = dd_replaced dd"
    "dir_entry_list (dd_directory ?dd) = dir_entry_list (dd_directory dd)" "dir_next (dd_directory ?dd) = dir_next (dd_directory dd)" for b
    by (simp_all add: dir_update_def)
  have "dir_geometry ?dd = dir_geometry dd" by (simp add: dir_geometry_def dir_update_def)
  then have ok: "dd_ok ?dd" using I unfolding dir_inv_def dd_ok_def slots_ok_def replaced_ok_def sa ea W by blast
  have "free_fresh ?dd" using I v
    unfolding dir_inv_def free_fresh_def ea W by (simp add: dir_update_def entry_addr_def dir_entry_def)
  moreover have "dir_lookup ?dd a = dir_lookup dd a" for a
    unfolding dir_lookup_def sa W ea by (rule refl)
  moreover have "dir_entry ?dd = (dir_entry dd)(p := f (dir_entry dd p))"
    by (auto simp: dir_entry_def dir_update_def)
  ultimately show ?thesis using ok W by (simp add: dir_inv_def fun_eq_iff)
qed

lemma dir_update_time [simp]: "dir_entry (dd\<lparr>dd_elapsed := t\<rparr>) = dir_entry dd"
  by (simp add: dir_entry_def fun_eq_iff)

lemma slot_addr_None: "dir_entry_list d ! i = None \<Longrightarrow> slot_addr d i = INVALID_ADDRESS"
  by (simp add: slot_addr_def)

lemma DramDirectoryCache_create_inv:
  assumes "Directory_create ty entries hw mx penalty heap uninit = Inr d" "assoc \<noteq> 0" "assoc \<le> entries"
    and "DramDirectoryCache_create d entries assoc bs access ptrs = Inr dd"
  shows "dir_inv dd \<and> dir_lookup dd = Map.empty"
proof -
  have d: "dir_entry_list d = replicate (unat entries) None" "dir_num_entries d = entries"
    using assms(1) by (auto simp: Directory_create_def)
  have dd: "dd_directory dd = d" "dd_replaced dd = []" "dd_associativity dd = assoc" "dd_num_sets dd = entries div assoc"
    "length (dd_replacement_ptrs dd) = unat (entries div assoc)"
    using assms(2,4) by (auto simp: DramDirectoryCache_create_def Let_def)
  have wf: "dir_wf d" by (simp add: dir_wf_def d)
  have le: "dir_slots dd \<le> unat entries"
    by (simp add: dir_slots_def dd unat_div_distrib)
  have "unat assoc \<le> unat entries" "unat assoc > 0" using assms(2,3) by (simp_all add: word_le_nat_alt unat_gt_0)
  then have "unat (entries div assoc) > 0" by (simp add: unat_div_distrib div_greater_zero_iff)
  then have n0: "entries div assoc \<noteq> 0" by auto
  then have geo: "dir_geometry dd" using assms(2) wf le by (simp add: dir_geometry_def dd d)
  have inv: "slot_addr d i = INVALID_ADDRESS" if "i < dir_slots dd" for i using that le d by (simp add: slot_addr_None)
  then have "slots_ok dd" by (simp add: slots_ok_def dd)
  moreover have "free_fresh dd" by (simp add: free_fresh_def dd d)
  moreover have "dir_lookup dd a = None" for a
  proof -
    have "i < unat entries" if "find (\<lambda>i. slot_addr d i = a) (way_range a dd) = Some i" for i
      using find_SomeD [OF that] way_range_less [of dd i a] n0 le dd by auto
    then show ?thesis by (auto simp: dir_lookup_def dd d split: option.split)
  qed
  ultimately show ?thesis using geo by (auto simp: dir_inv_def dd_ok_def dd)
qed

section \<open>The contract towards the controller\<close>

text \<open>The contents: a partial map from block addresses to entries.\<close>

definition dir_map :: "DramDirectoryCache \<Rightarrow> IntPtr \<Rightarrow> DirectoryEntry option" where
  "dir_map dd a = (if a = INVALID_ADDRESS then None else map_option (dir_entry dd) (dir_lookup dd a))"

lemma dir_map_same: "same_contents dd dd' \<Longrightarrow> dir_map dd' = dir_map dd"
proof
  fix a assume s: "same_contents dd dd'"
  show "dir_map dd' a = dir_map dd a"
    using same_contentsD [OF s, of a] by (cases "dir_lookup dd a") (auto simp: dir_map_def dir_entry_def)
qed

lemma dir_map_add:
  assumes "\<forall>b. b \<noteq> INVALID_ADDRESS \<longrightarrow> dir_lookup dd' b = ((dir_lookup dd)(a \<mapsto> p)) b" "a \<noteq> INVALID_ADDRESS"
    and "\<forall>b q. b \<noteq> INVALID_ADDRESS \<longrightarrow> dir_lookup dd b = Some q \<longrightarrow> q \<noteq> p \<and> dir_heap (dd_directory dd') q = dir_heap (dd_directory dd) q"
  shows "dir_map dd' = (dir_map dd)(a \<mapsto> dir_entry dd' p)"
proof
  show "dir_map dd' b = ((dir_map dd)(a \<mapsto> dir_entry dd' p)) b" for b
    using assms by (cases "dir_lookup dd b") (auto simp: dir_map_def dir_entry_def)
qed

lemma dir_map_entry:
  assumes "dir_inv dd" "dir_map dd a = Some e"
  shows "de_address e = a \<and> a \<noteq> INVALID_ADDRESS \<and> (\<exists>p. dir_lookup dd a = Some p \<and> dir_entry dd p = e)"
  using assms dir_lookup_Some [of dd a] by (auto simp: dir_map_def dir_inv_def dir_entry_def entry_addr_def split: if_splits)

locale directory_map =
  fixes inv :: "'d \<Rightarrow> bool"
    and contents :: "'d \<Rightarrow> IntPtr \<Rightarrow> DirectoryEntry option"
    and pointer :: "'d \<Rightarrow> IntPtr \<Rightarrow> nat option"
    and entry :: "'d \<Rightarrow> nat \<Rightarrow> DirectoryEntry"
    and full :: "IntPtr \<Rightarrow> 'd \<Rightarrow> bool"
    and get :: "IntPtr \<Rightarrow> bool \<Rightarrow> 'd \<Rightarrow> (nat option \<times> 'd) result"
    and upd :: "nat \<Rightarrow> (DirectoryEntry \<Rightarrow> DirectoryEntry) \<Rightarrow> 'd \<Rightarrow> 'd"
  assumes contents_pointer: "a \<noteq> INVALID_ADDRESS \<Longrightarrow> contents d a = map_option (entry d) (pointer d a)"
    and contents_address: "inv d \<Longrightarrow> contents d a = Some e \<Longrightarrow> de_address e = a \<and> a \<noteq> INVALID_ADDRESS"
    and get_found: "inv d \<Longrightarrow> contents d a = Some e \<Longrightarrow>
      \<exists>p d'. get a m d = Inr (Some p, d') \<and> inv d' \<and> contents d' = contents d \<and> pointer d' a = Some p"
    and get_full: "inv d \<Longrightarrow> a \<noteq> INVALID_ADDRESS \<Longrightarrow> contents d a = None \<Longrightarrow> full a d \<Longrightarrow>
      \<exists>d'. get a m d = Inr (None, d') \<and> inv d' \<and> contents d' = contents d \<and> full a d'"
    and get_free: "inv d \<Longrightarrow> a \<noteq> INVALID_ADDRESS \<Longrightarrow> contents d a = None \<Longrightarrow> \<not> full a d \<Longrightarrow>
      \<exists>p d' e. get a m d = Inr (Some p, d') \<and> inv d' \<and> contents d' = (contents d)(a \<mapsto> e) \<and> fresh_entry e
        \<and> pointer d' a = Some p"
    and upd_contents: "inv d \<Longrightarrow> contents d a = Some e \<Longrightarrow> pointer d a = Some p \<Longrightarrow> de_address (f e) = a \<Longrightarrow>
      inv (upd p f d) \<and> contents (upd p f d) = (contents d)(a \<mapsto> f e) \<and> pointer (upd p f d) a = Some p"
begin

text \<open>What the controller gets: a pointer to the entry of the address, new or old.\<close>

lemma get_pointer:
  assumes "inv d" "a \<noteq> INVALID_ADDRESS" "get a m d = Inr (Some p, d')"
  shows "inv d' \<and> pointer d' a = Some p \<and>
    (\<exists>e. contents d' = (contents d)(a \<mapsto> e) \<and> entry d' p = e \<and> (contents d a = Some e \<or> contents d a = None \<and> fresh_entry e))"
proof (cases "contents d a")
  case None
  then have "\<not> full a d" using get_full [OF assms(1,2) None, of m] assms(3) by auto
  then show ?thesis using get_free [OF assms(1,2) None, of m] assms(3) contents_pointer [OF assms(2), of d'] None by fastforce
next
  case (Some e)
  then show ?thesis using get_found [OF assms(1) Some, of m] assms(3) contents_pointer [OF assms(2), of d'] by fastforce
qed

lemma get_NULL:
  assumes "inv d" "a \<noteq> INVALID_ADDRESS" "get a m d = Inr (None, d')"
  shows "inv d' \<and> contents d' = contents d \<and> contents d a = None \<and> full a d'"
proof (cases "contents d a")
  case None
  then show ?thesis using get_full [OF assms(1,2) None, of m] get_free [OF assms(1,2) None, of m] assms(3) by (cases "full a d") auto
next
  case (Some e)
  then show ?thesis using get_found [OF assms(1) Some, of m] assms(3) by auto
qed

lemma get_ok: "inv d \<Longrightarrow> a \<noteq> INVALID_ADDRESS \<Longrightarrow> is_ok (get a m d)"
  using get_found [of d a _ m] get_full [of d a m] get_free [of d a m] by (cases "contents d a"; cases "full a d") (auto simp: is_ok_iff)

lemma upd_at:
  assumes "inv d" "pointer d a = Some p" "a \<noteq> INVALID_ADDRESS" "de_address (f (entry d p)) = de_address (entry d p)"
  shows "inv (upd p f d) \<and> contents (upd p f d) = (contents d)(a \<mapsto> f (entry d p)) \<and> pointer (upd p f d) a = Some p
    \<and> entry (upd p f d) p = f (entry d p)"
proof -
  have c: "contents d a = Some (entry d p)" using contents_pointer [OF assms(3), of d] assms(2) by simp
  then have "de_address (entry d p) = a" using contents_address [OF assms(1)] by blast
  then have U: "inv (upd p f d) \<and> contents (upd p f d) = (contents d)(a \<mapsto> f (entry d p)) \<and> pointer (upd p f d) a = Some p"
    using upd_contents [OF assms(1) c assms(2)] assms(4) by simp
  then show ?thesis using contents_pointer [OF assms(3), of "upd p f d"] by simp
qed

end

lemma dir_map_update:
  assumes I: "dir_inv dd" and l: "dir_lookup dd a = Some p" and m: "dir_map dd a = Some e" and k: "de_address (f e) = a"
  shows "dir_inv (dir_update p f dd) \<and> dir_map (dir_update p f dd) = (dir_map dd)(a \<mapsto> f e)
    \<and> dir_lookup (dir_update p f dd) a = Some p"
proof -
  have e: "dir_entry dd p = e" "de_address e = a" "a \<noteq> INVALID_ADDRESS" using dir_map_entry [OF I m] l by auto
  have k': "de_address (f (dir_entry dd p)) = de_address (dir_entry dd p)" and v: "de_address (dir_entry dd p) \<noteq> INVALID_ADDRESS"
    using e k by simp_all
  note U = dir_update_spec [where f = f, OF I k' v]
  have "dir_lookup dd b = Some p \<Longrightarrow> b = INVALID_ADDRESS \<or> b = a" for b
    using dir_lookup_Some [of dd b p] I e by (auto simp: dir_inv_def entry_addr_def dir_entry_def)
  then have "dir_map (dir_update p f dd) b = ((dir_map dd)(a \<mapsto> f e)) b" for b
    using U e l by (cases "dir_lookup dd b") (auto simp: dir_map_def)
  then show ?thesis using U l by auto
qed

interpretation dm: directory_map dir_inv dir_map dir_lookup dir_entry set_full dir_getDirectoryEntry dir_update
proof
  fix d :: DramDirectoryCache and a :: IntPtr and e :: DirectoryEntry and m :: bool and p :: nat
    and f :: "DirectoryEntry \<Rightarrow> DirectoryEntry"
  show "a \<noteq> INVALID_ADDRESS \<Longrightarrow> dir_map d a = map_option (dir_entry d) (dir_lookup d a)" by (simp add: dir_map_def)
  show "dir_inv d \<Longrightarrow> dir_map d a = Some e \<Longrightarrow> de_address e = a \<and> a \<noteq> INVALID_ADDRESS" using dir_map_entry by blast
  show "dir_inv d \<Longrightarrow> dir_map d a = Some e \<Longrightarrow> dir_lookup d a = Some p \<Longrightarrow> de_address (f e) = a \<Longrightarrow>
      dir_inv (dir_update p f d) \<and> dir_map (dir_update p f d) = (dir_map d)(a \<mapsto> f e) \<and> dir_lookup (dir_update p f d) a = Some p"
    by (rule dir_map_update)
  assume I: "dir_inv d"
  have G: "\<exists>r d'. dir_getDirectoryEntry a m d = Inr (r, d') \<and> dir_inv d' \<and> get_outcome a d r d'" if "a \<noteq> INVALID_ADDRESS"
    by (rule dir_getDirectoryEntry_spec [OF I that])
  show "\<exists>p d'. dir_getDirectoryEntry a m d = Inr (Some p, d') \<and> dir_inv d' \<and> dir_map d' = dir_map d \<and> dir_lookup d' a = Some p"
    if "dir_map d a = Some e"
    using G dir_map_entry [OF I that] dir_map_same same_contentsD(1) by (fastforce simp: get_outcome_def)
  assume a: "a \<noteq> INVALID_ADDRESS" and n: "dir_map d a = None"
  then have l: "dir_lookup d a = None" by (simp add: dir_map_def)
  show "\<exists>d'. dir_getDirectoryEntry a m d = Inr (None, d') \<and> dir_inv d' \<and> dir_map d' = dir_map d \<and> set_full a d'"
    if "set_full a d" using G [OF a] l that dir_map_same by (fastforce simp: get_outcome_def)
  show "\<exists>p d' e. dir_getDirectoryEntry a m d = Inr (Some p, d') \<and> dir_inv d' \<and> dir_map d' = (dir_map d)(a \<mapsto> e) \<and> fresh_entry e
      \<and> dir_lookup d' a = Some p" if nf: "\<not> set_full a d"
  proof -
    obtain p d' where g: "dir_getDirectoryEntry a m d = Inr (Some p, d')" "dir_inv d'" "fresh_entry (dir_heap (dd_directory d') p)"
      "\<forall>b. b \<noteq> INVALID_ADDRESS \<longrightarrow> dir_lookup d' b = ((dir_lookup d)(a \<mapsto> p)) b"
      "\<forall>b q. b \<noteq> INVALID_ADDRESS \<longrightarrow> dir_lookup d b = Some q \<longrightarrow> q \<noteq> p \<and> dir_heap (dd_directory d') q = dir_heap (dd_directory d) q"
      using G [OF a] l nf by (auto simp: get_outcome_def)
    show ?thesis using g dir_map_add [OF g(4) a g(5)] a by (auto simp: dir_entry_def)
  qed
qed

text \<open>The candidates for replacement are entries of the map, with addresses of their own.\<close>

lemma candidates_in_map:
  assumes I: "dir_inv dd" and a: "a \<noteq> INVALID_ADDRESS" and g: "getReplacementCandidates a dd = Inr (ps, dd1)"
  shows "dir_inv dd1 \<and> dir_map dd1 = dir_map dd \<and> dir_map dd a = None \<and> set_full a dd1 \<and> ps \<noteq> []
    \<and> (\<forall>p \<in> set ps. \<exists>i \<in> set (way_range a dd1). dir_entry_list (dd_directory dd1) ! i = Some p)"
proof -
  obtain dd0 where "dir_getDirectoryEntry a False dd = Inr (None, dd0)"
    using g by (auto simp: getReplacementCandidates_def)
  then have N: "dir_map dd a = None" "dir_inv dd0 \<and> dir_map dd0 = dir_map dd \<and> set_full a dd0" using dm.get_NULL [OF I a] by auto
  then have l: "dir_lookup dd a = None" using a by (simp add: dir_map_def)
  have "set_full a dd"
  proof (rule ccontr)
    assume "\<not> set_full a dd"
    then show False using dm.get_free [OF I a N(1), of False] \<open>dir_getDirectoryEntry a False dd = Inr (None, dd0)\<close> by auto
  qed
  then show ?thesis using getReplacementCandidates_spec [OF I a l] g N(1) dir_map_same by fastforce
qed

lemma candidate_entry:
  assumes I: "dir_inv dd" and full: "set_full a dd"
    and i: "i \<in> set (way_range a dd)" "dir_entry_list (dd_directory dd) ! i = Some p"
  shows "dir_map dd (entry_addr dd p) = Some (dir_entry dd p) \<and> entry_addr dd p \<noteq> INVALID_ADDRESS"
proof -
  have ok: "dd_ok dd" using I by (simp add: dir_inv_def)
  have v: "slot_addr (dd_directory dd) i \<noteq> INVALID_ADDRESS" using full i by (simp add: set_full_def)
  have "dir_lookup dd (slot_addr (dd_directory dd) i) = Some p"
    by (rule slot_lookup [OF ok way_range_less [OF dir_geometryD(2) [OF dd_okD(1) [OF ok]] i(1)] i(2) v])
  then show ?thesis using v i(2) by (simp add: dir_map_def slot_addr_def entry_addr_def)
qed

lemma replace_in_map:
  assumes I: "dir_inv dd" and a: "a \<noteq> INVALID_ADDRESS" and n: "dir_map dd a = None" and full: "set_full a dd"
    and i: "i \<in> set (way_range a dd)" "dir_entry_list (dd_directory dd) ! i = Some p"
  shows "\<exists>q dd' e. replaceDirectoryEntry (entry_addr dd p) a m dd = Inr (q, dd') \<and> dir_inv dd' \<and> fresh_entry e
    \<and> dir_map dd' = (dir_map dd)(a \<mapsto> e) \<and> dir_lookup dd' a = Some q \<and> p \<in> set (dd_replaced dd')
    \<and> entry_addr dd' p = entry_addr dd p \<and> dir_entry dd' p = dir_entry dd p"
proof -
  have l: "dir_lookup dd a = None" using n a by (simp add: dir_map_def)
  obtain q dd' where R: "replaceDirectoryEntry (entry_addr dd p) a m dd = Inr (q, dd')" "dir_inv dd'"
    "fresh_entry (dir_heap (dd_directory dd') q)" "p \<in> set (dd_replaced dd')"
    "\<forall>b. b \<noteq> INVALID_ADDRESS \<longrightarrow> dir_lookup dd' b = ((dir_lookup dd)(a \<mapsto> q)) b"
    "\<forall>b x. b \<noteq> INVALID_ADDRESS \<longrightarrow> dir_lookup dd b = Some x \<longrightarrow> x \<noteq> q \<and> dir_heap (dd_directory dd') x = dir_heap (dd_directory dd) x"
    using replaceDirectoryEntry_spec [OF I a l full i, of m] by blast
  note C = candidate_entry [OF I full i]
  have "dir_lookup dd (entry_addr dd p) = Some p"
  proof -
    have ok: "dd_ok dd" using I by (simp add: dir_inv_def)
    have "slot_addr (dd_directory dd) i = entry_addr dd p" using i(2) by (simp add: slot_addr_def entry_addr_def)
    then show ?thesis using slot_lookup [OF ok way_range_less [OF dir_geometryD(2) [OF dd_okD(1) [OF ok]] i(1)] i(2)] C by simp
  qed
  then have "dir_heap (dd_directory dd') p = dir_heap (dd_directory dd) p" using R(6) C by blast
  then show ?thesis using R dir_map_add [OF R(5) a R(6)] a by (auto simp: entry_addr_def dir_entry_def)
qed

lemma invalidate_in_map:
  assumes I: "dir_inv dd" and p: "p \<in> set (dd_replaced dd)"
  shows "\<exists>dd'. invalidateDirectoryEntry (entry_addr dd p) dd = Inr dd' \<and> dir_inv dd'
    \<and> dir_map dd' = (dir_map dd)(entry_addr dd p := None)"
proof -
  obtain dd' where R: "invalidateDirectoryEntry (entry_addr dd p) dd = Inr dd'" "dir_inv dd'"
    "\<forall>b. b \<noteq> INVALID_ADDRESS \<longrightarrow> dir_lookup dd' b = ((dir_lookup dd)(entry_addr dd p := None)) b" "dd_directory dd' = dd_directory dd"
    using invalidateDirectoryEntry_spec [OF I p] by blast
  have "dir_map dd' b = ((dir_map dd)(entry_addr dd p := None)) b" for b
    using R(3,4) by (auto simp: dir_map_def dir_entry_def [abs_def])
  then show ?thesis using R by blast
qed

section \<open>Properties\<close>

text \<open>
  C29: The directory cache is a map with bounded sets. \<^verbatim>\<open>getDirectoryEntry\<close> never fails: for an address with an
  entry, in its set or among the replaced ones, it returns that entry and changes nothing; for another address it
  adds an uncached entry without sharers if the set has a free way; and if the set is full it
  returns NULL and changes nothing.
\<close>

theorem getDirectoryEntry_refines_map:
  assumes "dir_inv dd" "a \<noteq> INVALID_ADDRESS"
  shows "\<exists>r dd'. dir_getDirectoryEntry a modeled dd = Inr (r, dd') \<and> dir_inv dd' \<and>
    (case dir_map dd a of
       Some e \<Rightarrow> dir_map dd' = dir_map dd \<and> map_option (dir_entry dd') r = Some e
     | None \<Rightarrow>
         if set_full a dd then r = None \<and> dir_map dd' = dir_map dd
         else \<exists>e. map_option (dir_entry dd') r = Some e \<and> fresh_entry e \<and> dir_map dd' = (dir_map dd)(a \<mapsto> e))"
proof (cases "dir_map dd a")
  case None
  show ?thesis
  proof (cases "set_full a dd")
    case True
    then show ?thesis using dm.get_full [OF assms None, of modeled] None by auto
  next
    case False
    then obtain p dd' e where g: "dir_getDirectoryEntry a modeled dd = Inr (Some p, dd')" "dir_inv dd'"
      "dir_map dd' = (dir_map dd)(a \<mapsto> e)" "fresh_entry e" "dir_lookup dd' a = Some p"
      using dm.get_free [OF assms None False, of modeled] by blast
    then have "dir_entry dd' p = e" using dm.contents_pointer [OF assms(2), of dd'] by simp
    then show ?thesis using g None False by auto
  qed
next
  case (Some e)
  then obtain p dd' where g: "dir_getDirectoryEntry a modeled dd = Inr (Some p, dd')" "dir_inv dd'"
    "dir_map dd' = dir_map dd" "dir_lookup dd' a = Some p"
    using dm.get_found [OF assms(1) Some, of modeled] by blast
  then have "dir_entry dd' p = e" using dm.contents_pointer [OF assms(2), of dd'] Some by simp
  then show ?thesis using g Some by auto
qed

text \<open>
  C30: Replacement in a full set. Every candidate that \<^verbatim>\<open>getReplacementCandidates\<close> offers for a new address can be replaced: the new
  address gets a fresh entry, the entry of the replaced address stays reachable with its sharers until
  it has been nullified, and \<^verbatim>\<open>invalidateDirectoryEntry\<close> then removes exactly that entry.
\<close>

theorem replacement_refines_map:
  assumes "dir_inv dd" "a \<noteq> INVALID_ADDRESS" "getReplacementCandidates a dd = Inr (ps, dd1)" "p \<in> set ps"
  shows "\<exists>q dd2 e dd3. replaceDirectoryEntry (entry_addr dd1 p) a True dd1 = Inr (q, dd2)
    \<and> dir_inv dd2 \<and> fresh_entry e \<and> dir_entry dd2 q = e \<and> dir_map dd2 = (dir_map dd)(a \<mapsto> e)
    \<and> dir_map dd2 (entry_addr dd1 p) = Some (dir_entry dd1 p)
    \<and> invalidateDirectoryEntry (entry_addr dd1 p) dd2 = Inr dd3 \<and> dir_inv dd3
    \<and> dir_map dd3 = (dir_map dd)(a \<mapsto> e, entry_addr dd1 p := None)"
proof -
  have C: "dir_inv dd1" "dir_map dd1 = dir_map dd" "dir_map dd a = None" "set_full a dd1"
    using candidates_in_map [OF assms(1-3)] by auto
  obtain i where i: "i \<in> set (way_range a dd1)" "dir_entry_list (dd_directory dd1) ! i = Some p"
    using candidates_in_map [OF assms(1-3)] assms(4) by blast
  have n: "dir_map dd1 a = None" using C by simp
  obtain q dd2 e where R: "replaceDirectoryEntry (entry_addr dd1 p) a True dd1 = Inr (q, dd2)" "dir_inv dd2" "fresh_entry e"
    "dir_map dd2 = (dir_map dd1)(a \<mapsto> e)" "dir_lookup dd2 a = Some q" "p \<in> set (dd_replaced dd2)" "entry_addr dd2 p = entry_addr dd1 p"
    using replace_in_map [OF C(1) assms(2) n C(4) i, of True] by blast
  have q: "dir_entry dd2 q = e" using dm.contents_pointer [OF assms(2), of dd2] R by simp
  have "entry_addr dd1 p \<noteq> a" using candidate_entry [OF C(1,4) i] n by auto
  then have p: "dir_map dd2 (entry_addr dd1 p) = Some (dir_entry dd1 p)" using candidate_entry [OF C(1,4) i] R(4) by simp
  obtain dd3 where "invalidateDirectoryEntry (entry_addr dd1 p) dd2 = Inr dd3" "dir_inv dd3"
    "dir_map dd3 = (dir_map dd2)(entry_addr dd1 p := None)"
    using invalidate_in_map [OF R(2,6)] R(7) by auto
  then show ?thesis using R C q p by auto
qed

section \<open>Witnesses\<close>

definition example_directory :: "UInt32 \<Rightarrow> Directory result" where
  "example_directory entries =
     Directory_create ''full_map'' entries 4 8 0
       (\<lambda>_. \<lparr>de_address = 0, de_dstate = D_UNCACHED, de_owner = 0, de_forwarder = 0, de_sharers = [], de_kind = Limitless False 0\<rparr>) (\<lambda>_. 0)"

definition example_dirs :: "UInt32 \<Rightarrow> DramDirectoryCache" where
  "example_dirs entries = projr (DramDirectoryCache_create (projr (example_directory entries)) entries 1 64 2 (\<lambda>_. 0))"

lemma example_dirs_inv:
  assumes "1 \<le> entries"
  shows "dir_inv (example_dirs entries)" "dir_lookup (example_dirs entries) = Map.empty"
proof -
  have d: "example_directory entries = Inr (projr (example_directory entries))"
    by (simp add: example_directory_def Directory_create_def parseDirectoryType_def)
  have c: "DramDirectoryCache_create (projr (example_directory entries)) entries 1 64 2 (\<lambda>_. 0) = Inr (example_dirs entries)"
    by (simp add: example_dirs_def DramDirectoryCache_create_def Let_def)
  show "dir_inv (example_dirs entries)" "dir_lookup (example_dirs entries) = Map.empty"
    using DramDirectoryCache_create_inv [OF d [unfolded example_directory_def] _ assms c [unfolded example_directory_def]] by simp_all
qed

theorem getDirectoryEntry_refines_map_witness:
  "\<exists>r dd'. dir_getDirectoryEntry 64 True (example_dirs 2) = Inr (r, dd') \<and> dir_map dd' 64 \<noteq> None"
proof -
  have n: "dir_map (example_dirs 2) 64 = None" by (simp add: dir_map_def example_dirs_inv)
  have f: "\<not> set_full 64 (example_dirs 2)" by code_simp
  show ?thesis using getDirectoryEntry_refines_map [OF example_dirs_inv(1), of 2 64 True] n f by auto
qed

definition example_full :: DramDirectoryCache where
  "example_full = snd (projr (dir_getDirectoryEntry 128 False (example_dirs 1)))"

lemma example_full_inv: "dir_inv example_full"
proof -
  obtain r dd where "dir_getDirectoryEntry 128 False (example_dirs 1) = Inr (r, dd)" "dir_inv dd"
    using dir_getDirectoryEntry_spec [OF example_dirs_inv(1), of 1 128 False] by auto
  then show ?thesis by (simp add: example_full_def)
qed

theorem replacement_refines_map_witness:
  "\<exists>ps dd1. getReplacementCandidates 64 example_full = Inr (ps, dd1) \<and>
     (\<exists>q dd2. replaceDirectoryEntry (entry_addr dd1 (hd ps)) 64 True dd1 = Inr (q, dd2) \<and> dir_inv dd2)"
proof -
  have "is_ok (getReplacementCandidates 64 example_full) \<and> fst (projr (getReplacementCandidates 64 example_full)) \<noteq> []" by code_simp
  then obtain ps dd1 where g: "getReplacementCandidates 64 example_full = Inr (ps, dd1)" "ps \<noteq> []" by (auto simp: is_ok_iff)
  show ?thesis using replacement_refines_map [OF example_full_inv _ g(1), of "hd ps"] g by auto
qed

end
