(* ===== verification/Address_Home.thy ===== *)
theory Address_Home
  imports Sniper_Prelude
begin

text \<open>
  \<^verbatim>\<open>AddressHomeLookup\<close> of \<^verbatim>\<open>memory_subsystem/address_home_lookup.cc\<close>: the interleaving of the
  physical address space over memory modules, and the dense numbering of the blocks of one
  module that the caches use for set selection. The shift amount is a natural number; the
  words keep their width.
\<close>

record AddressHomeLookup =
  ahl_param :: nat
  ahl_mask :: UInt64
  ahl_core_list :: "core_id_t list"
  ahl_total_modules :: UInt32
  ahl_cache_block_size :: UInt32

definition AddressHomeLookup_create ::
  "nat \<Rightarrow> core_id_t list \<Rightarrow> UInt32 \<Rightarrow> AddressHomeLookup result" where
  "AddressHomeLookup_create param core_list cache_block_size =
     bindR (logAssertR ((2::int) ^ param \<ge> sint cache_block_size)
              ''2^AHL param must be >= Cache Block Size'') (\<lambda>_.
     Inr \<lparr>ahl_param = param, ahl_mask = push_bit param 1 - 1, ahl_core_list = core_list,
          ahl_total_modules = of_nat (length core_list), ahl_cache_block_size = cache_block_size\<rparr>)"

text \<open>\<^verbatim>\<open>m_total_modules\<close> is widened to 64 bits, the remainder narrowed to a signed 32-bit value.\<close>

definition getHome_module :: "AddressHomeLookup \<Rightarrow> IntPtr \<Rightarrow> int" where
  "getHome_module l address =
     sint (ucast (drop_bit (ahl_param l) address mod ucast (ahl_total_modules l)) :: 32 word)"

definition getHome :: "AddressHomeLookup \<Rightarrow> IntPtr \<Rightarrow> core_id_t result" where
  "getHome l address =
     (let module_num = getHome_module l address
      in bindR (logAssertR (0 \<le> module_num \<and> module_num < sint (ahl_total_modules l)) ''module_num'') (\<lambda>_.
         Inr (ahl_core_list l ! nat module_num)))"

definition getLinearBlock :: "AddressHomeLookup \<Rightarrow> IntPtr \<Rightarrow> IntPtr" where
  "getLinearBlock l address = drop_bit (ahl_param l) address div ucast (ahl_total_modules l)"

definition getLinearAddress :: "AddressHomeLookup \<Rightarrow> IntPtr \<Rightarrow> IntPtr" where
  "getLinearAddress l address =
     (push_bit (ahl_param l) (getLinearBlock l address)) OR (address AND ahl_mask l)"

section \<open>Lookup objects as the constructor makes them\<close>

definition ahl_ok :: "AddressHomeLookup \<Rightarrow> bool" where
  "ahl_ok l \<longleftrightarrow> ahl_param l < 64 \<and> ahl_mask l = mask (ahl_param l)
     \<and> 0 < length (ahl_core_list l) \<and> length (ahl_core_list l) < 2 ^ 31
     \<and> ahl_total_modules l = of_nat (length (ahl_core_list l))"

lemma AddressHomeLookup_create_ok:
  assumes "AddressHomeLookup_create param cores bs = Inr l" "param < 64" "0 < length cores" "length cores < 2 ^ 31"
  shows "ahl_ok l"
  using assms by (auto simp: AddressHomeLookup_create_def ahl_ok_def mask_eq_exp_minus_1 push_bit_eq_mult)

text \<open>The number of modules, read as a natural number.\<close>

abbreviation modules :: "AddressHomeLookup \<Rightarrow> nat" where
  "modules l \<equiv> length (ahl_core_list l)"

lemma unat_total_modules: "ahl_ok l \<Longrightarrow> unat (ucast (ahl_total_modules l) :: 64 word) = modules l"
  by (simp add: ahl_ok_def unsigned_ucast_eq unat_of_nat take_bit_nat_eq_self)

lemma getHome_module_eq:
  assumes "ahl_ok l"
  shows "getHome_module l a = int ((unat a div 2 ^ ahl_param l) mod modules l)"
proof -
  let ?m = "(unat a div 2 ^ ahl_param l) mod modules l"
  let ?w = "drop_bit (ahl_param l) a mod ucast (ahl_total_modules l)"
  have "unat ?w = ?m"
    using unat_total_modules [OF assms] by (simp add: unat_mod_distrib word_shift_right_div)
  moreover have "?m < 2 ^ 31"
    using assms by (auto simp: ahl_ok_def intro: less_trans [OF mod_less_divisor])
  ultimately have "unat (ucast ?w :: 32 word) = ?m" and b: "?m < 2 ^ 31"
    by (simp_all add: unsigned_ucast_eq take_bit_nat_eq_self)
  then have "ucast ?w = (of_nat ?m :: 32 word)" by (simp add: word_unat_eq_iff unat_of_nat take_bit_nat_eq_self)
  then show ?thesis using b
    by (simp add: getHome_module_def signed_of_nat signed_take_bit_int_eq_self)
qed


lemma getHome_ok:
  assumes "ahl_ok l"
  shows "getHome l a = Inr (ahl_core_list l ! ((unat a div 2 ^ ahl_param l) mod modules l))"
proof -
  have "sint (ahl_total_modules l) = int (modules l)"
    using assms by (simp add: ahl_ok_def signed_of_nat signed_take_bit_int_eq_self)
  moreover have "(unat a div 2 ^ ahl_param l) mod modules l < modules l"
    using assms by (simp add: ahl_ok_def)
  ultimately show ?thesis by (simp add: getHome_def getHome_module_eq [OF assms] Let_def)
qed

lemma unat_getLinearBlock: "ahl_ok l \<Longrightarrow> unat (getLinearBlock l a) = unat a div 2 ^ ahl_param l div modules l"
  by (simp add: getLinearBlock_def unat_div_distrib word_shift_right_div unat_total_modules)

lemma unat_getLinearAddress:
  assumes "ahl_ok l"
  shows "unat (getLinearAddress l a) =
    (unat a div 2 ^ ahl_param l div modules l) * 2 ^ ahl_param l + unat a mod 2 ^ ahl_param l"
proof -
  let ?p = "ahl_param l"
  let ?x = "unat a div 2 ^ ?p div modules l"
  have "?x \<le> unat a div 2 ^ ?p" by (rule div_le_dividend)
  then have "?x * 2 ^ ?p \<le> unat a"
    by (metis div_times_less_eq_dividend le_trans mult_le_mono1)
  then have "?x * 2 ^ ?p < 2 ^ 64" using unsigned_less [of a, where ?'a = nat] by simp
  then have shift: "unat (push_bit ?p (getLinearBlock l a)) = push_bit ?p ?x"
    unfolding unsigned_push_bit_eq unat_getLinearBlock [OF assms]
    by (intro take_bit_nat_eq_self) (simp add: push_bit_eq_mult)
  have low: "unat (a AND ahl_mask l) = take_bit ?p (unat a)"
    using assms by (simp add: ahl_ok_def flip: take_bit_eq_mask) (simp add: unsigned_take_bit_eq)
  have "push_bit ?p ?x AND take_bit ?p (unat a) = 0"
    by (rule bit_eqI) (auto simp: bit_simps)
  then have "push_bit ?p ?x OR take_bit ?p (unat a) = push_bit ?p ?x + take_bit ?p (unat a)"
    by (rule disjunctive_add_eq_or [symmetric])
  then show ?thesis
    unfolding getLinearAddress_def unsigned_or_eq shift low by (simp add: push_bit_eq_mult take_bit_eq_mod)
qed

text \<open>The inverse of the interleaving: from module number and linear address to the address.\<close>

definition deinterleave :: "AddressHomeLookup \<Rightarrow> nat \<Rightarrow> nat \<Rightarrow> nat" where
  "deinterleave l m lin =
     ((lin div 2 ^ ahl_param l) * modules l + m) * 2 ^ ahl_param l + lin mod 2 ^ ahl_param l"

lemma deinterleave_linear:
  assumes "ahl_ok l"
  shows "deinterleave l ((unat a div 2 ^ ahl_param l) mod modules l) (unat (getLinearAddress l a)) = unat a"
proof -
  let ?p = "2 ^ ahl_param l :: nat" and ?A = "unat a"
  have pos: "0 < ?p" by simp
  have "unat (getLinearAddress l a) div ?p = ?A div ?p div modules l"
    using pos by (simp add: unat_getLinearAddress [OF assms])
  moreover have "unat (getLinearAddress l a) mod ?p = ?A mod ?p"
    by (simp add: unat_getLinearAddress [OF assms])
  ultimately show ?thesis by (simp add: deinterleave_def div_mult_mod_eq)
qed

text \<open>
  \<^verbatim>\<open>getHome\<close> never fails its assertion and always answers with a core of the list it was
  built from; home module and \<^verbatim>\<open>getLinearAddress\<close> together determine the address, so within one
  home node the linear address is unique.
\<close>

theorem AddressHomeLookup_interleaving:
  assumes "ahl_ok l"
  shows "(\<exists>c. getHome l a = Inr c \<and> c \<in> set (ahl_core_list l))
    \<and> (getHome_module l a = getHome_module l b \<and> getLinearAddress l a = getLinearAddress l b \<longrightarrow> a = b)"
proof -
  let ?m = "\<lambda>a. (unat a div 2 ^ ahl_param l) mod modules l"
  have "?m a < modules l" using assms by (simp add: ahl_ok_def)
  then have "\<exists>c. getHome l a = Inr c \<and> c \<in> set (ahl_core_list l)"
    by (simp add: getHome_ok [OF assms])
  moreover have "a = b" if "getHome_module l a = getHome_module l b" "getLinearAddress l a = getLinearAddress l b"
  proof -
    from that(1) have "?m a = ?m b" by (simp add: getHome_module_eq [OF assms])
    with that(2) have "unat a = unat b"
      using deinterleave_linear [OF assms, of a] deinterleave_linear [OF assms, of b] by metis
    then show "a = b" by (simp add: word_unat_eq_iff)
  qed
  ultimately show ?thesis by blast
qed

theorem AddressHomeLookup_interleaving_witness:
  "\<exists>l. AddressHomeLookup_create 6 [0, 4, 8] 64 = Inr l \<and> ahl_ok l
     \<and> (\<exists>c. getHome l 320 = Inr c \<and> c \<in> set (ahl_core_list l))"
proof -
  let ?l = "\<lparr>ahl_param = 6, ahl_mask = mask 6, ahl_core_list = [0, 4, 8], ahl_total_modules = 3,
    ahl_cache_block_size = 64\<rparr>"
  have c: "AddressHomeLookup_create 6 [0, 4, 8] 64 = Inr ?l"
    by (simp add: AddressHomeLookup_create_def mask_eq_exp_minus_1 push_bit_eq_mult)
  moreover have ok: "ahl_ok ?l" by (simp add: ahl_ok_def)
  ultimately show ?thesis using AddressHomeLookup_interleaving [OF ok, of 320] by blast
qed

text \<open>
  Within one home node the linear address grows with the address: the numbering is
  "incrementing", as the header file says.
\<close>

lemma getLinearAddress_mono:
  assumes "ahl_ok l" "getHome_module l a = getHome_module l b" "unat a \<le> unat b"
  shows "unat (getLinearAddress l a) \<le> unat (getLinearAddress l b)"
proof -
  let ?p = "2 ^ ahl_param l :: nat" and ?M = "modules l"
  let ?qa = "unat a div ?p" and ?qb = "unat b div ?p"
  have q: "?qa \<le> ?qb" using assms(3) by (rule div_le_mono)
  have m: "?qa mod ?M = ?qb mod ?M" using assms(2) by (simp add: getHome_module_eq [OF assms(1)])
  show ?thesis
  proof (cases "?qa div ?M = ?qb div ?M")
    case True
    then have "?qa = ?qb" using m by (metis div_mult_mod_eq)
    then have "unat a mod ?p \<le> unat b mod ?p" using assms(3)
      by (metis add_le_cancel_left div_mult_mod_eq)
    with True show ?thesis by (simp add: unat_getLinearAddress [OF assms(1)])
  next
    case False
    then have "?qa div ?M < ?qb div ?M" using div_le_mono [OF q, of ?M] by simp
    then have "(?qa div ?M + 1) * ?p \<le> (?qb div ?M) * ?p" by (intro mult_le_mono1) simp
    moreover have "unat a mod ?p < ?p" by simp
    ultimately have "(?qa div ?M) * ?p + unat a mod ?p \<le> (?qb div ?M) * ?p"
      unfolding add_mult_distrib by linarith
    then show ?thesis by (simp add: unat_getLinearAddress [OF assms(1)])
  qed
qed

end
