(* ===== verification/Cache_Base.thy ===== *)
theory Cache_Base
  imports Sniper_Utils Address_Home
begin

text \<open>
  \<^verbatim>\<open>CacheBase\<close> (\<^verbatim>\<open>cache/cache_base.cc\<close>): the geometry of a cache and the split of an address into
  tag, set index and block offset under the seven hash functions. Sub-expressions keep the width
  the C++ types give them: set numbers are 32 bits wide, block numbers 64.
\<close>

datatype hash_t =
    INVALID_HASH_TYPE | HASH_MASK | HASH_MOD | HASH_RNG1_MOD | HASH_RNG2_MOD | HASH_PRIME_DIS
  | HASH_XOR_MOD | HASH_MER_MOD

record CacheBase =
  cb_name :: string
  cb_cache_size :: UInt64
  cb_associativity :: UInt32
  cb_blocksize :: UInt32
  cb_hash :: hash_t
  cb_num_sets :: UInt32
  cb_ahl :: "AddressHomeLookup option"
  cb_log_blocksize :: UInt32
  cb_log_num_sets :: UInt32

definition CacheBase_create ::
  "string \<Rightarrow> UInt32 \<Rightarrow> UInt32 \<Rightarrow> UInt32 \<Rightarrow> hash_t \<Rightarrow> AddressHomeLookup option \<Rightarrow> CacheBase result" where
  "CacheBase_create name num_sets associativity cache_block_size hash ahl =
     bindR (logAssertR (ucast num_sets = push_bit (nat (floorLog2 num_sets)) (1 :: UInt64) \<or> hash \<noteq> HASH_MASK)
              ''Caches of non-power of 2 size need funky hash function'') (\<lambda>_.
     Inr \<lparr>cb_name = name, cb_cache_size = ucast num_sets * ucast associativity * ucast cache_block_size,
          cb_associativity = associativity, cb_blocksize = cache_block_size, cb_hash = hash,
          cb_num_sets = num_sets, cb_ahl = ahl, cb_log_blocksize = of_int (floorLog2 cache_block_size),
          cb_log_num_sets = of_int (floorLog2 num_sets)\<rparr>)"

definition parseAddressHash :: "string \<Rightarrow> hash_t result" where
  "parseAddressHash hash_name =
     (if hash_name = ''mask'' then Inr HASH_MASK
      else if hash_name = ''mod'' then Inr HASH_MOD
      else if hash_name = ''rng1_mod'' then Inr HASH_RNG1_MOD
      else if hash_name = ''rng2_mod'' then Inr HASH_RNG2_MOD
      else if hash_name = ''prime_dis'' then Inr HASH_PRIME_DIS
      else if hash_name = ''xor_mod'' then Inr HASH_XOR_MOD
      else if hash_name = ''mersenne_mod'' then Inr HASH_MER_MOD
      else Inl (LogError ''Invalid address hash function''))"

text \<open>The \<^verbatim>\<open>switch\<close> over the hash functions, before the result is narrowed to \<^verbatim>\<open>UInt32\<close>.\<close>

definition set_hash :: "CacheBase \<Rightarrow> IntPtr \<Rightarrow> UInt64 result" where
  "set_hash c block_num =
     (let sets = ucast (cb_num_sets c) :: UInt64
      in case cb_hash c of
           HASH_MASK \<Rightarrow> Inr (block_num AND ucast (cb_num_sets c - 1))
         | HASH_MOD \<Rightarrow> modR block_num sets
         | HASH_RNG1_MOD \<Rightarrow> modR (snd (rng_next (rng_seed block_num))) sets
         | HASH_RNG2_MOD \<Rightarrow> modR (snd (rng_next (fst (rng_next (rng_seed block_num))))) sets
         | HASH_PRIME_DIS \<Rightarrow>
             bindR (modR block_num sets) (\<lambda>si.
             let Ti = drop_bit (unat (cb_log_num_sets c)) block_num; rho = 3
             in modR (rho * Ti + si) sets)
         | HASH_XOR_MOD \<Rightarrow>
             bindR (modR block_num sets) (\<lambda>si.
             bindR (modR (drop_bit (unat (cb_log_num_sets c)) block_num) sets) (\<lambda>ti.
             Inr (si XOR ti)))
         | HASH_MER_MOD \<Rightarrow> modR block_num (ucast (cb_num_sets c - 1))
         | INVALID_HASH_TYPE \<Rightarrow> Inl (LogError ''Invalid hash function''))"

definition splitAddress :: "CacheBase \<Rightarrow> IntPtr \<Rightarrow> (IntPtr \<times> UInt32) result" where
  "splitAddress c addr =
     (let tag = drop_bit (unat (cb_log_blocksize c)) addr;
          linearAddress = (case cb_ahl c of Some l \<Rightarrow> getLinearAddress l addr | None \<Rightarrow> addr);
          block_num = drop_bit (unat (cb_log_blocksize c)) linearAddress
      in bindR (set_hash c block_num) (\<lambda>set_index. Inr (tag, ucast set_index)))"

definition splitAddress_offset :: "CacheBase \<Rightarrow> IntPtr \<Rightarrow> (IntPtr \<times> UInt32 \<times> UInt32) result" where
  "splitAddress_offset c addr =
     (let block_offset = ucast (addr AND ucast (cb_blocksize c - 1))
      in bindR (splitAddress c addr) (\<lambda>(tag, set_index). Inr (tag, set_index, block_offset)))"

definition tagToAddress :: "CacheBase \<Rightarrow> IntPtr \<Rightarrow> IntPtr" where
  "tagToAddress c tag = push_bit (unat (cb_log_blocksize c)) tag"

section \<open>Caches as the constructor makes them\<close>

text \<open>
  Block sizes are powers of two (the configuration files only use such sizes). \<open>hash_total\<close> says
  for which set counts a hash function has a value in range: \<^verbatim>\<open>HASH_XOR_MOD\<close> needs a power of two
  and \<^verbatim>\<open>HASH_MER_MOD\<close> two sets at least.
\<close>

definition hash_total :: "hash_t \<Rightarrow> UInt32 \<Rightarrow> bool" where
  "hash_total h n =
     (case h of INVALID_HASH_TYPE \<Rightarrow> False
      | HASH_XOR_MOD \<Rightarrow> n \<noteq> 0 \<and> isPower2 n
      | HASH_MER_MOD \<Rightarrow> 1 < n
      | _ \<Rightarrow> n \<noteq> 0)"

definition cb_ok :: "CacheBase \<Rightarrow> bool" where
  "cb_ok c \<longleftrightarrow> unat (cb_blocksize c) = 2 ^ unat (cb_log_blocksize c)
     \<and> cb_num_sets c \<noteq> 0 \<and> unat (cb_log_num_sets c) = nat (floorLog2 (cb_num_sets c))
     \<and> (cb_hash c = HASH_MASK \<longrightarrow> isPower2 (cb_num_sets c))
     \<and> (\<forall>l. cb_ahl c = Some l \<longrightarrow> ahl_ok l \<and> unat (cb_log_blocksize c) \<le> ahl_param l)"

lemma floorLog2_le_31: "n \<noteq> 0 \<Longrightarrow> 0 \<le> floorLog2 n \<and> nat (floorLog2 n) < 32"
proof -
  assume "n \<noteq> 0"
  from floorLog2_bounds [OF this] have "0 \<le> floorLog2 n" "2 ^ nat (floorLog2 n) \<le> unat n" by simp_all
  moreover have "unat n < 2 ^ 32" using unsigned_less [of n, where ?'a = nat] by simp
  ultimately have "(2::nat) ^ nat (floorLog2 n) < 2 ^ 32" by linarith
  with \<open>0 \<le> floorLog2 n\<close> show ?thesis by (simp only: power_strict_increasing_iff one_less_numeral_iff semiring_norm(76))
qed

lemma unat_log: "n \<noteq> 0 \<Longrightarrow> unat (of_int (floorLog2 n) :: 32 word) = nat (floorLog2 n)"
proof -
  assume "n \<noteq> 0"
  from floorLog2_le_31 [OF this] have "0 \<le> floorLog2 n" "nat (floorLog2 n) < 32" by simp_all
  then have "of_int (floorLog2 n) = (of_nat (nat (floorLog2 n)) :: 32 word)" "nat (floorLog2 n) < 2 ^ 32" by simp_all
  then show ?thesis by simp
qed

lemma floorLog2_exp: "k < 32 \<Longrightarrow> floorLog2 (2 ^ k) = int k"
  by (rule floorLog2_unique) (simp_all add: unat_exp)

lemma CacheBase_create_ok:
  assumes "CacheBase_create name ns assoc bs hash ahl = Inr c"
    and "isPower2 bs" "bs \<noteq> 0" "ns \<noteq> 0"
    and "\<And>l. ahl = Some l \<Longrightarrow> ahl_ok l \<and> unat bs \<le> 2 ^ ahl_param l"
  shows "cb_ok c"
proof -
  from assms(2,3) obtain k where k: "k < 32" "bs = 2 ^ k"
    using popcount_1_iff [of bs] popcount_0_iff [of bs] by (auto simp: isPower2_iff_popcount le_Suc_eq)
  then have lb: "unat (of_int (floorLog2 bs) :: 32 word) = k"
    using unat_log [OF assms(3)] by (simp add: floorLog2_exp)
  have pow: "isPower2 ns" if "ucast ns = push_bit (nat (floorLog2 ns)) (1 :: UInt64)"
  proof -
    let ?k = "nat (floorLog2 ns)"
    have "?k < 32" using floorLog2_le_31 [OF assms(4)] by simp
    moreover have "unat (ucast ns :: UInt64) = 2 ^ ?k"
      unfolding that push_bit_of_1 using \<open>?k < 32\<close> by (intro unat_exp) simp
    moreover have "unat ns < 2 ^ 64" using unsigned_less [of ns, where ?'a = nat] by simp
    ultimately have "unat ns = unat (2 ^ ?k :: UInt32)" by (simp add: unat_ucast_le)
    then have "ns = 2 ^ ?k" by (simp add: word_unat_eq_iff)
    with \<open>?k < 32\<close> have "popcount ns = 1" using popcount_1_iff [of ns] by auto
    then show ?thesis by (simp add: isPower2_iff_popcount)
  qed
  have "k \<le> ahl_param l" if "ahl = Some l" for l
    using assms(5) [OF that] k by simp
  with assms(1,4,5) k lb pow show ?thesis
    by (auto simp: CacheBase_create_def cb_ok_def unat_log)
qed

section \<open>Set selection\<close>

lemma unat_sets: "unat (ucast (n :: UInt32) :: UInt64) = unat n"
  using unsigned_less [of n, where ?'a = nat] by (intro unat_ucast_le) simp

lemma power2_word:
  fixes n :: UInt32
  assumes "isPower2 n" "n \<noteq> 0"
  obtains k where "k < 32" "n = 2 ^ k" "unat n = 2 ^ k"
  using assms popcount_1_iff [of n] popcount_0_iff [of n]
  by (auto simp: isPower2_iff_popcount le_Suc_eq)

lemma modR_less:
  assumes "d \<noteq> (0 :: UInt32)"
  shows "\<exists>r. modR a (ucast d :: UInt64) = Inr r \<and> unat r < unat d"
proof -
  have "(ucast d :: UInt64) \<noteq> 0" "0 < unat d"
    using assms unat_sets [of d] by (auto simp: unat_gt_0 unat_eq_0)
  then show ?thesis by (auto simp: modR_def unat_mod_distrib unat_sets)
qed

lemma xor_less_exp:
  fixes a b :: UInt64
  assumes "unat a < 2 ^ k" "unat b < 2 ^ k"
  shows "unat (a XOR b) < 2 ^ k"
proof -
  have "take_bit k (unat a XOR unat b) = unat a XOR unat b"
    using assms by (simp add: take_bit_xor take_bit_nat_eq_self)
  then have "unat a XOR unat b < 2 ^ k" by (metis take_bit_nat_less_exp)
  then show ?thesis by (simp add: unsigned_xor_eq)
qed

lemma set_hash_less:
  assumes "cb_ok c" and "hash_total (cb_hash c) (cb_num_sets c)"
  shows "\<exists>s. set_hash c b = Inr s \<and> unat s < unat (cb_num_sets c)"
proof (cases "cb_hash c")
  case HASH_MASK
  then obtain k where k: "k < 32" "cb_num_sets c = 2 ^ k" "unat (cb_num_sets c) = 2 ^ k"
    using assms(1) by (auto simp: cb_ok_def elim: power2_word)
  have "unat (cb_num_sets c - 1) = 2 ^ k - 1"
    using assms(1) k(3) by (simp add: cb_ok_def unat_minus_one)
  then have "unat (ucast (cb_num_sets c - 1) :: UInt64) = 2 ^ k - 1" by (simp add: unat_sets)
  then have "unat (b AND ucast (cb_num_sets c - 1)) \<le> 2 ^ k - 1"
    using word_and_le1 [of b "ucast (cb_num_sets c - 1)"] by (simp add: word_le_nat_alt)
  moreover have "(2::nat) ^ k - 1 < 2 ^ k" by simp
  ultimately have "unat (b AND ucast (cb_num_sets c - 1)) < 2 ^ k" by linarith
  with HASH_MASK k(3) show ?thesis by (simp add: set_hash_def)
next
  case HASH_PRIME_DIS
  have nz: "cb_num_sets c \<noteq> 0" using assms(1) by (simp add: cb_ok_def)
  from modR_less [OF nz, of b] obtain si where "modR b (ucast (cb_num_sets c)) = Inr si" by blast
  with modR_less [OF nz] HASH_PRIME_DIS show ?thesis by (simp add: set_hash_def Let_def modR_def)
next
  case HASH_XOR_MOD
  with assms obtain k where k: "unat (cb_num_sets c) = 2 ^ k"
    by (auto simp: hash_total_def elim: power2_word)
  have "cb_num_sets c \<noteq> 0" using assms(1) by (simp add: cb_ok_def)
  from modR_less [OF this, of b] modR_less [OF this, of "drop_bit (unat (cb_log_num_sets c)) b"]
  obtain si ti where "modR b (ucast (cb_num_sets c)) = Inr si" "unat si < 2 ^ k"
    "modR (drop_bit (unat (cb_log_num_sets c)) b) (ucast (cb_num_sets c)) = Inr ti" "unat ti < 2 ^ k"
    unfolding k by auto
  then show ?thesis using HASH_XOR_MOD by (simp add: set_hash_def Let_def xor_less_exp k modR_def)
next
  case HASH_MER_MOD
  with assms have "1 < unat (cb_num_sets c)" by (simp add: hash_total_def word_less_nat_alt)
  then have "unat (cb_num_sets c - 1) = unat (cb_num_sets c) - 1" "cb_num_sets c - 1 \<noteq> 0"
    by (metis less_irrefl less_zeroE unat_0 unat_minus_one, metis diff_eq_eq add_0 less_irrefl unat_1)
  with modR_less [of "cb_num_sets c - 1" b] HASH_MER_MOD show ?thesis
    by (auto simp: set_hash_def Let_def)
qed (use assms modR_less [of "cb_num_sets c"] in
    \<open>simp_all add: hash_total_def set_hash_def cb_ok_def Let_def del: modR_eq_Inr\<close>)

lemma div_exp_linear:
  fixes a x p b :: nat
  assumes "b \<le> p"
  shows "(x * 2 ^ p + a mod 2 ^ p) div 2 ^ b = x * 2 ^ (p - b) + (a div 2 ^ b) mod 2 ^ (p - b)"
proof -
  have p: "(2::nat) ^ p = 2 ^ b * 2 ^ (p - b)" using assms by (simp flip: power_add)
  have "a mod 2 ^ p = 2 ^ b * (a div 2 ^ b mod 2 ^ (p - b)) + a mod 2 ^ b"
    unfolding p by (rule mod_mult2_eq)
  then have "x * 2 ^ p + a mod 2 ^ p = a mod 2 ^ b + 2 ^ b * (x * 2 ^ (p - b) + a div 2 ^ b mod 2 ^ (p - b))"
    by (simp add: p algebra_simps)
  then show ?thesis by simp
qed

text \<open>The block number of the linear address is a function of the tag.\<close>

lemma linear_block_of_tag:
  assumes "ahl_ok l" and "k \<le> ahl_param l" and "drop_bit k a = drop_bit k b"
  shows "drop_bit k (getLinearAddress l a) = drop_bit k (getLinearAddress l b)"
proof -
  let ?p = "ahl_param l"
  have ab: "unat a div 2 ^ k = unat b div 2 ^ k" using assms(3) by (metis word_shift_right_div)
  have "unat a div 2 ^ ?p = unat b div 2 ^ ?p"
    using assms(2) ab by (metis div_mult2_eq le_add_diff_inverse power_add)
  then have "unat (drop_bit k (getLinearAddress l a)) = unat (drop_bit k (getLinearAddress l b))"
    using assms(1,2) ab by (simp add: word_shift_right_div unat_getLinearAddress div_exp_linear)
  then show ?thesis by (simp add: word_unat_eq_iff)
qed

lemma splitAddress_same_tag:
  assumes "cb_ok c" and "splitAddress c a = Inr (t, s)" and "splitAddress c b = Inr (t, s')"
  shows "s = s'"
proof -
  let ?k = "unat (cb_log_blocksize c)"
  have tag: "drop_bit ?k a = drop_bit ?k b" using assms(2,3) by (auto simp: splitAddress_def Let_def)
  have "drop_bit ?k (case cb_ahl c of Some l \<Rightarrow> getLinearAddress l a | None \<Rightarrow> a) =
      drop_bit ?k (case cb_ahl c of Some l \<Rightarrow> getLinearAddress l b | None \<Rightarrow> b)"
    using assms(1) tag by (cases "cb_ahl c") (auto simp: cb_ok_def intro: linear_block_of_tag)
  then show ?thesis using assms(2,3) by (auto simp: splitAddress_def Let_def)
qed

lemma splitAddress_total:
  assumes "cb_ok c" and "hash_total (cb_hash c) (cb_num_sets c)"
  shows "\<exists>s. splitAddress c a = Inr (drop_bit (unat (cb_log_blocksize c)) a, s) \<and> s < cb_num_sets c"
proof -
  let ?b = "drop_bit (unat (cb_log_blocksize c)) (case cb_ahl c of Some l \<Rightarrow> getLinearAddress l a | None \<Rightarrow> a)"
  obtain s where s: "set_hash c ?b = Inr s" "unat s < unat (cb_num_sets c)"
    using set_hash_less [OF assms] by blast
  moreover have "unat (cb_num_sets c) < 2 ^ 32" using unsigned_less [of "cb_num_sets c", where ?'a = nat] by simp
  ultimately have "unat (ucast s :: UInt32) = unat s" by (intro unat_ucast_le) simp
  with s have "ucast s < cb_num_sets c" by (simp add: word_less_nat_alt)
  with s show ?thesis by (simp add: splitAddress_def Let_def)
qed

text \<open>
  C9: Set selection is sound where the hash function suits the number of sets: in a cache base as the constructor builds it (a power of two as block size,
  for the mask a power of two as number of sets), with a power of two as number of sets for XOR_MOD, and more than one set for MER_MOD,
  \<^verbatim>\<open>splitAddress\<close> succeeds on every address with a set index below \<^verbatim>\<open>m_num_sets\<close>, and two
  addresses with the same tag fall into the same set, also behind an address home lookup. Outside these conditions it does not hold:
  XOR_MOD can answer a set that does not exist, and MER_MOD with one set divides by zero.
\<close>

theorem splitAddress_sound:
  assumes "cb_ok c" and "hash_total (cb_hash c) (cb_num_sets c)"
  shows "\<exists>t s t' s'. splitAddress c a = Inr (t, s) \<and> splitAddress c b = Inr (t', s')
     \<and> s < cb_num_sets c \<and> (t = t' \<longrightarrow> s = s')"
  using splitAddress_total [OF assms, of a] splitAddress_total [OF assms, of b]
    splitAddress_same_tag [OF assms(1)] by metis

lemma CacheBase_example:
  "CacheBase_create ''L2'' 3 8 64 HASH_PRIME_DIS None = Inr
     \<lparr>cb_name = ''L2'', cb_cache_size = 1536, cb_associativity = 8, cb_blocksize = 64, cb_hash = HASH_PRIME_DIS,
      cb_num_sets = 3, cb_ahl = None, cb_log_blocksize = 6, cb_log_num_sets = 1\<rparr>"
  by (simp add: CacheBase_create_def floorLog2_def floorLog2_step_def Let_def)

theorem splitAddress_sound_witness:
  "\<exists>c t s. CacheBase_create ''L2'' 3 8 64 HASH_PRIME_DIS None = Inr c
     \<and> splitAddress c 4096 = Inr (t, s) \<and> s < cb_num_sets c"
proof -
  let ?c = "\<lparr>cb_name = ''L2'', cb_cache_size = 1536, cb_associativity = 8, cb_blocksize = 64,
    cb_hash = HASH_PRIME_DIS, cb_num_sets = 3, cb_ahl = None, cb_log_blocksize = 6, cb_log_num_sets = 1\<rparr>"
  have "cb_ok ?c" by (simp add: cb_ok_def floorLog2_def floorLog2_step_def)
  moreover have "hash_total (cb_hash ?c) (cb_num_sets ?c)" by (simp add: hash_total_def)
  ultimately show ?thesis using splitAddress_sound [of ?c 4096 0] CacheBase_example by blast
qed

lemma log_blocksize_less: "cb_ok c \<Longrightarrow> unat (cb_log_blocksize c) < 32"
proof (rule ccontr)
  assume "cb_ok c" "\<not> unat (cb_log_blocksize c) < 32"
  then have "(2::nat) ^ 32 \<le> unat (cb_blocksize c)" by (simp only: cb_ok_def power_increasing)
  then show False using unsigned_less [of "cb_blocksize c", where ?'a = nat] by simp
qed

lemma unat_block_offset:
  fixes a :: IntPtr
  assumes "cb_ok c"
  shows "unat (ucast (a AND ucast (cb_blocksize c - 1)) :: UInt32) = unat a mod 2 ^ unat (cb_log_blocksize c)"
proof -
  let ?k = "unat (cb_log_blocksize c)"
  have bs: "unat (cb_blocksize c) = 2 ^ ?k" using assms by (simp add: cb_ok_def)
  then have nz: "cb_blocksize c \<noteq> 0" by auto
  have "unat (mask ?k :: UInt64) = 2 ^ ?k - 1"
    using log_blocksize_less [OF assms] by (simp add: mask_eq_exp_minus_1 unat_minus_one)
  then have "unat (ucast (cb_blocksize c - 1) :: UInt64) = unat (mask ?k :: UInt64)"
    by (simp add: unat_sets unat_minus_one [OF nz] bs)
  then have "ucast (cb_blocksize c - 1) = (mask ?k :: UInt64)" by (simp only: word_unat_eq_iff)
  then have "a AND ucast (cb_blocksize c - 1) = take_bit ?k a" by (simp add: take_bit_eq_mask)
  then have "unat (a AND ucast (cb_blocksize c - 1)) = take_bit ?k (unat a)" by (simp only: unsigned_take_bit_eq)
  then have "unat (a AND ucast (cb_blocksize c - 1)) = unat a mod 2 ^ ?k" by (simp only: take_bit_eq_mod)
  moreover have "unat a mod 2 ^ ?k < 2 ^ 32"
  proof -
    have "unat a mod 2 ^ ?k < 2 ^ ?k" by simp
    also have "\<dots> < 2 ^ 32" using bs unsigned_less [of "cb_blocksize c", where ?'a = nat] by simp
    finally show ?thesis .
  qed
  ultimately show ?thesis by (simp add: unat_ucast_le)
qed

lemma unat_tagToAddress:
  "unat (tagToAddress c (drop_bit (unat (cb_log_blocksize c)) a)) =
    unat a div 2 ^ unat (cb_log_blocksize c) * 2 ^ unat (cb_log_blocksize c)"
proof -
  have "unat a div 2 ^ k * 2 ^ k < 2 ^ 64" for k
    using le_less_trans [OF div_times_less_eq_dividend [of "unat a" "2 ^ k"]] unsigned_less [of a, where ?'a = nat] by simp
  then show ?thesis
    unfolding tagToAddress_def unsigned_push_bit_eq word_shift_right_div
    by (intro trans [OF take_bit_nat_eq_self]) (simp_all add: push_bit_eq_mult)
qed

lemma tag_of_tagToAddress:
  "drop_bit (unat (cb_log_blocksize c)) (tagToAddress c (drop_bit (unat (cb_log_blocksize c)) a)) =
     drop_bit (unat (cb_log_blocksize c)) a"
  by (simp add: word_unat_eq_iff word_shift_right_div unat_tagToAddress)

lemma splitAddress_tag: "splitAddress c a = Inr (t, s) \<Longrightarrow> t = drop_bit (unat (cb_log_blocksize c)) a"
  by (auto simp: splitAddress_def Let_def)

text \<open>A tag and the address of its block select the same set.\<close>

lemma splitAddress_of_tag:
  assumes "cb_ok c" and "hash_total (cb_hash c) (cb_num_sets c)" and "splitAddress c a = Inr (t, s)"
  shows "splitAddress c (tagToAddress c t) = Inr (t, s)"
proof -
  obtain s' where "splitAddress c (tagToAddress c t) = Inr (t, s')"
    using splitAddress_total [OF assms(1,2), of "tagToAddress c t"] splitAddress_tag [OF assms(3)]
      tag_of_tagToAddress [of c a] by auto
  with splitAddress_same_tag [OF assms(1,3)] show ?thesis by simp
qed

lemma splitAddress_tag_valid:
  assumes "splitAddress c a = Inr (t, s)" and "0 < unat (cb_log_blocksize c)"
  shows "t \<noteq> NOT 0"
proof
  assume "t = NOT 0"
  then have "bit t 63" by (simp add: bit_not_iff)
  then have "bit a (63 + unat (cb_log_blocksize c))"
    using splitAddress_tag [OF assms(1)] by (simp add: bit_drop_bit_eq add.commute)
  with assms(2) show False by (auto dest: bit_imp_le_length)
qed

text \<open>
  \<^verbatim>\<open>splitAddress\<close> and \<^verbatim>\<open>tagToAddress\<close> are inverse to each other up to the block offset: the
  address is the address of the tag plus the offset, the offset is below the block size, and the
  tag of the address of a tag is that tag.
\<close>

theorem tagToAddress_roundtrip:
  assumes "cb_ok c" and "splitAddress_offset c a = Inr (t, s, off)"
  shows "a = tagToAddress c t + ucast off \<and> off < cb_blocksize c
     \<and> (\<forall>t' s'. splitAddress c (tagToAddress c t) = Inr (t', s') \<longrightarrow> t' = t \<and> s' = s)"
proof -
  let ?k = "unat (cb_log_blocksize c)"
  have t: "t = drop_bit ?k a" and off: "unat off = unat a mod 2 ^ ?k"
    and sp: "splitAddress c a = Inr (t, s)"
    using assms unat_block_offset [OF assms(1), of a]
    by (auto simp: splitAddress_offset_def splitAddress_def Let_def)
  have "unat a = unat (tagToAddress c t) + unat off"
    using off div_mult_mod_eq [of "unat a" "2 ^ ?k"] by (simp add: t unat_tagToAddress)
  then have "(of_nat (unat a) :: IntPtr) = of_nat (unat (tagToAddress c t)) + of_nat (unat off)" by simp
  then have 1: "a = tagToAddress c t + ucast off" by simp
  have 2: "off < cb_blocksize c" using assms(1) off by (simp add: word_less_nat_alt cb_ok_def)
  have same: "drop_bit ?k (tagToAddress c t) = t" unfolding t by (rule tag_of_tagToAddress)
  have "t' = t \<and> s' = s" if "splitAddress c (tagToAddress c t) = Inr (t', s')" for t' s'
  proof -
    have "t' = t" using that same by (auto simp: splitAddress_def Let_def)
    with that sp splitAddress_same_tag [OF assms(1)] show ?thesis by blast
  qed
  with 1 2 show ?thesis by blast
qed

theorem tagToAddress_roundtrip_witness:
  "\<exists>c t s off. CacheBase_create ''L2'' 3 8 64 HASH_PRIME_DIS None = Inr c
     \<and> splitAddress_offset c 4100 = Inr (t, s, off) \<and> 4100 = tagToAddress c t + ucast off"
proof -
  let ?c = "\<lparr>cb_name = ''L2'', cb_cache_size = 1536, cb_associativity = 8, cb_blocksize = 64,
    cb_hash = HASH_PRIME_DIS, cb_num_sets = 3, cb_ahl = None, cb_log_blocksize = 6, cb_log_num_sets = 1\<rparr>"
  have ok: "cb_ok ?c" by (simp add: cb_ok_def floorLog2_def floorLog2_step_def)
  have "hash_total (cb_hash ?c) (cb_num_sets ?c)" by (simp add: hash_total_def)
  from splitAddress_total [OF ok this, of 4100] obtain t s off where
    "splitAddress_offset ?c 4100 = Inr (t, s, off)" by (auto simp: splitAddress_offset_def)
  with tagToAddress_roundtrip [OF ok this] CacheBase_example show ?thesis by blast
qed

text \<open>
  The guard of the constructor does not cover \<^verbatim>\<open>HASH_XOR_MOD\<close>: a cache of three sets with this
  hash is accepted and maps block 4 to set 3, which does not exist.
\<close>

theorem xor_mod_out_of_range:
  "\<exists>c. CacheBase_create ''c'' 3 1 64 HASH_XOR_MOD None = Inr c \<and> splitAddress c 256 = Inr (4, 3)
     \<and> \<not> 3 < cb_num_sets c"
  by (simp add: CacheBase_create_def floorLog2_def floorLog2_step_def Let_def splitAddress_def set_hash_def modR_def)

end
