(* ===== verification/Cache_Block.thy ===== *)
theory Cache_Block
  imports Sniper_Utils
begin

text \<open>
  Cache line metadata: \<^verbatim>\<open>CacheState\<close> (\<^verbatim>\<open>cache_state.h\<close>), \<^verbatim>\<open>CacheBlockInfo\<close>
  (\<^verbatim>\<open>cache_block_info.cc\<close>) and its subclasses \<^verbatim>\<open>PrL1CacheBlockInfo\<close>,
  \<^verbatim>\<open>PrL2CacheBlockInfo\<close> and \<^verbatim>\<open>SharedCacheBlockInfo\<close>. The dynamic class of an object is the
  field \<open>cbi_kind\<close>; the bit vector that only \<^verbatim>\<open>PrL2CacheBlockInfo\<close> declares is part of the one
  record and is read and written only by the operations of that class.
\<close>

section \<open>Data\<close>

datatype cstate_t =
    C_INVALID | C_SHARED | C_SHARED_UPGRADING | C_EXCLUSIVE | C_OWNED | C_MODIFIED
  | C_INVALID_COLD | C_INVALID_EVICT | C_INVALID_COHERENCY

definition CacheState_readable :: "cstate_t \<Rightarrow> bool" where
  "CacheState_readable s = (s = C_MODIFIED \<or> s = C_OWNED \<or> s = C_SHARED \<or> s = C_EXCLUSIVE)"

definition CacheState_writable :: "cstate_t \<Rightarrow> bool" where
  "CacheState_writable s = (s = C_MODIFIED)"

datatype cache_t = INVALID_CACHE_TYPE | PR_L1_CACHE | PR_L2_CACHE | SHARED_CACHE

datatype option_t = PREFETCH | WARMUP

record CacheBlockInfo =
  cbi_kind :: cache_t
  cbi_tag :: IntPtr
  cbi_cstate :: cstate_t
  cbi_owner :: UInt64
  cbi_used :: UInt8
  cbi_options :: UInt8
  cbi_cached_loc_bitvec :: UInt32

definition CacheBlockInfo_new :: "cache_t \<Rightarrow> IntPtr \<Rightarrow> cstate_t \<Rightarrow> UInt64 \<Rightarrow> CacheBlockInfo" where
  "CacheBlockInfo_new kind tag cstate options =
     \<lparr>cbi_kind = kind, cbi_tag = tag, cbi_cstate = cstate, cbi_owner = 0, cbi_used = 0,
      cbi_options = ucast options, cbi_cached_loc_bitvec = 0\<rparr>"

definition CacheBlockInfo_create :: "cache_t \<Rightarrow> CacheBlockInfo result" where
  "CacheBlockInfo_create cache_type =
     (case cache_type of
        PR_L1_CACHE \<Rightarrow> Inr (CacheBlockInfo_new PR_L1_CACHE (NOT 0) C_INVALID 0)
      | PR_L2_CACHE \<Rightarrow> Inr (CacheBlockInfo_new PR_L2_CACHE (NOT 0) C_INVALID 0)
      | SHARED_CACHE \<Rightarrow> Inr (CacheBlockInfo_new SHARED_CACHE (NOT 0) C_INVALID 0)
      | INVALID_CACHE_TYPE \<Rightarrow> Inl (LogError ''Unrecognized cache type''))"

section \<open>CacheBlockInfo\<close>

definition isValid :: "CacheBlockInfo \<Rightarrow> bool" where
  "isValid b = (cbi_tag b \<noteq> NOT 0)"

definition setTag :: "IntPtr \<Rightarrow> CacheBlockInfo \<Rightarrow> CacheBlockInfo" where
  "setTag tag b = b\<lparr>cbi_tag := tag\<rparr>"

definition setCState :: "cstate_t \<Rightarrow> CacheBlockInfo \<Rightarrow> CacheBlockInfo" where
  "setCState st b = b\<lparr>cbi_cstate := st\<rparr>"

text \<open>
  The virtual \<^verbatim>\<open>invalidate\<close> and \<^verbatim>\<open>clone\<close>: the L2 class also resets or copies its bit vector, the
  shared class does nothing more because \<^verbatim>\<open>ENABLE_TRACK_SHARING_PREVCACHES\<close> is not defined.
\<close>

definition CacheBlockInfo_invalidate :: "CacheBlockInfo \<Rightarrow> CacheBlockInfo" where
  "CacheBlockInfo_invalidate b =
     (let b = (if cbi_kind b = PR_L2_CACHE then b\<lparr>cbi_cached_loc_bitvec := 0\<rparr> else b)
      in b\<lparr>cbi_tag := NOT 0, cbi_cstate := C_INVALID\<rparr>)"

definition CacheBlockInfo_clone :: "CacheBlockInfo \<Rightarrow> CacheBlockInfo \<Rightarrow> CacheBlockInfo" where
  "CacheBlockInfo_clone src b =
     (let b = (if cbi_kind b = PR_L2_CACHE then b\<lparr>cbi_cached_loc_bitvec := cbi_cached_loc_bitvec src\<rparr> else b)
      in b\<lparr>cbi_tag := cbi_tag src, cbi_cstate := cbi_cstate src, cbi_owner := cbi_owner src,
           cbi_used := cbi_used src, cbi_options := cbi_options src\<rparr>)"

primrec option_index :: "option_t \<Rightarrow> nat" where
  "option_index PREFETCH = 0"
| "option_index WARMUP = 1"

definition hasOption :: "option_t \<Rightarrow> CacheBlockInfo \<Rightarrow> bool" where
  "hasOption opt b = (cbi_options b AND push_bit (option_index opt) 1 \<noteq> 0)"

definition setOption :: "option_t \<Rightarrow> CacheBlockInfo \<Rightarrow> CacheBlockInfo" where
  "setOption opt b = b\<lparr>cbi_options := cbi_options b OR push_bit (option_index opt) 1\<rparr>"

text \<open>The mask of \<^verbatim>\<open>clearOption\<close> is computed in 64 bits and narrowed by the compound assignment.\<close>

definition clearOption :: "option_t \<Rightarrow> CacheBlockInfo \<Rightarrow> CacheBlockInfo" where
  "clearOption opt b =
     b\<lparr>cbi_options := ucast (ucast (cbi_options b) AND NOT (push_bit (option_index opt) (1 :: UInt64)))\<rparr>"

definition updateUsage_bits :: "UInt8 \<Rightarrow> CacheBlockInfo \<Rightarrow> bool \<times> CacheBlockInfo" where
  "updateUsage_bits used b =
     (used AND NOT (cbi_used b) \<noteq> 0, b\<lparr>cbi_used := cbi_used b OR used\<rparr>)"

text \<open>
  \<^verbatim>\<open>BitsUsedOffset\<close> is 3: one usage bit for every 8 bytes. The sub-block numbers are computed in
  32 bits and the masks in 64 bits; the call narrows the mask to \<^verbatim>\<open>BitsUsedType\<close>.
\<close>

definition usage_mask :: "UInt32 \<Rightarrow> UInt32 \<Rightarrow> UInt64" where
  "usage_mask offset sz =
     (let first = unat (drop_bit 3 offset);
          last = unat (drop_bit 3 (offset + sz - 1));
          first_mask = push_bit first 1 - 1;
          last_mask = push_bit (last + 1) 1 - 1
      in last_mask AND NOT first_mask)"

definition updateUsage :: "UInt32 \<Rightarrow> UInt32 \<Rightarrow> CacheBlockInfo \<Rightarrow> bool \<times> CacheBlockInfo" where
  "updateUsage offset sz b = updateUsage_bits (ucast (usage_mask offset sz)) b"

section \<open>PrL2CacheBlockInfo\<close>

text \<open>The members of \<^verbatim>\<open>MemComponent::component_t\<close> are numbers in the shifts below.\<close>

abbreviation (input) INVALID_MEM_COMPONENT :: nat where "INVALID_MEM_COMPONENT \<equiv> 0"
abbreviation (input) L1_ICACHE :: nat where "L1_ICACHE \<equiv> 2"
abbreviation (input) L1_DCACHE :: nat where "L1_DCACHE \<equiv> 3"

definition getCachedLoc :: "CacheBlockInfo \<Rightarrow> nat result" where
  "getCachedLoc b =
     bindR (logAssertR (cbi_cached_loc_bitvec b \<noteq> push_bit L1_ICACHE 1 OR push_bit L1_DCACHE 1)
              ''m_cached_loc_bitvec'') (\<lambda>_.
     if cbi_cached_loc_bitvec b = push_bit L1_ICACHE 1 then Inr L1_ICACHE
     else if cbi_cached_loc_bitvec b = push_bit L1_DCACHE 1 then Inr L1_DCACHE
     else if cbi_cached_loc_bitvec b = 0 then Inr INVALID_MEM_COMPONENT
     else Inl (LogError ''Error: m_cached_loc_bitvec''))"

definition setCachedLoc :: "nat \<Rightarrow> CacheBlockInfo \<Rightarrow> CacheBlockInfo result" where
  "setCachedLoc loc b =
     bindR (logAssertR (loc \<noteq> INVALID_MEM_COMPONENT) ''cached_loc'') (\<lambda>_.
     bindR (logAssertR (cbi_cached_loc_bitvec b AND push_bit loc 1 = 0) ''m_cached_loc_bitvec'') (\<lambda>_.
     Inr (b\<lparr>cbi_cached_loc_bitvec := cbi_cached_loc_bitvec b OR push_bit loc 1\<rparr>)))"

definition clearCachedLoc :: "nat \<Rightarrow> CacheBlockInfo \<Rightarrow> CacheBlockInfo result" where
  "clearCachedLoc loc b =
     bindR (logAssertR (loc \<noteq> INVALID_MEM_COMPONENT) ''cached_loc'') (\<lambda>_.
     bindR (logAssertR (cbi_cached_loc_bitvec b AND push_bit loc 1 \<noteq> 0) ''m_cached_loc_bitvec'') (\<lambda>_.
     Inr (b\<lparr>cbi_cached_loc_bitvec := cbi_cached_loc_bitvec b AND NOT (push_bit loc 1)\<rparr>)))"

section \<open>Laws\<close>

lemma isValid_invalidate [simp]: "\<not> isValid (CacheBlockInfo_invalidate b)"
  by (simp add: isValid_def CacheBlockInfo_invalidate_def Let_def)

lemma cbi_tag_clone [simp]: "cbi_tag (CacheBlockInfo_clone src b) = cbi_tag src"
  by (simp add: CacheBlockInfo_clone_def Let_def)

lemma cbi_cstate_clone [simp]: "cbi_cstate (CacheBlockInfo_clone src b) = cbi_cstate src"
  by (simp add: CacheBlockInfo_clone_def Let_def)

lemma cbi_kind_clone [simp]: "cbi_kind (CacheBlockInfo_clone src b) = cbi_kind b"
  by (simp add: CacheBlockInfo_clone_def Let_def)

lemma cbi_tag_invalidate [simp]: "cbi_tag (CacheBlockInfo_invalidate b) = NOT 0"
  by (simp add: CacheBlockInfo_invalidate_def Let_def)

lemma cbi_tag_setTag [simp]: "cbi_tag (setTag t b) = t"
  by (simp add: setTag_def)

lemma clone_same_kind:
  "cbi_kind src = PR_L2_CACHE \<Longrightarrow> cbi_kind b = PR_L2_CACHE \<Longrightarrow> CacheBlockInfo_clone src b = src"
  by (simp add: CacheBlockInfo_clone_def Let_def)

lemma CacheBlockInfo_create_invalid:
  "CacheBlockInfo_create k = Inr b \<Longrightarrow> \<not> isValid b \<and> cbi_kind b = k \<and> cbi_cstate b = C_INVALID"
  by (cases k) (auto simp: CacheBlockInfo_create_def CacheBlockInfo_new_def isValid_def)

lemma and_exp: "(w :: 'a::len word) AND 2 ^ k = 0 \<longleftrightarrow> \<not> bit w k"
proof
  assume "w AND 2 ^ k = 0"
  then have "\<not> bit (w AND 2 ^ k) k" by simp
  then show "\<not> bit w k" by (auto simp: bit_and_iff bit_exp_iff dest: bit_imp_le_length)
next
  assume "\<not> bit w k"
  then show "w AND 2 ^ k = 0" by (intro bit_word_eqI) (auto simp: bit_and_iff bit_exp_iff)
qed

lemma option_index_inj [simp]: "option_index a = option_index b \<longleftrightarrow> a = b"
  by (cases a; cases b) simp_all

lemma option_index_less: "option_index opt < 8"
  by (cases opt) simp_all

lemma hasOption_setOption: "hasOption a (setOption o' b) \<longleftrightarrow> a = o' \<or> hasOption a b"
  using option_index_less [of o']
  by (auto simp: hasOption_def setOption_def and_exp bit_or_iff bit_exp_iff)

lemma hasOption_clearOption: "hasOption a (clearOption o' b) \<longleftrightarrow> a \<noteq> o' \<and> hasOption a b"
  using option_index_less [of o'] option_index_less [of a]
  by (auto simp: hasOption_def clearOption_def and_exp bit_simps)

lemma cached_loc_roundtrip:
  assumes "setCachedLoc loc b = Inr b'" and "loc < 32"
  shows "clearCachedLoc loc b' = Inr b"
  using assms
  by (auto simp: setCachedLoc_def clearCachedLoc_def and_exp bit_simps
      intro!: CacheBlockInfo.equality bit_word_eqI)

section \<open>Usage bits\<close>

lemma bit_low_mask: "bit (2 ^ k - 1 :: 'a::len word) j \<longleftrightarrow> j < k \<and> j < LENGTH('a)"
  by (auto simp flip: mask_eq_exp_minus_1 simp: bit_mask_iff)

lemma bit_usage_mask:
  assumes "1 \<le> unat sz" and "unat offset + unat sz \<le> 64"
  shows "bit (usage_mask offset sz) k \<longleftrightarrow>
    unat offset div 8 \<le> k \<and> k \<le> (unat offset + unat sz - 1) div 8"
proof -
  have sum: "unat (offset + sz) = unat offset + unat sz"
    using assms by (intro unat_add_lem [THEN iffD1]) simp
  have "offset + sz \<noteq> 0" using sum assms(1) by (metis add_is_0 not_one_le_zero unat_0)
  then have "unat (offset + sz - 1) = unat offset + unat sz - 1"
    using sum by (simp add: unat_minus_one)
  then have last: "unat (drop_bit 3 (offset + sz - 1)) = (unat offset + unat sz - 1) div 8"
    by (simp add: word_shift_right_div)
  have "(unat offset + unat sz - 1) div 8 < 8" using assms(2) by simp
  moreover have "unat (drop_bit 3 offset) = unat offset div 8" by (simp add: word_shift_right_div)
  ultimately show ?thesis
    unfolding usage_mask_def Let_def last push_bit_of_1
    by (auto simp: bit_and_iff bit_not_iff bit_low_mask simp del: power_Suc add_2_eq_Suc' power_add)
qed

lemma byte_range_div:
  "1 \<le> s \<Longrightarrow> (\<exists>a\<ge>f. a < f + s \<and> a div 8 = k) \<longleftrightarrow> f div 8 \<le> k \<and> k \<le> (f + s - 1) div (8 :: nat)"
proof
  assume "1 \<le> s" "\<exists>a\<ge>f. a < f + s \<and> a div 8 = k"
  then show "f div 8 \<le> k \<and> k \<le> (f + s - 1) div 8" by (auto intro: div_le_mono)
next
  assume *: "1 \<le> s" "f div 8 \<le> k \<and> k \<le> (f + s - 1) div 8"
  let ?a = "max f (8 * k)"
  have "?a div 8 = k" using * by (auto simp: max_def)
  moreover have "?a < f + s" using * by (auto simp: max_def)
  ultimately show "\<exists>a\<ge>f. a < f + s \<and> a div 8 = k" by (intro exI [of _ ?a]) auto
qed

lemma bit_updateUsage_mask:
  assumes "1 \<le> unat sz" and "unat offset + unat sz \<le> 64"
  shows "bit (ucast (usage_mask offset sz) :: UInt8) k \<longleftrightarrow>
    (\<exists>byte\<ge>unat offset. byte < unat offset + unat sz \<and> byte div 8 = k)"
  using assms(2) div_le_mono [of "unat offset + unat sz - 1" 63 8]
  unfolding byte_range_div [OF assms(1)] bit_unsigned_iff
  by (auto simp: bit_usage_mask [OF assms])

lemma word_neq_0_bit: "(w :: 'a::len word) \<noteq> 0 \<longleftrightarrow> (\<exists>k. bit w k)"
  by (metis bit_0_eq bot_apply bot_bool_def bit_word_eqI)

text \<open>
  \<^verbatim>\<open>updateUsage(offset, size)\<close> for an access that lies inside a 64-byte line adds to the usage
  bits of the line exactly the bits of the 8-byte elements that the access touches, changes nothing
  else of the block, and returns whether one of these elements was unused before.
\<close>

theorem updateUsage_covers_access:
  assumes "1 \<le> unat sz" and "unat offset + unat sz \<le> 64" and "updateUsage offset sz b = (fresh, b')"
  shows "(bit (cbi_used b') k \<longleftrightarrow>
      bit (cbi_used b) k \<or> (\<exists>byte\<ge>unat offset. byte < unat offset + unat sz \<and> byte div 8 = k)) \<and>
    b' = b\<lparr>cbi_used := cbi_used b'\<rparr> \<and>
    (fresh \<longleftrightarrow> (\<exists>byte\<ge>unat offset. byte < unat offset + unat sz \<and> \<not> bit (cbi_used b) (byte div 8)))"
proof -
  note touched = bit_updateUsage_mask [OF assms(1,2)]
  have b': "b' = b\<lparr>cbi_used := cbi_used b OR ucast (usage_mask offset sz)\<rparr>"
    and "fresh \<longleftrightarrow> ucast (usage_mask offset sz) AND NOT (cbi_used b) \<noteq> 0"
    using assms(3) by (auto simp: updateUsage_def updateUsage_bits_def)
  then have "fresh \<longleftrightarrow> (\<exists>k. bit (ucast (usage_mask offset sz) :: UInt8) k \<and> \<not> bit (cbi_used b) k)"
    by (simp add: word_neq_0_bit bit_and_iff bit_not_iff) (use bit_imp_le_length in fastforce)
  with b' show ?thesis by (auto simp: bit_or_iff touched)
qed

text \<open>A load of 8 bytes at offset 12 touches the elements 1 and 2.\<close>

theorem updateUsage_covers_access_witness:
  "\<exists>b'. updateUsage 12 8 (CacheBlockInfo_new PR_L1_CACHE 5 C_SHARED 0) = (True, b') \<and> bit (cbi_used b') 2"
proof -
  let ?b = "CacheBlockInfo_new PR_L1_CACHE 5 C_SHARED 0"
  obtain fresh b' where e: "updateUsage 12 8 ?b = (fresh, b')" by (cases "updateUsage 12 8 ?b")
  have "cbi_used ?b = 0" by (simp add: CacheBlockInfo_new_def)
  with updateUsage_covers_access [OF _ _ e, of 2] have "bit (cbi_used b') 2" "fresh"
    by (auto intro!: exI [of _ 16])
  with e show ?thesis by simp
qed

end
