(* ===== verification/Recency.thy ===== *)
theory Recency
  imports Cache_Block "HOL-Library.Multiset"
begin

text \<open>
  What the LRU-like replacement policies share: the state they reach outside their own set
  (\<^verbatim>\<open>CacheSetInfoLRU\<close>, the controller, two global variables), the loop \<^verbatim>\<open>moveToMRU\<close> that the
  classes repeat word for word, the scan for the largest LRU counter, and the retry loop of
  query-based selection. The counters are related to an abstract recency list: \<^verbatim>\<open>moveToMRU\<close>
  refines move-to-front, the scan finds the last candidate of the list.
\<close>

section \<open>State outside the set\<close>

text \<open>
  \<^verbatim>\<open>m_attempts\<close> is \<open>None\<close> where the constructor leaves the pointer NULL. Statistics are registered
  by address and are read by name elsewhere; here they are just the arrays.
\<close>

record CacheSetInfoLRU =
  si_associativity :: nat
  si_access :: "UInt64 list"
  si_attempts :: "UInt64 list option"

definition CacheSetInfoLRU_create :: "nat \<Rightarrow> UInt8 \<Rightarrow> CacheSetInfoLRU" where
  "CacheSetInfoLRU_create assoc num_attempts =
     \<lparr>si_associativity = assoc, si_access = replicate assoc 0,
      si_attempts = (if num_attempts > 1 then Some (replicate (unat num_attempts) 0) else None)\<rparr>"

definition CacheSetInfoLRU_increment :: "nat \<Rightarrow> CacheSetInfoLRU \<Rightarrow> CacheSetInfoLRU result" where
  "CacheSetInfoLRU_increment index si =
     bindR (logAssertR (index < si_associativity si) ''Index >= Associativity'') (\<lambda>_.
     Inr (si\<lparr>si_access := (si_access si)[index := si_access si ! index + 1]\<rparr>))"

definition CacheSetInfoLRU_incrementAttempt :: "nat \<Rightarrow> CacheSetInfoLRU \<Rightarrow> CacheSetInfoLRU result" where
  "CacheSetInfoLRU_incrementAttempt attempt si =
     (case si_attempts si of
        Some h \<Rightarrow> Inr (si\<lparr>si_attempts := Some (h[attempt := h ! attempt + 1])\<rparr>)
      | None \<Rightarrow>
          bindR (logAssertR (attempt = 0) ''No place to store attempt# histogram but attempt != 0'') (\<lambda>_.
          Inr si))"

text \<open>
  The environment of a set: \<^verbatim>\<open>m_set_info\<close> (\<open>None\<close> for NULL), the file-scope \<^verbatim>\<open>m_state\<close> of
  \<^verbatim>\<open>cache_set_phc.cc\<close>, the global \<^verbatim>\<open>global_loop_bit_writeback\<close> of \<^verbatim>\<open>cache_set_lru_l2.cc\<close>, and the
  number of calls of the controller's \<^verbatim>\<open>incrementQBSLookupCost\<close>. A controller is its
  \<^verbatim>\<open>isInLowerLevelCache\<close>; \<open>None\<close> is the NULL pointer.
\<close>

record repl_env =
  re_set_info :: "CacheSetInfoLRU option"
  re_phc_state :: "UInt8 list"
  re_loop_bit_writeback :: UInt8
  re_qbs_lookups :: nat

type_synonym cntlr = "(CacheBlockInfo \<Rightarrow> bool) option"

definition set_info_op ::
  "(CacheSetInfoLRU \<Rightarrow> CacheSetInfoLRU result) \<Rightarrow> repl_env \<Rightarrow> repl_env result" where
  "set_info_op f env =
     (case re_set_info env of
        None \<Rightarrow> Inl (Trap ''null pointer'')
      | Some si \<Rightarrow> bindR (f si) (\<lambda>si'. Inr (env\<lparr>re_set_info := Some si'\<rparr>)))"

definition isValidReplacement :: "CacheBlockInfo list \<Rightarrow> nat \<Rightarrow> bool" where
  "isValidReplacement blocks index = (cbi_cstate (blocks ! index) \<noteq> C_SHARED_UPGRADING)"

section \<open>The loops\<close>

definition lru_init :: "nat \<Rightarrow> UInt8 list" where
  "lru_init assoc = map of_nat [0..<assoc]"

definition moveToMRU :: "nat \<Rightarrow> nat \<Rightarrow> UInt8 list \<Rightarrow> UInt8 list" where
  "moveToMRU assoc accessed_index bits =
     (for_upto assoc
        (\<lambda>i l. if l ! i < l ! accessed_index then l[i := l ! i + 1] else l) bits)[accessed_index := 0]"

text \<open>\<open>lru_scan\<close> is the loop that looks for the largest counter, on the pair \<open>(index, max_bits)\<close>.\<close>

definition lru_scan_step :: "(nat \<Rightarrow> bool) \<Rightarrow> UInt8 list \<Rightarrow> nat \<Rightarrow> nat \<times> UInt8 \<Rightarrow> nat \<times> UInt8" where
  "lru_scan_step cand bits i s = (if bits ! i > snd s \<and> cand i then (i, bits ! i) else s)"

definition lru_scan :: "(nat \<Rightarrow> bool) \<Rightarrow> UInt8 list \<Rightarrow> nat \<Rightarrow> nat \<Rightarrow> nat" where
  "lru_scan cand bits lo hi = fst (fold (lru_scan_step cand bits) [lo..<hi] (0, 0))"

text \<open>
  The loop over \<^verbatim>\<open>attempt\<close>, by recursion on the attempts that remain. It returns the accepted
  index with its attempt number, or \<open>None\<close> when the loop runs out, and the LRU counters and the
  environment as the rejected attempts left them. \<^verbatim>\<open>attempt < m_num_attempts - 1\<close> is a
  comparison of signed integers.
\<close>

primrec qbs_attempts ::
  "nat \<Rightarrow> nat \<Rightarrow> nat \<Rightarrow> cntlr \<Rightarrow> CacheBlockInfo list \<Rightarrow> (UInt8 list \<Rightarrow> nat) \<Rightarrow> UInt8 list \<Rightarrow> repl_env \<Rightarrow>
     ((nat \<times> nat) option \<times> UInt8 list \<times> repl_env) result" where
  "qbs_attempts 0 attempt assoc cntlr blocks select bits env = Inr (None, bits, env)"
| "qbs_attempts (Suc remaining) attempt assoc cntlr blocks select bits env =
     (let index = select bits
      in bindR (logAssertR (index < assoc) ''Error Finding LRU bits'') (\<lambda>_.
         bindR (if 0 < remaining
                then case cntlr of
                       None \<Rightarrow> Inl (LogError ''CacheCntlr == NULL, QBS can only be used when cntlr is passed in'')
                     | Some isInLowerLevelCache \<Rightarrow> Inr (isInLowerLevelCache (blocks ! index))
                else Inr False) (\<lambda>qbs_reject.
         if qbs_reject
         then qbs_attempts remaining (Suc attempt) assoc cntlr blocks select
                (moveToMRU assoc index bits) (env\<lparr>re_qbs_lookups := re_qbs_lookups env + 1\<rparr>)
         else Inr (Some (index, attempt), bits, env))))"

section \<open>Move to front\<close>

text \<open>The loop of \<^verbatim>\<open>moveToMRU\<close> in closed form.\<close>

lemma moveToMRU_loop:
  fixes bits :: "UInt8 list"
  assumes "a < length bits" and "k \<le> length bits"
  shows "for_upto k (\<lambda>i l. if l ! i < l ! a then l[i := l ! i + 1] else l) bits =
    map (\<lambda>i. if i < k \<and> bits ! i < bits ! a then bits ! i + 1 else bits ! i) [0..<length bits]"
  using assms(2)
proof (induction k)
  case 0
  then show ?case by (simp add: map_nth)
next
  case (Suc k)
  then show ?case using assms(1)
    by (auto intro!: nth_equalityI simp: nth_list_update less_Suc_eq)
qed

lemma moveToMRU_nth:
  assumes "a < length bits" and "i < length bits" and "assoc = length bits"
  shows "moveToMRU assoc a bits ! i =
    (if i = a then 0 else if bits ! i < bits ! a then bits ! i + 1 else bits ! i)"
  using assms by (simp add: moveToMRU_def moveToMRU_loop nth_list_update)

lemma length_moveToMRU [simp]: "length (moveToMRU n a bits) = length bits"
proof -
  have "length (for_upto n (\<lambda>i l. if l ! i < l ! a then l[i := l ! i + 1] else l) bits) = length bits"
    by (rule for_upto_invariant [where I = "\<lambda>_ l. length l = length bits"]) simp_all
  then show ?thesis by (simp add: moveToMRU_def)
qed

text \<open>
  \<open>lru_perm n bits\<close>: the counters are a permutation of \<open>0..<n\<close>. The increments never wrap: a
  counter is incremented only when it is below another one.
\<close>

definition lru_perm :: "nat \<Rightarrow> UInt8 list \<Rightarrow> bool" where
  "lru_perm n bits \<longleftrightarrow> length bits = n \<and> unat ` set bits = {..<n}"

lemma unat_moveToMRU_nth:
  assumes "a < length bits" and "i < length bits" and "assoc = length bits"
  shows "unat (moveToMRU assoc a bits ! i) =
    (if i = a then 0 else if unat (bits ! i) < unat (bits ! a) then Suc (unat (bits ! i)) else unat (bits ! i))"
proof (cases "bits ! i < bits ! a")
  case True
  then have lt: "unat (bits ! i) < unat (bits ! a)" by (simp add: word_less_nat_alt)
  moreover have "unat (bits ! a) \<le> 2 ^ 8 - 1" using unsigned_less [of "bits ! a", where ?'a = nat] by simp
  ultimately have "unat (bits ! i + 1) = Suc (unat (bits ! i))"
    by (intro unat_word_Suc) simp
  with True lt show ?thesis by (simp add: moveToMRU_nth [OF assms])
next
  case False
  then show ?thesis by (simp add: moveToMRU_nth [OF assms] word_less_nat_alt)
qed

text \<open>The recency list: the ways of the set, the most recently used one first.\<close>

definition recency :: "UInt8 list \<Rightarrow> nat list" where
  "recency bits = sort_key (\<lambda>i. unat (bits ! i)) [0..<length bits]"

lemma set_recency [simp]: "set (recency bits) = {..<length bits}"
  by (auto simp: recency_def)

lemma lru_perm_distinct: "lru_perm n bits \<Longrightarrow> distinct (map unat bits)"
  by (intro card_distinct) (simp add: lru_perm_def)

lemma map_recency:
  assumes "lru_perm n bits"
  shows "map (\<lambda>i. unat (bits ! i)) (recency bits) = [0..<n]"
proof (rule sorted_distinct_set_unique)
  let ?f = "\<lambda>i. unat (bits ! i)"
  have len: "length bits = n" using assms by (simp add: lru_perm_def)
  have f: "map ?f [0..<n] = map unat bits" by (rule nth_equalityI) (simp_all add: len)
  have perm: "mset (map ?f (recency bits)) = mset (map unat bits)"
    by (simp add: recency_def len mset_map flip: f)
  show "sorted (map ?f (recency bits))" by (simp add: recency_def)
  show "distinct (map ?f (recency bits))"
    using lru_perm_distinct [OF assms] mset_eq_imp_distinct_iff [OF perm] by simp
  show "set (map ?f (recency bits)) = set [0..<n]"
    using mset_eq_setD [OF perm] assms by (simp add: lru_perm_def lessThan_atLeast0)
qed simp_all

lemma length_recency [simp]: "length (recency bits) = length bits"
  by (simp add: recency_def)

lemma distinct_recency [simp]: "distinct (recency bits)"
  by (simp add: recency_def)

lemma recency_unique:
  assumes "lru_perm n bits" and "map (\<lambda>i. unat (bits ! i)) r = [0..<n]" and "set r \<subseteq> {..<n}"
  shows "r = recency bits"
proof -
  let ?f = "\<lambda>i. unat (bits ! i)"
  have "inj_on ?f {..<n}"
    using lru_perm_distinct [OF assms(1)] assms(1)
    by (auto simp: lru_perm_def inj_on_def dest: distinct_map_unique_index)
  moreover have "set r \<union> set (recency bits) \<subseteq> {..<n}"
    using assms(1,3) by (auto simp: lru_perm_def)
  ultimately have "inj_on ?f (set r \<union> set (recency bits))" by (rule inj_on_subset)
  moreover have "map ?f r = map ?f (recency bits)" using map_recency [OF assms(1)] assms(2) by simp
  ultimately show ?thesis by (simp add: inj_on_map_eq_map)
qed


lemma lru_perm_inj: "lru_perm n bits \<Longrightarrow> i < n \<Longrightarrow> j < n \<Longrightarrow> unat (bits ! i) = unat (bits ! j) \<Longrightarrow> i = j"
  using distinct_map_unique_index [OF lru_perm_distinct] by (auto simp: lru_perm_def)

lemma lru_perm_nth_less: "lru_perm n bits \<Longrightarrow> i < n \<Longrightarrow> unat (bits ! i) < n"
  by (auto simp: lru_perm_def set_conv_nth)

lemma lru_permI:
  assumes "length bits = n" and "map (\<lambda>i. unat (bits ! i)) r = [0..<n]" and "set r \<subseteq> {..<n}"
  shows "lru_perm n bits"
proof -
  have "{..<n} = (\<lambda>i. unat (bits ! i)) ` set r" using arg_cong [OF assms(2), of set] by (simp add: lessThan_atLeast0)
  also have "\<dots> \<subseteq> unat ` set bits" using assms(1,3) by auto
  finally have sub: "{..<n} \<subseteq> unat ` set bits" .
  have "card (unat ` set bits) \<le> n"
    using card_image_le [of "set bits" unat] card_length [of bits] assms(1) by simp
  with sub have "unat ` set bits = {..<n}"
    by (intro card_seteq [symmetric]) simp_all
  with assms(1) show ?thesis by (simp add: lru_perm_def)
qed

lemma lru_perm_init: "n \<le> 256 \<Longrightarrow> lru_perm n (lru_init n) \<and> recency (lru_init n) = [0..<n]"
proof -
  assume n: "n \<le> 256"
  have m: "map (\<lambda>i. unat (lru_init n ! i)) [0..<n] = [0..<n]"
    using n by (intro nth_equalityI) (simp_all add: lru_init_def)
  have "lru_perm n (lru_init n)" using m by (intro lru_permI) (auto simp: lru_init_def)
  then show ?thesis using recency_unique [OF _ m] by (simp add: lessThan_atLeast0)
qed

lemma upt_split_at: "p < n \<Longrightarrow> [0..<n] = [0..<p] @ p # [Suc p..<n]"
proof -
  assume "p < n"
  then have "[0..<p + (n - p)] = [0..<p] @ [p..<p + (n - p)]" by (intro upt_add_eq_append) simp
  with \<open>p < n\<close> show ?thesis by (simp add: upt_conv_Cons)
qed

lemma map_split_upt:
  assumes "map f (xs @ a # ys) = [0..<n]"
  shows "map f xs = [0..<length xs]" and "f a = length xs" and "map f ys = [Suc (length xs)..<n]"
proof -
  let ?p = "length xs"
  have "?p < n" using arg_cong [OF assms, of length] by simp
  with assms have "map f xs @ f a # map f ys = [0..<?p] @ ?p # [Suc ?p..<n]" by (simp add: upt_split_at)
  then show "map f xs = [0..<?p]" and "f a = ?p" and "map f ys = [Suc ?p..<n]"
    by (simp_all add: append_eq_append_conv)
qed

lemma map_recency_moved:
  assumes "map f r = [0..<n]" and "distinct r" and "a \<in> set r"
  shows "map (\<lambda>i. if i = a then 0 else if f i < f a then Suc (f i) else f i) (a # remove1 a r) = [0..<n]"
proof -
  from assms(3) obtain xs ys where r: "r = xs @ a # ys" by (auto simp: in_set_conv_decomp)
  let ?p = "length xs" and ?g = "\<lambda>i. if i = a then 0 else if f i < f a then Suc (f i) else f i"
  note s = map_split_upt [OF assms(1) [unfolded r]]
  have p: "?p < n" using arg_cong [OF assms(1), of length] r by simp
  have "map ?g xs = map Suc (map f xs)"
  proof -
    have "x \<noteq> a \<and> f x < f a" if "x \<in> set xs" for x
    proof -
      have "f x \<in> set (map f xs)" using that by simp
      then show ?thesis using that assms(2) s(1,2) r by auto
    qed
    then show ?thesis by auto
  qed
  moreover have "map ?g ys = map f ys"
  proof -
    have "x \<noteq> a \<and> \<not> f x < f a" if "x \<in> set ys" for x
    proof -
      have "f x \<in> set (map f ys)" using that by simp
      then show ?thesis using that assms(2) s(2,3) r by auto
    qed
    then show ?thesis by auto
  qed
  moreover have "remove1 a r = xs @ ys" using assms(2) r by (simp add: remove1_append)
  ultimately have "map ?g (a # remove1 a r) = 0 # map Suc [0..<?p] @ [Suc ?p..<n]" using s by simp
  also have "\<dots> = [0..<?p] @ ?p # [Suc ?p..<n]" 
  proof -
    have "0 # map Suc [0..<?p] = [0..<Suc ?p]" by (simp add: map_Suc_upt upt_conv_Cons del: upt_Suc)
    then show ?thesis by (simp flip: append_Cons)
  qed
  also have "\<dots> = [0..<n]" using p by (simp add: upt_split_at)
  finally show ?thesis .
qed

text \<open>\<^verbatim>\<open>moveToMRU\<close> refines move-to-front.\<close>

lemma moveToMRU_refines:
  assumes "lru_perm n bits" and "a < n"
  shows "lru_perm n (moveToMRU n a bits) \<and> recency (moveToMRU n a bits) = a # remove1 a (recency bits)"
proof -
  let ?r = "a # remove1 a (recency bits)" and ?bits = "moveToMRU n a bits"
  have len: "length bits = n" using assms(1) by (simp add: lru_perm_def)
  have sub: "set ?r \<subseteq> {..<n}" using assms(2) len set_remove1_subset [of a "recency bits"] by auto
  then have "map (\<lambda>i. unat (?bits ! i)) ?r = map (\<lambda>i. if i = a then 0 else if unat (bits ! i) < unat (bits ! a)
      then Suc (unat (bits ! i)) else unat (bits ! i)) ?r"
    using assms(2) len by (intro map_cong [OF refl] unat_moveToMRU_nth) auto
  also have "\<dots> = [0..<n]"
    using map_recency [OF assms(1)] assms(2) len by (intro map_recency_moved) simp_all
  finally have m: "map (\<lambda>i. unat (?bits ! i)) ?r = [0..<n]" .
  then have "lru_perm n ?bits" using sub len by (intro lru_permI [of ?bits n ?r]) (simp_all only: length_moveToMRU)
  with recency_unique [OF this m sub] show ?thesis by simp
qed


section \<open>The scan\<close>

lemma lru_scan_invariant:
  "let s = fold (lru_scan_step cand bits) [lo..<hi] (0, 0) in
   (\<forall>j\<in>{lo..<hi}. cand j \<longrightarrow> bits ! j \<le> snd s)
   \<and> (s = (0, 0) \<or> fst s \<in> {lo..<hi} \<and> cand (fst s) \<and> bits ! fst s = snd s \<and> 0 < snd s)"
proof (induction hi)
  case 0
  then show ?case by simp
next
  case (Suc hi)
  show ?case
  proof (cases "lo \<le> hi")
    case True
    then show ?thesis using Suc
      by (auto simp: Let_def lru_scan_step_def less_Suc_eq not_less intro: order_trans less_imp_le)
  qed simp
qed

lemma lru_scan_less: "0 < n \<Longrightarrow> hi \<le> n \<Longrightarrow> lru_scan cand bits lo hi < n"
  using lru_scan_invariant [of cand bits lo hi] by (auto simp: lru_scan_def Let_def)

text \<open>
  The scan picks the candidate with the largest counter; it falls back to way 0 exactly when no
  candidate has a counter above zero.
\<close>

lemma lru_scan_max:
  assumes "j \<in> {lo..<hi}" and "cand j" and "0 < bits ! j"
  shows "lru_scan cand bits lo hi \<in> {lo..<hi} \<and> cand (lru_scan cand bits lo hi)
    \<and> (\<forall>k\<in>{lo..<hi}. cand k \<longrightarrow> bits ! k \<le> bits ! lru_scan cand bits lo hi)"
proof -
  let ?s = "fold (lru_scan_step cand bits) [lo..<hi] (0, 0)"
  have ub: "\<forall>k\<in>{lo..<hi}. cand k \<longrightarrow> bits ! k \<le> snd ?s"
    and or: "?s = (0, 0) \<or> fst ?s \<in> {lo..<hi} \<and> cand (fst ?s) \<and> bits ! fst ?s = snd ?s \<and> 0 < snd ?s"
    using lru_scan_invariant [of cand bits lo hi] by (auto simp: Let_def)
  have "bits ! j \<le> snd ?s" using ub assms(1,2) by blast
  then have "0 < snd ?s" using assms(3) by (rule less_le_trans [rotated])
  then have "?s \<noteq> (0, 0)" by auto
  with or ub show ?thesis unfolding lru_scan_def by metis
qed

lemma lru_scan_fallback:
  assumes "\<And>j. j \<in> {lo..<hi} \<Longrightarrow> cand j \<Longrightarrow> bits ! j = 0"
  shows "lru_scan cand bits lo hi = 0"
  using lru_scan_invariant [of cand bits lo hi] assms by (auto simp: lru_scan_def Let_def)

text \<open>On a permutation, the largest counter is the last candidate of the recency list.\<close>

lemma recency_order:
  assumes "lru_perm n bits" and "k < m" and "m < n"
  shows "unat (bits ! (recency bits ! k)) = k \<and> unat (bits ! (recency bits ! k)) < unat (bits ! (recency bits ! m))"
proof -
  have "unat (bits ! (recency bits ! j)) = j" if "j < n" for j
    using arg_cong [OF map_recency [OF assms(1)], of "\<lambda>l. l ! j"] that assms(1) by (simp add: lru_perm_def)
  with assms show ?thesis by simp
qed

section \<open>The retry loop\<close>

text \<open>
  Every attempt but the last needs a controller. The loop keeps the permutation, selects a way
  inside the set, and never falls through when it has an attempt at all.
\<close>

lemma qbs_attempts_ok:
  assumes "0 < num" and "1 < num \<longrightarrow> cntlr \<noteq> None" and "\<And>b. length b = assoc \<Longrightarrow> select b < assoc"
    and "length bits = assoc"
  shows "\<exists>index k bits' env'. qbs_attempts num attempt assoc cntlr blocks select bits env =
      Inr (Some (index, attempt + k), bits', env') \<and> index = select bits' \<and> index < assoc \<and> k < num
      \<and> env' = env\<lparr>re_qbs_lookups := re_qbs_lookups env + k\<rparr> \<and> length bits' = assoc
      \<and> (lru_perm assoc bits \<longrightarrow> lru_perm assoc bits')"
  using assms(1,2,4)
proof (induction num arbitrary: attempt bits env)
  case 0
  then show ?case by simp
next
  case (Suc num)
  let ?i = "select bits"
  have i: "?i < assoc" using assms(3) Suc.prems by simp
  show ?case
  proof (cases "0 < num \<and> the cntlr (blocks ! ?i)")
    case True
    let ?bits = "moveToMRU assoc ?i bits" and ?env = "env\<lparr>re_qbs_lookups := re_qbs_lookups env + 1\<rparr>"
    have step: "qbs_attempts (Suc num) attempt assoc cntlr blocks select bits env =
        qbs_attempts num (Suc attempt) assoc cntlr blocks select ?bits ?env"
      using True Suc.prems i by (auto simp: Let_def)
    have perm: "lru_perm assoc ?bits" if "lru_perm assoc bits"
      using moveToMRU_refines [OF that i] by simp
    obtain index k bits' env' where ih:
      "qbs_attempts num (Suc attempt) assoc cntlr blocks select ?bits ?env = Inr (Some (index, Suc attempt + k), bits', env')"
      "index = select bits'" "index < assoc" "k < num"
      "env' = ?env\<lparr>re_qbs_lookups := re_qbs_lookups ?env + k\<rparr>" "length bits' = assoc"
      "lru_perm assoc ?bits \<longrightarrow> lru_perm assoc bits'"
      using Suc.IH [of ?bits "Suc attempt" ?env] True Suc.prems by auto
    have "env' = env\<lparr>re_qbs_lookups := re_qbs_lookups env + Suc k\<rparr>" using ih(5) by simp
    moreover have "lru_perm assoc bits \<longrightarrow> lru_perm assoc bits'" using ih(7) perm by blast
    moreover have "qbs_attempts num (Suc attempt) assoc cntlr blocks select ?bits ?env =
        Inr (Some (index, attempt + Suc k), bits', env')" using ih(1) by simp
    moreover have "Suc k < Suc num" using ih(4) by simp
    ultimately show ?thesis unfolding step using ih(2,3,6)
      by (intro exI conjI) assumption+
  next
    case False
    then have "qbs_attempts (Suc num) attempt assoc cntlr blocks select bits env = Inr (Some (?i, attempt), bits, env)"
      using Suc.prems i by (cases "num = 0"; cases cntlr) (simp_all add: Let_def)
    then show ?thesis using i Suc.prems by (intro exI [of _ ?i] exI [of _ 0] exI [of _ bits] exI [of _ env]) simp
  qed
qed

lemma qbs_attempts_keeps:
  assumes "qbs_attempts num attempt n cntlr blocks select bits env = Inr (found, bits', env')" and "lru_perm n bits"
  shows "lru_perm n bits' \<and> (\<forall>index k. found = Some (index, k) \<longrightarrow> index < n)"
  using assms
proof (induction num arbitrary: attempt bits env)
  case 0
  then show ?case by simp
next
  case (Suc num)
  let ?i = "select bits"
  from Suc.prems(1) have i: "?i < n" by (simp add: Let_def)
  then have "lru_perm n (moveToMRU n ?i bits)" using moveToMRU_refines [OF Suc.prems(2)] by simp
  with Suc i show ?case by (auto simp: Let_def split: if_splits option.splits)
qed

end
