(* ===== verification/Repl_LRU.thy ===== *)
theory Repl_LRU
  imports Recency
begin

text \<open>
  The five LRU-based replacement policies: \<^verbatim>\<open>CacheSetLRU\<close>, \<^verbatim>\<open>CacheSetLRUNEW\<close>, the loop-block
  aware \<^verbatim>\<open>CacheSetLRUL2\<close> and \<^verbatim>\<open>CacheSetLRUL3\<close>, and \<^verbatim>\<open>CacheSetPHC\<close> for a hybrid SRAM / STT-RAM
  cache. Every policy is a pair of functions \<^verbatim>\<open>getReplacementIndex\<close> and \<^verbatim>\<open>updateReplacementIndex\<close>
  over its own state, the blocks of the set, and the environment; the two interfaces that the
  policies promise to \<^verbatim>\<open>CacheSet\<close> are the locales \<open>victim_policy\<close> and \<open>invalid_first_policy\<close>.
\<close>

section \<open>The interface of a replacement policy\<close>

text \<open>
  Ways are natural numbers below the associativity \<open>n\<close>. The arguments of \<open>get\<close> are the
  associativity, the controller, the blocks of the set, \<^verbatim>\<open>l3_hit_flag\<close>, \<^verbatim>\<open>eip\<close>, \<^verbatim>\<open>set_index\<close>, the
  policy state and the environment; those of \<open>upd\<close> are the associativity, \<^verbatim>\<open>accessed_index\<close>,
  \<^verbatim>\<open>write_flag\<close>, \<^verbatim>\<open>set_index\<close>, state and environment.
\<close>

type_synonym 's get_replacement =
  "nat \<Rightarrow> cntlr \<Rightarrow> CacheBlockInfo list \<Rightarrow> UInt8 \<Rightarrow> IntPtr \<Rightarrow> UInt32 \<Rightarrow> 's \<Rightarrow> repl_env \<Rightarrow> (nat \<times> 's \<times> repl_env) result"

type_synonym 's upd_replacement =
  "nat \<Rightarrow> nat \<Rightarrow> UInt8 \<Rightarrow> UInt32 \<Rightarrow> 's \<Rightarrow> repl_env \<Rightarrow> ('s \<times> repl_env) result"

definition first_invalid :: "nat \<Rightarrow> CacheBlockInfo list \<Rightarrow> nat option" where
  "first_invalid assoc blocks = first_index (\<lambda>i. \<not> isValid (blocks ! i)) assoc"

lemma first_invalid_Some: "first_invalid n blocks = Some i \<Longrightarrow> i < n \<and> \<not> isValid (blocks ! i)"
  unfolding first_invalid_def by (drule first_index_Some) simp

lemma first_invalid_None: "first_invalid n blocks = None \<longleftrightarrow> (\<forall>i<n. isValid (blocks ! i))"
  by (simp add: first_invalid_def first_index_None)

locale victim_policy =
  fixes inv :: "nat \<Rightarrow> 's \<Rightarrow> bool"
    and get :: "nat \<Rightarrow> cntlr \<Rightarrow> CacheBlockInfo list \<Rightarrow> UInt8 \<Rightarrow> IntPtr \<Rightarrow> UInt32 \<Rightarrow> 's \<Rightarrow> repl_env \<Rightarrow> (nat \<times> 's \<times> repl_env) result"
    and upd :: "nat \<Rightarrow> nat \<Rightarrow> UInt8 \<Rightarrow> UInt32 \<Rightarrow> 's \<Rightarrow> repl_env \<Rightarrow> ('s \<times> repl_env) result"
  assumes get_in_set:
      "inv n s \<Longrightarrow> length blocks = n \<Longrightarrow> get n c blocks f e si s env = Inr (i, s', env') \<Longrightarrow> i < n \<and> inv n s'"
    and upd_inv:
      "inv n s \<Longrightarrow> a < n \<Longrightarrow> upd n a w si s env = Inr (s', env') \<Longrightarrow> inv n s'"

locale invalid_first_policy = victim_policy +
  assumes get_invalid:
      "inv n s \<Longrightarrow> length blocks = n \<Longrightarrow> k < n \<Longrightarrow> \<not> isValid (blocks ! k) \<Longrightarrow>
         \<exists>i s' env'. get n c blocks f e si s env = Inr (i, s', env') \<and> i < n \<and> \<not> isValid (blocks ! i)"
begin

text \<open>No valid block is evicted while the set has a free way.\<close>

lemma valid_victim_only_when_full:
  assumes "inv n s" and "length blocks = n" and "get n c blocks f e si s env = Inr (i, s', env')"
    and "isValid (blocks ! i)"
  shows "\<forall>b\<in>set blocks. isValid b"
proof (rule ccontr)
  assume "\<not> ?thesis"
  then obtain k where "k < n" "\<not> isValid (blocks ! k)" using assms(2) by (auto simp: in_set_conv_nth)
  from get_invalid [OF assms(1,2) this, of c f e si env] assms(3,4) show False by auto
qed

end

section \<open>CacheSetLRU\<close>

record CacheSetLRU =
  ls_num_attempts :: UInt8
  ls_lru_bits :: "UInt8 list"

definition CacheSetLRU_create :: "nat \<Rightarrow> UInt8 \<Rightarrow> CacheSetLRU" where
  "CacheSetLRU_create assoc num_attempts =
     \<lparr>ls_num_attempts = num_attempts, ls_lru_bits = lru_init assoc\<rparr>"

definition CacheSetLRU_getReplacementIndex :: "CacheSetLRU get_replacement" where
  "CacheSetLRU_getReplacementIndex assoc cntlr blocks l3_hit_flag eip set_index s env =
     (case first_invalid assoc blocks of
        Some i \<Rightarrow> Inr (i, s\<lparr>ls_lru_bits := moveToMRU assoc i (ls_lru_bits s)\<rparr>, env)
      | None \<Rightarrow>
          bindR (qbs_attempts (unat (ls_num_attempts s)) 0 assoc cntlr blocks
                   (\<lambda>bits. lru_scan (isValidReplacement blocks) bits 0 assoc) (ls_lru_bits s) env)
            (\<lambda>(found, bits, env).
             case found of
               None \<Rightarrow> Inl (LogError ''Should not reach here'')
             | Some (index, attempt) \<Rightarrow>
                 bindR (set_info_op (CacheSetInfoLRU_incrementAttempt attempt) env) (\<lambda>env.
                 Inr (index, s\<lparr>ls_lru_bits := moveToMRU assoc index bits\<rparr>, env))))"

text \<open>
  The body of \<^verbatim>\<open>if(write_flag==1)\<close> is commented out, so the call of \<^verbatim>\<open>increment\<close> on the next line is
  what the condition guards.
\<close>

definition CacheSetLRU_updateReplacementIndex :: "CacheSetLRU upd_replacement" where
  "CacheSetLRU_updateReplacementIndex assoc accessed_index write_flag set_index s env =
     bindR (if write_flag = 1
            then set_info_op (CacheSetInfoLRU_increment (unat (ls_lru_bits s ! accessed_index))) env
            else Inr env) (\<lambda>env.
     Inr (s\<lparr>ls_lru_bits := moveToMRU assoc accessed_index (ls_lru_bits s)\<rparr>, env))"

section \<open>CacheSetLRUNEW\<close>

text \<open>The class repeats \<^verbatim>\<open>CacheSetLRU\<close>; its \<^verbatim>\<open>updateReplacementIndex\<close> counts every access.\<close>

definition CacheSetLRUNEW_create :: "nat \<Rightarrow> UInt8 \<Rightarrow> CacheSetLRU" where
  "CacheSetLRUNEW_create assoc num_attempts =
     \<lparr>ls_num_attempts = num_attempts, ls_lru_bits = lru_init assoc\<rparr>"

definition CacheSetLRUNEW_getReplacementIndex :: "CacheSetLRU get_replacement" where
  "CacheSetLRUNEW_getReplacementIndex assoc cntlr blocks l3_hit_flag eip set_index s env =
     (case first_invalid assoc blocks of
        Some i \<Rightarrow> Inr (i, s\<lparr>ls_lru_bits := moveToMRU assoc i (ls_lru_bits s)\<rparr>, env)
      | None \<Rightarrow>
          bindR (qbs_attempts (unat (ls_num_attempts s)) 0 assoc cntlr blocks
                   (\<lambda>bits. lru_scan (isValidReplacement blocks) bits 0 assoc) (ls_lru_bits s) env)
            (\<lambda>(found, bits, env).
             case found of
               None \<Rightarrow> Inl (LogError ''Should not reach here'')
             | Some (index, attempt) \<Rightarrow>
                 bindR (set_info_op (CacheSetInfoLRU_incrementAttempt attempt) env) (\<lambda>env.
                 Inr (index, s\<lparr>ls_lru_bits := moveToMRU assoc index bits\<rparr>, env))))"

definition CacheSetLRUNEW_updateReplacementIndex :: "CacheSetLRU upd_replacement" where
  "CacheSetLRUNEW_updateReplacementIndex assoc accessed_index write_flag set_index s env =
     bindR (set_info_op (CacheSetInfoLRU_increment (unat (ls_lru_bits s ! accessed_index))) env) (\<lambda>env.
     Inr (s\<lparr>ls_lru_bits := moveToMRU assoc accessed_index (ls_lru_bits s)\<rparr>, env))"

section \<open>CacheSetLRUL2\<close>

record CacheSetLRULoop = CacheSetLRU +
  ls_loop_bit :: "UInt8 list"

definition CacheSetLRUL2_create :: "nat \<Rightarrow> UInt8 \<Rightarrow> CacheSetLRULoop" where
  "CacheSetLRUL2_create assoc num_attempts =
     \<lparr>ls_num_attempts = num_attempts, ls_lru_bits = lru_init assoc, ls_loop_bit = replicate assoc 0\<rparr>"

text \<open>The loop bit of the victim is published, then set from \<^verbatim>\<open>l3_hit_flag\<close> when that is 0 or 1.\<close>

definition l2_exchange_loop_bit ::
  "UInt8 \<Rightarrow> nat \<Rightarrow> CacheSetLRULoop \<Rightarrow> repl_env \<Rightarrow> CacheSetLRULoop \<times> repl_env" where
  "l2_exchange_loop_bit l3_hit_flag i s env =
     (let env' = env\<lparr>re_loop_bit_writeback := ls_loop_bit s ! i\<rparr>
      in if l3_hit_flag = 0 then (s\<lparr>ls_loop_bit := (ls_loop_bit s)[i := 0]\<rparr>, env')
         else if l3_hit_flag = 1 then (s\<lparr>ls_loop_bit := (ls_loop_bit s)[i := 1]\<rparr>, env')
         else (s, env'))"

definition CacheSetLRUL2_getReplacementIndex :: "CacheSetLRULoop get_replacement" where
  "CacheSetLRUL2_getReplacementIndex assoc cntlr blocks l3_hit_flag eip set_index s env =
     (case first_invalid assoc blocks of
        Some i \<Rightarrow>
          Inr (i, l2_exchange_loop_bit l3_hit_flag i
                    (s\<lparr>ls_lru_bits := moveToMRU assoc i (ls_lru_bits s)\<rparr>) env)
      | None \<Rightarrow>
          bindR (qbs_attempts (unat (ls_num_attempts s)) 0 assoc cntlr blocks
                   (\<lambda>bits. lru_scan (isValidReplacement blocks) bits 0 assoc) (ls_lru_bits s) env)
            (\<lambda>(found, bits, env).
             case found of
               None \<Rightarrow> Inl (LogError ''Should not reach here'')
             | Some (index, attempt) \<Rightarrow>
                 bindR (set_info_op (CacheSetInfoLRU_incrementAttempt attempt) env) (\<lambda>env.
                 Inr (index, l2_exchange_loop_bit l3_hit_flag index
                               (s\<lparr>ls_lru_bits := moveToMRU assoc index bits\<rparr>) env))))"

definition CacheSetLRUL2_updateReplacementIndex :: "CacheSetLRULoop upd_replacement" where
  "CacheSetLRUL2_updateReplacementIndex assoc accessed_index write_flag set_index s env =
     (let s = (if write_flag = 1 then s\<lparr>ls_loop_bit := (ls_loop_bit s)[accessed_index := 0]\<rparr> else s)
      in bindR (set_info_op (CacheSetInfoLRU_increment (unat (ls_lru_bits s ! accessed_index))) env) (\<lambda>env.
         Inr (s\<lparr>ls_lru_bits := moveToMRU assoc accessed_index (ls_lru_bits s)\<rparr>, env)))"

section \<open>CacheSetLRUL3\<close>

definition CacheSetLRUL3_create :: "nat \<Rightarrow> UInt8 \<Rightarrow> CacheSetLRULoop" where
  "CacheSetLRUL3_create assoc num_attempts =
     \<lparr>ls_num_attempts = num_attempts, ls_lru_bits = lru_init assoc, ls_loop_bit = replicate assoc 0\<rparr>"

text \<open>The second retry loop, reached when the first one runs out of attempts.\<close>

definition CacheSetLRUL3_loop_pass :: "CacheSetLRULoop get_replacement" where
  "CacheSetLRUL3_loop_pass assoc cntlr blocks l3_hit_flag eip set_index s env =
     bindR (qbs_attempts (unat (ls_num_attempts s)) 0 assoc cntlr blocks
              (\<lambda>bits. lru_scan (isValidReplacement blocks) bits 0 assoc) (ls_lru_bits s) env)
       (\<lambda>(found, bits, env).
        case found of
          None \<Rightarrow> Inl (LogError ''Should not reach here'')
        | Some (index, attempt) \<Rightarrow>
            bindR (set_info_op (CacheSetInfoLRU_incrementAttempt attempt) env) (\<lambda>env.
            Inr (index, s\<lparr>ls_lru_bits := moveToMRU assoc index bits,
                           ls_loop_bit := (ls_loop_bit s)[index := 0]\<rparr>, env)))"

definition CacheSetLRUL3_getReplacementIndex :: "CacheSetLRULoop get_replacement" where
  "CacheSetLRUL3_getReplacementIndex assoc cntlr blocks l3_hit_flag eip set_index s env =
     (case first_invalid assoc blocks of
        Some i \<Rightarrow>
          Inr (i, s\<lparr>ls_lru_bits := moveToMRU assoc i (ls_lru_bits s),
                    ls_loop_bit := (ls_loop_bit s)[i := 0]\<rparr>, env)
      | None \<Rightarrow>
          bindR (qbs_attempts (unat (ls_num_attempts s)) 0 assoc cntlr blocks
                   (\<lambda>bits. lru_scan (\<lambda>i. isValidReplacement blocks i \<and> ls_loop_bit s ! i = 0) bits 0 assoc)
                   (ls_lru_bits s) env)
            (\<lambda>(found, bits, env).
             case found of
               None \<Rightarrow>
                 CacheSetLRUL3_loop_pass assoc cntlr blocks l3_hit_flag eip set_index (s\<lparr>ls_lru_bits := bits\<rparr>) env
             | Some (index, attempt) \<Rightarrow>
                 bindR (set_info_op (CacheSetInfoLRU_incrementAttempt attempt) env) (\<lambda>env.
                 Inr (index, s\<lparr>ls_lru_bits := moveToMRU assoc index bits\<rparr>, env))))"

definition CacheSetLRUL3_updateReplacementIndex :: "CacheSetLRULoop upd_replacement" where
  "CacheSetLRUL3_updateReplacementIndex assoc accessed_index write_flag set_index s env =
     bindR (set_info_op (CacheSetInfoLRU_increment (unat (ls_lru_bits s ! accessed_index))) env) (\<lambda>env.
     Inr (s\<lparr>ls_lru_bits := moveToMRU assoc accessed_index (ls_lru_bits s)\<rparr>, env))"

definition CacheSetLRUL3_updateLoopBitPolicy :: "nat \<Rightarrow> UInt8 \<Rightarrow> CacheSetLRULoop \<Rightarrow> CacheSetLRULoop" where
  "CacheSetLRUL3_updateLoopBitPolicy index loopbit s = s\<lparr>ls_loop_bit := (ls_loop_bit s)[index := loopbit]\<rparr>"

section \<open>CacheSetPHC\<close>

definition cost_threshold :: UInt8 where "cost_threshold = 20"
definition state_threshold :: UInt8 where "state_threshold = 2"
definition state_max :: UInt8 where "state_max = 3"
definition SRAM_ways :: nat where "SRAM_ways = 4"
definition sampler_fraction :: UInt32 where "sampler_fraction = 32"

record CacheSetPHC = CacheSetLRU +
  phc_TI :: "UInt16 list"
  phc_cost :: "UInt8 list"

definition CacheSetPHC_create :: "nat \<Rightarrow> UInt8 \<Rightarrow> CacheSetPHC" where
  "CacheSetPHC_create assoc num_attempts =
     \<lparr>ls_num_attempts = num_attempts, ls_lru_bits = lru_init assoc, phc_TI = replicate assoc 0,
      phc_cost = replicate assoc 0\<rparr>"

text \<open>
  The training of the predictor on the victim of a sampler set: its saturating state counter moves
  up or down with the cost, then the way is labelled with the new \<^verbatim>\<open>eip\<close>.
\<close>

definition phc_train :: "nat \<Rightarrow> UInt16 \<Rightarrow> CacheSetPHC \<Rightarrow> repl_env \<Rightarrow> CacheSetPHC \<times> repl_env" where
  "phc_train i eip_truncated s env =
     (let ti = unat (phc_TI s ! i);
          st = re_phc_state env ! ti;
          env' = (if phc_cost s ! i > cost_threshold \<and> st < state_max
                  then env\<lparr>re_phc_state := (re_phc_state env)[ti := st + 1]\<rparr>
                  else if phc_cost s ! i < cost_threshold \<and> st > 0
                  then env\<lparr>re_phc_state := (re_phc_state env)[ti := st - 1]\<rparr>
                  else env)
      in (s\<lparr>phc_TI := (phc_TI s)[i := eip_truncated], phc_cost := (phc_cost s)[i := 24]\<rparr>, env'))"

definition phc_sampler_replacement :: "CacheSetPHC get_replacement" where
  "phc_sampler_replacement assoc cntlr blocks l3_hit_flag eip set_index s env =
     (let eip_truncated = ucast (eip mod 256)
      in case first_invalid assoc blocks of
           Some i \<Rightarrow>
             (case phc_train i eip_truncated s env of
                (s, env) \<Rightarrow> Inr (i, s\<lparr>ls_lru_bits := moveToMRU assoc i (ls_lru_bits s)\<rparr>, env))
         | None \<Rightarrow>
             bindR (qbs_attempts (unat (ls_num_attempts s)) 0 assoc cntlr blocks
                      (\<lambda>bits. lru_scan (isValidReplacement blocks) bits 0 SRAM_ways) (ls_lru_bits s) env)
               (\<lambda>(found, bits, env).
                case found of
                  None \<Rightarrow> Inl (LogError ''Should not reach here'')
                | Some (index, attempt) \<Rightarrow>
                    (case phc_train index eip_truncated s env of
                       (s, env) \<Rightarrow>
                         bindR (set_info_op (CacheSetInfoLRU_incrementAttempt attempt) env) (\<lambda>env.
                         Inr (index, s\<lparr>ls_lru_bits := moveToMRU assoc index bits\<rparr>, env)))))"

text \<open>The free ways are searched in the preferred partition first, then in the whole set.\<close>

definition phc_free_way :: "bool \<Rightarrow> nat \<Rightarrow> CacheBlockInfo list \<Rightarrow> nat option" where
  "phc_free_way cold assoc blocks =
     (case find (\<lambda>i. \<not> isValid (blocks ! i)) (if cold then [SRAM_ways..<assoc] else [0..<SRAM_ways]) of
        Some i \<Rightarrow> Some i
      | None \<Rightarrow> first_invalid assoc blocks)"

definition phc_predicted_replacement :: "CacheSetPHC get_replacement" where
  "phc_predicted_replacement assoc cntlr blocks l3_hit_flag eip set_index s env =
     (let eip_truncated = ucast (eip mod 256) :: UInt16;
          cold = re_phc_state env ! unat eip_truncated < state_threshold
      in case phc_free_way cold assoc blocks of
           Some i \<Rightarrow> Inr (i, s\<lparr>ls_lru_bits := moveToMRU assoc i (ls_lru_bits s)\<rparr>, env)
         | None \<Rightarrow>
             bindR (qbs_attempts (unat (ls_num_attempts s)) 0 assoc cntlr blocks
                      (\<lambda>bits. if cold then lru_scan (isValidReplacement blocks) bits SRAM_ways assoc
                              else lru_scan (isValidReplacement blocks) bits 0 SRAM_ways) (ls_lru_bits s) env)
               (\<lambda>(found, bits, env).
                case found of
                  None \<Rightarrow> Inl (LogError ''Should not reach here'')
                | Some (index, attempt) \<Rightarrow>
                    bindR (set_info_op (CacheSetInfoLRU_incrementAttempt attempt) env) (\<lambda>env.
                    Inr (index, s\<lparr>ls_lru_bits := moveToMRU assoc index bits\<rparr>, env))))"

definition CacheSetPHC_getReplacementIndex :: "CacheSetPHC get_replacement" where
  "CacheSetPHC_getReplacementIndex assoc cntlr blocks l3_hit_flag eip set_index s env =
     (if set_index mod sampler_fraction = 0
      then phc_sampler_replacement assoc cntlr blocks l3_hit_flag eip set_index s env
      else phc_predicted_replacement assoc cntlr blocks l3_hit_flag eip set_index s env)"

definition CacheSetPHC_updateReplacementIndex :: "CacheSetPHC upd_replacement" where
  "CacheSetPHC_updateReplacementIndex assoc accessed_index write_flag set_index s env =
     bindR (set_info_op (CacheSetInfoLRU_increment (unat (ls_lru_bits s ! accessed_index))) env) (\<lambda>env.
     let s = s\<lparr>ls_lru_bits := moveToMRU assoc accessed_index (ls_lru_bits s)\<rparr>;
         c = phc_cost s ! accessed_index
     in Inr (if set_index mod sampler_fraction = 0
             then if write_flag = 1 then s\<lparr>phc_cost := (phc_cost s)[accessed_index := c + 24]\<rparr>
                  else if write_flag = 0 then s\<lparr>phc_cost := (phc_cost s)[accessed_index := c - 1]\<rparr>
                  else s
             else s, env))"

section \<open>The policies keep the interface\<close>

definition lru_inv :: "nat \<Rightarrow> CacheSetLRU \<Rightarrow> bool" where
  "lru_inv n s \<longleftrightarrow> lru_perm n (ls_lru_bits s)"

definition loop_inv :: "nat \<Rightarrow> CacheSetLRULoop \<Rightarrow> bool" where
  "loop_inv n s \<longleftrightarrow> lru_perm n (ls_lru_bits s) \<and> length (ls_loop_bit s) = n"

text \<open>The PHC policy indexes four SRAM ways without a test, so the set has at least four.\<close>

definition phc_inv :: "nat \<Rightarrow> CacheSetPHC \<Rightarrow> bool" where
  "phc_inv n s \<longleftrightarrow> SRAM_ways \<le> n \<and> lru_perm n (ls_lru_bits s) \<and> length (phc_TI s) = n \<and> length (phc_cost s) = n
     \<and> (\<forall>t\<in>set (phc_TI s). unat t < 256)"

lemmas perm_moved = moveToMRU_refines [THEN conjunct1]

lemma create_inv:
  "n \<le> 256 \<Longrightarrow> lru_inv n (CacheSetLRU_create n q)"
  "n \<le> 256 \<Longrightarrow> lru_inv n (CacheSetLRUNEW_create n q)"
  "n \<le> 256 \<Longrightarrow> loop_inv n (CacheSetLRUL2_create n q)"
  "n \<le> 256 \<Longrightarrow> loop_inv n (CacheSetLRUL3_create n q)"
  "4 \<le> n \<Longrightarrow> n \<le> 256 \<Longrightarrow> phc_inv n (CacheSetPHC_create n q)"
  using lru_perm_init [of n]
  by (simp_all add: lru_inv_def loop_inv_def phc_inv_def CacheSetLRU_create_def CacheSetLRUNEW_create_def
      CacheSetLRUL2_create_def CacheSetLRUL3_create_def CacheSetPHC_create_def SRAM_ways_def)

interpretation lru: invalid_first_policy lru_inv CacheSetLRU_getReplacementIndex CacheSetLRU_updateReplacementIndex
proof
  fix n s blocks c f e si env i s' env'
  assume a: "lru_inv n s" "CacheSetLRU_getReplacementIndex n c blocks f e si s env = Inr (i, s', env')"
  show "i < n \<and> lru_inv n s'"
  proof (cases "first_invalid n blocks")
    case (Some k)
    then show ?thesis using a first_invalid_Some [OF Some]
      by (auto simp: lru_inv_def CacheSetLRU_getReplacementIndex_def perm_moved)
  next
    case None
    then show ?thesis using a
      by (auto simp: lru_inv_def CacheSetLRU_getReplacementIndex_def perm_moved split: option.splits
          dest!: qbs_attempts_keeps)
  qed
next
  fix n s a w si env s' env'
  assume "lru_inv n s" "a < n" "CacheSetLRU_updateReplacementIndex n a w si s env = Inr (s', env')"
  then show "lru_inv n s'" by (auto simp: lru_inv_def CacheSetLRU_updateReplacementIndex_def perm_moved)
next
  fix n s blocks k c f e si env
  assume "lru_inv n s" "k < n" "\<not> isValid (blocks ! k)"
  then obtain j where "first_invalid n blocks = Some j" using first_invalid_None [of n blocks] by fastforce
  then show "\<exists>i s' env'. CacheSetLRU_getReplacementIndex n c blocks f e si s env = Inr (i, s', env')
      \<and> i < n \<and> \<not> isValid (blocks ! i)"
    by (simp add: CacheSetLRU_getReplacementIndex_def first_invalid_Some)
qed

interpretation lrunew: invalid_first_policy lru_inv CacheSetLRUNEW_getReplacementIndex CacheSetLRUNEW_updateReplacementIndex
proof
  fix n s blocks c f e si env i s' env'
  assume a: "lru_inv n s" "length blocks = n"
    "CacheSetLRUNEW_getReplacementIndex n c blocks f e si s env = Inr (i, s', env')"
  then show "i < n \<and> lru_inv n s'"
    using lru.get_in_set [OF a(1,2), of c f e si env i s' env']
    by (simp only: CacheSetLRU_getReplacementIndex_def CacheSetLRUNEW_getReplacementIndex_def)
next
  fix n s a w si env s' env'
  assume "lru_inv n s" "a < n" "CacheSetLRUNEW_updateReplacementIndex n a w si s env = Inr (s', env')"
  then show "lru_inv n s'" by (auto simp: lru_inv_def CacheSetLRUNEW_updateReplacementIndex_def perm_moved)
next
  fix n s blocks k c f e si env
  assume "lru_inv n s" "length blocks = n" "k < n" "\<not> isValid (blocks ! k)"
  from lru.get_invalid [OF this, of c f e si env]
  show "\<exists>i s' env'. CacheSetLRUNEW_getReplacementIndex n c blocks f e si s env = Inr (i, s', env')
      \<and> i < n \<and> \<not> isValid (blocks ! i)"
    by (simp only: CacheSetLRU_getReplacementIndex_def CacheSetLRUNEW_getReplacementIndex_def)
qed

lemma first_invalid_exists: "k < n \<Longrightarrow> \<not> isValid (blocks ! k) \<Longrightarrow> \<exists>j. first_invalid n blocks = Some j"
  using first_invalid_None [of n blocks] by fastforce

lemma l2_exchange_bits [simp]:
  "ls_lru_bits (fst (l2_exchange_loop_bit f i s env)) = ls_lru_bits s"
  "length (ls_loop_bit (fst (l2_exchange_loop_bit f i s env))) = length (ls_loop_bit s)"
  by (simp_all add: l2_exchange_loop_bit_def Let_def)

interpretation lrul2: invalid_first_policy loop_inv CacheSetLRUL2_getReplacementIndex CacheSetLRUL2_updateReplacementIndex
proof
  fix n s blocks c f e si env i s' env'
  assume a: "loop_inv n s" "CacheSetLRUL2_getReplacementIndex n c blocks f e si s env = Inr (i, s', env')"
  show "i < n \<and> loop_inv n s'"
  proof (cases "first_invalid n blocks")
    case (Some k)
    then have "i = k" "s' = fst (l2_exchange_loop_bit f k (s\<lparr>ls_lru_bits := moveToMRU n k (ls_lru_bits s)\<rparr>) env)"
      using a by (auto simp: CacheSetLRUL2_getReplacementIndex_def dest: arg_cong [where f = fst])
    then show ?thesis using a first_invalid_Some [OF Some] by (simp add: loop_inv_def perm_moved)
  next
    case None
    with a obtain attempt bits e1 e2 where
      q: "qbs_attempts (unat (ls_num_attempts s)) 0 n c blocks
        (\<lambda>bits. lru_scan (isValidReplacement blocks) bits 0 n) (ls_lru_bits s) env = Inr (Some (i, attempt), bits, e1)"
      and "l2_exchange_loop_bit f i (s\<lparr>ls_lru_bits := moveToMRU n i bits\<rparr>) e2 = (s', env')"
      by (auto simp: CacheSetLRUL2_getReplacementIndex_def split: option.splits)
    then have "s' = fst (l2_exchange_loop_bit f i (s\<lparr>ls_lru_bits := moveToMRU n i bits\<rparr>) e2)" by simp
    then show ?thesis using a(1) qbs_attempts_keeps [OF q] by (simp add: loop_inv_def perm_moved)
  qed
next
  fix n s a w si env s' env'
  assume "loop_inv n s" "a < n" "CacheSetLRUL2_updateReplacementIndex n a w si s env = Inr (s', env')"
  then show "loop_inv n s'" by (auto simp: loop_inv_def CacheSetLRUL2_updateReplacementIndex_def perm_moved Let_def)
next
  fix n s blocks k c f e si env
  assume "k < n" "\<not> isValid (blocks ! k)"
  from first_invalid_exists [OF this] obtain j where j: "first_invalid n blocks = Some j" ..
  then show "\<exists>i s' env'. CacheSetLRUL2_getReplacementIndex n c blocks f e si s env = Inr (i, s', env')
      \<and> i < n \<and> \<not> isValid (blocks ! i)"
    using first_invalid_Some [OF j]
    by (cases "l2_exchange_loop_bit f j (s\<lparr>ls_lru_bits := moveToMRU n j (ls_lru_bits s)\<rparr>) env")
      (simp add: CacheSetLRUL2_getReplacementIndex_def)
qed

lemma lrul3_loop_pass_inv:
  "CacheSetLRUL3_loop_pass n c blocks f e si s env = Inr (i, s', env') \<Longrightarrow> loop_inv n s \<Longrightarrow> i < n \<and> loop_inv n s'"
  by (auto simp: loop_inv_def CacheSetLRUL3_loop_pass_def perm_moved split: option.splits dest!: qbs_attempts_keeps)

interpretation lrul3: invalid_first_policy loop_inv CacheSetLRUL3_getReplacementIndex CacheSetLRUL3_updateReplacementIndex
proof
  fix n s blocks c f e si env i s' env'
  assume a: "loop_inv n s" "CacheSetLRUL3_getReplacementIndex n c blocks f e si s env = Inr (i, s', env')"
  show "i < n \<and> loop_inv n s'"
  proof (cases "first_invalid n blocks")
    case (Some k)
    then show ?thesis using a first_invalid_Some [OF Some]
      by (auto simp: loop_inv_def CacheSetLRUL3_getReplacementIndex_def perm_moved)
  next
    case None
    then show ?thesis using a
      by (auto simp: loop_inv_def CacheSetLRUL3_getReplacementIndex_def perm_moved split: option.splits
          dest!: qbs_attempts_keeps dest: lrul3_loop_pass_inv [unfolded loop_inv_def])
  qed
next
  fix n s a w si env s' env'
  assume "loop_inv n s" "a < n" "CacheSetLRUL3_updateReplacementIndex n a w si s env = Inr (s', env')"
  then show "loop_inv n s'" by (auto simp: loop_inv_def CacheSetLRUL3_updateReplacementIndex_def perm_moved)
next
  fix n s blocks k c f e si env
  assume "k < n" "\<not> isValid (blocks ! k)"
  from first_invalid_exists [OF this] obtain j where j: "first_invalid n blocks = Some j" ..
  then show "\<exists>i s' env'. CacheSetLRUL3_getReplacementIndex n c blocks f e si s env = Inr (i, s', env')
      \<and> i < n \<and> \<not> isValid (blocks ! i)"
    using first_invalid_Some [OF j] by (simp add: CacheSetLRUL3_getReplacementIndex_def)
qed

text \<open>The predictor table: 256 counters that saturate at \<^verbatim>\<open>state_max\<close>.\<close>

definition phc_table_ok :: "repl_env \<Rightarrow> bool" where
  "phc_table_ok env \<longleftrightarrow> length (re_phc_state env) = 256 \<and> (\<forall>st\<in>set (re_phc_state env). st \<le> state_max)"

lemma eip_truncated_less: "unat (ucast ((eip :: IntPtr) mod 256) :: UInt16) < 256"
proof -
  have "unat (eip mod 256) = unat eip mod 256" by (simp add: unat_mod_distrib)
  then show ?thesis by (simp add: unsigned_ucast_eq take_bit_nat_eq_self)
qed

lemma phc_train_inv:
  assumes "phc_inv n s" and "i < n" and "unat t < 256" and "phc_train i t s env = (s', env')"
  shows "phc_inv n s' \<and> ls_lru_bits s' = ls_lru_bits s \<and> re_set_info env' = re_set_info env"
proof -
  have s': "s' = s\<lparr>phc_TI := (phc_TI s)[i := t], phc_cost := (phc_cost s)[i := 24]\<rparr>"
    and env': "re_set_info env' = re_set_info env"
    using assms(4) by (auto simp: phc_train_def Let_def split: if_splits)
  have "\<forall>x\<in>set ((phc_TI s)[i := t]). unat x < 256"
    using assms(1,3) set_update_subset_insert [of "phc_TI s" i t] by (auto simp: phc_inv_def)
  with s' env' assms(1) show ?thesis by (simp add: phc_inv_def)
qed

lemma state_step:
  "st < state_max \<Longrightarrow> st + 1 \<le> state_max" "0 < st \<Longrightarrow> st \<le> state_max \<Longrightarrow> st - 1 \<le> state_max"
proof -
  show "st + 1 \<le> state_max" if "st < state_max"
    using that by (simp add: state_max_def word_le_nat_alt word_less_nat_alt unat_word_Suc)
  show "st - 1 \<le> state_max" if "0 < st" "st \<le> state_max"
    using that by (auto simp: word_le_nat_alt word_less_nat_alt unat_minus_one unat_gt_0)
qed

lemma phc_train_table:
  assumes "phc_table_ok env" and "phc_train i t s env = (s', env')" and "unat (phc_TI s ! i) < 256"
  shows "phc_table_ok env'"
proof -
  let ?ti = "unat (phc_TI s ! i)"
  let ?st = "re_phc_state env ! ?ti"
  have st: "?st \<le> state_max" using assms(1,3) by (simp add: phc_table_ok_def)
  have "re_phc_state env' = re_phc_state env \<or>
      (\<exists>v. v \<le> state_max \<and> re_phc_state env' = (re_phc_state env)[?ti := v])"
    using assms(2) st state_step [of ?st]
    by (auto simp: phc_train_def Let_def split: if_splits)
  then show ?thesis using assms(1) set_update_subset_insert [of "re_phc_state env" ?ti]
    by (fastforce simp: phc_table_ok_def)
qed

lemma find_invalid_in:
  "find (\<lambda>i. \<not> isValid (blocks ! i)) xs = Some i \<Longrightarrow> set xs \<subseteq> {..<n} \<Longrightarrow> i < n \<and> \<not> isValid (blocks ! i)"
  using nth_mem by (fastforce simp: find_Some_iff)

lemma phc_free_way_Some:
  assumes "phc_free_way cold n blocks = Some i" and "SRAM_ways \<le> n"
  shows "i < n \<and> \<not> isValid (blocks ! i)"
proof -
  let ?xs = "if cold then [SRAM_ways..<n] else [0..<SRAM_ways]"
  have sub: "set ?xs \<subseteq> {..<n}" using assms(2) by auto
  show ?thesis
  proof (cases "find (\<lambda>i. \<not> isValid (blocks ! i)) ?xs")
    case None
    then have "first_invalid n blocks = Some i" using assms(1) by (simp add: phc_free_way_def)
    then show ?thesis by (rule first_invalid_Some)
  next
    case (Some k)
    then show ?thesis using assms(1) find_invalid_in [OF Some sub] by (simp add: phc_free_way_def)
  qed
qed

lemma phc_sampler_inv:
  assumes "phc_inv n s" and "phc_sampler_replacement n c blocks f e si s env = Inr (i, s', env')"
  shows "i < n \<and> phc_inv n s'"
proof (cases "first_invalid n blocks")
  case (Some k)
  obtain s1 e1 where t: "phc_train k (ucast (e mod 256)) s env = (s1, e1)" by fastforce
  with phc_train_inv [OF assms(1) _ eip_truncated_less t] Some assms show ?thesis
    using first_invalid_Some [OF Some] by (auto simp: phc_sampler_replacement_def phc_inv_def perm_moved)
next
  case None
  with assms(2) obtain attempt bits e1 s1 e2 where
    q: "qbs_attempts (unat (ls_num_attempts s)) 0 n c blocks
      (\<lambda>bits. lru_scan (isValidReplacement blocks) bits 0 SRAM_ways) (ls_lru_bits s) env = Inr (Some (i, attempt), bits, e1)"
    and t: "phc_train i (ucast (e mod 256)) s e1 = (s1, e2)" and s': "s' = s1\<lparr>ls_lru_bits := moveToMRU n i bits\<rparr>"
    by (auto simp: phc_sampler_replacement_def Let_def split: option.splits prod.splits) (metis surj_pair)
  have "lru_perm n bits" "i < n" using qbs_attempts_keeps [OF q] assms(1) by (simp_all add: phc_inv_def)
  with phc_train_inv [OF assms(1) _ eip_truncated_less t] s' show ?thesis by (simp add: phc_inv_def perm_moved)
qed

lemma phc_predicted_inv:
  assumes "phc_inv n s" and "phc_predicted_replacement n c blocks f e si s env = Inr (i, s', env')"
  shows "i < n \<and> phc_inv n s'"
  using assms phc_free_way_Some
  by (auto simp: phc_predicted_replacement_def Let_def phc_inv_def perm_moved split: option.splits
      dest!: qbs_attempts_keeps)

interpretation phc: invalid_first_policy phc_inv CacheSetPHC_getReplacementIndex CacheSetPHC_updateReplacementIndex
proof
  fix n s blocks c f e si env i s' env'
  assume "phc_inv n s" "CacheSetPHC_getReplacementIndex n c blocks f e si s env = Inr (i, s', env')"
  then show "i < n \<and> phc_inv n s'"
    by (auto simp: CacheSetPHC_getReplacementIndex_def split: if_splits dest: phc_sampler_inv phc_predicted_inv)
next
  fix n s a w si env s' env'
  assume "phc_inv n s" "a < n" "CacheSetPHC_updateReplacementIndex n a w si s env = Inr (s', env')"
  then show "phc_inv n s'"
    by (auto simp: phc_inv_def CacheSetPHC_updateReplacementIndex_def perm_moved Let_def split: if_splits)
next
  fix n s blocks k c f si and e :: IntPtr and env :: repl_env
  assume a: "phc_inv n s" "k < n" "\<not> isValid (blocks ! k)"
  from first_invalid_exists [OF a(2,3)] obtain j where j: "first_invalid n blocks = Some j" ..
  obtain j' where j': "phc_free_way (re_phc_state env ! unat (ucast (e mod 256) :: UInt16) < state_threshold) n blocks = Some j'"
    using j by (cases "find (\<lambda>i. \<not> isValid (blocks ! i))
      (if re_phc_state env ! unat (ucast (e mod 256) :: UInt16) < state_threshold then [SRAM_ways..<n] else [0..<SRAM_ways])")
      (auto simp: phc_free_way_def)
  show "\<exists>i s' env'. CacheSetPHC_getReplacementIndex n c blocks f e si s env = Inr (i, s', env')
      \<and> i < n \<and> \<not> isValid (blocks ! i)"
    using a(1) j j' first_invalid_Some [OF j] phc_free_way_Some [OF j']
    by (cases "phc_train j (ucast (e mod 256)) s env")
      (auto simp: CacheSetPHC_getReplacementIndex_def phc_sampler_replacement_def phc_predicted_replacement_def
        Let_def phc_inv_def)
qed

section \<open>LRU replacement\<close>

text \<open>
  \<open>attempts_ready\<close>: the environment can take the statistics of an attempt. \<open>qbs_ready\<close>: there is at
  least one attempt, and a controller to ask when there are several.
\<close>

definition attempts_ready :: "UInt8 \<Rightarrow> repl_env \<Rightarrow> bool" where
  "attempts_ready num env \<longleftrightarrow>
     (\<exists>si. re_set_info env = Some si \<and> (case si_attempts si of Some h \<Rightarrow> True | None \<Rightarrow> num \<le> 1))"

definition qbs_ready :: "UInt8 \<Rightarrow> cntlr \<Rightarrow> repl_env \<Rightarrow> bool" where
  "qbs_ready num cntlr env \<longleftrightarrow> 0 < num \<and> (1 < num \<longrightarrow> cntlr \<noteq> None) \<and> attempts_ready num env"

lemma incrementAttempt_ready:
  assumes "attempts_ready num env" and "k < unat num" and "re_set_info env' = re_set_info env"
  shows "\<exists>env''. set_info_op (CacheSetInfoLRU_incrementAttempt k) env' = Inr env''"
proof -
  obtain si where si: "re_set_info env' = Some si" "si_attempts si = None \<Longrightarrow> num \<le> 1"
    using assms(1,3) by (auto simp: attempts_ready_def split: option.splits)
  have "k = 0" if "num \<le> 1" using that assms(2) by (simp add: word_le_nat_alt)
  then show ?thesis using si
    by (cases "si_attempts si") (auto simp: set_info_op_def CacheSetInfoLRU_incrementAttempt_def)
qed

text \<open>The abstract choice: the last way of the recency list that is a candidate.\<close>

definition lru_choice :: "(nat \<Rightarrow> bool) \<Rightarrow> nat list \<Rightarrow> nat option" where
  "lru_choice cand r = find cand (rev r)"

lemma lru_scan_choice:
  assumes perm: "lru_perm n bits" and choice: "lru_choice cand (recency bits) = Some v" and "0 < bits ! v"
  shows "lru_scan cand bits 0 n = v"
proof -
  let ?r = "recency bits"
  have len: "length ?r = n" using perm by (simp add: lru_perm_def)
  obtain k where k: "k < n" "cand v" "v = rev ?r ! k" "\<forall>j<k. \<not> cand (rev ?r ! j)"
    using choice len by (auto simp: lru_choice_def find_Some_iff)
  have v: "v = ?r ! (n - Suc k)" using k len by (simp add: rev_nth)
  have vn: "v < n" using v k(1) len nth_mem [of "n - Suc k" ?r] perm by (simp add: lru_perm_def)
  let ?w = "lru_scan cand bits 0 n"
  have w: "?w < n" "cand ?w" "unat (bits ! v) \<le> unat (bits ! ?w)"
    using lru_scan_max [of v 0 n cand bits] vn k(2) assms(3) by (auto simp: word_le_nat_alt)
  obtain m where m: "m < n" "?w = ?r ! m"
    using w(1) set_recency [of bits] perm len by (metis in_set_conv_nth lessThan_iff lru_perm_def)
  have "m \<le> n - Suc k"
  proof (rule ccontr)
    assume "\<not> m \<le> n - Suc k"
    then have "n - Suc m < k" using m(1) by arith
    moreover have "rev ?r ! (n - Suc m) = ?w" using m len by (simp add: rev_nth)
    ultimately show False using k(4) w(2) by metis
  qed
  moreover have "\<not> m < n - Suc k"
    using recency_order [OF perm, of m "n - Suc k"] k(1) w(3) v m by auto
  ultimately have "m = n - Suc k" by simp
  with m(2) v show ?thesis by simp
qed

lemma find_mem: "find P xs = Some v \<Longrightarrow> v \<in> set xs"
  by (induction xs) (auto split: if_splits)

lemma lru_scan_recency:
  assumes perm: "lru_perm n bits" and "0 < n"
  shows "lru_scan cand bits 0 n = (case find cand (rev (tl (recency bits))) of Some v \<Rightarrow> v | None \<Rightarrow> 0)"
proof -
  let ?r = "recency bits"
  have len: "length ?r = n" using perm by (simp add: lru_perm_def)
  have pos: "unat (bits ! (?r ! k)) = k" if "k < n" for k
    using arg_cong [OF map_recency [OF perm], of "\<lambda>l. l ! k"] that len by simp
  have r: "?r = hd ?r # tl ?r" using len assms(2) by (cases ?r) simp_all
  show ?thesis
  proof (cases "find cand (rev (tl ?r))")
    case None
    have "bits ! j = 0" if "j < n" "cand j" for j
    proof -
      have "j \<in> set ?r" using that(1) perm by (simp add: lru_perm_def)
      moreover have "j \<notin> set (tl ?r)" using None that(2) by (auto simp: find_None_iff)
      ultimately have "j = ?r ! 0" using r by (metis nth_Cons_0 set_ConsD)
      then show ?thesis using pos [of 0] assms(2) by (simp add: unat_eq_0)
    qed
    then have "lru_scan cand bits 0 n = 0" by (intro lru_scan_fallback) auto
    with None show ?thesis by simp
  next
    case (Some v)
    then have "lru_choice cand ?r = Some v"
    proof -
      have "rev ?r = rev (tl ?r) @ [hd ?r]" by (subst r) (rule rev.simps(2))
      then show ?thesis using Some by (simp add: lru_choice_def find_append)
    qed
    moreover have "0 < bits ! v"
    proof -
      have "v \<in> set (tl ?r)" using find_mem [OF Some] by simp
      then obtain m where m: "m < length (tl ?r)" "v = tl ?r ! m" by (auto simp: in_set_conv_nth)
      then have "v = ?r ! Suc m" "Suc m < n" using len by (simp_all add: nth_tl)
      with pos [of "Suc m"] show ?thesis by (simp add: word_less_nat_alt)
    qed
    ultimately show ?thesis using lru_scan_choice [OF perm] Some by simp
  qed
qed

text \<open>
  The abstract policy works on the recency list alone. A victim is the last candidate that is not
  the most recently used way, or way 0; a rejected victim moves to the front and the next attempt
  starts, the last attempt is always accepted. The result has the victim, the number of rejections
  and the new list.
\<close>

definition lru_victim :: "(nat \<Rightarrow> bool) \<Rightarrow> nat list \<Rightarrow> nat" where
  "lru_victim cand r = (case find cand (rev (tl r)) of Some v \<Rightarrow> v | None \<Rightarrow> 0)"

primrec lru_spec :: "nat \<Rightarrow> (nat \<Rightarrow> bool) \<Rightarrow> (nat \<Rightarrow> bool) \<Rightarrow> nat list \<Rightarrow> nat \<times> nat \<times> nat list" where
  "lru_spec 0 cand rejected r = (lru_victim cand r, 0, lru_victim cand r # remove1 (lru_victim cand r) r)"
| "lru_spec (Suc retries) cand rejected r =
     (let v = lru_victim cand r; r' = v # remove1 v r
      in if rejected v
         then (case lru_spec retries cand rejected r' of (i, k, r'') \<Rightarrow> (i, Suc k, r''))
         else (v, 0, r'))"

lemma lru_scan_victim:
  "lru_perm n bits \<Longrightarrow> 0 < n \<Longrightarrow> lru_scan cand bits 0 n = lru_victim cand (recency bits)"
  by (simp add: lru_scan_recency lru_victim_def)

lemma qbs_attempts_spec:
  assumes "lru_perm n bits" and "0 < n" and "retries = 0 \<or> cntlr = Some lower"
    and "lru_spec retries cand (\<lambda>v. lower (blocks ! v)) (recency bits) = (i, k, r)"
  shows "\<exists>bits'. qbs_attempts (Suc retries) attempt n cntlr blocks (\<lambda>b. lru_scan cand b 0 n) bits env =
      Inr (Some (i, attempt + k), bits', env\<lparr>re_qbs_lookups := re_qbs_lookups env + k\<rparr>)
      \<and> i < n \<and> k \<le> retries \<and> lru_perm n bits' \<and> i # remove1 i (recency bits') = r"
  using assms(1,3,4)
proof (induction retries arbitrary: attempt bits env k)
  case 0
  moreover have "lru_victim cand (recency bits) < n"
    using lru_scan_less [OF assms(2) order_refl, of cand bits 0] lru_scan_victim [OF "0.prems"(1) assms(2)] by simp
  ultimately show ?case using assms(2) by (auto simp: Let_def lru_scan_victim)
next
  case (Suc retries)
  let ?v = "lru_victim cand (recency bits)"
  have v: "lru_scan cand bits 0 n = ?v" "?v < n" "cntlr = Some lower"
    using Suc.prems assms(2) lru_scan_less [OF assms(2) order_refl, of cand bits 0] lru_scan_victim [of n bits cand]
    by simp_all
  show ?case
  proof (cases "lower (blocks ! ?v)")
    case False
    then have "i = ?v" "k = 0" "r = ?v # remove1 ?v (recency bits)" using Suc.prems(3) by (auto simp: Let_def)
    moreover have "qbs_attempts (Suc (Suc retries)) attempt n cntlr blocks (\<lambda>b. lru_scan cand b 0 n) bits env =
        Inr (Some (?v, attempt), bits, env)"
      using False v by (simp add: Let_def)
    ultimately show ?thesis using v(2) Suc.prems(1) by simp
  next
    case True
    let ?b = "moveToMRU n ?v bits" and ?e = "env\<lparr>re_qbs_lookups := re_qbs_lookups env + 1\<rparr>"
    have moved: "lru_perm n ?b" "recency ?b = ?v # remove1 ?v (recency bits)"
      using moveToMRU_refines [OF Suc.prems(1) v(2)] by simp_all
    obtain k' where k': "k = Suc k'" "lru_spec retries cand (\<lambda>v. lower (blocks ! v)) (recency ?b) = (i, k', r)"
      using True Suc.prems(3) moved(2) by (auto simp: Let_def split: prod.splits)
    have step: "qbs_attempts (Suc (Suc retries)) attempt n cntlr blocks (\<lambda>b. lru_scan cand b 0 n) bits env =
        qbs_attempts (Suc retries) (Suc attempt) n cntlr blocks (\<lambda>b. lru_scan cand b 0 n) ?b ?e"
      by (subst qbs_attempts.simps(2)) (simp add: True v Let_def del: qbs_attempts.simps)
    from Suc.IH [OF moved(1) _ k'(2), of "Suc attempt" ?e] v(3)
    show ?thesis unfolding step by (auto simp: k'(1) simp del: qbs_attempts.simps)
  qed
qed

text \<open>
  C7: \<^verbatim>\<open>CacheSetLRU\<close> refines true LRU with query-based selection. On a set without a free way
  \<^verbatim>\<open>getReplacementIndex\<close> always returns, and victim, number of rejected attempts and the new
  recency order are exactly those of the abstract policy \<open>lru_spec\<close> on the recency list.
\<close>

theorem CacheSetLRU_refines_lru:
  assumes "lru_inv n s" and "0 < n" and "length blocks = n" and "\<forall>b\<in>set blocks. isValid b"
    and "qbs_ready (ls_num_attempts s) cntlr env"
    and "lru_spec (unat (ls_num_attempts s) - 1) (isValidReplacement blocks) (\<lambda>v. the cntlr (blocks ! v))
           (recency (ls_lru_bits s)) = (i, k, r)"
  shows "\<exists>s' env'. CacheSetLRU_getReplacementIndex n cntlr blocks flag eip set_index s env = Inr (i, s', env')
    \<and> i < n \<and> lru_inv n s' \<and> recency (ls_lru_bits s') = r \<and> re_qbs_lookups env' = re_qbs_lookups env + k"
proof -
  let ?num = "unat (ls_num_attempts s)"
  have none: "first_invalid n blocks = None" using assms(3,4) by (simp add: first_invalid_None)
  have num: "0 < ?num" "1 < ?num \<longrightarrow> cntlr \<noteq> None" and ready: "attempts_ready (ls_num_attempts s) env"
    using assms(5) by (auto simp: qbs_ready_def word_less_nat_alt)
  have "?num - 1 = 0 \<or> cntlr = Some (the cntlr)" using num(2) by auto
  from qbs_attempts_spec [OF assms(1) [unfolded lru_inv_def] assms(2) this assms(6), of 0 env] num(1)
  obtain bits where q: "qbs_attempts ?num 0 n cntlr blocks (\<lambda>b. lru_scan (isValidReplacement blocks) b 0 n)
      (ls_lru_bits s) env = Inr (Some (i, k), bits, env\<lparr>re_qbs_lookups := re_qbs_lookups env + k\<rparr>)"
    "i < n" "k < ?num" "lru_perm n bits" "i # remove1 i (recency bits) = r" by auto
  obtain env2 where env2:
    "set_info_op (CacheSetInfoLRU_incrementAttempt k) (env\<lparr>re_qbs_lookups := re_qbs_lookups env + k\<rparr>) = Inr env2"
    using incrementAttempt_ready [OF ready q(3)] by fastforce
  then have "re_qbs_lookups env2 = re_qbs_lookups env + k"
    by (auto simp: set_info_op_def split: option.splits)
  with none q env2 moveToMRU_refines [OF q(4,2)] show ?thesis
    by (simp add: CacheSetLRU_getReplacementIndex_def lru_inv_def)
qed

definition example_blocks :: "nat \<Rightarrow> CacheBlockInfo list" where
  "example_blocks n = map (\<lambda>i. CacheBlockInfo_new PR_L1_CACHE (of_nat i) C_SHARED 0) [0..<n]"

definition example_env :: "repl_env" where
  "example_env = \<lparr>re_set_info = Some (CacheSetInfoLRU_create 2 1), re_phc_state = replicate 256 0,
     re_loop_bit_writeback = 0, re_qbs_lookups = 0\<rparr>"

lemma example_blocks_2:
  "length (example_blocks 2) = 2" "\<forall>b\<in>set (example_blocks 2). isValid b"
  by (auto simp: example_blocks_def CacheBlockInfo_new_def isValid_def numeral_2_eq_2)

text \<open>With two ways, the initial order 0, 1 and one attempt, way 1 is the victim.\<close>

theorem CacheSetLRU_refines_lru_witness:
  "\<exists>s' env'. CacheSetLRU_getReplacementIndex 2 None (example_blocks 2) 100 0 0 (CacheSetLRU_create 2 1) example_env
     = Inr (1, s', env') \<and> recency (ls_lru_bits s') = [1, 0]"
proof -
  let ?s = "CacheSetLRU_create 2 1"
  have "lru_inv 2 ?s" by (rule create_inv) simp
  moreover have "qbs_ready (ls_num_attempts ?s) None example_env"
    by (simp add: qbs_ready_def attempts_ready_def example_env_def CacheSetInfoLRU_create_def CacheSetLRU_create_def)
  moreover have "recency (ls_lru_bits ?s) = [0, 1]"
    using lru_perm_init [of 2] by (simp add: CacheSetLRU_create_def numeral_2_eq_2)
  moreover have "isValidReplacement (example_blocks 2) 1"
    by (simp add: isValidReplacement_def example_blocks_def CacheBlockInfo_new_def)
  ultimately show ?thesis
    using CacheSetLRU_refines_lru [of 2 ?s "example_blocks 2" None example_env 1 0 "[1, 0]" 100 0 0]
      example_blocks_2 by (auto simp: lru_victim_def CacheSetLRU_create_def)
qed

section \<open>Loop-block aware replacement\<close>

lemma qbs_single_attempt:
  assumes "select bits < n"
  shows "qbs_attempts 1 0 n cntlr blocks select bits env = Inr (Some (select bits, 0), bits, env)"
  using assms by simp

lemma single_attempt_recorded:
  "attempts_ready 1 env \<Longrightarrow> \<exists>env'. set_info_op (CacheSetInfoLRU_incrementAttempt 0) env = Inr env'
     \<and> re_phc_state env' = re_phc_state env"
proof -
  assume "attempts_ready 1 env"
  from incrementAttempt_ready [OF this, of 0 env] obtain env' where
    e: "set_info_op (CacheSetInfoLRU_incrementAttempt 0) env = Inr env'" by auto
  then have "re_phc_state env' = re_phc_state env" by (auto simp: set_info_op_def split: option.splits)
  with e show ?thesis by blast
qed

lemma lrul3_victim:
  assumes "loop_inv n s" and "0 < n" and "\<forall>i<n. isValid (blocks ! i)"
    and "ls_num_attempts s = 1" and "attempts_ready 1 env"
  shows "\<exists>s' env'. CacheSetLRUL3_getReplacementIndex n cntlr blocks flag eip set_index s env =
       Inr (lru_victim (\<lambda>i. isValidReplacement blocks i \<and> ls_loop_bit s ! i = 0) (recency (ls_lru_bits s)), s', env')
     \<and> ls_loop_bit s' = ls_loop_bit s"
proof -
  let ?cand = "\<lambda>i. isValidReplacement blocks i \<and> ls_loop_bit s ! i = 0"
  let ?v = "lru_scan ?cand (ls_lru_bits s) 0 n"
  have "?v = lru_victim ?cand (recency (ls_lru_bits s))"
    using assms(1,2) by (intro lru_scan_victim) (simp_all add: loop_inv_def)
  moreover have "?v < n" using lru_scan_less [OF assms(2) order_refl] .
  moreover obtain env' where "set_info_op (CacheSetInfoLRU_incrementAttempt 0) env = Inr env'"
    using single_attempt_recorded [OF assms(5)] by blast
  ultimately show ?thesis
    using assms(3,4) first_invalid_None [of n blocks] by (simp add: CacheSetLRUL3_getReplacementIndex_def Let_def)
qed

text \<open>
  Loop blocks are protected in the last-level cache: with the one attempt that the
  configuration gives this policy, a full set loses a non-loop block as long as one of its
  replaceable non-loop blocks is not the most recently used block, and among those the least
  recently used one.
\<close>

theorem CacheSetLRUL3_protects_loop_blocks:
  assumes "loop_inv n s" and "\<forall>i<n. isValid (blocks ! i)" and "ls_num_attempts s = 1" and "attempts_ready 1 env"
    and "v \<in> set (tl (recency (ls_lru_bits s)))" and "isValidReplacement blocks v" and "ls_loop_bit s ! v = 0"
  shows "\<exists>i s' env'. CacheSetLRUL3_getReplacementIndex n cntlr blocks flag eip set_index s env = Inr (i, s', env')
     \<and> isValidReplacement blocks i \<and> ls_loop_bit s ! i = 0 \<and> unat (ls_lru_bits s ! v) \<le> unat (ls_lru_bits s ! i)"
proof -
  let ?cand = "\<lambda>i. isValidReplacement blocks i \<and> ls_loop_bit s ! i = 0" and ?bits = "ls_lru_bits s"
  have perm: "lru_perm n ?bits" using assms(1) by (simp add: loop_inv_def)
  then have len: "length (recency ?bits) = n" by (simp add: lru_perm_def)
  have "set (tl (recency ?bits)) \<subseteq> set (recency ?bits)" by (cases "recency ?bits") auto
  then have v: "v < n" using assms(5) perm by (auto simp: lru_perm_def)
  obtain m where m: "m < length (tl (recency ?bits))" "v = tl (recency ?bits) ! m"
    using assms(5) by (auto simp: in_set_conv_nth)
  have "unat (?bits ! v) = Suc m"
    using arg_cong [OF map_recency [OF perm], of "\<lambda>l. l ! Suc m"] m len by (simp add: nth_tl)
  then have pos: "0 < ?bits ! v" by (simp add: word_less_nat_alt)
  let ?i = "lru_scan ?cand ?bits 0 n"
  have "?cand ?i" "?bits ! v \<le> ?bits ! ?i"
    using lru_scan_max [of v 0 n ?cand ?bits] v pos assms(6,7) by auto
  moreover have "?i = lru_victim ?cand (recency ?bits)" using lru_scan_victim [OF perm] v by simp
  moreover obtain s' env' where "CacheSetLRUL3_getReplacementIndex n cntlr blocks flag eip set_index s env =
      Inr (lru_victim ?cand (recency ?bits), s', env')"
    using lrul3_victim [OF assms(1) gr_implies_not_zero [OF v, THEN neq0_conv [THEN iffD1]] assms(2,3,4)] by blast
  ultimately show ?thesis by (auto simp: word_le_nat_alt)
qed

lemma example_env_ready: "attempts_ready 1 example_env"
  by (simp add: attempts_ready_def example_env_def CacheSetInfoLRU_create_def)

lemma example_blocks_valid:
  "\<forall>i<2. isValid (example_blocks 2 ! i)" "isValidReplacement (example_blocks 2) 1"
  using example_blocks_2 by (auto simp: isValidReplacement_def example_blocks_def CacheBlockInfo_new_def)

theorem CacheSetLRUL3_protects_loop_blocks_witness:
  "\<exists>i s' env'. CacheSetLRUL3_getReplacementIndex 2 None (example_blocks 2) 100 0 0 (CacheSetLRUL3_create 2 1) example_env
     = Inr (i, s', env') \<and> ls_loop_bit (CacheSetLRUL3_create 2 1) ! i = 0"
proof -
  let ?s = "CacheSetLRUL3_create 2 1"
  have "recency (ls_lru_bits ?s) = [0, 1]"
    using lru_perm_init [of 2] by (simp add: CacheSetLRUL3_create_def numeral_2_eq_2)
  then have "1 \<in> set (tl (recency (ls_lru_bits ?s)))" "ls_loop_bit ?s ! 1 = 0" "ls_num_attempts ?s = 1"
    by (simp_all add: CacheSetLRUL3_create_def)
  with CacheSetLRUL3_protects_loop_blocks [of 2 ?s "example_blocks 2" example_env 1 None 100 0 0]
    create_inv(4) [of 2 1] example_blocks_valid example_env_ready
  show ?thesis by auto
qed

text \<open>
  The pass over loop blocks is never reached with one attempt: when every way holds a loop
  block, the policy evicts way 0, whatever its age, and the new block inherits the loop bit.
\<close>

theorem CacheSetLRUL3_all_loop_evicts_way0:
  assumes "loop_inv n s" and "0 < n" and "\<forall>i<n. isValid (blocks ! i)" and "ls_num_attempts s = 1"
    and "attempts_ready 1 env" and "\<forall>i<n. ls_loop_bit s ! i \<noteq> 0"
  shows "\<exists>s' env'. CacheSetLRUL3_getReplacementIndex n cntlr blocks flag eip set_index s env = Inr (0, s', env')
     \<and> ls_loop_bit s' ! 0 \<noteq> 0"
proof -
  let ?cand = "\<lambda>i. isValidReplacement blocks i \<and> ls_loop_bit s ! i = 0"
  have "lru_victim ?cand (recency (ls_lru_bits s)) = lru_scan ?cand (ls_lru_bits s) 0 n"
    using assms(1,2) lru_scan_victim [of n "ls_lru_bits s"] by (simp add: loop_inv_def)
  also have "\<dots> = 0" using assms(6) by (intro lru_scan_fallback) auto
  finally show ?thesis using lrul3_victim [OF assms(1-5), of cntlr flag eip set_index] assms(2,6) by auto
qed

theorem CacheSetLRUL3_all_loop_evicts_way0_witness:
  "\<exists>s' env'. CacheSetLRUL3_getReplacementIndex 2 None (example_blocks 2) 100 0 0
     ((CacheSetLRUL3_create 2 1)\<lparr>ls_loop_bit := [1, 1]\<rparr>) example_env = Inr (0, s', env') \<and> ls_loop_bit s' ! 0 \<noteq> 0"
proof -
  let ?s = "(CacheSetLRUL3_create 2 1)\<lparr>ls_loop_bit := [1, 1]\<rparr>"
  have "loop_inv 2 ?s" using create_inv(4) [of 2 1] by (simp add: loop_inv_def)
  moreover have "\<forall>i<2. ls_loop_bit ?s ! i \<noteq> 0" "ls_num_attempts ?s = 1"
    by (auto simp: CacheSetLRUL3_create_def less_2_cases_iff)
  ultimately show ?thesis
    using CacheSetLRUL3_all_loop_evicts_way0 [of 2 ?s "example_blocks 2" example_env None 100 0 0]
      example_blocks_valid(1) example_env_ready by auto
qed

section \<open>The hybrid cache\<close>

lemma qbs_attempts_env:
  "qbs_attempts num attempt n cntlr blocks select bits env = Inr (found, bits', env') \<Longrightarrow>
     re_phc_state env' = re_phc_state env \<and> re_set_info env' = re_set_info env"
proof (induction num arbitrary: attempt bits env)
  case (Suc num)
  then show ?case by (fastforce simp: Let_def split: if_splits option.splits)
qed simp

lemma set_info_op_table: "set_info_op f env = Inr env' \<Longrightarrow> phc_table_ok env' = phc_table_ok env"
  by (auto simp: set_info_op_def phc_table_ok_def split: option.splits)

lemma phc_predicted_table:
  assumes "phc_table_ok env" and "phc_predicted_replacement n c blocks f e si s env = Inr (i, s', env')"
  shows "phc_table_ok env'"
  using assms
  by (auto simp: phc_predicted_replacement_def Let_def phc_table_ok_def split: option.splits
      dest!: qbs_attempts_env set_info_op_table)

lemma phc_sampler_table:
  assumes "phc_inv n s" and "phc_table_ok env" and "phc_sampler_replacement n c blocks f e si s env = Inr (i, s', env')"
  shows "phc_table_ok env'"
proof -
  have ti: "unat (phc_TI s ! j) < 256" if "j < n" for j using assms(1) that by (simp add: phc_inv_def)
  show ?thesis
  proof (cases "first_invalid n blocks")
    case (Some k)
    obtain s1 e1 where t: "phc_train k (ucast (e mod 256)) s env = (s1, e1)" by fastforce
    with phc_train_table [OF assms(2) t ti] Some assms(3) first_invalid_Some [OF Some] show ?thesis
      by (simp add: phc_sampler_replacement_def)
  next
    case None
    with assms(3) obtain attempt bits e1 s1 e2 where
      q: "qbs_attempts (unat (ls_num_attempts s)) 0 n c blocks
        (\<lambda>bits. lru_scan (isValidReplacement blocks) bits 0 SRAM_ways) (ls_lru_bits s) env = Inr (Some (i, attempt), bits, e1)"
      and t: "phc_train i (ucast (e mod 256)) s e1 = (s1, e2)"
      and e: "set_info_op (CacheSetInfoLRU_incrementAttempt attempt) e2 = Inr env'"
      by (auto simp: phc_sampler_replacement_def Let_def split: option.splits prod.splits) (metis surj_pair)
    have "phc_table_ok e1" using assms(2) qbs_attempts_env [OF q] by (simp add: phc_table_ok_def)
    moreover have "i < n" using qbs_attempts_keeps [OF q] assms(1) by (simp add: phc_inv_def)
    ultimately have "phc_table_ok e2" using phc_train_table [OF _ t ti] by simp
    with set_info_op_table [OF e] show ?thesis by simp
  qed
qed

text \<open>
  The predictor table of the hybrid policy stays a table of 256 two-bit counters, and every way
  keeps a valid index into it, whatever sequence of replacements and accesses is made.
\<close>

theorem CacheSetPHC_predictor_bounded:
  assumes "phc_inv n s" and "phc_table_ok env" and "length blocks = n"
    and "CacheSetPHC_getReplacementIndex n cntlr blocks flag eip set_index s env = Inr (i, s', env')"
  shows "i < n \<and> phc_inv n s' \<and> phc_table_ok env'
    \<and> (\<forall>a w s'' env''. a < n \<and> CacheSetPHC_updateReplacementIndex n a w set_index s' env' = Inr (s'', env'') \<longrightarrow>
         phc_inv n s'' \<and> phc_table_ok env'')"
proof -
  have inv: "i < n \<and> phc_inv n s'" using phc.get_in_set [OF assms(1,3,4)] .
  have upd: "phc_inv n s'' \<and> phc_table_ok env''" if "phc_table_ok env'" "a < n"
    "CacheSetPHC_updateReplacementIndex n a w set_index s' env' = Inr (s'', env'')" for a w s'' env''
    using that inv phc.upd_inv [of n s' a w set_index env' s'' env'']
    by (auto simp: CacheSetPHC_updateReplacementIndex_def Let_def set_info_op_def phc_table_ok_def split: option.splits)
  have "phc_table_ok env'" using assms(1,2,4)
    by (auto simp: CacheSetPHC_getReplacementIndex_def split: if_splits dest: phc_sampler_table phc_predicted_table)
  with inv upd show ?thesis by blast
qed


definition example_env4 :: "repl_env" where
  "example_env4 = \<lparr>re_set_info = Some (CacheSetInfoLRU_create 6 1), re_phc_state = replicate 256 0,
     re_loop_bit_writeback = 0, re_qbs_lookups = 0\<rparr>"

lemma example_blocks_nth: "i < n \<Longrightarrow> n \<le> 256 \<Longrightarrow> isValid (example_blocks n ! i) \<and> isValidReplacement (example_blocks n) i"
proof -
  assume "i < n" "n \<le> 256"
  then have "(of_nat i :: IntPtr) \<noteq> NOT 0"
    by (auto simp: word_unat_eq_iff unsigned_minus_1_eq_mask simp flip: mask_eq_exp_minus_1) (simp add: mask_eq_exp_minus_1)
  with \<open>i < n\<close> show ?thesis
    by (simp add: example_blocks_def CacheBlockInfo_new_def isValid_def isValidReplacement_def)
qed

lemma example_env4_ready: "attempts_ready 1 example_env4" "phc_table_ok example_env4"
  by (simp_all add: attempts_ready_def example_env4_def CacheSetInfoLRU_create_def phc_table_ok_def)

lemma example_phc: "phc_inv 6 (CacheSetPHC_create 6 1)" "length (example_blocks 6) = 6"
  using create_inv(5) [of 6 1] by (simp_all add: example_blocks_def)

text \<open>
  Outside the sampler sets the hybrid policy follows the predictor. With one attempt and a full
  set, a block whose instruction is predicted cold replaces a block of an STT-RAM way (4 and above),
  and a block predicted hot a block of one of the four SRAM ways, provided that a replaceable way
  of that partition is not the most recently used way of the set; the victim is then the least
  recently used replaceable way of its partition.
\<close>

theorem CacheSetPHC_follows_prediction:
  assumes "phc_inv n s" and "\<forall>i<n. isValid (blocks ! i)" and "ls_num_attempts s = 1" and "attempts_ready 1 env"
    and "set_index mod sampler_fraction \<noteq> 0"
    and "part = (if re_phc_state env ! unat (ucast (eip mod 256) :: UInt16) < state_threshold
                 then {SRAM_ways..<n} else {..<SRAM_ways})"
    and "v \<in> part" and "isValidReplacement blocks v" and "0 < ls_lru_bits s ! v"
  shows "\<exists>i s' env'. CacheSetPHC_getReplacementIndex n cntlr blocks flag eip set_index s env = Inr (i, s', env')
     \<and> i \<in> part \<and> isValidReplacement blocks i
     \<and> (\<forall>w\<in>part. isValidReplacement blocks w \<longrightarrow> ls_lru_bits s ! w \<le> ls_lru_bits s ! i)"
proof -
  let ?bits = "ls_lru_bits s" and ?cand = "isValidReplacement blocks"
  let ?cold = "re_phc_state env ! unat (ucast (eip mod 256) :: UInt16) < state_threshold"
  let ?lo = "if ?cold then SRAM_ways else 0" and ?hi = "if ?cold then n else SRAM_ways"
  let ?i = "lru_scan ?cand ?bits ?lo ?hi"
  have n: "SRAM_ways \<le> n" "0 < n" using assms(1) by (simp_all add: phc_inv_def SRAM_ways_def)
  have part: "part = {?lo..<?hi}" using assms(6) by auto
  have i: "?i \<in> part \<and> ?cand ?i \<and> (\<forall>w\<in>part. ?cand w \<longrightarrow> ?bits ! w \<le> ?bits ! ?i)"
    unfolding part by (rule lru_scan_max) (use assms(7-9) part in auto)
  have free: "phc_free_way ?cold n blocks = None"
    using phc_free_way_Some [OF _ n(1)] assms(2) by (metis not_None_eq)
  obtain env' where "set_info_op (CacheSetInfoLRU_incrementAttempt 0) env = Inr env'"
    using single_attempt_recorded [OF assms(4)] by blast
  moreover have "?i < n" using lru_scan_less [OF n(2), of ?hi] n(1) by simp
  moreover have "(\<lambda>bits. if ?cold then lru_scan ?cand bits SRAM_ways n else lru_scan ?cand bits 0 SRAM_ways) =
      (\<lambda>bits. lru_scan ?cand bits ?lo ?hi)" by auto
  ultimately have "\<exists>s'. CacheSetPHC_getReplacementIndex n cntlr blocks flag eip set_index s env = Inr (?i, s', env')"
    using free assms(3,5) unfolding CacheSetPHC_getReplacementIndex_def phc_predicted_replacement_def
    by (simp add: Let_def)
  with i show ?thesis by blast
qed

text \<open>A sampler set with free ways, and a cold instruction in an ordinary full set.\<close>

theorem CacheSetPHC_predictor_bounded_witness:
  "\<exists>i s' env'. CacheSetPHC_getReplacementIndex 6 None (replicate 6 (CacheBlockInfo_new PR_L1_CACHE (NOT 0) C_INVALID 0))
       0 77 32 (CacheSetPHC_create 6 1) example_env4 = Inr (i, s', env') \<and> i < 6 \<and> phc_table_ok env'"
proof -
  let ?b = "replicate 6 (CacheBlockInfo_new PR_L1_CACHE (NOT 0) C_INVALID 0)"
  have "\<not> isValid (?b ! 0)" by (simp add: isValid_def CacheBlockInfo_new_def)
  with phc.get_invalid [OF example_phc(1), of ?b 0 None 0 77 32 example_env4]
  obtain i s' env' where g: "CacheSetPHC_getReplacementIndex 6 None ?b 0 77 32 (CacheSetPHC_create 6 1) example_env4
      = Inr (i, s', env')" by auto
  from CacheSetPHC_predictor_bounded [OF example_phc(1) example_env4_ready(2) _ this] g show ?thesis by auto
qed

theorem CacheSetPHC_follows_prediction_witness:
  "\<exists>i s' env'. CacheSetPHC_getReplacementIndex 6 None (example_blocks 6) 0 77 1 (CacheSetPHC_create 6 1) example_env4
     = Inr (i, s', env') \<and> i \<in> {SRAM_ways..<6}"
proof -
  let ?s = "CacheSetPHC_create 6 1"
  have cold: "re_phc_state example_env4 ! unat (ucast ((77 :: IntPtr) mod 256) :: UInt16) < state_threshold"
    by (simp add: example_env4_def state_threshold_def eip_truncated_less)
  have bits: "0 < ls_lru_bits ?s ! 5" "ls_num_attempts ?s = 1"
    by (simp_all add: CacheSetPHC_create_def lru_init_def)
  have "\<forall>i<6. isValid (example_blocks 6 ! i)" "isValidReplacement (example_blocks 6) 5"
    using example_blocks_nth [of _ 6] by simp_all
  with CacheSetPHC_follows_prediction [of 6 ?s "example_blocks 6" example_env4 1 "{SRAM_ways..<6}" 77 5 None 0]
    example_phc(1) example_env4_ready(1) cold bits
  show ?thesis by (auto simp: SRAM_ways_def sampler_fraction_def)
qed

end
