(* ===== verification/Repl_Other.thy ===== *)
theory Repl_Other
  imports Repl_LRU
begin

text \<open>
  The remaining replacement policies: \<^verbatim>\<open>CacheSetMRU\<close>, \<^verbatim>\<open>CacheSetNMRU\<close>, \<^verbatim>\<open>CacheSetNRU\<close>,
  \<^verbatim>\<open>CacheSetPLRU\<close>, \<^verbatim>\<open>CacheSetRandom\<close>, \<^verbatim>\<open>CacheSetRoundRobin\<close> and \<^verbatim>\<open>CacheSetSRRIP\<close>. The
  recursive calls of the random policy may not end, so that policy is a partial function whose
  value \<open>None\<close> stands for not returning; the round-robin recursion has fuel, and the fuel of one
  call for each way is shown to be exact.
\<close>

section \<open>CacheSetMRU\<close>

definition CacheSetMRU_create :: "nat \<Rightarrow> UInt8 list" where
  "CacheSetMRU_create assoc = lru_init assoc"

definition CacheSetMRU_updateReplacementIndex :: "UInt8 list upd_replacement" where
  "CacheSetMRU_updateReplacementIndex assoc accessed_index write_flag set_index bits env =
     Inr (moveToMRU assoc accessed_index bits, env)"

text \<open>The \<^verbatim>\<open>while\<close> loop over \<^verbatim>\<open>target\<close> around the search of a replaceable way with that counter.\<close>

definition mru_search :: "nat \<Rightarrow> CacheBlockInfo list \<Rightarrow> UInt8 list \<Rightarrow> nat option" where
  "mru_search assoc blocks bits =
     (let way = (\<lambda>target. first_index (\<lambda>i. unat (bits ! i) = target \<and> isValidReplacement blocks i) assoc)
      in case find (\<lambda>target. way target \<noteq> None) [0..<assoc] of None \<Rightarrow> None | Some target \<Rightarrow> way target)"

definition CacheSetMRU_getReplacementIndex :: "UInt8 list get_replacement" where
  "CacheSetMRU_getReplacementIndex assoc cntlr blocks l3_hit_flag eip set_index bits env =
     (case (case first_invalid assoc blocks of Some i \<Rightarrow> Some i | None \<Rightarrow> mru_search assoc blocks bits) of
        Some i \<Rightarrow>
          bindR (CacheSetMRU_updateReplacementIndex assoc i 100 0 bits env) (\<lambda>(bits, env). Inr (i, bits, env))
      | None \<Rightarrow> Inl (LogError ''Error Finding LRU bits''))"

section \<open>CacheSetNMRU\<close>

record CacheSetNMRU =
  nmru_lru_bits :: "UInt8 list"
  nmru_replacement_pointer :: UInt8

definition CacheSetNMRU_create :: "nat \<Rightarrow> CacheSetNMRU" where
  "CacheSetNMRU_create assoc = \<lparr>nmru_lru_bits = lru_init assoc, nmru_replacement_pointer = 0\<rparr>"

definition CacheSetNMRU_updateReplacementIndex :: "CacheSetNMRU upd_replacement" where
  "CacheSetNMRU_updateReplacementIndex assoc accessed_index write_flag set_index s env =
     Inr (s\<lparr>nmru_lru_bits := moveToMRU assoc accessed_index (nmru_lru_bits s)\<rparr>, env)"

text \<open>
  \<^verbatim>\<open>ptr_next\<close> is \<^verbatim>\<open>(m_replacement_pointer + 1) % m_associativity\<close>, narrowed to eight bits. The rotating
  search tries at most \<open>k\<close> positions and returns the way found and the pointer it leaves behind.
\<close>

definition ptr_next :: "nat \<Rightarrow> UInt8 \<Rightarrow> UInt8" where
  "ptr_next assoc p = of_nat ((unat p + 1) mod assoc)"

primrec rotating_search :: "nat \<Rightarrow> nat \<Rightarrow> (nat \<Rightarrow> bool) \<Rightarrow> UInt8 \<Rightarrow> nat option \<times> UInt8" where
  "rotating_search 0 assoc cand p = (None, p)"
| "rotating_search (Suc k) assoc cand p =
     (if cand (unat p) then (Some (unat p), ptr_next assoc p) else rotating_search k assoc cand (ptr_next assoc p))"

definition CacheSetNMRU_getReplacementIndex :: "CacheSetNMRU get_replacement" where
  "CacheSetNMRU_getReplacementIndex assoc cntlr blocks l3_hit_flag eip set_index s env =
     (case first_invalid assoc blocks of
        Some i \<Rightarrow>
          bindR (CacheSetNMRU_updateReplacementIndex assoc i 100 0 s env) (\<lambda>(s, env). Inr (i, s, env))
      | None \<Rightarrow>
          (case rotating_search assoc assoc (\<lambda>i. nmru_lru_bits s ! i \<noteq> 0 \<and> isValidReplacement blocks i)
                  (nmru_replacement_pointer s) of
             (None, p) \<Rightarrow> Inl (LogError ''Error Finding LRU bits'')
           | (Some index, p) \<Rightarrow>
               bindR (CacheSetNMRU_updateReplacementIndex assoc index 100 0 (s\<lparr>nmru_replacement_pointer := p\<rparr>) env)
                 (\<lambda>(s, env). Inr (index, s, env))))"

section \<open>CacheSetNRU\<close>

record CacheSetNRU =
  nru_lru_bits :: "UInt8 list"
  nru_num_bits_set :: UInt8
  nru_replacement_pointer :: UInt8

definition CacheSetNRU_create :: "nat \<Rightarrow> CacheSetNRU" where
  "CacheSetNRU_create assoc =
     \<lparr>nru_lru_bits = replicate assoc 0, nru_num_bits_set = 0, nru_replacement_pointer = 0\<rparr>"

definition CacheSetNRU_updateReplacementIndex :: "CacheSetNRU upd_replacement" where
  "CacheSetNRU_updateReplacementIndex assoc accessed_index write_flag set_index s env =
     (let s = s\<lparr>nru_lru_bits := (nru_lru_bits s)[accessed_index := 1], nru_num_bits_set := nru_num_bits_set s + 1\<rparr>
      in if unat (nru_num_bits_set s) = assoc
         then Inr (s\<lparr>nru_num_bits_set := 0, nru_lru_bits := replicate assoc 0\<rparr>, env)
         else Inr (s, env))"

definition CacheSetNRU_getReplacementIndex :: "CacheSetNRU get_replacement" where
  "CacheSetNRU_getReplacementIndex assoc cntlr blocks l3_hit_flag eip set_index s env =
     (case first_invalid assoc blocks of
        Some i \<Rightarrow>
          bindR (CacheSetNRU_updateReplacementIndex assoc i 100 0 s env) (\<lambda>(s, env). Inr (i, s, env))
      | None \<Rightarrow>
          (let have_zero_bit = (\<exists>i\<in>set [0..<assoc]. nru_lru_bits s ! i = 0 \<and> isValidReplacement blocks i)
           in case rotating_search assoc assoc
                     (\<lambda>i. (nru_lru_bits s ! i = 0 \<or> \<not> have_zero_bit) \<and> isValidReplacement blocks i)
                     (nru_replacement_pointer s) of
                (None, p) \<Rightarrow> Inl (LogError ''Error Finding LRU bits'')
              | (Some index, p) \<Rightarrow>
                  bindR (CacheSetNRU_updateReplacementIndex assoc index 100 0 (s\<lparr>nru_replacement_pointer := p\<rparr>) env)
                    (\<lambda>(s, env). Inr (index, s, env))))"

section \<open>CacheSetPLRU\<close>

definition CacheSetPLRU_create :: "nat \<Rightarrow> UInt8 list result" where
  "CacheSetPLRU_create assoc =
     bindR (logAssertR (assoc = 4 \<or> assoc = 8) ''PLRU not implemted for associativity (only 4, 8)'') (\<lambda>_.
     Inr (replicate 8 0))"

definition CacheSetPLRU_updateReplacementIndex :: "UInt8 list upd_replacement" where
  "CacheSetPLRU_updateReplacementIndex assoc a write_flag set_index b env =
     (if assoc = 4 then
        Inr (if a = 0 then b[0 := 1, 1 := 1]
             else if a = 1 then b[0 := 1, 1 := 0]
             else if a = 2 then b[0 := 0, 2 := 1]
             else if a = 3 then b[0 := 0, 2 := 0]
             else b, env)
      else if assoc = 8 then
        Inr (if a = 0 then b[0 := 1, 1 := 1, 2 := 1]
             else if a = 1 then b[0 := 1, 1 := 1, 2 := 0]
             else if a = 2 then b[0 := 1, 1 := 0, 3 := 1]
             else if a = 3 then b[0 := 1, 1 := 0, 3 := 0]
             else if a = 4 then b[0 := 0, 4 := 1, 5 := 1]
             else if a = 5 then b[0 := 0, 4 := 1, 5 := 0]
             else if a = 6 then b[0 := 0, 4 := 0, 6 := 1]
             else if a = 7 then b[0 := 0, 4 := 0, 6 := 0]
             else b, env)
      else Inl (LogError ''PLRU doesn't support associativity''))"

definition plru_way :: "nat \<Rightarrow> UInt8 list \<Rightarrow> nat result" where
  "plru_way assoc b =
     (if assoc = 4 then
        Inr (if b ! 0 = 0 then (if b ! 1 = 0 then 0 else 1) else (if b ! 2 = 0 then 2 else 3))
      else if assoc = 8 then
        Inr (if b ! 0 = 0
             then (if b ! 1 = 0 then (if b ! 2 = 0 then 0 else 1) else (if b ! 3 = 0 then 2 else 3))
             else (if b ! 4 = 0 then (if b ! 5 = 0 then 4 else 5) else (if b ! 6 = 0 then 6 else 7)))
      else Inl (LogError ''PLRU doesn't support associativity''))"

definition CacheSetPLRU_getReplacementIndex :: "UInt8 list get_replacement" where
  "CacheSetPLRU_getReplacementIndex assoc cntlr blocks l3_hit_flag eip set_index b env =
     bindR (case first_invalid assoc blocks of
              Some i \<Rightarrow> Inr i
            | None \<Rightarrow>
                bindR (plru_way assoc b) (\<lambda>retValue.
                bindR (logAssertR (isValidReplacement blocks retValue) ''PLRU selected an invalid replacement candidate'') (\<lambda>_.
                Inr retValue)))
       (\<lambda>i. bindR (CacheSetPLRU_updateReplacementIndex assoc i 100 0 b env) (\<lambda>(b, env). Inr (i, b, env)))"

section \<open>CacheSetRandom\<close>

text \<open>The state is the seed of \<^verbatim>\<open>m_rand\<close>; \<^verbatim>\<open>next()\<close> has the default limit 32768.\<close>

partial_function (option) random_search ::
  "nat \<Rightarrow> CacheBlockInfo list \<Rightarrow> UInt32 \<Rightarrow> (nat \<times> UInt32) option" where
  "random_search assoc blocks sd =
     (case first_invalid assoc blocks of
        Some i \<Rightarrow> Some (i, sd)
      | None \<Rightarrow>
          (case Random_next sd 32768 of
             (sd', r) \<Rightarrow>
               (let index = unat r mod assoc
                in if isValidReplacement blocks index then Some (index, sd')
                   else random_search assoc blocks sd')))"

definition CacheSetRandom_getReplacementIndex :: "UInt32 get_replacement" where
  "CacheSetRandom_getReplacementIndex assoc cntlr blocks l3_hit_flag eip set_index sd env =
     (case random_search assoc blocks sd of
        None \<Rightarrow> Inl Diverges
      | Some (i, sd') \<Rightarrow> Inr (i, sd', env))"

definition CacheSetRandom_updateReplacementIndex :: "UInt32 upd_replacement" where
  "CacheSetRandom_updateReplacementIndex assoc accessed_index write_flag set_index sd env = Inr (sd, env)"

section \<open>CacheSetRoundRobin\<close>

text \<open>The state is \<^verbatim>\<open>m_replacement_index\<close>. The fuel bounds the depth of the recursion.\<close>

definition CacheSetRoundRobin_create :: "nat \<Rightarrow> nat" where
  "CacheSetRoundRobin_create assoc = assoc - 1"

definition rr_prev :: "nat \<Rightarrow> nat \<Rightarrow> nat" where
  "rr_prev assoc p = (if p = 0 then assoc - 1 else p - 1)"

primrec rr_search :: "nat \<Rightarrow> nat \<Rightarrow> CacheBlockInfo list \<Rightarrow> nat \<Rightarrow> (nat \<times> nat) result" where
  "rr_search 0 assoc blocks p = Inl Diverges"
| "rr_search (Suc fuel) assoc blocks p =
     (let p' = rr_prev assoc p
      in if \<not> isValidReplacement blocks p' then rr_search fuel assoc blocks p' else Inr (p, p'))"

definition CacheSetRoundRobin_getReplacementIndex :: "nat get_replacement" where
  "CacheSetRoundRobin_getReplacementIndex assoc cntlr blocks l3_hit_flag eip set_index p env =
     bindR (rr_search assoc assoc blocks p) (\<lambda>(curr, p'). Inr (curr, p', env))"

definition CacheSetRoundRobin_updateReplacementIndex :: "nat upd_replacement" where
  "CacheSetRoundRobin_updateReplacementIndex assoc accessed_index write_flag set_index p env = Inr (p, env)"

section \<open>CacheSetSRRIP\<close>

record CacheSetSRRIP =
  srrip_max :: UInt8
  srrip_insert :: UInt8
  srrip_num_attempts :: UInt8
  srrip_bits :: "UInt8 list"
  srrip_replacement_pointer :: UInt8

text \<open>The parameter \<open>numbits\<close> is the configuration value \<^verbatim>\<open>srrip/bits\<close>.\<close>

definition CacheSetSRRIP_create :: "UInt8 \<Rightarrow> nat \<Rightarrow> UInt8 \<Rightarrow> CacheSetSRRIP" where
  "CacheSetSRRIP_create numbits assoc num_attempts =
     (let m = ucast (push_bit (unat numbits) (1 :: UInt32) - 1); ins = m - 1
      in \<lparr>srrip_max = m, srrip_insert = ins, srrip_num_attempts = num_attempts,
          srrip_bits = replicate assoc ins, srrip_replacement_pointer = 0\<rparr>)"

text \<open>
  The inner loop over \<open>k\<close> positions. It ends with a victim, or with \<open>None\<close> when the positions are
  used up; a rejected candidate is demoted and uses up one position without moving the pointer.
\<close>

primrec srrip_round ::
  "nat \<Rightarrow> nat \<Rightarrow> cntlr \<Rightarrow> CacheBlockInfo list \<Rightarrow> nat \<Rightarrow> CacheSetSRRIP \<Rightarrow> repl_env \<Rightarrow>
     (nat option \<times> nat \<times> CacheSetSRRIP \<times> repl_env) result" where
  "srrip_round 0 assoc cntlr blocks attempt s env = Inr (None, attempt, s, env)"
| "srrip_round (Suc k) assoc cntlr blocks attempt s env =
     (let p = srrip_replacement_pointer s; index = unat p
      in if srrip_bits s ! index \<ge> srrip_max s
         then
           bindR (if int attempt < uint (srrip_num_attempts s) - 1
                  then case cntlr of
                         None \<Rightarrow> Inl (LogError ''CacheCntlr == NULL, QBS can only be used when cntlr is passed in'')
                       | Some isInLowerLevelCache \<Rightarrow> Inr (isInLowerLevelCache (blocks ! index))
                  else Inr False) (\<lambda>qbs_reject.
           if qbs_reject
           then srrip_round k assoc cntlr blocks (attempt + 1) (s\<lparr>srrip_bits := (srrip_bits s)[index := 0]\<rparr>)
                  (env\<lparr>re_qbs_lookups := re_qbs_lookups env + 1\<rparr>)
           else
             (let s = s\<lparr>srrip_replacement_pointer := ptr_next assoc p,
                        srrip_bits := (srrip_bits s)[index := srrip_insert s]\<rparr>
              in bindR (set_info_op (CacheSetInfoLRU_incrementAttempt attempt) env) (\<lambda>env.
                 bindR (logAssertR (isValidReplacement blocks index)
                          ''SRRIP selected an invalid replacement candidate'') (\<lambda>_.
                 Inr (Some index, attempt, s, env)))))
         else srrip_round k assoc cntlr blocks attempt (s\<lparr>srrip_replacement_pointer := ptr_next assoc p\<rparr>) env)"

definition srrip_age :: "CacheSetSRRIP \<Rightarrow> CacheSetSRRIP" where
  "srrip_age s = s\<lparr>srrip_bits := map (\<lambda>r. if r < srrip_max s then r + 1 else r) (srrip_bits s)\<rparr>"

primrec srrip_rounds ::
  "nat \<Rightarrow> nat \<Rightarrow> cntlr \<Rightarrow> CacheBlockInfo list \<Rightarrow> nat \<Rightarrow> CacheSetSRRIP \<Rightarrow> repl_env \<Rightarrow>
     (nat \<times> CacheSetSRRIP \<times> repl_env) result" where
  "srrip_rounds 0 assoc cntlr blocks attempt s env = Inl (LogError ''Error finding replacement index'')"
| "srrip_rounds (Suc j) assoc cntlr blocks attempt s env =
     bindR (srrip_round assoc assoc cntlr blocks attempt s env) (\<lambda>(found, attempt, s, env).
     case found of
       Some index \<Rightarrow> Inr (index, s, env)
     | None \<Rightarrow> srrip_rounds j assoc cntlr blocks attempt (srrip_age s) env)"

definition CacheSetSRRIP_getReplacementIndex :: "CacheSetSRRIP get_replacement" where
  "CacheSetSRRIP_getReplacementIndex assoc cntlr blocks l3_hit_flag eip set_index s env =
     (case first_invalid assoc blocks of
        Some i \<Rightarrow> Inr (i, s\<lparr>srrip_bits := (srrip_bits s)[i := srrip_insert s]\<rparr>, env)
      | None \<Rightarrow> srrip_rounds (unat (srrip_max s) + 1) assoc cntlr blocks 0 s env)"

definition CacheSetSRRIP_updateReplacementIndex :: "CacheSetSRRIP upd_replacement" where
  "CacheSetSRRIP_updateReplacementIndex assoc accessed_index write_flag set_index s env =
     (let r = srrip_bits s ! accessed_index
      in bindR (set_info_op (CacheSetInfoLRU_increment (unat r)) env) (\<lambda>env.
         Inr (if r > 0 then s\<lparr>srrip_bits := (srrip_bits s)[accessed_index := r - 1]\<rparr> else s, env)))"

section \<open>MRU\<close>

definition mru_inv :: "nat \<Rightarrow> UInt8 list \<Rightarrow> bool" where
  "mru_inv n bits \<longleftrightarrow> lru_perm n bits"

lemma mru_search_Some: "mru_search n blocks bits = Some i \<Longrightarrow> i < n \<and> isValidReplacement blocks i"
  by (auto simp: mru_search_def Let_def split: option.splits dest!: first_index_Some)

interpretation mru: invalid_first_policy mru_inv CacheSetMRU_getReplacementIndex CacheSetMRU_updateReplacementIndex
proof
  fix n s blocks c f e si env i s' env'
  assume "mru_inv n s" "CacheSetMRU_getReplacementIndex n c blocks f e si s env = Inr (i, s', env')"
  then show "i < n \<and> mru_inv n s'"
    by (auto simp: mru_inv_def CacheSetMRU_getReplacementIndex_def CacheSetMRU_updateReplacementIndex_def perm_moved
        split: option.splits dest: mru_search_Some first_invalid_Some)
next
  fix n s a w si env s' env'
  assume "mru_inv n s" "a < n" "CacheSetMRU_updateReplacementIndex n a w si s env = Inr (s', env')"
  then show "mru_inv n s'" by (auto simp: mru_inv_def CacheSetMRU_updateReplacementIndex_def perm_moved)
next
  fix n s blocks k c f e si env
  assume "k < n" "\<not> isValid (blocks ! k)"
  from first_invalid_exists [OF this] obtain j where j: "first_invalid n blocks = Some j" ..
  then show "\<exists>i s' env'. CacheSetMRU_getReplacementIndex n c blocks f e si s env = Inr (i, s', env')
      \<and> i < n \<and> \<not> isValid (blocks ! i)"
    using first_invalid_Some [OF j]
    by (simp add: CacheSetMRU_getReplacementIndex_def CacheSetMRU_updateReplacementIndex_def)
qed

section \<open>The rotating search\<close>

lemma ptr_next_unat: "0 < n \<Longrightarrow> n \<le> 256 \<Longrightarrow> unat (ptr_next n p) = (unat p + 1) mod n"
proof -
  assume n: "0 < n" "n \<le> 256"
  have "(unat p + 1) mod n < n" using n(1) by simp
  then have "(unat p + 1) mod n < 2 ^ 8" using n(2) by simp
  then show ?thesis unfolding ptr_next_def by (intro unat_of_nat_small) simp
qed

lemma rotating_search_Some:
  assumes "0 < n" "n \<le> 256"
  shows "rotating_search k n cand p = (r, p') \<Longrightarrow> unat p < n \<Longrightarrow>
     unat p' < n \<and> (\<forall>i. r = Some i \<longrightarrow> i < n \<and> cand i)"
proof (induction k arbitrary: p)
  case (Suc k)
  have "unat (ptr_next n p) < n" unfolding ptr_next_unat [OF assms] using assms(1) by (rule mod_less_divisor)
  then show ?case using Suc.IH [of "ptr_next n p"] Suc.prems by (cases "cand (unat p)") (simp_all, blast)
qed simp

lemma rotating_search_None:
  assumes "0 < n" "n \<le> 256" "m < k" "rotating_search k n cand p = (None, p')" "unat p < n"
  shows "\<not> cand ((unat p + m) mod n)"
  using assms(3-5)
proof (induction k arbitrary: p m)
  case (Suc k)
  have next_p: "unat (ptr_next n p) = (unat p + 1) mod n" using ptr_next_unat [OF assms(1,2)] .
  show ?case
  proof (cases m)
    case 0
    then show ?thesis using Suc.prems by (auto split: if_splits)
  next
    case (Suc m')
    have "\<not> cand ((unat (ptr_next n p) + m') mod n)"
      using Suc.prems Suc assms(1) next_p by (intro Suc.IH) (auto split: if_splits)
    moreover have "(unat (ptr_next n p) + m') mod n = (unat p + m) mod n"
      unfolding next_p Suc mod_add_left_eq by simp
    ultimately show ?thesis by simp
  qed
qed simp

text \<open>A full turn finds a candidate if there is one.\<close>

lemma rotating_search_complete:
  assumes "0 < n" "n \<le> 256" "unat p < n" "j < n" "cand j"
  shows "\<exists>i p'. rotating_search n n cand p = (Some i, p') \<and> i < n \<and> cand i \<and> unat p' < n"
proof -
  obtain r p' where rs: "rotating_search n n cand p = (r, p')" by fastforce
  have "(unat p + (n + j - unat p) mod n) mod n = j"
    using assms(3,4) unfolding mod_add_right_eq by simp
  with assms(5) have "r \<noteq> None"
    using rotating_search_None [OF assms(1,2) _ _ assms(3), of "(n + j - unat p) mod n" n cand p'] rs assms(1)
    by auto
  then show ?thesis using rotating_search_Some [OF assms(1,2) rs assms(3)] rs by auto
qed

section \<open>NMRU and NRU\<close>

definition nmru_inv :: "nat \<Rightarrow> CacheSetNMRU \<Rightarrow> bool" where
  "nmru_inv n s \<longleftrightarrow> 0 < n \<and> n \<le> 256 \<and> lru_perm n (nmru_lru_bits s) \<and> unat (nmru_replacement_pointer s) < n"

definition nru_inv :: "nat \<Rightarrow> CacheSetNRU \<Rightarrow> bool" where
  "nru_inv n s \<longleftrightarrow> 0 < n \<and> n \<le> 256 \<and> length (nru_lru_bits s) = n \<and> unat (nru_replacement_pointer s) < n"

interpretation nmru: invalid_first_policy nmru_inv CacheSetNMRU_getReplacementIndex CacheSetNMRU_updateReplacementIndex
proof
  fix n s blocks c f e si env i s' env'
  assume a: "nmru_inv n s" "CacheSetNMRU_getReplacementIndex n c blocks f e si s env = Inr (i, s', env')"
  then show "i < n \<and> nmru_inv n s'"
    by (auto simp: nmru_inv_def CacheSetNMRU_getReplacementIndex_def CacheSetNMRU_updateReplacementIndex_def perm_moved
        split: option.splits prod.splits dest: first_invalid_Some dest!: rotating_search_Some [rotated 2])
next
  fix n s a w si env s' env'
  assume "nmru_inv n s" "a < n" "CacheSetNMRU_updateReplacementIndex n a w si s env = Inr (s', env')"
  then show "nmru_inv n s'" by (auto simp: nmru_inv_def CacheSetNMRU_updateReplacementIndex_def perm_moved)
next
  fix n s blocks k c f e si env
  assume "k < n" "\<not> isValid (blocks ! k)"
  from first_invalid_exists [OF this] obtain j where j: "first_invalid n blocks = Some j" ..
  then show "\<exists>i s' env'. CacheSetNMRU_getReplacementIndex n c blocks f e si s env = Inr (i, s', env')
      \<and> i < n \<and> \<not> isValid (blocks ! i)"
    using first_invalid_Some [OF j]
    by (simp add: CacheSetNMRU_getReplacementIndex_def CacheSetNMRU_updateReplacementIndex_def)
qed

lemma nru_update_inv:
  "nru_inv n s \<Longrightarrow> CacheSetNRU_updateReplacementIndex n a w si s env = Inr (s', env') \<Longrightarrow> nru_inv n s'"
  by (auto simp: nru_inv_def CacheSetNRU_updateReplacementIndex_def Let_def split: if_splits)

interpretation nru: invalid_first_policy nru_inv CacheSetNRU_getReplacementIndex CacheSetNRU_updateReplacementIndex
proof
  fix n s blocks c f e si env i s' env'
  assume a: "nru_inv n s" "CacheSetNRU_getReplacementIndex n c blocks f e si s env = Inr (i, s', env')"
  have ptr: "nru_inv n (s\<lparr>nru_replacement_pointer := p\<rparr>)" if "unat p < n" for p
    using a(1) that by (simp add: nru_inv_def)
  have "0 < n" "n \<le> 256" "unat (nru_replacement_pointer s) < n" using a(1) by (simp_all add: nru_inv_def)
  then show "i < n \<and> nru_inv n s'" using a
    by (auto simp: CacheSetNRU_getReplacementIndex_def Let_def
        split: option.splits prod.splits dest: first_invalid_Some nru_update_inv dest!: rotating_search_Some [rotated 2]
        intro: nru_update_inv [OF ptr])
next
  fix n s a w si env s' env'
  assume "nru_inv n s" "CacheSetNRU_updateReplacementIndex n a w si s env = Inr (s', env')"
  then show "nru_inv n s'" by (rule nru_update_inv)
next
  fix n s blocks k c f e si env
  assume "k < n" "\<not> isValid (blocks ! k)"
  from first_invalid_exists [OF this] obtain j where j: "first_invalid n blocks = Some j" ..
  then show "\<exists>i s' env'. CacheSetNRU_getReplacementIndex n c blocks f e si s env = Inr (i, s', env')
      \<and> i < n \<and> \<not> isValid (blocks ! i)"
    using first_invalid_Some [OF j]
    by (simp add: CacheSetNRU_getReplacementIndex_def CacheSetNRU_updateReplacementIndex_def Let_def)
qed

section \<open>Tree PLRU\<close>

definition plru_inv :: "nat \<Rightarrow> UInt8 list \<Rightarrow> bool" where
  "plru_inv n b \<longleftrightarrow> (n = 4 \<or> n = 8) \<and> length b = 8"

lemma plru_way_less: "plru_way n b = Inr i \<Longrightarrow> i < n"
  by (auto simp: plru_way_def split: if_splits)

lemma plru_update_inv:
  "plru_inv n b \<Longrightarrow> CacheSetPLRU_updateReplacementIndex n a w si b env = Inr (b', env') \<Longrightarrow> plru_inv n b'"
  by (auto simp: plru_inv_def CacheSetPLRU_updateReplacementIndex_def)

lemma plru_update_total: "plru_inv n b \<Longrightarrow> \<exists>b'. CacheSetPLRU_updateReplacementIndex n a w si b env = Inr (b', env)"
  by (auto simp: plru_inv_def CacheSetPLRU_updateReplacementIndex_def)

interpretation plru: invalid_first_policy plru_inv CacheSetPLRU_getReplacementIndex CacheSetPLRU_updateReplacementIndex
proof
  fix n s blocks c f e si env i s' env'
  assume "plru_inv n s" "CacheSetPLRU_getReplacementIndex n c blocks f e si s env = Inr (i, s', env')"
  then show "i < n \<and> plru_inv n s'"
    by (auto simp: CacheSetPLRU_getReplacementIndex_def split: option.splits
        dest: first_invalid_Some plru_way_less plru_update_inv)
next
  fix n s a w si env s' env'
  assume "plru_inv n s" "CacheSetPLRU_updateReplacementIndex n a w si s env = Inr (s', env')"
  then show "plru_inv n s'" by (rule plru_update_inv)
next
  fix n s blocks k c f e si env
  assume a: "plru_inv n s" "k < n" "\<not> isValid (blocks ! k)"
  from first_invalid_exists [OF a(2,3)] obtain j where j: "first_invalid n blocks = Some j" ..
  then show "\<exists>i s' env'. CacheSetPLRU_getReplacementIndex n c blocks f e si s env = Inr (i, s', env')
      \<and> i < n \<and> \<not> isValid (blocks ! i)"
    using first_invalid_Some [OF j] plru_update_total [OF a(1), of j 100 0 env]
    by (auto simp: CacheSetPLRU_getReplacementIndex_def)
qed

lemma plru_way_after_update:
  assumes "plru_inv n b" and "a < n" and "CacheSetPLRU_updateReplacementIndex n a w si b env = Inr (b', env')"
  shows "\<exists>v. plru_way n b' = Inr v \<and> v \<noteq> a \<and> v < n"
proof -
  have n: "n = 4 \<or> n = 8" and len: "length b = 8" using assms(1) by (simp_all add: plru_inv_def)
  have eight: "a \<in> {0, 1, 2, 3, 4, 5, 6, 7}" using assms(2) n by (auto simp: eval_nat_numeral less_Suc_eq)
  from n show ?thesis
  proof
    assume "n = 4"
    with assms(2) eight have "a \<in> {0, 1, 2, 3}" by auto
    with \<open>n = 4\<close> assms(3) len show ?thesis
      by (auto simp: CacheSetPLRU_updateReplacementIndex_def plru_way_def nth_list_update)
  next
    assume "n = 8"
    with eight assms(3) len show ?thesis
      by (elim insertE emptyE) (auto simp: CacheSetPLRU_updateReplacementIndex_def plru_way_def nth_list_update)
  qed
qed

text \<open>
  Tree PLRU with four or eight ways never evicts the block that was accessed last: after
  \<^verbatim>\<open>updateReplacementIndex(a)\<close>, on a full set whose blocks are all replaceable,
  \<^verbatim>\<open>getReplacementIndex\<close> succeeds with another way.
\<close>

theorem CacheSetPLRU_keeps_last_access:
  assumes "plru_inv n b" and "a < n" and "\<forall>i<n. isValid (blocks ! i) \<and> isValidReplacement blocks i"
    and "CacheSetPLRU_updateReplacementIndex n a w si b env = Inr (b', env')"
  shows "\<exists>i b'' env''. CacheSetPLRU_getReplacementIndex n cntlr blocks flag eip set_index b' env' = Inr (i, b'', env'')
     \<and> i < n \<and> i \<noteq> a"
proof -
  obtain v where v: "plru_way n b' = Inr v" "v \<noteq> a" "v < n"
    using plru_way_after_update [OF assms(1,2,4)] by blast
  have "plru_inv n b'" using assms(1,4) by (rule plru_update_inv)
  from plru_update_total [OF this, of v 100 0 env'] v assms(3) show ?thesis
    by (auto simp: CacheSetPLRU_getReplacementIndex_def first_invalid_None [THEN iffD2])
qed

theorem CacheSetPLRU_keeps_last_access_witness:
  "\<exists>b' i b'' env''. CacheSetPLRU_updateReplacementIndex 4 2 0 0 (replicate 8 0) example_env4 = Inr (b', example_env4)
     \<and> CacheSetPLRU_getReplacementIndex 4 None (example_blocks 4) 0 0 0 b' example_env4 = Inr (i, b'', env'') \<and> i \<noteq> 2"
proof -
  have inv: "plru_inv 4 (replicate 8 0)" by (simp add: plru_inv_def)
  from plru_update_total [OF inv, of 2 0 0 example_env4] obtain b' where
    u: "CacheSetPLRU_updateReplacementIndex 4 2 0 0 (replicate 8 0) example_env4 = Inr (b', example_env4)" by blast
  have "\<forall>i<4. isValid (example_blocks 4 ! i) \<and> isValidReplacement (example_blocks 4) i"
    using example_blocks_nth [of _ 4] by simp
  from CacheSetPLRU_keeps_last_access [OF inv _ this u] u show ?thesis by force
qed

section \<open>Random\<close>

definition random_inv :: "nat \<Rightarrow> UInt32 \<Rightarrow> bool" where
  "random_inv n sd \<longleftrightarrow> 0 < n"

lemma random_search_less:
  assumes "random_search n blocks sd = Some r" and "0 < n"
  shows "fst r < n"
proof -
  have "0 < n \<longrightarrow> fst r < n"
    by (rule random_search.raw_induct [where P = "\<lambda>n blocks sd r. 0 < n \<longrightarrow> fst r < n", OF _ assms(1)])
      (auto simp: Let_def split: option.splits prod.splits if_splits dest: first_invalid_Some)
  with assms(2) show ?thesis by simp
qed

interpretation random: invalid_first_policy random_inv CacheSetRandom_getReplacementIndex CacheSetRandom_updateReplacementIndex
proof
  fix n s blocks c f e si env i s' env'
  assume "random_inv n s" "CacheSetRandom_getReplacementIndex n c blocks f e si s env = Inr (i, s', env')"
  then show "i < n \<and> random_inv n s'"
    by (auto simp: random_inv_def CacheSetRandom_getReplacementIndex_def split: option.splits dest: random_search_less)
next
  fix n s a w si env s' env'
  assume "random_inv n s" "CacheSetRandom_updateReplacementIndex n a w si s env = Inr (s', env')"
  then show "random_inv n s'" by (simp add: random_inv_def)
next
  fix n s blocks k c f e si env
  assume "k < n" "\<not> isValid (blocks ! k)"
  from first_invalid_exists [OF this] obtain j where j: "first_invalid n blocks = Some j" ..
  then show "\<exists>i s' env'. CacheSetRandom_getReplacementIndex n c blocks f e si s env = Inr (i, s', env')
      \<and> i < n \<and> \<not> isValid (blocks ! i)"
    using first_invalid_Some [OF j]
    by (simp add: CacheSetRandom_getReplacementIndex_def random_search.simps [of n blocks])
qed

section \<open>Round robin\<close>

definition rr_inv :: "nat \<Rightarrow> nat \<Rightarrow> bool" where
  "rr_inv n p \<longleftrightarrow> p < n"

lemma rr_prev_less: "p < n \<Longrightarrow> rr_prev n p < n"
  by (auto simp: rr_prev_def)

lemma rr_search_in_set:
  "rr_search fuel n blocks p = Inr (i, p') \<Longrightarrow> p < n \<Longrightarrow> i < n \<and> p' < n \<and> p' = rr_prev n i \<and> isValidReplacement blocks p'"
  by (induction fuel arbitrary: p) (auto simp: Let_def rr_prev_less split: if_splits)

interpretation rr: victim_policy rr_inv CacheSetRoundRobin_getReplacementIndex CacheSetRoundRobin_updateReplacementIndex
proof
  fix n s blocks c f e si env i s' env'
  assume "rr_inv n s" "CacheSetRoundRobin_getReplacementIndex n c blocks f e si s env = Inr (i, s', env')"
  then show "i < n \<and> rr_inv n s'"
    by (auto simp: rr_inv_def CacheSetRoundRobin_getReplacementIndex_def dest: rr_search_in_set)
next
  fix n s a w si env s' env'
  assume "rr_inv n s" "CacheSetRoundRobin_updateReplacementIndex n a w si s env = Inr (s', env')"
  then show "rr_inv n s'" by (simp add: rr_inv_def CacheSetRoundRobin_updateReplacementIndex_def)
qed

lemma rr_search_below:
  "k < p \<Longrightarrow> p < n \<Longrightarrow> p - k \<le> fuel \<Longrightarrow> isValidReplacement blocks k \<Longrightarrow> \<exists>r. rr_search fuel n blocks p = Inr r"
proof (induction fuel arbitrary: p)
  case (Suc fuel)
  then have prev: "rr_prev n p = p - 1" by (simp add: rr_prev_def)
  show ?case
  proof (cases "isValidReplacement blocks (p - 1)")
    case False
    then have "k \<noteq> p - 1" using Suc.prems(4) by auto
    then have "\<exists>r. rr_search fuel n blocks (p - 1) = Inr r" using Suc.prems by (intro Suc.IH) auto
    with False prev show ?thesis by (simp add: Let_def)
  qed (simp add: Let_def prev)
qed simp

lemma rr_search_around:
  "p \<le> k \<Longrightarrow> k < n \<Longrightarrow> p + n - k \<le> fuel \<Longrightarrow> isValidReplacement blocks k \<Longrightarrow> \<exists>r. rr_search fuel n blocks p = Inr r"
proof (induction fuel arbitrary: p)
  case (Suc fuel)
  show ?case
  proof (cases "isValidReplacement blocks (rr_prev n p)")
    case False
    have "\<exists>r. rr_search fuel n blocks (rr_prev n p) = Inr r"
    proof (cases "p = 0")
      case True
      then have "k \<noteq> n - 1" using False Suc.prems(4) by (auto simp: rr_prev_def)
      then show ?thesis using Suc.prems True rr_search_below [of k "n - 1" n fuel blocks] by (simp add: rr_prev_def)
    next
      case False
      then show ?thesis using Suc.prems Suc.IH [of "p - 1"] by (simp add: rr_prev_def)
    qed
    with False show ?thesis by (simp add: Let_def)
  qed (simp add: Let_def)
qed simp

lemma rr_search_stuck: "\<forall>k<n. \<not> isValidReplacement blocks k \<Longrightarrow> p < n \<Longrightarrow> rr_search fuel n blocks p = Inl Diverges"
  by (induction fuel arbitrary: p) (auto simp: Let_def rr_prev_less)

text \<open>
  C33: The recursion of the round-robin policy ends exactly when some way of the set is replaceable:
  then one call for each way is enough, the answer is a way of the set and the pointer moves to
  the way before it, which is replaceable; otherwise no number of calls is enough.
\<close>

theorem CacheSetRoundRobin_terminates_iff:
  assumes "rr_inv n p"
  shows "((\<exists>k<n. isValidReplacement blocks k) \<longrightarrow>
      (\<exists>i p'. CacheSetRoundRobin_getReplacementIndex n cntlr blocks flag eip si p env = Inr (i, p', env)
         \<and> i < n \<and> p' = rr_prev n i \<and> isValidReplacement blocks p'))
    \<and> ((\<forall>k<n. \<not> isValidReplacement blocks k) \<longrightarrow> (\<forall>fuel. rr_search fuel n blocks p = Inl Diverges))"
proof -
  have p: "p < n" using assms by (simp add: rr_inv_def)
  have "\<exists>r. rr_search n n blocks p = Inr r" if "k < n" "isValidReplacement blocks k" for k
    using that p rr_search_below [of k p n n blocks] rr_search_around [of p k n n blocks]
    by (cases "k < p") auto
  then have "\<exists>i p'. rr_search n n blocks p = Inr (i, p') \<and> i < n \<and> p' = rr_prev n i \<and> isValidReplacement blocks p'"
    if "\<exists>k<n. isValidReplacement blocks k" using that rr_search_in_set [OF _ p] by (metis surj_pair)
  then show ?thesis using rr_search_stuck [OF _ p] by (auto simp: CacheSetRoundRobin_getReplacementIndex_def)
qed

theorem CacheSetRoundRobin_terminates_iff_witness:
  "\<exists>i p'. CacheSetRoundRobin_getReplacementIndex 2 None (example_blocks 2) 0 0 0 1 example_env = Inr (i, p', example_env)"
  using CacheSetRoundRobin_terminates_iff [of 2 1 "example_blocks 2" None 0 0 0 example_env]
    example_blocks_nth [of 1 2] by (auto simp: rr_inv_def)

text \<open>
  The round-robin policy tests the way it will use next time and not the way it returns: it can
  answer a way whose block is in state \<^verbatim>\<open>SHARED_UPGRADING\<close>, which is not a valid replacement.
\<close>

theorem CacheSetRoundRobin_returns_upgrading:
  "\<exists>blocks. CacheSetRoundRobin_getReplacementIndex 2 None blocks 0 0 0 1 env = Inr (1, 0, env)
     \<and> \<not> isValidReplacement blocks 1"
  by (intro exI [of _ "[CacheBlockInfo_new PR_L1_CACHE 1 C_SHARED 0, CacheBlockInfo_new PR_L1_CACHE 2 C_SHARED_UPGRADING 0]"])
    (simp add: CacheSetRoundRobin_getReplacementIndex_def rr_prev_def isValidReplacement_def
      CacheBlockInfo_new_def numeral_2_eq_2)

section \<open>SRRIP\<close>

definition srrip_inv :: "nat \<Rightarrow> CacheSetSRRIP \<Rightarrow> bool" where
  "srrip_inv n s \<longleftrightarrow> 0 < n \<and> n \<le> 256 \<and> length (srrip_bits s) = n \<and> unat (srrip_replacement_pointer s) < n
     \<and> srrip_insert s \<le> srrip_max s \<and> (\<forall>r\<in>set (srrip_bits s). r \<le> srrip_max s)"

lemma srrip_set_bit:
  "srrip_inv n s \<Longrightarrow> v \<le> srrip_max s \<Longrightarrow> srrip_inv n (s\<lparr>srrip_bits := (srrip_bits s)[i := v]\<rparr>)"
  using set_update_subset_insert [of "srrip_bits s" i v] by (auto simp: srrip_inv_def)

lemma srrip_set_ptr:
  "srrip_inv n s \<Longrightarrow> srrip_inv n (s\<lparr>srrip_replacement_pointer := ptr_next n p\<rparr>)"
  by (simp add: srrip_inv_def ptr_next_unat)

lemma word_Suc_le: "(r :: UInt8) < m \<Longrightarrow> r + 1 \<le> m"
proof -
  assume "r < m"
  then have lt: "unat r < unat m" by (simp add: word_less_nat_alt)
  moreover have "unat m < 2 ^ 8" using unsigned_less [of m, where ?'a = nat] by simp
  ultimately have "unat (r + 1) = Suc (unat r)" by (intro unat_word_Suc) simp
  with lt show ?thesis by (simp add: word_le_nat_alt)
qed

lemma srrip_age_inv: "srrip_inv n s \<Longrightarrow> srrip_inv n (srrip_age s)"
  by (auto simp: srrip_inv_def srrip_age_def word_Suc_le)

lemma srrip_round_inv:
  "srrip_round k n c blocks attempt s env = Inr (found, attempt', s', env') \<Longrightarrow> srrip_inv n s \<Longrightarrow>
     srrip_inv n s' \<and> (\<forall>i. found = Some i \<longrightarrow> i < n)"
proof (induction k arbitrary: attempt s env)
  case (Suc k)
  let ?p = "srrip_replacement_pointer s" and ?i = "unat (srrip_replacement_pointer s)"
  have i: "?i < n" and ins: "srrip_insert s \<le> srrip_max s" using Suc.prems(2) by (simp_all add: srrip_inv_def)
  note zero = srrip_set_bit [OF Suc.prems(2), of 0 ?i] and moved = srrip_set_ptr [OF Suc.prems(2), of ?p]
  have accept: "srrip_inv n (s\<lparr>srrip_replacement_pointer := ptr_next n ?p, srrip_bits := (srrip_bits s)[?i := srrip_insert s]\<rparr>)"
    using srrip_set_bit [OF moved, of "srrip_insert s" ?i] ins by simp
  show ?case
  proof (cases "srrip_bits s ! ?i \<ge> srrip_max s")
    case False
    then have "srrip_round k n c blocks attempt (s\<lparr>srrip_replacement_pointer := ptr_next n ?p\<rparr>) env =
        Inr (found, attempt', s', env')" using Suc.prems(1) by (simp add: Let_def)
    then show ?thesis by (rule Suc.IH [OF _ moved])
  next
    case True
    then have "srrip_round k n c blocks (attempt + 1) (s\<lparr>srrip_bits := (srrip_bits s)[?i := 0]\<rparr>)
               (env\<lparr>re_qbs_lookups := re_qbs_lookups env + 1\<rparr>) = Inr (found, attempt', s', env')
        \<or> found = Some ?i \<and> s' = s\<lparr>srrip_replacement_pointer := ptr_next n ?p, srrip_bits := (srrip_bits s)[?i := srrip_insert s]\<rparr>"
      using Suc.prems(1) by (auto simp: Let_def split: if_splits)
    then show ?thesis using Suc.IH [OF _ zero] accept i by auto
  qed
qed simp

lemma srrip_rounds_inv:
  "srrip_rounds j n c blocks attempt s env = Inr (i, s', env') \<Longrightarrow> srrip_inv n s \<Longrightarrow> i < n \<and> srrip_inv n s'"
proof (induction j arbitrary: attempt s env)
  case (Suc j)
  then show ?case by (auto split: option.splits dest!: srrip_round_inv dest: srrip_age_inv)
qed simp

interpretation srrip: invalid_first_policy srrip_inv CacheSetSRRIP_getReplacementIndex CacheSetSRRIP_updateReplacementIndex
proof
  fix n s blocks c f e si env i s' env'
  assume a: "srrip_inv n s" "CacheSetSRRIP_getReplacementIndex n c blocks f e si s env = Inr (i, s', env')"
  have "srrip_insert s \<le> srrip_max s" using a(1) by (simp add: srrip_inv_def)
  from srrip_set_bit [OF a(1) this] a show "i < n \<and> srrip_inv n s'"
    by (auto simp: CacheSetSRRIP_getReplacementIndex_def split: option.splits
        dest: first_invalid_Some srrip_rounds_inv simp del: srrip_rounds.simps)
next
  fix n s a w si env s' env'
  assume a: "srrip_inv n s" "a < n" "CacheSetSRRIP_updateReplacementIndex n a w si s env = Inr (s', env')"
  have "srrip_bits s ! a \<le> srrip_max s" using a(1,2) by (simp add: srrip_inv_def)
  then have "srrip_bits s ! a - 1 \<le> srrip_max s" if "0 < srrip_bits s ! a"
    using that by (auto simp: word_le_nat_alt word_less_nat_alt unat_minus_one unat_gt_0)
  with a srrip_set_bit [OF a(1), of "srrip_bits s ! a - 1" a] show "srrip_inv n s'"
    by (auto simp: CacheSetSRRIP_updateReplacementIndex_def Let_def split: if_splits)
next
  fix n s blocks k c f e si env
  assume "k < n" "\<not> isValid (blocks ! k)"
  from first_invalid_exists [OF this] obtain j where j: "first_invalid n blocks = Some j" ..
  then show "\<exists>i s' env'. CacheSetSRRIP_getReplacementIndex n c blocks f e si s env = Inr (i, s', env')
      \<and> i < n \<and> \<not> isValid (blocks ! i)"
    using first_invalid_Some [OF j] by (simp add: CacheSetSRRIP_getReplacementIndex_def)
qed

text \<open>Without query-based selection one round is the rotating search for a saturated counter.\<close>

lemma srrip_round_search:
  assumes "srrip_inv n s" and "srrip_num_attempts s = 1" and "attempts_ready 1 env"
    and "\<forall>i<n. isValidReplacement blocks i"
  shows "case rotating_search k n (\<lambda>i. srrip_bits s ! i \<ge> srrip_max s) (srrip_replacement_pointer s) of
      (Some i, p) \<Rightarrow> \<exists>s' env'. srrip_round k n c blocks 0 s env = Inr (Some i, 0, s', env')
    | (None, p) \<Rightarrow> srrip_round k n c blocks 0 s env = Inr (None, 0, s\<lparr>srrip_replacement_pointer := p\<rparr>, env)"
  using assms(1,2)
proof (induction k arbitrary: s)
  case (Suc k)
  let ?p = "srrip_replacement_pointer s"
  let ?s = "s\<lparr>srrip_replacement_pointer := ptr_next n ?p\<rparr>"
  have p: "unat ?p < n" using Suc.prems(1) by (simp add: srrip_inv_def)
  show ?case
  proof (cases "srrip_bits s ! unat ?p \<ge> srrip_max s")
    case True
    obtain env' where "set_info_op (CacheSetInfoLRU_incrementAttempt 0) env = Inr env'"
      using single_attempt_recorded [OF assms(3)] by blast
    with True p assms(4) Suc.prems(2) show ?thesis by (simp add: Let_def)
  next
    case False
    have ih: "case rotating_search k n (\<lambda>i. srrip_bits ?s ! i \<ge> srrip_max ?s) (srrip_replacement_pointer ?s) of
        (Some i, p) \<Rightarrow> \<exists>s' env'. srrip_round k n c blocks 0 ?s env = Inr (Some i, 0, s', env')
      | (None, p) \<Rightarrow> srrip_round k n c blocks 0 ?s env = Inr (None, 0, ?s\<lparr>srrip_replacement_pointer := p\<rparr>, env)"
      using Suc.prems by (intro Suc.IH srrip_set_ptr) simp_all
    then show ?thesis using False by (simp add: Let_def split: prod.splits option.splits)
  qed
qed simp

lemma srrip_rounds_victim:
  assumes "srrip_inv n s" and "srrip_num_attempts s = 1" and "attempts_ready 1 env"
    and "\<forall>i<n. isValidReplacement blocks i" and "j < n" and "unat (srrip_max s) < unat (srrip_bits s ! j) + rounds"
  shows "\<exists>i s' env'. srrip_rounds rounds n c blocks 0 s env = Inr (i, s', env') \<and> i < n
    \<and> (\<forall>w<n. srrip_bits s ! w \<le> srrip_bits s ! i)"
  using assms(1,2,6)
proof (induction rounds arbitrary: s)
  case 0
  then have "unat (srrip_bits s ! j) \<le> unat (srrip_max s)"
    using assms(5) by (simp add: srrip_inv_def flip: word_le_nat_alt)
  with 0 show ?case by simp
next
  case (Suc rounds)
  let ?cand = "\<lambda>i. srrip_bits s ! i \<ge> srrip_max s" and ?p = "srrip_replacement_pointer s"
  have inv: "0 < n" "n \<le> 256" "unat ?p < n" "length (srrip_bits s) = n" using Suc.prems(1) by (simp_all add: srrip_inv_def)
  have le_max: "srrip_bits s ! w \<le> srrip_max s" if "w < n" for w
    using Suc.prems(1) that by (simp add: srrip_inv_def)
  note round = srrip_round_search [OF Suc.prems(1,2) assms(3,4), of n c]
  show ?case
  proof (cases "\<exists>k<n. ?cand k")
    case True
    then obtain i p where i: "rotating_search n n ?cand ?p = (Some i, p)" "i < n" "?cand i"
      using rotating_search_complete [OF inv(1-3), of _ ?cand] by blast
    with round have "\<exists>s' env'. srrip_rounds (Suc rounds) n c blocks 0 s env = Inr (i, s', env')" by auto
    moreover have "\<forall>w<n. srrip_bits s ! w \<le> srrip_bits s ! i" using le_max i(3) order_trans by blast
    ultimately show ?thesis using i(2) by blast
  next
    case False
    obtain r p where rs: "rotating_search n n ?cand ?p = (r, p)" by fastforce
    with rotating_search_Some [OF inv(1,2) rs inv(3)] False have r: "r = None" "unat p < n" by (auto, cases r, auto)
    let ?s = "s\<lparr>srrip_replacement_pointer := p\<rparr>"
    have step: "srrip_rounds (Suc rounds) n c blocks 0 s env = srrip_rounds rounds n c blocks 0 (srrip_age ?s) env"
      using round rs r(1) by simp
    have aged: "unat (srrip_bits (srrip_age ?s) ! w) = Suc (unat (srrip_bits s ! w))" if "w < n" for w
    proof -
      have lt: "srrip_bits s ! w < srrip_max s" using False that by (simp add: not_le)
      then have "unat (srrip_bits s ! w + 1) = Suc (unat (srrip_bits s ! w))"
        using unsigned_less [of "srrip_max s", where ?'a = nat]
        by (intro unat_word_Suc) (simp add: word_less_nat_alt)
      with lt that inv(4) show ?thesis by (simp add: srrip_age_def)
    qed
    have "srrip_inv n (srrip_age ?s)" using Suc.prems(1) r(2) by (intro srrip_age_inv) (simp add: srrip_inv_def)
    moreover have "srrip_num_attempts (srrip_age ?s) = 1" "srrip_max (srrip_age ?s) = srrip_max s"
      using Suc.prems(2) by (simp_all add: srrip_age_def)
    ultimately obtain i s' env' where "srrip_rounds rounds n c blocks 0 (srrip_age ?s) env = Inr (i, s', env')" "i < n"
      "\<forall>w<n. srrip_bits (srrip_age ?s) ! w \<le> srrip_bits (srrip_age ?s) ! i"
      using Suc.IH [of "srrip_age ?s"] Suc.prems(3) aged [OF assms(5)] by auto
    then show ?thesis unfolding step using aged by (auto simp: word_le_nat_alt)
  qed
qed

text \<open>
  Static RRIP always finds a victim. Without query-based selection, on a full set of
  replaceable blocks, the \<open>m_rrip_max + 1\<close> rounds of the search suffice, and the victim has the
  largest re-reference prediction of the set.
\<close>

theorem CacheSetSRRIP_finds_victim:
  assumes "srrip_inv n s" and "srrip_num_attempts s = 1" and "attempts_ready 1 env"
    and "\<forall>i<n. isValid (blocks ! i) \<and> isValidReplacement blocks i"
  shows "\<exists>i s' env'. CacheSetSRRIP_getReplacementIndex n cntlr blocks flag eip set_index s env = Inr (i, s', env')
     \<and> i < n \<and> (\<forall>w<n. srrip_bits s ! w \<le> srrip_bits s ! i)"
proof -
  have n: "0 < n" using assms(1) by (simp add: srrip_inv_def)
  have "\<exists>i s' env'. srrip_rounds (unat (srrip_max s) + 1) n cntlr blocks 0 s env = Inr (i, s', env') \<and> i < n
      \<and> (\<forall>w<n. srrip_bits s ! w \<le> srrip_bits s ! i)"
    by (rule srrip_rounds_victim [OF assms(1-3) _ n]) (use assms(4) in simp_all)
  then show ?thesis using assms(4)
    by (simp add: CacheSetSRRIP_getReplacementIndex_def first_invalid_None [THEN iffD2] del: srrip_rounds.simps)
qed

theorem CacheSetSRRIP_finds_victim_witness:
  "\<exists>i s' env'. CacheSetSRRIP_getReplacementIndex 4 None (example_blocks 4) 0 0 0 (CacheSetSRRIP_create 2 4 1) example_env4
     = Inr (i, s', env') \<and> i < 4"
proof -
  have "srrip_inv 4 (CacheSetSRRIP_create 2 4 1)" "srrip_num_attempts (CacheSetSRRIP_create 2 4 1) = 1"
    by (simp_all add: srrip_inv_def CacheSetSRRIP_create_def Let_def)
  from CacheSetSRRIP_finds_victim [OF this example_env4_ready(1), of "example_blocks 4"] example_blocks_nth [of _ 4]
  show ?thesis by force
qed

end
