(* ===== verification/Cache_Set.thy ===== *)
theory Cache_Set
  imports Repl_Other
begin

text \<open>
  \<^verbatim>\<open>CacheSet\<close> (\<^verbatim>\<open>cache/cache_set.cc\<close>). The virtual functions \<^verbatim>\<open>getReplacementIndex\<close> and
  \<^verbatim>\<open>updateReplacementIndex\<close> are arguments of the operations that call them, so the
  properties of the set are proved once, inside the locale \<open>victim_policy\<close>, from the interface
  alone; the policy object of a running simulator is the sum type \<open>repl_state\<close> with the
  dispatching functions, and is an interpretation of that locale.
\<close>

section \<open>Policy objects\<close>

datatype repl_state =
    RRoundRobin nat | RLRU CacheSetLRU | RLRUNEW CacheSetLRU | RPHC CacheSetPHC
  | RLRUL3 CacheSetLRULoop | RLRUL2 CacheSetLRULoop | RNRU CacheSetNRU | RMRU "UInt8 list"
  | RNMRU CacheSetNMRU | RPLRU "UInt8 list" | RSRRIP CacheSetSRRIP | RRandom UInt32

definition wrap_get :: "('s \<Rightarrow> repl_state) \<Rightarrow> (nat \<times> 's \<times> repl_env) result \<Rightarrow> (nat \<times> repl_state \<times> repl_env) result" where
  "wrap_get C r = bindR r (\<lambda>(i, s, env). Inr (i, C s, env))"

definition wrap_upd :: "('s \<Rightarrow> repl_state) \<Rightarrow> ('s \<times> repl_env) result \<Rightarrow> (repl_state \<times> repl_env) result" where
  "wrap_upd C r = bindR r (\<lambda>(s, env). Inr (C s, env))"

primrec getReplacementIndex :: "nat \<Rightarrow> cntlr \<Rightarrow> CacheBlockInfo list \<Rightarrow> UInt8 \<Rightarrow> IntPtr \<Rightarrow> UInt32 \<Rightarrow> repl_state \<Rightarrow>
    repl_env \<Rightarrow> (nat \<times> repl_state \<times> repl_env) result" where
  "getReplacementIndex n c bs f e si (RRoundRobin s) = (\<lambda>env. wrap_get RRoundRobin (CacheSetRoundRobin_getReplacementIndex n c bs f e si s env))"
| "getReplacementIndex n c bs f e si (RLRU s) = (\<lambda>env. wrap_get RLRU (CacheSetLRU_getReplacementIndex n c bs f e si s env))"
| "getReplacementIndex n c bs f e si (RLRUNEW s) = (\<lambda>env. wrap_get RLRUNEW (CacheSetLRUNEW_getReplacementIndex n c bs f e si s env))"
| "getReplacementIndex n c bs f e si (RPHC s) = (\<lambda>env. wrap_get RPHC (CacheSetPHC_getReplacementIndex n c bs f e si s env))"
| "getReplacementIndex n c bs f e si (RLRUL3 s) = (\<lambda>env. wrap_get RLRUL3 (CacheSetLRUL3_getReplacementIndex n c bs f e si s env))"
| "getReplacementIndex n c bs f e si (RLRUL2 s) = (\<lambda>env. wrap_get RLRUL2 (CacheSetLRUL2_getReplacementIndex n c bs f e si s env))"
| "getReplacementIndex n c bs f e si (RNRU s) = (\<lambda>env. wrap_get RNRU (CacheSetNRU_getReplacementIndex n c bs f e si s env))"
| "getReplacementIndex n c bs f e si (RMRU s) = (\<lambda>env. wrap_get RMRU (CacheSetMRU_getReplacementIndex n c bs f e si s env))"
| "getReplacementIndex n c bs f e si (RNMRU s) = (\<lambda>env. wrap_get RNMRU (CacheSetNMRU_getReplacementIndex n c bs f e si s env))"
| "getReplacementIndex n c bs f e si (RPLRU s) = (\<lambda>env. wrap_get RPLRU (CacheSetPLRU_getReplacementIndex n c bs f e si s env))"
| "getReplacementIndex n c bs f e si (RSRRIP s) = (\<lambda>env. wrap_get RSRRIP (CacheSetSRRIP_getReplacementIndex n c bs f e si s env))"
| "getReplacementIndex n c bs f e si (RRandom s) = (\<lambda>env. wrap_get RRandom (CacheSetRandom_getReplacementIndex n c bs f e si s env))"

primrec updateReplacementIndex :: "nat \<Rightarrow> nat \<Rightarrow> UInt8 \<Rightarrow> UInt32 \<Rightarrow> repl_state \<Rightarrow> repl_env \<Rightarrow> (repl_state \<times> repl_env) result" where
  "updateReplacementIndex n a w si (RRoundRobin s) = (\<lambda>env. wrap_upd RRoundRobin (CacheSetRoundRobin_updateReplacementIndex n a w si s env))"
| "updateReplacementIndex n a w si (RLRU s) = (\<lambda>env. wrap_upd RLRU (CacheSetLRU_updateReplacementIndex n a w si s env))"
| "updateReplacementIndex n a w si (RLRUNEW s) = (\<lambda>env. wrap_upd RLRUNEW (CacheSetLRUNEW_updateReplacementIndex n a w si s env))"
| "updateReplacementIndex n a w si (RPHC s) = (\<lambda>env. wrap_upd RPHC (CacheSetPHC_updateReplacementIndex n a w si s env))"
| "updateReplacementIndex n a w si (RLRUL3 s) = (\<lambda>env. wrap_upd RLRUL3 (CacheSetLRUL3_updateReplacementIndex n a w si s env))"
| "updateReplacementIndex n a w si (RLRUL2 s) = (\<lambda>env. wrap_upd RLRUL2 (CacheSetLRUL2_updateReplacementIndex n a w si s env))"
| "updateReplacementIndex n a w si (RNRU s) = (\<lambda>env. wrap_upd RNRU (CacheSetNRU_updateReplacementIndex n a w si s env))"
| "updateReplacementIndex n a w si (RMRU s) = (\<lambda>env. wrap_upd RMRU (CacheSetMRU_updateReplacementIndex n a w si s env))"
| "updateReplacementIndex n a w si (RNMRU s) = (\<lambda>env. wrap_upd RNMRU (CacheSetNMRU_updateReplacementIndex n a w si s env))"
| "updateReplacementIndex n a w si (RPLRU s) = (\<lambda>env. wrap_upd RPLRU (CacheSetPLRU_updateReplacementIndex n a w si s env))"
| "updateReplacementIndex n a w si (RSRRIP s) = (\<lambda>env. wrap_upd RSRRIP (CacheSetSRRIP_updateReplacementIndex n a w si s env))"
| "updateReplacementIndex n a w si (RRandom s) = (\<lambda>env. wrap_upd RRandom (CacheSetRandom_updateReplacementIndex n a w si s env))"

text \<open>Only the L3 policy has a body for \<^verbatim>\<open>updateLoopBitPolicy\<close>.\<close>

definition updateLoopBitPolicy :: "nat \<Rightarrow> UInt8 \<Rightarrow> repl_state \<Rightarrow> repl_state" where
  "updateLoopBitPolicy index loopbit st =
     (case st of RLRUL3 s \<Rightarrow> RLRUL3 (CacheSetLRUL3_updateLoopBitPolicy index loopbit s) | _ \<Rightarrow> st)"

section \<open>Creation\<close>

datatype ReplacementPolicy =
    ROUND_ROBIN | LRU | LRU_QBS | NRU | MRU | NMRU | PLRU | SRRIP | SRRIP_QBS | RANDOM
  | NUM_REPLACEMENT_POLICIES | LRU_NEW | LRU_L3 | LRU_L2 | PHC

definition parsePolicyType :: "string \<Rightarrow> ReplacementPolicy result" where
  "parsePolicyType policy =
     (if policy = ''round_robin'' then Inr ROUND_ROBIN
      else if policy = ''lru'' then Inr LRU
      else if policy = ''lrunew'' then Inr LRU_NEW
      else if policy = ''phc'' then Inr PHC
      else if policy = ''lrul3'' then Inr LRU_L3
      else if policy = ''lrul2'' then Inr LRU_L2
      else if policy = ''lru_qbs'' then Inr LRU_QBS
      else if policy = ''nru'' then Inr NRU
      else if policy = ''mru'' then Inr MRU
      else if policy = ''nmru'' then Inr NMRU
      else if policy = ''plru'' then Inr PLRU
      else if policy = ''srrip'' then Inr SRRIP
      else if policy = ''srrip_qbs'' then Inr SRRIP_QBS
      else if policy = ''random'' then Inr RANDOM
      else Inl (LogError ''Unknown replacement policy''))"

text \<open>
  What the constructors read from elsewhere: the configuration values \<^verbatim>\<open>qbs/attempts\<close> and
  \<^verbatim>\<open>srrip/bits\<close>, the time that seeds the random policy, and whether there is a fault injection
  manager (only then a set stores data).
\<close>

record repl_config =
  rc_qbs_attempts :: UInt8
  rc_srrip_bits :: UInt8
  rc_time :: UInt32
  rc_fault_injection :: bool

definition getNumQBSAttempts :: "ReplacementPolicy \<Rightarrow> repl_config \<Rightarrow> UInt8" where
  "getNumQBSAttempts policy cfg =
     (case policy of LRU_QBS \<Rightarrow> rc_qbs_attempts cfg | SRRIP_QBS \<Rightarrow> rc_qbs_attempts cfg | _ \<Rightarrow> 1)"

definition create_policy :: "repl_config \<Rightarrow> ReplacementPolicy \<Rightarrow> nat \<Rightarrow> repl_state result" where
  "create_policy cfg policy n =
     (let q = getNumQBSAttempts policy cfg
      in case policy of
           ROUND_ROBIN \<Rightarrow> Inr (RRoundRobin (CacheSetRoundRobin_create n))
         | LRU \<Rightarrow> Inr (RLRU (CacheSetLRU_create n q))
         | LRU_QBS \<Rightarrow> Inr (RLRU (CacheSetLRU_create n q))
         | LRU_NEW \<Rightarrow> Inr (RLRUNEW (CacheSetLRUNEW_create n q))
         | PHC \<Rightarrow> Inr (RPHC (CacheSetPHC_create n q))
         | LRU_L3 \<Rightarrow> Inr (RLRUL3 (CacheSetLRUL3_create n q))
         | LRU_L2 \<Rightarrow> Inr (RLRUL2 (CacheSetLRUL2_create n q))
         | NRU \<Rightarrow> Inr (RNRU (CacheSetNRU_create n))
         | MRU \<Rightarrow> Inr (RMRU (CacheSetMRU_create n))
         | NMRU \<Rightarrow> Inr (RNMRU (CacheSetNMRU_create n))
         | PLRU \<Rightarrow> bindR (CacheSetPLRU_create n) (\<lambda>b. Inr (RPLRU b))
         | SRRIP \<Rightarrow> Inr (RSRRIP (CacheSetSRRIP_create (rc_srrip_bits cfg) n q))
         | SRRIP_QBS \<Rightarrow> Inr (RSRRIP (CacheSetSRRIP_create (rc_srrip_bits cfg) n q))
         | RANDOM \<Rightarrow> Inr (RRandom (rc_time cfg))
         | NUM_REPLACEMENT_POLICIES \<Rightarrow> Inl (LogError ''Unrecognized Cache Replacement Policy''))"

record 'p CacheSet =
  cs_blocks :: "CacheBlockInfo list"
  cs_data :: "UInt8 list option"
  cs_associativity :: nat
  cs_blocksize :: UInt32
  cs_policy :: 'p

definition createCacheSet :: "repl_config \<Rightarrow> string \<Rightarrow> cache_t \<Rightarrow> nat \<Rightarrow> UInt32 \<Rightarrow> repl_state CacheSet result" where
  "createCacheSet cfg replacement_policy cache_type assoc blocksize =
     bindR (parsePolicyType replacement_policy) (\<lambda>policy.
     bindR (CacheBlockInfo_create cache_type) (\<lambda>b.
     bindR (create_policy cfg policy assoc) (\<lambda>st.
     Inr \<lparr>cs_blocks = replicate assoc b,
          cs_data = (if rc_fault_injection cfg then Some (replicate (assoc * unat blocksize) 0) else None),
          cs_associativity = assoc, cs_blocksize = blocksize, cs_policy = st\<rparr>)))"

definition createCacheSetInfo :: "repl_config \<Rightarrow> string \<Rightarrow> nat \<Rightarrow> CacheSetInfoLRU option result" where
  "createCacheSetInfo cfg replacement_policy assoc =
     bindR (parsePolicyType replacement_policy) (\<lambda>policy.
     Inr (if policy \<in> {LRU, LRU_QBS, LRU_NEW, LRU_L3, LRU_L2, PHC, SRRIP, SRRIP_QBS}
          then Some (CacheSetInfoLRU_create assoc (getNumQBSAttempts policy cfg)) else None))"

section \<open>Operations\<close>

text \<open>
  \<^verbatim>\<open>find\<close> and its two copies search from the highest way down. A found block is given by its way.
\<close>

definition CacheSet_find :: "IntPtr \<Rightarrow> 'p CacheSet \<Rightarrow> nat option" where
  "CacheSet_find tag s = last_index (\<lambda>i. cbi_tag (cs_blocks s ! i) = tag) (cs_associativity s)"

definition CacheSet_invalidate :: "IntPtr \<Rightarrow> 'p CacheSet \<Rightarrow> bool \<times> 'p CacheSet" where
  "CacheSet_invalidate tag s =
     (case last_index (\<lambda>i. cbi_tag (cs_blocks s ! i) = tag) (cs_associativity s) of
        Some i \<Rightarrow> (True, s\<lparr>cs_blocks := (cs_blocks s)[i := CacheBlockInfo_invalidate (cs_blocks s ! i)]\<rparr>)
      | None \<Rightarrow> (False, s))"

definition getBlockIndexForGivenTag :: "IntPtr \<Rightarrow> 'p CacheSet \<Rightarrow> nat result" where
  "getBlockIndexForGivenTag tagToFind s =
     (case last_index (\<lambda>i. cbi_tag (cs_blocks s ! i) = tagToFind) (cs_associativity s) of
        Some i \<Rightarrow> Inr i
      | None \<Rightarrow> Inl (AssertFail ''blockIndex != -1''))"

text \<open>A NULL buffer is \<open>None\<close>.\<close>

definition CacheSet_read_line ::
  "'p upd_replacement \<Rightarrow> nat \<Rightarrow> UInt32 \<Rightarrow> UInt8 list option \<Rightarrow> UInt32 \<Rightarrow> bool \<Rightarrow> UInt32 \<Rightarrow> 'p CacheSet \<Rightarrow> repl_env \<Rightarrow>
     (UInt8 list option \<times> 'p CacheSet \<times> repl_env) result" where
  "CacheSet_read_line upd line_index offset out_buff bytes update_replacement set_index s env =
     bindR (assertR (offset + bytes \<le> cs_blocksize s) ''offset + bytes <= m_blocksize'') (\<lambda>_.
     let out' = (case (out_buff, cs_data s) of
                   (Some out, Some d) \<Rightarrow>
                     Some (memcpy_at 0 (take (unat bytes) (drop (line_index * unat (cs_blocksize s) + unat offset) d)) out)
                 | _ \<Rightarrow> out_buff)
     in if update_replacement
        then bindR (upd (cs_associativity s) line_index 0 set_index (cs_policy s) env) (\<lambda>(st, env).
             Inr (out', s\<lparr>cs_policy := st\<rparr>, env))
        else Inr (out', s, env))"

definition CacheSet_write_line ::
  "'p upd_replacement \<Rightarrow> nat \<Rightarrow> UInt32 \<Rightarrow> UInt8 list option \<Rightarrow> UInt32 \<Rightarrow> bool \<Rightarrow> UInt32 \<Rightarrow> 'p CacheSet \<Rightarrow> repl_env \<Rightarrow>
     ('p CacheSet \<times> repl_env) result" where
  "CacheSet_write_line upd line_index offset in_buff bytes update_replacement set_index s env =
     bindR (assertR (offset + bytes \<le> cs_blocksize s) ''offset + bytes <= m_blocksize'') (\<lambda>_.
     let s = (case (in_buff, cs_data s) of
                (Some src, Some d) \<Rightarrow>
                  s\<lparr>cs_data := Some (memcpy_at (line_index * unat (cs_blocksize s) + unat offset) (take (unat bytes) src) d)\<rparr>
              | _ \<Rightarrow> s)
     in if update_replacement
        then bindR (upd (cs_associativity s) line_index 1 set_index (cs_policy s) env) (\<lambda>(st, env).
             Inr (s\<lparr>cs_policy := st\<rparr>, env))
        else Inr (s, env))"

text \<open>
  The results of \<^verbatim>\<open>insert2\<close> are \<^verbatim>\<open>*eviction\<close>, the evicted block info, the eviction buffer, the set and
  the environment. The caller's \<^verbatim>\<open>eviction\<close> pointer is never NULL.
\<close>

definition CacheSet_insert2 ::
  "'p get_replacement \<Rightarrow> CacheBlockInfo \<Rightarrow> UInt8 list option \<Rightarrow> CacheBlockInfo \<Rightarrow> UInt8 list option \<Rightarrow> cntlr \<Rightarrow>
     UInt8 \<Rightarrow> IntPtr \<Rightarrow> UInt32 \<Rightarrow> 'p CacheSet \<Rightarrow> repl_env \<Rightarrow>
     (bool \<times> CacheBlockInfo \<times> UInt8 list option \<times> 'p CacheSet \<times> repl_env) result" where
  "CacheSet_insert2 get cache_block_info fill_buff evict_block_info evict_buff cntlr write_flag eip set_index s env =
     bindR (get (cs_associativity s) cntlr (cs_blocks s) write_flag eip set_index (cs_policy s) env)
       (\<lambda>(index, st, env).
        bindR (assertR (index < cs_associativity s) ''index < m_associativity'') (\<lambda>_.
        let old = cs_blocks s ! index;
            bs = unat (cs_blocksize s);
            eviction = isValid old;
            evict_block_info = (if eviction then CacheBlockInfo_clone old evict_block_info else evict_block_info);
            evict_buff = (case (evict_buff, cs_data s) of
                            (Some out, Some d) \<Rightarrow>
                              if eviction then Some (memcpy_at 0 (take bs (drop (index * bs) d)) out) else evict_buff
                          | _ \<Rightarrow> evict_buff);
            data = (case (fill_buff, cs_data s) of
                      (Some fill, Some d) \<Rightarrow> Some (memcpy_at (index * bs) (take bs fill) d)
                    | _ \<Rightarrow> cs_data s)
        in Inr (eviction, evict_block_info, evict_buff,
                s\<lparr>cs_blocks := (cs_blocks s)[index := CacheBlockInfo_clone cache_block_info old],
                  cs_data := data, cs_policy := st\<rparr>, env)))"

definition CacheSet_insert ::
  "'p get_replacement \<Rightarrow> CacheBlockInfo \<Rightarrow> UInt8 list option \<Rightarrow> CacheBlockInfo \<Rightarrow> UInt8 list option \<Rightarrow> cntlr \<Rightarrow>
     'p CacheSet \<Rightarrow> repl_env \<Rightarrow>
     (bool \<times> CacheBlockInfo \<times> UInt8 list option \<times> 'p CacheSet \<times> repl_env) result" where
  "CacheSet_insert get cache_block_info fill_buff evict_block_info evict_buff cntlr s env =
     CacheSet_insert2 get cache_block_info fill_buff evict_block_info evict_buff cntlr 100 0 0 s env"

text \<open>The loop of \<^verbatim>\<open>updateLoopBitSet\<close> runs upwards and remembers the last match.\<close>

definition updateLoopBitSet :: "IntPtr \<Rightarrow> UInt8 \<Rightarrow> repl_state CacheSet \<Rightarrow> repl_state CacheSet" where
  "updateLoopBitSet tag loopbit s =
     (let (count, temp_index) =
            for_upto (cs_associativity s)
              (\<lambda>i (count, temp_index). if cbi_tag (cs_blocks s ! i) = tag then (1 :: nat, i) else (count, temp_index)) (0, 0)
      in if count = 1 then s\<lparr>cs_policy := updateLoopBitPolicy temp_index loopbit (cs_policy s)\<rparr> else s)"

section \<open>The policy object keeps the interface\<close>

primrec pol_inv :: "nat \<Rightarrow> repl_state \<Rightarrow> bool" where
  "pol_inv n (RRoundRobin s) = rr_inv n s"
| "pol_inv n (RLRU s) = lru_inv n s"
| "pol_inv n (RLRUNEW s) = lru_inv n s"
| "pol_inv n (RPHC s) = phc_inv n s"
| "pol_inv n (RLRUL3 s) = loop_inv n s"
| "pol_inv n (RLRUL2 s) = loop_inv n s"
| "pol_inv n (RNRU s) = nru_inv n s"
| "pol_inv n (RMRU s) = mru_inv n s"
| "pol_inv n (RNMRU s) = nmru_inv n s"
| "pol_inv n (RPLRU s) = plru_inv n s"
| "pol_inv n (RSRRIP s) = srrip_inv n s"
| "pol_inv n (RRandom s) = random_inv n s"

lemma wrap_get_Inr: "wrap_get C r = Inr (i, st, env) \<longleftrightarrow> (\<exists>s. r = Inr (i, s, env) \<and> st = C s)"
  by (auto simp: wrap_get_def)

lemma wrap_upd_Inr: "wrap_upd C r = Inr (st, env) \<longleftrightarrow> (\<exists>s. r = Inr (s, env) \<and> st = C s)"
  by (auto simp: wrap_upd_def)

lemmas policies_get_in_set = rr.get_in_set lru.get_in_set lrunew.get_in_set phc.get_in_set lrul3.get_in_set
  lrul2.get_in_set nru.get_in_set mru.get_in_set nmru.get_in_set plru.get_in_set srrip.get_in_set random.get_in_set

lemmas policies_upd_inv = rr.upd_inv lru.upd_inv lrunew.upd_inv phc.upd_inv lrul3.upd_inv
  lrul2.upd_inv nru.upd_inv mru.upd_inv nmru.upd_inv plru.upd_inv srrip.upd_inv random.upd_inv

interpretation pol: victim_policy pol_inv getReplacementIndex updateReplacementIndex
proof
  fix n st blocks c f e si env i st' env'
  assume "pol_inv n st" "length blocks = n" "getReplacementIndex n c blocks f e si st env = Inr (i, st', env')"
  then show "i < n \<and> pol_inv n st'"
    by (cases st, simp_all add: wrap_get_Inr) (elim exE conjE, drule (2) policies_get_in_set, simp)+
next
  fix n st a w si env st' env'
  assume "pol_inv n st" "a < n" "updateReplacementIndex n a w si st env = Inr (st', env')"
  then show "pol_inv n st'"
    by (cases st, simp_all add: wrap_upd_Inr) (elim exE conjE, drule (2) policies_upd_inv, simp)+
qed

section \<open>The contents of a set\<close>

text \<open>
  The abstract view of a set is a finite map from tags to block infos, read off the ways without the
  lookup of the code: each valid way contributes its tag. \<open>~0\<close> marks an invalid way and is not a tag.
\<close>

definition set_contents :: "'p CacheSet \<Rightarrow> IntPtr \<Rightarrow> CacheBlockInfo option" where
  "set_contents s = map_of (map (\<lambda>b. (cbi_tag b, b)) (filter isValid (cs_blocks s)))"

definition set_ok :: "'p CacheSet \<Rightarrow> bool" where
  "set_ok s \<longleftrightarrow> length (cs_blocks s) = cs_associativity s
     \<and> (\<forall>i<cs_associativity s. \<forall>j<cs_associativity s.
          isValid (cs_blocks s ! i) \<and> cbi_tag (cs_blocks s ! i) = cbi_tag (cs_blocks s ! j) \<longrightarrow> i = j)
     \<and> (\<forall>d. cs_data s = Some d \<longrightarrow> length d = cs_associativity s * unat (cs_blocksize s))"

lemma set_ok_inj:
  assumes "set_ok s" and "i < cs_associativity s" and "j < cs_associativity s"
    and "isValid (cs_blocks s ! i)" and "cbi_tag (cs_blocks s ! i) = cbi_tag (cs_blocks s ! j)"
  shows "i = j"
  using assms by (simp add: set_ok_def)

lemma CacheSet_find_iff:
  assumes "set_ok s" and "tag \<noteq> NOT 0"
  shows "CacheSet_find tag s = Some i \<longleftrightarrow> i < cs_associativity s \<and> cbi_tag (cs_blocks s ! i) = tag"
proof
  assume "CacheSet_find tag s = Some i"
  then show "i < cs_associativity s \<and> cbi_tag (cs_blocks s ! i) = tag"
    unfolding CacheSet_find_def by (auto dest: last_index_Some)
next
  assume i: "i < cs_associativity s \<and> cbi_tag (cs_blocks s ! i) = tag"
  then obtain j where j: "CacheSet_find tag s = Some j"
    using last_index_None [of "\<lambda>i. cbi_tag (cs_blocks s ! i) = tag" "cs_associativity s"]
    by (cases "CacheSet_find tag s") (auto simp: CacheSet_find_def)
  then have "j < cs_associativity s \<and> cbi_tag (cs_blocks s ! j) = tag"
    unfolding CacheSet_find_def by (auto dest: last_index_Some)
  with i assms have "i = j" by (intro set_ok_inj [OF assms(1)]) (simp_all add: isValid_def)
  with j show "CacheSet_find tag s = Some i" by simp
qed

lemma set_contents_Some:
  assumes "set_ok s"
  shows "set_contents s tag = Some b \<longleftrightarrow>
    tag \<noteq> NOT 0 \<and> (\<exists>i<cs_associativity s. cs_blocks s ! i = b \<and> cbi_tag b = tag)"
proof -
  let ?bs = "filter isValid (cs_blocks s)"
  have mem: "b \<in> set ?bs \<longleftrightarrow> (\<exists>i<cs_associativity s. cs_blocks s ! i = b) \<and> isValid b" for b
    using assms by (auto simp: set_ok_def in_set_conv_nth)
  have inj: "b = b'" if "b \<in> set ?bs" "b' \<in> set ?bs" "cbi_tag b = cbi_tag b'" for b b'
    using that unfolding mem by (metis set_ok_inj [OF assms])
  have "set_contents s tag = Some b \<longleftrightarrow> b \<in> set ?bs \<and> cbi_tag b = tag"
  proof
    assume "set_contents s tag = Some b"
    then show "b \<in> set ?bs \<and> cbi_tag b = tag" unfolding set_contents_def by (auto dest!: map_of_SomeD)
  next
    assume b: "b \<in> set ?bs \<and> cbi_tag b = tag"
    then have "set_contents s tag \<noteq> None" unfolding set_contents_def map_of_eq_None_iff by force
    then obtain b' where "set_contents s tag = Some b'" by blast
    moreover from this have "b' \<in> set ?bs \<and> cbi_tag b' = tag" unfolding set_contents_def by (auto dest!: map_of_SomeD)
    ultimately show "set_contents s tag = Some b" using inj [of b b'] b by simp
  qed
  then show ?thesis unfolding mem by (auto simp: isValid_def)
qed

lemma set_contents_inval [simp]: "set_contents s (NOT 0) = None" "set_contents s (- 1) = None"
  by (auto simp: set_contents_def map_of_eq_None_iff isValid_def)

text \<open>The code's lookup, which scans the ways from the last, finds exactly what the map holds.\<close>

lemma set_contents_find:
  assumes "set_ok s" and "tag \<noteq> NOT 0"
  shows "set_contents s tag = map_option (\<lambda>i. cs_blocks s ! i) (CacheSet_find tag s)"
proof (cases "CacheSet_find tag s")
  case None
  with CacheSet_find_iff [OF assms] have "\<forall>b. set_contents s tag \<noteq> Some b"
    unfolding set_contents_Some [OF assms(1)] by (metis option.distinct(1))
  with None show ?thesis by simp
next
  case (Some i)
  with CacheSet_find_iff [OF assms, of i] have "i < cs_associativity s" "cbi_tag (cs_blocks s ! i) = tag" by simp_all
  with Some assms show ?thesis by (auto simp: set_contents_Some)
qed

lemma set_contents_None:
  assumes "set_ok s"
  shows "set_contents s tag = None \<longleftrightarrow> tag = NOT 0 \<or> (\<forall>i<cs_associativity s. cbi_tag (cs_blocks s ! i) \<noteq> tag)"
  using set_contents_Some [OF assms, of tag] by (metis not_None_eq)

lemma set_contents_at:
  "set_ok s \<Longrightarrow> i < cs_associativity s \<Longrightarrow> isValid (cs_blocks s ! i) \<Longrightarrow>
     set_contents s (cbi_tag (cs_blocks s ! i)) = Some (cs_blocks s ! i)"
  by (auto simp: set_contents_Some isValid_def)

text \<open>Replacing the block of one way changes the map at the old and the new tag only.\<close>

lemma set_contents_replace:
  assumes ok: "set_ok s" and i: "i < cs_associativity s"
    and fresh: "isValid b \<Longrightarrow> \<forall>j<cs_associativity s. j \<noteq> i \<longrightarrow> cbi_tag (cs_blocks s ! j) \<noteq> cbi_tag b"
    and data: "\<forall>d. dat = Some d \<longrightarrow> length d = cs_associativity s * unat (cs_blocksize s)"
  shows "set_ok (s\<lparr>cs_blocks := (cs_blocks s)[i := b], cs_data := dat, cs_policy := st\<rparr>)
    \<and> set_contents (s\<lparr>cs_blocks := (cs_blocks s)[i := b], cs_data := dat, cs_policy := st\<rparr>) =
      (if isValid b then ((set_contents s)(cbi_tag (cs_blocks s ! i) := None))(cbi_tag b \<mapsto> b)
       else (set_contents s)(cbi_tag (cs_blocks s ! i) := None))"
proof -
  let ?s = "s\<lparr>cs_blocks := (cs_blocks s)[i := b], cs_data := dat, cs_policy := st\<rparr>" and ?n = "cs_associativity s"
  have len: "length (cs_blocks s) = ?n" using ok by (simp add: set_ok_def)
  have inj: "j = k" if "j < ?n" "k < ?n" "isValid (cs_blocks s ! j)" "cbi_tag (cs_blocks s ! j) = cbi_tag (cs_blocks s ! k)" for j k
    using set_ok_inj [OF ok that] .
  have "isValid ((cs_blocks s)[i := b] ! j) \<and> cbi_tag ((cs_blocks s)[i := b] ! j) = cbi_tag ((cs_blocks s)[i := b] ! k) \<longrightarrow> j = k"
    if "j < ?n" "k < ?n" for j k
    using that inj [of j k] fresh i len by (auto simp: nth_list_update isValid_def)
  then have ok': "set_ok ?s" using len data by (simp add: set_ok_def)
  have "set_contents ?s tag = (if isValid b then ((set_contents s)(cbi_tag (cs_blocks s ! i) := None))(cbi_tag b \<mapsto> b)
       else (set_contents s)(cbi_tag (cs_blocks s ! i) := None)) tag" for tag
  proof (cases "tag = NOT 0")
    case True
    then show ?thesis by (auto simp: isValid_def)
  next
    case False
    have old: "set_contents s tag = Some x \<longleftrightarrow> (\<exists>j<?n. cs_blocks s ! j = x \<and> cbi_tag x = tag)" for x
      using set_contents_Some [OF ok] False by simp
    have new: "set_contents ?s tag = Some x \<longleftrightarrow> (\<exists>j<?n. (cs_blocks s)[i := b] ! j = x \<and> cbi_tag x = tag)" for x
      using set_contents_Some [OF ok'] False by simp
    show ?thesis
    proof (cases "cbi_tag b = tag")
      case True
      then have "set_contents ?s tag = Some b" unfolding new using i len by auto
      with True False show ?thesis by (simp add: isValid_def)
    next
      case ne: False
      have "set_contents ?s tag = Some x \<longleftrightarrow> tag \<noteq> cbi_tag (cs_blocks s ! i) \<and> set_contents s tag = Some x" for x
      proof
        assume "set_contents ?s tag = Some x"
        then obtain j where j: "j < ?n" "(cs_blocks s)[i := b] ! j = x" "cbi_tag x = tag" using new by blast
        with ne have "j \<noteq> i" using len by auto
        with j inj [of j i] i False show "tag \<noteq> cbi_tag (cs_blocks s ! i) \<and> set_contents s tag = Some x"
          unfolding old by (auto simp: isValid_def)
      next
        assume a: "tag \<noteq> cbi_tag (cs_blocks s ! i) \<and> set_contents s tag = Some x"
        then obtain j where "j < ?n" "cs_blocks s ! j = x" "cbi_tag x = tag" using old by blast
        with a show "set_contents ?s tag = Some x" unfolding new using i len
          by (intro exI [of _ j]) (auto simp: nth_list_update)
      qed
      then have "set_contents ?s tag = (if tag = cbi_tag (cs_blocks s ! i) then None else set_contents s tag)"
        by (metis not_None_eq)
      with ne show ?thesis by simp
    qed
  qed
  with ok' show ?thesis by (simp add: fun_eq_iff)
qed

lemma length_memcpy_at [simp]: "k + length src \<le> length dst \<Longrightarrow> length (memcpy_at k src dst) = length dst"
  by (simp add: memcpy_at_def)

lemma line_fits: "i < n \<Longrightarrow> i * b + b \<le> n * (b :: nat)"
proof -
  assume "i < n"
  then have "(i + 1) * b \<le> n * b" by (intro mult_le_mono1) simp
  then show ?thesis by simp
qed

lemma set_frame:
  assumes "set_ok s" and "cs_blocks s' = cs_blocks s" and "cs_associativity s' = cs_associativity s"
    and "cs_blocksize s' = cs_blocksize s" and "\<forall>d. cs_data s' = Some d \<longrightarrow> length d = cs_associativity s * unat (cs_blocksize s)"
  shows "set_ok s'" and "set_contents s' = set_contents s"
  using assms by (auto simp: set_ok_def set_contents_def)

section \<open>The operations on the contents, for every policy that keeps the interface\<close>

context victim_policy
begin

lemma insert2_contents:
  assumes ok: "set_ok s" and pol: "inv (cs_associativity s) (cs_policy s)"
    and tag: "cbi_tag b \<noteq> NOT 0" "set_contents s (cbi_tag b) = None"
    and ins: "CacheSet_insert2 get b fill ebi eb c w e si s env = Inr (ev, ebi', eb', s', env')"
  shows "\<exists>old\<in>set (cs_blocks s). set_ok s' \<and> inv (cs_associativity s') (cs_policy s')
    \<and> cs_associativity s' = cs_associativity s \<and> cs_blocksize s' = cs_blocksize s
    \<and> ev = isValid old \<and> ebi' = (if ev then CacheBlockInfo_clone old ebi else ebi)
    \<and> (ev \<longrightarrow> set_contents s (cbi_tag old) = Some old)
    \<and> set_contents s' = ((set_contents s)(cbi_tag old := None))(cbi_tag b \<mapsto> CacheBlockInfo_clone b old)"
proof -
  let ?n = "cs_associativity s"
  obtain i st env1 where g: "get ?n c (cs_blocks s) w e si (cs_policy s) env = Inr (i, st, env1)"
    using ins by (auto simp: CacheSet_insert2_def)
  have len: "length (cs_blocks s) = ?n" using ok by (simp add: set_ok_def)
  have i: "i < ?n" "inv ?n st" using get_in_set [OF pol len g] by simp_all
  let ?old = "cs_blocks s ! i"
  let ?new = "CacheBlockInfo_clone b ?old"
  define dat where "dat = (case (fill, cs_data s) of
      (Some f, Some d) \<Rightarrow> Some (memcpy_at (i * unat (cs_blocksize s)) (take (unat (cs_blocksize s)) f) d) | _ \<Rightarrow> cs_data s)"
  have s': "s' = s\<lparr>cs_blocks := (cs_blocks s)[i := ?new], cs_data := dat, cs_policy := st\<rparr>"
    and ev: "ev = isValid ?old" "ebi' = (if ev then CacheBlockInfo_clone ?old ebi else ebi)"
    using ins g i(1) by (auto simp: CacheSet_insert2_def Let_def dat_def)
  have "\<forall>d. dat = Some d \<longrightarrow> length d = ?n * unat (cs_blocksize s)"
    using ok line_fits [OF i(1), of "unat (cs_blocksize s)"]
    by (auto simp: dat_def set_ok_def split: option.splits)
  moreover have "\<forall>j<?n. j \<noteq> i \<longrightarrow> cbi_tag (cs_blocks s ! j) \<noteq> cbi_tag ?new"
    using tag set_contents_None [OF ok] by simp
  moreover have "isValid ?new" using tag(1) by (simp add: isValid_def)
  ultimately have "set_ok s'" "set_contents s' = ((set_contents s)(cbi_tag ?old := None))(cbi_tag b \<mapsto> ?new)"
    using set_contents_replace [OF ok i(1), of ?new dat st] s' by simp_all
  moreover have "?old \<in> set (cs_blocks s)" using i(1) len by simp
  moreover have "ev \<longrightarrow> set_contents s (cbi_tag ?old) = Some ?old" using ev(1) set_contents_at [OF ok i(1)] by simp
  ultimately show ?thesis using s' ev i(2) by (intro bexI [of _ ?old]) simp_all
qed

lemma read_line_contents:
  assumes "set_ok s" and "inv (cs_associativity s) (cs_policy s)" and "li < cs_associativity s"
    and "CacheSet_read_line upd li off out bytes u si s env = Inr (out', s', env')"
  shows "set_ok s' \<and> inv (cs_associativity s') (cs_policy s') \<and> set_contents s' = set_contents s
    \<and> cs_associativity s' = cs_associativity s \<and> cs_data s' = cs_data s \<and> cs_blocksize s' = cs_blocksize s"
proof -
  have f: "cs_blocks s' = cs_blocks s" "cs_associativity s' = cs_associativity s" "cs_blocksize s' = cs_blocksize s"
    "cs_data s' = cs_data s" "inv (cs_associativity s) (cs_policy s')"
    using assms(2,4) upd_inv [OF assms(2,3)] by (auto simp: CacheSet_read_line_def Let_def split: if_splits)
  then have "\<forall>d. cs_data s' = Some d \<longrightarrow> length d = cs_associativity s * unat (cs_blocksize s)"
    using assms(1) by (simp add: set_ok_def)
  with set_frame [OF assms(1) f(1-3)] f show ?thesis by simp
qed

lemma write_line_contents:
  assumes "set_ok s" and "inv (cs_associativity s) (cs_policy s)" and "li < cs_associativity s"
    and "unat off + unat bytes \<le> unat (cs_blocksize s)"
    and "CacheSet_write_line upd li off buff bytes u si s env = Inr (s', env')"
  shows "set_ok s' \<and> inv (cs_associativity s') (cs_policy s') \<and> set_contents s' = set_contents s
    \<and> cs_associativity s' = cs_associativity s \<and> cs_blocksize s' = cs_blocksize s"
proof -
  let ?b = "unat (cs_blocksize s)"
  define dat where "dat = (case (buff, cs_data s) of
      (Some src, Some d) \<Rightarrow> Some (memcpy_at (li * ?b + unat off) (take (unat bytes) src) d) | _ \<Rightarrow> cs_data s)"
  have f: "cs_blocks s' = cs_blocks s" "cs_associativity s' = cs_associativity s" "cs_blocksize s' = cs_blocksize s"
    "cs_data s' = dat" "inv (cs_associativity s) (cs_policy s')"
    using assms(2,5) upd_inv [OF assms(2,3)]
    by (auto simp: CacheSet_write_line_def Let_def dat_def split: if_splits option.splits)
  have "li * ?b + unat off + length (take (unat bytes) src) \<le> cs_associativity s * ?b" for src :: "UInt8 list"
    using line_fits [OF assms(3), of ?b] assms(4) by simp
  then have "\<forall>d. dat = Some d \<longrightarrow> length d = cs_associativity s * ?b"
    using assms(1) by (auto simp: dat_def set_ok_def split: option.splits)
  with set_frame [OF assms(1) f(1-3)] f show ?thesis by simp
qed

end

lemma invalidate_contents:
  assumes ok: "set_ok s" and tag: "tag \<noteq> NOT 0" and inv: "CacheSet_invalidate tag s = (hit, s')"
  shows "set_ok s' \<and> (hit \<longleftrightarrow> set_contents s tag \<noteq> None) \<and> set_contents s' = (set_contents s)(tag := None)
    \<and> cs_policy s' = cs_policy s \<and> cs_associativity s' = cs_associativity s"
proof (cases "CacheSet_find tag s")
  case None
  then have "hit = False" "s' = s" using inv by (auto simp: CacheSet_invalidate_def CacheSet_find_def)
  moreover have "set_contents s tag = None" using None ok tag by (simp add: set_contents_find)
  ultimately show ?thesis using ok by (simp add: fun_upd_idem)
next
  case (Some i)
  let ?b = "CacheBlockInfo_invalidate (cs_blocks s ! i)"
  have i: "i < cs_associativity s" "cbi_tag (cs_blocks s ! i) = tag" using CacheSet_find_iff [OF ok tag, of i] Some by simp_all
  have s': "hit" "s' = s\<lparr>cs_blocks := (cs_blocks s)[i := ?b], cs_data := cs_data s, cs_policy := cs_policy s\<rparr>"
    using inv Some by (auto simp: CacheSet_invalidate_def CacheSet_find_def)
  have "\<forall>d. cs_data s = Some d \<longrightarrow> length d = cs_associativity s * unat (cs_blocksize s)" using ok by (simp add: set_ok_def)
  with set_contents_replace [OF ok i(1), of ?b "cs_data s" "cs_policy s"] i(2) s' Some tag
  show ?thesis by (simp add: set_contents_find [OF ok])
qed

section \<open>Creation\<close>

definition policy_fits :: "repl_config \<Rightarrow> ReplacementPolicy \<Rightarrow> nat \<Rightarrow> bool" where
  "policy_fits cfg policy n \<longleftrightarrow> 0 < n \<and> n \<le> 256 \<and> (policy = PHC \<longrightarrow> 4 \<le> n)
     \<and> (policy \<in> {SRRIP, SRRIP_QBS} \<longrightarrow> 1 \<le> unat (rc_srrip_bits cfg) \<and> unat (rc_srrip_bits cfg) \<le> 8)"

lemma srrip_max_pos:
  assumes "1 \<le> k" "k \<le> 8"
  shows "(ucast (push_bit k (1 :: UInt32) - 1) :: UInt8) \<noteq> 0"
proof -
  have "k \<in> {1, 2, 3, 4, 5, 6, 7, 8}" using assms by auto
  then show ?thesis by auto
qed

lemma srrip_create_inv:
  assumes "0 < n" "n \<le> 256" "1 \<le> unat b" "unat b \<le> 8"
  shows "srrip_inv n (CacheSetSRRIP_create b n q)"
proof -
  let ?m = "ucast (push_bit (unat b) (1 :: UInt32) - 1) :: UInt8"
  have "?m \<noteq> 0" by (rule srrip_max_pos [OF assms(3,4)])
  then have "?m - 1 \<le> ?m" by (simp add: word_le_nat_alt unat_minus_one)
  with assms(1,2) show ?thesis by (simp add: srrip_inv_def CacheSetSRRIP_create_def Let_def del: push_bit_of_1)
qed

lemma create_policy_inv:
  assumes "policy_fits cfg policy n" and "create_policy cfg policy n = Inr st"
  shows "pol_inv n st"
proof -
  have n: "0 < n" "n \<le> 256" using assms(1) by (simp_all add: policy_fits_def)
  have "mru_inv n (CacheSetMRU_create n)" "nmru_inv n (CacheSetNMRU_create n)"
    using lru_perm_init [OF n(2)] n by (simp_all add: mru_inv_def nmru_inv_def CacheSetMRU_create_def CacheSetNMRU_create_def)
  moreover have "nru_inv n (CacheSetNRU_create n)" "rr_inv n (CacheSetRoundRobin_create n)" "random_inv n sd" for sd
    using n by (simp_all add: nru_inv_def CacheSetNRU_create_def rr_inv_def CacheSetRoundRobin_create_def random_inv_def)
  moreover have "plru_inv n b" if "CacheSetPLRU_create n = Inr b" for b
    using that by (auto simp: CacheSetPLRU_create_def plru_inv_def)
  ultimately show ?thesis using assms n create_inv [of n] srrip_create_inv [OF n]
    by (cases policy) (auto simp: create_policy_def Let_def policy_fits_def)
qed

lemma set_contents_empty:
  assumes "\<forall>b\<in>set (cs_blocks s). \<not> isValid b" and "length (cs_blocks s) = cs_associativity s"
    and "\<forall>d. cs_data s = Some d \<longrightarrow> length d = cs_associativity s * unat (cs_blocksize s)"
  shows "set_ok s \<and> set_contents s = Map.empty"
proof -
  have inval: "cbi_tag (cs_blocks s ! i) = NOT 0" if "i < cs_associativity s" for i
    using assms(1,2) that by (auto simp: isValid_def)
  then have ok: "set_ok s" using assms(2,3) by (simp add: set_ok_def isValid_def)
  have "set_contents s t = None" for t using inval set_contents_None [OF ok, of t] by metis
  with ok show ?thesis by (simp add: fun_eq_iff)
qed

text \<open>
  C36: Every cache set that \<^verbatim>\<open>createCacheSet\<close> builds, for whatever replacement policy the
  configuration names, is well formed, satisfies the invariant of its policy, and is empty, provided the
  set has the size that the policy can handle: at most 256 ways, whose numbers fit into bytes, at least four
  ways for PHC, and between one and eight bits for SRRIP.
\<close>

theorem createCacheSet_well_formed:
  assumes "createCacheSet cfg name kind n bs = Inr s" and "parsePolicyType name = Inr policy" and "policy_fits cfg policy n"
  shows "set_ok s \<and> pol_inv n (cs_policy s) \<and> cs_associativity s = n \<and> set_contents s = Map.empty"
proof -
  obtain b st where b: "CacheBlockInfo_create kind = Inr b" and st: "create_policy cfg policy n = Inr st"
    and s: "s = \<lparr>cs_blocks = replicate n b,
        cs_data = (if rc_fault_injection cfg then Some (replicate (n * unat bs) 0) else None),
        cs_associativity = n, cs_blocksize = bs, cs_policy = st\<rparr>"
    using assms(1,2) by (auto simp: createCacheSet_def)
  have "set_ok s \<and> set_contents s = Map.empty"
    using CacheBlockInfo_create_invalid [OF b] by (intro set_contents_empty) (auto simp: s)
  with create_policy_inv [OF assms(3) st] show ?thesis by (simp add: s)
qed

definition example_cfg :: repl_config where
  "example_cfg = \<lparr>rc_qbs_attempts = 4, rc_srrip_bits = 2, rc_time = 1, rc_fault_injection = True\<rparr>"

theorem createCacheSet_well_formed_witness:
  "\<exists>s. createCacheSet example_cfg ''plru'' PR_L1_CACHE 8 64 = Inr s \<and> set_ok s \<and> pol_inv 8 (cs_policy s)"
proof -
  have p: "parsePolicyType ''plru'' = Inr PLRU" by (simp add: parsePolicyType_def)
  then obtain s where "createCacheSet example_cfg ''plru'' PR_L1_CACHE 8 64 = Inr s"
    by (simp add: createCacheSet_def create_policy_def CacheSetPLRU_create_def CacheBlockInfo_create_def)
  moreover have "policy_fits example_cfg PLRU 8" by (simp add: policy_fits_def)
  ultimately show ?thesis using createCacheSet_well_formed [OF _ p, of example_cfg PR_L1_CACHE 8 64 s] by blast
qed

text \<open>
  C8: Insertion refines the update of a finite map, for every replacement policy. Inserting a block
  whose tag is not in the set removes exactly one old binding (the evicted block, which is reported
  to the caller, or nothing when the chosen way was invalid) and adds the binding of the new tag;
  no tag is ever stored twice, and the invariant of the policy is kept.
\<close>

theorem CacheSet_insert2_refines_map:
  assumes "set_ok s" and "pol_inv (cs_associativity s) (cs_policy s)" and "cbi_tag b \<noteq> NOT 0"
    and "set_contents s (cbi_tag b) = None"
    and "CacheSet_insert2 getReplacementIndex b fill ebi eb cntlr w eip si s env = Inr (ev, ebi', eb', s', env')"
  shows "\<exists>old\<in>set (cs_blocks s). set_ok s' \<and> pol_inv (cs_associativity s') (cs_policy s')
    \<and> ev = isValid old \<and> ebi' = (if ev then CacheBlockInfo_clone old ebi else ebi)
    \<and> (ev \<longrightarrow> set_contents s (cbi_tag old) = Some old)
    \<and> set_contents s' = ((set_contents s)(cbi_tag old := None))(cbi_tag b \<mapsto> CacheBlockInfo_clone b old)"
  using pol.insert2_contents [OF assms] by auto

lemma policy_free_way:
  assumes "pol_inv n st" and "\<forall>p. st \<noteq> RRoundRobin p" and "length blocks = n" and "k < n" and "\<not> isValid (blocks ! k)"
  shows "\<exists>i st' env'. getReplacementIndex n c blocks f e si st env = Inr (i, st', env') \<and> i < n \<and> \<not> isValid (blocks ! i)"
proof (cases st)
  case (RRoundRobin x)
  with assms(2) show ?thesis by simp
next
  case (RLRU x)
  with lru.get_invalid [of n x blocks k c f e si env] assms show ?thesis by (auto simp: wrap_get_Inr)
next
  case (RLRUNEW x)
  with lrunew.get_invalid [of n x blocks k c f e si env] assms show ?thesis by (auto simp: wrap_get_Inr)
next
  case (RPHC x)
  with phc.get_invalid [of n x blocks k c f e si env] assms show ?thesis by (auto simp: wrap_get_Inr)
next
  case (RLRUL3 x)
  with lrul3.get_invalid [of n x blocks k c f e si env] assms show ?thesis by (auto simp: wrap_get_Inr)
next
  case (RLRUL2 x)
  with lrul2.get_invalid [of n x blocks k c f e si env] assms show ?thesis by (auto simp: wrap_get_Inr)
next
  case (RNRU x)
  with nru.get_invalid [of n x blocks k c f e si env] assms show ?thesis by (auto simp: wrap_get_Inr)
next
  case (RMRU x)
  with mru.get_invalid [of n x blocks k c f e si env] assms show ?thesis by (auto simp: wrap_get_Inr)
next
  case (RNMRU x)
  with nmru.get_invalid [of n x blocks k c f e si env] assms show ?thesis by (auto simp: wrap_get_Inr)
next
  case (RPLRU x)
  with plru.get_invalid [of n x blocks k c f e si env] assms show ?thesis by (auto simp: wrap_get_Inr)
next
  case (RSRRIP x)
  with srrip.get_invalid [of n x blocks k c f e si env] assms show ?thesis by (auto simp: wrap_get_Inr)
next
  case (RRandom x)
  with random.get_invalid [of n x blocks k c f e si env] assms show ?thesis by (auto simp: wrap_get_Inr)
qed

text \<open>
  While a set has an invalid way, insertion always succeeds and evicts nothing, for every policy
  but round robin: the contents only grow by the new block.
\<close>

theorem CacheSet_insert2_uses_free_way:
  assumes "set_ok s" and "pol_inv (cs_associativity s) (cs_policy s)" and "\<forall>p. cs_policy s \<noteq> RRoundRobin p"
    and "cbi_tag b \<noteq> NOT 0" and "set_contents s (cbi_tag b) = None"
    and "k < cs_associativity s" and "\<not> isValid (cs_blocks s ! k)"
  shows "\<exists>eb' s' env' b'. CacheSet_insert2 getReplacementIndex b fill ebi eb cntlr w eip si s env = Inr (False, ebi, eb', s', env')
    \<and> set_contents s' = (set_contents s)(cbi_tag b \<mapsto> b') \<and> cbi_tag b' = cbi_tag b"
proof -
  let ?n = "cs_associativity s"
  have len: "length (cs_blocks s) = ?n" using assms(1) by (simp add: set_ok_def)
  have "\<exists>i st env'. getReplacementIndex ?n cntlr (cs_blocks s) w eip si (cs_policy s) env = Inr (i, st, env')
      \<and> i < ?n \<and> \<not> isValid (cs_blocks s ! i)"
    by (rule policy_free_way [OF assms(2,3) len assms(6,7)])
  then obtain i st env' where g: "getReplacementIndex ?n cntlr (cs_blocks s) w eip si (cs_policy s) env = Inr (i, st, env')"
    "i < ?n" "\<not> isValid (cs_blocks s ! i)" by blast
  then obtain eb' s' where ins:
    "CacheSet_insert2 getReplacementIndex b fill ebi eb cntlr w eip si s env = Inr (False, ebi, eb', s', env')"
    "cs_blocks s' = (cs_blocks s)[i := CacheBlockInfo_clone b (cs_blocks s ! i)]"
    by (auto simp: CacheSet_insert2_def Let_def)
  obtain old where old: "\<not> isValid old"
    "set_contents s' = ((set_contents s)(cbi_tag old := None))(cbi_tag b \<mapsto> CacheBlockInfo_clone b old)"
    using pol.insert2_contents [OF assms(1,2,4,5) ins(1)] by auto
  moreover have "(set_contents s)(cbi_tag old := None) = set_contents s"
    using old(1) by (intro fun_upd_idem) (simp add: isValid_def)
  ultimately show ?thesis using ins(1) by (intro exI [of _ eb'] exI [of _ s'] exI [of _ env'] exI [of _ "CacheBlockInfo_clone b old"]) simp
qed

definition example_set :: "repl_state CacheSet" where
  "example_set = \<lparr>cs_blocks = replicate 8 (CacheBlockInfo_new PR_L1_CACHE (NOT 0) C_INVALID 0),
     cs_data = Some (replicate (8 * unat (64 :: UInt32)) 0), cs_associativity = 8, cs_blocksize = 64,
     cs_policy = RPLRU (replicate 8 0)\<rparr>"

lemma example_set_created: "createCacheSet example_cfg ''plru'' PR_L1_CACHE 8 64 = Inr example_set"
  by (simp add: createCacheSet_def parsePolicyType_def create_policy_def CacheSetPLRU_create_def
      CacheBlockInfo_create_def example_set_def example_cfg_def)

lemma example_set_ok:
  "set_ok example_set" "pol_inv (cs_associativity example_set) (cs_policy example_set)"
  "set_contents example_set = Map.empty" "\<not> isValid (cs_blocks example_set ! 0)" "0 < cs_associativity example_set"
proof -
  have "set_ok example_set \<and> set_contents example_set = Map.empty"
    by (rule set_contents_empty) (auto simp: example_set_def isValid_def CacheBlockInfo_new_def)
  then show "set_ok example_set" "set_contents example_set = Map.empty" by simp_all
  show "pol_inv (cs_associativity example_set) (cs_policy example_set)" by (simp add: example_set_def plru_inv_def)
  show "\<not> isValid (cs_blocks example_set ! 0)" "0 < cs_associativity example_set"
    by (simp_all add: example_set_def isValid_def CacheBlockInfo_new_def)
qed

definition example_block :: CacheBlockInfo where
  "example_block = CacheBlockInfo_new PR_L1_CACHE 5 C_SHARED 0"

lemma example_block_tag: "cbi_tag example_block = 5" "cbi_tag example_block \<noteq> NOT 0"
  by (simp_all add: example_block_def CacheBlockInfo_new_def)

theorem CacheSet_insert2_uses_free_way_witness:
  "\<exists>eb' s' env'. CacheSet_insert2 getReplacementIndex example_block None example_block None None 0 0 0 example_set example_env4
     = Inr (False, example_block, eb', s', env') \<and> set_contents s' 5 \<noteq> None"
proof -
  have "\<forall>p. cs_policy example_set \<noteq> RRoundRobin p" by (simp add: example_set_def)
  from CacheSet_insert2_uses_free_way [OF example_set_ok(1,2) this example_block_tag(2) _ example_set_ok(5,4),
      of None example_block None None 0 0 0 example_env4] example_set_ok(3) example_block_tag(1)
  show ?thesis by force
qed

theorem CacheSet_insert2_refines_map_witness:
  "\<exists>ev ebi' eb' s' env'. CacheSet_insert2 getReplacementIndex example_block None example_block None None 0 0 0
       example_set example_env4 = Inr (ev, ebi', eb', s', env') \<and> set_ok s' \<and> set_contents s' 5 \<noteq> None"
proof -
  obtain i st env' where "getReplacementIndex 8 None (cs_blocks example_set) 0 0 0 (cs_policy example_set) example_env4 = Inr (i, st, env')"
    "i < 8" using policy_free_way [of 8 "cs_policy example_set" "cs_blocks example_set" 0 None 0 0 0 example_env4]
      example_set_ok by (auto simp: example_set_def)
  then obtain ev ebi' eb' s' where ins: "CacheSet_insert2 getReplacementIndex example_block None example_block None None 0 0 0
      example_set example_env4 = Inr (ev, ebi', eb', s', env')"
    by (auto simp: CacheSet_insert2_def Let_def example_set_def)
  from CacheSet_insert2_refines_map [OF example_set_ok(1,2) example_block_tag(2) _ ins] example_set_ok(3) ins
    example_block_tag(1) show ?thesis by force
qed

section \<open>Data\<close>

lemma memcpy_at_read:
  assumes "k + length src \<le> length d"
  shows "take (length src) (drop k (memcpy_at k src d)) = src"
  using assms by (simp add: memcpy_at_def)

lemma memcpy_at_other:
  assumes "k + length src \<le> length d" and "j < length d" and "j < k \<or> k + length src \<le> j"
  shows "memcpy_at k src d ! j = d ! j"
  using assms by (auto simp: memcpy_at_def nth_append nth_drop min_def)

text \<open>
  The data of a set, a map from tags to the bytes of the block: way \<open>i\<close> owns the \<open>i\<close>-th slice of
  \<^verbatim>\<open>m_blocks\<close>. It is empty for a set without data.
\<close>

definition way_slice :: "nat \<Rightarrow> nat \<Rightarrow> UInt8 list \<Rightarrow> UInt8 list" where
  "way_slice n i d = take n (drop (i * n) d)"

definition set_data :: "'p CacheSet \<Rightarrow> IntPtr \<Rightarrow> UInt8 list option" where
  "set_data s tag = Option.bind (cs_data s) (\<lambda>d.
     map_of (map (\<lambda>(i, b). (cbi_tag b, way_slice (unat (cs_blocksize s)) i d))
       (filter (\<lambda>(i, b). isValid b) (enumerate 0 (cs_blocks s)))) tag)"

lemma set_data_way:
  assumes ok: "set_ok s" and i: "i < cs_associativity s" and tag: "cbi_tag (cs_blocks s ! i) = tag" "tag \<noteq> NOT 0"
  shows "set_data s tag = map_option (way_slice (unat (cs_blocksize s)) i) (cs_data s)"
proof (cases "cs_data s")
  case None
  then show ?thesis by (simp add: set_data_def)
next
  case (Some d)
  let ?ps = "map (\<lambda>(i, b). (cbi_tag b, way_slice (unat (cs_blocksize s)) i d))
       (filter (\<lambda>(i, b). isValid b) (enumerate 0 (cs_blocks s)))"
  have len: "length (cs_blocks s) = cs_associativity s" using ok by (simp add: set_ok_def)
  have mem: "(tag, x) \<in> set ?ps \<Longrightarrow> x = way_slice (unat (cs_blocksize s)) i d" for x
    using set_ok_inj [OF ok _ i] tag by (auto simp: in_set_enumerate_eq len)
  have "(tag, way_slice (unat (cs_blocksize s)) i d) \<in> set ?ps"
    using i tag by (force simp: in_set_enumerate_eq len isValid_def)
  then have "map_of ?ps tag \<noteq> None" unfolding map_of_eq_None_iff by (metis fst_conv imageI)
  then have "map_of ?ps tag = Some (way_slice (unat (cs_blocksize s)) i d)"
    using mem by (metis map_of_SomeD not_None_eq)
  with Some show ?thesis by (simp add: set_data_def)
qed

lemma set_data_absent:
  assumes "set_ok s" and "set_contents s tag = None"
  shows "set_data s tag = None"
proof -
  have "\<forall>i<cs_associativity s. isValid (cs_blocks s ! i) \<longrightarrow> cbi_tag (cs_blocks s ! i) \<noteq> tag"
    using assms set_contents_at [OF assms(1)] by fastforce
  moreover have "length (cs_blocks s) = cs_associativity s" using assms(1) by (simp add: set_ok_def)
  ultimately have "tag \<notin> fst ` set (map (\<lambda>(i, b). (cbi_tag b, way_slice (unat (cs_blocksize s)) i d))
       (filter (\<lambda>(i, b). isValid b) (enumerate 0 (cs_blocks s))))" for d
    by (auto simp: in_set_enumerate_eq)
  then show ?thesis by (cases "cs_data s") (simp_all add: set_data_def map_of_eq_None_iff [THEN iffD2])
qed

text \<open>The two cases together: which way a tag occupies decides its bytes.\<close>

lemma set_data_find:
  assumes "set_ok s" and "tag \<noteq> NOT 0"
  shows "set_data s tag = (case CacheSet_find tag s of None \<Rightarrow> None
    | Some i \<Rightarrow> map_option (way_slice (unat (cs_blocksize s)) i) (cs_data s))"
proof (cases "CacheSet_find tag s")
  case None
  with assms show ?thesis by (simp add: set_data_absent set_contents_find)
next
  case (Some i)
  with CacheSet_find_iff [OF assms, of i] assms(2) show ?thesis by (simp add: set_data_way [OF assms(1)])
qed

lemma length_way_slice: "length d = n * b \<Longrightarrow> i < n \<Longrightarrow> length (way_slice b i d) = b"
  using line_fits [of i n b] by (simp add: way_slice_def)

text \<open>Copying inside one way changes the slice of this way only.\<close>

lemma way_slice_memcpy:
  assumes "length d = n * b" and "i < n" and "j < n" and "off + length src \<le> b"
  shows "way_slice b i (memcpy_at (j * b + off) src d) = (if i = j then memcpy_at off src (way_slice b i d) else way_slice b i d)"
proof -
  have jb: "j * b + b \<le> length d" and ib: "i * b + b \<le> length d"
    using line_fits assms by simp_all
  show ?thesis
  proof (cases "i = j")
    case True
    let ?e = "drop (j * b) d"
    have "drop (j * b) (memcpy_at (j * b + off) src d) = take off ?e @ src @ drop (off + length src) ?e"
      using jb assms(4) by (simp add: memcpy_at_def drop_take add.commute add.left_commute)
    moreover have "take b (take off ?e @ src @ drop (off + length src) ?e) = take off ?e @ src @ take (b - (off + length src)) (drop (off + length src) ?e)"
      using jb assms(4) by simp
    ultimately show ?thesis using True assms(4) by (simp add: way_slice_def memcpy_at_def drop_take min_def)
  next
    case False
    have "memcpy_at (j * b + off) src d ! k = d ! k" if "i * b \<le> k" "k < i * b + b" for k
    proof (rule memcpy_at_other)
      show "j * b + off + length src \<le> length d" "k < length d" using jb ib assms(4) that by auto
      from False consider "i + 1 \<le> j" | "j + 1 \<le> i" by linarith
      then have "i * b + b \<le> j * b \<or> j * b + b \<le> i * b"
        by (metis add.commute mult.commute mult_Suc_right mult_le_mono1 Suc_eq_plus1)
      then show "k < j * b + off \<or> j * b + off + length src \<le> k" using that assms(4) by linarith
    qed
    moreover have "length (memcpy_at (j * b + off) src d) = length d" using jb assms(4) by simp
    ultimately show ?thesis using False ib
      by (intro nth_equalityI) (simp_all add: way_slice_def)
  qed
qed

text \<open>What a line operation does to the data of the whole set.\<close>

lemma read_line_data:
  assumes "set_ok s" and "CacheSet_find tag s = Some li" and "tag \<noteq> NOT 0"
    and "unat off + unat bytes \<le> unat (cs_blocksize s)"
    and "CacheSet_read_line upd li off out bytes u si s env = Inr (out', s', env')"
  shows "set_data s' = set_data s
    \<and> out' = (case (out, set_data s tag) of (Some o', Some d) \<Rightarrow> Some (memcpy_at 0 (take (unat bytes) (drop (unat off) d)) o') | _ \<Rightarrow> out)"
proof -
  have f: "cs_blocks s' = cs_blocks s" "cs_blocksize s' = cs_blocksize s" "cs_data s' = cs_data s"
    and out: "out' = (case (out, cs_data s) of (Some out, Some d) \<Rightarrow>
       Some (memcpy_at 0 (take (unat bytes) (drop (li * unat (cs_blocksize s) + unat off) d)) out) | _ \<Rightarrow> out)"
    using assms(5) by (auto simp: CacheSet_read_line_def Let_def split: if_splits)
  have "take (unat bytes) (drop (unat off) (way_slice (unat (cs_blocksize s)) li d))
      = take (unat bytes) (drop (li * unat (cs_blocksize s) + unat off) d)" for d :: "UInt8 list"
    using assms(4) by (simp add: way_slice_def drop_take add.commute min_def)
  moreover have "set_data s tag = map_option (way_slice (unat (cs_blocksize s)) li) (cs_data s)"
    using assms(1-3) by (simp add: set_data_find)
  moreover have "set_data s' = set_data s" using f by (simp add: set_data_def fun_eq_iff)
  ultimately show ?thesis using out by (cases out; cases "cs_data s") auto
qed

lemma write_line_data:
  assumes ok: "set_ok s" and "CacheSet_find tag s = Some li" and "tag \<noteq> NOT 0"
    and fit: "unat off + unat bytes \<le> unat (cs_blocksize s)"
    and "CacheSet_write_line upd li off buff bytes u si s env = Inr (s', env')"
  shows "set_data s' = (case buff of None \<Rightarrow> set_data s
    | Some src \<Rightarrow> (set_data s)(tag := map_option (memcpy_at (unat off) (take (unat bytes) src)) (set_data s tag)))"
proof -
  have li: "li < cs_associativity s" "cbi_tag (cs_blocks s ! li) = tag" using CacheSet_find_iff [OF ok assms(3)] assms(2) by auto
  have f: "cs_blocks s' = cs_blocks s" "cs_blocksize s' = cs_blocksize s" "cs_associativity s' = cs_associativity s"
    using assms(5) by (auto simp: CacheSet_write_line_def Let_def split: if_splits option.splits)
  show ?thesis
  proof (cases "buff = None \<or> cs_data s = None")
    case True
    then have "cs_data s' = cs_data s"
      using assms(5) by (auto simp: CacheSet_write_line_def Let_def split: if_splits option.splits)
    with f True show ?thesis by (auto simp: set_data_def fun_eq_iff split: option.splits)
  next
    case False
    then obtain src d where sd: "buff = Some src" "cs_data s = Some d" by (cases buff; cases "cs_data s") auto
    let ?b = "unat (cs_blocksize s)" and ?src = "take (unat bytes) src"
    have d': "cs_data s' = Some (memcpy_at (li * ?b + unat off) ?src d)"
      using assms(5) sd by (auto simp: CacheSet_write_line_def Let_def split: if_splits)
    have ld: "length d = cs_associativity s * ?b" using ok sd by (simp add: set_ok_def)
    have src: "unat off + length ?src \<le> ?b" using fit by simp
    have ok': "set_ok s'"
      by (rule set_frame(1) [OF ok f(1,3,2)]) (use d' ld src line_fits [OF li(1), of ?b] in auto)
    have find: "CacheSet_find t s' = CacheSet_find t s" for t using f by (simp add: CacheSet_find_def)
    have "set_data s' t = ((set_data s)(tag := map_option (memcpy_at (unat off) ?src) (set_data s tag))) t" for t
    proof (cases "t = NOT 0")
      case True
      then show ?thesis using assms(3) ok ok' by (simp add: set_data_absent)
    next
      case t: False
      show ?thesis
      proof (cases "CacheSet_find t s")
        case None
        with t assms(2) show ?thesis by (auto simp: set_data_find [OF ok t] set_data_find [OF ok' t] find)
      next
        case (Some i)
        then have i: "i < cs_associativity s" "cbi_tag (cs_blocks s ! i) = t" using CacheSet_find_iff [OF ok t] by auto
        then have "i = li \<longleftrightarrow> t = tag" using li set_ok_inj [OF ok, of i li] t by (auto simp: isValid_def)
        with i Some d' sd f li assms(2) way_slice_memcpy [OF ld i(1) li(1) src] show ?thesis
          by (auto simp: set_data_find [OF ok t] set_data_find [OF ok' t] set_data_find [OF ok assms(3)] find)
      qed
    qed
    with sd show ?thesis by (simp add: fun_eq_iff)
  qed
qed

lemma invalidate_data:
  assumes ok: "set_ok s" and tag: "tag \<noteq> NOT 0" and inv: "CacheSet_invalidate tag s = (hit, s')"
  shows "set_data s' = (set_data s)(tag := None)"
proof
  fix t
  note c = invalidate_contents [OF assms]
  have f: "cs_data s' = cs_data s" "cs_blocksize s' = cs_blocksize s"
    using inv by (auto simp: CacheSet_invalidate_def split: option.splits)
  show "set_data s' t = ((set_data s)(tag := None)) t"
  proof (cases "set_contents s' t")
    case None
    then show ?thesis using c ok by (auto simp: set_data_absent fun_upd_def split: if_splits)
  next
    case (Some b)
    then have t: "t \<noteq> tag" "set_contents s t = Some b" using c by (auto split: if_splits)
    from t(2) obtain i where i: "i < cs_associativity s" "cs_blocks s ! i = b" "cbi_tag b = t" "t \<noteq> NOT 0"
      unfolding set_contents_Some [OF ok] by blast
    have "cs_blocks s' ! i = b"
    proof (cases "CacheSet_find tag s")
      case None
      with inv i show ?thesis by (simp add: CacheSet_invalidate_def CacheSet_find_def)
    next
      case (Some j)
      with CacheSet_find_iff [OF ok tag, of j] t(1) i have "j \<noteq> i" by auto
      with inv i Some show ?thesis by (auto simp: CacheSet_invalidate_def CacheSet_find_def)
    qed
    with i c f t(1) set_data_way [OF ok i(1)] set_data_way [of s' i t] show ?thesis by simp
  qed
qed

text \<open>Changing a block info in place, without its tag, leaves the data where it is.\<close>

lemma set_data_blocks:
  assumes "set_ok s" and "set_ok s'" and "cs_data s' = cs_data s" and "cs_blocksize s' = cs_blocksize s"
    and "cs_associativity s' = cs_associativity s"
    and tags: "\<And>i. i < cs_associativity s \<Longrightarrow> cbi_tag (cs_blocks s' ! i) = cbi_tag (cs_blocks s ! i)"
  shows "set_data s' = set_data s"
proof
  fix t
  show "set_data s' t = set_data s t"
  proof (cases "t = NOT 0")
    case True
    then show ?thesis using assms(1,2) by (simp add: set_data_absent)
  next
    case t: False
    have "CacheSet_find t s' = CacheSet_find t s"
      using CacheSet_find_iff [OF assms(1) t] CacheSet_find_iff [OF assms(2) t] tags assms(5)
      by (metis not_None_eq)
    with assms(3,4) show ?thesis
      by (simp add: set_data_find [OF assms(1) t] set_data_find [OF assms(2) t] split: option.splits)
  qed
qed

text \<open>
  Data round trip of a line. After \<^verbatim>\<open>write_line\<close> of some bytes inside the line, \<^verbatim>\<open>read_line\<close> of the
  same range returns these bytes, and every byte outside the range, in this line or another, is
  unchanged.
\<close>

theorem CacheSet_write_read_roundtrip:
  assumes "set_ok s" and "cs_data s = Some d" and "li < cs_associativity s"
    and "unat off + unat bytes \<le> unat (cs_blocksize s)" and "length src = unat bytes" and "length out = unat bytes"
    and "CacheSet_write_line updateReplacementIndex li off (Some src) bytes u si s env = Inr (s', env')"
    and "CacheSet_read_line updateReplacementIndex li off (Some out) bytes u' si s' env' = Inr (out', s'', env'')"
  shows "out' = Some src \<and> (\<exists>d'. cs_data s'' = Some d' \<and> length d' = length d \<and>
    (\<forall>j<length d. j < li * unat (cs_blocksize s) + unat off \<or> li * unat (cs_blocksize s) + unat off + unat bytes \<le> j \<longrightarrow> d' ! j = d ! j))"
proof -
  let ?b = "unat (cs_blocksize s)"
  let ?k = "li * ?b + unat off"
  let ?d = "memcpy_at ?k src d"
  have "length d = cs_associativity s * ?b" using assms(1,2) by (simp add: set_ok_def)
  then have fits: "?k + length src \<le> length d" using line_fits [OF assms(3), of ?b] assms(4,5) by simp
  have s': "cs_data s' = Some ?d" "cs_blocksize s' = cs_blocksize s"
    using assms(2,5,7) by (auto simp: CacheSet_write_line_def Let_def split: if_splits)
  have out: "out' = Some (memcpy_at 0 (take (unat bytes) (drop ?k ?d)) out)" "cs_data s'' = Some ?d"
    using assms(8) s' by (auto simp: CacheSet_read_line_def Let_def split: if_splits)
  have "take (unat bytes) (drop ?k ?d) = src" using memcpy_at_read [OF fits] assms(5) by simp
  then have "out' = Some src" using out(1) assms(5,6) by (simp add: memcpy_at_def)
  moreover have "d' ! j = d ! j" if "d' = ?d" "j < length d" "j < ?k \<or> ?k + unat bytes \<le> j" for d' j
    using memcpy_at_other [OF fits, of j] that assms(5) by simp
  ultimately show ?thesis using out(2) length_memcpy_at [OF fits] by blast
qed

theorem CacheSet_write_read_roundtrip_witness:
  "\<exists>s' env' s'' env''. CacheSet_write_line updateReplacementIndex 3 8 (Some [7, 9]) 2 True 0 example_set example_env4 = Inr (s', env')
     \<and> CacheSet_read_line updateReplacementIndex 3 8 (Some [0, 0]) 2 True 0 s' env' = Inr (Some [7, 9], s'', env'')"
proof -
  obtain s' env' where w: "CacheSet_write_line updateReplacementIndex 3 8 (Some [7, 9]) 2 True 0 example_set example_env4 = Inr (s', env')"
    and p: "\<exists>b. cs_policy s' = RPLRU b" "cs_blocksize s' = 64" "cs_associativity s' = 8"
    by (auto simp: CacheSet_write_line_def example_set_def Let_def wrap_upd_def CacheSetPLRU_updateReplacementIndex_def)
  obtain out' s'' env'' where r: "CacheSet_read_line updateReplacementIndex 3 8 (Some [0, 0]) 2 True 0 s' env' = Inr (out', s'', env'')"
    using p by (auto simp: CacheSet_read_line_def Let_def wrap_upd_def CacheSetPLRU_updateReplacementIndex_def)
  have "out' = Some [7, 9]"
    using CacheSet_write_read_roundtrip [OF example_set_ok(1) _ _ _ _ _ w r, of "replicate (8 * 64) 0"]
    by (simp add: example_set_def)
  with w r show ?thesis by blast
qed

end
