(* ===== verification/Fault_Injection.thy ===== *)
theory Fault_Injection
  imports Cache_Block
begin

text \<open>
  Fault injection (\<^verbatim>\<open>common/fault_injection\<close>): the injectors that are called around the data accesses
  of a cache, and the manager that applies a fault mask to data. Random numbers come from the
  generator of \<^verbatim>\<open>rng.h\<close>.
\<close>

datatype fault_type_t = FAULT_TYPE_TOGGLE | FAULT_TYPE_SET0 | FAULT_TYPE_SET1

datatype fault_injector_t = FAULT_INJECTOR_NONE | FAULT_INJECTOR_RANDOM

record FaultinjectionManager =
  fim_type :: fault_type_t
  fim_injector :: fault_injector_t

text \<open>The two strings are the configuration values; \<open>None\<close> is the NULL manager of type \<^verbatim>\<open>none\<close>.\<close>

definition FaultinjectionManager_create :: "string \<Rightarrow> string \<Rightarrow> FaultinjectionManager option result" where
  "FaultinjectionManager_create s_type s_injector =
     (if s_type = ''none'' then Inr None
      else
        bindR (if s_type = ''toggle'' then Inr FAULT_TYPE_TOGGLE
               else if s_type = ''set0'' then Inr FAULT_TYPE_SET0
               else if s_type = ''set1'' then Inr FAULT_TYPE_SET1
               else Inl (LogError ''Unknown fault-injection scheme'')) (\<lambda>type.
        bindR (if s_injector = ''none'' then Inr FAULT_INJECTOR_NONE
               else if s_injector = ''random'' then Inr FAULT_INJECTOR_RANDOM
               else Inl (LogError ''Unknown fault injector'')) (\<lambda>injector.
        Inr (Some \<lparr>fim_type = type, fim_injector = injector\<rparr>))))"

text \<open>The dynamic class of an injector with the state of \<^verbatim>\<open>FaultInjectorRandom\<close>: \<^verbatim>\<open>m_active\<close>, \<^verbatim>\<open>m_rng\<close>.\<close>

datatype FaultInjector = FI_Base | FI_Random bool UInt64

definition FaultInjectorRandom_create :: "nat \<Rightarrow> FaultInjector" where
  "FaultInjectorRandom_create mem_component = FI_Random (mem_component = L1_DCACHE) (rng_seed 0)"

definition getFaultInjector :: "FaultinjectionManager \<Rightarrow> nat \<Rightarrow> FaultInjector" where
  "getFaultInjector m mem_component =
     (case fim_injector m of
        FAULT_INJECTOR_NONE \<Rightarrow> FI_Base
      | FAULT_INJECTOR_RANDOM \<Rightarrow> FaultInjectorRandom_create mem_component)"

definition applyFault_byte :: "fault_type_t \<Rightarrow> UInt8 \<Rightarrow> UInt8 \<Rightarrow> UInt8" where
  "applyFault_byte t d f =
     (case t of FAULT_TYPE_TOGGLE \<Rightarrow> d XOR f | FAULT_TYPE_SET0 \<Rightarrow> d AND NOT f | FAULT_TYPE_SET1 \<Rightarrow> d OR f)"

definition applyFault :: "FaultinjectionManager \<Rightarrow> nat \<Rightarrow> UInt8 list \<Rightarrow> UInt8 list \<Rightarrow> UInt8 list" where
  "applyFault m data_size data fault =
     for_upto data_size (\<lambda>i d. d[i := applyFault_byte (fim_type m) (d ! i) (fault ! i)]) data"

text \<open>
  \<open>pos\<close> is where the pointer argument \<^verbatim>\<open>fault\<close> points into the data array of the set; \<open>None\<close> stands
  for a set that stores no data, where the pointer is invalid.
\<close>

definition FaultInjector_preRead ::
  "UInt32 \<Rightarrow> nat \<Rightarrow> UInt8 list option \<Rightarrow> FaultInjector \<Rightarrow> (UInt8 list option \<times> FaultInjector) result" where
  "FaultInjector_preRead data_size pos data fi =
     (case fi of
        FI_Base \<Rightarrow> Inr (data, fi)
      | FI_Random active rng \<Rightarrow>
          if \<not> active then Inr (data, fi)
          else case rng_next rng of
            (rng1, r1) \<Rightarrow>
              if r1 mod 0xffff = 0
              then case rng_next rng1 of
                (rng2, r2) \<Rightarrow>
                  bindR (modR r2 (ucast data_size)) (\<lambda>b.
                  let bit_location = ucast b :: UInt32; i = pos + unat (bit_location div 8)
                  in case data of
                       None \<Rightarrow> Inl (Trap ''null pointer'')
                     | Some d \<Rightarrow>
                         Inr (Some (d[i := d ! i OR push_bit (unat (bit_location mod 8)) 1]), FI_Random active rng2))
              else Inr (data, FI_Random active rng1))"

definition FaultInjector_postWrite ::
  "UInt32 \<Rightarrow> nat \<Rightarrow> UInt8 list option \<Rightarrow> FaultInjector \<Rightarrow> UInt8 list option \<times> FaultInjector" where
  "FaultInjector_postWrite data_size pos data fi = (data, fi)"

section \<open>Laws\<close>

lemma preRead_keeps_length:
  "FaultInjector_preRead n pos data fi = Inr (data', fi') \<Longrightarrow> map_option length data' = map_option length data"
  by (auto simp: FaultInjector_preRead_def Let_def split: FaultInjector.splits if_splits option.splits prod.splits)

lemma applyFault_loop:
  assumes "n \<le> length data"
  shows "for_upto n (\<lambda>i d. d[i := applyFault_byte t (d ! i) (fault ! i)]) data =
    map (\<lambda>i. if i < n then applyFault_byte t (data ! i) (fault ! i) else data ! i) [0..<length data]"
  using assms
proof (induction n)
  case 0
  then show ?case by (simp add: map_nth)
next
  case (Suc n)
  then show ?case by (auto intro!: nth_equalityI simp: nth_list_update less_Suc_eq)
qed

text \<open>
  Applying a fault mask changes exactly the masked bits of the first \<^verbatim>\<open>data_size\<close> bytes: each bit
  of the mask toggles, clears or sets its data bit according to the type of the manager, every
  other bit of the data is kept, and toggling twice restores the data.
\<close>

theorem applyFault_correct:
  assumes "n \<le> length data"
  shows "length (applyFault m n data fault) = length data
    \<and> (\<forall>i k. i < length data \<and> k < 8 \<longrightarrow> bit (applyFault m n data fault ! i) k =
         (if i < n \<and> bit (fault ! i) k
          then (case fim_type m of FAULT_TYPE_TOGGLE \<Rightarrow> \<not> bit (data ! i) k | FAULT_TYPE_SET0 \<Rightarrow> False | FAULT_TYPE_SET1 \<Rightarrow> True)
          else bit (data ! i) k))
    \<and> (fim_type m = FAULT_TYPE_TOGGLE \<longrightarrow> applyFault m n (applyFault m n data fault) fault = data)"
proof -
  have f: "applyFault m n d fault =
      map (\<lambda>i. if i < n then applyFault_byte (fim_type m) (d ! i) (fault ! i) else d ! i) [0..<length d]"
    if "n \<le> length d" for d
    using applyFault_loop [OF that] by (simp add: applyFault_def)
  have "bit (applyFault_byte t d x) k = (if bit x k
      then (case t of FAULT_TYPE_TOGGLE \<Rightarrow> \<not> bit d k | FAULT_TYPE_SET0 \<Rightarrow> False | FAULT_TYPE_SET1 \<Rightarrow> True) else bit d k)"
    if "k < 8" for t d x k
    using that by (cases t) (auto simp: applyFault_byte_def bit_simps)
  moreover have "applyFault m n (applyFault m n data fault) fault = data" if "fim_type m = FAULT_TYPE_TOGGLE"
    using that assms by (intro nth_equalityI) (simp_all add: f applyFault_byte_def xor.assoc)
  ultimately show ?thesis using assms by (simp add: f)
qed

theorem applyFault_correct_witness:
  "applyFault \<lparr>fim_type = FAULT_TYPE_TOGGLE, fim_injector = FAULT_INJECTOR_NONE\<rparr> 1
     (applyFault \<lparr>fim_type = FAULT_TYPE_TOGGLE, fim_injector = FAULT_INJECTOR_NONE\<rparr> 1 [0x0f, 0x01] [0x3c]) [0x3c] = [0x0f, 0x01]"
  using applyFault_correct [of 1 "[0x0f, 0x01]" "\<lparr>fim_type = FAULT_TYPE_TOGGLE, fim_injector = FAULT_INJECTOR_NONE\<rparr>" "[0x3c]"]
  by simp

end
