(* ===== verification/Cache_Model.thy ===== *)
theory Cache_Model
  imports Cache_Base Cache_Set Fault_Injection
begin

text \<open>
  \<^verbatim>\<open>Cache\<close> (\<^verbatim>\<open>cache/cache.cc\<close>): an array of cache sets behind the address split of \<^verbatim>\<open>CacheBase\<close>. The
  abstract view is one finite map from tags to block infos for the whole cache, and every operation
  is shown to refine an operation on that map.
\<close>

datatype access_t = INVALID_ACCESS_TYPE | LOAD | STORE

record Cache =
  ca_base :: CacheBase
  ca_enabled :: bool
  ca_num_accesses :: UInt64
  ca_num_hits :: UInt64
  ca_cache_type :: cache_t
  ca_sets :: "repl_state CacheSet list"
  ca_set_info :: "CacheSetInfoLRU option"
  ca_fault_injector :: "FaultInjector option"

section \<open>Operations\<close>

definition Cache_create ::
  "repl_config \<Rightarrow> string \<Rightarrow> UInt32 \<Rightarrow> UInt32 \<Rightarrow> UInt32 \<Rightarrow> string \<Rightarrow> cache_t \<Rightarrow> hash_t \<Rightarrow> FaultInjector option \<Rightarrow>
     AddressHomeLookup option \<Rightarrow> Cache result" where
  "Cache_create cfg name num_sets associativity cache_block_size replacement_policy cache_type hash fault_injector ahl =
     bindR (CacheBase_create name num_sets associativity cache_block_size hash ahl) (\<lambda>base.
     bindR (createCacheSetInfo cfg replacement_policy (unat associativity)) (\<lambda>set_info.
     bindR (createCacheSet cfg replacement_policy cache_type (unat associativity) cache_block_size) (\<lambda>set.
     Inr \<lparr>ca_base = base, ca_enabled = False, ca_num_accesses = 0, ca_num_hits = 0, ca_cache_type = cache_type,
          ca_sets = replicate (unat num_sets) set, ca_set_info = set_info, ca_fault_injector = fault_injector\<rparr>)))"

text \<open>
  Reading \<^verbatim>\<open>m_sets[set_index]\<close> out of range is undefined behaviour, here a trap. The environment \<open>g\<close>
  holds what is global to the simulator; its field \<open>re_set_info\<close> is exchanged with the cache's own.
\<close>

definition cache_set_at :: "Cache \<Rightarrow> UInt32 \<Rightarrow> repl_state CacheSet result" where
  "cache_set_at c set_index =
     (if unat set_index < length (ca_sets c) then Inr (ca_sets c ! unat set_index) else Inl (Trap ''m_sets out of range''))"

definition cache_env :: "Cache \<Rightarrow> repl_env \<Rightarrow> repl_env" where
  "cache_env c g = g\<lparr>re_set_info := ca_set_info c\<rparr>"

definition cache_put :: "UInt32 \<Rightarrow> repl_state CacheSet \<Rightarrow> repl_env \<Rightarrow> Cache \<Rightarrow> Cache" where
  "cache_put set_index s env c =
     c\<lparr>ca_sets := (ca_sets c)[unat set_index := s], ca_set_info := re_set_info env\<rparr>"

definition Cache_invalidateSingleLine :: "IntPtr \<Rightarrow> Cache \<Rightarrow> (bool \<times> Cache) result" where
  "Cache_invalidateSingleLine addr c =
     bindR (splitAddress (ca_base c) addr) (\<lambda>(tag, set_index).
     bindR (assertR (set_index < cb_num_sets (ca_base c)) ''set_index < m_num_sets'') (\<lambda>_.
     bindR (cache_set_at c set_index) (\<lambda>set.
     case CacheSet_invalidate tag set of
       (hit, set') \<Rightarrow> Inr (hit, c\<lparr>ca_sets := (ca_sets c)[unat set_index := set']\<rparr>))))"

text \<open>
  The result of an access is the way of the block that was hit, or \<open>None\<close>; the out-buffer, the
  cache and the environment.
\<close>

definition Cache_accessSingleLine ::
  "IntPtr \<Rightarrow> access_t \<Rightarrow> UInt8 list option \<Rightarrow> UInt32 \<Rightarrow> bool \<Rightarrow> Cache \<Rightarrow> repl_env \<Rightarrow>
     ((UInt32 \<times> nat) option \<times> UInt8 list option \<times> Cache \<times> repl_env) result" where
  "Cache_accessSingleLine addr access_type buff bytes update_replacement c g =
     bindR (splitAddress_offset (ca_base c) addr) (\<lambda>(tag, set_index, block_offset).
     bindR (cache_set_at c set_index) (\<lambda>set.
     case CacheSet_find tag set of
       None \<Rightarrow> Inr (None, buff, c, g)
     | Some line_index \<Rightarrow>
         (let pos = line_index * unat (cs_blocksize set) + unat block_offset; env = cache_env c g
          in if access_type = LOAD
             then
               bindR (case ca_fault_injector c of
                        None \<Rightarrow> Inr (cs_data set, None)
                      | Some fi \<Rightarrow>
                          bindR (FaultInjector_preRead bytes pos (cs_data set) fi) (\<lambda>(d, fi). Inr (d, Some fi))) (\<lambda>(d, fi).
               bindR (CacheSet_read_line updateReplacementIndex line_index block_offset buff bytes update_replacement
                        set_index (set\<lparr>cs_data := d\<rparr>) env) (\<lambda>(buff', set', env').
               Inr (Some (set_index, line_index), buff',
                    (cache_put set_index set' env' c)\<lparr>ca_fault_injector := fi\<rparr>, env')))
             else
               bindR (CacheSet_write_line updateReplacementIndex line_index block_offset buff bytes update_replacement
                        set_index set env) (\<lambda>(set', env').
               case (case ca_fault_injector c of
                       None \<Rightarrow> (cs_data set', None)
                     | Some fi \<Rightarrow>
                         (case FaultInjector_postWrite bytes pos (cs_data set') fi of (d, fi) \<Rightarrow> (d, Some fi))) of
                 (d, fi) \<Rightarrow>
                   Inr (Some (set_index, line_index), buff,
                        (cache_put set_index (set'\<lparr>cs_data := d\<rparr>) env' c)\<lparr>ca_fault_injector := fi\<rparr>, env')))))"

text \<open>
  The results of \<^verbatim>\<open>insertSingleLine\<close> are \<^verbatim>\<open>*eviction\<close>, \<^verbatim>\<open>*evict_addr\<close>, the evicted block info, the
  eviction buffer, the cache and the environment.
\<close>

definition Cache_insertSingleLine ::
  "IntPtr \<Rightarrow> UInt8 list option \<Rightarrow> CacheBlockInfo \<Rightarrow> UInt8 list option \<Rightarrow> cntlr \<Rightarrow> UInt8 \<Rightarrow> IntPtr \<Rightarrow> Cache \<Rightarrow> repl_env \<Rightarrow>
     (bool \<times> IntPtr \<times> CacheBlockInfo \<times> UInt8 list option \<times> Cache \<times> repl_env) result" where
  "Cache_insertSingleLine addr fill_buff evict_block_info evict_buff cntlr write_flag eip c g =
     bindR (splitAddress (ca_base c) addr) (\<lambda>(tag, set_index).
     bindR (CacheBlockInfo_create (ca_cache_type c)) (\<lambda>b.
     bindR (cache_set_at c set_index) (\<lambda>set.
     bindR (CacheSet_insert2 getReplacementIndex (setTag tag b) fill_buff evict_block_info evict_buff cntlr write_flag
              eip set_index set (cache_env c g)) (\<lambda>(eviction, evict_block_info', evict_buff', set', env').
     let evict_addr = tagToAddress (ca_base c) (cbi_tag evict_block_info')
     in bindR (case ca_fault_injector c of
                 None \<Rightarrow> Inr (cs_data set', None)
               | Some fi \<Rightarrow>
                   (case CacheSet_find tag set' of
                      None \<Rightarrow> Inl (LogError ''Inserted line no longer there?'')
                    | Some line_index \<Rightarrow>
                        (case FaultInjector_postWrite (cs_blocksize set') (line_index * unat (cs_blocksize set'))
                                (cs_data set') fi of (d, fi) \<Rightarrow> Inr (d, Some fi)))) (\<lambda>(d, fi).
        Inr (eviction, evict_addr, evict_block_info', evict_buff',
             (cache_put set_index (set'\<lparr>cs_data := d\<rparr>) env' c)\<lparr>ca_fault_injector := fi\<rparr>, env'))))))"

definition Cache_updateLoopBitCache :: "IntPtr \<Rightarrow> UInt8 \<Rightarrow> Cache \<Rightarrow> Cache result" where
  "Cache_updateLoopBitCache addr loopbit c =
     bindR (splitAddress (ca_base c) addr) (\<lambda>(tag, set_index).
     bindR (cache_set_at c set_index) (\<lambda>set.
     Inr (c\<lparr>ca_sets := (ca_sets c)[unat set_index := updateLoopBitSet tag loopbit set]\<rparr>)))"

definition Cache_peekSingleLine :: "IntPtr \<Rightarrow> Cache \<Rightarrow> CacheBlockInfo option result" where
  "Cache_peekSingleLine addr c =
     bindR (splitAddress (ca_base c) addr) (\<lambda>(tag, set_index).
     bindR (cache_set_at c set_index) (\<lambda>set.
     Inr (map_option (\<lambda>i. cs_blocks set ! i) (CacheSet_find tag set))))"

definition Cache_getBlockIndex :: "IntPtr \<Rightarrow> Cache \<Rightarrow> nat result" where
  "Cache_getBlockIndex addr c =
     bindR (splitAddress (ca_base c) addr) (\<lambda>(tag, set_index).
     bindR (cache_set_at c set_index) (\<lambda>set. getBlockIndexForGivenTag tag set))"

definition Cache_updateCounters :: "bool \<Rightarrow> Cache \<Rightarrow> Cache" where
  "Cache_updateCounters cache_hit c =
     (if ca_enabled c
      then let c = c\<lparr>ca_num_accesses := ca_num_accesses c + 1\<rparr>
           in if cache_hit then c\<lparr>ca_num_hits := ca_num_hits c + 1\<rparr> else c
      else c)"

definition Cache_updateHits :: "UInt64 \<Rightarrow> Cache \<Rightarrow> Cache" where
  "Cache_updateHits hits c =
     (if ca_enabled c
      then c\<lparr>ca_num_accesses := ca_num_accesses c + hits, ca_num_hits := ca_num_hits c + hits\<rparr> else c)"

section \<open>Well-formed caches and their contents\<close>

definition tag_home :: "Cache \<Rightarrow> IntPtr \<Rightarrow> nat option" where
  "tag_home c tag =
     (case splitAddress (ca_base c) (tagToAddress (ca_base c) tag) of
        Inr (t, set_index) \<Rightarrow> if t = tag then Some (unat set_index) else None
      | Inl _ \<Rightarrow> None)"

definition cache_contents :: "Cache \<Rightarrow> IntPtr \<Rightarrow> CacheBlockInfo option" where
  "cache_contents c tag = (case tag_home c tag of None \<Rightarrow> None | Some i \<Rightarrow> set_contents (ca_sets c ! i) tag)"

text \<open>The bytes of the blocks a cache holds; empty where a cache keeps no data.\<close>

definition cache_data :: "Cache \<Rightarrow> IntPtr \<Rightarrow> UInt8 list option" where
  "cache_data c tag = (case tag_home c tag of None \<Rightarrow> None | Some i \<Rightarrow> set_data (ca_sets c ! i) tag)"

text \<open>Every set is well formed, and a stored tag is stored in the set its address selects.\<close>

definition cache_ok :: "Cache \<Rightarrow> bool" where
  "cache_ok c \<longleftrightarrow> cb_ok (ca_base c) \<and> hash_total (cb_hash (ca_base c)) (cb_num_sets (ca_base c))
     \<and> 0 < unat (cb_log_blocksize (ca_base c)) \<and> length (ca_sets c) = unat (cb_num_sets (ca_base c))
     \<and> ca_cache_type c \<noteq> INVALID_CACHE_TYPE
     \<and> (\<forall>i<length (ca_sets c). set_ok (ca_sets c ! i)
          \<and> pol_inv (cs_associativity (ca_sets c ! i)) (cs_policy (ca_sets c ! i))
          \<and> cs_blocksize (ca_sets c ! i) = cb_blocksize (ca_base c)
          \<and> (\<forall>t b. set_contents (ca_sets c ! i) t = Some b \<longrightarrow> tag_home c t = Some i))"

lemma tag_home_put [simp]:
  "tag_home (cache_put i s env c) = tag_home c" "tag_home (c\<lparr>ca_sets := ss\<rparr>) = tag_home c"
  "tag_home (c\<lparr>ca_fault_injector := fi\<rparr>) = tag_home c"
  by (simp_all add: tag_home_def fun_eq_iff cache_put_def)

lemma split_facts:
  assumes "cache_ok c"
  obtains t si where "splitAddress (ca_base c) a = Inr (t, si)" "si < cb_num_sets (ca_base c)"
    "unat si < length (ca_sets c)" "t \<noteq> NOT 0" "tag_home c t = Some (unat si)" "cache_set_at c si = Inr (ca_sets c ! unat si)"
proof -
  have ok: "cb_ok (ca_base c)" "hash_total (cb_hash (ca_base c)) (cb_num_sets (ca_base c))"
    "0 < unat (cb_log_blocksize (ca_base c))" "length (ca_sets c) = unat (cb_num_sets (ca_base c))"
    using assms by (simp_all add: cache_ok_def)
  obtain t si where s: "splitAddress (ca_base c) a = Inr (t, si)" "si < cb_num_sets (ca_base c)"
    using splitAddress_total [OF ok(1,2)] by blast
  moreover have "unat si < length (ca_sets c)" using s(2) ok(4) by (simp add: word_less_nat_alt)
  moreover have "tag_home c t = Some (unat si)"
    using splitAddress_of_tag [OF ok(1,2) s(1)] by (simp add: tag_home_def)
  ultimately show ?thesis using that splitAddress_tag_valid [OF s(1) ok(3)] by (simp add: cache_set_at_def)
qed

text \<open>Replacing one set by another whose bindings belong there updates the contents at that set only.\<close>

lemma cache_replace_set:
  assumes "cache_ok c" and "i < length (ca_sets c)" and "set_ok s" and "pol_inv (cs_associativity s) (cs_policy s)"
    and "cs_blocksize s = cb_blocksize (ca_base c)"
    and "\<And>t b. set_contents s t = Some b \<Longrightarrow> tag_home c t = Some i"
    and "ca_sets c' = (ca_sets c)[i := s]" and "ca_base c' = ca_base c" and "ca_cache_type c' = ca_cache_type c"
  shows "cache_ok c' \<and> cache_contents c' = (\<lambda>t. if tag_home c t = Some i then set_contents s t else cache_contents c t)"
proof -
  have home: "tag_home c' = tag_home c" using assms(8) by (simp add: tag_home_def fun_eq_iff)
  have "cache_ok c'" using assms by (simp add: cache_ok_def home nth_list_update) blast
  moreover have "cache_contents c' t = (if tag_home c t = Some i then set_contents s t else cache_contents c t)" for t
    using assms(2,7) by (auto simp: cache_contents_def home split: option.splits)
  ultimately show ?thesis by (simp add: fun_eq_iff)
qed

lemma cache_replace_data:
  assumes "i < length (ca_sets c)" and "ca_sets c' = (ca_sets c)[i := s]" and "ca_base c' = ca_base c"
  shows "cache_data c' = (\<lambda>t. if tag_home c t = Some i then set_data s t else cache_data c t)"
proof
  fix t
  have "tag_home c' = tag_home c" using assms(3) by (simp add: tag_home_def fun_eq_iff)
  then show "cache_data c' t = (if tag_home c t = Some i then set_data s t else cache_data c t)"
    using assms(1,2) by (auto simp: cache_data_def split: option.splits)
qed

lemma tag_home_less: "cache_ok c \<Longrightarrow> tag_home c t = Some i \<Longrightarrow> i < length (ca_sets c)"
  by (rule split_facts [of c "tagToAddress (ca_base c) t"]) (auto simp: tag_home_def split: if_splits)

lemma cache_set_facts:
  assumes "cache_ok c" and "i < length (ca_sets c)"
  shows "set_ok (ca_sets c ! i)" and "pol_inv (cs_associativity (ca_sets c ! i)) (cs_policy (ca_sets c ! i))"
    and "cs_blocksize (ca_sets c ! i) = cb_blocksize (ca_base c)"
    and "\<And>t b. set_contents (ca_sets c ! i) t = Some b \<Longrightarrow> tag_home c t = Some i"
  using assms by (auto simp: cache_ok_def)

lemma cache_contents_home:
  "tag_home c t = Some i \<Longrightarrow> cache_contents c t = set_contents (ca_sets c ! i) t"
  by (simp add: cache_contents_def)

text \<open>An address is looked up under the tag of its block.\<close>

definition addr_tag :: "Cache \<Rightarrow> IntPtr \<Rightarrow> IntPtr" where
  "addr_tag c addr = drop_bit (unat (cb_log_blocksize (ca_base c))) addr"

lemma Cache_peek_contents:
  assumes "cache_ok c"
  shows "Cache_peekSingleLine addr c = Inr (cache_contents c (addr_tag c addr))"
proof -
  obtain t si where s: "splitAddress (ca_base c) addr = Inr (t, si)" "t \<noteq> NOT 0" "tag_home c t = Some (unat si)"
    "cache_set_at c si = Inr (ca_sets c ! unat si)" using split_facts [OF assms, of addr] by blast
  moreover have "t = addr_tag c addr" using splitAddress_tag [OF s(1)] by (simp add: addr_tag_def)
  moreover have "set_ok (ca_sets c ! unat si)" using assms tag_home_less [OF assms s(3)] by (simp add: cache_set_facts)
  ultimately show ?thesis by (simp add: Cache_peekSingleLine_def cache_contents_home set_contents_find)
qed

text \<open>
  On a well-formed cache \<^verbatim>\<open>peekSingleLine\<close> always returns, and what it returns is the binding of
  the block of the address in the contents of the cache.
\<close>

theorem Cache_peek_is_lookup:
  assumes "cache_ok c"
  shows "Cache_peekSingleLine addr c = Inr (cache_contents c (addr_tag c addr))"
  using assms by (rule Cache_peek_contents)

lemma Cache_invalidate_contents:
  assumes "cache_ok c"
  shows "\<exists>c'. Cache_invalidateSingleLine addr c = Inr (cache_contents c (addr_tag c addr) \<noteq> None, c')
    \<and> cache_ok c' \<and> cache_contents c' = (cache_contents c)(addr_tag c addr := None)
    \<and> ca_base c' = ca_base c \<and> ca_fault_injector c' = ca_fault_injector c"
proof -
  obtain t si where s: "splitAddress (ca_base c) addr = Inr (t, si)" "si < cb_num_sets (ca_base c)"
    "unat si < length (ca_sets c)" "t \<noteq> NOT 0" "tag_home c t = Some (unat si)"
    "cache_set_at c si = Inr (ca_sets c ! unat si)" using split_facts [OF assms, of addr] by blast
  have t: "addr_tag c addr = t" using splitAddress_tag [OF s(1)] by (simp add: addr_tag_def)
  let ?s = "ca_sets c ! unat si"
  note f = cache_set_facts [OF assms s(3)]
  obtain hit s' where inv: "CacheSet_invalidate t ?s = (hit, s')" by fastforce
  note i = invalidate_contents [OF f(1) s(4) inv]
  have bs: "cs_blocksize s' = cb_blocksize (ca_base c)"
    using inv f(3) by (auto simp: CacheSet_invalidate_def split: option.splits)
  let ?c = "c\<lparr>ca_sets := (ca_sets c)[unat si := s']\<rparr>"
  have r: "cache_ok ?c \<and> cache_contents ?c = (\<lambda>t. if tag_home c t = Some (unat si) then set_contents s' t else cache_contents c t)"
    by (rule cache_replace_set [OF assms s(3)]) (use i f bs in \<open>auto split: if_splits\<close>)
  have "cache_contents ?c = (cache_contents c)(t := None)"
    using r i s(5) by (auto simp: fun_eq_iff cache_contents_home)
  moreover have "hit \<longleftrightarrow> cache_contents c t \<noteq> None" using i s(5) by (simp add: cache_contents_home)
  ultimately show ?thesis using r s inv by (simp add: Cache_invalidateSingleLine_def t)
qed

text \<open>
  \<^verbatim>\<open>invalidateSingleLine\<close> always succeeds on a well-formed cache, reports whether the block was
  present, removes exactly the binding of that block and keeps the cache well formed.
\<close>

theorem Cache_invalidate_refines_map:
  assumes "cache_ok c"
  shows "\<exists>c'. Cache_invalidateSingleLine addr c = Inr (cache_contents c (addr_tag c addr) \<noteq> None, c')
    \<and> cache_ok c' \<and> cache_contents c' = (cache_contents c)(addr_tag c addr := None)"
  using Cache_invalidate_contents [OF assms] by blast

lemma Cache_insert_contents:
  assumes "cache_ok c" and "cache_contents c (addr_tag c addr) = None"
    and "Cache_insertSingleLine addr fill ebi eb cntlr w eip c g = Inr (ev, evict_addr, ebi', eb', c', g')"
  shows "cache_ok c' \<and> (\<exists>new. cbi_tag new = addr_tag c addr \<and> cbi_cstate new = C_INVALID \<and>
     (if ev then \<exists>old. cache_contents c (cbi_tag old) = Some old \<and> ebi' = CacheBlockInfo_clone old ebi
          \<and> evict_addr = tagToAddress (ca_base c) (cbi_tag old) \<and> tag_home c (cbi_tag old) = tag_home c (addr_tag c addr)
          \<and> cache_contents c' = ((cache_contents c)(cbi_tag old := None))(addr_tag c addr \<mapsto> new)
      else cache_contents c' = (cache_contents c)(addr_tag c addr \<mapsto> new)))"
proof -
  obtain t si where s: "splitAddress (ca_base c) addr = Inr (t, si)" "unat si < length (ca_sets c)" "t \<noteq> NOT 0"
    "tag_home c t = Some (unat si)" "cache_set_at c si = Inr (ca_sets c ! unat si)"
    using split_facts [OF assms(1), of addr] by blast
  have t: "addr_tag c addr = t" using splitAddress_tag [OF s(1)] by (simp add: addr_tag_def)
  let ?s = "ca_sets c ! unat si"
  note f = cache_set_facts [OF assms(1) s(2)]
  obtain b where b: "CacheBlockInfo_create (ca_cache_type c) = Inr b" "cbi_cstate b = C_INVALID"
    using assms(1) by (cases "ca_cache_type c") (auto simp: CacheBlockInfo_create_def CacheBlockInfo_new_def cache_ok_def)
  obtain s' fi where ins: "CacheSet_insert2 getReplacementIndex (setTag t b) fill ebi eb cntlr w eip si ?s (cache_env c g)
      = Inr (ev, ebi', eb', s', g')" "evict_addr = tagToAddress (ca_base c) (cbi_tag ebi')"
    and c': "c' = (cache_put si (s'\<lparr>cs_data := cs_data s'\<rparr>) g' c)\<lparr>ca_fault_injector := fi\<rparr>"
    using assms(3) s b by (auto simp: Cache_insertSingleLine_def Let_def FaultInjector_postWrite_def split: option.splits)
  have absent: "set_contents ?s (cbi_tag (setTag t b)) = None"
    using assms(2) s(4) by (simp add: t cache_contents_home)
  obtain old where old: "set_ok s'" "pol_inv (cs_associativity s') (cs_policy s')" "cs_blocksize s' = cs_blocksize ?s"
    "ev = isValid old" "ebi' = (if ev then CacheBlockInfo_clone old ebi else ebi)"
    "ev \<longrightarrow> set_contents ?s (cbi_tag old) = Some old"
    "set_contents s' = ((set_contents ?s)(cbi_tag old := None))(t \<mapsto> CacheBlockInfo_clone (setTag t b) old)"
    using pol.insert2_contents [OF f(1,2) _ absent ins(1)] s(3) by auto
  let ?new = "CacheBlockInfo_clone (setTag t b) old"
  have r: "cache_ok c' \<and> cache_contents c' = (\<lambda>t. if tag_home c t = Some (unat si) then set_contents s' t else cache_contents c t)"
    by (rule cache_replace_set [OF assms(1) s(2), where s = s'])
      (use old(1-3,7) f c' s(4) in \<open>auto simp: cache_put_def split: if_splits\<close>)
  have new: "cbi_tag ?new = t" "cbi_cstate ?new = C_INVALID" using b(2) by (simp_all add: setTag_def)
  show ?thesis
  proof (cases ev)
    case True
    then have o: "set_contents ?s (cbi_tag old) = Some old" "tag_home c (cbi_tag old) = Some (unat si)"
      using old(6) f(4) by auto
    then have "cache_contents c (cbi_tag old) = Some old" by (simp add: cache_contents_home)
    moreover have "cache_contents c' = ((cache_contents c)(cbi_tag old := None))(t \<mapsto> ?new)"
      using r s(4) o by (auto simp: fun_eq_iff old(7) cache_contents_home)
    moreover have "ebi' = CacheBlockInfo_clone old ebi" "evict_addr = tagToAddress (ca_base c) (cbi_tag old)"
      "tag_home c (cbi_tag old) = tag_home c t" using True old(5) ins(2) o(2) s(4) by simp_all
    ultimately show ?thesis unfolding t using True r new by (intro conjI exI [of _ ?new]) (simp_all, blast)
  next
    case False
    then have "set_contents ?s (cbi_tag old) = None" using old(4) by (simp add: isValid_def)
    then have "(set_contents ?s)(cbi_tag old := None) = set_contents ?s" by (rule fun_upd_idem)
    then have "cache_contents c' = (cache_contents c)(t \<mapsto> ?new)"
      using r s(4) by (auto simp: fun_eq_iff old(7) cache_contents_home)
    then show ?thesis unfolding t using False r new by (intro conjI exI [of _ ?new]) simp_all
  qed
qed

text \<open>
  C6: \<^verbatim>\<open>insertSingleLine\<close> refines the update of the contents map, for every geometry, hash function
  and replacement policy. When it succeeds for a block that is not present, the new contents have
  the block of the address, one other block at most is gone, and if so its block info and its
  address are what is reported as evicted; the evicted block comes from the same set.
\<close>

theorem Cache_insert_refines_map:
  assumes "cache_ok c" and "cache_contents c (addr_tag c addr) = None"
    and "Cache_insertSingleLine addr fill ebi eb cntlr w eip c g = Inr (ev, evict_addr, ebi', eb', c', g')"
  shows "cache_ok c' \<and> (\<exists>new. cbi_tag new = addr_tag c addr \<and> cbi_cstate new = C_INVALID \<and>
     (if ev then \<exists>old. cache_contents c (cbi_tag old) = Some old \<and> ebi' = CacheBlockInfo_clone old ebi
          \<and> evict_addr = tagToAddress (ca_base c) (cbi_tag old) \<and> tag_home c (cbi_tag old) = tag_home c (addr_tag c addr)
          \<and> cache_contents c' = ((cache_contents c)(cbi_tag old := None))(addr_tag c addr \<mapsto> new)
      else cache_contents c' = (cache_contents c)(addr_tag c addr \<mapsto> new)))"
  using assms by (rule Cache_insert_contents)

lemma Cache_create_ok:
  assumes "Cache_create cfg name ns assoc bs pname kind hash fi ahl = Inr c"
    and "isPower2 bs" "1 < unat bs" "ns \<noteq> 0" "hash_total hash ns"
    and "\<And>l. ahl = Some l \<Longrightarrow> ahl_ok l \<and> unat bs \<le> 2 ^ ahl_param l"
    and "\<And>policy. parsePolicyType pname = Inr policy \<Longrightarrow> policy_fits cfg policy (unat assoc)"
  shows "cache_ok c \<and> cache_contents c = Map.empty"
proof -
  obtain base si set policy where c: "CacheBase_create name ns assoc bs hash ahl = Inr base"
    "parsePolicyType pname = Inr policy" "createCacheSet cfg pname kind (unat assoc) bs = Inr set"
    "c = \<lparr>ca_base = base, ca_enabled = False, ca_num_accesses = 0, ca_num_hits = 0, ca_cache_type = kind,
      ca_sets = replicate (unat ns) set, ca_set_info = si, ca_fault_injector = fi\<rparr>"
    using assms(1) by (auto simp: Cache_create_def createCacheSetInfo_def)
  have nz: "bs \<noteq> 0" using assms(3) by auto
  have base: "cb_ok base" using CacheBase_create_ok [OF c(1) assms(2) nz assms(4) assms(6)] .
  have b: "cb_hash base = hash" "cb_num_sets base = ns" "cb_blocksize base = bs"
    using c(1) by (auto simp: CacheBase_create_def)
  have "0 < unat (cb_log_blocksize base)"
    using base b(3) assms(3) by (cases "unat (cb_log_blocksize base)") (auto simp: cb_ok_def)
  moreover obtain blk st where set: "CacheBlockInfo_create kind = Inr blk" "create_policy cfg policy (unat assoc) = Inr st"
    "cs_policy set = st" "cs_blocks set = replicate (unat assoc) blk" "cs_associativity set = unat assoc"
    "cs_blocksize set = bs" "\<forall>d. cs_data set = Some d \<longrightarrow> length d = unat assoc * unat bs"
    using c(2,3) by (auto simp: createCacheSet_def split: if_splits)
  moreover have "set_ok set \<and> set_contents set = Map.empty"
    using set CacheBlockInfo_create_invalid [OF set(1)] by (intro set_contents_empty) auto
  moreover have "pol_inv (unat assoc) st" using create_policy_inv [OF assms(7) [OF c(2)] set(2)] .
  moreover have "kind \<noteq> INVALID_CACHE_TYPE" using set(1) by (auto simp: CacheBlockInfo_create_def)
  ultimately have ok: "cache_ok c" and empty: "set_contents set = Map.empty"
    using base assms(5) b by (simp_all add: c(4) cache_ok_def)
  have "cache_contents c t = None" for t
    using tag_home_less [OF ok, of t] empty by (auto simp: cache_contents_def c(4) split: option.splits)
  with ok show ?thesis by (simp add: fun_eq_iff)
qed

lemma example_base:
  "CacheBase_create ''L1-D'' 2 8 64 HASH_MASK None = Inr
     \<lparr>cb_name = ''L1-D'', cb_cache_size = 1024, cb_associativity = 8, cb_blocksize = 64, cb_hash = HASH_MASK,
      cb_num_sets = 2, cb_ahl = None, cb_log_blocksize = 6, cb_log_num_sets = 1\<rparr>"
  by (simp add: CacheBase_create_def floorLog2_def floorLog2_step_def Let_def)

lemma example_cache:
  "\<exists>c. Cache_create example_cfg ''L1-D'' 2 8 64 ''plru'' PR_L1_CACHE HASH_MASK None None = Inr c
     \<and> cache_ok c \<and> cache_contents c = Map.empty
     \<and> ca_sets c = replicate 2 example_set \<and> ca_fault_injector c = None \<and> ca_cache_type c = PR_L1_CACHE"
proof -
  have p: "parsePolicyType ''plru'' = Inr PLRU" by (simp add: parsePolicyType_def)
  obtain c where c: "Cache_create example_cfg ''L1-D'' 2 8 64 ''plru'' PR_L1_CACHE HASH_MASK None None = Inr c"
    "ca_sets c = replicate 2 example_set" "ca_fault_injector c = None" "ca_cache_type c = PR_L1_CACHE"
    using example_base example_set_created by (simp add: Cache_create_def createCacheSetInfo_def p)
  have "cache_ok c \<and> cache_contents c = Map.empty"
    by (rule Cache_create_ok [OF c(1)]) (auto simp: isPower2_def hash_total_def p policy_fits_def)
  with c show ?thesis by blast
qed

theorem Cache_peek_is_lookup_witness:
  "\<exists>c. Cache_create example_cfg ''L1-D'' 2 8 64 ''plru'' PR_L1_CACHE HASH_MASK None None = Inr c
     \<and> Cache_peekSingleLine 4096 c = Inr None"
  using example_cache Cache_peek_is_lookup [where addr = 4096] by force

theorem Cache_invalidate_refines_map_witness:
  "\<exists>c c'. Cache_create example_cfg ''L1-D'' 2 8 64 ''plru'' PR_L1_CACHE HASH_MASK None None = Inr c
     \<and> Cache_invalidateSingleLine 4096 c = Inr (False, c') \<and> cache_ok c'"
  using example_cache Cache_invalidate_refines_map [where addr = 4096] by force

lemma example_insert:
  "\<exists>c ev evict_addr ebi' eb' c' g'.
     Cache_create example_cfg ''L1-D'' 2 8 64 ''plru'' PR_L1_CACHE HASH_MASK None None = Inr c
     \<and> cache_ok c \<and> cache_contents c = Map.empty \<and> ca_fault_injector c = None
     \<and> Cache_insertSingleLine 4096 None example_block None None 0 0 c example_env4 = Inr (ev, evict_addr, ebi', eb', c', g')"
proof -
  obtain c where c: "Cache_create example_cfg ''L1-D'' 2 8 64 ''plru'' PR_L1_CACHE HASH_MASK None None = Inr c"
    "cache_ok c" "cache_contents c = Map.empty" "ca_sets c = replicate 2 example_set" "ca_fault_injector c = None"
    "ca_cache_type c = PR_L1_CACHE" using example_cache by blast
  obtain t si where s: "splitAddress (ca_base c) 4096 = Inr (t, si)" "unat si < 2" "cache_set_at c si = Inr example_set"
    using split_facts [OF c(2), of 4096] c(4) by (metis length_replicate nth_replicate)
  obtain i st env' where g: "getReplacementIndex 8 None (cs_blocks example_set) 0 0 si (cs_policy example_set) (cache_env c example_env4)
      = Inr (i, st, env')" "i < 8"
    using policy_free_way [of 8 "cs_policy example_set" "cs_blocks example_set" 0 None 0 0 si "cache_env c example_env4"]
      example_set_ok by (auto simp: example_set_def)
  have "\<exists>r. Cache_insertSingleLine 4096 None example_block None None 0 0 c example_env4 = Inr r"
    using s c(5,6) g
    by (simp add: Cache_insertSingleLine_def CacheBlockInfo_create_def CacheSet_insert2_def example_set_def Let_def)
  then obtain ev evict_addr ebi' eb' c' g' where
    ins: "Cache_insertSingleLine 4096 None example_block None None 0 0 c example_env4 = Inr (ev, evict_addr, ebi', eb', c', g')"
    by (metis surj_pair)
  with c show ?thesis by blast
qed

theorem Cache_insert_refines_map_witness:
  "\<exists>c ev evict_addr ebi' eb' c' g'.
     Cache_create example_cfg ''L1-D'' 2 8 64 ''plru'' PR_L1_CACHE HASH_MASK None None = Inr c
     \<and> Cache_insertSingleLine 4096 None example_block None None 0 0 c example_env4 = Inr (ev, evict_addr, ebi', eb', c', g')
     \<and> cache_ok c'"
proof -
  obtain c ev evict_addr ebi' eb' c' g' where c: "Cache_create example_cfg ''L1-D'' 2 8 64 ''plru'' PR_L1_CACHE HASH_MASK None None = Inr c"
    "cache_ok c" "cache_contents c = Map.empty"
    and ins: "Cache_insertSingleLine 4096 None example_block None None 0 0 c example_env4 = Inr (ev, evict_addr, ebi', eb', c', g')"
    using example_insert by blast
  have "cache_contents c (addr_tag c 4096) = None" using c(3) by simp
  from Cache_insert_refines_map [OF c(2) this ins] c(1) ins show ?thesis by blast
qed

section \<open>Accesses\<close>

lemma access_hit:
  assumes "cache_ok c" and "Cache_accessSingleLine addr at buff bytes u c g = Inr (Some (si, li), buff', c', g')"
    and "unat addr mod unat (cb_blocksize (ca_base c)) + unat bytes \<le> unat (cb_blocksize (ca_base c))"
    and "splitAddress (ca_base c) addr = Inr (t, si')" and "tag_home c t = Some (unat si')" and "unat si' < length (ca_sets c)"
  shows "\<exists>s'. set_ok s' \<and> pol_inv (cs_associativity s') (cs_policy s') \<and> cs_blocksize s' = cb_blocksize (ca_base c)
    \<and> set_contents s' = set_contents (ca_sets c ! unat si') \<and> ca_sets c' = (ca_sets c)[unat si' := s']
    \<and> ca_base c' = ca_base c \<and> ca_cache_type c' = ca_cache_type c"
proof -
  let ?s = "ca_sets c ! unat si'"
  note f = cache_set_facts [OF assms(1,6)]
  have cb: "cb_ok (ca_base c)" using assms(1) by (simp add: cache_ok_def)
  define off where "off = (ucast (addr AND ucast (cb_blocksize (ca_base c) - 1)) :: UInt32)"
  have sp: "splitAddress_offset (ca_base c) addr = Inr (t, si', off)" and at: "cache_set_at c si' = Inr ?s"
    using assms(4,6) by (simp_all add: splitAddress_offset_def off_def cache_set_at_def)
  have fit: "unat off + unat bytes \<le> unat (cs_blocksize ?s)"
    using assms(3) unat_block_offset [OF cb, of addr] cb f(3) by (simp add: off_def cb_ok_def)
  obtain line where line: "CacheSet_find t ?s = Some line"
    using assms(2) sp at by (cases "CacheSet_find t ?s") (auto simp: Cache_accessSingleLine_def)
  then have li: "line < cs_associativity ?s" by (auto simp: CacheSet_find_def dest: last_index_Some)
  show ?thesis
  proof (cases "at = LOAD")
    case True
    then obtain d fi s' env' where
      pre: "(case ca_fault_injector c of None \<Rightarrow> Inr (cs_data ?s, None)
        | Some fi \<Rightarrow> bindR (FaultInjector_preRead bytes (line * unat (cs_blocksize ?s) + unat off) (cs_data ?s) fi) (\<lambda>(d, fi). Inr (d, Some fi)))
        = Inr (d, fi)"
      and r: "CacheSet_read_line updateReplacementIndex line off buff bytes u si' (?s\<lparr>cs_data := d\<rparr>) (cache_env c g)
        = Inr (buff', s', env')"
      and c': "ca_sets c' = (ca_sets c)[unat si' := s']" "ca_base c' = ca_base c" "ca_cache_type c' = ca_cache_type c"
      using assms(2) sp at line by (auto simp: Cache_accessSingleLine_def Let_def cache_put_def)
    have d: "map_option length d = map_option length (cs_data ?s)"
      using pre by (cases "ca_fault_injector c") (auto dest!: preRead_keeps_length)
    have "\<forall>x. d = Some x \<longrightarrow> length x = cs_associativity ?s * unat (cs_blocksize ?s)"
      using d f(1) by (cases "cs_data ?s") (auto simp: set_ok_def)
    then have ok: "set_ok (?s\<lparr>cs_data := d\<rparr>)" "set_contents (?s\<lparr>cs_data := d\<rparr>) = set_contents ?s"
      using set_frame [OF f(1), of "?s\<lparr>cs_data := d\<rparr>"] by simp_all
    with pol.read_line_contents [OF ok(1) _ _ r] f(2,3) li c' show ?thesis by (intro exI [of _ s']) auto
  next
    case False
    then obtain s' env' where w: "CacheSet_write_line updateReplacementIndex line off buff bytes u si' ?s (cache_env c g) = Inr (s', env')"
      and c': "ca_sets c' = (ca_sets c)[unat si' := s'\<lparr>cs_data := cs_data s'\<rparr>]" "ca_base c' = ca_base c" "ca_cache_type c' = ca_cache_type c"
      using assms(2) sp at line
      by (auto simp: Cache_accessSingleLine_def Let_def cache_put_def FaultInjector_postWrite_def split: option.splits)
    with pol.write_line_contents [OF f(1,2) li fit w] f(3) show ?thesis by (intro exI [of _ s']) auto
  qed
qed

lemma Cache_access_contents:
  assumes "cache_ok c" and "unat addr mod unat (cb_blocksize (ca_base c)) + unat bytes \<le> unat (cb_blocksize (ca_base c))"
    and "Cache_accessSingleLine addr at buff bytes u c g = Inr (hit, buff', c', g')"
  shows "(hit \<noteq> None \<longleftrightarrow> cache_contents c (addr_tag c addr) \<noteq> None) \<and> cache_ok c' \<and> cache_contents c' = cache_contents c"
proof -
  obtain t si where s: "splitAddress (ca_base c) addr = Inr (t, si)" "unat si < length (ca_sets c)" "t \<noteq> NOT 0"
    "tag_home c t = Some (unat si)" "cache_set_at c si = Inr (ca_sets c ! unat si)"
    using split_facts [OF assms(1), of addr] by blast
  have t: "addr_tag c addr = t" using splitAddress_tag [OF s(1)] by (simp add: addr_tag_def)
  have find: "cache_contents c t \<noteq> None \<longleftrightarrow> CacheSet_find t (ca_sets c ! unat si) \<noteq> None"
    using s(3,4) cache_set_facts(1) [OF assms(1) s(2)] by (simp add: cache_contents_home set_contents_find)
  show ?thesis
  proof (cases hit)
    case None
    then have "c' = c" "CacheSet_find t (ca_sets c ! unat si) = None"
      using assms(3) s by (auto simp: Cache_accessSingleLine_def splitAddress_offset_def Let_def FaultInjector_postWrite_def split: option.splits if_splits)
    with None find t assms(1) show ?thesis by simp
  next
    case (Some h)
    then obtain si' li where h: "hit = Some (si', li)" by (cases h) simp
    obtain s' where s': "set_ok s'" "pol_inv (cs_associativity s') (cs_policy s')" "cs_blocksize s' = cb_blocksize (ca_base c)"
      "set_contents s' = set_contents (ca_sets c ! unat si)" "ca_sets c' = (ca_sets c)[unat si := s']"
      "ca_base c' = ca_base c" "ca_cache_type c' = ca_cache_type c"
      using access_hit [OF assms(1) assms(3) [unfolded h] assms(2) s(1,4,2)] by blast
    have "cache_ok c' \<and> cache_contents c' = (\<lambda>t. if tag_home c t = Some (unat si) then set_contents s' t else cache_contents c t)"
      by (rule cache_replace_set [OF assms(1) s(2) s'(1-3) _ s'(5-7)]) (use s'(4) cache_set_facts(4) [OF assms(1) s(2)] in simp)
    moreover have "CacheSet_find t (ca_sets c ! unat si) \<noteq> None"
      using assms(3) s h by (auto simp: Cache_accessSingleLine_def splitAddress_offset_def split: option.splits)
    ultimately show ?thesis using find t h s'(4) by (auto simp: fun_eq_iff cache_contents_home)
  qed
qed

text \<open>
  The data side of an access, for a cache without fault injector: what a load copies out, and which
  bytes of which block a store changes.
\<close>

lemma Cache_access_data:
  assumes ok: "cache_ok c" and fits: "unat addr mod unat (cb_blocksize (ca_base c)) + unat bytes \<le> unat (cb_blocksize (ca_base c))"
    and acc: "Cache_accessSingleLine addr at buff bytes u c g = Inr (hit, buff', c', g')" and fi: "ca_fault_injector c = None"
  defines "t \<equiv> addr_tag c addr" and "off \<equiv> unat addr mod unat (cb_blocksize (ca_base c))"
  shows "if at = LOAD
    then cache_data c' = cache_data c
      \<and> buff' = (case (buff, cache_data c t) of
          (Some out, Some d) \<Rightarrow> Some (memcpy_at 0 (take (unat bytes) (drop off d)) out) | _ \<Rightarrow> buff)
    else buff' = buff
      \<and> cache_data c' = (case buff of None \<Rightarrow> cache_data c
          | Some src \<Rightarrow> (cache_data c)(t := map_option (memcpy_at off (take (unat bytes) src)) (cache_data c t)))"
proof -
  obtain t' si where s: "splitAddress (ca_base c) addr = Inr (t', si)" "unat si < length (ca_sets c)" "t' \<noteq> NOT 0"
    "tag_home c t' = Some (unat si)" "cache_set_at c si = Inr (ca_sets c ! unat si)"
    using split_facts [OF ok, of addr] by blast
  have t: "t' = t" using splitAddress_tag [OF s(1)] by (simp add: addr_tag_def t_def)
  let ?s = "ca_sets c ! unat si"
  note f = cache_set_facts [OF ok s(2)]
  have cb: "cb_ok (ca_base c)" using ok by (simp add: cache_ok_def)
  define o' where "o' = (ucast (addr AND ucast (cb_blocksize (ca_base c) - 1)) :: UInt32)"
  have o': "unat o' = off" using unat_block_offset [OF cb, of addr] cb by (simp add: o'_def off_def cb_ok_def)
  have sp: "splitAddress_offset (ca_base c) addr = Inr (t, si, o')"
    using s(1) by (simp add: splitAddress_offset_def o'_def t)
  have fit: "unat o' + unat bytes \<le> unat (cs_blocksize ?s)" using fits o' f(3) by (simp add: off_def)
  have home: "cache_data c t = set_data ?s t" using s(4) by (simp add: cache_data_def t)
  show ?thesis
  proof (cases "CacheSet_find t ?s")
    case None
    then have "cache_data c t = None" using home set_data_find [OF f(1)] s(3) t by simp
    moreover have "c' = c" "buff' = buff" using acc None by (auto simp: Cache_accessSingleLine_def sp s(5))
    ultimately show ?thesis by (auto simp: fun_upd_idem split: option.splits)
  next
    case (Some li)
    show ?thesis
    proof (cases "at = LOAD")
      case True
      then obtain s' env' where rd: "CacheSet_read_line updateReplacementIndex li o' buff bytes u si ?s (cache_env c g) = Inr (buff', s', env')"
        and c': "ca_sets c' = (ca_sets c)[unat si := s']" "ca_base c' = ca_base c"
        using acc Some by (auto simp: Cache_accessSingleLine_def sp s(5) fi cache_put_def Let_def)
      from read_line_data [OF f(1) Some _ fit rd] s(3) t have
        r: "set_data s' = set_data ?s" "buff' = (case (buff, set_data ?s t) of (Some out, Some d) \<Rightarrow>
            Some (memcpy_at 0 (take (unat bytes) (drop (unat o') d)) out) | _ \<Rightarrow> buff)" by simp_all
      have "cache_data c' = cache_data c"
        unfolding cache_replace_data [OF s(2) c'] r(1) by (auto simp: cache_data_def fun_eq_iff)
      with True r(2) home show ?thesis by (simp add: o' cong: option.case_cong)
    next
      case False
      then obtain s' env' where wr: "CacheSet_write_line updateReplacementIndex li o' buff bytes u si ?s (cache_env c g) = Inr (s', env')"
        and c': "ca_sets c' = (ca_sets c)[unat si := s']" "ca_base c' = ca_base c" and buf: "buff' = buff"
        using acc Some by (auto simp: Cache_accessSingleLine_def sp s(5) fi cache_put_def Let_def)
      from write_line_data [OF f(1) Some _ fit wr] s(3) t have
        r: "set_data s' = (case buff of None \<Rightarrow> set_data ?s
          | Some src \<Rightarrow> (set_data ?s)(t := map_option (memcpy_at (unat o') (take (unat bytes) src)) (set_data ?s t)))" by simp
      have "cache_data c' = (case buff of None \<Rightarrow> cache_data c
          | Some src \<Rightarrow> (cache_data c)(t := map_option (memcpy_at off (take (unat bytes) src)) (cache_data c t)))"
        unfolding cache_replace_data [OF s(2) c'] r using s(4) o'
        by (auto simp: cache_data_def fun_eq_iff t split: option.splits)
      with False buf show ?thesis by simp
    qed
  qed
qed

text \<open>
  C10: An access inside one block of a well-formed cache hits exactly when some valid way holds the tag
  of the block, and changes neither which blocks the cache holds nor their block infos; the cache stays
  well formed. In a cache without fault injector a load copies the addressed bytes of the block to
  the front of the caller's buffer and changes no data; a store replaces exactly the addressed bytes
  of that block by the caller's, leaves every other byte of the cache and returns the buffer as it was.
  On a miss, or where the cache keeps no data, no byte moves.
\<close>

theorem Cache_access_keeps_contents:
  assumes "cache_ok c" and "unat addr mod unat (cb_blocksize (ca_base c)) + unat bytes \<le> unat (cb_blocksize (ca_base c))"
    and "Cache_accessSingleLine addr at buff bytes u c g = Inr (hit, buff', c', g')"
  shows "(hit \<noteq> None \<longleftrightarrow> cache_contents c (addr_tag c addr) \<noteq> None) \<and> cache_ok c' \<and> cache_contents c' = cache_contents c
    \<and> (ca_fault_injector c = None \<longrightarrow>
       (let t = addr_tag c addr; off = unat addr mod unat (cb_blocksize (ca_base c)); n = unat bytes
        in if at = LOAD
           then cache_data c' = cache_data c
             \<and> buff' = (case (buff, cache_data c t) of
                 (Some out, Some d) \<Rightarrow> Some (memcpy_at 0 (take n (drop off d)) out) | _ \<Rightarrow> buff)
           else buff' = buff
             \<and> cache_data c' = (case buff of None \<Rightarrow> cache_data c
                 | Some src \<Rightarrow> (cache_data c)(t := map_option (memcpy_at off (take n src)) (cache_data c t)))))"
  using Cache_access_contents [OF assms] Cache_access_data [OF assms] by (simp add: Let_def)

text \<open>A cache of one way that holds block 5 with the bytes 1 and 2.\<close>

definition tiny_cache :: Cache where
  "tiny_cache = \<lparr>ca_base = \<lparr>cb_name = ''L1'', cb_cache_size = 2, cb_associativity = 1, cb_blocksize = 2, cb_hash = HASH_MASK,
       cb_num_sets = 1, cb_ahl = None, cb_log_blocksize = 1, cb_log_num_sets = 0\<rparr>, ca_enabled = True, ca_num_accesses = 0,
     ca_num_hits = 0, ca_cache_type = PR_L1_CACHE,
     ca_sets = [\<lparr>cs_blocks = [CacheBlockInfo_new PR_L1_CACHE 5 C_SHARED 0], cs_data = Some [1, 2], cs_associativity = 1,
       cs_blocksize = 2, cs_policy = RRoundRobin 0\<rparr>], ca_set_info = None, ca_fault_injector = None\<rparr>"

lemma tiny_cache_ok: "cache_ok tiny_cache"
proof -
  have "splitAddress (ca_base tiny_cache) (tagToAddress (ca_base tiny_cache) 5) = Inr (5, 0)"
    by (simp add: tiny_cache_def splitAddress_def tagToAddress_def set_hash_def Let_def)
  then show ?thesis
    by (simp add: cache_ok_def tiny_cache_def cb_ok_def isPower2_def hash_total_def set_ok_def rr_inv_def tag_home_def
        set_contents_def isValid_def CacheBlockInfo_new_def floorLog2_def floorLog2_step_def)
qed

lemmas tiny_access = Cache_accessSingleLine_def splitAddress_offset_def splitAddress_def set_hash_def cache_set_at_def
  CacheSet_find_def last_index_def CacheSet_write_line_def CacheSet_read_line_def tiny_cache_def CacheBlockInfo_new_def assertR_def
  cache_put_def cache_env_def memcpy_at_def wrap_upd_def CacheSetRoundRobin_updateReplacementIndex_def

theorem Cache_access_keeps_contents_witness:
  "\<exists>hit c' g' c'' g''. Cache_accessSingleLine 11 STORE (Some [9]) 1 True tiny_cache example_env4 = Inr (Some hit, Some [9], c', g')
     \<and> cache_data tiny_cache 5 = Some [1, 2] \<and> cache_data c' 5 = Some [1, 9]
     \<and> Cache_accessSingleLine 10 LOAD (Some [0, 0]) 2 True c' g' = Inr (Some hit, Some [1, 9], c'', g'')"
proof -
  let ?c = "tiny_cache\<lparr>ca_sets := [(ca_sets tiny_cache ! 0)\<lparr>cs_data := Some [1, 9]\<rparr>]\<rparr>"
  let ?g = "cache_env tiny_cache example_env4"
  have w: "Cache_accessSingleLine 11 STORE (Some [9]) 1 True tiny_cache example_env4 = Inr (Some (0, 0), Some [9], ?c, ?g)"
    by (simp add: tiny_access Let_def)
  have l: "Cache_accessSingleLine 10 LOAD (Some [0, 0]) 2 True ?c ?g = Inr (Some (0, 0), Some [1, 9], ?c, ?g)"
    by (simp add: tiny_access Let_def)
  have t: "addr_tag tiny_cache 11 = 5" "ca_fault_injector tiny_cache = None" "cb_blocksize (ca_base tiny_cache) = 2"
    by (simp_all add: addr_tag_def tiny_cache_def drop_bit_numeral_minus_bit1)
  have d: "cache_data tiny_cache 5 = Some [1, 2]"
    by (simp add: cache_data_def tag_home_def tiny_cache_def splitAddress_def tagToAddress_def set_hash_def Let_def set_data_def
        way_slice_def CacheBlockInfo_new_def isValid_def)
  have "cache_data ?c 5 = Some [1, 9]"
    using Cache_access_keeps_contents [OF tiny_cache_ok _ w] t d by (simp add: memcpy_at_def Let_def)
  with w l d show ?thesis by blast
qed

section \<open>Changing a block in place\<close>

text \<open>A block is changed through the pointer that \<^verbatim>\<open>peekSingleLine\<close> returned.\<close>

definition Cache_updBlock :: "IntPtr \<Rightarrow> (CacheBlockInfo \<Rightarrow> CacheBlockInfo) \<Rightarrow> Cache \<Rightarrow> Cache result" where
  "Cache_updBlock addr f c =
     bindR (splitAddress (ca_base c) addr) (\<lambda>(tag, set_index).
     bindR (cache_set_at c set_index) (\<lambda>set.
     case CacheSet_find tag set of
       None \<Rightarrow> Inl (Trap ''null pointer'')
     | Some i \<Rightarrow> Inr (c\<lparr>ca_sets := (ca_sets c)[unat set_index := set\<lparr>cs_blocks := (cs_blocks set)[i := f (cs_blocks set ! i)]\<rparr>]\<rparr>)))"

lemma same_data_policy: "s\<lparr>cs_blocks := x, cs_data := cs_data s, cs_policy := cs_policy s\<rparr> = s\<lparr>cs_blocks := x\<rparr>"
  by simp

lemma Cache_updBlock_contents:
  assumes ok: "cache_ok c" and b: "cache_contents c (addr_tag c addr) = Some b" and f: "cbi_tag (f b) = cbi_tag b"
  shows "\<exists>c'. Cache_updBlock addr f c = Inr c' \<and> cache_ok c' \<and> ca_base c' = ca_base c \<and> ca_fault_injector c' = ca_fault_injector c
    \<and> cache_contents c' = (cache_contents c)(addr_tag c addr \<mapsto> f b)"
proof -
  obtain t si where s: "splitAddress (ca_base c) addr = Inr (t, si)" "unat si < length (ca_sets c)" "t \<noteq> NOT 0"
    "tag_home c t = Some (unat si)" "cache_set_at c si = Inr (ca_sets c ! unat si)"
    using split_facts [OF ok, of addr] by blast
  have t: "addr_tag c addr = t" using splitAddress_tag [OF s(1)] by (simp add: addr_tag_def)
  let ?s = "ca_sets c ! unat si"
  note fs = cache_set_facts [OF ok s(2)]
  have sb: "set_contents ?s t = Some b" using b s(4) by (simp add: t cache_contents_home)
  then obtain i where i: "CacheSet_find t ?s = Some i" "cs_blocks ?s ! i = b" using s(3) fs(1) by (auto simp: set_contents_find)
  then have i': "i < cs_associativity ?s" "cbi_tag b = t" using CacheSet_find_iff [OF fs(1) s(3)] by auto
  let ?b = "f b"
  let ?s' = "?s\<lparr>cs_blocks := (cs_blocks ?s)[i := ?b]\<rparr>"
  have fr: "\<forall>j < cs_associativity ?s. j \<noteq> i \<longrightarrow> cbi_tag (cs_blocks ?s ! j) \<noteq> cbi_tag ?b"
  proof (intro allI impI notI)
    fix j assume j: "j < cs_associativity ?s" "j \<noteq> i" "cbi_tag (cs_blocks ?s ! j) = cbi_tag ?b"
    have "cbi_tag (cs_blocks ?s ! i) = cbi_tag (cs_blocks ?s ! j)" using j(3) i(2) by (simp add: f)
    moreover have "isValid (cs_blocks ?s ! i)" using i(2) i'(2) s(3) by (simp add: isValid_def)
    ultimately show False using set_ok_inj [OF fs(1) i'(1) j(1)] j(2) by simp
  qed
  have R: "set_ok ?s' \<and> set_contents ?s' = (set_contents ?s)(t \<mapsto> ?b)"
  proof -
    have d: "\<forall>d. cs_data ?s = Some d \<longrightarrow> length d = cs_associativity ?s * unat (cs_blocksize ?s)" using fs(1) by (simp add: set_ok_def)
    have "isValid ?b" "cbi_tag ?b = t" using i'(2) s(3) by (simp_all add: isValid_def f)
    then show ?thesis using set_contents_replace [OF fs(1) i'(1) fr d, of "cs_policy ?s"] i(2) i'(2)
      by (simp add: same_data_policy)
  qed
  let ?c = "c\<lparr>ca_sets := (ca_sets c)[unat si := ?s']\<rparr>"
  have home: "tag_home c x = Some (unat si)" if "set_contents ?s' x = Some y" for x y
    using that R fs(4) [of x] s(4) by (cases "x = t") auto
  have C: "cache_ok ?c \<and> cache_contents ?c = (\<lambda>t. if tag_home c t = Some (unat si) then set_contents ?s' t else cache_contents c t)"
    by (rule cache_replace_set [where c' = ?c and s = ?s', OF ok s(2) conjunct1 [OF R] _ _ home]) (use fs(2,3) in simp_all)
  have "cache_contents ?c = (cache_contents c)(t \<mapsto> ?b)"
    using C R s(4) by (auto simp: fun_eq_iff cache_contents_home)
  then show ?thesis using C s i by (auto simp: Cache_updBlock_def t)
qed

section \<open>Accesses without replacement update\<close>

text \<open>
  A controller moves whole lines between caches without touching the replacement state. Without a fault injector such an
  access always returns, and finding the way of a line fails exactly when the line is absent.
\<close>

definition cache_same :: "Cache \<Rightarrow> Cache \<Rightarrow> bool" where
  "cache_same c c' \<longleftrightarrow> cache_ok c' \<and> ca_base c' = ca_base c \<and> ca_fault_injector c' = ca_fault_injector c"

lemma Cache_access_plain:
  assumes ok: "cache_ok c" and fi: "ca_fault_injector c = None" and b: "cache_contents c (addr_tag c addr) = Some b"
    and al: "unat addr mod unat (cb_blocksize (ca_base c)) = 0"
  shows "\<exists>x buf' c' g'. Cache_accessSingleLine addr at buf (cb_blocksize (ca_base c)) False c g = Inr (Some x, buf', c', g')
    \<and> cache_same c c' \<and> cache_contents c' = cache_contents c
    \<and> (\<forall>x. buf = Some x \<longrightarrow> unat (cb_blocksize (ca_base c)) \<le> length x \<longrightarrow> (\<exists>y. buf' = Some y \<and> length y = length x))
    \<and> (buf = None \<longrightarrow> buf' = None)"
proof -
  obtain t si where s: "splitAddress (ca_base c) addr = Inr (t, si)" "unat si < length (ca_sets c)" "t \<noteq> NOT 0"
    "tag_home c t = Some (unat si)" "cache_set_at c si = Inr (ca_sets c ! unat si)"
    using split_facts [OF ok, of addr] by blast
  have t: "addr_tag c addr = t" using splitAddress_tag [OF s(1)] by (simp add: addr_tag_def)
  let ?s = "ca_sets c ! unat si"
  note f = cache_set_facts [OF ok s(2)]
  have cb: "cb_ok (ca_base c)" using ok by (simp add: cache_ok_def)
  obtain li where li: "CacheSet_find t ?s = Some li"
    using b s(3,4) f(1) by (auto simp: t cache_contents_home set_contents_find)
  define off where "off = (ucast (addr AND ucast (cb_blocksize (ca_base c) - 1)) :: UInt32)"
  have "unat off = 0" using al unat_block_offset [OF cb, of addr] cb by (simp add: off_def cb_ok_def)
  then have off: "off = 0" by (simp add: unat_eq_zero)
  have sp: "splitAddress_offset (ca_base c) addr = Inr (t, si, 0)"
    using s(1) off by (simp add: splitAddress_offset_def off_def)
  let ?bs = "cb_blocksize (ca_base c)"
  obtain buf' s' where r: "Cache_accessSingleLine addr at buf ?bs False c g
      = Inr (Some (si, li), buf', (cache_put si s' (cache_env c g) c)\<lparr>ca_fault_injector := None\<rparr>, cache_env c g)"
    and buf': "buf' = buf \<or> (\<exists>x k d. buf = Some x \<and> buf' = Some (memcpy_at 0 (take (unat ?bs) (drop k d)) x))"
  proof (cases "at = LOAD")
    case True
    show ?thesis
      by (rule that, simp add: Cache_accessSingleLine_def True sp s(5) li fi CacheSet_read_line_def f(3) assertR_def Let_def)
        (auto split: option.splits)
  next
    case False
    show ?thesis
      by (rule that [of buf], simp add: Cache_accessSingleLine_def False sp s(5) li fi CacheSet_write_line_def f(3) assertR_def Let_def)
        simp
  qed
  have "length (memcpy_at 0 (take (unat ?bs) (drop k d)) x) = length x" if "unat ?bs \<le> length x" for k x and d :: "UInt8 list"
    using that by simp
  with Cache_access_contents [OF ok _ r] al fi r buf' show ?thesis by (auto simp: cache_same_def cache_put_def)
qed

lemma Cache_getBlockIndex_iff:
  assumes ok: "cache_ok c"
  shows "cache_contents c (addr_tag c addr) \<noteq> None \<Longrightarrow> \<exists>i. Cache_getBlockIndex addr c = Inr i"
    and "cache_contents c (addr_tag c addr) = None \<Longrightarrow> Cache_getBlockIndex addr c = Inl (AssertFail ''blockIndex != -1'')"
proof -
  obtain t si where s: "splitAddress (ca_base c) addr = Inr (t, si)" "t \<noteq> NOT 0" "tag_home c t = Some (unat si)"
    "cache_set_at c si = Inr (ca_sets c ! unat si)" using split_facts [OF ok, of addr] by blast
  have t: "addr_tag c addr = t" using splitAddress_tag [OF s(1)] by (simp add: addr_tag_def)
  have "set_ok (ca_sets c ! unat si)" using ok tag_home_less [OF ok s(3)] by (simp add: cache_set_facts)
  note d = t cache_contents_home set_contents_find [OF this] CacheSet_find_def Cache_getBlockIndex_def getBlockIndexForGivenTag_def
  show "cache_contents c (addr_tag c addr) \<noteq> None \<Longrightarrow> \<exists>i. Cache_getBlockIndex addr c = Inr i"
    using s by (auto simp: d)
  show "cache_contents c (addr_tag c addr) = None \<Longrightarrow> Cache_getBlockIndex addr c = Inl (AssertFail ''blockIndex != -1'')"
    using s by (simp add: d)
qed

section \<open>The data of the blocks\<close>

lemma cache_data_length:
  assumes ok: "cache_ok c" and d: "cache_data c t = Some d"
  shows "length d = unat (cb_blocksize (ca_base c))"
proof -
  obtain i where i: "tag_home c t = Some i" "set_data (ca_sets c ! i) t = Some d"
    using d by (auto simp: cache_data_def split: option.splits)
  note f = cache_set_facts [OF ok tag_home_less [OF ok i(1)]]
  have t: "t \<noteq> NOT 0" using i(2) set_data_absent [OF f(1), of t] by auto
  then obtain li d' where li: "CacheSet_find t (ca_sets c ! i) = Some li" "cs_data (ca_sets c ! i) = Some d'"
    "d = way_slice (unat (cs_blocksize (ca_sets c ! i))) li d'"
    using i(2) by (auto simp: set_data_find [OF f(1)] split: option.splits)
  then have "li < cs_associativity (ca_sets c ! i)" using CacheSet_find_iff [OF f(1) t, of li] by simp
  with li f(1,3) show ?thesis using length_way_slice [of d' "cs_associativity (ca_sets c ! i)"] by (simp add: set_ok_def)
qed

lemma Cache_updBlock_data:
  assumes ok: "cache_ok c" and b: "cache_contents c (addr_tag c addr) = Some b" and f: "cbi_tag (f b) = cbi_tag b"
    and u: "Cache_updBlock addr f c = Inr c'"
  shows "cache_data c' = cache_data c"
proof -
  obtain t si where s: "splitAddress (ca_base c) addr = Inr (t, si)" "unat si < length (ca_sets c)" "t \<noteq> NOT 0"
    "tag_home c t = Some (unat si)" "cache_set_at c si = Inr (ca_sets c ! unat si)"
    using split_facts [OF ok, of addr] by blast
  have t: "addr_tag c addr = t" using splitAddress_tag [OF s(1)] by (simp add: addr_tag_def)
  let ?s = "ca_sets c ! unat si"
  note fs = cache_set_facts [OF ok s(2)]
  have "set_contents ?s t = Some b" using b s(4) by (simp add: t cache_contents_home)
  then obtain i where i: "CacheSet_find t ?s = Some i" "cs_blocks ?s ! i = b" using s(3) fs(1) by (auto simp: set_contents_find)
  let ?s' = "?s\<lparr>cs_blocks := (cs_blocks ?s)[i := f b]\<rparr>"
  have c': "ca_sets c' = (ca_sets c)[unat si := ?s']" "ca_base c' = ca_base c"
    using u i by (auto simp: Cache_updBlock_def s(1,5))
  have "cache_ok c'" using Cache_updBlock_contents [OF ok b, of f] f u by auto
  then have ok': "set_ok ?s'" using cache_set_facts(1) [of c' "unat si"] c' s(2) by simp
  have "i < cs_associativity ?s" using CacheSet_find_iff [OF fs(1) s(3), of i] i(1) by simp
  moreover have "length (cs_blocks ?s) = cs_associativity ?s" using fs(1) by (simp add: set_ok_def)
  ultimately have "set_data ?s' = set_data ?s"
    using i(2) f by (intro set_data_blocks [OF fs(1) ok']) (auto simp: nth_list_update)
  then show ?thesis unfolding cache_replace_data [OF s(2) c'] by (auto simp: cache_data_def fun_eq_iff)
qed

section \<open>A cache that holds a line\<close>

lemma Cache_insert_base:
  assumes "Cache_insertSingleLine addr fill ebi eb cntlr w eip c g = Inr (ev, evict_addr, ebi', eb', c', g')"
  shows "ca_base c' = ca_base c" and "ca_fault_injector c = None \<Longrightarrow> ca_fault_injector c' = None"
  using assms by (auto simp: Cache_insertSingleLine_def Let_def cache_put_def)

lemma example_held:
  "\<exists>c b. cache_ok c \<and> ca_fault_injector c = None \<and> cb_blocksize (ca_base c) = 64
     \<and> cache_contents c (addr_tag c 4096) = Some b \<and> cbi_cstate b = st"
proof -
  obtain c ev evict_addr ebi' eb' c' g' where c: "Cache_create example_cfg ''L1-D'' 2 8 64 ''plru'' PR_L1_CACHE HASH_MASK None None = Inr c"
    "cache_ok c" "cache_contents c = Map.empty" "ca_fault_injector c = None"
    and ins: "Cache_insertSingleLine 4096 None example_block None None 0 0 c example_env4 = Inr (ev, evict_addr, ebi', eb', c', g')"
    using example_insert by blast
  have bs: "cb_blocksize (ca_base c) = 64" using c(1) by (auto simp: Cache_create_def example_base)
  have t: "addr_tag c' 4096 = addr_tag c 4096" using Cache_insert_base(1) [OF ins] by (simp add: addr_tag_def)
  have "cache_contents c (addr_tag c 4096) = None" using c(3) by simp
  from Cache_insert_contents [OF c(2) this ins] obtain b where b: "cache_ok c'" "cache_contents c' (addr_tag c' 4096) = Some b"
    by (auto simp: t split: if_splits)
  obtain c2 where "Cache_updBlock 4096 (setCState st) c' = Inr c2" "cache_ok c2" "ca_base c2 = ca_base c'"
    "ca_fault_injector c2 = ca_fault_injector c'" "cache_contents c2 = (cache_contents c')(addr_tag c' 4096 \<mapsto> setCState st b)"
    using Cache_updBlock_contents [OF b, of "setCState st"] by (auto simp: setCState_def)
  moreover from this have "addr_tag c2 4096 = addr_tag c' 4096" by (simp add: addr_tag_def)
  ultimately show ?thesis using Cache_insert_base [OF ins] c(4) bs by (intro exI [of _ c2] exI [of _ "setCState st b"]) (simp add: setCState_def)
qed

end
