(* ===== verification/Circular_Queue.thy ===== *)
theory Circular_Queue
  imports Sniper_Prelude
begin

text \<open>
  The ring buffer \<^verbatim>\<open>CircularQueue<T>\<close> of \<^verbatim>\<open>common/misc/circular_queue.h\<close>. Field \<^verbatim>\<open>m_x\<close> of
  the class is \<open>cq_x\<close>; the array returned by \<^verbatim>\<open>new T[m_size]\<close> is an argument of the
  constructor, because its contents are not initialised. The interface locale
  \<open>bounded_fifo\<close> states what a bounded queue promises in terms of the list of its elements;
  the ring buffer is an interpretation of it.
\<close>

record 'a CircularQueue =
  cq_size :: UInt32
  cq_first :: UInt32
  cq_last :: UInt32
  cq_queue :: "'a list"

definition CircularQueue_create :: "UInt32 \<Rightarrow> 'a list \<Rightarrow> 'a CircularQueue" where
  "CircularQueue_create sz mem = \<lparr>cq_size = sz + 1, cq_first = 0, cq_last = 0, cq_queue = mem\<rparr>"

definition CircularQueue_full :: "'a CircularQueue \<Rightarrow> bool" where
  "CircularQueue_full q = ((cq_first q + 1) mod cq_size q = cq_last q)"

definition CircularQueue_empty :: "'a CircularQueue \<Rightarrow> bool" where
  "CircularQueue_empty q = (cq_first q = cq_last q)"

definition CircularQueue_size :: "'a CircularQueue \<Rightarrow> UInt32" where
  "CircularQueue_size q = (cq_first q + cq_size q - cq_last q) mod cq_size q"

text \<open>The copy constructor takes over the size only, and demands an empty source.\<close>

definition CircularQueue_copy :: "'a CircularQueue \<Rightarrow> 'a list \<Rightarrow> 'a CircularQueue result" where
  "CircularQueue_copy q mem =
     bindR (assertR (CircularQueue_size q = 0) ''queue.size() == 0'') (\<lambda>_.
     Inr \<lparr>cq_size = cq_size q, cq_first = 0, cq_last = 0, cq_queue = mem\<rparr>)"

definition CircularQueue_push :: "'a CircularQueue \<Rightarrow> 'a \<Rightarrow> 'a CircularQueue result" where
  "CircularQueue_push q t =
     bindR (assertR (\<not> CircularQueue_full q) ''!full()'') (\<lambda>_.
     Inr (q\<lparr>cq_queue := (cq_queue q)[unat (cq_first q) := t],
            cq_first := (cq_first q + 1) mod cq_size q\<rparr>))"

definition CircularQueue_pop :: "'a CircularQueue \<Rightarrow> ('a \<times> 'a CircularQueue) result" where
  "CircularQueue_pop q =
     bindR (assertR (\<not> CircularQueue_empty q) ''!empty()'') (\<lambda>_.
     let idx = cq_last q
     in Inr (cq_queue q ! unat idx, q\<lparr>cq_last := (cq_last q + 1) mod cq_size q\<rparr>))"

definition CircularQueue_pushCircular :: "'a CircularQueue \<Rightarrow> 'a \<Rightarrow> 'a CircularQueue result" where
  "CircularQueue_pushCircular q t =
     (if CircularQueue_full q
      then bindR (CircularQueue_pop q) (\<lambda>(x, q'). CircularQueue_push q' t)
      else CircularQueue_push q t)"

text \<open>\<^verbatim>\<open>next()\<close> hands out a reference to the slot it appends: (slot index, queue).\<close>

definition CircularQueue_next :: "'a CircularQueue \<Rightarrow> (UInt32 \<times> 'a CircularQueue) result" where
  "CircularQueue_next q =
     bindR (assertR (\<not> CircularQueue_full q) ''!full()'') (\<lambda>_.
     Inr (cq_first q, q\<lparr>cq_first := (cq_first q + 1) mod cq_size q\<rparr>))"

definition CircularQueue_front :: "'a CircularQueue \<Rightarrow> 'a result" where
  "CircularQueue_front q =
     bindR (assertR (\<not> CircularQueue_empty q) ''!empty()'') (\<lambda>_.
     Inr (cq_queue q ! unat (cq_last q)))"

definition CircularQueue_back :: "'a CircularQueue \<Rightarrow> 'a result" where
  "CircularQueue_back q =
     bindR (assertR (\<not> CircularQueue_empty q) ''!empty()'') (\<lambda>_.
     Inr (cq_queue q ! unat ((cq_first q + cq_size q - 1) mod cq_size q)))"

definition CircularQueue_index :: "'a CircularQueue \<Rightarrow> UInt32 \<Rightarrow> 'a" where
  "CircularQueue_index q idx = cq_queue q ! unat ((cq_last q + idx) mod cq_size q)"

definition CircularQueue_at :: "'a CircularQueue \<Rightarrow> UInt32 \<Rightarrow> 'a result" where
  "CircularQueue_at q idx =
     bindR (assertR (idx < CircularQueue_size q) ''idx < size()'') (\<lambda>_. Inr (CircularQueue_index q idx))"

section \<open>The interface of a bounded queue\<close>

text \<open>
  A client issues any sequence of the three mutating calls. \<open>queue_run\<close> executes it on a queue and
  collects what the pops return; a failed assertion ends the run. \<open>fifo_run\<close> is the same on a plain
  list of at most \<open>n\<close> elements, \<open>None\<close> where the list is full or empty.
\<close>

datatype 'a queue_op = OpPush 'a | OpPushCircular 'a | OpPop

fun queue_run :: "('q \<Rightarrow> 'a \<Rightarrow> 'q result) \<Rightarrow> ('q \<Rightarrow> 'a \<Rightarrow> 'q result) \<Rightarrow> ('q \<Rightarrow> ('a \<times> 'q) result) \<Rightarrow>
    'a queue_op list \<Rightarrow> 'q \<Rightarrow> ('a list \<times> 'q) result" where
  "queue_run push pushc pop [] q = Inr ([], q)"
| "queue_run push pushc pop (OpPush x # ops) q = bindR (push q x) (queue_run push pushc pop ops)"
| "queue_run push pushc pop (OpPushCircular x # ops) q = bindR (pushc q x) (queue_run push pushc pop ops)"
| "queue_run push pushc pop (OpPop # ops) q =
     bindR (pop q) (\<lambda>(x, q'). bindR (queue_run push pushc pop ops q') (\<lambda>(out, q''). Inr (x # out, q'')))"

fun fifo_run :: "nat \<Rightarrow> 'a queue_op list \<Rightarrow> 'a list \<Rightarrow> ('a list \<times> 'a list) option" where
  "fifo_run n [] xs = Some ([], xs)"
| "fifo_run n (OpPush x # ops) xs = (if length xs < n then fifo_run n ops (xs @ [x]) else None)"
| "fifo_run n (OpPushCircular x # ops) xs =
     (if length xs < n then fifo_run n ops (xs @ [x]) else if xs = [] then None else fifo_run n ops (tl xs @ [x]))"
| "fifo_run n (OpPop # ops) xs =
     (case xs of [] \<Rightarrow> None
      | x # xs' \<Rightarrow> map_option (\<lambda>(out, ys). (x # out, ys)) (fifo_run n ops xs'))"

locale bounded_fifo =
  fixes push :: "'q \<Rightarrow> 'a \<Rightarrow> 'q result"
    and pop :: "'q \<Rightarrow> ('a \<times> 'q) result"
    and contents :: "'q \<Rightarrow> 'a list"
    and cap :: "'q \<Rightarrow> nat"
    and invar :: "'q \<Rightarrow> bool"
  assumes push_room: "invar q \<Longrightarrow> length (contents q) < cap q \<Longrightarrow>
      \<exists>q'. push q x = Inr q' \<and> invar q' \<and> cap q' = cap q \<and> contents q' = contents q @ [x]"
    and push_full: "invar q \<Longrightarrow> length (contents q) = cap q \<Longrightarrow> \<not> is_ok (push q x)"
    and pop_some: "invar q \<Longrightarrow> contents q = x # xs \<Longrightarrow>
      \<exists>q'. pop q = Inr (x, q') \<and> invar q' \<and> cap q' = cap q \<and> contents q' = xs"
    and pop_none: "invar q \<Longrightarrow> contents q = [] \<Longrightarrow> \<not> is_ok (pop q)"
    and contents_cap: "invar q \<Longrightarrow> length (contents q) \<le> cap q"
begin

definition refines_fifo :: "('a list \<times> 'q) result \<Rightarrow> ('a list \<times> 'a list) option \<Rightarrow> nat \<Rightarrow> bool" where
  "refines_fifo r sp n \<longleftrightarrow> (case r of Inl _ \<Rightarrow> sp = None
     | Inr (out, q) \<Rightarrow> sp = Some (out, contents q) \<and> invar q \<and> cap q = n)"

lemma run_refines_fifo:
  assumes pushc: "\<And>q x. invar q \<Longrightarrow> pushc q x =
      (if length (contents q) = cap q then bindR (pop q) (\<lambda>(y, q'). push q' x) else push q x)"
  shows "invar q \<Longrightarrow> refines_fifo (queue_run push pushc pop ops q) (fifo_run (cap q) ops (contents q)) (cap q)"
proof (induction ops arbitrary: q)
  case Nil
  then show ?case by (simp add: refines_fifo_def)
next
  case (Cons op ops)
  note inv = \<open>invar q\<close>
  have room: "length (contents q) < cap q \<or> length (contents q) = cap q" using contents_cap [OF inv] by auto
  have push: "refines_fifo (bindR (push q x) (queue_run push pushc pop ops))
      (if length (contents q) < cap q then fifo_run (cap q) ops (contents q @ [x]) else None) (cap q)" for x
  proof (cases "length (contents q) < cap q")
    case True
    with push_room [OF inv, of x] obtain q' where
      q': "push q x = Inr q'" "invar q'" "cap q' = cap q" "contents q' = contents q @ [x]" by blast
    with Cons.IH [OF q'(2)] True show ?thesis by simp
  next
    case False
    with room push_full [OF inv, of x] show ?thesis by (auto simp: refines_fifo_def is_ok_def split: sum.splits)
  qed
  show ?case
  proof (cases op)
    case (OpPush x)
    with push show ?thesis by simp
  next
    case (OpPushCircular x)
    show ?thesis
    proof (cases "length (contents q) = cap q")
      case full: True
      show ?thesis
      proof (cases "contents q")
        case Nil
        with pop_none [OF inv] full OpPushCircular show ?thesis
          by (auto simp: refines_fifo_def pushc [OF inv] is_ok_def split: sum.splits)
      next
        case (Cons y ys)
        from pop_some [OF inv Cons] obtain q1 where
          q1: "pop q = Inr (y, q1)" "invar q1" "cap q1 = cap q" "contents q1 = ys" by blast
        with full Cons have "length (contents q1) < cap q1" by simp
        from push_room [OF q1(2) this, of x] obtain q2 where
          q2: "push q1 x = Inr q2" "invar q2" "cap q2 = cap q1" "contents q2 = contents q1 @ [x]" by blast
        with q1 Cons.IH [OF q2(2)] full Cons OpPushCircular show ?thesis by (simp add: pushc [OF inv])
      qed
    next
      case False
      with room push [of x] OpPushCircular show ?thesis by (simp add: pushc [OF inv])
    qed
  next
    case OpPop
    show ?thesis
    proof (cases "contents q")
      case Nil
      with pop_none [OF inv] OpPop show ?thesis by (auto simp: refines_fifo_def is_ok_def split: sum.splits)
    next
      case (Cons y ys)
      from pop_some [OF inv Cons] obtain q1 where
        q1: "pop q = Inr (y, q1)" "invar q1" "cap q1 = cap q" "contents q1 = ys" by blast
      with Cons.IH [OF q1(2)] Cons OpPop show ?thesis
        by (cases "queue_run push pushc pop ops q1") (auto simp: refines_fifo_def)
    qed
  qed
qed

end

section \<open>The ring buffer implements it\<close>

definition cq_inv :: "'a CircularQueue \<Rightarrow> bool" where
  "cq_inv q \<longleftrightarrow> 0 < unat (cq_size q) \<and> unat (cq_size q) \<le> 2 ^ 31
     \<and> unat (cq_first q) < unat (cq_size q) \<and> unat (cq_last q) < unat (cq_size q)
     \<and> length (cq_queue q) = unat (cq_size q)"

definition cq_len :: "'a CircularQueue \<Rightarrow> nat" where
  "cq_len q = (unat (cq_first q) + unat (cq_size q) - unat (cq_last q)) mod unat (cq_size q)"

definition cq_list :: "'a CircularQueue \<Rightarrow> 'a list" where
  "cq_list q = map (\<lambda>i. cq_queue q ! ((unat (cq_last q) + i) mod unat (cq_size q))) [0..<cq_len q]"

definition cq_cap :: "'a CircularQueue \<Rightarrow> nat" where
  "cq_cap q = unat (cq_size q) - 1"

lemma length_cq_list [simp]: "length (cq_list q) = cq_len q"
  by (simp add: cq_list_def)

text \<open>Ring arithmetic on naturals.\<close>

lemma ring_succ: "a < (n::nat) \<Longrightarrow> Suc a mod n = (if Suc a = n then 0 else Suc a)"
  by (auto simp: mod_if)

lemma ring_dist:
  "a < (n::nat) \<Longrightarrow> b < n \<Longrightarrow> (a + n - b) mod n = (if b \<le> a then a - b else a + n - b)"
  by (auto simp: le_mod_geq)

lemma ring_add: "a < (n::nat) \<Longrightarrow> i < n \<Longrightarrow> (a + i) mod n = (if a + i < n then a + i else a + i - n)"
  by (auto simp: le_mod_geq)

lemma word_inc_mod:
  assumes "unat (a::UInt32) < unat n" "unat n \<le> 2 ^ 31"
  shows "unat ((a + 1) mod n) = Suc (unat a) mod unat n"
proof -
  have "unat (a + 1) = Suc (unat a)"
    using assms by (subst unat_plus_if') simp
  then show ?thesis by (simp add: unat_mod_distrib)
qed

lemma CircularQueue_size_len:
  assumes "cq_inv q"
  shows "unat (CircularQueue_size q) = cq_len q"
proof -
  let ?f = "cq_first q" and ?n = "cq_size q" and ?l = "cq_last q"
  have b: "unat ?f < unat ?n" "unat ?l < unat ?n" "unat ?n \<le> 2 ^ 31"
    using assms by (simp_all add: cq_inv_def)
  then have s: "unat (?f + ?n) = unat ?f + unat ?n" by (subst unat_plus_if') simp
  then have "?l \<le> ?f + ?n" using b by (simp add: word_le_nat_alt)
  then have "unat (?f + ?n - ?l) = unat ?f + unat ?n - unat ?l" using s by (simp add: unat_sub)
  then show ?thesis by (simp add: CircularQueue_size_def cq_len_def unat_mod_distrib)
qed

lemma cq_full_iff: "cq_inv q \<Longrightarrow> CircularQueue_full q \<longleftrightarrow> cq_len q = cq_cap q"
  unfolding CircularQueue_full_def cq_inv_def cq_len_def cq_cap_def word_unat_eq_iff
  by (subst word_inc_mod) (auto simp: ring_succ ring_dist)

lemma cq_empty_iff: "cq_inv q \<Longrightarrow> CircularQueue_empty q \<longleftrightarrow> cq_list q = []"
  unfolding CircularQueue_empty_def cq_inv_def cq_list_def cq_len_def word_unat_eq_iff
  by (auto simp: ring_dist)

lemma cq_len_cap:
  assumes "cq_inv q"
  shows "cq_len q \<le> cq_cap q"
proof -
  have "cq_len q < unat (cq_size q)"
    unfolding cq_len_def using assms by (intro mod_less_divisor) (simp add: cq_inv_def)
  then show ?thesis by (simp add: cq_cap_def)
qed

lemma cq_push_room:
  assumes "cq_inv q" "cq_len q < cq_cap q"
  shows "\<exists>q'. CircularQueue_push q x = Inr q' \<and> cq_inv q' \<and> cq_cap q' = cq_cap q
           \<and> cq_list q' = cq_list q @ [x]"
proof -
  let ?f = "unat (cq_first q)" and ?n = "unat (cq_size q)" and ?l = "unat (cq_last q)"
  define q' where "q' = q\<lparr>cq_queue := (cq_queue q)[?f := x], cq_first := (cq_first q + 1) mod cq_size q\<rparr>"
  have b: "?f < ?n" "?l < ?n" "?n \<le> 2 ^ 31" "length (cq_queue q) = ?n"
    using assms(1) by (simp_all add: cq_inv_def)
  have push: "CircularQueue_push q x = Inr q'"
    using assms cq_full_iff [of q] by (simp add: CircularQueue_push_def q'_def)
  have first': "unat ((cq_first q + 1) mod cq_size q) = Suc ?f mod ?n"
    using b by (intro word_inc_mod)
  have len: "cq_len q' = Suc (cq_len q)"
    using assms(2) b by (auto simp: cq_len_def cq_cap_def q'_def first' ring_succ ring_dist split: if_splits)
  have ln: "cq_len q < ?n - 1" using assms(2) by (simp add: cq_cap_def)
  have at_end: "(?l + cq_len q) mod ?n = ?f"
    using b by (auto simp: cq_len_def ring_dist)
  have inner: "(?l + i) mod ?n \<noteq> ?f" if "i < cq_len q" for i
    using that b ln by (auto simp: cq_len_def ring_dist ring_add split: if_splits)
  have "cq_list q' = cq_list q @ [x]"
    using len at_end inner b by (simp add: cq_list_def) (fastforce simp: q'_def)
  moreover have "cq_inv q'"
    using assms(1) b by (simp add: cq_inv_def q'_def first')
  ultimately show ?thesis using push by (simp add: cq_cap_def q'_def)
qed

lemma cq_pop_some:
  assumes "cq_inv q" "cq_list q = x # xs"
  shows "\<exists>q'. CircularQueue_pop q = Inr (x, q') \<and> cq_inv q' \<and> cq_cap q' = cq_cap q \<and> cq_list q' = xs"
proof -
  let ?f = "unat (cq_first q)" and ?n = "unat (cq_size q)" and ?l = "unat (cq_last q)"
  define q' where "q' = q\<lparr>cq_last := (cq_last q + 1) mod cq_size q\<rparr>"
  have b: "?f < ?n" "?l < ?n" "?n \<le> 2 ^ 31" using assms(1) by (simp_all add: cq_inv_def)
  have last': "unat ((cq_last q + 1) mod cq_size q) = Suc ?l mod ?n"
    using b by (intro word_inc_mod)
  have ne: "cq_len q \<noteq> 0" using assms(2) by (metis length_cq_list length_0_conv list.distinct(1))
  have len: "cq_len q = Suc (cq_len q')"
    using ne b by (auto simp: cq_len_def q'_def last' ring_succ ring_dist split: if_splits)
  have "cq_list q = cq_queue q ! ?l # cq_list q'"
    unfolding cq_list_def len upt_conv_Cons [OF zero_less_Suc] map_Suc_upt [symmetric]
    using b by (simp add: q'_def last' mod_Suc_eq mod_simps)
  moreover have "CircularQueue_pop q = Inr (cq_queue q ! ?l, q')"
    using assms cq_empty_iff [of q] by (simp add: CircularQueue_pop_def q'_def)
  moreover have "cq_inv q'" using assms(1) b by (simp add: cq_inv_def q'_def last')
  ultimately show ?thesis using assms(2) by (simp add: cq_cap_def q'_def)
qed

interpretation ring: bounded_fifo CircularQueue_push CircularQueue_pop cq_list cq_cap cq_inv
proof unfold_locales
  fix q :: "'a CircularQueue" and x :: 'a and xs :: "'a list"
  assume inv: "cq_inv q"
  show "length (cq_list q) \<le> cq_cap q" using inv by (simp add: cq_len_cap)
  show "\<not> is_ok (CircularQueue_push q x)" if "length (cq_list q) = cq_cap q"
    using that inv by (simp add: CircularQueue_push_def cq_full_iff)
  show "\<not> is_ok (CircularQueue_pop q)" if "cq_list q = []"
    using that inv by (simp add: CircularQueue_pop_def cq_empty_iff)
  show "\<exists>q'. CircularQueue_push q x = Inr q' \<and> cq_inv q' \<and> cq_cap q' = cq_cap q
          \<and> cq_list q' = cq_list q @ [x]" if "length (cq_list q) < cq_cap q"
    using that inv by (simp add: cq_push_room)
  show "\<exists>q'. CircularQueue_pop q = Inr (x, q') \<and> cq_inv q' \<and> cq_cap q' = cq_cap q \<and> cq_list q' = xs"
    if "cq_list q = x # xs"
    using that inv by (rule cq_pop_some [rotated])
qed

section \<open>Properties of the ring buffer\<close>

lemma cq_create_inv:
  assumes "unat sz < 2 ^ 31" "length mem = unat sz + 1"
  shows "cq_inv (CircularQueue_create sz mem)" "cq_list (CircularQueue_create sz mem) = []"
    "cq_cap (CircularQueue_create sz mem) = unat sz"
proof -
  have "unat (sz + 1) = Suc (unat sz)" using assms(1) by (subst unat_plus_if') simp
  then show "cq_inv (CircularQueue_create sz mem)" "cq_list (CircularQueue_create sz mem) = []"
    "cq_cap (CircularQueue_create sz mem) = unat sz"
    using assms
    by (simp_all add: cq_inv_def cq_list_def cq_len_def cq_cap_def CircularQueue_create_def)
qed

lemma pushCircular_cases:
  "cq_inv q \<Longrightarrow> CircularQueue_pushCircular q x =
     (if length (cq_list q) = cq_cap q then bindR (CircularQueue_pop q) (\<lambda>(y, q'). CircularQueue_push q' x)
      else CircularQueue_push q x)"
  by (simp add: CircularQueue_pushCircular_def cq_full_iff)

text \<open>
  C38: a \<^verbatim>\<open>CircularQueue\<close> built for \<open>sz\<close> elements (fewer than \<open>2\<^sup>3\<^sup>1\<close>) is a FIFO bounded by \<open>sz\<close>, through every
  wrap-around of its two indices: for any sequence of \<^verbatim>\<open>push\<close>, \<^verbatim>\<open>pushCircular\<close> and \<^verbatim>\<open>pop\<close> calls, in
  any order and of any length, an assertion fails exactly when a plain list of at most \<open>sz\<close> elements would
  overflow or underflow, and otherwise the pops return the same elements in the same order and the
  queue holds the same list, whose length \<^verbatim>\<open>size()\<close> reports. \<^verbatim>\<open>pushCircular\<close> on a full queue drops the
  oldest element.
\<close>

theorem CircularQueue_fifo:
  assumes "unat sz < 2 ^ 31" "length mem = unat sz + 1"
  shows "case queue_run CircularQueue_push CircularQueue_pushCircular CircularQueue_pop ops (CircularQueue_create sz mem) of
      Inl _ \<Rightarrow> fifo_run (unat sz) ops [] = None
    | Inr (out, q) \<Rightarrow> fifo_run (unat sz) ops [] = Some (out, cq_list q) \<and> length (cq_list q) \<le> unat sz
        \<and> unat (CircularQueue_size q) = length (cq_list q)"
proof -
  note c = cq_create_inv [OF assms]
  from ring.run_refines_fifo [OF pushCircular_cases c(1), of ops] c
  show ?thesis unfolding ring.refines_fifo_def
    using cq_len_cap CircularQueue_size_len by (fastforce split: sum.splits)
qed

theorem CircularQueue_fifo_witness:
  "\<exists>q. queue_run CircularQueue_push CircularQueue_pushCircular CircularQueue_pop
        [OpPush 7, OpPush 8, OpPop, OpPush 9, OpPop, OpPushCircular 5, OpPushCircular 6, OpPop]
        (CircularQueue_create 2 [0, 0, 0 :: nat]) = Inr ([7, 8, 5], q) \<and> cq_list q = [6]
    \<and> \<not> is_ok (queue_run CircularQueue_push CircularQueue_pushCircular CircularQueue_pop
        [OpPush 7, OpPush 8, OpPop, OpPush 9, OpPush 1] (CircularQueue_create 2 [0, 0, 0 :: nat]))"
  using CircularQueue_fifo [of 2 "[0, 0, 0 :: nat]" "[OpPush 7, OpPush 8, OpPop, OpPush 9, OpPop, OpPushCircular 5, OpPushCircular 6, OpPop]"]
    CircularQueue_fifo [of 2 "[0, 0, 0 :: nat]" "[OpPush 7, OpPush 8, OpPop, OpPush 9, OpPush 1]"]
  by (simp del: queue_run.simps add: is_ok_def split: sum.splits prod.splits)

lemma cq_list_nth:
  "i < cq_len q \<Longrightarrow> cq_list q ! i = cq_queue q ! ((unat (cq_last q) + i) mod unat (cq_size q))"
  by (simp add: cq_list_def)

lemma CircularQueue_at_nth:
  assumes "cq_inv q" "unat i < cq_len q"
  shows "CircularQueue_at q i = Inr (cq_list q ! unat i)"
proof -
  have "i < CircularQueue_size q"
    using assms by (simp add: word_less_nat_alt CircularQueue_size_len)
  moreover have "unat (cq_last q + i) = unat (cq_last q) + unat i"
    using assms cq_len_cap [OF assms(1)]
    by (subst unat_plus_if') (auto simp: cq_inv_def cq_cap_def)
  ultimately show ?thesis using assms(2)
    by (simp add: CircularQueue_at_def CircularQueue_index_def cq_list_nth unat_mod_distrib)
qed

lemma CircularQueue_back_last:
  assumes "cq_inv q" "cq_list q \<noteq> []"
  shows "CircularQueue_back q = Inr (last (cq_list q))"
proof -
  let ?f = "unat (cq_first q)" and ?n = "unat (cq_size q)" and ?l = "unat (cq_last q)"
  have b: "?f < ?n" "?l < ?n" "?n \<le> 2 ^ 31" "0 < ?n" using assms(1) by (simp_all add: cq_inv_def)
  have pos: "0 < cq_len q" using assms(2) by (metis length_cq_list length_greater_0_conv)
  have "unat (cq_first q + cq_size q - 1) = ?f + ?n - 1"
    using b by (subst unat_minus_one) (auto simp: unat_plus_if' unat_eq_0 [symmetric] simp del: unat_eq_0)
  then have "unat ((cq_first q + cq_size q - 1) mod cq_size q) = (?f + ?n - 1) mod ?n"
    by (simp add: unat_mod_distrib)
  also have "\<dots> = (?l + (cq_len q - 1)) mod ?n"
    using b pos by (auto simp: cq_len_def ring_dist mod_if split: if_splits)
  finally show ?thesis using assms pos
    by (simp add: CircularQueue_back_def cq_empty_iff last_conv_nth cq_list_nth)
qed

lemma CircularQueue_front_hd:
  assumes "cq_inv q" "cq_list q \<noteq> []"
  shows "CircularQueue_front q = Inr (hd (cq_list q))"
proof -
  have "0 < cq_len q" using assms(2) by (metis length_cq_list length_greater_0_conv)
  then show ?thesis using assms
    by (simp add: CircularQueue_front_def cq_empty_iff hd_conv_nth cq_list_nth cq_inv_def)
qed

text \<open>
  in every reachable shape of the ring (first and last anywhere, wrapped or not),
  \<^verbatim>\<open>size()\<close>, \<^verbatim>\<open>empty()\<close>, \<^verbatim>\<open>full()\<close>, \<^verbatim>\<open>at()\<close>, \<^verbatim>\<open>front()\<close> and \<^verbatim>\<open>back()\<close> agree with the list
  of queued elements.
\<close>

theorem CircularQueue_observers:
  assumes "cq_inv q"
  shows "unat (CircularQueue_size q) = length (cq_list q)
    \<and> CircularQueue_empty q = (cq_list q = [])
    \<and> CircularQueue_full q = (length (cq_list q) = cq_cap q)
    \<and> (cq_list q \<noteq> [] \<longrightarrow> CircularQueue_front q = Inr (hd (cq_list q))
          \<and> CircularQueue_back q = Inr (last (cq_list q)))
    \<and> (\<forall>i. unat i < length (cq_list q) \<longrightarrow> CircularQueue_at q i = Inr (cq_list q ! unat i))"
  using assms
  by (simp add: CircularQueue_size_len cq_empty_iff cq_full_iff CircularQueue_front_hd
      CircularQueue_back_last CircularQueue_at_nth)

theorem CircularQueue_observers_witness:
  "\<exists>q. cq_inv q \<and> cq_list q = [5, 6 :: nat] \<and> CircularQueue_front q = Inr 5 \<and> CircularQueue_back q = Inr 6"
proof -
  let ?q = "\<lparr>cq_size = 3, cq_first = 1, cq_last = 2, cq_queue = [6, 9, 5 :: nat]\<rparr>"
  have "cq_inv ?q" by (simp add: cq_inv_def)
  moreover have "cq_list ?q = [5, 6]" by (simp add: cq_list_def cq_len_def upt_conv_Cons)
  ultimately show ?thesis using CircularQueue_observers [of ?q] by (intro exI [of _ ?q]) simp
qed

text \<open>
  \<^verbatim>\<open>pushCircular\<close> never fails; it appends the element and, when the queue is full,
  drops the oldest one.
\<close>

theorem CircularQueue_pushCircular_window:
  assumes "cq_inv q" "0 < cq_cap q"
  shows "\<exists>q'. CircularQueue_pushCircular q x = Inr q' \<and> cq_inv q'
     \<and> cq_list q' = (if CircularQueue_full q then tl (cq_list q) else cq_list q) @ [x]"
proof (cases "CircularQueue_full q")
  case True
  then have "length (cq_list q) = cq_cap q" using assms(1) by (simp add: cq_full_iff)
  with assms(2) obtain y ys where y: "cq_list q = y # ys" by (cases "cq_list q") auto
  then obtain q1 where q1: "CircularQueue_pop q = Inr (y, q1)" "cq_inv q1" "cq_cap q1 = cq_cap q"
    "cq_list q1 = ys"
    using cq_pop_some [OF assms(1) y] by blast
  have "cq_len q1 < cq_cap q1"
    using \<open>length (cq_list q) = cq_cap q\<close> y q1 length_cq_list [of q1] by simp
  then show ?thesis using cq_push_room [OF q1(2), of x] True q1 y
    by (auto simp: CircularQueue_pushCircular_def)
next
  case False
  then have "cq_len q < cq_cap q" using assms(1) cq_len_cap [of q] by (simp add: cq_full_iff)
  then show ?thesis using cq_push_room [OF assms(1), of x] False
    by (auto simp: CircularQueue_pushCircular_def)
qed

theorem CircularQueue_pushCircular_window_witness:
  "\<exists>q'. CircularQueue_pushCircular \<lparr>cq_size = 2, cq_first = 1, cq_last = 0, cq_queue = [4, 0 :: nat]\<rparr> 9 = Inr q'
     \<and> cq_list q' = [9]"
  using CircularQueue_pushCircular_window [of "\<lparr>cq_size = 2, cq_first = 1, cq_last = 0, cq_queue = [4, 0 :: nat]\<rparr>" 9]
  by (auto simp: cq_inv_def cq_cap_def cq_list_def cq_len_def CircularQueue_full_def)

end
