(* ===== verification/Moving_Average.thy ===== *)
theory Moving_Average
  imports Subsecond_Time Circular_Queue
begin

text \<open>
  The moving averages of \<^verbatim>\<open>misc/moving_average.h\<close>, instantiated at \<^verbatim>\<open>SubsecondTime\<close> as in the queue models. The
  class hierarchy is the field \<open>ma_type\<close>; \<open>ma_sum\<close> is the extra field of the arithmetic mean. The root that the geometric mean
  takes in floating point, \<^verbatim>\<open>pow\<close>, is an argument.
\<close>

section \<open>State and operations\<close>

datatype AvgType_t = ARITHMETIC_MEAN | GEOMETRIC_MEAN | MEDIAN

record MovingAverage =
  ma_type :: AvgType_t
  ma_num_list :: "SubsecondTime list"
  ma_max_window_size :: UInt32
  ma_curr_window_front :: ModuloNum
  ma_curr_window_back :: ModuloNum
  ma_sum :: SubsecondTime

definition parseAvgType :: "string \<Rightarrow> AvgType_t result" where
  "parseAvgType avg_type =
     (if avg_type = ''arithmetic_mean'' then Inr ARITHMETIC_MEAN
      else if avg_type = ''geometric_mean'' then Inr GEOMETRIC_MEAN
      else if avg_type = ''median'' then Inr MEDIAN
      else Inl (LogError ''Unsupported Average Type''))"

definition createAvgType :: "AvgType_t \<Rightarrow> UInt32 \<Rightarrow> MovingAverage" where
  "createAvgType avg_type max_window_size =
     (let n = \<lparr>mn_value = 0, mn_max_value = max_window_size + 1\<rparr>
      in \<lparr>ma_type = avg_type, ma_num_list = replicate (unat (max_window_size + 1)) 0, ma_max_window_size = max_window_size,
          ma_curr_window_front = n, ma_curr_window_back = n, ma_sum = 0\<rparr>)"

definition window_elem :: "MovingAverage \<Rightarrow> ModuloNum \<Rightarrow> SubsecondTime result" where
  "window_elem m n =
     (if unat (mn_value n) < length (ma_num_list m) then Inr (ma_num_list m ! unat (mn_value n))
      else Inl (Trap ''m_num_list out of range''))"

definition addToWindow :: "SubsecondTime \<Rightarrow> MovingAverage \<Rightarrow> MovingAverage result" where
  "addToWindow next_num m =
     bindR (window_elem m (ma_curr_window_back m)) (\<lambda>_.
     let m = m\<lparr>ma_num_list := (ma_num_list m)[unat (mn_value (ma_curr_window_back m)) := next_num]\<rparr>
     in bindR (ModuloNum_add_int (ma_curr_window_back m) 1) (\<lambda>back.
        let m = m\<lparr>ma_curr_window_back := back\<rparr>
        in if ModuloNum_eq (ma_curr_window_back m) (ma_curr_window_front m)
           then bindR (ModuloNum_add_int (ma_curr_window_front m) 1) (\<lambda>front. Inr (m\<lparr>ma_curr_window_front := front\<rparr>))
           else Inr m))"

definition curr_window_size :: "MovingAverage \<Rightarrow> UInt32 result" where
  "curr_window_size m = bindR (ModuloNum_sub (ma_curr_window_back m) (ma_curr_window_front m)) (\<lambda>n. Inr (mn_value n))"

definition MovingAverage_update :: "SubsecondTime \<Rightarrow> MovingAverage \<Rightarrow> MovingAverage result" where
  "MovingAverage_update next_num m =
     (case ma_type m of
        ARITHMETIC_MEAN \<Rightarrow>
          bindR (curr_window_size m) (\<lambda>size.
          bindR (if size = ma_max_window_size m
                 then bindR (window_elem m (ma_curr_window_front m)) (\<lambda>x. Inr (m\<lparr>ma_sum := ma_sum m - x\<rparr>))
                 else Inr m) (\<lambda>m.
          addToWindow next_num (m\<lparr>ma_sum := ma_sum m + next_num\<rparr>)))
      | _ \<Rightarrow> addToWindow next_num m)"

text \<open>
  The loop of the geometric mean, from \<^verbatim>\<open>m_curr_window_front\<close> up to \<^verbatim>\<open>m_curr_window_back\<close>; the fuel is the modulus, which
  bounds the number of distinct positions.
\<close>

primrec window_product :: "nat \<Rightarrow> MovingAverage \<Rightarrow> ModuloNum \<Rightarrow> SubsecondTime \<Rightarrow> SubsecondTime result" where
  "window_product 0 m curr_num acc = Inl Diverges"
| "window_product (Suc n) m curr_num acc =
     (if ModuloNum_eq curr_num (ma_curr_window_back m) then Inr acc
      else bindR (window_elem m curr_num) (\<lambda>x.
           bindR (ModuloNum_add_int curr_num 1) (\<lambda>next. window_product n m next (acc * x))))"

definition MovingAverage_compute :: "(UInt64 \<Rightarrow> UInt32 \<Rightarrow> UInt64) \<Rightarrow> MovingAverage \<Rightarrow> SubsecondTime result" where
  "MovingAverage_compute pow m =
     (case ma_type m of
        ARITHMETIC_MEAN \<Rightarrow> bindR (curr_window_size m) (\<lambda>size. divR (ma_sum m) (ucast size))
      | GEOMETRIC_MEAN \<Rightarrow>
          bindR (curr_window_size m) (\<lambda>size.
          bindR (window_product (unat (mn_max_value (ma_curr_window_back m))) m (ma_curr_window_front m) 1) (\<lambda>p.
          Inr (pow p size)))
      | MEDIAN \<Rightarrow>
          bindR (curr_window_size m) (\<lambda>size.
          bindR (ModuloNum_add_int (ma_curr_window_front m) (size div 2)) (\<lambda>median_index.
          window_elem m median_index)))"

definition MovingAverage_compute_next ::
  "(UInt64 \<Rightarrow> UInt32 \<Rightarrow> UInt64) \<Rightarrow> SubsecondTime \<Rightarrow> MovingAverage \<Rightarrow> (SubsecondTime \<times> MovingAverage) result" where
  "MovingAverage_compute_next pow next_num m =
     bindR (MovingAverage_update next_num m) (\<lambda>m. bindR (MovingAverage_compute pow m) (\<lambda>v. Inr (v, m)))"

section \<open>The window is a ring buffer\<close>

definition win :: "MovingAverage \<Rightarrow> SubsecondTime CircularQueue" where
  "win m = \<lparr>cq_size = mn_max_value (ma_curr_window_back m), cq_first = mn_value (ma_curr_window_back m),
            cq_last = mn_value (ma_curr_window_front m), cq_queue = ma_num_list m\<rparr>"

definition ma_window :: "MovingAverage \<Rightarrow> SubsecondTime list" where
  "ma_window m = cq_list (win m)"

definition ma_inv :: "MovingAverage \<Rightarrow> bool" where
  "ma_inv m \<longleftrightarrow> cq_inv (win m) \<and> mn_max_value (ma_curr_window_front m) = mn_max_value (ma_curr_window_back m)
     \<and> mn_max_value (ma_curr_window_back m) = ma_max_window_size m + 1 \<and> 0 < unat (ma_max_window_size m)
     \<and> unat (ma_max_window_size m) < 2 ^ 31 - 1
     \<and> (ma_type m = ARITHMETIC_MEAN \<longrightarrow> ma_sum m = sum_list (ma_window m))"

definition last_n :: "nat \<Rightarrow> 'a list \<Rightarrow> 'a list" where
  "last_n n xs = drop (length xs - n) xs"

lemma last_n_snoc: "0 < n \<Longrightarrow> last_n n (xs @ [x]) = (if length xs < n then xs @ [x] else last_n (n - 1) xs @ [x])"
  by (auto simp: last_n_def Suc_diff_le)

lemma ma_inv_size:
  assumes "ma_inv m"
  shows "unat (mn_max_value (ma_curr_window_back m)) = Suc (unat (ma_max_window_size m))" "cq_cap (win m) = unat (ma_max_window_size m)"
    "0 < cq_cap (win m)"
proof -
  have "unat (ma_max_window_size m + 1) = Suc (unat (ma_max_window_size m))"
    using assms by (intro unat_word_Suc) (simp add: ma_inv_def)
  then show "unat (mn_max_value (ma_curr_window_back m)) = Suc (unat (ma_max_window_size m))"
    "cq_cap (win m) = unat (ma_max_window_size m)" "0 < cq_cap (win m)"
    using assms by (simp_all add: ma_inv_def cq_cap_def win_def)
qed

lemma ma_inv_bounds:
  assumes "ma_inv m"
  shows "unat (mn_value (ma_curr_window_front m)) < unat (mn_max_value (ma_curr_window_back m))"
    "unat (mn_value (ma_curr_window_back m)) < unat (mn_max_value (ma_curr_window_back m))"
    "unat (mn_max_value (ma_curr_window_back m)) \<le> 2 ^ 31" "length (ma_num_list m) = unat (mn_max_value (ma_curr_window_back m))"
    "mn_max_value (ma_curr_window_front m) = mn_max_value (ma_curr_window_back m)"
proof -
  have "cq_inv (win m)" "mn_max_value (ma_curr_window_front m) = mn_max_value (ma_curr_window_back m)" using assms by (simp_all add: ma_inv_def)
  then show "unat (mn_value (ma_curr_window_front m)) < unat (mn_max_value (ma_curr_window_back m))"
    "unat (mn_value (ma_curr_window_back m)) < unat (mn_max_value (ma_curr_window_back m))"
    "unat (mn_max_value (ma_curr_window_back m)) \<le> 2 ^ 31" "length (ma_num_list m) = unat (mn_max_value (ma_curr_window_back m))"
    "mn_max_value (ma_curr_window_front m) = mn_max_value (ma_curr_window_back m)"
    by (simp_all add: cq_inv_def win_def)
qed

lemma ModuloNum_inc:
  assumes "unat (mn_value n) < unat (mn_max_value n)" "1 < unat (mn_max_value n)"
  shows "ModuloNum_add_int n 1 = Inr (n\<lparr>mn_value := (mn_value n + 1) mod mn_max_value n\<rparr>)"
proof -
  have nz: "mn_max_value n \<noteq> 0" using assms(2) by auto
  have "unat (1 mod mn_max_value n) = 1" using assms(2) by (subst unat_mod_distrib) simp
  then have "1 mod mn_max_value n = 1" by (simp add: word_unat_eq_iff)
  with nz show ?thesis by (simp add: ModuloNum_add_int_def ModuloNum_add_def modR_def)
qed

lemma addToWindow_push:
  assumes "ma_inv m"
  shows "\<exists>q. addToWindow x m = Inr (m\<lparr>ma_num_list := cq_queue q, ma_curr_window_back := (ma_curr_window_back m)\<lparr>mn_value := cq_first q\<rparr>,
           ma_curr_window_front := (ma_curr_window_front m)\<lparr>mn_value := cq_last q\<rparr>\<rparr>)
    \<and> CircularQueue_pushCircular (win m) x = Inr q \<and> cq_size q = mn_max_value (ma_curr_window_back m)"
proof -
  let ?b = "ma_curr_window_back m" and ?f = "ma_curr_window_front m"
  have i: "cq_inv (win m)" and eq: "mn_max_value ?f = mn_max_value ?b" using assms by (simp_all add: ma_inv_def)
  have b: "unat (mn_value ?b) < unat (mn_max_value ?b)" "unat (mn_value ?f) < unat (mn_max_value ?b)" "1 < unat (mn_max_value ?b)"
    "length (ma_num_list m) = unat (mn_max_value ?b)"
    using ma_inv_bounds [OF assms] ma_inv_size [OF assms] by simp_all
  have inc: "ModuloNum_add_int ?b 1 = Inr (?b\<lparr>mn_value := (mn_value ?b + 1) mod mn_max_value ?b\<rparr>)"
    "ModuloNum_add_int ?f 1 = Inr (?f\<lparr>mn_value := (mn_value ?f + 1) mod mn_max_value ?f\<rparr>)"
    using ModuloNum_inc b eq by auto
  obtain q where q: "CircularQueue_pushCircular (win m) x = Inr q"
    using CircularQueue_pushCircular_window [OF i ma_inv_size(3) [OF assms], of x] by auto
  have full: "CircularQueue_full (win m) \<longleftrightarrow> (mn_value ?b + 1) mod mn_max_value ?b = mn_value ?f"
    by (simp add: CircularQueue_full_def win_def)
  have "q = (win m)\<lparr>cq_queue := (ma_num_list m)[unat (mn_value ?b) := x], cq_first := (mn_value ?b + 1) mod mn_max_value ?b,
      cq_last := (if CircularQueue_full (win m) then (mn_value ?f + 1) mod mn_max_value ?b else mn_value ?f)\<rparr>"
    using q by (auto simp: CircularQueue_pushCircular_def CircularQueue_push_def CircularQueue_pop_def win_def Let_def split: if_splits)
  with q show ?thesis using b eq full inc
    by (auto simp: addToWindow_def window_elem_def ModuloNum_eq_def win_def Let_def)
qed

text \<open>The window after a new value: the oldest value leaves when the window is full.\<close>

definition slide :: "MovingAverage \<Rightarrow> SubsecondTime \<Rightarrow> SubsecondTime list" where
  "slide m x = (if length (ma_window m) = unat (ma_max_window_size m) then tl (ma_window m) else ma_window m) @ [x]"

lemma ma_inv_sum: "ma_inv m \<Longrightarrow> ma_type m = ARITHMETIC_MEAN \<Longrightarrow> ma_sum m = sum_list (ma_window m)"
  by (simp add: ma_inv_def)

lemma addToWindow_sum:
  "addToWindow x (m\<lparr>ma_sum := s\<rparr>) = bindR (addToWindow x m) (\<lambda>m'. Inr (m'\<lparr>ma_sum := s\<rparr>))"
  by (simp add: addToWindow_def window_elem_def Let_def bindR_def split: sum.split)

lemma addToWindow_window:
  assumes "ma_inv m" "ma_type m = ARITHMETIC_MEAN \<longrightarrow> s = sum_list (slide m x)"
  shows "\<exists>m'. addToWindow x (m\<lparr>ma_sum := s\<rparr>) = Inr m' \<and> ma_inv m' \<and> ma_type m' = ma_type m
    \<and> ma_max_window_size m' = ma_max_window_size m \<and> ma_window m' = slide m x"
proof -
  let ?b = "ma_curr_window_back m" and ?f = "ma_curr_window_front m"
  obtain q where q: "addToWindow x m = Inr (m\<lparr>ma_num_list := cq_queue q, ma_curr_window_back := ?b\<lparr>mn_value := cq_first q\<rparr>,
      ma_curr_window_front := ?f\<lparr>mn_value := cq_last q\<rparr>\<rparr>)"
    "CircularQueue_pushCircular (win m) x = Inr q" "cq_size q = mn_max_value ?b"
    using addToWindow_push [OF assms(1)] by blast
  have i: "cq_inv (win m)" using assms(1) by (simp add: ma_inv_def)
  have l: "cq_inv q" "cq_list q = slide m x"
    using CircularQueue_pushCircular_window [OF i ma_inv_size(3) [OF assms(1)], of x] q(2) cq_full_iff [OF i] ma_inv_size(2) [OF assms(1)]
    by (auto simp: slide_def ma_window_def)
  define m' where "m' = m\<lparr>ma_sum := s, ma_num_list := cq_queue q, ma_curr_window_back := ?b\<lparr>mn_value := cq_first q\<rparr>,
      ma_curr_window_front := ?f\<lparr>mn_value := cq_last q\<rparr>\<rparr>"
  have w: "win m' = q" using q(3) by (simp add: win_def m'_def)
  have "addToWindow x (m\<lparr>ma_sum := s\<rparr>) = Inr m'"
    using q(1) by (simp add: addToWindow_sum m'_def)
  moreover have "ma_inv m'" using assms l w by (auto simp: ma_inv_def m'_def ma_window_def)
  ultimately show ?thesis using l(2) w by (auto simp: ma_window_def m'_def)
qed

lemma window_size:
  assumes "ma_inv m"
  shows "\<exists>n. curr_window_size m = Inr n \<and> unat n = length (ma_window m)"
proof -
  let ?b = "ma_curr_window_back m" and ?f = "ma_curr_window_front m"
  have "cq_inv (win m)" "mn_max_value ?f = mn_max_value ?b" using assms by (simp_all add: ma_inv_def)
  then obtain c where "ModuloNum_sub ?b ?f = Inr c"
    "unat (mn_value c) = (unat (mn_value ?b) + unat (mn_max_value ?b) - unat (mn_value ?f)) mod unat (mn_max_value ?b)"
    using ModuloNum_sub_value [of ?b ?f] by (auto simp: cq_inv_def win_def word_less_nat_alt)
  then show ?thesis by (simp add: curr_window_size_def ma_window_def cq_len_def win_def)
qed

lemma front_elem:
  assumes "ma_inv m" "ma_window m \<noteq> []"
  shows "window_elem m (ma_curr_window_front m) = Inr (hd (ma_window m))"
proof -
  have i: "cq_inv (win m)" using assms(1) by (simp add: ma_inv_def)
  have "0 < cq_len (win m)" using assms(2) by (metis ma_window_def length_cq_list length_greater_0_conv)
  then have "hd (ma_window m) = ma_num_list m ! unat (mn_value (ma_curr_window_front m))"
    using assms(2) i cq_list_nth [of 0 "win m"] by (simp add: ma_window_def hd_conv_nth cq_inv_def) (simp add: win_def)
  then show ?thesis using i by (simp add: window_elem_def cq_inv_def win_def)
qed

lemma update_slides:
  assumes "ma_inv m"
  shows "\<exists>m'. MovingAverage_update x m = Inr m' \<and> ma_inv m' \<and> ma_type m' = ma_type m
    \<and> ma_max_window_size m' = ma_max_window_size m \<and> ma_window m' = slide m x"
proof (cases "ma_type m = ARITHMETIC_MEAN")
  case True
  obtain n where n: "curr_window_size m = Inr n" "unat n = length (ma_window m)" using window_size [OF assms] by blast
  have full: "n = ma_max_window_size m \<longleftrightarrow> length (ma_window m) = unat (ma_max_window_size m)"
    using n(2) by (simp add: word_unat_eq_iff)
  show ?thesis
  proof (cases "n = ma_max_window_size m")
    case eq: True
    then have "ma_window m \<noteq> []" using full ma_inv_size [OF assms] by auto
    then have "ma_sum m - hd (ma_window m) + x = sum_list (slide m x)"
      using ma_inv_sum [OF assms True] full eq by (cases "ma_window m") (simp_all add: slide_def)
    with \<open>ma_window m \<noteq> []\<close> show ?thesis
      using addToWindow_window [OF assms, of "ma_sum m - hd (ma_window m) + x" x] n(1) eq True front_elem [OF assms]
      by (auto simp: MovingAverage_update_def)
  next
    case False
    then have "ma_sum m + x = sum_list (slide m x)" using ma_inv_sum [OF assms True] full by (simp add: slide_def)
    then show ?thesis using addToWindow_window [OF assms, of "ma_sum m + x" x] n(1) False True by (auto simp: MovingAverage_update_def)
  qed
next
  case False
  then show ?thesis using addToWindow_window [OF assms, of "ma_sum m" x] by (auto simp: MovingAverage_update_def split: AvgType_t.split)
qed

section \<open>Positions in the window\<close>

definition pos :: "MovingAverage \<Rightarrow> nat \<Rightarrow> ModuloNum" where
  "pos m i = (ma_curr_window_front m)\<lparr>mn_value := of_nat ((unat (mn_value (ma_curr_window_front m)) + i)
     mod unat (mn_max_value (ma_curr_window_back m)))\<rparr>"

lemma pos_value:
  assumes "ma_inv m"
  shows "unat (mn_value (pos m i)) = (unat (mn_value (ma_curr_window_front m)) + i) mod unat (mn_max_value (ma_curr_window_back m))"
proof -
  let ?n = "unat (mn_max_value (ma_curr_window_back m))"
  have "(unat (mn_value (ma_curr_window_front m)) + i) mod ?n < ?n" using ma_inv_size(1) [OF assms] by (intro mod_less_divisor) simp
  also have "?n < 2 ^ 32" using unsigned_less [of "mn_max_value (ma_curr_window_back m)"] by simp
  finally show ?thesis by (simp add: pos_def take_bit_nat_eq_self unat_of_nat)
qed

lemma pos_add:
  assumes "ma_inv m" "unat v < unat (mn_max_value (ma_curr_window_back m))"
  shows "ModuloNum_add_int (pos m i) v = Inr (pos m (i + unat v))"
proof -
  let ?M = "mn_max_value (ma_curr_window_back m)"
  have M: "mn_max_value (pos m i) = ?M" "?M \<noteq> 0" "unat ?M \<le> 2 ^ 31" using ma_inv_size(1) [OF assms(1)] ma_inv_bounds [OF assms(1)] by (auto simp: pos_def)
  have v: "v mod ?M = v" using assms(2) by (simp add: word_unat_eq_iff unat_mod_distrib)
  have "unat (mn_value (pos m i)) < unat ?M" using assms(2) by (simp add: pos_value [OF assms(1)])
  then have "unat (mn_value (pos m i) + v) = unat (mn_value (pos m i)) + unat v"
    using assms(2) M(3) by (subst unat_plus_if') simp
  then have "unat ((mn_value (pos m i) + v) mod ?M) = unat (mn_value (pos m (i + unat v)))"
    by (simp add: unat_mod_distrib pos_value [OF assms(1)] mod_simps add.assoc)
  then have "(mn_value (pos m i) + v) mod ?M = mn_value (pos m (i + unat v))" by (simp add: word_unat_eq_iff)
  with v M show ?thesis by (simp add: ModuloNum_add_int_def ModuloNum_add_def modR_def) (simp add: pos_def)
qed

lemma pos_front [simp]: "ma_inv m \<Longrightarrow> pos m 0 = ma_curr_window_front m"
  using ma_inv_bounds [of m] by (simp add: pos_def)

lemma pos_elem:
  assumes "ma_inv m" "i < length (ma_window m)"
  shows "window_elem m (pos m i) = Inr (ma_window m ! i)"
  using assms ma_inv_bounds [OF assms(1)] cq_list_nth [of i "win m"] pos_value [OF assms(1), of i]
  by (simp add: window_elem_def ma_window_def) (simp add: win_def)

lemma pos_back:
  assumes "ma_inv m" "i \<le> length (ma_window m)"
  shows "ModuloNum_eq (pos m i) (ma_curr_window_back m) \<longleftrightarrow> i = length (ma_window m)"
proof -
  let ?f = "unat (mn_value (ma_curr_window_front m))" and ?b = "unat (mn_value (ma_curr_window_back m))"
    and ?n = "unat (mn_max_value (ma_curr_window_back m))"
  have b: "?f < ?n" "?b < ?n" using ma_inv_bounds [OF assms(1)] by simp_all
  have l: "length (ma_window m) = (?b + ?n - ?f) mod ?n" by (simp add: ma_window_def cq_len_def win_def)
  have "(?f + i) mod ?n = ?b \<longleftrightarrow> i = length (ma_window m)"
    using b assms(2) unfolding l by (auto simp: ring_dist ring_add split: if_splits)
  then show ?thesis using ma_inv_bounds(5) [OF assms(1)] by (simp add: ModuloNum_eq_def word_unat_eq_iff pos_value [OF assms(1)]) (simp add: pos_def)
qed

lemma window_length:
  assumes "ma_inv m"
  shows "length (ma_window m) \<le> unat (ma_max_window_size m)"
  using cq_len_cap [of "win m"] assms ma_inv_size [OF assms] by (simp add: ma_window_def ma_inv_def)

lemma window_product_prod:
  assumes "ma_inv m" "i \<le> length (ma_window m)" "length (ma_window m) - i < n"
  shows "window_product n m (pos m i) acc = Inr (acc * prod_list (drop i (ma_window m)))"
  using assms(2,3)
proof (induction n arbitrary: i acc)
  case (Suc n)
  have one: "ModuloNum_add_int (pos m i) 1 = Inr (pos m (Suc i))" using pos_add [OF assms(1), of 1 i] ma_inv_size [OF assms(1)] by simp
  show ?case
  proof (cases "i = length (ma_window m)")
    case True
    then show ?thesis using Suc.prems pos_back [OF assms(1)] by simp
  next
    case False
    then have i: "i < length (ma_window m)" using Suc.prems by simp
    then have "drop i (ma_window m) = ma_window m ! i # drop (Suc i) (ma_window m)" by (simp add: Cons_nth_drop_Suc)
    then show ?thesis using i Suc pos_back [OF assms(1), of i] pos_elem [OF assms(1) i] one by (simp add: mult.assoc)
  qed
qed simp

definition average_of :: "(UInt64 \<Rightarrow> UInt32 \<Rightarrow> UInt64) \<Rightarrow> AvgType_t \<Rightarrow> SubsecondTime list \<Rightarrow> SubsecondTime" where
  "average_of pow t xs =
     (case t of ARITHMETIC_MEAN \<Rightarrow> sum_list xs div of_nat (length xs)
      | GEOMETRIC_MEAN \<Rightarrow> pow (prod_list xs) (of_nat (length xs))
      | MEDIAN \<Rightarrow> xs ! (length xs div 2))"

lemma compute_average:
  assumes "ma_inv m" "ma_window m \<noteq> []"
  shows "MovingAverage_compute pow m = Inr (average_of pow (ma_type m) (ma_window m))"
proof -
  obtain n where n: "curr_window_size m = Inr n" "unat n = length (ma_window m)" using window_size [OF assms(1)] by blast
  have nn: "n = of_nat (length (ma_window m))" by (simp add: n(2) [symmetric])
  have l: "length (ma_window m) < unat (mn_max_value (ma_curr_window_back m))"
    using window_length [OF assms(1)] ma_inv_size(1) [OF assms(1)] by simp
  have "unat (ucast n :: UInt64) = length (ma_window m)" using n(2) l ma_inv_bounds(3) [OF assms(1)] by (subst unat_ucast_le) simp_all
  moreover have u: "(ucast n :: UInt64) = of_nat (length (ma_window m))" by (simp add: n(2) [symmetric])
  ultimately have nz: "(of_nat (length (ma_window m)) :: UInt64) \<noteq> 0" using assms(2) u by (metis length_0_conv unsigned_0)
  have half: "unat (n div 2) = length (ma_window m) div 2" using n(2) by (simp add: unat_div_distrib)
  have mid: "length (ma_window m) div 2 < length (ma_window m)" using assms(2) by simp
  show ?thesis
  proof (cases "ma_type m")
    case ARITHMETIC_MEAN
    then show ?thesis using n(1) u nz ma_inv_sum [OF assms(1)] by (simp add: MovingAverage_compute_def average_of_def)
  next
    case GEOMETRIC_MEAN
    then show ?thesis using n(1) nn l window_product_prod [OF assms(1), of 0 "unat (mn_max_value (ma_curr_window_back m))" 1] assms(1)
      by (simp add: MovingAverage_compute_def average_of_def)
  next
    case MEDIAN
    have "ModuloNum_add_int (ma_curr_window_front m) (n div 2) = Inr (pos m (length (ma_window m) div 2))"
      using pos_add [OF assms(1), of "n div 2" 0] half l assms(1) by simp
    then show ?thesis using MEDIAN n(1) pos_elem [OF assms(1) mid] by (simp add: MovingAverage_compute_def average_of_def)
  qed
qed

lemma create_ma_inv:
  assumes "0 < unat w" "unat w < 2 ^ 31 - 1"
  shows "ma_inv (createAvgType t w)" "ma_window (createAvgType t w) = []"
proof -
  have s: "unat (w + 1) = Suc (unat w)" using assms by (intro unat_word_Suc) simp
  have w: "win (createAvgType t w) = CircularQueue_create w (replicate (Suc (unat w)) 0)"
    by (simp add: win_def createAvgType_def CircularQueue_create_def Let_def s)
  note c = cq_create_inv [of w "replicate (Suc (unat w)) 0"]
  show e: "ma_window (createAvgType t w) = []" using c assms by (simp add: ma_window_def w)
  show "ma_inv (createAvgType t w)" using c assms e by (simp add: ma_inv_def w) (simp add: createAvgType_def Let_def)
qed

lemma slide_last_n:
  assumes "ma_inv m" "ma_window m = last_n (unat (ma_max_window_size m)) ys"
  shows "slide m x = last_n (unat (ma_max_window_size m)) (ys @ [x])"
proof -
  let ?w = "unat (ma_max_window_size m)"
  have "0 < ?w" using assms(1) by (simp add: ma_inv_def)
  then show ?thesis using assms(2)
    by (auto simp: slide_def last_n_def tl_drop drop_Suc [symmetric] Suc_diff_le)
qed

text \<open>A sequence of updates, ended by the first that fails.\<close>

fun update_all :: "MovingAverage \<Rightarrow> SubsecondTime list \<Rightarrow> MovingAverage result" where
  "update_all m [] = Inr m"
| "update_all m (x # xs) = bindR (MovingAverage_update x m) (\<lambda>m'. update_all m' xs)"

lemma update_all_window:
  assumes "ma_inv m" "ma_window m = last_n (unat (ma_max_window_size m)) ys"
  shows "\<exists>m'. update_all m xs = Inr m' \<and> ma_inv m' \<and> ma_type m' = ma_type m
    \<and> ma_window m' = last_n (unat (ma_max_window_size m)) (ys @ xs)"
  using assms
proof (induction xs arbitrary: m ys)
  case (Cons x xs)
  obtain m1 where m1: "MovingAverage_update x m = Inr m1" "ma_inv m1" "ma_type m1 = ma_type m"
    "ma_max_window_size m1 = ma_max_window_size m" "ma_window m1 = slide m x"
    using update_slides [OF Cons.prems(1), of x] by blast
  have "ma_window m1 = last_n (unat (ma_max_window_size m1)) (ys @ [x])" using slide_last_n [OF Cons.prems] m1 by simp
  then show ?case using Cons.IH [OF m1(2)] m1 by fastforce
qed simp

section \<open>Properties\<close>

text \<open>
  A moving average remembers exactly the last \<^verbatim>\<open>max_window_size\<close> values. Whatever values a fresh average is updated with, no
  update fails, and \<^verbatim>\<open>compute\<close> gives the average of the last values of the sequence: their sum divided by their number, the root
  of their product, or, for the median, the value in the middle of the window.
\<close>

theorem moving_average_window:
  assumes "0 < unat w" "unat w < 2 ^ 31 - 1"
  shows "\<exists>m. update_all (createAvgType t w) xs = Inr m \<and> ma_window m = last_n (unat w) xs
    \<and> (xs \<noteq> [] \<longrightarrow> MovingAverage_compute pow m = Inr (average_of pow t (last_n (unat w) xs)))"
proof -
  note c = create_ma_inv [OF assms, of t]
  have w: "ma_max_window_size (createAvgType t w) = w" "ma_type (createAvgType t w) = t" by (simp_all add: createAvgType_def Let_def)
  obtain m where m: "update_all (createAvgType t w) xs = Inr m" "ma_inv m" "ma_type m = t"
    "ma_window m = last_n (unat w) xs"
    using update_all_window [OF c(1), of "[]" xs] c(2) w by (auto simp: last_n_def)
  have "last_n (unat w) xs \<noteq> []" if "xs \<noteq> []"
    using that assms(1) by (cases xs) (auto simp: last_n_def not_le)
  then show ?thesis using m compute_average [OF m(2), of pow] by auto
qed

theorem moving_average_window_witness:
  "\<exists>m. update_all (createAvgType ARITHMETIC_MEAN 2) [100, 7, 9] = Inr m
    \<and> MovingAverage_compute (\<lambda>p n. p) m = Inr 8"
  using moving_average_window [of 2 ARITHMETIC_MEAN "[100, 7, 9]" "\<lambda>p n. p"] by (auto simp: last_n_def average_of_def)

text \<open>
  The moving median is not the median. With a window of three and the values 1, 9 and 2 the function returns 9, the value that
  arrived second, although two of the three values are smaller: the window is never sorted.
\<close>

theorem moving_median_unsorted:
  "bindR (update_all (createAvgType MEDIAN 3) [1, 9, 2]) (MovingAverage_compute (\<lambda>p n. p)) = Inr 9"
  by code_simp

end
