(* ===== verification/Contention_Model.thy ===== *)
theory Contention_Model
  imports Subsecond_Time
begin

text \<open>
  \<^verbatim>\<open>performance_model/contention_model.cc\<close>: a resource with \<^verbatim>\<open>m_num_outstanding\<close> units (MSHRs, ports, functional units), each
  with the time at which it becomes free and the tag of its last request. The lemmas show that the requests that book a unit
  never occupy more units than there are, and that peeking the start time agrees with the request itself.
\<close>

section \<open>State and operations\<close>

record ContentionModel =
  cm_num_outstanding :: UInt32
  cm_time :: "(SubsecondTime \<times> UInt64) list"
  cm_t_last :: SubsecondTime
  cm_n_requests :: UInt64
  cm_n_barriers :: UInt64
  cm_n_outoforder :: UInt64
  cm_n_simultaneous :: UInt64
  cm_n_hasfreefail :: UInt64
  cm_total_delay :: SubsecondTime
  cm_total_barrier_delay :: SubsecondTime

definition ContentionModel_create :: "UInt32 \<Rightarrow> ContentionModel" where
  "ContentionModel_create num_outstanding =
     \<lparr>cm_num_outstanding = num_outstanding, cm_time = replicate (unat num_outstanding) (0, 0), cm_t_last = 0, cm_n_requests = 0,
      cm_n_barriers = 0, cm_n_outoforder = 0, cm_n_simultaneous = 0, cm_n_hasfreefail = 0, cm_total_delay = 0,
      cm_total_barrier_delay = 0\<rparr>"

definition units :: "ContentionModel \<Rightarrow> nat" where
  "units cm = unat (cm_num_outstanding cm)"

definition free_at :: "ContentionModel \<Rightarrow> nat \<Rightarrow> SubsecondTime" where
  "free_at cm i = fst (cm_time cm ! i)"

definition getNumUsed :: "SubsecondTime \<Rightarrow> ContentionModel \<Rightarrow> UInt32" where
  "getNumUsed t_start cm = for_upto (units cm) (\<lambda>i num_used. if free_at cm i > t_start then num_used + 1 else num_used) 0"

definition getTagCompletionTime :: "UInt64 \<Rightarrow> ContentionModel \<Rightarrow> SubsecondTime" where
  "getTagCompletionTime tag cm =
     (case first_index (\<lambda>i. snd (cm_time cm ! i) = tag) (units cm) of Some i \<Rightarrow> free_at cm i | None \<Rightarrow> MaxTime)"

definition hasFreeSlot :: "SubsecondTime \<Rightarrow> UInt64 \<Rightarrow> ContentionModel \<Rightarrow> bool \<times> ContentionModel" where
  "hasFreeSlot t_start tag cm =
     (case first_index (\<lambda>i. free_at cm i \<le> t_start \<or> snd (cm_time cm ! i) = tag) (units cm) of
        Some i \<Rightarrow> (True, cm)
      | None \<Rightarrow> (False, cm\<lparr>cm_n_hasfreefail := cm_n_hasfreefail cm + 1\<rparr>))"

definition hasTag :: "UInt64 \<Rightarrow> ContentionModel \<Rightarrow> bool" where
  "hasTag tag cm = (first_index (\<lambda>i. snd (cm_time cm ! i) = tag) (units cm) \<noteq> None)"

definition getBarrierCompletionTime :: "SubsecondTime \<Rightarrow> SubsecondTime \<Rightarrow> UInt64 \<Rightarrow> ContentionModel \<Rightarrow> SubsecondTime \<times> ContentionModel" where
  "getBarrierCompletionTime t_start t_delay tag cm =
     (if cm_num_outstanding cm = 0 then (t_start + t_delay, cm)
      else let max_time = for_upto (units cm) (\<lambda>i m. if free_at cm i > m then free_at cm i else m) t_start;
               times = for_upto (units cm) (\<lambda>i ts. ts[i := (max_time + t_delay, tag)]) (cm_time cm)
           in (max_time + t_delay,
               cm\<lparr>cm_time := times, cm_total_barrier_delay := cm_total_barrier_delay cm + (max_time - t_start),
                  cm_n_barriers := cm_n_barriers cm + 1\<rparr>))"

text \<open>The scan for a unit: the first one that is free at \<^verbatim>\<open>t_start\<close> (\<^verbatim>\<open>break\<close>), else the one that is free first.\<close>

fun find_unit :: "ContentionModel \<Rightarrow> SubsecondTime \<Rightarrow> nat list \<Rightarrow> nat \<Rightarrow> nat" where
  "find_unit cm t_start [] unit = unit"
| "find_unit cm t_start (i # is) unit =
     (if free_at cm i \<le> t_start then i
      else find_unit cm t_start is (if free_at cm i < free_at cm unit then i else unit))"

definition getCompletionTime :: "SubsecondTime \<Rightarrow> SubsecondTime \<Rightarrow> UInt64 \<Rightarrow> ContentionModel \<Rightarrow> SubsecondTime \<times> ContentionModel" where
  "getCompletionTime t_start t_delay tag cm =
     (if cm_num_outstanding cm = 0 then (t_start + t_delay, cm)
      else let (t_end, cm) =
                 (if t_start = 0 then (t_delay, cm)
                  else if t_start < cm_t_last cm
                  then (t_start + t_delay, cm\<lparr>cm_n_outoforder := cm_n_outoforder cm + 1\<rparr>)
                  else let cm = (if t_start = cm_t_last cm then cm\<lparr>cm_n_simultaneous := cm_n_simultaneous cm + 1\<rparr> else cm);
                           unit = find_unit cm t_start [0..<units cm] 0;
                           t_begin = (if t_start < free_at cm unit then free_at cm unit else t_start);
                           t_end = t_begin + t_delay
                       in (t_end, cm\<lparr>cm_time := (cm_time cm)[unit := (t_end, tag)],
                                     cm_total_delay := cm_total_delay cm + (t_begin - t_start), cm_t_last := t_start\<rparr>))
           in (t_end, cm\<lparr>cm_n_requests := cm_n_requests cm + 1\<rparr>))"

text \<open>The scan of \<^verbatim>\<open>getStartTime\<close> returns from the function at the first free unit: \<open>None\<close>.\<close>

fun first_free_unit :: "ContentionModel \<Rightarrow> SubsecondTime \<Rightarrow> nat list \<Rightarrow> nat \<Rightarrow> nat option" where
  "first_free_unit cm t_start [] unit = Some unit"
| "first_free_unit cm t_start (i # is) unit =
     (if free_at cm i \<le> t_start then None
      else first_free_unit cm t_start is (if free_at cm i < free_at cm unit then i else unit))"

definition getStartTime :: "SubsecondTime \<Rightarrow> ContentionModel \<Rightarrow> SubsecondTime" where
  "getStartTime t_start cm =
     (if cm_num_outstanding cm = 0 then t_start
      else if t_start < cm_t_last cm then t_start
      else case first_free_unit cm t_start [0..<units cm] 0 of
             None \<Rightarrow> t_start
           | Some unit \<Rightarrow> if t_start < free_at cm unit then free_at cm unit else t_start)"

text \<open>The variants that take and return clock cycles; \<open>period\<close> is the period behind \<^verbatim>\<open>m_proc_period\<close>.\<close>

definition getNumUsed_cycles :: "SubsecondTime \<Rightarrow> UInt64 \<Rightarrow> ContentionModel \<Rightarrow> UInt32" where
  "getNumUsed_cycles period t_start cm = getNumUsed (cyclesToSubsecondTime period t_start) cm"

definition hasFreeSlot_cycles :: "SubsecondTime \<Rightarrow> UInt64 \<Rightarrow> UInt64 \<Rightarrow> ContentionModel \<Rightarrow> bool \<times> ContentionModel" where
  "hasFreeSlot_cycles period t_start tag cm = hasFreeSlot (cyclesToSubsecondTime period t_start) tag cm"

definition getBarrierCompletionTime_cycles ::
  "SubsecondTime \<Rightarrow> UInt64 \<Rightarrow> UInt64 \<Rightarrow> UInt64 \<Rightarrow> ContentionModel \<Rightarrow> (UInt64 \<times> ContentionModel) result" where
  "getBarrierCompletionTime_cycles period t_start t_delay tag cm =
     (case getBarrierCompletionTime (cyclesToSubsecondTime period t_start) (cyclesToSubsecondTime period t_delay) tag cm of
        (r, cm) \<Rightarrow> bindR (subsecondTimeToCycles period r) (\<lambda>c. Inr (c, cm)))"

definition getCompletionTime_cycles ::
  "SubsecondTime \<Rightarrow> UInt64 \<Rightarrow> UInt64 \<Rightarrow> UInt64 \<Rightarrow> ContentionModel \<Rightarrow> (UInt64 \<times> ContentionModel) result" where
  "getCompletionTime_cycles period t_start t_delay tag cm =
     (case getCompletionTime (cyclesToSubsecondTime period t_start) (cyclesToSubsecondTime period t_delay) tag cm of
        (r, cm) \<Rightarrow> bindR (subsecondTimeToCycles period r) (\<lambda>c. Inr (c, cm)))"

definition getStartTime_cycles :: "SubsecondTime \<Rightarrow> UInt64 \<Rightarrow> ContentionModel \<Rightarrow> UInt64 result" where
  "getStartTime_cycles period t_start cm = subsecondTimeToCycles period (getStartTime (cyclesToSubsecondTime period t_start) cm)"

section \<open>The chosen unit\<close>

definition cm_ok :: "ContentionModel \<Rightarrow> bool" where
  "cm_ok cm \<longleftrightarrow> length (cm_time cm) = units cm"

lemma cm_create_ok: "cm_ok (ContentionModel_create n)" "units (ContentionModel_create n) = unat n" "cm_t_last (ContentionModel_create n) = 0"
  by (simp_all add: cm_ok_def ContentionModel_create_def units_def)

lemma cm_create_free: "i < unat n \<Longrightarrow> free_at (ContentionModel_create n) i = 0"
  by (simp add: ContentionModel_create_def free_at_def)

lemma units_pos: "units cm = 0 \<longleftrightarrow> cm_num_outstanding cm = 0"
  by (simp add: units_def unat_eq_0)

lemma find_unit_in: "find_unit cm t is u \<in> insert u (set is)"
  by (induction "is" arbitrary: u) (auto split: if_splits)

lemma find_unit_less: "0 < units cm \<Longrightarrow> find_unit cm t [0..<units cm] 0 < units cm"
  using find_unit_in [of cm t "[0..<units cm]" 0] by auto

lemma find_unit_free: "\<exists>i \<in> set is. free_at cm i \<le> t \<Longrightarrow> free_at cm (find_unit cm t is u) \<le> t"
  by (induction "is" arbitrary: u) auto

lemma first_free_unit_find:
  "first_free_unit cm t is u = (if \<exists>i \<in> set is. free_at cm i \<le> t then None else Some (find_unit cm t is u))"
  by (induction "is" arbitrary: u) auto

lemma simultaneous_upd [simp]:
  "free_at (cm\<lparr>cm_n_simultaneous := x\<rparr>) = free_at cm" "units (cm\<lparr>cm_n_simultaneous := x\<rparr>) = units cm"
  by (simp_all add: free_at_def units_def fun_eq_iff)

lemma find_unit_upd [simp]: "find_unit (cm\<lparr>cm_n_simultaneous := x\<rparr>) t is u = find_unit cm t is u"
  by (induction "is" arbitrary: u) simp_all

lemma find_unit_min:
  assumes "\<forall>i \<in> set is. t < free_at cm i"
  shows "free_at cm (find_unit cm t is u) \<le> free_at cm u \<and> (\<forall>i \<in> set is. free_at cm (find_unit cm t is u) \<le> free_at cm i)"
  using assms
proof (induction "is" arbitrary: u)
  case (Cons i "is")
  let ?v = "if free_at cm i < free_at cm u then i else u"
  have "free_at cm (find_unit cm t is ?v) \<le> free_at cm ?v" "\<forall>j \<in> set is. free_at cm (find_unit cm t is ?v) \<le> free_at cm j"
    using Cons by auto
  then show ?case using Cons.prems by (auto simp: not_le split: if_splits)
qed simp

text \<open>An in-order request: where it is served, when it begins, and what it leaves behind.\<close>

definition unit_of :: "SubsecondTime \<Rightarrow> ContentionModel \<Rightarrow> nat" where
  "unit_of t cm = find_unit cm t [0..<units cm] 0"

definition begin_of :: "SubsecondTime \<Rightarrow> ContentionModel \<Rightarrow> SubsecondTime" where
  "begin_of t cm = max t (free_at cm (unit_of t cm))"

lemma getCompletionTime_in_order:
  assumes "cm_num_outstanding cm \<noteq> 0" "t \<noteq> 0" "cm_t_last cm \<le> t"
  shows "fst (getCompletionTime t d tag cm) = begin_of t cm + d"
    "cm_time (snd (getCompletionTime t d tag cm)) = (cm_time cm)[unit_of t cm := (begin_of t cm + d, tag)]"
    "cm_t_last (snd (getCompletionTime t d tag cm)) = t"
    "cm_num_outstanding (snd (getCompletionTime t d tag cm)) = cm_num_outstanding cm"
proof -
  have lt: "\<not> t < cm_t_last cm" using assms(3) by simp
  have b: "(if t < free_at cm u then free_at cm u else t) = max t (free_at cm u)" for u by (auto simp: max_def)
  show "fst (getCompletionTime t d tag cm) = begin_of t cm + d"
    "cm_time (snd (getCompletionTime t d tag cm)) = (cm_time cm)[unit_of t cm := (begin_of t cm + d, tag)]"
    "cm_t_last (snd (getCompletionTime t d tag cm)) = t"
    "cm_num_outstanding (snd (getCompletionTime t d tag cm)) = cm_num_outstanding cm"
    using assms(1,2) lt by (simp_all add: getCompletionTime_def Let_def b begin_of_def unit_of_def)
qed

lemma unit_of_less: "cm_num_outstanding cm \<noteq> 0 \<Longrightarrow> unit_of t cm < units cm"
  unfolding unit_of_def by (rule find_unit_less) (use units_pos [of cm] in simp)

lemma getStartTime_begin:
  assumes "cm_num_outstanding cm \<noteq> 0" "cm_t_last cm \<le> t"
  shows "getStartTime t cm = begin_of t cm"
  using assms find_unit_free [of "[0..<units cm]" cm t 0]
  by (auto simp: getStartTime_def first_free_unit_find begin_of_def unit_of_def max_def not_le dest: leD)

section \<open>The requests share the units\<close>

text \<open>The service intervals of a sequence of requests \<open>(t_start, t_delay, tag)\<close>.\<close>

fun serve_all :: "(SubsecondTime \<times> SubsecondTime \<times> UInt64) list \<Rightarrow> ContentionModel \<Rightarrow> (SubsecondTime \<times> SubsecondTime) list" where
  "serve_all [] cm = []"
| "serve_all ((t, d, tag) # rs) cm = (case getCompletionTime t d tag cm of (e, cm') \<Rightarrow> (e - d, e) # serve_all rs cm')"

text \<open>Which requests take a unit: not those at time 0, and not those that are earlier than the last one that took a unit.\<close>

fun booked :: "SubsecondTime \<Rightarrow> (SubsecondTime \<times> SubsecondTime \<times> UInt64) list \<Rightarrow> bool list" where
  "booked t_last [] = []"
| "booked t_last ((t, d, tag) # rs) = (if t \<noteq> 0 \<and> t_last \<le> t then True # booked t rs else False # booked t_last rs)"

definition active :: "SubsecondTime \<Rightarrow> SubsecondTime \<times> SubsecondTime \<Rightarrow> bool" where
  "active tm iv = (fst iv \<le> tm \<and> tm < snd iv)"

text \<open>Units that are free by a given time; every booked request that is active then takes one of them.\<close>

definition free_by :: "SubsecondTime \<Rightarrow> ContentionModel \<Rightarrow> nat set" where
  "free_by tm cm = {u. u < units cm \<and> free_at cm u \<le> tm}"

text \<open>No time overflows: \<open>x\<close> bounds the times so far and all start times.\<close>

definition horizon :: "nat \<Rightarrow> (SubsecondTime \<times> SubsecondTime \<times> UInt64) list \<Rightarrow> ContentionModel \<Rightarrow> bool" where
  "horizon x rs cm \<longleftrightarrow> cm_ok cm \<and> cm_num_outstanding cm \<noteq> 0 \<and> (\<forall>u < units cm. unat (free_at cm u) \<le> x)
     \<and> (\<forall>r \<in> set rs. unat (fst r) \<le> x) \<and> x + (\<Sum>r\<leftarrow>rs. unat (fst (snd r))) < 2 ^ 64"

lemma booked_step:
  assumes "horizon x ((t, d, tag) # rs) cm" and t: "t \<noteq> 0" "cm_t_last cm \<le> t"
  defines "cm' \<equiv> snd (getCompletionTime t d tag cm)"
  shows "horizon (x + unat d) rs cm'" "units cm' = units cm" "unit_of t cm < units cm"
    "free_at cm' u = (if u = unit_of t cm then begin_of t cm + d else free_at cm u)"
    "fst (getCompletionTime t d tag cm) = begin_of t cm + d" "unat (begin_of t cm + d) = unat (begin_of t cm) + unat d" "cm_t_last cm' = t"
proof -
  have a: "cm_num_outstanding cm \<noteq> 0" "cm_ok cm" using assms(1) by (auto simp: horizon_def)
  note g = getCompletionTime_in_order [OF a(1) t, of d tag, folded cm'_def]
  show u: "unit_of t cm < units cm" using a(1) by (rule unit_of_less)
  show n: "units cm' = units cm" using g(4) by (simp add: units_def)
  show f: "free_at cm' u = (if u = unit_of t cm then begin_of t cm + d else free_at cm u)" for u
    using u a(2) by (auto simp: free_at_def g(2) cm_ok_def nth_list_update)
  show "fst (getCompletionTime t d tag cm) = begin_of t cm + d" by (rule getCompletionTime_in_order(1) [OF a(1) t])
  show "cm_t_last cm' = t" by (rule g(3))
  have bx: "unat (begin_of t cm) \<le> x" using assms(1) u by (auto simp: begin_of_def max_def horizon_def)
  then show e: "unat (begin_of t cm + d) = unat (begin_of t cm) + unat d"
    using assms(1) by (subst unat_add_lem [THEN iffD1]) (auto simp: horizon_def)
  have "\<forall>u < units cm'. unat (free_at cm' u) \<le> x + unat d"
    using assms(1) bx e n by (auto simp: f horizon_def intro: trans_le_add1)
  then show "horizon (x + unat d) rs cm'"
    using assms(1) n g a by (auto simp: horizon_def cm_ok_def units_def intro: trans_le_add1)
qed

lemma unbooked_step:
  assumes "horizon x ((t, d, tag) # rs) cm" and t: "\<not> (t \<noteq> 0 \<and> cm_t_last cm \<le> t)"
  defines "cm' \<equiv> snd (getCompletionTime t d tag cm)"
  shows "horizon (x + unat d) rs cm'" "free_by tm cm' = free_by tm cm" "cm_t_last cm' = cm_t_last cm"
    "fst (getCompletionTime t d tag cm) = t + d" "unat (t + d) = unat t + unat d"
proof -
  have a: "cm_num_outstanding cm \<noteq> 0" using assms(1) by (simp add: horizon_def)
  have c: "cm_time cm' = cm_time cm" "cm_num_outstanding cm' = cm_num_outstanding cm" "cm_t_last cm' = cm_t_last cm"
    "fst (getCompletionTime t d tag cm) = t + d"
    using a t by (auto simp: cm'_def getCompletionTime_def Let_def not_le)
  then show "cm_t_last cm' = cm_t_last cm" "fst (getCompletionTime t d tag cm) = t + d" "free_by tm cm' = free_by tm cm"
    by (simp_all add: free_by_def units_def free_at_def)
  show "horizon (x + unat d) rs cm'"
    using assms(1) c by (auto simp: horizon_def cm_ok_def units_def free_at_def intro: trans_le_add1)
  show "unat (t + d) = unat t + unat d"
    using assms(1) by (subst unat_add_lem [THEN iffD1]) (auto simp: horizon_def)
qed

lemma active_free:
  assumes "horizon x rs cm"
  shows "length (filter (\<lambda>(b, iv). b \<and> active tm iv) (zip (booked (cm_t_last cm) rs) (serve_all rs cm))) \<le> card (free_by tm cm)"
  using assms
proof (induction rs arbitrary: x cm)
  case (Cons r rs)
  obtain t d tag where r: "r = (t, d, tag)" by (cases r)
  let ?cm' = "snd (getCompletionTime t d tag cm)" and ?b = "begin_of t cm" and ?u = "unit_of t cm"
  show ?case
  proof (cases "t \<noteq> 0 \<and> cm_t_last cm \<le> t")
    case True
    then have t: "t \<noteq> 0" "cm_t_last cm \<le> t" by simp_all
    note st = booked_step [OF Cons.prems [unfolded r] t]
    have IH: "length (filter (\<lambda>(b, iv). b \<and> active tm iv) (zip (booked t rs) (serve_all rs ?cm'))) \<le> card (free_by tm ?cm')"
      using Cons.IH [OF st(1)] by (simp add: st(7))
    have sv: "serve_all (r # rs) cm = (?b, ?b + d) # serve_all rs ?cm'" using st(5) by (simp add: r case_prod_beta)
    have be: "?b \<le> ?b + d" using st(6) by (simp add: word_le_nat_alt)
    have fb: "free_at cm ?u \<le> ?b" by (simp add: begin_of_def)
    have fin: "finite (free_by tm cm)" by (simp add: free_by_def)
    show ?thesis
    proof (cases "active tm (?b, ?b + d)")
      case True
      then have "free_by tm ?cm' = free_by tm cm - {?u}" "?u \<in> free_by tm cm"
        using st fb by (auto simp: free_by_def active_def split: if_splits)
      then show ?thesis using IH True sv t fin card_Suc_Diff1 [of "free_by tm cm" ?u] by (simp add: r)
    next
      case False
      then have "free_by tm ?cm' \<subseteq> free_by tm cm"
        using st fb be by (auto simp: free_by_def active_def not_le not_less split: if_splits)
      then have "card (free_by tm ?cm') \<le> card (free_by tm cm)" by (rule card_mono [OF fin])
      then show ?thesis using IH False sv t by (simp add: r)
    qed
  next
    case False
    note st = unbooked_step [OF Cons.prems [unfolded r] False]
    show ?thesis using Cons.IH [OF st(1)] False by (auto simp: r case_prod_beta st(2,3))
  qed
qed simp

lemma serve_all_times:
  assumes "horizon x rs cm"
  shows "list_all2 (\<lambda>(b, r) iv. fst r \<le> fst iv \<and> unat (snd iv) = unat (fst iv) + unat (fst (snd r)) \<and> (b \<or> fst iv = fst r))
    (zip (booked (cm_t_last cm) rs) rs) (serve_all rs cm)"
  using assms
proof (induction rs arbitrary: x cm)
  case (Cons r rs)
  obtain t d tag where r: "r = (t, d, tag)" by (cases r)
  show ?case
  proof (cases "t \<noteq> 0 \<and> cm_t_last cm \<le> t")
    case True
    then have t: "t \<noteq> 0" "cm_t_last cm \<le> t" by simp_all
    note st = booked_step [OF Cons.prems [unfolded r] t]
    show ?thesis using Cons.IH [OF st(1)] st(5,6) t by (simp add: r case_prod_beta begin_of_def st(7))
  next
    case False
    note st = unbooked_step [OF Cons.prems [unfolded r] False]
    show ?thesis using Cons.IH [OF st(1)] st(4,5) False by (auto simp: r case_prod_beta st(3))
  qed
qed simp

section \<open>Properties\<close>

text \<open>
  C28: A contention model with n units never has more than n booked requests in service at once, for any sequence of requests
  whose times do not overflow. A request at time 0, or at a time before the last booked one, books no unit and is served at once;
  every other one is booked, begins no earlier than it arrives and may have to wait for a unit. Each request, booked or not, is
  served for exactly its delay.
\<close>

theorem contention_capacity:
  assumes "n \<noteq> 0" "\<forall>r \<in> set rs. unat (fst r) \<le> x" "x + (\<Sum>r\<leftarrow>rs. unat (fst (snd r))) < 2 ^ 64"
  shows "length (filter (\<lambda>(b, iv). b \<and> fst iv \<le> tm \<and> tm < snd iv) (zip (booked 0 rs) (serve_all rs (ContentionModel_create n)))) \<le> unat n
    \<and> list_all2 (\<lambda>(b, r) iv. fst r \<le> fst iv \<and> unat (snd iv) = unat (fst iv) + unat (fst (snd r)) \<and> (b \<or> fst iv = fst r))
        (zip (booked 0 rs) rs) (serve_all rs (ContentionModel_create n))"
proof -
  let ?c = "ContentionModel_create n"
  have i: "horizon x rs ?c"
    using assms cm_create_ok [of n] cm_create_free [of _ n] by (auto simp: horizon_def units_pos [symmetric] unat_eq_0)
  have "card (free_by tm ?c) \<le> unat n"
    using card_mono [of "{..<unat n}" "free_by tm ?c"] by (auto simp: free_by_def cm_create_ok)
  then show ?thesis using active_free [OF i, of tm] serve_all_times [OF i] by (simp add: active_def [abs_def] cm_create_ok)
qed

theorem contention_capacity_witness:
  "serve_all [(10, 5, 1), (11, 5, 2), (0, 9, 4), (12, 5, 3), (11, 5, 6)] (ContentionModel_create 2)
      = [(10, 15), (11, 16), (0, 9), (15, 20), (11, 16)]
   \<and> booked 0 [(10, 5, 1), (11, 5, 2), (0, 9, 4), (12, 5, 3), (11, 5, 6)] = [True, True, False, True, False]
   \<and> length (filter (\<lambda>(b, iv). b \<and> fst iv \<le> 12 \<and> 12 < snd iv) (zip (booked 0 [(10, 5, 1), (11, 5, 2), (0, 9, 4), (12, 5, 3), (11, 5, 6)])
        (serve_all [(10, 5, 1), (11, 5, 2), (0, 9, 4), (12, 5, 3), (11, 5, 6)] (ContentionModel_create 2)))) \<le> 2"
proof (intro conjI)
  show "serve_all [(10, 5, 1), (11, 5, 2), (0, 9, 4), (12, 5, 3), (11, 5, 6)] (ContentionModel_create 2)
      = [(10, 15), (11, 16), (0, 9), (15, 20), (11, 16)]" by code_simp
  show "length (filter (\<lambda>(b, iv). b \<and> fst iv \<le> 12 \<and> 12 < snd iv) (zip (booked 0 [(10, 5, 1), (11, 5, 2), (0, 9, 4), (12, 5, 3), (11, 5, 6)])
        (serve_all [(10, 5, 1), (11, 5, 2), (0, 9, 4), (12, 5, 3), (11, 5, 6)] (ContentionModel_create 2)))) \<le> 2"
    using contention_capacity [of 2 "[(10, 5, 1), (11, 5, 2), (0, 9, 4), (12, 5, 3), (11, 5, 6)]" 12 12] by simp
qed simp

text \<open>
  Peeking agrees with doing: for every state and every request at a time other than zero, \<^verbatim>\<open>getCompletionTime\<close> completes
  the request exactly \<^verbatim>\<open>t_delay\<close> after the time that \<^verbatim>\<open>getStartTime\<close> announces, in order or out of order, with any
  number of units. At time zero \<^verbatim>\<open>getCompletionTime\<close> ignores the units.
\<close>

theorem getStartTime_equivalent:
  "if t = 0 \<and> cm_num_outstanding cm \<noteq> 0 then fst (getCompletionTime t d tag cm) = d
   else fst (getCompletionTime t d tag cm) = getStartTime t cm + d"
proof (cases "cm_num_outstanding cm = 0 \<or> t = 0 \<or> t < cm_t_last cm")
  case True
  then show ?thesis by (auto simp: getCompletionTime_def getStartTime_def)
next
  case False
  then show ?thesis by (simp add: getCompletionTime_in_order getStartTime_begin not_less)
qed

end
