(* ===== verification/Queue_Model.thy ===== *)
theory Queue_Model
  imports Moving_Average Contention_Model
begin

text \<open>
  The queue models of \<^verbatim>\<open>performance_model/queue_model*.cc\<close>, which estimate how long a request waits for a shared resource:
  the basic model, the history list, the contention model and the windowed M/G/1 model. The interface \<open>single_server\<close> states what a
  model of one server promises: the time in which a request is served was free before and is not free afterwards.
  The floating-point estimate of the M/G/1 model and the global time of the simulation are arguments.
\<close>

section \<open>The basic model\<close>

record QueueModelBasic =
  qb_queue_time :: SubsecondTime
  qb_moving_average :: "MovingAverage option"

definition QueueModelBasic_create :: "bool \<Rightarrow> UInt32 \<Rightarrow> string \<Rightarrow> QueueModelBasic result" where
  "QueueModelBasic_create moving_avg_enabled moving_avg_window_size moving_avg_type_str =
     (if moving_avg_enabled
      then bindR (parseAvgType moving_avg_type_str) (\<lambda>moving_avg_type.
           Inr \<lparr>qb_queue_time = 0, qb_moving_average = Some (createAvgType moving_avg_type moving_avg_window_size)\<rparr>)
      else Inr \<lparr>qb_queue_time = 0, qb_moving_average = None\<rparr>)"

definition Basic_computeQueueDelay ::
  "(UInt64 \<Rightarrow> UInt32 \<Rightarrow> UInt64) \<Rightarrow> QueueModelBasic \<Rightarrow> SubsecondTime \<Rightarrow> SubsecondTime \<Rightarrow> (SubsecondTime \<times> QueueModelBasic) result" where
  "Basic_computeQueueDelay pow q pkt_time processing_time =
     bindR (case qb_moving_average q of
              Some m \<Rightarrow> bindR (MovingAverage_compute_next pow pkt_time m) (\<lambda>(r, m). Inr (r, q\<lparr>qb_moving_average := Some m\<rparr>))
            | None \<Rightarrow> Inr (pkt_time, q)) (\<lambda>(ref_time, q).
     let queue_delay = (if qb_queue_time q > ref_time then qb_queue_time q - ref_time else 0)
     in Inr (queue_delay, q\<lparr>qb_queue_time := max (qb_queue_time q) ref_time + processing_time\<rparr>))"

section \<open>The history list\<close>

record QueueModelHistoryList =
  hl_min_processing_time :: SubsecondTime
  hl_max_free_interval_list_size :: UInt32
  hl_free_interval_list :: "(SubsecondTime \<times> SubsecondTime) list"
  hl_utilized_time :: SubsecondTime
  hl_total_queue_delay :: SubsecondTime
  hl_average_delay :: MovingAverage
  hl_analytical_model_enabled :: bool
  hl_total_requests :: UInt64
  hl_total_requests_using_analytical_model :: UInt64

definition QueueModelHistoryList_create :: "bool \<Rightarrow> UInt32 \<Rightarrow> SubsecondTime \<Rightarrow> QueueModelHistoryList" where
  "QueueModelHistoryList_create analytical_model_enabled max_list_size min_processing_time =
     (let max_simulation_time = push_bit 63 1
      in \<lparr>hl_min_processing_time = min_processing_time, hl_max_free_interval_list_size = max_list_size,
          hl_free_interval_list = [(0, max_simulation_time)], hl_utilized_time = 0, hl_total_queue_delay = 0,
          hl_average_delay = createAvgType ARITHMETIC_MEAN max_list_size, hl_analytical_model_enabled = analytical_model_enabled,
          hl_total_requests = 0, hl_total_requests_using_analytical_model = 0\<rparr>)"

text \<open>
  The loop over the free intervals: the answer is the queue delay and the list after the interval has been erased and its
  remainders inserted; \<open>None\<close> when the loop ends without a match.
\<close>

fun hl_search :: "SubsecondTime \<Rightarrow> SubsecondTime \<Rightarrow> SubsecondTime \<Rightarrow> (SubsecondTime \<times> SubsecondTime) list \<Rightarrow>
    (SubsecondTime \<times> (SubsecondTime \<times> SubsecondTime) list) option" where
  "hl_search min_processing_time pkt_time processing_time [] = None"
| "hl_search min_processing_time pkt_time processing_time ((a, b) # rest) =
     (if pkt_time \<ge> a \<and> pkt_time + processing_time \<le> b
      then Some (0, (if pkt_time - a \<ge> min_processing_time then [(a, pkt_time)] else [])
                    @ (if b - (pkt_time + processing_time) \<ge> min_processing_time then [(pkt_time + processing_time, b)] else []) @ rest)
      else if pkt_time < a
      then Some (a - pkt_time, (if b - (a + processing_time) \<ge> min_processing_time then [(a + processing_time, b)] else []) @ rest)
      else map_option (\<lambda>(d, l). (d, (a, b) # l)) (hl_search min_processing_time pkt_time processing_time rest))"

definition computeUsingHistoryList ::
  "SubsecondTime \<Rightarrow> SubsecondTime \<Rightarrow> QueueModelHistoryList \<Rightarrow> (SubsecondTime \<times> QueueModelHistoryList) result" where
  "computeUsingHistoryList pkt_time processing_time q =
     bindR (logAssertR (length (hl_free_interval_list q) \<le> unat (hl_max_free_interval_list_size q)) ''Free Interval list size'') (\<lambda>_.
     let (queue_delay, l) = (case hl_search (hl_min_processing_time q) pkt_time processing_time (hl_free_interval_list q) of
                               Some (d, l) \<Rightarrow> (d, l) | None \<Rightarrow> (MaxTime, hl_free_interval_list q))
     in bindR (logAssertR (queue_delay \<noteq> MaxTime) ''free interval not found'') (\<lambda>_.
        Inr (queue_delay, q\<lparr>hl_free_interval_list :=
                              (if length l > unat (hl_max_free_interval_list_size q) then tl l else l)\<rparr>)))"

text \<open>The average of the history list is arithmetic, so the root of the geometric mean is not used.\<close>

definition computeUsingAnalyticalModel :: "QueueModelHistoryList \<Rightarrow> SubsecondTime result" where
  "computeUsingAnalyticalModel q = MovingAverage_compute (\<lambda>_ _. 0) (hl_average_delay q)"

definition updateAverageDelay :: "SubsecondTime \<Rightarrow> QueueModelHistoryList \<Rightarrow> QueueModelHistoryList result" where
  "updateAverageDelay queue_delay q =
     bindR (MovingAverage_update queue_delay (hl_average_delay q)) (\<lambda>m. Inr (q\<lparr>hl_average_delay := m\<rparr>))"

definition updateQueueUtilization :: "SubsecondTime \<Rightarrow> QueueModelHistoryList \<Rightarrow> QueueModelHistoryList" where
  "updateQueueUtilization processing_time q = q\<lparr>hl_utilized_time := hl_utilized_time q + processing_time\<rparr>"

definition HistoryList_computeQueueDelay ::
  "QueueModelHistoryList \<Rightarrow> SubsecondTime \<Rightarrow> SubsecondTime \<Rightarrow> (SubsecondTime \<times> QueueModelHistoryList) result" where
  "HistoryList_computeQueueDelay q pkt_time processing_time =
     bindR (logAssertR (length (hl_free_interval_list q) \<ge> 1) ''Free Interval list size < 1'') (\<lambda>_.
     bindR (if hl_analytical_model_enabled q \<and> pkt_time + processing_time \<le> fst (hd (hl_free_interval_list q))
            then let q = q\<lparr>hl_total_requests_using_analytical_model := hl_total_requests_using_analytical_model q + 1\<rparr>
                 in bindR (computeUsingAnalyticalModel q) (\<lambda>d. Inr (d, q))
            else bindR (computeUsingHistoryList pkt_time processing_time q) (\<lambda>(d, q).
                 bindR (updateAverageDelay d q) (\<lambda>q. Inr (d, q)))) (\<lambda>(queue_delay, q).
     let q = updateQueueUtilization processing_time q
     in Inr (queue_delay, q\<lparr>hl_total_requests := hl_total_requests q + 1, hl_total_queue_delay := hl_total_queue_delay q + queue_delay\<rparr>)))"

section \<open>The contention model\<close>

definition Contention_computeQueueDelay :: "ContentionModel \<Rightarrow> SubsecondTime \<Rightarrow> SubsecondTime \<Rightarrow> SubsecondTime \<times> ContentionModel" where
  "Contention_computeQueueDelay q pkt_time processing_time =
     (let t_start = pkt_time; t_delay = processing_time
      in case getCompletionTime t_start t_delay 0 q of (t_complete, q) \<Rightarrow> (t_complete - t_start - t_delay, q))"

section \<open>The windowed M/G/1 model\<close>

record QueueModelWindowedMG1 =
  mg_window_size :: SubsecondTime
  mg_total_requests :: UInt64
  mg_total_utilized_time :: SubsecondTime
  mg_total_queue_delay :: SubsecondTime
  mg_window :: "(SubsecondTime \<times> SubsecondTime) list"
  mg_num_arrivals :: UInt64
  mg_service_time_sum :: UInt64
  mg_service_time_sum2 :: UInt64

definition QueueModelWindowedMG1_create :: "UInt64 \<Rightarrow> QueueModelWindowedMG1" where
  "QueueModelWindowedMG1_create window_size_ns =
     \<lparr>mg_window_size = time_in Unit_NS window_size_ns, mg_total_requests = 0, mg_total_utilized_time = 0, mg_total_queue_delay = 0,
      mg_window = [], mg_num_arrivals = 0, mg_service_time_sum = 0, mg_service_time_sum2 = 0\<rparr>"

text \<open>\<^verbatim>\<open>m_window\<close> is a \<^verbatim>\<open>std::multimap\<close>: a list ordered by key, in which a new element goes after the equal ones.\<close>

fun multimap_insert :: "SubsecondTime \<times> SubsecondTime \<Rightarrow> (SubsecondTime \<times> SubsecondTime) list \<Rightarrow> (SubsecondTime \<times> SubsecondTime) list" where
  "multimap_insert x [] = [x]"
| "multimap_insert x (y # ys) = (if fst x < fst y then x # y # ys else y # multimap_insert x ys)"

definition addItem :: "SubsecondTime \<Rightarrow> SubsecondTime \<Rightarrow> QueueModelWindowedMG1 \<Rightarrow> QueueModelWindowedMG1" where
  "addItem pkt_time service_time q =
     (let ps = get_in Unit_PS service_time
      in q\<lparr>mg_window := multimap_insert (pkt_time, service_time) (mg_window q), mg_num_arrivals := mg_num_arrivals q + 1,
           mg_service_time_sum := mg_service_time_sum q + ps, mg_service_time_sum2 := mg_service_time_sum2 q + ps * ps\<rparr>)"

definition drop_item :: "SubsecondTime \<times> SubsecondTime \<Rightarrow> QueueModelWindowedMG1 \<Rightarrow> QueueModelWindowedMG1" where
  "drop_item entry q =
     (let ps = get_in Unit_PS (snd entry)
      in q\<lparr>mg_num_arrivals := mg_num_arrivals q - 1, mg_service_time_sum := mg_service_time_sum q - ps,
           mg_service_time_sum2 := mg_service_time_sum2 q - ps * ps\<rparr>)"

text \<open>The loop of \<^verbatim>\<open>removeItems\<close> takes elements from the front of the window \<open>w\<close>.\<close>

fun remove_front :: "SubsecondTime \<Rightarrow> (SubsecondTime \<times> SubsecondTime) list \<Rightarrow> QueueModelWindowedMG1 \<Rightarrow> QueueModelWindowedMG1" where
  "remove_front earliest_time [] q = q\<lparr>mg_window := []\<rparr>"
| "remove_front earliest_time (entry # w) q =
     (if fst entry < earliest_time then remove_front earliest_time w (drop_item entry q) else q\<lparr>mg_window := entry # w\<rparr>)"

definition removeItems :: "SubsecondTime \<Rightarrow> QueueModelWindowedMG1 \<Rightarrow> QueueModelWindowedMG1" where
  "removeItems earliest_time q = remove_front earliest_time (mg_window q) q"

text \<open>
  \<open>estimate n s e w\<close> is \<^verbatim>\<open>arrival_rate * service_time_Es2 / (2 * (1. - utilization))\<close>, computed in floating point from the number of
  arrivals, the sum of the service times, the integer quotient \<^verbatim>\<open>m_service_time_sum2 / m_num_arrivals\<close> and the window in picoseconds.
\<close>

definition MG1_computeQueueDelay ::
  "(UInt64 \<Rightarrow> UInt64 \<Rightarrow> UInt64 \<Rightarrow> UInt64 \<Rightarrow> UInt64) \<Rightarrow> SubsecondTime \<Rightarrow> QueueModelWindowedMG1 \<Rightarrow> SubsecondTime \<Rightarrow> SubsecondTime \<Rightarrow>
     SubsecondTime \<times> QueueModelWindowedMG1" where
  "MG1_computeQueueDelay estimate global_time q pkt_time processing_time =
     (let q = removeItems (max (global_time - mg_window_size q) (pkt_time - 10 * mg_window_size q)) q;
          t_queue = (if mg_num_arrivals q > 1
                     then let t = time_in Unit_PS (estimate (mg_num_arrivals q) (mg_service_time_sum q)
                                    (mg_service_time_sum2 q div mg_num_arrivals q) (get_in Unit_PS (mg_window_size q)))
                          in if t > mg_window_size q then mg_window_size q else t
                     else 0);
          q = addItem pkt_time processing_time q
      in (t_queue, q\<lparr>mg_total_requests := mg_total_requests q + 1, mg_total_utilized_time := mg_total_utilized_time q + processing_time,
                     mg_total_queue_delay := mg_total_queue_delay q + t_queue\<rparr>))"

section \<open>The class of queue models\<close>

datatype QueueModel = QM_Basic QueueModelBasic | QM_HistoryList QueueModelHistoryList | QM_Contention ContentionModel
  | QM_WindowedMG1 QueueModelWindowedMG1

text \<open>The configuration entries that \<^verbatim>\<open>QueueModel::create\<close> and the constructors read.\<close>

record queue_config =
  qc_moving_avg_enabled :: bool
  qc_moving_avg_window_size :: UInt32
  qc_moving_avg_type :: string
  qc_analytical_model_enabled :: bool
  qc_max_list_size :: UInt32
  qc_window_size :: UInt64

definition QueueModel_create :: "queue_config \<Rightarrow> string \<Rightarrow> SubsecondTime \<Rightarrow> QueueModel result" where
  "QueueModel_create cfg model_type min_processing_time =
     (if model_type = ''basic''
      then bindR (QueueModelBasic_create (qc_moving_avg_enabled cfg) (qc_moving_avg_window_size cfg) (qc_moving_avg_type cfg)) (\<lambda>q. Inr (QM_Basic q))
      else if model_type = ''history_list''
      then Inr (QM_HistoryList (QueueModelHistoryList_create (qc_analytical_model_enabled cfg) (qc_max_list_size cfg) min_processing_time))
      else if model_type = ''contention'' then Inr (QM_Contention (ContentionModel_create 1))
      else if model_type = ''windowed_mg1'' then Inr (QM_WindowedMG1 (QueueModelWindowedMG1_create (qc_window_size cfg)))
      else Inl (LogError ''Unrecognized Queue Model Type''))"

text \<open>What the models take from outside: \<^verbatim>\<open>pow\<close>, the M/G/1 estimate and the global time.\<close>

record queue_env =
  qe_pow :: "UInt64 \<Rightarrow> UInt32 \<Rightarrow> UInt64"
  qe_estimate :: "UInt64 \<Rightarrow> UInt64 \<Rightarrow> UInt64 \<Rightarrow> UInt64 \<Rightarrow> UInt64"
  qe_global_time :: SubsecondTime

definition computeQueueDelay :: "queue_env \<Rightarrow> QueueModel \<Rightarrow> SubsecondTime \<Rightarrow> SubsecondTime \<Rightarrow> (SubsecondTime \<times> QueueModel) result" where
  "computeQueueDelay env qm pkt_time processing_time =
     (case qm of
        QM_Basic q \<Rightarrow> bindR (Basic_computeQueueDelay (qe_pow env) q pkt_time processing_time) (\<lambda>(d, q). Inr (d, QM_Basic q))
      | QM_HistoryList q \<Rightarrow> bindR (HistoryList_computeQueueDelay q pkt_time processing_time) (\<lambda>(d, q). Inr (d, QM_HistoryList q))
      | QM_Contention q \<Rightarrow> (case Contention_computeQueueDelay q pkt_time processing_time of (d, q) \<Rightarrow> Inr (d, QM_Contention q))
      | QM_WindowedMG1 q \<Rightarrow>
          (case MG1_computeQueueDelay (qe_estimate env) (qe_global_time env) q pkt_time processing_time of
             (d, q) \<Rightarrow> Inr (d, QM_WindowedMG1 q)))"

section \<open>One server at a time\<close>

text \<open>
  The instants in which requests are served, for a sequence of requests \<open>(pkt_time, processing_time)\<close>.
\<close>

definition slot :: "SubsecondTime \<Rightarrow> SubsecondTime \<Rightarrow> SubsecondTime \<Rightarrow> nat set" where
  "slot t d p = {unat t + unat d ..< unat t + unat d + unat p}"

fun slots :: "('q \<Rightarrow> SubsecondTime \<Rightarrow> SubsecondTime \<Rightarrow> (SubsecondTime \<times> 'q) result) \<Rightarrow> 'q \<Rightarrow> (SubsecondTime \<times> SubsecondTime) list \<Rightarrow>
    (nat \<times> nat) list result" where
  "slots request q [] = Inr []"
| "slots request q ((t, p) # rs) =
     bindR (request q t p) (\<lambda>(d, q).
     bindR (slots request q rs) (\<lambda>ss. Inr ((unat t + unat d, unat t + unat d + unat p) # ss)))"

definition disjoint_slots :: "(nat \<times> nat) list \<Rightarrow> bool" where
  "disjoint_slots ss = sorted_wrt (\<lambda>a b. {fst a..<snd a} \<inter> {fst b..<snd b} = {}) ss"

text \<open>
  A model of a single server: \<open>free q\<close> are the instants that are still free, \<open>inv x q\<close> that nothing is booked after \<open>x\<close>
  and all is well, \<open>fits q p\<close> that the model accepts requests of length \<open>p\<close>.
\<close>

locale single_server =
  fixes request :: "'q \<Rightarrow> SubsecondTime \<Rightarrow> SubsecondTime \<Rightarrow> (SubsecondTime \<times> 'q) result"
    and free :: "'q \<Rightarrow> nat set"
    and inv :: "nat \<Rightarrow> 'q \<Rightarrow> bool"
    and fits :: "'q \<Rightarrow> nat \<Rightarrow> bool"
    and horizon :: "'q \<Rightarrow> nat"
  assumes serve: "inv x q \<Longrightarrow> fits q (unat p) \<Longrightarrow> unat t \<le> x \<Longrightarrow> x + unat p \<le> horizon q \<Longrightarrow>
      \<exists>d q'. request q t p = Inr (d, q') \<and> inv (x + unat p) q' \<and> fits q' = fits q \<and> horizon q' = horizon q
        \<and> slot t d p \<subseteq> free q \<and> free q' \<subseteq> free q - slot t d p"
begin

lemma slots_free:
  assumes "inv x q" "\<forall>(t, p) \<in> set rs. fits q (unat p) \<and> unat t \<le> x" "x + (\<Sum>(t, p)\<leftarrow>rs. unat p) \<le> horizon q"
  shows "\<exists>ss. slots request q rs = Inr ss \<and> disjoint_slots ss \<and> (\<forall>s \<in> set ss. {fst s..<snd s} \<subseteq> free q)"
  using assms
proof (induction rs arbitrary: x q)
  case (Cons r rs)
  obtain t p where r: "r = (t, p)" by (cases r)
  obtain d q' where s: "request q t p = Inr (d, q')" "inv (x + unat p) q'" "fits q' = fits q" "horizon q' = horizon q"
    "slot t d p \<subseteq> free q" "free q' \<subseteq> free q - slot t d p"
    using serve [OF Cons.prems(1), of p t] Cons.prems(2,3) by (auto simp: r)
  obtain ss where ss: "slots request q' rs = Inr ss" "disjoint_slots ss" "\<forall>s \<in> set ss. {fst s..<snd s} \<subseteq> free q'"
    using Cons.IH [OF s(2)] Cons.prems(2,3) s(3,4) by (fastforce simp: r)
  have "slot t d p \<inter> {fst a..<snd a} = {}" if "a \<in> set ss" for a using ss(3) s(6) that by blast
  with s ss show ?case by (auto simp: r disjoint_slots_def slot_def)
qed (simp add: disjoint_slots_def)

end

text \<open>The basic model without a moving average is a server with one queue.\<close>

definition basic_inv :: "nat \<Rightarrow> QueueModelBasic \<Rightarrow> bool" where
  "basic_inv x q \<longleftrightarrow> qb_moving_average q = None \<and> unat (qb_queue_time q) \<le> x"

interpretation basic: single_server "Basic_computeQueueDelay pow" "\<lambda>q. {unat (qb_queue_time q)..}" basic_inv "\<lambda>_ _. True" "\<lambda>_. 2 ^ 64 - 1"
proof unfold_locales
  fix x :: nat and q :: QueueModelBasic and p t :: SubsecondTime
  assume a: "basic_inv x q" "unat t \<le> x" "x + unat p \<le> 2 ^ 64 - 1"
  let ?Q = "qb_queue_time q"
  define d where "d = (if ?Q > t then ?Q - t else 0)"
  have "unat t + unat d = max (unat ?Q) (unat t)" by (simp add: d_def unat_sub max_def word_less_nat_alt less_imp_le)
  moreover have "unat (max ?Q t) = max (unat ?Q) (unat t)" by (simp add: max_def word_le_nat_alt)
  moreover from this have "unat (max ?Q t + p) = max (unat ?Q) (unat t) + unat p"
    using a by (subst unat_add_lem [THEN iffD1]) (auto simp: basic_inv_def)
  moreover have "Basic_computeQueueDelay pow q t p = Inr (d, q\<lparr>qb_queue_time := max ?Q t + p\<rparr>)"
    using a(1) by (simp add: Basic_computeQueueDelay_def basic_inv_def d_def Let_def)
  ultimately show "\<exists>d q'. Basic_computeQueueDelay pow q t p = Inr (d, q') \<and> basic_inv (x + unat p) q'
      \<and> (\<lambda>_. True) = (\<lambda>_. True) \<and> 2 ^ 64 - 1 = 2 ^ 64 - (1::nat)
      \<and> slot t d p \<subseteq> {unat (qb_queue_time q)..} \<and> {unat (qb_queue_time q')..} \<subseteq> {unat (qb_queue_time q)..} - slot t d p"
    using a by (auto simp: slot_def basic_inv_def)
qed

section \<open>The free intervals of the history list\<close>

definition iset :: "(SubsecondTime \<times> SubsecondTime) list \<Rightarrow> nat set" where
  "iset l = (\<Union>iv \<in> set l. {unat (fst iv) ..< unat (snd iv)})"

definition intervals_ok :: "nat \<Rightarrow> (SubsecondTime \<times> SubsecondTime) list \<Rightarrow> bool" where
  "intervals_ok m l \<longleftrightarrow> (\<forall>iv \<in> set l. unat (fst iv) + m \<le> unat (snd iv)) \<and> sorted_wrt (\<lambda>i j. unat (snd i) \<le> unat (fst j)) l"

definition open_end :: "nat \<Rightarrow> (SubsecondTime \<times> SubsecondTime) list \<Rightarrow> bool" where
  "open_end x l \<longleftrightarrow> l \<noteq> [] \<and> unat (snd (last l)) = 2 ^ 63 \<and> unat (fst (last l)) \<le> x"

lemma iset_simps [simp]: "iset [] = {}" "iset (iv # l) = {unat (fst iv) ..< unat (snd iv)} \<union> iset l" "iset (l @ l') = iset l \<union> iset l'"
  by (auto simp: iset_def)

lemma intervals_Cons:
  "intervals_ok m (iv # l) \<longleftrightarrow> unat (fst iv) + m \<le> unat (snd iv) \<and> (\<forall>j \<in> set l. unat (snd iv) \<le> unat (fst j)) \<and> intervals_ok m l"
  by (auto simp: intervals_ok_def)

lemma iset_above: "(\<forall>j \<in> set l. y \<le> unat (fst j)) \<Longrightarrow> i \<in> iset l \<Longrightarrow> y \<le> i"
  by (auto simp: iset_def)

text \<open>What one step of the search leaves behind.\<close>

definition booked :: "nat \<Rightarrow> nat \<Rightarrow> SubsecondTime \<Rightarrow> SubsecondTime \<Rightarrow> (SubsecondTime \<times> SubsecondTime) list \<Rightarrow> SubsecondTime \<Rightarrow>
    (SubsecondTime \<times> SubsecondTime) list \<Rightarrow> bool" where
  "booked m x t p l d l' \<longleftrightarrow> d \<noteq> MaxTime \<and> intervals_ok m l' \<and> open_end (x + unat p) l' \<and> length l' \<le> Suc (length l)
     \<and> slot t d p \<subseteq> iset l \<and> iset l' \<subseteq> iset l - slot t d p \<and> (\<forall>y. (\<forall>j \<in> set l. y \<le> unat (fst j)) \<longrightarrow> (\<forall>j \<in> set l'. y \<le> unat (fst j)))"

lemma booked_Cons:
  assumes "booked m x t p l d l'" "intervals_ok m (iv # l)"
  shows "booked m x t p (iv # l) d (iv # l')"
proof -
  have iv: "unat (fst iv) + m \<le> unat (snd iv)" "\<forall>j \<in> set l. unat (snd iv) \<le> unat (fst j)" using assms(2) by (simp_all add: intervals_Cons)
  have l': "\<forall>j \<in> set l'. unat (snd iv) \<le> unat (fst j)" using assms(1) iv(2) by (auto simp: booked_def)
  have "unat (snd iv) \<le> i" if "i \<in> slot t d p" for i using that assms(1) iset_above [OF iv(2)] by (auto simp: booked_def)
  then have "{unat (fst iv) ..< unat (snd iv)} \<inter> slot t d p = {}" by fastforce
  with assms(1) iv l' show ?thesis by (auto simp: booked_def intervals_Cons open_end_def)
qed


lemma unat_time: "unat (t :: SubsecondTime) < 18446744073709551616"
  by (rule order_less_le_trans [OF unsigned_less]) simp

lemma open_end_append: "open_end x rest \<Longrightarrow> open_end (x + y) (l @ rest)"
  by (auto simp: open_end_def)

lemma open_end_Cons: "open_end x (iv # rest) \<Longrightarrow> rest \<noteq> [] \<Longrightarrow> open_end x rest"
  by (simp add: open_end_def)

lemma booked_inside:
  assumes "intervals_ok m ((a, b) # rest)" "open_end x ((a, b) # rest)" "unat a \<le> unat t" "unat t + unat p \<le> unat b"
    "unat t \<le> x" "x + unat p + m \<le> 2 ^ 63"
  shows "booked m x t p ((a, b) # rest) 0
    ((if m \<le> unat t - unat a then [(a, t)] else []) @ (if m \<le> unat b - (unat t + unat p) then [(t + p, b)] else []) @ rest)"
    (is "booked m x t p _ 0 (?A @ ?B @ rest)")
proof -
  have tp: "unat (t + p) = unat t + unat p" using assms(5,6) by (subst unat_add_lem [THEN iffD1]) simp_all
  have r: "\<forall>j \<in> set rest. unat b \<le> unat (fst j)" "intervals_ok m rest" using assms(1) by (simp_all add: intervals_Cons)
  have "open_end (x + unat p) (?A @ ?B @ rest)"
  proof (cases "rest = []")
    case True
    then have "unat b = 2 ^ 63" using assms(2) by (simp add: open_end_def)
    then show ?thesis using assms(5,6) tp True by (auto simp: open_end_def)
  next
    case False
    then show ?thesis using open_end_append [OF open_end_Cons [OF assms(2)], of "unat p" "?A @ ?B"] by simp
  qed
  moreover have "intervals_ok m (?A @ ?B @ rest)" using assms r tp by (auto simp: intervals_Cons)
  moreover have "slot t 0 p \<subseteq> iset ((a, b) # rest)" using assms by (auto simp: slot_def)
  moreover have "iset (?A @ ?B @ rest) \<subseteq> iset ((a, b) # rest) - slot t 0 p"
    using assms(3-5) tp by (auto simp: slot_def dest: iset_above [OF r(1)])
  ultimately show ?thesis using assms tp by (auto simp: booked_def)
qed

lemma booked_before:
  assumes "intervals_ok m ((a, b) # rest)" "open_end x ((a, b) # rest)" "unat t < unat a" "unat p \<le> m" "x + unat p + m \<le> 2 ^ 63"
  shows "booked m x t p ((a, b) # rest) (a - t) ((if m \<le> unat b - (unat a + unat p) then [(a + p, b)] else []) @ rest)"
    (is "booked m x t p _ _ (?B @ rest)")
proof -
  have ab: "unat a + m \<le> unat b" and r: "\<forall>j \<in> set rest. unat b \<le> unat (fst j)" "intervals_ok m rest"
    using assms(1) by (simp_all add: intervals_Cons)
  have ap: "unat (a + p) = unat a + unat p"
    using ab assms(4) unat_time [of b] by (subst unat_add_lem [THEN iffD1]) simp_all
  have d: "unat (a - t) = unat a - unat t" using assms(3) by (simp add: unat_sub word_le_nat_alt)
  have ax: "unat a \<le> 2 ^ 63"
  proof (cases "rest = []")
    case False
    then have "unat b \<le> unat (fst (last rest))" "unat (fst (last rest)) \<le> x" using r(1) assms(2) by (simp_all add: open_end_def)
    then show ?thesis using ab assms(5) by simp
  qed (use assms(2) ab in \<open>simp add: open_end_def\<close>)
  have "open_end (x + unat p) (?B @ rest)"
  proof (cases "rest = []")
    case True
    then have "unat b = 2 ^ 63" "unat a \<le> x" using assms(2) by (simp_all add: open_end_def)
    then show ?thesis using assms(5) ap True by (auto simp: open_end_def)
  next
    case False
    then show ?thesis using open_end_append [OF open_end_Cons [OF assms(2)], of "unat p" ?B] by simp
  qed
  moreover have "intervals_ok m (?B @ rest)" using ab r ap assms(4) by (auto simp: intervals_Cons)
  moreover have "slot t (a - t) p \<subseteq> iset ((a, b) # rest)" using assms(3,4) ab d by (auto simp: slot_def)
  moreover have "iset (?B @ rest) \<subseteq> iset ((a, b) # rest) - slot t (a - t) p"
    using assms(3,4) ab ap d by (auto simp: slot_def dest: iset_above [OF r(1)])
  moreover have "a - t \<noteq> MaxTime" using d ax by (auto simp: word_unat_eq_iff)
  ultimately show ?thesis using ap by (auto simp: booked_def)
qed

lemma hl_search_booked:
  assumes "intervals_ok (unat m) l" "open_end x l" "unat p \<le> unat m" "unat t \<le> x" "x + unat p + unat m \<le> 2 ^ 63"
  shows "\<exists>d l'. hl_search m t p l = Some (d, l') \<and> booked (unat m) x t p l d l'"
  using assms(1,2)
proof (induction l)
  case (Cons iv rest)
  obtain a b where iv: "iv = (a, b)" by (cases iv)
  have tp: "unat (t + p) = unat t + unat p" using assms(4,5) by (subst unat_add_lem [THEN iffD1]) simp_all
  consider "a \<le> t \<and> t + p \<le> b" | "t < a" | "a \<le> t" "b < t + p" by fastforce
  then show ?case
  proof cases
    case 1
    then have "unat a \<le> unat t" "unat t + unat p \<le> unat b" using tp by (simp_all add: word_le_nat_alt)
    from booked_inside [OF Cons.prems [unfolded iv] this assms(4,5)]
    show ?thesis using 1 tp by (simp add: iv word_le_nat_alt unat_sub)
  next
    case 2
    then have ta: "unat t < unat a" by (simp add: word_less_nat_alt)
    have "unat a + unat m \<le> unat b" using Cons.prems(1) by (simp add: iv intervals_Cons)
    moreover from this have ap: "unat (a + p) = unat a + unat p"
      using assms(3) unat_time [of b] by (subst unat_add_lem [THEN iffD1]) simp_all
    ultimately have apb: "a + p \<le> b" using assms(3) by (simp add: word_le_nat_alt)
    from booked_before [OF Cons.prems [unfolded iv] ta assms(3,5)]
    show ?thesis using 2 ta ap apb by (auto simp: iv word_le_nat_alt unat_sub)
  next
    case 3
    have "rest \<noteq> []"
    proof
      assume "rest = []"
      then have "unat b = 2 ^ 63" using Cons.prems(2) by (simp add: iv open_end_def)
      then show False using 3(2) tp assms(4,5) by (simp add: word_less_nat_alt)
    qed
    then obtain d l' where "hl_search m t p rest = Some (d, l')" "booked (unat m) x t p rest d l'"
      using Cons.IH Cons.prems open_end_Cons by (auto simp: intervals_Cons)
    then show ?thesis using 3 booked_Cons [OF _ Cons.prems(1)] by (auto simp: iv)
  qed
qed (simp add: open_end_def)

lemma trimmed:
  assumes "intervals_ok m l" "open_end x l" "1 < length l"
  shows "intervals_ok m (tl l)" "open_end x (tl l)" "iset (tl l) \<subseteq> iset l"
  using assms by (cases l; auto simp: intervals_Cons open_end_def)+

definition hl_inv :: "nat \<Rightarrow> QueueModelHistoryList \<Rightarrow> bool" where
  "hl_inv x q \<longleftrightarrow> \<not> hl_analytical_model_enabled q \<and> unat (hl_min_processing_time q) \<le> 2 ^ 63
     \<and> 0 < unat (hl_max_free_interval_list_size q) \<and> length (hl_free_interval_list q) \<le> unat (hl_max_free_interval_list_size q)
     \<and> intervals_ok (unat (hl_min_processing_time q)) (hl_free_interval_list q) \<and> open_end x (hl_free_interval_list q)
     \<and> ma_inv (hl_average_delay q)"

lemma history_list_serves:
  assumes "hl_inv x q" "unat p \<le> unat (hl_min_processing_time q)" "unat t \<le> x" "x + unat p \<le> 2 ^ 63 - unat (hl_min_processing_time q)"
  shows "\<exists>d q'. HistoryList_computeQueueDelay q t p = Inr (d, q') \<and> hl_inv (x + unat p) q'
    \<and> hl_min_processing_time q' = hl_min_processing_time q
    \<and> slot t d p \<subseteq> iset (hl_free_interval_list q) \<and> iset (hl_free_interval_list q') \<subseteq> iset (hl_free_interval_list q) - slot t d p"
proof -
  let ?m = "hl_min_processing_time q" and ?n = "unat (hl_max_free_interval_list_size q)" and ?l = "hl_free_interval_list q"
  have i: "intervals_ok (unat ?m) ?l" "open_end x ?l" "unat ?m \<le> 2 ^ 63" "0 < ?n" "length ?l \<le> ?n" "ma_inv (hl_average_delay q)"
    "\<not> hl_analytical_model_enabled q"
    using assms(1) by (simp_all add: hl_inv_def)
  have ne: "Suc 0 \<le> length ?l" using i(2) by (cases ?l) (simp_all add: open_end_def)
  have lim: "x + unat p + unat ?m \<le> 2 ^ 63" using assms(4) i(3) by linarith
  obtain d l' where s: "hl_search ?m t p ?l = Some (d, l')" "booked (unat ?m) x t p ?l d l'"
    using hl_search_booked [OF i(1,2) assms(2,3) lim] by blast
  obtain m' where m': "MovingAverage_update d (hl_average_delay q) = Inr m'" "ma_inv m'" using update_slides [OF i(6)] by blast
  define l where "l = (if length l' > ?n then tl l' else l')"
  have len: "length l \<le> ?n" using s(2) i(5) by (auto simp: l_def booked_def)
  have l: "intervals_ok (unat ?m) l" "open_end (x + unat p) l" "iset l \<subseteq> iset l'"
    using s(2) i(4) trimmed [of "unat ?m" l' "x + unat p"] by (auto simp: l_def booked_def)
  define q' where "q' = q\<lparr>hl_free_interval_list := l, hl_average_delay := m', hl_utilized_time := hl_utilized_time q + p,
      hl_total_requests := hl_total_requests q + 1, hl_total_queue_delay := hl_total_queue_delay q + d\<rparr>"
  have "HistoryList_computeQueueDelay q t p = Inr (d, q')"
    using s m' i(5,7) ne
    by (simp add: HistoryList_computeQueueDelay_def computeUsingHistoryList_def updateAverageDelay_def updateQueueUtilization_def
        booked_def l_def q'_def)
  moreover have "hl_inv (x + unat p) q'" using i l len m' by (simp add: hl_inv_def q'_def)
  moreover have "slot t d p \<subseteq> iset ?l" "iset l \<subseteq> iset ?l - slot t d p" using s(2) l(3) by (auto simp: booked_def)
  ultimately show ?thesis by (auto simp: q'_def)
qed

interpretation history: single_server HistoryList_computeQueueDelay "\<lambda>q. iset (hl_free_interval_list q)" hl_inv
  "\<lambda>q p. p \<le> unat (hl_min_processing_time q)" "\<lambda>q. 2 ^ 63 - unat (hl_min_processing_time q)"
  by unfold_locales (use history_list_serves in fastforce)

lemma hl_create_inv:
  assumes "0 < unat n" "unat n < 2 ^ 31 - 1" "unat m \<le> 2 ^ 63"
  shows "hl_inv x (QueueModelHistoryList_create False n m)"
proof -
  have p: "unat (push_bit 63 1 :: SubsecondTime) = 2 ^ 63" by (simp add: push_bit_eq_mult)
  show ?thesis using assms create_ma_inv [OF assms(1,2), of ARITHMETIC_MEAN]
    by (simp add: hl_inv_def QueueModelHistoryList_create_def Let_def intervals_ok_def open_end_def p)
qed

section \<open>The window of the M/G/1 model\<close>

definition mg_inv :: "QueueModelWindowedMG1 \<Rightarrow> bool" where
  "mg_inv q \<longleftrightarrow> mg_num_arrivals q = of_nat (length (mg_window q))
     \<and> mg_service_time_sum q = (\<Sum>e\<leftarrow>mg_window q. get_in Unit_PS (snd e))
     \<and> mg_service_time_sum2 q = (\<Sum>e\<leftarrow>mg_window q. get_in Unit_PS (snd e) * get_in Unit_PS (snd e))
     \<and> sorted (map fst (mg_window q))"

lemma multimap_insert_facts:
  "length (multimap_insert x w) = Suc (length w)" "set (multimap_insert x w) = insert x (set w)"
  "(\<Sum>e\<leftarrow>multimap_insert x w. f e) = f x + (\<Sum>e\<leftarrow>w. f e :: 'a::comm_monoid_add)"
  by (induction w) (auto simp: ac_simps)

lemma multimap_insert_sorted: "sorted (map fst w) \<Longrightarrow> sorted (map fst (multimap_insert x w))"
  by (induction w) (auto simp: multimap_insert_facts)

lemma remove_front_window:
  "mg_window (remove_front e w q) = dropWhile (\<lambda>i. fst i < e) w" "mg_window_size (remove_front e w q) = mg_window_size q"
  by (induction w arbitrary: q) (simp_all add: drop_item_def Let_def)

lemma remove_front_inv: "mg_inv (q\<lparr>mg_window := w\<rparr>) \<Longrightarrow> mg_inv (remove_front e w q)"
proof (induction w arbitrary: q)
  case (Cons i w)
  have "mg_inv ((drop_item i q)\<lparr>mg_window := w\<rparr>)" using Cons.prems by (simp add: mg_inv_def drop_item_def Let_def)
  with Cons show ?case by simp
qed simp

lemma mg_step:
  assumes "mg_inv q"
  shows "mg_inv (snd (MG1_computeQueueDelay est g q t p))"
    "fst (MG1_computeQueueDelay est g q t p) \<le> mg_window_size q"
    "mg_window (snd (MG1_computeQueueDelay est g q t p)) =
       multimap_insert (t, p) (dropWhile (\<lambda>i. fst i < max (g - mg_window_size q) (t - 10 * mg_window_size q)) (mg_window q))"
proof -
  let ?e = "max (g - mg_window_size q) (t - 10 * mg_window_size q)"
  have r: "mg_inv (removeItems ?e q)" unfolding removeItems_def by (rule remove_front_inv) (use assms in \<open>simp add: mg_inv_def\<close>)
  then have "mg_inv (addItem t p (removeItems ?e q))"
    by (simp add: mg_inv_def addItem_def Let_def multimap_insert_facts multimap_insert_sorted ac_simps)
  then show "mg_inv (snd (MG1_computeQueueDelay est g q t p))" by (simp add: MG1_computeQueueDelay_def Let_def mg_inv_def)
  show "fst (MG1_computeQueueDelay est g q t p) \<le> mg_window_size q"
    by (simp add: MG1_computeQueueDelay_def Let_def removeItems_def remove_front_window not_less)
  show "mg_window (snd (MG1_computeQueueDelay est g q t p)) = multimap_insert (t, p) (dropWhile (\<lambda>i. fst i < ?e) (mg_window q))"
    by (simp add: MG1_computeQueueDelay_def Let_def addItem_def removeItems_def remove_front_window)
qed

section \<open>Properties\<close>

text \<open>
  C14: With the analytical model disabled the history list books no instant twice, as long as no request takes longer than the minimal processing time
  the model was built for. A fresh model with room for at least one interval then answers every sequence of requests, in any order of arrival times, whose
  latest arrival plus total processing time stays below its horizon of 2^63 femtoseconds; the time slots in which the
  requests are served are pairwise disjoint. A longer request can be booked over another one.
\<close>

theorem history_list_no_double_booking:
  assumes "0 < unat n" "unat n < 2 ^ 31 - 1" "\<forall>(t, p) \<in> set rs. p \<le> m \<and> unat t \<le> x"
    "x + (\<Sum>(t, p)\<leftarrow>rs. unat p) + unat m \<le> 2 ^ 63"
  shows "\<exists>ss. slots HistoryList_computeQueueDelay (QueueModelHistoryList_create False n m) rs = Inr ss
    \<and> sorted_wrt (\<lambda>a b. {fst a..<snd a} \<inter> {fst b..<snd b} = {}) ss"
proof -
  let ?q = "QueueModelHistoryList_create False n m"
  have q: "hl_min_processing_time ?q = m" by (simp add: QueueModelHistoryList_create_def Let_def)
  have "hl_inv x ?q" by (rule hl_create_inv) (use assms in simp_all)
  moreover have "\<forall>(t, p) \<in> set rs. unat p \<le> unat (hl_min_processing_time ?q) \<and> unat t \<le> x"
    using assms(3) by (auto simp: q word_le_nat_alt)
  moreover have "x + (\<Sum>(t, p)\<leftarrow>rs. unat p) \<le> 2 ^ 63 - unat (hl_min_processing_time ?q)" using assms(4) by (simp add: q)
  ultimately show ?thesis using history.slots_free [of x ?q rs] by (auto simp: disjoint_slots_def)
qed

theorem history_list_no_double_booking_witness:
  "\<exists>ss. slots HistoryList_computeQueueDelay (QueueModelHistoryList_create False 4 10) [(100, 10), (100, 10), (95, 10)] = Inr ss
   \<and> ss = [(100, 110), (110, 120), (120, 130)] \<and> sorted_wrt (\<lambda>a b. {fst a..<snd a} \<inter> {fst b..<snd b} = {}) ss"
proof -
  have "slots HistoryList_computeQueueDelay (QueueModelHistoryList_create False 4 10) [(100, 10), (100, 10), (95, 10)]
      = Inr [(100, 110), (110, 120), (120, 130)]" by code_simp
  with history_list_no_double_booking [of 4 "[(100, 10), (100, 10), (95, 10)]" 10 100] show ?thesis by auto
qed

text \<open>
  A request longer than the minimal processing time is booked over later requests. After requests at 0 and at 100, a request of
  length 60 at time 40 is given the slot from 50 to 110 although only 50 to 100 is free, and since the length of the remainder wraps around
  the reversed interval from 110 to 100 is put on the list of free intervals.
\<close>

theorem history_list_overbooks:
  "slots HistoryList_computeQueueDelay (QueueModelHistoryList_create False 8 10) [(0, 50), (100, 10), (40, 60)]
     = Inr [(0, 50), (100, 110), (50, 110)]
   \<and> bindR (computeUsingHistoryList 40 60 (QueueModelHistoryList_create False 8 10\<lparr>hl_free_interval_list := [(50, 100), (110, push_bit 63 1)]\<rparr>))
       (\<lambda>(d, q). Inr (hl_free_interval_list q)) = Inr [(110, 100), (110, push_bit 63 1)]"
  by code_simp

text \<open>
  The windowed M/G/1 model keeps its books: the number of arrivals and the two sums it estimates from are those of the requests
  in its window, modulo 2^64, the window is ordered by time, and the delay it returns is never more than the window.
\<close>

theorem mg1_window_accounts:
  assumes "mg_inv q"
  shows "mg_inv (snd (MG1_computeQueueDelay est g q t p)) \<and> fst (MG1_computeQueueDelay est g q t p) \<le> mg_window_size q
    \<and> set (mg_window (snd (MG1_computeQueueDelay est g q t p)))
      = insert (t, p) {i \<in> set (mg_window q). max (g - mg_window_size q) (t - 10 * mg_window_size q) \<le> fst i}"
proof -
  let ?e = "max (g - mg_window_size q) (t - 10 * mg_window_size q)"
  have "sorted (map fst w) \<Longrightarrow> set (dropWhile (\<lambda>i. fst i < e) w) = {i \<in> set w. e \<le> fst i}"
    for w :: "(SubsecondTime \<times> SubsecondTime) list" and e by (induction w) (auto simp: not_less)
  then show ?thesis using mg_step [OF assms, of est g t p] assms by (simp add: multimap_insert_facts mg_inv_def)
qed

text \<open>
  At the start of a simulation the windowed M/G/1 model is blind. As long as the global time is smaller than the window, or the
  time of the request smaller than ten windows, one of the subtractions that advance the window wraps around: every earlier request
  is thrown away and the delay is zero, whatever the load.
\<close>

theorem mg1_blind_at_start:
  assumes "mg_inv q" "unat g < unat (mg_window_size q) \<or> unat t < 10 * unat (mg_window_size q)" "10 * unat (mg_window_size q) \<le> 2 ^ 63"
    "\<forall>i \<in> set (mg_window q). unat (fst i) < 2 ^ 63"
  shows "fst (MG1_computeQueueDelay est g q t p) = 0 \<and> mg_window (snd (MG1_computeQueueDelay est g q t p)) = [(t, p)]"
proof -
  let ?w = "mg_window_size q"
  let ?e = "max (g - ?w) (t - 10 * ?w)"
  have w10: "unat (10 * ?w) = 10 * unat ?w" using assms(3) by (subst unat_mult_lem [THEN iffD1]) simp_all
  have sub: "2 ^ 63 \<le> unat (a - b)" if "unat a < unat b" "unat b \<le> 2 ^ 63" for a b :: SubsecondTime
    using that by (simp add: unat_sub_if')
  have "2 ^ 63 \<le> unat (g - ?w) \<or> 2 ^ 63 \<le> unat (t - 10 * ?w)" using sub [of g ?w] sub [of t "10 * ?w"] assms(2,3) w10 by auto
  moreover have "unat (g - ?w) \<le> unat ?e" "unat (t - 10 * ?w) \<le> unat ?e" by (simp_all add: word_le_nat_alt [symmetric])
  ultimately have "2 ^ 63 \<le> unat ?e" by (meson order_trans)
  then have e: "fst i < ?e" if "i \<in> set (mg_window q)" for i using assms(4) that by (simp only: word_less_nat_alt) fastforce
  then have d: "dropWhile (\<lambda>i. fst i < ?e) (mg_window q) = []" by (auto simp: dropWhile_eq_Nil_conv)
  have "mg_inv (removeItems ?e q)" unfolding removeItems_def by (rule remove_front_inv) (use assms(1) in \<open>simp add: mg_inv_def\<close>)
  then have "mg_num_arrivals (removeItems ?e q) = 0" using d by (simp add: mg_inv_def removeItems_def remove_front_window)
  then show ?thesis using mg_step(3) [OF assms(1), of est g t p] d by (simp add: MG1_computeQueueDelay_def Let_def)
qed

definition example_mg1 :: QueueModelWindowedMG1 where
  "example_mg1 = addItem 100 2000 (addItem 50 1000 (QueueModelWindowedMG1_create 1))"

lemma example_mg1: "mg_inv example_mg1" "mg_window_size example_mg1 = 1000000" "mg_window example_mg1 = [(50, 1000), (100, 2000)]"
  by (simp_all add: mg_inv_def example_mg1_def addItem_def QueueModelWindowedMG1_create_def Let_def time_in_def get_in_def unit_time_values)

theorem mg1_window_accounts_witness:
  "mg_inv (snd (MG1_computeQueueDelay (\<lambda>n s e w. e) 1000060 example_mg1 10000080 500))
   \<and> set (mg_window (snd (MG1_computeQueueDelay (\<lambda>n s e w. e) 1000060 example_mg1 10000080 500))) = {(100, 2000), (10000080, 500)}"
proof -
  have "{i. (i = (50, 1000) \<or> i = (100, 2000)) \<and> 80 \<le> fst i} = {(100, 2000 :: SubsecondTime) :: SubsecondTime \<times> SubsecondTime}" by auto
  then show ?thesis
    using mg1_window_accounts [OF example_mg1(1), of "\<lambda>n s e w. e" 1000060 10000080 500] by (simp add: example_mg1 insert_commute)
qed

theorem mg1_blind_at_start_witness:
  "fst (MG1_computeQueueDelay (\<lambda>n s e w. 1000) 2000000 example_mg1 9000000 500) = 0"
  using mg1_blind_at_start [OF example_mg1(1), of 2000000 9000000 "\<lambda>n s e w. 1000" 500] by (simp add: example_mg1)

end
