(* ===== verification/Nuca_Cache.thy ===== *)
theory Nuca_Cache
  imports Cache_Model Queue_Model
begin

text \<open>
  The NUCA slice \<^verbatim>\<open>parametric_dram_directory_msi/nuca_cache.cc\<close> that sits between the directory and DRAM: a
  \<^verbatim>\<open>Cache\<close> with access times and, when it is enabled, a queue model for the data array. What the n-th call of the
  queue model takes from outside (the global time, floating-point results) is \<open>nu_queue_env n\<close>.
  The statistics of \<^verbatim>\<open>ShmemPerf\<close> are outside the model.
\<close>

record NucaCache =
  nu_cache :: Cache
  nu_cache_block_size :: UInt32
  nu_data_access_time :: UInt64
  nu_tags_access_time :: UInt64
  nu_data_array_bandwidth :: UInt64
  nu_queue_model :: "QueueModel option"
  nu_queue_env :: "nat \<Rightarrow> queue_env"
  nu_queue_calls :: nat
  nu_reads :: UInt64
  nu_writes :: UInt64
  nu_read_misses :: UInt64
  nu_write_misses :: UInt64

text \<open>The bandwidth of the data array is in bits per microsecond, as in \<^verbatim>\<open>ComponentBandwidth\<close>.\<close>

definition data_array_latency :: "UInt64 \<Rightarrow> UInt32 \<Rightarrow> SubsecondTime result" where
  "data_array_latency bandwidth cache_block_size = ComponentBandwidth_getRoundedLatency bandwidth (ucast (8 * cache_block_size))"

definition NucaCache_create ::
  "repl_config \<Rightarrow> UInt32 \<Rightarrow> UInt32 \<Rightarrow> UInt32 \<Rightarrow> string \<Rightarrow> string \<Rightarrow> AddressHomeLookup option \<Rightarrow> UInt64 \<Rightarrow> UInt64 \<Rightarrow> UInt64 \<Rightarrow>
     queue_config \<Rightarrow> string option \<Rightarrow> (nat \<Rightarrow> queue_env) \<Rightarrow> NucaCache result" where
  "NucaCache_create cfg num_sets associativity cache_block_size replacement_policy hash_function home_lookup
     data_access_time tags_access_time bandwidth qcfg queue_model_type env =
     bindR (parseAddressHash hash_function) (\<lambda>hash.
     bindR (Cache_create cfg ''nuca-cache'' num_sets associativity cache_block_size replacement_policy PR_L1_CACHE hash None home_lookup) (\<lambda>cache.
     bindR (case queue_model_type of
              Some t \<Rightarrow> bindR (data_array_latency bandwidth cache_block_size) (\<lambda>l. bindR (QueueModel_create qcfg t l) (\<lambda>q. Inr (Some q)))
            | None \<Rightarrow> Inr None) (\<lambda>queue_model.
     Inr \<lparr>nu_cache = cache, nu_cache_block_size = cache_block_size, nu_data_access_time = data_access_time,
          nu_tags_access_time = tags_access_time, nu_data_array_bandwidth = bandwidth,
          nu_queue_model = queue_model, nu_queue_env = env, nu_queue_calls = 0,
          nu_reads = 0, nu_writes = 0, nu_read_misses = 0, nu_write_misses = 0\<rparr>)))"

definition accessDataArray :: "SubsecondTime \<Rightarrow> NucaCache \<Rightarrow> (SubsecondTime \<times> NucaCache) result" where
  "accessDataArray t_start nu =
     (case nu_queue_model nu of
        Some q \<Rightarrow>
          bindR (data_array_latency (nu_data_array_bandwidth nu) (nu_cache_block_size nu)) (\<lambda>processing_time.
          bindR (computeQueueDelay (nu_queue_env nu (nu_queue_calls nu)) q t_start processing_time) (\<lambda>(d, q).
          Inr (processing_time + d + nu_data_access_time nu,
               nu\<lparr>nu_queue_model := Some q, nu_queue_calls := Suc (nu_queue_calls nu)\<rparr>)))
      | None \<Rightarrow> Inr (nu_data_access_time nu, nu))"

text \<open>The result of a read: latency, hit, data buffer.\<close>

definition NucaCache_read ::
  "IntPtr \<Rightarrow> UInt8 list option \<Rightarrow> SubsecondTime \<Rightarrow> bool \<Rightarrow> NucaCache \<Rightarrow> repl_env \<Rightarrow> (UInt64 \<times> bool \<times> UInt8 list option \<times> NucaCache \<times> repl_env) result" where
  "NucaCache_read address data_buf now cnt nu g =
     bindR (Cache_peekSingleLine address (nu_cache nu)) (\<lambda>block_info.
     let latency = nu_tags_access_time nu in
     bindR (case block_info of
              Some b \<Rightarrow>
                bindR (Cache_accessSingleLine address LOAD data_buf (nu_cache_block_size nu) True (nu_cache nu) g) (\<lambda>(hit, buf, c, g).
                bindR (accessDataArray (now + latency) (nu\<lparr>nu_cache := c\<rparr>)) (\<lambda>(l, nu).
                Inr (latency + l, True, buf, nu, g)))
            | None \<Rightarrow>
                Inr (latency, False, data_buf,
                     if cnt then nu\<lparr>nu_read_misses := nu_read_misses nu + 1\<rparr> else nu, g)) (\<lambda>(latency, hit, buf, nu, g).
     Inr (latency, hit, buf, if cnt then nu\<lparr>nu_reads := nu_reads nu + 1\<rparr> else nu, g)))"

text \<open>\<^verbatim>\<open>block_info->setCState\<close> through the pointer that \<^verbatim>\<open>peekSingleLine\<close> returned.\<close>

definition Cache_setCState :: "IntPtr \<Rightarrow> cstate_t \<Rightarrow> Cache \<Rightarrow> Cache result" where
  "Cache_setCState addr st c =
     bindR (splitAddress (ca_base c) addr) (\<lambda>(tag, set_index).
     bindR (cache_set_at c set_index) (\<lambda>set.
     Inr (case CacheSet_find tag set of
            None \<Rightarrow> c
          | Some i \<Rightarrow> c\<lparr>ca_sets := (ca_sets c)[unat set_index := set\<lparr>cs_blocks := (cs_blocks set)[i := setCState st (cs_blocks set ! i)]\<rparr>]\<rparr>)))"

text \<open>
  \<open>eviction\<close> and \<open>evict_address\<close> are references of the caller: they are written only when the block is inserted.
  \<^verbatim>\<open>PrL1CacheBlockInfo evict_block_info\<close> is default-constructed. The call of \<^verbatim>\<open>insertSingleLine\<close> passes \<^verbatim>\<open>0\<close> for the
  controller, \<^verbatim>\<open>100\<close> for \<^verbatim>\<open>mcomponent\<close> and \<^verbatim>\<open>0\<close> for \<^verbatim>\<open>write_flag\<close>.
\<close>

definition NucaCache_write ::
  "IntPtr \<Rightarrow> UInt8 list option \<Rightarrow> bool \<Rightarrow> IntPtr \<Rightarrow> UInt8 list option \<Rightarrow> SubsecondTime \<Rightarrow> bool \<Rightarrow> NucaCache \<Rightarrow> repl_env \<Rightarrow>
     (UInt64 \<times> bool \<times> bool \<times> IntPtr \<times> UInt8 list option \<times> NucaCache \<times> repl_env) result" where
  "NucaCache_write address data_buf eviction evict_address evict_buf now cnt nu g =
     bindR (Cache_peekSingleLine address (nu_cache nu)) (\<lambda>block_info.
     let latency = nu_tags_access_time nu in
     bindR (case block_info of
              Some b \<Rightarrow>
                bindR (Cache_setCState address C_MODIFIED (nu_cache nu)) (\<lambda>c.
                bindR (Cache_accessSingleLine address STORE data_buf (nu_cache_block_size nu) True c g) (\<lambda>(hit, buf, c, g).
                bindR (accessDataArray (now + latency) (nu\<lparr>nu_cache := c\<rparr>)) (\<lambda>(l, nu).
                Inr (latency + l, True, eviction, evict_address, evict_buf, nu, g))))
            | None \<Rightarrow>
                bindR (CacheBlockInfo_create PR_L1_CACHE) (\<lambda>evict_block_info.
                bindR (Cache_insertSingleLine address data_buf evict_block_info evict_buf None 0 0 (nu_cache nu) g)
                  (\<lambda>(eviction, evict_address, evict_block_info, evict_buf, c, g).
                let eviction = (if eviction then (if cbi_cstate evict_block_info \<noteq> C_MODIFIED then False else eviction) else eviction);
                    nu = nu\<lparr>nu_cache := c\<rparr>;
                    nu = (if cnt then nu\<lparr>nu_write_misses := nu_write_misses nu + 1\<rparr> else nu)
                in Inr (latency, False, eviction, evict_address, evict_buf, nu, g)))) (\<lambda>(latency, hit, ev, ea, eb, nu, g).
     Inr (latency, hit, ev, ea, eb, if cnt then nu\<lparr>nu_writes := nu_writes nu + 1\<rparr> else nu, g)))"

section \<open>Contents\<close>

definition nuca_ok :: "NucaCache \<Rightarrow> bool" where
  "nuca_ok nu = (cache_ok (nu_cache nu) \<and> nu_cache_block_size nu = cb_blocksize (ca_base (nu_cache nu)))"

definition nuca_contents :: "NucaCache \<Rightarrow> IntPtr \<Rightarrow> CacheBlockInfo option" where
  "nuca_contents nu a = cache_contents (nu_cache nu) (addr_tag (nu_cache nu) a)"

definition block_aligned :: "NucaCache \<Rightarrow> IntPtr \<Rightarrow> bool" where
  "block_aligned nu a = (unat a mod unat (nu_cache_block_size nu) = 0)"

lemma Cache_setCState_contents:
  assumes ok: "cache_ok c" and b: "cache_contents c (addr_tag c addr) = Some b"
  shows "\<exists>c'. Cache_setCState addr st c = Inr c' \<and> cache_ok c' \<and> ca_base c' = ca_base c
    \<and> cache_contents c' = (cache_contents c)(addr_tag c addr \<mapsto> setCState st b)"
proof -
  have "Cache_updBlock addr (setCState st) c = Inr c' \<Longrightarrow> Cache_setCState addr st c = Inr c'" for c'
    by (auto simp: Cache_updBlock_def Cache_setCState_def split: option.splits)
  with Cache_updBlock_contents [OF ok b, of "setCState st"] show ?thesis by (auto simp: setCState_def)
qed

lemma Cache_access_base:
  assumes "Cache_accessSingleLine addr at buff bytes u c g = Inr (hit, buff', c', g')"
  shows "ca_base c' = ca_base c"
proof -
  obtain t si off s where s: "splitAddress_offset (ca_base c) addr = Inr (t, si, off)" "cache_set_at c si = Inr s"
    using assms by (auto simp: Cache_accessSingleLine_def)
  show ?thesis
  proof (cases "CacheSet_find t s")
    case None
    then show ?thesis using assms s by (simp add: Cache_accessSingleLine_def)
  next
    case (Some i)
    then show ?thesis using assms s
      by (cases "at = LOAD"; cases "ca_fault_injector c")
        (auto simp: Cache_accessSingleLine_def Let_def cache_put_def FaultInjector_postWrite_def)
  qed
qed

lemma accessDataArray_cache:
  "accessDataArray t nu = Inr (l, nu') \<Longrightarrow> nu_cache nu' = nu_cache nu \<and> nu_cache_block_size nu' = nu_cache_block_size nu"
  by (auto simp: accessDataArray_def split: option.splits)

lemma aligned_fits:
  "nuca_ok nu \<Longrightarrow> block_aligned nu a \<Longrightarrow>
   unat a mod unat (cb_blocksize (ca_base (nu_cache nu))) + unat (nu_cache_block_size nu) \<le> unat (cb_blocksize (ca_base (nu_cache nu)))"
  by (simp add: nuca_ok_def block_aligned_def)

lemma addr_tag_base: "ca_base c' = ca_base c \<Longrightarrow> addr_tag c' = addr_tag c"
  by (simp add: addr_tag_def fun_eq_iff)

lemma NucaCache_read_contents:
  assumes ok: "nuca_ok nu" and al: "block_aligned nu a"
    and r: "NucaCache_read a buf now cnt nu g = Inr (lat, hit, buf', nu', g')"
  shows "(hit \<longleftrightarrow> nuca_contents nu a \<noteq> None) \<and> nuca_ok nu' \<and> nuca_contents nu' = nuca_contents nu"
proof -
  have c: "cache_ok (nu_cache nu)" using ok by (simp add: nuca_ok_def)
  note P = Cache_peek_contents [OF c, of a]
  show ?thesis
  proof (cases "nuca_contents nu a")
    case None
    then show ?thesis using r P ok by (auto simp: NucaCache_read_def nuca_contents_def nuca_ok_def Let_def fun_eq_iff)
  next
    case (Some b)
    obtain h buf1 c1 g1 where A: "Cache_accessSingleLine a LOAD buf (nu_cache_block_size nu) True (nu_cache nu) g = Inr (h, buf1, c1, g1)"
      using r P Some by (auto simp: NucaCache_read_def nuca_contents_def Let_def)
    have n: "hit" "nu_cache nu' = c1" "nu_cache_block_size nu' = nu_cache_block_size nu"
      using r P Some A by (auto dest!: accessDataArray_cache simp: NucaCache_read_def nuca_contents_def Let_def)
    have "cache_ok c1 \<and> cache_contents c1 = cache_contents (nu_cache nu)"
      using Cache_access_contents [OF c aligned_fits [OF ok al] A] by simp
    then show ?thesis using n Some Cache_access_base [OF A] addr_tag_base [OF Cache_access_base [OF A]] ok
      by (simp add: nuca_ok_def nuca_contents_def fun_eq_iff)
  qed
qed

text \<open>A write puts the block in the cache; a block that was already there becomes modified, a new one is left in its initial state.\<close>

lemma NucaCache_write_hit:
  assumes ok: "nuca_ok nu" and al: "block_aligned nu a" and h: "nuca_contents nu a = Some b"
    and w: "NucaCache_write a buf ev ea eb now cnt nu g = Inr (lat, hit, ev', ea', eb', nu', g')"
  shows "hit \<and> ev' = ev \<and> nuca_ok nu' \<and> nuca_contents nu' a = Some (setCState C_MODIFIED b) \<and> ca_base (nu_cache nu') = ca_base (nu_cache nu)"
proof -
  have c: "cache_ok (nu_cache nu)" using ok by (simp add: nuca_ok_def)
  note P = Cache_peek_contents [OF c, of a]
  have b: "cache_contents (nu_cache nu) (addr_tag (nu_cache nu) a) = Some b" using h by (simp add: nuca_contents_def)
  obtain c0 where S: "Cache_setCState a C_MODIFIED (nu_cache nu) = Inr c0" "cache_ok c0" "ca_base c0 = ca_base (nu_cache nu)"
    "cache_contents c0 = (cache_contents (nu_cache nu))(addr_tag (nu_cache nu) a \<mapsto> setCState C_MODIFIED b)"
    using Cache_setCState_contents [OF c b] by blast
  obtain x buf1 c1 g1 where A: "Cache_accessSingleLine a STORE buf (nu_cache_block_size nu) True c0 g = Inr (x, buf1, c1, g1)"
    using w P b S(1) by (auto simp: NucaCache_write_def Let_def)
  have n: "hit" "ev' = ev" "nu_cache nu' = c1" "nu_cache_block_size nu' = nu_cache_block_size nu"
    using w P b S(1) A by (auto dest!: accessDataArray_cache simp: NucaCache_write_def Let_def)
  have "cache_ok c1 \<and> cache_contents c1 = cache_contents c0"
    using Cache_access_contents [OF S(2) _ A] aligned_fits [OF ok al] S(3) by simp
  moreover have base: "ca_base c1 = ca_base (nu_cache nu)" using Cache_access_base [OF A] S(3) by simp
  ultimately show ?thesis using n S(4) ok addr_tag_base [OF base] by (simp add: nuca_ok_def nuca_contents_def)
qed

lemma clone_cstate [simp]: "cbi_cstate (CacheBlockInfo_clone src b) = cbi_cstate src"
  by (simp add: CacheBlockInfo_clone_def Let_def)

lemma NucaCache_write_miss:
  assumes ok: "nuca_ok nu" and h: "nuca_contents nu a = None"
    and w: "NucaCache_write a buf ev ea eb now cnt nu g = Inr (lat, hit, ev', ea', eb', nu', g')"
  shows "\<not> hit \<and> nuca_ok nu' \<and> ca_base (nu_cache nu') = ca_base (nu_cache nu)
    \<and> (\<exists>new. nuca_contents nu' a = Some new \<and> cbi_cstate new = C_INVALID)
    \<and> (ev' \<longrightarrow> (\<exists>old. cache_contents (nu_cache nu) (cbi_tag old) = Some old \<and> cbi_cstate old = C_MODIFIED
          \<and> ea' = tagToAddress (ca_base (nu_cache nu)) (cbi_tag old)))
    \<and> (\<forall>t x. cache_contents (nu_cache nu) t = Some x \<longrightarrow> cache_contents (nu_cache nu') t = None \<longrightarrow> (ev' \<longleftrightarrow> cbi_cstate x = C_MODIFIED))"
proof -
  let ?c = "nu_cache nu"
  have c: "cache_ok ?c" using ok by (simp add: nuca_ok_def)
  note P = Cache_peek_contents [OF c, of a]
  have n: "cache_contents ?c (addr_tag ?c a) = None" using h by (simp add: nuca_contents_def)
  obtain b0 where b0: "CacheBlockInfo_create PR_L1_CACHE = Inr b0" by (simp add: CacheBlockInfo_create_def)
  obtain e ea1 ebi eb1 c1 g1 where I0: "Cache_insertSingleLine a buf b0 eb None 0 0 ?c g = Inr (e, ea1, ebi, eb1, c1, g1)"
    using w P n b0 by (auto simp: NucaCache_write_def Let_def)
  define nu1 where "nu1 = (let nu = nu\<lparr>nu_cache := c1\<rparr>; nu = (if cnt then nu\<lparr>nu_write_misses := nu_write_misses nu + 1\<rparr> else nu)
     in if cnt then nu\<lparr>nu_writes := nu_writes nu + 1\<rparr> else nu)"
  have nu1: "nu_cache nu1 = c1" "nu_cache_block_size nu1 = nu_cache_block_size nu" by (simp_all add: nu1_def Let_def)
  have "NucaCache_write a buf ev ea eb now cnt nu g
      = Inr (nu_tags_access_time nu, False, e \<and> cbi_cstate ebi = C_MODIFIED, ea1, eb1, nu1, g1)"
    unfolding NucaCache_write_def P n nu1_def by (simp add: I0 b0 Let_def del: bindR_eq_Inr)
  then have W: "hit = False" "ev' = (e \<and> cbi_cstate ebi = C_MODIFIED)" "ea1 = ea'" "nu' = nu1" using w by simp_all
  have N: "\<not> hit" "ev' \<longleftrightarrow> e \<and> cbi_cstate ebi = C_MODIFIED" "nu_cache nu' = c1" "nu_cache_block_size nu' = nu_cache_block_size nu" "ea1 = ea'"
    using W nu1 by simp_all
  note I = I0 [unfolded N(5)]
  note R = Cache_insert_contents [OF c n I]
  have base: "ca_base c1 = ca_base ?c" by (rule Cache_insert_base(1) [OF I])
  have "\<exists>new. cache_contents c1 (addr_tag ?c a) = Some new \<and> cbi_cstate new = C_INVALID"
    using R by (cases e) auto
  moreover have "\<exists>old. cache_contents ?c (cbi_tag old) = Some old \<and> cbi_cstate old = C_MODIFIED \<and> ea' = tagToAddress (ca_base ?c) (cbi_tag old)"
    if ev'
    using R N(2) that by auto
  moreover have "ev' \<longleftrightarrow> cbi_cstate x = C_MODIFIED"
    if x: "cache_contents ?c t = Some x" "cache_contents c1 t = None" for t x
    using R x N(2) by (cases e) (auto split: if_splits)
  ultimately show ?thesis using conjunct1 [OF R] N base ok addr_tag_base [OF base] by (simp add: nuca_ok_def nuca_contents_def)
qed

lemma NucaCache_write_contents:
  assumes ok: "nuca_ok nu" and al: "block_aligned nu a"
    and w: "NucaCache_write a buf ev ea eb now cnt nu g = Inr (lat, hit, ev', ea', eb', nu', g')"
  shows "(hit \<longleftrightarrow> nuca_contents nu a \<noteq> None) \<and> nuca_ok nu' \<and> nuca_contents nu' a \<noteq> None \<and> ca_base (nu_cache nu') = ca_base (nu_cache nu)"
proof (cases "nuca_contents nu a")
  case None
  then show ?thesis using NucaCache_write_miss [OF ok None w] by auto
next
  case (Some b)
  then show ?thesis using NucaCache_write_hit [OF ok al Some w] by auto
qed

lemma block_aligned_base:
  "nuca_ok nu \<Longrightarrow> nuca_ok nu' \<Longrightarrow> ca_base (nu_cache nu') = ca_base (nu_cache nu) \<Longrightarrow> block_aligned nu' a = block_aligned nu a"
  by (simp add: nuca_ok_def block_aligned_def)

section \<open>Properties\<close>

text \<open>
  Data that the directory has put into the NUCA slice is found there: after a write of a block, whether it hit or
  was inserted, the next read of the block hits, and reads change neither the blocks nor their states.
\<close>

theorem nuca_read_after_write:
  assumes "nuca_ok nu" "block_aligned nu a"
    and "NucaCache_write a buf ev ea eb now cnt nu g = Inr (lat, hit, ev', ea', eb', nu', g')"
    and "NucaCache_read a buf2 now2 cnt2 nu' g' = Inr (lat2, hit2, buf2', nu'', g'')"
  shows "(hit \<longleftrightarrow> nuca_contents nu a \<noteq> None) \<and> hit2 \<and> nuca_ok nu'' \<and> nuca_contents nu'' = nuca_contents nu'"
proof -
  note W = NucaCache_write_contents [OF assms(1-3)]
  then have al: "block_aligned nu' a" using block_aligned_base [OF assms(1)] assms(2) by blast
  show ?thesis using W NucaCache_read_contents [OF _ al assms(4)] by blast
qed

text \<open>
  A block that a write-back inserts into the NUCA slice is dirty, but its state is left at the initial value. When the next
  write evicts it, no eviction is reported, so the directory does not send the data to DRAM.
\<close>

theorem nuca_writeback_lost:
  assumes "nuca_ok nu" "nuca_contents nu a = None"
    and "NucaCache_write a buf ev ea eb now cnt nu g = Inr (lat, hit, ev', ea', eb', nu', g')"
    and "nuca_contents nu' b = None"
    and "NucaCache_write b buf2 ev2 ea2 eb2 now2 cnt2 nu' g' = Inr (lat2, hit2, ev2', ea2', eb2', nu'', g'')"
    and "nuca_contents nu'' a = None"
  shows "\<not> ev2'"
proof -
  obtain new where N: "nuca_ok nu'" "nuca_contents nu' a = Some new" "cbi_cstate new = C_INVALID"
    using NucaCache_write_miss [OF assms(1-3)] by auto
  have M: "ca_base (nu_cache nu'') = ca_base (nu_cache nu')"
    "\<And>t x. cache_contents (nu_cache nu') t = Some x \<Longrightarrow> cache_contents (nu_cache nu'') t = None \<Longrightarrow> ev2' \<longleftrightarrow> cbi_cstate x = C_MODIFIED"
    using NucaCache_write_miss [OF N(1) assms(4,5)] by auto
  show ?thesis using M(2) [of "addr_tag (nu_cache nu') a" new] N(2,3) assms(6) addr_tag_base [OF M(1)] by (simp add: nuca_contents_def)
qed

section \<open>Witnesses\<close>

text \<open>A direct-mapped slice with one block.\<close>

definition example_queue_cfg :: queue_config where
  "example_queue_cfg = \<lparr>qc_moving_avg_enabled = False, qc_moving_avg_window_size = 64, qc_moving_avg_type = ''median'',
     qc_analytical_model_enabled = True, qc_max_list_size = 100, qc_window_size = 1000\<rparr>"

definition example_queue_env :: queue_env where
  "example_queue_env = \<lparr>qe_pow = (\<lambda>p n. p), qe_estimate = (\<lambda>n s e w. e), qe_global_time = 0\<rparr>"

definition example_nuca :: NucaCache where
  "example_nuca = projr (NucaCache_create example_cfg 1 1 64 ''lru'' ''mask'' None 3 1 512000 example_queue_cfg (Some ''contention'')
     (\<lambda>_. example_queue_env))"

definition example_write :: "IntPtr \<Rightarrow> NucaCache \<times> repl_env \<Rightarrow> (UInt64 \<times> bool \<times> bool \<times> IntPtr \<times> UInt8 list option \<times> NucaCache \<times> repl_env) result" where
  "example_write a = (\<lambda>(nu, g). NucaCache_write a None False 0 None 0 True nu g)"

definition state_after :: "(UInt64 \<times> bool \<times> bool \<times> IntPtr \<times> UInt8 list option \<times> NucaCache \<times> repl_env) result \<Rightarrow> NucaCache \<times> repl_env" where
  "state_after r = snd (snd (snd (snd (snd (projr r)))))"

lemma example_nuca_ok: "nuca_ok example_nuca" "nuca_contents example_nuca a = None"
proof -
  obtain c where c: "Cache_create example_cfg ''nuca-cache'' 1 1 64 ''lru'' PR_L1_CACHE HASH_MASK None None = Inr c"
    "cb_blocksize (ca_base c) = 64"
    by (simp add: Cache_create_def CacheBase_create_def floorLog2_def floorLog2_step_def Let_def createCacheSetInfo_def
        parsePolicyType_def createCacheSet_def create_policy_def CacheBlockInfo_create_def example_cfg_def getNumQBSAttempts_def
        CacheSetLRU_create_def)
  have "cache_ok c \<and> cache_contents c = Map.empty"
    by (rule Cache_create_ok [OF c(1)]) (auto simp: isPower2_def hash_total_def parsePolicyType_def policy_fits_def)
  moreover have "nu_cache example_nuca = c" "nu_cache_block_size example_nuca = 64"
    using c(1) by (simp_all add: example_nuca_def NucaCache_create_def parseAddressHash_def data_array_latency_def
        ComponentBandwidth_getRoundedLatency_def QueueModel_create_def divR_def Let_def)
  ultimately show "nuca_ok example_nuca" "nuca_contents example_nuca a = None"
    using c(2) by (simp_all add: nuca_ok_def nuca_contents_def)
qed

lemma example_writes:
  "is_ok (example_write 0 (example_nuca, example_env))"
  "is_ok (example_write 64 (state_after (example_write 0 (example_nuca, example_env))))"
  "nuca_contents (fst (state_after (example_write 0 (example_nuca, example_env)))) 64 = None"
  "nuca_contents (fst (state_after (example_write 64 (state_after (example_write 0 (example_nuca, example_env)))))) 0 = None"
  by code_simp+

lemma example_first_write:
  obtains lat hit ev ea eb where "NucaCache_write 0 None False 0 None 0 True example_nuca example_env
      = Inr (lat, hit, ev, ea, eb, fst (state_after (example_write 0 (example_nuca, example_env))),
          snd (state_after (example_write 0 (example_nuca, example_env))))"
proof -
  obtain x where "example_write 0 (example_nuca, example_env) = Inr x" using example_writes(1) by (auto simp: is_ok_iff)
  then show thesis using that by (cases x) (auto simp: example_write_def state_after_def)
qed

theorem nuca_read_after_write_witness:
  "\<exists>lat lat2 hit ev ea eb nu nu2 g g2 b. NucaCache_write 0 None False 0 None 0 True example_nuca example_env = Inr (lat, hit, ev, ea, eb, nu, g)
     \<and> NucaCache_read 0 None 0 True nu g = Inr (lat2, True, b, nu2, g2)"
proof -
  let ?s = "state_after (example_write 0 (example_nuca, example_env))"
  obtain lat hit ev ea eb where W: "NucaCache_write 0 None False 0 None 0 True example_nuca example_env
      = Inr (lat, hit, ev, ea, eb, fst ?s, snd ?s)" by (rule example_first_write)
  have "is_ok (NucaCache_read 0 None 0 True (fst ?s) (snd ?s))" by code_simp
  then obtain lat2 hit2 b nu2 g2 where R: "NucaCache_read 0 None 0 True (fst ?s) (snd ?s) = Inr (lat2, hit2, b, nu2, g2)"
    by (auto simp: is_ok_iff)
  have "block_aligned example_nuca 0" by (simp add: block_aligned_def)
  then have "hit2 = True" using nuca_read_after_write [OF example_nuca_ok(1) _ W R] by blast
  then show ?thesis using W R by (cases ?s) auto
qed

theorem nuca_writeback_lost_witness:
  "\<exists>nu g lat ev ea eb nu2 g2. state_after (example_write 0 (example_nuca, example_env)) = (nu, g)
     \<and> example_write 64 (nu, g) = Inr (lat, False, ev, ea, eb, nu2, g2) \<and> \<not> ev \<and> nuca_contents nu 0 \<noteq> None \<and> nuca_contents nu2 0 = None"
proof -
  let ?s = "state_after (example_write 0 (example_nuca, example_env))"
  let ?t = "state_after (example_write 64 ?s)"
  obtain lat hit ev ea eb where W: "NucaCache_write 0 None False 0 None 0 True example_nuca example_env
      = Inr (lat, hit, ev, ea, eb, fst ?s, snd ?s)" by (rule example_first_write)
  obtain lat2 hit2 ev2 ea2 eb2 nu2 g2 where V: "example_write 64 ?s = Inr (lat2, hit2, ev2, ea2, eb2, nu2, g2)"
    using example_writes(2) by (auto simp: is_ok_iff)
  then have V': "NucaCache_write 64 None False 0 None 0 True (fst ?s) (snd ?s) = Inr (lat2, hit2, ev2, ea2, eb2, nu2, g2)" "nu2 = fst ?t"
    by (auto simp: example_write_def state_after_def split: prod.splits)
  have gone: "nuca_contents nu2 0 = None" using example_writes(4) V'(2) by simp
  have there: "nuca_contents (fst ?s) 0 \<noteq> None" by code_simp
  have miss: "fst (snd (projr (example_write 64 ?s))) = False" by code_simp
  then have "\<not> hit2" using V by simp
  moreover have "\<not> ev2"
    by (rule nuca_writeback_lost [OF example_nuca_ok(1) example_nuca_ok(2) W example_writes(3) V'(1) gone])
  ultimately show ?thesis using V gone there by (intro exI [of _ "fst ?s"] exI [of _ "snd ?s"]) auto
qed

end
