(* ===== verification/Req_Queue.thy ===== *)
theory Req_Queue
  imports Sniper_Prelude
begin

text \<open>
  The per-address request queues \<^verbatim>\<open>ReqQueueListTemplate\<close> of
  \<^verbatim>\<open>memory_subsystem/cache/req_queue_list_template.h\<close> (the \<^verbatim>\<open>std::map\<close> of \<^verbatim>\<open>std::queue\<close>
  variant, which is the one compiled in). The map of queue pointers is a partial function
  from addresses to lists. The locale \<open>keyed_fifo\<close> is the contract the directory controller
  relies on.
\<close>

type_synonym 'r ReqQueueList = "IntPtr \<Rightarrow> 'r list option"

definition ReqQueueList_new :: "'r ReqQueueList" where
  "ReqQueueList_new = (\<lambda>_. None)"

definition ReqQueueList_enqueue :: "'r ReqQueueList \<Rightarrow> IntPtr \<Rightarrow> 'r \<Rightarrow> 'r ReqQueueList" where
  "ReqQueueList_enqueue m address req =
     (let m' = (if m address = None then m(address \<mapsto> []) else m)
      in m'(address \<mapsto> the (m' address) @ [req]))"

definition ReqQueueList_dequeue :: "'r ReqQueueList \<Rightarrow> IntPtr \<Rightarrow> ('r \<times> 'r ReqQueueList) result" where
  "ReqQueueList_dequeue m address =
     bindR (logAssertR (m address \<noteq> None) ''Could not find a request with address'') (\<lambda>_.
     let req = hd (the (m address));
         m' = m(address \<mapsto> tl (the (m address)))
     in Inr (req, if the (m' address) = [] then m'(address := None) else m'))"

definition ReqQueueList_front :: "'r ReqQueueList \<Rightarrow> IntPtr \<Rightarrow> 'r result" where
  "ReqQueueList_front m address =
     bindR (logAssertR (m address \<noteq> None) ''Could not find a request with address'') (\<lambda>_.
     Inr (hd (the (m address))))"

definition ReqQueueList_back :: "'r ReqQueueList \<Rightarrow> IntPtr \<Rightarrow> 'r result" where
  "ReqQueueList_back m address =
     bindR (logAssertR (m address \<noteq> None) ''Could not find a request with address'') (\<lambda>_.
     Inr (last (the (m address))))"

definition ReqQueueList_size :: "'r ReqQueueList \<Rightarrow> IntPtr \<Rightarrow> nat" where
  "ReqQueueList_size m address = (if m address = None then 0 else length (the (m address)))"

definition ReqQueueList_empty :: "'r ReqQueueList \<Rightarrow> IntPtr \<Rightarrow> bool" where
  "ReqQueueList_empty m address = (if m address = None then True else False)"

text \<open>
  The controller changes a queued request through the pointer that \<^verbatim>\<open>front\<close> returns; in the
  model this is an update of the head of the queue.
\<close>

definition ReqQueueList_update_front :: "'r ReqQueueList \<Rightarrow> IntPtr \<Rightarrow> ('r \<Rightarrow> 'r) \<Rightarrow> 'r ReqQueueList" where
  "ReqQueueList_update_front m address f =
     (case m address of
        Some (r # rs) \<Rightarrow> m(address \<mapsto> f r # rs)
      | _ \<Rightarrow> m)"

section \<open>The contract: independent FIFOs, one per address\<close>

fun dequeue_many :: "('m \<Rightarrow> 'k \<Rightarrow> ('r \<times> 'm) result) \<Rightarrow> nat \<Rightarrow> 'm \<Rightarrow> 'k \<Rightarrow> ('r list \<times> 'm) result" where
  "dequeue_many deq 0 m k = Inr ([], m)"
| "dequeue_many deq (Suc n) m k =
     bindR (deq m k) (\<lambda>(r, m'). bindR (dequeue_many deq n m' k) (\<lambda>(rs, m''). Inr (r # rs, m'')))"

locale keyed_fifo =
  fixes new :: 'm
    and enq :: "'m \<Rightarrow> 'k \<Rightarrow> 'r \<Rightarrow> 'm"
    and deq :: "'m \<Rightarrow> 'k \<Rightarrow> ('r \<times> 'm) result"
    and front :: "'m \<Rightarrow> 'k \<Rightarrow> 'r result"
    and size :: "'m \<Rightarrow> 'k \<Rightarrow> nat"
    and contents :: "'m \<Rightarrow> 'k \<Rightarrow> 'r list"
    and invar :: "'m \<Rightarrow> bool"
  assumes new: "invar new" "contents new k = []"
    and enq_invar: "invar m \<Longrightarrow> invar (enq m k r)"
    and enq_contents: "invar m \<Longrightarrow> contents (enq m k r) k' = (if k' = k then contents m k @ [r] else contents m k')"
    and deq_some: "invar m \<Longrightarrow> contents m k = r # rs \<Longrightarrow>
      \<exists>m'. deq m k = Inr (r, m') \<and> invar m' \<and> contents m' = (contents m)(k := rs)"
    and deq_none: "invar m \<Longrightarrow> contents m k = [] \<Longrightarrow> \<not> is_ok (deq m k)"
    and front_some: "invar m \<Longrightarrow> contents m k = r # rs \<Longrightarrow> front m k = Inr r"
    and size_contents: "invar m \<Longrightarrow> size m k = length (contents m k)"
begin

lemma enq_list_invar: "invar m \<Longrightarrow> invar (fold (\<lambda>(k, r) m. enq m k r) ops m)"
  by (induction ops arbitrary: m) (auto simp: enq_invar)

lemma enq_list_contents:
  "invar m \<Longrightarrow> contents (fold (\<lambda>(k, r) m. enq m k r) ops m) k =
     contents m k @ map snd (filter (\<lambda>(k', r). k' = k) ops)"
  by (induction ops arbitrary: m) (auto simp: enq_invar enq_contents)

lemma dequeue_many_prefix:
  "invar m \<Longrightarrow> contents m k = xs @ ys \<Longrightarrow>
     \<exists>m'. dequeue_many deq (length xs) m k = Inr (xs, m') \<and> invar m' \<and> contents m' = (contents m)(k := ys)"
proof (induction xs arbitrary: m)
  case Nil
  then show ?case by (auto intro: exI [of _ m])
next
  case (Cons x xs)
  then obtain m1 where m1: "deq m k = Inr (x, m1)" "invar m1" "contents m1 = (contents m)(k := xs @ ys)"
    using deq_some [of m k x "xs @ ys"] by auto
  with Cons.IH [of m1] show ?case by (auto simp: fun_eq_iff)
qed

lemma interleaved_fifo:
  "\<exists>m'. dequeue_many deq (length (filter (\<lambda>(k', r). k' = k) ops)) (fold (\<lambda>(k, r) m. enq m k r) ops new) k
     = Inr (map snd (filter (\<lambda>(k', r). k' = k) ops), m')
     \<and> size m' k = 0
     \<and> (\<forall>k'. k' \<noteq> k \<longrightarrow> contents m' k' = map snd (filter (\<lambda>(k'', r). k'' = k') ops))"
proof -
  let ?m = "fold (\<lambda>(k, r) m. enq m k r) ops new"
  let ?rs = "map snd (filter (\<lambda>(k', r). k' = k) ops)"
  have inv: "invar ?m" by (simp add: enq_list_invar new)
  have "contents ?m k = ?rs @ []" by (simp add: enq_list_contents new)
  then obtain m' where m': "dequeue_many deq (length ?rs) ?m k = Inr (?rs, m')" "invar m'"
    "contents m' = (contents ?m)(k := [])"
    using dequeue_many_prefix [OF inv] by blast
  then have "size m' k = 0" by (simp add: size_contents)
  moreover have "\<forall>k'. k' \<noteq> k \<longrightarrow> contents m' k' = map snd (filter (\<lambda>(k'', r). k'' = k') ops)"
    using m'(3) by (simp add: enq_list_contents new)
  ultimately show ?thesis using m'(1) by (auto simp: case_prod_unfold)
qed

end

section \<open>The request queue list satisfies it\<close>

definition rq_contents :: "'r ReqQueueList \<Rightarrow> IntPtr \<Rightarrow> 'r list" where
  "rq_contents m a = (case m a of None \<Rightarrow> [] | Some rs \<Rightarrow> rs)"

definition rq_inv :: "'r ReqQueueList \<Rightarrow> bool" where
  "rq_inv m \<longleftrightarrow> (\<forall>a. m a \<noteq> Some [])"

lemma rq_enqueue_contents [simp]:
  "rq_contents (ReqQueueList_enqueue m a r) a' = (if a' = a then rq_contents m a @ [r] else rq_contents m a')"
  by (cases "m a") (auto simp: rq_contents_def ReqQueueList_enqueue_def Let_def)

lemma rq_enqueue_inv: "rq_inv m \<Longrightarrow> rq_inv (ReqQueueList_enqueue m a r)"
  by (auto simp: rq_inv_def ReqQueueList_enqueue_def Let_def)

lemma rq_size_contents: "ReqQueueList_size m a = length (rq_contents m a)"
  by (cases "m a") (auto simp: rq_contents_def ReqQueueList_size_def)

lemma rq_empty_contents: "rq_inv m \<Longrightarrow> ReqQueueList_empty m a \<longleftrightarrow> rq_contents m a = []"
  by (cases "m a") (auto simp: rq_contents_def ReqQueueList_empty_def rq_inv_def)

lemma rq_front_contents: "rq_contents m a = r # rs \<Longrightarrow> ReqQueueList_front m a = Inr r"
  by (cases "m a") (auto simp: rq_contents_def ReqQueueList_front_def)

lemma rq_dequeue_contents:
  assumes "rq_inv m" "rq_contents m a = r # rs"
  shows "\<exists>m'. ReqQueueList_dequeue m a = Inr (r, m') \<and> rq_inv m' \<and> rq_contents m' = (rq_contents m)(a := rs)"
proof -
  have ma: "m a = Some (r # rs)"
    using assms by (cases "m a") (auto simp: rq_contents_def)
  let ?m' = "if rs = [] then m(a := None) else m(a \<mapsto> rs)"
  have "ReqQueueList_dequeue m a = Inr (r, ?m')"
    by (simp add: ReqQueueList_dequeue_def ma Let_def)
  moreover have "rq_inv ?m'" using assms(1) by (auto simp: rq_inv_def)
  moreover have "rq_contents ?m' = (rq_contents m)(a := rs)"
    by (auto simp: rq_contents_def fun_eq_iff)
  ultimately show ?thesis by blast
qed

lemma rq_update_front_contents:
  "rq_contents (ReqQueueList_update_front m a f) a' =
     (if a' = a then (case rq_contents m a of [] \<Rightarrow> [] | r # rs \<Rightarrow> f r # rs) else rq_contents m a')"
  by (auto simp: rq_contents_def ReqQueueList_update_front_def split: option.splits list.splits)

lemma rq_update_front_inv: "rq_inv m \<Longrightarrow> rq_inv (ReqQueueList_update_front m a f)"
  by (auto simp: rq_inv_def ReqQueueList_update_front_def split: option.splits list.splits)

interpretation rq: keyed_fifo ReqQueueList_new ReqQueueList_enqueue ReqQueueList_dequeue
  ReqQueueList_front ReqQueueList_size rq_contents rq_inv
proof unfold_locales
  fix m :: "'r ReqQueueList" and k r rs
  show "rq_inv (ReqQueueList_new :: 'r ReqQueueList)" by (simp add: rq_inv_def ReqQueueList_new_def)
  show "rq_contents (ReqQueueList_new :: 'r ReqQueueList) k = []"
    by (simp add: rq_contents_def ReqQueueList_new_def)
  show "\<not> is_ok (ReqQueueList_dequeue m k)" if "rq_inv m" "rq_contents m k = []"
    using that by (cases "m k") (auto simp: rq_contents_def ReqQueueList_dequeue_def rq_inv_def)
  show "\<exists>m'. ReqQueueList_dequeue m k = Inr (r, m') \<and> rq_inv m' \<and> rq_contents m' = (rq_contents m)(k := rs)"
    if "rq_inv m" "rq_contents m k = r # rs"
    using that by (rule rq_dequeue_contents)
qed (simp_all add: rq_enqueue_inv rq_size_contents rq_front_contents)

text \<open>
  requests for one address leave the queue list in the order in which they were enqueued,
  whatever requests for other addresses were enqueued in between, and the queues of the other
  addresses are untouched.
\<close>

theorem ReqQueueList_fifo_per_address:
  "\<exists>m'. dequeue_many ReqQueueList_dequeue (length (filter (\<lambda>(a', r). a' = a) ops))
          (fold (\<lambda>(a, r) m. ReqQueueList_enqueue m a r) ops ReqQueueList_new) a
     = Inr (map snd (filter (\<lambda>(a', r). a' = a) ops), m')
     \<and> ReqQueueList_size m' a = 0
     \<and> (\<forall>a'. a' \<noteq> a \<longrightarrow> rq_contents m' a' = map snd (filter (\<lambda>(a'', r). a'' = a') ops))"
  by (rule rq.interleaved_fifo)

theorem ReqQueueList_fifo_per_address_witness:
  "\<exists>m'. dequeue_many ReqQueueList_dequeue (Suc (Suc 0))
          (fold (\<lambda>(a, r) m. ReqQueueList_enqueue m a r) [(64, 10 :: nat), (128, 20), (64, 30)] ReqQueueList_new) 64
     = Inr ([10, 30], m') \<and> rq_contents m' 128 = [20]"
proof -
  let ?ops = "[(64, 10 :: nat), (128, 20), (64, 30)] :: (IntPtr \<times> nat) list"
  have "filter (\<lambda>(a', r). a' = 64) ?ops = [(64, 10), (64, 30)]" by simp
  moreover have "filter (\<lambda>(a', r). a' = 128) ?ops = [(128, 20)]" by simp
  ultimately show ?thesis
    using ReqQueueList_fifo_per_address [of 64 ?ops] by (auto simp del: dequeue_many.simps fold.simps filter.simps)
qed

end
