(* ===== verification/Shmem_Msg.thy ===== *)
theory Shmem_Msg
  imports Sniper_Prelude
begin

text \<open>
  The messages and requests of the shared-memory protocol: \<^verbatim>\<open>ShmemMsg\<close> and \<^verbatim>\<open>ShmemReq\<close> of
  \<^verbatim>\<open>pr_l1_pr_l2_dram_directory_msi\<close>, and the packets in which the memory manager sends them. A pointer to a buffer
  is an optional list of bytes. The performance record \<^verbatim>\<open>ShmemPerf\<close> that a message points to is
  statistics only and is left out.
\<close>

section \<open>Messages\<close>

datatype component_t = INVALID_MEM_COMPONENT | CORE | L1_ICACHE | L1_DCACHE | L2_CACHE | L3_CACHE | L4_CACHE
  | UNNAMED_CACHE nat | LAST_LEVEL_CACHE | TAG_DIR | NUCA_CACHE | DRAM_CACHE | DRAM

datatype where_t = WHERE_FIRST | HIT_L1I | HIT_L1_OWN | HIT_L2_OWN | HIT_L3_OWN | HIT_L4_OWN | HIT_MISS | HIT_NUCA_CACHE
  | HIT_DRAM_CACHE | HIT_DRAM | HIT_DRAM_LOCAL | HIT_DRAM_REMOTE | HIT_CACHE_REMOTE | HIT_SIBLING | HIT_L1_SIBLING
  | HIT_L2_SIBLING | HIT_L3_SIBLING | HIT_L4_SIBLING | HIT_UNKNOWN | HIT_PREDICATE_FALSE | HIT_PREFETCH_NO_MAPPING

datatype msg_t = INVALID_MSG_TYPE | EX_REQ | SH_REQ | UPGRADE_REQ | INV_REQ | FLUSH_REQ | WB_REQ | EX_REP | SH_REP
  | UPGRADE_REP | INV_REP | FLUSH_REP | WB_REP | NULLIFY_REQ | DRAM_READ_REQ | DRAM_WRITE_REQ | DRAM_READ_REP

fun component_num :: "component_t \<Rightarrow> nat" where
  "component_num INVALID_MEM_COMPONENT = 0"
| "component_num CORE = 1"
| "component_num L1_ICACHE = 2"
| "component_num L1_DCACHE = 3"
| "component_num L2_CACHE = 4"
| "component_num L3_CACHE = 5"
| "component_num L4_CACHE = 6"
| "component_num (UNNAMED_CACHE n) = 7 + n"
| "component_num LAST_LEVEL_CACHE = 20"
| "component_num TAG_DIR = 21"
| "component_num NUCA_CACHE = 22"
| "component_num DRAM_CACHE = 23"
| "component_num DRAM = 24"

text \<open>The order of the enumeration \<^verbatim>\<open>HitWhere::where_t\<close>.\<close>

fun where_num :: "where_t \<Rightarrow> nat" where
  "where_num WHERE_FIRST = 0"
| "where_num HIT_L1I = 2"
| "where_num HIT_L1_OWN = 3"
| "where_num HIT_L2_OWN = 4"
| "where_num HIT_L3_OWN = 5"
| "where_num HIT_L4_OWN = 6"
| "where_num HIT_MISS = 7"
| "where_num HIT_NUCA_CACHE = 8"
| "where_num HIT_DRAM_CACHE = 9"
| "where_num HIT_DRAM = 10"
| "where_num HIT_DRAM_LOCAL = 11"
| "where_num HIT_DRAM_REMOTE = 12"
| "where_num HIT_CACHE_REMOTE = 13"
| "where_num HIT_SIBLING = 14"
| "where_num HIT_L1_SIBLING = 17"
| "where_num HIT_L2_SIBLING = 18"
| "where_num HIT_L3_SIBLING = 19"
| "where_num HIT_L4_SIBLING = 20"
| "where_num HIT_UNKNOWN = 21"
| "where_num HIT_PREDICATE_FALSE = 22"
| "where_num HIT_PREFETCH_NO_MAPPING = 23"

record ShmemMsg =
  sm_msg_type :: msg_t
  sm_sender_mem_component :: component_t
  sm_receiver_mem_component :: component_t
  sm_requester :: core_id_t
  sm_where :: where_t
  sm_address :: IntPtr
  sm_data_buf :: "UInt8 list option"
  sm_data_length :: UInt32

definition ShmemMsg_create ::
  "msg_t \<Rightarrow> component_t \<Rightarrow> component_t \<Rightarrow> core_id_t \<Rightarrow> IntPtr \<Rightarrow> UInt8 list option \<Rightarrow> UInt32 \<Rightarrow> ShmemMsg" where
  "ShmemMsg_create msg_type sender_mem_component receiver_mem_component requester address data_buf data_length =
     \<lparr>sm_msg_type = msg_type, sm_sender_mem_component = sender_mem_component, sm_receiver_mem_component = receiver_mem_component,
      sm_requester = requester, sm_where = HIT_UNKNOWN, sm_address = address, sm_data_buf = data_buf, sm_data_length = data_length\<rparr>"

text \<open>The copy constructor does not initialise \<^verbatim>\<open>m_where\<close>: \<open>uninit\<close> is what the fresh memory holds.\<close>

definition ShmemMsg_copy :: "where_t \<Rightarrow> ShmemMsg \<Rightarrow> ShmemMsg" where
  "ShmemMsg_copy uninit msg =
     \<lparr>sm_msg_type = sm_msg_type msg, sm_sender_mem_component = sm_sender_mem_component msg,
      sm_receiver_mem_component = sm_receiver_mem_component msg, sm_requester = sm_requester msg, sm_where = uninit,
      sm_address = sm_address msg, sm_data_buf = sm_data_buf msg, sm_data_length = sm_data_length msg\<rparr>"

definition setWhere :: "where_t \<Rightarrow> ShmemMsg \<Rightarrow> ShmemMsg" where
  "setWhere w msg = msg\<lparr>sm_where := w\<rparr>"

definition setDataBuf :: "UInt8 list option \<Rightarrow> ShmemMsg \<Rightarrow> ShmemMsg" where
  "setDataBuf buf msg = msg\<lparr>sm_data_buf := buf\<rparr>"

text \<open>
  The structured view of a serialised message: the object, and the bytes of its buffer that follow it. The functions
  \<^verbatim>\<open>makeMsgBuf\<close> and \<^verbatim>\<open>getShmemMsg\<close>, which copy the bytes of the object, are in \<^verbatim>\<open>Shmem_Wire\<close>, with the proof that
  \<open>pack_msg\<close> and \<open>unpack_msg\<close> are what they do to the message that the bytes represent.
\<close>

type_synonym msg_buf = "ShmemMsg \<times> UInt8 list"

definition pack_msg :: "ShmemMsg \<Rightarrow> msg_buf result" where
  "pack_msg msg =
     (if sm_data_length msg > 0
      then bindR (logAssertR (sm_data_buf msg \<noteq> None) ''m_data_buf'') (\<lambda>_.
           Inr (msg, take (unat (sm_data_length msg)) (the (sm_data_buf msg))))
      else Inr (msg, []))"

definition unpack_msg :: "msg_buf \<Rightarrow> ShmemMsg" where
  "unpack_msg b =
     (case b of (shmem_msg, payload) \<Rightarrow>
        if sm_data_length shmem_msg > 0 then setDataBuf (Some (take (unat (sm_data_length shmem_msg)) payload)) shmem_msg
        else shmem_msg)"

definition getModeledLength :: "ShmemMsg \<Rightarrow> UInt32 result" where
  "getModeledLength msg =
     (if sm_msg_type msg \<in> {EX_REQ, SH_REQ, INV_REQ, FLUSH_REQ, WB_REQ, UPGRADE_REP, UPGRADE_REQ, INV_REP, DRAM_READ_REQ} then Inr (1 + 8)
      else if sm_msg_type msg \<in> {EX_REP, SH_REP, FLUSH_REP, WB_REP, DRAM_WRITE_REQ, DRAM_READ_REP} then Inr (1 + 8 + sm_data_length msg)
      else Inl (LogError ''Unrecognized Msg Type''))"

section \<open>Requests\<close>

record ShmemReq =
  sr_shmem_msg :: ShmemMsg
  sr_time :: UInt64
  sr_wait_for_data :: bool
  sr_forwarding_from :: core_id_t

definition ShmemReq_create :: "where_t \<Rightarrow> ShmemMsg \<Rightarrow> UInt64 \<Rightarrow> ShmemReq result" where
  "ShmemReq_create uninit shmem_msg time =
     bindR (logAssertR (sm_data_buf shmem_msg = None) ''Shmem Reqs should not have data payloads'') (\<lambda>_.
     Inr \<lparr>sr_shmem_msg = ShmemMsg_copy uninit shmem_msg, sr_time = time, sr_wait_for_data = False,
          sr_forwarding_from = INVALID_CORE_ID\<rparr>)"

definition isForwarding :: "ShmemReq \<Rightarrow> bool" where
  "isForwarding req = (sr_forwarding_from req \<noteq> INVALID_CORE_ID)"

definition ShmemReq_updateTime :: "UInt64 \<Rightarrow> ShmemReq \<Rightarrow> ShmemReq" where
  "ShmemReq_updateTime time req = (if time > sr_time req then req\<lparr>sr_time := time\<rparr> else req)"

section \<open>Packets\<close>

text \<open>The receiver of a packet is a core, or \<^verbatim>\<open>NetPacket::BROADCAST\<close>.\<close>

datatype net_receiver = ToCore core_id_t | BROADCAST

record NetPacket =
  np_time :: UInt64
  np_sender :: core_id_t
  np_receiver :: net_receiver
  np_data :: msg_buf

text \<open>
  \<^verbatim>\<open>MemoryManager::sendMsg\<close> and \<^verbatim>\<open>broadcastMsg\<close> up to the call of the network: \<open>sender\<close> is
  \<^verbatim>\<open>m_core_id_master\<close>, \<open>msg_time\<close> the elapsed time of the simulation thread.
\<close>

definition sendMsg_packet ::
  "core_id_t \<Rightarrow> UInt64 \<Rightarrow> msg_t \<Rightarrow> component_t \<Rightarrow> component_t \<Rightarrow> core_id_t \<Rightarrow> core_id_t \<Rightarrow> IntPtr \<Rightarrow> UInt8 list option \<Rightarrow> UInt32 \<Rightarrow>
     where_t \<Rightarrow> NetPacket result" where
  "sendMsg_packet sender msg_time msg_type sender_mem_component receiver_mem_component requester receiver address data_buf data_length w =
     bindR (assertR ((data_buf = None) = (data_length = 0)) ''(data_buf == NULL) == (data_length == 0)'') (\<lambda>_.
     let shmem_msg = setWhere w (ShmemMsg_create msg_type sender_mem_component receiver_mem_component requester address data_buf data_length)
     in bindR (pack_msg shmem_msg) (\<lambda>msg_buf.
        Inr \<lparr>np_time = msg_time, np_sender = sender, np_receiver = ToCore receiver, np_data = msg_buf\<rparr>))"

definition broadcastMsg_packet ::
  "core_id_t \<Rightarrow> UInt64 \<Rightarrow> msg_t \<Rightarrow> component_t \<Rightarrow> component_t \<Rightarrow> core_id_t \<Rightarrow> IntPtr \<Rightarrow> UInt8 list option \<Rightarrow> UInt32 \<Rightarrow> NetPacket result" where
  "broadcastMsg_packet sender msg_time msg_type sender_mem_component receiver_mem_component requester address data_buf data_length =
     bindR (assertR ((data_buf = None) = (data_length = 0)) ''(data_buf == NULL) == (data_length == 0)'') (\<lambda>_.
     let shmem_msg = ShmemMsg_create msg_type sender_mem_component receiver_mem_component requester address data_buf data_length
     in bindR (pack_msg shmem_msg) (\<lambda>msg_buf.
        Inr \<lparr>np_time = msg_time, np_sender = sender, np_receiver = BROADCAST, np_data = msg_buf\<rparr>))"

definition packet_msg :: "NetPacket \<Rightarrow> ShmemMsg" where
  "packet_msg pk = unpack_msg (np_data pk)"

section \<open>What is sent is what is received\<close>

lemma ShmemMsg_create_simps [simp]:
  "sm_msg_type (ShmemMsg_create t s r rq a b l) = t" "sm_sender_mem_component (ShmemMsg_create t s r rq a b l) = s"
  "sm_receiver_mem_component (ShmemMsg_create t s r rq a b l) = r" "sm_requester (ShmemMsg_create t s r rq a b l) = rq"
  "sm_address (ShmemMsg_create t s r rq a b l) = a" "sm_data_buf (ShmemMsg_create t s r rq a b l) = b"
  "sm_data_length (ShmemMsg_create t s r rq a b l) = l" "sm_where (ShmemMsg_create t s r rq a b l) = HIT_UNKNOWN"
  by (simp_all add: ShmemMsg_create_def)

lemma ShmemMsg_copy_simps [simp]:
  "sm_msg_type (ShmemMsg_copy w m) = sm_msg_type m" "sm_requester (ShmemMsg_copy w m) = sm_requester m"
  "sm_address (ShmemMsg_copy w m) = sm_address m" "sm_data_buf (ShmemMsg_copy w m) = sm_data_buf m"
  by (simp_all add: ShmemMsg_copy_def)

lemma ShmemReq_create_Inr:
  "ShmemReq_create w m t = Inr r \<longleftrightarrow> sm_data_buf m = None \<and>
   r = \<lparr>sr_shmem_msg = ShmemMsg_copy w m, sr_time = t, sr_wait_for_data = False, sr_forwarding_from = INVALID_CORE_ID\<rparr>"
  by (auto simp: ShmemReq_create_def)

lemma ShmemReq_updateTime_msg [simp]: "sr_shmem_msg (ShmemReq_updateTime t r) = sr_shmem_msg r"
  by (simp add: ShmemReq_updateTime_def)

lemma sendMsg_packet_plain:
  "sendMsg_packet s tm t sc rc rq rcv a None 0 w =
     Inr \<lparr>np_time = tm, np_sender = s, np_receiver = ToCore rcv, np_data = (setWhere w (ShmemMsg_create t sc rc rq a None 0), [])\<rparr>"
  by (simp add: sendMsg_packet_def pack_msg_def setWhere_def Let_def)

lemma sendMsg_packet_Inr:
  assumes "sendMsg_packet s tm t sc rc rq rcv a b l w = Inr pk"
  shows "np_receiver pk = ToCore rcv \<and> np_sender pk = s \<and> np_time pk = tm
    \<and> sm_msg_type (packet_msg pk) = t \<and> sm_sender_mem_component (packet_msg pk) = sc \<and> sm_receiver_mem_component (packet_msg pk) = rc
    \<and> sm_requester (packet_msg pk) = rq \<and> sm_address (packet_msg pk) = a \<and> sm_where (packet_msg pk) = w
    \<and> sm_data_length (packet_msg pk) = l \<and> sm_data_buf (packet_msg pk) = map_option (take (unat l)) b"
  using assms
  by (auto simp: sendMsg_packet_def pack_msg_def packet_msg_def unpack_msg_def setWhere_def setDataBuf_def Let_def word_gt_0 split: if_splits)

lemma broadcastMsg_packet_Inr:
  assumes "broadcastMsg_packet s tm t sc rc rq a b l = Inr pk"
  shows "np_receiver pk = BROADCAST \<and> sm_msg_type (packet_msg pk) = t \<and> sm_address (packet_msg pk) = a"
  using assms
  by (auto simp: broadcastMsg_packet_def pack_msg_def packet_msg_def unpack_msg_def setDataBuf_def Let_def split: if_splits)

section \<open>Properties\<close>

text \<open>
  A message survives the network: whenever \<^verbatim>\<open>sendMsg\<close> accepts its arguments, the message that the receiver
  reconstructs from the packet has every field that was sent, with the first \<^verbatim>\<open>data_length\<close>
  bytes of the buffer, and \<^verbatim>\<open>sendMsg\<close> rejects exactly the calls in which buffer and length disagree.
\<close>

theorem sendMsg_roundtrip:
  "case sendMsg_packet s tm t sc rc rq rcv a b l w of
     Inl _ \<Rightarrow> (b = None) \<noteq> (l = 0)
   | Inr pk \<Rightarrow> (b = None) = (l = 0) \<and> np_receiver pk = ToCore rcv \<and>
       unpack_msg (np_data pk) =
         \<lparr>sm_msg_type = t, sm_sender_mem_component = sc, sm_receiver_mem_component = rc, sm_requester = rq, sm_where = w,
          sm_address = a, sm_data_buf = map_option (take (unat l)) b, sm_data_length = l\<rparr>"
proof (cases "(b = None) = (l = 0)")
  case True
  then show ?thesis
    by (cases b) (auto simp: sendMsg_packet_def pack_msg_def unpack_msg_def setWhere_def setDataBuf_def Let_def ShmemMsg_create_def
      word_gt_0)
qed (auto simp: sendMsg_packet_def)

end
