(* ===== verification/Directory_Cntlr.thy ===== *)
theory Directory_Cntlr
  imports Directory_Cache Nuca_Cache Req_Queue Shmem_Msg
begin

text \<open>
  The directory controller \<^verbatim>\<open>DramDirectoryCntlr\<close> of
  \<^verbatim>\<open>pr_l1_pr_l2_dram_directory_msi/dram_directory_cntlr.cc\<close>: the home node of a part of the addresses, which serves the
  requests of the caches one at a time per address and keeps the directory. Every handler of the class is a function on
  the record \<open>DramDirectoryCntlr\<close>; the messages it sends are appended to \<open>dc_sent\<close>.

  \<^verbatim>\<open>processNextReqFromL2Cache\<close> and the functions that process a request call each other. Each of the latter has the
  former as an argument \<open>next\<close>, and the recursion is closed by fuel; every round takes a request from
  a queue, so that the length of the queue bounds it.

  Left out are the statistics of \<^verbatim>\<open>ShmemPerf\<close>. A buffer is a value: the code keeps a pointer to the payload of a
  \<^verbatim>\<open>FLUSH_REP\<close> in a waiting upgrade request, although the payload is freed when the handler returns; the model keeps the bytes.
\<close>

section \<open>State\<close>

datatype coherency_protocol = MSI | MESI | MESIF

text \<open>What the uninitialised local variables of \<^verbatim>\<open>sendDataToNUCA\<close> and \<^verbatim>\<open>retrieveDataAndSendToL2Cache\<close> hold.\<close>

record stack_frame =
  sf_eviction :: bool
  sf_evict_address :: IntPtr
  sf_buf :: "UInt8 list"

record DramDirectoryCntlr =
  dc_home_lookup :: AddressHomeLookup
  dc_cache :: DramDirectoryCache
  dc_queues :: "ShmemReq ReqQueueList"
  dc_nuca :: "NucaCache option"
  dc_core_id :: core_id_t
  dc_core_id_master :: core_id_t
  dc_cache_block_size :: UInt32
  dc_protocol :: coherency_protocol
  dc_evict :: "dstate_t \<Rightarrow> UInt64"
  dc_forward :: UInt64
  dc_forward_failed :: UInt64
  dc_env :: repl_env
  dc_sent :: "NetPacket list"
  dc_stack :: "nat \<Rightarrow> stack_frame"
  dc_frames :: nat
  dc_uninit_where :: where_t

text \<open>\<open>uninit\<close> is what the counter of \<open>D_UNCACHED\<close> holds, which the loop of the constructor leaves out.\<close>

definition DramDirectoryCntlr_create ::
  "core_id_t \<Rightarrow> core_id_t \<Rightarrow> AddressHomeLookup \<Rightarrow> NucaCache option \<Rightarrow> repl_env \<Rightarrow> DramDirectoryCache \<Rightarrow> UInt32 \<Rightarrow> string \<Rightarrow>
     UInt64 \<Rightarrow> (nat \<Rightarrow> stack_frame) \<Rightarrow> where_t \<Rightarrow> DramDirectoryCntlr result" where
  "DramDirectoryCntlr_create core_id master home_lookup nuca env dram_directory_cache cache_block_size protocol uninit stack uninit_where =
     bindR (if protocol = ''msi'' then Inr MSI
            else if protocol = ''mesi'' then Inr MESI
            else if protocol = ''mesif'' then Inr MESIF
            else Inl (LogError ''Invalid coherency protocol'')) (\<lambda>prot.
     Inr \<lparr>dc_home_lookup = home_lookup, dc_cache = dram_directory_cache, dc_queues = ReqQueueList_new, dc_nuca = nuca,
          dc_core_id = core_id, dc_core_id_master = master, dc_cache_block_size = cache_block_size, dc_protocol = prot,
          dc_evict = (\<lambda>st. if st \<noteq> D_UNCACHED then 0 else uninit), dc_forward = 0, dc_forward_failed = 0,
          dc_env = env, dc_sent = [], dc_stack = stack, dc_frames = 0, dc_uninit_where = uninit_where\<rparr>)"

section \<open>Services the controller uses\<close>

text \<open>The elapsed time of the simulation thread.\<close>

definition getElapsedTime :: "DramDirectoryCntlr \<Rightarrow> UInt64" where
  "getElapsedTime c = dd_elapsed (dc_cache c)"

definition setElapsedTime :: "UInt64 \<Rightarrow> DramDirectoryCntlr \<Rightarrow> DramDirectoryCntlr" where
  "setElapsedTime t c = c\<lparr>dc_cache := (dc_cache c)\<lparr>dd_elapsed := t\<rparr>\<rparr>"

definition updateElapsedTime :: "UInt64 \<Rightarrow> DramDirectoryCntlr \<Rightarrow> DramDirectoryCntlr" where
  "updateElapsedTime t c = (if getElapsedTime c < t then setElapsedTime t c else c)"

definition incrElapsedTime :: "UInt64 \<Rightarrow> DramDirectoryCntlr \<Rightarrow> DramDirectoryCntlr" where
  "incrElapsedTime t c = setElapsedTime (getElapsedTime c + t) c"

definition sendMsg ::
  "msg_t \<Rightarrow> component_t \<Rightarrow> core_id_t \<Rightarrow> core_id_t \<Rightarrow> IntPtr \<Rightarrow> UInt8 list option \<Rightarrow> UInt32 \<Rightarrow> where_t \<Rightarrow> DramDirectoryCntlr \<Rightarrow>
     DramDirectoryCntlr result" where
  "sendMsg msg_type receiver_mem_component requester receiver address data_buf data_length w c =
     bindR (sendMsg_packet (dc_core_id_master c) (getElapsedTime c) msg_type TAG_DIR receiver_mem_component requester receiver
              address data_buf data_length w) (\<lambda>pk.
     Inr (c\<lparr>dc_sent := dc_sent c @ [pk]\<rparr>))"

definition broadcastMsg :: "msg_t \<Rightarrow> component_t \<Rightarrow> core_id_t \<Rightarrow> IntPtr \<Rightarrow> DramDirectoryCntlr \<Rightarrow> DramDirectoryCntlr result" where
  "broadcastMsg msg_type receiver_mem_component requester address c =
     bindR (broadcastMsg_packet (dc_core_id_master c) (getElapsedTime c) msg_type TAG_DIR receiver_mem_component requester address None 0)
       (\<lambda>pk. Inr (c\<lparr>dc_sent := dc_sent c @ [pk]\<rparr>))"

text \<open>Directory entries are reached through pointers into the directory cache.\<close>

definition lookup_entry :: "IntPtr \<Rightarrow> bool \<Rightarrow> DramDirectoryCntlr \<Rightarrow> (nat option \<times> DramDirectoryCntlr) result" where
  "lookup_entry address modeled c =
     bindR (dir_getDirectoryEntry address modeled (dc_cache c)) (\<lambda>(r, dd). Inr (r, c\<lparr>dc_cache := dd\<rparr>))"

definition require_entry :: "IntPtr \<Rightarrow> DramDirectoryCntlr \<Rightarrow> (nat \<times> DramDirectoryCntlr) result" where
  "require_entry address c =
     bindR (lookup_entry address False c) (\<lambda>(r, c).
     case r of None \<Rightarrow> Inl (AssertFail ''directory_entry'') | Some p \<Rightarrow> Inr (p, c))"

definition the_entry :: "nat \<Rightarrow> DramDirectoryCntlr \<Rightarrow> DirectoryEntry" where
  "the_entry p c = dir_entry (dc_cache c) p"

definition set_entry :: "nat \<Rightarrow> DirectoryEntry \<Rightarrow> DramDirectoryCntlr \<Rightarrow> DramDirectoryCntlr" where
  "set_entry p e c = c\<lparr>dc_cache := dir_update p (\<lambda>_. e) (dc_cache c)\<rparr>"

definition setDState :: "nat \<Rightarrow> dstate_t \<Rightarrow> DramDirectoryCntlr \<Rightarrow> DramDirectoryCntlr" where
  "setDState p st c = set_entry p ((the_entry p c)\<lparr>de_dstate := st\<rparr>) c"

definition setForwarder :: "nat \<Rightarrow> core_id_t \<Rightarrow> DramDirectoryCntlr \<Rightarrow> DramDirectoryCntlr" where
  "setForwarder p core c = set_entry p ((the_entry p c)\<lparr>de_forwarder := core\<rparr>) c"

definition update_front :: "IntPtr \<Rightarrow> (ShmemReq \<Rightarrow> ShmemReq) \<Rightarrow> DramDirectoryCntlr \<Rightarrow> DramDirectoryCntlr" where
  "update_front address f c = c\<lparr>dc_queues := ReqQueueList_update_front (dc_queues c) address f\<rparr>"

text \<open>\<^verbatim>\<open>INV_REQ\<close> to all sharers: a broadcast when the entry does not know them, else one message each.\<close>

fun send_inv_each :: "core_id_t \<Rightarrow> IntPtr \<Rightarrow> core_id_t list \<Rightarrow> DramDirectoryCntlr \<Rightarrow> DramDirectoryCntlr result" where
  "send_inv_each requester address [] c = Inr c"
| "send_inv_each requester address (s # ss) c =
     bindR (sendMsg INV_REQ L2_CACHE requester s address None 0 HIT_UNKNOWN c) (\<lambda>c. send_inv_each requester address ss c)"

definition send_inv :: "core_id_t \<Rightarrow> IntPtr \<Rightarrow> DirectoryEntry \<Rightarrow> DramDirectoryCntlr \<Rightarrow> DramDirectoryCntlr result" where
  "send_inv requester address e c =
     (let sharers_list_pair = getSharersList e
      in if fst sharers_list_pair then broadcastMsg INV_REQ L2_CACHE requester address c
         else send_inv_each requester address (snd sharers_list_pair) c)"

section \<open>NUCA and DRAM\<close>

definition pop_frame :: "DramDirectoryCntlr \<Rightarrow> stack_frame \<times> DramDirectoryCntlr" where
  "pop_frame c = (dc_stack c (dc_frames c), c\<lparr>dc_frames := Suc (dc_frames c)\<rparr>)"

text \<open>The \<open>count\<close> argument of the code is \<open>cnt\<close>; \<^verbatim>\<open>requester\<close> and \<^verbatim>\<open>now\<close> are unused there.\<close>

definition sendDataToNUCA :: "IntPtr \<Rightarrow> UInt8 list option \<Rightarrow> bool \<Rightarrow> DramDirectoryCntlr \<Rightarrow> DramDirectoryCntlr result" where
  "sendDataToNUCA address data_buf cnt c =
     (case dc_nuca c of
        None \<Rightarrow> Inr c
      | Some nu \<Rightarrow>
          (case pop_frame c of (fr, c) \<Rightarrow>
           bindR (NucaCache_write address data_buf (sf_eviction fr) (sf_evict_address fr) (Some (sf_buf fr)) (getElapsedTime c) cnt nu (dc_env c))
             (\<lambda>(latency, hit, eviction, evict_address, evict_buf, nu, g).
           let c = c\<lparr>dc_nuca := Some nu, dc_env := g\<rparr> in
           if eviction
           then bindR (getHome (dc_home_lookup c) evict_address) (\<lambda>dram_node.
                sendMsg DRAM_WRITE_REQ DRAM (dc_core_id c) dram_node evict_address evict_buf (dc_cache_block_size c) HIT_UNKNOWN c)
           else Inr c)))"

definition sendDataToDram :: "IntPtr \<Rightarrow> core_id_t \<Rightarrow> UInt8 list option \<Rightarrow> DramDirectoryCntlr \<Rightarrow> DramDirectoryCntlr result" where
  "sendDataToDram address requester data_buf c =
     (if dc_nuca c \<noteq> None then sendDataToNUCA address data_buf True c
      else bindR (getHome (dc_home_lookup c) address) (\<lambda>dram_node.
           sendMsg DRAM_WRITE_REQ DRAM requester dram_node address data_buf (dc_cache_block_size c) HIT_UNKNOWN c))"

text \<open>The read of the NUCA slice; the data on a hit.\<close>

definition readFromNUCA :: "IntPtr \<Rightarrow> DramDirectoryCntlr \<Rightarrow> (UInt8 list option \<times> DramDirectoryCntlr) result" where
  "readFromNUCA address c =
     (case dc_nuca c of
        None \<Rightarrow> Inr (None, c)
      | Some nu \<Rightarrow>
          (case pop_frame c of (fr, c) \<Rightarrow>
           bindR (NucaCache_read address (Some (sf_buf fr)) (getElapsedTime c) True nu (dc_env c)) (\<lambda>(nuca_latency, hit, buf, nu, g).
           let c = incrElapsedTime nuca_latency (c\<lparr>dc_nuca := Some nu, dc_env := g\<rparr>) in
           Inr (if hit then buf else None, c))))"

section \<open>Processing a request\<close>

type_synonym next_req = "IntPtr \<Rightarrow> DramDirectoryCntlr \<Rightarrow> DramDirectoryCntlr result"

definition retrieveDataAndSendToL2Cache ::
  "next_req \<Rightarrow> msg_t \<Rightarrow> core_id_t \<Rightarrow> IntPtr \<Rightarrow> UInt8 list option \<Rightarrow> DramDirectoryCntlr \<Rightarrow> DramDirectoryCntlr result" where
  "retrieveDataAndSendToL2Cache next reply_msg_type receiver address cached_data_buf c =
     bindR (require_entry address c) (\<lambda>(p, c).
     case cached_data_buf of
       Some buf \<Rightarrow>
         let c = setForwarder p receiver c in
         bindR (sendMsg reply_msg_type L2_CACHE receiver receiver address (Some buf) (dc_cache_block_size c) HIT_CACHE_REMOTE c) (\<lambda>c.
         next address c)
     | None \<Rightarrow>
         bindR (readFromNUCA address c) (\<lambda>(nuca_data, c).
         case nuca_data of
           Some buf \<Rightarrow>
             bindR (sendMsg reply_msg_type L2_CACHE receiver receiver address (Some buf) (dc_cache_block_size c) HIT_NUCA_CACHE c) (\<lambda>c.
             next address c)
         | None \<Rightarrow>
             bindR (assertR (ReqQueueList_size (dc_queues c) address > 0) ''size(address) > 0'') (\<lambda>_.
             bindR (ReqQueueList_front (dc_queues c) address) (\<lambda>shmem_req.
             let e = the_entry p c in
             if dc_protocol c = MESIF \<and> sr_forwarding_from shmem_req = INVALID_CORE_ID \<and> de_dstate e = D_SHARED
                \<and> de_forwarder e \<noteq> INVALID_CORE_ID
             then let forwarder = de_forwarder e;
                      c = update_front address (\<lambda>r. r\<lparr>sr_forwarding_from := forwarder\<rparr>) c
                  in sendMsg WB_REQ L2_CACHE receiver forwarder address None 0 HIT_UNKNOWN c
             else let c = update_front address (\<lambda>r. r\<lparr>sr_wait_for_data := True\<rparr>) c in
                  bindR (getHome (dc_home_lookup c) address) (\<lambda>dram_node.
                  sendMsg DRAM_READ_REQ DRAM receiver dram_node address None 0 HIT_UNKNOWN c)))))"

definition processNullifyReq :: "next_req \<Rightarrow> ShmemReq \<Rightarrow> DramDirectoryCntlr \<Rightarrow> DramDirectoryCntlr result" where
  "processNullifyReq next shmem_req c =
     (let address = sm_address (sr_shmem_msg shmem_req);
          requester = sm_requester (sr_shmem_msg shmem_req)
      in bindR (require_entry address c) (\<lambda>(p, c).
         let e = the_entry p c in
         case de_dstate e of
           D_EXCLUSIVE \<Rightarrow> sendMsg FLUSH_REQ L2_CACHE requester (de_owner e) address None 0 HIT_UNKNOWN c
         | D_MODIFIED \<Rightarrow> sendMsg FLUSH_REQ L2_CACHE requester (de_owner e) address None 0 HIT_UNKNOWN c
         | D_SHARED \<Rightarrow> send_inv requester address e c
         | D_UNCACHED \<Rightarrow>
             bindR (invalidateDirectoryEntry address (dc_cache c)) (\<lambda>dd.
             next address (c\<lparr>dc_cache := dd\<rparr>))
         | D_OWNED \<Rightarrow> Inl (LogError ''Unsupported Directory State'')))"

text \<open>The candidate with the fewest sharers among those without outstanding requests, the first of equals.\<close>

definition choose_candidate :: "DramDirectoryCache \<Rightarrow> ShmemReq ReqQueueList \<Rightarrow> nat list \<Rightarrow> nat option" where
  "choose_candidate dd q ps =
     fold (\<lambda>it best.
       if (case best of None \<Rightarrow> True | Some b \<Rightarrow> getNumSharers (dir_entry dd b) > getNumSharers (dir_entry dd it))
          \<and> ReqQueueList_size q (de_address (dir_entry dd it)) = 0
       then Some it else best) ps None"

definition processDirectoryEntryAllocationReq ::
  "next_req \<Rightarrow> ShmemReq \<Rightarrow> DramDirectoryCntlr \<Rightarrow> (nat \<times> DramDirectoryCntlr) result" where
  "processDirectoryEntryAllocationReq next shmem_req c =
     (let address = sm_address (sr_shmem_msg shmem_req);
          requester = sm_requester (sr_shmem_msg shmem_req);
          msg_time = getElapsedTime c
      in bindR (getReplacementCandidates address (dc_cache c)) (\<lambda>(ps, dd).
         case choose_candidate dd (dc_queues c) ps of
           None \<Rightarrow> Inl (LogError ''Cannot find a directory entry to be replaced with a non-zero request list'')
         | Some p \<Rightarrow>
             let curr_dstate = de_dstate (dir_entry dd p);
                 replaced_address = de_address (dir_entry dd p)
             in bindR (replaceDirectoryEntry replaced_address address True dd) (\<lambda>(q, dd).
                bindR (ShmemReq_create (dc_uninit_where c)
                         (ShmemMsg_create NULLIFY_REQ TAG_DIR TAG_DIR requester replaced_address None 0) msg_time) (\<lambda>nullify_req.
                let c = c\<lparr>dc_cache := dd, dc_evict := (dc_evict c)(curr_dstate := dc_evict c curr_dstate + 1),
                          dc_queues := ReqQueueList_enqueue (dc_queues c) replaced_address nullify_req\<rparr>
                in bindR (assertR (ReqQueueList_size (dc_queues c) replaced_address = 1) ''size(replaced_address) == 1'') (\<lambda>_.
                   bindR (processNullifyReq next nullify_req c) (\<lambda>c. Inr (q, c)))))))"

text \<open>The beginning that the three functions below share: the entry of the address, allocated when there is none.\<close>

definition entry_for_request :: "next_req \<Rightarrow> ShmemReq \<Rightarrow> DramDirectoryCntlr \<Rightarrow> (nat \<times> DramDirectoryCntlr) result" where
  "entry_for_request next shmem_req c =
     bindR (lookup_entry (sm_address (sr_shmem_msg shmem_req)) False c) (\<lambda>(r, c).
     case r of
       Some p \<Rightarrow> Inr (p, c)
     | None \<Rightarrow> processDirectoryEntryAllocationReq next shmem_req c)"

definition add_sharer :: "nat \<Rightarrow> core_id_t \<Rightarrow> DramDirectoryCntlr \<Rightarrow> (bool \<times> DramDirectoryCntlr) result" where
  "add_sharer p requester c =
     bindR (addSharer requester (dir_getMaxHwSharers (dc_cache c)) (the_entry p c)) (\<lambda>(add_result, e).
     Inr (add_result, set_entry p e c))"

definition set_owner :: "nat \<Rightarrow> core_id_t \<Rightarrow> DramDirectoryCntlr \<Rightarrow> DramDirectoryCntlr result" where
  "set_owner p owner_id c = bindR (setOwner owner_id (the_entry p c)) (\<lambda>e. Inr (set_entry p e c))"

text \<open>The requester becomes the only sharer of an uncached line.\<close>

definition make_owner :: "nat \<Rightarrow> core_id_t \<Rightarrow> dstate_t \<Rightarrow> DramDirectoryCntlr \<Rightarrow> DramDirectoryCntlr result" where
  "make_owner p requester st c =
     bindR (add_sharer p requester c) (\<lambda>(add_result, c).
     bindR (assertR add_result ''add_result == true'') (\<lambda>_.
     bindR (set_owner p requester c) (\<lambda>c. Inr (setDState p st c))))"

definition processExReqFromL2Cache :: "next_req \<Rightarrow> ShmemReq \<Rightarrow> UInt8 list option \<Rightarrow> DramDirectoryCntlr \<Rightarrow> DramDirectoryCntlr result" where
  "processExReqFromL2Cache next shmem_req cached_data_buf c =
     (let address = sm_address (sr_shmem_msg shmem_req);
          requester = sm_requester (sr_shmem_msg shmem_req);
          no_data = assertR (cached_data_buf = None) ''cached_data_buf == NULL''
      in bindR (entry_for_request next shmem_req c) (\<lambda>(p, c).
         let e = the_entry p c in
         case de_dstate e of
           D_EXCLUSIVE \<Rightarrow> bindR no_data (\<lambda>_. sendMsg FLUSH_REQ L2_CACHE requester (de_owner e) address None 0 HIT_UNKNOWN c)
         | D_MODIFIED \<Rightarrow> bindR no_data (\<lambda>_. sendMsg FLUSH_REQ L2_CACHE requester (de_owner e) address None 0 HIT_UNKNOWN c)
         | D_SHARED \<Rightarrow> bindR no_data (\<lambda>_. send_inv requester address e c)
         | D_UNCACHED \<Rightarrow>
             bindR (make_owner p requester D_MODIFIED c) (\<lambda>c.
             retrieveDataAndSendToL2Cache next EX_REP requester address cached_data_buf c)
         | D_OWNED \<Rightarrow> Inl (LogError ''Unsupported Directory State'')))"

definition processShReqFromL2Cache :: "next_req \<Rightarrow> ShmemReq \<Rightarrow> UInt8 list option \<Rightarrow> DramDirectoryCntlr \<Rightarrow> DramDirectoryCntlr result" where
  "processShReqFromL2Cache next shmem_req cached_data_buf c =
     (let address = sm_address (sr_shmem_msg shmem_req);
          requester = sm_requester (sr_shmem_msg shmem_req);
          no_data = assertR (cached_data_buf = None) ''cached_data_buf == NULL''
      in bindR (entry_for_request next shmem_req c) (\<lambda>(p, c).
         let e = the_entry p c in
         case de_dstate e of
           D_EXCLUSIVE \<Rightarrow>
             bindR (assertR (requester \<noteq> de_owner e) ''requester != directory_entry->getOwner()'') (\<lambda>_.
             bindR no_data (\<lambda>_. sendMsg WB_REQ L2_CACHE requester (de_owner e) address None 0 HIT_UNKNOWN c))
         | D_MODIFIED \<Rightarrow>
             bindR no_data (\<lambda>_. sendMsg WB_REQ L2_CACHE requester (de_owner e) address None 0 HIT_UNKNOWN c)
         | D_SHARED \<Rightarrow>
             bindR (hasSharer requester e) (\<lambda>has.
             if has
             then let c = c\<lparr>dc_forward := dc_forward c + 1\<rparr>;
                      c = (if cached_data_buf = None then c\<lparr>dc_forward_failed := dc_forward_failed c + 1\<rparr> else c)
                  in retrieveDataAndSendToL2Cache next SH_REP requester address cached_data_buf c
             else bindR (add_sharer p requester c) (\<lambda>(add_result, c).
                  if \<not> add_result
                  then bindR (getOneSharer (the_entry p c)) (\<lambda>(sharer_id, e).
                       sendMsg INV_REQ L2_CACHE requester sharer_id address None 0 HIT_UNKNOWN (set_entry p e c))
                  else retrieveDataAndSendToL2Cache next SH_REP requester address cached_data_buf c))
         | D_UNCACHED \<Rightarrow>
             (if dc_protocol c = MSI
              then bindR (make_owner p requester D_SHARED c) (\<lambda>c.
                   retrieveDataAndSendToL2Cache next SH_REP requester address cached_data_buf c)
              else bindR (make_owner p requester D_EXCLUSIVE c) (\<lambda>c.
                   retrieveDataAndSendToL2Cache next EX_REP requester address cached_data_buf c))
         | D_OWNED \<Rightarrow> Inl (LogError ''Unsupported Directory State'')))"

text \<open>
  The loop of \<^verbatim>\<open>processUpgradeReqFromL2Cache\<close> over the sharers: all but the requester are invalidated, and when the requester
  has lost its copy the first of the list is flushed instead.
\<close>

fun send_upgrade_invs :: "bool \<Rightarrow> core_id_t \<Rightarrow> IntPtr \<Rightarrow> nat \<Rightarrow> core_id_t list \<Rightarrow> DramDirectoryCntlr \<Rightarrow> DramDirectoryCntlr result" where
  "send_upgrade_invs requesterHasCopy requester address i [] c = Inr c"
| "send_upgrade_invs requesterHasCopy requester address i (s # ss) c =
     bindR (if s \<noteq> requester
            then sendMsg (if \<not> requesterHasCopy \<and> i = 0 then FLUSH_REQ else INV_REQ) L2_CACHE requester s address None 0 HIT_UNKNOWN c
            else Inr c) (\<lambda>c.
     send_upgrade_invs requesterHasCopy requester address (Suc i) ss c)"

definition processUpgradeReqFromL2Cache :: "next_req \<Rightarrow> ShmemReq \<Rightarrow> UInt8 list option \<Rightarrow> DramDirectoryCntlr \<Rightarrow> DramDirectoryCntlr result" where
  "processUpgradeReqFromL2Cache next shmem_req cached_data_buf c =
     (let shmem_msg = sr_shmem_msg shmem_req;
          address = sm_address shmem_msg;
          requester = sm_requester shmem_msg
      in bindR (entry_for_request next shmem_req c) (\<lambda>(p, c).
         let e = the_entry p c;
             sharers_list_pair = getSharersList e;
             owned = (case snd sharers_list_pair of
                        [] \<Rightarrow> Inl (Trap ''sharers_list_pair.second[0]'')
                      | s # _ \<Rightarrow>
                          if s = requester
                          then bindR (assertR (de_owner e = requester) ''getOwner() == requester'') (\<lambda>_.
                               bindR (sendMsg UPGRADE_REP L2_CACHE requester requester address None 0 HIT_UNKNOWN c) (\<lambda>c.
                               next address (setDState p D_MODIFIED c)))
                          else sendMsg FLUSH_REQ L2_CACHE requester (de_owner e) address None 0 HIT_UNKNOWN c)
         in case de_dstate e of
              D_EXCLUSIVE \<Rightarrow> owned
            | D_MODIFIED \<Rightarrow> owned
            | D_SHARED \<Rightarrow>
                (if snd sharers_list_pair = [requester]
                 then bindR (set_owner p requester c) (\<lambda>c.
                      bindR (sendMsg UPGRADE_REP L2_CACHE requester requester address None 0 HIT_UNKNOWN (setDState p D_MODIFIED c)) (\<lambda>c.
                      next address c))
                 else bindR (hasSharer requester e) (\<lambda>requesterHasCopy.
                      if fst sharers_list_pair then broadcastMsg INV_REQ L2_CACHE requester address c
                      else send_upgrade_invs requesterHasCopy requester address 0 (snd sharers_list_pair) c))
            | D_UNCACHED \<Rightarrow>
                bindR (assertR (length (snd sharers_list_pair) = 0) ''sharers_list_pair.second.size() == 0'') (\<lambda>_.
                bindR (make_owner p requester D_MODIFIED c) (\<lambda>c.
                let cached_data_buf = (if cached_data_buf = None then sm_data_buf shmem_msg else cached_data_buf)
                in retrieveDataAndSendToL2Cache next EX_REP requester address cached_data_buf c))
            | D_OWNED \<Rightarrow> Inl (LogError ''Unsupported Directory State'')))"

primrec processNextReqFromL2Cache :: "nat \<Rightarrow> next_req" where
  "processNextReqFromL2Cache 0 = (\<lambda>address c. Inl Diverges)"
| "processNextReqFromL2Cache (Suc n) = (\<lambda>address c.
     bindR (assertR (ReqQueueList_size (dc_queues c) address \<ge> 1) ''size(address) >= 1'') (\<lambda>_.
     bindR (ReqQueueList_dequeue (dc_queues c) address) (\<lambda>(completed_shmem_req, q).
     let c = c\<lparr>dc_queues := q\<rparr> in
     if ReqQueueList_empty (dc_queues c) address then Inr c
     else bindR (ReqQueueList_front (dc_queues c) address) (\<lambda>shmem_req.
          let c = setElapsedTime (sr_time shmem_req) c in
          case sm_msg_type (sr_shmem_msg shmem_req) of
            EX_REQ \<Rightarrow> processExReqFromL2Cache (processNextReqFromL2Cache n) shmem_req None c
          | SH_REQ \<Rightarrow> processShReqFromL2Cache (processNextReqFromL2Cache n) shmem_req None c
          | UPGRADE_REQ \<Rightarrow> processUpgradeReqFromL2Cache (processNextReqFromL2Cache n) shmem_req None c
          | _ \<Rightarrow> Inl (LogError ''Unrecognized Request'')))))"

section \<open>Replies\<close>

text \<open>The reply to a request whose data has come from DRAM.\<close>

definition dram_reply_type :: "msg_t \<Rightarrow> dstate_t \<Rightarrow> msg_t result" where
  "dram_reply_type t curr_dstate =
     (case t of
        SH_REQ \<Rightarrow>
          bindR (assertR (curr_dstate = D_SHARED \<or> curr_dstate = D_EXCLUSIVE) ''SHARED or EXCLUSIVE'') (\<lambda>_.
          Inr (if curr_dstate = D_EXCLUSIVE then EX_REP else SH_REP))
      | EX_REQ \<Rightarrow> bindR (assertR (curr_dstate = D_MODIFIED) ''curr_dstate == MODIFIED'') (\<lambda>_. Inr EX_REP)
      | UPGRADE_REQ \<Rightarrow> Inr EX_REP
      | _ \<Rightarrow> Inl (LogError ''Unsupported request type''))"

definition processDRAMReply :: "next_req \<Rightarrow> core_id_t \<Rightarrow> ShmemMsg \<Rightarrow> DramDirectoryCntlr \<Rightarrow> DramDirectoryCntlr result" where
  "processDRAMReply next sender shmem_msg c =
     (let address = sm_address shmem_msg
      in bindR (assertR (ReqQueueList_size (dc_queues c) address \<ge> 1) ''size(address) >= 1'') (\<lambda>_.
         bindR (ReqQueueList_front (dc_queues c) address) (\<lambda>shmem_req.
         bindR (require_entry address c) (\<lambda>(p, c).
         let curr_dstate = de_dstate (the_entry p c);
             requester = sm_requester (sr_shmem_msg shmem_req)
         in bindR (dram_reply_type (sm_msg_type (sr_shmem_msg shmem_req)) curr_dstate) (\<lambda>reply_msg_type.
            let hit_where = (if sm_where shmem_msg = HIT_DRAM
                             then (if sender = sm_requester shmem_msg then HIT_DRAM_LOCAL else HIT_DRAM_REMOTE)
                             else sm_where shmem_msg)
            in bindR (sendMsg reply_msg_type L2_CACHE requester requester address (sm_data_buf shmem_msg) (dc_cache_block_size c) hit_where c) (\<lambda>c.
               bindR (sendDataToNUCA address (sm_data_buf shmem_msg) False c) (\<lambda>c.
               next address c)))))))"

definition remove_sharer :: "nat \<Rightarrow> core_id_t \<Rightarrow> DramDirectoryCntlr \<Rightarrow> DramDirectoryCntlr result" where
  "remove_sharer p sender c = bindR (removeSharer sender False (the_entry p c)) (\<lambda>e. Inr (set_entry p e c))"

text \<open>The front request takes the later of its time and the current one, and so does the simulation thread.\<close>

definition wake_front :: "IntPtr \<Rightarrow> DramDirectoryCntlr \<Rightarrow> (ShmemReq \<times> DramDirectoryCntlr) result" where
  "wake_front address c =
     (let c = update_front address (ShmemReq_updateTime (getElapsedTime c)) c
      in bindR (ReqQueueList_front (dc_queues c) address) (\<lambda>shmem_req.
         Inr (shmem_req, updateElapsedTime (sr_time shmem_req) c)))"

definition processInvRepFromL2Cache :: "next_req \<Rightarrow> core_id_t \<Rightarrow> ShmemMsg \<Rightarrow> DramDirectoryCntlr \<Rightarrow> DramDirectoryCntlr result" where
  "processInvRepFromL2Cache next sender shmem_msg c =
     (let address = sm_address shmem_msg
      in bindR (require_entry address c) (\<lambda>(p, c).
         bindR (logAssertR (de_dstate (the_entry p c) = D_SHARED \<or> de_dstate (the_entry p c) = D_EXCLUSIVE) ''Ooops'') (\<lambda>_.
         bindR (remove_sharer p sender c) (\<lambda>c.
         let c = (if de_forwarder (the_entry p c) = sender then setForwarder p INVALID_CORE_ID c else c);
             c = (if getNumSharers (the_entry p c) = 0 then setDState p D_UNCACHED c else c)
         in if ReqQueueList_size (dc_queues c) address > 0
            then bindR (wake_front address c) (\<lambda>(shmem_req, c).
                 case sm_msg_type (sr_shmem_msg shmem_req) of
                   EX_REQ \<Rightarrow>
                     if de_dstate (the_entry p c) = D_UNCACHED then processExReqFromL2Cache next shmem_req None c else Inr c
                 | UPGRADE_REQ \<Rightarrow>
                     if getNumSharers (the_entry p c) = 1
                     then bindR (hasSharer (sm_requester (sr_shmem_msg shmem_req)) (the_entry p c)) (\<lambda>has.
                          if has then processUpgradeReqFromL2Cache next shmem_req None c else Inr c)
                     else if getNumSharers (the_entry p c) = 0
                     then processUpgradeReqFromL2Cache next shmem_req None (setDState p D_UNCACHED c)
                     else Inr c
                 | SH_REQ \<Rightarrow>
                     if sr_wait_for_data shmem_req then Inr c
                     else if isForwarding shmem_req \<and> sender \<noteq> sr_forwarding_from shmem_req then Inr c
                     else processShReqFromL2Cache next shmem_req None c
                 | _ \<Rightarrow>
                     if de_dstate (the_entry p c) = D_UNCACHED then processNullifyReq next shmem_req c else Inr c)
            else Inr c))))"

definition processFlushRepFromL2Cache :: "next_req \<Rightarrow> core_id_t \<Rightarrow> ShmemMsg \<Rightarrow> DramDirectoryCntlr \<Rightarrow> DramDirectoryCntlr result" where
  "processFlushRepFromL2Cache next sender shmem_msg c =
     (let address = sm_address shmem_msg; buf = sm_data_buf shmem_msg
      in bindR (require_entry address c) (\<lambda>(p, c).
         bindR (hasSharer sender (the_entry p c)) (\<lambda>has.
         bindR (assertR has ''directory_entry->hasSharer(sender)'') (\<lambda>_.
         bindR (remove_sharer p sender c) (\<lambda>c.
         bindR (set_owner p INVALID_CORE_ID (setForwarder p INVALID_CORE_ID c)) (\<lambda>c.
         bindR (if getNumSharers (the_entry p c) = 0 then Inr (setDState p D_UNCACHED c)
                else bindR (assertR (de_dstate (the_entry p c) = D_SHARED) ''getDState() == SHARED'') (\<lambda>_. Inr c)) (\<lambda>c.
         if ReqQueueList_size (dc_queues c) address \<noteq> 0
         then bindR (wake_front address c) (\<lambda>(shmem_req, c).
              case sm_msg_type (sr_shmem_msg shmem_req) of
                EX_REQ \<Rightarrow> processExReqFromL2Cache next shmem_req buf c
              | SH_REQ \<Rightarrow>
                  bindR (sendDataToDram address (sm_requester shmem_msg) buf c) (\<lambda>c.
                  processShReqFromL2Cache next shmem_req buf c)
              | UPGRADE_REQ \<Rightarrow>
                  if getNumSharers (the_entry p c) = 0
                  then processUpgradeReqFromL2Cache next shmem_req buf (setDState p D_UNCACHED c)
                  else Inr (update_front address (\<lambda>r. r\<lparr>sr_shmem_msg := setDataBuf buf (sr_shmem_msg r)\<rparr>) c)
              | _ \<Rightarrow>
                  bindR (sendDataToDram address (sm_requester shmem_msg) buf c) (\<lambda>c.
                  processNullifyReq next shmem_req c))
         else sendDataToDram address (sm_requester shmem_msg) buf c)))))))"

definition processWbRepFromL2Cache :: "next_req \<Rightarrow> core_id_t \<Rightarrow> ShmemMsg \<Rightarrow> DramDirectoryCntlr \<Rightarrow> DramDirectoryCntlr result" where
  "processWbRepFromL2Cache next sender shmem_msg c =
     (let address = sm_address shmem_msg
      in bindR (require_entry address c) (\<lambda>(p, c).
         bindR (hasSharer sender (the_entry p c)) (\<lambda>has.
         bindR (assertR has ''directory_entry->hasSharer(sender)'') (\<lambda>_.
         bindR (set_owner p INVALID_CORE_ID c) (\<lambda>c.
         let c = setDState p D_SHARED c
         in if ReqQueueList_size (dc_queues c) address \<noteq> 0
            then bindR (wake_front address c) (\<lambda>(shmem_req, c).
                 bindR (logAssertR (sm_msg_type (sr_shmem_msg shmem_req) = SH_REQ) ''Address, Req'') (\<lambda>_.
                 processShReqFromL2Cache next shmem_req (sm_data_buf shmem_msg) c))
            else Inl (LogError ''Should not reach here''))))))"

section \<open>Messages\<close>

text \<open>A new request is queued, and processed at once when no other is outstanding for its address.\<close>

definition enqueue_request ::
  "(ShmemReq \<Rightarrow> DramDirectoryCntlr \<Rightarrow> DramDirectoryCntlr result) \<Rightarrow> ShmemMsg \<Rightarrow> UInt64 \<Rightarrow> DramDirectoryCntlr \<Rightarrow> DramDirectoryCntlr result" where
  "enqueue_request process shmem_msg msg_time c =
     bindR (ShmemReq_create (dc_uninit_where c) shmem_msg msg_time) (\<lambda>shmem_req.
     let address = sm_address shmem_msg;
         c = c\<lparr>dc_queues := ReqQueueList_enqueue (dc_queues c) address shmem_req\<rparr>
     in if ReqQueueList_size (dc_queues c) address = 1 then process shmem_req c else Inr c)"

definition handleMsgFromL2Cache :: "next_req \<Rightarrow> core_id_t \<Rightarrow> ShmemMsg \<Rightarrow> DramDirectoryCntlr \<Rightarrow> DramDirectoryCntlr result" where
  "handleMsgFromL2Cache next sender shmem_msg c =
     (let msg_time = getElapsedTime c
      in bindR (lookup_entry (sm_address shmem_msg) True c) (\<lambda>(_, c).
         case sm_msg_type shmem_msg of
           EX_REQ \<Rightarrow> enqueue_request (\<lambda>r. processExReqFromL2Cache next r None) shmem_msg msg_time c
         | SH_REQ \<Rightarrow> enqueue_request (\<lambda>r. processShReqFromL2Cache next r None) shmem_msg msg_time c
         | INV_REP \<Rightarrow> processInvRepFromL2Cache next sender shmem_msg c
         | FLUSH_REP \<Rightarrow> processFlushRepFromL2Cache next sender shmem_msg c
         | WB_REP \<Rightarrow> processWbRepFromL2Cache next sender shmem_msg c
         | UPGRADE_REQ \<Rightarrow> enqueue_request (\<lambda>r. processUpgradeReqFromL2Cache next r None) shmem_msg msg_time c
         | _ \<Rightarrow> Inl (LogError ''Unrecognized Shmem Msg Type'')))"

definition handleMsgFromDRAM :: "next_req \<Rightarrow> core_id_t \<Rightarrow> ShmemMsg \<Rightarrow> DramDirectoryCntlr \<Rightarrow> DramDirectoryCntlr result" where
  "handleMsgFromDRAM next sender shmem_msg c =
     (case sm_msg_type shmem_msg of
        DRAM_READ_REP \<Rightarrow> processDRAMReply next sender shmem_msg c
      | _ \<Rightarrow> Inl (LogError ''Unrecognized Shmem Msg Type''))"

text \<open>
  The part of \<^verbatim>\<open>MemoryManager::handleMsgFromNetwork\<close> that serves the tag directory: the time of the packet becomes the elapsed
  time, and the message goes to the handler for its sender. \<open>n\<close> is the fuel for the requests that
  become ready.
\<close>

definition receive_packet :: "nat \<Rightarrow> NetPacket \<Rightarrow> DramDirectoryCntlr \<Rightarrow> DramDirectoryCntlr result" where
  "receive_packet n packet c =
     (let shmem_msg = unpack_msg (np_data packet);
          c = setElapsedTime (np_time packet) c
      in case sm_sender_mem_component shmem_msg of
           LAST_LEVEL_CACHE \<Rightarrow> handleMsgFromL2Cache (processNextReqFromL2Cache n) (np_sender packet) shmem_msg c
         | DRAM \<Rightarrow> handleMsgFromDRAM (processNextReqFromL2Cache n) (np_sender packet) shmem_msg c
         | _ \<Rightarrow> Inl (LogError ''Unrecognized sender component''))"

end
