(* ===== verification/Directory_Protocol.thy ===== *)
theory Directory_Protocol
  imports Directory_Cntlr
begin

text \<open>
  The protocol invariant of the directory controller and what follows from it: the directory always describes a
  coherent state (one owner or many readers, never both), an exclusive reply goes out
  only to the core that the directory records as the sole sharer, and
  the mutual recursion of the handlers ends.
\<close>

section \<open>Invariant\<close>

abbreviation cmap :: "DramDirectoryCntlr \<Rightarrow> IntPtr \<Rightarrow> DirectoryEntry option" where
  "cmap c \<equiv> dir_map (dc_cache c)"

abbreviation qs :: "DramDirectoryCntlr \<Rightarrow> IntPtr \<Rightarrow> ShmemReq list" where
  "qs c \<equiv> rq_contents (dc_queues c)"

abbreviation req_type :: "ShmemReq \<Rightarrow> msg_t" where
  "req_type r \<equiv> sm_msg_type (sr_shmem_msg r)"

abbreviation req_core :: "ShmemReq \<Rightarrow> core_id_t" where
  "req_core r \<equiv> sm_requester (sr_shmem_msg r)"

abbreviation req_address :: "ShmemReq \<Rightarrow> IntPtr" where
  "req_address r \<equiv> sm_address (sr_shmem_msg r)"

text \<open>One entry: many readers, or one owner, or nobody. The state \<^verbatim>\<open>OWNED\<close> is never entered.\<close>

definition entry_coherent :: "DirectoryEntry \<Rightarrow> bool" where
  "entry_coherent e =
     (entry_wf e \<and>
      (case de_dstate e of
         D_UNCACHED \<Rightarrow> sharer_set e = {}
       | D_SHARED \<Rightarrow> sharer_set e \<noteq> {}
       | D_MODIFIED \<Rightarrow> sharer_set e = {de_owner e}
       | D_EXCLUSIVE \<Rightarrow> sharer_set e = {de_owner e}
       | D_OWNED \<Rightarrow> False))"

text \<open>
  A request that waits for data from DRAM has already been recorded in the directory. In the weak form, which holds in the
  middle of a handler, the line may have become uncached again.
\<close>

definition waiting_ok :: "bool \<Rightarrow> DirectoryEntry option \<Rightarrow> ShmemReq \<Rightarrow> bool" where
  "waiting_ok weak eo r =
     (sr_wait_for_data r \<longrightarrow> req_type r \<in> {EX_REQ, SH_REQ, UPGRADE_REQ} \<and>
       (\<exists>e. eo = Some e \<and>
          (if req_type r = SH_REQ then de_dstate e = D_EXCLUSIVE \<longrightarrow> sharer_set e = {req_core r}
           else (weak \<and> de_dstate e = D_UNCACHED) \<or> (de_dstate e = D_MODIFIED \<and> sharer_set e = {req_core r}))))"

definition queue_ok :: "bool \<Rightarrow> DirectoryEntry option \<Rightarrow> IntPtr \<Rightarrow> ShmemReq list \<Rightarrow> bool" where
  "queue_ok weak eo a rs =
     ((\<forall>r \<in> set rs. req_address r = a \<and> a \<noteq> INVALID_ADDRESS)
      \<and> (rs \<noteq> [] \<longrightarrow> waiting_ok weak eo (hd rs) \<and> (\<forall>r \<in> set (tl rs). \<not> sr_wait_for_data r)))"

definition cntlr_inv :: "IntPtr set \<Rightarrow> DramDirectoryCntlr \<Rightarrow> bool" where
  "cntlr_inv A c =
     (dir_inv (dc_cache c) \<and> rq_inv (dc_queues c)
      \<and> (\<forall>a e. cmap c a = Some e \<longrightarrow> entry_coherent e)
      \<and> (\<forall>a. queue_ok (a \<in> A) (cmap c a) a (qs c a)))"

text \<open>The directory records \<open>r\<close> as the only sharer of \<open>a\<close>, with the right to write.\<close>

definition owned :: "DramDirectoryCntlr \<Rightarrow> IntPtr \<Rightarrow> core_id_t \<Rightarrow> bool" where
  "owned c a r = (\<exists>e. cmap c a = Some e \<and> (de_dstate e = D_MODIFIED \<or> de_dstate e = D_EXCLUSIVE) \<and> sharer_set e = {r})"

definition is_grant :: "NetPacket \<Rightarrow> bool" where
  "is_grant pk = (sm_msg_type (packet_msg pk) = EX_REP \<or> sm_msg_type (packet_msg pk) = UPGRADE_REP)"

definition grant_ok :: "DramDirectoryCntlr \<Rightarrow> NetPacket \<Rightarrow> bool" where
  "grant_ok c pk = (is_grant pk \<longrightarrow> (\<exists>r. np_receiver pk = ToCore r \<and> owned c (sm_address (packet_msg pk)) r))"

text \<open>
  What processing a request does to the controller: the invariant holds again, nobody loses ownership, and messages are only added, grants
  only to owners.
\<close>

definition progress :: "DramDirectoryCntlr \<Rightarrow> DramDirectoryCntlr \<Rightarrow> bool" where
  "progress c c' =
     (cntlr_inv {} c' \<and> (\<forall>a r. owned c a r \<longrightarrow> owned c' a r)
      \<and> (\<exists>pks. dc_sent c' = dc_sent c @ pks \<and> (\<forall>pk \<in> set pks. grant_ok c' pk)))"

text \<open>
  What the functions rely on when they ask for the next request: progress, and for a queue with one request that it is only taken off.
\<close>

definition pops_last :: "next_req \<Rightarrow> bool" where
  "pops_last next = (\<forall>a c c' r. rq_inv (dc_queues c) \<longrightarrow> qs c a = [r] \<longrightarrow> next a c = Inr c' \<longrightarrow>
     (\<exists>q. c' = c\<lparr>dc_queues := q\<rparr> \<and> rq_inv q \<and> rq_contents q = (qs c)(a := [])))"

definition next_ok :: "next_req \<Rightarrow> bool" where
  "next_ok next =
     (pops_last next \<and> (\<forall>a c c'. a \<noteq> INVALID_ADDRESS \<longrightarrow> cntlr_inv {} c \<longrightarrow> next a c = Inr c' \<longrightarrow> progress c c'))"

lemma progress_refl: "cntlr_inv {} c \<Longrightarrow> progress c c"
  by (simp add: progress_def)

text \<open>Progress up to the invariant for the addresses \<open>A\<close>.\<close>

definition advance :: "IntPtr set \<Rightarrow> DramDirectoryCntlr \<Rightarrow> DramDirectoryCntlr \<Rightarrow> bool" where
  "advance A c c' =
     (cntlr_inv A c' \<and> (\<forall>a r. owned c a r \<longrightarrow> owned c' a r)
      \<and> (\<exists>pks. dc_sent c' = dc_sent c @ pks \<and> (\<forall>pk \<in> set pks. grant_ok c' pk)))"

lemma advance_trans:
  assumes "advance A c c1" "progress c1 c2"
  shows "progress c c2"
proof -
  obtain p1 p2 where s: "dc_sent c1 = dc_sent c @ p1" "dc_sent c2 = dc_sent c1 @ p2" "\<forall>pk \<in> set p1. grant_ok c1 pk" "\<forall>pk \<in> set p2. grant_ok c2 pk"
    using assms by (auto simp: progress_def advance_def)
  have "\<forall>pk \<in> set p1. grant_ok c2 pk" using s(3) assms(2) by (fastforce simp: grant_ok_def progress_def)
  then show ?thesis using assms s by (auto simp: progress_def advance_def)
qed

lemma progress_advance: "progress c c' = advance {} c c'"
  by (simp add: progress_def advance_def)

lemma progress_trans: "progress c c1 \<Longrightarrow> progress c1 c2 \<Longrightarrow> progress c c2"
  using advance_trans progress_advance by blast

lemma cntlr_inv_mono: "cntlr_inv {} c \<Longrightarrow> cntlr_inv A c"
  by (fastforce simp: cntlr_inv_def queue_ok_def waiting_ok_def)

lemma next_okD: "next_ok next \<Longrightarrow> a \<noteq> INVALID_ADDRESS \<Longrightarrow> cntlr_inv {} c \<Longrightarrow> next a c = Inr c' \<Longrightarrow> progress c c'"
  by (auto simp: next_ok_def)

lemma pops_lastD:
  "next_ok next \<Longrightarrow> rq_inv (dc_queues c) \<Longrightarrow> qs c a = [r] \<Longrightarrow> next a c = Inr c' \<Longrightarrow>
   \<exists>q. c' = c\<lparr>dc_queues := q\<rparr> \<and> rq_inv q \<and> rq_contents q = (qs c)(a := [])"
  unfolding next_ok_def pops_last_def by blast

text \<open>The invariant and ownership only depend on the directory map and the queues.\<close>

definition same_view :: "DramDirectoryCntlr \<Rightarrow> DramDirectoryCntlr \<Rightarrow> bool" where
  "same_view c c' =
     (cmap c' = cmap c \<and> (dir_inv (dc_cache c) \<longrightarrow> dir_inv (dc_cache c')) \<and> dc_queues c' = dc_queues c \<and> dc_sent c' = dc_sent c)"

lemma same_view_inv: "same_view c c' \<Longrightarrow> cntlr_inv A c \<Longrightarrow> cntlr_inv A c'"
  by (simp add: same_view_def cntlr_inv_def)

lemma same_view_owned: "same_view c c' \<Longrightarrow> owned c' = owned c"
  by (simp add: same_view_def owned_def fun_eq_iff)

lemma same_view_progress: "same_view c c' \<Longrightarrow> cntlr_inv {} c \<Longrightarrow> progress c c'"
  by (auto simp: progress_def same_view_owned same_view_inv) (simp add: same_view_def)

lemma same_view_trans: "same_view c c1 \<Longrightarrow> same_view c1 c2 \<Longrightarrow> same_view c c2"
  by (simp add: same_view_def)

lemma dir_map_time [simp]: "dir_map (dd\<lparr>dd_elapsed := t\<rparr>) = dir_map dd"
  by (simp add: dir_map_def fun_eq_iff)

lemma same_view_simps [simp]:
  "same_view c (setElapsedTime t c)" "same_view c (updateElapsedTime t c)" "same_view c (incrElapsedTime t c)"
  "same_view c (c\<lparr>dc_forward := n\<rparr>)" "same_view c (c\<lparr>dc_forward_failed := n\<rparr>)" "same_view c (c\<lparr>dc_frames := k\<rparr>)"
  "same_view c c"
  by (simp_all add: same_view_def setElapsedTime_def updateElapsedTime_def incrElapsedTime_def)

section \<open>Sending\<close>

lemma sendMsg_Inr:
  assumes "sendMsg t rc rq rcv a b l w c = Inr c'"
  shows "\<exists>pk. c' = c\<lparr>dc_sent := dc_sent c @ [pk]\<rparr> \<and> sm_msg_type (packet_msg pk) = t \<and> np_receiver pk = ToCore rcv
    \<and> sm_address (packet_msg pk) = a \<and> sm_requester (packet_msg pk) = rq \<and> sm_receiver_mem_component (packet_msg pk) = rc"
  using assms sendMsg_packet_Inr by (auto simp: sendMsg_def)

lemma inv_sent [simp]: "cntlr_inv A (c\<lparr>dc_sent := s\<rparr>) = cntlr_inv A c"
  by (simp add: cntlr_inv_def)

lemma owned_sent [simp]: "owned (c\<lparr>dc_sent := s\<rparr>) = owned c"
  by (simp add: owned_def fun_eq_iff)

text \<open>Sending a message other than a grant, or a grant to the owner, is progress.\<close>

lemma progress_send:
  assumes "cntlr_inv {} c" "sendMsg t rc rq rcv a b l w c = Inr c'" "t = EX_REP \<or> t = UPGRADE_REP \<Longrightarrow> owned c a rcv"
  shows "progress c c'"
proof -
  obtain pk where pk: "c' = c\<lparr>dc_sent := dc_sent c @ [pk]\<rparr>" "sm_msg_type (packet_msg pk) = t" "np_receiver pk = ToCore rcv"
    "sm_address (packet_msg pk) = a" using sendMsg_Inr [OF assms(2)] by blast
  then show ?thesis using assms(1,3) by (auto simp: progress_def grant_ok_def is_grant_def)
qed

lemma progress_send_plain:
  "cntlr_inv {} c \<Longrightarrow> sendMsg t rc rq rcv a b l w c = Inr c' \<Longrightarrow> t \<noteq> EX_REP \<Longrightarrow> t \<noteq> UPGRADE_REP \<Longrightarrow> progress c c'"
  by (erule progress_send) auto

lemma progress_broadcast:
  assumes "cntlr_inv {} c" "broadcastMsg INV_REQ rc rq a c = Inr c'"
  shows "progress c c'"
proof -
  obtain pk where pk: "c' = c\<lparr>dc_sent := dc_sent c @ [pk]\<rparr>" "sm_msg_type (packet_msg pk) = INV_REQ"
    using assms(2) broadcastMsg_packet_Inr by (auto simp: broadcastMsg_def)
  then show ?thesis using assms(1) by (auto simp: progress_def grant_ok_def is_grant_def)
qed

lemma progress_send_inv_each:
  "cntlr_inv {} c \<Longrightarrow> send_inv_each rq a ss c = Inr c' \<Longrightarrow> progress c c'"
proof (induction ss arbitrary: c)
  case Nil
  then show ?case by (simp add: progress_refl)
next
  case (Cons s ss)
  then obtain c1 where "sendMsg INV_REQ L2_CACHE rq s a None 0 HIT_UNKNOWN c = Inr c1" "send_inv_each rq a ss c1 = Inr c'" by auto
  moreover from this have "progress c c1" using progress_send_plain [OF Cons.prems(1)] by simp
  ultimately show ?case using Cons.IH [of c1] progress_trans by (auto simp: progress_def)
qed

lemma progress_send_inv: "cntlr_inv {} c \<Longrightarrow> send_inv rq a e c = Inr c' \<Longrightarrow> progress c c'"
  using progress_broadcast progress_send_inv_each by (auto simp: send_inv_def Let_def split: if_splits)

lemma progress_upgrade_invs:
  "cntlr_inv {} c \<Longrightarrow> send_upgrade_invs h rq a i ss c = Inr c' \<Longrightarrow> progress c c'"
proof (induction ss arbitrary: c i)
  case Nil
  then show ?case by (simp add: progress_refl)
next
  case (Cons s ss)
  then obtain c1 where c1: "(if s \<noteq> rq then sendMsg (if \<not> h \<and> i = 0 then FLUSH_REQ else INV_REQ) L2_CACHE rq s a None 0 HIT_UNKNOWN c else Inr c) = Inr c1"
    "send_upgrade_invs h rq a (Suc i) ss c1 = Inr c'" by auto
  then have "progress c c1"
    using progress_send_plain [OF Cons.prems(1)] progress_refl [OF Cons.prems(1)] by (simp split: if_splits)
  then show ?case using Cons.IH [OF _ c1(2)] progress_trans [of c c1 c'] by (simp add: progress_def)
qed

section \<open>Entries\<close>

text \<open>\<open>p\<close> points to the entry of \<open>a\<close>.\<close>

definition at_entry :: "IntPtr \<Rightarrow> nat \<Rightarrow> DramDirectoryCntlr \<Rightarrow> bool" where
  "at_entry a p c = (dir_inv (dc_cache c) \<and> dir_lookup (dc_cache c) a = Some p \<and> a \<noteq> INVALID_ADDRESS)"

lemma at_entry_map: "at_entry a p c \<Longrightarrow> cmap c a = Some (the_entry p c) \<and> de_address (the_entry p c) = a"
  using dm.contents_pointer [of a "dc_cache c"] dm.contents_address [of "dc_cache c" a]
  by (auto simp: at_entry_def the_entry_def)

lemma set_entry_at:
  assumes "at_entry a p c" "de_address e = a"
  shows "at_entry a p (set_entry p e c) \<and> the_entry p (set_entry p e c) = e \<and> cmap (set_entry p e c) = (cmap c)(a \<mapsto> e)"
proof -
  have I: "dir_inv (dc_cache c)" "dir_lookup (dc_cache c) a = Some p" "a \<noteq> INVALID_ADDRESS" using assms(1) by (simp_all add: at_entry_def)
  have "de_address e = de_address (dir_entry (dc_cache c) p)" using at_entry_map [OF assms(1)] assms(2) by (simp add: the_entry_def)
  then show ?thesis using dm.upd_at [OF I, where f = "\<lambda>_. e"] I by (simp add: at_entry_def set_entry_def the_entry_def)
qed

text \<open>An update of the directory alone, with the entry of \<open>a\<close> replaced.\<close>

definition entry_step :: "IntPtr \<Rightarrow> nat \<Rightarrow> DirectoryEntry \<Rightarrow> DramDirectoryCntlr \<Rightarrow> DramDirectoryCntlr \<Rightarrow> bool" where
  "entry_step a p e c c' =
     (at_entry a p c' \<and> the_entry p c' = e \<and> cmap c' = (cmap c)(a \<mapsto> e) \<and> (\<exists>dd. c' = c\<lparr>dc_cache := dd\<rparr>))"

lemma entry_step_set: "at_entry a p c \<Longrightarrow> de_address e = a \<Longrightarrow> entry_step a p e c (set_entry p e c)"
  using set_entry_at [of a p c e] by (auto simp: entry_step_def set_entry_def)

lemma entry_step_refl: "at_entry a p c \<Longrightarrow> the_entry p c = e \<Longrightarrow> entry_step a p e c c"
  using at_entry_map [of a p c] by (auto simp: entry_step_def fun_upd_idem intro: exI [of _ "dc_cache c"])

lemma entry_step_trans: "entry_step a p e c c1 \<Longrightarrow> entry_step a p e' c1 c2 \<Longrightarrow> entry_step a p e' c c2"
  by (auto simp: entry_step_def)

lemma entry_stepD:
  assumes "entry_step a p e c c'"
  shows "at_entry a p c'" "the_entry p c' = e" "cmap c' = (cmap c)(a \<mapsto> e)" "dc_queues c' = dc_queues c" "dc_sent c' = dc_sent c"
    "dc_protocol c' = dc_protocol c" "dc_nuca c' = dc_nuca c"
  using assms by (auto simp: entry_step_def)

lemma entry_step_address: "entry_step a p e c c' \<Longrightarrow> de_address e = a"
  using at_entry_map [of a p c'] by (auto simp: entry_step_def)

lemma setDState_step: "at_entry a p c \<Longrightarrow> entry_step a p ((the_entry p c)\<lparr>de_dstate := st\<rparr>) c (setDState p st c)"
  unfolding setDState_def by (rule entry_step_set) (use at_entry_map in auto)

lemma setForwarder_step: "at_entry a p c \<Longrightarrow> entry_step a p ((the_entry p c)\<lparr>de_forwarder := f\<rparr>) c (setForwarder p f c)"
  unfolding setForwarder_def by (rule entry_step_set) (use at_entry_map in auto)

lemma set_owner_step:
  assumes "at_entry a p c" "set_owner p r c = Inr c'"
  shows "entry_step a p ((the_entry p c)\<lparr>de_owner := r\<rparr>) c c' \<and> (r \<noteq> INVALID_CORE_ID \<longrightarrow> r \<in> sharer_set (the_entry p c))"
proof -
  obtain e where e: "setOwner r (the_entry p c) = Inr e" "c' = set_entry p e c" using assms(2) by (auto simp: set_owner_def)
  then show ?thesis using entry_step_set [OF assms(1)] setOwner_Inr [OF e(1)] at_entry_map [OF assms(1)] by simp
qed

lemma add_sharer_step:
  assumes "at_entry a p c" "add_sharer p r c = Inr (b, c')"
  shows "\<exists>e. entry_step a p e c c' \<and> r \<notin> sharer_set (the_entry p c) \<and> sharer_set e = (if b then insert r (sharer_set (the_entry p c)) else sharer_set (the_entry p c))
    \<and> entry_wf e = entry_wf (the_entry p c) \<and> de_dstate e = de_dstate (the_entry p c) \<and> de_owner e = de_owner (the_entry p c)"
proof -
  obtain e where e: "addSharer r (dir_getMaxHwSharers (dc_cache c)) (the_entry p c) = Inr (b, e)" "c' = set_entry p e c"
    using assms(2) by (auto simp: add_sharer_def)
  note A = addSharer_True [of r "dir_getMaxHwSharers (dc_cache c)" "the_entry p c" e]
    addSharer_False [of r "dir_getMaxHwSharers (dc_cache c)" "the_entry p c" e]
  show ?thesis using e A at_entry_map [OF assms(1)] entry_step_set [OF assms(1), of e] by (cases b) auto
qed

lemma remove_sharer_step:
  assumes "at_entry a p c" "remove_sharer p r c = Inr c'"
  shows "\<exists>e. entry_step a p e c c' \<and> r \<in> sharer_set (the_entry p c) \<and> sharer_set e = sharer_set (the_entry p c) - {r}
    \<and> entry_wf e = entry_wf (the_entry p c) \<and> de_dstate e = de_dstate (the_entry p c) \<and> de_owner e = de_owner (the_entry p c)"
proof -
  obtain e where e: "removeSharer r False (the_entry p c) = Inr e" "c' = set_entry p e c"
    using assms(2) by (auto simp: remove_sharer_def)
  then show ?thesis using removeSharer_Inr [OF e(1)] at_entry_map [OF assms(1)] entry_step_set [OF assms(1), of e] by auto
qed

lemma make_owner_step:
  assumes at: "at_entry a p c" and m: "make_owner p r st c = Inr c'"
  shows "\<exists>e. entry_step a p e c c' \<and> sharer_set e = insert r (sharer_set (the_entry p c)) \<and> de_dstate e = st \<and> de_owner e = r
    \<and> entry_wf e = entry_wf (the_entry p c)"
proof -
  obtain c1 c2 where c: "add_sharer p r c = Inr (True, c1)" "set_owner p r c1 = Inr c2" "c' = setDState p st c2"
    using m by (auto simp: make_owner_def)
  obtain e1 where 1: "entry_step a p e1 c c1" "sharer_set e1 = insert r (sharer_set (the_entry p c))" "entry_wf e1 = entry_wf (the_entry p c)"
    using add_sharer_step [OF at c(1)] by auto
  have 2: "entry_step a p (e1\<lparr>de_owner := r\<rparr>) c1 c2" using set_owner_step [OF entry_stepD(1) [OF 1(1)] c(2)] entry_stepD(2) [OF 1(1)] by simp
  have 3: "entry_step a p (e1\<lparr>de_owner := r, de_dstate := st\<rparr>) c2 c'"
    using setDState_step [OF entry_stepD(1) [OF 2], of st] entry_stepD(2) [OF 2] c(3) by simp
  show ?thesis using entry_step_trans [OF 1(1) entry_step_trans [OF 2 3]] 1 by auto
qed

text \<open>Looking up an entry only claims a free slot.\<close>

lemma fresh_coherent: "fresh_entry e \<Longrightarrow> entry_coherent e"
  by (simp add: fresh_entry_def entry_coherent_def)

lemma queue_ok_map: "queue_ok w eo a rs \<Longrightarrow> (\<And>e. eo = Some e \<Longrightarrow> eo' = Some e) \<Longrightarrow> queue_ok w eo' a rs"
  by (cases eo) (simp_all add: queue_ok_def waiting_ok_def)

lemma inv_map_add:
  assumes "cntlr_inv A c" "dir_inv (dc_cache c')" "cmap c' = (cmap c)(a \<mapsto> e)" "cmap c a = Some e \<or> cmap c a = None \<and> fresh_entry e"
    "dc_queues c' = dc_queues c"
  shows "cntlr_inv A c' \<and> (\<forall>b r. owned c b r \<longrightarrow> owned c' b r)"
proof -
  have "queue_ok (b \<in> A) (cmap c' b) b (qs c' b)" for b
    by (rule queue_ok_map [of _ "cmap c b"]) (use assms in \<open>auto simp: cntlr_inv_def\<close>)
  then show ?thesis using assms fresh_coherent by (auto simp: cntlr_inv_def owned_def)
qed

lemma lookup_entry_Some:
  assumes "cntlr_inv A c" "a \<noteq> INVALID_ADDRESS" "lookup_entry a m c = Inr (Some p, c')"
  shows "cntlr_inv A c' \<and> (\<forall>b r. owned c b r \<longrightarrow> owned c' b r) \<and> at_entry a p c' \<and> (\<exists>dd. c' = c\<lparr>dc_cache := dd\<rparr>)
    \<and> (cmap c a = Some (the_entry p c') \<or> cmap c a = None \<and> fresh_entry (the_entry p c'))
    \<and> cmap c' = (cmap c)(a \<mapsto> the_entry p c')"
proof -
  obtain dd where dd: "dir_getDirectoryEntry a m (dc_cache c) = Inr (Some p, dd)" "c' = c\<lparr>dc_cache := dd\<rparr>"
    using assms(3) by (auto simp: lookup_entry_def)
  have I: "dir_inv (dc_cache c)" using assms(1) by (simp add: cntlr_inv_def)
  obtain e where G: "dir_inv dd" "dir_lookup dd a = Some p" "dir_map dd = (cmap c)(a \<mapsto> e)" "dir_entry dd p = e"
    "cmap c a = Some e \<or> cmap c a = None \<and> fresh_entry e" using dm.get_pointer [OF I assms(2) dd(1)] by blast
  then show ?thesis using inv_map_add [OF assms(1), of c' a e] dd(2) assms(2) by (auto simp: at_entry_def the_entry_def)
qed

lemma lookup_entry_None:
  assumes "cntlr_inv A c" "a \<noteq> INVALID_ADDRESS" "lookup_entry a m c = Inr (None, c')"
  shows "cntlr_inv A c' \<and> same_view c c' \<and> cmap c a = None \<and> (\<exists>dd. c' = c\<lparr>dc_cache := dd\<rparr>)"
proof -
  obtain dd where dd: "dir_getDirectoryEntry a m (dc_cache c) = Inr (None, dd)" "c' = c\<lparr>dc_cache := dd\<rparr>"
    using assms(3) by (auto simp: lookup_entry_def)
  have I: "dir_inv (dc_cache c)" using assms(1) by (simp add: cntlr_inv_def)
  have "dir_inv dd \<and> dir_map dd = cmap c \<and> cmap c a = None" using dm.get_NULL [OF I assms(2) dd(1)] by blast
  then show ?thesis using dd(2) same_view_inv [of c c' A] assms(1) by (auto simp: same_view_def)
qed

lemma require_entry_Inr:
  assumes "cntlr_inv A c" "a \<noteq> INVALID_ADDRESS" "require_entry a c = Inr (p, c')"
  shows "cntlr_inv A c' \<and> (\<forall>b r. owned c b r \<longrightarrow> owned c' b r) \<and> at_entry a p c' \<and> (\<exists>dd. c' = c\<lparr>dc_cache := dd\<rparr>)
    \<and> (cmap c a = Some (the_entry p c') \<or> cmap c a = None \<and> fresh_entry (the_entry p c'))
    \<and> cmap c' = (cmap c)(a \<mapsto> the_entry p c')"
  using assms lookup_entry_Some [OF assms(1,2), of False p c'] by (auto simp: require_entry_def split: option.splits)

lemma inv_queue: "cntlr_inv A c \<Longrightarrow> queue_ok (a \<in> A) (cmap c a) a (qs c a)"
  by (simp add: cntlr_inv_def)

text \<open>Closing an update of an entry: the new entry has to be coherent and to fit the request at the front.\<close>

lemma entry_step_inv:
  assumes "cntlr_inv A c" "A \<subseteq> {a}" "entry_step a p e c c'" "entry_coherent e" "queue_ok (a \<in> B) (Some e) a (qs c a)"
  shows "cntlr_inv B c'"
proof -
  note S = entry_stepD [OF assms(3)]
  have "queue_ok (b \<in> B) (cmap c' b) b (qs c' b)" for b
  proof (cases "b = a")
    case True
    then show ?thesis using assms(5) S by simp
  next
    case False
    then have "b \<notin> A" using assms(2) by auto
    then have "queue_ok False (cmap c b) b (qs c b)" using inv_queue [OF assms(1), of b] by simp
    then show ?thesis using False S by (auto simp: queue_ok_def waiting_ok_def)
  qed
  then show ?thesis using assms(1,4) S by (auto simp: cntlr_inv_def at_entry_def)
qed

lemma entry_step_owned:
  assumes "at_entry a p c" "entry_step a p e c c'"
    and "\<And>r. de_dstate (the_entry p c) = D_MODIFIED \<or> de_dstate (the_entry p c) = D_EXCLUSIVE \<Longrightarrow> sharer_set (the_entry p c) = {r} \<Longrightarrow>
      (de_dstate e = D_MODIFIED \<or> de_dstate e = D_EXCLUSIVE) \<and> sharer_set e = {r}"
  shows "\<forall>b r. owned c b r \<longrightarrow> owned c' b r"
  using assms(3) entry_stepD(3) [OF assms(2)] at_entry_map [OF assms(1)] by (auto simp: owned_def)

lemma entry_step_progress:
  assumes "cntlr_inv A c" "A \<subseteq> {a}" "at_entry a p c" "entry_step a p e c c'" "entry_coherent e" "queue_ok False (Some e) a (qs c a)"
    and "\<And>r. de_dstate (the_entry p c) = D_MODIFIED \<or> de_dstate (the_entry p c) = D_EXCLUSIVE \<Longrightarrow> sharer_set (the_entry p c) = {r} \<Longrightarrow>
      (de_dstate e = D_MODIFIED \<or> de_dstate e = D_EXCLUSIVE) \<and> sharer_set e = {r}"
  shows "progress c c'"
  using entry_step_inv [OF assms(1,2,4,5), of "{}"] assms(6) entry_step_owned [OF assms(3,4,7)] entry_stepD(5) [OF assms(4)]
  by (simp add: progress_def)

lemma inv_entry: "cntlr_inv A c \<Longrightarrow> at_entry a p c \<Longrightarrow> entry_coherent (the_entry p c)"
  using at_entry_map [of a p c] by (auto simp: cntlr_inv_def)

text \<open>An update that keeps state, owner and sharers.\<close>

lemma mild_step_progress:
  assumes "cntlr_inv {} c" "at_entry a p c" "entry_step a p e c c'" "de_dstate e = de_dstate (the_entry p c)"
    "sharer_set e = sharer_set (the_entry p c)" "de_owner e = de_owner (the_entry p c)" "entry_wf e = entry_wf (the_entry p c)"
  shows "progress c c'"
proof (rule entry_step_progress [OF assms(1) _ assms(2,3)])
  show "entry_coherent e" using inv_entry [OF assms(1,2)] assms(4-7) by (auto simp: entry_coherent_def split: dstate_t.splits)
  show "queue_ok False (Some e) a (qs c a)"
    using inv_queue [OF assms(1), of a] at_entry_map [OF assms(2)] assms(4,5)
    by (auto simp: queue_ok_def waiting_ok_def split: if_splits)
qed (use assms in auto)

lemma require_progress:
  assumes "cntlr_inv {} c" "a \<noteq> INVALID_ADDRESS" "require_entry a c = Inr (p, c')"
  shows "progress c c' \<and> at_entry a p c'"
  using require_entry_Inr [OF assms] by (auto simp: progress_def)

section \<open>NUCA and DRAM\<close>

lemma readFromNUCA_view: "readFromNUCA a c = Inr (d, c') \<Longrightarrow> same_view c c' \<and> dc_protocol c' = dc_protocol c \<and> dir_lookup (dc_cache c') = dir_lookup (dc_cache c)"
  by (auto simp: readFromNUCA_def pop_frame_def same_view_def incrElapsedTime_def setElapsedTime_def Let_def split: option.splits)

lemma sendDataToNUCA_progress:
  assumes "cntlr_inv {} c" "sendDataToNUCA a buf n c = Inr c'"
  shows "progress c c'"
proof (cases "dc_nuca c")
  case None
  then show ?thesis using assms progress_refl by (simp add: sendDataToNUCA_def)
next
  case (Some nu)
  let ?fr = "dc_stack c (dc_frames c)"
  obtain lat hit ev ea eb nu' g where w: "NucaCache_write a buf (sf_eviction ?fr) (sf_evict_address ?fr) (Some (sf_buf ?fr)) (getElapsedTime c) n nu (dc_env c)
      = Inr (lat, hit, ev, ea, eb, nu', g)"
    using assms(2) Some by (auto simp: sendDataToNUCA_def pop_frame_def getElapsedTime_def)
  define c1 where "c1 = c\<lparr>dc_frames := Suc (dc_frames c), dc_nuca := Some nu', dc_env := g\<rparr>"
  have c1: "same_view c c1"
    "(if ev then bindR (getHome (dc_home_lookup c1) ea) (\<lambda>dram_node.
        sendMsg DRAM_WRITE_REQ DRAM (dc_core_id c1) dram_node ea eb (dc_cache_block_size c1) HIT_UNKNOWN c1) else Inr c1) = Inr c'"
    using assms(2) Some w by (auto simp: sendDataToNUCA_def pop_frame_def getElapsedTime_def Let_def c1_def same_view_def)
  have I: "cntlr_inv {} c1" "progress c c1" using same_view_inv [OF c1(1) assms(1)] same_view_progress [OF c1(1) assms(1)] by auto
  have "progress c1 c'" using c1(2) progress_send_plain [OF I(1)] progress_refl [OF I(1)] by (auto split: if_splits)
  then show ?thesis using progress_trans [OF I(2)] by blast
qed

lemma sendDataToDram_progress:
  assumes "cntlr_inv {} c" "sendDataToDram a r buf c = Inr c'"
  shows "progress c c'"
  using assms sendDataToNUCA_progress [OF assms(1)] progress_send_plain [OF assms(1)]
  by (auto simp: sendDataToDram_def split: if_splits)

section \<open>Requests\<close>

lemma update_front_inv:
  assumes "cntlr_inv {} c" "\<And>r. req_address (f r) = req_address r"
    and "\<And>r rs. qs c a = r # rs \<Longrightarrow> waiting_ok False (cmap c a) (f r)"
  shows "progress c (update_front a f c)"
proof -
  let ?c = "update_front a f c"
  have q: "qs ?c b = (if b = a then (case qs c a of [] \<Rightarrow> [] | r # rs \<Rightarrow> f r # rs) else qs c b)" for b
    by (simp add: update_front_def rq_update_front_contents)
  have m: "cmap ?c = cmap c" by (simp add: update_front_def)
  have "queue_ok False (cmap ?c b) b (qs ?c b)" for b
    using inv_queue [OF assms(1), of b] assms(2,3) by (cases "qs c a"; cases "b = a") (auto simp: q m queue_ok_def)
  then have "cntlr_inv {} ?c" using assms(1) by (simp add: cntlr_inv_def m) (simp add: update_front_def rq_update_front_inv)
  then show ?thesis by (simp add: progress_def owned_def m) (simp add: update_front_def)
qed

lemma progress_inv: "progress c c' \<Longrightarrow> cntlr_inv {} c'"
  by (simp add: progress_def)

lemma progress_owned: "progress c c' \<Longrightarrow> owned c a r \<Longrightarrow> owned c' a r"
  by (simp add: progress_def)

lemma progress_then_send:
  "progress c c1 \<Longrightarrow> sendMsg t rc rq rcv a b l w c1 = Inr c' \<Longrightarrow> t \<noteq> EX_REP \<Longrightarrow> t \<noteq> UPGRADE_REP \<Longrightarrow> progress c c'"
  using progress_trans progress_send_plain progress_inv by blast

text \<open>A reply is sent and the next request processed.\<close>

lemma reply_and_next:
  assumes N: "next_ok next" and I: "cntlr_inv {} c" and a: "a \<noteq> INVALID_ADDRESS" and t: "t = EX_REP \<or> t = UPGRADE_REP \<Longrightarrow> owned c a r"
    and r: "bindR (sendMsg t L2_CACHE r r a b l w c) (\<lambda>c. next a c) = Inr c'"
  shows "progress c c'"
proof -
  obtain c1 where c1: "sendMsg t L2_CACHE r r a b l w c = Inr c1" "next a c1 = Inr c'" using r by auto
  have "progress c c1" by (rule progress_send [OF I c1(1) t])
  then show ?thesis using next_okD [OF N a _ c1(2)] progress_inv progress_trans by blast
qed

lemma retrieve_progress:
  assumes N: "next_ok next" and I: "cntlr_inv {} c" and a: "a \<noteq> INVALID_ADDRESS" and t: "t \<noteq> UPGRADE_REP" "t = EX_REP \<Longrightarrow> owned c a r"
    and W: "\<And>r0 rs. qs c a = r0 # rs \<Longrightarrow> waiting_ok False (cmap c a) (r0\<lparr>sr_wait_for_data := True\<rparr>)"
    and r: "retrieveDataAndSendToL2Cache next t r a buf c = Inr c'"
  shows "progress c c'"
proof -
  obtain p c1 where c1: "require_entry a c = Inr (p, c1)" using r by (auto simp: retrieveDataAndSendToL2Cache_def)
  note R = require_entry_Inr [OF I a c1]
  have P1: "progress c c1" and at: "at_entry a p c1" and I1: "cntlr_inv {} c1" using require_progress [OF I a c1] R by auto
  note r1 = r [unfolded retrieveDataAndSendToL2Cache_def c1, simplified, folded bindR_eq_Inr]
  have o1: "t = EX_REP \<Longrightarrow> owned c1 a r" using t(2) R by blast
  show ?thesis
  proof (cases buf)
    case (Some b)
    let ?c2 = "setForwarder p r c1"
    have P2: "progress c1 ?c2" by (rule mild_step_progress [OF I1 at setForwarder_step [OF at]]) simp_all
    have "progress ?c2 c'"
      by (rule reply_and_next [OF N progress_inv [OF P2] a, where t = t and r = r])
        (use progress_owned [OF P2 o1] t(1) r Some c1 in \<open>auto simp: retrieveDataAndSendToL2Cache_def Let_def\<close>)
    then show ?thesis using P1 P2 progress_trans by blast
  next
    case None
    obtain d c2 where c2: "readFromNUCA a c1 = Inr (d, c2)" using r None c1 by (auto simp: retrieveDataAndSendToL2Cache_def)
    have V: "same_view c1 c2" using readFromNUCA_view [OF c2] by blast
    have P2: "progress c1 c2" and I2: "cntlr_inv {} c2" using same_view_progress [OF V I1] same_view_inv [OF V I1] by auto
    have o2: "t = EX_REP \<Longrightarrow> owned c2 a r" using o1 same_view_owned [OF V] by simp
    have "progress c2 c'"
    proof (cases d)
      case (Some b)
      show ?thesis
        by (rule reply_and_next [OF N I2 a, where t = t and r = r])
          (use o2 t(1) r None c1 c2 Some in \<open>auto simp: retrieveDataAndSendToL2Cache_def\<close>)
    next
      case d: None
      obtain req where q: "ReqQueueList_front (dc_queues c2) a = Inr req" "ReqQueueList_size (dc_queues c2) a > 0"
        using r None c1 c2 d by (auto simp: retrieveDataAndSendToL2Cache_def)
      have W2: "waiting_ok False (cmap c2 a) (r0\<lparr>sr_wait_for_data := True\<rparr>)" if "qs c2 a = r0 # rs" for r0 rs
      proof -
        have "dc_queues c2 = dc_queues c" "cmap c2 a = cmap c1 a" using V R by (auto simp: same_view_def)
        then have "waiting_ok False (cmap c a) (r0\<lparr>sr_wait_for_data := True\<rparr>)" using W [of r0 rs] that by simp
        then show ?thesis using R V by (auto simp: waiting_ok_def same_view_def)
      qed
      have F: "progress c2 (update_front a (\<lambda>r. r\<lparr>sr_forwarding_from := fw\<rparr>) c2)" for fw
        by (rule update_front_inv [OF I2]) (use inv_queue [OF I2, of a] in \<open>auto simp: queue_ok_def waiting_ok_def\<close>)
      have D: "progress c2 (update_front a (\<lambda>r. r\<lparr>sr_wait_for_data := True\<rparr>) c2)"
        by (rule update_front_inv [OF I2]) (use W2 in auto)
      show ?thesis
      proof (cases "dc_protocol c2 = MESIF \<and> sr_forwarding_from req = INVALID_CORE_ID \<and> de_dstate (the_entry p c2) = D_SHARED
          \<and> de_forwarder (the_entry p c2) \<noteq> INVALID_CORE_ID")
        case True
        then show ?thesis using r None c1 c2 d q
          by (auto simp: retrieveDataAndSendToL2Cache_def Let_def intro: progress_then_send [OF F])
      next
        case False
        then show ?thesis using r None c1 c2 d q
          by (auto simp: retrieveDataAndSendToL2Cache_def Let_def intro: progress_then_send [OF D])
      qed
    qed
    then show ?thesis using P1 P2 progress_trans by blast
  qed
qed

section \<open>Nullification and allocation\<close>

lemma get_keeps_pointer:
  assumes I: "dir_inv dd" and ab: "a \<noteq> INVALID_ADDRESS" "b \<noteq> INVALID_ADDRESS" "b \<noteq> a" and l: "dir_lookup dd a = Some q"
    and g: "dir_getDirectoryEntry b m dd = Inr (r, dd')"
  shows "dir_lookup dd' a = Some q \<and> dir_entry dd' q = dir_entry dd q"
proof -
  have o: "get_outcome b dd r dd'" using dir_getDirectoryEntry_spec [OF I ab(2), of m] g by auto
  show ?thesis using o ab l same_contentsD [of dd dd' a]
    by (cases "dir_lookup dd b"; cases "set_full b dd") (auto simp: get_outcome_def dir_entry_def)
qed

lemma invalidate_Inr:
  assumes I: "dir_inv dd" and i: "invalidateDirectoryEntry b dd = Inr dd'"
  shows "dir_inv dd' \<and> dir_map dd' = (dir_map dd)(b := None)
    \<and> (\<forall>a q. a \<noteq> b \<longrightarrow> a \<noteq> INVALID_ADDRESS \<longrightarrow> dir_lookup dd a = Some q \<longrightarrow> dir_lookup dd' a = Some q \<and> dir_entry dd' q = dir_entry dd q)"
proof -
  obtain p where "find (\<lambda>p. de_address (dir_heap (dd_directory dd) p) = b) (dd_replaced dd) = Some p"
    using i by (auto simp: invalidateDirectoryEntry_def split: option.splits)
  then have p: "p \<in> set (dd_replaced dd)" "entry_addr dd p = b" using find_SomeD by (fastforce simp: entry_addr_def)+
  show ?thesis using invalidate_in_map [OF I p(1)] invalidateDirectoryEntry_spec [OF I p(1)] i p(2) by (auto simp: dir_entry_def)
qed

lemma invalidate_progress:
  assumes I: "cntlr_inv {} c" and at: "at_entry b p c" and u: "de_dstate (the_entry p c) = D_UNCACHED"
    and f: "qs c b \<noteq> [] \<Longrightarrow> \<not> sr_wait_for_data (hd (qs c b))" and i: "invalidateDirectoryEntry b (dc_cache c) = Inr dd"
  shows "progress c (c\<lparr>dc_cache := dd\<rparr>)"
proof -
  let ?c = "c\<lparr>dc_cache := dd\<rparr>"
  have D: "dir_inv dd" "cmap ?c = (cmap c)(b := None)" using invalidate_Inr [OF _ i] I by (auto simp: cntlr_inv_def)
  have "queue_ok False (cmap ?c a) a (qs ?c a)" for a
    using inv_queue [OF I, of a] f D(2) by (cases "a = b") (auto simp: queue_ok_def waiting_ok_def)
  then have "cntlr_inv {} ?c" using I D by (auto simp: cntlr_inv_def split: if_splits)
  moreover have "owned c a r \<Longrightarrow> owned ?c a r" for a r
    using D(2) at_entry_map [OF at] u by (cases "a = b") (auto simp: owned_def)
  ultimately show ?thesis by (simp add: progress_def)
qed

lemma nullify_progress:
  assumes N: "next_ok next" and I: "cntlr_inv {} c" and b: "req_address r = b" "b \<noteq> INVALID_ADDRESS"
    and f: "qs c b \<noteq> [] \<Longrightarrow> \<not> sr_wait_for_data (hd (qs c b))" and n: "processNullifyReq next r c = Inr c'"
  shows "progress c c'"
proof -
  obtain p c1 where c1: "require_entry b c = Inr (p, c1)" using n b by (auto simp: processNullifyReq_def Let_def)
  note R = require_entry_Inr [OF I b(2) c1]
  have P1: "progress c c1" and at: "at_entry b p c1" and I1: "cntlr_inv {} c1" using require_progress [OF I b(2) c1] R by auto
  have q1: "qs c1 = qs c" using R by auto
  have "progress c1 c'"
  proof (cases "de_dstate (the_entry p c1)")
    case D_UNCACHED
    then obtain dd where dd: "invalidateDirectoryEntry b (dc_cache c1) = Inr dd" "next b (c1\<lparr>dc_cache := dd\<rparr>) = Inr c'"
      using n b c1 by (auto simp: processNullifyReq_def Let_def)
    have "progress c1 (c1\<lparr>dc_cache := dd\<rparr>)" using invalidate_progress [OF I1 at D_UNCACHED _ dd(1)] f q1 by simp
    then show ?thesis using next_okD [OF N b(2) _ dd(2)] progress_inv progress_trans by blast
  qed (use n b c1 progress_send_plain [OF I1] progress_send_inv [OF I1] in \<open>auto simp: processNullifyReq_def Let_def\<close>)
  then show ?thesis using P1 progress_trans by blast
qed

lemma sendMsg_cache: "sendMsg t rc rq rcv a b l w c = Inr c' \<Longrightarrow> dc_cache c' = dc_cache c \<and> dc_queues c' = dc_queues c"
  by (auto simp: sendMsg_def)

lemma send_inv_each_cache: "send_inv_each rq a ss c = Inr c' \<Longrightarrow> dc_cache c' = dc_cache c \<and> dc_queues c' = dc_queues c"
  by (induction ss arbitrary: c) (auto dest: sendMsg_cache)

lemma send_inv_cache: "send_inv rq a e c = Inr c' \<Longrightarrow> dc_cache c' = dc_cache c \<and> dc_queues c' = dc_queues c"
  using send_inv_each_cache by (auto simp: send_inv_def Let_def broadcastMsg_def split: if_splits)

text \<open>Nullifying the entry of another address that has no other requests leaves the entry of \<open>a\<close> where it is.\<close>

lemma nullify_other:
  assumes N: "next_ok next" and I: "cntlr_inv {} c" and b: "req_address r = b" "b \<noteq> INVALID_ADDRESS" "b \<noteq> a" and q: "qs c b = [r]"
    and at: "at_entry a p c" and n: "processNullifyReq next r c = Inr c'"
  shows "at_entry a p c' \<and> the_entry p c' = the_entry p c \<and> qs c' a = qs c a"
proof -
  have I0: "dir_inv (dc_cache c)" "rq_inv (dc_queues c)" using I by (auto simp: cntlr_inv_def)
  obtain p' c1 where c1: "require_entry b c = Inr (p', c1)" using n b by (auto simp: processNullifyReq_def Let_def)
  note R = require_entry_Inr [OF I b(2) c1]
  obtain m dd where dd: "dir_getDirectoryEntry b m (dc_cache c) = Inr (Some p', dd)" "c1 = c\<lparr>dc_cache := dd\<rparr>"
    using c1 by (auto simp: require_entry_def lookup_entry_def split: option.splits)
  have at1: "at_entry a p c1" "the_entry p c1 = the_entry p c"
    using get_keeps_pointer [OF I0(1) _ b(2,3) _ dd(1)] at R dd(2) by (auto simp: at_entry_def the_entry_def cntlr_inv_def)
  have I1: "dir_inv (dc_cache c1)" "rq_inv (dc_queues c1)" "qs c1 b = [r]" using R I0 q by (auto simp: at_entry_def)
  have q1: "qs c1 = qs c" using dd(2) by simp
  have other: "dc_cache c' = dc_cache c1 \<and> dc_queues c' = dc_queues c1" if "de_dstate (the_entry p' c1) \<noteq> D_UNCACHED"
    using n b c1 that by (cases "de_dstate (the_entry p' c1)") (auto simp: processNullifyReq_def Let_def dest: sendMsg_cache send_inv_cache)
  show ?thesis
  proof (cases "de_dstate (the_entry p' c1)")
    case D_UNCACHED
    then obtain d2 where d2: "invalidateDirectoryEntry b (dc_cache c1) = Inr d2" "next b (c1\<lparr>dc_cache := d2\<rparr>) = Inr c'"
      using n b c1 by (auto simp: processNullifyReq_def Let_def)
    have V: "dir_inv d2" "dir_lookup d2 a = Some p" "dir_entry d2 p = dir_entry (dc_cache c1) p"
      using invalidate_Inr [OF I1(1) d2(1)] at1(1) b(3) by (auto simp: at_entry_def)
    obtain qq where qq: "c' = c1\<lparr>dc_cache := d2, dc_queues := qq\<rparr>" "rq_contents qq = (qs c1)(b := [])"
      using pops_lastD [OF N _ _ d2(2), of r] I1(2,3) by auto
    show ?thesis using V qq at1 b(3) q1 by (simp add: at_entry_def the_entry_def)
  qed (use other at1 q1 in \<open>simp_all add: at_entry_def the_entry_def\<close>)
qed

lemma choose_candidate_Some:
  "choose_candidate dd q ps = Some p \<Longrightarrow> p \<in> set ps \<and> ReqQueueList_size q (de_address (dir_entry dd p)) = 0"
proof -
  let ?f = "\<lambda>it best. if (case best of None \<Rightarrow> True | Some b \<Rightarrow> getNumSharers (dir_entry dd b) > getNumSharers (dir_entry dd it))
          \<and> ReqQueueList_size q (de_address (dir_entry dd it)) = 0 then Some it else best"
  have "fold ?f ps b = Some p \<Longrightarrow> b = Some p \<or> p \<in> set ps \<and> ReqQueueList_size q (de_address (dir_entry dd p)) = 0" for b
  proof (induction ps arbitrary: b)
    case (Cons x xs)
    then have "?f x b = Some p \<or> p \<in> set xs \<and> ReqQueueList_size q (de_address (dir_entry dd p)) = 0" by simp
    then show ?case by (auto split: if_splits)
  qed simp
  then show "choose_candidate dd q ps = Some p \<Longrightarrow> ?thesis" by (auto simp: choose_candidate_def)
qed

text \<open>A state in which a new entry for \<open>a\<close> has been added to the map and a request for \<open>b\<close> has been queued.\<close>

lemma progress_allocate:
  assumes I: "cntlr_inv {} c" and d: "dir_inv (dc_cache c')" "cmap c' = (cmap c)(a \<mapsto> e)" "fresh_entry e" "cmap c a = None"
    and b: "b \<noteq> INVALID_ADDRESS" "qs c b = []" "req_address r = b" "\<not> sr_wait_for_data r"
    and q: "dc_queues c' = ReqQueueList_enqueue (dc_queues c) b r" and s: "dc_sent c' = dc_sent c"
  shows "progress c c'"
proof -
  have Q: "queue_ok False (cmap c' x) x (qs c x)" for x
    by (rule queue_ok_map [of _ "cmap c x"]) (use inv_queue [OF I, of x] d in auto)
  have "queue_ok False (cmap c' x) x (qs c' x)" for x
    using Q [of x] b by (cases "x = b") (simp_all add: q queue_ok_def waiting_ok_def)
  then have "cntlr_inv {} c'" using I d fresh_coherent by (auto simp: cntlr_inv_def q rq_enqueue_inv)
  then show ?thesis using d s by (auto simp: progress_def owned_def)
qed

lemma allocation_progress:
  assumes N: "next_ok next" and I: "cntlr_inv {} c" and a: "req_address r = a" "a \<noteq> INVALID_ADDRESS"
    and al: "processDirectoryEntryAllocationReq next r c = Inr (q, c')"
  shows "progress c c' \<and> at_entry a q c' \<and> fresh_entry (the_entry q c') \<and> qs c' a = qs c a"
proof -
  have I0: "dir_inv (dc_cache c)" using I by (simp add: cntlr_inv_def)
  obtain ps dd1 where g: "getReplacementCandidates a (dc_cache c) = Inr (ps, dd1)"
    using al a by (auto simp: processDirectoryEntryAllocationReq_def Let_def)
  have C: "dir_inv dd1" "dir_map dd1 = cmap c" "cmap c a = None" "set_full a dd1"
    "\<And>p. p \<in> set ps \<Longrightarrow> \<exists>i \<in> set (way_range a dd1). dir_entry_list (dd_directory dd1) ! i = Some p"
    using candidates_in_map [OF I0 a(2) g] by auto
  obtain p where p: "choose_candidate dd1 (dc_queues c) ps = Some p"
    using al a g by (auto simp: processDirectoryEntryAllocationReq_def Let_def split: option.splits)
  let ?b = "de_address (dir_entry dd1 p)"
  have cp: "p \<in> set ps" "ReqQueueList_size (dc_queues c) ?b = 0" using choose_candidate_Some [OF p] by auto
  obtain i where i: "i \<in> set (way_range a dd1)" "dir_entry_list (dd_directory dd1) ! i = Some p" using C(5) cp(1) by blast
  have b: "entry_addr dd1 p = ?b" "?b \<noteq> INVALID_ADDRESS" "dir_map dd1 ?b \<noteq> None"
    using candidate_entry [OF C(1,4) i] by (auto simp: entry_addr_def dir_entry_def)
  have ba: "?b \<noteq> a" and qb: "qs c ?b = []" using b C(2,3) cp(2) by (auto simp: rq_size_contents)
  have n1: "dir_map dd1 a = None" using C by simp
  obtain dd2 e where R: "replaceDirectoryEntry ?b a True dd1 = Inr (q, dd2)" "dir_inv dd2" "fresh_entry e"
    "dir_map dd2 = (dir_map dd1)(a \<mapsto> e)" "dir_lookup dd2 a = Some q"
    using replace_in_map [OF C(1) a(2) n1 C(4) i, of True] b(1) al a g p
    by (auto simp: processDirectoryEntryAllocationReq_def Let_def)
  obtain nr where nr: "ShmemReq_create (dc_uninit_where c) (ShmemMsg_create NULLIFY_REQ TAG_DIR TAG_DIR (req_core r) ?b None 0) (getElapsedTime c) = Inr nr"
    by (simp add: ShmemReq_create_def)
  then have nr': "req_address nr = ?b" "\<not> sr_wait_for_data nr" by (auto simp: ShmemReq_create_Inr)
  define c2 where "c2 = c\<lparr>dc_cache := dd2, dc_evict := (dc_evict c)(de_dstate (dir_entry dd1 p) := dc_evict c (de_dstate (dir_entry dd1 p)) + 1),
     dc_queues := ReqQueueList_enqueue (dc_queues c) ?b nr\<rparr>"
  have n: "processNullifyReq next nr c2 = Inr c'"
    using al a g p R(1) nr by (auto simp: processDirectoryEntryAllocationReq_def Let_def c2_def)
  have P: "progress c c2"
    by (rule progress_allocate [OF I, where a = a and e = e and b = ?b and r = nr]) (use R C b qb nr' in \<open>auto simp: c2_def\<close>)
  have at: "at_entry a q c2" using R a by (simp add: at_entry_def c2_def)
  have e: "the_entry q c2 = e" using at_entry_map [OF at] R by (simp add: c2_def)
  have q2: "qs c2 ?b = [nr]" "qs c2 a = qs c a" using qb ba by (simp_all add: c2_def)
  have "progress c2 c'" by (rule nullify_progress [OF N progress_inv [OF P] nr'(1) b(2) _ n]) (use q2 nr' in simp)
  then show ?thesis using nullify_other [OF N progress_inv [OF P] nr'(1) b(2) ba q2(1) at n] P progress_trans e R(3) q2 by auto
qed

text \<open>The entry of a request: an existing one, a free slot or a replaced entry.\<close>

lemma entry_for_request_spec:
  assumes N: "next_ok next" and I: "cntlr_inv A c" "A \<subseteq> {a}" and a: "req_address r = a" "a \<noteq> INVALID_ADDRESS"
    and f: "qs c a = r0 # rs" and g: "entry_for_request next r c = Inr (p, c')"
  shows "advance A c c' \<and> at_entry a p c' \<and> qs c' a = qs c a"
proof -
  obtain x c1 where l: "lookup_entry a False c = Inr (x, c1)" using g a by (auto simp: entry_for_request_def)
  show ?thesis
  proof (cases x)
    case (Some p')
    then have "p' = p" "c1 = c'" using g a l by (auto simp: entry_for_request_def)
    then show ?thesis using lookup_entry_Some [OF I(1) a(2), of False p c'] l Some by (auto simp: advance_def)
  next
    case None
    then have L: "cntlr_inv A c1" "same_view c c1" "cmap c a = None" using lookup_entry_None [OF I(1) a(2)] l by auto
    have q1: "qs c1 = qs c" "cmap c1 = cmap c" "dc_sent c1 = dc_sent c" using L(2) by (auto simp: same_view_def)
    have "queue_ok False (cmap c1 b) b (qs c1 b)" for b
    proof (cases "b = a")
      case True
      then show ?thesis using inv_queue [OF L(1), of b] L(3) q1 f by (auto simp: queue_ok_def waiting_ok_def)
    next
      case False
      then have "b \<notin> A" using I(2) by auto
      then show ?thesis using inv_queue [OF L(1), of b] by simp
    qed
    then have I1: "cntlr_inv {} c1" using L(1) by (simp add: cntlr_inv_def)
    have al: "processDirectoryEntryAllocationReq next r c1 = Inr (p, c')" using g a l None by (auto simp: entry_for_request_def)
    note AP = allocation_progress [OF N I1 a al]
    then have "cntlr_inv A c'" using progress_inv cntlr_inv_mono by blast
    then show ?thesis using AP q1 same_view_owned [OF L(2)] by (simp add: progress_def advance_def)
  qed
qed

section \<open>Processing a request\<close>

text \<open>Outside the uncached state the weak form of the invariant is the full one.\<close>

lemma inv_strengthen:
  assumes "cntlr_inv A c" "A \<subseteq> {a}" "at_entry a p c" "de_dstate (the_entry p c) \<noteq> D_UNCACHED \<or> qs c a = r # rs \<and> req_type r = SH_REQ"
  shows "cntlr_inv {} c"
proof -
  have "queue_ok False (cmap c b) b (qs c b)" for b
  proof (cases "b = a")
    case True
    then show ?thesis using inv_queue [OF assms(1), of b] at_entry_map [OF assms(3)] assms(4)
      by (auto simp: queue_ok_def waiting_ok_def split: if_splits)
  next
    case False
    then have "b \<notin> A" using assms(2) by auto
    then show ?thesis using inv_queue [OF assms(1), of b] by simp
  qed
  then show ?thesis using assms(1) by (simp add: cntlr_inv_def)
qed

text \<open>The queue at the front of which a request of core \<open>r\<close> is being processed, for an entry that has just been given to \<open>r\<close>.\<close>

lemma queue_ok_given:
  assumes "queue_ok w eo a (r # rs)" "sharer_set e = {req_core r}" "de_dstate e = D_MODIFIED \<or> req_type r = SH_REQ"
    "req_type r \<in> {EX_REQ, SH_REQ, UPGRADE_REQ}"
  shows "queue_ok False (Some e) a (r # rs) \<and> waiting_ok False (Some e) (r\<lparr>sr_wait_for_data := True\<rparr>)"
  using assms by (auto simp: queue_ok_def waiting_ok_def)

text \<open>An uncached line is given to the requester, and the data is fetched.\<close>

lemma make_owner_progress:
  assumes N: "next_ok next" and I: "cntlr_inv A c" "A \<subseteq> {a}" and a: "a \<noteq> INVALID_ADDRESS" and at: "at_entry a p c"
    and f: "qs c a = r # rs" "req_type r \<in> {EX_REQ, SH_REQ, UPGRADE_REQ}" and u: "de_dstate (the_entry p c) = D_UNCACHED"
    and st: "st = D_MODIFIED \<or> req_type r = SH_REQ \<and> (st = D_EXCLUSIVE \<or> st = D_SHARED)"
    and t: "t = EX_REP \<and> st \<noteq> D_SHARED \<or> t = SH_REP"
    and m: "make_owner p (req_core r) st c = Inr c1" and g: "retrieveDataAndSendToL2Cache next t (req_core r) a buf c1 = Inr c'"
  shows "progress c c'"
proof -
  obtain e where e: "entry_step a p e c c1" "sharer_set e = insert (req_core r) (sharer_set (the_entry p c))" "de_dstate e = st"
    "de_owner e = req_core r" "entry_wf e = entry_wf (the_entry p c)" using make_owner_step [OF at m] by blast
  have U: "sharer_set (the_entry p c) = {}" "entry_wf (the_entry p c)" using inv_entry [OF I(1) at] u by (auto simp: entry_coherent_def)
  have Q: "queue_ok False (Some e) a (r # rs)" "waiting_ok False (Some e) (r\<lparr>sr_wait_for_data := True\<rparr>)"
    using queue_ok_given [of _ _ a r rs e] inv_queue [OF I(1), of a] f e U st by auto
  note S = entry_stepD [OF e(1)]
  have P: "progress c c1"
    by (rule entry_step_progress [OF I at e(1)]) (use e U st Q f u in \<open>auto simp: entry_coherent_def\<close>)
  have "owned c1 a (req_core r)" if "t = EX_REP" using that S e U st t by (auto simp: owned_def)
  moreover have "waiting_ok False (cmap c1 a) (r0\<lparr>sr_wait_for_data := True\<rparr>)" if "qs c1 a = r0 # rs0" for r0 rs0
    using that S f Q by simp
  ultimately have "progress c1 c'" using retrieve_progress [OF N progress_inv [OF P] a _ _ _ g] t by auto
  then show ?thesis using P progress_trans by blast
qed

lemma processEx_progress:
  assumes N: "next_ok next" and I: "cntlr_inv A c" "A \<subseteq> {a}" and a: "req_address r = a" "a \<noteq> INVALID_ADDRESS"
    and f: "qs c a = r # rs" "req_type r = EX_REQ" and g: "processExReqFromL2Cache next r buf c = Inr c'"
  shows "progress c c'"
proof -
  obtain p c1 where c1: "entry_for_request next r c = Inr (p, c1)" using g by (auto simp: processExReqFromL2Cache_def Let_def)
  have E: "advance A c c1" "cntlr_inv A c1" "at_entry a p c1" "qs c1 a = r # rs"
    using entry_for_request_spec [OF N I a f(1) c1] f by (auto simp: advance_def)
  note I1 = inv_strengthen [OF E(2) I(2) E(3)]
  have "progress c1 c'"
  proof (cases "de_dstate (the_entry p c1)")
    case D_UNCACHED
    then obtain c2 where m: "make_owner p (req_core r) D_MODIFIED c1 = Inr c2" "retrieveDataAndSendToL2Cache next EX_REP (req_core r) a buf c2 = Inr c'"
      using g a c1 by (auto simp: processExReqFromL2Cache_def Let_def)
    then show ?thesis using make_owner_progress [OF N E(2) I(2) a(2) E(3,4) _ D_UNCACHED _ _ m] f(2) by blast
  next
    case D_SHARED
    then show ?thesis using progress_send_inv [OF I1] g a c1 by (auto simp: processExReqFromL2Cache_def Let_def)
  next
    case D_OWNED
    then show ?thesis using g a c1 by (auto simp: processExReqFromL2Cache_def Let_def)
  next
    case D_MODIFIED
    then show ?thesis using progress_send_plain [OF I1] g a c1 by (auto simp: processExReqFromL2Cache_def Let_def)
  next
    case D_EXCLUSIVE
    then show ?thesis using progress_send_plain [OF I1] g a c1 by (auto simp: processExReqFromL2Cache_def Let_def)
  qed
  then show ?thesis using advance_trans [OF E(1)] by blast
qed

lemma queue_ok_shared:
  assumes "queue_ok w (Some e0) a (r # rs)" "req_type r = SH_REQ" "de_dstate e \<noteq> D_EXCLUSIVE"
  shows "queue_ok False (Some e) a (r # rs) \<and> waiting_ok False (Some e) (r\<lparr>sr_wait_for_data := True\<rparr>)"
  using assms by (auto simp: queue_ok_def waiting_ok_def)

lemma shared_retrieve:
  assumes N: "next_ok next" and I: "cntlr_inv {} c" and a: "a \<noteq> INVALID_ADDRESS" and at: "at_entry a p c"
    and f: "qs c a = r # rs" "req_type r = SH_REQ" and s: "de_dstate (the_entry p c) = D_SHARED"
    and g: "retrieveDataAndSendToL2Cache next SH_REP x a buf c = Inr c'"
  shows "progress c c'"
  by (rule retrieve_progress [OF N I a _ _ _ g]) (use f s at_entry_map [OF at] in \<open>auto simp: waiting_ok_def\<close>)

text \<open>A reader asks for a line that other cores share.\<close>

lemma processSh_shared:
  assumes N: "next_ok next" and I: "cntlr_inv {} c" and a: "a \<noteq> INVALID_ADDRESS" and at: "at_entry a p c"
    and f: "qs c a = r # rs" "req_type r = SH_REQ" and s: "de_dstate (the_entry p c) = D_SHARED"
    and m: "add_sharer p x c = Inr (b, c1)"
    and g: "(if \<not> b then bindR (getOneSharer (the_entry p c1)) (\<lambda>(sharer_id, e).
               sendMsg INV_REQ L2_CACHE x sharer_id a None 0 HIT_UNKNOWN (set_entry p e c1))
             else retrieveDataAndSendToL2Cache next SH_REP x a buf c1) = Inr c'"
  shows "progress c c'"
proof -
  obtain e where e: "entry_step a p e c c1" "sharer_set e = (if b then insert x (sharer_set (the_entry p c)) else sharer_set (the_entry p c))"
    "entry_wf e = entry_wf (the_entry p c)" "de_dstate e = D_SHARED" using add_sharer_step [OF at m] s by auto
  note S = entry_stepD [OF e(1)]
  have co: "entry_coherent e" using inv_entry [OF I at] e s by (auto simp: entry_coherent_def)
  have Q: "queue_ok False (Some e) a (qs c a)"
    using queue_ok_shared [of _ "the_entry p c" a r rs e] inv_queue [OF I, of a] at_entry_map [OF at] f e(4) by auto
  have P: "progress c c1" by (rule entry_step_progress [OF I _ at e(1) co Q]) (use s in auto)
  note I1 = progress_inv [OF P]
  have "progress c1 c'"
  proof (cases b)
    case True
    then show ?thesis using shared_retrieve [OF N I1 a S(1) _ f(2), of rs x buf c'] g S f e(4) by simp
  next
    case False
    then obtain sid e2 where o: "getOneSharer (the_entry p c1) = Inr (sid, e2)"
      "sendMsg INV_REQ L2_CACHE x sid a None 0 HIT_UNKNOWN (set_entry p e2 c1) = Inr c'" using g by auto
    obtain k where k: "e2 = e\<lparr>de_kind := k\<rparr>" using getOneSharer_Inr [OF _ o(1)] S(2) co by (auto simp: entry_coherent_def)
    have "progress c1 (set_entry p e2 c1)"
      by (rule mild_step_progress [OF I1 S(1) entry_step_set [OF S(1)]]) (use k S entry_step_address [OF e(1)] in auto)
    then show ?thesis using progress_then_send o(2) by blast
  qed
  then show ?thesis using P progress_trans by blast
qed

lemma processSh_progress:
  assumes N: "next_ok next" and I: "cntlr_inv {} c" and a: "req_address r = a" "a \<noteq> INVALID_ADDRESS"
    and f: "qs c a = r # rs" "req_type r = SH_REQ" and g: "processShReqFromL2Cache next r buf c = Inr c'"
  shows "progress c c'"
proof -
  obtain p c1 where c1: "entry_for_request next r c = Inr (p, c1)" using g by (auto simp: processShReqFromL2Cache_def Let_def)
  have E: "advance {} c c1" "cntlr_inv {} c1" "at_entry a p c1" "qs c1 a = r # rs"
    using entry_for_request_spec [OF N I _ a f(1) c1] f by (auto simp: advance_def)
  have "progress c1 c'"
  proof (cases "de_dstate (the_entry p c1)")
    case D_UNCACHED
    show ?thesis
    proof (cases "dc_protocol c1 = MSI")
      case True
      then obtain c2 where m: "make_owner p (req_core r) D_SHARED c1 = Inr c2" "retrieveDataAndSendToL2Cache next SH_REP (req_core r) a buf c2 = Inr c'"
        using g a c1 D_UNCACHED by (auto simp: processShReqFromL2Cache_def Let_def)
      then show ?thesis using make_owner_progress [OF N E(2) _ a(2) E(3,4) _ D_UNCACHED _ _ m] f(2) by blast
    next
      case False
      then obtain c2 where m: "make_owner p (req_core r) D_EXCLUSIVE c1 = Inr c2" "retrieveDataAndSendToL2Cache next EX_REP (req_core r) a buf c2 = Inr c'"
        using g a c1 D_UNCACHED by (auto simp: processShReqFromL2Cache_def Let_def)
      then show ?thesis using make_owner_progress [OF N E(2) _ a(2) E(3,4) _ D_UNCACHED _ _ m] f(2) by blast
    qed
  next
    case D_SHARED
    obtain h where h: "hasSharer (req_core r) (the_entry p c1) = Inr h" using g a c1 D_SHARED by (auto simp: processShReqFromL2Cache_def Let_def)
    show ?thesis
    proof (cases h)
      case True
      define c2 where "c2 = (let c = c1\<lparr>dc_forward := dc_forward c1 + 1\<rparr> in
        if buf = None then c\<lparr>dc_forward_failed := dc_forward_failed c + 1\<rparr> else c)"
      have V: "same_view c1 c2" "at_entry a p c2" "the_entry p c2 = the_entry p c1"
        using E(3) by (auto simp: c2_def Let_def same_view_def at_entry_def the_entry_def)
      have r2: "retrieveDataAndSendToL2Cache next SH_REP (req_core r) a buf c2 = Inr c'"
        using g a c1 D_SHARED h True by (auto simp: processShReqFromL2Cache_def Let_def c2_def split: if_splits)
      have "progress c2 c'"
        using shared_retrieve [OF N same_view_inv [OF V(1) E(2)] a(2) V(2) _ f(2) _ r2, of rs] V(1,3) E(4) D_SHARED by (simp add: same_view_def)
      then show ?thesis using same_view_progress [OF V(1) E(2)] progress_trans by blast
    next
      case False
      then obtain b c2 where b: "add_sharer p (req_core r) c1 = Inr (b, c2)" using g a c1 D_SHARED h by (auto simp: processShReqFromL2Cache_def Let_def)
      show ?thesis
        by (rule processSh_shared [OF N E(2) a(2) E(3,4) f(2) D_SHARED b]) (use g a c1 D_SHARED h False b in \<open>simp add: processShReqFromL2Cache_def Let_def\<close>)
    qed
  next
    case D_OWNED
    then show ?thesis using g a c1 by (auto simp: processShReqFromL2Cache_def Let_def)
  next
    case D_MODIFIED
    then show ?thesis using progress_send_plain [OF E(2)] g a c1 by (auto simp: processShReqFromL2Cache_def Let_def)
  next
    case D_EXCLUSIVE
    then show ?thesis using progress_send_plain [OF E(2)] g a c1 by (auto simp: processShReqFromL2Cache_def Let_def)
  qed
  then show ?thesis using advance_trans [OF E(1)] by blast
qed

text \<open>A line that the requester already owns.\<close>

lemma upgrade_owned:
  assumes N: "next_ok next" and I: "cntlr_inv {} c" and a: "a \<noteq> INVALID_ADDRESS" and at: "at_entry a p c"
    and f: "qs c a = r # rs" "req_type r = UPGRADE_REQ" and st: "de_dstate (the_entry p c) = D_MODIFIED \<or> de_dstate (the_entry p c) = D_EXCLUSIVE"
    and sh: "sharer_set (the_entry p c) = {req_core r}" and o: "de_owner (the_entry p c) = req_core r"
    and s: "sendMsg UPGRADE_REP L2_CACHE (req_core r) (req_core r) a None 0 HIT_UNKNOWN c = Inr c1"
    and n: "next a (setDState p D_MODIFIED c1) = Inr c'"
  shows "progress c c'"
proof -
  have "owned c a (req_core r)" using at_entry_map [OF at] st sh by (auto simp: owned_def)
  then have P: "progress c c1" using progress_send [OF I s] by blast
  note I1 = progress_inv [OF P]
  have V: "dc_cache c1 = dc_cache c" "dc_queues c1 = dc_queues c" using sendMsg_cache [OF s] by auto
  have at1: "at_entry a p c1" "the_entry p c1 = the_entry p c" using at V by (auto simp: at_entry_def the_entry_def)
  let ?e = "(the_entry p c1)\<lparr>de_dstate := D_MODIFIED\<rparr>"
  have Q: "queue_ok False (Some ?e) a (qs c1 a)"
    using queue_ok_given [of _ _ a r rs ?e] inv_queue [OF I, of a] f sh at1 V by auto
  have "progress c1 (setDState p D_MODIFIED c1)"
    by (rule entry_step_progress [OF I1 _ at1(1) setDState_step [OF at1(1)]])
      (use inv_entry [OF I1 at1(1)] at1(2) sh o Q in \<open>auto simp: entry_coherent_def\<close>)
  then show ?thesis using P progress_trans next_okD [OF N a _ n] progress_inv by blast
qed

text \<open>The requester is the last sharer and becomes the owner.\<close>

lemma upgrade_last_sharer:
  assumes N: "next_ok next" and I: "cntlr_inv {} c" and a: "a \<noteq> INVALID_ADDRESS" and at: "at_entry a p c"
    and f: "qs c a = r # rs" "req_type r = UPGRADE_REQ" and st: "de_dstate (the_entry p c) = D_SHARED" and sh: "sharer_set (the_entry p c) = {req_core r}"
    and o: "set_owner p (req_core r) c = Inr c1"
    and n: "bindR (sendMsg UPGRADE_REP L2_CACHE (req_core r) (req_core r) a None 0 HIT_UNKNOWN (setDState p D_MODIFIED c1)) (\<lambda>c. next a c) = Inr c'"
  shows "progress c c'"
proof -
  let ?e = "(the_entry p c)\<lparr>de_owner := req_core r, de_dstate := D_MODIFIED\<rparr>"
  have 1: "entry_step a p ((the_entry p c)\<lparr>de_owner := req_core r\<rparr>) c c1" using set_owner_step [OF at o] by blast
  have "entry_step a p ?e c1 (setDState p D_MODIFIED c1)"
    using setDState_step [OF entry_stepD(1) [OF 1], of D_MODIFIED] entry_stepD(2) [OF 1] by simp
  then have 2: "entry_step a p ?e c (setDState p D_MODIFIED c1)" using entry_step_trans [OF 1] by blast
  have Q: "queue_ok False (Some ?e) a (qs c a)" using queue_ok_given [of _ _ a r rs ?e] inv_queue [OF I, of a] f sh by auto
  have P: "progress c (setDState p D_MODIFIED c1)"
    by (rule entry_step_progress [OF I _ at 2]) (use inv_entry [OF I at] sh st Q in \<open>auto simp: entry_coherent_def\<close>)
  have "owned (setDState p D_MODIFIED c1) a (req_core r)" using entry_stepD(3) [OF 2] sh by (simp add: owned_def)
  then show ?thesis using reply_and_next [OF N progress_inv [OF P] a _ n] P progress_trans by blast
qed

lemma sharers_of_list: "snd (getSharersList e) = s # ss \<Longrightarrow> s \<in> sharer_set e" "snd (getSharersList e) = [s] \<Longrightarrow> sharer_set e = {s}"
  using getSharersList_set [of e] by auto

lemma processUpgrade_progress:
  assumes N: "next_ok next" and I: "cntlr_inv A c" "A \<subseteq> {a}" and a: "req_address r = a" "a \<noteq> INVALID_ADDRESS"
    and f: "qs c a = r # rs" "req_type r = UPGRADE_REQ" and g: "processUpgradeReqFromL2Cache next r buf c = Inr c'"
  shows "progress c c'"
proof -
  obtain p c1 where c1: "entry_for_request next r c = Inr (p, c1)" using g by (auto simp: processUpgradeReqFromL2Cache_def Let_def)
  have E: "advance A c c1" "cntlr_inv A c1" "at_entry a p c1" "qs c1 a = r # rs"
    using entry_for_request_spec [OF N I a f(1) c1] f by (auto simp: advance_def)
  note I1 = inv_strengthen [OF E(2) I(2) E(3)]
  let ?e = "the_entry p c1"
  have O: "progress c1 c'" if st: "de_dstate ?e = D_MODIFIED \<or> de_dstate ?e = D_EXCLUSIVE"
  proof -
    obtain s ss where s: "snd (getSharersList ?e) = s # ss"
      using g a c1 st by (cases "snd (getSharersList ?e)") (auto simp: processUpgradeReqFromL2Cache_def Let_def)
    have sh: "sharer_set ?e = {s}" "de_owner ?e = s" using sharers_of_list(1) [OF s] inv_entry [OF E(2,3)] st by (auto simp: entry_coherent_def)
    have i1: "cntlr_inv {} c1" using I1 st by auto
    show ?thesis
    proof (cases "s = req_core r")
      case True
      obtain c2 where c2: "sendMsg UPGRADE_REP L2_CACHE (req_core r) (req_core r) a None 0 HIT_UNKNOWN c1 = Inr c2" "next a (setDState p D_MODIFIED c2) = Inr c'"
        using g a c1 st s True by (auto simp: processUpgradeReqFromL2Cache_def Let_def)
      show ?thesis using upgrade_owned [OF N i1 a(2) E(3,4) f(2) st _ _ c2] sh True by simp
    next
      case False
      then show ?thesis using progress_send_plain [OF i1] g a c1 st s by (auto simp: processUpgradeReqFromL2Cache_def Let_def)
    qed
  qed
  have "progress c1 c'"
  proof (cases "de_dstate ?e")
    case D_UNCACHED
    then obtain c2 b where m: "make_owner p (req_core r) D_MODIFIED c1 = Inr c2" "retrieveDataAndSendToL2Cache next EX_REP (req_core r) a b c2 = Inr c'"
      using g a c1 by (auto simp: processUpgradeReqFromL2Cache_def Let_def)
    then show ?thesis using make_owner_progress [OF N E(2) I(2) a(2) E(3,4) _ D_UNCACHED _ _ m] f(2) by blast
  next
    case D_SHARED
    have i1: "cntlr_inv {} c1" using I1 D_SHARED by auto
    show ?thesis
    proof (cases "snd (getSharersList ?e) = [req_core r]")
      case True
      obtain c2 where c2: "set_owner p (req_core r) c1 = Inr c2"
        "bindR (sendMsg UPGRADE_REP L2_CACHE (req_core r) (req_core r) a None 0 HIT_UNKNOWN (setDState p D_MODIFIED c2)) (\<lambda>c. next a c) = Inr c'"
        using g a c1 D_SHARED True by (auto simp: processUpgradeReqFromL2Cache_def Let_def)
      show ?thesis by (rule upgrade_last_sharer [OF N i1 a(2) E(3,4) f(2) D_SHARED sharers_of_list(2) [OF True] c2])
    next
      case False
      then show ?thesis using g a c1 D_SHARED progress_broadcast [OF i1] progress_upgrade_invs [OF i1]
        by (auto simp: processUpgradeReqFromL2Cache_def Let_def split: if_splits)
    qed
  next
    case D_OWNED
    then show ?thesis using g a c1 by (auto simp: processUpgradeReqFromL2Cache_def Let_def)
  qed (use O in auto)
  then show ?thesis using advance_trans [OF E(1)] by blast
qed

section \<open>The next request\<close>

lemma dequeue_progress:
  assumes I: "cntlr_inv {} c" and q: "qs c a = r # rs" and d: "dc_queues c' = q'" "rq_inv q'" "rq_contents q' = (qs c)(a := rs)"
    and o: "dc_cache c' = dc_cache c" "dc_sent c' = dc_sent c"
  shows "progress c c'"
proof -
  have "queue_ok False (cmap c' b) b (qs c' b)" for b
  proof (cases "b = a")
    case True
    have "\<not> sr_wait_for_data (hd rs)" if "rs \<noteq> []" using inv_queue [OF I, of a] q that by (simp add: queue_ok_def)
    moreover have "\<forall>x \<in> set (tl rs). \<not> sr_wait_for_data x" using inv_queue [OF I, of a] q by (cases rs) (auto simp: queue_ok_def)
    ultimately show ?thesis using inv_queue [OF I, of a] q d o True by (auto simp: queue_ok_def waiting_ok_def)
  next
    case False
    then show ?thesis using inv_queue [OF I, of b] d o by simp
  qed
  then have "cntlr_inv {} c'" using I d o by (simp add: cntlr_inv_def)
  then show ?thesis using o by (simp add: progress_def owned_def)
qed

text \<open>The function that the type of a request selects.\<close>

definition process_request :: "next_req \<Rightarrow> ShmemReq \<Rightarrow> DramDirectoryCntlr \<Rightarrow> DramDirectoryCntlr result" where
  "process_request next r c =
     (case req_type r of
        EX_REQ \<Rightarrow> processExReqFromL2Cache next r None c
      | SH_REQ \<Rightarrow> processShReqFromL2Cache next r None c
      | UPGRADE_REQ \<Rightarrow> processUpgradeReqFromL2Cache next r None c
      | _ \<Rightarrow> Inl (LogError ''Unrecognized Request''))"

lemma processNext_step:
  assumes "rq_inv (dc_queues c)" "qs c a = r0 # rs"
  shows "\<exists>q. rq_inv q \<and> rq_contents q = (qs c)(a := rs) \<and> processNextReqFromL2Cache (Suc n) a c =
    (case rs of [] \<Rightarrow> Inr (c\<lparr>dc_queues := q\<rparr>)
     | r # _ \<Rightarrow> process_request (processNextReqFromL2Cache n) r (setElapsedTime (sr_time r) (c\<lparr>dc_queues := q\<rparr>)))"
proof -
  obtain q' where d: "ReqQueueList_dequeue (dc_queues c) a = Inr (r0, q')" "rq_inv q'" "rq_contents q' = (qs c)(a := rs)"
    using rq_dequeue_contents [OF assms] by blast
  have e: "ReqQueueList_empty q' a \<longleftrightarrow> rs = []" using rq_empty_contents [OF d(2), of a] d(3) by simp
  have f: "rs = r # rs' \<Longrightarrow> ReqQueueList_front q' a = Inr r" for r rs' using rq_front_contents [of q' a r rs'] d(3) by simp
  have s: "ReqQueueList_size (dc_queues c) a \<ge> 1" using assms(2) by (simp add: rq_size_contents)
  show ?thesis using d e f s by (intro exI [of _ q']) (cases rs; simp add: process_request_def Let_def)
qed

lemma processNext_nonempty: "processNextReqFromL2Cache (Suc n) a c = Inr c' \<Longrightarrow> \<exists>r0 rs. qs c a = r0 # rs"
  by (cases "qs c a") (auto simp: rq_size_contents)

declare processNextReqFromL2Cache.simps(2) [simp del]

lemma request_address: "cntlr_inv A c \<Longrightarrow> qs c a = r # rs \<Longrightarrow> req_address r = a \<and> a \<noteq> INVALID_ADDRESS"
  using inv_queue [of A c a] by (auto simp: queue_ok_def)

lemma process_request_progress:
  assumes "next_ok next" "cntlr_inv {} c" "qs c a = r # rs" "process_request next r c = Inr c'"
  shows "progress c c'"
proof -
  have a: "req_address r = a" "a \<noteq> INVALID_ADDRESS" using request_address [OF assms(2,3)] by auto
  show ?thesis
    using assms(4) processEx_progress [OF assms(1,2) _ a assms(3)] processSh_progress [OF assms(1,2) a assms(3)]
      processUpgrade_progress [OF assms(1,2) _ a assms(3)]
    by (cases "req_type r") (auto simp: process_request_def)
qed

lemma processNext_pops: "pops_last (processNextReqFromL2Cache (Suc n))"
  unfolding pops_last_def using processNext_step [where rs = "[]" and n = n] by fastforce

lemma processNext_ok: "next_ok (processNextReqFromL2Cache n)"
proof (induction n)
  case 0
  then show ?case by (simp add: next_ok_def pops_last_def)
next
  case (Suc n)
  have "progress c c'" if I: "cntlr_inv {} c" and p: "processNextReqFromL2Cache (Suc n) a c = Inr c'" for a c c'
  proof -
    have rq: "rq_inv (dc_queues c)" using I by (simp add: cntlr_inv_def)
    obtain r0 rs where q0: "qs c a = r0 # rs" using processNext_nonempty [OF p] by blast
    obtain q where q: "rq_inv q" "rq_contents q = (qs c)(a := rs)" "processNextReqFromL2Cache (Suc n) a c =
      (case rs of [] \<Rightarrow> Inr (c\<lparr>dc_queues := q\<rparr>)
       | r # _ \<Rightarrow> process_request (processNextReqFromL2Cache n) r (setElapsedTime (sr_time r) (c\<lparr>dc_queues := q\<rparr>)))"
      using processNext_step [OF rq q0] by blast
    let ?c1 = "c\<lparr>dc_queues := q\<rparr>"
    have P: "progress c ?c1" by (rule dequeue_progress [OF I q0]) (use q in simp_all)
    show ?thesis
    proof (cases rs)
      case Nil
      then show ?thesis using P q(3) p by simp
    next
      case (Cons r rs')
      let ?c2 = "setElapsedTime (sr_time r) ?c1"
      have V: "same_view ?c1 ?c2" by simp
      have I2: "cntlr_inv {} ?c2" and P2: "progress c ?c2"
        using same_view_inv [OF V progress_inv [OF P]] progress_trans [OF P same_view_progress [OF V progress_inv [OF P]]] by auto
      have q2: "qs ?c2 a = r # rs'" using Cons q(2) by (simp add: setElapsedTime_def)
      have "progress ?c2 c'"
        using p q(3) Cons process_request_progress [OF Suc.IH I2 q2] by simp
      then show ?thesis using P2 progress_trans by blast
    qed
  qed
  then show ?case unfolding next_ok_def using processNext_pops by blast
qed

end
