(* ===== verification/Directory_Safety.thy ===== *)
theory Directory_Safety
  imports Directory_Protocol
begin

text \<open>
  The handlers of replies and messages keep the protocol invariant, from which the safety properties of the directory controller
  follow: in every reachable state each entry is coherent, and every exclusive or upgrade reply that a
  handler sends goes to the sole sharer of the line.
\<close>

section \<open>Replies\<close>

text \<open>What a whole handler does: the invariant holds again, and the grants it has sent are justified by the new state.\<close>

definition settled :: "DramDirectoryCntlr \<Rightarrow> DramDirectoryCntlr \<Rightarrow> bool" where
  "settled c c' = (cntlr_inv {} c' \<and> (\<exists>pks. dc_sent c' = dc_sent c @ pks \<and> (\<forall>pk \<in> set pks. grant_ok c' pk)))"

lemma settledI: "dc_sent c1 = dc_sent c \<Longrightarrow> progress c1 c' \<Longrightarrow> settled c c'"
  by (simp add: settled_def progress_def)

lemma settled_refl: "cntlr_inv {} c' \<Longrightarrow> dc_sent c' = dc_sent c \<Longrightarrow> settled c c'"
  by (simp add: settled_def)

lemma wake_front_spec:
  assumes I: "cntlr_inv A c" and w: "wake_front a c = Inr (r, c')" and s: "ReqQueueList_size (dc_queues c) a \<noteq> 0"
  shows "cntlr_inv A c' \<and> qs c' a = r # tl (qs c a) \<and> r = ShmemReq_updateTime (getElapsedTime c) (hd (qs c a)) \<and> qs c a \<noteq> []
    \<and> dc_sent c' = dc_sent c \<and> (\<forall>p. at_entry a p c \<longrightarrow> at_entry a p c' \<and> the_entry p c' = the_entry p c)"
proof -
  let ?f = "ShmemReq_updateTime (getElapsedTime c)"
  let ?c = "update_front a ?f c"
  obtain r0 rs where q: "qs c a = r0 # rs" using s by (cases "qs c a") (auto simp: rq_size_contents)
  have Q: "qs ?c b = (if b = a then ?f r0 # rs else qs c b)" for b by (simp add: update_front_def rq_update_front_contents q)
  have r: "r = ?f r0" and c': "c' = updateElapsedTime (sr_time r) ?c"
    using w rq_front_contents [of "dc_queues ?c" a "?f r0" rs] Q [of a] by (auto simp: wake_front_def Let_def)
  have w': "sr_wait_for_data (?f r0) = sr_wait_for_data r0" by (simp add: ShmemReq_updateTime_def)
  have "queue_ok (b \<in> A) (cmap ?c b) b (qs ?c b)" for b
    using inv_queue [OF I, of b] Q [of b] q w' by (auto simp: queue_ok_def waiting_ok_def update_front_def)
  then have "cntlr_inv A ?c" using I by (auto simp: cntlr_inv_def update_front_def rq_update_front_inv)
  then have I': "cntlr_inv A c'" using same_view_inv [of ?c c' A] c' by simp
  have "qs c' a = r # rs" "dc_sent c' = dc_sent c" using Q [of a] r c' by (auto simp: updateElapsedTime_def setElapsedTime_def update_front_def)
  moreover have "at_entry a p c' \<and> the_entry p c' = the_entry p c" if "at_entry a p c" for p
    using that c' by (auto simp: at_entry_def the_entry_def updateElapsedTime_def setElapsedTime_def update_front_def)
  ultimately show ?thesis using I' q r by simp
qed

text \<open>A sharer leaves the entry: what remains, and whether the line is uncached then.\<close>

definition without_sharer :: "core_id_t \<Rightarrow> DirectoryEntry \<Rightarrow> DirectoryEntry \<Rightarrow> bool" where
  "without_sharer s e e' =
     (s \<in> sharer_set e \<and> sharer_set e' = sharer_set e - {s} \<and> entry_wf e' = entry_wf e
      \<and> de_dstate e' = (if sharer_set e = {s} then D_UNCACHED else de_dstate e))"

lemma num_sharers_0: "entry_coherent e \<Longrightarrow> sharer_set e' = sharer_set e - {s} \<Longrightarrow> entry_wf e' = entry_wf e \<Longrightarrow> s \<in> sharer_set e \<Longrightarrow>
   getNumSharers e' = 0 \<longleftrightarrow> sharer_set e = {s}"
  using de.num_0_iff [of e'] by (auto simp: entry_coherent_def)

lemma inv_rep_entry:
  assumes I: "cntlr_inv {} c" and at: "at_entry a p c" and rm: "remove_sharer p s c = Inr c1"
    and c3: "c3 = (let c = (if de_forwarder (the_entry p c1) = s then setForwarder p INVALID_CORE_ID c1 else c1)
       in if getNumSharers (the_entry p c) = 0 then setDState p D_UNCACHED c else c)"
  shows "\<exists>e. entry_step a p e c c3 \<and> without_sharer s (the_entry p c) e"
proof -
  note co = inv_entry [OF I at]
  obtain e1 where 1: "entry_step a p e1 c c1" "s \<in> sharer_set (the_entry p c)" "sharer_set e1 = sharer_set (the_entry p c) - {s}"
    "entry_wf e1 = entry_wf (the_entry p c)" "de_dstate e1 = de_dstate (the_entry p c)" using remove_sharer_step [OF at rm] by blast
  note S1 = entry_stepD [OF 1(1)]
  define c2 where "c2 = (if de_forwarder (the_entry p c1) = s then setForwarder p INVALID_CORE_ID c1 else c1)"
  obtain e2 where 2: "entry_step a p e2 c1 c2" "sharer_set e2 = sharer_set e1" "entry_wf e2 = entry_wf e1" "de_dstate e2 = de_dstate e1"
  proof (cases "de_forwarder (the_entry p c1) = s")
    case True
    then show ?thesis using that setForwarder_step [OF S1(1), of INVALID_CORE_ID] S1(2) by (auto simp: c2_def)
  next
    case False
    then show ?thesis using that [of e1] entry_step_refl [OF S1(1,2)] by (simp add: c2_def)
  qed
  note S2 = entry_stepD [OF 2(1)]
  have z: "getNumSharers e2 = 0 \<longleftrightarrow> sharer_set (the_entry p c) = {s}" by (rule num_sharers_0 [OF co]) (use 1 2 in auto)
  have c3': "c3 = (if getNumSharers (the_entry p c2) = 0 then setDState p D_UNCACHED c2 else c2)" using c3 by (simp add: c2_def Let_def)
  show ?thesis
  proof (cases "getNumSharers e2 = 0")
    case True
    have "entry_step a p (e2\<lparr>de_dstate := D_UNCACHED\<rparr>) c2 c3" using setDState_step [OF S2(1), of D_UNCACHED] S2(2) c3' True by simp
    then have "entry_step a p (e2\<lparr>de_dstate := D_UNCACHED\<rparr>) c c3" using entry_step_trans [OF 1(1) entry_step_trans [OF 2(1)]] by blast
    then show ?thesis using 1 2 z True by (auto simp: without_sharer_def)
  next
    case False
    have "entry_step a p e2 c c3" using entry_step_trans [OF 1(1) 2(1)] c3' False S2(2) by simp
    then show ?thesis using 1 2 z False by (auto simp: without_sharer_def)
  qed
qed

lemma without_state:
  assumes "entry_coherent e" "without_sharer s e e'"
  shows "if sharer_set e = {s} then de_dstate e' = D_UNCACHED else de_dstate e' = D_SHARED \<and> de_dstate e = D_SHARED"
proof -
  have "s \<in> sharer_set e" using assms(2) by (simp add: without_sharer_def)
  then have "de_dstate e = D_SHARED" if "sharer_set e \<noteq> {s}"
    using assms(1) that by (cases "de_dstate e") (simp_all add: entry_coherent_def)
  then show ?thesis using assms(2) by (simp add: without_sharer_def)
qed

lemma without_coherent:
  assumes "entry_coherent e" "without_sharer s e e'"
  shows "entry_coherent e'"
proof -
  have "sharer_set e' = sharer_set e - {s}" "s \<in> sharer_set e" "entry_wf e'"
    using assms by (auto simp: without_sharer_def entry_coherent_def)
  moreover from this have "sharer_set e = {s} \<longleftrightarrow> sharer_set e' = {}" by blast
  ultimately show ?thesis using without_state [OF assms] by (auto simp: entry_coherent_def split: if_splits)
qed

text \<open>The state of a handler after a sharer has left: the entry is coherent, and only the request at the front may be affected.\<close>

lemma left_inv:
  assumes I: "cntlr_inv {} c" and at: "at_entry a p c" and s: "entry_step a p e c c1" and w: "without_sharer s (the_entry p c) e"
  shows "cntlr_inv {a} c1"
    and "de_dstate (the_entry p c) = D_SHARED \<or> de_dstate (the_entry p c) = D_EXCLUSIVE \<Longrightarrow> cntlr_inv {} c1"
proof -
  note co = inv_entry [OF I at] and m = at_entry_map [OF at]
  have st: "de_dstate e \<noteq> D_EXCLUSIVE" "de_dstate e \<noteq> D_UNCACHED \<Longrightarrow> de_dstate (the_entry p c) = D_SHARED"
    using without_state [OF co w] by (auto split: if_splits)
  have Q: "queue_ok False (Some (the_entry p c)) a (qs c a)" using inv_queue [OF I, of a] m by simp
  have "queue_ok True (Some e) a (qs c a)" using Q st by (auto simp: queue_ok_def waiting_ok_def split: if_splits)
  then show "cntlr_inv {a} c1" using entry_step_inv [OF I _ s without_coherent [OF co w], of "{a}"] by simp
  assume "de_dstate (the_entry p c) = D_SHARED \<or> de_dstate (the_entry p c) = D_EXCLUSIVE"
  then have "queue_ok False (Some e) a (qs c a)" using Q st by (auto simp: queue_ok_def waiting_ok_def split: if_splits)
  then show "cntlr_inv {} c1" using entry_step_inv [OF I _ s without_coherent [OF co w], of "{}"] by simp
qed

lemma front_not_waiting:
  "cntlr_inv A c \<Longrightarrow> qs c a = r # rs \<Longrightarrow> req_type r \<notin> {EX_REQ, SH_REQ, UPGRADE_REQ} \<Longrightarrow> \<not> sr_wait_for_data r"
  using inv_queue [of A c a] by (auto simp: queue_ok_def waiting_ok_def)

text \<open>Setting an uncached line to uncached again.\<close>

lemma uncache_again:
  assumes "cntlr_inv A c" "A \<subseteq> {a}" "at_entry a p c" "getNumSharers (the_entry p c) = 0"
  shows "cntlr_inv A (setDState p D_UNCACHED c)" "dc_sent (setDState p D_UNCACHED c) = dc_sent c" "qs (setDState p D_UNCACHED c) = qs c"
proof -
  note co = inv_entry [OF assms(1,3)] and S = setDState_step [OF assms(3), of D_UNCACHED]
  have "sharer_set (the_entry p c) = {}" using de.num_0_iff co assms(4) by (auto simp: entry_coherent_def)
  then have u: "de_dstate (the_entry p c) = D_UNCACHED" using co by (cases "de_dstate (the_entry p c)") (auto simp: entry_coherent_def)
  then have e: "(the_entry p c)\<lparr>de_dstate := D_UNCACHED\<rparr> = the_entry p c" by (metis DirectoryEntry.surjective DirectoryEntry.update_convs(2))
  show "cntlr_inv A (setDState p D_UNCACHED c)"
    by (rule entry_step_inv [OF assms(1,2) S]) (use co e inv_queue [OF assms(1), of a] at_entry_map [OF assms(3)] in auto)
  show "dc_sent (setDState p D_UNCACHED c) = dc_sent c" "qs (setDState p D_UNCACHED c) = qs c" using entry_stepD [OF S] by simp_all
qed

lemma invRep_settled:
  assumes N: "next_ok next" and I: "cntlr_inv {} c" and a: "sm_address msg = a" "a \<noteq> INVALID_ADDRESS"
    and g: "processInvRepFromL2Cache next sender msg c = Inr c'"
  shows "settled c c'"
proof -
  obtain p c1 c2 where c1: "require_entry a c = Inr (p, c1)"
    and st: "de_dstate (the_entry p c1) = D_SHARED \<or> de_dstate (the_entry p c1) = D_EXCLUSIVE" and c2: "remove_sharer p sender c1 = Inr c2"
    using g a by (auto simp: processInvRepFromL2Cache_def Let_def)
  have R: "cntlr_inv {} c1" "at_entry a p c1" "dc_sent c1 = dc_sent c" using require_entry_Inr [OF I a(2) c1] by auto
  define c3 where "c3 = (let c = (if de_forwarder (the_entry p c2) = sender then setForwarder p INVALID_CORE_ID c2 else c2)
       in if getNumSharers (the_entry p c) = 0 then setDState p D_UNCACHED c else c)"
  obtain e where e: "entry_step a p e c1 c3" "without_sharer sender (the_entry p c1) e" using inv_rep_entry [OF R(1,2) c2 c3_def] by blast
  have I3: "cntlr_inv {} c3" by (rule left_inv(2) [OF R(1,2) e st])
  note S = entry_stepD [OF e(1)]
  show ?thesis
  proof (cases "ReqQueueList_size (dc_queues c3) a > 0")
    case False
    then have "c' = c3" using g a c1 st c2 by (auto simp: processInvRepFromL2Cache_def Let_def c3_def)
    then show ?thesis using settled_refl I3 S R by simp
  next
    case True
    obtain r c4 where w: "wake_front a c3 = Inr (r, c4)"
      using g a c1 st c2 True by (auto simp: processInvRepFromL2Cache_def Let_def c3_def)
    have W: "cntlr_inv {} c4" "qs c4 a = r # tl (qs c3 a)" "dc_sent c4 = dc_sent c3" "at_entry a p c4"
      using wake_front_spec [OF I3 w] True S(1) by auto
    have ra: "req_address r = a" "a \<noteq> INVALID_ADDRESS" using request_address [OF W(1,2)] by auto
    let ?c5 = "setDState p D_UNCACHED c4"
    have "c' = c4 \<or> processExReqFromL2Cache next r None c4 = Inr c' \<and> req_type r = EX_REQ
      \<or> processUpgradeReqFromL2Cache next r None c4 = Inr c' \<and> req_type r = UPGRADE_REQ
      \<or> getNumSharers (the_entry p c4) = 0 \<and> processUpgradeReqFromL2Cache next r None ?c5 = Inr c' \<and> req_type r = UPGRADE_REQ
      \<or> processShReqFromL2Cache next r None c4 = Inr c' \<and> req_type r = SH_REQ
      \<or> processNullifyReq next r c4 = Inr c' \<and> req_type r \<notin> {EX_REQ, SH_REQ, UPGRADE_REQ}"
      using g a c1 st c2 True w
      by (cases "req_type r") (auto simp: processInvRepFromL2Cache_def Let_def c3_def split: if_splits)
    moreover have "progress c4 c'" if "processNullifyReq next r c4 = Inr c'" "req_type r \<notin> {EX_REQ, SH_REQ, UPGRADE_REQ}"
      by (rule nullify_progress [OF N W(1) _ _ _ that(1)]) (use ra front_not_waiting [OF W(1,2) that(2)] W(2) in auto)
    moreover have "settled c c'" if z: "getNumSharers (the_entry p c4) = 0" "processUpgradeReqFromL2Cache next r None ?c5 = Inr c'" "req_type r = UPGRADE_REQ"
    proof -
      note U = uncache_again [OF W(1) _ W(4) z(1)]
      have "progress ?c5 c'" by (rule processUpgrade_progress [OF N U(1) _ _ _ _ z(3,2)]) (use ra U(3) W(2) in auto)
      then show ?thesis using settledI [of ?c5 c c'] U(2) W(3) S(5) R(3) by simp
    qed
    moreover have "dc_sent c4 = dc_sent c" using W(3) S(5) R(3) by simp
    moreover note E = processEx_progress [OF N W(1) empty_subsetI ra W(2)] and U = processUpgrade_progress [OF N W(1) empty_subsetI ra W(2)]
      and H = processSh_progress [OF N W(1) ra W(2)]
    ultimately show ?thesis using progress_refl [OF W(1)] settledI [of c4 c c'] by blast
  qed
qed

lemma flush_rep_entry:
  assumes I: "cntlr_inv {} c" and at: "at_entry a p c" and rm: "remove_sharer p s c = Inr c1"
    and o: "set_owner p INVALID_CORE_ID (setForwarder p INVALID_CORE_ID c1) = Inr c2"
    and d: "(if getNumSharers (the_entry p c2) = 0 then Inr (setDState p D_UNCACHED c2)
             else bindR (assertR (de_dstate (the_entry p c2) = D_SHARED) ''getDState() == SHARED'') (\<lambda>_. Inr c2)) = Inr c3"
  shows "\<exists>e. entry_step a p e c c3 \<and> without_sharer s (the_entry p c) e"
proof -
  note co = inv_entry [OF I at]
  obtain e1 where 1: "entry_step a p e1 c c1" "s \<in> sharer_set (the_entry p c)" "sharer_set e1 = sharer_set (the_entry p c) - {s}"
    "entry_wf e1 = entry_wf (the_entry p c)" "de_dstate e1 = de_dstate (the_entry p c)" using remove_sharer_step [OF at rm] by blast
  let ?e2 = "e1\<lparr>de_forwarder := INVALID_CORE_ID, de_owner := INVALID_CORE_ID\<rparr>"
  have F: "entry_step a p (e1\<lparr>de_forwarder := INVALID_CORE_ID\<rparr>) c1 (setForwarder p INVALID_CORE_ID c1)"
    using setForwarder_step [OF entry_stepD(1) [OF 1(1)]] entry_stepD(2) [OF 1(1)] by simp
  have O: "entry_step a p ?e2 (setForwarder p INVALID_CORE_ID c1) c2"
    using set_owner_step [OF entry_stepD(1) [OF F] o] entry_stepD(2) [OF F] by simp
  have 2: "entry_step a p ?e2 c c2" using entry_step_trans [OF 1(1) entry_step_trans [OF F O]] .
  note S2 = entry_stepD [OF 2]
  have z: "getNumSharers ?e2 = 0 \<longleftrightarrow> sharer_set (the_entry p c) = {s}" by (rule num_sharers_0 [OF co]) (use 1 in auto)
  show ?thesis
  proof (cases "getNumSharers ?e2 = 0")
    case True
    have "entry_step a p (?e2\<lparr>de_dstate := D_UNCACHED\<rparr>) c2 c3" using setDState_step [OF S2(1), of D_UNCACHED] S2(2) d True by simp
    then have "entry_step a p (?e2\<lparr>de_dstate := D_UNCACHED\<rparr>) c c3" using entry_step_trans [OF 2] by blast
    then show ?thesis using 1 z True by (auto simp: without_sharer_def)
  next
    case False
    then have "c3 = c2" using d S2(2) by auto
    then show ?thesis using 1 2 z False by (auto simp: without_sharer_def)
  qed
qed

lemma sendDataToDram_frame:
  assumes "sendDataToDram a x b c = Inr c'"
  shows "dc_queues c' = dc_queues c \<and> dc_cache c' = dc_cache c"
proof -
  have "sendDataToNUCA a b n c = Inr c' \<Longrightarrow> dc_queues c' = dc_queues c \<and> dc_cache c' = dc_cache c" for n
    by (auto simp: sendDataToNUCA_def pop_frame_def Let_def split: option.splits if_splits dest: sendMsg_cache)
  then show ?thesis using assms by (auto simp: sendDataToDram_def split: if_splits dest: sendMsg_cache)
qed

text \<open>The data is written back, and then the request at the front goes on.\<close>

lemma writeback_then:
  assumes I: "cntlr_inv {} c" and q: "qs c a = r # rs" and d: "sendDataToDram a x b c = Inr c1"
    and P: "cntlr_inv {} c1 \<Longrightarrow> qs c1 a = r # rs \<Longrightarrow> progress c1 c'"
  shows "progress c c'"
proof -
  have "progress c c1" by (rule sendDataToDram_progress [OF I d])
  moreover from this have "progress c1 c'" using P sendDataToDram_frame [OF d] q progress_inv by simp
  ultimately show ?thesis by (rule progress_trans)
qed

lemma flushRep_request:
  assumes N: "next_ok next" and I: "cntlr_inv {a} c" and at: "at_entry a p c" and q: "qs c a = r # rs"
    and g: "(case req_type r of
                EX_REQ \<Rightarrow> processExReqFromL2Cache next r buf c
              | SH_REQ \<Rightarrow>
                  bindR (sendDataToDram a x buf c) (\<lambda>c. processShReqFromL2Cache next r buf c)
              | UPGRADE_REQ \<Rightarrow>
                  if getNumSharers (the_entry p c) = 0
                  then processUpgradeReqFromL2Cache next r buf (setDState p D_UNCACHED c)
                  else Inr (update_front a (\<lambda>r. r\<lparr>sr_shmem_msg := setDataBuf buf (sr_shmem_msg r)\<rparr>) c)
              | _ \<Rightarrow>
                  bindR (sendDataToDram a x buf c) (\<lambda>c. processNullifyReq next r c)) = Inr c'"
  shows "settled c c'"
proof -
  have a: "req_address r = a" "a \<noteq> INVALID_ADDRESS" using request_address [OF I q] by auto
  note strong = inv_strengthen [OF I subset_refl at]
  have "progress c c'" if "req_type r = EX_REQ" using that processEx_progress [OF N I _ a q] g by simp
  moreover have "progress c c'" if t: "req_type r = SH_REQ"
  proof -
    have i: "cntlr_inv {} c" using strong [of r rs] q t by blast
    obtain c1 where c1: "sendDataToDram a x buf c = Inr c1" "processShReqFromL2Cache next r buf c1 = Inr c'" using g t by auto
    show ?thesis by (rule writeback_then [OF i q c1(1)]) (rule processSh_progress [OF N _ a _ t c1(2)])
  qed
  moreover have "settled c c'" if t: "req_type r = UPGRADE_REQ"
  proof (cases "getNumSharers (the_entry p c) = 0")
    case True
    note U = uncache_again [OF I _ at True]
    have "progress (setDState p D_UNCACHED c) c'" by (rule processUpgrade_progress [OF N U(1) _ a _ t]) (use g t True U(3) q in auto)
    then show ?thesis using settledI U(2) by simp
  next
    case False
    then have "de_dstate (the_entry p c) \<noteq> D_UNCACHED" using inv_entry [OF I at] de.num_0_iff by (auto simp: entry_coherent_def)
    then have i: "cntlr_inv {} c" using strong by blast
    have "progress c (update_front a (\<lambda>r. r\<lparr>sr_shmem_msg := setDataBuf buf (sr_shmem_msg r)\<rparr>) c)"
      by (rule update_front_inv [OF i]) (use inv_queue [OF i, of a] q in \<open>auto simp: setDataBuf_def queue_ok_def waiting_ok_def\<close>)
    then show ?thesis using g t False settledI by auto
  qed
  moreover have "progress c c'" if t: "req_type r \<notin> {EX_REQ, SH_REQ, UPGRADE_REQ}"
  proof -
    have w: "\<not> sr_wait_for_data r" by (rule front_not_waiting [OF I q t])
    have "queue_ok False (cmap c b) b (qs c b)" for b
      using inv_queue [OF I, of b] q w by (cases "b = a") (auto simp: queue_ok_def waiting_ok_def)
    then have i: "cntlr_inv {} c" using I by (simp add: cntlr_inv_def)
    obtain c1 where c1: "sendDataToDram a x buf c = Inr c1" "processNullifyReq next r c1 = Inr c'" using g t by (cases "req_type r") auto
    show ?thesis by (rule writeback_then [OF i q c1(1)]) (rule nullify_progress [OF N _ a _ c1(2)], use w in auto)
  qed
  ultimately show ?thesis using settledI [of c c c'] by blast
qed

lemma flushRep_settled:
  assumes N: "next_ok next" and I: "cntlr_inv {} c" and a: "sm_address msg = a" "a \<noteq> INVALID_ADDRESS"
    and g: "processFlushRepFromL2Cache next sender msg c = Inr c'"
  shows "settled c c'"
proof -
  obtain p c1 c2 c3 c4 where c1: "require_entry a c = Inr (p, c1)" and h: "hasSharer sender (the_entry p c1) = Inr True"
    and c2: "remove_sharer p sender c1 = Inr c2"
    and c3: "set_owner p INVALID_CORE_ID (setForwarder p INVALID_CORE_ID c2) = Inr c3"
    and c4: "(if getNumSharers (the_entry p c3) = 0 then Inr (setDState p D_UNCACHED c3)
             else bindR (assertR (de_dstate (the_entry p c3) = D_SHARED) ''getDState() == SHARED'') (\<lambda>_. Inr c3)) = Inr c4"
    using g a by (auto simp: processFlushRepFromL2Cache_def Let_def)
  have R: "cntlr_inv {} c1" "at_entry a p c1" "dc_sent c1 = dc_sent c" using require_entry_Inr [OF I a(2) c1] by auto
  obtain e where e: "entry_step a p e c1 c4" "without_sharer sender (the_entry p c1) e" using flush_rep_entry [OF R(1,2) c2 c3 c4] by blast
  have I4: "cntlr_inv {a} c4" by (rule left_inv(1) [OF R(1,2) e])
  note S = entry_stepD [OF e(1)]
  have s4: "dc_sent c4 = dc_sent c" using S(5) R(3) by simp
  show ?thesis
  proof (cases "ReqQueueList_size (dc_queues c4) a = 0")
    case True
    then have "qs c4 a = []" by (simp add: rq_size_contents)
    then have "queue_ok False (cmap c4 b) b (qs c4 b)" for b using inv_queue [OF I4, of b] by (cases "b = a") (auto simp: queue_ok_def)
    then have i: "cntlr_inv {} c4" using I4 by (simp add: cntlr_inv_def)
    have "sendDataToDram a (sm_requester msg) (sm_data_buf msg) c4 = Inr c'"
      using g a c1 h c2 c3 c4 True by (auto simp: processFlushRepFromL2Cache_def Let_def)
    then show ?thesis using settledI [OF s4] sendDataToDram_progress [OF i] by blast
  next
    case False
    obtain r c5 where w: "wake_front a c4 = Inr (r, c5)"
      using g a c1 h c2 c3 c4 False by (auto simp: processFlushRepFromL2Cache_def Let_def)
    have W: "cntlr_inv {a} c5" "qs c5 a = r # tl (qs c4 a)" "dc_sent c5 = dc_sent c4" "at_entry a p c5"
      using wake_front_spec [OF I4 w False] S(1) by auto
    have "settled c5 c'"
      by (rule flushRep_request [OF N W(1,4,2), where buf = "sm_data_buf msg" and x = "sm_requester msg"])
        (use g a c1 h c2 c3 c4 False w in \<open>simp add: processFlushRepFromL2Cache_def Let_def del: bindR_eq_Inr\<close>)
    then show ?thesis using W(3) s4 by (simp add: settled_def)
  qed
qed

lemma wbRep_settled:
  assumes N: "next_ok next" and I: "cntlr_inv {} c" and a: "sm_address msg = a" "a \<noteq> INVALID_ADDRESS"
    and g: "processWbRepFromL2Cache next sender msg c = Inr c'"
  shows "settled c c'"
proof -
  obtain p c1 c2 where c1: "require_entry a c = Inr (p, c1)" and h: "hasSharer sender (the_entry p c1) = Inr True"
    and c2: "set_owner p INVALID_CORE_ID c1 = Inr c2"
    using g a by (auto simp: processWbRepFromL2Cache_def Let_def)
  have R: "cntlr_inv {} c1" "at_entry a p c1" "dc_sent c1 = dc_sent c" using require_entry_Inr [OF I a(2) c1] by auto
  let ?c3 = "setDState p D_SHARED c2" and ?e = "(the_entry p c1)\<lparr>de_owner := INVALID_CORE_ID, de_dstate := D_SHARED\<rparr>"
  have O: "entry_step a p ((the_entry p c1)\<lparr>de_owner := INVALID_CORE_ID\<rparr>) c1 c2" using set_owner_step [OF R(2) c2] by blast
  have "entry_step a p ?e c2 ?c3" using setDState_step [OF entry_stepD(1) [OF O], of D_SHARED] entry_stepD(2) [OF O] by simp
  then have e: "entry_step a p ?e c1 ?c3" using entry_step_trans [OF O] by blast
  note S = entry_stepD [OF e]
  have z: "ReqQueueList_size (dc_queues ?c3) a \<noteq> 0"
    using g a c1 h c2 by (auto simp: processWbRepFromL2Cache_def Let_def split: if_splits)
  obtain r c4 where w: "wake_front a ?c3 = Inr (r, c4)" "req_type r = SH_REQ" "processShReqFromL2Cache next r (sm_data_buf msg) c4 = Inr c'"
    using g a c1 h c2 z by (auto simp: processWbRepFromL2Cache_def Let_def)
  obtain r0 rs where q: "qs c1 a = r0 # rs" using z S(4) by (cases "qs c1 a") (auto simp: rq_size_contents)
  have "req_type r0 = SH_REQ"
  proof -
    have "ReqQueueList_front (ReqQueueList_update_front (dc_queues ?c3) a (ShmemReq_updateTime (getElapsedTime ?c3))) a = Inr r"
      using w(1) by (auto simp: wake_front_def update_front_def Let_def)
    moreover have "rq_contents (ReqQueueList_update_front (dc_queues ?c3) a (ShmemReq_updateTime (getElapsedTime ?c3))) a
      = ShmemReq_updateTime (getElapsedTime ?c3) r0 # rs" using q S(4) by (simp add: rq_update_front_contents)
    ultimately show ?thesis using rq_front_contents w(2) by fastforce
  qed
  then have Q: "queue_ok False (Some ?e) a (qs c1 a)"
    using queue_ok_shared [of _ "the_entry p c1" a r0 rs ?e] inv_queue [OF R(1), of a] at_entry_map [OF R(2)] q by auto
  have "entry_coherent ?e" using inv_entry [OF R(1,2)] h by (auto simp: entry_coherent_def hasSharer_Inr)
  then have I3: "cntlr_inv {} ?c3" using entry_step_inv [OF R(1) _ e] Q by simp
  have W: "cntlr_inv {} c4" "qs c4 a = r # tl (qs ?c3 a)" "dc_sent c4 = dc_sent ?c3" using wake_front_spec [OF I3 w(1) z] by auto
  have ra: "req_address r = a" using request_address [OF W(1,2)] by auto
  have "progress c4 c'" by (rule processSh_progress [OF N W(1) ra a(2) W(2) w(2,3)])
  then show ?thesis using settledI [of c4 c c'] W(3) S(5) R(3) by simp
qed

lemma dramReply_progress:
  assumes N: "next_ok next" and I: "cntlr_inv {} c" and a: "sm_address msg = a" "a \<noteq> INVALID_ADDRESS"
    and q: "qs c a = r # rs" "sr_wait_for_data r" and g: "processDRAMReply next sender msg c = Inr c'"
  shows "progress c c'"
proof -
  have fr: "ReqQueueList_front (dc_queues c) a = Inr r" by (rule rq_front_contents [OF q(1)])
  obtain p c1 where c1: "require_entry a c = Inr (p, c1)" using g a fr by (auto simp: processDRAMReply_def Let_def)
  have R: "cntlr_inv {} c1" "at_entry a p c1" "qs c1 a = r # rs" "progress c c1"
    using require_entry_Inr [OF I a(2) c1] require_progress [OF I a(2) c1] q by auto
  have W: "waiting_ok False (Some (the_entry p c1)) r"
    using inv_queue [OF R(1), of a] at_entry_map [OF R(2)] R(3) by (auto simp: queue_ok_def)
  obtain t b l w c2 c3 where t: "dram_reply_type (req_type r) (de_dstate (the_entry p c1)) = Inr t"
    and c2: "sendMsg t L2_CACHE (req_core r) (req_core r) a b l w c1 = Inr c2" "sendDataToNUCA a (sm_data_buf msg) False c2 = Inr c3" "next a c3 = Inr c'"
    using g a fr c1 by (auto simp: processDRAMReply_def Let_def)
  have o: "owned c1 a (req_core r)" if "t = EX_REP \<or> t = UPGRADE_REP"
    using t W q(2) at_entry_map [OF R(2)] that
    by (cases "req_type r") (auto simp: dram_reply_type_def owned_def waiting_ok_def split: if_splits)
  have 2: "progress c1 c2" by (rule progress_send [OF R(1) c2(1) o])
  have 3: "progress c2 c3" by (rule sendDataToNUCA_progress [OF progress_inv [OF 2] c2(2)])
  have "progress c3 c'" by (rule next_okD [OF N a(2) progress_inv [OF 3] c2(3)])
  then show ?thesis using R(4) 2 3 progress_trans by blast
qed

lemma enqueue_progress:
  assumes I: "cntlr_inv {} c" and a: "a \<noteq> INVALID_ADDRESS" "req_address r = a" "\<not> sr_wait_for_data r"
  shows "progress c (c\<lparr>dc_queues := ReqQueueList_enqueue (dc_queues c) a r\<rparr>)"
proof -
  let ?c = "c\<lparr>dc_queues := ReqQueueList_enqueue (dc_queues c) a r\<rparr>"
  have "queue_ok False (cmap ?c b) b (qs ?c b)" for b
    using inv_queue [OF I, of b] a by (cases "qs c a"; cases "b = a") (auto simp: queue_ok_def waiting_ok_def)
  then have "cntlr_inv {} ?c" using I by (simp add: cntlr_inv_def rq_enqueue_inv)
  then show ?thesis by (simp add: progress_def owned_def)
qed

lemma enqueue_request_progress:
  assumes I: "cntlr_inv {} c" and a: "sm_address msg \<noteq> INVALID_ADDRESS" and g: "enqueue_request process msg tm c = Inr c'"
    and P: "\<And>r c1. cntlr_inv {} c1 \<Longrightarrow> qs c1 (sm_address msg) = [r] \<Longrightarrow> req_type r = sm_msg_type msg \<Longrightarrow> process r c1 = Inr c' \<Longrightarrow> progress c1 c'"
  shows "progress c c'"
proof -
  obtain r where r: "ShmemReq_create (dc_uninit_where c) msg tm = Inr r" using g by (auto simp: enqueue_request_def)
  have R: "req_address r = sm_address msg" "\<not> sr_wait_for_data r" "req_type r = sm_msg_type msg" using r by (auto simp: ShmemReq_create_Inr)
  let ?c = "c\<lparr>dc_queues := ReqQueueList_enqueue (dc_queues c) (sm_address msg) r\<rparr>"
  have E: "progress c ?c" by (rule enqueue_progress [OF I a R(1,2)])
  show ?thesis
  proof (cases "ReqQueueList_size (dc_queues ?c) (sm_address msg) = 1")
    case True
    then have "qs ?c (sm_address msg) = [r]" by (cases "qs c (sm_address msg)") (auto simp: rq_size_contents)
    moreover have "process r ?c = Inr c'" using g r True by (auto simp: enqueue_request_def Let_def)
    ultimately have "progress ?c c'" using P [OF progress_inv [OF E] _ R(3)] by blast
    then show ?thesis using E progress_trans by blast
  next
    case False
    then show ?thesis using g r E by (auto simp: enqueue_request_def Let_def)
  qed
qed

lemma handleL2_settled:
  assumes N: "next_ok next" and I: "cntlr_inv {} c" and a: "sm_address msg \<noteq> INVALID_ADDRESS"
    and g: "handleMsgFromL2Cache next sender msg c = Inr c'"
  shows "settled c c'"
proof -
  let ?a = "sm_address msg" and ?t = "getElapsedTime c"
  obtain x c1 where c1: "lookup_entry ?a True c = Inr (x, c1)" using g by (auto simp: handleMsgFromL2Cache_def Let_def)
  have R: "cntlr_inv {} c1" "dc_sent c1 = dc_sent c"
    using c1 lookup_entry_Some [OF I a, of True _ c1] lookup_entry_None [OF I a, of True c1] by (cases x; auto)+
  have Q: "progress c1 c'" if "sm_msg_type msg = EX_REQ"
    by (rule enqueue_request_progress [OF R(1) a])
      (use g c1 that a processEx_progress [OF N _ empty_subsetI] request_address in \<open>auto simp: handleMsgFromL2Cache_def Let_def\<close>)
  moreover have "progress c1 c'" if "sm_msg_type msg = SH_REQ"
    by (rule enqueue_request_progress [OF R(1) a])
      (use g c1 that a processSh_progress [OF N] request_address in \<open>auto simp: handleMsgFromL2Cache_def Let_def\<close>)
  moreover have "progress c1 c'" if "sm_msg_type msg = UPGRADE_REQ"
    by (rule enqueue_request_progress [OF R(1) a])
      (use g c1 that a processUpgrade_progress [OF N _ empty_subsetI] request_address in \<open>auto simp: handleMsgFromL2Cache_def Let_def\<close>)
  moreover have "settled c1 c'" if "sm_msg_type msg \<notin> {EX_REQ, SH_REQ, UPGRADE_REQ}"
    using g c1 that invRep_settled [OF N R(1) _ a] flushRep_settled [OF N R(1) _ a] wbRep_settled [OF N R(1) _ a]
    by (cases "sm_msg_type msg") (auto simp: handleMsgFromL2Cache_def Let_def)
  ultimately have "settled c1 c'" using settledI [of c1 c1 c'] by blast
  then show ?thesis using R(2) by (simp add: settled_def)
qed

section \<open>Reachable states\<close>

text \<open>
  The packets that the controller may get: any message for a valid address, where a reply from DRAM answers a read that a request is waiting for.
\<close>

definition expected :: "NetPacket \<Rightarrow> DramDirectoryCntlr \<Rightarrow> bool" where
  "expected pk c =
     (sm_address (packet_msg pk) \<noteq> INVALID_ADDRESS \<and>
      (sm_sender_mem_component (packet_msg pk) = DRAM \<longrightarrow>
         (case qs c (sm_address (packet_msg pk)) of [] \<Rightarrow> False | r # _ \<Rightarrow> sr_wait_for_data r)))"

inductive dir_step :: "DramDirectoryCntlr \<Rightarrow> DramDirectoryCntlr \<Rightarrow> bool" where
  deliver: "expected pk c \<Longrightarrow> receive_packet n pk c = Inr c' \<Longrightarrow> dir_step c c'"

inductive_simps dir_step_iff: "dir_step c c'"

definition dir_init :: "DramDirectoryCntlr \<Rightarrow> bool" where
  "dir_init c =
     (\<exists>core_id master home nuca env dd bs protocol uninit stack w.
        dir_inv dd \<and> dir_map dd = Map.empty
        \<and> DramDirectoryCntlr_create core_id master home nuca env dd bs protocol uninit stack w = Inr c)"

lemma dir_init_inv: "dir_init c \<Longrightarrow> cntlr_inv {} c"
  by (auto simp: dir_init_def DramDirectoryCntlr_create_def cntlr_inv_def queue_ok_def rq.new)

lemma receive_settled:
  assumes I: "cntlr_inv {} c" and e: "expected pk c" and g: "receive_packet n pk c = Inr c'"
  shows "settled c c'"
proof -
  let ?c = "setElapsedTime (np_time pk) c" and ?m = "unpack_msg (np_data pk)"
  have V: "same_view c ?c" by simp
  have I1: "cntlr_inv {} ?c" by (rule same_view_inv [OF V I])
  have s: "dc_sent ?c = dc_sent c" "qs ?c = qs c" using V by (auto simp: same_view_def)
  have a: "sm_address ?m \<noteq> INVALID_ADDRESS" using e by (simp add: expected_def packet_msg_def)
  have "settled ?c c'"
  proof (cases "sm_sender_mem_component ?m = DRAM")
    case True
    then obtain r rs where q: "qs ?c (sm_address ?m) = r # rs" "sr_wait_for_data r"
      using e s by (auto simp: expected_def packet_msg_def split: list.splits)
    have "processDRAMReply (processNextReqFromL2Cache n) (np_sender pk) ?m ?c = Inr c'"
      using g True by (auto simp: receive_packet_def handleMsgFromDRAM_def Let_def split: msg_t.splits)
    then show ?thesis using dramReply_progress [OF processNext_ok I1 refl a q] settledI [of ?c ?c c'] by blast
  next
    case False
    then have "handleMsgFromL2Cache (processNextReqFromL2Cache n) (np_sender pk) ?m ?c = Inr c'"
      using g by (auto simp: receive_packet_def Let_def split: component_t.splits)
    then show ?thesis using handleL2_settled [OF processNext_ok I1 a] by blast
  qed
  then show ?thesis using s by (simp add: settled_def)
qed

interpretation dir: inductive_invariant dir_init dir_step "cntlr_inv {}"
  by unfold_locales (use dir_init_inv receive_settled in \<open>auto simp: dir_step_iff settled_def\<close>)

section \<open>Properties\<close>

text \<open>
  C1: Single writer or many readers. In every state that the directory controller can reach by handling messages, each entry of the directory
  is coherent: a modified or exclusive line has exactly one sharer, its owner; a shared line has a sharer; an uncached line has
  none; and the state \<^verbatim>\<open>OWNED\<close>, for which the handlers have no case, does not occur.
\<close>

theorem directory_single_writer:
  assumes "reach dir_init dir_step c" "dir_map (dc_cache c) a = Some e"
  shows "(de_dstate e = D_MODIFIED \<or> de_dstate e = D_EXCLUSIVE \<longrightarrow> sharer_set e = {de_owner e})
    \<and> (de_dstate e = D_SHARED \<longrightarrow> sharer_set e \<noteq> {}) \<and> (de_dstate e = D_UNCACHED \<longrightarrow> sharer_set e = {}) \<and> de_dstate e \<noteq> D_OWNED"
proof -
  have "entry_coherent e" using dir.reach_inv [OF assms(1)] assms(2) by (simp add: cntlr_inv_def)
  then show ?thesis by (auto simp: entry_coherent_def)
qed

text \<open>
  C2: The right to write is only given to a sole sharer. Whatever message a reachable controller handles, every \<^verbatim>\<open>EX_REP\<close> and
  \<^verbatim>\<open>UPGRADE_REP\<close> it sends meanwhile, for this request or for queued ones that became ready, goes to a core that the directory then records
  as the only sharer of that line, in state modified or exclusive.
\<close>

theorem exclusive_reply_to_sole_sharer:
  assumes "reach dir_init dir_step c" "expected pk c" "receive_packet n pk c = Inr c'"
  shows "\<exists>pks. dc_sent c' = dc_sent c @ pks \<and>
    (\<forall>p \<in> set pks. sm_msg_type (packet_msg p) = EX_REP \<or> sm_msg_type (packet_msg p) = UPGRADE_REP \<longrightarrow>
       (\<exists>r e. np_receiver p = ToCore r \<and> dir_map (dc_cache c') (sm_address (packet_msg p)) = Some e
          \<and> (de_dstate e = D_MODIFIED \<or> de_dstate e = D_EXCLUSIVE) \<and> sharer_set e = {r}))"
proof -
  obtain pks where p: "dc_sent c' = dc_sent c @ pks" "\<forall>p \<in> set pks. grant_ok c' p"
    using receive_settled [OF dir.reach_inv [OF assms(1)] assms(2,3)] by (auto simp: settled_def)
  show ?thesis
    by (rule exI [of _ pks]) (use p in \<open>fastforce simp: grant_ok_def is_grant_def owned_def\<close>)
qed

section \<open>Witnesses\<close>

text \<open>A controller with a directory of two entries, no NUCA slice and DRAM at core 0; core 1 asks for a line, and DRAM answers.\<close>

definition example_home :: AddressHomeLookup where
  "example_home = \<lparr>ahl_param = 6, ahl_mask = 63, ahl_core_list = [0], ahl_total_modules = 1, ahl_cache_block_size = 64\<rparr>"

definition example_cntlr :: DramDirectoryCntlr where
  "example_cntlr = projr (DramDirectoryCntlr_create 0 0 example_home None example_env (example_dirs 2) 2 ''mesi'' 7
     (\<lambda>_. \<lparr>sf_eviction = True, sf_evict_address = 0, sf_buf = []\<rparr>) HIT_MISS)"

definition example_packet :: "msg_t \<Rightarrow> component_t \<Rightarrow> core_id_t \<Rightarrow> IntPtr \<Rightarrow> UInt8 list option \<Rightarrow> NetPacket" where
  "example_packet t sender core a b =
     \<lparr>np_time = 5, np_sender = core, np_receiver = ToCore 0,
      np_data = (ShmemMsg_create t sender TAG_DIR core a b (case b of None \<Rightarrow> 0 | Some xs \<Rightarrow> of_nat (length xs)),
                 case b of None \<Rightarrow> [] | Some xs \<Rightarrow> xs)\<rparr>"

definition example_asked :: DramDirectoryCntlr where
  "example_asked = projr (receive_packet 3 (example_packet EX_REQ LAST_LEVEL_CACHE 1 64 None) example_cntlr)"

definition example_answered :: DramDirectoryCntlr where
  "example_answered = projr (receive_packet 3 (example_packet DRAM_READ_REP DRAM 1 64 (Some [8, 9])) example_asked)"

lemma example_cntlr_init: "dir_init example_cntlr"
proof -
  have i: "dir_inv (example_dirs 2)" "dir_map (example_dirs 2) = Map.empty"
    using example_dirs_inv [of 2] by (auto simp: dir_map_def fun_eq_iff)
  have "DramDirectoryCntlr_create 0 0 example_home None example_env (example_dirs 2) 2 ''mesi'' 7
     (\<lambda>_. \<lparr>sf_eviction = True, sf_evict_address = 0, sf_buf = []\<rparr>) HIT_MISS = Inr example_cntlr"
    by (simp add: example_cntlr_def DramDirectoryCntlr_create_def)
  then show ?thesis unfolding dir_init_def using i by blast
qed

lemma example_run:
  "receive_packet 3 (example_packet EX_REQ LAST_LEVEL_CACHE 1 64 None) example_cntlr = Inr example_asked"
  "receive_packet 3 (example_packet DRAM_READ_REP DRAM 1 64 (Some [8, 9])) example_asked = Inr example_answered"
  "expected (example_packet EX_REQ LAST_LEVEL_CACHE 1 64 None) example_cntlr"
  "expected (example_packet DRAM_READ_REP DRAM 1 64 (Some [8, 9])) example_asked"
proof -
  have "is_ok (receive_packet 3 (example_packet EX_REQ LAST_LEVEL_CACHE 1 64 None) example_cntlr)" by code_simp
  then show "receive_packet 3 (example_packet EX_REQ LAST_LEVEL_CACHE 1 64 None) example_cntlr = Inr example_asked"
    by (auto simp: is_ok_iff example_asked_def)
  have "is_ok (receive_packet 3 (example_packet DRAM_READ_REP DRAM 1 64 (Some [8, 9])) example_asked)" by code_simp
  then show "receive_packet 3 (example_packet DRAM_READ_REP DRAM 1 64 (Some [8, 9])) example_asked = Inr example_answered"
    by (auto simp: is_ok_iff example_answered_def)
  show "expected (example_packet EX_REQ LAST_LEVEL_CACHE 1 64 None) example_cntlr" by code_simp
  show "expected (example_packet DRAM_READ_REP DRAM 1 64 (Some [8, 9])) example_asked" by code_simp
qed

lemma example_reach: "reach dir_init dir_step example_asked" "reach dir_init dir_step example_answered"
proof -
  show r: "reach dir_init dir_step example_asked"
    by (rule reach_step [of _ _ example_cntlr]) (rule reach_init, rule example_cntlr_init, rule deliver [OF example_run(3,1)])
  show "reach dir_init dir_step example_answered" by (rule reach_step [OF r]) (rule deliver [OF example_run(4,2)])
qed

theorem directory_single_writer_witness:
  "\<exists>e. dir_map (dc_cache example_answered) 64 = Some e \<and> de_dstate e = D_MODIFIED \<and> sharer_set e = {de_owner e}"
proof -
  have "map_option de_dstate (dir_map (dc_cache example_answered) 64) = Some D_MODIFIED" by code_simp
  then show ?thesis using directory_single_writer [OF example_reach(2)] by blast
qed

theorem exclusive_reply_to_sole_sharer_witness:
  "length (dc_sent example_answered) = 2 \<and> np_receiver (dc_sent example_answered ! 1) = ToCore 1
   \<and> (\<exists>e. dir_map (dc_cache example_answered) 64 = Some e \<and> sharer_set e = {1})"
proof -
  have s: "length (dc_sent example_asked) = 1" "length (dc_sent example_answered) = 2"
    "sm_msg_type (packet_msg (dc_sent example_answered ! 1)) = EX_REP" "np_receiver (dc_sent example_answered ! 1) = ToCore 1"
    "sm_address (packet_msg (dc_sent example_answered ! 1)) = 64" by code_simp+
  obtain pks where p: "dc_sent example_answered = dc_sent example_asked @ pks"
    "\<forall>p \<in> set pks. sm_msg_type (packet_msg p) = EX_REP \<or> sm_msg_type (packet_msg p) = UPGRADE_REP \<longrightarrow>
       (\<exists>r e. np_receiver p = ToCore r \<and> dir_map (dc_cache example_answered) (sm_address (packet_msg p)) = Some e
          \<and> (de_dstate e = D_MODIFIED \<or> de_dstate e = D_EXCLUSIVE) \<and> sharer_set e = {r})"
    using exclusive_reply_to_sole_sharer [OF example_reach(1) example_run(4,2)] by blast
  have "dc_sent example_answered ! 1 \<in> set pks" using p(1) s(1,2) by (cases pks) (auto simp: nth_append)
  then show ?thesis using p(2) s by fastforce
qed

end
