(* ===== verification/Directory_Termination.thy ===== *)
theory Directory_Termination
  imports Directory_Safety
begin

text \<open>
  The mutual recursion of \<^verbatim>\<open>processNextReqFromL2Cache\<close> and the functions that process a request ends: each round takes a request off
  the queue of its address, and the only queue that grows meanwhile is that of a replaced address, by the one nullification that is taken off again.
  So the length of the queue is enough fuel.
\<close>

section \<open>Results that do not run out of fuel\<close>

definition nodiv :: "'a result \<Rightarrow> bool" where
  "nodiv r = (r \<noteq> Inl Diverges)"

lemma nodiv_simps [simp]:
  "nodiv (Inr x)" "nodiv (Inl (LogError m))" "nodiv (Inl (AssertFail m))" "nodiv (Inl (Trap m))"
  "nodiv (assertR b m)" "nodiv (logAssertR b m)"
  by (auto simp: nodiv_def assertR_def logAssertR_def)

lemma nodiv_bindR: "nodiv r \<Longrightarrow> (\<And>x. r = Inr x \<Longrightarrow> nodiv (f x)) \<Longrightarrow> nodiv (bindR r f)"
  by (cases r) (auto simp: nodiv_def)

lemma nodiv_if: "(b \<Longrightarrow> nodiv r) \<Longrightarrow> (\<not> b \<Longrightarrow> nodiv s) \<Longrightarrow> nodiv (if b then r else s)"
  by simp

section \<open>The directory and the messages\<close>

lemma nodiv_entry [simp]: "nodiv (Directory_getDirectoryEntry i d)"
  unfolding Directory_getDirectoryEntry_def by (rule nodiv_bindR) (auto split: option.splits prod.splits)

lemma nodiv_search [simp]: "nodiv (dir_search P ns d)"
  by (induction ns arbitrary: d) (auto intro!: nodiv_bindR split: prod.splits)

lemma nodiv_collect [simp]: "nodiv (dir_collect ns d)"
  by (induction ns arbitrary: d) (auto intro!: nodiv_bindR split: prod.splits)

lemma nodiv_get [simp]: "nodiv (dir_getDirectoryEntry a m dd)"
  unfolding dir_getDirectoryEntry_def Let_def by (rule nodiv_bindR) (auto intro!: nodiv_bindR split: option.splits prod.splits)

lemma nodiv_candidates [simp]: "nodiv (getReplacementCandidates a dd)"
  unfolding getReplacementCandidates_def Let_def by (rule nodiv_bindR) (auto intro!: nodiv_bindR split: prod.splits)

lemma nodiv_set_entry [simp]: "nodiv (setDirectoryEntry i p d)"
  by (simp add: setDirectoryEntry_def)

lemma nodiv_replace [simp]: "nodiv (replaceDirectoryEntry b a m dd)"
  unfolding replaceDirectoryEntry_def Let_def by (rule nodiv_bindR) (auto intro!: nodiv_bindR split: option.splits prod.splits)

lemma nodiv_invalidate [simp]: "nodiv (invalidateDirectoryEntry a dd)"
  by (simp add: invalidateDirectoryEntry_def split: option.splits)

lemma nodiv_hasSharer [simp]: "nodiv (hasSharer s e)"
  by (simp add: hasSharer_def)

lemma nodiv_addSharer [simp]: "nodiv (addSharer s m e)"
  unfolding addSharer_def by (auto intro!: nodiv_bindR simp: Let_def split: entry_kind.splits)

lemma nodiv_removeSharer [simp]: "nodiv (removeSharer s b e)"
  unfolding removeSharer_def by (auto intro!: nodiv_bindR)

lemma nodiv_setOwner [simp]: "nodiv (setOwner s e)"
  unfolding setOwner_def by (auto intro!: nodiv_bindR nodiv_if)

lemma nodiv_getOneSharer [simp]: "nodiv (getOneSharer e)"
  unfolding getOneSharer_def by (auto intro!: nodiv_bindR simp: Let_def split: entry_kind.splits option.splits prod.splits)

lemma nodiv_getHome [simp]: "nodiv (getHome l a)"
  unfolding getHome_def Let_def by (auto intro!: nodiv_bindR)

lemma nodiv_pack_msg [simp]: "nodiv (pack_msg m)"
  unfolding pack_msg_def by (auto intro!: nodiv_bindR nodiv_if)

lemma nodiv_sendMsg [simp]: "nodiv (sendMsg t rc rq rcv a b l w c)"
  unfolding sendMsg_def sendMsg_packet_def Let_def by (intro nodiv_bindR) auto

lemma nodiv_broadcastMsg [simp]: "nodiv (broadcastMsg t rc rq a c)"
  unfolding broadcastMsg_def broadcastMsg_packet_def Let_def by (intro nodiv_bindR) auto

lemma nodiv_send_inv_each [simp]: "nodiv (send_inv_each rq a ss c)"
  by (induction ss arbitrary: c) (auto intro!: nodiv_bindR)

lemma nodiv_send_inv [simp]: "nodiv (send_inv rq a e c)"
  by (simp add: send_inv_def Let_def)

lemma nodiv_upgrade_invs [simp]: "nodiv (send_upgrade_invs h rq a i ss c)"
  by (induction ss arbitrary: c i) (auto intro!: nodiv_bindR)

lemma nodiv_front [simp]: "nodiv (ReqQueueList_front q a)"
  unfolding ReqQueueList_front_def by (rule nodiv_bindR) auto

lemma nodiv_dequeue [simp]: "nodiv (ReqQueueList_dequeue q a)"
  unfolding ReqQueueList_dequeue_def by (rule nodiv_bindR) (auto simp: Let_def)

lemma nodiv_create [simp]: "nodiv (ShmemReq_create w m t)"
  unfolding ShmemReq_create_def by (rule nodiv_bindR) auto

lemma nodiv_lookup [simp]: "nodiv (lookup_entry a m c)"
  unfolding lookup_entry_def by (rule nodiv_bindR) (auto split: prod.splits)

lemma nodiv_require [simp]: "nodiv (require_entry a c)"
  unfolding require_entry_def by (rule nodiv_bindR) (auto split: option.splits prod.splits)

lemma nodiv_add_sharer [simp]: "nodiv (add_sharer p s c)"
  unfolding add_sharer_def by (rule nodiv_bindR) (auto split: prod.splits)

lemma nodiv_set_owner [simp]: "nodiv (set_owner p s c)"
  unfolding set_owner_def by (rule nodiv_bindR) auto

lemma nodiv_remove_sharer [simp]: "nodiv (remove_sharer p s c)"
  unfolding remove_sharer_def by (rule nodiv_bindR) auto

lemma nodiv_make_owner [simp]: "nodiv (make_owner p s st c)"
  unfolding make_owner_def by (rule nodiv_bindR) (auto intro!: nodiv_bindR split: prod.splits)

lemma nodiv_wake [simp]: "nodiv (wake_front a c)"
  unfolding wake_front_def Let_def by (rule nodiv_bindR) auto

section \<open>Queues\<close>

text \<open>The queue of \<open>a\<close> has at most \<open>k\<close> requests, all for \<open>a\<close>, and there is no NUCA slice whose replacement could fail to end.\<close>

definition fit :: "nat \<Rightarrow> IntPtr \<Rightarrow> DramDirectoryCntlr \<Rightarrow> bool" where
  "fit k a c = (rq_inv (dc_queues c) \<and> length (qs c a) \<le> k \<and> (\<forall>r \<in> set (qs c a). req_address r = a) \<and> dc_nuca c = None)"

definition fuel_ok :: "nat \<Rightarrow> next_req \<Rightarrow> bool" where
  "fuel_ok k next = (1 \<le> k \<and> pops_last next \<and> (\<forall>a c. fit k a c \<longrightarrow> nodiv (next a c)))"

text \<open>Operations that leave queues and NUCA alone.\<close>

definition keepq :: "DramDirectoryCntlr \<Rightarrow> DramDirectoryCntlr \<Rightarrow> bool" where
  "keepq c c' = (dc_queues c' = dc_queues c \<and> dc_nuca c' = dc_nuca c)"

lemma keepq_fit: "keepq c c' \<Longrightarrow> fit k a c \<Longrightarrow> fit k a c'"
  by (simp add: keepq_def fit_def)

lemma keepq_trans: "keepq c c1 \<Longrightarrow> keepq c1 c2 \<Longrightarrow> keepq c c2"
  by (simp add: keepq_def)

lemma keepq_simps [simp]:
  "keepq c (setDState p st c)" "keepq c (setForwarder p f c)" "keepq c (set_entry p e c)" "keepq c (setElapsedTime t c)"
  "keepq c (updateElapsedTime t c)" "keepq c (c\<lparr>dc_cache := dd\<rparr>)" "keepq c c" "keepq c (c\<lparr>dc_sent := s\<rparr>)"
  by (simp_all add: keepq_def setDState_def setForwarder_def set_entry_def setElapsedTime_def updateElapsedTime_def)

lemma keepq_sendMsg: "sendMsg t rc rq rcv a b l w c = Inr c' \<Longrightarrow> keepq c c'"
  by (auto simp: sendMsg_def)

lemma keepq_lookup: "lookup_entry a m c = Inr (r, c') \<Longrightarrow> keepq c c'"
  by (auto simp: lookup_entry_def)

lemma keepq_require: "require_entry a c = Inr (p, c') \<Longrightarrow> keepq c c'"
  by (auto simp: require_entry_def split: option.splits dest: keepq_lookup)

lemma keepq_add_sharer: "add_sharer p s c = Inr (b, c') \<Longrightarrow> keepq c c'"
  by (auto simp: add_sharer_def)

lemma keepq_set_owner: "set_owner p s c = Inr c' \<Longrightarrow> keepq c c'"
  by (auto simp: set_owner_def)

lemma keepq_remove_sharer: "remove_sharer p s c = Inr c' \<Longrightarrow> keepq c c'"
  by (auto simp: remove_sharer_def)

lemma keepq_make_owner:
  assumes "make_owner p s st c = Inr c'"
  shows "keepq c c'"
proof -
  obtain c1 c2 where "add_sharer p s c = Inr (True, c1)" "set_owner p s c1 = Inr c2" "c' = setDState p st c2"
    using assms by (auto simp: make_owner_def)
  then show ?thesis using keepq_add_sharer keepq_set_owner keepq_trans [of c c1 c2] keepq_trans [of c c2 c'] by simp
qed

lemma keepq_each: "send_inv_each rq a ss c = Inr c' \<Longrightarrow> keepq c c'"
  by (induction ss arbitrary: c) (auto dest: keepq_sendMsg intro: keepq_trans)

lemma keepq_send_inv: "send_inv rq a e c = Inr c' \<Longrightarrow> keepq c c'"
  by (auto simp: send_inv_def Let_def broadcastMsg_def split: if_splits dest: keepq_each)

lemma fit_setDState [simp]: "fit k a (setDState p st c) = fit k a c"
  by (simp add: fit_def setDState_def set_entry_def)

lemma queues_setDState [simp]: "dc_queues (setDState p st c) = dc_queues c"
  by (simp add: setDState_def set_entry_def)

lemma fuel_okD: "fuel_ok k next \<Longrightarrow> fit k a c \<Longrightarrow> nodiv (next a c)"
  by (simp add: fuel_ok_def)

section \<open>Processing\<close>

lemma nodiv_reply:
  assumes "fuel_ok k next" "fit k a c"
  shows "nodiv (bindR (sendMsg t rc rq rcv b d l w c) (\<lambda>c. next a c))"
  by (rule nodiv_bindR) (auto intro!: fuel_okD [OF assms(1)] keepq_fit [OF keepq_sendMsg assms(2)])

lemma nodiv_retrieve:
  assumes F: "fuel_ok k next" and f: "fit k a c"
  shows "nodiv (retrieveDataAndSendToL2Cache next t r a buf c)"
  unfolding retrieveDataAndSendToL2Cache_def
  apply (rule nodiv_bindR, simp)
  subgoal for x
  proof (cases x)
    case (Pair p c1)
    assume "require_entry a c = Inr x"
    then have f1: "fit k a c1" using keepq_fit [OF keepq_require f] Pair by blast
    then have n: "readFromNUCA a c1 = Inr (None, c1)" by (simp add: readFromNUCA_def fit_def)
    have f2: "fit k a (setForwarder p r c1)" using keepq_fit [OF _ f1] by simp
    show ?thesis unfolding Pair
      by (cases buf) (auto simp: n Let_def intro!: nodiv_bindR nodiv_reply [OF F f2])
  qed
  done

lemma nodiv_nullify:
  assumes F: "fuel_ok k next" and f: "fit k b c" and b: "req_address r = b"
  shows "nodiv (processNullifyReq next r c)"
  unfolding processNullifyReq_def Let_def
  apply (rule nodiv_bindR, simp)
  subgoal for x
  proof (cases x)
    case (Pair p c1)
    assume "require_entry (req_address r) c = Inr x"
    then have f1: "fit k b c1" using keepq_fit [OF keepq_require f] Pair by blast
    have "nodiv (bindR (invalidateDirectoryEntry b (dc_cache c1)) (\<lambda>dd. next b (c1\<lparr>dc_cache := dd\<rparr>)))"
      by (rule nodiv_bindR) (auto intro!: fuel_okD [OF F] keepq_fit [OF _ f1])
    then show ?thesis using b by (simp add: Pair split: dstate_t.splits)
  qed
  done

text \<open>Nullifying a line without other requests keeps the remaining queues.\<close>

lemma nullify_queues:
  assumes P: "pops_last next" and q: "rq_inv (dc_queues c)" "qs c b = [r]" "req_address r = b" and n: "processNullifyReq next r c = Inr c'"
  shows "rq_inv (dc_queues c') \<and> dc_nuca c' = dc_nuca c \<and> (a \<noteq> b \<longrightarrow> qs c' a = qs c a)"
proof -
  obtain p c1 where c1: "require_entry b c = Inr (p, c1)" using n q by (auto simp: processNullifyReq_def Let_def)
  have K: "dc_queues c1 = dc_queues c" "dc_nuca c1 = dc_nuca c" using keepq_require [OF c1] by (auto simp: keepq_def)
  show ?thesis
  proof (cases "de_dstate (the_entry p c1) = D_UNCACHED")
    case True
    then obtain dd where "next b (c1\<lparr>dc_cache := dd\<rparr>) = Inr c'" using n q c1 by (auto simp: processNullifyReq_def Let_def)
    moreover have "rq_inv (dc_queues (c1\<lparr>dc_cache := dd\<rparr>))" "qs (c1\<lparr>dc_cache := dd\<rparr>) b = [r]" using q K by simp_all
    ultimately obtain q' where "c' = c1\<lparr>dc_cache := dd, dc_queues := q'\<rparr>" "rq_inv q'" "rq_contents q' = (qs c1)(b := [])"
      using P unfolding pops_last_def by fastforce
    then show ?thesis using K by simp
  next
    case False
    then have "keepq c1 c'" using n q c1
      by (cases "de_dstate (the_entry p c1)") (auto simp: processNullifyReq_def Let_def dest: keepq_sendMsg keepq_send_inv)
    then show ?thesis using K q by (simp add: keepq_def)
  qed
qed

lemma nodiv_allocate:
  assumes F: "fuel_ok k next" and f: "fit k a c" and a: "req_address r = a" "qs c a \<noteq> []"
  shows "nodiv (processDirectoryEntryAllocationReq next r c)"
    and "processDirectoryEntryAllocationReq next r c = Inr (q, c') \<Longrightarrow> fit k a c'"
proof -
  have k: "1 \<le> k" and P: "pops_last next" using F by (auto simp: fuel_ok_def)
  let ?enq = "\<lambda>b nr dd ev. c\<lparr>dc_cache := dd, dc_evict := ev, dc_queues := ReqQueueList_enqueue (dc_queues c) b nr\<rparr>"
  have q1: "qs (?enq b nr dd ev) b = [nr] \<and> b \<noteq> a" if "ReqQueueList_size (dc_queues (?enq b nr dd ev)) b = 1" for b nr dd ev
    using that a(2) by (cases "qs c b") (auto simp: rq_size_contents)
  have f1: "fit k b (?enq b nr dd ev)" if "ReqQueueList_size (dc_queues (?enq b nr dd ev)) b = 1" "req_address nr = b" for b nr dd ev
    using q1 [OF that(1)] that(2) f k by (simp add: fit_def rq_enqueue_inv)
  show "nodiv (processDirectoryEntryAllocationReq next r c)"
    unfolding processDirectoryEntryAllocationReq_def Let_def
    by (auto intro!: nodiv_bindR nodiv_nullify [OF F f1] split: option.splits simp: ShmemReq_create_Inr)
  assume "processDirectoryEntryAllocationReq next r c = Inr (q, c')"
  then obtain b nr dd ev where n: "processNullifyReq next nr (?enq b nr dd ev) = Inr c'" "req_address nr = b"
    "ReqQueueList_size (dc_queues (?enq b nr dd ev)) b = 1"
    by (auto simp: processDirectoryEntryAllocationReq_def Let_def ShmemReq_create_Inr split: option.splits)
  have i: "rq_inv (dc_queues (?enq b nr dd ev))" using f by (simp add: fit_def rq_enqueue_inv)
  show "fit k a c'"
    using nullify_queues [OF P i conjunct1 [OF q1 [OF n(3)]] n(2,1), of a] conjunct2 [OF q1 [OF n(3)]] f by (auto simp: fit_def)
qed

lemma nodiv_entry_for:
  assumes F: "fuel_ok k next" and f: "fit k a c" and a: "req_address r = a" "qs c a \<noteq> []"
  shows "nodiv (entry_for_request next r c)"
    and "entry_for_request next r c = Inr (p, c') \<Longrightarrow> fit k a c'"
proof -
  have K: "fit k a c1 \<and> qs c1 a \<noteq> []" if "lookup_entry (req_address r) False c = Inr (x, c1)" for x c1
    using keepq_fit [OF keepq_lookup f] keepq_lookup [OF that] that a by (auto simp: keepq_def)
  show "nodiv (entry_for_request next r c)"
    unfolding entry_for_request_def
    by (rule nodiv_bindR, simp) (auto split: option.splits prod.splits intro!: nodiv_allocate(1) [OF F _ a(1)] dest: K)
  show "entry_for_request next r c = Inr (p, c') \<Longrightarrow> fit k a c'"
    using K nodiv_allocate(2) [OF F _ a(1)] by (fastforce simp: entry_for_request_def split: option.splits)
qed

lemma nodiv_make_retrieve:
  assumes "fuel_ok k next" "fit k a c"
  shows "nodiv (bindR (make_owner p s st c) (\<lambda>c. retrieveDataAndSendToL2Cache next t r a buf c))"
  by (rule nodiv_bindR) (auto intro!: nodiv_retrieve [OF assms(1)] keepq_fit [OF keepq_make_owner assms(2)])

lemma nodiv_Ex:
  assumes F: "fuel_ok k next" and f: "fit k a c" and a: "req_address r = a" "qs c a \<noteq> []"
  shows "nodiv (processExReqFromL2Cache next r buf c)"
  unfolding processExReqFromL2Cache_def Let_def
  apply (rule nodiv_bindR, rule nodiv_entry_for(1) [OF F f a])
  subgoal for x
    using nodiv_entry_for(2) [OF F f a] a by (cases x) (auto split: dstate_t.splits intro!: nodiv_bindR nodiv_make_retrieve [OF F])
  done

lemma nodiv_Sh:
  assumes F: "fuel_ok k next" and f: "fit k a c" and a: "req_address r = a" "qs c a \<noteq> []"
  shows "nodiv (processShReqFromL2Cache next r buf c)"
  unfolding processShReqFromL2Cache_def Let_def
  apply (rule nodiv_bindR, rule nodiv_entry_for(1) [OF F f a])
  subgoal for x
  proof (cases x)
    case (Pair p c1)
    assume "entry_for_request next r c = Inr x"
    then have f1: "fit k a c1" using nodiv_entry_for(2) [OF F f a] Pair by blast
    have S: "nodiv (bindR (add_sharer p s c1) (\<lambda>(b, c). if \<not> b
        then bindR (getOneSharer (the_entry p c)) (\<lambda>(sid, e). sendMsg INV_REQ L2_CACHE s sid a None 0 HIT_UNKNOWN (set_entry p e c))
        else retrieveDataAndSendToL2Cache next SH_REP s a buf c))" for s buf
      by (rule nodiv_bindR) (auto intro!: nodiv_bindR nodiv_retrieve [OF F] keepq_fit [OF keepq_add_sharer f1])
    have C: "fit k a (c1\<lparr>dc_forward := m\<rparr>)" "fit k a (c1\<lparr>dc_forward := m, dc_forward_failed := m'\<rparr>)" for m m' using f1 by (simp_all add: fit_def)
    show ?thesis unfolding Pair a(1)
      by (auto split: dstate_t.splits intro!: nodiv_bindR [where r = "assertR _ _"] nodiv_bindR [where r = "hasSharer _ _"]
          S nodiv_retrieve [OF F] C nodiv_make_retrieve [OF F f1])
  qed
  done

lemma nodiv_Upgrade:
  assumes F: "fuel_ok k next" and f: "fit k a c" and a: "req_address r = a" "qs c a \<noteq> []"
  shows "nodiv (processUpgradeReqFromL2Cache next r buf c)"
  unfolding processUpgradeReqFromL2Cache_def Let_def
  apply (rule nodiv_bindR, rule nodiv_entry_for(1) [OF F f a])
  subgoal for x
  proof (cases x)
    case (Pair p c1)
    assume "entry_for_request next r c = Inr x"
    then have f1: "fit k a c1" using nodiv_entry_for(2) [OF F f a] Pair by blast
    have U: "nodiv (bindR (sendMsg UPGRADE_REP L2_CACHE s s a None 0 HIT_UNKNOWN c1) (\<lambda>c. next a (setDState p D_MODIFIED c)))" for s
      by (rule nodiv_bindR, simp, rule fuel_okD [OF F], simp) (rule keepq_fit [OF keepq_sendMsg f1])
    have L: "nodiv (bindR (set_owner p s c1) (\<lambda>c. bindR (sendMsg UPGRADE_REP L2_CACHE s s a None 0 HIT_UNKNOWN (setDState p D_MODIFIED c)) (\<lambda>c. next a c)))" for s
      by (rule nodiv_bindR, simp, rule nodiv_reply [OF F], simp) (rule keepq_fit [OF keepq_set_owner f1])
    show ?thesis unfolding Pair a(1)
      by (auto simp del: send_upgrade_invs.simps split: dstate_t.splits list.splits intro!: nodiv_bindR [where r = "assertR _ _"] nodiv_bindR [where r = "hasSharer _ _"]
          U L nodiv_make_retrieve [OF F f1])
  qed
  done

lemma nodiv_process_request:
  "fuel_ok k next \<Longrightarrow> fit k a c \<Longrightarrow> req_address r = a \<Longrightarrow> qs c a \<noteq> [] \<Longrightarrow> nodiv (process_request next r c)"
  using nodiv_Ex nodiv_Sh nodiv_Upgrade by (auto simp: process_request_def split: msg_t.splits)

section \<open>Messages\<close>

lemma processNext_empty: "qs c a = [] \<Longrightarrow> nodiv (processNextReqFromL2Cache (Suc n) a c)"
  by (simp add: processNextReqFromL2Cache.simps rq_size_contents)

lemma processNext_nodiv: "fit n a c \<Longrightarrow> 1 \<le> n \<Longrightarrow> nodiv (processNextReqFromL2Cache n a c)"
proof (induction n arbitrary: a c)
  case (Suc n)
  have rq: "rq_inv (dc_queues c)" using Suc.prems by (simp add: fit_def)
  show ?case
  proof (cases "qs c a")
    case Nil
    then show ?thesis by (rule processNext_empty)
  next
    case (Cons r0 rs)
    obtain q where q: "rq_inv q" "rq_contents q = (qs c)(a := rs)" "processNextReqFromL2Cache (Suc n) a c =
      (case rs of [] \<Rightarrow> Inr (c\<lparr>dc_queues := q\<rparr>)
       | r # _ \<Rightarrow> process_request (processNextReqFromL2Cache n) r (setElapsedTime (sr_time r) (c\<lparr>dc_queues := q\<rparr>)))"
      using processNext_step [OF rq Cons] by blast
    show ?thesis
    proof (cases rs)
      case Nil
      then show ?thesis using q by simp
    next
      case rs: (Cons r rs')
      let ?c = "setElapsedTime (sr_time r) (c\<lparr>dc_queues := q\<rparr>)"
      have l: "length rs \<le> n" "req_address r = a" "\<forall>x \<in> set rs. req_address x = a" using Suc.prems(1) Cons rs by (auto simp: fit_def)
      then obtain m where m: "n = Suc m" using rs by (cases n) auto
      have F: "fuel_ok n (processNextReqFromL2Cache n)" using Suc.IH processNext_pops m by (simp add: fuel_ok_def)
      have "fit n a ?c" using Suc.prems(1) q l by (simp add: fit_def setElapsedTime_def)
      moreover have "qs ?c a \<noteq> []" using q rs by (simp add: setElapsedTime_def)
      ultimately show ?thesis using nodiv_process_request [OF F _ l(2)] q(3) rs by simp
    qed
  qed
qed simp

lemma processNext_fuel: "1 \<le> n \<Longrightarrow> fuel_ok n (processNextReqFromL2Cache n)"
  using processNext_nodiv processNext_pops by (cases n) (auto simp: fuel_ok_def)

lemma fuel_ok_mono: "fit j a c \<Longrightarrow> j \<le> k \<Longrightarrow> fit k a c"
  by (simp add: fit_def)

lemma keepq_wake:
  assumes "wake_front a c = Inr (r, c')" "fit k a c" "qs c a \<noteq> []"
  shows "fit k a c' \<and> req_address r = a \<and> qs c' a \<noteq> []"
proof -
  let ?f = "ShmemReq_updateTime (getElapsedTime c)"
  obtain r0 rs where q: "qs c a = r0 # rs" using assms(3) by (cases "qs c a") auto
  have Q: "qs (update_front a ?f c) b = (if b = a then ?f r0 # rs else qs c b)" for b
    by (simp add: update_front_def rq_update_front_contents q)
  have r: "r = ?f r0" and c': "c' = updateElapsedTime (sr_time r) (update_front a ?f c)"
    using assms(1) rq_front_contents [of "dc_queues (update_front a ?f c)" a "?f r0" rs] Q [of a] by (auto simp: wake_front_def Let_def)
  have "fit k a (update_front a ?f c)"
    using assms(2) Q [of a] q by (auto simp: fit_def) (auto simp: update_front_def rq_update_front_inv)
  then have "fit k a c'" unfolding c' by (rule keepq_fit [OF keepq_simps(5)])
  moreover have "qs c' a = r # rs" using Q [of a] r keepq_simps(5) [of "update_front a ?f c" "sr_time r"] c' by (simp add: keepq_def)
  moreover have "req_address r0 = a" using assms(2) q by (simp add: fit_def)
  ultimately show ?thesis using r by simp
qed

lemma nodiv_sendDataToDram:
  assumes "fit k b c"
  shows "nodiv (sendDataToDram a x buf c)" "sendDataToDram a x buf c = Inr c' \<Longrightarrow> keepq c c'"
proof -
  have n: "dc_nuca c = None" using assms by (simp add: fit_def)
  show "nodiv (sendDataToDram a x buf c)" using n by (auto simp: sendDataToDram_def intro!: nodiv_bindR)
  show "sendDataToDram a x buf c = Inr c' \<Longrightarrow> keepq c c'" using n by (auto simp: sendDataToDram_def dest: keepq_sendMsg)
qed

text \<open>The request at the front goes on after a reply.\<close>

lemma nodiv_woken:
  assumes f: "fit k a c" and P: "\<And>r c'. fit k a c' \<Longrightarrow> req_address r = a \<Longrightarrow> qs c' a \<noteq> [] \<Longrightarrow> nodiv (g (r, c'))"
    and s: "ReqQueueList_size (dc_queues c) a \<noteq> 0"
  shows "nodiv (bindR (wake_front a c) g)"
proof (rule nodiv_bindR)
  fix x assume w: "wake_front a c = Inr x"
  have "qs c a \<noteq> []" using s by (auto simp: rq_size_contents)
  then show "nodiv (g x)" using keepq_wake [OF _ f, of "fst x" "snd x"] w P [of "snd x" "fst x"] by simp
qed simp

lemma nodiv_invRep:
  assumes F: "fuel_ok k next" and f: "fit k a c" and a: "sm_address msg = a"
  shows "nodiv (processInvRepFromL2Cache next sender msg c)"
  unfolding processInvRepFromL2Cache_def Let_def a
  apply (rule nodiv_bindR, simp)
  subgoal for x
  proof (cases x)
    case (Pair p c1)
    assume "require_entry a c = Inr x"
    then have f1: "fit k a c1" using keepq_fit [OF keepq_require f] Pair by blast
    have W: "fit k a (if b2 then setDState p D_UNCACHED (if b1 then setForwarder p INVALID_CORE_ID c2 else c2)
        else if b1 then setForwarder p INVALID_CORE_ID c2 else c2)"
      if "remove_sharer p sender c1 = Inr c2" for c2 b1 b2
      using keepq_fit [OF keepq_remove_sharer [OF that] f1] keepq_fit [OF keepq_simps(2)] by simp
    show ?thesis unfolding Pair
      by (auto simp del: if_split intro!: nodiv_bindR [where r = "logAssertR _ _"] nodiv_bindR [where r = "remove_sharer _ _ _"] nodiv_if
          nodiv_woken [OF W] nodiv_bindR [where r = "hasSharer _ _"]
          nodiv_Ex [OF F _ refl] nodiv_Sh [OF F _ refl] nodiv_Upgrade [OF F _ refl] nodiv_nullify [OF F _ refl]
          split: msg_t.split)
  qed
  done

lemma nodiv_flushRep:
  assumes F: "fuel_ok k next" and f: "fit k a c" and a: "sm_address msg = a"
  shows "nodiv (processFlushRepFromL2Cache next sender msg c)"
  unfolding processFlushRepFromL2Cache_def Let_def a
  apply (rule nodiv_bindR, simp)
  subgoal for x
  proof (cases x)
    case (Pair p c1)
    assume "require_entry a c = Inr x"
    then have f1: "fit k a c1" using keepq_fit [OF keepq_require f] Pair by blast
    have W: "fit k a c4"
      if "remove_sharer p sender c1 = Inr c2" "set_owner p INVALID_CORE_ID (setForwarder p INVALID_CORE_ID c2) = Inr c3"
        "(if getNumSharers (the_entry p c3) = 0 then Inr (setDState p D_UNCACHED c3)
          else bindR (assertR (de_dstate (the_entry p c3) = D_SHARED) ''getDState() == SHARED'') (\<lambda>_. Inr c3)) = Inr c4" for c2 c3 c4
    proof -
      have "fit k a (setForwarder p INVALID_CORE_ID c2)" by (rule keepq_fit [OF keepq_simps(2) keepq_fit [OF keepq_remove_sharer [OF that(1)] f1]])
      then have "fit k a c3" by (rule keepq_fit [OF keepq_set_owner [OF that(2)]])
      then show ?thesis using that(3) by (auto split: if_splits)
    qed
    have D: "nodiv (bindR (sendDataToDram (req_address r) s buf c5) (\<lambda>c. processShReqFromL2Cache next r buf c))"
        "nodiv (bindR (sendDataToDram (req_address r) s buf c5) (\<lambda>c. processNullifyReq next r c))"
      if "fit k (req_address r) c5" "qs c5 (req_address r) \<noteq> []" for s buf r c5
    proof -
      have "fit k (req_address r) c6 \<and> qs c6 (req_address r) \<noteq> []" if "sendDataToDram (req_address r) s buf c5 = Inr c6" for c6
        using nodiv_sendDataToDram(2) [OF \<open>fit k (req_address r) c5\<close> that] \<open>fit k (req_address r) c5\<close> \<open>qs c5 (req_address r) \<noteq> []\<close>
        by (simp add: keepq_def fit_def)
      then show "nodiv (bindR (sendDataToDram (req_address r) s buf c5) (\<lambda>c. processShReqFromL2Cache next r buf c))"
        "nodiv (bindR (sendDataToDram (req_address r) s buf c5) (\<lambda>c. processNullifyReq next r c))"
        using nodiv_sendDataToDram(1) [OF that(1)] by (auto intro!: nodiv_bindR nodiv_Sh [OF F _ refl] nodiv_nullify [OF F _ refl])
    qed
    show ?thesis unfolding Pair
      by (auto simp del: if_split intro!: nodiv_bindR [where r = "hasSharer _ _"] nodiv_bindR [where r = "assertR _ _"]
          nodiv_bindR [where r = "remove_sharer _ _ _"] nodiv_bindR [where r = "set_owner _ _ _"] nodiv_bindR [where r = "if _ then _ else _"] nodiv_if
          nodiv_woken [OF W] D nodiv_Ex [OF F _ refl] nodiv_Upgrade [OF F _ refl] nodiv_sendDataToDram(1) [OF W]
          split: msg_t.split)
  qed
  done

lemma nodiv_wbRep:
  assumes F: "fuel_ok k next" and f: "fit k a c" and a: "sm_address msg = a"
  shows "nodiv (processWbRepFromL2Cache next sender msg c)"
  unfolding processWbRepFromL2Cache_def Let_def a
  apply (rule nodiv_bindR, simp)
  subgoal for x
  proof (cases x)
    case (Pair p c1)
    assume "require_entry a c = Inr x"
    then have f1: "fit k a c1" using keepq_fit [OF keepq_require f] Pair by blast
    have W: "fit k a (setDState p D_SHARED c2)" if "set_owner p INVALID_CORE_ID c1 = Inr c2" for c2
      using keepq_fit [OF keepq_set_owner [OF that] f1] by simp
    show ?thesis unfolding Pair
      by (auto simp del: if_split queues_setDState intro!: nodiv_bindR [where r = "hasSharer _ _"] nodiv_bindR [where r = "assertR _ _"]
          nodiv_bindR [where r = "set_owner _ _ _"] nodiv_bindR [where r = "logAssertR _ _"] nodiv_if nodiv_woken [OF W] nodiv_Sh [OF F _ refl])
  qed
  done

lemma nodiv_dramReply:
  assumes F: "fuel_ok k next" and f: "fit k a c" and a: "sm_address msg = a"
  shows "nodiv (processDRAMReply next sender msg c)"
proof -
  have R: "nodiv (dram_reply_type t st)" for t st by (auto simp: dram_reply_type_def intro!: nodiv_bindR split: msg_t.split)
  have N: "nodiv (bindR (sendDataToNUCA a b m c1) (\<lambda>c. next a c))" if "fit k a c1" for b m c1
    using that fuel_okD [OF F that] by (simp add: sendDataToNUCA_def fit_def)
  have S: "nodiv (bindR (sendMsg t rc rq rcv a b l w c1) (\<lambda>c. bindR (sendDataToNUCA a d False c) (\<lambda>c. next a c)))" if "fit k a c1" for t rc rq rcv b l w d c1
    by (rule nodiv_bindR, simp) (rule N, rule keepq_fit [OF keepq_sendMsg that])
  show ?thesis unfolding processDRAMReply_def Let_def a
    by (auto simp del: if_split intro!: nodiv_bindR [where r = "assertR _ _"] nodiv_bindR [where r = "ReqQueueList_front _ _"]
        nodiv_bindR [where r = "require_entry _ _"] nodiv_bindR [where r = "dram_reply_type _ _"] R S keepq_fit [OF keepq_require f])
qed

lemma nodiv_enqueue:
  assumes f: "fit k a c" "length (qs c a) < k" and a: "sm_address msg = a"
    and P: "\<And>r c'. fit k a c' \<Longrightarrow> req_address r = a \<Longrightarrow> qs c' a \<noteq> [] \<Longrightarrow> nodiv (process r c')"
  shows "nodiv (enqueue_request process msg tm c)"
  unfolding enqueue_request_def Let_def a
  by (rule nodiv_bindR, simp) (use f a in \<open>auto intro!: P simp: ShmemReq_create_Inr fit_def rq_enqueue_inv\<close>)

lemma nodiv_handleL2:
  assumes F: "fuel_ok k next" and f: "fit k a c" "length (qs c a) < k" and a: "sm_address msg = a"
  shows "nodiv (handleMsgFromL2Cache next sender msg c)"
  unfolding handleMsgFromL2Cache_def Let_def
  apply (rule nodiv_bindR, simp)
  subgoal for x
  proof (cases x)
    case (Pair p c1)
    assume "lookup_entry (sm_address msg) True c = Inr x"
    then have K: "keepq c c1" using keepq_lookup Pair by blast
    have f1: "fit k a c1" "length (qs c1 a) < k" using keepq_fit [OF K f(1)] K f(2) by (auto simp: keepq_def)
    show ?thesis unfolding Pair
      by (auto split: msg_t.split intro!: nodiv_enqueue [OF f1 a] nodiv_Ex [OF F _ refl] nodiv_Sh [OF F _ refl] nodiv_Upgrade [OF F _ refl]
          nodiv_invRep [OF F f1(1) a] nodiv_flushRep [OF F f1(1) a] nodiv_wbRep [OF F f1(1) a])
  qed
  done

section \<open>Properties\<close>

text \<open>
  C32: Handling a message ends. For every reachable controller without a NUCA slice and every message, the chain of calls through
  \<^verbatim>\<open>processNextReqFromL2Cache\<close> never uses more fuel than one more than the number of requests that are queued for the
  address: with that much fuel the handler returns a state, or stops the simulator with one of its own errors.
\<close>

theorem requests_terminate:
  assumes "reach dir_init dir_step c" "dc_nuca c = None" "length (rq_contents (dc_queues c) (sm_address (packet_msg pk))) < n"
  shows "receive_packet n pk c \<noteq> Inl Diverges"
proof -
  let ?c = "setElapsedTime (np_time pk) c" and ?m = "unpack_msg (np_data pk)" and ?a = "sm_address (packet_msg pk)"
  have I: "cntlr_inv {} c" by (rule dir.reach_inv [OF assms(1)])
  have "\<forall>r \<in> set (qs c ?a). req_address r = ?a" using inv_queue [OF I, of ?a] by (simp add: queue_ok_def)
  then have f: "fit n ?a ?c" "length (qs ?c ?a) < n"
    using I assms(2,3) keepq_fit [OF keepq_simps(4), of n ?a c] by (auto simp: fit_def cntlr_inv_def setElapsedTime_def)
  have F: "fuel_ok n (processNextReqFromL2Cache n)" using processNext_fuel assms(3) by simp
  have "nodiv (receive_packet n pk c)"
    using nodiv_handleL2 [OF F f] nodiv_dramReply [OF F f(1)]
    by (auto simp: receive_packet_def handleMsgFromDRAM_def Let_def packet_msg_def split: component_t.split msg_t.split)
  then show ?thesis by (simp add: nodiv_def)
qed

section \<open>Witnesses\<close>

theorem requests_terminate_witness:
  "length (rq_contents (dc_queues example_asked) 64) = 1
   \<and> receive_packet 2 (example_packet SH_REQ LAST_LEVEL_CACHE 2 64 None) example_asked \<noteq> Inl Diverges"
proof -
  have e: "length (rq_contents (dc_queues example_asked) 64) = 1" "dc_nuca example_asked = None"
    "sm_address (packet_msg (example_packet SH_REQ LAST_LEVEL_CACHE 2 64 None)) = 64" by code_simp+
  show ?thesis using requests_terminate [OF example_reach(1) e(2), of "example_packet SH_REQ LAST_LEVEL_CACHE 2 64 None" 2] e by simp
qed

end
