(* ===== verification/Cache_Atd.thy ===== *)
theory Cache_Atd
  imports Cache_Model
begin

text \<open>
  The auxiliary tag directory of \<^verbatim>\<open>parametric_dram_directory_msi/cache_atd.cc\<close>: it replays the accesses of one core on sampled
  sets of its own and counts where sharing the cache helped or hurt. The map of sampled sets is a partial function.
\<close>

datatype mem_op_t = INVALID_MEM_OP | READ | READ_EX | WRITE

record ATD =
  atd_cache_base :: CacheBase
  atd_sets :: "UInt32 \<rightharpoonup> repl_state CacheSet"
  atd_set_info :: "CacheSetInfoLRU option"
  atd_loads :: UInt64
  atd_stores :: UInt64
  atd_load_misses :: UInt64
  atd_store_misses :: UInt64
  atd_loads_constructive :: UInt64
  atd_stores_constructive :: UInt64
  atd_loads_destructive :: UInt64
  atd_stores_destructive :: UInt64

text \<open>\<^verbatim>\<open>for(set_index = 1; set_index < num_sets - 1; set_index <<= 1)\<close>, whose bound is computed in 32 bits and compared in 64 bits.\<close>

fun atd_powers :: "nat \<Rightarrow> UInt64 \<Rightarrow> UInt64 \<Rightarrow> UInt32 list" where
  "atd_powers 0 bound i = []"
| "atd_powers (Suc n) bound i = (if i < bound then ucast (i + 1) # atd_powers n bound (push_bit 1 i) else [])"

text \<open>
  The loop that draws random sets; the assertion on the number of attempts bounds it. \<open>fuel\<close> is that bound.
\<close>

fun atd_random :: "nat \<Rightarrow> UInt64 \<Rightarrow> UInt64 \<Rightarrow> UInt64 \<Rightarrow> UInt64 \<Rightarrow> UInt32 list \<Rightarrow> UInt32 list result" where
  "atd_random fuel num_sets state num_atds num_attempts chosen =
     (if num_atds = 0 then Inr chosen
      else case fuel of
             0 \<Rightarrow> Inl Diverges
           | Suc fuel \<Rightarrow>
               (case rng_next state of (state, r) \<Rightarrow>
                  bindR (modR r num_sets) (\<lambda>set_index.
                  let new = ucast set_index \<notin> set chosen;
                      num_attempts = num_attempts + 1
                  in bindR (logAssertR (num_attempts < 10 * num_sets) ''Cound not find unique ATD sets even after many attempts'') (\<lambda>_.
                     atd_random fuel num_sets state (if new then num_atds - 1 else num_atds) num_attempts
                       (if new then ucast set_index # chosen else chosen)))))"

record atd_config =
  ac_sampling :: string
  ac_random_seed :: UInt64
  ac_random_count :: UInt64

definition atd_sampled :: "atd_config \<Rightarrow> UInt32 \<Rightarrow> UInt32 list result" where
  "atd_sampled cfg num_sets =
     (if ac_sampling cfg = ''full'' then Inr (map of_nat [0..<unat num_sets])
      else if ac_sampling cfg = ''2^n+1'' then Inr (atd_powers 64 (ucast (num_sets - 1)) 1)
      else if ac_sampling cfg = ''random''
      then bindR (logAssertR (ac_random_count cfg \<le> ucast num_sets) ''Cannot sample more sets than the total number of sets'') (\<lambda>_.
           atd_random (10 * unat num_sets) (ucast num_sets) (rng_seed (ac_random_seed cfg)) (ac_random_count cfg) 0 [])
      else Inl (LogError ''Invalid ATD sampling method''))"

definition ATD_create :: "repl_config \<Rightarrow> atd_config \<Rightarrow> string \<Rightarrow> UInt32 \<Rightarrow> UInt32 \<Rightarrow> UInt32 \<Rightarrow> string \<Rightarrow> hash_t \<Rightarrow> ATD result" where
  "ATD_create rcfg cfg name num_sets associativity cache_block_size replacement_policy hash =
     bindR (CacheBase_create name num_sets associativity cache_block_size hash None) (\<lambda>base.
     bindR (createCacheSetInfo rcfg replacement_policy (unat associativity)) (\<lambda>set_info.
     bindR (atd_sampled cfg num_sets) (\<lambda>sampled.
     bindR (createCacheSet rcfg replacement_policy PR_L1_CACHE (unat associativity) 0) (\<lambda>set.
     Inr \<lparr>atd_cache_base = base, atd_sets = (\<lambda>i. if i \<in> List.set sampled then Some set else None), atd_set_info = set_info,
          atd_loads = 0, atd_stores = 0, atd_load_misses = 0, atd_store_misses = 0, atd_loads_constructive = 0,
          atd_stores_constructive = 0, atd_loads_destructive = 0, atd_stores_destructive = 0\<rparr>))))"

definition isSampledSet :: "UInt32 \<Rightarrow> ATD \<Rightarrow> bool" where
  "isSampledSet set_index a = (atd_sets a set_index \<noteq> None)"

text \<open>The counters after an access to a sampled set.\<close>

definition atd_count :: "mem_op_t \<Rightarrow> bool \<Rightarrow> bool \<Rightarrow> ATD \<Rightarrow> ATD" where
  "atd_count mem_op_type cache_hit atd_hit a =
     (let a = (if mem_op_type = WRITE
               then a\<lparr>atd_stores := atd_stores a + 1, atd_store_misses := atd_store_misses a + (if atd_hit then 0 else 1)\<rparr>
               else a\<lparr>atd_loads := atd_loads a + 1, atd_load_misses := atd_load_misses a + (if atd_hit then 0 else 1)\<rparr>)
      in if cache_hit \<and> \<not> atd_hit
         then if mem_op_type = WRITE then a\<lparr>atd_stores_constructive := atd_stores_constructive a + 1\<rparr>
              else a\<lparr>atd_loads_constructive := atd_loads_constructive a + 1\<rparr>
         else if \<not> cache_hit \<and> atd_hit
         then if mem_op_type = WRITE then a\<lparr>atd_stores_destructive := atd_stores_destructive a + 1\<rparr>
              else a\<lparr>atd_loads_destructive := atd_loads_destructive a + 1\<rparr>
         else a)"

definition ATD_access :: "mem_op_t \<Rightarrow> bool \<Rightarrow> IntPtr \<Rightarrow> ATD \<Rightarrow> repl_env \<Rightarrow> (ATD \<times> repl_env) result" where
  "ATD_access mem_op_type cache_hit address a g =
     bindR (splitAddress (atd_cache_base a) address) (\<lambda>(tag, set_index).
     case atd_sets a set_index of
       None \<Rightarrow> Inr (a, g)
     | Some s \<Rightarrow>
         (let env = g\<lparr>re_set_info := atd_set_info a\<rparr>
          in case CacheSet_find tag s of
               Some line_index \<Rightarrow>
                 bindR (updateReplacementIndex (cs_associativity s) line_index 100 set_index (cs_policy s) env) (\<lambda>(st, env).
                 Inr (atd_count mem_op_type cache_hit True
                        (a\<lparr>atd_sets := (atd_sets a)(set_index \<mapsto> s\<lparr>cs_policy := st\<rparr>), atd_set_info := re_set_info env\<rparr>), env))
             | None \<Rightarrow>
                 bindR (CacheSet_insert getReplacementIndex (CacheBlockInfo_new PR_L1_CACHE tag C_MODIFIED 0) None
                          (CacheBlockInfo_new PR_L1_CACHE (NOT 0) C_INVALID 0) None None s env) (\<lambda>(_, _, _, s, env).
                 Inr (atd_count mem_op_type cache_hit False
                        (a\<lparr>atd_sets := (atd_sets a)(set_index \<mapsto> s), atd_set_info := re_set_info env\<rparr>), env))))"

section \<open>What is counted\<close>

text \<open>The random draw ends within its assertion: the model never runs out of fuel.\<close>

lemma atd_random_ends:
  assumes "10 * unat num_sets \<le> unat num_attempts + fuel" "num_atds \<noteq> 0 \<longrightarrow> unat num_attempts < 10 * unat num_sets"
    and "10 * unat num_sets < 2 ^ 64"
  shows "atd_random fuel num_sets state num_atds num_attempts chosen \<noteq> Inl Diverges"
  using assms(1,2)
proof (induction fuel arbitrary: state num_atds num_attempts chosen)
  case 0
  then show ?case by (cases "num_atds = 0") simp_all
next
  case (Suc fuel)
  have ten: "unat (10 * num_sets) = 10 * unat num_sets" using assms(3) by (simp add: unat_word_ariths)
  obtain st r where rn: "rng_next state = (st, r)" by fastforce
  show ?case
  proof (cases "num_atds = 0 \<or> num_sets = 0 \<or> \<not> num_attempts + 1 < 10 * num_sets")
    case True
    then show ?thesis by (auto simp: rn modR_def Let_def logAssertR_def)
  next
    case False
    then have less: "num_attempts + 1 < 10 * num_sets" by simp
    have "unat num_attempts + 1 < 2 ^ 64" using Suc.prems(2) False assms(3) by linarith
    then have one: "unat (num_attempts + 1) = unat num_attempts + 1" by (simp add: unat_word_ariths)
    have "unat (num_attempts + 1) < 10 * unat num_sets" using less ten by (simp add: word_less_nat_alt)
    moreover have "10 * unat num_sets \<le> unat (num_attempts + 1) + fuel" using Suc.prems(1) one by simp
    ultimately show ?thesis using Suc.IH False by (simp add: rn modR_def Let_def del: atd_random.simps) (simp add: rn modR_def Let_def)
  qed
qed

text \<open>
  The set indices that the constructor samples are found for every configuration it accepts, and the search ends.
\<close>

lemma atd_sampling_ends: "atd_sampled cfg num_sets \<noteq> Inl Diverges"
proof (cases "ac_sampling cfg = ''random'' \<and> ac_random_count cfg \<le> ucast num_sets")
  case True
  have n: "unat (ucast num_sets :: UInt64) = unat num_sets" by (rule unat_sets)
  have b: "unat num_sets < 2 ^ 32" using unsigned_less [of num_sets] by simp
  have "ac_random_count cfg \<noteq> 0 \<longrightarrow> 0 < unat num_sets" using True n by (metis le_zero_eq not_gr_zero unat_eq_zero word_le_nat_alt)
  then show ?thesis
    using True n b atd_random_ends [of "ucast num_sets" 0 "10 * unat num_sets" "ac_random_count cfg" "rng_seed (ac_random_seed cfg)" "[]"]
    by (simp add: atd_sampled_def del: atd_random.simps)
qed (auto simp: atd_sampled_def logAssertR_def)

text \<open>
  Each access of a sampled set is counted once as a load or a store; a miss of the directory is counted as such, and the access
  is constructive or destructive exactly when the shared cache and the directory disagree. Other accesses change nothing.
\<close>

lemma atd_access_counts:
  assumes "ATD_access op hit address a g = Inr (a', g')" "splitAddress (atd_cache_base a) address = Inr (tag, si)"
  shows "(\<not> isSampledSet si a \<longrightarrow> a' = a \<and> g' = g)
    \<and> (\<forall>s. atd_sets a si = Some s \<longrightarrow>
         atd_loads a' + atd_stores a' = atd_loads a + atd_stores a + 1
       \<and> atd_load_misses a' + atd_store_misses a' = atd_load_misses a + atd_store_misses a + (if CacheSet_find tag s = None then 1 else 0)
       \<and> atd_loads_constructive a' + atd_stores_constructive a' = atd_loads_constructive a + atd_stores_constructive a
           + (if hit \<and> CacheSet_find tag s = None then 1 else 0)
       \<and> atd_loads_destructive a' + atd_stores_destructive a' = atd_loads_destructive a + atd_stores_destructive a
           + (if \<not> hit \<and> CacheSet_find tag s \<noteq> None then 1 else 0))"
proof (cases "atd_sets a si")
  case None
  then show ?thesis using assms by (simp add: ATD_access_def isSampledSet_def)
next
  case (Some s)
  then show ?thesis using assms
    by (cases "CacheSet_find tag s") (auto simp: ATD_access_def isSampledSet_def Let_def atd_count_def)
qed

end
