(* ===== verification/Dram_Cntlr.thy ===== *)
theory Dram_Cntlr
  imports Queue_Model Fault_Injection Shmem_Msg
begin

text \<open>
  The DRAM controller: \<^verbatim>\<open>pr_l1_pr_l2_dram_directory_msi/dram_cntlr.cc\<close>, its message handler
  \<^verbatim>\<open>dram/dram_cntlr_interface.cc\<close> and the latency models \<^verbatim>\<open>performance_model/dram_perf_model*.cc\<close>. The controller stores data
  only when the simulator has a fault injection manager. The draws of the normal distribution, a third-party generator, and what the
  queue models take from outside are arguments; \<^verbatim>\<open>ShmemPerf\<close> statistics are left out.
\<close>

section \<open>Latency models\<close>

datatype dram_access_t = DRAM_READ | DRAM_WRITE

record DramPerfModelBase =
  dp_enabled :: bool
  dp_num_accesses :: UInt64
  dp_application_cores :: core_id_t
  dp_dram_bandwidth :: UInt64
  dp_total_access_latency :: SubsecondTime
  dp_env :: "nat \<Rightarrow> queue_env"
  dp_queue_calls :: nat

record DramPerfModelConstant = DramPerfModelBase +
  dpc_queue_model :: "QueueModel option"
  dpc_dram_access_cost :: SubsecondTime
  dpc_total_queueing_delay :: SubsecondTime

record DramPerfModelNormal = DramPerfModelBase +
  dpn_queue_model :: "QueueModel option"
  dpn_dram_access_cost :: "nat \<Rightarrow> SubsecondTime"
  dpn_draws :: nat
  dpn_total_queueing_delay :: SubsecondTime

record DramPerfModelReadWrite = DramPerfModelBase +
  dpr_queue_models :: "(QueueModel \<times> QueueModel) option"
  dpr_dram_access_cost :: SubsecondTime
  dpr_shared_readwrite :: bool
  dpr_total_read_queueing_delay :: SubsecondTime
  dpr_total_write_queueing_delay :: SubsecondTime

datatype DramPerfModel = DPM_Constant DramPerfModelConstant | DPM_Normal DramPerfModelNormal | DPM_ReadWrite DramPerfModelReadWrite

text \<open>The configuration of the latency models; the latency is already converted to femtoseconds, the bandwidth to bits per microsecond.\<close>

record dram_config =
  dm_type :: string
  dm_application_cores :: core_id_t
  dm_bandwidth :: UInt64
  dm_latency :: SubsecondTime
  dm_normal_draws :: "nat \<Rightarrow> SubsecondTime"
  dm_shared_readwrite :: bool
  dm_queue_model :: "string option"
  dm_queue_config :: queue_config
  dm_env :: "nat \<Rightarrow> queue_env"

definition dram_queue_model :: "dram_config \<Rightarrow> UInt32 \<Rightarrow> QueueModel option result" where
  "dram_queue_model cfg cache_block_size =
     (case dm_queue_model cfg of
        None \<Rightarrow> Inr None
      | Some t \<Rightarrow>
          bindR (ComponentBandwidth_getRoundedLatency (dm_bandwidth cfg) (ucast (8 * cache_block_size))) (\<lambda>l.
          bindR (QueueModel_create (dm_queue_config cfg) t l) (\<lambda>q. Inr (Some q))))"

definition DramPerfModelConstant_create :: "dram_config \<Rightarrow> UInt32 \<Rightarrow> DramPerfModelConstant result" where
  "DramPerfModelConstant_create cfg cache_block_size =
     bindR (dram_queue_model cfg cache_block_size) (\<lambda>q.
     Inr \<lparr>dp_enabled = False, dp_num_accesses = 0, dp_application_cores = dm_application_cores cfg, dp_dram_bandwidth = dm_bandwidth cfg,
          dp_total_access_latency = 0, dp_env = dm_env cfg, dp_queue_calls = 0,
          dpc_queue_model = q, dpc_dram_access_cost = dm_latency cfg, dpc_total_queueing_delay = 0\<rparr>)"

definition DramPerfModelNormal_create :: "dram_config \<Rightarrow> UInt32 \<Rightarrow> DramPerfModelNormal result" where
  "DramPerfModelNormal_create cfg cache_block_size =
     bindR (dram_queue_model cfg cache_block_size) (\<lambda>q.
     Inr \<lparr>dp_enabled = False, dp_num_accesses = 0, dp_application_cores = dm_application_cores cfg, dp_dram_bandwidth = dm_bandwidth cfg,
          dp_total_access_latency = 0, dp_env = dm_env cfg, dp_queue_calls = 0,
          dpn_queue_model = q, dpn_dram_access_cost = dm_normal_draws cfg, dpn_draws = 0, dpn_total_queueing_delay = 0\<rparr>)"

definition DramPerfModelReadWrite_create :: "dram_config \<Rightarrow> UInt32 \<Rightarrow> DramPerfModelReadWrite result" where
  "DramPerfModelReadWrite_create cfg cache_block_size =
     bindR (dram_queue_model cfg cache_block_size) (\<lambda>q.
     Inr \<lparr>dp_enabled = False, dp_num_accesses = 0, dp_application_cores = dm_application_cores cfg, dp_dram_bandwidth = dm_bandwidth cfg,
          dp_total_access_latency = 0, dp_env = dm_env cfg, dp_queue_calls = 0,
          dpr_queue_models = map_option (\<lambda>q. (q, q)) q, dpr_dram_access_cost = dm_latency cfg,
          dpr_shared_readwrite = dm_shared_readwrite cfg, dpr_total_read_queueing_delay = 0, dpr_total_write_queueing_delay = 0\<rparr>)"

definition createDramPerfModel :: "dram_config \<Rightarrow> UInt32 \<Rightarrow> DramPerfModel result" where
  "createDramPerfModel cfg cache_block_size =
     (if dm_type cfg = ''constant'' then bindR (DramPerfModelConstant_create cfg cache_block_size) (\<lambda>m. Inr (DPM_Constant m))
      else if dm_type cfg = ''readwrite'' then bindR (DramPerfModelReadWrite_create cfg cache_block_size) (\<lambda>m. Inr (DPM_ReadWrite m))
      else if dm_type cfg = ''normal'' then bindR (DramPerfModelNormal_create cfg cache_block_size) (\<lambda>m. Inr (DPM_Normal m))
      else Inl (LogError ''Invalid DRAM model type''))"

text \<open>\<^verbatim>\<open>enable()\<close> and \<^verbatim>\<open>disable()\<close>.\<close>

definition DramPerfModel_enable :: "bool \<Rightarrow> DramPerfModel \<Rightarrow> DramPerfModel" where
  "DramPerfModel_enable b pm =
     (case pm of DPM_Constant m \<Rightarrow> DPM_Constant (m\<lparr>dp_enabled := b\<rparr>) | DPM_Normal m \<Rightarrow> DPM_Normal (m\<lparr>dp_enabled := b\<rparr>)
      | DPM_ReadWrite m \<Rightarrow> DPM_ReadWrite (m\<lparr>dp_enabled := b\<rparr>))"

text \<open>A call of an optional queue model; the delay is zero without one.\<close>

definition queue_delay :: "queue_env \<Rightarrow> QueueModel option \<Rightarrow> SubsecondTime \<Rightarrow> SubsecondTime \<Rightarrow> (SubsecondTime \<times> QueueModel option) result" where
  "queue_delay env qm pkt_time processing_time =
     (case qm of
        Some q \<Rightarrow> bindR (computeQueueDelay env q pkt_time processing_time) (\<lambda>(d, q). Inr (d, Some q))
      | None \<Rightarrow> Inr (0, None))"

definition dram_idle :: "core_id_t \<Rightarrow> 'a DramPerfModelBase_scheme \<Rightarrow> bool" where
  "dram_idle requester m = (\<not> dp_enabled m \<or> requester \<ge> dp_application_cores m)"

definition dram_processing_time :: "UInt64 \<Rightarrow> 'a DramPerfModelBase_scheme \<Rightarrow> SubsecondTime result" where
  "dram_processing_time pkt_size m = ComponentBandwidth_getRoundedLatency (dp_dram_bandwidth m) (8 * pkt_size)"

definition dram_env :: "'a DramPerfModelBase_scheme \<Rightarrow> nat \<Rightarrow> queue_env" where
  "dram_env m i = dp_env m (dp_queue_calls m + i)"

definition Constant_getAccessLatency ::
  "SubsecondTime \<Rightarrow> UInt64 \<Rightarrow> core_id_t \<Rightarrow> DramPerfModelConstant \<Rightarrow> (SubsecondTime \<times> DramPerfModelConstant) result" where
  "Constant_getAccessLatency pkt_time pkt_size requester m =
     (if dram_idle requester m then Inr (0, m)
      else bindR (dram_processing_time pkt_size m) (\<lambda>processing_time.
           bindR (queue_delay (dram_env m 0) (dpc_queue_model m) pkt_time processing_time) (\<lambda>(d, q).
           let access_latency = d + processing_time + dpc_dram_access_cost m
           in Inr (access_latency,
                   m\<lparr>dpc_queue_model := q, dp_queue_calls := dp_queue_calls m + 1, dp_num_accesses := dp_num_accesses m + 1,
                     dp_total_access_latency := dp_total_access_latency m + access_latency,
                     dpc_total_queueing_delay := dpc_total_queueing_delay m + d\<rparr>))))"

definition Normal_getAccessLatency ::
  "SubsecondTime \<Rightarrow> UInt64 \<Rightarrow> core_id_t \<Rightarrow> DramPerfModelNormal \<Rightarrow> (SubsecondTime \<times> DramPerfModelNormal) result" where
  "Normal_getAccessLatency pkt_time pkt_size requester m =
     (if dram_idle requester m then Inr (0, m)
      else bindR (dram_processing_time pkt_size m) (\<lambda>processing_time.
           bindR (queue_delay (dram_env m 0) (dpn_queue_model m) pkt_time processing_time) (\<lambda>(d, q).
           let dram_access_cost = dpn_dram_access_cost m (dpn_draws m);
               access_latency = d + processing_time + dram_access_cost
           in Inr (access_latency,
                   m\<lparr>dpn_queue_model := q, dp_queue_calls := dp_queue_calls m + 1, dpn_draws := dpn_draws m + 1,
                     dp_num_accesses := dp_num_accesses m + 1, dp_total_access_latency := dp_total_access_latency m + access_latency,
                     dpn_total_queueing_delay := dpn_total_queueing_delay m + d\<rparr>))))"

text \<open>The read and the write queue; a read also occupies the write queue when the bandwidth is shared.\<close>

definition readwrite_delay ::
  "dram_access_t \<Rightarrow> SubsecondTime \<Rightarrow> SubsecondTime \<Rightarrow> DramPerfModelReadWrite \<Rightarrow> (SubsecondTime \<times> DramPerfModelReadWrite) result" where
  "readwrite_delay access_type pkt_time processing_time m =
     (case dpr_queue_models m of
        None \<Rightarrow> Inr (0, m)
      | Some (qr, qw) \<Rightarrow>
          (case access_type of
             DRAM_READ \<Rightarrow>
               bindR (computeQueueDelay (dram_env m 0) qr pkt_time processing_time) (\<lambda>(d, qr).
               bindR (if dpr_shared_readwrite m
                      then bindR (computeQueueDelay (dram_env m 1) qw pkt_time processing_time) (\<lambda>(_, qw). Inr qw)
                      else Inr qw) (\<lambda>qw.
               Inr (d, m\<lparr>dpr_queue_models := Some (qr, qw), dp_queue_calls := dp_queue_calls m + 2\<rparr>)))
           | DRAM_WRITE \<Rightarrow>
               bindR (computeQueueDelay (dram_env m 0) qw pkt_time processing_time) (\<lambda>(d, qw).
               Inr (d, m\<lparr>dpr_queue_models := Some (qr, qw), dp_queue_calls := dp_queue_calls m + 1\<rparr>))))"

definition ReadWrite_getAccessLatency ::
  "SubsecondTime \<Rightarrow> UInt64 \<Rightarrow> core_id_t \<Rightarrow> dram_access_t \<Rightarrow> DramPerfModelReadWrite \<Rightarrow> (SubsecondTime \<times> DramPerfModelReadWrite) result" where
  "ReadWrite_getAccessLatency pkt_time pkt_size requester access_type m =
     (if dram_idle requester m then Inr (0, m)
      else bindR (dram_processing_time pkt_size m) (\<lambda>processing_time.
           bindR (readwrite_delay access_type pkt_time processing_time m) (\<lambda>(d, m).
           let access_latency = d + processing_time + dpr_dram_access_cost m;
               m = m\<lparr>dp_num_accesses := dp_num_accesses m + 1, dp_total_access_latency := dp_total_access_latency m + access_latency\<rparr>
           in Inr (access_latency,
                   case access_type of
                     DRAM_READ \<Rightarrow> m\<lparr>dpr_total_read_queueing_delay := dpr_total_read_queueing_delay m + d\<rparr>
                   | DRAM_WRITE \<Rightarrow> m\<lparr>dpr_total_write_queueing_delay := dpr_total_write_queueing_delay m + d\<rparr>))))"

definition getAccessLatency ::
  "SubsecondTime \<Rightarrow> UInt64 \<Rightarrow> core_id_t \<Rightarrow> dram_access_t \<Rightarrow> DramPerfModel \<Rightarrow> (SubsecondTime \<times> DramPerfModel) result" where
  "getAccessLatency pkt_time pkt_size requester access_type pm =
     (case pm of
        DPM_Constant m \<Rightarrow> bindR (Constant_getAccessLatency pkt_time pkt_size requester m) (\<lambda>(l, m). Inr (l, DPM_Constant m))
      | DPM_Normal m \<Rightarrow> bindR (Normal_getAccessLatency pkt_time pkt_size requester m) (\<lambda>(l, m). Inr (l, DPM_Normal m))
      | DPM_ReadWrite m \<Rightarrow> bindR (ReadWrite_getAccessLatency pkt_time pkt_size requester access_type m) (\<lambda>(l, m). Inr (l, DPM_ReadWrite m)))"

section \<open>The controller\<close>

text \<open>
  \<open>dr_faults\<close> says whether the simulator has a fault injection manager. The elapsed time of the simulation thread and the
  packets sent belong to the memory manager of the node. \<open>dr_stack\<close> is what the uninitialised buffer of the n-th read holds.
\<close>

record DramCntlr =
  dr_data_map :: "IntPtr \<rightharpoonup> UInt8 list"
  dr_dram_perf_model :: DramPerfModel
  dr_faults :: bool
  dr_fault_injector :: "FaultInjector option"
  dr_cache_block_size :: UInt32
  dr_reads :: UInt64
  dr_writes :: UInt64
  dr_core_id_master :: core_id_t
  dr_elapsed :: SubsecondTime
  dr_sent :: "NetPacket list"
  dr_stack :: "nat \<Rightarrow> UInt8 list"
  dr_frames :: nat

definition DramCntlr_create ::
  "dram_config \<Rightarrow> FaultinjectionManager option \<Rightarrow> nat \<Rightarrow> UInt32 \<Rightarrow> core_id_t \<Rightarrow> (nat \<Rightarrow> UInt8 list) \<Rightarrow> DramCntlr result" where
  "DramCntlr_create cfg fim dram_component cache_block_size master stack =
     bindR (createDramPerfModel cfg cache_block_size) (\<lambda>pm.
     Inr \<lparr>dr_data_map = Map.empty, dr_dram_perf_model = pm, dr_faults = (fim \<noteq> None),
          dr_fault_injector = map_option (\<lambda>m. getFaultInjector m dram_component) fim, dr_cache_block_size = cache_block_size,
          dr_reads = 0, dr_writes = 0, dr_core_id_master = master, dr_elapsed = 0, dr_sent = [], dr_stack = stack, dr_frames = 0\<rparr>)"

definition runDramPerfModel :: "core_id_t \<Rightarrow> SubsecondTime \<Rightarrow> dram_access_t \<Rightarrow> DramCntlr \<Rightarrow> (SubsecondTime \<times> DramCntlr) result" where
  "runDramPerfModel requester time access_type d =
     bindR (getAccessLatency time (ucast (dr_cache_block_size d)) requester access_type (dr_dram_perf_model d)) (\<lambda>(l, pm).
     Inr (l, d\<lparr>dr_dram_perf_model := pm\<rparr>))"

definition block_bytes :: "DramCntlr \<Rightarrow> nat" where
  "block_bytes d = unat (dr_cache_block_size d)"

definition getDataFromDram ::
  "IntPtr \<Rightarrow> core_id_t \<Rightarrow> UInt8 list \<Rightarrow> SubsecondTime \<Rightarrow> DramCntlr \<Rightarrow> (SubsecondTime \<times> where_t \<times> UInt8 list \<times> DramCntlr) result" where
  "getDataFromDram address requester data_buf now d =
     bindR (if dr_faults d
            then let stored = (case dr_data_map d address of Some b \<Rightarrow> b | None \<Rightarrow> replicate (block_bytes d) 0)
                 in bindR (case dr_fault_injector d of
                             None \<Rightarrow> Inr (stored, None)
                           | Some fi \<Rightarrow> bindR (FaultInjector_preRead (dr_cache_block_size d) 0 (Some stored) fi) (\<lambda>(b, fi).
                                        Inr (the b, Some fi))) (\<lambda>(stored, fi).
                    Inr (memcpy_at 0 (take (block_bytes d) stored) data_buf,
                         d\<lparr>dr_data_map := (dr_data_map d)(address \<mapsto> stored), dr_fault_injector := fi\<rparr>))
            else Inr (data_buf, d)) (\<lambda>(data_buf, d).
     bindR (runDramPerfModel requester now DRAM_READ d) (\<lambda>(l, d).
     Inr (l, HIT_DRAM, data_buf, d\<lparr>dr_reads := dr_reads d + 1\<rparr>)))"

definition putDataToDram ::
  "IntPtr \<Rightarrow> core_id_t \<Rightarrow> UInt8 list option \<Rightarrow> SubsecondTime \<Rightarrow> DramCntlr \<Rightarrow> (SubsecondTime \<times> where_t \<times> DramCntlr) result" where
  "putDataToDram address requester data_buf now d =
     bindR (if dr_faults d
            then case (dr_data_map d address, data_buf) of
                   (None, _) \<Rightarrow> Inl (LogError ''Data Buffer does not exist'')
                 | (Some b, None) \<Rightarrow> Inl (Trap ''null pointer'')
                 | (Some b, Some buf) \<Rightarrow>
                     let b = memcpy_at 0 (take (block_bytes d) buf) b;
                         (b, fi) = (case dr_fault_injector d of
                                      None \<Rightarrow> (b, None)
                                    | Some fi \<Rightarrow> (case FaultInjector_postWrite (dr_cache_block_size d) 0 (Some b) fi of
                                                    (b, fi) \<Rightarrow> (the b, Some fi)))
                     in Inr (d\<lparr>dr_data_map := (dr_data_map d)(address \<mapsto> b), dr_fault_injector := fi\<rparr>)
            else Inr d) (\<lambda>d.
     bindR (runDramPerfModel requester now DRAM_WRITE d) (\<lambda>(l, d).
     Inr (l, HIT_DRAM, d\<lparr>dr_writes := dr_writes d + 1\<rparr>)))"

definition dram_sendMsg :: "core_id_t \<Rightarrow> core_id_t \<Rightarrow> IntPtr \<Rightarrow> UInt8 list \<Rightarrow> where_t \<Rightarrow> DramCntlr \<Rightarrow> DramCntlr result" where
  "dram_sendMsg requester receiver address data_buf w d =
     bindR (sendMsg_packet (dr_core_id_master d) (dr_elapsed d) DRAM_READ_REP DRAM TAG_DIR requester receiver address
              (Some data_buf) (dr_cache_block_size d) w) (\<lambda>pk.
     Inr (d\<lparr>dr_sent := dr_sent d @ [pk]\<rparr>))"

definition handleMsgFromTagDirectory :: "core_id_t \<Rightarrow> ShmemMsg \<Rightarrow> DramCntlr \<Rightarrow> DramCntlr result" where
  "handleMsgFromTagDirectory sender shmem_msg d =
     (case sm_msg_type shmem_msg of
        DRAM_READ_REQ \<Rightarrow>
          let address = sm_address shmem_msg; data_buf = dr_stack d (dr_frames d); d = d\<lparr>dr_frames := Suc (dr_frames d)\<rparr>
          in bindR (getDataFromDram address (sm_requester shmem_msg) data_buf (dr_elapsed d) d) (\<lambda>(dram_latency, hit_where, data_buf, d).
             dram_sendMsg (sm_requester shmem_msg) sender address data_buf hit_where (d\<lparr>dr_elapsed := dr_elapsed d + dram_latency\<rparr>))
      | DRAM_WRITE_REQ \<Rightarrow>
          bindR (putDataToDram (sm_address shmem_msg) (sm_requester shmem_msg) (sm_data_buf shmem_msg) (dr_elapsed d) d) (\<lambda>(_, _, d). Inr d)
      | _ \<Rightarrow> Inl (LogError ''Unrecognized Shmem Msg Type''))"

text \<open>The part of \<^verbatim>\<open>MemoryManager::handleMsgFromNetwork\<close> that is for the DRAM controller.\<close>

definition dram_receive :: "NetPacket \<Rightarrow> DramCntlr \<Rightarrow> DramCntlr result" where
  "dram_receive packet d =
     (let shmem_msg = unpack_msg (np_data packet); d = d\<lparr>dr_elapsed := np_time packet\<rparr>
      in case sm_sender_mem_component shmem_msg of
           TAG_DIR \<Rightarrow> handleMsgFromTagDirectory (np_sender packet) shmem_msg d
         | _ \<Rightarrow> Inl (LogError ''Unrecognized sender component''))"

section \<open>DRAM is a memory\<close>

text \<open>A latency model that always answers: it is without queue models and has a bandwidth.\<close>

definition perf_total :: "DramPerfModel \<Rightarrow> bool" where
  "perf_total pm =
     (case pm of DPM_Constant m \<Rightarrow> dpc_queue_model m = None \<and> dp_dram_bandwidth m \<noteq> 0
      | DPM_Normal m \<Rightarrow> dpn_queue_model m = None \<and> dp_dram_bandwidth m \<noteq> 0
      | DPM_ReadWrite m \<Rightarrow> dpr_queue_models m = None \<and> dp_dram_bandwidth m \<noteq> 0)"

definition injector_quiet :: "FaultInjector option \<Rightarrow> bool" where
  "injector_quiet fi = (case fi of Some (FI_Random enabled _) \<Rightarrow> \<not> enabled | _ \<Rightarrow> True)"

definition dram_ok :: "DramCntlr \<Rightarrow> bool" where
  "dram_ok d \<longleftrightarrow> injector_quiet (dr_fault_injector d) \<and> (\<forall>a b. dr_data_map d a = Some b \<longrightarrow> length b = block_bytes d)"

definition dram_contents :: "DramCntlr \<Rightarrow> IntPtr \<Rightarrow> UInt8 list" where
  "dram_contents d a = (case dr_data_map d a of Some b \<Rightarrow> b | None \<Rightarrow> replicate (block_bytes d) 0)"

text \<open>The answer of the latency model for an access that arrives now.\<close>

definition dram_latency :: "DramCntlr \<Rightarrow> core_id_t \<Rightarrow> dram_access_t \<Rightarrow> (SubsecondTime \<times> DramPerfModel) result" where
  "dram_latency d r at = getAccessLatency (dr_elapsed d) (ucast (dr_cache_block_size d)) r at (dr_dram_perf_model d)"

lemma getAccessLatency_total:
  "perf_total pm \<Longrightarrow> \<exists>l pm'. getAccessLatency t n r at pm = Inr (l, pm') \<and> perf_total pm'"
  by (cases pm; cases at)
    (auto simp: getAccessLatency_def perf_total_def Constant_getAccessLatency_def Normal_getAccessLatency_def ReadWrite_getAccessLatency_def
      dram_processing_time_def ComponentBandwidth_getRoundedLatency_def queue_delay_def readwrite_delay_def divR_def Let_def)

lemma preRead_quiet: "injector_quiet (Some fi) \<Longrightarrow> FaultInjector_preRead n p b fi = Inr (b, fi)"
  by (cases fi) (simp_all add: injector_quiet_def FaultInjector_preRead_def)

lemma memcpy_all: "length src = length dst \<Longrightarrow> memcpy_at 0 src dst = src"
  by (simp add: memcpy_at_def)

text \<open>What a read leaves in the store of the controller, and what it returns; a write likewise.\<close>

definition read_store :: "IntPtr \<Rightarrow> DramCntlr \<Rightarrow> DramCntlr" where
  "read_store a d = (if dr_faults d then d\<lparr>dr_data_map := (dr_data_map d)(a \<mapsto> dram_contents d a)\<rparr> else d)"

definition write_store :: "IntPtr \<Rightarrow> UInt8 list \<Rightarrow> DramCntlr \<Rightarrow> DramCntlr" where
  "write_store a data d = (if dr_faults d then d\<lparr>dr_data_map := (dr_data_map d)(a \<mapsto> data)\<rparr> else d)"

lemma dram_contents_length: "dram_ok d \<Longrightarrow> length (dram_contents d a) = block_bytes d"
  by (simp add: dram_contents_def dram_ok_def split: option.split)

lemma same_injector: "dr_fault_injector d = fi \<Longrightarrow> d\<lparr>dr_data_map := m, dr_fault_injector := fi\<rparr> = d\<lparr>dr_data_map := m\<rparr>"
  by (cases d) simp

lemma dram_read:
  assumes "dram_ok d" "length buf = block_bytes d"
  shows "getDataFromDram a r buf t d = bindR (runDramPerfModel r t DRAM_READ (read_store a d)) (\<lambda>(l, d').
      Inr (l, HIT_DRAM, if dr_faults d then dram_contents d a else buf, d'\<lparr>dr_reads := dr_reads d' + 1\<rparr>))"
proof (cases "dr_faults d")
  case True
  have q: "injector_quiet (dr_fault_injector d)" using assms(1) by (simp add: dram_ok_def)
  show ?thesis using True q dram_contents_length [OF assms(1), of a] assms(2)
    by (cases "dr_fault_injector d")
      (simp_all add: getDataFromDram_def same_injector preRead_quiet memcpy_all read_store_def dram_contents_def [symmetric] Let_def del: bindR_eq_Inr)
qed (simp add: getDataFromDram_def read_store_def)

lemma dram_write:
  assumes "dram_ok d" "length data = block_bytes d"
  shows "putDataToDram a r (Some data) t d = (if dr_faults d \<and> a \<notin> dom (dr_data_map d) then Inl (LogError ''Data Buffer does not exist'')
      else bindR (runDramPerfModel r t DRAM_WRITE (write_store a data d)) (\<lambda>(l, d'). Inr (l, HIT_DRAM, d'\<lparr>dr_writes := dr_writes d' + 1\<rparr>)))"
proof (cases "dr_faults d")
  case True
  have len: "length b = block_bytes d" if "dr_data_map d a = Some b" for b using assms(1) that by (simp add: dram_ok_def)
  show ?thesis using True assms(2)
    by (cases "dr_data_map d a"; cases "dr_fault_injector d")
      (simp_all add: putDataToDram_def same_injector FaultInjector_postWrite_def memcpy_all write_store_def len domIff Let_def del: bindR_eq_Inr)
qed (simp add: putDataToDram_def write_store_def)

lemma contents_upd [simp]: "dram_contents (d\<lparr>dr_data_map := (dr_data_map d)(a \<mapsto> b)\<rparr>) = (dram_contents d)(a := b)"
  by (simp add: dram_contents_def block_bytes_def fun_eq_iff split: option.split)

lemma store_fields [simp]:
  "block_bytes (read_store a d) = block_bytes d" "block_bytes (write_store a data d) = block_bytes d"
  "dr_cache_block_size (read_store a d) = dr_cache_block_size d" "dr_cache_block_size (write_store a data d) = dr_cache_block_size d"
  "dr_dram_perf_model (read_store a d) = dr_dram_perf_model d" "dr_dram_perf_model (write_store a data d) = dr_dram_perf_model d"
  "dr_sent (read_store a d) = dr_sent d" "dr_elapsed (read_store a d) = dr_elapsed d" "dram_contents (read_store a d) = dram_contents d"
  "dram_contents (write_store a data d) = (if dr_faults d then (dram_contents d)(a := data) else dram_contents d)"
  by (auto simp: read_store_def write_store_def block_bytes_def dram_contents_def fun_eq_iff split: option.split)

lemma store_ok: "dram_ok d \<Longrightarrow> dram_ok (read_store a d)" "dram_ok d \<Longrightarrow> length data = block_bytes d \<Longrightarrow> dram_ok (write_store a data d)"
  using dram_contents_length [of d a] by (auto simp: read_store_def write_store_def dram_ok_def block_bytes_def)

lemma frames_ok [simp]: "dram_ok (d\<lparr>dr_frames := n\<rparr>) = dram_ok d" "dram_contents (d\<lparr>dr_frames := n\<rparr>) = dram_contents d"
  "dram_ok (d\<lparr>dr_elapsed := t\<rparr>) = dram_ok d" "dram_contents (d\<lparr>dr_elapsed := t\<rparr>) = dram_contents d"
  "dram_ok (d\<lparr>dr_sent := ps\<rparr>) = dram_ok d" "dram_contents (d\<lparr>dr_sent := ps\<rparr>) = dram_contents d"
  "dram_ok (d\<lparr>dr_dram_perf_model := pm\<rparr>) = dram_ok d" "dram_contents (d\<lparr>dr_dram_perf_model := pm\<rparr>) = dram_contents d"
  "dram_ok (d\<lparr>dr_reads := k\<rparr>) = dram_ok d" "dram_contents (d\<lparr>dr_reads := k\<rparr>) = dram_contents d"
  "dram_ok (d\<lparr>dr_writes := k\<rparr>) = dram_ok d" "dram_contents (d\<lparr>dr_writes := k\<rparr>) = dram_contents d"
  "block_bytes (d\<lparr>dr_frames := n\<rparr>) = block_bytes d" "block_bytes (d\<lparr>dr_elapsed := t\<rparr>) = block_bytes d"
  by (simp_all add: dram_ok_def block_bytes_def dram_contents_def fun_eq_iff split: option.split)

lemma dram_answers:
  assumes "length out = unat (dr_cache_block_size d)" "0 < unat (dr_cache_block_size d)"
  shows "\<exists>pk. dram_sendMsg rq s a out w d = Inr (d\<lparr>dr_sent := dr_sent d @ [pk]\<rparr>) \<and> np_receiver pk = ToCore s
    \<and> sm_msg_type (packet_msg pk) = DRAM_READ_REP \<and> sm_sender_mem_component (packet_msg pk) = DRAM
    \<and> sm_receiver_mem_component (packet_msg pk) = TAG_DIR \<and> sm_requester (packet_msg pk) = rq
    \<and> sm_address (packet_msg pk) = a \<and> sm_data_buf (packet_msg pk) = Some out"
proof -
  have nz: "dr_cache_block_size d \<noteq> 0" using assms(2) by auto
  then obtain pk where pk: "sendMsg_packet (dr_core_id_master d) (dr_elapsed d) DRAM_READ_REP DRAM TAG_DIR rq s a (Some out)
      (dr_cache_block_size d) w = Inr pk"
    by (simp add: sendMsg_packet_def pack_msg_def setWhere_def Let_def word_gt_0)
  then show ?thesis using sendMsg_packet_Inr [OF pk] assms(1) by (auto simp: dram_sendMsg_def)
qed

section \<open>Properties\<close>

text \<open>
  C15: Without injected faults, whatever the latency model. A simulator with a fault injection manager has a memory of blocks that are zero at first:
  a read request is answered, to the core that sent it, with the requester, the address and the current contents of the block, and
  changes no block; a write request of a whole block updates exactly that block, and stops the simulator when the block has
  never been read before. A simulator without the manager stores nothing: a write changes no block, and a read is
  answered with what the uninitialised buffer of the handler holds. In both the handler stops the simulator in addition exactly when the latency model does,
  which it never does without queue models, and the time advances by the latency of a read and not by that of a write.
\<close>

theorem dram_refines_memory:
  assumes "dram_ok d" "0 < block_bytes d" "\<forall>n. length (dr_stack d n) = block_bytes d"
  shows "(sm_msg_type m = DRAM_READ_REQ \<longrightarrow>
      (case dram_latency d (sm_requester m) DRAM_READ of
         Inl e \<Rightarrow> handleMsgFromTagDirectory s m d = Inl e
       | Inr (l, pm) \<Rightarrow> \<exists>d' pk. handleMsgFromTagDirectory s m d = Inr d' \<and> dram_ok d' \<and> dr_sent d' = dr_sent d @ [pk] \<and> np_receiver pk = ToCore s
        \<and> sm_msg_type (packet_msg pk) = DRAM_READ_REP \<and> sm_requester (packet_msg pk) = sm_requester m \<and> sm_address (packet_msg pk) = sm_address m
        \<and> sm_data_buf (packet_msg pk) = Some (if dr_faults d then dram_contents d (sm_address m) else dr_stack d (dr_frames d))
        \<and> dram_contents d' = dram_contents d \<and> dr_dram_perf_model d' = pm \<and> dr_elapsed d' = dr_elapsed d + l))
    \<and> (sm_msg_type m = DRAM_WRITE_REQ \<longrightarrow> sm_data_buf m = Some data \<longrightarrow> length data = block_bytes d \<longrightarrow>
        (if dr_faults d \<and> sm_address m \<notin> dom (dr_data_map d) then \<not> is_ok (handleMsgFromTagDirectory s m d)
         else case dram_latency d (sm_requester m) DRAM_WRITE of
           Inl e \<Rightarrow> handleMsgFromTagDirectory s m d = Inl e
         | Inr (l, pm) \<Rightarrow> \<exists>d'. handleMsgFromTagDirectory s m d = Inr d' \<and> dram_ok d' \<and> dr_dram_perf_model d' = pm \<and> dr_elapsed d' = dr_elapsed d
             \<and> dram_contents d' = (if dr_faults d then (dram_contents d)(sm_address m := data) else dram_contents d)))
    \<and> (perf_total (dr_dram_perf_model d) \<longrightarrow> (\<exists>l pm. dram_latency d r at = Inr (l, pm) \<and> perf_total pm))"
proof (intro conjI impI)
  let ?a = "sm_address m" and ?d = "d\<lparr>dr_frames := Suc (dr_frames d)\<rparr>" and ?out = "if dr_faults d then dram_contents d (sm_address m) else dr_stack d (dr_frames d)"
  assume rd: "sm_msg_type m = DRAM_READ_REQ"
  have g: "getDataFromDram ?a (sm_requester m) (dr_stack d (dr_frames d)) (dr_elapsed d) ?d
      = bindR (dram_latency d (sm_requester m) DRAM_READ) (\<lambda>(l, pm). Inr (l, HIT_DRAM, ?out, (read_store ?a ?d)\<lparr>dr_dram_perf_model := pm, dr_reads := dr_reads d + 1\<rparr>))"
    using assms(1,3) by (cases "dram_latency d (sm_requester m) DRAM_READ")
      (auto simp: dram_read runDramPerfModel_def dram_latency_def read_store_def simp del: bindR_eq_Inr)
  show "case dram_latency d (sm_requester m) DRAM_READ of
         Inl e \<Rightarrow> handleMsgFromTagDirectory s m d = Inl e
       | Inr (l, pm) \<Rightarrow> \<exists>d' pk. handleMsgFromTagDirectory s m d = Inr d' \<and> dram_ok d' \<and> dr_sent d' = dr_sent d @ [pk] \<and> np_receiver pk = ToCore s
        \<and> sm_msg_type (packet_msg pk) = DRAM_READ_REP \<and> sm_requester (packet_msg pk) = sm_requester m \<and> sm_address (packet_msg pk) = sm_address m
        \<and> sm_data_buf (packet_msg pk) = Some ?out \<and> dram_contents d' = dram_contents d \<and> dr_dram_perf_model d' = pm \<and> dr_elapsed d' = dr_elapsed d + l"
  proof (cases "dram_latency d (sm_requester m) DRAM_READ")
    case (Inr r)
    obtain l pm where r: "r = (l, pm)" by (cases r)
    let ?d1 = "(read_store ?a ?d)\<lparr>dr_dram_perf_model := pm, dr_reads := dr_reads d + 1, dr_elapsed := dr_elapsed d + l\<rparr>"
    have len: "length ?out = unat (dr_cache_block_size ?d1)" using assms(3) dram_contents_length [OF assms(1), of ?a] by (simp add: block_bytes_def)
    obtain pk where pk: "dram_sendMsg (sm_requester m) s ?a ?out HIT_DRAM ?d1 = Inr (?d1\<lparr>dr_sent := dr_sent d @ [pk]\<rparr>)"
      "np_receiver pk = ToCore s" "sm_msg_type (packet_msg pk) = DRAM_READ_REP" "sm_requester (packet_msg pk) = sm_requester m"
      "sm_address (packet_msg pk) = ?a" "sm_data_buf (packet_msg pk) = Some ?out"
      using dram_answers [OF len, of "sm_requester m" s ?a HIT_DRAM] assms(2) by (auto simp: block_bytes_def)
    have "handleMsgFromTagDirectory s m d = Inr (?d1\<lparr>dr_sent := dr_sent d @ [pk]\<rparr>)"
      using g pk(1) by (simp add: handleMsgFromTagDirectory_def rd Inr r Let_def del: bindR_eq_Inr)
    then show ?thesis using pk(2-) store_ok(1) [of ?d ?a] assms(1) by (simp add: Inr r)
  qed (use g in \<open>simp add: handleMsgFromTagDirectory_def rd Let_def del: bindR_eq_Inr\<close>)
next
  assume w: "sm_msg_type m = DRAM_WRITE_REQ" "sm_data_buf m = Some data" "length data = block_bytes d"
  show "if dr_faults d \<and> sm_address m \<notin> dom (dr_data_map d) then \<not> is_ok (handleMsgFromTagDirectory s m d)
         else case dram_latency d (sm_requester m) DRAM_WRITE of
           Inl e \<Rightarrow> handleMsgFromTagDirectory s m d = Inl e
         | Inr (l, pm) \<Rightarrow> \<exists>d'. handleMsgFromTagDirectory s m d = Inr d' \<and> dram_ok d' \<and> dr_dram_perf_model d' = pm \<and> dr_elapsed d' = dr_elapsed d
             \<and> dram_contents d' = (if dr_faults d then (dram_contents d)(sm_address m := data) else dram_contents d)"
    using w store_ok(2) [OF assms(1) w(3), of "sm_address m"]
    by (auto simp: handleMsgFromTagDirectory_def dram_write [OF assms(1) w(3)] runDramPerfModel_def dram_latency_def write_store_def split: sum.split)
next
  assume "perf_total (dr_dram_perf_model d)"
  then show "\<exists>l pm. dram_latency d r at = Inr (l, pm) \<and> perf_total pm" unfolding dram_latency_def by (rule getAccessLatency_total)
qed

definition example_dram_cfg :: dram_config where
  "example_dram_cfg = \<lparr>dm_type = ''constant'', dm_application_cores = 4, dm_bandwidth = 1000, dm_latency = 45, dm_normal_draws = (\<lambda>_. 0),
     dm_shared_readwrite = False, dm_queue_model = None,
     dm_queue_config = \<lparr>qc_moving_avg_enabled = False, qc_moving_avg_window_size = 64, qc_moving_avg_type = ''median'',
       qc_analytical_model_enabled = True, qc_max_list_size = 100, qc_window_size = 1000\<rparr>,
     dm_env = (\<lambda>_. \<lparr>qe_pow = (\<lambda>p n. p), qe_estimate = (\<lambda>n s e w. e), qe_global_time = 0\<rparr>)\<rparr>"

definition example_dram :: DramCntlr where
  "example_dram = projr (DramCntlr_create example_dram_cfg (Some \<lparr>fim_type = FAULT_TYPE_TOGGLE, fim_injector = FAULT_INJECTOR_NONE\<rparr>) 12 2 0
     (\<lambda>_. [1, 1]))"

lemma example_dram_ok: "dram_ok example_dram" "block_bytes example_dram = 2" "dr_stack example_dram n = [1, 1]" "dr_data_map example_dram = Map.empty"
  "dr_faults example_dram" "perf_total (dr_dram_perf_model example_dram)"
  by (simp_all add: example_dram_def DramCntlr_create_def example_dram_cfg_def createDramPerfModel_def DramPerfModelConstant_create_def
      dram_queue_model_def dram_ok_def perf_total_def injector_quiet_def getFaultInjector_def block_bytes_def)

theorem dram_refines_memory_witness:
  "\<exists>d' pk. handleMsgFromTagDirectory 3 (ShmemMsg_create DRAM_READ_REQ TAG_DIR DRAM 1 64 None 0) example_dram = Inr d'
     \<and> dr_sent d' = dr_sent example_dram @ [pk] \<and> np_receiver pk = ToCore 3 \<and> sm_data_buf (packet_msg pk) = Some [0, 0]"
proof -
  have z: "dram_contents example_dram 64 = [0, 0]" by (simp add: dram_contents_def example_dram_ok numeral_2_eq_2)
  show ?thesis
    using dram_refines_memory [of example_dram "ShmemMsg_create DRAM_READ_REQ TAG_DIR DRAM 1 64 None 0" 3 "[]" 1 DRAM_READ] z
    by (auto simp: example_dram_ok)
qed

end
