(* ===== verification/Prefetcher.thy ===== *)
theory Prefetcher
  imports Sniper_Prelude
begin

text \<open>
  The prefetchers of \<^verbatim>\<open>parametric_dram_directory_msi/\<close>: the linear stride prefetcher of \<^verbatim>\<open>simple_prefetcher.cc\<close>, the global
  history buffer of \<^verbatim>\<open>ghb_prefetcher.cc\<close> and their factory \<^verbatim>\<open>prefetcher.cc\<close>. Addresses and deltas are 64-bit words, a
  delta being read as signed. Reading a vector out of range is a trap; the configuration is an argument.
\<close>

section \<open>The stride prefetcher\<close>

definition PAGE_SIZE :: IntPtr where
  "PAGE_SIZE = 4096"

definition PAGE_MASK :: IntPtr where
  "PAGE_MASK = NOT (PAGE_SIZE - 1)"

record SimplePrefetcher =
  sp_core_id :: core_id_t
  sp_shared_cores :: UInt32
  sp_n_flows :: UInt32
  sp_flows_per_core :: bool
  sp_num_prefetches :: UInt32
  sp_stop_at_page :: bool
  sp_n_flow_next :: UInt32
  sp_prev_address :: "IntPtr list list"

text \<open>What the prefetchers read from the configuration.\<close>

record prefetch_config =
  pf_flows :: UInt32
  pf_flows_per_core :: bool
  pf_num_prefetches :: UInt32
  pf_stop_at_page :: bool
  pf_width :: UInt32
  pf_depth :: UInt32
  pf_ghb_size :: UInt32
  pf_table_size :: UInt32

definition SimplePrefetcher_create :: "prefetch_config \<Rightarrow> core_id_t \<Rightarrow> UInt32 \<Rightarrow> SimplePrefetcher" where
  "SimplePrefetcher_create cfg core_id shared_cores =
     \<lparr>sp_core_id = core_id, sp_shared_cores = shared_cores, sp_n_flows = pf_flows cfg, sp_flows_per_core = pf_flows_per_core cfg,
      sp_num_prefetches = pf_num_prefetches cfg, sp_stop_at_page = pf_stop_at_page cfg, sp_n_flow_next = 0,
      sp_prev_address = replicate (if pf_flows_per_core cfg then unat shared_cores else 1) (replicate (unat (pf_flows cfg)) 0)\<rparr>"

text \<open>The distance of two addresses: \<^verbatim>\<open>abs\<close> of the signed difference.\<close>

definition flow_dist :: "IntPtr \<Rightarrow> IntPtr \<Rightarrow> IntPtr" where
  "flow_dist a b = (if sint (a - b) < 0 then - (a - b) else a - b)"

text \<open>The loop over the flows: \<open>i\<close> is the index, \<open>(n_flow, min_dist)\<close> the best match so far.\<close>

fun nearest_flow :: "IntPtr \<Rightarrow> IntPtr list \<Rightarrow> nat \<Rightarrow> nat \<times> IntPtr \<Rightarrow> nat \<times> IntPtr" where
  "nearest_flow a [] i best = best"
| "nearest_flow a (p # ps) i best =
     nearest_flow a ps (Suc i) (if flow_dist a p < snd best then (i, flow_dist a p) else best)"

definition SimplePrefetcher_getNextAddress :: "IntPtr \<Rightarrow> core_id_t \<Rightarrow> SimplePrefetcher \<Rightarrow> (IntPtr list \<times> SimplePrefetcher) result" where
  "SimplePrefetcher_getNextAddress current_address core_id s =
     (let row = if sp_flows_per_core s then core_id - sp_core_id s else 0
      in if 0 \<le> row \<and> nat row < length (sp_prev_address s)
         then
           bindR (modR (sp_n_flow_next s + 1) (sp_n_flows s)) (\<lambda>n_flow_next.
           let prev_address = sp_prev_address s ! nat row;
               n_flow = fst (nearest_flow current_address prev_address 0 (unat (sp_n_flow_next s), PAGE_SIZE));
               stride = current_address - prev_address ! n_flow;
               s = s\<lparr>sp_n_flow_next := n_flow_next, sp_prev_address := (sp_prev_address s)[nat row := prev_address[n_flow := current_address]]\<rparr>
           in Inr (if stride \<noteq> 0
                   then filter (\<lambda>p. \<not> sp_stop_at_page s \<or> p AND PAGE_MASK = current_address AND PAGE_MASK)
                          (map (\<lambda>i. current_address + of_nat i * stride) [0..<unat (sp_num_prefetches s)])
                   else [], s))
         else Inl (Trap ''std::out_of_range''))"

section \<open>The global history buffer\<close>

definition INVALID_DELTA :: "64 word" where
  "INVALID_DELTA = 0x7FFFFFFFFFFFFFFF"

definition INVALID_INDEX :: UInt32 where
  "INVALID_INDEX = 0xFFFFFFFF"

record GHBEntry =
  ghb_nextIndex :: UInt32
  ghb_delta :: "64 word"
  ghb_generation :: UInt32

record TableEntry =
  te_ghbIndex :: UInt32
  te_delta :: "64 word"
  te_generation :: UInt32

record GhbPrefetcher =
  gp_prefetchWidth :: UInt32
  gp_prefetchDepth :: UInt32
  gp_lastAddress :: IntPtr
  gp_ghbSize :: UInt32
  gp_ghbHead :: UInt32
  gp_generation :: UInt32
  gp_ghb :: "GHBEntry list"
  gp_tableSize :: UInt32
  gp_tableHead :: UInt32
  gp_ghbTable :: "TableEntry list"

definition GhbPrefetcher_create :: "prefetch_config \<Rightarrow> GhbPrefetcher" where
  "GhbPrefetcher_create cfg =
     \<lparr>gp_prefetchWidth = pf_width cfg, gp_prefetchDepth = pf_depth cfg, gp_lastAddress = INVALID_ADDRESS,
      gp_ghbSize = pf_ghb_size cfg, gp_ghbHead = 0, gp_generation = 0,
      gp_ghb = replicate (unat (pf_ghb_size cfg)) \<lparr>ghb_nextIndex = INVALID_INDEX, ghb_delta = INVALID_DELTA, ghb_generation = 0\<rparr>,
      gp_tableSize = pf_table_size cfg, gp_tableHead = 0,
      gp_ghbTable = replicate (unat (pf_table_size cfg)) \<lparr>te_ghbIndex = INVALID_INDEX, te_delta = INVALID_DELTA, te_generation = 0\<rparr>\<rparr>"

definition at32 :: "'a list \<Rightarrow> UInt32 \<Rightarrow> 'a result" where
  "at32 xs i = (if unat i < length xs then Inr (xs ! unat i) else Inl (Trap ''vector out of range''))"

text \<open>
  The search of a delta in the table stops at the first unused entry. The value is the index at which the loop of the code
  stops when it stops at an entry, together with whether that entry holds the delta.
\<close>

definition table_find :: "64 word \<Rightarrow> TableEntry list \<Rightarrow> nat option" where
  "table_find delta tb =
     (case first_index (\<lambda>i. te_delta (tb ! i) = INVALID_DELTA \<or> te_delta (tb ! i) = delta) (length tb) of
        None \<Rightarrow> None
      | Some i \<Rightarrow> if te_delta (tb ! i) = delta then Some i else None)"

text \<open>The addresses along one occurrence of the delta, from \<open>depth\<close> on.\<close>

fun ghb_deltas :: "GhbPrefetcher \<Rightarrow> UInt32 \<Rightarrow> nat \<Rightarrow> nat \<Rightarrow> IntPtr \<Rightarrow> IntPtr list \<Rightarrow> IntPtr list result" where
  "ghb_deltas g ghbIndex 0 depth newAddress prefetchList = Inr prefetchList"
| "ghb_deltas g ghbIndex (Suc left) depth newAddress prefetchList =
     bindR (modR (ghbIndex + of_nat depth) (gp_ghbSize g)) (\<lambda>k.
     bindR (at32 (gp_ghb g) k) (\<lambda>e.
     if ghb_delta e \<noteq> INVALID_DELTA
     then let a = newAddress + ghb_delta e
          in ghb_deltas g ghbIndex left (Suc depth) a (if a \<in> set prefetchList then prefetchList else prefetchList @ [a])
     else Inr prefetchList))"

text \<open>The loop over the occurrences, at most \<^verbatim>\<open>m_prefetchWidth\<close> of them.\<close>

fun ghb_widths :: "GhbPrefetcher \<Rightarrow> IntPtr \<Rightarrow> nat \<Rightarrow> UInt32 \<Rightarrow> IntPtr list \<Rightarrow> IntPtr list result" where
  "ghb_widths g currentAddress 0 ghbIndex prefetchList = Inr prefetchList"
| "ghb_widths g currentAddress (Suc left) ghbIndex prefetchList =
     (if ghbIndex = INVALID_INDEX then Inr prefetchList
      else bindR (ghb_deltas g ghbIndex (unat (gp_prefetchDepth g)) 0 currentAddress prefetchList) (\<lambda>prefetchList.
           bindR (at32 (gp_ghb g) ghbIndex) (\<lambda>e.
           let nextIndex = ghb_nextIndex e
           in ghb_widths g currentAddress left
                (if (nextIndex > ghbIndex \<or> ghbIndex > gp_ghbHead g) \<and> nextIndex < gp_ghbHead g then INVALID_INDEX else nextIndex)
                prefetchList)))"

text \<open>The addresses predicted for a delta.\<close>

definition ghb_predict :: "IntPtr \<Rightarrow> 64 word \<Rightarrow> GhbPrefetcher \<Rightarrow> IntPtr list result" where
  "ghb_predict currentAddress delta g =
     (case table_find delta (gp_ghbTable g) of
        None \<Rightarrow> Inr []
      | Some i \<Rightarrow>
          (let t = gp_ghbTable g ! i
           in bindR (at32 (gp_ghb g) (te_ghbIndex t)) (\<lambda>e.
              if te_generation t = ghb_generation e
              then ghb_widths g currentAddress (unat (gp_prefetchWidth g)) (te_ghbIndex t) []
              else Inr [])))"

text \<open>The table entry of the previous delta is made to point to the new element of the buffer.\<close>

definition ghb_link :: "64 word \<Rightarrow> GhbPrefetcher \<Rightarrow> GhbPrefetcher result" where
  "ghb_link prevDelta g =
     (case table_find prevDelta (gp_ghbTable g) of
        Some i \<Rightarrow>
          (let t = gp_ghbTable g ! i
           in bindR (at32 (gp_ghb g) (te_ghbIndex t)) (\<lambda>e.
              let h = unat (gp_ghbHead g);
                  next_i = if te_generation t = ghb_generation e then te_ghbIndex t else INVALID_INDEX
              in Inr (g\<lparr>gp_ghb := (gp_ghb g)[h := (gp_ghb g ! h)\<lparr>ghb_nextIndex := next_i\<rparr>],
                        gp_ghbTable := (gp_ghbTable g)[i := t\<lparr>te_ghbIndex := gp_ghbHead g, te_generation := gp_generation g\<rparr>]\<rparr>)))
      | None \<Rightarrow>
          bindR (at32 (gp_ghbTable g) (gp_tableHead g)) (\<lambda>_.
          bindR (modR (gp_tableHead g + 1) (gp_tableSize g)) (\<lambda>tableHead.
          Inr (g\<lparr>gp_ghbTable := (gp_ghbTable g)[unat (gp_tableHead g) :=
                    \<lparr>te_ghbIndex = gp_ghbHead g, te_delta = prevDelta, te_generation = gp_generation g\<rparr>],
                 gp_tableHead := tableHead\<rparr>))))"

text \<open>The new delta enters the buffer at its head.\<close>

definition ghb_record :: "64 word \<Rightarrow> GhbPrefetcher \<Rightarrow> GhbPrefetcher result" where
  "ghb_record delta g =
     bindR (at32 (gp_ghb g) (gp_ghbHead g)) (\<lambda>_.
     let g = g\<lparr>gp_ghb := (gp_ghb g)[unat (gp_ghbHead g) :=
                 \<lparr>ghb_nextIndex = INVALID_INDEX, ghb_delta = delta, ghb_generation = gp_generation g\<rparr>]\<rparr>
     in bindR (at32 (gp_ghb g) (if gp_ghbHead g > 0 then gp_ghbHead g - 1 else gp_ghbSize g - 1)) (\<lambda>prev.
        bindR (if ghb_delta prev \<noteq> INVALID_DELTA then ghb_link (ghb_delta prev) g else Inr g) (\<lambda>g.
        let g = g\<lparr>gp_ghbHead := gp_ghbHead g + 1\<rparr>
        in Inr (if gp_ghbHead g = gp_ghbSize g then g\<lparr>gp_ghbHead := 0, gp_generation := (gp_generation g + 1) mod 4\<rparr> else g))))"

definition GhbPrefetcher_getNextAddress :: "IntPtr \<Rightarrow> GhbPrefetcher \<Rightarrow> (IntPtr list \<times> GhbPrefetcher) result" where
  "GhbPrefetcher_getNextAddress currentAddress g =
     (if gp_lastAddress g = INVALID_ADDRESS then Inr ([], g\<lparr>gp_lastAddress := currentAddress\<rparr>)
      else let delta = currentAddress - gp_lastAddress g; g = g\<lparr>gp_lastAddress := currentAddress\<rparr>
           in bindR (ghb_predict currentAddress delta g) (\<lambda>prefetchList.
              bindR (ghb_record delta g) (\<lambda>g. Inr (prefetchList, g))))"

section \<open>The factory\<close>

datatype Prefetcher = PF_Simple SimplePrefetcher | PF_Ghb GhbPrefetcher

definition createPrefetcher :: "prefetch_config \<Rightarrow> string \<Rightarrow> core_id_t \<Rightarrow> UInt32 \<Rightarrow> Prefetcher option result" where
  "createPrefetcher cfg type core_id shared_cores =
     (if type = ''none'' then Inr None
      else if type = ''simple'' then Inr (Some (PF_Simple (SimplePrefetcher_create cfg core_id shared_cores)))
      else if type = ''ghb'' then Inr (Some (PF_Ghb (GhbPrefetcher_create cfg)))
      else Inl (LogError ''Invalid prefetcher type''))"

definition getNextAddress :: "IntPtr \<Rightarrow> core_id_t \<Rightarrow> Prefetcher \<Rightarrow> (IntPtr list \<times> Prefetcher) result" where
  "getNextAddress current_address core_id p =
     (case p of
        PF_Simple s \<Rightarrow> bindR (SimplePrefetcher_getNextAddress current_address core_id s) (\<lambda>(l, s). Inr (l, PF_Simple s))
      | PF_Ghb g \<Rightarrow> bindR (GhbPrefetcher_getNextAddress current_address g) (\<lambda>(l, g). Inr (l, PF_Ghb g)))"

section \<open>The global history buffer stays within its bounds\<close>

definition ghb_ok :: "GhbPrefetcher \<Rightarrow> bool" where
  "ghb_ok g \<longleftrightarrow> length (gp_ghb g) = unat (gp_ghbSize g) \<and> length (gp_ghbTable g) = unat (gp_tableSize g)
     \<and> gp_ghbHead g < gp_ghbSize g \<and> gp_tableHead g < gp_tableSize g
     \<and> (\<forall>t\<in>set (gp_ghbTable g). te_delta t \<noteq> INVALID_DELTA \<longrightarrow> te_ghbIndex t < gp_ghbSize g)
     \<and> (\<forall>e\<in>set (gp_ghb g). ghb_nextIndex e = INVALID_INDEX \<or> ghb_nextIndex e < gp_ghbSize g)"

lemma at32_ok: "length xs = unat n \<Longrightarrow> i < n \<Longrightarrow> at32 xs i = Inr (xs ! unat i)"
  by (simp add: at32_def word_less_nat_alt)

lemma ghb_ok_lastAddress [simp]: "ghb_ok (g\<lparr>gp_lastAddress := a\<rparr>) = ghb_ok g"
  by (simp add: ghb_ok_def)

lemma table_find_Some:
  "table_find delta tb = Some i \<Longrightarrow> i < length tb \<and> te_delta (tb ! i) = delta"
  by (auto simp: table_find_def first_index_def find_Some_iff split: option.splits if_splits)

lemma ghb_deltas_bounded:
  assumes "ghb_ok g" "distinct l"
  shows "\<exists>l'. ghb_deltas g k n d a l = Inr l' \<and> distinct l' \<and> length l' \<le> length l + n"
  using assms(2)
proof (induction n arbitrary: d a l)
  case (Suc n)
  have z: "gp_ghbSize g \<noteq> 0" using assms(1) by (auto simp: ghb_ok_def)
  have len: "length (gp_ghb g) = unat (gp_ghbSize g)" using assms(1) by (simp add: ghb_ok_def)
  have "(k + of_nat d) mod gp_ghbSize g < gp_ghbSize g" using z by (simp add: word_mod_less_divisor word_neq_0_conv)
  note e = at32_ok [OF len this]
  let ?e = "gp_ghb g ! unat ((k + of_nat d) mod gp_ghbSize g)"
  have step: "ghb_deltas g k (Suc n) d a l =
    (if ghb_delta ?e \<noteq> INVALID_DELTA
     then ghb_deltas g k n (Suc d) (a + ghb_delta ?e) (if a + ghb_delta ?e \<in> set l then l else l @ [a + ghb_delta ?e]) else Inr l)"
    using z by (simp add: modR_def e Let_def)
  have "distinct (if a + ghb_delta ?e \<in> set l then l else l @ [a + ghb_delta ?e])" using Suc.prems by simp
  from Suc.IH [OF this, of "Suc d" "a + ghb_delta ?e"] show ?case
    unfolding step using Suc.prems by (cases "ghb_delta ?e = INVALID_DELTA") (force split: if_splits)+
qed simp

lemma ghb_widths_bounded:
  assumes "ghb_ok g" "distinct l" "k = INVALID_INDEX \<or> k < gp_ghbSize g"
  shows "\<exists>l'. ghb_widths g a n k l = Inr l' \<and> distinct l' \<and> length l' \<le> length l + n * unat (gp_prefetchDepth g)"
  using assms(2,3)
proof (induction n arbitrary: k l)
  case (Suc n)
  show ?case
  proof (cases "k = INVALID_INDEX")
    case False
    then have k: "k < gp_ghbSize g" using Suc.prems by simp
    have len: "length (gp_ghb g) = unat (gp_ghbSize g)" using assms(1) by (simp add: ghb_ok_def)
    note e = at32_ok [OF len k]
    have nx: "ghb_nextIndex (gp_ghb g ! unat k) = INVALID_INDEX \<or> ghb_nextIndex (gp_ghb g ! unat k) < gp_ghbSize g"
      using assms(1) k len by (auto simp: ghb_ok_def word_less_nat_alt)
    obtain l1 where l1: "ghb_deltas g k (unat (gp_prefetchDepth g)) 0 a l = Inr l1" "distinct l1"
      "length l1 \<le> length l + unat (gp_prefetchDepth g)" using ghb_deltas_bounded [OF assms(1) Suc.prems(1)] by blast
    define k' where "k' = (if (ghb_nextIndex (gp_ghb g ! unat k) > k \<or> k > gp_ghbHead g) \<and> ghb_nextIndex (gp_ghb g ! unat k) < gp_ghbHead g
      then INVALID_INDEX else ghb_nextIndex (gp_ghb g ! unat k))"
    have "k' = INVALID_INDEX \<or> k' < gp_ghbSize g" using nx by (auto simp: k'_def)
    from Suc.IH [OF l1(2) this] show ?thesis
      using l1(3) False by (fastforce simp: l1(1) e Let_def k'_def [symmetric])
  qed (use Suc.prems in simp)
qed simp

lemma ghb_predict_bounded:
  assumes "ghb_ok g" "delta \<noteq> INVALID_DELTA"
  shows "\<exists>l. ghb_predict a delta g = Inr l \<and> distinct l \<and> length l \<le> unat (gp_prefetchWidth g) * unat (gp_prefetchDepth g)"
proof (cases "table_find delta (gp_ghbTable g)")
  case (Some i)
  then have i: "i < length (gp_ghbTable g)" "te_delta (gp_ghbTable g ! i) = delta" using table_find_Some by blast+
  then have k: "te_ghbIndex (gp_ghbTable g ! i) < gp_ghbSize g" using assms by (auto simp: ghb_ok_def)
  have len: "length (gp_ghb g) = unat (gp_ghbSize g)" using assms(1) by (simp add: ghb_ok_def)
  show ?thesis
    using ghb_widths_bounded [OF assms(1), of "[]" "te_ghbIndex (gp_ghbTable g ! i)"] k
    by (simp add: ghb_predict_def Some at32_ok [OF len k] Let_def)
qed (simp add: ghb_predict_def)

lemma ghb_ok_set:
  assumes "ghb_ok g" "ghb_nextIndex e = INVALID_INDEX \<or> ghb_nextIndex e < gp_ghbSize g"
  shows "ghb_ok (g\<lparr>gp_ghb := (gp_ghb g)[i := e]\<rparr>)"
  using assms set_update_subset_insert [of "gp_ghb g" i e] by (auto simp: ghb_ok_def)

lemma ghb_ok_table:
  assumes "ghb_ok g" "te_ghbIndex t < gp_ghbSize g"
  shows "ghb_ok (g\<lparr>gp_ghbTable := (gp_ghbTable g)[i := t]\<rparr>)"
  using assms set_update_subset_insert [of "gp_ghbTable g" i t] by (auto simp: ghb_ok_def)

lemma ghb_link_ok:
  assumes "ghb_ok g" "prevDelta \<noteq> INVALID_DELTA"
  shows "\<exists>g'. ghb_link prevDelta g = Inr g' \<and> ghb_ok g' \<and> gp_ghbSize g' = gp_ghbSize g \<and> gp_ghbHead g' = gp_ghbHead g"
proof -
  have len: "length (gp_ghb g) = unat (gp_ghbSize g)" and tlen: "length (gp_ghbTable g) = unat (gp_tableSize g)"
    and h: "gp_ghbHead g < gp_ghbSize g" and th: "gp_tableHead g < gp_tableSize g"
    using assms(1) by (simp_all add: ghb_ok_def)
  show ?thesis
  proof (cases "table_find prevDelta (gp_ghbTable g)")
    case (Some i)
    let ?t = "gp_ghbTable g ! i"
    have i: "i < length (gp_ghbTable g)" "te_delta ?t = prevDelta" using table_find_Some [OF Some] by blast+
    then have k: "te_ghbIndex ?t < gp_ghbSize g" using assms by (auto simp: ghb_ok_def)
    let ?e = "\<lambda>n. (gp_ghb g ! unat (gp_ghbHead g))\<lparr>ghb_nextIndex := n\<rparr>"
    have "ghb_ok (g\<lparr>gp_ghb := (gp_ghb g)[unat (gp_ghbHead g) := ?e n]\<rparr>)" if "n = INVALID_INDEX \<or> n < gp_ghbSize g" for n
      using ghb_ok_set [OF assms(1)] that by simp
    from ghb_ok_table [OF this, of _ "?t\<lparr>te_ghbIndex := gp_ghbHead g, te_generation := gp_generation g\<rparr>" i]
    show ?thesis using h k by (simp add: ghb_link_def Some at32_ok [OF len k] Let_def)
  next
    case None
    have "gp_tableSize g \<noteq> 0" using th by auto
    moreover from this have "(gp_tableHead g + 1) mod gp_tableSize g < gp_tableSize g"
      by (simp add: word_mod_less_divisor word_neq_0_conv)
    ultimately show ?thesis
      using ghb_ok_table [OF assms(1), of "\<lparr>te_ghbIndex = gp_ghbHead g, te_delta = prevDelta, te_generation = gp_generation g\<rparr>" "unat (gp_tableHead g)"] h
      by (simp add: ghb_link_def None at32_ok [OF tlen th] modR_def ghb_ok_def)
  qed
qed

lemma ghb_record_ok:
  assumes "ghb_ok g"
  shows "\<exists>g'. ghb_record delta g = Inr g' \<and> ghb_ok g'"
proof -
  define g1 where "g1 = g\<lparr>gp_ghb := (gp_ghb g)[unat (gp_ghbHead g) :=
    \<lparr>ghb_nextIndex = INVALID_INDEX, ghb_delta = delta, ghb_generation = gp_generation g\<rparr>]\<rparr>"
  have ok1: "ghb_ok g1" using ghb_ok_set [OF assms] by (simp add: g1_def)
  have same: "gp_ghbHead g1 = gp_ghbHead g" "gp_ghbSize g1 = gp_ghbSize g" by (simp_all add: g1_def)
  have h: "gp_ghbHead g < gp_ghbSize g" and len: "length (gp_ghb g) = unat (gp_ghbSize g)" using assms by (simp_all add: ghb_ok_def)
  define p where "p = (if gp_ghbHead g > 0 then gp_ghbHead g - 1 else gp_ghbSize g - 1)"
  have p: "p < gp_ghbSize g"
  proof -
    have "0 < gp_ghbSize g" using h by (simp add: word_gt_0) auto
    then show ?thesis using h by (auto simp: p_def word_less_nat_alt unat_sub_if' word_le_nat_alt)
  qed
  have len1: "length (gp_ghb g1) = unat (gp_ghbSize g)" using ok1 same by (simp add: ghb_ok_def)
  define d where "d = ghb_delta (gp_ghb g1 ! unat p)"
  obtain g2 where g2: "(if d \<noteq> INVALID_DELTA then ghb_link d g1 else Inr g1) = Inr g2" "ghb_ok g2"
    "gp_ghbSize g2 = gp_ghbSize g" "gp_ghbHead g2 = gp_ghbHead g"
    using ghb_link_ok [OF ok1, of d] ok1 same by (cases "d = INVALID_DELTA") auto
  have "gp_ghbHead g + 1 < gp_ghbSize g" if "gp_ghbHead g + 1 \<noteq> gp_ghbSize g"
    using that h by (metis inc_le order_le_imp_less_or_eq)
  moreover have "0 < gp_ghbSize g" using h by (simp add: word_gt_0) auto
  ultimately have fin: "ghb_ok (let g = g2\<lparr>gp_ghbHead := gp_ghbHead g2 + 1\<rparr>
        in if gp_ghbHead g = gp_ghbSize g then g\<lparr>gp_ghbHead := 0, gp_generation := (gp_generation g + 1) mod 4\<rparr> else g)"
    using g2(2-4) by (auto simp: ghb_ok_def Let_def)
  have "ghb_record delta g = bindR (if d \<noteq> INVALID_DELTA then ghb_link d g1 else Inr g1) (\<lambda>g.
        let g = g\<lparr>gp_ghbHead := gp_ghbHead g + 1\<rparr>
        in Inr (if gp_ghbHead g = gp_ghbSize g then g\<lparr>gp_ghbHead := 0, gp_generation := (gp_generation g + 1) mod 4\<rparr> else g))"
    unfolding ghb_record_def at32_ok [OF len h] bindR_Inr
    by (simp only: Let_def g1_def [symmetric] same p_def [symmetric] at32_ok [OF len1 p] bindR_Inr d_def [symmetric])
  then show ?thesis unfolding g2(1) bindR_Inr using fin by (metis (no_types))
qed

text \<open>
  On a well-formed history buffer an access whose delta to the previous address is not the reserved value always returns: no
  index leaves its vector, the addresses to prefetch are distinct, at most width times depth of them, and the buffer stays well formed.
\<close>

theorem ghb_prefetches_in_bounds:
  assumes "ghb_ok g" "gp_lastAddress g \<noteq> INVALID_ADDRESS \<longrightarrow> a - gp_lastAddress g \<noteq> INVALID_DELTA"
  shows "\<exists>l g'. GhbPrefetcher_getNextAddress a g = Inr (l, g') \<and> ghb_ok g' \<and> distinct l
           \<and> length l \<le> unat (gp_prefetchWidth g) * unat (gp_prefetchDepth g)"
proof (cases "gp_lastAddress g = INVALID_ADDRESS")
  case False
  have ok: "ghb_ok (g\<lparr>gp_lastAddress := a\<rparr>)" using assms(1) by simp
  then show ?thesis
    using ghb_predict_bounded [OF ok, of "a - gp_lastAddress g" a] ghb_record_ok [OF ok, of "a - gp_lastAddress g"] False assms(2)
    by (auto simp: GhbPrefetcher_getNextAddress_def Let_def)
qed (use assms in \<open>simp add: GhbPrefetcher_getNextAddress_def\<close>)

definition example_ghb :: GhbPrefetcher where
  "example_ghb = (GhbPrefetcher_create \<lparr>pf_flows = 1, pf_flows_per_core = False, pf_num_prefetches = 4, pf_stop_at_page = True,
     pf_width = 2, pf_depth = 2, pf_ghb_size = 4, pf_table_size = 4\<rparr>)\<lparr>gp_lastAddress := 0x1000\<rparr>"

theorem ghb_prefetches_in_bounds_witness:
  "\<exists>l g'. GhbPrefetcher_getNextAddress 0x1040 example_ghb = Inr (l, g') \<and> ghb_ok g' \<and> distinct l
     \<and> length l \<le> unat (gp_prefetchWidth example_ghb) * unat (gp_prefetchDepth example_ghb)"
  by (rule ghb_prefetches_in_bounds)
    (auto simp: example_ghb_def GhbPrefetcher_create_def ghb_ok_def INVALID_DELTA_def)

text \<open>
  The reserved delta is not excluded by the code: two accesses at this distance make the search stop at an unused
  table entry, whose index lies outside the buffer.
\<close>

lemma ghb_reserved_delta_traps:
  "\<not> is_ok (GhbPrefetcher_getNextAddress (0x1000 + INVALID_DELTA) example_ghb)"
  by (simp add: GhbPrefetcher_getNextAddress_def example_ghb_def GhbPrefetcher_create_def INVALID_DELTA_def INVALID_INDEX_def
      ghb_predict_def table_find_def first_index_def upt_rec at32_def)

section \<open>The stride prefetcher follows a stream\<close>

lemma nearest_flow_none: "\<forall>p\<in>set ps. \<not> flow_dist a p < snd best \<Longrightarrow> nearest_flow a ps i best = best"
  by (induction ps arbitrary: i) auto

lemma nearest_flow_unique:
  assumes "f < length ps" "flow_dist a (ps ! f) < snd best"
    "\<And>j. j < length ps \<Longrightarrow> j \<noteq> f \<Longrightarrow> flow_dist a (ps ! f) < flow_dist a (ps ! j)"
  shows "nearest_flow a ps i best = (i + f, flow_dist a (ps ! f))"
  using assms
proof (induction ps arbitrary: f i best)
  case (Cons p ps)
  show ?case
  proof (cases f)
    case 0
    have "\<not> flow_dist a x < flow_dist a p" if x: "x \<in> set ps" for x
    proof -
      obtain j where "j < length ps" "x = ps ! j" using x by (metis in_set_conv_nth)
      then show ?thesis using Cons.prems(3) [of "Suc j"] 0 by simp
    qed
    then show ?thesis using Cons.prems 0 nearest_flow_none [of ps a "(i, flow_dist a p)"] by simp
  next
    case (Suc f')
    have "flow_dist a (ps ! f') < snd (if flow_dist a p < snd best then (i, flow_dist a p) else best)"
      using Cons.prems(2) Cons.prems(3) [of 0] Suc by auto
    moreover have "flow_dist a (ps ! f') < flow_dist a (ps ! j)" if "j < length ps" "j \<noteq> f'" for j
      using Cons.prems(3) [of "Suc j"] that Suc by simp
    ultimately show ?thesis using Cons.IH [of f'] Cons.prems(1) Suc by simp
  qed
qed simp

text \<open>
  A flow whose last address is strictly nearest to the new one, and less than a page away, is continued: the addresses to prefetch are the new
  address and its successors at the same stride, those of its page when prefetching stops at pages, and only this flow is
  updated, so that the next address of the stream continues it in the same way.
\<close>

theorem simple_prefetch_follows_stream:
  assumes "\<not> sp_flows_per_core s" "sp_prev_address s = [prev]" "sp_n_flows s \<noteq> 0"
    "f < length prev" "prev ! f = a" "stride \<noteq> 0" "flow_dist (a + stride) a < PAGE_SIZE"
    "\<forall>j<length prev. j \<noteq> f \<longrightarrow> flow_dist (a + stride) a < flow_dist (a + stride) (prev ! j)"
  shows "SimplePrefetcher_getNextAddress (a + stride) core s =
    Inr (filter (\<lambda>p. \<not> sp_stop_at_page s \<or> p AND PAGE_MASK = (a + stride) AND PAGE_MASK)
           (map (\<lambda>i. a + of_nat (Suc i) * stride) [0..<unat (sp_num_prefetches s)]),
         s\<lparr>sp_n_flow_next := (sp_n_flow_next s + 1) mod sp_n_flows s, sp_prev_address := [prev[f := a + stride]]\<rparr>)"
proof -
  have "nearest_flow (a + stride) prev 0 (unat (sp_n_flow_next s), PAGE_SIZE) = (0 + f, flow_dist (a + stride) (prev ! f))"
    by (rule nearest_flow_unique) (use assms in auto)
  moreover have "(\<lambda>i. a + stride + of_nat i * stride) = (\<lambda>i. a + of_nat (Suc i) * stride)"
    by (simp add: algebra_simps fun_eq_iff)
  ultimately show ?thesis using assms
    by (simp add: SimplePrefetcher_getNextAddress_def modR_def Let_def del: of_nat_Suc fun_eq_iff)
qed

theorem simple_prefetch_follows_stream_witness:
  "SimplePrefetcher_getNextAddress (0x2000 + 0x40) 0
     \<lparr>sp_core_id = 0, sp_shared_cores = 1, sp_n_flows = 2, sp_flows_per_core = False, sp_num_prefetches = 3, sp_stop_at_page = True,
      sp_n_flow_next = 1, sp_prev_address = [[0x90000, 0x2000]]\<rparr> =
   Inr ([0x2040, 0x2080, 0x20C0],
     \<lparr>sp_core_id = 0, sp_shared_cores = 1, sp_n_flows = 2, sp_flows_per_core = False, sp_num_prefetches = 3, sp_stop_at_page = True,
      sp_n_flow_next = 0, sp_prev_address = [[0x90000, 0x2040]]\<rparr>)"
  by (subst simple_prefetch_follows_stream [where prev = "[0x90000, 0x2000]" and f = 1])
    (auto simp: PAGE_SIZE_def PAGE_MASK_def flow_dist_def less_Suc_eq upt_rec)

end
