(* ===== verification/Shmem_Perf.thy ===== *)
theory Shmem_Perf
  imports Subsecond_Time
begin

text \<open>
  \<^verbatim>\<open>ShmemPerf\<close> of \<^verbatim>\<open>pr_l1_pr_l2_dram_directory_msi/shmem_perf.cc\<close>: the time of a memory request attributed to the
  components of the memory system. A pointer to it is an option; using the NULL pointer is a trap.
\<close>

datatype shmem_times_type_t = NOC_BASE | NOC_QUEUE | TD_ACCESS | INV_IMBALANCE | REMOTE_CACHE_INV | REMOTE_CACHE_FWD
  | REMOTE_CACHE_WB | PENDING_HIT | NUCA_TAGS | NUCA_QUEUE | NUCA_BUS | NUCA_DATA | SP_DRAM_CACHE | DRAM_CACHE_TAGS
  | DRAM_CACHE_QUEUE | DRAM_CACHE_BUS | DRAM_CACHE_DATA | SP_DRAM | DRAM_QUEUE | DRAM_BUS | DRAM_DEVICE | SP_UNKNOWN

text \<open>The values of the enumeration in their order.\<close>

definition shmem_times :: "shmem_times_type_t list" where
  "shmem_times = [NOC_BASE, NOC_QUEUE, TD_ACCESS, INV_IMBALANCE, REMOTE_CACHE_INV, REMOTE_CACHE_FWD, REMOTE_CACHE_WB,
     PENDING_HIT, NUCA_TAGS, NUCA_QUEUE, NUCA_BUS, NUCA_DATA, SP_DRAM_CACHE, DRAM_CACHE_TAGS, DRAM_CACHE_QUEUE, DRAM_CACHE_BUS,
     DRAM_CACHE_DATA, SP_DRAM, DRAM_QUEUE, DRAM_BUS, DRAM_DEVICE, SP_UNKNOWN]"

definition shmem_reason_names :: "string list" where
  "shmem_reason_names = [''noc-base'', ''noc-queue'', ''td-access'', ''inv-imbalance'', ''remote-cache-inv'', ''remote-cache-fwd'',
     ''remote-cache-wb'', ''pending-hit'', ''nuca-tags'', ''nuca-bus'', ''nuca-queue'', ''nuca-data'', ''dram-cache'', ''dram-cache-tags'',
     ''dram-cache-queue'', ''dram-cache-bus'', ''dram-cache-data'', ''dram'', ''dram-queue'', ''dram-bus'', ''dram-device'', ''unknown'']"

definition ShmemReasonString :: "shmem_times_type_t \<Rightarrow> string" where
  "ShmemReasonString reason = the (map_of (zip shmem_times shmem_reason_names) reason)"

record ShmemPerf =
  spf_core_id :: core_id_t
  spf_time_begin :: SubsecondTime
  spf_time_last :: SubsecondTime
  spf_times :: "shmem_times_type_t \<Rightarrow> SubsecondTime"

definition ShmemPerf_create :: ShmemPerf where
  "ShmemPerf_create = \<lparr>spf_core_id = INVALID_CORE_ID, spf_time_begin = 0, spf_time_last = 0, spf_times = (\<lambda>_. 0)\<rparr>"

definition ShmemPerf_disable :: "ShmemPerf \<Rightarrow> ShmemPerf" where
  "ShmemPerf_disable p = p\<lparr>spf_time_last := MaxTime\<rparr>"

definition ShmemPerf_reset :: "SubsecondTime \<Rightarrow> core_id_t \<Rightarrow> ShmemPerf \<Rightarrow> ShmemPerf" where
  "ShmemPerf_reset time core_id p = \<lparr>spf_core_id = core_id, spf_time_begin = time, spf_time_last = time, spf_times = (\<lambda>_. 0)\<rparr>"

definition ShmemPerf_updateTime :: "SubsecondTime \<Rightarrow> shmem_times_type_t \<Rightarrow> ShmemPerf \<Rightarrow> ShmemPerf" where
  "ShmemPerf_updateTime time reason p =
     (if time > spf_time_last p
      then p\<lparr>spf_times := (spf_times p)(reason := spf_times p reason + (time - spf_time_last p)), spf_time_last := time\<rparr>
      else p)"

definition ShmemPerf_updatePacket :: "SubsecondTime \<Rightarrow> SubsecondTime \<Rightarrow> ShmemPerf \<Rightarrow> ShmemPerf" where
  "ShmemPerf_updatePacket time queue_delay p =
     (if time > spf_time_last p
      then ShmemPerf_updateTime time NOC_BASE
             (p\<lparr>spf_times := (spf_times p)(NOC_QUEUE := spf_times p NOC_QUEUE + queue_delay), spf_time_last := spf_time_last p + queue_delay\<rparr>)
      else p)"

definition ShmemPerf_add :: "ShmemPerf \<Rightarrow> ShmemPerf \<Rightarrow> ShmemPerf" where
  "ShmemPerf_add perf p = p\<lparr>spf_times := (\<lambda>r. spf_times p r + spf_times perf r)\<rparr>"

text \<open>A call through a pointer.\<close>

definition perf_update :: "SubsecondTime \<Rightarrow> shmem_times_type_t \<Rightarrow> ShmemPerf option \<Rightarrow> ShmemPerf option result" where
  "perf_update time reason perf =
     (case perf of None \<Rightarrow> Inl (Trap ''null pointer'') | Some p \<Rightarrow> Inr (Some (ShmemPerf_updateTime time reason p)))"

lemma perf_update_null [simp]: "perf_update t r None = Inl (Trap ''null pointer'')"
  by (simp add: perf_update_def)

section \<open>Every instant is attributed once\<close>

instantiation shmem_times_type_t :: finite
begin

instance
  by standard (rule finite_UNIV_set [of shmem_times], case_tac x, simp_all add: shmem_times_def)

end

definition total_time :: "ShmemPerf \<Rightarrow> SubsecondTime" where
  "total_time p = (\<Sum>r\<in>UNIV. spf_times p r)"

lemma total_time_upd:
  "(\<Sum>s\<in>UNIV. ((f :: shmem_times_type_t \<Rightarrow> SubsecondTime)(r := f r + d)) s) = (\<Sum>s\<in>UNIV. f s) + d"
  by (rule sum_fun_upd)

text \<open>The calls a request can make on its statistics.\<close>

datatype perf_event = UpdateTime SubsecondTime shmem_times_type_t | UpdatePacket SubsecondTime SubsecondTime

primrec perf_step :: "perf_event \<Rightarrow> ShmemPerf \<Rightarrow> ShmemPerf" where
  "perf_step (UpdateTime t r) p = ShmemPerf_updateTime t r p"
| "perf_step (UpdatePacket t q) p = ShmemPerf_updatePacket t q p"

definition balanced :: "ShmemPerf \<Rightarrow> bool" where
  "balanced p = (total_time p = spf_time_last p - spf_time_begin p)"

lemma balanced_advance:
  assumes "balanced p"
  shows "balanced (p\<lparr>spf_times := (spf_times p)(r := spf_times p r + d), spf_time_last := spf_time_last p + d\<rparr>)"
proof -
  let ?q = "p\<lparr>spf_times := (spf_times p)(r := spf_times p r + d), spf_time_last := spf_time_last p + d\<rparr>"
  have "total_time ?q = total_time p + d" using total_time_upd [of "spf_times p" r d] by (simp add: total_time_def)
  then show ?thesis using assms by (simp add: balanced_def algebra_simps)
qed

lemma updateTime_balanced:
  "balanced p \<Longrightarrow> balanced (ShmemPerf_updateTime t r p) \<and> spf_time_begin (ShmemPerf_updateTime t r p) = spf_time_begin p"
  using balanced_advance [where p = p and r = r and d = "t - spf_time_last p"] by (simp add: ShmemPerf_updateTime_def)

lemma perf_step_balance:
  "balanced p \<Longrightarrow> balanced (perf_step e p) \<and> spf_time_begin (perf_step e p) = spf_time_begin p"
  by (cases e) (simp_all add: updateTime_balanced ShmemPerf_updatePacket_def balanced_advance)

text \<open>
  From a reset on, whatever sequence of updates a request makes, the times of all components add up to the time from
  the start of the request to its last update: no instant is counted twice or lost.
\<close>

theorem shmem_perf_accounts_all_time:
  "total_time (fold perf_step es (ShmemPerf_reset t core p)) = spf_time_last (fold perf_step es (ShmemPerf_reset t core p)) - t"
proof -
  have "balanced q \<Longrightarrow> balanced (fold perf_step es q) \<and> spf_time_begin (fold perf_step es q) = spf_time_begin q" for q
    by (induction es arbitrary: q) (simp_all add: perf_step_balance)
  from this [of "ShmemPerf_reset t core p"] show ?thesis by (simp add: balanced_def total_time_def ShmemPerf_reset_def)
qed

text \<open>The table of names has the entries of the NUCA queue and of the NUCA bus exchanged.\<close>

lemma nuca_names_swapped: "ShmemReasonString NUCA_QUEUE = ''nuca-bus''" "ShmemReasonString NUCA_BUS = ''nuca-queue''"
  by (simp_all add: ShmemReasonString_def shmem_times_def shmem_reason_names_def)

end
