(* ===== verification/Dram_Cache.thy ===== *)
theory Dram_Cache
  imports Dram_Cntlr Nuca_Cache Prefetcher Shmem_Perf
begin

text \<open>
  The DRAM cache of \<^verbatim>\<open>dram/dram_cache.cc\<close>, which sits in front of a DRAM controller and offers the same two operations.
  Buffers that the code leaves uninitialised come from \<open>dca_stack\<close>; what the queue model takes from outside is \<open>dca_queue_env\<close>.
  The pointer to the \<^verbatim>\<open>ShmemPerf\<close> of a request is an option. The code passes NULL for insertions and for writes and uses the pointer
  without a test; the last part of the theory shows what follows.
\<close>

section \<open>State and operations\<close>

record DramCache =
  dca_core_id :: core_id_t
  dca_cache_block_size :: UInt32
  dca_data_access_time :: SubsecondTime
  dca_tags_access_time :: SubsecondTime
  dca_data_array_bandwidth :: UInt64
  dca_dram_cntlr :: DramCntlr
  dca_cache :: Cache
  dca_queue_model :: "QueueModel option"
  dca_prefetcher :: "Prefetcher option"
  dca_prefetch_on_prefetch_hit :: bool
  dca_prefetch_mshr :: ContentionModel
  dca_reads :: UInt64
  dca_writes :: UInt64
  dca_read_misses :: UInt64
  dca_write_misses :: UInt64
  dca_hits_prefetch :: UInt64
  dca_prefetches :: UInt64
  dca_prefetch_mshr_delay :: SubsecondTime
  dca_queue_env :: "nat \<Rightarrow> queue_env"
  dca_queue_calls :: nat
  dca_stack :: "nat \<Rightarrow> UInt8 list"
  dca_frames :: nat

text \<open>The entries \<^verbatim>\<open>perf_model/dram/cache/*\<close> of the configuration, times already converted.\<close>

record dram_cache_config =
  dk_cache_size :: UInt32
  dk_associativity :: UInt32
  dk_data_access_time :: SubsecondTime
  dk_tags_access_time :: SubsecondTime
  dk_bandwidth :: UInt64
  dk_replacement_policy :: string
  dk_address_hash :: string
  dk_queue_model :: "string option"
  dk_queue_config :: queue_config
  dk_prefetcher :: string
  dk_prefetch_config :: prefetch_config
  dk_prefetch_on_prefetch_hit :: bool
  dk_repl_config :: repl_config

definition DramCache_create ::
  "dram_cache_config \<Rightarrow> core_id_t \<Rightarrow> AddressHomeLookup option \<Rightarrow> UInt32 \<Rightarrow> DramCntlr \<Rightarrow> (nat \<Rightarrow> queue_env) \<Rightarrow> (nat \<Rightarrow> UInt8 list) \<Rightarrow> DramCache result" where
  "DramCache_create cfg core_id home_lookup cache_block_size dram_cntlr env stack =
     (if dk_associativity cfg * cache_block_size = 0 then Inl (Trap ''division by zero'')
      else let num_sets = 1024 * dk_cache_size cfg div (dk_associativity cfg * cache_block_size)
      in bindR (logAssertR (1024 * dk_cache_size cfg = num_sets * dk_associativity cfg * cache_block_size) ''Invalid cache configuration'') (\<lambda>_.
         bindR (parseAddressHash (dk_address_hash cfg)) (\<lambda>hash.
         bindR (Cache_create (dk_repl_config cfg) ''dram-cache'' num_sets (dk_associativity cfg) cache_block_size (dk_replacement_policy cfg)
                  PR_L1_CACHE hash None home_lookup) (\<lambda>cache.
         bindR (case dk_queue_model cfg of
                  None \<Rightarrow> Inr None
                | Some t \<Rightarrow> bindR (data_array_latency (dk_bandwidth cfg) cache_block_size) (\<lambda>l.
                            bindR (QueueModel_create (dk_queue_config cfg) t l) (\<lambda>q. Inr (Some q)))) (\<lambda>queue_model.
         bindR (createPrefetcher (dk_prefetch_config cfg) (dk_prefetcher cfg) core_id 1) (\<lambda>prefetcher.
         Inr \<lparr>dca_core_id = core_id, dca_cache_block_size = cache_block_size, dca_data_access_time = dk_data_access_time cfg,
              dca_tags_access_time = dk_tags_access_time cfg, dca_data_array_bandwidth = dk_bandwidth cfg, dca_dram_cntlr = dram_cntlr,
              dca_cache = cache, dca_queue_model = queue_model, dca_prefetcher = prefetcher,
              dca_prefetch_on_prefetch_hit = dk_prefetch_on_prefetch_hit cfg, dca_prefetch_mshr = ContentionModel_create 16,
              dca_reads = 0, dca_writes = 0, dca_read_misses = 0, dca_write_misses = 0, dca_hits_prefetch = 0, dca_prefetches = 0,
              dca_prefetch_mshr_delay = 0, dca_queue_env = env, dca_queue_calls = 0, dca_stack = stack, dca_frames = 0\<rparr>))))))"

definition dca_accessDataArray ::
  "SubsecondTime \<Rightarrow> ShmemPerf option \<Rightarrow> DramCache \<Rightarrow> (SubsecondTime \<times> ShmemPerf option \<times> DramCache) result" where
  "dca_accessDataArray t_start perf k =
     bindR (data_array_latency (dca_data_array_bandwidth k) (dca_cache_block_size k)) (\<lambda>processing_time.
     bindR (queue_delay (dca_queue_env k (dca_queue_calls k)) (dca_queue_model k) t_start processing_time) (\<lambda>(d, q).
     bindR (perf_update t_start SP_UNKNOWN perf) (\<lambda>perf.
     bindR (perf_update (t_start + d) DRAM_CACHE_QUEUE perf) (\<lambda>perf.
     bindR (perf_update (t_start + d + processing_time) DRAM_CACHE_BUS perf) (\<lambda>perf.
     bindR (perf_update (t_start + d + processing_time + dca_data_access_time k) DRAM_CACHE_DATA perf) (\<lambda>perf.
     Inr (d + processing_time + dca_data_access_time k, perf,
          k\<lparr>dca_queue_model := q, dca_queue_calls := Suc (dca_queue_calls k)\<rparr>)))))))"

definition dca_pop_frame :: "DramCache \<Rightarrow> UInt8 list \<times> DramCache" where
  "dca_pop_frame k = (dca_stack k (dca_frames k), k\<lparr>dca_frames := Suc (dca_frames k)\<rparr>)"

definition DramCache_insertLine ::
  "access_t \<Rightarrow> IntPtr \<Rightarrow> core_id_t \<Rightarrow> UInt8 list option \<Rightarrow> SubsecondTime \<Rightarrow> DramCache \<Rightarrow> repl_env \<Rightarrow> (DramCache \<times> repl_env) result" where
  "DramCache_insertLine access address requester data_buf now k g =
     (case dca_pop_frame k of (evict_buf, k) \<Rightarrow>
        bindR (CacheBlockInfo_create PR_L1_CACHE) (\<lambda>evict_block_info.
        bindR (Cache_insertSingleLine address data_buf evict_block_info (Some evict_buf) None 0 0 (dca_cache k) g)
          (\<lambda>(eviction, evict_address, evict_block_info, _, c, g).
        bindR (Cache_setCState address (if access = STORE then C_MODIFIED else C_SHARED) c) (\<lambda>c.
        bindR (dca_accessDataArray now None (k\<lparr>dca_cache := c\<rparr>)) (\<lambda>(_, _, k).
        if eviction \<and> cbi_cstate evict_block_info = C_MODIFIED
        then bindR (putDataToDram evict_address requester data_buf now (dca_dram_cntlr k)) (\<lambda>(_, _, d).
             Inr (k\<lparr>dca_dram_cntlr := d\<rparr>, g))
        else Inr (k, g))))))"

text \<open>The body of the loop over the addresses to prefetch.\<close>

definition DramCache_prefetch :: "IntPtr \<Rightarrow> SubsecondTime \<Rightarrow> DramCache \<Rightarrow> repl_env \<Rightarrow> (DramCache \<times> repl_env) result" where
  "DramCache_prefetch prefetch_address t_issue k g =
     bindR (Cache_peekSingleLine prefetch_address (dca_cache k)) (\<lambda>b.
     if b \<noteq> None then Inr (k, g)
     else case dca_pop_frame k of (data_buf, k) \<Rightarrow>
          bindR (getDataFromDram prefetch_address (dca_core_id k) data_buf t_issue (dca_dram_cntlr k)) (\<lambda>(dram_latency, _, data_buf, d).
          bindR (DramCache_insertLine LOAD prefetch_address (dca_core_id k) (Some data_buf) (t_issue + dram_latency)
                   (k\<lparr>dca_dram_cntlr := d\<rparr>) g) (\<lambda>(k, g).
          bindR (Cache_updBlock prefetch_address (setOption PREFETCH) (dca_cache k)) (\<lambda>c.
          Inr (k\<lparr>dca_cache := c,
                 dca_prefetch_mshr := snd (getCompletionTime t_issue dram_latency prefetch_address (dca_prefetch_mshr k)),
                 dca_prefetches := dca_prefetches k + 1\<rparr>, g)))))"

fun DramCache_prefetch_all :: "IntPtr list \<Rightarrow> SubsecondTime \<Rightarrow> DramCache \<Rightarrow> repl_env \<Rightarrow> (DramCache \<times> repl_env) result" where
  "DramCache_prefetch_all [] t_issue k g = Inr (k, g)"
| "DramCache_prefetch_all (a # as) t_issue k g =
     bindR (DramCache_prefetch a t_issue k g) (\<lambda>(k, g). DramCache_prefetch_all as t_issue k g)"

definition DramCache_callPrefetcher ::
  "IntPtr \<Rightarrow> bool \<Rightarrow> bool \<Rightarrow> SubsecondTime \<Rightarrow> DramCache \<Rightarrow> repl_env \<Rightarrow> (DramCache \<times> repl_env) result" where
  "DramCache_callPrefetcher train_address cache_hit prefetch_hit t_issue k g =
     (case dca_prefetcher k of
        None \<Rightarrow> Inr (k, g)
      | Some p \<Rightarrow>
          bindR (getNextAddress train_address INVALID_CORE_ID p) (\<lambda>(prefetchList, p).
          let k = k\<lparr>dca_prefetcher := Some p\<rparr>
          in if \<not> cache_hit \<or> (dca_prefetch_on_prefetch_hit k \<and> prefetch_hit)
             then DramCache_prefetch_all prefetchList t_issue k g else Inr (k, g)))"

text \<open>The hit path of \<^verbatim>\<open>doAccess\<close>: latency, whether a prefetched line was hit, buffer and state.\<close>

definition DramCache_hit ::
  "access_t \<Rightarrow> IntPtr \<Rightarrow> UInt8 list option \<Rightarrow> SubsecondTime \<Rightarrow> ShmemPerf option \<Rightarrow> CacheBlockInfo \<Rightarrow> DramCache \<Rightarrow> repl_env \<Rightarrow>
     (SubsecondTime \<times> ShmemPerf option \<times> bool \<times> UInt8 list option \<times> DramCache \<times> repl_env) result" where
  "DramCache_hit access address data_buf now perf block_info k g =
     (let latency = dca_tags_access_time k; prefetch_hit = hasOption PREFETCH block_info
      in bindR (if prefetch_hit
                then bindR (Cache_updBlock address (clearOption PREFETCH) (dca_cache k)) (\<lambda>c.
                     let k = k\<lparr>dca_cache := c, dca_hits_prefetch := dca_hits_prefetch k + 1\<rparr>;
                         t_completed = getTagCompletionTime address (dca_prefetch_mshr k)
                     in Inr (if t_completed \<noteq> MaxTime \<and> t_completed > now + latency
                             then (t_completed - now,
                                   k\<lparr>dca_prefetch_mshr_delay := dca_prefetch_mshr_delay k + (t_completed - (now + latency))\<rparr>)
                             else (latency, k)))
                else Inr (latency, k)) (\<lambda>(latency, k).
         bindR (Cache_accessSingleLine address access data_buf (dca_cache_block_size k) True (dca_cache k) g) (\<lambda>(_, data_buf, c, g).
         bindR (dca_accessDataArray (now + latency) perf (k\<lparr>dca_cache := c\<rparr>)) (\<lambda>(l, perf, k).
         bindR (if access = STORE then Cache_setCState address C_MODIFIED (dca_cache k) else Inr (dca_cache k)) (\<lambda>c.
         Inr (latency + l, perf, prefetch_hit, data_buf, k\<lparr>dca_cache := c\<rparr>, g))))))"

text \<open>
  \<^verbatim>\<open>doAccess\<close> returns whether the line was there, the latency, the statistics and the buffer. A load always comes with a buffer.
\<close>

definition DramCache_doAccess ::
  "access_t \<Rightarrow> IntPtr \<Rightarrow> core_id_t \<Rightarrow> UInt8 list option \<Rightarrow> SubsecondTime \<Rightarrow> ShmemPerf option \<Rightarrow> DramCache \<Rightarrow> repl_env \<Rightarrow>
     (bool \<times> SubsecondTime \<times> ShmemPerf option \<times> UInt8 list option \<times> DramCache \<times> repl_env) result" where
  "DramCache_doAccess access address requester data_buf now perf k g =
     bindR (Cache_peekSingleLine address (dca_cache k)) (\<lambda>block_info.
     bindR (perf_update now SP_UNKNOWN perf) (\<lambda>perf.
     bindR (perf_update (now + dca_tags_access_time k) DRAM_CACHE_TAGS perf) (\<lambda>perf.
     bindR (case block_info of
              Some b \<Rightarrow> DramCache_hit access address data_buf now perf b k g
            | None \<Rightarrow>
                bindR (if access = LOAD
                       then case data_buf of
                              None \<Rightarrow> Inl (Trap ''null pointer'')
                            | Some buf \<Rightarrow>
                                bindR (getDataFromDram address requester buf (now + dca_tags_access_time k) (dca_dram_cntlr k))
                                  (\<lambda>(dram_latency, _, buf, d). Inr (dca_tags_access_time k + dram_latency, Some buf, k\<lparr>dca_dram_cntlr := d\<rparr>))
                       else Inr (dca_tags_access_time k, data_buf, k)) (\<lambda>(latency, data_buf, k).
                bindR (DramCache_insertLine access address requester data_buf (now + latency) k g) (\<lambda>(k, g).
                Inr (latency, perf, False, data_buf, k, g)))) (\<lambda>(latency, perf, prefetch_hit, data_buf, k, g).
     bindR (DramCache_callPrefetcher address (block_info \<noteq> None) prefetch_hit (now + latency) k g) (\<lambda>(k, g).
     Inr (block_info \<noteq> None, latency, perf, data_buf, k, g))))))"

definition DramCache_getDataFromDram ::
  "IntPtr \<Rightarrow> core_id_t \<Rightarrow> UInt8 list \<Rightarrow> SubsecondTime \<Rightarrow> ShmemPerf option \<Rightarrow> DramCache \<Rightarrow> repl_env \<Rightarrow>
     (SubsecondTime \<times> where_t \<times> UInt8 list \<times> ShmemPerf option \<times> DramCache \<times> repl_env) result" where
  "DramCache_getDataFromDram address requester data_buf now perf k g =
     bindR (DramCache_doAccess LOAD address requester (Some data_buf) now perf k g) (\<lambda>(hit, latency, perf, buf, k, g).
     let k = (if hit then k else k\<lparr>dca_read_misses := dca_read_misses k + 1\<rparr>)
     in Inr (latency, if hit then HIT_DRAM_CACHE else HIT_DRAM, case buf of Some b \<Rightarrow> b | None \<Rightarrow> data_buf,
             perf, k\<lparr>dca_reads := dca_reads k + 1\<rparr>, g))"

definition DramCache_putDataToDram ::
  "IntPtr \<Rightarrow> core_id_t \<Rightarrow> UInt8 list option \<Rightarrow> SubsecondTime \<Rightarrow> DramCache \<Rightarrow> repl_env \<Rightarrow> (SubsecondTime \<times> where_t \<times> DramCache \<times> repl_env) result" where
  "DramCache_putDataToDram address requester data_buf now k g =
     bindR (DramCache_doAccess STORE address requester data_buf now None k g) (\<lambda>(hit, latency, perf, buf, k, g).
     let k = (if hit then k else k\<lparr>dca_write_misses := dca_write_misses k + 1\<rparr>)
     in Inr (latency, if hit then HIT_DRAM_CACHE else HIT_DRAM, k\<lparr>dca_writes := dca_writes k + 1\<rparr>, g))"

section \<open>The cache cannot be filled\<close>

lemma accessDataArray_null: "dca_accessDataArray t None k \<noteq> Inr x"
  by (auto simp: dca_accessDataArray_def)

lemma insertLine_null: "DramCache_insertLine access address requester buf now k g \<noteq> Inr x"
  by (cases "dca_pop_frame k") (auto simp: DramCache_insertLine_def accessDataArray_null)

text \<open>
  The data array is charged for every insertion through a NULL pointer, which the statistics use without a test: no
  write ever returns, and no read of a line that is absent. As a new cache holds no line, it never serves an access.
\<close>

theorem dram_cache_never_fills:
  assumes "cache_ok (dca_cache k)"
  shows "\<not> is_ok (DramCache_putDataToDram a r wbuf t k g)
    \<and> (cache_contents (dca_cache k) (addr_tag (dca_cache k) a) = None \<longrightarrow> \<not> is_ok (DramCache_getDataFromDram a r buf t perf k g))"
proof (intro conjI impI)
  show "\<not> is_ok (DramCache_putDataToDram a r wbuf t k g)"
    by (auto simp: is_ok_iff DramCache_putDataToDram_def DramCache_doAccess_def)
next
  assume "cache_contents (dca_cache k) (addr_tag (dca_cache k) a) = None"
  then have "Cache_peekSingleLine a (dca_cache k) = Inr None" using Cache_peek_contents [OF assms] by simp
  then show "\<not> is_ok (DramCache_getDataFromDram a r buf t perf k g)"
    by (auto simp: is_ok_iff DramCache_getDataFromDram_def DramCache_doAccess_def insertLine_null)
qed

theorem dram_cache_never_fills_witness:
  "\<exists>c. Cache_create example_cfg ''L1-D'' 2 8 64 ''plru'' PR_L1_CACHE HASH_MASK None None = Inr c \<and>
     (\<forall>k g perf. dca_cache k = c \<longrightarrow> \<not> is_ok (DramCache_putDataToDram 64 0 None 5 k g) \<and> \<not> is_ok (DramCache_getDataFromDram 64 0 [] 5 perf k g))"
  using example_cache dram_cache_never_fills by fastforce

end
