(* ===== verification/Cache_Perf_Model.thy ===== *)
theory Cache_Perf_Model
  imports Subsecond_Time
begin

text \<open>
  The access times of a cache (\<^verbatim>\<open>performance_model/cache_perf_model*.cc\<close>) and the elapsed times that a core keeps for its two
  threads (\<^verbatim>\<open>performance_model/shmem_perf_model.cc\<close>). Latencies are in cycles of a frequency domain, whose period is
  looked up when the latency is read.
\<close>

section \<open>Access times\<close>

datatype CacheAccess_t = ACCESS_CACHE_DATA_AND_TAGS | ACCESS_CACHE_WRITEDATA_AND_TAGS | ACCESS_CACHE_DATA | ACCESS_CACHE_TAGS | WRITE_CACHE_DATA

datatype PerfModel_t = CACHE_PERF_MODEL_PARALLEL | CACHE_PERF_MODEL_SEQUENTIAL

record CachePerfModel =
  cpm_kind :: PerfModel_t
  cpm_enabled :: bool
  cpm_data_access_time :: ComponentLatency
  cpm_tags_access_time :: ComponentLatency
  cpm_data_write_time :: ComponentLatency

definition parseModelType :: "string \<Rightarrow> PerfModel_t result" where
  "parseModelType model_type =
     (if model_type = ''parallel'' then Inr CACHE_PERF_MODEL_PARALLEL
      else if model_type = ''sequential'' then Inr CACHE_PERF_MODEL_SEQUENTIAL
      else Inl (LogError ''Unsupported CacheModel type''))"

definition CachePerfModel_create :: "string \<Rightarrow> ComponentLatency \<Rightarrow> ComponentLatency \<Rightarrow> ComponentLatency \<Rightarrow> CachePerfModel result" where
  "CachePerfModel_create cache_perf_model_type data_access_time tags_access_time data_write_time =
     bindR (parseModelType cache_perf_model_type) (\<lambda>k.
     Inr \<lparr>cpm_kind = k, cpm_enabled = False, cpm_data_access_time = data_access_time, cpm_tags_access_time = tags_access_time,
          cpm_data_write_time = data_write_time\<rparr>)"

definition Parallel_getLatency :: "(nat \<Rightarrow> SubsecondTime) \<Rightarrow> CacheAccess_t \<Rightarrow> CachePerfModel \<Rightarrow> SubsecondTime" where
  "Parallel_getLatency periods access m =
     (if \<not> cpm_enabled m then 0
      else case access of
             ACCESS_CACHE_TAGS \<Rightarrow> ComponentLatency_getLatency periods (cpm_tags_access_time m)
           | ACCESS_CACHE_DATA \<Rightarrow> ComponentLatency_getLatency periods (cpm_data_access_time m)
           | ACCESS_CACHE_DATA_AND_TAGS \<Rightarrow> ComponentLatency_getLatency periods (cpm_data_access_time m)
           | ACCESS_CACHE_WRITEDATA_AND_TAGS \<Rightarrow> ComponentLatency_getLatency periods (cpm_data_write_time m)
           | WRITE_CACHE_DATA \<Rightarrow> ComponentLatency_getLatency periods (cpm_data_write_time m))"

definition Sequential_getLatency :: "(nat \<Rightarrow> SubsecondTime) \<Rightarrow> CacheAccess_t \<Rightarrow> CachePerfModel \<Rightarrow> SubsecondTime" where
  "Sequential_getLatency periods access m =
     (if \<not> cpm_enabled m then 0
      else case access of
             ACCESS_CACHE_TAGS \<Rightarrow> ComponentLatency_getLatency periods (cpm_tags_access_time m)
           | ACCESS_CACHE_DATA \<Rightarrow> ComponentLatency_getLatency periods (cpm_data_access_time m)
           | ACCESS_CACHE_DATA_AND_TAGS \<Rightarrow>
               ComponentLatency_getLatency periods (cpm_data_access_time m) + ComponentLatency_getLatency periods (cpm_tags_access_time m)
           | ACCESS_CACHE_WRITEDATA_AND_TAGS \<Rightarrow>
               ComponentLatency_getLatency periods (cpm_data_write_time m) + ComponentLatency_getLatency periods (cpm_tags_access_time m)
           | WRITE_CACHE_DATA \<Rightarrow> ComponentLatency_getLatency periods (cpm_data_write_time m))"

definition CachePerfModel_getLatency :: "(nat \<Rightarrow> SubsecondTime) \<Rightarrow> CacheAccess_t \<Rightarrow> CachePerfModel \<Rightarrow> SubsecondTime" where
  "CachePerfModel_getLatency periods access m =
     (case cpm_kind m of
        CACHE_PERF_MODEL_PARALLEL \<Rightarrow> Parallel_getLatency periods access m
      | CACHE_PERF_MODEL_SEQUENTIAL \<Rightarrow> Sequential_getLatency periods access m)"

section \<open>Elapsed times\<close>

datatype Thread_t = USER_THREAD | SIM_THREAD

record ShmemPerfModel =
  spm_elapsed_time :: "Thread_t \<Rightarrow> SubsecondTime"
  spm_enabled :: bool
  spm_num_memory_accesses :: UInt64
  spm_total_memory_access_latency :: SubsecondTime

definition ShmemPerfModel_create :: ShmemPerfModel where
  "ShmemPerfModel_create = \<lparr>spm_elapsed_time = (\<lambda>_. 0), spm_enabled = False, spm_num_memory_accesses = 0, spm_total_memory_access_latency = 0\<rparr>"

definition spm_setElapsedTime :: "Thread_t \<Rightarrow> SubsecondTime \<Rightarrow> ShmemPerfModel \<Rightarrow> ShmemPerfModel" where
  "spm_setElapsedTime thread_num time p = p\<lparr>spm_elapsed_time := (spm_elapsed_time p)(thread_num := time)\<rparr>"

definition spm_updateElapsedTime :: "SubsecondTime \<Rightarrow> Thread_t \<Rightarrow> ShmemPerfModel \<Rightarrow> ShmemPerfModel" where
  "spm_updateElapsedTime time thread_num p =
     (if spm_elapsed_time p thread_num < time then spm_setElapsedTime thread_num time p else p)"

definition spm_incrElapsedTime :: "SubsecondTime \<Rightarrow> Thread_t \<Rightarrow> ShmemPerfModel \<Rightarrow> ShmemPerfModel result" where
  "spm_incrElapsedTime time thread_num p =
     (let i_elapsed_time = spm_elapsed_time p thread_num; t_elapsed_time = i_elapsed_time + time
      in bindR (logAssertR (t_elapsed_time \<ge> i_elapsed_time) ''t_elapsed_time < i_elapsed_time'') (\<lambda>_.
         Inr (spm_setElapsedTime thread_num t_elapsed_time p)))"

definition spm_incrTotalMemoryAccessLatency :: "SubsecondTime \<Rightarrow> ShmemPerfModel \<Rightarrow> ShmemPerfModel" where
  "spm_incrTotalMemoryAccessLatency shmem_time p =
     (if spm_enabled p
      then p\<lparr>spm_num_memory_accesses := spm_num_memory_accesses p + 1,
             spm_total_memory_access_latency := spm_total_memory_access_latency p + shmem_time\<rparr>
      else p)"

lemma no_wrap_iff: "(a :: 64 word) \<le> a + b \<longleftrightarrow> unat a + unat b < 2 ^ 64"
proof (cases "unat a + unat b < 2 ^ 64")
  case True
  then show ?thesis by (simp add: word_le_nat_alt unat_word_ariths)
next
  case False
  have "unat a < 2 ^ 64" "unat b < 2 ^ 64" using unsigned_less [of a] unsigned_less [of b] by simp_all
  moreover from this have "(unat a + unat b) mod 2 ^ 64 = unat a + unat b - 2 ^ 64" using False by (simp add: le_mod_geq)
  ultimately have "unat (a + b) < unat a" using False by (simp add: unat_word_ariths)
  then show ?thesis using False by (simp add: word_le_nat_alt)
qed

text \<open>
  Adding a latency fails exactly when the counter would wrap around; otherwise the elapsed time of that thread grows by the
  latency and the other one is unchanged.
\<close>

lemma incrElapsedTime_exact:
  "if unat (spm_elapsed_time p th) + unat d < 2 ^ 64
   then \<exists>p'. spm_incrElapsedTime d th p = Inr p' \<and> unat (spm_elapsed_time p' th) = unat (spm_elapsed_time p th) + unat d
      \<and> (\<forall>o'. o' \<noteq> th \<longrightarrow> spm_elapsed_time p' o' = spm_elapsed_time p o')
   else \<not> is_ok (spm_incrElapsedTime d th p)"
  by (auto simp: spm_incrElapsedTime_def spm_setElapsedTime_def Let_def no_wrap_iff logAssertR_def unat_word_ariths)

end
