(* ===== verification/Cache_Cntlr.thy ===== *)
theory Cache_Cntlr
  imports Req_Queue Cache_Atd Dram_Cache Cache_Perf_Model
begin

text \<open>
  The cache controllers of \<^verbatim>\<open>parametric_dram_directory_msi/cache_cntlr.cc\<close>. The objects of all cores form one store
  \<open>hier\<close>: controllers and master controllers are reached through numbers that stand for their pointers, so that the controllers
  of the cores that share a cache share its master. Every method of \<^verbatim>\<open>CacheCntlr\<close> is a function on the store, whose argument \<open>i\<close> is
  \<^verbatim>\<open>this\<close>; messages are appended to \<open>hi_sent\<close>.

  Each method runs as a whole: it holds the lock of the sets it uses from its start to its end. Where a thread waits for another one (the
  semaphores of the user and the network thread), what the other thread does meanwhile is an argument, \<open>wait\<close> or \<open>user\<close>. Recursion
  along the levels of the hierarchy has fuel. Left out are the statistics of \<^verbatim>\<open>ShmemPerf\<close> and the code under
  \<^verbatim>\<open>ENABLE_TRANSITIONS\<close>, \<^verbatim>\<open>ENABLE_TRACK_SHARING_PREVCACHES\<close> and \<^verbatim>\<open>PRIVATE_L2_OPTIMIZATION\<close>, which are not defined. The
  notifications of a cache efficiency tracker are calls out of the simulator with no result; its \<^verbatim>\<open>get_owner\<close> is a parameter.
  Elapsed times wrap around instead of failing.
\<close>

section \<open>State\<close>

datatype reason_t = CORE_RD | CORE_WR | CORE_RDEX | UPGRADE | EVICT | BACK_INVAL | COHERENCY

datatype prefetch_type_t = PF_NONE | PF_OWN | PF_OTHER

datatype lock_signal_t = LS_NONE | LS_LOCK | LS_UNLOCK

record CacheParameters =
  cp_size :: UInt32
  cp_num_sets :: UInt32
  cp_associativity :: UInt32
  cp_hash_function :: string
  cp_replacement_policy :: string
  cp_perfect :: bool
  cp_coherent :: bool
  cp_writeback_time :: ComponentLatency
  cp_next_level_read_bandwidth :: ComponentBandwidthPerCycle
  cp_writethrough :: bool
  cp_shared_cores :: UInt32
  cp_prefetcher :: string
  cp_outstanding_misses :: UInt32

text \<open>The number of sets that the constructor of \<^verbatim>\<open>CacheParameters\<close> computes.\<close>

definition CacheParameters_num_sets :: "UInt32 \<Rightarrow> UInt32 \<Rightarrow> UInt32 \<Rightarrow> UInt32 result" where
  "CacheParameters_num_sets sz associativity block_size =
     (if associativity * block_size = 0 then Inl (Trap ''division by zero'')
      else let num_sets = 1024 * sz div (associativity * block_size)
           in bindR (logAssertR (1024 * sz = num_sets * associativity * block_size) ''Invalid cache configuration'') (\<lambda>_. Inr num_sets))"

record CacheDirectoryWaiter =
  cw_exclusive :: bool
  cw_isPrefetch :: bool
  cw_cache_cntlr :: nat
  cw_t_issue :: SubsecondTime

record MshrEntry =
  me_t_issue :: SubsecondTime
  me_t_complete :: SubsecondTime

definition make_mshr :: "SubsecondTime \<Rightarrow> SubsecondTime \<Rightarrow> MshrEntry" where
  "make_mshr t_issue t_complete = \<lparr>me_t_issue = t_issue, me_t_complete = t_complete\<rparr>"

text \<open>The DRAM that a last-level cache accesses directly.\<close>

datatype DramCntlrInterface = DI_Cntlr DramCntlr | DI_Cache DramCache

record CacheMasterCntlr =
  mc_cache :: Cache
  mc_prev_cache_cntlrs :: "nat list"
  mc_prefetcher :: "Prefetcher option"
  mc_dram_cntlr :: "DramCntlrInterface option"
  mc_dram_outstanding_writebacks :: "ContentionModel option"
  mc_mshr :: "(IntPtr \<times> MshrEntry) list"
  mc_l1_mshr :: ContentionModel
  mc_next_level_read_bandwidth :: ContentionModel
  mc_directory_waiters :: "CacheDirectoryWaiter ReqQueueList"
  mc_evicting_address :: IntPtr
  mc_evicting_buf :: "UInt8 list option"
  mc_atds :: "ATD list"
  mc_prefetch_list :: "IntPtr list"
  mc_prefetch_next :: SubsecondTime

record cntlr_stats =
  st_loads :: UInt64
  st_stores :: UInt64
  st_load_misses :: UInt64
  st_store_misses :: UInt64
  st_load_overlapping_misses :: UInt64
  st_store_overlapping_misses :: UInt64
  st_loads_state :: "cstate_t \<Rightarrow> UInt64"
  st_stores_state :: "cstate_t \<Rightarrow> UInt64"
  st_loads_where :: "where_t \<Rightarrow> UInt64"
  st_stores_where :: "where_t \<Rightarrow> UInt64"
  st_load_misses_state :: "cstate_t \<Rightarrow> UInt64"
  st_store_misses_state :: "cstate_t \<Rightarrow> UInt64"
  st_loads_prefetch :: UInt64
  st_stores_prefetch :: UInt64
  st_hits_prefetch :: UInt64
  st_evict_prefetch :: UInt64
  st_invalidate_prefetch :: UInt64
  st_evict :: "cstate_t \<Rightarrow> UInt64"
  st_backinval :: "cstate_t \<Rightarrow> UInt64"
  st_hits_warmup :: UInt64
  st_evict_warmup :: UInt64
  st_invalidate_warmup :: UInt64
  st_total_latency :: SubsecondTime
  st_snoop_latency :: SubsecondTime
  st_qbs_query_latency :: SubsecondTime
  st_mshr_latency :: SubsecondTime
  st_prefetches :: UInt64
  st_coherency_downgrades :: UInt64
  st_coherency_upgrades :: UInt64
  st_coherency_invalidates :: UInt64
  st_coherency_writebacks :: UInt64

record CacheCntlr =
  cc_mem_component :: component_t
  cc_master :: nat
  cc_next_cache_cntlr :: "nat option"
  cc_home_lookup :: AddressHomeLookup
  cc_perfect :: bool
  cc_passthrough :: bool
  cc_coherent :: bool
  cc_prefetch_on_prefetch_hit :: bool
  cc_l1_mshr :: bool
  cc_stats :: cntlr_stats
  cc_core_id :: core_id_t
  cc_cache_block_size :: UInt32
  cc_writethrough :: bool
  cc_writeback_time :: ComponentLatency
  cc_next_level_read_bandwidth :: ComponentBandwidthPerCycle
  cc_shared_cores :: UInt32
  cc_core_id_master :: core_id_t
  cc_last_remote_hit_where :: where_t

text \<open>
  The store, with the elapsed times and the latencies of each core's memory manager, the globals of the file, and what comes
  from elsewhere: the periods of the frequency domains, whether only caches are being warmed up, the owner callback, the order in which
  an \<^verbatim>\<open>unordered_map\<close> is traversed, and the contents of uninitialised buffers.
\<close>

record hier =
  hi_cntlrs :: "nat \<Rightarrow> CacheCntlr"
  hi_masters :: "nat \<Rightarrow> CacheMasterCntlr"
  hi_time :: "core_id_t \<Rightarrow> Thread_t \<Rightarrow> SubsecondTime"
  hi_perf_models :: "core_id_t \<Rightarrow> component_t \<Rightarrow> CachePerfModel"
  hi_periods :: "nat \<Rightarrow> SubsecondTime"
  hi_env :: repl_env
  hi_eip_global :: IntPtr
  hi_eip_global_2 :: IntPtr
  hi_l3_hit_flag :: UInt8
  hi_L3WritesDueToWriteBack :: UInt64
  hi_L3WritesFromDirectory :: UInt64
  hi_sent :: "NetPacket list"
  hi_cache_only :: bool
  hi_get_owner :: "(core_id_t \<Rightarrow> IntPtr \<Rightarrow> UInt64) option"
  hi_umap_order :: "IntPtr list \<Rightarrow> IntPtr list"
  hi_stack :: "nat \<Rightarrow> UInt8 list"
  hi_frames :: nat

section \<open>Access to the store\<close>

definition cn :: "nat \<Rightarrow> hier \<Rightarrow> CacheCntlr" where
  "cn i h = hi_cntlrs h i"

definition ms :: "nat \<Rightarrow> hier \<Rightarrow> CacheMasterCntlr" where
  "ms i h = hi_masters h (cc_master (cn i h))"

definition upd_cn :: "nat \<Rightarrow> (CacheCntlr \<Rightarrow> CacheCntlr) \<Rightarrow> hier \<Rightarrow> hier" where
  "upd_cn i f h = h\<lparr>hi_cntlrs := (hi_cntlrs h)(i := f (cn i h))\<rparr>"

definition upd_ms :: "nat \<Rightarrow> (CacheMasterCntlr \<Rightarrow> CacheMasterCntlr) \<Rightarrow> hier \<Rightarrow> hier" where
  "upd_ms i f h = h\<lparr>hi_masters := (hi_masters h)(cc_master (cn i h) := f (ms i h))\<rparr>"

definition upd_stats :: "nat \<Rightarrow> (cntlr_stats \<Rightarrow> cntlr_stats) \<Rightarrow> hier \<Rightarrow> hier" where
  "upd_stats i f h = upd_cn i (\<lambda>c. c\<lparr>cc_stats := f (cc_stats c)\<rparr>) h"

definition next_of :: "nat \<Rightarrow> hier \<Rightarrow> nat option" where
  "next_of i h = cc_next_cache_cntlr (cn i h)"

definition prevs_of :: "nat \<Rightarrow> hier \<Rightarrow> nat list" where
  "prevs_of i h = mc_prev_cache_cntlrs (ms i h)"

definition set_cache :: "nat \<Rightarrow> Cache \<Rightarrow> hier \<Rightarrow> hier" where
  "set_cache i c h = upd_ms i (\<lambda>m. m\<lparr>mc_cache := c\<rparr>) h"

definition the_cache :: "nat \<Rightarrow> hier \<Rightarrow> Cache" where
  "the_cache i h = mc_cache (ms i h)"

definition elapsed :: "nat \<Rightarrow> Thread_t \<Rightarrow> hier \<Rightarrow> SubsecondTime" where
  "elapsed i th h = hi_time h (cc_core_id (cn i h)) th"

definition set_elapsed :: "nat \<Rightarrow> Thread_t \<Rightarrow> SubsecondTime \<Rightarrow> hier \<Rightarrow> hier" where
  "set_elapsed i th t h =
     (let core = cc_core_id (cn i h) in h\<lparr>hi_time := (hi_time h)(core := (hi_time h core)(th := t))\<rparr>)"

definition incr :: "nat \<Rightarrow> SubsecondTime \<Rightarrow> Thread_t \<Rightarrow> hier \<Rightarrow> hier" where
  "incr i d th h = set_elapsed i th (elapsed i th h + d) h"

text \<open>\<^verbatim>\<open>MemoryManager::incrElapsedTime(m_mem_component, access_type, thread_num)\<close>.\<close>

definition getCost :: "nat \<Rightarrow> CacheAccess_t \<Rightarrow> hier \<Rightarrow> SubsecondTime" where
  "getCost i access_type h =
     (let c = cn i h
      in if cc_mem_component c = INVALID_MEM_COMPONENT then 0
         else CachePerfModel_getLatency (hi_periods h) access_type (hi_perf_models h (cc_core_id c) (cc_mem_component c)))"

definition incr_cost :: "nat \<Rightarrow> CacheAccess_t \<Rightarrow> Thread_t \<Rightarrow> hier \<Rightarrow> hier" where
  "incr_cost i access_type th h = incr i (getCost i access_type h) th h"

definition hi_pop_frame :: "hier \<Rightarrow> UInt8 list \<times> hier" where
  "hi_pop_frame h = (hi_stack h (hi_frames h), h\<lparr>hi_frames := Suc (hi_frames h)\<rparr>)"

definition hi_sendMsg ::
  "nat \<Rightarrow> msg_t \<Rightarrow> core_id_t \<Rightarrow> core_id_t \<Rightarrow> IntPtr \<Rightarrow> UInt8 list option \<Rightarrow> UInt32 \<Rightarrow> Thread_t \<Rightarrow> hier \<Rightarrow> hier result" where
  "hi_sendMsg i msg_type requester receiver address data_buf data_length th h =
     bindR (sendMsg_packet (cc_core_id_master (cn i h)) (elapsed i th h) msg_type LAST_LEVEL_CACHE TAG_DIR requester receiver
              address data_buf data_length HIT_UNKNOWN) (\<lambda>pk.
     Inr (h\<lparr>hi_sent := hi_sent h @ [pk]\<rparr>))"

text \<open>\<^verbatim>\<open>HitWhere::where_t(m_mem_component + (sibling_hit ? HitWhere::SIBLING : 0))\<close>.\<close>

definition where_of :: "component_t \<Rightarrow> bool \<Rightarrow> where_t" where
  "where_of c sibling =
     (case c of
        L1_ICACHE \<Rightarrow> HIT_L1I
      | L1_DCACHE \<Rightarrow> if sibling then HIT_L1_SIBLING else HIT_L1_OWN
      | L2_CACHE \<Rightarrow> if sibling then HIT_L2_SIBLING else HIT_L2_OWN
      | L3_CACHE \<Rightarrow> if sibling then HIT_L3_SIBLING else HIT_L3_OWN
      | L4_CACHE \<Rightarrow> if sibling then HIT_L4_SIBLING else HIT_L4_OWN
      | _ \<Rightarrow> HIT_UNKNOWN)"

section \<open>Operations of a cache on itself\<close>

definition getCacheBlockInfo :: "nat \<Rightarrow> IntPtr \<Rightarrow> hier \<Rightarrow> CacheBlockInfo option result" where
  "getCacheBlockInfo i address h = Cache_peekSingleLine address (the_cache i h)"

definition state_of :: "CacheBlockInfo option \<Rightarrow> cstate_t" where
  "state_of cache_block_info = (case cache_block_info of None \<Rightarrow> C_INVALID | Some b \<Rightarrow> cbi_cstate b)"

definition getCacheState :: "nat \<Rightarrow> IntPtr \<Rightarrow> hier \<Rightarrow> cstate_t result" where
  "getCacheState i address h = bindR (getCacheBlockInfo i address h) (\<lambda>b. Inr (state_of b))"

text \<open>A change of the block through its pointer; \<^verbatim>\<open>setCacheState\<close> is one.\<close>

definition upd_block :: "nat \<Rightarrow> IntPtr \<Rightarrow> (CacheBlockInfo \<Rightarrow> CacheBlockInfo) \<Rightarrow> hier \<Rightarrow> hier result" where
  "upd_block i address f h = bindR (Cache_updBlock address f (the_cache i h)) (\<lambda>c. Inr (set_cache i c h))"

definition setCacheState :: "nat \<Rightarrow> IntPtr \<Rightarrow> cstate_t \<Rightarrow> hier \<Rightarrow> hier result" where
  "setCacheState i address cstate h = upd_block i address (setCState cstate) h"

definition operationPermissibleinCache :: "nat \<Rightarrow> IntPtr \<Rightarrow> mem_op_t \<Rightarrow> hier \<Rightarrow> (bool \<times> CacheBlockInfo option) result" where
  "operationPermissibleinCache i address mem_op_type h =
     bindR (getCacheBlockInfo i address h) (\<lambda>b.
     let cstate = state_of b
     in case mem_op_type of
          READ \<Rightarrow> Inr (CacheState_readable cstate, b)
        | READ_EX \<Rightarrow> Inr (CacheState_writable cstate, b)
        | WRITE \<Rightarrow> Inr (CacheState_writable cstate, b)
        | INVALID_MEM_OP \<Rightarrow> Inl (LogError ''Unsupported mem_op_type''))"

definition hi_access :: "nat \<Rightarrow> IntPtr \<Rightarrow> access_t \<Rightarrow> UInt8 list option \<Rightarrow> UInt32 \<Rightarrow> bool \<Rightarrow> hier \<Rightarrow> (bool \<times> UInt8 list option \<times> hier) result" where
  "hi_access i address access buf bytes update_replacement h =
     bindR (Cache_accessSingleLine address access buf bytes update_replacement (the_cache i h) (hi_env h)) (\<lambda>(hit, buf, c, g).
     Inr (hit \<noteq> None, buf, set_cache i c (h\<lparr>hi_env := g\<rparr>)))"

definition retrieveCacheBlock :: "nat \<Rightarrow> IntPtr \<Rightarrow> UInt8 list option \<Rightarrow> bool \<Rightarrow> hier \<Rightarrow> (UInt8 list option \<times> hier) result" where
  "retrieveCacheBlock i address data_buf update_replacement h =
     bindR (hi_access i address LOAD data_buf (cc_cache_block_size (cn i h)) update_replacement h) (\<lambda>(hit, buf, h).
     bindR (logAssertR hit ''Expected block to be there but it wasn't'') (\<lambda>_. Inr (buf, h)))"

definition invalidateCacheBlock :: "nat \<Rightarrow> IntPtr \<Rightarrow> hier \<Rightarrow> hier result" where
  "invalidateCacheBlock i address h =
     bindR (getCacheState i address h) (\<lambda>old_cstate.
     bindR (assertR (old_cstate \<noteq> C_MODIFIED) ''old_cstate != CacheState::MODIFIED'') (\<lambda>_.
     bindR (assertR (old_cstate \<noteq> C_INVALID) ''old_cstate != CacheState::INVALID'') (\<lambda>_.
     bindR (Cache_invalidateSingleLine address (the_cache i h)) (\<lambda>(_, c).
     Inr (set_cache i c h)))))"

text \<open>The access time of the last-level cache for a write: it depends on the way only if that way is in SRAM.\<close>

definition STARTING_WAY_TO_SRAM :: nat where "STARTING_WAY_TO_SRAM = 100"

definition ENDING_WAY_TO_SRAM :: nat where "ENDING_WAY_TO_SRAM = 300"

definition llc_write_cost :: "nat \<Rightarrow> IntPtr \<Rightarrow> hier \<Rightarrow> hier result" where
  "llc_write_cost i address h =
     bindR (Cache_getBlockIndex address (the_cache i h)) (\<lambda>blockIndex.
     Inr (incr_cost i (if STARTING_WAY_TO_SRAM \<le> blockIndex \<and> blockIndex \<le> ENDING_WAY_TO_SRAM
                       then ACCESS_CACHE_DATA_AND_TAGS else ACCESS_CACHE_WRITEDATA_AND_TAGS) USER_THREAD h))"

text \<open>Whether a previous-level cache has the block: all caches are inclusive, so one level is enough.\<close>

definition isInLowerLevelCache :: "nat \<Rightarrow> hier \<Rightarrow> CacheBlockInfo \<Rightarrow> bool" where
  "isInLowerLevelCache i h block_info =
     (let address = tagToAddress (ca_base (the_cache i h)) (cbi_tag block_info)
      in list_ex (\<lambda>p. case getCacheBlockInfo p address h of Inr (Some b) \<Rightarrow> True | _ \<Rightarrow> False) (prevs_of i h))"

definition wb_latency :: "nat \<Rightarrow> hier \<Rightarrow> SubsecondTime" where
  "wb_latency i h = ComponentLatency_getLatency (hi_periods h) (cc_writeback_time (cn i h))"

definition incrementQBSLookupCost :: "nat \<Rightarrow> hier \<Rightarrow> hier" where
  "incrementQBSLookupCost i h =
     (let latency = wb_latency i h
      in upd_stats i (\<lambda>s. s\<lparr>st_qbs_query_latency := st_qbs_query_latency s + latency\<rparr>) (incr i latency USER_THREAD h))"

text \<open>A write into this cache, or into the eviction buffer when the line is being evicted here.\<close>

definition write_line :: "nat \<Rightarrow> IntPtr \<Rightarrow> UInt32 \<Rightarrow> UInt8 list option \<Rightarrow> UInt32 \<Rightarrow> hier \<Rightarrow> hier result" where
  "write_line i address offset data_buf data_length h =
     bindR (hi_access i (address + ucast offset) STORE data_buf data_length False h) (\<lambda>(hit, _, h).
     bindR (logAssertR hit ''writethrough expected a hit at next-level cache but got miss'') (\<lambda>_.
     bindR (getCacheState i (address + ucast offset) h) (\<lambda>st.
     bindR (logAssertR (st = C_MODIFIED) ''Got writeback for non-MODIFIED line'') (\<lambda>_. Inr h))))"

definition write_own :: "nat \<Rightarrow> IntPtr \<Rightarrow> UInt32 \<Rightarrow> UInt8 list option \<Rightarrow> UInt32 \<Rightarrow> hier \<Rightarrow> hier result" where
  "write_own i address offset data_buf data_length h =
     (case mc_evicting_buf (ms i h) of
        None \<Rightarrow> write_line i address offset data_buf data_length h
      | Some evict_buf \<Rightarrow>
          if address = mc_evicting_address (ms i h)
          then bindR (assertR (offset = 0) ''offset==0'') (\<lambda>_.
               bindR (assertR (data_length = cc_cache_block_size (cn i h)) ''data_length==getCacheBlockSize()'') (\<lambda>_.
               Inr (case data_buf of
                      None \<Rightarrow> h
                    | Some buf \<Rightarrow> upd_ms i (\<lambda>m. m\<lparr>mc_evicting_buf := Some (memcpy_at 0 (take (unat data_length) buf) evict_buf)\<rparr>) h)))
          else write_line i address offset data_buf data_length h)"

fun writeCacheBlock :: "nat \<Rightarrow> nat \<Rightarrow> IntPtr \<Rightarrow> UInt32 \<Rightarrow> UInt8 list option \<Rightarrow> UInt32 \<Rightarrow> hier \<Rightarrow> hier result" where
  "writeCacheBlock 0 i address offset data_buf data_length h = Inl Diverges"
| "writeCacheBlock (Suc n) i address offset data_buf data_length h =
     bindR (if cc_mem_component (cn i h) = L3_CACHE
            then llc_write_cost i address (h\<lparr>hi_L3WritesDueToWriteBack := hi_L3WritesDueToWriteBack h + 1\<rparr>)
            else Inr h) (\<lambda>h.
     bindR (write_own i address offset data_buf data_length h) (\<lambda>h.
     if cc_writethrough (cn i h)
     then case next_of i h of
            None \<Rightarrow> Inl (Trap ''null pointer'')
          | Some nx \<Rightarrow> writeCacheBlock n nx address offset data_buf data_length h
     else Inr h))"

text \<open>
  The components from \<^verbatim>\<open>FIRST_LEVEL_CACHE\<close> to the one before \<^verbatim>\<open>LAST_LEVEL_CACHE = 20\<close> are the possible levels: a walk
  along a hierarchy has fewer steps than this.
\<close>

definition MAX_LEVELS :: nat where
  "MAX_LEVELS = 20"

section \<open>Changing the state of a line in this cache and the caches before it\<close>

text \<open>A loop over previous-level caches that takes the largest latency and whether any of them had to supply data.\<close>

fun each_prev ::
  "(nat \<Rightarrow> hier \<Rightarrow> ((SubsecondTime \<times> bool) \<times> hier) result) \<Rightarrow> nat list \<Rightarrow> SubsecondTime \<times> bool \<Rightarrow> hier \<Rightarrow>
     ((SubsecondTime \<times> bool) \<times> hier) result" where
  "each_prev f [] acc h = Inr (acc, h)"
| "each_prev f (p # ps) acc h =
     bindR (f p h) (\<lambda>(res, h). each_prev f ps (max (fst acc) (fst res), snd acc \<or> snd res) h)"

definition cstate_regular :: "cstate_t \<Rightarrow> bool" where
  "cstate_regular s = (s \<notin> {C_INVALID_COLD, C_INVALID_EVICT, C_INVALID_COHERENCY})"

text \<open>The statistics of a state change.\<close>

definition count_change :: "nat \<Rightarrow> reason_t \<Rightarrow> cstate_t \<Rightarrow> CacheBlockInfo \<Rightarrow> hier \<Rightarrow> hier" where
  "count_change i reason new_cstate b h =
     (let h = (if reason = COHERENCY
               then upd_stats i (\<lambda>s.
                      let s = (if new_cstate = C_SHARED then s\<lparr>st_coherency_downgrades := st_coherency_downgrades s + 1\<rparr>
                               else if cbi_cstate b = C_MODIFIED then s\<lparr>st_coherency_writebacks := st_coherency_writebacks s + 1\<rparr>
                               else s\<lparr>st_coherency_invalidates := st_coherency_invalidates s + 1\<rparr>);
                          s = (if hasOption PREFETCH b \<and> new_cstate = C_INVALID
                               then s\<lparr>st_invalidate_prefetch := st_invalidate_prefetch s + 1\<rparr> else s)
                      in if hasOption WARMUP b \<and> new_cstate = C_INVALID
                         then s\<lparr>st_invalidate_warmup := st_invalidate_warmup s + 1\<rparr> else s) h
               else h)
      in if reason = UPGRADE then upd_stats i (\<lambda>s. s\<lparr>st_coherency_upgrades := st_coherency_upgrades s + 1\<rparr>) h
         else if reason = BACK_INVAL
         then upd_stats i (\<lambda>s. s\<lparr>st_backinval := (st_backinval s)(cbi_cstate b := st_backinval s (cbi_cstate b) + 1)\<rparr>) h
         else h)"

text \<open>
  The local part of \<^verbatim>\<open>updateCacheBlock\<close>. A record of its local variables: the out-buffer, \<^verbatim>\<open>buf_written\<close>,
  \<^verbatim>\<open>is_writeback\<close> and \<^verbatim>\<open>sibling_hit\<close>.
\<close>

record upd_locals =
  ul_out_buf :: "UInt8 list option"
  ul_buf_written :: bool
  ul_is_writeback :: bool
  ul_sibling_hit :: bool

text \<open>Writing the line to the out-buffer.\<close>

definition write_out :: "nat \<Rightarrow> IntPtr \<Rightarrow> upd_locals \<Rightarrow> hier \<Rightarrow> (upd_locals \<times> hier) result" where
  "write_out i address u h =
     bindR (retrieveCacheBlock i address (ul_out_buf u) False h) (\<lambda>(buf, h).
     Inr (\<lparr>ul_out_buf = buf, ul_buf_written = True, ul_is_writeback = True, ul_sibling_hit = True\<rparr>, h))"

text \<open>Getting rid of modified data.\<close>

definition write_back :: "nat \<Rightarrow> IntPtr \<Rightarrow> upd_locals \<Rightarrow> hier \<Rightarrow> (upd_locals \<times> hier) result" where
  "write_back i address u h =
     (if cc_writethrough (cn i h) then Inr (u, h)
      else case next_of i h of
             Some nx \<Rightarrow>
               (case hi_pop_frame h of (data_buf, h) \<Rightarrow>
                  bindR (retrieveCacheBlock i address (Some data_buf) False h) (\<lambda>(buf, h).
                  bindR (writeCacheBlock MAX_LEVELS nx address 0 buf (cc_cache_block_size (cn i h)) h) (\<lambda>h.
                  Inr (u\<lparr>ul_is_writeback := True, ul_sibling_hit := True\<rparr>, h))))
           | None \<Rightarrow>
               if ul_out_buf u \<noteq> None then write_out i address u h
               else Inl (LogError ''MODIFIED data is about to get lost!''))"

definition change_state :: "nat \<Rightarrow> IntPtr \<Rightarrow> cstate_t \<Rightarrow> reason_t \<Rightarrow> CacheBlockInfo \<Rightarrow> upd_locals \<Rightarrow> hier \<Rightarrow> (upd_locals \<times> hier) result" where
  "change_state i address new_cstate reason b u h =
     bindR (if cbi_cstate b = C_MODIFIED
            then bindR (write_back i address u (count_change i reason new_cstate b h)) (\<lambda>(u, h).
                 bindR (setCacheState i address C_SHARED h) (\<lambda>h. Inr (u, h)))
            else Inr (u, count_change i reason new_cstate b h)) (\<lambda>(u, h).
     if new_cstate = C_INVALID
     then bindR (if ul_out_buf u \<noteq> None then write_out i address u h else Inr (u, h)) (\<lambda>(u, h).
          if cc_coherent (cn i h) then bindR (invalidateCacheBlock i address h) (\<lambda>h. Inr (u, h)) else Inr (u, h))
     else if new_cstate = C_SHARED
     then bindR (if ul_out_buf u \<noteq> None then write_out i address u h else Inr (u, h)) (\<lambda>(u, h).
          bindR (setCacheState i address new_cstate h) (\<lambda>h. Inr (u, h)))
     else if new_cstate = C_MODIFIED
     then bindR (setCacheState i address new_cstate h) (\<lambda>h. Inr (u, h))
     else Inl (LogError ''Cannot change block status''))"

definition update_own ::
  "nat \<Rightarrow> IntPtr \<Rightarrow> cstate_t \<Rightarrow> reason_t \<Rightarrow> UInt8 list option \<Rightarrow> bool \<Rightarrow> hier \<Rightarrow> ((SubsecondTime \<times> bool) \<times> UInt8 list option \<times> hier) result" where
  "update_own i address new_cstate reason out_buf sibling_hit h =
     (let u = \<lparr>ul_out_buf = out_buf, ul_buf_written = False, ul_is_writeback = False, ul_sibling_hit = sibling_hit\<rparr>
      in bindR (getCacheBlockInfo i address h) (\<lambda>cache_block_info.
         bindR (case cache_block_info of
                  None \<Rightarrow> Inr (u, h)
                | Some b \<Rightarrow>
                    if new_cstate = cbi_cstate b \<and> out_buf \<noteq> None then write_out i address u h
                    else change_state i address new_cstate reason b u h) (\<lambda>(u, h).
         bindR (getCacheState i address h) (\<lambda>st.
         bindR (logAssertR (st = C_INVALID \<or> st = new_cstate \<or> \<not> cc_coherent (cn i h)) ''state didn't change as we wanted'') (\<lambda>_.
         bindR (logAssertR (out_buf \<noteq> None \<longrightarrow> ul_buf_written u) ''out_buf passed in but never written to'') (\<lambda>_.
         Inr ((if ul_is_writeback u then wb_latency i h else 0, ul_sibling_hit u), ul_out_buf u, h)))))))"

fun updateCacheBlock ::
  "nat \<Rightarrow> nat \<Rightarrow> IntPtr \<Rightarrow> cstate_t \<Rightarrow> reason_t \<Rightarrow> UInt8 list option \<Rightarrow> hier \<Rightarrow> ((SubsecondTime \<times> bool) \<times> UInt8 list option \<times> hier) result" where
  "updateCacheBlock 0 i address new_cstate reason out_buf h = Inl Diverges"
| "updateCacheBlock (Suc n) i address new_cstate reason out_buf h =
     bindR (logAssertR (cstate_regular new_cstate) ''Invalid new cstate'') (\<lambda>_.
     bindR (each_prev (\<lambda>p h. bindR (updateCacheBlock n p address new_cstate (if reason = EVICT then BACK_INVAL else reason) None h)
                               (\<lambda>(res, _, h). Inr (res, h))) (prevs_of i h) (0, False) h) (\<lambda>(res, h).
     update_own i address new_cstate reason out_buf (snd res) h))"

end
