(* ===== verification/Cache_Requests.thy ===== *)
theory Cache_Requests
  imports Cache_Cntlr
begin

text \<open>
  The rest of \<^verbatim>\<open>parametric_dram_directory_msi/cache_cntlr.cc\<close>: insertion and eviction of lines, the requests of the
  core and of the previous levels, prefetching, the requests to the directory and the messages from it.
\<close>

section \<open>Direct DRAM access\<close>

definition di_getDataFromDram ::
  "IntPtr \<Rightarrow> core_id_t \<Rightarrow> UInt8 list \<Rightarrow> SubsecondTime \<Rightarrow> DramCntlrInterface \<Rightarrow> repl_env \<Rightarrow>
     (SubsecondTime \<times> where_t \<times> UInt8 list \<times> DramCntlrInterface \<times> repl_env) result" where
  "di_getDataFromDram address requester data_buf now di g =
     (case di of
        DI_Cntlr d \<Rightarrow> bindR (getDataFromDram address requester data_buf now d) (\<lambda>(l, w, buf, d). Inr (l, w, buf, DI_Cntlr d, g))
      | DI_Cache k \<Rightarrow> bindR (DramCache_getDataFromDram address requester data_buf now (Some ShmemPerf_create) k g)
                       (\<lambda>(l, w, buf, _, k, g). Inr (l, w, buf, DI_Cache k, g)))"

definition di_putDataToDram ::
  "IntPtr \<Rightarrow> core_id_t \<Rightarrow> UInt8 list option \<Rightarrow> SubsecondTime \<Rightarrow> DramCntlrInterface \<Rightarrow> repl_env \<Rightarrow>
     (SubsecondTime \<times> where_t \<times> DramCntlrInterface \<times> repl_env) result" where
  "di_putDataToDram address requester data_buf now di g =
     (case di of
        DI_Cntlr d \<Rightarrow> bindR (putDataToDram address requester data_buf now d) (\<lambda>(l, w, d). Inr (l, w, DI_Cntlr d, g))
      | DI_Cache k \<Rightarrow> bindR (DramCache_putDataToDram address requester data_buf now k g) (\<lambda>(l, w, k, g). Inr (l, w, DI_Cache k, g)))"

definition set_dram :: "nat \<Rightarrow> DramCntlrInterface \<Rightarrow> hier \<Rightarrow> hier" where
  "set_dram i di h = upd_ms i (\<lambda>m. m\<lparr>mc_dram_cntlr := Some di\<rparr>) h"

definition accessDRAM ::
  "nat \<Rightarrow> mem_op_t \<Rightarrow> IntPtr \<Rightarrow> UInt8 list option \<Rightarrow> hier \<Rightarrow> (where_t \<times> SubsecondTime \<times> UInt8 list option \<times> hier) result" where
  "accessDRAM i mem_op_type address data_buf h =
     (let t_issue = elapsed i USER_THREAD h; master = cc_core_id_master (cn i h)
      in case mc_dram_cntlr (ms i h) of
           None \<Rightarrow> Inl (Trap ''null pointer'')
         | Some di \<Rightarrow>
             (case mem_op_type of
                READ \<Rightarrow>
                  (case data_buf of
                     None \<Rightarrow> Inl (Trap ''null pointer'')
                   | Some buf \<Rightarrow>
                       bindR (di_getDataFromDram address master buf t_issue di (hi_env h)) (\<lambda>(l, w, buf, di, g).
                       Inr (w, l, Some buf, set_dram i di (h\<lparr>hi_env := g\<rparr>))))
              | READ_EX \<Rightarrow> bindR (di_putDataToDram address master data_buf t_issue di (hi_env h)) (\<lambda>(l, w, di, g).
                            Inr (w, l, data_buf, set_dram i di (h\<lparr>hi_env := g\<rparr>)))
              | WRITE \<Rightarrow> bindR (di_putDataToDram address master data_buf t_issue di (hi_env h)) (\<lambda>(l, w, di, g).
                          Inr (w, l, data_buf, set_dram i di (h\<lparr>hi_env := g\<rparr>)))
              | INVALID_MEM_OP \<Rightarrow> Inl (LogError ''Unsupported Mem Op Type'')))"

section \<open>Insertion and eviction\<close>

definition add_snoop :: "nat \<Rightarrow> SubsecondTime \<Rightarrow> Thread_t \<Rightarrow> hier \<Rightarrow> hier" where
  "add_snoop i latency th h =
     upd_stats i (\<lambda>s. s\<lparr>st_snoop_latency := st_snoop_latency s + latency\<rparr>) (incr i latency th h)"

text \<open>The snoops of previous-level caches: each one is told to take a state.\<close>

definition snoop :: "IntPtr \<Rightarrow> cstate_t \<Rightarrow> reason_t \<Rightarrow> nat \<Rightarrow> hier \<Rightarrow> ((SubsecondTime \<times> bool) \<times> hier) result" where
  "snoop address cstate reason p h =
     bindR (updateCacheBlock MAX_LEVELS p address cstate reason None h) (\<lambda>(res, _, h). Inr (res, h))"

text \<open>Back-invalidation: modified data of previous levels goes to the eviction buffer.\<close>

definition back_invalidate :: "nat \<Rightarrow> IntPtr \<Rightarrow> UInt8 list option \<Rightarrow> Thread_t \<Rightarrow> hier \<Rightarrow> (UInt8 list option \<times> hier) result" where
  "back_invalidate i evict_address evict_buf th h =
     (if prevs_of i h \<noteq> []
      then let h = upd_ms i (\<lambda>m. m\<lparr>mc_evicting_address := evict_address, mc_evicting_buf := evict_buf\<rparr>) h
           in bindR (each_prev (snoop evict_address C_INVALID BACK_INVAL) (prevs_of i h) (0, False) h) (\<lambda>(res, h).
              let evict_buf = mc_evicting_buf (ms i h)
              in Inr (evict_buf, upd_ms i (\<lambda>m. m\<lparr>mc_evicting_address := 0, mc_evicting_buf := None\<rparr>) (add_snoop i (fst res) th h)))
      else Inr (evict_buf, h))"

definition dram_write_back :: "nat \<Rightarrow> IntPtr \<Rightarrow> UInt8 list option \<Rightarrow> hier \<Rightarrow> hier result" where
  "dram_write_back i evict_address evict_buf h =
     (let t_now = elapsed i USER_THREAD h;
          h = (case mc_dram_outstanding_writebacks (ms i h) of
                 None \<Rightarrow> h | Some cm \<Rightarrow> incr i (getStartTime t_now cm - t_now) USER_THREAD h)
      in bindR (accessDRAM i WRITE evict_address evict_buf h) (\<lambda>(_, dram_latency, _, h).
         Inr (case mc_dram_outstanding_writebacks (ms i h) of
                None \<Rightarrow> h
              | Some cm \<Rightarrow> upd_ms i (\<lambda>m. m\<lparr>mc_dram_outstanding_writebacks := Some (snd (getCompletionTime t_now dram_latency 0 cm))\<rparr>) h)))"

definition dispose_line :: "nat \<Rightarrow> IntPtr \<Rightarrow> CacheBlockInfo \<Rightarrow> UInt8 list option \<Rightarrow> Thread_t \<Rightarrow> hier \<Rightarrow> hier result" where
  "dispose_line i evict_address b evict_buf th h =
     (let c = cn i h; modified = (cbi_cstate b = C_MODIFIED)
      in if cc_perfect c then Inr h
         else if \<not> cc_coherent c
         then bindR (logAssertR (cc_writethrough c \<or> \<not> modified) ''Non-coherent cache is throwing away dirty data'') (\<lambda>_. Inr h)
         else case cc_next_cache_cntlr c of
                Some nx \<Rightarrow>
                  if \<not> cc_writethrough c \<and> modified then writeCacheBlock MAX_LEVELS nx evict_address 0 evict_buf (cc_cache_block_size c) h
                  else Inr h
              | None \<Rightarrow>
                  if mc_dram_cntlr (ms i h) \<noteq> None
                  then if modified then dram_write_back i evict_address evict_buf h else Inr h
                  else bindR (getHome (cc_home_lookup c) evict_address) (\<lambda>home_node_id.
                       if modified
                       then hi_sendMsg i FLUSH_REP (cc_core_id c) home_node_id evict_address evict_buf (cc_cache_block_size c) th h
                       else bindR (logAssertR (cbi_cstate b = C_SHARED \<or> cbi_cstate b = C_EXCLUSIVE) ''evict_state'') (\<lambda>_.
                            hi_sendMsg i INV_REP (cc_core_id c) home_node_id evict_address None 0 th h)))"

definition evict_line :: "nat \<Rightarrow> IntPtr \<Rightarrow> CacheBlockInfo \<Rightarrow> UInt8 list option \<Rightarrow> Thread_t \<Rightarrow> hier \<Rightarrow> hier result" where
  "evict_line i evict_address b evict_buf th h =
     (let old_state = cbi_cstate b;
          h = upd_stats i (\<lambda>s.
                let s = s\<lparr>st_evict := (st_evict s)(old_state := st_evict s old_state + 1)\<rparr>;
                    s = (if hasOption PREFETCH b then s\<lparr>st_evict_prefetch := st_evict_prefetch s + 1\<rparr> else s)
                in if hasOption WARMUP b then s\<lparr>st_evict_warmup := st_evict_warmup s + 1\<rparr> else s) h
      in bindR (back_invalidate i evict_address evict_buf th h) (\<lambda>(evict_buf, h).
         bindR (dispose_line i evict_address b evict_buf th h) (\<lambda>h.
         bindR (getCacheState i evict_address h) (\<lambda>st.
         bindR (logAssertR (st = C_INVALID) ''Evicted address did not become invalid'') (\<lambda>_. Inr h)))))"

text \<open>
  The replacement policy asks the controller whether a block is in a previous level; it counts these questions in
  \<open>re_qbs_lookups\<close>, and each one costs \<^verbatim>\<open>incrementQBSLookupCost\<close>.
\<close>

definition insert_own ::
  "nat \<Rightarrow> IntPtr \<Rightarrow> UInt8 list option \<Rightarrow> UInt8 \<Rightarrow> IntPtr \<Rightarrow> hier \<Rightarrow> (bool \<times> IntPtr \<times> CacheBlockInfo \<times> UInt8 list option \<times> hier) result" where
  "insert_own i address data_buf write_flag eip h =
     (case hi_pop_frame h of (evict_buf, h) \<Rightarrow>
        bindR (Cache_insertSingleLine address data_buf (CacheBlockInfo_new SHARED_CACHE (NOT 0) C_INVALID 0) (Some evict_buf)
                 (Some (isInLowerLevelCache i h)) write_flag eip (the_cache i h) (hi_env h))
          (\<lambda>(eviction, evict_address, b, evict_buf, c, g).
        Inr (eviction, evict_address, b, evict_buf,
             (incrementQBSLookupCost i ^^ (re_qbs_lookups g - re_qbs_lookups (hi_env h))) (set_cache i c (h\<lparr>hi_env := g\<rparr>)))))"

definition updateLoopBitCntlr :: "nat \<Rightarrow> IntPtr \<Rightarrow> UInt8 \<Rightarrow> hier \<Rightarrow> hier result" where
  "updateLoopBitCntlr i address loopbit h =
     bindR (Cache_updateLoopBitCache address loopbit (the_cache i h)) (\<lambda>c. Inr (set_cache i c h))"

definition insertCacheBlock ::
  "nat \<Rightarrow> IntPtr \<Rightarrow> cstate_t \<Rightarrow> UInt8 list option \<Rightarrow> core_id_t \<Rightarrow> Thread_t \<Rightarrow> UInt8 \<Rightarrow> IntPtr \<Rightarrow> hier \<Rightarrow> hier result" where
  "insertCacheBlock i address cstate data_buf requester th write_flag eip h =
     (let comp = cc_mem_component (cn i h);
          h = (if comp = L3_CACHE then h\<lparr>hi_L3WritesFromDirectory := hi_L3WritesFromDirectory h + 1\<rparr> else h)
      in bindR (getCacheState i address h) (\<lambda>st.
         bindR (logAssertR (st = C_INVALID) ''we already have this line, can't add it again'') (\<lambda>_.
         bindR (insert_own i address data_buf write_flag eip h) (\<lambda>(eviction, evict_address, b, evict_buf, h).
         bindR (if comp = L2_CACHE
                then case next_of i h of
                       None \<Rightarrow> Inl (Trap ''null pointer'')
                     | Some nx \<Rightarrow> updateLoopBitCntlr nx evict_address (re_loop_bit_writeback (hi_env h)) h
                else Inr h) (\<lambda>h.
         bindR (setCacheState i address cstate h) (\<lambda>h.
         bindR (if comp = L3_CACHE then llc_write_cost i address h else Inr h) (\<lambda>h.
         bindR (if hi_cache_only h then upd_block i address (setOption WARMUP) h else Inr h) (\<lambda>h.
         bindR (case hi_get_owner h of
                  None \<Rightarrow> Inr h
                | Some get_owner \<Rightarrow> upd_block i address (\<lambda>b. b\<lparr>cbi_owner := get_owner requester address\<rparr>) h) (\<lambda>h.
         if eviction then evict_line i evict_address b evict_buf th h else Inr h)))))))))"

text \<open>The line is in the next level: it is copied from there.\<close>

definition copyDataFromNextLevel :: "nat \<Rightarrow> mem_op_t \<Rightarrow> IntPtr \<Rightarrow> bool \<Rightarrow> SubsecondTime \<Rightarrow> UInt8 \<Rightarrow> hier \<Rightarrow> hier result" where
  "copyDataFromNextLevel i mem_op_type address modeled t_now flag h =
     (case next_of i h of
        None \<Rightarrow> Inl (Trap ''null pointer'')
      | Some nx \<Rightarrow>
          bindR (operationPermissibleinCache nx address mem_op_type h) (\<lambda>(permitted, _).
          bindR (logAssertR permitted ''Tried to read from next-level cache, but data is already gone'') (\<lambda>_.
          case hi_pop_frame h of (data_buf, h) \<Rightarrow>
          bindR (retrieveCacheBlock nx address (Some data_buf) False h) (\<lambda>(data_buf, h).
          bindR (getCacheState nx address h) (\<lambda>cstate.
          bindR (if modeled \<and> \<not> isInfinite (cc_next_level_read_bandwidth (cn i h))
                 then bindR (BandwidthPerCycle_getRoundedLatency (hi_periods h) (cc_next_level_read_bandwidth (cn i h))
                               (ucast (cc_cache_block_size (cn i h) * 8))) (\<lambda>delay.
                      case getCompletionTime t_now delay 0 (mc_next_level_read_bandwidth (ms i h)) of (t_done, cm) \<Rightarrow>
                      bindR (logAssertR (t_done \<ge> t_now + delay) ''Did not expect next-level cache to be this fast'') (\<lambda>_.
                      Inr (incr i (t_done - t_now - delay) USER_THREAD (upd_ms i (\<lambda>m. m\<lparr>mc_next_level_read_bandwidth := cm\<rparr>) h))))
                 else Inr h) (\<lambda>h.
          bindR (getCacheBlockInfo i address h) (\<lambda>b.
          if b \<noteq> None then bindR (updateCacheBlock MAX_LEVELS i address cstate UPGRADE None h) (\<lambda>(_, _, h). Inr h)
          else insertCacheBlock i address cstate data_buf (cc_core_id (cn i h)) USER_THREAD flag (hi_eip_global_2 h) h)))))))"

section \<open>Miss status registers and statistics\<close>

definition mshr_put :: "IntPtr \<Rightarrow> MshrEntry \<Rightarrow> (IntPtr \<times> MshrEntry) list \<Rightarrow> (IntPtr \<times> MshrEntry) list" where
  "mshr_put a e m = filter (\<lambda>x. fst x \<noteq> a) m @ [(a, e)]"

text \<open>The entry that completes first, in the order of traversal; address 0 when no entry completes before \<^verbatim>\<open>MaxTime\<close>.\<close>

definition mshr_min :: "IntPtr list \<Rightarrow> (IntPtr \<times> MshrEntry) list \<Rightarrow> IntPtr" where
  "mshr_min keys m =
     fst (foldl (\<lambda>(address_min, time_min) k.
            case map_of m k of
              Some e \<Rightarrow> if me_t_complete e < time_min then (k, me_t_complete e) else (address_min, time_min)
            | None \<Rightarrow> (address_min, time_min)) (0, MaxTime) keys)"

fun cleanup_mshr :: "nat \<Rightarrow> (IntPtr list \<Rightarrow> IntPtr list) \<Rightarrow> (IntPtr \<times> MshrEntry) list \<Rightarrow> (IntPtr \<times> MshrEntry) list result" where
  "cleanup_mshr fuel order m =
     (if length m > 8
      then case fuel of
             0 \<Rightarrow> Inl Diverges
           | Suc fuel \<Rightarrow> let address_min = mshr_min (order (map fst m)) m in cleanup_mshr fuel order (filter (\<lambda>x. fst x \<noteq> address_min) m)
      else Inr m)"

definition cleanupMshr :: "nat \<Rightarrow> hier \<Rightarrow> hier result" where
  "cleanupMshr i h =
     bindR (cleanup_mshr (length (mc_mshr (ms i h))) (hi_umap_order h) (mc_mshr (ms i h))) (\<lambda>m.
     Inr (upd_ms i (\<lambda>x. x\<lparr>mc_mshr := m\<rparr>) h))"

definition mshr_busy :: "nat \<Rightarrow> IntPtr \<Rightarrow> SubsecondTime \<Rightarrow> hier \<Rightarrow> MshrEntry option" where
  "mshr_busy i address t_now h =
     (case map_of (mc_mshr (ms i h)) address of
        Some e \<Rightarrow> if me_t_issue e < t_now \<and> me_t_complete e > t_now then Some e else None
      | None \<Rightarrow> None)"

definition accessATDs :: "nat \<Rightarrow> mem_op_t \<Rightarrow> bool \<Rightarrow> IntPtr \<Rightarrow> core_id_t \<Rightarrow> hier \<Rightarrow> hier result" where
  "accessATDs i mem_op_type hit address core_num h =
     (let atds = mc_atds (ms i h)
      in if atds = [] then Inr h
         else if 0 \<le> core_num \<and> nat core_num < length atds
         then bindR (ATD_access mem_op_type hit address (atds ! nat core_num) (hi_env h)) (\<lambda>(a, g).
              Inr (upd_ms i (\<lambda>m. m\<lparr>mc_atds := atds[nat core_num := a]\<rparr>) (h\<lparr>hi_env := g\<rparr>)))
         else Inl (Trap ''vector out of range''))"

definition count_store :: "bool \<Rightarrow> bool \<Rightarrow> cstate_t \<Rightarrow> prefetch_type_t \<Rightarrow> cntlr_stats \<Rightarrow> cntlr_stats" where
  "count_store cache_hit overlapping state isPrefetch s =
     (let s = (if isPrefetch \<noteq> PF_NONE then s\<lparr>st_stores_prefetch := st_stores_prefetch s + 1\<rparr> else s)
      in if isPrefetch \<noteq> PF_OWN
         then let s = s\<lparr>st_stores := st_stores s + 1, st_stores_state := (st_stores_state s)(state := st_stores_state s state + 1)\<rparr>
              in if \<not> cache_hit \<or> overlapping
                 then s\<lparr>st_store_misses := st_store_misses s + 1,
                        st_store_misses_state := (st_store_misses_state s)(state := st_store_misses_state s state + 1),
                        st_store_overlapping_misses := st_store_overlapping_misses s + (if overlapping then 1 else 0)\<rparr>
                 else s
         else s)"

definition count_load :: "bool \<Rightarrow> bool \<Rightarrow> cstate_t \<Rightarrow> prefetch_type_t \<Rightarrow> cntlr_stats \<Rightarrow> cntlr_stats" where
  "count_load cache_hit overlapping state isPrefetch s =
     (let s = (if isPrefetch \<noteq> PF_NONE then s\<lparr>st_loads_prefetch := st_loads_prefetch s + 1\<rparr> else s)
      in if isPrefetch \<noteq> PF_OWN
         then let s = s\<lparr>st_loads := st_loads s + 1, st_loads_state := (st_loads_state s)(state := st_loads_state s state + 1)\<rparr>
              in if \<not> cache_hit
                 then s\<lparr>st_load_misses := st_load_misses s + 1,
                        st_load_misses_state := (st_load_misses_state s)(state := st_load_misses_state s state + 1),
                        st_load_overlapping_misses := st_load_overlapping_misses s + (if overlapping then 1 else 0)\<rparr>
                 else s
         else s)"

definition cntlr_updateCounters :: "nat \<Rightarrow> mem_op_t \<Rightarrow> IntPtr \<Rightarrow> bool \<Rightarrow> cstate_t \<Rightarrow> prefetch_type_t \<Rightarrow> hier \<Rightarrow> hier result" where
  "cntlr_updateCounters i mem_op_type address cache_hit state isPrefetch h =
     (let overlapping = mshr_busy i address (elapsed i USER_THREAD h) h \<noteq> None
      in bindR (accessATDs i mem_op_type (state \<noteq> C_INVALID) address (cc_core_id (cn i h) - cc_core_id_master (cn i h)) h) (\<lambda>h.
         cleanupMshr i (upd_stats i (if mem_op_type = WRITE then count_store cache_hit overlapping state isPrefetch
                                     else count_load cache_hit overlapping state isPrefetch) h)))"

fun cntlr_updateHits :: "nat \<Rightarrow> nat \<Rightarrow> mem_op_t \<Rightarrow> hier \<Rightarrow> hier result" where
  "cntlr_updateHits 0 i mem_op_type h = Inr h"
| "cntlr_updateHits (Suc hits) i mem_op_type h =
     bindR (cntlr_updateCounters i mem_op_type 0 True (if mem_op_type = READ then C_SHARED else C_MODIFIED) PF_NONE
              (set_cache i (Cache_updateCounters True (the_cache i h)) h)) (\<lambda>h.
     cntlr_updateHits hits i mem_op_type h)"

definition updateUncoreStatistics :: "nat \<Rightarrow> where_t \<Rightarrow> hier \<Rightarrow> hier" where
  "updateUncoreStatistics i hit_where h = upd_cn i (\<lambda>c. c\<lparr>cc_last_remote_hit_where := hit_where\<rparr>) h"

section \<open>Prefetching\<close>

definition PREFETCH_MAX_QUEUE_LENGTH :: nat where "PREFETCH_MAX_QUEUE_LENGTH = 32"

definition PREFETCH_INTERVAL :: SubsecondTime where "PREFETCH_INTERVAL = time_in Unit_NS 1"

fun fill_prefetch_list :: "nat \<Rightarrow> hier \<Rightarrow> IntPtr list \<Rightarrow> IntPtr list \<Rightarrow> IntPtr list result" where
  "fill_prefetch_list i h [] queue = Inr queue"
| "fill_prefetch_list i h (a # as) queue =
     (if length queue > PREFETCH_MAX_QUEUE_LENGTH then Inr queue
      else bindR (operationPermissibleinCache i a READ h) (\<lambda>(permitted, _).
           fill_prefetch_list i h as (if permitted then queue else queue @ [a])))"

definition trainPrefetcher :: "nat \<Rightarrow> IntPtr \<Rightarrow> bool \<Rightarrow> bool \<Rightarrow> SubsecondTime \<Rightarrow> hier \<Rightarrow> hier result" where
  "trainPrefetcher i address cache_hit prefetch_hit t_issue h =
     (case mc_prefetcher (ms i h) of
        None \<Rightarrow> Inl (Trap ''null pointer'')
      | Some p \<Rightarrow>
          bindR (getNextAddress address (cc_core_id (cn i h)) p) (\<lambda>(prefetchList, p).
          let h = upd_ms i (\<lambda>m. m\<lparr>mc_prefetcher := Some p\<rparr>) h
          in if \<not> cache_hit \<or> (cc_prefetch_on_prefetch_hit (cn i h) \<and> prefetch_hit)
             then bindR (fill_prefetch_list i h prefetchList []) (\<lambda>queue.
                  Inr (upd_ms i (\<lambda>m. m\<lparr>mc_prefetch_list := queue, mc_prefetch_next := t_issue + PREFETCH_INTERVAL\<rparr>) h))
             else Inr h))"

text \<open>Taking addresses from the list until one is not yet in the cache; \<^verbatim>\<open>INVALID_ADDRESS\<close> when there is none.\<close>

fun next_prefetch :: "nat \<Rightarrow> hier \<Rightarrow> IntPtr list \<Rightarrow> (IntPtr \<times> IntPtr list) result" where
  "next_prefetch i h [] = Inr (INVALID_ADDRESS, [])"
| "next_prefetch i h (a # as) =
     bindR (operationPermissibleinCache i a READ h) (\<lambda>(permitted, _). if permitted then next_prefetch i h as else Inr (a, as))"

section \<open>Requests to the directory\<close>

definition processExReqToDirectory :: "nat \<Rightarrow> IntPtr \<Rightarrow> hier \<Rightarrow> hier result" where
  "processExReqToDirectory i address h =
     bindR (getCacheState i address h) (\<lambda>cstate.
     bindR (logAssertR (cstate \<noteq> C_SHARED) ''ExReq for a Cacheblock in S, should be a UpgradeReq'') (\<lambda>_.
     bindR (assertR (cstate = C_INVALID) ''cstate == CacheState::INVALID'') (\<lambda>_.
     bindR (getHome (cc_home_lookup (cn i h)) address) (\<lambda>home.
     hi_sendMsg i EX_REQ (cc_core_id_master (cn i h)) home address None 0 USER_THREAD h))))"

definition processUpgradeReqToDirectory :: "nat \<Rightarrow> IntPtr \<Rightarrow> Thread_t \<Rightarrow> hier \<Rightarrow> hier result" where
  "processUpgradeReqToDirectory i address th h =
     bindR (getCacheState i address h) (\<lambda>cstate.
     bindR (assertR (cstate = C_SHARED) ''cstate == CacheState::SHARED'') (\<lambda>_.
     bindR (setCacheState i address C_SHARED_UPGRADING h) (\<lambda>h.
     bindR (getHome (cc_home_lookup (cn i h)) address) (\<lambda>home.
     hi_sendMsg i UPGRADE_REQ (cc_core_id_master (cn i h)) home address None 0 th h))))"

definition processShReqToDirectory :: "nat \<Rightarrow> IntPtr \<Rightarrow> hier \<Rightarrow> hier result" where
  "processShReqToDirectory i address h =
     bindR (getHome (cc_home_lookup (cn i h)) address) (\<lambda>home.
     hi_sendMsg i SH_REQ (cc_core_id_master (cn i h)) home address None 0 USER_THREAD h)"

definition initiateDirectoryAccess :: "nat \<Rightarrow> mem_op_t \<Rightarrow> IntPtr \<Rightarrow> bool \<Rightarrow> SubsecondTime \<Rightarrow> hier \<Rightarrow> hier result" where
  "initiateDirectoryAccess i mem_op_type address isPrefetch t_issue h =
     bindR (case mem_op_type of READ \<Rightarrow> Inr False | READ_EX \<Rightarrow> Inr True | WRITE \<Rightarrow> Inr True
            | INVALID_MEM_OP \<Rightarrow> Inl (LogError ''Unsupported Mem Op Type'')) (\<lambda>exclusive.
     let request = \<lparr>cw_exclusive = exclusive, cw_isPrefetch = isPrefetch, cw_cache_cntlr = i, cw_t_issue = t_issue\<rparr>;
         waiters = ReqQueueList_enqueue (mc_directory_waiters (ms i h)) address request;
         h = upd_ms i (\<lambda>m. m\<lparr>mc_directory_waiters := waiters\<rparr>) h
     in if ReqQueueList_size waiters address = 1
        then if exclusive
             then bindR (getCacheBlockInfo i address h) (\<lambda>b.
                  if state_of b = C_SHARED then processUpgradeReqToDirectory i address USER_THREAD h
                  else processExReqToDirectory i address h)
             else processShReqToDirectory i address h
        else Inr h)"

section \<open>Requests from the previous level\<close>

text \<open>The caches of the previous level other than the requester.\<close>

definition siblings :: "nat \<Rightarrow> nat \<Rightarrow> hier \<Rightarrow> nat list" where
  "siblings i requester h = filter (\<lambda>p. p \<noteq> requester) (prevs_of i h)"

definition snoop_siblings :: "nat \<Rightarrow> nat \<Rightarrow> IntPtr \<Rightarrow> cstate_t \<Rightarrow> reason_t \<Rightarrow> hier \<Rightarrow> (bool \<times> hier) result" where
  "snoop_siblings i requester address cstate reason h =
     bindR (each_prev (snoop address cstate reason) (siblings i requester h) (0, False) h) (\<lambda>(res, h).
     Inr (snd res, add_snoop i (fst res) USER_THREAD h))"

text \<open>The time of a hit: the rest of an access under way, or an access of the data array.\<close>

definition hit_time :: "nat \<Rightarrow> mem_op_t \<Rightarrow> IntPtr \<Rightarrow> hier \<Rightarrow> hier result" where
  "hit_time i mem_op_type address h =
     (let t_now = elapsed i USER_THREAD h
      in case mshr_busy i address t_now h of
           Some e \<Rightarrow>
             (let latency = me_t_complete e - t_now
              in Inr (incr i latency USER_THREAD (upd_stats i (\<lambda>s. s\<lparr>st_mshr_latency := st_mshr_latency s + latency\<rparr>) h)))
         | None \<Rightarrow>
             if mem_op_type = WRITE \<and> cc_mem_component (cn i h) = L3_CACHE then llc_write_cost i address h
             else Inr (incr_cost i ACCESS_CACHE_DATA_AND_TAGS USER_THREAD h))"

text \<open>A hit clears the marks of prefetching and warm-up. The result says whether the line had been prefetched.\<close>

definition clear_marks :: "nat \<Rightarrow> IntPtr \<Rightarrow> bool \<Rightarrow> hier \<Rightarrow> (bool \<times> hier) result" where
  "clear_marks i address check_prefetch h =
     bindR (getCacheBlockInfo i address h) (\<lambda>info.
     case info of
       None \<Rightarrow> Inl (Trap ''null pointer'')
     | Some b \<Rightarrow>
         (let prefetch_hit = check_prefetch \<and> hasOption PREFETCH b
          in bindR (if prefetch_hit
                    then upd_block i address (clearOption PREFETCH) (upd_stats i (\<lambda>s. s\<lparr>st_hits_prefetch := st_hits_prefetch s + 1\<rparr>) h)
                    else Inr h) (\<lambda>h.
             bindR (if hasOption WARMUP b \<and> \<not> hi_cache_only h
                    then upd_block i address (clearOption WARMUP) (upd_stats i (\<lambda>s. s\<lparr>st_hits_warmup := st_hits_warmup s + 1\<rparr>) h)
                    else Inr h) (\<lambda>h. Inr (prefetch_hit, h)))))"

text \<open>The hit path of \<^verbatim>\<open>processShmemReqFromPrevCache\<close>.\<close>

definition prev_request_hit ::
  "nat \<Rightarrow> nat \<Rightarrow> mem_op_t \<Rightarrow> IntPtr \<Rightarrow> bool \<Rightarrow> prefetch_type_t \<Rightarrow> hier \<Rightarrow> (where_t \<times> bool \<times> hier) result" where
  "prev_request_hit requester i mem_op_type address modeled isPrefetch h =
     bindR (clear_marks i address (isPrefetch = PF_NONE) h) (\<lambda>(prefetch_hit, h).
     bindR (if modeled then hit_time i mem_op_type address h else Inr h) (\<lambda>h.
     bindR (getCacheState i address h) (\<lambda>st.
     bindR (if mem_op_type \<noteq> READ then snoop_siblings i requester address C_INVALID COHERENCY h
            else if st = C_MODIFIED \<or> st = C_EXCLUSIVE then snoop_siblings i requester address C_SHARED COHERENCY h
            else Inr (False, h)) (\<lambda>(sibling_hit, h).
     if cc_last_remote_hit_where (cn i h) \<noteq> HIT_UNKNOWN
     then Inr (cc_last_remote_hit_where (cn i h), prefetch_hit, upd_cn i (\<lambda>c. c\<lparr>cc_last_remote_hit_where := HIT_UNKNOWN\<rparr>) h)
     else Inr (where_of (cc_mem_component (cn i h)) sibling_hit, prefetch_hit, h)))))"

text \<open>The miss path at the last level: silent upgrade, direct DRAM access, or a request to the directory.\<close>

definition last_level_miss ::
  "nat \<Rightarrow> nat \<Rightarrow> mem_op_t \<Rightarrow> IntPtr \<Rightarrow> bool \<Rightarrow> SubsecondTime \<Rightarrow> IntPtr \<Rightarrow> CacheBlockInfo option \<Rightarrow> hier \<Rightarrow> (where_t \<times> hier) result" where
  "last_level_miss requester i mem_op_type address isPrefetch t_issue eip info h =
     (if state_of info = C_EXCLUSIVE
      then bindR (snoop_siblings i requester address C_INVALID UPGRADE h) (\<lambda>(_, h).
           bindR (setCacheState i address C_MODIFIED h) (\<lambda>h. Inr (where_of (cc_mem_component (cn i h)) False, h)))
      else if mc_dram_cntlr (ms i h) \<noteq> None
      then if info \<noteq> None
           then bindR (setCacheState i address C_MODIFIED h) (\<lambda>h. Inr (where_of (cc_mem_component (cn i h)) False, h))
           else case hi_pop_frame h of (data_buf, h) \<Rightarrow>
                bindR (accessDRAM i READ address (Some data_buf) h) (\<lambda>(hit_where, latency, data_buf, h).
                bindR (insertCacheBlock i address (if mem_op_type = READ then C_SHARED else C_MODIFIED) data_buf (cc_core_id (cn i h))
                         USER_THREAD 100 eip (incr i latency USER_THREAD h)) (\<lambda>h.
                bindR (if isPrefetch then upd_block i address (setOption PREFETCH) h else Inr h) (\<lambda>h.
                Inr (hit_where, updateUncoreStatistics i hit_where h))))
      else bindR (initiateDirectoryAccess i mem_op_type address isPrefetch t_issue (h\<lparr>hi_eip_global := eip\<rparr>)) (\<lambda>h. Inr (HIT_MISS, h)))"

text \<open>A miss of the second level toggles the flag that the next copy passes on.\<close>

definition toggle_l3_hit_flag :: "nat \<Rightarrow> hier \<Rightarrow> hier" where
  "toggle_l3_hit_flag i h =
     (if cc_mem_component (cn i h) = L2_CACHE
      then if hi_l3_hit_flag h = 0 then h\<lparr>hi_l3_hit_flag := 1\<rparr>
           else if hi_l3_hit_flag h = 1 then h\<lparr>hi_l3_hit_flag := 0\<rparr> else h
      else h)"

text \<open>
  A perfect cache turns every miss into a hit, a pass-through cache every counted hit into a miss. The results are
  \<^verbatim>\<open>cache_hit\<close>, \<^verbatim>\<open>first_hit\<close> and \<^verbatim>\<open>cache_block_info\<close>.
\<close>

definition adjust_hit ::
  "nat \<Rightarrow> mem_op_t \<Rightarrow> IntPtr \<Rightarrow> bool \<Rightarrow> IntPtr \<Rightarrow> bool \<Rightarrow> CacheBlockInfo option \<Rightarrow> hier \<Rightarrow> (bool \<times> bool \<times> CacheBlockInfo option \<times> hier) result" where
  "adjust_hit i mem_op_type address through eip cache_hit info h =
     (if \<not> cache_hit \<and> cc_perfect (cn i h)
      then bindR (if info \<noteq> None then setCacheState i address C_MODIFIED h
                  else insertCacheBlock i address (if mem_op_type = READ then C_SHARED else C_MODIFIED) None (cc_core_id (cn i h))
                         USER_THREAD 100 eip h) (\<lambda>h.
           bindR (getCacheBlockInfo i address h) (\<lambda>info. Inr (True, False, info, h)))
      else if cache_hit \<and> cc_passthrough (cn i h) \<and> through
      then bindR (upd_block i address CacheBlockInfo_invalidate h) (\<lambda>h. Inr (False, False, None, h))
      else Inr (cache_hit, cache_hit, info, h))"

fun processShmemReqFromPrevCache ::
  "nat \<Rightarrow> nat \<Rightarrow> nat \<Rightarrow> mem_op_t \<Rightarrow> IntPtr \<Rightarrow> bool \<Rightarrow> bool \<Rightarrow> prefetch_type_t \<Rightarrow> SubsecondTime \<Rightarrow> IntPtr \<Rightarrow> hier \<Rightarrow> (where_t \<times> hier) result" where
  "processShmemReqFromPrevCache 0 requester i mem_op_type address modeled cnt isPrefetch t_issue eip h = Inl Diverges"
| "processShmemReqFromPrevCache (Suc n) requester i mem_op_type address modeled cnt isPrefetch t_issue eip h =
     bindR (operationPermissibleinCache i address mem_op_type h) (\<lambda>(permitted, info).
     bindR (adjust_hit i mem_op_type address cnt eip permitted info h) (\<lambda>(hit, first_hit, info, h).
     bindR (logAssertR (permitted \<and> cc_passthrough (cn i h) \<and> cnt \<longrightarrow> next_of i h \<noteq> None) ''Cannot do passthrough on an LLC'') (\<lambda>_.
     bindR (if cnt
            then let h = (if isPrefetch = PF_NONE then set_cache i (Cache_updateCounters hit (the_cache i h)) h else h)
                 in bindR (getCacheState i address h) (\<lambda>st. cntlr_updateCounters i mem_op_type address hit st isPrefetch h)
            else Inr h) (\<lambda>h.
     bindR (if hit
            then bindR (prev_request_hit requester i mem_op_type address modeled isPrefetch h) (\<lambda>(w, prefetch_hit, h). Inr (w, True, prefetch_hit, h))
            else let h = toggle_l3_hit_flag i h;
                     h = (if modeled then incr_cost i ACCESS_CACHE_TAGS USER_THREAD h else h)
                 in bindR (if state_of info = C_SHARED
                           then bindR (snoop_siblings i requester address C_INVALID UPGRADE h) (\<lambda>(_, h). Inr h)
                           else Inr h) (\<lambda>h.
                    case next_of i h of
                      Some nx \<Rightarrow>
                        bindR (if info \<noteq> None then invalidateCacheBlock i address h else Inr h) (\<lambda>h.
                        bindR (processShmemReqFromPrevCache n i nx mem_op_type address modeled cnt
                                 (if isPrefetch = PF_NONE then PF_NONE else PF_OTHER) t_issue eip h) (\<lambda>(w, h).
                        if w \<noteq> HIT_MISS
                        then bindR (copyDataFromNextLevel i mem_op_type address modeled (elapsed i USER_THREAD h) (hi_l3_hit_flag h) h) (\<lambda>h.
                             bindR (if isPrefetch \<noteq> PF_NONE then upd_block i address (setOption PREFETCH) h else Inr h) (\<lambda>h.
                             Inr (w, True, False, h)))
                        else Inr (w, False, False, h)))
                    | None \<Rightarrow>
                        bindR (last_level_miss requester i mem_op_type address (isPrefetch \<noteq> PF_NONE) t_issue eip info h) (\<lambda>(w, h).
                        Inr (w, w \<noteq> HIT_MISS, False, h)))) (\<lambda>(w, hit, prefetch_hit, h).
     bindR (if hit
            then case hi_pop_frame h of (data_buf, h) \<Rightarrow>
                 bindR (retrieveCacheBlock i address (Some data_buf) (first_hit \<and> cnt) h) (\<lambda>(_, h).
                 if modeled \<and> \<not> first_hit \<and> \<not> cc_passthrough (cn i h)
                 then cleanupMshr i (upd_ms i (\<lambda>m. m\<lparr>mc_mshr := mshr_put address (make_mshr t_issue (elapsed i USER_THREAD h)) (mc_mshr m)\<rparr>) h)
                 else Inr h)
            else Inr h) (\<lambda>h.
     bindR (if modeled \<and> mc_prefetcher (ms i h) \<noteq> None then trainPrefetcher i address hit prefetch_hit t_issue h else Inr h) (\<lambda>h.
     Inr (w, h))))))))"

end
