(* ===== verification/Cache_Mshr.thy ===== *)
theory Cache_Mshr
  imports Cache_Requests
begin

text \<open>
  The clean-up of the miss status registers (\<^verbatim>\<open>cleanupMshr\<close> of \<^verbatim>\<open>cache_cntlr.cc\<close>): while there are more than eight entries the
  one that completes first is removed. The loop ends when every entry has a completion time before \<^verbatim>\<open>MaxTime\<close>.
\<close>

declare cleanup_mshr.simps [simp del]

abbreviation min_step :: "(IntPtr \<times> MshrEntry) list \<Rightarrow> IntPtr \<times> SubsecondTime \<Rightarrow> IntPtr \<Rightarrow> IntPtr \<times> SubsecondTime" where
  "min_step m \<equiv> \<lambda>(address_min, time_min) k.
     case map_of m k of
       Some e \<Rightarrow> if me_t_complete e < time_min then (k, me_t_complete e) else (address_min, time_min)
     | None \<Rightarrow> (address_min, time_min)"

lemma min_fold:
  "foldl (min_step m) (a0, t0) ks = (a, t) \<Longrightarrow>
     t \<le> t0 \<and> (\<forall>k \<in> set ks. \<forall>e. map_of m k = Some e \<longrightarrow> t \<le> me_t_complete e)
     \<and> ((a, t) = (a0, t0) \<or> (\<exists>e. map_of m a = Some e \<and> me_t_complete e = t))"
proof (induction ks arbitrary: a0 t0)
  case (Cons k ks)
  show ?case
  proof (cases "map_of m k")
    case None
    then show ?thesis using Cons by auto
  next
    case (Some e)
    show ?thesis
    proof (cases "me_t_complete e < t0")
      case True
      then show ?thesis using Some Cons.IH [of k "me_t_complete e"] Cons.prems by auto
    next
      case False
      then show ?thesis using Some Cons.IH [of a0 t0] Cons.prems by auto
    qed
  qed
qed simp

text \<open>\<open>mshr_min\<close> is the key of an entry that completes first.\<close>

lemma mshr_min_first:
  assumes "m \<noteq> []" and "set keys = fst ` set m" and "\<And>x. x \<in> set m \<Longrightarrow> me_t_complete (snd x) < MaxTime" and "distinct (map fst m)"
  shows "\<exists>e. (mshr_min keys m, e) \<in> set m \<and> (\<forall>x \<in> set m. me_t_complete e \<le> me_t_complete (snd x))"
proof -
  obtain a t where f: "foldl (min_step m) (0, MaxTime) keys = (a, t)" by fastforce
  have lookup: "map_of m (fst x) = Some (snd x)" if "x \<in> set m" for x using that assms(4) by simp
  note r = min_fold [OF f]
  have t: "\<forall>x \<in> set m. t \<le> me_t_complete (snd x)" using r lookup assms(2) by auto
  obtain x where "x \<in> set m" using assms(1) by (cases m) auto
  then have "t < MaxTime" using t assms(3) by fastforce
  then obtain e where "map_of m a = Some e" "me_t_complete e = t" using r by auto
  then show ?thesis using t f by (auto simp: mshr_min_def dest: map_of_SomeD intro!: exI [of _ e])
qed

lemma length_remove_key:
  assumes "distinct (map fst m)" and "(a, e) \<in> set m"
  shows "length m = Suc (length (filter (\<lambda>x. fst x \<noteq> a) m))"
  using assms
proof (induction m)
  case (Cons y m)
  show ?case
  proof (cases "fst y = a")
    case True
    then have "filter (\<lambda>x. fst x \<noteq> a) m = m" using Cons.prems(1) by (auto simp: filter_id_conv image_iff)
    then show ?thesis using True by simp
  next
    case False
    then show ?thesis using Cons by auto
  qed
qed simp

text \<open>
  C27: \<^verbatim>\<open>cleanupMshr\<close> ends and leaves the eight entries that complete last, or all of them when there are no more than eight: the table never grows
  beyond eight entries, and no entry is dropped before one that completes earlier. This holds for every order in which the hash table is
  traversed, as long as no entry completes at the sentinel \<^verbatim>\<open>MaxTime\<close>.
\<close>

theorem cleanup_mshr_keeps_latest:
  assumes "distinct (map fst m)" and "\<And>ks. set (order ks) = set ks" and "\<And>x. x \<in> set m \<Longrightarrow> me_t_complete (snd x) < MaxTime"
  shows "\<exists>m'. cleanup_mshr (length m) order m = Inr m' \<and> length m' = min 8 (length m) \<and> set m' \<subseteq> set m
    \<and> (\<forall>x \<in> set m'. \<forall>y \<in> set m - set m'. me_t_complete (snd y) \<le> me_t_complete (snd x))"
  using assms
proof (induction "length m" arbitrary: m)
  case 0
  then show ?case by (simp add: cleanup_mshr.simps)
next
  case (Suc n)
  show ?case
  proof (cases "length m > 8")
    case False
    then show ?thesis by (simp add: cleanup_mshr.simps [of "length m"] min_def)
  next
    case True
    let ?a = "mshr_min (order (map fst m)) m"
    let ?m = "filter (\<lambda>x. fst x \<noteq> ?a) m"
    have "m \<noteq> []" "set (order (map fst m)) = fst ` set m" using True Suc.prems(2) by auto
    then obtain e where e: "(?a, e) \<in> set m" "\<forall>x \<in> set m. me_t_complete e \<le> me_t_complete (snd x)"
      using mshr_min_first [OF _ _ Suc.prems(3,1)] by blast
    have len: "n = length ?m" using length_remove_key [OF Suc.prems(1) e(1)] Suc.hyps(2) by simp
    have d: "distinct (map fst ?m)" using Suc.prems(1) by (rule distinct_map_filter)
    obtain m' where m': "cleanup_mshr n order ?m = Inr m'" "length m' = min 8 n" "set m' \<subseteq> set ?m"
      "\<forall>x \<in> set m'. \<forall>y \<in> set ?m - set m'. me_t_complete (snd y) \<le> me_t_complete (snd x)"
      using Suc.hyps(1) [OF len d Suc.prems(2)] Suc.prems(3) len by auto
    have gone: "me_t_complete (snd y) \<le> me_t_complete (snd x)" if x: "x \<in> set m'" and y: "y \<in> set m - set m'" for x y
    proof (cases "fst y = ?a")
      case True
      have "map_of m ?a = Some e" "map_of m (fst y) = Some (snd y)" using y e(1) Suc.prems(1) by simp_all
      then have "y = (?a, e)" using True by (simp add: prod_eq_iff)
      then show ?thesis using e(2) x m'(3) by auto
    next
      case False
      then show ?thesis using m'(4) x y by auto
    qed
    have "cleanup_mshr (Suc n) order m = Inr m'" using True m'(1) by (simp add: cleanup_mshr.simps [of "Suc n"] Let_def)
    moreover have "length m' = min 8 (Suc n)" using m'(2) True Suc.hyps(2) by simp
    moreover have "set m' \<subseteq> set m" using m'(3) by auto
    ultimately show ?thesis unfolding Suc.hyps(2) [symmetric] using gone by (intro exI [of _ m'] conjI ballI)
  qed
qed

theorem cleanup_mshr_keeps_latest_witness:
  "\<exists>m'. cleanup_mshr 9 rev (map (\<lambda>t. (t, make_mshr 0 t)) [1, 2, 3, 4, 5, 6, 7, 8, 9]) = Inr m' \<and> length m' = 8"
proof -
  let ?m = "map (\<lambda>t. (t :: IntPtr, make_mshr 0 t)) [1, 2, 3, 4, 5, 6, 7, 8, 9]"
  have d: "distinct (map fst ?m)" by simp
  have t: "me_t_complete (snd x) < MaxTime" if "x \<in> set ?m" for x using that by (auto simp: make_mshr_def)
  have l: "length ?m = 9" by simp
  from cleanup_mshr_keeps_latest [OF d _ t, of rev] obtain m' where "cleanup_mshr (length ?m) rev ?m = Inr m'" "length m' = min 8 (length ?m)"
    by (metis set_rev)
  then show ?thesis unfolding l by auto
qed

text \<open>Nine entries that never complete are never cleaned up: the loop erases the absent key 0 again and again.\<close>

lemma cleanup_mshr_diverges:
  "cleanup_mshr fuel (\<lambda>ks. ks) (map (\<lambda>a. (a, make_mshr 0 MaxTime)) [1, 2, 3, 4, 5, 6, 7, 8, 9]) = Inl Diverges"
proof (induction fuel)
  case 0
  show ?case by (simp add: cleanup_mshr.simps)
next
  case (Suc fuel)
  let ?m = "map (\<lambda>a. (a :: IntPtr, make_mshr 0 MaxTime)) [1, 2, 3, 4, 5, 6, 7, 8, 9]"
  have "mshr_min (map fst ?m) ?m = 0" by (simp add: mshr_min_def make_mshr_def)
  moreover have "filter (\<lambda>x. fst x \<noteq> 0) ?m = ?m" by simp
  moreover have "length ?m > 8" by simp
  ultimately show ?case using Suc unfolding cleanup_mshr.simps [of "Suc fuel"] by (simp only: if_True nat.case Let_def)
qed

end
