(* ===== verification/Cache_Threads.thy ===== *)
theory Cache_Threads
  imports Cache_Requests
begin

text \<open>
  The two threads that use the controllers of \<^verbatim>\<open>cache_cntlr.cc\<close>: the core's user thread, which runs memory operations and
  prefetches, and the network thread, which handles the messages of the directory. After a miss of the last level the user thread waits
  for the network thread: \<open>wait i address\<close> is what happens until it is woken up. The network thread wakes up the waiting user threads
  one by one: \<open>user i address\<close> is what the woken thread does until it gives the line back. The constructors are here too.
\<close>

section \<open>Construction\<close>

record cntlr_config =
  kc_repl :: repl_config
  kc_prefetch :: prefetch_config
  kc_atd :: "atd_config option"
  kc_passthrough :: bool
  kc_prefetch_on_prefetch_hit :: bool
  kc_has_perfect_llc :: bool

definition createATDs :: "cntlr_config \<Rightarrow> string \<Rightarrow> CacheParameters \<Rightarrow> UInt32 \<Rightarrow> hash_t \<Rightarrow> ATD list result" where
  "createATDs cfg name params block_size hash =
     (case kc_atd cfg of
        None \<Rightarrow> Inr []
      | Some acfg \<Rightarrow>
          bindR (ATD_create (kc_repl cfg) acfg (name @ ''.atd'') (cp_num_sets params) (cp_associativity params) block_size
                   (cp_replacement_policy params) hash) (\<lambda>a.
          Inr (replicate (unat (cp_shared_cores params)) a)))"

definition CacheMasterCntlr_create ::
  "cntlr_config \<Rightarrow> string \<Rightarrow> core_id_t \<Rightarrow> UInt32 \<Rightarrow> CacheParameters \<Rightarrow> FaultInjector option \<Rightarrow> CacheMasterCntlr result" where
  "CacheMasterCntlr_create cfg name core_id block_size params fault_injector =
     bindR (parseAddressHash (cp_hash_function params)) (\<lambda>hash.
     bindR (Cache_create (kc_repl cfg) name (cp_num_sets params) (cp_associativity params) block_size (cp_replacement_policy params)
              SHARED_CACHE hash fault_injector None) (\<lambda>cache.
     bindR (createPrefetcher (kc_prefetch cfg) (cp_prefetcher params) core_id (cp_shared_cores params)) (\<lambda>prefetcher.
     bindR (createATDs cfg name params block_size hash) (\<lambda>atds.
     Inr \<lparr>mc_cache = cache, mc_prev_cache_cntlrs = [], mc_prefetcher = prefetcher, mc_dram_cntlr = None,
          mc_dram_outstanding_writebacks = None, mc_mshr = [], mc_l1_mshr = ContentionModel_create (cp_outstanding_misses params),
          mc_next_level_read_bandwidth = ContentionModel_create 1, mc_directory_waiters = ReqQueueList_new, mc_evicting_address = 0,
          mc_evicting_buf = None, mc_atds = atds, mc_prefetch_list = [], mc_prefetch_next = 0\<rparr>))))"

definition no_stats :: cntlr_stats where
  "no_stats =
     \<lparr>st_loads = 0, st_stores = 0, st_load_misses = 0, st_store_misses = 0, st_load_overlapping_misses = 0,
      st_store_overlapping_misses = 0, st_loads_state = (\<lambda>_. 0), st_stores_state = (\<lambda>_. 0), st_loads_where = (\<lambda>_. 0),
      st_stores_where = (\<lambda>_. 0), st_load_misses_state = (\<lambda>_. 0), st_store_misses_state = (\<lambda>_. 0), st_loads_prefetch = 0,
      st_stores_prefetch = 0, st_hits_prefetch = 0, st_evict_prefetch = 0, st_invalidate_prefetch = 0, st_evict = (\<lambda>_. 0),
      st_backinval = (\<lambda>_. 0), st_hits_warmup = 0, st_evict_warmup = 0, st_invalidate_warmup = 0, st_total_latency = 0,
      st_snoop_latency = 0, st_qbs_query_latency = 0, st_mshr_latency = 0, st_prefetches = 0, st_coherency_downgrades = 0,
      st_coherency_upgrades = 0, st_coherency_invalidates = 0, st_coherency_writebacks = 0\<rparr>"

text \<open>
  The constructor of a controller. The master is the controller of the first of the cores that share the cache;
  \<open>masters core component\<close> is the number of its \<^verbatim>\<open>CacheMasterCntlr\<close>, and the pair of results holds a new master for a master
  cache.
\<close>

definition CacheCntlr_create ::
  "cntlr_config \<Rightarrow> component_t \<Rightarrow> string \<Rightarrow> core_id_t \<Rightarrow> AddressHomeLookup \<Rightarrow> UInt32 \<Rightarrow> CacheParameters \<Rightarrow> bool \<Rightarrow> FaultInjector option \<Rightarrow>
     (core_id_t \<Rightarrow> component_t \<Rightarrow> nat) \<Rightarrow> (nat \<Rightarrow> CacheMasterCntlr) \<Rightarrow> (CacheCntlr \<times> (nat \<Rightarrow> CacheMasterCntlr)) result" where
  "CacheCntlr_create cfg mem_component name core_id lookup block_size params is_last_level_cache fault_injector masters store =
     (if cp_shared_cores params = 0 then Inl (Trap ''division by zero'')
      else let core_id_master = core_id - core_id mod int (unat (cp_shared_cores params)); m = masters core_id_master mem_component
           in bindR (logAssertR (\<not> kc_has_perfect_llc cfg) ''perf_model/perfect_llc is deprecated'') (\<lambda>_.
              bindR (logAssertR (is_last_level_cache \<longrightarrow> \<not> kc_passthrough cfg) ''Cache pass-through not supported on last-level cache'') (\<lambda>_.
              bindR (if core_id = core_id_master
                     then bindR (CacheMasterCntlr_create cfg name core_id block_size params fault_injector) (\<lambda>x. Inr (store(m := x)))
                     else Inr store) (\<lambda>store.
              Inr (\<lparr>cc_mem_component = mem_component, cc_master = m, cc_next_cache_cntlr = None, cc_home_lookup = lookup,
                    cc_perfect = cp_perfect params, cc_passthrough = kc_passthrough cfg, cc_coherent = cp_coherent params,
                    cc_prefetch_on_prefetch_hit = (mc_prefetcher (store m) \<noteq> None \<and> kc_prefetch_on_prefetch_hit cfg),
                    cc_l1_mshr = (cp_outstanding_misses params > 0), cc_stats = no_stats, cc_core_id = core_id,
                    cc_cache_block_size = block_size, cc_writethrough = cp_writethrough params,
                    cc_writeback_time = cp_writeback_time params, cc_next_level_read_bandwidth = cp_next_level_read_bandwidth params,
                    cc_shared_cores = cp_shared_cores params, cc_core_id_master = core_id_master,
                    cc_last_remote_hit_where = HIT_UNKNOWN\<rparr>, store)))))"

definition isMasterCache :: "nat \<Rightarrow> hier \<Rightarrow> bool" where
  "isMasterCache i h = (cc_core_id (cn i h) = cc_core_id_master (cn i h))"

definition setPrevCacheCntlrs :: "nat \<Rightarrow> nat list \<Rightarrow> hier \<Rightarrow> hier" where
  "setPrevCacheCntlrs i prev_cache_cntlrs h =
     upd_ms i (\<lambda>m. m\<lparr>mc_prev_cache_cntlrs := mc_prev_cache_cntlrs m @ filter (\<lambda>p. isMasterCache p h) prev_cache_cntlrs\<rparr>) h"

definition setDRAMDirectAccess :: "nat \<Rightarrow> DramCntlrInterface \<Rightarrow> UInt64 \<Rightarrow> hier \<Rightarrow> hier" where
  "setDRAMDirectAccess i dram_cntlr num_outstanding h =
     upd_ms i (\<lambda>m. m\<lparr>mc_dram_cntlr := Some dram_cntlr,
                     mc_dram_outstanding_writebacks := Some (ContentionModel_create (ucast num_outstanding))\<rparr>) h"

definition isShared :: "core_id_t \<Rightarrow> CacheCntlr \<Rightarrow> bool" where
  "isShared core_id c = (core_id - core_id mod int (unat (cc_shared_cores c)) = cc_core_id_master c)"

section \<open>The user thread\<close>

text \<open>A request to this level, with the wait for the directory when it misses all the way.\<close>

definition request_and_wait ::
  "(nat \<Rightarrow> IntPtr \<Rightarrow> hier \<Rightarrow> hier result) \<Rightarrow> nat \<Rightarrow> nat \<Rightarrow> mem_op_t \<Rightarrow> IntPtr \<Rightarrow> bool \<Rightarrow> bool \<Rightarrow> prefetch_type_t \<Rightarrow> SubsecondTime \<Rightarrow> IntPtr \<Rightarrow>
     string \<Rightarrow> hier \<Rightarrow> (where_t \<times> hier) result" where
  "request_and_wait wait requester i mem_op_type address modeled cnt isPrefetch t_start eip failure h =
     bindR (processShmemReqFromPrevCache MAX_LEVELS requester i mem_op_type address modeled cnt isPrefetch t_start eip h) (\<lambda>(hit_where, h).
     if hit_where \<noteq> HIT_MISS then Inr (hit_where, h)
     else bindR (wait requester address h) (\<lambda>h.
          bindR (processShmemReqFromPrevCache MAX_LEVELS requester i mem_op_type address False False isPrefetch t_start eip h) (\<lambda>(hit_where, h).
          bindR (logAssertR (hit_where \<noteq> HIT_MISS) failure) (\<lambda>_. Inr (hit_where, h)))))"

definition doPrefetch :: "(nat \<Rightarrow> IntPtr \<Rightarrow> hier \<Rightarrow> hier result) \<Rightarrow> nat \<Rightarrow> IntPtr \<Rightarrow> SubsecondTime \<Rightarrow> hier \<Rightarrow> hier result" where
  "doPrefetch wait i prefetch_address t_start h =
     (let h = upd_stats i (\<lambda>s. s\<lparr>st_prefetches := st_prefetches s + 1\<rparr>) h;
          t_before = elapsed i USER_THREAD h
      in bindR (request_and_wait wait i i READ prefetch_address True True PF_OWN t_start 0 ''Line was not there after prefetch''
                  (set_elapsed i USER_THREAD t_start h)) (\<lambda>(_, h).
         Inr (set_elapsed i USER_THREAD t_before h)))"

text \<open>At most one prefetch of each level.\<close>

definition prefetch_one :: "(nat \<Rightarrow> IntPtr \<Rightarrow> hier \<Rightarrow> hier result) \<Rightarrow> nat \<Rightarrow> SubsecondTime \<Rightarrow> hier \<Rightarrow> hier result" where
  "prefetch_one wait i t_now h =
     bindR (if mc_prefetch_next (ms i h) \<le> t_now then next_prefetch i h (mc_prefetch_list (ms i h))
            else Inr (INVALID_ADDRESS, mc_prefetch_list (ms i h))) (\<lambda>(address_to_prefetch, rest).
     let h = upd_ms i (\<lambda>m. m\<lparr>mc_prefetch_list := rest\<rparr>) h
     in if address_to_prefetch \<noteq> INVALID_ADDRESS
        then bindR (doPrefetch wait i address_to_prefetch (mc_prefetch_next (ms i h)) h) (\<lambda>h.
             Inr (upd_ms i (\<lambda>m. m\<lparr>mc_prefetch_next := mc_prefetch_next m + PREFETCH_INTERVAL\<rparr>) h))
        else Inr h)"

fun Prefetch :: "nat \<Rightarrow> (nat \<Rightarrow> IntPtr \<Rightarrow> hier \<Rightarrow> hier result) \<Rightarrow> nat \<Rightarrow> SubsecondTime \<Rightarrow> hier \<Rightarrow> hier result" where
  "Prefetch 0 wait i t_now h = Inl Diverges"
| "Prefetch (Suc n) wait i t_now h =
     bindR (prefetch_one wait i t_now h) (\<lambda>h.
     case next_of i h of None \<Rightarrow> Inr h | Some nx \<Rightarrow> Prefetch n wait nx t_now h)"

text \<open>Usage bits go up the hierarchy as long as they are new.\<close>

fun updateUsageBits :: "nat \<Rightarrow> nat \<Rightarrow> IntPtr \<Rightarrow> UInt8 \<Rightarrow> hier \<Rightarrow> hier result" where
  "updateUsageBits 0 i address used h = Inl Diverges"
| "updateUsageBits (Suc n) i address used h =
     bindR (getCacheBlockInfo i address h) (\<lambda>info.
     case info of
       None \<Rightarrow> Inl (Trap ''null pointer'')
     | Some b \<Rightarrow>
         bindR (upd_block i address (\<lambda>b. snd (updateUsage_bits used b)) h) (\<lambda>h.
         case next_of i h of
           Some nx \<Rightarrow>
             if fst (updateUsage_bits used b) \<and> \<not> cc_perfect (cn i h) then updateUsageBits n nx address used h else Inr h
         | None \<Rightarrow> Inr h))"

definition accessCache :: "nat \<Rightarrow> mem_op_t \<Rightarrow> IntPtr \<Rightarrow> UInt32 \<Rightarrow> UInt8 list option \<Rightarrow> UInt32 \<Rightarrow> bool \<Rightarrow> hier \<Rightarrow> (UInt8 list option \<times> hier) result" where
  "accessCache i mem_op_type ca_address offset data_buf data_length update_replacement h =
     (let load = bindR (hi_access i (ca_address + ucast offset) LOAD data_buf data_length update_replacement h) (\<lambda>(_, buf, h). Inr (buf, h))
      in case mem_op_type of
           READ \<Rightarrow> load
         | READ_EX \<Rightarrow> load
         | WRITE \<Rightarrow>
             bindR (hi_access i (ca_address + ucast offset) STORE data_buf data_length update_replacement h) (\<lambda>(_, buf, h).
             if cc_writethrough (cn i h)
             then case next_of i h of
                    None \<Rightarrow> Inl (LogError ''Writethrough enabled on last-level cache'')
                  | Some nx \<Rightarrow> bindR (writeCacheBlock MAX_LEVELS nx ca_address offset data_buf data_length h) (\<lambda>h. Inr (buf, h))
             else Inr (buf, h))
         | INVALID_MEM_OP \<Rightarrow> Inl (LogError ''Unsupported Mem Op Type''))"

text \<open>A hit of the first level: the access time, the marks of the line, and what is left of a miss or prefetch under way.\<close>

definition l1_pending :: "nat \<Rightarrow> mem_op_t \<Rightarrow> IntPtr \<Rightarrow> hier \<Rightarrow> hier" where
  "l1_pending i mem_op_type ca_address h =
     (let t_now = elapsed i USER_THREAD h; t_completed = getTagCompletionTime ca_address (mc_l1_mshr (ms i h))
      in if t_completed \<noteq> MaxTime \<and> t_completed > t_now
         then incr i (t_completed - t_now) USER_THREAD
                (upd_stats i (\<lambda>s. if mem_op_type = WRITE then s\<lparr>st_store_overlapping_misses := st_store_overlapping_misses s + 1\<rparr>
                                  else s\<lparr>st_load_overlapping_misses := st_load_overlapping_misses s + 1\<rparr>) h)
         else h)"

definition fill_pending :: "nat \<Rightarrow> IntPtr \<Rightarrow> hier \<Rightarrow> hier" where
  "fill_pending i ca_address h =
     (let t_now = elapsed i USER_THREAD h
      in case mshr_busy i ca_address t_now h of
           Some e \<Rightarrow>
             (let latency = me_t_complete e - t_now
              in incr i latency USER_THREAD (upd_stats i (\<lambda>s. s\<lparr>st_mshr_latency := st_mshr_latency s + latency\<rparr>) h))
         | None \<Rightarrow> h)"

definition l1_hit :: "nat \<Rightarrow> mem_op_t \<Rightarrow> IntPtr \<Rightarrow> bool \<Rightarrow> hier \<Rightarrow> (bool \<times> hier) result" where
  "l1_hit i mem_op_type ca_address modeled h =
     bindR (clear_marks i ca_address True (incr_cost i ACCESS_CACHE_DATA_AND_TAGS USER_THREAD h)) (\<lambda>(prefetch_hit, h).
     let h = (if modeled \<and> cc_l1_mshr (cn i h) then l1_pending i mem_op_type ca_address h else h);
         h = (if modeled then fill_pending i ca_address h else h)
     in Inr (prefetch_hit, h))"

text \<open>
  A miss of the first level: a free miss register, the request to the next level, and the copy of the line. \<open>l1_miss_start\<close>
  gives \<^verbatim>\<open>t_miss_begin\<close> and \<^verbatim>\<open>t_mshr_avail\<close>.
\<close>

definition l1_miss_start :: "nat \<Rightarrow> bool \<Rightarrow> hier \<Rightarrow> (SubsecondTime \<times> SubsecondTime \<times> hier) result" where
  "l1_miss_start i modeled h =
     (let h = (if \<not> cc_passthrough (cn i h) then incr_cost i ACCESS_CACHE_TAGS USER_THREAD h else h);
          t_miss_begin = elapsed i USER_THREAD h
      in if modeled \<and> cc_l1_mshr (cn i h) \<and> \<not> cc_passthrough (cn i h)
         then let t_mshr_avail = getStartTime t_miss_begin (mc_l1_mshr (ms i h)); latency = t_mshr_avail - t_miss_begin
              in bindR (logAssertR (t_mshr_avail \<ge> t_miss_begin) ''t_mshr_avail < t_miss_begin'') (\<lambda>_.
                 Inr (t_miss_begin, t_mshr_avail,
                      upd_stats i (\<lambda>s. s\<lparr>st_mshr_latency := st_mshr_latency s + latency\<rparr>) (incr i latency USER_THREAD h)))
         else Inr (t_miss_begin, t_miss_begin, h))"

definition l1_miss ::
  "(nat \<Rightarrow> IntPtr \<Rightarrow> hier \<Rightarrow> hier result) \<Rightarrow> nat \<Rightarrow> lock_signal_t \<Rightarrow> mem_op_t \<Rightarrow> IntPtr \<Rightarrow> bool \<Rightarrow> bool \<Rightarrow> SubsecondTime \<Rightarrow> IntPtr \<Rightarrow> hier \<Rightarrow>
     (where_t \<times> hier) result" where
  "l1_miss wait i lock_signal mem_op_type ca_address modeled cnt t_start eip h =
     bindR (l1_miss_start i modeled h) (\<lambda>(t_miss_begin, t_mshr_avail, h).
     bindR (logAssertR (lock_signal \<noteq> LS_UNLOCK) ''Expected to find address in L1 Cache'') (\<lambda>_.
     bindR (getCacheState i ca_address h) (\<lambda>st.
     bindR (if st \<noteq> C_INVALID then invalidateCacheBlock i ca_address h else Inr h) (\<lambda>h.
     case next_of i h of
       None \<Rightarrow> Inl (Trap ''null pointer'')
     | Some nx \<Rightarrow>
         bindR (request_and_wait wait i nx mem_op_type ca_address modeled cnt PF_NONE t_start eip
                  ''Tried to read in next-level cache, but data is already gone'' (h\<lparr>hi_l3_hit_flag := 0\<rparr>)) (\<lambda>(hit_where, h).
         bindR (copyDataFromNextLevel i mem_op_type ca_address modeled (elapsed i USER_THREAD h) 100 h) (\<lambda>h.
         bindR (operationPermissibleinCache i ca_address mem_op_type h) (\<lambda>(permitted, _).
         bindR (logAssertR permitted ''Expected address to be valid in L1'') (\<lambda>_.
         Inr (hit_where,
              if modeled \<and> cc_l1_mshr (cn i h) \<and> \<not> cc_passthrough (cn i h)
              then upd_ms i (\<lambda>m. m\<lparr>mc_l1_mshr := snd (getCompletionTime t_miss_begin (elapsed i USER_THREAD h - t_mshr_avail)
                                                      ca_address (mc_l1_mshr m))\<rparr>) h
              else h))))))))) "

definition track_usage :: "nat \<Rightarrow> IntPtr \<Rightarrow> UInt32 \<Rightarrow> UInt32 \<Rightarrow> bool \<Rightarrow> hier \<Rightarrow> hier result" where
  "track_usage i ca_address offset data_length modeled h =
     (case next_of i h of
        None \<Rightarrow> Inr h
      | Some nx \<Rightarrow>
          if modeled \<and> \<not> cc_perfect (cn i h) \<and> hi_get_owner h \<noteq> None
          then bindR (getCacheBlockInfo i ca_address h) (\<lambda>info.
               case info of
                 None \<Rightarrow> Inl (Trap ''null pointer'')
               | Some b \<Rightarrow>
                   (case updateUsage offset data_length b of (new_bits, b') \<Rightarrow>
                      bindR (upd_block i ca_address (\<lambda>_. b') h) (\<lambda>h.
                      if new_bits then updateUsageBits MAX_LEVELS nx ca_address (cbi_used b') h else Inr h)))
          else Inr h)"

definition count_where :: "nat \<Rightarrow> mem_op_t \<Rightarrow> where_t \<Rightarrow> hier \<Rightarrow> hier" where
  "count_where i mem_op_type w h =
     upd_stats i (\<lambda>s. if mem_op_type = WRITE then s\<lparr>st_stores_where := (st_stores_where s)(w := st_stores_where s w + 1)\<rparr>
                      else s\<lparr>st_loads_where := (st_loads_where s)(w := st_loads_where s w + 1)\<rparr>) h"

definition processMemOpFromCore ::
  "(nat \<Rightarrow> IntPtr \<Rightarrow> hier \<Rightarrow> hier result) \<Rightarrow> nat \<Rightarrow> lock_signal_t \<Rightarrow> mem_op_t \<Rightarrow> IntPtr \<Rightarrow> UInt32 \<Rightarrow> UInt8 list option \<Rightarrow> UInt32 \<Rightarrow> bool \<Rightarrow> bool \<Rightarrow>
     IntPtr \<Rightarrow> hier \<Rightarrow> (where_t \<times> UInt8 list option \<times> hier) result" where
  "processMemOpFromCore wait i lock_signal mem_op_type ca_address offset data_buf data_length modeled cnt eip h =
     (let h = h\<lparr>hi_eip_global_2 := eip\<rparr>; block_size = cc_cache_block_size (cn i h); t_start = elapsed i USER_THREAD h
      in bindR (logAssertR (ca_address AND ucast (block_size - 1) = 0) ''address at cache line'') (\<lambda>_.
         bindR (logAssertR (offset + data_length \<le> block_size) ''access until'') (\<lambda>_.
         bindR (operationPermissibleinCache i ca_address mem_op_type h) (\<lambda>(permitted, info).
         bindR (adjust_hit i mem_op_type ca_address True eip permitted info h) (\<lambda>(cache_hit, _, info, h).
         bindR (if cnt
                then cntlr_updateCounters i mem_op_type ca_address cache_hit (state_of info) PF_NONE
                       (set_cache i (Cache_updateCounters cache_hit (the_cache i h)) h)
                else Inr h) (\<lambda>h.
         bindR (if cache_hit
                then bindR (l1_hit i mem_op_type ca_address modeled h) (\<lambda>(prefetch_hit, h).
                     Inr (where_of (cc_mem_component (cn i h)) False, prefetch_hit, h))
                else bindR (l1_miss wait i lock_signal mem_op_type ca_address modeled cnt t_start eip h) (\<lambda>(w, h). Inr (w, False, h)))
           (\<lambda>(hit_where, prefetch_hit, h).
         bindR (track_usage i ca_address offset data_length modeled h) (\<lambda>h.
         bindR (accessCache i mem_op_type ca_address offset data_buf data_length
                  (hit_where = where_of (cc_mem_component (cn i h)) False \<and> cnt) h) (\<lambda>(data_buf, h).
         let total_latency = elapsed i USER_THREAD h - t_start;
             h = (if \<not> cache_hit \<and> cnt then upd_stats i (\<lambda>s. s\<lparr>st_total_latency := st_total_latency s + total_latency\<rparr>) h else h);
             h = count_where i mem_op_type hit_where h
         in bindR (if modeled \<and> mc_prefetcher (ms i h) \<noteq> None then trainPrefetcher i ca_address cache_hit prefetch_hit t_start h
                   else Inr h) (\<lambda>h.
            bindR (if lock_signal \<noteq> LS_LOCK \<and> modeled then Prefetch MAX_LEVELS wait i t_start h else Inr h) (\<lambda>h.
            Inr (hit_where, data_buf, h))))))))))))"

section \<open>The network thread\<close>

definition processExRepFromDramDirectory :: "nat \<Rightarrow> core_id_t \<Rightarrow> ShmemMsg \<Rightarrow> hier \<Rightarrow> hier result" where
  "processExRepFromDramDirectory i requester msg h =
     bindR (insertCacheBlock i (sm_address msg) C_EXCLUSIVE (sm_data_buf msg) requester SIM_THREAD 3 (hi_eip_global h) h) (\<lambda>h.
     Inr (h\<lparr>hi_eip_global := 0\<rparr>))"

definition processShRepFromDramDirectory :: "nat \<Rightarrow> core_id_t \<Rightarrow> ShmemMsg \<Rightarrow> hier \<Rightarrow> hier result" where
  "processShRepFromDramDirectory i requester msg h =
     insertCacheBlock i (sm_address msg) C_SHARED (sm_data_buf msg) requester SIM_THREAD 3 (hi_eip_global_2 h) h"

definition processUpgradeRepFromDramDirectory :: "nat \<Rightarrow> ShmemMsg \<Rightarrow> hier \<Rightarrow> hier result" where
  "processUpgradeRepFromDramDirectory i msg h =
     (let address = sm_address msg
      in bindR (getCacheState i address h) (\<lambda>cstate.
         if cstate = C_INVALID
         then bindR (logAssertR (sm_data_buf msg \<noteq> None) ''Trying to upgrade a block that is now INV and no data in the shmem_msg'') (\<lambda>_.
              bindR (updateCacheBlock MAX_LEVELS i address C_MODIFIED UPGRADE (sm_data_buf msg) h) (\<lambda>(_, _, h). Inr h))
         else if cstate = C_SHARED_UPGRADING
         then bindR (updateCacheBlock MAX_LEVELS i address C_MODIFIED UPGRADE None h) (\<lambda>(_, _, h). Inr h)
         else Inl (LogError ''Trying to upgrade a block that is not SHARED_UPGRADING'')))"

definition processInvReqFromDramDirectory :: "nat \<Rightarrow> core_id_t \<Rightarrow> ShmemMsg \<Rightarrow> hier \<Rightarrow> hier result" where
  "processInvReqFromDramDirectory i sender msg h =
     (let address = sm_address msg
      in bindR (getCacheState i address h) (\<lambda>cstate.
         let h = incr_cost i ACCESS_CACHE_TAGS SIM_THREAD h
         in if cstate \<noteq> C_INVALID
            then bindR (updateCacheBlock MAX_LEVELS i address C_INVALID COHERENCY None h) (\<lambda>(_, _, h).
                 hi_sendMsg i INV_REP (sm_requester msg) sender address None 0 SIM_THREAD h)
            else Inr h))"

definition processFlushReqFromDramDirectory :: "nat \<Rightarrow> core_id_t \<Rightarrow> ShmemMsg \<Rightarrow> hier \<Rightarrow> hier result" where
  "processFlushReqFromDramDirectory i sender msg h =
     (let address = sm_address msg
      in bindR (getCacheState i address h) (\<lambda>cstate.
         if cstate \<noteq> C_INVALID
         then case hi_pop_frame (incr_cost i ACCESS_CACHE_DATA_AND_TAGS SIM_THREAD h) of (data_buf, h) \<Rightarrow>
              bindR (updateCacheBlock MAX_LEVELS i address C_INVALID COHERENCY (Some data_buf) h) (\<lambda>(_, data_buf, h).
              hi_sendMsg i FLUSH_REP (sm_requester msg) sender address data_buf (cc_cache_block_size (cn i h)) SIM_THREAD h)
         else Inr (incr_cost i ACCESS_CACHE_TAGS SIM_THREAD h)))"

definition processWbReqFromDramDirectory :: "nat \<Rightarrow> core_id_t \<Rightarrow> ShmemMsg \<Rightarrow> hier \<Rightarrow> hier result" where
  "processWbReqFromDramDirectory i sender msg h =
     (let address = sm_address msg
      in bindR (getCacheState i address h) (\<lambda>cstate.
         if cstate \<noteq> C_INVALID
         then case hi_pop_frame (incr_cost i ACCESS_CACHE_DATA_AND_TAGS SIM_THREAD h) of (data_buf, h) \<Rightarrow>
              bindR (if cstate \<noteq> C_SHARED_UPGRADING
                     then bindR (updateCacheBlock MAX_LEVELS i address C_SHARED COHERENCY (Some data_buf) h) (\<lambda>(_, data_buf, h). Inr (data_buf, h))
                     else Inr (Some data_buf, h)) (\<lambda>(data_buf, h).
              hi_sendMsg i WB_REP (sm_requester msg) sender address data_buf (cc_cache_block_size (cn i h)) SIM_THREAD h)
         else Inr (incr_cost i ACCESS_CACHE_TAGS SIM_THREAD h)))"

text \<open>
  The loop over the requests that wait for the line. It stops early when a writer waits and only a shared copy came: then an
  upgrade is requested, whose reply continues the loop.
\<close>

definition wake_up_user ::
  "(nat \<Rightarrow> IntPtr \<Rightarrow> hier \<Rightarrow> hier result) \<Rightarrow> nat \<Rightarrow> IntPtr \<Rightarrow> where_t \<Rightarrow> CacheDirectoryWaiter \<Rightarrow> hier \<Rightarrow> hier result" where
  "wake_up_user user i address hit_where request h =
     bindR (if cw_isPrefetch request then upd_block i address (setOption PREFETCH) h else Inr h) (\<lambda>h.
     let r = cw_cache_cntlr request; t_core = elapsed r USER_THREAD h; t_here = elapsed i SIM_THREAD h;
         h = (if t_here > t_core then set_elapsed r USER_THREAD t_here h else h)
     in bindR (user r address (updateUncoreStatistics r hit_where h)) (\<lambda>h.
        cleanupMshr i (upd_ms r (\<lambda>m. m\<lparr>mc_mshr := mshr_put address (make_mshr (cw_t_issue request) (elapsed i SIM_THREAD h)) (mc_mshr m)\<rparr>) h)))"

fun serve_waiters :: "nat \<Rightarrow> (nat \<Rightarrow> IntPtr \<Rightarrow> hier \<Rightarrow> hier result) \<Rightarrow> nat \<Rightarrow> IntPtr \<Rightarrow> where_t \<Rightarrow> hier \<Rightarrow> hier result" where
  "serve_waiters fuel user i address hit_where h =
     (if ReqQueueList_empty (mc_directory_waiters (ms i h)) address then Inr h
      else case fuel of
             0 \<Rightarrow> Inl Diverges
           | Suc fuel \<Rightarrow>
               bindR (ReqQueueList_front (mc_directory_waiters (ms i h)) address) (\<lambda>request.
               bindR (getCacheState i address h) (\<lambda>st.
               if cw_exclusive request \<and> st = C_SHARED then processUpgradeReqToDirectory i address SIM_THREAD h
               else bindR (wake_up_user user i address hit_where request h) (\<lambda>h.
                    bindR (ReqQueueList_dequeue (mc_directory_waiters (ms i h)) address) (\<lambda>(_, waiters).
                    serve_waiters fuel user i address hit_where (upd_ms i (\<lambda>m. m\<lparr>mc_directory_waiters := waiters\<rparr>) h))))))"

definition is_reply :: "msg_t \<Rightarrow> bool" where
  "is_reply t = (t = EX_REP \<or> t = SH_REP \<or> t = UPGRADE_REP)"

definition handleMsgFromDramDirectory ::
  "nat \<Rightarrow> (nat \<Rightarrow> IntPtr \<Rightarrow> hier \<Rightarrow> hier result) \<Rightarrow> nat \<Rightarrow> core_id_t \<Rightarrow> ShmemMsg \<Rightarrow> hier \<Rightarrow> hier result" where
  "handleMsgFromDramDirectory fuel user i sender msg h =
     (let msg_type = sm_msg_type msg; address = sm_address msg
      in bindR (if is_reply msg_type
                then bindR (ReqQueueList_front (mc_directory_waiters (ms i h)) address) (\<lambda>request.
                     Inr (cc_core_id (cn (cw_cache_cntlr request) h)))
                else Inr INVALID_CORE_ID) (\<lambda>requester.
         bindR (case msg_type of
                  EX_REP \<Rightarrow> processExRepFromDramDirectory i requester msg h
                | SH_REP \<Rightarrow> processShRepFromDramDirectory i requester msg h
                | UPGRADE_REP \<Rightarrow> processUpgradeRepFromDramDirectory i msg h
                | INV_REQ \<Rightarrow> processInvReqFromDramDirectory i sender msg h
                | FLUSH_REQ \<Rightarrow> processFlushReqFromDramDirectory i sender msg h
                | WB_REQ \<Rightarrow> processWbReqFromDramDirectory i sender msg h
                | _ \<Rightarrow> Inl (LogError ''Unrecognized msg type'')) (\<lambda>h.
         if is_reply msg_type then serve_waiters fuel user i address (sm_where msg) h else Inr h)))"

end
