(* ===== verification/Cache_Snoop.thy ===== *)
theory Cache_Snoop
  imports Cache_Threads
begin

text \<open>
  What a snoop does to a hierarchy of caches. The directory and the next levels rely on it: after an invalidation of a line no
  cache of the hierarchy holds it, after a downgrade none can write it, and no assertion of \<^verbatim>\<open>updateCacheBlock\<close> and
  \<^verbatim>\<open>writeCacheBlock\<close> fails. The controllers of one hierarchy are a tree along \<open>prevs_of\<close>.
\<close>

section \<open>Lines\<close>

text \<open>The block of address \<open>a\<close> in the cache of the master controller \<open>m\<close>.\<close>

definition line :: "IntPtr \<Rightarrow> nat \<Rightarrow> hier \<Rightarrow> CacheBlockInfo option" where
  "line a m h = (let c = mc_cache (hi_masters h m) in cache_contents c (addr_tag c a))"

abbreviation mnum :: "nat \<Rightarrow> hier \<Rightarrow> nat" where
  "mnum i h \<equiv> cc_master (cn i h)"

text \<open>The cache of a controller is well formed, \<open>a\<close> is the address of a line, and nothing is being evicted.\<close>

definition node_ok :: "IntPtr \<Rightarrow> nat \<Rightarrow> hier \<Rightarrow> bool" where
  "node_ok a i h \<longleftrightarrow> cache_ok (the_cache i h) \<and> ca_fault_injector (the_cache i h) = None
     \<and> cb_blocksize (ca_base (the_cache i h)) = cc_cache_block_size (cn i h)
     \<and> unat a mod unat (cc_cache_block_size (cn i h)) = 0 \<and> cc_coherent (cn i h) \<and> mc_evicting_buf (ms i h) = None
     \<and> (\<forall>k. length (hi_stack h k) = unat (cc_cache_block_size (cn i h)))"

definition live :: "CacheBlockInfo option \<Rightarrow> bool" where
  "live b \<longleftrightarrow> (\<forall>x. b = Some x \<longrightarrow> cbi_cstate x \<noteq> C_INVALID)"

section \<open>What changes\<close>

definition cache_keeps :: "IntPtr \<Rightarrow> Cache \<Rightarrow> Cache \<Rightarrow> bool" where
  "cache_keeps a c c' \<longleftrightarrow> c' = c \<or> (cache_ok c \<and> cache_same c c' \<and> (\<forall>t. t \<noteq> addr_tag c a \<longrightarrow> cache_contents c' t = cache_contents c t))"

text \<open>Only times, statistics and the line \<open>a\<close> of the caches in \<open>M\<close> differ; nothing is sent.\<close>

definition changes :: "IntPtr \<Rightarrow> nat set \<Rightarrow> hier \<Rightarrow> hier \<Rightarrow> bool" where
  "changes a M h h' \<longleftrightarrow> (\<forall>i. \<exists>s. cn i h' = (cn i h)\<lparr>cc_stats := s\<rparr>)
     \<and> (\<forall>m. \<exists>c. hi_masters h' m = (hi_masters h m)\<lparr>mc_cache := c\<rparr> \<and> cache_keeps a (mc_cache (hi_masters h m)) c)
     \<and> hi_stack h' = hi_stack h \<and> hi_sent h' = hi_sent h \<and> (\<forall>m. m \<notin> M \<longrightarrow> line a m h' = line a m h)"

lemma cache_keeps_refl [simp]: "cache_keeps a c c"
  by (simp add: cache_keeps_def)

lemma cache_keeps_trans: "cache_keeps a c c1 \<Longrightarrow> cache_keeps a c1 c2 \<Longrightarrow> cache_keeps a c c2"
  by (auto simp: cache_keeps_def cache_same_def addr_tag_def)

lemma changes_trans:
  assumes "changes a M h h1" and "changes a N h1 h2"
  shows "changes a (M \<union> N) h h2"
proof -
  have "\<exists>s. cn i h2 = (cn i h)\<lparr>cc_stats := s\<rparr>" for i
  proof -
    obtain s1 where 1: "cn i h1 = (cn i h)\<lparr>cc_stats := s1\<rparr>" using assms(1) unfolding changes_def by blast
    obtain s2 where 2: "cn i h2 = (cn i h1)\<lparr>cc_stats := s2\<rparr>" using assms(2) unfolding changes_def by blast
    show ?thesis by (rule exI [of _ s2]) (simp add: 1 2)
  qed
  moreover have "\<exists>c. hi_masters h2 m = (hi_masters h m)\<lparr>mc_cache := c\<rparr> \<and> cache_keeps a (mc_cache (hi_masters h m)) c" for m
  proof -
    obtain c1 where 1: "hi_masters h1 m = (hi_masters h m)\<lparr>mc_cache := c1\<rparr>" "cache_keeps a (mc_cache (hi_masters h m)) c1"
      using assms(1) unfolding changes_def by blast
    obtain c2 where 2: "hi_masters h2 m = (hi_masters h1 m)\<lparr>mc_cache := c2\<rparr>" "cache_keeps a (mc_cache (hi_masters h1 m)) c2"
      using assms(2) unfolding changes_def by blast
    have "cache_keeps a (mc_cache (hi_masters h m)) c2" by (rule cache_keeps_trans [OF 1(2)]) (use 2(2) in \<open>simp add: 1(1)\<close>)
    then show ?thesis by (intro exI [of _ c2]) (simp add: 1(1) 2(1))
  qed
  ultimately show ?thesis using assms unfolding changes_def by auto
qed

lemma changes_refl [simp]: "changes a M h h"
proof -
  have "\<exists>s. cn i h = (cn i h)\<lparr>cc_stats := s\<rparr>" for i by (rule exI [of _ "cc_stats (cn i h)"]) simp
  moreover have "\<exists>c. hi_masters h m = (hi_masters h m)\<lparr>mc_cache := c\<rparr> \<and> cache_keeps a (mc_cache (hi_masters h m)) c" for m
    by (rule exI [of _ "mc_cache (hi_masters h m)"]) simp
  ultimately show ?thesis by (simp add: changes_def)
qed

lemma changes_mono: "changes a M h h' \<Longrightarrow> M \<subseteq> N \<Longrightarrow> changes a N h h'"
  unfolding changes_def by blast

text \<open>What a change leaves alone.\<close>

lemma changes_cn:
  assumes "changes a M h h'"
  shows "mnum i h' = mnum i h" and "next_of i h' = next_of i h" and "prevs_of i h' = prevs_of i h"
    and "cc_writethrough (cn i h') = cc_writethrough (cn i h)" and "cc_coherent (cn i h') = cc_coherent (cn i h)"
    and "cc_cache_block_size (cn i h') = cc_cache_block_size (cn i h)" and "cc_mem_component (cn i h') = cc_mem_component (cn i h)"
    and "mc_evicting_buf (ms i h') = mc_evicting_buf (ms i h)" and "cc_core_id_master (cn i h') = cc_core_id_master (cn i h)"
proof -
  obtain s where s: "cn i h' = (cn i h)\<lparr>cc_stats := s\<rparr>" using assms unfolding changes_def by blast
  obtain c where c: "hi_masters h' (mnum i h) = (hi_masters h (mnum i h))\<lparr>mc_cache := c\<rparr>"
    using assms unfolding changes_def by blast
  show "mnum i h' = mnum i h" "next_of i h' = next_of i h" "prevs_of i h' = prevs_of i h"
    "cc_writethrough (cn i h') = cc_writethrough (cn i h)" "cc_coherent (cn i h') = cc_coherent (cn i h)"
    "cc_cache_block_size (cn i h') = cc_cache_block_size (cn i h)" "cc_mem_component (cn i h') = cc_mem_component (cn i h)"
    "mc_evicting_buf (ms i h') = mc_evicting_buf (ms i h)" "cc_core_id_master (cn i h') = cc_core_id_master (cn i h)"
    using c by (simp_all add: s next_of_def prevs_of_def ms_def)
qed

lemma changes_other:
  assumes "changes a M h h'" and "addr_tag (mc_cache (hi_masters h m)) a' \<noteq> addr_tag (mc_cache (hi_masters h m)) a"
  shows "line a' m h' = line a' m h"
proof -
  obtain c where "hi_masters h' m = (hi_masters h m)\<lparr>mc_cache := c\<rparr>" "cache_keeps a (mc_cache (hi_masters h m)) c"
    using assms(1) unfolding changes_def by blast
  then show ?thesis using assms(2) by (auto simp: line_def Let_def cache_keeps_def cache_same_def addr_tag_def)
qed

lemma changes_line: "changes a M h h' \<Longrightarrow> m \<notin> M \<Longrightarrow> line a m h' = line a m h"
  by (simp add: changes_def)

lemma changes_node:
  assumes "changes a M h h'" and "node_ok a i h"
  shows "node_ok a i h'"
proof -
  obtain c where "hi_masters h' (mnum i h) = (hi_masters h (mnum i h))\<lparr>mc_cache := c\<rparr>" "cache_keeps a (mc_cache (hi_masters h (mnum i h))) c"
    using assms(1) unfolding changes_def by blast
  moreover have "hi_stack h' = hi_stack h" using assms(1) by (simp add: changes_def)
  ultimately show ?thesis using assms(2) changes_cn [OF assms(1), of i]
    by (auto simp: node_ok_def the_cache_def ms_def cache_keeps_def cache_same_def)
qed

lemma changes_frame [simp]:
  "changes a {} h (upd_stats i f h)" "changes a {} h (set_elapsed i th t h)" "changes a {} h (incr i d th h)"
  "changes a {} h (incr_cost i k th h)" "changes a {} h (snd (hi_pop_frame h))"
  "changes a {} h (h\<lparr>hi_L3WritesDueToWriteBack := w\<rparr>)"
proof -
  have c: "changes a {} h h'" if "hi_masters h' = hi_masters h" "hi_stack h' = hi_stack h" "hi_sent h' = hi_sent h"
    "\<And>j. \<exists>s. cn j h' = (cn j h)\<lparr>cc_stats := s\<rparr>" for h'
    using changes_refl [of a "{}" h] that unfolding changes_def by (simp add: line_def)
  have same: "\<exists>s. cn j h = (cn j h)\<lparr>cc_stats := s\<rparr>" for j by (rule exI [of _ "cc_stats (cn j h)"]) simp
  show "changes a {} h (upd_stats i f h)"
    by (rule c) (use same in \<open>auto simp: upd_stats_def upd_cn_def cn_def\<close>)
  show "changes a {} h (set_elapsed i th t h)" "changes a {} h (incr i d th h)" "changes a {} h (incr_cost i k th h)"
    "changes a {} h (snd (hi_pop_frame h))" "changes a {} h (h\<lparr>hi_L3WritesDueToWriteBack := w\<rparr>)"
    by (rule c; use same in \<open>simp add: set_elapsed_def incr_def incr_cost_def hi_pop_frame_def Let_def cn_def\<close>)+
qed

section \<open>Operations on the line\<close>

lemma the_cache_line: "line a (mnum i h) h = cache_contents (the_cache i h) (addr_tag (the_cache i h) a)"
  by (simp add: line_def the_cache_def ms_def Let_def)

lemma info_line:
  assumes "node_ok a i h"
  shows "getCacheBlockInfo i a h = Inr (line a (mnum i h) h)" and "getCacheState i a h = Inr (state_of (line a (mnum i h) h))"
  using assms Cache_peek_contents [of "the_cache i h" a]
  by (simp_all add: getCacheState_def getCacheBlockInfo_def node_ok_def the_cache_line)

text \<open>Storing a new version of the cache.\<close>

lemma set_cache_changes:
  assumes "node_ok a i h" and "cache_same (the_cache i h) c"
    and "\<forall>t. t \<noteq> addr_tag (the_cache i h) a \<longrightarrow> cache_contents c t = cache_contents (the_cache i h) t"
  shows "changes a {mnum i h} h (set_cache i c (h\<lparr>hi_env := g\<rparr>))"
    and "line a (mnum i h) (set_cache i c (h\<lparr>hi_env := g\<rparr>)) = cache_contents c (addr_tag (the_cache i h) a)"
proof -
  let ?h = "set_cache i c (h\<lparr>hi_env := g\<rparr>)"
  have m: "hi_masters ?h = (hi_masters h)(mnum i h := (ms i h)\<lparr>mc_cache := c\<rparr>)"
    by (simp add: set_cache_def upd_ms_def ms_def cn_def)
  have "addr_tag c a = addr_tag (the_cache i h) a" using assms(2) by (simp add: cache_same_def addr_tag_def)
  then show "line a (mnum i h) ?h = cache_contents c (addr_tag (the_cache i h) a)" by (simp add: line_def m)
  have "\<exists>s. cn j ?h = (cn j h)\<lparr>cc_stats := s\<rparr>" for j
    by (rule exI [of _ "cc_stats (cn j h)"]) (simp add: set_cache_def upd_ms_def cn_def)
  moreover have "cache_keeps a (the_cache i h) c" using assms by (simp add: cache_keeps_def node_ok_def)
  then have "\<exists>c'. hi_masters ?h k = (hi_masters h k)\<lparr>mc_cache := c'\<rparr> \<and> cache_keeps a (mc_cache (hi_masters h k)) c'" for k
    by (cases "k = mnum i h") (auto simp: m ms_def the_cache_def intro: exI [of _ "mc_cache (hi_masters h k)"])
  moreover have "hi_stack ?h = hi_stack h" "hi_sent ?h = hi_sent h" by (simp_all add: set_cache_def upd_ms_def)
  moreover have "line a k ?h = line a k h" if "k \<noteq> mnum i h" for k using that by (simp add: line_def m)
  ultimately show "changes a {mnum i h} h ?h" by (auto simp: changes_def)
qed

lemma changes_drop:
  "changes a {m} h h' \<Longrightarrow> line a m h' = line a m h \<Longrightarrow> changes a {} h h'"
  unfolding changes_def by (metis singletonD)

lemma hi_access_line:
  assumes n: "node_ok a i h" and l: "line a (mnum i h) h \<noteq> None" and bs: "bytes = cc_cache_block_size (cn i h)"
    and buf: "\<forall>x. buf = Some x \<longrightarrow> length x = unat bytes"
  shows "\<exists>buf' h'. hi_access i a at buf bytes False h = Inr (True, buf', h') \<and> changes a {} h h'
    \<and> (buf \<noteq> None \<longrightarrow> (\<exists>y. buf' = Some y \<and> length y = unat bytes))"
proof -
  let ?c = "the_cache i h"
  have c: "cache_ok ?c" "ca_fault_injector ?c = None" "cb_blocksize (ca_base ?c) = bytes" "unat a mod unat bytes = 0"
    using n bs by (simp_all add: node_ok_def)
  obtain b where b: "cache_contents ?c (addr_tag ?c a) = Some b" using l by (auto simp: the_cache_line)
  obtain x buf' c' g' where r: "Cache_accessSingleLine a at buf bytes False ?c (hi_env h) = Inr (Some x, buf', c', g')"
    "cache_same ?c c'" "cache_contents c' = cache_contents ?c"
    "\<forall>x. buf = Some x \<longrightarrow> unat bytes \<le> length x \<longrightarrow> (\<exists>y. buf' = Some y \<and> length y = length x)"
    using Cache_access_plain [OF c(1,2) b, of "at" buf "hi_env h"] c(3,4) by auto
  let ?h = "set_cache i c' (h\<lparr>hi_env := g'\<rparr>)"
  have t: "\<forall>t. t \<noteq> addr_tag ?c a \<longrightarrow> cache_contents c' t = cache_contents ?c t" by (simp add: r(3))
  have "changes a {} h ?h"
    by (rule changes_drop [OF set_cache_changes(1) [OF n r(2) t]]) (simp add: set_cache_changes(2) [OF n r(2) t] r(3) the_cache_line)
  then show ?thesis using r(1,4) buf by (auto simp: hi_access_def)
qed

lemma retrieve_line:
  assumes "node_ok a i h" and "line a (mnum i h) h \<noteq> None" and "length x = unat (cc_cache_block_size (cn i h))"
  shows "\<exists>y h'. retrieveCacheBlock i a (Some x) False h = Inr (Some y, h') \<and> changes a {} h h'
    \<and> length y = unat (cc_cache_block_size (cn i h))"
proof -
  obtain buf' h' where "hi_access i a LOAD (Some x) (cc_cache_block_size (cn i h)) False h = Inr (True, buf', h')" "changes a {} h h'"
    "\<exists>y. buf' = Some y \<and> length y = unat (cc_cache_block_size (cn i h))"
    using hi_access_line [OF assms(1,2) refl, of "Some x" LOAD] assms(3) by auto
  then show ?thesis by (auto simp: retrieveCacheBlock_def logAssertR_def)
qed

lemma setCacheState_line:
  assumes n: "node_ok a i h" and l: "line a (mnum i h) h = Some b"
  shows "\<exists>h'. setCacheState i a st h = Inr h' \<and> changes a {mnum i h} h h' \<and> line a (mnum i h) h' = Some (setCState st b)"
proof -
  let ?c = "the_cache i h"
  have c: "cache_ok ?c" "cache_contents ?c (addr_tag ?c a) = Some b" using n l by (simp_all add: node_ok_def the_cache_line)
  obtain c' where r: "Cache_updBlock a (setCState st) ?c = Inr c'" "cache_ok c'" "ca_base c' = ca_base ?c"
    "ca_fault_injector c' = ca_fault_injector ?c" "cache_contents c' = (cache_contents ?c)(addr_tag ?c a \<mapsto> setCState st b)"
    using Cache_updBlock_contents [OF c, of "setCState st"] by (auto simp: setCState_def)
  have same: "cache_same ?c c'" using r by (simp add: cache_same_def)
  have t: "\<forall>t. t \<noteq> addr_tag ?c a \<longrightarrow> cache_contents c' t = cache_contents ?c t" by (simp add: r(5))
  have e: "h\<lparr>hi_env := hi_env h\<rparr> = h" by simp
  show ?thesis using r(1,5) set_cache_changes [OF n same t, of "hi_env h"] by (simp add: setCacheState_def upd_block_def e)
qed

lemma invalidate_line:
  assumes n: "node_ok a i h" and l: "line a (mnum i h) h = Some b" and st: "cbi_cstate b \<noteq> C_MODIFIED" "cbi_cstate b \<noteq> C_INVALID"
  shows "\<exists>h'. invalidateCacheBlock i a h = Inr h' \<and> changes a {mnum i h} h h' \<and> line a (mnum i h) h' = None"
proof -
  let ?c = "the_cache i h"
  have c: "cache_ok ?c" using n by (simp add: node_ok_def)
  obtain hit c' where r: "Cache_invalidateSingleLine a ?c = Inr (hit, c')" "cache_ok c'" "ca_base c' = ca_base ?c"
    "ca_fault_injector c' = ca_fault_injector ?c" "cache_contents c' = (cache_contents ?c)(addr_tag ?c a := None)"
    using Cache_invalidate_contents [OF c, of a] by blast
  have same: "cache_same ?c c'" using r by (simp add: cache_same_def)
  have t: "\<forall>t. t \<noteq> addr_tag ?c a \<longrightarrow> cache_contents c' t = cache_contents ?c t" by (simp add: r(5))
  have e: "h\<lparr>hi_env := hi_env h\<rparr> = h" by simp
  show ?thesis using r(1,5) set_cache_changes [OF n same t, of "hi_env h"] st
    by (simp add: invalidateCacheBlock_def info_line [OF n] l state_of_def assertR_def e)
qed

section \<open>Writing back\<close>

text \<open>The next level takes back a modified line: its own copy is modified too, and it does not write through.\<close>

definition takes_back :: "IntPtr \<Rightarrow> nat \<Rightarrow> hier \<Rightarrow> bool" where
  "takes_back a q h \<longleftrightarrow> node_ok a q h \<and> \<not> cc_writethrough (cn q h) \<and> state_of (line a (mnum q h) h) = C_MODIFIED"

lemma takes_back_changes:
  "changes a M h h' \<Longrightarrow> takes_back a q h \<Longrightarrow> mnum q h \<notin> M \<Longrightarrow> takes_back a q h'"
  using changes_node [of a M h h' q] changes_cn [of a M h h' q] by (simp add: takes_back_def changes_line)

lemma write_to_next:
  assumes q: "takes_back a q h" and d: "length x = unat len" and len: "len = cc_cache_block_size (cn q h)"
  shows "\<exists>h'. writeCacheBlock (Suc k) q a 0 (Some x) len h = Inr h' \<and> changes a {} h h'"
proof -
  let ?L3 = "h\<lparr>hi_L3WritesDueToWriteBack := hi_L3WritesDueToWriteBack h + 1\<rparr>"
  have n: "node_ok a q h" "line a (mnum q h) h \<noteq> None" using q by (auto simp: takes_back_def state_of_def split: option.splits)
  have "\<exists>h1. (if cc_mem_component (cn q h) = L3_CACHE then llc_write_cost q a ?L3 else Inr h) = Inr h1 \<and> changes a {} h h1"
  proof (cases "cc_mem_component (cn q h) = L3_CACHE")
    case True
    have 3: "changes a {} h ?L3" by simp
    then have "the_cache q ?L3 = the_cache q h" by (simp add: the_cache_def ms_def cn_def)
    moreover obtain j where "Cache_getBlockIndex a (the_cache q h) = Inr j"
      using Cache_getBlockIndex_iff(1) [of "the_cache q h" a] n by (auto simp: node_ok_def the_cache_line)
    moreover have "changes a {} h (incr_cost q k USER_THREAD ?L3)" for k
      using changes_trans [OF 3 changes_frame(4)] by simp
    ultimately show ?thesis using True by (simp add: llc_write_cost_def)
  qed simp
  then obtain h1 where h1: "(if cc_mem_component (cn q h) = L3_CACHE then llc_write_cost q a ?L3 else Inr h) = Inr h1" "changes a {} h h1"
    by blast
  note q1 = takes_back_changes [OF h1(2) q]
  have n1: "node_ok a q h1" "line a (mnum q h1) h1 \<noteq> None" "mc_evicting_buf (ms q h1) = None"
    using q1 by (auto simp: takes_back_def state_of_def node_ok_def split: option.splits)
  have len1: "len = cc_cache_block_size (cn q h1)" using len changes_cn(6) [OF h1(2), of q] by simp
  obtain buf h2 where h2: "hi_access q a STORE (Some x) len False h1 = Inr (True, buf, h2)" "changes a {} h1 h2"
    using hi_access_line [OF n1(1,2) len1, of "Some x" STORE] d by auto
  have q2: "takes_back a q h2" using takes_back_changes [OF h2(2)] q1 by simp
  have "write_own q a 0 (Some x) len h1 = Inr h2"
    using q2 h2(1) n1(3) by (simp add: write_own_def write_line_def info_line takes_back_def logAssertR_def)
  moreover have "changes a {} h h2" using changes_trans [OF h1(2) h2(2)] by simp
  ultimately show ?thesis using q2 by (simp add: h1(1) takes_back_def)
qed

text \<open>Where modified data of a cache goes: nowhere when it writes through, to the next level, or to the out-buffer.\<close>

definition exit_ok :: "IntPtr \<Rightarrow> nat set \<Rightarrow> nat \<Rightarrow> UInt8 list option \<Rightarrow> hier \<Rightarrow> bool" where
  "exit_ok a M i out h \<longleftrightarrow>
     (state_of (line a (mnum i h) h) = C_MODIFIED \<longrightarrow> cc_writethrough (cn i h) \<or>
        (case next_of i h of
           Some q \<Rightarrow> takes_back a q h \<and> cc_cache_block_size (cn q h) = cc_cache_block_size (cn i h) \<and> mnum q h \<notin> M
         | None \<Rightarrow> out \<noteq> None))
     \<and> (\<forall>x. out = Some x \<longrightarrow> line a (mnum i h) h \<noteq> None \<and> length x = unat (cc_cache_block_size (cn i h)))"

lemma exit_ok_changes:
  assumes c: "changes a N h h'" and "N \<subseteq> M" and "mnum i h \<notin> N" and e: "exit_ok a M i out h"
  shows "exit_ok a M i out h'"
proof -
  note k = changes_cn [OF c]
  have "takes_back a q h'" if "takes_back a q h" "mnum q h \<notin> M" for q
    using takes_back_changes [OF c that(1)] that(2) assms(2) by blast
  then show ?thesis using e changes_line [OF c assms(3)] by (auto simp: exit_ok_def k split: option.splits)
qed

text \<open>The out-buffer keeps its length and is written whenever it is there.\<close>

definition out_ok :: "UInt32 \<Rightarrow> UInt8 list option \<Rightarrow> upd_locals \<Rightarrow> bool" where
  "out_ok bs out u \<longleftrightarrow> (ul_out_buf u = None \<longleftrightarrow> out = None) \<and> (\<forall>y. ul_out_buf u = Some y \<longrightarrow> length y = unat bs)"

lemma write_out_line:
  assumes n: "node_ok a i h" and l: "line a (mnum i h) h \<noteq> None" and u: "out_ok (cc_cache_block_size (cn i h)) out u" "out \<noteq> None"
  shows "\<exists>u' h'. write_out i a u h = Inr (u', h') \<and> changes a {} h h' \<and> out_ok (cc_cache_block_size (cn i h)) out u' \<and> ul_buf_written u'"
proof -
  obtain x where x: "ul_out_buf u = Some x" "length x = unat (cc_cache_block_size (cn i h))" using u by (auto simp: out_ok_def)
  from retrieve_line [OF n l x(2)] x(1) u(2) show ?thesis by (auto simp: write_out_def out_ok_def)
qed

lemma write_back_line:
  assumes n: "node_ok a i h" and l: "line a (mnum i h) h = Some b" "cbi_cstate b = C_MODIFIED" and e: "exit_ok a M i out h"
    and u: "out_ok (cc_cache_block_size (cn i h)) out u"
  shows "\<exists>u' h'. write_back i a u h = Inr (u', h') \<and> changes a {} h h' \<and> out_ok (cc_cache_block_size (cn i h)) out u'"
proof (cases "cc_writethrough (cn i h)")
  case True
  then show ?thesis using u by (simp add: write_back_def)
next
  case False
  note ex = e [unfolded exit_ok_def, THEN conjunct1]
  have m: "state_of (line a (mnum i h) h) = C_MODIFIED" using l by (simp add: state_of_def)
  show ?thesis
  proof (cases "next_of i h")
    case None
    then have o: "out \<noteq> None" using ex m False by simp
    then have uo: "ul_out_buf u \<noteq> None" using u by (simp add: out_ok_def)
    obtain u' h' where "write_out i a u h = Inr (u', h')" "changes a {} h h'" "out_ok (cc_cache_block_size (cn i h)) out u'"
      using write_out_line [OF n _ u o] l by auto
    then show ?thesis using None False uo by (simp add: write_back_def)
  next
    case (Some q)
    then have q: "takes_back a q h" "cc_cache_block_size (cn q h) = cc_cache_block_size (cn i h)" using ex m False by simp_all
    obtain x h1 where f: "hi_pop_frame h = (x, h1)" by fastforce
    have c1: "changes a {} h h1" using changes_frame(5) [of a h] f by simp
    have x: "length x = unat (cc_cache_block_size (cn i h))" using n f by (auto simp: hi_pop_frame_def node_ok_def)
    note k1 = changes_cn [OF c1]
    obtain y h2 where r: "retrieveCacheBlock i a (Some x) False h1 = Inr (Some y, h2)" "changes a {} h1 h2"
      "length y = unat (cc_cache_block_size (cn i h))"
      using retrieve_line [OF changes_node [OF c1 n], of x] l x changes_line [OF c1, of "mnum i h"] by (auto simp: k1)
    have c2: "changes a {} h h2" using changes_trans [OF c1 r(2)] by simp
    note k2 = changes_cn [OF c2]
    obtain h3 where w: "writeCacheBlock MAX_LEVELS q a 0 (Some y) (cc_cache_block_size (cn i h2)) h2 = Inr h3" "changes a {} h2 h3"
      using write_to_next [OF takes_back_changes [OF c2 q(1)], of y "cc_cache_block_size (cn i h2)" 19] r(3) q(2)
      by (auto simp: k2 MAX_LEVELS_def numeral_eq_Suc)
    have "changes a {} h h3" using changes_trans [OF c2 w(2)] by simp
    then show ?thesis using Some False u by (simp add: write_back_def f r(1) w(1) out_ok_def)
  qed
qed

section \<open>The new state of the line\<close>

definition snooped :: "cstate_t \<Rightarrow> CacheBlockInfo option \<Rightarrow> CacheBlockInfo option" where
  "snooped st b = (if st = C_INVALID then None else map_option (setCState st) b)"

lemma count_change_changes [simp]: "changes a {} h (count_change i reason st b h)"
proof -
  have 2: "changes a {} h (upd_stats i g (upd_stats i f h))" for f g
    using changes_trans [OF changes_frame(1) changes_frame(1)] by simp
  show ?thesis by (simp add: count_change_def Let_def 2)
qed

lemma out_copy:
  assumes "node_ok a i h" and "line a (mnum i h) h \<noteq> None" and "out_ok (cc_cache_block_size (cn i h)) out u"
  shows "\<exists>u' h'. (if ul_out_buf u \<noteq> None then write_out i a u h else Inr (u, h)) = Inr (u', h') \<and> changes a {} h h'
    \<and> out_ok (cc_cache_block_size (cn i h)) out u' \<and> (out \<noteq> None \<longrightarrow> ul_buf_written u')"
proof (cases "out = None")
  case True
  then show ?thesis using assms(3) by (simp add: out_ok_def)
next
  case False
  from write_out_line [OF assms False] show ?thesis using False assms(3) by (auto simp: out_ok_def)
qed

text \<open>The first half of \<open>change_state\<close>: after it the line is not modified any more.\<close>

lemma change_state_clean:
  assumes n: "node_ok a i h" and l: "line a (mnum i h) h = Some b" and e: "exit_ok a M i out h"
    and u: "out_ok (cc_cache_block_size (cn i h)) out u" and live: "cbi_cstate b \<noteq> C_INVALID"
  shows "\<exists>u' h' b'. (if cbi_cstate b = C_MODIFIED
       then bindR (write_back i a u (count_change i reason st b h)) (\<lambda>(u, h). bindR (setCacheState i a C_SHARED h) (\<lambda>h. Inr (u, h)))
       else Inr (u, count_change i reason st b h)) = Inr (u', h')
    \<and> changes a {mnum i h} h h' \<and> out_ok (cc_cache_block_size (cn i h)) out u' \<and> line a (mnum i h) h' = Some b'
    \<and> cbi_cstate b' \<noteq> C_MODIFIED \<and> cbi_cstate b' \<noteq> C_INVALID \<and> setCState s b' = setCState s b"
proof (cases "cbi_cstate b = C_MODIFIED")
  case False
  have c: "changes a {} h (count_change i reason st b h)" by simp
  have "line a (mnum i h) (count_change i reason st b h) = Some b" using changes_line [OF c] l by simp
  moreover have "changes a {mnum i h} h (count_change i reason st b h)" by (rule changes_mono [OF c]) simp
  ultimately show ?thesis using False u live by simp
next
  case True
  let ?h = "count_change i reason st b h"
  have c: "changes a {} h ?h" by simp
  note k = changes_cn [OF c]
  have l0: "line a (mnum i ?h) ?h = Some b" using changes_line [OF c] l by (simp add: k)
  have e0: "exit_ok a M i out ?h" by (rule exit_ok_changes [OF c _ _ e]) simp_all
  have u0: "out_ok (cc_cache_block_size (cn i ?h)) out u" using u by (simp add: k)
  obtain u1 h1 where w: "write_back i a u ?h = Inr (u1, h1)" "changes a {} ?h h1" "out_ok (cc_cache_block_size (cn i h)) out u1"
    using write_back_line [OF changes_node [OF c n] l0 True e0 u0] by (auto simp: k)
  have c1: "changes a {} h h1" using changes_trans [OF c w(2)] by simp
  note k1 = changes_cn [OF c1]
  have l1: "line a (mnum i h1) h1 = Some b" using changes_line [OF c1] l by (simp add: k1)
  obtain h2 where s: "setCacheState i a C_SHARED h1 = Inr h2" "changes a {mnum i h} h1 h2" "line a (mnum i h) h2 = Some (setCState C_SHARED b)"
    using setCacheState_line [OF changes_node [OF c1 n] l1, of C_SHARED] by (auto simp: k1)
  have "changes a {mnum i h} h h2" using changes_trans [OF c1 s(2)] by simp
  then show ?thesis using True w(1,3) s by (simp add: setCState_def)
qed

lemma change_state_line:
  assumes n: "node_ok a i h" and l: "line a (mnum i h) h = Some b" and e: "exit_ok a M i out h"
    and u: "out_ok (cc_cache_block_size (cn i h)) out u" and live: "cbi_cstate b \<noteq> C_INVALID" and st: "st = C_INVALID \<or> st = C_SHARED"
  shows "\<exists>u' h'. change_state i a st reason b u h = Inr (u', h') \<and> changes a {mnum i h} h h'
    \<and> out_ok (cc_cache_block_size (cn i h)) out u' \<and> (out \<noteq> None \<longrightarrow> ul_buf_written u') \<and> line a (mnum i h) h' = snooped st (Some b)"
proof -
  obtain u1 h1 b1 where 1: "(if cbi_cstate b = C_MODIFIED
       then bindR (write_back i a u (count_change i reason st b h)) (\<lambda>(u, h). bindR (setCacheState i a C_SHARED h) (\<lambda>h. Inr (u, h)))
       else Inr (u, count_change i reason st b h)) = Inr (u1, h1)"
    "changes a {mnum i h} h h1" "out_ok (cc_cache_block_size (cn i h)) out u1" "line a (mnum i h) h1 = Some b1"
    "cbi_cstate b1 \<noteq> C_MODIFIED" "cbi_cstate b1 \<noteq> C_INVALID" "setCState st b1 = setCState st b"
    using change_state_clean [OF n l e u live, of reason st st] by blast
  note k1 = changes_cn [OF 1(2)]
  have n1: "node_ok a i h1" by (rule changes_node [OF 1(2) n])
  obtain u2 h2 where 2: "(if ul_out_buf u1 \<noteq> None then write_out i a u1 h1 else Inr (u1, h1)) = Inr (u2, h2)" "changes a {} h1 h2"
    "out_ok (cc_cache_block_size (cn i h)) out u2" "out \<noteq> None \<longrightarrow> ul_buf_written u2"
    using out_copy [OF n1, of out u1] 1(3,4) by (auto simp: k1)
  have c2: "changes a {mnum i h} h h2" using changes_trans [OF 1(2) 2(2)] by simp
  note k2 = changes_cn [OF c2]
  have n2: "node_ok a i h2" by (rule changes_node [OF c2 n])
  have l2: "line a (mnum i h2) h2 = Some b1" using changes_line [OF 2(2)] 1(4) by (simp add: k2)
  have co: "cc_coherent (cn i h2)" using n2 by (simp add: node_ok_def)
  show ?thesis
  proof (cases "st = C_INVALID")
    case True
    obtain h3 where 3: "invalidateCacheBlock i a h2 = Inr h3" "changes a {mnum i h} h2 h3" "line a (mnum i h) h3 = None"
      using invalidate_line [OF n2 l2 1(5,6)] by (auto simp: k2)
    have "changes a {mnum i h} h h3" using changes_trans [OF c2 3(2)] by simp
    then show ?thesis using True 2(3,4) 3 co
      unfolding change_state_def 1(1) bindR_Inr prod.case 2(1) by (simp add: snooped_def 2(1))
  next
    case False
    then have sh: "st = C_SHARED" using st by simp
    obtain h3 where 3: "setCacheState i a C_SHARED h2 = Inr h3" "changes a {mnum i h} h2 h3" "line a (mnum i h) h3 = Some (setCState C_SHARED b1)"
      using setCacheState_line [OF n2 l2, of C_SHARED] by (auto simp: k2)
    have "changes a {mnum i h} h h3" using changes_trans [OF c2 3(2)] by simp
    then show ?thesis using sh 2(3,4) 3 1(7)
      unfolding change_state_def 1(1) bindR_Inr prod.case 2(1) by (simp add: snooped_def 2(1))
  qed
qed

lemma update_own_line:
  assumes n: "node_ok a i h" and e: "exit_ok a M i out h" and live: "live (line a (mnum i h) h)" and st: "st = C_INVALID \<or> st = C_SHARED"
  shows "\<exists>res out' h'. update_own i a st reason out sib h = Inr (res, out', h') \<and> changes a {mnum i h} h h'
    \<and> (out' = None \<longleftrightarrow> out = None) \<and> (\<forall>y. out' = Some y \<longrightarrow> length y = unat (cc_cache_block_size (cn i h)))
    \<and> line a (mnum i h) h' = snooped st (line a (mnum i h) h)"
proof -
  let ?u = "\<lparr>ul_out_buf = out, ul_buf_written = False, ul_is_writeback = False, ul_sibling_hit = sib\<rparr>"
  have u: "out_ok (cc_cache_block_size (cn i h)) out ?u" using e by (auto simp: out_ok_def exit_ok_def)
  let ?step = "case line a (mnum i h) h of None \<Rightarrow> Inr (?u, h)
     | Some b \<Rightarrow> if st = cbi_cstate b \<and> out \<noteq> None then write_out i a ?u h else change_state i a st reason b ?u h"
  have "\<exists>u' h'. ?step = Inr (u', h') \<and> changes a {mnum i h} h h' \<and> out_ok (cc_cache_block_size (cn i h)) out u'
    \<and> (out \<noteq> None \<longrightarrow> ul_buf_written u') \<and> line a (mnum i h) h' = snooped st (line a (mnum i h) h)"
  proof (cases "line a (mnum i h) h")
    case None
    then have "out = None" using e by (auto simp: exit_ok_def)
    then show ?thesis using None u by (simp add: snooped_def)
  next
    case (Some b)
    then have lv: "cbi_cstate b \<noteq> C_INVALID" using live by (simp add: live_def)
    show ?thesis
    proof (cases "st = cbi_cstate b \<and> out \<noteq> None")
      case True
      obtain u' h' where w: "write_out i a ?u h = Inr (u', h')" "changes a {} h h'" "out_ok (cc_cache_block_size (cn i h)) out u'" "ul_buf_written u'"
        using write_out_line [OF n _ u] Some True by auto
      have "line a (mnum i h) h' = snooped st (Some b)" using changes_line [OF w(2)] Some True lv by (auto simp: snooped_def setCState_def)
      then show ?thesis using Some True w changes_mono [OF w(2), of "{mnum i h}"] by auto
    next
      case False
      then show ?thesis using Some change_state_line [OF n Some e u lv st, of reason] by auto
    qed
  qed
  then obtain u' h' where r: "?step = Inr (u', h')" "changes a {mnum i h} h h'" "out_ok (cc_cache_block_size (cn i h)) out u'"
    "out \<noteq> None \<longrightarrow> ul_buf_written u'" "line a (mnum i h) h' = snooped st (line a (mnum i h) h)" by blast
  have s: "state_of (line a (mnum i h') h') = C_INVALID \<or> state_of (line a (mnum i h') h') = st"
    using r(5) changes_cn(1) [OF r(2), of i] by (cases "line a (mnum i h) h") (auto simp: snooped_def state_of_def setCState_def)
  show ?thesis
    using r s by (auto simp: update_own_def Let_def info_line [OF n] info_line [OF changes_node [OF r(2) n]] logAssertR_def out_ok_def)
qed

section \<open>Hierarchies\<close>

text \<open>The masters of the tree under a controller, with the controller's own first.\<close>

fun below :: "nat \<Rightarrow> nat \<Rightarrow> hier \<Rightarrow> nat list" where
  "below 0 i h = []"
| "below (Suc n) i h = mnum i h # concat (map (\<lambda>p. below n p h) (prevs_of i h))"

text \<open>
  A well-formed inclusive tree of fewer than \<open>n\<close> levels: a line of a previous level is in this cache, a line that a previous level has
  modified is modified here, and only a cache of the first level writes through. The next level \<open>q\<close> of a previous level is this
  controller or another one of the same cache.
\<close>

fun tree_ok :: "nat \<Rightarrow> IntPtr \<Rightarrow> nat \<Rightarrow> hier \<Rightarrow> bool" where
  "tree_ok 0 a i h = False"
| "tree_ok (Suc n) a i h \<longleftrightarrow> node_ok a i h \<and> live (line a (mnum i h) h) \<and>
     (\<forall>p \<in> set (prevs_of i h). tree_ok n a p h
        \<and> (\<exists>q. next_of p h = Some q \<and> mnum q h = mnum i h \<and> node_ok a q h \<and> \<not> cc_writethrough (cn q h)
              \<and> cc_cache_block_size (cn q h) = cc_cache_block_size (cn p h))
        \<and> (line a (mnum p h) h \<noteq> None \<longrightarrow> line a (mnum i h) h \<noteq> None)
        \<and> (state_of (line a (mnum p h) h) = C_MODIFIED \<longrightarrow> cc_writethrough (cn p h) \<or> state_of (line a (mnum i h) h) = C_MODIFIED))"

lemma below_changes: "changes a M h h' \<Longrightarrow> below n i h' = below n i h"
  by (induction n arbitrary: i) (simp_all add: changes_cn [of a M h h'])

lemma tree_ok_changes:
  assumes c: "changes a M h h'"
  shows "tree_ok n a i h \<Longrightarrow> set (below n i h) \<inter> M = {} \<Longrightarrow> tree_ok n a i h'"
proof (induction n arbitrary: i)
  case (Suc n)
  note k = changes_cn [OF c]
  have i: "line a (mnum i h) h' = line a (mnum i h) h" using changes_line [OF c] Suc.prems(2) by auto
  have p: "line a (mnum p h) h' = line a (mnum p h) h \<and> tree_ok n a p h'" if "p \<in> set (prevs_of i h)" for p
  proof -
    have t: "tree_ok n a p h" using Suc.prems(1) that by simp
    have d: "set (below n p h) \<inter> M = {}" using Suc.prems(2) that by auto
    have "mnum p h \<in> set (below n p h)" using t by (cases n) simp_all
    then show ?thesis using Suc.IH [OF t d] changes_line [OF c] d by blast
  qed
  have nodes: "node_ok a j h'" if "node_ok a j h" for j by (rule changes_node [OF c that])
  show ?case using Suc.prems(1) i p nodes by (fastforce simp: k)
qed simp

text \<open>In an inclusive tree a line that the root does not hold is nowhere.\<close>

lemma tree_absent:
  "tree_ok n a i h \<Longrightarrow> line a (mnum i h) h = None \<Longrightarrow> m \<in> set (below n i h) \<Longrightarrow> line a m h = None"
  by (induction n arbitrary: i) fastforce+

section \<open>Snooping a hierarchy\<close>

text \<open>The effect of a snoop on the caches in \<open>M\<close>.\<close>

definition snoops :: "IntPtr \<Rightarrow> cstate_t \<Rightarrow> nat set \<Rightarrow> hier \<Rightarrow> hier \<Rightarrow> bool" where
  "snoops a st M h h' \<longleftrightarrow> changes a M h h' \<and> (\<forall>m \<in> M. line a m h' = snooped st (line a m h))"

lemma snoops_trans:
  assumes "snoops a st M h h1" and "snoops a st N h1 h2" and "M \<inter> N = {}"
  shows "snoops a st (M \<union> N) h h2"
proof -
  have c: "changes a M h h1" "changes a N h1 h2" using assms(1,2) by (simp_all add: snoops_def)
  have "line a m h2 = snooped st (line a m h)" if "m \<in> M \<union> N" for m
  proof (cases "m \<in> M")
    case True
    then have "m \<notin> N" using assms(3) by blast
    then show ?thesis using True assms(1) changes_line [OF c(2)] by (simp add: snoops_def)
  next
    case False
    then show ?thesis using that assms(2) changes_line [OF c(1)] by (simp add: snoops_def)
  qed
  then show ?thesis using changes_trans [OF c] by (simp add: snoops_def)
qed

lemma each_prev_snoops:
  assumes "\<And>p h0. p \<in> set ps \<Longrightarrow> Q p h0 \<Longrightarrow> \<exists>res h'. f p h0 = Inr (res, h') \<and> snoops a st (M p) h0 h'"
    and "\<And>p p' h0 h'. p \<in> set ps \<Longrightarrow> p' \<in> set ps \<Longrightarrow> M p \<inter> M p' = {} \<Longrightarrow> Q p h0 \<Longrightarrow> snoops a st (M p') h0 h' \<Longrightarrow> Q p h'"
  shows "\<forall>p \<in> set ps. Q p h \<Longrightarrow> sorted_wrt (\<lambda>p p'. M p \<inter> M p' = {}) ps \<Longrightarrow>
    \<exists>res h'. each_prev f ps acc h = Inr (res, h') \<and> snoops a st (\<Union>p \<in> set ps. M p) h h'"
  using assms
proof (induction ps arbitrary: acc h)
  case Nil
  then show ?case by (simp add: snoops_def)
next
  case (Cons p ps)
  obtain res h1 where 1: "f p h = Inr (res, h1)" "snoops a st (M p) h h1" using Cons.prems(1,3) by (meson list.set_intros(1))
  have "\<forall>q \<in> set ps. Q q h1"
  proof
    fix q assume q: "q \<in> set ps"
    then have "M q \<inter> M p = {}" using Cons.prems(2) by auto
    then show "Q q h1" using Cons.prems(4) [of q p h h1] Cons.prems(1) 1(2) q by simp
  qed
  then have "\<exists>res' h2. each_prev f ps (max (fst acc) (fst res), snd acc \<or> snd res) h1 = Inr (res', h2)
    \<and> snoops a st (\<Union>p \<in> set ps. M p) h1 h2"
  proof (rule Cons.IH)
    show "sorted_wrt (\<lambda>p p'. M p \<inter> M p' = {}) ps" using Cons.prems(2) by simp
    show "\<exists>res h'. f q h0 = Inr (res, h') \<and> snoops a st (M q) h0 h'" if "q \<in> set ps" "Q q h0" for q h0
      using Cons.prems(3) [of q h0] that by simp
    show "Q q h'" if "q \<in> set ps" "q' \<in> set ps" "M q \<inter> M q' = {}" "Q q h0" "snoops a st (M q') h0 h'" for q q' h0 h'
      using Cons.prems(4) [of q q' h0 h'] that by simp
  qed
  then obtain res' h2 where 2: "each_prev f ps (max (fst acc) (fst res), snd acc \<or> snd res) h1 = Inr (res', h2)"
    "snoops a st (\<Union>p \<in> set ps. M p) h1 h2" by blast
  have "M p \<inter> (\<Union>p \<in> set ps. M p) = {}" using Cons.prems(2) by auto
  then show ?case using 1(1) 2(1) snoops_trans [OF 1(2) 2(2)] by simp
qed

lemma below_disjoint:
  "distinct (concat (map (\<lambda>p. below n p h) ps)) \<Longrightarrow> sorted_wrt (\<lambda>p p'. set (below n p h) \<inter> set (below n p' h) = {}) ps"
  by (induction ps) auto

lemma below_distinct: "distinct (concat (map f ps)) \<Longrightarrow> p \<in> set ps \<Longrightarrow> distinct (f p)"
  by (induction ps) auto

text \<open>The loop over the previous levels of the root of a tree, when the snoop of each of their trees succeeds.\<close>

lemma prevs_snoops:
  assumes st: "st = C_INVALID \<or> st = C_SHARED"
    and IH: "\<And>p h0. tree_ok n a p h0 \<Longrightarrow> distinct (below n p h0) \<Longrightarrow> exit_ok a (set (below n p h0)) p None h0 \<Longrightarrow>
      \<exists>res out' h'. updateCacheBlock n p a st reason None h0 = Inr (res, out', h') \<and> snoops a st (set (below n p h0)) h0 h'"
    and t: "tree_ok (Suc n) a i h" and d: "distinct (below (Suc n) i h)"
  shows "\<exists>res h1. each_prev (\<lambda>p h. bindR (updateCacheBlock n p a st reason None h) (\<lambda>(res, _, h). Inr (res, h))) (prevs_of i h) acc h
      = Inr (res, h1) \<and> snoops a st (\<Union>p \<in> set (prevs_of i h). set (below n p h)) h h1"
proof -
  let ?ps = "prevs_of i h" and ?B = "\<lambda>p. set (below n p h)"
  let ?f = "\<lambda>p h. bindR (updateCacheBlock n p a st reason None h) (\<lambda>(res, _, h). Inr (res, h))"
  define Q where "Q = (\<lambda>p h0. (\<exists>N. changes a N h h0) \<and> tree_ok n a p h0 \<and> exit_ok a (?B p) p None h0)"
  have dist: "distinct (concat (map (\<lambda>p. below n p h) ?ps))" "mnum i h \<notin> (\<Union>p \<in> set ?ps. ?B p)" using d by simp_all
  have root: "mnum p h \<in> ?B p" if "tree_ok n a p h0" for p h0 using that by (cases n) simp_all
  have ex: "exit_ok a (?B p) p None h" if p: "p \<in> set ?ps" for p
    using t dist(2) p by (fastforce simp: exit_ok_def takes_back_def)
  show ?thesis
  proof (rule each_prev_snoops [where Q = Q])
    show "\<forall>p \<in> set ?ps. Q p h" using t ex changes_refl by (auto simp: Q_def)
    show "sorted_wrt (\<lambda>p p'. ?B p \<inter> ?B p' = {}) ?ps" by (rule below_disjoint [OF dist(1)])
    fix p h0 assume p: "p \<in> set ?ps" and q: "Q p h0"
    then obtain N where c: "changes a N h h0" by (auto simp: Q_def)
    have B: "below n p h0 = below n p h" by (rule below_changes [OF c])
    have "distinct (below n p h0)" using below_distinct [OF dist(1) p] by (simp add: B)
    then show "\<exists>res h'. ?f p h0 = Inr (res, h') \<and> snoops a st (?B p) h0 h'"
      using IH [of p h0] q by (auto simp: Q_def B)
  next
    fix p p' h0 h' assume p: "p \<in> set ?ps" "p' \<in> set ?ps" "?B p \<inter> ?B p' = {}" "Q p h0" "snoops a st (?B p') h0 h'"
    then obtain N where c: "changes a N h h0" and t': "tree_ok n a p h0" and e: "exit_ok a (?B p) p None h0" by (auto simp: Q_def)
    have c': "changes a (?B p') h0 h'" using p(5) by (simp add: snoops_def)
    have t'': "tree_ok n a p h'" by (rule tree_ok_changes [OF c' t']) (use p(3) in \<open>simp add: below_changes [OF c]\<close>)
    have "mnum p h0 = mnum p h" by (rule changes_cn(1) [OF c])
    moreover have "\<exists>q. next_of p h0 = Some q \<and> mnum q h0 = mnum i h" using t p(1) changes_cn [OF c] by auto
    moreover have "mnum i h \<notin> ?B p'" using dist(2) p(2) by blast
    ultimately have "exit_ok a (?B p) p None h'"
      using e takes_back_changes [OF c'] changes_cn [OF c'] changes_line [OF c'] root [OF t'] p(3)
      by (auto simp: exit_ok_def disjoint_iff)
    then show "Q p h'" using changes_trans [OF c c'] t'' by (auto simp: Q_def)
  qed
qed

text \<open>
  The snoop of a whole tree always returns, and every cache of the tree has the line in the new state: the induction is over
  the levels.
\<close>

lemma updateCacheBlock_snoops:
  assumes st: "st = C_INVALID \<or> st = C_SHARED"
  shows "tree_ok n a i h \<Longrightarrow> distinct (below n i h) \<Longrightarrow> exit_ok a (set (below n i h)) i out h \<Longrightarrow>
    \<exists>res out' h'. updateCacheBlock n i a st reason out h = Inr (res, out', h') \<and> snoops a st (set (below n i h)) h h'
      \<and> (out' = None \<longleftrightarrow> out = None) \<and> (\<forall>y. out' = Some y \<longrightarrow> length y = unat (cc_cache_block_size (cn i h)))"
proof (induction n arbitrary: i h out reason)
  case (Suc n)
  let ?ps = "prevs_of i h" and ?B = "\<lambda>p. set (below n p h)"
  let ?f = "\<lambda>p h. bindR (updateCacheBlock n p a st (if reason = EVICT then BACK_INVAL else reason) None h) (\<lambda>(res, _, h). Inr (res, h))"
  have dist: "mnum i h \<notin> (\<Union>p \<in> set ?ps. ?B p)" using Suc.prems(2) by simp
  have "\<exists>res h1. each_prev ?f ?ps (0, False) h = Inr (res, h1) \<and> snoops a st (\<Union>p \<in> set ?ps. ?B p) h h1"
    by (rule prevs_snoops [OF st _ Suc.prems(1,2)]) (use Suc.IH in blast)
  then obtain res h1 where 1: "each_prev ?f ?ps (0, False) h = Inr (res, h1)" "snoops a st (\<Union>p \<in> set ?ps. ?B p) h h1" by blast
  have c1: "changes a (\<Union>p \<in> set ?ps. ?B p) h h1" using 1(2) by (simp add: snoops_def)
  note k1 = changes_cn [OF c1]
  have l1: "line a (mnum i h) h1 = line a (mnum i h) h" by (rule changes_line [OF c1 dist])
  have n1: "node_ok a i h1" by (rule changes_node [OF c1]) (use Suc.prems(1) in simp)
  have e1: "exit_ok a (set (below (Suc n) i h)) i out h1"
    by (rule exit_ok_changes [OF c1 _ dist Suc.prems(3)]) auto
  have v1: "live (line a (mnum i h1) h1)" using Suc.prems(1) l1 by (simp add: k1)
  obtain res' out' h2 where 2: "update_own i a st reason out (snd res) h1 = Inr (res', out', h2)" "changes a {mnum i h} h1 h2"
    "out' = None \<longleftrightarrow> out = None" "line a (mnum i h) h2 = snooped st (line a (mnum i h) h)"
    "\<forall>y. out' = Some y \<longrightarrow> length y = unat (cc_cache_block_size (cn i h))"
    using update_own_line [OF n1 e1 v1 st, of reason "snd res"] l1 by (auto simp: k1)
  have "snoops a st {mnum i h} h1 h2" using 2(2,4) l1 by (simp add: snoops_def)
  then have "snoops a st ((\<Union>p \<in> set ?ps. ?B p) \<union> {mnum i h}) h h2" by (rule snoops_trans [OF 1(2)]) (use dist in blast)
  moreover have "(\<Union>p \<in> set ?ps. ?B p) \<union> {mnum i h} = set (below (Suc n) i h)" by auto
  ultimately have "snoops a st (set (below (Suc n) i h)) h h2" by simp
  moreover have "cstate_regular st" using st by (auto simp: cstate_regular_def)
  ultimately show ?case using 1(1) 2(1,3,5) by (simp add: logAssertR_def)
qed simp

section \<open>The requests of the directory\<close>

text \<open>A reply of the last-level cache to the directory on core \<open>dest\<close>, and the data that comes with it.\<close>

definition is_reply_to :: "msg_t \<Rightarrow> core_id_t \<Rightarrow> core_id_t \<Rightarrow> IntPtr \<Rightarrow> UInt8 list option \<Rightarrow> NetPacket \<Rightarrow> bool" where
  "is_reply_to t dest requester a payload pk \<longleftrightarrow> np_receiver pk = ToCore dest \<and> sm_msg_type (packet_msg pk) = t
     \<and> sm_requester (packet_msg pk) = requester \<and> sm_address (packet_msg pk) = a
     \<and> sm_sender_mem_component (packet_msg pk) = LAST_LEVEL_CACHE \<and> sm_receiver_mem_component (packet_msg pk) = TAG_DIR
     \<and> sm_data_buf (packet_msg pk) = payload \<and> unat (sm_data_length (packet_msg pk)) = (case payload of None \<Rightarrow> 0 | Some d \<Rightarrow> length d)"

lemma hi_sendMsg_sends:
  assumes "(buf = None) = (len = 0)" and "\<forall>x. buf = Some x \<longrightarrow> length x = unat len"
  shows "\<exists>pk. hi_sendMsg i t requester dest a buf len th h = Inr (h\<lparr>hi_sent := hi_sent h @ [pk]\<rparr>) \<and> is_reply_to t dest requester a buf pk
    \<and> np_sender pk = cc_core_id_master (cn i h)"
proof -
  obtain pk where pk: "sendMsg_packet (cc_core_id_master (cn i h)) (elapsed i th h) t LAST_LEVEL_CACHE TAG_DIR requester dest a buf len HIT_UNKNOWN
      = Inr pk"
    using assms(1) by (cases "len = 0") (auto simp: sendMsg_packet_def pack_msg_def setWhere_def assertR_def logAssertR_def Let_def word_neq_0_conv)
  from sendMsg_packet_Inr [OF this] assms have "is_reply_to t dest requester a buf pk \<and> np_sender pk = cc_core_id_master (cn i h)"
    by (cases buf) (auto simp: is_reply_to_def)
  with pk show ?thesis by (auto simp: hi_sendMsg_def)
qed

lemma line_sent [simp]: "line a m (h\<lparr>hi_sent := s\<rparr>) = line a m h"
  by (simp add: line_def)

text \<open>The last-level cache of a well-formed hierarchy.\<close>

definition llc_ok :: "IntPtr \<Rightarrow> nat \<Rightarrow> hier \<Rightarrow> bool" where
  "llc_ok a i h \<longleftrightarrow> tree_ok MAX_LEVELS a i h \<and> distinct (below MAX_LEVELS i h) \<and> next_of i h = None
     \<and> cc_cache_block_size (cn i h) \<noteq> 0"

abbreviation masters_of :: "nat \<Rightarrow> hier \<Rightarrow> nat set" where
  "masters_of i h \<equiv> set (below MAX_LEVELS i h)"

lemma llc_ok_changes:
  assumes c: "changes a {} h h'" and "llc_ok a i h"
  shows "llc_ok a i h'" and "masters_of i h' = masters_of i h"
  using assms(2) tree_ok_changes [OF c, of MAX_LEVELS i] changes_cn [OF c, of i] by (simp_all add: llc_ok_def below_changes [OF c])

lemma llc_node:
  assumes "llc_ok a i h"
  shows "node_ok a i h" and "mnum i h \<in> masters_of i h" and "live (line a (mnum i h) h)"
proof -
  have "MAX_LEVELS = Suc 19" by (simp add: MAX_LEVELS_def)
  then have "tree_ok (Suc 19) a i h" and m: "masters_of i h = set (below (Suc 19) i h)" using assms by (auto simp only: llc_ok_def)
  then show "node_ok a i h" "live (line a (mnum i h) h)" unfolding tree_ok.simps by blast+
  show "mnum i h \<in> masters_of i h" unfolding m below.simps by simp
qed

lemma llc_snoop:
  assumes ok: "llc_ok a i h" and st: "st = C_INVALID \<or> st = C_SHARED"
    and out: "case out of None \<Rightarrow> state_of (line a (mnum i h) h) \<noteq> C_MODIFIED
              | Some x \<Rightarrow> line a (mnum i h) h \<noteq> None \<and> length x = unat (cc_cache_block_size (cn i h))"
  shows "\<exists>res out' h'. updateCacheBlock MAX_LEVELS i a st reason out h = Inr (res, out', h') \<and> snoops a st (masters_of i h) h h'
    \<and> (out' = None \<longleftrightarrow> out = None) \<and> (\<forall>y. out' = Some y \<longrightarrow> length y = unat (cc_cache_block_size (cn i h)))"
proof -
  have "exit_ok a (masters_of i h) i out h" using ok out by (auto simp: exit_ok_def llc_ok_def split: option.splits)
  then show ?thesis using updateCacheBlock_snoops [OF st, of MAX_LEVELS a i h out reason] ok by (simp add: llc_ok_def)
qed

text \<open>
  C3: An invalidation request of the directory always succeeds at the last-level cache of a well-formed inclusive hierarchy, provided the line is
  not modified there (the directory sends it to sharers; for a modified line the code stops with an error): afterwards no cache of
  the hierarchy holds the line, the line is as before in every other cache, every other line is as before in every cache, and if
  the cache had the line the only message sent is one INV_REP to the directory that asked.
\<close>

theorem inv_req_clears_hierarchy:
  assumes "llc_ok (sm_address msg) i h" and "state_of (line (sm_address msg) (mnum i h) h) \<noteq> C_MODIFIED"
  shows "\<exists>h'. processInvReqFromDramDirectory i dir msg h = Inr h'
    \<and> (\<forall>m \<in> masters_of i h. line (sm_address msg) m h' = None)
    \<and> (\<forall>m. m \<notin> masters_of i h \<longrightarrow> line (sm_address msg) m h' = line (sm_address msg) m h)
    \<and> (\<forall>m a'. addr_tag (mc_cache (hi_masters h m)) a' \<noteq> addr_tag (mc_cache (hi_masters h m)) (sm_address msg) \<longrightarrow> line a' m h' = line a' m h)
    \<and> (if line (sm_address msg) (mnum i h) h = None then hi_sent h' = hi_sent h
       else \<exists>pk. hi_sent h' = hi_sent h @ [pk] \<and> is_reply_to INV_REP dir (sm_requester msg) (sm_address msg) None pk)"
proof -
  let ?a = "sm_address msg"
  let ?h = "incr_cost i ACCESS_CACHE_TAGS SIM_THREAD h"
  have c: "changes ?a {} h ?h" by simp
  note k = changes_cn [OF c] and ok' = llc_ok_changes [OF c assms(1)] and l = changes_line [OF c]
  have st: "getCacheState i ?a h = Inr (state_of (line ?a (mnum i h) h))" by (rule info_line [OF llc_node(1) [OF assms(1)]])
  show ?thesis
  proof (cases "line ?a (mnum i h) h")
    case None
    have "line ?a m h = None" if "m \<in> masters_of i h" for m
      by (rule tree_absent [OF _ None that]) (use assms(1) in \<open>simp add: llc_ok_def\<close>)
    then show ?thesis using None l c changes_other [OF c]
      by (simp add: processInvReqFromDramDirectory_def Let_def st state_of_def changes_def)
  next
    case (Some b)
    then have "state_of (line ?a (mnum i h) h) \<noteq> C_INVALID" using llc_node(3) [OF assms(1)] by (simp add: live_def state_of_def)
    moreover obtain res out' h1 where 1: "updateCacheBlock MAX_LEVELS i ?a C_INVALID COHERENCY None ?h = Inr (res, out', h1)"
      "snoops ?a C_INVALID (masters_of i h) ?h h1"
      using llc_snoop [OF ok'(1), of C_INVALID None COHERENCY] assms(2) l ok'(2) by (auto simp: k)
    moreover obtain pk where "hi_sendMsg i INV_REP (sm_requester msg) dir ?a None 0 SIM_THREAD h1 = Inr (h1\<lparr>hi_sent := hi_sent h1 @ [pk]\<rparr>)"
      "is_reply_to INV_REP dir (sm_requester msg) ?a None pk" using hi_sendMsg_sends [of None 0 i INV_REP "sm_requester msg" dir ?a SIM_THREAD h1] by auto
    moreover have "hi_sent h1 = hi_sent h" using 1(2) c by (simp add: snoops_def changes_def)
    moreover have "changes ?a (masters_of i h) h h1" using changes_trans [OF c, of "masters_of i h" h1] 1(2) by (simp add: snoops_def)
    note other = changes_other [OF this]
    ultimately show ?thesis using Some l other
      by (auto simp: processInvReqFromDramDirectory_def Let_def st snoops_def snooped_def changes_def)
  qed
qed

text \<open>The common part of a flush and a write-back: the data array is accessed and the line is copied to a buffer on the stack.\<close>

lemma snoop_with_data:
  assumes ok: "llc_ok a i h" and st: "st = C_INVALID \<or> st = C_SHARED" and b: "line a (mnum i h) h \<noteq> None"
  obtains x h0 res y h1 pk where
    "hi_pop_frame (incr_cost i ACCESS_CACHE_DATA_AND_TAGS SIM_THREAD h) = (x, h0)"
    "updateCacheBlock MAX_LEVELS i a st COHERENCY (Some x) h0 = Inr (res, Some y, h1)"
    "hi_sendMsg i t requester dest a (Some y) (cc_cache_block_size (cn i h1)) SIM_THREAD h1 = Inr (h1\<lparr>hi_sent := hi_sent h @ [pk]\<rparr>)"
    "is_reply_to t dest requester a (Some y) pk" "snoops a st (masters_of i h) h h1" "length y = unat (cc_cache_block_size (cn i h))"
proof -
  let ?h = "incr_cost i ACCESS_CACHE_DATA_AND_TAGS SIM_THREAD h"
  obtain x h0 where f: "hi_pop_frame ?h = (x, h0)" by fastforce
  have c: "changes a {} h h0" using changes_trans [OF changes_frame(4) changes_frame(5)] f by (metis snd_conv sup_bot.right_neutral)
  note k = changes_cn [OF c] and ok' = llc_ok_changes [OF c ok]
  have l: "line a m h0 = line a m h" for m by (rule changes_line [OF c]) simp
  have "length x = unat (cc_cache_block_size (cn i h0))"
    using f llc_node(1) [OF ok'(1)] by (auto simp: hi_pop_frame_def node_ok_def)
  then obtain res out h1 where u: "updateCacheBlock MAX_LEVELS i a st COHERENCY (Some x) h0 = Inr (res, out, h1)"
    "snoops a st (masters_of i h) h0 h1" "out \<noteq> None" "\<forall>y. out = Some y \<longrightarrow> length y = unat (cc_cache_block_size (cn i h))"
    using llc_snoop [OF ok'(1) st, of "Some x" COHERENCY] b l ok'(2) by (auto simp: k)
  then obtain y where y: "out = Some y" by blast
  have s: "snoops a st (masters_of i h) h h1"
    using changes_trans [OF c] u(2) l by (auto simp: snoops_def)
  then have n: "cc_cache_block_size (cn i h1) \<noteq> 0" "hi_sent h1 = hi_sent h" "cc_cache_block_size (cn i h1) = cc_cache_block_size (cn i h)"
    using ok changes_cn(6) [of a "masters_of i h" h h1 i] by (simp_all add: snoops_def llc_ok_def changes_def)
  obtain pk where "hi_sendMsg i t requester dest a (Some y) (cc_cache_block_size (cn i h1)) SIM_THREAD h1 = Inr (h1\<lparr>hi_sent := hi_sent h1 @ [pk]\<rparr>)"
    "is_reply_to t dest requester a (Some y) pk"
    using hi_sendMsg_sends [of "Some y" "cc_cache_block_size (cn i h1)" i t requester dest a SIM_THREAD h1] n(1,3) u(4) y by auto
  then show ?thesis using that f u(1,4) s y n(2) by simp
qed

lemma llc_state:
  assumes "llc_ok a i h"
  shows "getCacheState i a h = Inr (state_of (line a (mnum i h) h))"
    and "state_of (line a (mnum i h) h) = C_INVALID \<longleftrightarrow> line a (mnum i h) h = None"
  using info_line(2) [OF llc_node(1) [OF assms]] llc_node(3) [OF assms]
  by (auto simp: live_def state_of_def split: option.splits)

lemma llc_absent:
  assumes "llc_ok a i h" and "line a (mnum i h) h = None" and "m \<in> masters_of i h"
  shows "line a m h = None"
  by (rule tree_absent [OF _ assms(2,3)]) (use assms(1) in \<open>simp add: llc_ok_def\<close>)

section \<open>Snoops that fail\<close>

lemma each_prev_zero: "(\<And>p. p \<in> set ps \<Longrightarrow> f p h = Inr ((0, False), h)) \<Longrightarrow> each_prev f ps (0, False) h = Inr ((0, False), h)"
  by (induction ps) auto

text \<open>A tree without the line is not changed by a snoop.\<close>

lemma updateCacheBlock_absent:
  assumes "cstate_regular st"
  shows "tree_ok n a i h \<Longrightarrow> line a (mnum i h) h = None \<Longrightarrow>
    updateCacheBlock n i a st reason out h
      = (if out = None then Inr ((0, False), None, h) else Inl (LogError ''out_buf passed in but never written to''))"
proof (induction n arbitrary: i out reason)
  case (Suc n)
  let ?f = "\<lambda>p h. bindR (updateCacheBlock n p a st (if reason = EVICT then BACK_INVAL else reason) None h) (\<lambda>(res, _, h). Inr (res, h))"
  have "?f p h = Inr ((0, False), h)" if "p \<in> set (prevs_of i h)" for p
  proof -
    have "tree_ok n a p h" "line a (mnum p h) h = None" using Suc.prems that by auto
    then show ?thesis using Suc.IH [of p "if reason = EVICT then BACK_INVAL else reason" None] by simp
  qed
  then have "each_prev ?f (prevs_of i h) (0, False) h = Inr ((0, False), h)"
    by (rule each_prev_zero)
  then show ?case using Suc.prems assms info_line [of a i h]
    by (simp add: update_own_def Let_def logAssertR_def state_of_def)
qed simp

text \<open>
  The reply to an upgrade request may carry data, because the copy was invalidated in the meantime. The handler passes the
  buffer of the message as out-buffer to \<^verbatim>\<open>updateCacheBlock\<close>, which for an absent line never writes it, so this case always ends
  in the error about an out-buffer that is never written: the data is not inserted.
\<close>

theorem upgrade_rep_with_data_aborts:
  assumes "llc_ok (sm_address msg) i h" and "line (sm_address msg) (mnum i h) h = None" and "sm_data_buf msg \<noteq> None"
  shows "processUpgradeRepFromDramDirectory i msg h = Inl (LogError ''out_buf passed in but never written to'')"
proof -
  have "updateCacheBlock MAX_LEVELS i (sm_address msg) C_MODIFIED UPGRADE (sm_data_buf msg) h
      = Inl (LogError ''out_buf passed in but never written to'')"
    using updateCacheBlock_absent [of C_MODIFIED MAX_LEVELS "sm_address msg" i h UPGRADE "sm_data_buf msg"] assms
    by (simp add: cstate_regular_def llc_ok_def)
  then show ?thesis using llc_state [OF assms(1)] assms(2,3)
    by (simp add: processUpgradeRepFromDramDirectory_def Let_def state_of_def logAssertR_def)
qed

text \<open>The L3 cache looks for the way of a line that is written back to it before it looks at the eviction buffer.\<close>

lemma l3_write_absent:
  assumes "cache_ok (the_cache q h)" and "line a (mnum q h) h = None" and "cc_mem_component (cn q h) = L3_CACHE"
  shows "writeCacheBlock (Suc k) q a offset buf len h = Inl (AssertFail ''blockIndex != -1'')"
proof -
  have "the_cache q (h\<lparr>hi_L3WritesDueToWriteBack := w\<rparr>) = the_cache q h" for w by (simp add: the_cache_def ms_def cn_def)
  then show ?thesis using assms Cache_getBlockIndex_iff(2) [of "the_cache q h" a]
    by (simp add: llc_write_cost_def the_cache_line)
qed

lemma changes_cache_ok:
  assumes "changes a M h h'" and "cache_ok (the_cache q h)"
  shows "cache_ok (the_cache q h')"
proof -
  obtain c where "hi_masters h' (mnum q h) = (hi_masters h (mnum q h))\<lparr>mc_cache := c\<rparr>" "cache_keeps a (mc_cache (hi_masters h (mnum q h))) c"
    using assms(1) unfolding changes_def by blast
  then show ?thesis using assms(2) changes_cn(1) [OF assms(1), of q] by (auto simp: the_cache_def ms_def cache_keeps_def cache_same_def)
qed

lemma write_back_to_l3_aborts:
  assumes n: "node_ok a p h" and l: "line a (mnum p h) h \<noteq> None" and p: "\<not> cc_writethrough (cn p h)" "next_of p h = Some q"
    and q: "cache_ok (the_cache q h)" "line a (mnum q h) h = None" "cc_mem_component (cn q h) = L3_CACHE"
  shows "write_back p a u h = Inl (AssertFail ''blockIndex != -1'')"
proof -
  obtain x h1 where f: "hi_pop_frame h = (x, h1)" by fastforce
  have c1: "changes a {} h h1" using changes_frame(5) [of a h] f by simp
  note k1 = changes_cn [OF c1]
  have x: "length x = unat (cc_cache_block_size (cn p h1))" using n f by (auto simp: k1 hi_pop_frame_def node_ok_def)
  obtain y h2 where r: "retrieveCacheBlock p a (Some x) False h1 = Inr (Some y, h2)" "changes a {} h1 h2"
    using retrieve_line [OF changes_node [OF c1 n] _ x] l changes_line [OF c1, of "mnum p h"] by (auto simp: k1)
  have c2: "changes a {} h h2" using changes_trans [OF c1 r(2)] by simp
  note k2 = changes_cn [OF c2]
  have "writeCacheBlock (Suc 19) q a 0 (Some y) len h2 = Inl (AssertFail ''blockIndex != -1'')" for len
    by (rule l3_write_absent) (use changes_cache_ok [OF c2 q(1)] q(2,3) changes_line [OF c2] in \<open>simp_all add: k2\<close>)
  then show ?thesis using p by (simp add: write_back_def f r(1) MAX_LEVELS_def)
qed

lemma dirty_snoop_aborts:
  assumes t: "tree_ok (Suc n) a p h" and d: "distinct (below (Suc n) p h)" and st: "state_of (line a (mnum p h) h) = C_MODIFIED"
    and p: "\<not> cc_writethrough (cn p h)" "next_of p h = Some q" "mnum q h \<notin> set (below (Suc n) p h)"
    and q: "cache_ok (the_cache q h)" "line a (mnum q h) h = None" "cc_mem_component (cn q h) = L3_CACHE"
  shows "updateCacheBlock (Suc n) p a C_INVALID reason out h = Inl (AssertFail ''blockIndex != -1'')"
proof -
  let ?M = "\<Union>j \<in> set (prevs_of p h). set (below n j h)"
  let ?r = "if reason = EVICT then BACK_INVAL else reason"
  have "\<exists>res h1. each_prev (\<lambda>p h. bindR (updateCacheBlock n p a C_INVALID ?r None h) (\<lambda>(res, _, h). Inr (res, h))) (prevs_of p h) (0, False) h
      = Inr (res, h1) \<and> snoops a C_INVALID ?M h h1"
    by (rule prevs_snoops [OF disjI1 [OF refl] _ t d]) (use updateCacheBlock_snoops [OF disjI1 [OF refl]] in blast)
  then obtain res h1 where 1: "each_prev (\<lambda>p h. bindR (updateCacheBlock n p a C_INVALID ?r None h) (\<lambda>(res, _, h). Inr (res, h)))
      (prevs_of p h) (0, False) h = Inr (res, h1)" "changes a ?M h h1" unfolding snoops_def by blast
  note k1 = changes_cn [OF 1(2)]
  obtain b where b: "line a (mnum p h) h = Some b" "cbi_cstate b = C_MODIFIED" using st by (auto simp: state_of_def split: option.splits)
  have l1: "line a (mnum p h1) h1 = Some b" using changes_line [OF 1(2), of "mnum p h"] d b(1) by (simp add: k1)
  have n1: "node_ok a p h1" by (rule changes_node [OF 1(2)]) (use t in simp)
  let ?h = "count_change p reason C_INVALID b h1"
  have c: "changes a {} h1 ?h" by simp
  have c2: "changes a ?M h ?h" using changes_trans [OF 1(2) c] by simp
  note k2 = changes_cn [OF c2]
  have "write_back p a u ?h = Inl (AssertFail ''blockIndex != -1'')" for u
    by (rule write_back_to_l3_aborts [OF changes_node [OF c n1], where q = q])
      (use changes_line [OF c, of "mnum p h1"] l1 p changes_cache_ok [OF c2 q(1)] q(2,3) changes_line [OF c2, of "mnum q h"] k1 in \<open>auto simp: k2\<close>)
  then show ?thesis using 1(1) info_line [OF n1] l1 b(2)
    by (simp add: update_own_def Let_def change_state_def cstate_regular_def logAssertR_def)
qed

lemma tree_frame:
  assumes "\<And>j. cn j h' = cn j h" and "hi_stack h' = hi_stack h"
  shows "tree_ok n a i h \<Longrightarrow> (\<And>m. m \<in> set (below n i h) \<Longrightarrow> hi_masters h' m = hi_masters h m) \<Longrightarrow>
    tree_ok n a i h' \<and> below n i h' = below n i h"
proof (induction n arbitrary: i)
  case (Suc n)
  have i: "hi_masters h' (mnum i h) = hi_masters h (mnum i h)" using Suc.prems(2) by simp
  then have pv: "prevs_of i h' = prevs_of i h" by (simp add: prevs_of_def ms_def assms)
  have li: "line a (mnum i h) h' = line a (mnum i h) h" using i by (simp add: line_def)
  have node: "node_ok a j h'" if "node_ok a j h" "mnum j h = mnum i h" for j
    using that i by (simp add: node_ok_def the_cache_def ms_def assms)
  have p: "tree_ok n a p h' \<and> below n p h' = below n p h \<and> line a (mnum p h) h' = line a (mnum p h) h" if "p \<in> set (prevs_of i h)" for p
  proof -
    have t: "tree_ok n a p h" using Suc.prems(1) that by simp
    have m: "hi_masters h' m = hi_masters h m" if "m \<in> set (below n p h)" for m
      using Suc.prems(2) [of m] that \<open>p \<in> set (prevs_of i h)\<close> by auto
    have "mnum p h \<in> set (below n p h)" using t by (cases n) simp_all
    then show ?thesis using Suc.IH [OF t m] m by (simp add: line_def)
  qed
  have "map (\<lambda>p. below n p h') (prevs_of i h) = map (\<lambda>p. below n p h) (prevs_of i h)" using p by simp
  then have "below (Suc n) i h' = below (Suc n) i h" by (simp only: below.simps pv assms)
  moreover have "tree_ok (Suc n) a i h'"
    using Suc.prems(1) li node p by (auto simp: pv assms next_of_def)
  ultimately show ?case by blast
qed simp

text \<open>
  C39: When the L3 cache has evicted a line that its first previous-level cache still has modified, the eviction always ends in the failing
  assertion of \<^verbatim>\<open>getBlockIndexForGivenTag\<close>: the line has already been replaced in the L3 cache when the back-invalidation
  makes the previous level write its data back, and the cost of the write depends on the way of the line.
\<close>

theorem l3_dirty_eviction_aborts:
  assumes "prevs_of i h = p # ps" and "tree_ok MAX_LEVELS a p h" and "distinct (mnum i h # below MAX_LEVELS p h)"
    and "state_of (line a (mnum p h) h) = C_MODIFIED" and "\<not> cc_writethrough (cn p h)" and "next_of p h = Some q"
    and "mnum q h = mnum i h" and "cc_mem_component (cn q h) = L3_CACHE"
    and "cache_ok (the_cache i h)" and "line a (mnum i h) h = None"
  shows "evict_line i a b (Some buf) th h = Inl (AssertFail ''blockIndex != -1'')"
proof -
  obtain f where e: "evict_line i a b (Some buf) th h = bindR (back_invalidate i a (Some buf) th (upd_stats i f h)) (\<lambda>(evict_buf, h).
      bindR (dispose_line i a b evict_buf th h) (\<lambda>h. bindR (getCacheState i a h) (\<lambda>st.
      bindR (logAssertR (st = C_INVALID) ''Evicted address did not become invalid'') (\<lambda>_. Inr h))))"
    unfolding evict_line_def Let_def by blast
  let ?h1 = "upd_stats i f h"
  have c: "changes a {} h ?h1" by simp
  note k = changes_cn [OF c] and t1 = tree_ok_changes [OF c assms(2)]
  define h2 where "h2 = upd_ms i (\<lambda>m. m\<lparr>mc_evicting_address := a, mc_evicting_buf := Some buf\<rparr>) ?h1"
  have m2: "hi_masters h2 = (hi_masters ?h1)(mnum i h := (ms i ?h1)\<lparr>mc_evicting_address := a, mc_evicting_buf := Some buf\<rparr>)"
    by (simp add: h2_def upd_ms_def k)
  have cn2: "cn j h2 = cn j ?h1" "hi_stack h2 = hi_stack ?h1" for j by (simp_all add: h2_def upd_ms_def cn_def)
  have fr: "tree_ok MAX_LEVELS a p h2 \<and> below MAX_LEVELS p h2 = below MAX_LEVELS p ?h1"
    by (rule tree_frame [OF cn2 t1]) (use assms(3) m2 in \<open>auto simp: below_changes [OF c]\<close>)
  have l2: "line a m h2 = line a m h" for m
    using changes_line [OF c, of m] m2 k by (auto simp: line_def ms_def)
  have pv: "prevs_of i h2 = p # ps" using m2 k assms(1) by (simp add: prevs_of_def ms_def cn2)
  have "the_cache q h2 = the_cache i ?h1" using m2 assms(7) k by (simp add: the_cache_def ms_def cn2)
  then have ok: "cache_ok (the_cache q h2)" using changes_cache_ok [OF c assms(9)] by simp
  have "updateCacheBlock (Suc 19) p a C_INVALID BACK_INVAL None h2 = Inl (AssertFail ''blockIndex != -1'')"
  proof (rule dirty_snoop_aborts [where q = q])
    have S: "Suc 19 = MAX_LEVELS" by (simp add: MAX_LEVELS_def)
    show "tree_ok (Suc 19) a p h2" "distinct (below (Suc 19) p h2)" "mnum q h2 \<notin> set (below (Suc 19) p h2)"
      unfolding S using fr assms(3,7) by (simp_all add: below_changes [OF c] cn2 k)
    show "state_of (line a (mnum p h2) h2) = C_MODIFIED" "\<not> cc_writethrough (cn p h2)" "next_of p h2 = Some q"
      "line a (mnum q h2) h2 = None" "cc_mem_component (cn q h2) = L3_CACHE"
      using assms(4-8,10) l2 k by (simp_all add: cn2 next_of_def)
  qed (rule ok)
  then have "back_invalidate i a (Some buf) th ?h1 = Inl (AssertFail ''blockIndex != -1'')"
    using pv assms(1) k by (simp add: back_invalidate_def h2_def Let_def snoop_def MAX_LEVELS_def)
  then show ?thesis by (simp add: e)
qed

section \<open>A hierarchy of two levels\<close>

text \<open>The controller 0 of an L3 cache \<open>c0\<close>, and the controller 2 of an L2 cache \<open>c1\<close> before it.\<close>

definition example_cache_cntlr :: "component_t \<Rightarrow> nat \<Rightarrow> nat option \<Rightarrow> CacheCntlr" where
  "example_cache_cntlr component master nxt =
     \<lparr>cc_mem_component = component, cc_master = master, cc_next_cache_cntlr = nxt,
      cc_home_lookup = \<lparr>ahl_param = 6, ahl_mask = 0, ahl_core_list = [0], ahl_total_modules = 1, ahl_cache_block_size = 64\<rparr>,
      cc_perfect = False, cc_passthrough = False, cc_coherent = True, cc_prefetch_on_prefetch_hit = False, cc_l1_mshr = False,
      cc_stats = no_stats, cc_core_id = 0, cc_cache_block_size = 64, cc_writethrough = False,
      cc_writeback_time = \<lparr>cl_period = 0, cl_cycles = 10\<rparr>, cc_next_level_read_bandwidth = \<lparr>bpc_period = 0, bpc_bits = 0\<rparr>,
      cc_shared_cores = 1, cc_core_id_master = 0, cc_last_remote_hit_where = HIT_UNKNOWN\<rparr>"

definition example_master :: "Cache \<Rightarrow> nat list \<Rightarrow> CacheMasterCntlr" where
  "example_master c prevs =
     \<lparr>mc_cache = c, mc_prev_cache_cntlrs = prevs, mc_prefetcher = None, mc_dram_cntlr = None, mc_dram_outstanding_writebacks = None,
      mc_mshr = [], mc_l1_mshr = ContentionModel_create 0, mc_next_level_read_bandwidth = ContentionModel_create 1,
      mc_directory_waiters = ReqQueueList_new, mc_evicting_address = 0, mc_evicting_buf = None, mc_atds = [], mc_prefetch_list = [],
      mc_prefetch_next = 0\<rparr>"

definition example_hier :: "Cache \<Rightarrow> Cache \<Rightarrow> hier" where
  "example_hier c0 c1 =
     \<lparr>hi_cntlrs = (\<lambda>i. if i = 0 then example_cache_cntlr L3_CACHE 0 None else example_cache_cntlr L2_CACHE 2 (Some 0)),
      hi_masters = (\<lambda>m. if m = 0 then example_master c0 [2] else example_master c1 []), hi_time = (\<lambda>_ _. 0),
      hi_perf_models = (\<lambda>_ _. \<lparr>cpm_kind = CACHE_PERF_MODEL_PARALLEL, cpm_enabled = True,
         cpm_data_access_time = \<lparr>cl_period = 0, cl_cycles = 4\<rparr>, cpm_tags_access_time = \<lparr>cl_period = 0, cl_cycles = 1\<rparr>,
         cpm_data_write_time = \<lparr>cl_period = 0, cl_cycles = 4\<rparr>\<rparr>),
      hi_periods = (\<lambda>_. 1000), hi_env = example_env4, hi_eip_global = 0, hi_eip_global_2 = 0, hi_l3_hit_flag = 0,
      hi_L3WritesDueToWriteBack = 0, hi_L3WritesFromDirectory = 0, hi_sent = [], hi_cache_only = False, hi_get_owner = None,
      hi_umap_order = (\<lambda>ks. ks), hi_stack = (\<lambda>_. replicate 64 0), hi_frames = 0\<rparr>"

lemmas example_hier_simps = example_hier_def example_cache_cntlr_def example_master_def cn_def ms_def next_of_def prevs_of_def the_cache_def

definition plain64 :: "Cache \<Rightarrow> bool" where
  "plain64 c \<longleftrightarrow> cache_ok c \<and> ca_fault_injector c = None \<and> cb_blocksize (ca_base c) = 64"

definition holds_in :: "cstate_t \<Rightarrow> Cache \<Rightarrow> bool" where
  "holds_in st c \<longleftrightarrow> plain64 c \<and> (\<exists>b. cache_contents c (addr_tag c 4096) = Some b \<and> cbi_cstate b = st)"

lemma holds_in_ex: "\<exists>c. holds_in st c"
  using example_held [of st] by (auto simp: holds_in_def plain64_def)

lemma empty_ex: "\<exists>c. plain64 c \<and> cache_contents c = Map.empty"
  using example_insert by (fastforce simp: plain64_def Cache_create_def example_base)

lemma example_lines:
  "line 4096 0 (example_hier c0 c1) = cache_contents c0 (addr_tag c0 4096)"
  "line 4096 2 (example_hier c0 c1) = cache_contents c1 (addr_tag c1 4096)"
  by (simp_all add: line_def example_hier_simps)

lemma example_nodes:
  assumes "plain64 c0" and "plain64 c1"
  shows "node_ok 4096 0 (example_hier c0 c1)" "node_ok 4096 2 (example_hier c0 c1)"
  using assms by (auto simp: node_ok_def example_hier_simps plain64_def)

lemma example_shape:
  "mnum 0 (example_hier c0 c1) = 0" "mnum 2 (example_hier c0 c1) = 2" "prevs_of 0 (example_hier c0 c1) = [2]"
  "prevs_of 2 (example_hier c0 c1) = []" "next_of 0 (example_hier c0 c1) = None" "next_of 2 (example_hier c0 c1) = Some 0"
  "\<not> cc_writethrough (cn i (example_hier c0 c1))" "cc_cache_block_size (cn i (example_hier c0 c1)) = 64"
  "cc_mem_component (cn 0 (example_hier c0 c1)) = L3_CACHE"
  by (simp_all add: example_hier_simps)

lemma example_trees:
  assumes "plain64 c0" and "plain64 c1" and "live (cache_contents c1 (addr_tag c1 4096))"
  shows "tree_ok (Suc k) 4096 2 (example_hier c0 c1)" and "below (Suc k) 2 (example_hier c0 c1) = [2]"
    and "live (cache_contents c0 (addr_tag c0 4096)) \<Longrightarrow>
      (cache_contents c1 (addr_tag c1 4096) \<noteq> None \<longrightarrow> cache_contents c0 (addr_tag c0 4096) \<noteq> None) \<Longrightarrow>
      (state_of (cache_contents c1 (addr_tag c1 4096)) = C_MODIFIED \<longrightarrow> state_of (cache_contents c0 (addr_tag c0 4096)) = C_MODIFIED) \<Longrightarrow>
      llc_ok 4096 0 (example_hier c0 c1)"
    and "masters_of 0 (example_hier c0 c1) = {0, 2}"
proof -
  let ?h = "example_hier c0 c1"
  note n = example_nodes [OF assms(1,2)]
  have 1: "tree_ok (Suc k) 4096 2 ?h" "below (Suc k) 2 ?h = [2]" for k
    using n assms(3) by (simp_all add: example_shape example_lines)
  then show "tree_ok (Suc k) 4096 2 ?h" "below (Suc k) 2 ?h = [2]" .
  have 2: "below (Suc (Suc k)) 0 ?h = [0, 2]" for k
    unfolding below.simps(2) [of "Suc k"] example_shape using 1(2) [of k] by simp
  have M: "MAX_LEVELS = Suc (Suc 18)" by (simp add: MAX_LEVELS_def)
  show "masters_of 0 ?h = {0, 2}" unfolding M 2 by simp
  assume st: "live (cache_contents c0 (addr_tag c0 4096))"
      "cache_contents c1 (addr_tag c1 4096) \<noteq> None \<longrightarrow> cache_contents c0 (addr_tag c0 4096) \<noteq> None"
      "state_of (cache_contents c1 (addr_tag c1 4096)) = C_MODIFIED \<longrightarrow> state_of (cache_contents c0 (addr_tag c0 4096)) = C_MODIFIED"
  have 3: "tree_ok (Suc (Suc k)) 4096 0 ?h" for k
    unfolding tree_ok.simps(2) [of "Suc k"] example_shape
    using 1(1) [of k] n st by (simp add: example_shape example_lines)
  show "llc_ok 4096 0 ?h" unfolding llc_ok_def M 2 example_shape by (intro conjI 3) simp_all
qed

lemma example_llc:
  assumes "holds_in st c0" and "holds_in st c1" and "st \<noteq> C_INVALID"
  shows "llc_ok 4096 0 (example_hier c0 c1)" and "masters_of 0 (example_hier c0 c1) = {0, 2}"
    and "state_of (line 4096 0 (example_hier c0 c1)) = st" and "line 4096 0 (example_hier c0 c1) \<noteq> None"
    and "line 4096 2 (example_hier c0 c1) \<noteq> None" and "hi_sent (example_hier c0 c1) = []"
proof -
  have p: "plain64 c0" "plain64 c1" using assms by (simp_all add: holds_in_def)
  obtain b0 b1 where b: "cache_contents c0 (addr_tag c0 4096) = Some b0" "cbi_cstate b0 = st" "cache_contents c1 (addr_tag c1 4096) = Some b1"
    "cbi_cstate b1 = st" using assms(1,2) by (auto simp: holds_in_def)
  have v: "live (cache_contents c1 (addr_tag c1 4096))" "live (cache_contents c0 (addr_tag c0 4096))" using b assms(3) by (simp_all add: live_def)
  show "llc_ok 4096 0 (example_hier c0 c1)" by (rule example_trees(3) [OF p v]) (simp_all add: b state_of_def)
  show "masters_of 0 (example_hier c0 c1) = {0, 2}" by (rule example_trees(4) [OF p v(1)])
  show "state_of (line 4096 0 (example_hier c0 c1)) = st" "line 4096 0 (example_hier c0 c1) \<noteq> None" "line 4096 2 (example_hier c0 c1) \<noteq> None"
    using b by (simp_all add: example_lines state_of_def)
  show "hi_sent (example_hier c0 c1) = []" by (simp add: example_hier_def)
qed

definition example_msg :: "msg_t \<Rightarrow> UInt8 list option \<Rightarrow> ShmemMsg" where
  "example_msg t buf = ShmemMsg_create t TAG_DIR LAST_LEVEL_CACHE 5 4096 buf (if buf = None then 0 else 64)"

lemma example_msg_address [simp]: "sm_address (example_msg t buf) = 4096" "sm_data_buf (example_msg t buf) = buf"
  by (simp_all add: example_msg_def ShmemMsg_create_def)

theorem inv_req_clears_hierarchy_witness:
  "\<exists>c0 c1 h'. holds_in C_SHARED c0 \<and> holds_in C_SHARED c1
     \<and> processInvReqFromDramDirectory 0 7 (example_msg INV_REQ None) (example_hier c0 c1) = Inr h'
     \<and> line 4096 0 h' = None \<and> line 4096 2 h' = None \<and> length (hi_sent h') = 1"
proof -
  obtain c0 c1 where c: "holds_in C_SHARED c0" "holds_in C_SHARED c1" using holds_in_ex by blast
  have "C_SHARED \<noteq> C_INVALID" by simp
  note e = example_llc [OF c this]
  from inv_req_clears_hierarchy [of "example_msg INV_REQ None" 0 "example_hier c0 c1" 7, unfolded example_msg_address example_shape e(2), OF e(1)] e(3-6)
  obtain h' where h': "processInvReqFromDramDirectory 0 7 (example_msg INV_REQ None) (example_hier c0 c1) = Inr h'"
    "line 4096 0 h' = None" "line 4096 2 h' = None" "length (hi_sent h') = 1" by auto
  with c show ?thesis by blast
qed

theorem upgrade_rep_with_data_aborts_witness:
  "\<exists>c0 c1. plain64 c0 \<and> plain64 c1
     \<and> processUpgradeRepFromDramDirectory 0 (example_msg UPGRADE_REP (Some (replicate 64 0))) (example_hier c0 c1)
         = Inl (LogError ''out_buf passed in but never written to'')"
proof -
  obtain c where c: "plain64 c" "cache_contents c = Map.empty" using empty_ex by blast
  then have "llc_ok 4096 0 (example_hier c c)" using example_trees(3) [of c c] by (simp add: live_def)
  with upgrade_rep_with_data_aborts [of "example_msg UPGRADE_REP (Some (replicate 64 0))" 0 "example_hier c c"] c show ?thesis
    by (auto simp: example_shape example_lines)
qed

theorem l3_dirty_eviction_aborts_witness:
  "\<exists>c0 c1. plain64 c0 \<and> holds_in C_MODIFIED c1
     \<and> evict_line 0 4096 (CacheBlockInfo_new SHARED_CACHE 64 C_MODIFIED 0) (Some (replicate 64 0)) USER_THREAD (example_hier c0 c1)
         = Inl (AssertFail ''blockIndex != -1'')"
proof -
  obtain c0 where c0: "plain64 c0" "cache_contents c0 = Map.empty" using empty_ex by blast
  obtain c1 where c1: "holds_in C_MODIFIED c1" using holds_in_ex by blast
  let ?h = "example_hier c0 c1"
  have "tree_ok MAX_LEVELS 4096 2 ?h \<and> below MAX_LEVELS 2 ?h = [2]"
    using example_trees(1,2) [of c0 c1 19] c0 c1 by (auto simp: MAX_LEVELS_def holds_in_def live_def)
  moreover have "cache_ok (the_cache 0 ?h)" using c0 by (simp add: plain64_def example_hier_simps)
  ultimately have "evict_line 0 4096 (CacheBlockInfo_new SHARED_CACHE 64 C_MODIFIED 0) (Some (replicate 64 0)) USER_THREAD ?h
      = Inl (AssertFail ''blockIndex != -1'')"
    using l3_dirty_eviction_aborts [of 0 ?h 2 "[]" 4096 0 "CacheBlockInfo_new SHARED_CACHE 64 C_MODIFIED 0" "replicate 64 0" USER_THREAD] c0 c1
    by (auto simp: example_shape example_lines holds_in_def state_of_def)
  with c0 c1 show ?thesis by blast
qed

end
