(* ===== verification/Cache_Data.thy ===== *)
theory Cache_Data
  imports Cache_Snoop
begin

text \<open>
  The data a snoop hands over. The caches of a hierarchy store data only when a fault injection manager is there; then a flush or
  a write-back request of the directory must be answered with the newest version of the line, which may be in a cache several
  levels before the last. \<open>newest\<close> says which version that is, without the code: it follows the modified copies from level to
  level. The lemmas follow \<^verbatim>\<open>updateCacheBlock\<close> and \<^verbatim>\<open>writeCacheBlock\<close> through the same levels.
\<close>

section \<open>The data of a line\<close>

definition ldata :: "IntPtr \<Rightarrow> nat \<Rightarrow> hier \<Rightarrow> UInt8 list option" where
  "ldata a m h = (let c = mc_cache (hi_masters h m) in cache_data c (addr_tag c a))"




text \<open>The data of the line is the same outside \<open>M\<close>.\<close>

definition dsame :: "IntPtr \<Rightarrow> nat set \<Rightarrow> hier \<Rightarrow> hier \<Rightarrow> bool" where
  "dsame a M h h' \<longleftrightarrow> (\<forall>m. m \<notin> M \<longrightarrow> ldata a m h' = ldata a m h)"

lemma dsame_refl [simp]: "dsame a M h h"
  by (simp add: dsame_def)









section \<open>Operations of one cache\<close>





section \<open>Writing back\<close>





section \<open>Changing the state\<close>






section \<open>Hierarchies\<close>








section \<open>The requests of the directory that return data\<close>





section \<open>A hierarchy that stores data\<close>







end
