(* ===== verification/Shmem_Wire.thy ===== *)
theory Shmem_Wire
  imports Shmem_Msg
begin

text \<open>
  \<^verbatim>\<open>ShmemMsg\<close> in memory and on the network: \<^verbatim>\<open>makeMsgBuf\<close>, \<^verbatim>\<open>getShmemMsg\<close> and \<^verbatim>\<open>getMsgLen\<close> of \<^verbatim>\<open>shmem_msg.cc\<close>
  on bytes. The object is copied byte by byte, with its padding and its two pointers, in the layout of the System V ABI for
  x86-64 (little-endian, enumerations of four bytes); the data follows it. A message of the other theories is a view of such an
  object, and the two functions are shown to be \<open>pack_msg\<close> and \<open>unpack_msg\<close> on this view.
\<close>

section \<open>Words as bytes\<close>

definition le_bytes :: "nat \<Rightarrow> 'a::len word \<Rightarrow> UInt8 list" where
  "le_bytes n w = map (\<lambda>i. ucast (drop_bit (8 * i) w)) [0..<n]"

fun le_word :: "UInt8 list \<Rightarrow> 'a::len word" where
  "le_word [] = 0"
| "le_word (b # bs) = ucast b OR push_bit 8 (le_word bs)"

lemma length_le_bytes [simp]: "length (le_bytes n w) = n"
  by (simp add: le_bytes_def)

lemma bit_le_word:
  "bit (le_word bs :: 'a::len word) k \<longleftrightarrow> k < LENGTH('a) \<and> k < 8 * length bs \<and> bit (bs ! (k div 8)) (k mod 8)"
proof (induction bs arbitrary: k)
  case (Cons b bs)
  show ?case
  proof (cases "k < 8")
    case True
    then show ?thesis by (auto simp: bit_or_iff bit_push_bit_iff bit_ucast_iff)
  next
    case False
    then have "k div 8 = Suc ((k - 8) div 8)" "k mod 8 = (k - 8) mod 8" by (simp_all add: le_div_geq le_mod_geq)
    moreover have "\<not> bit b k" using False bit_imp_le_length [of b k] by auto
    ultimately show ?thesis using False Cons.IH [of "k - 8"]
      by (auto simp: bit_or_iff bit_push_bit_iff bit_ucast_iff)
  qed
qed simp

lemma le_word_bytes [simp]:
  assumes "LENGTH('a::len) = 8 * n"
  shows "(le_word (le_bytes n (w :: 'a word)) :: 'a word) = w"
proof (rule bit_word_eqI)
  fix k assume k: "k < LENGTH('a)"
  then have "k div 8 < n" using assms by auto
  then have "bit (le_bytes n w ! (k div 8)) (k mod 8) = bit w (8 * (k div 8) + k mod 8)"
    by (simp add: le_bytes_def bit_ucast_iff bit_drop_bit_eq)
  then show "bit (le_word (le_bytes n w) :: 'a word) k = bit w k" using k assms by (simp add: bit_le_word)
qed

section \<open>Memory\<close>

type_synonym memory = "IntPtr \<Rightarrow> UInt8"

definition mem_read :: "memory \<Rightarrow> IntPtr \<Rightarrow> nat \<Rightarrow> UInt8 list" where
  "mem_read m p n = map (\<lambda>i. m (p + of_nat i)) [0..<n]"

definition mem_write :: "memory \<Rightarrow> IntPtr \<Rightarrow> UInt8 list \<Rightarrow> memory" where
  "mem_write m p bs = (\<lambda>a. if unat (a - p) < length bs then bs ! unat (a - p) else m a)"

lemma length_mem_read [simp]: "length (mem_read m p n) = n"
  by (simp add: mem_read_def)

lemma mem_read_write:
  assumes "length bs < 2 ^ 64"
  shows "mem_read (mem_write m p bs) p (length bs) = bs"
proof (rule nth_equalityI)
  fix i assume "i < length (mem_read (mem_write m p bs) p (length bs))"
  then have "i < length bs" by simp
  moreover from this have "unat (of_nat i :: IntPtr) = i" using assms by (simp add: unsigned_of_nat take_bit_nat_eq_self)
  ultimately show "mem_read (mem_write m p bs) p (length bs) ! i = bs ! i"
    by (simp add: mem_read_def mem_write_def)
qed simp

section \<open>The object\<close>

fun msg_num :: "msg_t \<Rightarrow> nat" where
  "msg_num INVALID_MSG_TYPE = 0"
| "msg_num EX_REQ = 1"
| "msg_num SH_REQ = 2"
| "msg_num UPGRADE_REQ = 3"
| "msg_num INV_REQ = 4"
| "msg_num FLUSH_REQ = 5"
| "msg_num WB_REQ = 6"
| "msg_num EX_REP = 7"
| "msg_num SH_REP = 8"
| "msg_num UPGRADE_REP = 9"
| "msg_num INV_REP = 10"
| "msg_num FLUSH_REP = 11"
| "msg_num WB_REP = 12"
| "msg_num NULLIFY_REQ = 13"
| "msg_num DRAM_READ_REQ = 14"
| "msg_num DRAM_WRITE_REQ = 15"
| "msg_num DRAM_READ_REP = 16"

text \<open>The members of \<^verbatim>\<open>ShmemMsg\<close> with the padding the compiler inserts before \<^verbatim>\<open>m_address\<close> and \<^verbatim>\<open>m_perf\<close>.\<close>

record msg_object =
  mo_msg_type :: UInt32
  mo_sender_mem_component :: UInt32
  mo_receiver_mem_component :: UInt32
  mo_requester :: UInt32
  mo_where :: UInt32
  mo_pad1 :: UInt32
  mo_address :: IntPtr
  mo_data_buf :: IntPtr
  mo_data_length :: UInt32
  mo_pad2 :: UInt32
  mo_perf :: IntPtr

definition sizeof_ShmemMsg :: nat where
  "sizeof_ShmemMsg = 56"

definition object_bytes :: "msg_object \<Rightarrow> UInt8 list" where
  "object_bytes o' = le_bytes 4 (mo_msg_type o') @ le_bytes 4 (mo_sender_mem_component o') @ le_bytes 4 (mo_receiver_mem_component o')
     @ le_bytes 4 (mo_requester o') @ le_bytes 4 (mo_where o') @ le_bytes 4 (mo_pad1 o') @ le_bytes 8 (mo_address o')
     @ le_bytes 8 (mo_data_buf o') @ le_bytes 4 (mo_data_length o') @ le_bytes 4 (mo_pad2 o') @ le_bytes 8 (mo_perf o')"

definition field :: "nat \<Rightarrow> nat \<Rightarrow> UInt8 list \<Rightarrow> 'a::len word" where
  "field off n bs = le_word (take n (drop off bs))"

definition object_of_bytes :: "UInt8 list \<Rightarrow> msg_object" where
  "object_of_bytes bs =
     \<lparr>mo_msg_type = field 0 4 bs, mo_sender_mem_component = field 4 4 bs, mo_receiver_mem_component = field 8 4 bs,
      mo_requester = field 12 4 bs, mo_where = field 16 4 bs, mo_pad1 = field 20 4 bs, mo_address = field 24 8 bs,
      mo_data_buf = field 32 8 bs, mo_data_length = field 40 4 bs, mo_pad2 = field 44 4 bs, mo_perf = field 48 8 bs\<rparr>"

lemma length_object_bytes [simp]: "length (object_bytes o') = sizeof_ShmemMsg"
  by (simp add: object_bytes_def sizeof_ShmemMsg_def)

lemma object_roundtrip: "object_of_bytes (object_bytes o' @ rest) = o'"
  by (simp add: object_of_bytes_def object_bytes_def field_def)

section \<open>The two conversions\<close>

definition getMsgLen :: "msg_object \<Rightarrow> UInt32" where
  "getMsgLen o' = of_nat sizeof_ShmemMsg + mo_data_length o'"

text \<open>
  \<open>fresh\<close> is the content of the array that \<^verbatim>\<open>new Byte[getMsgLen()]\<close> returns; copying past its end is undefined behaviour.
\<close>

definition makeMsgBuf :: "memory \<Rightarrow> UInt8 list \<Rightarrow> msg_object \<Rightarrow> UInt8 list result" where
  "makeMsgBuf m fresh o' =
     (let len = unat (mo_data_length o')
      in if length fresh < sizeof_ShmemMsg + len then Inl (Trap ''memcpy out of range'')
         else let msg_buf = memcpy_at 0 (object_bytes o') fresh
              in if mo_data_length o' > 0
                 then bindR (logAssertR (mo_data_buf o' \<noteq> 0) ''m_data_buf'') (\<lambda>_.
                      Inr (memcpy_at sizeof_ShmemMsg (mem_read m (mo_data_buf o') len) msg_buf))
                 else Inr msg_buf)"

text \<open>
  \<open>p\<close> is the address that \<^verbatim>\<open>new Byte[getDataLength()]\<close> returns. The \<^verbatim>\<open>perf\<close> that the constructor stored in the new object is
  overwritten by the copied pointer.
\<close>

definition getShmemMsg :: "memory \<Rightarrow> IntPtr \<Rightarrow> UInt8 list \<Rightarrow> (msg_object \<times> memory) result" where
  "getShmemMsg m p msg_buf =
     (if length msg_buf < sizeof_ShmemMsg then Inl (Trap ''memcpy out of range'')
      else let shmem_msg = object_of_bytes (take sizeof_ShmemMsg msg_buf); len = unat (mo_data_length shmem_msg)
           in if mo_data_length shmem_msg > 0
              then if length msg_buf < sizeof_ShmemMsg + len then Inl (Trap ''memcpy out of range'')
                   else Inr (shmem_msg\<lparr>mo_data_buf := p\<rparr>, mem_write m p (take len (drop sizeof_ShmemMsg msg_buf)))
              else Inr (shmem_msg, m))"

section \<open>The message an object represents\<close>

text \<open>The unnamed cache levels are those between \<^verbatim>\<open>L4_CACHE\<close> and \<^verbatim>\<open>LAST_LEVEL_CACHE\<close>.\<close>

definition named :: "component_t \<Rightarrow> bool" where
  "named c \<longleftrightarrow> (\<forall>n. c = UNNAMED_CACHE n \<longrightarrow> n < 13)"

definition represents :: "memory \<Rightarrow> msg_object \<Rightarrow> ShmemMsg \<Rightarrow> bool" where
  "represents m o' msg \<longleftrightarrow>
     mo_msg_type o' = of_nat (msg_num (sm_msg_type msg))
     \<and> mo_sender_mem_component o' = of_nat (component_num (sm_sender_mem_component msg)) \<and> named (sm_sender_mem_component msg)
     \<and> mo_receiver_mem_component o' = of_nat (component_num (sm_receiver_mem_component msg)) \<and> named (sm_receiver_mem_component msg)
     \<and> sint (mo_requester o') = sm_requester msg
     \<and> mo_where o' = of_nat (where_num (sm_where msg)) \<and> mo_address o' = sm_address msg \<and> mo_data_length o' = sm_data_length msg
     \<and> (case sm_data_buf msg of None \<Rightarrow> mo_data_buf o' = 0
        | Some d \<Rightarrow> mo_data_buf o' \<noteq> 0 \<and> d = mem_read m (mo_data_buf o') (unat (sm_data_length msg)))"

lemma small_of_nat_eq:
  assumes "x < 256" and "y < 256"
  shows "(of_nat x :: UInt32) = of_nat y \<longleftrightarrow> x = y"
proof
  assume "(of_nat x :: UInt32) = of_nat y"
  then have "unat (of_nat x :: UInt32) = unat (of_nat y :: UInt32)" by simp
  then show "x = y" using assms by (simp add: unsigned_of_nat take_bit_nat_eq_self)
qed simp

lemma msg_num_inj: "(of_nat (msg_num x) :: UInt32) = of_nat (msg_num y) \<longleftrightarrow> x = y"
proof -
  have "msg_num z < 256" for z by (cases z) simp_all
  moreover have "msg_num x = msg_num y \<longleftrightarrow> x = y" by (cases x; cases y) simp_all
  ultimately show ?thesis by (simp add: small_of_nat_eq)
qed

lemma where_num_inj: "(of_nat (where_num x) :: UInt32) = of_nat (where_num y) \<longleftrightarrow> x = y"
proof -
  have "where_num z < 256" for z by (cases z) simp_all
  moreover have "where_num x = where_num y \<longleftrightarrow> x = y" by (cases x; cases y) simp_all
  ultimately show ?thesis by (simp add: small_of_nat_eq)
qed

lemma component_num_inj:
  assumes "named x" and "named y"
  shows "(of_nat (component_num x) :: UInt32) = of_nat (component_num y) \<longleftrightarrow> x = y"
proof -
  have "component_num z < 256" if "named z" for z using that by (cases z) (auto simp: named_def)
  moreover have "component_num x = component_num y \<longleftrightarrow> x = y" using assms by (cases x; cases y) (auto simp: named_def)
  ultimately show ?thesis using assms by (simp add: small_of_nat_eq)
qed

lemma represents_unique:
  assumes "represents m o' x" and "represents m o' y"
  shows "x = y"
proof -
  have "sm_msg_type x = sm_msg_type y" "sm_where x = sm_where y"
    using assms msg_num_inj where_num_inj by (auto simp: represents_def)
  moreover have "sm_sender_mem_component x = sm_sender_mem_component y" "sm_receiver_mem_component x = sm_receiver_mem_component y"
    using assms component_num_inj by (auto simp: represents_def)
  moreover have "sm_requester x = sm_requester y" "sm_address x = sm_address y" "sm_data_length x = sm_data_length y"
    using assms by (auto simp: represents_def)
  moreover have "sm_data_buf x = sm_data_buf y" using assms by (auto simp: represents_def split: option.splits)
  ultimately show ?thesis by simp
qed

section \<open>What is sent is what is received\<close>

lemma unat_getMsgLen:
  assumes "sizeof_ShmemMsg + unat (mo_data_length o') < 2 ^ 32"
  shows "unat (getMsgLen o') = sizeof_ShmemMsg + unat (mo_data_length o')"
  using assms by (simp add: getMsgLen_def sizeof_ShmemMsg_def unat_word_ariths)

lemma makeMsgBuf_layout:
  assumes "length fresh = sizeof_ShmemMsg + unat (mo_data_length o')" and "mo_data_length o' > 0 \<Longrightarrow> mo_data_buf o' \<noteq> 0"
  shows "makeMsgBuf m fresh o' = Inr (object_bytes o' @ mem_read m (mo_data_buf o') (unat (mo_data_length o')))"
  using assms by (auto simp: makeMsgBuf_def Let_def memcpy_at_def logAssertR_def word_gt_0 mem_read_def)

lemma getShmemMsg_layout:
  assumes "length d = unat (mo_data_length o')"
  shows "getShmemMsg m p (object_bytes o' @ d)
    = Inr (if mo_data_length o' > 0 then (o'\<lparr>mo_data_buf := p\<rparr>, mem_write m p d) else (o', m))"
  using assms object_roundtrip [of o' "[]"] by (simp add: getShmemMsg_def Let_def)

text \<open>
  C37: A message survives the network byte by byte. Let an object in the sender's memory represent a message whose buffer pointer is
  NULL exactly when its length is 0 (what \<^verbatim>\<open>sendMsg\<close> asserts), of fewer than \<open>2\<^sup>3\<^sup>2 - 56\<close> bytes of data. Then \<^verbatim>\<open>makeMsgBuf\<close>
  fills exactly the \<^verbatim>\<open>getMsgLen()\<close> bytes it allocated, and from these \<^verbatim>\<open>getShmemMsg\<close> builds, in any memory and at any address of
  the new data buffer, an object that represents the same message, with every field and every byte of data, and no other message; it
  changes no memory but the new buffer. This is also what the structured view of the other theories computes. The pointer
  \<^verbatim>\<open>m_perf\<close> of the new object is the sender's, not the one given to \<^verbatim>\<open>getShmemMsg\<close>.
\<close>

theorem message_bytes_roundtrip:
  assumes "represents m o' msg" and "(sm_data_buf msg = None) = (sm_data_length msg = 0)"
    and "sizeof_ShmemMsg + unat (sm_data_length msg) < 2 ^ 32" and "length fresh = unat (getMsgLen o')" and "p \<noteq> 0"
  shows "\<exists>buf o'' m'' pk. makeMsgBuf m fresh o' = Inr buf \<and> length buf = sizeof_ShmemMsg + unat (sm_data_length msg)
    \<and> getShmemMsg m' p buf = Inr (o'', m'')
    \<and> (\<forall>msg'. represents m'' o'' msg' \<longleftrightarrow> msg' = msg)
    \<and> mo_perf o'' = mo_perf o'
    \<and> (\<forall>a. m'' a \<noteq> m' a \<longrightarrow> unat (a - p) < unat (sm_data_length msg))
    \<and> pack_msg msg = Inr pk \<and> unpack_msg pk = msg"
proof -
  let ?n = "unat (sm_data_length msg)"
  have len: "mo_data_length o' = sm_data_length msg" using assms(1) by (simp add: represents_def)
  have fresh: "length fresh = sizeof_ShmemMsg + unat (mo_data_length o')" using assms(3,4) unat_getMsgLen [of o'] by (simp add: len)
  have ptr: "mo_data_length o' > 0 \<Longrightarrow> mo_data_buf o' \<noteq> 0"
    using assms(1,2) by (auto simp: represents_def len word_gt_0 split: option.splits)
  let ?d = "mem_read m (mo_data_buf o') ?n"
  have buf: "makeMsgBuf m fresh o' = Inr (object_bytes o' @ ?d)" using makeMsgBuf_layout [OF fresh ptr] by (simp add: len)
  let ?r = "if sm_data_length msg > 0 then (o'\<lparr>mo_data_buf := p\<rparr>, mem_write m' p ?d) else (o', m')"
  have get: "getShmemMsg m' p (object_bytes o' @ ?d) = Inr ?r" using getShmemMsg_layout [of ?d o' m' p] by (simp add: len)
  have small: "length ?d < 2 ^ 64" using assms(3) by simp
  have rep: "represents (snd ?r) (fst ?r) msg"
  proof (cases "sm_data_length msg = 0")
    case True
    then show ?thesis using assms(1,2) by (simp add: represents_def)
  next
    case False
    then obtain d where d: "sm_data_buf msg = Some d" using assms(2) by auto
    then have "d = ?d" using assms(1) by (simp add: represents_def)
    then show ?thesis using assms(1,5) False d mem_read_write [OF small, of m' p]
      by (simp add: represents_def word_gt_0)
  qed
  have pk: "pack_msg msg = Inr (msg, case sm_data_buf msg of None \<Rightarrow> [] | Some d \<Rightarrow> take ?n d)"
    "unpack_msg (msg, case sm_data_buf msg of None \<Rightarrow> [] | Some d \<Rightarrow> take ?n d) = msg"
    using assms(1,2) by (auto simp: pack_msg_def unpack_msg_def setDataBuf_def word_gt_0 represents_def split: option.splits)
  show ?thesis
  proof (intro exI conjI)
    show "makeMsgBuf m fresh o' = Inr (object_bytes o' @ ?d)" by (rule buf)
    show "getShmemMsg m' p (object_bytes o' @ ?d) = Inr (fst ?r, snd ?r)" using get by simp
    show "\<forall>msg'. represents (snd ?r) (fst ?r) msg' \<longleftrightarrow> msg' = msg" using rep represents_unique by blast
    show "\<forall>a. snd ?r a \<noteq> m' a \<longrightarrow> unat (a - p) < ?n" by (simp add: mem_write_def)
  qed (use pk in simp_all)
qed

text \<open>A write-back reply with two bytes of data at address 512.\<close>

theorem message_bytes_roundtrip_witness:
  "\<exists>buf o'' m''. makeMsgBuf (\<lambda>a. if a = 512 then 7 else 9) (replicate 58 0)
       \<lparr>mo_msg_type = 12, mo_sender_mem_component = 20, mo_receiver_mem_component = 21, mo_requester = 3, mo_where = 21, mo_pad1 = 5,
        mo_address = 4096, mo_data_buf = 512, mo_data_length = 2, mo_pad2 = 6, mo_perf = 77\<rparr> = Inr buf
     \<and> length buf = 58 \<and> getShmemMsg (\<lambda>_. 0) 1024 buf = Inr (o'', m'')
     \<and> represents m'' o'' (setWhere HIT_UNKNOWN (ShmemMsg_create WB_REP LAST_LEVEL_CACHE TAG_DIR 3 4096 (Some [7, 9]) 2))"
proof -
  let ?o = "\<lparr>mo_msg_type = 12, mo_sender_mem_component = 20, mo_receiver_mem_component = 21, mo_requester = 3, mo_where = 21, mo_pad1 = 5,
        mo_address = 4096, mo_data_buf = 512, mo_data_length = 2, mo_pad2 = 6, mo_perf = 77\<rparr> :: msg_object"
  let ?msg = "setWhere HIT_UNKNOWN (ShmemMsg_create WB_REP LAST_LEVEL_CACHE TAG_DIR 3 4096 (Some [7, 9]) 2)"
  have "represents (\<lambda>a. if a = 512 then 7 else 9) ?o ?msg"
    by (simp add: represents_def setWhere_def named_def mem_read_def upt_conv_Cons)
  from message_bytes_roundtrip [OF this, of "replicate 58 0" 1024 "\<lambda>_. 0"] show ?thesis
    by (auto simp: setWhere_def getMsgLen_def sizeof_ShmemMsg_def)
qed

end
