(* ===== verification/Network_Mesh.thy ===== *)
theory Network_Mesh
  imports Shmem_Msg Queue_Model "HOL-Library.Signed_Division"
begin

text \<open>
  The packets of \<^verbatim>\<open>network/network.h\<close> and the mesh and torus model \<^verbatim>\<open>network/network_model_emesh_hop_by_hop.cc\<close>: positions of
  cores, dimension-order routing, the latency of a hop with its queues, and the placement of memory controllers. An \<^verbatim>\<open>SInt32\<close> is an
  integer; coordinates and core numbers are far from its bounds. Division and remainder are the truncating ones of C. Locks are left out: each
  call runs under the lock of its model.
\<close>

section \<open>Packets and hops\<close>

datatype PacketType = INVALID_PACKET_TYPE | SHARED_MEM_1 | SIM_THREAD_TERMINATE_THREADS | CORE_THREAD_TERMINATE_THREADS

datatype EStaticNetwork = STATIC_NETWORK_MEMORY_1 | STATIC_NETWORK_SYSTEM

definition g_type_to_static_network_map :: "PacketType \<Rightarrow> EStaticNetwork" where
  "g_type_to_static_network_map t = (if t = SHARED_MEM_1 then STATIC_NETWORK_MEMORY_1 else STATIC_NETWORK_SYSTEM)"

text \<open>
  The fields of \<^verbatim>\<open>NetPacket\<close> that the memory manager leaves at their initial values. The data of a packet that is not a shared-memory
  message is never read by the network.
\<close>

record WirePacket = NetPacket +
  np_start_time :: SubsecondTime
  np_queue_delay :: SubsecondTime
  np_type :: PacketType
  np_length :: UInt32

record Hop =
  hop_final_dest :: net_receiver
  hop_next_dest :: core_id_t
  hop_time :: SubsecondTime

text \<open>What the models read from outside: the numbers of cores, the clock periods and what the queue models need.\<close>

record net_env =
  ne_total_cores :: int
  ne_application_cores :: int
  ne_core_id_length :: UInt32
  ne_periods :: "nat \<Rightarrow> SubsecondTime"
  ne_queue_env :: queue_env

definition sizeof_NetPacket :: UInt32 where
  "sizeof_NetPacket = 48"

definition bufferSize :: "'a WirePacket_scheme \<Rightarrow> UInt32" where
  "bufferSize pkt = sizeof_NetPacket + np_length pkt"

definition net_getModeledLength :: "net_env \<Rightarrow> 'a WirePacket_scheme \<Rightarrow> UInt32 result" where
  "net_getModeledLength env pkt =
     (if np_type pkt = SHARED_MEM_1
      then bindR (getModeledLength (fst (np_data pkt))) (\<lambda>data_size. Inr ((1 + 2 * ne_core_id_length env + 2) + data_size))
      else Inr (bufferSize pkt))"

text \<open>The requester of a packet, with the assertion that follows each of its computations.\<close>

definition pkt_requester :: "net_env \<Rightarrow> 'a WirePacket_scheme \<Rightarrow> core_id_t result" where
  "pkt_requester env pkt =
     (let requester = if np_type pkt = SHARED_MEM_1 then sm_requester (fst (np_data pkt)) else np_sender pkt
      in bindR (logAssertR (0 \<le> requester \<and> requester < ne_total_cores env) ''requester'') (\<lambda>_. Inr requester))"

section \<open>The dimensions of the mesh\<close>

text \<open>The entries \<^verbatim>\<open>network/emesh_hop_by_hop/*\<close> of the configuration, and the number of hardware threads of a core.\<close>

record mesh_config =
  mk_logical_cpus :: int
  mk_concentration :: int
  mk_dimensions :: int
  mk_size :: string
  mk_wrap_around :: bool
  mk_link_bandwidth :: UInt64
  mk_hop_latency :: UInt64
  mk_queue_model_enabled :: bool
  mk_queue_model_type :: string
  mk_broadcast_tree_enabled :: bool
  mk_queue_config :: queue_config

text \<open>\<^verbatim>\<open>floor(sqrt(n))\<close>, which is exact for 32-bit arguments.\<close>

definition floor_sqrt :: "nat \<Rightarrow> nat" where
  "floor_sqrt n = the (last_index (\<lambda>k. k * k \<le> n) (Suc n))"

text \<open>\<^verbatim>\<open>sscanf\<close> with the format \<^verbatim>\<open>%d:%d\<close>; the answer is \<open>None\<close> when fewer than two numbers are read.\<close>

definition is_digit :: "char \<Rightarrow> bool" where
  "is_digit c = (48 \<le> (of_char c :: nat) \<and> (of_char c :: nat) \<le> 57)"

definition is_space :: "char \<Rightarrow> bool" where
  "is_space c = ((of_char c :: nat) = 32 \<or> 9 \<le> (of_char c :: nat) \<and> (of_char c :: nat) \<le> 13)"

definition digits_value :: "string \<Rightarrow> int" where
  "digits_value ds = foldl (\<lambda>v c. 10 * v + (of_char c - 48)) 0 ds"

definition scan_int :: "string \<Rightarrow> (int \<times> string) option" where
  "scan_int s =
     (let s = dropWhile is_space s;
          (sg, s) = (case s of [] \<Rightarrow> (1, []) | c # r \<Rightarrow> if c = CHR ''-'' then (-1, r) else if c = CHR ''+'' then (1, r) else (1, c # r));
          ds = takeWhile is_digit s
      in if ds = [] then None else Some (sg * digits_value ds, drop (length ds) s))"

definition scan_size :: "string \<Rightarrow> (int \<times> int) option" where
  "scan_size s =
     (case scan_int s of
        Some (w, c # r) \<Rightarrow> if c = CHR '':'' then (case scan_int r of Some (h, _) \<Rightarrow> Some (w, h) | None \<Rightarrow> None) else None
      | _ \<Rightarrow> None)"

text \<open>
  \<^verbatim>\<open>ceil(1.0 * core_count / concentration / mesh_width)\<close> is the rounded-up quotient; a quotient that is not whole only
  occurs when the following assertion fails, as does a width of zero.
\<close>

definition computeMeshDimensions :: "int \<Rightarrow> mesh_config \<Rightarrow> (int \<times> int) result" where
  "computeMeshDimensions core_count cfg =
     (let concentration = mk_concentration cfg * mk_logical_cpus cfg
      in if mk_size cfg = ''''
         then if concentration = 0 then Inl (Trap ''division by zero'')
              else bindR (if mk_dimensions cfg = 1 then Inr (core_count sdiv concentration, 1)
                          else if mk_dimensions cfg = 2
                          then let mesh_width = int (floor_sqrt (nat (core_count sdiv concentration)))
                               in Inr (mesh_width, if mesh_width = 0 then 0
                                                   else (core_count + (concentration * mesh_width - 1)) div (concentration * mesh_width))
                          else Inl (LogError ''Invalid value for dimensions'')) (\<lambda>(mesh_width, mesh_height).
                   bindR (logAssertR (core_count = concentration * mesh_height * mesh_width) ''Cannot build a mesh'') (\<lambda>_.
                   Inr (mesh_width, mesh_height)))
         else case scan_size (mk_size cfg) of
                None \<Rightarrow> Inl (LogError ''Invalid mesh size, expected width:height'')
              | Some (mesh_width, mesh_height) \<Rightarrow>
                  bindR (logAssertR (core_count = concentration * mesh_height * mesh_width) ''Invalid mesh size'') (\<lambda>_.
                  Inr (mesh_width, mesh_height)))"

definition mesh_computeCoreCountConstraints :: "int \<Rightarrow> mesh_config \<Rightarrow> int \<Rightarrow> (bool \<times> int) result" where
  "mesh_computeCoreCountConstraints application_cores cfg core_count =
     bindR (computeMeshDimensions application_cores cfg) (\<lambda>(mesh_width, mesh_height).
     bindR (assertR (core_count \<le> mesh_width * mesh_height) ''core_count <= mesh_width * mesh_height'') (\<lambda>_.
     bindR (assertR (core_count > (mesh_width - 1) * mesh_height) ''core_count > (mesh_width - 1) * mesh_height'') (\<lambda>_.
     bindR (assertR (core_count > mesh_width * (mesh_height - 1)) ''core_count > mesh_width * (mesh_height - 1)'') (\<lambda>_.
     Inr (True, mesh_height * mesh_width)))))"

section \<open>Memory controllers\<close>

definition perimeter :: "int \<Rightarrow> int \<Rightarrow> int \<Rightarrow> core_id_t list" where
  "perimeter dimensions mesh_width mesh_height =
     [0..mesh_width - 1] @
     (if dimensions > 1 \<and> mesh_height > 1
      then map (\<lambda>i. i * mesh_width + mesh_width - 1) [1..mesh_height - 2] @
           map (\<lambda>i. (mesh_height - 1) * mesh_width + i) (rev [0..mesh_width - 1]) @
           map (\<lambda>i. i * mesh_width) (rev [1..mesh_height - 2])
      else [])"

definition mesh_computeMemoryControllerPositions :: "int \<Rightarrow> mesh_config \<Rightarrow> int \<Rightarrow> (bool \<times> core_id_t list) result" where
  "mesh_computeMemoryControllerPositions application_cores cfg num_memory_controllers =
     (let concentration = mk_concentration cfg * mk_logical_cpus cfg; dimensions = mk_dimensions cfg
      in bindR (computeMeshDimensions application_cores cfg) (\<lambda>(mesh_width, mesh_height).
         let along = perimeter dimensions mesh_width mesh_height
         in bindR (assertR (\<not> (dimensions > 1 \<and> mesh_height > 1) \<or> int (length along) = 2 * (mesh_width + mesh_height - 2))
                     ''core_id_list_along_perimeter.size()'') (\<lambda>_.
            bindR (logAssertR (int (length along) \<ge> num_memory_controllers) ''num cores along perimeter'') (\<lambda>_.
            if num_memory_controllers = 0 then Inl (Trap ''division by zero'')
            else let spacing = int (length along) sdiv num_memory_controllers
                 in Inr (True, map (\<lambda>i. concentration * along ! nat ((i * spacing + mesh_width sdiv 2) smod int (length along)))
                                 [0..num_memory_controllers - 1])))))"

section \<open>A node\<close>

datatype OutputDirection = UP | DOWN | LEFT | RIGHT | NUM_OUTPUT_DIRECTIONS | SELF | PEER | DESTINATION

primrec direction_num :: "OutputDirection \<Rightarrow> nat" where
  "direction_num UP = 0"
| "direction_num DOWN = 1"
| "direction_num LEFT = 2"
| "direction_num RIGHT = 3"
| "direction_num NUM_OUTPUT_DIRECTIONS = 4"
| "direction_num SELF = 5"
| "direction_num PEER = 6"
| "direction_num DESTINATION = 7"

text \<open>A node that is not the master of its concentrated node has no queues.\<close>

record NetworkModelEMeshHopByHop =
  em_mesh_width :: int
  em_mesh_height :: int
  em_queue_models :: "QueueModel list"
  em_injection_port_queue_model :: "QueueModel option"
  em_ejection_port_queue_model :: "QueueModel option"
  em_enabled :: bool
  em_total_bytes_sent :: UInt64
  em_total_packets_sent :: UInt64
  em_total_bytes_received :: UInt64
  em_total_packets_received :: UInt64
  em_total_contention_delay :: SubsecondTime
  em_total_packet_latency :: SubsecondTime
  em_fake_node :: bool
  em_core_id :: core_id_t
  em_concentration :: int
  em_dimensions :: int
  em_wrap_around :: bool
  em_link_bandwidth :: ComponentBandwidthPerCycle
  em_hop_latency :: ComponentLatency
  em_broadcast_tree_enabled :: bool
  em_queue_model_enabled :: bool
  em_queue_model_type :: string

definition createQueueModels :: "net_env \<Rightarrow> queue_config \<Rightarrow> NetworkModelEMeshHopByHop \<Rightarrow> NetworkModelEMeshHopByHop result" where
  "createQueueModels env qcfg m =
     bindR (QueueModel_create qcfg (em_queue_model_type m) (ne_periods env (bpc_period (em_link_bandwidth m)))) (\<lambda>q.
     Inr (m\<lparr>em_queue_models := [q, q, q, q], em_injection_port_queue_model := Some q, em_ejection_port_queue_model := Some q\<rparr>))"

text \<open>The clock domain of the core is \<open>domain\<close>.\<close>

definition EMeshHopByHop_create :: "net_env \<Rightarrow> mesh_config \<Rightarrow> core_id_t \<Rightarrow> nat \<Rightarrow> NetworkModelEMeshHopByHop result" where
  "EMeshHopByHop_create env cfg core_id domain =
     bindR (computeMeshDimensions (ne_application_cores env) cfg) (\<lambda>(mesh_width, mesh_height).
     let concentration = mk_concentration cfg * mk_logical_cpus cfg;
         m = \<lparr>em_mesh_width = mesh_width, em_mesh_height = mesh_height, em_queue_models = [],
              em_injection_port_queue_model = None, em_ejection_port_queue_model = None, em_enabled = False,
              em_total_bytes_sent = 0, em_total_packets_sent = 0, em_total_bytes_received = 0, em_total_packets_received = 0,
              em_total_contention_delay = 0, em_total_packet_latency = 0, em_fake_node = False, em_core_id = core_id,
              em_concentration = concentration, em_dimensions = mk_dimensions cfg, em_wrap_around = mk_wrap_around cfg,
              em_link_bandwidth = \<lparr>bpc_period = domain, bpc_bits = mk_link_bandwidth cfg\<rparr>,
              em_hop_latency = \<lparr>cl_period = domain, cl_cycles = mk_hop_latency cfg\<rparr>,
              em_broadcast_tree_enabled = mk_broadcast_tree_enabled cfg, em_queue_model_enabled = mk_queue_model_enabled cfg,
              em_queue_model_type = mk_queue_model_type cfg\<rparr>
     in if concentration = 0 then Inl (Trap ''division by zero'')
        else if core_id smod concentration \<noteq> 0 \<or> core_id \<ge> concentration * mesh_width * mesh_height
        then Inr (m\<lparr>em_fake_node := True\<rparr>)
        else createQueueModels env (mk_queue_config cfg) m)"

section \<open>Positions and routes\<close>

definition computePosition :: "NetworkModelEMeshHopByHop \<Rightarrow> core_id_t \<Rightarrow> int \<times> int" where
  "computePosition m core_id =
     ((core_id sdiv em_concentration m) smod em_mesh_width m, (core_id sdiv em_concentration m) sdiv em_mesh_width m)"

definition computeCoreId :: "NetworkModelEMeshHopByHop \<Rightarrow> int \<Rightarrow> int \<Rightarrow> core_id_t" where
  "computeCoreId m x y =
     (let x = (x + em_mesh_width m) smod em_mesh_width m; y = (y + em_mesh_height m) smod em_mesh_height m
      in (y * em_mesh_width m + x) * em_concentration m)"

definition computeDistance :: "NetworkModelEMeshHopByHop \<Rightarrow> core_id_t \<Rightarrow> core_id_t \<Rightarrow> int" where
  "computeDistance m sender receiver =
     (let (sx, sy) = computePosition m sender; (dx, dy) = computePosition m receiver
      in if em_wrap_around m
         then min \<bar>sx - dx\<bar> (em_mesh_width m - \<bar>sx - dx\<bar>) + min \<bar>sy - dy\<bar> (em_mesh_height m - \<bar>sy - dy\<bar>)
         else \<bar>sx - dx\<bar> + \<bar>sy - dy\<bar>)"

definition getNextDest :: "net_env \<Rightarrow> NetworkModelEMeshHopByHop \<Rightarrow> core_id_t \<Rightarrow> OutputDirection \<times> core_id_t" where
  "getNextDest env m final_dest =
     (if final_dest \<ge> ne_application_cores env then (DESTINATION, final_dest)
      else if em_core_id m sdiv em_concentration m = final_dest sdiv em_concentration m then (DESTINATION, final_dest)
      else if em_fake_node m then (PEER, em_core_id m - em_core_id m smod em_concentration m)
      else let (sx, sy) = computePosition m (em_core_id m); (dx, dy) = computePosition m final_dest
           in if (sx > dx) \<noteq> (em_wrap_around m \<and> \<bar>sx - dx\<bar> > (em_mesh_width m + 1) sdiv 2) then (LEFT, computeCoreId m (sx - 1) sy)
              else if sx \<noteq> dx then (RIGHT, computeCoreId m (sx + 1) sy)
              else if (sy > dy) \<noteq> (em_wrap_around m \<and> \<bar>sy - dy\<bar> > (em_mesh_height m + 1) sdiv 2) then (DOWN, computeCoreId m sx (sy - 1))
              else if sy \<noteq> dy then (UP, computeCoreId m sx (sy + 1))
              else (SELF, em_core_id m))"

section \<open>Latencies\<close>

definition computeProcessingTime :: "net_env \<Rightarrow> NetworkModelEMeshHopByHop \<Rightarrow> UInt32 \<Rightarrow> SubsecondTime result" where
  "computeProcessingTime env m pkt_length =
     bindR (logAssertR (\<not> em_fake_node m) ''Cannot computeProcessingTime on a fake network node'') (\<lambda>_.
     let num_bits = pkt_length * 8
     in BandwidthPerCycle_getRoundedLatency (ne_periods env) (em_link_bandwidth m) (ucast num_bits))"

text \<open>The queue delay is also the amount added to the statistics of the packet, where there are any.\<close>

definition computeLatency ::
  "net_env \<Rightarrow> OutputDirection \<Rightarrow> SubsecondTime \<Rightarrow> UInt32 \<Rightarrow> core_id_t \<Rightarrow> NetworkModelEMeshHopByHop \<Rightarrow>
     (SubsecondTime \<times> SubsecondTime \<times> NetworkModelEMeshHopByHop) result" where
  "computeLatency env direction pkt_time pkt_length requester m =
     bindR (logAssertR (\<not> em_fake_node m) ''Cannot computeLatency on a fake network node'') (\<lambda>_.
     bindR (logAssertR (direction_num direction < 4) ''Invalid Direction'') (\<lambda>_.
     if \<not> em_enabled m \<or> requester \<ge> ne_application_cores env then Inr (0, 0, m)
     else bindR (computeProcessingTime env m pkt_length) (\<lambda>processing_time.
          bindR (if em_queue_model_enabled m
                 then bindR (computeQueueDelay (ne_queue_env env) (em_queue_models m ! direction_num direction) pkt_time processing_time) (\<lambda>(d, q).
                      Inr (d, m\<lparr>em_queue_models := (em_queue_models m)[direction_num direction := q]\<rparr>))
                 else Inr (0, m)) (\<lambda>(queue_delay, m).
          Inr (ComponentLatency_getLatency (ne_periods env) (em_hop_latency m) + queue_delay, queue_delay, m)))))"

definition computeInjectionPortQueueDelay ::
  "net_env \<Rightarrow> net_receiver \<Rightarrow> SubsecondTime \<Rightarrow> UInt32 \<Rightarrow> NetworkModelEMeshHopByHop \<Rightarrow> (SubsecondTime \<times> NetworkModelEMeshHopByHop) result" where
  "computeInjectionPortQueueDelay env pkt_receiver pkt_time pkt_length m =
     bindR (logAssertR (\<not> em_fake_node m) ''Cannot computeInjectionPortQueueDelay on a fake network node'') (\<lambda>_.
     if \<not> em_queue_model_enabled m then Inr (0, m)
     else if pkt_receiver = ToCore (em_core_id m) then Inr (0, m)
     else bindR (computeProcessingTime env m pkt_length) (\<lambda>processing_time.
          bindR (computeQueueDelay (ne_queue_env env) (the (em_injection_port_queue_model m)) pkt_time processing_time) (\<lambda>(d, q).
          Inr (d, m\<lparr>em_injection_port_queue_model := Some q\<rparr>))))"

definition computeEjectionPortQueueDelay ::
  "net_env \<Rightarrow> SubsecondTime \<Rightarrow> UInt32 \<Rightarrow> NetworkModelEMeshHopByHop \<Rightarrow> (SubsecondTime \<times> NetworkModelEMeshHopByHop) result" where
  "computeEjectionPortQueueDelay env pkt_time pkt_length m =
     bindR (logAssertR (\<not> em_fake_node m) ''Cannot computeEjectionPortQueueDelay on a fake network node'') (\<lambda>_.
     if \<not> em_queue_model_enabled m then Inr (0, m)
     else bindR (computeProcessingTime env m pkt_length) (\<lambda>processing_time.
          bindR (computeQueueDelay (ne_queue_env env) (the (em_ejection_port_queue_model m)) pkt_time processing_time) (\<lambda>(d, q).
          Inr (d, m\<lparr>em_ejection_port_queue_model := Some q\<rparr>))))"

text \<open>The result is the hop and what is added to the statistics of the packet.\<close>

definition addHop ::
  "net_env \<Rightarrow> OutputDirection \<Rightarrow> net_receiver \<Rightarrow> core_id_t \<Rightarrow> SubsecondTime \<Rightarrow> UInt32 \<Rightarrow> core_id_t \<Rightarrow> NetworkModelEMeshHopByHop \<Rightarrow>
     (Hop \<times> SubsecondTime \<times> NetworkModelEMeshHopByHop) result" where
  "addHop env direction final_dest next_dest pkt_time pkt_length requester m =
     bindR (if direction_num direction > 4 then Inr (0, 0, m)
            else computeLatency env direction pkt_time pkt_length requester m) (\<lambda>(latency, queue_delay, m).
     Inr (\<lparr>hop_final_dest = final_dest, hop_next_dest = next_dest, hop_time = pkt_time + latency\<rparr>, queue_delay, m))"

section \<open>Sending\<close>

text \<open>Several hops, one after the other on the same node; their delays are not counted for the packet.\<close>

fun addHops ::
  "net_env \<Rightarrow> (OutputDirection \<times> net_receiver \<times> core_id_t) list \<Rightarrow> SubsecondTime \<Rightarrow> UInt32 \<Rightarrow> core_id_t \<Rightarrow> NetworkModelEMeshHopByHop \<Rightarrow>
     (Hop list \<times> NetworkModelEMeshHopByHop) result" where
  "addHops env [] pkt_time pkt_length requester m = Inr ([], m)"
| "addHops env ((direction, final_dest, next_dest) # ds) pkt_time pkt_length requester m =
     bindR (addHop env direction final_dest next_dest pkt_time pkt_length requester m) (\<lambda>(h, _, m).
     bindR (addHops env ds pkt_time pkt_length requester m) (\<lambda>(hs, m). Inr (h # hs, m)))"

text \<open>The branches of the broadcast tree at this node.\<close>

definition broadcast_tree :: "NetworkModelEMeshHopByHop \<Rightarrow> core_id_t \<Rightarrow> (OutputDirection \<times> net_receiver \<times> core_id_t) list" where
  "broadcast_tree m sender =
     (let (sx, sy) = computePosition m sender; (cx, cy) = computePosition m (em_core_id m)
      in (if cy \<ge> sy then [(UP, BROADCAST, computeCoreId m cx (cy + 1))] else []) @
         (if cy \<le> sy then [(DOWN, BROADCAST, computeCoreId m cx (cy - 1))] else []) @
         (if cy = sy
          then (if cx \<ge> sx then [(RIGHT, BROADCAST, computeCoreId m (cx + 1) cy)] else []) @
               (if cx \<le> sx then [(LEFT, BROADCAST, computeCoreId m (cx - 1) cy)] else []) @
               (if cx = sx then [(SELF, ToCore (em_core_id m), em_core_id m)] else [])
          else []))"

text \<open>A broadcast as a collection of unicast messages, each through the injection port.\<close>

fun broadcast_unicast ::
  "net_env \<Rightarrow> core_id_t list \<Rightarrow> SubsecondTime \<Rightarrow> UInt32 \<Rightarrow> core_id_t \<Rightarrow> NetworkModelEMeshHopByHop \<Rightarrow> (Hop list \<times> NetworkModelEMeshHopByHop) result" where
  "broadcast_unicast env [] pkt_time pkt_length requester m = Inr ([], m)"
| "broadcast_unicast env (i # cs) pkt_time pkt_length requester m =
     bindR (computeInjectionPortQueueDelay env (ToCore i) pkt_time pkt_length m) (\<lambda>(d, m).
     case getNextDest env m i of (direction, next_dest) \<Rightarrow>
     bindR (addHop env direction (ToCore i) next_dest (pkt_time + d) pkt_length requester m) (\<lambda>(h, _, m).
     bindR (broadcast_unicast env cs pkt_time pkt_length requester m) (\<lambda>(hs, m). Inr (h # hs, m))))"

definition mesh_broadcast ::
  "net_env \<Rightarrow> 'a WirePacket_scheme \<Rightarrow> UInt32 \<Rightarrow> core_id_t \<Rightarrow> NetworkModelEMeshHopByHop \<Rightarrow> (Hop list \<times> NetworkModelEMeshHopByHop) result" where
  "mesh_broadcast env pkt pkt_length requester m =
     (if em_fake_node m
      then addHops env (map (\<lambda>i. (DESTINATION, ToCore i, i)) [0..ne_total_cores env - 1]) (np_time pkt) pkt_length requester m
      else if em_broadcast_tree_enabled m
      then bindR (if np_sender pkt = em_core_id m
                  then computeInjectionPortQueueDelay env (np_receiver pkt) (np_time pkt) pkt_length m
                  else Inr (0, m)) (\<lambda>(d, m).
           addHops env (broadcast_tree m (np_sender pkt)) (np_time pkt + d) pkt_length requester m)
      else bindR (logAssertR (np_sender pkt = em_core_id m) ''BROADCAST message, Tree not enabled'') (\<lambda>_.
           broadcast_unicast env [0..ne_total_cores env - 1] (np_time pkt) pkt_length requester m))"

definition mesh_unicast ::
  "net_env \<Rightarrow> core_id_t \<Rightarrow> 'a WirePacket_scheme \<Rightarrow> UInt32 \<Rightarrow> core_id_t \<Rightarrow> NetworkModelEMeshHopByHop \<Rightarrow>
     (Hop list \<times> 'a WirePacket_scheme \<times> NetworkModelEMeshHopByHop) result" where
  "mesh_unicast env receiver pkt pkt_length requester m =
     bindR (if np_sender pkt = em_core_id m
            then computeInjectionPortQueueDelay env (ToCore receiver) (np_time pkt) pkt_length m
            else Inr (0, m)) (\<lambda>(d, m).
     let pkt = pkt\<lparr>np_queue_delay := np_queue_delay pkt + d\<rparr>; curr_time = np_time pkt + d
     in case getNextDest env m receiver of (direction, next_dest) \<Rightarrow>
        bindR (addHop env direction (ToCore receiver) next_dest curr_time pkt_length requester m) (\<lambda>(h, d, m).
        Inr ([h], pkt\<lparr>np_queue_delay := np_queue_delay pkt + d\<rparr>, m)))"

definition mesh_routePacket ::
  "net_env \<Rightarrow> 'a WirePacket_scheme \<Rightarrow> NetworkModelEMeshHopByHop \<Rightarrow> (Hop list \<times> 'a WirePacket_scheme \<times> NetworkModelEMeshHopByHop) result" where
  "mesh_routePacket env pkt m =
     bindR (pkt_requester env pkt) (\<lambda>requester.
     bindR (net_getModeledLength env pkt) (\<lambda>pkt_length.
     let m = (if np_sender pkt = em_core_id m
              then m\<lparr>em_total_packets_sent := em_total_packets_sent m + 1, em_total_bytes_sent := em_total_bytes_sent m + ucast pkt_length\<rparr>
              else m)
     in case np_receiver pkt of
          BROADCAST \<Rightarrow> bindR (mesh_broadcast env pkt pkt_length requester m) (\<lambda>(hs, m). Inr (hs, pkt, m))
        | ToCore receiver \<Rightarrow>
            if em_fake_node m
            then bindR (addHop env DESTINATION (ToCore receiver) receiver (np_time pkt) pkt_length requester m) (\<lambda>(h, _, m). Inr ([h], pkt, m))
            else mesh_unicast env receiver pkt pkt_length requester m))"

section \<open>Receiving\<close>

definition mesh_processReceivedPacket ::
  "net_env \<Rightarrow> 'a WirePacket_scheme \<Rightarrow> NetworkModelEMeshHopByHop \<Rightarrow> ('a WirePacket_scheme \<times> NetworkModelEMeshHopByHop) result" where
  "mesh_processReceivedPacket env pkt m =
     bindR (net_getModeledLength env pkt) (\<lambda>pkt_length.
     bindR (pkt_requester env pkt) (\<lambda>requester.
     if \<not> em_enabled m \<or> requester \<ge> ne_application_cores env \<or> em_core_id m \<ge> ne_application_cores env then Inr (pkt, m)
     else let packet_latency = np_time pkt - np_start_time pkt;
              contention_delay = packet_latency
                - word_of_int (computeDistance m (np_sender pkt) (em_core_id m)) * ComponentLatency_getLatency (ne_periods env) (em_hop_latency m)
          in bindR (if np_sender pkt \<noteq> em_core_id m \<and> \<not> em_fake_node m
                    then bindR (computeProcessingTime env m pkt_length) (\<lambda>processing_time.
                         bindR (computeEjectionPortQueueDelay env (np_time pkt) pkt_length m) (\<lambda>(d, m).
                         Inr (packet_latency + (d + processing_time), contention_delay + d,
                              pkt\<lparr>np_time := np_time pkt + (d + processing_time), np_queue_delay := np_queue_delay pkt + d\<rparr>, m)))
                    else Inr (packet_latency, contention_delay, pkt, m)) (\<lambda>(packet_latency, contention_delay, pkt, m).
             Inr (pkt, m\<lparr>em_total_packets_received := em_total_packets_received m + 1,
                         em_total_bytes_received := em_total_bytes_received m + ucast pkt_length,
                         em_total_packet_latency := em_total_packet_latency m + packet_latency,
                         em_total_contention_delay := em_total_contention_delay m + contention_delay\<rparr>))))"

end
