(* ===== verification/Network_Models.thy ===== *)
theory Network_Models
  imports Network_Mesh
begin

text \<open>
  The network of the simulated machine: the models \<^verbatim>\<open>network_model_magic.cc\<close>, \<^verbatim>\<open>network_model_emesh_hop_counter.cc\<close> and
  \<^verbatim>\<open>network_model_bus.cc\<close>, the choice between them in \<^verbatim>\<open>network_model.cc\<close>, and sending, forwarding and receiving in
  \<^verbatim>\<open>network.cc\<close> over the queues of \<^verbatim>\<open>transport/smtransport.cc\<close>. The networks of all cores are one state, since a sender routes its
  packet through the models of the cores on the way.
\<close>

section \<open>Magic network\<close>

record NetworkModelMagic =
  mn_enabled :: bool
  mn_num_packets :: UInt64
  mn_num_bytes :: UInt64
  mn_latency :: ComponentLatency

definition Magic_create :: "nat \<Rightarrow> NetworkModelMagic" where
  "Magic_create domain = \<lparr>mn_enabled = False, mn_num_packets = 0, mn_num_bytes = 0, mn_latency = \<lparr>cl_period = domain, cl_cycles = 1\<rparr>\<rparr>"

text \<open>The hop straight to a core, and to every core.\<close>

definition direct_hop :: "SubsecondTime \<Rightarrow> core_id_t \<Rightarrow> Hop" where
  "direct_hop t i = \<lparr>hop_final_dest = ToCore i, hop_next_dest = i, hop_time = t\<rparr>"

definition direct_hops :: "net_env \<Rightarrow> net_receiver \<Rightarrow> SubsecondTime \<Rightarrow> Hop list" where
  "direct_hops env receiver t =
     (case receiver of BROADCAST \<Rightarrow> map (direct_hop t) [0..ne_total_cores env - 1] | ToCore r \<Rightarrow> [direct_hop t r])"

definition Magic_routePacket :: "net_env \<Rightarrow> 'a WirePacket_scheme \<Rightarrow> NetworkModelMagic \<Rightarrow> Hop list" where
  "Magic_routePacket env pkt m = direct_hops env (np_receiver pkt) (np_time pkt + ComponentLatency_getLatency (ne_periods env) (mn_latency m))"

definition Magic_processReceivedPacket :: "net_env \<Rightarrow> 'a WirePacket_scheme \<Rightarrow> NetworkModelMagic \<Rightarrow> NetworkModelMagic result" where
  "Magic_processReceivedPacket env pkt m =
     bindR (pkt_requester env pkt) (\<lambda>requester.
     if \<not> mn_enabled m \<or> requester \<ge> ne_application_cores env then Inr m
     else bindR (net_getModeledLength env pkt) (\<lambda>pkt_length.
          Inr (m\<lparr>mn_num_packets := mn_num_packets m + 1, mn_num_bytes := mn_num_bytes m + ucast pkt_length\<rparr>)))"

section \<open>Hop counter\<close>

record NetworkModelEMeshHopCounter =
  hc_hopLatency :: ComponentLatency
  hc_linkBandwidth :: ComponentBandwidthPerCycle
  hc_meshWidth :: int
  hc_meshHeight :: int
  hc_enabled :: bool
  hc_num_packets :: UInt64
  hc_num_bytes :: UInt64
  hc_total_latency :: SubsecondTime

definition HopCounter_create :: "net_env \<Rightarrow> nat \<Rightarrow> UInt64 \<Rightarrow> UInt64 \<Rightarrow> NetworkModelEMeshHopCounter result" where
  "HopCounter_create env domain link_bandwidth hop_latency =
     (let total_cores = ne_total_cores env;
          w = int (floor_sqrt (nat total_cores));
          h = (total_cores + (w - 1)) div w
      in bindR (assertR (total_cores \<le> w * h) ''total_cores <= _meshWidth * _meshHeight'') (\<lambda>_.
         bindR (assertR (total_cores > (w - 1) * h) ''total_cores > (_meshWidth - 1) * _meshHeight'') (\<lambda>_.
         bindR (assertR (total_cores > w * (h - 1)) ''total_cores > _meshWidth * (_meshHeight - 1)'') (\<lambda>_.
         Inr \<lparr>hc_hopLatency = \<lparr>cl_period = domain, cl_cycles = hop_latency\<rparr>,
              hc_linkBandwidth = \<lparr>bpc_period = domain, bpc_bits = link_bandwidth\<rparr>,
              hc_meshWidth = w, hc_meshHeight = h, hc_enabled = False, hc_num_packets = 0, hc_num_bytes = 0, hc_total_latency = 0\<rparr>))))"

definition hc_computePosition :: "NetworkModelEMeshHopCounter \<Rightarrow> core_id_t \<Rightarrow> int \<times> int" where
  "hc_computePosition m core_id = (core_id smod hc_meshWidth m, core_id sdiv hc_meshWidth m)"

definition hc_computeDistance :: "int \<times> int \<Rightarrow> int \<times> int \<Rightarrow> int" where
  "hc_computeDistance s d = \<bar>fst s - fst d\<bar> + \<bar>snd s - snd d\<bar>"

definition computeSerializationLatency :: "net_env \<Rightarrow> NetworkModelEMeshHopCounter \<Rightarrow> UInt32 \<Rightarrow> SubsecondTime result" where
  "computeSerializationLatency env m pkt_length =
     (let num_bits = pkt_length * 8 in BandwidthPerCycle_getRoundedLatency (ne_periods env) (hc_linkBandwidth m) (ucast num_bits))"

definition hc_latency :: "net_env \<Rightarrow> NetworkModelEMeshHopCounter \<Rightarrow> core_id_t \<Rightarrow> core_id_t \<Rightarrow> SubsecondTime \<Rightarrow> SubsecondTime" where
  "hc_latency env m sender receiver serialization_latency =
     word_of_int (hc_computeDistance (hc_computePosition m sender) (hc_computePosition m receiver))
       * ComponentLatency_getLatency (ne_periods env) (hc_hopLatency m)
     + (if receiver \<noteq> sender then serialization_latency else 0)"

fun hc_broadcast ::
  "net_env \<Rightarrow> NetworkModelEMeshHopCounter \<Rightarrow> core_id_t \<Rightarrow> SubsecondTime \<Rightarrow> SubsecondTime \<Rightarrow> core_id_t list \<Rightarrow> Hop list" where
  "hc_broadcast env m sender serialization_latency curr_time [] = []"
| "hc_broadcast env m sender serialization_latency curr_time (i # cs) =
     direct_hop (curr_time + hc_latency env m sender i serialization_latency) i
     # hc_broadcast env m sender serialization_latency (curr_time + serialization_latency) cs"

definition HopCounter_routePacket :: "net_env \<Rightarrow> 'a WirePacket_scheme \<Rightarrow> NetworkModelEMeshHopCounter \<Rightarrow> Hop list result" where
  "HopCounter_routePacket env pkt m =
     bindR (net_getModeledLength env pkt) (\<lambda>pkt_length.
     bindR (computeSerializationLatency env m pkt_length) (\<lambda>serialization_latency.
     case np_receiver pkt of
       BROADCAST \<Rightarrow> Inr (hc_broadcast env m (np_sender pkt) serialization_latency (np_time pkt) [0..ne_total_cores env - 1])
     | ToCore r \<Rightarrow> Inr [direct_hop (np_time pkt + hc_latency env m (np_sender pkt) r serialization_latency) r]))"

definition HopCounter_processReceivedPacket ::
  "net_env \<Rightarrow> 'a WirePacket_scheme \<Rightarrow> NetworkModelEMeshHopCounter \<Rightarrow> NetworkModelEMeshHopCounter result" where
  "HopCounter_processReceivedPacket env pkt m =
     bindR (net_getModeledLength env pkt) (\<lambda>pkt_length.
     bindR (pkt_requester env pkt) (\<lambda>requester.
     if \<not> hc_enabled m \<or> requester \<ge> ne_application_cores env then Inr m
     else Inr (m\<lparr>hc_num_packets := hc_num_packets m + 1, hc_num_bytes := hc_num_bytes m + ucast pkt_length,
                 hc_total_latency := hc_total_latency m + (np_time pkt - np_start_time pkt)\<rparr>)))"

section \<open>Bus\<close>

record NetworkModelBusGlobal =
  bg_bandwidth :: UInt64
  bg_queue_model :: QueueModel
  bg_num_packets :: UInt64
  bg_num_packets_delayed :: UInt64
  bg_num_bytes :: UInt64
  bg_time_used :: SubsecondTime
  bg_total_delay :: SubsecondTime

definition BusGlobal_create :: "queue_config \<Rightarrow> string \<Rightarrow> UInt64 \<Rightarrow> SubsecondTime \<Rightarrow> NetworkModelBusGlobal result" where
  "BusGlobal_create qcfg model_type bandwidth proc_period =
     bindR (QueueModel_create qcfg model_type (10 * proc_period)) (\<lambda>q.
     Inr \<lparr>bg_bandwidth = bandwidth, bg_queue_model = q, bg_num_packets = 0, bg_num_packets_delayed = 0, bg_num_bytes = 0,
          bg_time_used = 0, bg_total_delay = 0\<rparr>)"

text \<open>The results are the time at which the packet is out, and its queue delay.\<close>

definition useBus ::
  "net_env \<Rightarrow> SubsecondTime \<Rightarrow> UInt32 \<Rightarrow> NetworkModelBusGlobal \<Rightarrow> (SubsecondTime \<times> SubsecondTime \<times> NetworkModelBusGlobal) result" where
  "useBus env t_start pkt_length b =
     bindR (ComponentBandwidth_getLatency (bg_bandwidth b) (ucast (pkt_length * 8))) (\<lambda>t_delay.
     bindR (computeQueueDelay (ne_queue_env env) (bg_queue_model b) t_start t_delay) (\<lambda>(t_queue, q).
     Inr (t_start + t_queue + t_delay, t_queue,
          b\<lparr>bg_queue_model := q, bg_time_used := bg_time_used b + t_delay, bg_total_delay := bg_total_delay b + t_queue,
            bg_num_packets_delayed := bg_num_packets_delayed b + (if t_queue > 0 then 1 else 0)\<rparr>)))"

record NetworkModelBus =
  nb_enabled :: bool
  nb_ignore_local :: bool

text \<open>\<^verbatim>\<open>NetPacket::BROADCAST\<close> is a negative number.\<close>

definition receiver_application :: "net_env \<Rightarrow> net_receiver \<Rightarrow> bool" where
  "receiver_application env r = (case r of BROADCAST \<Rightarrow> True | ToCore c \<Rightarrow> c < ne_application_cores env)"

definition accountPacket :: "net_env \<Rightarrow> 'a WirePacket_scheme \<Rightarrow> NetworkModelBus \<Rightarrow> bool result" where
  "accountPacket env pkt m =
     bindR (pkt_requester env pkt) (\<lambda>requester.
     Inr (\<not> (\<not> nb_enabled m \<or> (nb_ignore_local m \<and> np_receiver pkt = ToCore (np_sender pkt)) \<or> requester \<ge> ne_application_cores env
            \<or> np_sender pkt \<ge> ne_application_cores env \<or> \<not> receiver_application env (np_receiver pkt))))"

definition Bus_routePacket ::
  "net_env \<Rightarrow> 'a WirePacket_scheme \<Rightarrow> NetworkModelBus \<Rightarrow> NetworkModelBusGlobal \<Rightarrow> (Hop list \<times> 'a WirePacket_scheme \<times> NetworkModelBusGlobal) result" where
  "Bus_routePacket env pkt m b =
     bindR (accountPacket env pkt m) (\<lambda>account.
     bindR (if account
            then bindR (net_getModeledLength env pkt) (\<lambda>pkt_length.
                 bindR (useBus env (np_time pkt) (np_length pkt)
                          (b\<lparr>bg_num_packets := bg_num_packets b + 1, bg_num_bytes := bg_num_bytes b + ucast pkt_length\<rparr>)) (\<lambda>(t, d, b).
                 Inr (t, pkt\<lparr>np_queue_delay := np_queue_delay pkt + d\<rparr>, b)))
            else Inr (np_time pkt, pkt, b)) (\<lambda>(t_recv, pkt, b).
     Inr (direct_hops env (np_receiver pkt) t_recv, pkt, b)))"

section \<open>The models together\<close>

datatype net_model = NM_Magic NetworkModelMagic | NM_HopCounter NetworkModelEMeshHopCounter | NM_HopByHop NetworkModelEMeshHopByHop
  | NM_Bus NetworkModelBus

datatype NetworkType = NETWORK_MAGIC | NETWORK_EMESH_HOP_COUNTER | NETWORK_EMESH_HOP_BY_HOP | NETWORK_BUS

text \<open>The answer \<^verbatim>\<open>(UInt32)-1\<close> is \<open>None\<close>.\<close>

definition parseNetworkType :: "string \<Rightarrow> NetworkType option" where
  "parseNetworkType str =
     (if str = ''magic'' then Some NETWORK_MAGIC
      else if str = ''emesh_hop_counter'' then Some NETWORK_EMESH_HOP_COUNTER
      else if str = ''emesh_hop_by_hop'' then Some NETWORK_EMESH_HOP_BY_HOP
      else if str = ''bus'' then Some NETWORK_BUS
      else None)"

record net_config =
  nk_mesh :: mesh_config
  nk_counter_link_bandwidth :: UInt64
  nk_counter_hop_latency :: UInt64
  nk_bus_ignore_local :: bool

definition createModel :: "net_env \<Rightarrow> net_config \<Rightarrow> core_id_t \<Rightarrow> nat \<Rightarrow> NetworkType option \<Rightarrow> net_model result" where
  "createModel env cfg core_id domain model_type =
     (case model_type of
        Some NETWORK_MAGIC \<Rightarrow> Inr (NM_Magic (Magic_create domain))
      | Some NETWORK_EMESH_HOP_COUNTER \<Rightarrow>
          bindR (HopCounter_create env domain (nk_counter_link_bandwidth cfg) (nk_counter_hop_latency cfg)) (\<lambda>m. Inr (NM_HopCounter m))
      | Some NETWORK_EMESH_HOP_BY_HOP \<Rightarrow> bindR (EMeshHopByHop_create env (nk_mesh cfg) core_id domain) (\<lambda>m. Inr (NM_HopByHop m))
      | Some NETWORK_BUS \<Rightarrow> Inr (NM_Bus \<lparr>nb_enabled = False, nb_ignore_local = nk_bus_ignore_local cfg\<rparr>)
      | None \<Rightarrow> Inl (AssertFail ''false''))"

definition computeCoreCountConstraints :: "int \<Rightarrow> net_config \<Rightarrow> NetworkType option \<Rightarrow> int \<Rightarrow> (bool \<times> int) result" where
  "computeCoreCountConstraints application_cores cfg network_type core_count =
     (case network_type of
        Some NETWORK_EMESH_HOP_BY_HOP \<Rightarrow> mesh_computeCoreCountConstraints application_cores (nk_mesh cfg) core_count
      | Some _ \<Rightarrow> Inr (False, core_count)
      | None \<Rightarrow> Inl (LogError ''Unrecognized network type''))"

fun spaced_controllers :: "int \<Rightarrow> int \<Rightarrow> core_id_t list \<Rightarrow> core_id_t list result" where
  "spaced_controllers spacing core_count [] = Inr []"
| "spaced_controllers spacing core_count (i # cs) =
     bindR (assertR (i * spacing < core_count) ''(i*spacing_between_memory_controllers) < core_count'') (\<lambda>_.
     bindR (spaced_controllers spacing core_count cs) (\<lambda>l. Inr (i * spacing # l)))"

definition computeMemoryControllerPositions :: "int \<Rightarrow> net_config \<Rightarrow> NetworkType option \<Rightarrow> int \<Rightarrow> int \<Rightarrow> (bool \<times> core_id_t list) result" where
  "computeMemoryControllerPositions application_cores cfg network_type num_memory_controllers core_count =
     (case network_type of
        Some NETWORK_EMESH_HOP_BY_HOP \<Rightarrow> mesh_computeMemoryControllerPositions application_cores (nk_mesh cfg) num_memory_controllers
      | Some _ \<Rightarrow>
          if num_memory_controllers = 0 then Inl (Trap ''division by zero'')
          else bindR (spaced_controllers (core_count sdiv num_memory_controllers) core_count [0..num_memory_controllers - 1]) (\<lambda>l. Inr (False, l))
      | None \<Rightarrow> Inl (LogError ''Unrecognized network type''))"

section \<open>Networks of all cores\<close>

text \<open>\<^verbatim>\<open>m_matrix_packets\<close> and \<^verbatim>\<open>m_matrix_bytes\<close> are \<open>None\<close> when the traffic matrix is not collected.\<close>

record NetworkModel =
  nm_matrix :: "(UInt64 \<times> UInt64) list option"
  nm_model :: net_model

text \<open>
  \<open>ns_queues\<close> are the queues of the transport, \<open>ns_netQueue\<close> the packets waiting for a \<^verbatim>\<open>netRecv\<close>, \<open>ns_delivered\<close> the packets passed to
  a callback; \<open>ns_callbacks\<close> says which types have one at which core. The buses are global.
\<close>

record net_state =
  ns_models :: "core_id_t \<Rightarrow> EStaticNetwork \<Rightarrow> NetworkModel"
  ns_buses :: "EStaticNetwork \<Rightarrow> NetworkModelBusGlobal"
  ns_queues :: "core_id_t \<Rightarrow> WirePacket list"
  ns_netQueue :: "core_id_t \<Rightarrow> WirePacket list"
  ns_delivered :: "core_id_t \<Rightarrow> WirePacket list"
  ns_callbacks :: "core_id_t \<Rightarrow> PacketType \<Rightarrow> bool"

definition set_model :: "core_id_t \<Rightarrow> EStaticNetwork \<Rightarrow> net_model \<Rightarrow> net_state \<Rightarrow> net_state" where
  "set_model c n m s = s\<lparr>ns_models := (ns_models s)(c := (ns_models s c)(n := (ns_models s c n)\<lparr>nm_model := m\<rparr>))\<rparr>"

definition registerCallback :: "core_id_t \<Rightarrow> PacketType \<Rightarrow> net_state \<Rightarrow> net_state" where
  "registerCallback c t s = s\<lparr>ns_callbacks := (ns_callbacks s)(c := (ns_callbacks s c)(t := True))\<rparr>"

definition unregisterCallback :: "core_id_t \<Rightarrow> PacketType \<Rightarrow> net_state \<Rightarrow> net_state" where
  "unregisterCallback c t s = s\<lparr>ns_callbacks := (ns_callbacks s)(c := (ns_callbacks s c)(t := False))\<rparr>"

definition set_enabled :: "bool \<Rightarrow> net_model \<Rightarrow> net_model" where
  "set_enabled b m =
     (case m of
        NM_Magic x \<Rightarrow> NM_Magic (x\<lparr>mn_enabled := b\<rparr>)
      | NM_HopCounter x \<Rightarrow> NM_HopCounter (x\<lparr>hc_enabled := b\<rparr>)
      | NM_HopByHop x \<Rightarrow> NM_HopByHop (x\<lparr>em_enabled := b\<rparr>)
      | NM_Bus x \<Rightarrow> NM_Bus (x\<lparr>nb_enabled := b\<rparr>))"

definition net_enableModels :: "bool \<Rightarrow> core_id_t \<Rightarrow> net_state \<Rightarrow> net_state" where
  "net_enableModels b c s =
     s\<lparr>ns_models := (ns_models s)(c := \<lambda>n. (ns_models s c n)\<lparr>nm_model := set_enabled b (nm_model (ns_models s c n))\<rparr>)\<rparr>"

definition countPacket :: "net_env \<Rightarrow> 'a WirePacket_scheme \<Rightarrow> NetworkModel \<Rightarrow> NetworkModel result" where
  "countPacket env pkt m =
     (case nm_matrix m of
        None \<Rightarrow> Inr m
      | Some mat \<Rightarrow>
          let dst = (case np_receiver pkt of BROADCAST \<Rightarrow> int (length mat) - 1 | ToCore r \<Rightarrow> r)
          in if 0 \<le> dst \<and> dst < int (length mat)
             then bindR (net_getModeledLength env pkt) (\<lambda>len.
                  Inr (m\<lparr>nm_matrix := Some (mat[nat dst := (fst (mat ! nat dst) + 1, snd (mat ! nat dst) + ucast len)])\<rparr>))
             else Inl (Trap ''m_matrix_packets out of range''))"

text \<open>\<^verbatim>\<open>routePacket\<close> of the model of core \<open>c\<close> for the network of the packet.\<close>

definition routePacket :: "net_env \<Rightarrow> core_id_t \<Rightarrow> WirePacket \<Rightarrow> net_state \<Rightarrow> (Hop list \<times> WirePacket \<times> net_state) result" where
  "routePacket env c pkt s =
     (let n = g_type_to_static_network_map (np_type pkt)
      in case nm_model (ns_models s c n) of
           NM_Magic m \<Rightarrow> Inr (Magic_routePacket env pkt m, pkt, s)
         | NM_HopCounter m \<Rightarrow> bindR (HopCounter_routePacket env pkt m) (\<lambda>hs. Inr (hs, pkt, s))
         | NM_HopByHop m \<Rightarrow> bindR (mesh_routePacket env pkt m) (\<lambda>(hs, pkt, m). Inr (hs, pkt, set_model c n (NM_HopByHop m) s))
         | NM_Bus m \<Rightarrow> bindR (Bus_routePacket env pkt m (ns_buses s n)) (\<lambda>(hs, pkt, b).
             Inr (hs, pkt, s\<lparr>ns_buses := (ns_buses s)(n := b)\<rparr>)))"

definition processReceivedPacket :: "net_env \<Rightarrow> core_id_t \<Rightarrow> WirePacket \<Rightarrow> net_state \<Rightarrow> (WirePacket \<times> net_state) result" where
  "processReceivedPacket env c pkt s =
     (let n = g_type_to_static_network_map (np_type pkt)
      in case nm_model (ns_models s c n) of
           NM_Magic m \<Rightarrow> bindR (Magic_processReceivedPacket env pkt m) (\<lambda>m. Inr (pkt, set_model c n (NM_Magic m) s))
         | NM_HopCounter m \<Rightarrow> bindR (HopCounter_processReceivedPacket env pkt m) (\<lambda>m. Inr (pkt, set_model c n (NM_HopCounter m) s))
         | NM_HopByHop m \<Rightarrow> bindR (mesh_processReceivedPacket env pkt m) (\<lambda>(pkt, m). Inr (pkt, set_model c n (NM_HopByHop m) s))
         | NM_Bus m \<Rightarrow> Inr (pkt, s))"

section \<open>Sending\<close>

text \<open>\<^verbatim>\<open>SmTransport\<close>: the queue of a node is appended to and read from the front.\<close>

definition transport_send :: "net_env \<Rightarrow> core_id_t \<Rightarrow> WirePacket \<Rightarrow> net_state \<Rightarrow> net_state result" where
  "transport_send env dest pkt s =
     bindR (logAssertR (0 \<le> dest \<and> dest < ne_total_cores env) ''Attempt to send to non-existent node'') (\<lambda>_.
     Inr (s\<lparr>ns_queues := (ns_queues s)(dest := ns_queues s dest @ [pkt])\<rparr>))"

text \<open>
  The loop that follows a packet from core to core; \<open>fuel\<close> bounds the number of hops. The packet carries the time and the delays
  with it.
\<close>

fun follow_hops :: "nat \<Rightarrow> net_env \<Rightarrow> Hop \<Rightarrow> WirePacket \<Rightarrow> net_state \<Rightarrow> (Hop \<times> WirePacket \<times> net_state) result" where
  "follow_hops fuel env hop pkt s =
     (case hop_final_dest hop of
        BROADCAST \<Rightarrow> Inr (hop, pkt, s)
      | ToCore dest \<Rightarrow>
          if hop_next_dest hop = dest then Inr (hop, pkt, s)
          else case fuel of
                 0 \<Rightarrow> Inl Diverges
               | Suc fuel \<Rightarrow>
                   bindR (routePacket env (hop_next_dest hop) (pkt\<lparr>np_time := hop_time hop, np_receiver := ToCore dest\<rparr>) s) (\<lambda>(hs, pkt, s).
                   bindR (assertR (length hs = 1) ''localHopVec.size() == 1'') (\<lambda>_.
                   follow_hops fuel env (hd hs) pkt s)))"

fun send_hops ::
  "nat \<Rightarrow> net_env \<Rightarrow> core_id_t \<Rightarrow> SubsecondTime \<Rightarrow> WirePacket \<Rightarrow> Hop list \<Rightarrow> WirePacket \<Rightarrow> net_state \<Rightarrow> (WirePacket \<times> net_state) result" where
  "send_hops fuel env c start_time buffer [] pkt s = Inr (pkt, s)"
| "send_hops fuel env c start_time buffer (hop # hops) pkt s =
     bindR (follow_hops fuel env hop pkt s) (\<lambda>(hop, pkt, s).
     let buffer = (if np_sender buffer = c then buffer\<lparr>np_start_time := start_time\<rparr> else buffer);
         buffer = buffer\<lparr>np_time := hop_time hop, np_receiver := hop_final_dest hop\<rparr>
     in bindR (transport_send env (hop_next_dest hop) buffer s) (\<lambda>s.
        send_hops fuel env c start_time buffer hops pkt s))"

definition netSend :: "nat \<Rightarrow> net_env \<Rightarrow> core_id_t \<Rightarrow> WirePacket \<Rightarrow> net_state \<Rightarrow> (UInt32 \<times> WirePacket \<times> net_state) result" where
  "netSend fuel env c pkt s =
     (let n = g_type_to_static_network_map (np_type pkt)
      in bindR (countPacket env pkt (ns_models s c n)) (\<lambda>m.
         bindR (routePacket env c pkt (s\<lparr>ns_models := (ns_models s)(c := (ns_models s c)(n := m))\<rparr>)) (\<lambda>(hops, pkt, s).
         bindR (send_hops fuel env c (np_time pkt) pkt hops pkt s) (\<lambda>(pkt, s).
         Inr (np_length pkt, pkt, s)))))"

section \<open>Receiving\<close>

text \<open>A packet that has arrived at core \<open>c\<close> goes to the callback of its type, or to the queue of the network.\<close>

definition accept_packet :: "net_env \<Rightarrow> core_id_t \<Rightarrow> WirePacket \<Rightarrow> net_state \<Rightarrow> net_state result" where
  "accept_packet env c pkt s =
     bindR (processReceivedPacket env c pkt s) (\<lambda>(pkt, s).
     if ns_callbacks s c (np_type pkt)
     then Inr (s\<lparr>ns_delivered := (ns_delivered s)(c := ns_delivered s c @ [pkt])\<rparr>)
     else Inr (s\<lparr>ns_netQueue := (ns_netQueue s)(c := ns_netQueue s c @ [pkt])\<rparr>))"

text \<open>One round of \<^verbatim>\<open>netPullFromTransport\<close> at core \<open>c\<close> with a packet in the queue of the transport.\<close>

definition pull_one :: "nat \<Rightarrow> net_env \<Rightarrow> core_id_t \<Rightarrow> net_state \<Rightarrow> net_state result" where
  "pull_one fuel env c s =
     (case ns_queues s c of
        [] \<Rightarrow> Inr s
      | pkt # rest \<Rightarrow>
          let s = s\<lparr>ns_queues := (ns_queues s)(c := rest)\<rparr>
          in bindR (assertR (0 \<le> np_sender pkt \<and> np_sender pkt < ne_total_cores env) ''0 <= packet.sender && packet.sender < _numMod'') (\<lambda>_.
             if np_receiver pkt \<noteq> ToCore c
             then bindR (netSend fuel env c pkt s) (\<lambda>(_, pkt, s). if np_receiver pkt \<noteq> BROADCAST then Inr s else accept_packet env c pkt s)
             else accept_packet env c pkt s))"

text \<open>A \<^verbatim>\<open>NetMatch\<close>: an empty list of senders or types matches all of them.\<close>

record NetMatch =
  ma_senders :: "core_id_t list"
  ma_types :: "PacketType list"

definition matches :: "net_env \<Rightarrow> NetMatch \<Rightarrow> WirePacket \<Rightarrow> bool" where
  "matches env ma pkt =
     ((if ma_senders ma = [] then 0 \<le> np_sender pkt \<and> np_sender pkt < ne_total_cores env else np_sender pkt \<in> set (ma_senders ma))
      \<and> (ma_types ma = [] \<or> np_type pkt \<in> set (ma_types ma)))"

text \<open>The scan of the queue: the index of the earliest match so far.\<close>

fun find_match :: "net_env \<Rightarrow> NetMatch \<Rightarrow> WirePacket list \<Rightarrow> nat list \<Rightarrow> nat option \<Rightarrow> nat option" where
  "find_match env ma q [] itr = itr"
| "find_match env ma q (i # is) itr =
     find_match env ma q is
       (if matches env ma (q ! i)
        then (case itr of None \<Rightarrow> Some i | Some j \<Rightarrow> if np_time (q ! j) > np_time (q ! i) then Some i else itr)
        else itr)"

text \<open>
  \<^verbatim>\<open>netRecv\<close> at core \<open>c\<close>; \<open>start_time\<close> is the elapsed time of its performance model. \<open>None\<close> means that no packet matches and the
  call waits; the second result is the latency of the receive instruction that is queued, if any.
\<close>

definition netRecv ::
  "net_env \<Rightarrow> core_id_t \<Rightarrow> SubsecondTime \<Rightarrow> NetMatch \<Rightarrow> net_state \<Rightarrow> (WirePacket \<times> SubsecondTime option \<times> net_state) option result" where
  "netRecv env c start_time ma s =
     (let q = ns_netQueue s c
      in case find_match env ma q [0..<length q] None of
           None \<Rightarrow> Inr None
         | Some i \<Rightarrow>
             let pkt = q ! i; s' = s\<lparr>ns_netQueue := (ns_netQueue s)(c := take i q @ drop (Suc i) q)\<rparr>
             in bindR (assertR (0 \<le> np_sender pkt \<and> np_sender pkt < ne_total_cores env) ''0 <= itr->sender && itr->sender < _numMod'') (\<lambda>_.
                bindR (assertR (np_receiver pkt = ToCore c \<or> np_receiver pkt = BROADCAST) ''itr->receiver == _core->getId()'') (\<lambda>_.
                if np_time pkt > start_time
                then if c < ne_application_cores env
                     then bindR (logAssertR (np_time pkt - start_time < 100 * time_in Unit_NS 1) ''RecvInstruction being queued'') (\<lambda>_.
                          Inr (Some (pkt, None, s')))
                     else Inr (Some (pkt, Some (np_time pkt - start_time), s'))
                else Inr (Some (pkt, None, s')))))"

end
