(* ===== verification/Network_Routing.thy ===== *)
theory Network_Routing
  imports Network_Models
begin

text \<open>
  What the network promises: in a mesh or torus every unicast packet reaches its receiver, over a number of hops that is known from the positions of
  the two cores; without queues the mesh charges exactly what the hop counter charges; and the memory controllers are placed on distinct
  cores.
\<close>

section \<open>Coordinates\<close>

lemma sdiv_nonneg: "0 \<le> a \<Longrightarrow> 0 < b \<Longrightarrow> a sdiv b = a div b" for a b :: int
  by (cases "a = 0") (simp_all add: signed_divide_int_def)

lemma smod_nonneg: "0 \<le> a \<Longrightarrow> 0 < b \<Longrightarrow> a smod b = a mod b" for a b :: int
  by (cases "a = 0") (simp_all add: signed_modulo_int_def)

lemma position_div: "0 \<le> x \<Longrightarrow> x < w \<Longrightarrow> (y * w + x) div w = y" for x y w :: int
  by (metis add.commute add.right_neutral div_mult_self3 div_pos_pos_trivial order_le_less_trans less_irrefl)

lemma position_mod: "0 \<le> x \<Longrightarrow> x < w \<Longrightarrow> (y * w + x) mod w = x" for x y w :: int
  by (simp add: mod_pos_pos_trivial)

lemma div_less_mult: "0 < k \<Longrightarrow> a < b * k \<Longrightarrow> a div k < b" for a b k :: int
proof (rule ccontr)
  assume k: "0 < k" and a: "a < b * k" and "\<not> a div k < b"
  then have "b * k \<le> a div k * k" by (intro mult_right_mono) simp_all
  also have "... \<le> a" using k minus_div_mult_eq_mod [of a k] pos_mod_sign [of k a] by linarith
  finally show False using a by simp
qed

text \<open>The hops along one dimension of size \<open>n\<close> over a distance \<open>d\<close>, and the neighbour that is chosen.\<close>

definition axis_hops :: "bool \<Rightarrow> int \<Rightarrow> int \<Rightarrow> int" where
  "axis_hops wrap n d = (if wrap \<and> d > (n + 1) div 2 then n - d else d)"

definition axis_next :: "bool \<Rightarrow> int \<Rightarrow> int \<Rightarrow> int \<Rightarrow> int" where
  "axis_next wrap n s t = (if (s > t) \<noteq> (wrap \<and> \<bar>s - t\<bar> > (n + 1) div 2) then s - 1 else s + 1)"

lemma axis_progress:
  assumes "0 \<le> s" "s < n" "0 \<le> t" "t < n" "s \<noteq> t" and x: "x = (axis_next wrap n s t + n) mod n"
  shows "0 \<le> x \<and> x < n \<and> axis_hops wrap n \<bar>x - t\<bar> = axis_hops wrap n \<bar>s - t\<bar> - 1"
proof -
  let ?a = "axis_next wrap n s t"
  have a: "?a = s - 1 \<or> ?a = s + 1" "-1 \<le> ?a" "?a \<le> n" using assms by (auto simp: axis_next_def)
  have x': "x = (if ?a < 0 then n - 1 else if ?a = n then 0 else ?a)"
    using a(2,3) assms(1,2) zmod_minus1 [of n] by (cases "?a = -1") (auto simp: x)
  define k where "k = (n + 1) div 2"
  have k: "2 * k \<le> n + 1" "n + 1 < 2 * k + 2" unfolding k_def by linarith+
  consider (down) "\<not> (wrap \<and> \<bar>s - t\<bar> > k)" "s > t" | (up) "\<not> (wrap \<and> \<bar>s - t\<bar> > k)" "s < t"
    | (over) "wrap" "s - t > k" | (under) "wrap" "t - s > k"
    using assms(5) by linarith
  then show ?thesis
  proof cases
    case down
    then have "?a = s - 1" by (simp add: axis_next_def k_def)
    then have "x = s - 1" using x' down(2) assms by simp
    then show ?thesis using down assms by (auto simp: axis_hops_def k_def [symmetric])
  next
    case up
    then have "?a = s + 1" by (simp add: axis_next_def k_def)
    then have "x = s + 1" using x' up(2) assms by simp
    then show ?thesis using up assms by (auto simp: axis_hops_def k_def [symmetric])
  next
    case over
    then have "?a = s + 1" using k assms by (simp add: axis_next_def k_def [symmetric])
    then have "x = (if s + 1 = n then 0 else s + 1)" using x' assms by simp
    then show ?thesis using over assms k by (auto simp: axis_hops_def k_def [symmetric])
  next
    case under
    then have "?a = s - 1" using k assms by (simp add: axis_next_def k_def [symmetric])
    then have "x = (if s = 0 then n - 1 else s - 1)" using x' assms by simp
    then show ?thesis using under assms k by (auto simp: axis_hops_def k_def [symmetric])
  qed
qed

text \<open>The mesh has nodes; \<open>cores m\<close> is the number of its cores.\<close>

definition grid :: "NetworkModelEMeshHopByHop \<Rightarrow> bool" where
  "grid m = (0 < em_mesh_width m \<and> 0 < em_mesh_height m \<and> 0 < em_concentration m)"

definition cores :: "NetworkModelEMeshHopByHop \<Rightarrow> int" where
  "cores m = em_concentration m * em_mesh_width m * em_mesh_height m"

definition route_hops :: "NetworkModelEMeshHopByHop \<Rightarrow> core_id_t \<Rightarrow> core_id_t \<Rightarrow> int" where
  "route_hops m s r =
     (case (computePosition m s, computePosition m r) of
        ((sx, sy), (dx, dy)) \<Rightarrow> axis_hops (em_wrap_around m) (em_mesh_width m) \<bar>sx - dx\<bar> + axis_hops (em_wrap_around m) (em_mesh_height m) \<bar>sy - dy\<bar>)"

lemma node_bounds:
  assumes "grid m" "0 \<le> c" "c < cores m"
  shows "0 \<le> c div em_concentration m" "c div em_concentration m < em_mesh_width m * em_mesh_height m"
proof -
  show "0 \<le> c div em_concentration m" using assms by (simp add: grid_def pos_imp_zdiv_nonneg_iff)
  have "c < em_mesh_width m * em_mesh_height m * em_concentration m" using assms(3) by (simp add: cores_def mult.commute mult.left_commute)
  then show "c div em_concentration m < em_mesh_width m * em_mesh_height m"
    using assms(1) by (intro div_less_mult) (simp_all add: grid_def)
qed

lemma position:
  assumes "grid m" "0 \<le> c" "c < cores m"
  obtains x y where "computePosition m c = (x, y)" "0 \<le> x" "x < em_mesh_width m" "0 \<le> y" "y < em_mesh_height m"
    "c div em_concentration m = y * em_mesh_width m + x"
proof
  let ?n = "c div em_concentration m" and ?w = "em_mesh_width m"
  note n = node_bounds [OF assms]
  have w: "0 < ?w" "0 < em_concentration m" using assms(1) by (simp_all add: grid_def)
  show "computePosition m c = (?n mod ?w, ?n div ?w)"
    using assms(2) n(1) w by (simp add: computePosition_def sdiv_nonneg smod_nonneg)
  show "0 \<le> ?n mod ?w" "?n mod ?w < ?w" using w by simp_all
  show "0 \<le> ?n div ?w" using n(1) w by (simp add: pos_imp_zdiv_nonneg_iff)
  show "?n div ?w < em_mesh_height m" by (rule div_less_mult [OF w(1)]) (use n(2) in \<open>simp add: mult.commute\<close>)
  show "?n = ?n div ?w * ?w + ?n mod ?w" by simp
qed

lemma computeCoreId_position:
  assumes "grid m" "-1 \<le> x" "-1 \<le> y" and x': "x' = (x + em_mesh_width m) mod em_mesh_width m" and y': "y' = (y + em_mesh_height m) mod em_mesh_height m"
  shows "0 \<le> computeCoreId m x y" "computeCoreId m x y < cores m" "computeCoreId m x y mod em_concentration m = 0"
    "computePosition m (computeCoreId m x y) = (x', y')"
proof -
  let ?w = "em_mesh_width m" and ?h = "em_mesh_height m" and ?k = "em_concentration m"
  have g: "0 < ?w" "0 < ?h" "0 < ?k" using assms(1) by (simp_all add: grid_def)
  have c: "computeCoreId m x y = (y' * ?w + x') * ?k" using assms g by (simp add: computeCoreId_def smod_nonneg)
  have b: "0 \<le> x'" "x' < ?w" "0 \<le> y'" "y' < ?h" using g by (simp_all add: x' y')
  then have n: "0 \<le> y' * ?w + x'" using g by simp
  show "0 \<le> computeCoreId m x y" using n g by (simp add: c)
  have "y' * ?w + x' < (y' + 1) * ?w" using b by (simp add: distrib_right)
  also have "... \<le> ?h * ?w" using b g by (intro mult_right_mono) auto
  finally have "(y' * ?w + x') * ?k < ?h * ?w * ?k" using g by simp
  then show "computeCoreId m x y < cores m" by (simp add: c cores_def mult.commute mult.left_commute)
  show "computeCoreId m x y mod ?k = 0" by (simp add: c)
  have "computeCoreId m x y sdiv ?k = y' * ?w + x'" using n g by (simp add: c sdiv_nonneg)
  then show "computePosition m (computeCoreId m x y) = (x', y')"
    using n g b by (simp add: computePosition_def sdiv_nonneg smod_nonneg position_div position_mod)
qed

lemma axis_hops_bounds:
  assumes "0 \<le> d" "d < n"
  shows "0 \<le> axis_hops wrap n d" "axis_hops wrap n d \<le> n - 1" "axis_hops wrap n d = 0 \<longleftrightarrow> d = 0"
  using assms by (auto simp: axis_hops_def)

lemma route_hops_bounds:
  assumes "grid m" "0 \<le> s" "s < cores m" "0 \<le> r" "r < cores m"
  shows "0 \<le> route_hops m s r" "route_hops m s r \<le> em_mesh_width m + em_mesh_height m - 2"
    "route_hops m s r = 0 \<longleftrightarrow> s div em_concentration m = r div em_concentration m"
proof -
  obtain x y where p: "computePosition m s = (x, y)" "0 \<le> x" "x < em_mesh_width m" "0 \<le> y" "y < em_mesh_height m"
    "s div em_concentration m = y * em_mesh_width m + x" by (rule position [OF assms(1-3)])
  obtain x' y' where q: "computePosition m r = (x', y')" "0 \<le> x'" "x' < em_mesh_width m" "0 \<le> y'" "y' < em_mesh_height m"
    "r div em_concentration m = y' * em_mesh_width m + x'" by (rule position [OF assms(1,4,5)])
  have d: "0 \<le> \<bar>x - x'\<bar>" "\<bar>x - x'\<bar> < em_mesh_width m" "0 \<le> \<bar>y - y'\<bar>" "\<bar>y - y'\<bar> < em_mesh_height m" using p q by auto
  note X = axis_hops_bounds [OF d(1,2), of "em_wrap_around m"] and Y = axis_hops_bounds [OF d(3,4), of "em_wrap_around m"]
  show "0 \<le> route_hops m s r" "route_hops m s r \<le> em_mesh_width m + em_mesh_height m - 2"
    using X(1,2) Y(1,2) by (simp_all add: route_hops_def p(1) q(1))
  have "route_hops m s r = 0 \<longleftrightarrow> x = x' \<and> y = y'" using X Y by (auto simp: route_hops_def p(1) q(1))
  also have "... \<longleftrightarrow> y * em_mesh_width m + x = y' * em_mesh_width m + x'"
    using p(2,3) q(2,3) position_div position_mod by metis
  finally show "route_hops m s r = 0 \<longleftrightarrow> s div em_concentration m = r div em_concentration m" using p(6) q(6) by simp
qed

text \<open>One step of dimension-order routing ends on a node that is one hop closer.\<close>

lemma getNextDest_closer:
  assumes g: "grid m" and c: "0 \<le> em_core_id m" "em_core_id m < cores m" "\<not> em_fake_node m"
    and r: "0 \<le> r" "r < cores m" "cores m \<le> ne_application_cores env" and ne: "em_core_id m div em_concentration m \<noteq> r div em_concentration m"
  obtains dir c' where "getNextDest env m r = (dir, c')" "direction_num dir < 4" "0 \<le> c'" "c' < cores m" "c' mod em_concentration m = 0"
    "route_hops m c' r = route_hops m (em_core_id m) r - 1"
proof -
  let ?w = "em_mesh_width m" and ?h = "em_mesh_height m" and ?wr = "em_wrap_around m"
  obtain x y where p: "computePosition m (em_core_id m) = (x, y)" "0 \<le> x" "x < ?w" "0 \<le> y" "y < ?h"
    "em_core_id m div em_concentration m = y * ?w + x" by (rule position [OF g c(1,2)])
  obtain dx dy where q: "computePosition m r = (dx, dy)" "0 \<le> dx" "dx < ?w" "0 \<le> dy" "dy < ?h"
    "r div em_concentration m = dy * ?w + dx" by (rule position [OF g r(1,2)])
  have k: "0 < em_concentration m" "0 < ?w" "0 < ?h" using g by (simp_all add: grid_def)
  have far: "\<not> ne_application_cores env \<le> r" "em_core_id m sdiv em_concentration m \<noteq> r sdiv em_concentration m"
    using r c k ne by (simp_all add: sdiv_nonneg)
  have half: "(?w + 1) sdiv 2 = (?w + 1) div 2" "(?h + 1) sdiv 2 = (?h + 1) div 2" using k by (simp_all add: sdiv_nonneg)
  show ?thesis
  proof (cases "x = dx")
    case False
    let ?x = "axis_next ?wr ?w x dx"
    have n: "\<exists>dir. direction_num dir < 4 \<and> getNextDest env m r = (dir, computeCoreId m ?x y)"
      using False far c(3) by (auto simp: getNextDest_def Let_def p(1) q(1) half axis_next_def)
    have b: "-1 \<le> ?x" "-1 \<le> y" using p by (simp_all add: axis_next_def)
    note I = computeCoreId_position [OF g b refl refl]
    have "route_hops m (computeCoreId m ?x y) r = route_hops m (em_core_id m) r - 1"
      using axis_progress [OF p(2,3) q(2,3) False refl, of ?wr] p(4,5) k by (simp add: route_hops_def I(4) p(1) q(1) mod_pos_pos_trivial)
    then show ?thesis using n I(1-3) by (elim exE conjE) (rule that)
  next
    case True
    then have dy: "y \<noteq> dy" using ne p(6) q(6) by simp
    let ?y = "axis_next ?wr ?h y dy"
    have "0 \<le> (?w + 1) div 2" using k by simp
    then have n: "\<exists>dir. direction_num dir < 4 \<and> getNextDest env m r = (dir, computeCoreId m x ?y)"
      using True dy far c(3) by (auto simp: getNextDest_def Let_def p(1) q(1) half axis_next_def)
    have b: "-1 \<le> x" "-1 \<le> ?y" using p by (simp_all add: axis_next_def)
    note I = computeCoreId_position [OF g b refl refl]
    have "route_hops m (computeCoreId m x ?y) r = route_hops m (em_core_id m) r - 1"
      using axis_progress [OF p(4,5) q(4,5) dy refl, of ?wr] p(2,3) k by (simp add: route_hops_def I(4) p(1) q(1) mod_pos_pos_trivial)
    then show ?thesis using n I(1-3) by (elim exE conjE) (rule that)
  qed
qed

section \<open>Delivery\<close>

text \<open>
  A node of the mesh \<open>p\<close> whose models are enabled and have no queues, and a network in which every core of the mesh has such a node.
\<close>

definition mesh_node :: "NetworkModelEMeshHopByHop \<Rightarrow> core_id_t \<Rightarrow> NetworkModelEMeshHopByHop \<Rightarrow> bool" where
  "mesh_node p c m \<longleftrightarrow> em_core_id m = c \<and> (em_fake_node m \<longleftrightarrow> c mod em_concentration p \<noteq> 0)
     \<and> em_mesh_width m = em_mesh_width p \<and> em_mesh_height m = em_mesh_height p \<and> em_concentration m = em_concentration p
     \<and> em_wrap_around m = em_wrap_around p \<and> em_link_bandwidth m = em_link_bandwidth p \<and> em_hop_latency m = em_hop_latency p
     \<and> em_enabled m \<and> \<not> em_queue_model_enabled m"

definition mesh_net :: "NetworkModelEMeshHopByHop \<Rightarrow> EStaticNetwork \<Rightarrow> net_state \<Rightarrow> bool" where
  "mesh_net p n s \<longleftrightarrow> (\<forall>c. 0 \<le> c \<and> c < cores p \<longrightarrow> (\<exists>m. nm_model (ns_models s c n) = NM_HopByHop m \<and> mesh_node p c m))"

text \<open>A packet that the models accept and account.\<close>

definition mesh_packet :: "net_env \<Rightarrow> NetworkModelEMeshHopByHop \<Rightarrow> WirePacket \<Rightarrow> bool" where
  "mesh_packet env p pkt \<longleftrightarrow> (\<exists>q. pkt_requester env pkt = Inr q \<and> q < ne_application_cores env) \<and> is_ok (net_getModeledLength env pkt)
     \<and> bpc_bits (em_link_bandwidth p) \<noteq> 0"

lemma mesh_node_same:
  assumes "mesh_node p c m"
  shows "grid m = grid p" "cores m = cores p" "computePosition m = computePosition p" "route_hops m = route_hops p"
    "computeDistance m = computeDistance p"
  using assms by (auto simp: mesh_node_def grid_def cores_def computePosition_def route_hops_def computeDistance_def fun_eq_iff)

lemma mesh_packet_update [simp]:
  "mesh_packet env p (pkt\<lparr>np_time := t, np_receiver := r\<rparr>) = mesh_packet env p pkt"
  by (simp add: mesh_packet_def pkt_requester_def net_getModeledLength_def bufferSize_def)

lemma getNextDest_cong:
  assumes "em_core_id m' = em_core_id m" "em_fake_node m' = em_fake_node m" "em_mesh_width m' = em_mesh_width m"
    "em_mesh_height m' = em_mesh_height m" "em_concentration m' = em_concentration m" "em_wrap_around m' = em_wrap_around m"
  shows "getNextDest env m' r = getNextDest env m r"
proof -
  have "computePosition m' = computePosition m" "computeCoreId m' = computeCoreId m"
    using assms by (simp_all add: computePosition_def computeCoreId_def fun_eq_iff)
  then show ?thesis by (simp only: getNextDest_def assms)
qed

lemma mesh_route_quiet:
  assumes m: "mesh_node p c m" "\<not> em_fake_node m" and pkt: "mesh_packet env p pkt" "np_receiver pkt = ToCore r"
    and nx: "getNextDest env m r = (dir, nx)" "direction_num dir \<noteq> 4"
  shows "\<exists>m'. mesh_routePacket env pkt m
      = Inr ([\<lparr>hop_final_dest = ToCore r, hop_next_dest = nx,
               hop_time = np_time pkt + (if direction_num dir < 4 then ComponentLatency_getLatency (ne_periods env) (em_hop_latency p) else 0)\<rparr>], pkt, m')
    \<and> mesh_node p c m'"
proof -
  obtain q len where q: "pkt_requester env pkt = Inr q" "q < ne_application_cores env" "net_getModeledLength env pkt = Inr len"
    using pkt(1) by (auto simp: mesh_packet_def is_ok_iff)
  define m1 where "m1 = (if np_sender pkt = em_core_id m
      then m\<lparr>em_total_packets_sent := em_total_packets_sent m + 1, em_total_bytes_sent := em_total_bytes_sent m + ucast len\<rparr> else m)"
  have m1: "mesh_node p c m1" "\<not> em_fake_node m1" "em_core_id m1 = em_core_id m" using m by (auto simp: m1_def mesh_node_def)
  have "getNextDest env m1 r = getNextDest env m r" by (rule getNextDest_cong) (simp_all add: m1_def)
  then have nx1: "getNextDest env m1 r = (dir, nx)" using nx(1) by simp
  have "bpc_bits (em_link_bandwidth m1) \<noteq> 0" using m1(1) pkt(1) by (simp add: mesh_node_def mesh_packet_def)
  then obtain t where "computeProcessingTime env m1 len = Inr t"
    using m1(2) by (auto simp: computeProcessingTime_def Let_def BandwidthPerCycle_getRoundedLatency_def)
  then have "addHop env dir (ToCore r) nx (np_time pkt) len q m1
      = Inr (\<lparr>hop_final_dest = ToCore r, hop_next_dest = nx,
               hop_time = np_time pkt + (if direction_num dir < 4 then ComponentLatency_getLatency (ne_periods env) (em_hop_latency p) else 0)\<rparr>, 0, m1)"
    using m1 q(2) nx(2) by (auto simp: addHop_def computeLatency_def mesh_node_def logAssertR_def)
  then have "mesh_unicast env r pkt len q m1
      = Inr ([\<lparr>hop_final_dest = ToCore r, hop_next_dest = nx,
               hop_time = np_time pkt + (if direction_num dir < 4 then ComponentLatency_getLatency (ne_periods env) (em_hop_latency p) else 0)\<rparr>], pkt, m1)"
    using m1 nx1 by (simp add: mesh_unicast_def computeInjectionPortQueueDelay_def mesh_node_def)
  then show ?thesis using m1 q pkt(2) by (auto simp: mesh_routePacket_def Let_def m1_def [symmetric])
qed

text \<open>What following a packet leaves unchanged.\<close>

definition same_queues :: "net_state \<Rightarrow> net_state \<Rightarrow> bool" where
  "same_queues s s' \<longleftrightarrow> ns_queues s' = ns_queues s \<and> ns_netQueue s' = ns_netQueue s \<and> ns_delivered s' = ns_delivered s
     \<and> ns_callbacks s' = ns_callbacks s \<and> ns_buses s' = ns_buses s"

lemma set_model_mesh:
  assumes "mesh_net p n s" "mesh_node p c m"
  shows "mesh_net p n (set_model c n (NM_HopByHop m) s)" "same_queues s (set_model c n (NM_HopByHop m) s)"
  using assms by (auto simp: mesh_net_def set_model_def same_queues_def)

lemma route_step:
  assumes g: "grid p" and net: "mesh_net p (g_type_to_static_network_map (np_type pkt)) s" and pkt: "mesh_packet env p pkt" "np_receiver pkt = ToCore r"
    and c: "0 \<le> c" "c < cores p" "c mod em_concentration p = 0" and r: "0 \<le> r" "r < cores p" "cores p \<le> ne_application_cores env"
  obtains nx s' where
    "routePacket env c pkt s = Inr ([\<lparr>hop_final_dest = ToCore r, hop_next_dest = nx,
       hop_time = np_time pkt + (if route_hops p c r = 0 then 0 else ComponentLatency_getLatency (ne_periods env) (em_hop_latency p))\<rparr>], pkt, s')"
    "mesh_net p (g_type_to_static_network_map (np_type pkt)) s'" "same_queues s s'"
    "if route_hops p c r = 0 then nx = r
     else 0 \<le> nx \<and> nx < cores p \<and> nx mod em_concentration p = 0 \<and> route_hops p nx r = route_hops p c r - 1"
proof -
  let ?n = "g_type_to_static_network_map (np_type pkt)" and ?k = "em_concentration p"
  obtain m where m: "nm_model (ns_models s c ?n) = NM_HopByHop m" "mesh_node p c m" using net c by (auto simp: mesh_net_def)
  have f: "\<not> em_fake_node m" "em_core_id m = c" "em_concentration m = ?k" using m(2) c(3) by (simp_all add: mesh_node_def)
  note same = mesh_node_same [OF m(2)]
  have k: "0 < ?k" using g by (simp add: grid_def)
  have h: "route_hops p c r = 0 \<longleftrightarrow> c div ?k = r div ?k" by (rule route_hops_bounds(3) [OF g c(1,2) r(1,2)])
  have "\<exists>dir nx. getNextDest env m r = (dir, nx) \<and> direction_num dir \<noteq> 4 \<and> (direction_num dir < 4 \<longleftrightarrow> route_hops p c r \<noteq> 0)
     \<and> (if route_hops p c r = 0 then nx = r
        else 0 \<le> nx \<and> nx < cores p \<and> nx mod ?k = 0 \<and> route_hops p nx r = route_hops p c r - 1)"
  proof (cases "c div ?k = r div ?k")
    case True
    then have "getNextDest env m r = (DESTINATION, r)" using f c r k by (simp add: getNextDest_def sdiv_nonneg)
    then show ?thesis using True h by simp
  next
    case False
    obtain dir nx where "getNextDest env m r = (dir, nx)" "direction_num dir < 4" "0 \<le> nx" "nx < cores m" "nx mod em_concentration m = 0"
      "route_hops m nx r = route_hops m (em_core_id m) r - 1"
      using getNextDest_closer [of m r env] g c r f False same by metis
    then show ?thesis using False h f same by auto
  qed
  then obtain dir nx where nx: "getNextDest env m r = (dir, nx)" "direction_num dir \<noteq> 4" "direction_num dir < 4 \<longleftrightarrow> route_hops p c r \<noteq> 0"
    "if route_hops p c r = 0 then nx = r
     else 0 \<le> nx \<and> nx < cores p \<and> nx mod ?k = 0 \<and> route_hops p nx r = route_hops p c r - 1"
    by blast
  obtain m' where m': "mesh_routePacket env pkt m = Inr ([\<lparr>hop_final_dest = ToCore r, hop_next_dest = nx,
       hop_time = np_time pkt + (if route_hops p c r = 0 then 0 else ComponentLatency_getLatency (ne_periods env) (em_hop_latency p))\<rparr>], pkt, m')"
    "mesh_node p c m'"
    using mesh_route_quiet [OF m(2) f(1) pkt nx(1,2)] nx(3) by (auto split: if_splits)
  have "routePacket env c pkt s = Inr ([\<lparr>hop_final_dest = ToCore r, hop_next_dest = nx,
       hop_time = np_time pkt + (if route_hops p c r = 0 then 0 else ComponentLatency_getLatency (ne_periods env) (em_hop_latency p))\<rparr>], pkt,
       set_model c ?n (NM_HopByHop m') s)"
    using m(1) m'(1) by (simp add: routePacket_def Let_def)
  then show ?thesis using that set_model_mesh [OF net m'(2)] nx(4) by blast
qed

lemma same_queues_refl [simp]: "same_queues s s"
  by (simp add: same_queues_def)

lemma same_queues_trans: "same_queues s s1 \<Longrightarrow> same_queues s1 s2 \<Longrightarrow> same_queues s s2"
  by (simp add: same_queues_def)

declare follow_hops.simps [simp del]

text \<open>Following a packet ends at its receiver; each link takes the latency of one hop.\<close>

lemma follow_hops_delivers:
  assumes g: "grid p" and r: "0 \<le> r" "r < cores p" "cores p \<le> ne_application_cores env"
    and "mesh_net p (g_type_to_static_network_map (np_type pkt)) s" "mesh_packet env p pkt"
    and "0 \<le> c" "c < cores p" "c mod em_concentration p = 0 \<or> c = r" "nat (route_hops p c r) < fuel"
  shows "\<exists>pkt' s'. follow_hops fuel env \<lparr>hop_final_dest = ToCore r, hop_next_dest = c, hop_time = t\<rparr> pkt s
      = Inr (\<lparr>hop_final_dest = ToCore r, hop_next_dest = r,
              hop_time = t + of_int (route_hops p c r) * ComponentLatency_getLatency (ne_periods env) (em_hop_latency p)\<rparr>, pkt', s')
    \<and> same_queues s s'"
  using assms(5-)
proof (induction "nat (route_hops p c r)" arbitrary: c t pkt s fuel rule: less_induct)
  case less
  let ?L = "ComponentLatency_getLatency (ne_periods env) (em_hop_latency p)"
  show ?case
  proof (cases "c = r")
    case True
    then show ?thesis using route_hops_bounds(3) [OF g r(1,2) r(1,2)] by (auto simp: follow_hops.simps)
  next
    case False
    then have ck: "c mod em_concentration p = 0" using less.prems(5) by simp
    let ?pkt = "pkt\<lparr>np_time := t, np_receiver := ToCore r\<rparr>"
    obtain n where n: "fuel = Suc n" using less.prems(6) by (cases fuel) auto
    have P: "mesh_packet env p ?pkt" "np_receiver ?pkt = ToCore r" using less.prems(2) by simp_all
    obtain nx s1 where 1: "routePacket env c ?pkt s = Inr ([\<lparr>hop_final_dest = ToCore r, hop_next_dest = nx,
        hop_time = t + (if route_hops p c r = 0 then 0 else ?L)\<rparr>], ?pkt, s1)"
      "mesh_net p (g_type_to_static_network_map (np_type pkt)) s1" "same_queues s s1"
      "if route_hops p c r = 0 then nx = r
       else 0 \<le> nx \<and> nx < cores p \<and> nx mod em_concentration p = 0 \<and> route_hops p nx r = route_hops p c r - 1"
      using route_step [OF g _ P less.prems(3,4) ck r] less.prems(1) by auto
    then have f: "follow_hops fuel env \<lparr>hop_final_dest = ToCore r, hop_next_dest = c, hop_time = t\<rparr> pkt s
        = follow_hops n env \<lparr>hop_final_dest = ToCore r, hop_next_dest = nx, hop_time = t + (if route_hops p c r = 0 then 0 else ?L)\<rparr> ?pkt s1"
      using False by (simp add: n follow_hops.simps [of "Suc n"])
    show ?thesis
    proof (cases "route_hops p c r = 0")
      case True
      then show ?thesis using f 1(3,4) by (auto simp: follow_hops.simps [of n])
    next
      case far: False
      then have nx: "0 \<le> nx" "nx < cores p" "nx mod em_concentration p = 0" "route_hops p nx r = route_hops p c r - 1" using 1(4) by simp_all
      have "0 \<le> route_hops p c r" "0 \<le> route_hops p nx r" using route_hops_bounds(1) [OF g _ _ r(1,2)] less.prems(3,4) nx(1,2) by simp_all
      then have d: "nat (route_hops p nx r) < nat (route_hops p c r)" "nat (route_hops p nx r) < n"
        using nx(4) far less.prems(6) n by simp_all
      have "t + ?L + of_int (route_hops p nx r) * ?L = t + of_int (route_hops p c r) * ?L" by (simp add: nx(4) algebra_simps)
      then show ?thesis
        using less.hyps [OF d(1) _ _ nx(1,2) _ d(2), where pkt = ?pkt and s = s1 and t = "t + ?L"] 1(2,3) P(1) nx(3) f far
        by (auto intro: same_queues_trans)
    qed
  qed
qed

text \<open>Where the chosen direction is the shorter one, the route is as long as the distance.\<close>

lemma axis_hops_distance:
  "axis_hops wrap n d = (if wrap then min d (n - d) else d)" if "even n \<or> \<not> wrap" "0 \<le> d" "d < n"
  using that by (auto simp: axis_hops_def elim!: evenE)

lemma route_hops_distance:
  assumes "grid p" "0 \<le> s" "s < cores p" "0 \<le> r" "r < cores p" and even: "em_wrap_around p \<Longrightarrow> even (em_mesh_width p) \<and> even (em_mesh_height p)"
  shows "route_hops p s r = computeDistance p s r"
proof -
  obtain x y where p: "computePosition p s = (x, y)" "0 \<le> x" "x < em_mesh_width p" "0 \<le> y" "y < em_mesh_height p"
    by (rule position [OF assms(1-3)])
  obtain x' y' where q: "computePosition p r = (x', y')" "0 \<le> x'" "x' < em_mesh_width p" "0 \<le> y'" "y' < em_mesh_height p"
    by (rule position [OF assms(1,4,5)])
  have "\<bar>x - x'\<bar> < em_mesh_width p" "\<bar>y - y'\<bar> < em_mesh_height p" using p q by auto
  then show ?thesis using even axis_hops_distance [of "em_mesh_width p" "em_wrap_around p" "\<bar>x - x'\<bar>"]
      axis_hops_distance [of "em_mesh_height p" "em_wrap_around p" "\<bar>y - y'\<bar>"]
    by (auto simp: route_hops_def computeDistance_def p(1) q(1))
qed

text \<open>The traffic matrix, where it is collected, has a row for every core and one for broadcasts.\<close>

definition matrix_ok :: "net_env \<Rightarrow> NetworkModel \<Rightarrow> bool" where
  "matrix_ok env m = (\<forall>mat. nm_matrix m = Some mat \<longrightarrow> int (length mat) = ne_total_cores env + 1)"

lemma countPacket_ok:
  assumes "matrix_ok env m" "is_ok (net_getModeledLength env pkt)" "np_receiver pkt = ToCore r" "0 \<le> r" "r < ne_total_cores env"
  shows "\<exists>m'. countPacket env pkt m = Inr m' \<and> nm_model m' = nm_model m"
proof (cases "nm_matrix m")
  case (Some mat)
  obtain len where "net_getModeledLength env pkt = Inr len" using assms(2) by (auto simp: is_ok_iff)
  then show ?thesis using Some assms(1,3-) by (auto simp: countPacket_def matrix_ok_def)
qed (simp add: countPacket_def)

lemma netSend_delivers:
  assumes g: "grid p" and cores: "cores p \<le> ne_application_cores env" "cores p \<le> ne_total_cores env"
    and net: "mesh_net p (g_type_to_static_network_map (np_type pkt)) s" "matrix_ok env (ns_models s c (g_type_to_static_network_map (np_type pkt)))"
    and pkt: "mesh_packet env p pkt" "np_sender pkt = c" "np_receiver pkt = ToCore r"
    and c: "0 \<le> c" "c < cores p" "c mod em_concentration p = 0" and r: "0 \<le> r" "r < cores p"
  shows "\<exists>pkt' s'. netSend (nat (em_mesh_width p + em_mesh_height p)) env c pkt s = Inr (np_length pkt', pkt', s')
    \<and> ns_queues s' = (ns_queues s)(r := ns_queues s r @ [pkt\<lparr>np_start_time := np_time pkt,
        np_time := np_time pkt + of_int (route_hops p c r) * ComponentLatency_getLatency (ne_periods env) (em_hop_latency p)\<rparr>])"
proof -
  let ?n = "g_type_to_static_network_map (np_type pkt)" and ?L = "ComponentLatency_getLatency (ne_periods env) (em_hop_latency p)"
  obtain m where m: "countPacket env pkt (ns_models s c ?n) = Inr m" "nm_model m = nm_model (ns_models s c ?n)"
    using countPacket_ok [OF net(2) _ pkt(3) r(1)] pkt(1) r(2) cores(2) by (auto simp: mesh_packet_def)
  define s0 where "s0 = s\<lparr>ns_models := (ns_models s)(c := (ns_models s c)(?n := m))\<rparr>"
  have s0: "mesh_net p ?n s0" "ns_queues s0 = ns_queues s" using net(1) m(2) by (auto simp: mesh_net_def s0_def)
  obtain nx s1 where 1: "routePacket env c pkt s0 = Inr ([\<lparr>hop_final_dest = ToCore r, hop_next_dest = nx,
       hop_time = np_time pkt + (if route_hops p c r = 0 then 0 else ?L)\<rparr>], pkt, s1)"
    "mesh_net p ?n s1" "same_queues s0 s1"
    "if route_hops p c r = 0 then nx = r
     else 0 \<le> nx \<and> nx < cores p \<and> nx mod em_concentration p = 0 \<and> route_hops p nx r = route_hops p c r - 1"
    by (rule route_step [OF g s0(1) pkt(1,3) c r cores(1)])
  have nx: "0 \<le> nx" "nx < cores p" "nx mod em_concentration p = 0 \<or> nx = r" using 1(4) r by (auto split: if_splits)
  have "0 < em_mesh_width p" "0 < em_mesh_height p" using g by (simp_all add: grid_def)
  then have fuel: "nat (route_hops p nx r) < nat (em_mesh_width p + em_mesh_height p)" using route_hops_bounds(2) [OF g nx(1,2) r] by simp
  have time: "np_time pkt + (if route_hops p c r = 0 then 0 else ?L) + of_int (route_hops p nx r) * ?L = np_time pkt + of_int (route_hops p c r) * ?L"
    using 1(4) route_hops_bounds(3) [OF g r r] by (auto simp: algebra_simps split: if_splits)
  obtain pkt' s2 where 2: "follow_hops (nat (em_mesh_width p + em_mesh_height p)) env \<lparr>hop_final_dest = ToCore r, hop_next_dest = nx,
       hop_time = np_time pkt + (if route_hops p c r = 0 then 0 else ?L)\<rparr> pkt s1
      = Inr (\<lparr>hop_final_dest = ToCore r, hop_next_dest = r, hop_time = np_time pkt + of_int (route_hops p c r) * ?L\<rparr>, pkt', s2)"
    "same_queues s1 s2"
    using follow_hops_delivers [OF g r cores(1) 1(2) pkt(1) nx fuel] time by metis
  have "ns_queues s2 = ns_queues s" using 1(3) 2(2) s0(2) by (simp add: same_queues_def)
  then show ?thesis using m(1) 1(1) 2(1) r cores(2) pkt
    by (auto simp: netSend_def Let_def s0_def [symmetric] transport_send_def)
qed

text \<open>A core that is not the master of its node hands its packets to the receiver without a link.\<close>

lemma netSend_peer_delivers:
  assumes g: "grid p" and cores: "cores p \<le> ne_total_cores env"
    and net: "mesh_net p (g_type_to_static_network_map (np_type pkt)) s" "matrix_ok env (ns_models s c (g_type_to_static_network_map (np_type pkt)))"
    and pkt: "mesh_packet env p pkt" "np_sender pkt = c" "np_receiver pkt = ToCore r"
    and c: "0 \<le> c" "c < cores p" "c mod em_concentration p \<noteq> 0" and r: "0 \<le> r" "r < cores p"
  shows "\<exists>pkt' s'. netSend fuel env c pkt s = Inr (np_length pkt', pkt', s')
    \<and> ns_queues s' = (ns_queues s)(r := ns_queues s r @ [pkt\<lparr>np_start_time := np_time pkt\<rparr>])"
proof -
  let ?n = "g_type_to_static_network_map (np_type pkt)"
  obtain m where m: "countPacket env pkt (ns_models s c ?n) = Inr m" "nm_model m = nm_model (ns_models s c ?n)"
    using countPacket_ok [OF net(2) _ pkt(3) r(1)] pkt(1) r(2) cores by (auto simp: mesh_packet_def)
  obtain e where e: "nm_model (ns_models s c ?n) = NM_HopByHop e" "mesh_node p c e" using net(1) c by (auto simp: mesh_net_def)
  obtain q len where q: "pkt_requester env pkt = Inr q" "net_getModeledLength env pkt = Inr len"
    using pkt(1) by (auto simp: mesh_packet_def is_ok_iff)
  have fake: "em_fake_node e" using e(2) c(3) by (simp add: mesh_node_def)
  obtain e' where "mesh_routePacket env pkt e = Inr ([\<lparr>hop_final_dest = ToCore r, hop_next_dest = r, hop_time = np_time pkt\<rparr>], pkt, e')"
    using q fake pkt(3) by (cases "np_sender pkt = em_core_id e") (simp_all add: mesh_routePacket_def addHop_def Let_def)
  then show ?thesis using m e(1) pkt r cores
    by (auto simp: netSend_def Let_def routePacket_def set_model_def transport_send_def follow_hops.simps)
qed

text \<open>The number of links a packet crosses, against the distance: an odd ring may cost one more.\<close>

lemma axis_hops_near:
  assumes "0 \<le> d" "d < n"
  shows "(if wrap then min d (n - d) else d) \<le> axis_hops wrap n d" "axis_hops wrap n d \<le> (if wrap then min d (n - d) else d) + 1"
  using assms by (auto simp: axis_hops_def min_def)

lemma route_hops_near:
  assumes "grid p" "0 \<le> s" "s < cores p" "0 \<le> r" "r < cores p"
  shows "computeDistance p s r \<le> route_hops p s r \<and> route_hops p s r \<le> computeDistance p s r + 2"
proof -
  obtain x y where p: "computePosition p s = (x, y)" "0 \<le> x" "x < em_mesh_width p" "0 \<le> y" "y < em_mesh_height p"
    by (rule position [OF assms(1-3)])
  obtain x' y' where q: "computePosition p r = (x', y')" "0 \<le> x'" "x' < em_mesh_width p" "0 \<le> y'" "y' < em_mesh_height p"
    by (rule position [OF assms(1,4,5)])
  have b: "\<bar>x - x'\<bar> < em_mesh_width p" "\<bar>y - y'\<bar> < em_mesh_height p" using p q by auto
  let ?d = "\<lambda>n k :: int. if em_wrap_around p then min k (n - k) else k"
  have "computeDistance p s r = ?d (em_mesh_width p) \<bar>x - x'\<bar> + ?d (em_mesh_height p) \<bar>y - y'\<bar>"
    by (simp add: computeDistance_def p(1) q(1))
  moreover have "route_hops p s r = axis_hops (em_wrap_around p) (em_mesh_width p) \<bar>x - x'\<bar> + axis_hops (em_wrap_around p) (em_mesh_height p) \<bar>y - y'\<bar>"
    by (simp add: route_hops_def p(1) q(1))
  moreover note axis_hops_near [OF abs_ge_zero b(1), of "em_wrap_around p"] axis_hops_near [OF abs_ge_zero b(2), of "em_wrap_around p"]
  ultimately show ?thesis by linarith
qed

text \<open>
  C16: With the queue models off, a unicast packet from any core to any core always arrives, in a mesh as well as in a torus, within as many routing
  steps as the mesh has rows and columns: exactly the receiver gets it, unchanged but for its times. A packet of the master of a node is charged the
  latency of a hop for each link it crosses; it crosses as many as the distance of the two cores in a mesh and in a torus with an even number of rows
  and of columns, and at most two more otherwise. A packet of a core that is not the master of its node is charged nothing.
\<close>

theorem mesh_send_delivers:
  assumes "grid p" and "cores p \<le> ne_application_cores env" and "cores p \<le> ne_total_cores env"
    and "mesh_net p (g_type_to_static_network_map (np_type pkt)) s" and "matrix_ok env (ns_models s c (g_type_to_static_network_map (np_type pkt)))"
    and "mesh_packet env p pkt" and "np_sender pkt = c" and "np_receiver pkt = ToCore r"
    and "0 \<le> c" and "c < cores p" and "0 \<le> r" and "r < cores p"
  shows "\<exists>pkt' s' hops. netSend (nat (em_mesh_width p + em_mesh_height p)) env c pkt s = Inr (np_length pkt', pkt', s')
    \<and> ns_queues s' = (ns_queues s)(r := ns_queues s r @ [pkt\<lparr>np_start_time := np_time pkt,
        np_time := np_time pkt + of_int hops * ComponentLatency_getLatency (ne_periods env) (em_hop_latency p)\<rparr>])
    \<and> (if c mod em_concentration p \<noteq> 0 then hops = 0
       else computeDistance p c r \<le> hops \<and> hops \<le> computeDistance p c r + 2
         \<and> (\<not> em_wrap_around p \<or> even (em_mesh_width p) \<and> even (em_mesh_height p) \<longrightarrow> hops = computeDistance p c r))"
proof (cases "c mod em_concentration p = 0")
  case True
  have "\<not> em_wrap_around p \<or> even (em_mesh_width p) \<and> even (em_mesh_height p) \<longrightarrow> route_hops p c r = computeDistance p c r"
    using route_hops_distance [OF assms(1,9-12)] by blast
  with True netSend_delivers [OF assms(1-10) True assms(11,12)] route_hops_near [OF assms(1,9-12)]
  show ?thesis by (simp only: if_False simp_thms) blast
next
  case False
  have "pkt\<lparr>np_start_time := np_time pkt\<rparr> = pkt\<lparr>np_start_time := np_time pkt,
      np_time := np_time pkt + of_int 0 * ComponentLatency_getLatency (ne_periods env) (em_hop_latency p)\<rparr>" by simp
  then show ?thesis using netSend_peer_delivers [OF assms(1,3-10) False assms(11,12)] False by metis
qed

text \<open>In a ring of five nodes a packet takes three hops to a node at distance two.\<close>

lemma odd_ring_detour:
  assumes "em_mesh_width p = 5" "em_mesh_height p = 1" "em_concentration p = 1" "em_wrap_around p"
  shows "route_hops p 0 3 = 3" "computeDistance p 0 3 = 2"
  using assms by (simp_all add: route_hops_def computeDistance_def computePosition_def axis_hops_def sdiv_nonneg smod_nonneg)

text \<open>
  C23: The configuration says that without queue models the mesh degrades into a hop counter. It does: for a mesh without wrap-around and with one core per node, a packet that is
  sent to and received by another core has been charged exactly the latency that the hop counter with the same width, hop latency and bandwidth computes, and no contention
  is counted.
\<close>

theorem mesh_degrades_to_hop_counter:
  assumes "grid p" and "cores p \<le> ne_application_cores env" and "cores p \<le> ne_total_cores env"
    and "mesh_net p (g_type_to_static_network_map (np_type pkt)) s" and "matrix_ok env (ns_models s c (g_type_to_static_network_map (np_type pkt)))"
    and "mesh_packet env p pkt" and "np_sender pkt = c" and "np_receiver pkt = ToCore r"
    and "0 \<le> c" and "c < cores p" and "0 \<le> r" and "r < cores p" and "c \<noteq> r" and "em_concentration p = 1" and "\<not> em_wrap_around p"
    and "hc_meshWidth m = em_mesh_width p" and "hc_hopLatency m = em_hop_latency p" and "hc_linkBandwidth m = em_link_bandwidth p"
    and "mesh_node p r node"
  shows "\<exists>pkt' s' x x' node'. netSend (nat (em_mesh_width p + em_mesh_height p)) env c pkt s = Inr (np_length pkt', pkt', s')
    \<and> ns_queues s' = (ns_queues s)(r := ns_queues s r @ [x])
    \<and> mesh_processReceivedPacket env x node = Inr (x', node')
    \<and> HopCounter_routePacket env pkt m = Inr [direct_hop (np_time x') r]
    \<and> em_total_contention_delay node' = em_total_contention_delay node"
proof -
  let ?L = "ComponentLatency_getLatency (ne_periods env) (em_hop_latency p)"
  define x where "x = pkt\<lparr>np_start_time := np_time pkt, np_time := np_time pkt + of_int (computeDistance p c r) * ?L\<rparr>"
  have hops: "route_hops p c r = computeDistance p c r" using route_hops_distance [OF assms(1,9,10,11,12)] assms(15) by blast
  have send: "\<exists>pkt' s'. netSend (nat (em_mesh_width p + em_mesh_height p)) env c pkt s = Inr (np_length pkt', pkt', s')
     \<and> ns_queues s' = (ns_queues s)(r := ns_queues s r @ [x])"
    using netSend_delivers [OF assms(1-10) _ assms(11,12)] assms(14) by (simp add: x_def hops)
  obtain q len where q: "pkt_requester env pkt = Inr q" "q < ne_application_cores env" "net_getModeledLength env pkt = Inr len"
    using assms(6) by (auto simp: mesh_packet_def is_ok_iff)
  have "pkt_requester env x = pkt_requester env pkt" "net_getModeledLength env x = net_getModeledLength env pkt"
    by (simp_all add: x_def pkt_requester_def net_getModeledLength_def bufferSize_def)
  then have qx: "pkt_requester env x = Inr q" "net_getModeledLength env x = Inr len" using q by simp_all
  have node: "em_core_id node = r" "\<not> em_fake_node node" "em_enabled node" "\<not> em_queue_model_enabled node" "em_hop_latency node = em_hop_latency p"
    "em_link_bandwidth node = em_link_bandwidth p" "computeDistance node c r = computeDistance p c r"
    using assms(14,19) mesh_node_same [OF assms(19)] by (simp_all add: mesh_node_def)
  obtain t where t: "computeProcessingTime env node len = Inr t" "computeSerializationLatency env m len = Inr t"
    using node assms(6,18)
    by (auto simp: computeProcessingTime_def computeSerializationLatency_def BandwidthPerCycle_getRoundedLatency_def mesh_packet_def Let_def)
  have "hc_computeDistance (hc_computePosition m c) (hc_computePosition m r) = computeDistance p c r"
    using assms(9,11,14-16) by (simp add: hc_computeDistance_def hc_computePosition_def computeDistance_def computePosition_def sdiv_nonneg)
  then have hc: "HopCounter_routePacket env pkt m = Inr [direct_hop (np_time pkt + (of_int (computeDistance p c r) * ?L + t)) r]"
    using q(3) t(2) assms(7,8,13,17) by (simp add: HopCounter_routePacket_def hc_latency_def)
  have "\<exists>x' node'. mesh_processReceivedPacket env x node = Inr (x', node')
      \<and> np_time x' = np_time pkt + (of_int (computeDistance p c r) * ?L + t) \<and> em_total_contention_delay node' = em_total_contention_delay node"
    using qx q(2) node t(1) assms(2,7,12,13)
    by (simp add: mesh_processReceivedPacket_def Let_def computeEjectionPortQueueDelay_def x_def add.assoc)
  then show ?thesis using send hc by metis
qed

section \<open>Broadcasts over the tree\<close>

lemma processReceivedPacket_queues:
  "processReceivedPacket env c pkt s = Inr (pkt', s') \<Longrightarrow> ns_queues s' = ns_queues s"
  by (auto simp: processReceivedPacket_def Let_def set_model_def split: net_model.splits)

lemma routePacket_queues:
  "routePacket env c pkt s = Inr (hs, pkt', s') \<Longrightarrow> ns_queues s' = ns_queues s"
  by (auto simp: routePacket_def Let_def set_model_def split: net_model.splits)

lemma follow_hops_queues:
  "follow_hops fuel env hop pkt s = Inr (hop', pkt', s') \<Longrightarrow>
     ns_queues s' = ns_queues s \<and> (hop_final_dest hop = BROADCAST \<longrightarrow> hop_final_dest hop' = BROADCAST)"
proof (induction fuel arbitrary: hop pkt s)
  case 0
  then show ?case by (auto simp: follow_hops.simps [of 0] split: net_receiver.splits if_splits)
next
  case (Suc fuel)
  show ?case
  proof (cases "hop_final_dest hop")
    case (ToCore d)
    then show ?thesis using Suc.prems
      by (auto simp: follow_hops.simps [of "Suc fuel"] dest!: Suc.IH routePacket_queues split: if_splits)
  next
    case BROADCAST
    then show ?thesis using Suc.prems by (auto simp: follow_hops.simps [of "Suc fuel"])
  qed
qed

text \<open>A broadcast packet is in one of the queues of the transport.\<close>

definition in_flight :: "net_state \<Rightarrow> bool" where
  "in_flight s = (\<exists>c. \<exists>x \<in> set (ns_queues s c). np_receiver x = BROADCAST)"

lemma send_hops_grows:
  "send_hops fuel env c t buffer hops pkt s = Inr (pkt', s') \<Longrightarrow>
     (\<forall>c. set (ns_queues s c) \<subseteq> set (ns_queues s' c)) \<and> (BROADCAST \<in> hop_final_dest ` set hops \<longrightarrow> in_flight s')"
proof (induction hops arbitrary: buffer pkt s)
  case (Cons hop hops)
  obtain hop1 pkt1 s1 where 1: "follow_hops fuel env hop pkt s = Inr (hop1, pkt1, s1)" using Cons.prems by auto
  define b where "b = (if np_sender buffer = c then buffer\<lparr>np_start_time := t\<rparr> else buffer)\<lparr>np_time := hop_time hop1, np_receiver := hop_final_dest hop1\<rparr>"
  define s2 where "s2 = s1\<lparr>ns_queues := (ns_queues s1)(hop_next_dest hop1 := ns_queues s1 (hop_next_dest hop1) @ [b])\<rparr>"
  have 2: "send_hops fuel env c t b hops pkt1 s2 = Inr (pkt', s')"
    using Cons.prems 1 by (auto simp: Let_def b_def s2_def transport_send_def split: if_splits)
  note q = follow_hops_queues [OF 1] and I = Cons.IH [OF 2]
  have sub: "set (ns_queues s d) \<subseteq> set (ns_queues s2 d)" for d using q by (auto simp: s2_def)
  have "in_flight s'" if "hop_final_dest hop = BROADCAST"
  proof -
    have "b \<in> set (ns_queues s2 (hop_next_dest hop1))" "np_receiver b = BROADCAST" using q that by (simp_all add: s2_def b_def)
    then show ?thesis using I unfolding in_flight_def by blast
  qed
  then show ?case using I sub by fastforce
qed simp

lemma addHops_final: "addHops env ds t len q m = Inr (hs, m') \<Longrightarrow> map hop_final_dest hs = map (fst \<circ> snd) ds"
  by (induction ds arbitrary: m hs m') (auto simp: addHop_def)

text \<open>At every node the tree has a branch.\<close>

lemma broadcast_tree_continues:
  assumes "mesh_routePacket env pkt m = Inr (hs, pkt', m')" "np_receiver pkt = BROADCAST" "\<not> em_fake_node m" "em_broadcast_tree_enabled m"
  shows "BROADCAST \<in> hop_final_dest ` set hs"
proof -
  obtain m1 t len q where h: "addHops env (broadcast_tree m1 (np_sender pkt)) t len q m1 = Inr (hs, m')"
    using assms by (auto simp: mesh_routePacket_def mesh_broadcast_def Let_def split: if_splits)
  obtain sx sy cx cy where "computePosition m1 (np_sender pkt) = (sx, sy)" "computePosition m1 (em_core_id m1) = (cx, cy)" by fastforce
  then have "BROADCAST \<in> (fst \<circ> snd) ` set (broadcast_tree m1 (np_sender pkt))"
    by (cases "cy \<ge> sy") (simp_all add: broadcast_tree_def Let_def)
  then show ?thesis using addHops_final [OF h] by (metis list.set_map)
qed

lemma netSend_flood:
  assumes send: "netSend fuel env c pkt s = Inr (l, pkt', s')" and pkt: "np_receiver pkt = BROADCAST"
    and m: "nm_model (ns_models s c (g_type_to_static_network_map (np_type pkt))) = NM_HopByHop m" "\<not> em_fake_node m" "em_broadcast_tree_enabled m"
  shows "in_flight s'"
proof -
  let ?n = "g_type_to_static_network_map (np_type pkt)"
  obtain m0 hops pkt1 s1 where 1: "countPacket env pkt (ns_models s c ?n) = Inr m0"
    "routePacket env c pkt (s\<lparr>ns_models := (ns_models s)(c := (ns_models s c)(?n := m0))\<rparr>) = Inr (hops, pkt1, s1)"
    "send_hops fuel env c (np_time pkt1) pkt1 hops pkt1 s1 = Inr (pkt', s')"
    using send by (auto simp: netSend_def Let_def)
  have "nm_model m0 = nm_model (ns_models s c ?n)"
    using 1(1) by (auto simp: countPacket_def Let_def split: option.splits if_splits)
  then obtain m' where "mesh_routePacket env pkt m = Inr (hops, pkt1, m')" using 1(2) m(1) by (auto simp: routePacket_def Let_def)
  from broadcast_tree_continues [OF this pkt m(2,3)] show ?thesis using send_hops_grows [OF 1(3)] by blast
qed

lemma netSend_grows:
  "netSend fuel env c pkt s = Inr (l, pkt', s') \<Longrightarrow> set (ns_queues s d) \<subseteq> set (ns_queues s' d)"
  by (auto simp: netSend_def Let_def dest!: send_hops_grows routePacket_queues) blast+

lemma accept_packet_queues: "accept_packet env c pkt s = Inr s' \<Longrightarrow> ns_queues s' = ns_queues s"
  by (auto simp: accept_packet_def dest!: processReceivedPacket_queues split: if_splits)

text \<open>
  With the broadcast tree enabled a broadcast never ends. The coordinates of the next node wrap around at the border of the mesh, also where the mesh has no
  such links, and every node has a branch for every sender: however the cores take packets from their queues, as long as no call fails
  there is always another copy of the broadcast on its way.
\<close>

theorem broadcast_tree_never_ends:
  assumes "in_flight s" and "pull_one fuel env c s = Inr s'"
    and "\<And>n. \<exists>m. nm_model (ns_models s c n) = NM_HopByHop m \<and> \<not> em_fake_node m \<and> em_broadcast_tree_enabled m"
  shows "in_flight s'"
proof (cases "ns_queues s c")
  case Nil
  then show ?thesis using assms(1,2) by (simp add: pull_one_def)
next
  case (Cons pkt rest)
  define s0 where "s0 = s\<lparr>ns_queues := (ns_queues s)(c := rest)\<rparr>"
  consider (own) "np_receiver pkt = ToCore c" "accept_packet env c pkt s0 = Inr s'"
    | (sent) l pkt1 s1 where "netSend fuel env c pkt s0 = Inr (l, pkt1, s1)" "s' = s1 \<or> accept_packet env c pkt1 s1 = Inr s'"
    using assms(2) Cons by (auto simp: pull_one_def s0_def Let_def split: if_splits)
  then have sub: "in_flight s0 \<Longrightarrow> in_flight s'"
  proof cases
    case own
    then show "in_flight s0 \<Longrightarrow> in_flight s'" using accept_packet_queues by (auto simp: in_flight_def)
  next
    case sent
    then show "in_flight s0 \<Longrightarrow> in_flight s'" using netSend_grows [OF sent(1)] accept_packet_queues unfolding in_flight_def by fastforce
  qed
  show ?thesis
  proof (cases "np_receiver pkt = BROADCAST")
    case True
    then obtain l pkt1 s1 where s1: "netSend fuel env c pkt s0 = Inr (l, pkt1, s1)" "s' = s1 \<or> accept_packet env c pkt1 s1 = Inr s'"
      using assms(2) Cons by (auto simp: pull_one_def s0_def Let_def split: if_splits)
    obtain m where "nm_model (ns_models s0 c (g_type_to_static_network_map (np_type pkt))) = NM_HopByHop m" "\<not> em_fake_node m" "em_broadcast_tree_enabled m"
      using assms(3) by (auto simp: s0_def)
    then have "in_flight s1" using netSend_flood [OF s1(1) True] by blast
    then show ?thesis using s1(2) accept_packet_queues [of env c pkt1 s1 s'] unfolding in_flight_def by (elim disjE) simp_all
  next
    case False
    then have "in_flight s0" using assms(1) Cons by (auto simp: in_flight_def s0_def) (metis list.set_intros(2) set_ConsD)
    then show ?thesis by (rule sub)
  qed
qed

section \<open>Memory controllers\<close>

lemma perimeter_distinct:
  assumes "0 < w" "0 < h" "2 \<le> w \<or> h \<le> 2"
  shows "distinct (perimeter d w h)"
proof -
  have row: "(h - 1) * w = h * w - w" by (simp add: left_diff_distrib)
  have mid: "w \<le> i * w" "i * w + w - 1 < (h - 1) * w" if "i \<in> {1..h - 2}" for i
  proof -
    have "1 * w \<le> i * w" "(i + 1) * w \<le> (h - 1) * w" using that assms(1) by (auto intro!: mult_right_mono)
    then show "w \<le> i * w" "i * w + w - 1 < (h - 1) * w" by (simp_all add: distrib_right)
  qed
  have inj: "inj_on (\<lambda>i. i * w + w - 1) A" "inj_on (\<lambda>i. (h - 1) * w + i) A" "inj_on (\<lambda>i. i * w) A" for A using assms(1) by (auto intro!: inj_onI)
  have lr: "i * w + w - 1 \<noteq> j * w" if "i \<in> {1..h - 2}" for i j
  proof
    assume "i * w + w - 1 = j * w"
    then have "(i * w + (w - 1)) mod w = (j * w) mod w" by (simp add: add_diff_eq)
    then have "w - 1 = 0" using assms(1) position_mod [of "w - 1" w i] by simp
    then show False using assms(3) that by auto
  qed
  have bot: "w \<le> (h - 1) * w" if "1 < h"
  proof -
    have "1 * w \<le> (h - 1) * w" using that assms(1) by (intro mult_right_mono) auto
    then show ?thesis by simp
  qed
  define R B L where "R = map (\<lambda>i. i * w + w - 1) [1..h - 2]" and "B = map (\<lambda>i. (h - 1) * w + i) (rev [0..w - 1])"
    and "L = map (\<lambda>i. i * w) (rev [1..h - 2])"
  have d: "distinct R" "distinct B" "distinct L" using inj by (simp_all add: R_def B_def L_def distinct_map)
  have sets: "\<forall>c \<in> set R. w \<le> c \<and> c < (h - 1) * w" "\<forall>c \<in> set L. w \<le> c \<and> c < (h - 1) * w" "\<forall>c \<in> set B. (h - 1) * w \<le> c"
    using mid assms(1) by (fastforce simp: R_def L_def B_def)+
  have "set R \<inter> set L = {}" using lr by (auto simp: R_def L_def)
  moreover have "set R \<inter> set B = {}" "set B \<inter> set L = {}" using sets by force+
  moreover have "set [0..w - 1] \<inter> (set R \<union> set B \<union> set L) = {}" if "1 < h" using sets bot [OF that] by fastforce
  moreover have "perimeter d w h = [0..w - 1] @ (if d > 1 \<and> h > 1 then R @ B @ L else [])" by (simp add: perimeter_def R_def B_def L_def)
  ultimately show ?thesis using d by (auto simp del: set_upto)
qed

lemma perimeter_bounds:
  assumes "0 < w" "0 < h" "c \<in> set (perimeter d w h)"
  shows "0 \<le> c" "c < w * h"
proof -
  have wh: "w * 1 \<le> w * h" using assms(1,2) by (intro mult_left_mono) auto
  have row: "i * w + w - 1 < w * h" "0 \<le> i * w" if "1 \<le> i" "i \<le> h - 2" for i
  proof -
    have "w * (i + 1) \<le> w * h" using that assms(1) by (intro mult_left_mono) auto
    then show "i * w + w - 1 < w * h" "0 \<le> i * w" using assms(1) that by (simp_all add: distrib_left mult.commute)
  qed
  have below: "0 \<le> c \<and> c < w * h" if "0 \<le> c - (h - 1) * w" "c - (h - 1) * w < w"
    using that mult.commute [of h w] wh unfolding left_diff_distrib mult_1 mult_1_right by linarith
  consider (top) "0 \<le> c" "c < w" | (mid) i where "1 \<le> i" "i \<le> h - 2" "c = i * w + w - 1 \<or> c = i * w"
    | (bot) "0 \<le> c - (h - 1) * w" "c - (h - 1) * w < w"
    using assms(3) by (auto simp: perimeter_def split: if_splits)
  then have "0 \<le> c \<and> c < w * h"
  proof cases
    case top
    then show ?thesis using wh unfolding mult_1_right by linarith
  next
    case (mid i)
    then show ?thesis using row [OF mid(1,2)] assms(1) by (elim disjE) linarith+
  next
    case bot
    then show ?thesis by (rule below)
  qed
  then show "0 \<le> c" "c < w * h" by simp_all
qed

lemma spaced_index_inj:
  fixes n size :: int
  assumes "0 < n" "n \<le> size" "0 \<le> off"
  shows "inj_on (\<lambda>i. nat ((i * (size sdiv n) + off) smod size)) {0..n - 1}"
proof (rule inj_onI)
  fix i j assume ij: "i \<in> {0..n - 1}" "j \<in> {0..n - 1}" and eq: "nat ((i * (size sdiv n) + off) smod size) = nat ((j * (size sdiv n) + off) smod size)"
  let ?s = "size div n"
  have s: "size sdiv n = ?s" "0 < ?s" using assms by (simp_all add: sdiv_nonneg pos_imp_zdiv_pos_iff)
  have s3: "?s * n \<le> size" using assms(1) minus_mod_eq_div_mult [of size n] pos_mod_sign [of n size] by linarith
  have "0 \<le> (i * ?s + off) mod size" "0 \<le> (j * ?s + off) mod size" using assms by simp_all
  moreover have "nat ((i * ?s + off) mod size) = nat ((j * ?s + off) mod size)" using eq assms s ij by (simp add: smod_nonneg)
  ultimately have "(i * ?s + off) mod size = (j * ?s + off) mod size" by (simp add: eq_nat_nat_iff)
  then have "size dvd i * ?s - j * ?s" by (simp add: mod_eq_dvd_iff)
  then have d: "size dvd (i - j) * ?s" by (simp add: left_diff_distrib)
  have "\<bar>i - j\<bar> \<le> n - 1" using ij by auto
  then have "\<bar>i - j\<bar> * ?s \<le> (n - 1) * ?s" using s(2) by (intro mult_right_mono) auto
  also have "... < size" using s(2) s3 by (simp add: left_diff_distrib mult.commute)
  finally have "\<bar>(i - j) * ?s\<bar> < size" using s(2) by (simp add: abs_mult)
  then have "(i - j) * ?s = 0" using d dvd_imp_le_int [of "(i - j) * ?s" size] assms by fastforce
  then show "i = j" using s(2) by simp
qed

text \<open>
  The memory controllers of a mesh that is at least two nodes wide or at most two high are on as many distinct cores as asked for, each the master of a
  node of the mesh.
\<close>

theorem memory_controllers_distinct:
  assumes "computeMeshDimensions n cfg = Inr (w, h)" and "0 < w" and "0 < h" and "0 < mk_concentration cfg * mk_logical_cpus cfg"
    and "2 \<le> w \<or> h \<le> 2" and "0 < num" and "mesh_computeMemoryControllerPositions n cfg num = Inr (b, l)"
  shows "int (length l) = num \<and> distinct l
    \<and> (\<forall>c \<in> set l. 0 \<le> c \<and> c < n \<and> c mod (mk_concentration cfg * mk_logical_cpus cfg) = 0)"
proof -
  let ?k = "mk_concentration cfg * mk_logical_cpus cfg" and ?a = "perimeter (mk_dimensions cfg) w h"
  let ?i = "\<lambda>i. nat ((i * (int (length ?a) sdiv num) + w sdiv 2) smod int (length ?a))"
  have l: "l = map (\<lambda>i. ?k * ?a ! ?i i) [0..num - 1]" "num \<le> int (length ?a)"
    using assms(1,6,7) by (auto simp: mesh_computeMemoryControllerPositions_def Let_def)
  have off: "0 \<le> w sdiv 2" using assms(2) by (simp add: sdiv_nonneg)
  note inj = spaced_index_inj [OF assms(6) l(2) off]
  have bound: "?i i < length ?a" if "i \<in> {0..num - 1}" for i
  proof -
    have "0 \<le> i * (int (length ?a) sdiv num) + w sdiv 2" using that off assms(6) by (simp add: sdiv_nonneg pos_imp_zdiv_nonneg_iff)
    moreover have "0 < int (length ?a)" using l(2) assms(6) by linarith
    ultimately have "(i * (int (length ?a) sdiv num) + w sdiv 2) smod int (length ?a) < int (length ?a)"
      using smod_nonneg [of "i * (int (length ?a) sdiv num) + w sdiv 2" "int (length ?a)"] by simp
    then show ?thesis using l(2) assms(6) by linarith
  qed
  have "inj_on (\<lambda>i. ?k * ?a ! ?i i) {0..num - 1}"
  proof (rule inj_onI)
    fix i j assume ij: "i \<in> {0..num - 1}" "j \<in> {0..num - 1}" and "?k * ?a ! ?i i = ?k * ?a ! ?i j"
    then have "?a ! ?i i = ?a ! ?i j" using assms(4) by (metis mult_cancel_left less_irrefl)
    then have "?i i = ?i j" using perimeter_distinct [OF assms(2,3,5)] bound [OF ij(1)] bound [OF ij(2)] nth_eq_iff_index_eq by blast
    then show "i = j" using inj ij by (auto dest: inj_onD)
  qed
  then have "distinct l" unfolding l(1) by (simp add: distinct_map)
  moreover have "0 \<le> c \<and> c < n \<and> c mod ?k = 0" if c: "c \<in> set l" for c
  proof -
    obtain i where "i \<in> {0..num - 1}" "c = ?k * ?a ! ?i i" using c unfolding l(1) set_map set_upto by blast
    then obtain e where e: "e \<in> set ?a" "c = ?k * e" using bound nth_mem by blast
    have "n = ?k * (w * h)" using assms(1) by (auto simp: computeMeshDimensions_def Let_def mult.commute mult.left_commute split: if_splits option.splits)
    then show ?thesis using perimeter_bounds [OF assms(2,3) e(1)] e(2) assms(4) mult_strict_left_mono [of e "w * h" ?k] by simp
  qed
  ultimately show ?thesis using assms(6) by (simp add: l(1))
qed

text \<open>In a column of four nodes two of three memory controllers are placed on the same core.\<close>

lemma column_controllers_collide:
  "perimeter 2 1 4 = [0, 1, 2, 3, 2, 1]"
  by (simp add: perimeter_def upto_rec1)

section \<open>Receiving\<close>

lemma find_match_earliest:
  assumes "\<And>j. itr = Some j \<Longrightarrow> matches env ma (q ! j)"
  shows "(\<forall>i \<in> set is \<union> set_option itr. matches env ma (q ! i) \<longrightarrow>
       (\<exists>k. find_match env ma q is itr = Some k \<and> np_time (q ! k) \<le> np_time (q ! i)))
    \<and> (\<forall>k. find_match env ma q is itr = Some k \<longrightarrow> matches env ma (q ! k) \<and> k \<in> set is \<union> set_option itr)"
  using assms
proof (induction "is" arbitrary: itr)
  case Nil
  then show ?case by auto
next
  case (Cons i js)
  define itr' where "itr' = (if matches env ma (q ! i)
      then (case itr of None \<Rightarrow> Some i | Some j \<Rightarrow> if np_time (q ! j) > np_time (q ! i) then Some i else itr) else itr)"
  have m: "matches env ma (q ! j)" if "itr' = Some j" for j using that Cons.prems by (auto simp: itr'_def split: if_splits option.splits)
  have f: "find_match env ma q (i # js) itr = find_match env ma q js itr'" by (simp add: itr'_def)
  have I: "(\<forall>i \<in> set js \<union> set_option itr'. matches env ma (q ! i) \<longrightarrow>
       (\<exists>k. find_match env ma q js itr' = Some k \<and> np_time (q ! k) \<le> np_time (q ! i)))
    \<and> (\<forall>k. find_match env ma q js itr' = Some k \<longrightarrow> matches env ma (q ! k) \<and> k \<in> set js \<union> set_option itr')"
    by (rule Cons.IH) (rule m)
  have new: "\<exists>j. itr' = Some j \<and> np_time (q ! j) \<le> np_time (q ! k)" if "k = i \<or> itr = Some k" "matches env ma (q ! k)" for k
    using that by (auto simp: itr'_def split: option.splits)
  have old: "set_option itr' \<subseteq> insert i (set_option itr)" by (auto simp: itr'_def split: if_splits option.splits)
  have "\<exists>k. find_match env ma q js itr' = Some k \<and> np_time (q ! k) \<le> np_time (q ! x)"
    if x: "x \<in> set (i # js) \<union> set_option itr" "matches env ma (q ! x)" for x
  proof (cases "x \<in> set js")
    case True
    then show ?thesis using I x by blast
  next
    case False
    then obtain j where j: "itr' = Some j" "np_time (q ! j) \<le> np_time (q ! x)" using new [of x] x by auto
    then obtain k where "find_match env ma q js itr' = Some k" "np_time (q ! k) \<le> np_time (q ! j)" using I m [OF j(1)] by auto
    then show ?thesis using j(2) by fastforce
  qed
  then show ?case using I old unfolding f by fastforce
qed

text \<open>
  C25: \<^verbatim>\<open>netRecv\<close> waits exactly when no packet of the queue matches; a packet that it returns is an earliest match, and it is the only one that leaves
  the queue.
\<close>

theorem netRecv_earliest:
  shows "(netRecv env c t ma s = Inr None \<longleftrightarrow> (\<forall>x \<in> set (ns_netQueue s c). \<not> matches env ma x))
    \<and> (\<forall>x d s'. netRecv env c t ma s = Inr (Some (x, d, s')) \<longrightarrow>
         matches env ma x \<and> (\<forall>y \<in> set (ns_netQueue s c). matches env ma y \<longrightarrow> np_time x \<le> np_time y)
         \<and> (\<exists>l r. ns_netQueue s c = l @ x # r \<and> s' = s\<lparr>ns_netQueue := (ns_netQueue s)(c := l @ r)\<rparr>))"
proof -
  let ?q = "ns_netQueue s c"
  define r where "r = find_match env ma ?q [0..<length ?q] None"
  have F: "\<And>i. i < length ?q \<Longrightarrow> matches env ma (?q ! i) \<Longrightarrow> \<exists>k. r = Some k \<and> np_time (?q ! k) \<le> np_time (?q ! i)"
    "\<And>k. r = Some k \<Longrightarrow> matches env ma (?q ! k) \<and> k < length ?q"
    using find_match_earliest [of None env ma ?q "[0..<length ?q]"] by (auto simp: r_def)
  show ?thesis
  proof (cases r)
    case None
    then have "\<forall>x \<in> set ?q. \<not> matches env ma x" using F(1) by (fastforce simp: in_set_conv_nth)
    then show ?thesis using None by (simp add: netRecv_def Let_def r_def)
  next
    case (Some k)
    note k = F(2) [OF Some]
    have m: "\<forall>y \<in> set ?q. matches env ma y \<longrightarrow> np_time (?q ! k) \<le> np_time y" using F(1) Some by (fastforce simp: in_set_conv_nth)
    have res: "netRecv env c t ma s = Inr (Some (x, d, s')) \<Longrightarrow>
        x = ?q ! k \<and> s' = s\<lparr>ns_netQueue := (ns_netQueue s)(c := take k ?q @ drop (Suc k) ?q)\<rparr>" for x d s'
      using Some by (auto simp: netRecv_def Let_def r_def split: if_splits)
    have no: "netRecv env c t ma s \<noteq> Inr None" using Some by (auto simp: netRecv_def Let_def r_def split: if_splits)
    have "?q = take k ?q @ ?q ! k # drop (Suc k) ?q" using k by (simp add: id_take_nth_drop)
    then show ?thesis using res no m k nth_mem [of k ?q] by blast
  qed
qed

section \<open>Examples\<close>

definition example_bus :: NetworkModelBusGlobal where
  "example_bus = \<lparr>bg_bandwidth = 8, bg_queue_model = QM_Contention (ContentionModel_create 1), bg_num_packets = 0, bg_num_packets_delayed = 0,
     bg_num_bytes = 0, bg_time_used = 0, bg_total_delay = 0\<rparr>"

definition example_node :: "int \<Rightarrow> bool \<Rightarrow> core_id_t \<Rightarrow> NetworkModelEMeshHopByHop" where
  "example_node w tree c = \<lparr>em_mesh_width = w, em_mesh_height = w, em_queue_models = [], em_injection_port_queue_model = None,
     em_ejection_port_queue_model = None, em_enabled = True, em_total_bytes_sent = 0, em_total_packets_sent = 0, em_total_bytes_received = 0,
     em_total_packets_received = 0, em_total_contention_delay = 0, em_total_packet_latency = 0, em_fake_node = False, em_core_id = c,
     em_concentration = 1, em_dimensions = 2, em_wrap_around = False, em_link_bandwidth = \<lparr>bpc_period = 0, bpc_bits = 64\<rparr>,
     em_hop_latency = \<lparr>cl_period = 0, cl_cycles = 4\<rparr>, em_broadcast_tree_enabled = tree, em_queue_model_enabled = False,
     em_queue_model_type = ''history_list''\<rparr>"

definition example_net :: "int \<Rightarrow> bool \<Rightarrow> WirePacket list \<Rightarrow> net_state" where
  "example_net w tree q = \<lparr>ns_models = (\<lambda>c n. \<lparr>nm_matrix = None, nm_model = NM_HopByHop (example_node w tree c)\<rparr>),
     ns_buses = (\<lambda>_. example_bus), ns_queues = (\<lambda>c. if c = 0 then q else []), ns_netQueue = (\<lambda>_. q), ns_delivered = (\<lambda>_. []),
     ns_callbacks = (\<lambda>_ _. False)\<rparr>"

definition example_net_env :: "int \<Rightarrow> net_env" where
  "example_net_env n = \<lparr>ne_total_cores = n, ne_application_cores = n, ne_core_id_length = 1, ne_periods = (\<lambda>_. 1000),
     ne_queue_env = \<lparr>qe_pow = (\<lambda>_ _. 0), qe_estimate = (\<lambda>_ _ _ _. 0), qe_global_time = 0\<rparr>\<rparr>"

definition example_wire :: "SubsecondTime \<Rightarrow> net_receiver \<Rightarrow> WirePacket" where
  "example_wire t r = \<lparr>np_time = t, np_sender = 0, np_receiver = r,
     np_data = (ShmemMsg_create SH_REQ L2_CACHE TAG_DIR 0 64 None 0, []), np_start_time = 0, np_queue_delay = 0, np_type = SHARED_MEM_1, np_length = 64\<rparr>"

lemmas example_net_defs = example_net_def example_net_env_def example_wire_def example_node_def

lemma example_mesh_ok:
  "grid (example_node 2 False 0)" "cores (example_node 2 False 0) = 4" "mesh_net (example_node 2 False 0) n (example_net 2 False q)"
  "matrix_ok env (ns_models (example_net 2 False q) c n)" "mesh_packet (example_net_env 4) (example_node 2 False 0) (example_wire t r)"
  "mesh_node (example_node 2 False 0) c (example_node 2 False c)"
  by (simp_all add: grid_def cores_def mesh_net_def mesh_node_def matrix_ok_def mesh_packet_def pkt_requester_def net_getModeledLength_def
      getModeledLength_def example_net_defs ShmemMsg_create_def)

theorem mesh_send_delivers_witness:
  "\<exists>pkt' s'. netSend 4 (example_net_env 4) 0 (example_wire 500 (ToCore 3)) (example_net 2 False []) = Inr (np_length pkt', pkt', s')
     \<and> map np_time (ns_queues s' 3) = [8500]"
proof -
  have d: "computeDistance (example_node 2 False 0) 0 3 = 2" "em_mesh_width (example_node 2 False 0) = 2" "em_mesh_height (example_node 2 False 0) = 2"
    "\<not> em_wrap_around (example_node 2 False 0)"
    by (simp_all add: computeDistance_def computePosition_def example_node_def sdiv_nonneg smod_nonneg)
  obtain pkt' s' where "netSend (nat (2 + 2)) (example_net_env 4) 0 (example_wire 500 (ToCore 3)) (example_net 2 False []) = Inr (np_length pkt', pkt', s')"
    "ns_queues s' = (ns_queues (example_net 2 False []))(3 := ns_queues (example_net 2 False []) 3 @ [(example_wire 500 (ToCore 3))
         \<lparr>np_start_time := np_time (example_wire 500 (ToCore 3)), np_time := np_time (example_wire 500 (ToCore 3))
           + of_int 2 * ComponentLatency_getLatency (ne_periods (example_net_env 4)) (em_hop_latency (example_node 2 False 0))\<rparr>])"
    using mesh_send_delivers [of "example_node 2 False 0" "example_net_env 4" "example_wire 500 (ToCore 3)" "example_net 2 False []" 0 3, unfolded d]
      example_mesh_ok d(4) by (auto simp: example_net_env_def example_wire_def)
  then show ?thesis by (auto simp: example_net_defs ComponentLatency_getLatency_def)
qed

definition example_counter :: NetworkModelEMeshHopCounter where
  "example_counter = \<lparr>hc_hopLatency = \<lparr>cl_period = 0, cl_cycles = 4\<rparr>, hc_linkBandwidth = \<lparr>bpc_period = 0, bpc_bits = 64\<rparr>, hc_meshWidth = 2,
     hc_meshHeight = 2, hc_enabled = True, hc_num_packets = 0, hc_num_bytes = 0, hc_total_latency = 0\<rparr>"

theorem mesh_degrades_to_hop_counter_witness:
  "\<exists>pkt' s' x x' node'. netSend 4 (example_net_env 4) 0 (example_wire 500 (ToCore 3)) (example_net 2 False []) = Inr (np_length pkt', pkt', s')
    \<and> ns_queues s' 3 = [x] \<and> mesh_processReceivedPacket (example_net_env 4) x (example_node 2 False 3) = Inr (x', node')
    \<and> HopCounter_routePacket (example_net_env 4) (example_wire 500 (ToCore 3)) example_counter = Inr [direct_hop (np_time x') 3]
    \<and> em_total_contention_delay node' = 0"
proof -
  have e: "em_mesh_width (example_node 2 False 0) = 2" "em_mesh_height (example_node 2 False 0) = 2" "em_total_contention_delay (example_node 2 False 3) = 0"
    "ns_queues (example_net 2 False []) 3 = []"
    by (simp_all add: example_node_def example_net_def)
  have "\<exists>pkt' s' x x' node'. netSend (nat (2 + 2)) (example_net_env 4) 0 (example_wire 500 (ToCore 3)) (example_net 2 False []) = Inr (np_length pkt', pkt', s')
    \<and> ns_queues s' = (ns_queues (example_net 2 False []))(3 := [] @ [x])
    \<and> mesh_processReceivedPacket (example_net_env 4) x (example_node 2 False 3) = Inr (x', node')
    \<and> HopCounter_routePacket (example_net_env 4) (example_wire 500 (ToCore 3)) example_counter = Inr [direct_hop (np_time x') 3]
    \<and> em_total_contention_delay node' = 0"
    by (rule mesh_degrades_to_hop_counter [of "example_node 2 False 0" _ _ "example_net 2 False []" 0 3 example_counter "example_node 2 False 3", unfolded e])
      (simp_all add: example_mesh_ok, simp_all add: example_net_env_def example_wire_def example_node_def example_counter_def)
  then show ?thesis by fastforce
qed

theorem broadcast_tree_never_ends_witness:
  "\<exists>s'. pull_one 1 (example_net_env 1) 0 (example_net 1 True [example_wire 500 BROADCAST]) = Inr s' \<and> in_flight s'"
proof -
  let ?s = "example_net 1 True [example_wire 500 BROADCAST]"
  have "is_ok (pull_one 1 (example_net_env 1) 0 ?s)"
    by (simp add: pull_one_def netSend_def countPacket_def routePacket_def mesh_routePacket_def mesh_broadcast_def pkt_requester_def
        net_getModeledLength_def getModeledLength_def broadcast_tree_def computePosition_def computeCoreId_def addHop_def computeLatency_def
        computeProcessingTime_def computeInjectionPortQueueDelay_def BandwidthPerCycle_getRoundedLatency_def divR_def
        transport_send_def follow_hops.simps accept_packet_def processReceivedPacket_def mesh_processReceivedPacket_def
        g_type_to_static_network_map_def example_net_defs ShmemMsg_create_def Let_def set_model_def sdiv_nonneg smod_nonneg)
  then obtain s' where s': "pull_one 1 (example_net_env 1) 0 ?s = Inr s'" by (auto simp: is_ok_iff)
  have "in_flight s'"
  proof (rule broadcast_tree_never_ends [OF _ s'])
    show "in_flight ?s" by (auto simp: in_flight_def example_net_defs intro!: exI [of _ 0])
    show "\<exists>m. nm_model (ns_models ?s 0 n) = NM_HopByHop m \<and> \<not> em_fake_node m \<and> em_broadcast_tree_enabled m" for n
      by (simp add: example_net_defs)
  qed
  with s' show ?thesis by blast
qed

definition example_mesh_cfg :: "string \<Rightarrow> mesh_config" where
  "example_mesh_cfg dims = \<lparr>mk_logical_cpus = 1, mk_concentration = 2, mk_dimensions = 2, mk_size = dims, mk_wrap_around = False, mk_link_bandwidth = 64,
     mk_hop_latency = 4, mk_queue_model_enabled = False, mk_queue_model_type = ''basic'', mk_broadcast_tree_enabled = False,
     mk_queue_config = \<lparr>qc_moving_avg_enabled = False, qc_moving_avg_window_size = 0, qc_moving_avg_type = '''', qc_analytical_model_enabled = False,
       qc_max_list_size = 0, qc_window_size = 0\<rparr>\<rparr>"

theorem memory_controllers_distinct_witness:
  "\<exists>l. mesh_computeMemoryControllerPositions 18 (example_mesh_cfg '''') 4 = Inr (True, l) \<and> l = [2, 10, 14, 6] \<and> distinct l"
proof -
  have sq: "floor_sqrt 9 = 3" by (simp add: floor_sqrt_def last_index_def upt_rec numeral_eq_Suc)
  have d: "computeMeshDimensions 18 (example_mesh_cfg '''') = Inr (3, 3)"
    by (simp add: computeMeshDimensions_def example_mesh_cfg_def sdiv_nonneg sq Let_def)
  have "\<exists>l. mesh_computeMemoryControllerPositions 18 (example_mesh_cfg '''') 4 = Inr (True, l) \<and> l = [2, 10, 14, 6]"
    by (simp add: mesh_computeMemoryControllerPositions_def d Let_def perimeter_def upto_rec1 sdiv_nonneg smod_nonneg) (simp add: example_mesh_cfg_def)
  then obtain l where l: "mesh_computeMemoryControllerPositions 18 (example_mesh_cfg '''') 4 = Inr (True, l)" "l = [2, 10, 14, 6]" by blast
  have "distinct l" using memory_controllers_distinct [OF d _ _ _ _ _ l(1)] by (simp add: example_mesh_cfg_def)
  with l show ?thesis by blast
qed

theorem netRecv_earliest_witness:
  "(\<exists>x d s'. netRecv (example_net_env 4) 0 400 \<lparr>ma_senders = [], ma_types = []\<rparr> (example_net 2 False [example_wire 500 (ToCore 0), example_wire 450 BROADCAST])
      = Inr (Some (x, d, s')) \<and> np_time x = 450 \<and> map np_time (ns_netQueue s' 0) = [500])"
proof -
  let ?s = "example_net 2 False [example_wire 500 (ToCore 0), example_wire 450 BROADCAST]" and ?m = "\<lparr>ma_senders = [], ma_types = []\<rparr>"
  have q: "ns_netQueue ?s 0 = [example_wire 500 (ToCore 0), example_wire 450 BROADCAST]" by (simp add: example_net_def)
  have w: "np_time (example_wire t r) = t" "np_sender (example_wire t r) = 0" "np_receiver (example_wire t r) = r"
    "ne_total_cores (example_net_env 4) = 4" "ne_application_cores (example_net_env 4) = 4" "50 < 100 * time_in Unit_NS 1" for t r
    by (simp_all add: example_wire_def example_net_env_def time_in_def NS_1_def PS_1_def FS_1_def)
  have m: "matches (example_net_env 4) ?m (example_wire t r)" for t r by (simp add: matches_def example_wire_def example_net_env_def)
  have "\<exists>x d s'. netRecv (example_net_env 4) 0 400 ?m ?s = Inr (Some (x, d, s'))"
    by (simp add: netRecv_def q m upt_rec w Let_def)
  then obtain x d s' where x: "netRecv (example_net_env 4) 0 400 ?m ?s = Inr (Some (x, d, s'))" by blast
  from netRecv_earliest [of "example_net_env 4" 0 400 ?m ?s] x
  have r: "\<forall>y \<in> set (ns_netQueue ?s 0). matches (example_net_env 4) ?m y \<longrightarrow> np_time x \<le> np_time y"
    and "\<exists>l r. ns_netQueue ?s 0 = l @ x # r \<and> s' = ?s\<lparr>ns_netQueue := (ns_netQueue ?s)(0 := l @ r)\<rparr>" by blast+
  then obtain l r where l: "ns_netQueue ?s 0 = l @ x # r" "s' = ?s\<lparr>ns_netQueue := (ns_netQueue ?s)(0 := l @ r)\<rparr>" by blast
  have "np_time x \<le> 450" using r m by (simp add: q) (simp add: example_wire_def)
  moreover have "x = example_wire 500 (ToCore 0) \<and> l = [] \<or> x = example_wire 450 BROADCAST \<and> l = [example_wire 500 (ToCore 0)] \<and> r = []"
    using l(1) unfolding q by (cases l; cases "tl l") auto
  ultimately show ?thesis using x l(2) by (auto simp: example_wire_def)
qed

end
