(* ===== verification/Tlb.thy ===== *)
theory Tlb
  imports Cache_Model
begin

text \<open>
  The TLBs of \<^verbatim>\<open>parametric_dram_directory_msi/tlb.cc\<close>. A TLB with the chain of its next levels is the list of them, the
  first being the one that is called; a next level acts as a victim cache of the one before.
\<close>

record TLB =
  tlb_size :: UInt32
  tlb_associativity :: UInt32
  tlb_cache :: Cache
  tlb_access :: UInt64
  tlb_miss :: UInt64

definition SIM_PAGE_SIZE :: UInt32 where
  "SIM_PAGE_SIZE = push_bit 12 1"

definition TLB_create :: "repl_config \<Rightarrow> string \<Rightarrow> UInt32 \<Rightarrow> UInt32 \<Rightarrow> TLB result" where
  "TLB_create cfg name num_entries associativity =
     (if associativity = 0 then Inl (Trap ''division by zero'')
      else bindR (Cache_create cfg (name @ ''_cache'') (num_entries div associativity) associativity SIM_PAGE_SIZE ''lru'' PR_L1_CACHE HASH_MASK None None) (\<lambda>c.
           bindR (logAssertR ((num_entries div associativity) * associativity = num_entries) ''Invalid TLB configuration'') (\<lambda>_.
           Inr \<lparr>tlb_size = num_entries, tlb_associativity = associativity, tlb_cache = c, tlb_access = 0, tlb_miss = 0\<rparr>)))"

text \<open>
  The call of \<^verbatim>\<open>insertSingleLine\<close> passes \<^verbatim>\<open>0\<close> for the controller, \<^verbatim>\<open>100\<close> for \<^verbatim>\<open>mcomponent\<close> and \<^verbatim>\<open>0\<close> for \<^verbatim>\<open>write_flag\<close>.
\<close>

fun TLB_allocate :: "IntPtr \<Rightarrow> TLB list \<Rightarrow> repl_env \<Rightarrow> (TLB list \<times> repl_env) result" where
  "TLB_allocate address [] g = Inr ([], g)"
| "TLB_allocate address (t # next_level) g =
     bindR (Cache_insertSingleLine address None (CacheBlockInfo_new INVALID_CACHE_TYPE (NOT 0) C_INVALID 0) None None 0 0 (tlb_cache t) g)
       (\<lambda>(eviction, evict_addr, _, _, c, g).
     if eviction
     then bindR (TLB_allocate evict_addr next_level g) (\<lambda>(next_level, g). Inr (t\<lparr>tlb_cache := c\<rparr> # next_level, g))
     else Inr (t\<lparr>tlb_cache := c\<rparr> # next_level, g))"

fun TLB_lookup :: "IntPtr \<Rightarrow> bool \<Rightarrow> TLB list \<Rightarrow> repl_env \<Rightarrow> (bool \<times> TLB list \<times> repl_env) result" where
  "TLB_lookup address allocate_on_miss [] g = Inr (False, [], g)"
| "TLB_lookup address allocate_on_miss (t # next_level) g =
     bindR (Cache_accessSingleLine address LOAD None 0 True (tlb_cache t) g) (\<lambda>(hit, _, c, g).
     let t = t\<lparr>tlb_cache := c, tlb_access := tlb_access t + 1\<rparr>
     in if hit \<noteq> None then Inr (True, t # next_level, g)
        else let t = t\<lparr>tlb_miss := tlb_miss t + 1\<rparr>
             in bindR (TLB_lookup address False next_level g) (\<lambda>(hit, next_level, g).
                bindR (if allocate_on_miss then TLB_allocate address (t # next_level) g else Inr (t # next_level, g)) (\<lambda>(ts, g).
                Inr (hit, ts, g))))"

section \<open>A page that was looked up is in the TLB\<close>

lemma page_fits:
  assumes "cb_blocksize b \<noteq> 0"
  shows "unat (a :: 64 word) mod unat (cb_blocksize b) + unat (0 :: UInt32) \<le> unat (cb_blocksize b)"
  using assms by (simp add: less_imp_le unat_gt_0)

lemma Cache_access_miss:
  assumes "Cache_accessSingleLine a at buf n u c g = Inr (None, buf', c', g')"
  shows "c' = c"
  using assms by (auto simp: Cache_accessSingleLine_def Let_def FaultInjector_postWrite_def split: option.splits if_splits)

text \<open>
  After a lookup with allocation the page is in the TLB that was asked: the lookup of a page that was there hits, the one of another
  page is counted as a miss and leaves the page allocated, whatever the next levels are and whatever they answer.
\<close>

theorem tlb_holds_looked_up_page:
  assumes "cache_ok (tlb_cache t)" "TLB_lookup a True (t # ts) g = Inr (h, ts', g')"
  shows "\<exists>t' next_level. ts' = t' # next_level \<and> cache_ok (tlb_cache t') \<and> cache_contents (tlb_cache t') (addr_tag (tlb_cache t) a) \<noteq> None
    \<and> tlb_access t' = tlb_access t + 1
    \<and> tlb_miss t' = tlb_miss t + (if cache_contents (tlb_cache t) (addr_tag (tlb_cache t) a) = None then 1 else 0)
    \<and> (cache_contents (tlb_cache t) (addr_tag (tlb_cache t) a) \<noteq> None \<longrightarrow> h)"
proof -
  obtain hit b c g1 where acc: "Cache_accessSingleLine a LOAD None 0 True (tlb_cache t) g = Inr (hit, b, c, g1)"
    using assms(2) by auto
  have "cb_blocksize (ca_base (tlb_cache t)) \<noteq> 0" using assms(1) by (auto simp: cache_ok_def cb_ok_def)
  note ac = Cache_access_contents [OF assms(1) page_fits [OF this] acc]
  show ?thesis
  proof (cases "hit = None")
    case False
    then show ?thesis using assms(2) ac acc by (auto simp: Let_def)
  next
    case True
    then have abs: "cache_contents (tlb_cache t) (addr_tag (tlb_cache t) a) = None" and cc: "c = tlb_cache t"
      using ac acc Cache_access_miss by blast+
    obtain h1 nl g2 where l: "TLB_lookup a False ts g1 = Inr (h1, nl, g2)" using assms(2) acc True by (auto simp: Let_def)
    obtain ev ea ebi eb c' g3 where ins: "Cache_insertSingleLine a None (CacheBlockInfo_new INVALID_CACHE_TYPE (NOT 0) C_INVALID 0) None None 0 0
        (tlb_cache t) g2 = Inr (ev, ea, ebi, eb, c', g3)" and
      ts': "\<exists>nl'. ts' = (t\<lparr>tlb_cache := c', tlb_access := tlb_access t + 1, tlb_miss := tlb_miss t + 1\<rparr>) # nl'"
      using assms(2) acc True l cc by (auto simp: Let_def split: if_splits)
    from Cache_insert_contents [OF assms(1) abs ins] ts' abs show ?thesis by (auto split: if_splits)
  qed
qed

section \<open>Duplicates in a victim level\<close>

text \<open>A sequence of lookups, with their answers.\<close>

fun TLB_lookups :: "IntPtr list \<Rightarrow> TLB list \<Rightarrow> repl_env \<Rightarrow> (bool list \<times> TLB list \<times> repl_env) result" where
  "TLB_lookups [] ts g = Inr ([], ts, g)"
| "TLB_lookups (a # as) ts g =
     bindR (TLB_lookup a True ts g) (\<lambda>(h, ts, g).
     bindR (TLB_lookups as ts g) (\<lambda>(hs, ts, g). Inr (h # hs, ts, g)))"

definition example_tlb_cfg :: repl_config where
  "example_tlb_cfg = \<lparr>rc_qbs_attempts = 1, rc_srrip_bits = 2, rc_time = 0, rc_fault_injection = False\<rparr>"

definition example_tlb_env :: repl_env where
  "example_tlb_env = \<lparr>re_set_info = None, re_phc_state = [], re_loop_bit_writeback = 0, re_qbs_lookups = 0\<rparr>"

definition tlb_tags :: "TLB \<Rightarrow> IntPtr list list" where
  "tlb_tags t = map (map cbi_tag \<circ> cs_blocks) (ca_sets (tlb_cache t))"

text \<open>
  A page that is found in the next level stays there, and is inserted there again when the first level evicts it: with a
  first level of one entry and a second level of four, two pages used in turn fill the second level with copies of the same page.
\<close>

theorem tlb_victim_level_duplicates:
  "bindR (TLB_create example_tlb_cfg ''dtlb'' 1 1) (\<lambda>d. bindR (TLB_create example_tlb_cfg ''stlb'' 4 4) (\<lambda>s.
     bindR (TLB_lookups [0x1000, 0x2000, 0x1000, 0x2000, 0x1000] [d, s] example_tlb_env) (\<lambda>(hs, ts, g). Inr (hs, map tlb_tags ts)))) =
   Inr ([False, False, True, True, True], [[[1]], [[1, 2, 1, 2]]])"
  by code_simp

theorem tlb_holds_looked_up_page_witness:
  "\<exists>t h ts' g'. TLB_create example_tlb_cfg ''dtlb'' 2 2 = Inr t \<and> cache_ok (tlb_cache t)
     \<and> TLB_lookup 0x5000 True [t] example_tlb_env = Inr (h, ts', g') \<and> tlb_miss (hd ts') = 1"
proof -
  have p: "parsePolicyType ''lru'' = Inr LRU" by (simp add: parsePolicyType_def)
  have "is_ok (bindR (TLB_create example_tlb_cfg ''dtlb'' 2 2) (\<lambda>t. TLB_lookup 0x5000 True [t] example_tlb_env))" by code_simp
  then obtain t h ts' g' where t: "TLB_create example_tlb_cfg ''dtlb'' 2 2 = Inr t"
    and l: "TLB_lookup 0x5000 True [t] example_tlb_env = Inr (h, ts', g')" by (auto simp: is_ok_iff simp del: TLB_lookup.simps)
  then have c: "Cache_create example_tlb_cfg ''dtlb_cache'' (2 div 2) 2 SIM_PAGE_SIZE ''lru'' PR_L1_CACHE HASH_MASK None None = Inr (tlb_cache t)"
    and m: "tlb_miss t = 0" by (auto simp: TLB_create_def simp del: TLB_lookup.simps)
  have "cache_ok (tlb_cache t) \<and> cache_contents (tlb_cache t) = Map.empty"
    by (rule Cache_create_ok [OF c]) (auto simp: isPower2_def hash_total_def p policy_fits_def SIM_PAGE_SIZE_def)
  with tlb_holds_looked_up_page [OF _ l] t l m show ?thesis by (auto simp del: TLB_lookup.simps)
qed

end
