(* ===== verification/Memory_Manager.thy ===== *)
theory Memory_Manager
  imports Cache_Snoop Tlb Directory_Cntlr
begin

text \<open>
  The memory manager of a core (\<^verbatim>\<open>parametric_dram_directory_msi/memory_manager.cc\<close>): it places the tag directories, connects the
  cache controllers, gives the accesses of the core to the TLBs and the first-level caches, and the messages of the network to the
  component they are for. The DRAM side of a message is \<^verbatim>\<open>dram/dram_cntlr_interface.cc\<close>. Not modelled are the reading of
  the configuration and the creation of the objects from it, which the constructors of the components are for.
\<close>

section \<open>State\<close>

datatype MemModeled = MEM_MODELED_NONE | MEM_MODELED_COUNT | MEM_MODELED_COUNT_TLBTIME | MEM_MODELED_TIME | MEM_MODELED_FENCED | MEM_MODELED_RETURN

text \<open>
  \<open>mm_cache_cntlrs\<close> is the map \<^verbatim>\<open>m_cache_cntlrs\<close> to the controllers of the store; \<open>mm_pseudo\<close> are the TLB miss instructions queued in the
  core's performance model; \<open>mm_sent\<close> the messages of the DRAM controller.
\<close>

record MemoryManager =
  mm_core_id :: core_id_t
  mm_core_id_master :: core_id_t
  mm_cache_block_size :: UInt32
  mm_last_level_cache :: component_t
  mm_cache_cntlrs :: "component_t \<Rightarrow> nat option"
  mm_itlb :: "TLB option"
  mm_dtlb :: "TLB option"
  mm_stlb :: "TLB option"
  mm_tlb_miss_penalty :: ComponentLatency
  mm_tlb_miss_parallel :: bool
  mm_pseudo :: "(SubsecondTime \<times> bool) list"
  mm_tag_directory_present :: bool
  mm_dram_directory_cntlr :: "DramDirectoryCntlr option"
  mm_dram_cntlr_present :: bool
  mm_dram :: "DramCntlrInterface option"
  mm_enabled :: bool
  mm_sent :: "NetPacket list"

definition cache_cntlr_at :: "component_t \<Rightarrow> MemoryManager \<Rightarrow> nat result" where
  "cache_cntlr_at mem_component mm =
     (case mm_cache_cntlrs mm mem_component of Some i \<Rightarrow> Inr i | None \<Rightarrow> Inl (Trap ''null pointer''))"

section \<open>Placement and wiring\<close>

text \<open>The cores that have a tag directory, when there is one every \<open>interleaving\<close> cores.\<close>

definition interleaved_directories :: "nat \<Rightarrow> nat \<Rightarrow> core_id_t list" where
  "interleaved_directories application_cores interleaving = map int (filter (\<lambda>core_id. core_id mod interleaving = 0) [0..<application_cores])"

definition setNextCacheCntlr :: "nat \<Rightarrow> nat \<Rightarrow> hier \<Rightarrow> hier" where
  "setNextCacheCntlr i nx h = upd_cn i (\<lambda>c. c\<lparr>cc_next_cache_cntlr := Some nx\<rparr>) h"

fun link_next :: "nat list \<Rightarrow> hier \<Rightarrow> hier" where
  "link_next (i # nx # rest) h = link_next (nx # rest) (setNextCacheCntlr i nx h)"
| "link_next _ h = h"

fun link_prev :: "nat list \<Rightarrow> hier \<Rightarrow> hier" where
  "link_prev (i # nx # rest) h = link_prev (nx # rest) (setPrevCacheCntlrs nx [i] h)"
| "link_prev _ h = h"

text \<open>\<open>levels\<close> are the controllers of a core from the second level to the last one.\<close>

definition connect_caches :: "nat \<Rightarrow> nat \<Rightarrow> nat list \<Rightarrow> hier \<Rightarrow> hier" where
  "connect_caches l1i l1d levels h =
     (let h = setNextCacheCntlr l1i (hd levels) h;
          h = setNextCacheCntlr l1d (hd levels) h;
          h = link_next levels h;
          h = setPrevCacheCntlrs (hd levels) [l1i, l1d] h
      in link_prev levels h)"

section \<open>Accesses of the core\<close>

text \<open>The second-level TLB is shared by the two first-level ones.\<close>

definition untimed :: "MemModeled \<Rightarrow> bool" where
  "untimed modeled = (modeled = MEM_MODELED_NONE \<or> modeled = MEM_MODELED_COUNT)"

definition stlb_list :: "MemoryManager \<Rightarrow> TLB list" where
  "stlb_list mm = (case mm_stlb mm of None \<Rightarrow> [] | Some t \<Rightarrow> [t])"

definition store_tlbs :: "bool \<Rightarrow> TLB list \<Rightarrow> MemoryManager \<Rightarrow> MemoryManager" where
  "store_tlbs isIfetch ts mm =
     (case ts of
        [] \<Rightarrow> mm
      | t # next_level \<Rightarrow>
          (let mm = (if isIfetch then mm\<lparr>mm_itlb := Some t\<rparr> else mm\<lparr>mm_dtlb := Some t\<rparr>)
           in case next_level of [] \<Rightarrow> mm | s # _ \<Rightarrow> mm\<lparr>mm_stlb := Some s\<rparr>))"

definition accessTLB :: "nat \<Rightarrow> TLB \<Rightarrow> IntPtr \<Rightarrow> bool \<Rightarrow> MemModeled \<Rightarrow> MemoryManager \<Rightarrow> hier \<Rightarrow> (MemoryManager \<times> hier) result" where
  "accessTLB i tlb address isIfetch modeled mm h =
     bindR (TLB_lookup address True (tlb # stlb_list mm) (hi_env h)) (\<lambda>(hit, ts, g).
     let mm = store_tlbs isIfetch ts mm; h = h\<lparr>hi_env := g\<rparr>;
         penalty = ComponentLatency_getLatency (hi_periods h) (mm_tlb_miss_penalty mm)
     in if \<not> hit \<and> \<not> untimed modeled \<and> penalty \<noteq> 0
        then if mm_tlb_miss_parallel mm then Inr (mm, incr i penalty USER_THREAD h)
             else Inr (mm\<lparr>mm_pseudo := mm_pseudo mm @ [(penalty, isIfetch)]\<rparr>, h)
        else Inr (mm, h))"

definition coreInitiateMemoryAccess ::
  "(nat \<Rightarrow> IntPtr \<Rightarrow> hier \<Rightarrow> hier result) \<Rightarrow> component_t \<Rightarrow> lock_signal_t \<Rightarrow> mem_op_t \<Rightarrow> IntPtr \<Rightarrow> UInt32 \<Rightarrow> UInt8 list option \<Rightarrow> UInt32 \<Rightarrow>
     MemModeled \<Rightarrow> IntPtr \<Rightarrow> MemoryManager \<Rightarrow> hier \<Rightarrow> (where_t \<times> UInt8 list option \<times> MemoryManager \<times> hier) result" where
  "coreInitiateMemoryAccess wait mem_component lock_signal mem_op_type address offset data_buf data_length modeled eip mm h =
     bindR (logAssertR (component_num mem_component \<le> component_num (mm_last_level_cache mm)) ''invalid mem_component for coreInitiateMemoryAccess'') (\<lambda>_.
     bindR (cache_cntlr_at mem_component mm) (\<lambda>i.
     bindR (case (mem_component, mm_itlb mm, mm_dtlb mm) of
              (L1_ICACHE, Some t, _) \<Rightarrow> accessTLB i t address True modeled mm h
            | (L1_DCACHE, _, Some t) \<Rightarrow> accessTLB i t address False modeled mm h
            | _ \<Rightarrow> Inr (mm, h)) (\<lambda>(mm, h).
     bindR (processMemOpFromCore wait i lock_signal mem_op_type address offset data_buf data_length (\<not> untimed modeled)
              (modeled \<noteq> MEM_MODELED_NONE) eip h) (\<lambda>(hit_where, data_buf, h).
     Inr (hit_where, data_buf, mm, h)))))"

section \<open>Messages\<close>

text \<open>The DRAM side: a read is answered after its latency, the latency of a write is ignored. \<open>now\<close> is the elapsed time.\<close>

definition di_handleMsgFromTagDirectory ::
  "core_id_t \<Rightarrow> ShmemMsg \<Rightarrow> SubsecondTime \<Rightarrow> UInt8 list \<Rightarrow> DramCntlrInterface \<Rightarrow> repl_env \<Rightarrow> MemoryManager \<Rightarrow>
     (NetPacket list \<times> SubsecondTime \<times> DramCntlrInterface \<times> repl_env) result" where
  "di_handleMsgFromTagDirectory sender msg now data_buf di g mm =
     (case sm_msg_type msg of
        DRAM_READ_REQ \<Rightarrow>
          bindR (di_getDataFromDram (sm_address msg) (sm_requester msg) data_buf now di g) (\<lambda>(dram_latency, hit_where, buf, di, g).
          bindR (sendMsg_packet (mm_core_id_master mm) (now + dram_latency) DRAM_READ_REP DRAM TAG_DIR (sm_requester msg) sender
                   (sm_address msg) (Some buf) (mm_cache_block_size mm) hit_where) (\<lambda>pk.
          Inr ([pk], now + dram_latency, di, g)))
      | DRAM_WRITE_REQ \<Rightarrow>
          bindR (di_putDataToDram (sm_address msg) (sm_requester msg) (sm_data_buf msg) now di g) (\<lambda>(_, _, di, g). Inr ([], now, di, g))
      | _ \<Rightarrow> Inl (LogError ''Unrecognized Shmem Msg Type''))"

definition handle_at_dram :: "core_id_t \<Rightarrow> ShmemMsg \<Rightarrow> MemoryManager \<Rightarrow> hier \<Rightarrow> (MemoryManager \<times> hier) result" where
  "handle_at_dram sender msg mm h =
     (case mm_dram mm of
        None \<Rightarrow> Inl (Trap ''null pointer'')
      | Some di \<Rightarrow>
          (case hi_pop_frame h of (data_buf, h) \<Rightarrow>
             bindR (di_handleMsgFromTagDirectory sender msg (hi_time h (mm_core_id mm) SIM_THREAD) data_buf di (hi_env h) mm) (\<lambda>(pks, t, di, g).
             Inr (mm\<lparr>mm_dram := Some di, mm_sent := mm_sent mm @ pks\<rparr>,
                  h\<lparr>hi_env := g, hi_time := (hi_time h)(mm_core_id mm := (hi_time h (mm_core_id mm))(SIM_THREAD := t))\<rparr>))))"

definition handleMsgFromNetwork ::
  "nat \<Rightarrow> (nat \<Rightarrow> IntPtr \<Rightarrow> hier \<Rightarrow> hier result) \<Rightarrow> NetPacket \<Rightarrow> MemoryManager \<Rightarrow> hier \<Rightarrow> (MemoryManager \<times> hier) result" where
  "handleMsgFromNetwork fuel user packet mm h =
     (let sender = np_sender packet; msg = unpack_msg (np_data packet);
          core = mm_core_id mm; h = h\<lparr>hi_time := (hi_time h)(core := (hi_time h core)(SIM_THREAD := np_time packet))\<rparr>;
          to_cache = (if sm_sender_mem_component msg = TAG_DIR
                      then bindR (cache_cntlr_at (mm_last_level_cache mm) mm) (\<lambda>i.
                           bindR (handleMsgFromDramDirectory fuel user i sender msg h) (\<lambda>h. Inr (mm, h)))
                      else Inl (LogError ''Unrecognized sender component''))
      in bindR (case sm_receiver_mem_component msg of
                  L2_CACHE \<Rightarrow> to_cache
                | LAST_LEVEL_CACHE \<Rightarrow> to_cache
                | TAG_DIR \<Rightarrow>
                    bindR (logAssertR (mm_tag_directory_present mm) ''Tag directory NOT present'') (\<lambda>_.
                    case mm_dram_directory_cntlr mm of
                      None \<Rightarrow> Inl (Trap ''null pointer'')
                    | Some dc \<Rightarrow> bindR (receive_packet fuel packet dc) (\<lambda>dc. Inr (mm\<lparr>mm_dram_directory_cntlr := Some dc\<rparr>, h)))
                | DRAM \<Rightarrow>
                    bindR (logAssertR (mm_dram_cntlr_present mm) ''Dram Cntlr NOT present'') (\<lambda>_.
                    if sm_sender_mem_component msg = TAG_DIR then handle_at_dram sender msg mm h
                    else Inl (LogError ''Unrecognized sender component''))
                | _ \<Rightarrow> Inl (LogError ''Unrecognized receiver component'')) (\<lambda>(mm, h).
         bindR (assertR (sm_data_length msg > 0 \<longrightarrow> sm_data_buf msg \<noteq> None) ''shmem_msg->getDataBuf()'') (\<lambda>_. Inr (mm, h))))"

section \<open>Enabling\<close>

text \<open>The levels are the components from \<^verbatim>\<open>FIRST_LEVEL_CACHE\<close> to the last-level cache, with their controllers.\<close>

definition set_models :: "bool \<Rightarrow> (component_t \<times> nat) list \<Rightarrow> core_id_t \<Rightarrow> hier \<Rightarrow> hier" where
  "set_models on levels core h =
     foldl (\<lambda>h (mem_component, i).
       let h = set_cache i ((the_cache i h)\<lparr>ca_enabled := on\<rparr>) h; m = hi_perf_models h core mem_component
       in h\<lparr>hi_perf_models := (hi_perf_models h)(core := (hi_perf_models h core)(mem_component := m\<lparr>cpm_enabled := on\<rparr>))\<rparr>) h levels"

definition set_dram_model :: "bool \<Rightarrow> DramCntlrInterface \<Rightarrow> DramCntlrInterface" where
  "set_dram_model on di =
     (let f = (\<lambda>d. d\<lparr>dr_dram_perf_model := DramPerfModel_enable on (dr_dram_perf_model d)\<rparr>)
      in case di of DI_Cntlr d \<Rightarrow> DI_Cntlr (f d) | DI_Cache k \<Rightarrow> DI_Cache (k\<lparr>dca_dram_cntlr := f (dca_dram_cntlr k)\<rparr>))"

definition switch_models :: "bool \<Rightarrow> (component_t \<times> nat) list \<Rightarrow> MemoryManager \<Rightarrow> hier \<Rightarrow> MemoryManager \<times> hier" where
  "switch_models on levels mm h =
     (mm\<lparr>mm_enabled := on, mm_dram := (if mm_dram_cntlr_present mm then map_option (set_dram_model on) (mm_dram mm) else mm_dram mm)\<rparr>,
      set_models on levels (mm_core_id mm) h)"

definition enableModels :: "(component_t \<times> nat) list \<Rightarrow> MemoryManager \<Rightarrow> hier \<Rightarrow> MemoryManager \<times> hier" where
  "enableModels levels mm h = switch_models True levels mm h"

definition disableModels :: "(component_t \<times> nat) list \<Rightarrow> MemoryManager \<Rightarrow> hier \<Rightarrow> MemoryManager \<times> hier" where
  "disableModels levels mm h = switch_models False levels mm h"

section \<open>The wiring\<close>

lemma cn_set_next [simp]: "cn j (setNextCacheCntlr i nx h) = (if j = i then (cn i h)\<lparr>cc_next_cache_cntlr := Some nx\<rparr> else cn j h)"
  by (simp add: setNextCacheCntlr_def upd_cn_def cn_def)

lemma masters_set_next [simp]: "hi_masters (setNextCacheCntlr i nx h) = hi_masters h"
  by (simp add: setNextCacheCntlr_def upd_cn_def)

lemma cn_set_prev [simp]: "cn j (setPrevCacheCntlrs i ps h) = cn j h"
  by (simp add: setPrevCacheCntlrs_def upd_ms_def cn_def)

lemma masters_link_next [simp]: "hi_masters (link_next is h) = hi_masters h"
  by (induction "is" h rule: link_next.induct) simp_all

lemma cn_link_prev [simp]: "cn j (link_prev is h) = cn j h"
  by (induction "is" h rule: link_prev.induct) simp_all

lemma prevs_set_prev:
  "prevs_of j (setPrevCacheCntlrs i ps h)
     = (if mnum j h = mnum i h then prevs_of i h @ filter (\<lambda>p. isMasterCache p h) ps else prevs_of j h)"
  by (simp add: prevs_of_def ms_def) (simp add: setPrevCacheCntlrs_def upd_ms_def ms_def)

lemma link_next_fields: "cc_master (cn j (link_next is h)) = cc_master (cn j h)" "isMasterCache p (link_next is h) = isMasterCache p h"
  by (induction "is" h rule: link_next.induct) (simp_all add: isMasterCache_def)

lemma isMaster_link_prev [simp]: "isMasterCache p (link_prev is h) = isMasterCache p h" "isMasterCache p (setPrevCacheCntlrs i ps h) = isMasterCache p h"
  "isMasterCache p (setNextCacheCntlr i nx h) = isMasterCache p h"
  by (simp_all add: isMasterCache_def)

text \<open>The links of a core: every controller but the last one with its next level.\<close>

definition core_links :: "nat \<times> nat \<times> nat list \<Rightarrow> (nat \<times> nat) list" where
  "core_links = (\<lambda>(l1i, l1d, levels). (l1i, hd levels) # (l1d, hd levels) # zip levels (tl levels))"

definition core_cntlrs :: "nat \<times> nat \<times> nat list \<Rightarrow> nat list" where
  "core_cntlrs = (\<lambda>(l1i, l1d, levels). l1i # l1d # levels)"

lemma fst_zip_tl: "map fst (zip xs (tl xs)) = butlast xs"
  by (induction xs) (auto simp: neq_Nil_conv)

lemma zip_tl_None: "j \<notin> set (butlast xs) \<Longrightarrow> map_of (zip xs (tl xs)) j = None"
  unfolding map_of_eq_None_iff using fst_zip_tl [of xs] by (metis set_map)

lemma link_next_links:
  "distinct is \<Longrightarrow> next_of j (link_next is h) = (case map_of (zip is (tl is)) j of Some nx \<Rightarrow> Some nx | None \<Rightarrow> next_of j h)"
proof (induction "is" h rule: link_next.induct)
  case (1 i nx rest h)
  have "map_of (zip (nx # rest) (tl (nx # rest))) i = None"
    using 1(2) by (intro zip_tl_None) (auto dest: in_set_butlastD)
  then show ?case using 1 by (auto simp: next_of_def split: option.splits)
qed simp_all

lemma link_prev_links:
  "prevs_of j (link_prev is h)
     = prevs_of j h @ filter (\<lambda>p. isMasterCache p h) (map fst (filter (\<lambda>(p, nx). mnum nx h = mnum j h) (zip is (tl is))))"
proof (induction "is" h rule: link_prev.induct)
  case (1 i nx rest h)
  have "prevs_of nx h = prevs_of j h" if "mnum nx h = mnum j h" using that by (simp add: prevs_of_def ms_def)
  then show ?case using 1 by (auto simp: prevs_set_prev)
qed simp_all

text \<open>The effect of connecting one core on all links of the system.\<close>

lemma connect_fields [simp]:
  "mnum j (connect_caches l1i l1d levels h) = mnum j h" "isMasterCache j (connect_caches l1i l1d levels h) = isMasterCache j h"
  by (simp_all add: connect_caches_def Let_def link_next_fields isMasterCache_def) (simp_all add: link_next_fields isMasterCache_def [symmetric])

lemma connect_next:
  assumes "distinct (core_cntlrs (l1i, l1d, levels))"
  shows "next_of j (connect_caches l1i l1d levels h) = (case map_of (core_links (l1i, l1d, levels)) j of Some nx \<Rightarrow> Some nx | None \<Rightarrow> next_of j h)"
proof -
  have l1: "l1i \<notin> set levels" "l1d \<notin> set levels" "l1i \<noteq> l1d" "distinct levels" using assms by (auto simp: core_cntlrs_def)
  then have "map_of (zip levels (tl levels)) l1i = None" "map_of (zip levels (tl levels)) l1d = None"
    by (auto intro!: zip_tl_None dest: in_set_butlastD)
  moreover have "next_of j (connect_caches l1i l1d levels h)
      = next_of j (link_next levels (setNextCacheCntlr l1d (hd levels) (setNextCacheCntlr l1i (hd levels) h)))"
    by (simp add: connect_caches_def Let_def next_of_def)
  ultimately show ?thesis using l1(3) by (simp add: link_next_links [OF l1(4)] core_links_def) (auto simp: next_of_def split: option.splits)
qed

lemma connect_prevs:
  "prevs_of j (connect_caches l1i l1d levels h)
     = prevs_of j h @ filter (\<lambda>p. isMasterCache p h) (map fst (filter (\<lambda>(p, nx). mnum nx h = mnum j h) (core_links (l1i, l1d, levels))))"
proof -
  define h2 where "h2 = link_next levels (setNextCacheCntlr l1d (hd levels) (setNextCacheCntlr l1i (hd levels) h))"
  have f: "mnum k h2 = mnum k h" "isMasterCache k h2 = isMasterCache k h" for k by (simp_all add: h2_def link_next_fields)
  have p: "prevs_of k h2 = prevs_of k h" for k by (simp add: prevs_of_def ms_def f) (simp add: h2_def)
  have "prevs_of (hd levels) h = prevs_of j h" if "mnum (hd levels) h = mnum j h" using that by (simp add: prevs_of_def ms_def)
  then show ?thesis
    by (auto simp: connect_caches_def Let_def h2_def [symmetric] link_prev_links prevs_set_prev f p core_links_def)
qed

text \<open>
  A wired system: the previous levels of a cache are the master controllers whose next level is a controller of this cache. The list of
  a shared cache is that of its master controller.
\<close>

definition wired :: "hier \<Rightarrow> bool" where
  "wired h \<longleftrightarrow> (\<forall>i. distinct (prevs_of i h)
     \<and> (\<forall>p. p \<in> set (prevs_of i h) \<longleftrightarrow> isMasterCache p h \<and> (\<exists>q. next_of p h = Some q \<and> mnum q h = mnum i h)))"

lemma core_links_fst: "map fst (core_links (l1i, l1d, levels)) = l1i # l1d # butlast levels"
  by (simp add: core_links_def fst_zip_tl)

lemma connect_wired:
  assumes w: "wired h" and d: "distinct (core_cntlrs (l1i, l1d, levels))"
    and fresh: "\<And>i. i \<in> set (core_cntlrs (l1i, l1d, levels)) \<Longrightarrow> next_of i h = None"
  shows "wired (connect_caches l1i l1d levels h)"
proof -
  let ?H = "connect_caches l1i l1d levels h" and ?ls = "core_links (l1i, l1d, levels)"
  have dl: "distinct (map fst ?ls)" using d unfolding core_links_fst by (auto simp: core_cntlrs_def distinct_butlast dest: in_set_butlastD)
  have fr: "next_of p h = None" if "(p, nx) \<in> set ?ls" for p nx
  proof (rule fresh)
    have "p \<in> set (map fst ?ls)" using that by force
    then show "p \<in> set (core_cntlrs (l1i, l1d, levels))" unfolding core_links_fst by (auto simp: core_cntlrs_def dest: in_set_butlastD)
  qed
  have nx: "next_of p ?H = Some q \<longleftrightarrow> (p, q) \<in> set ?ls \<or> next_of p h = Some q" for p q
  proof (cases "map_of ?ls p")
    case None
    then have "(p, q) \<notin> set ?ls" by (force simp: map_of_eq_None_iff)
    then show ?thesis by (simp add: connect_next [OF d] None)
  next
    case (Some q')
    then have m: "(p, q') \<in> set ?ls" by (rule map_of_SomeD)
    then have "(p, q) \<in> set ?ls \<longleftrightarrow> q = q'" unfolding map_of_eq_Some_iff [OF dl, symmetric] Some by auto
    then show ?thesis using fr [OF m] by (auto simp: connect_next [OF d] Some)
  qed
  have old: "distinct (prevs_of i h)" "p \<in> set (prevs_of i h) \<longleftrightarrow> isMasterCache p h \<and> (\<exists>q. next_of p h = Some q \<and> mnum q h = mnum i h)" for i p
    using w by (simp_all add: wired_def)
  have "distinct (map fst (filter P ?ls))" for P using dl by (rule distinct_map_filter)
  moreover have "p \<notin> set (prevs_of i h)" if "(p, q) \<in> set ?ls" for p q i using fr [OF that] by (simp add: old(2))
  ultimately have "distinct (prevs_of i ?H)" for i by (auto simp: connect_prevs old(1))
  moreover have "p \<in> set (prevs_of i ?H) \<longleftrightarrow> isMasterCache p ?H \<and> (\<exists>q. next_of p ?H = Some q \<and> mnum q ?H = mnum i ?H)" for i p
  proof -
    have "p \<in> set (prevs_of i ?H) \<longleftrightarrow> p \<in> set (prevs_of i h) \<or> isMasterCache p h \<and> (\<exists>q. (p, q) \<in> set ?ls \<and> mnum q h = mnum i h)"
      by (simp add: connect_prevs) (auto simp: image_iff)
    then show ?thesis unfolding old(2) connect_fields nx by blast
  qed
  ultimately show ?thesis by (simp add: wired_def)
qed

text \<open>The constructors of the memory managers connect the controllers of one core after the other.\<close>

definition connect_all :: "(nat \<times> nat \<times> nat list) list \<Rightarrow> hier \<Rightarrow> hier" where
  "connect_all cs h = fold (\<lambda>(l1i, l1d, levels). connect_caches l1i l1d levels) cs h"

lemma core_links_cntlrs: "set (map fst (core_links c)) \<subseteq> set (core_cntlrs c)"
proof -
  obtain l1i l1d levels where c: "c = (l1i, l1d, levels)" by (cases c)
  show ?thesis unfolding c core_links_fst by (auto simp: core_cntlrs_def dest: in_set_butlastD)
qed

lemma all_links_cntlrs: "set (map fst (concat (map core_links cs))) \<subseteq> set (concat (map core_cntlrs cs))"
proof (induction cs)
  case (Cons c cs)
  then show ?case using core_links_cntlrs [of c] by (simp add: map_concat) blast
qed simp

lemma connect_all_links:
  "wired h \<Longrightarrow> distinct (concat (map core_cntlrs cs)) \<Longrightarrow> (\<And>i. i \<in> set (concat (map core_cntlrs cs)) \<Longrightarrow> next_of i h = None) \<Longrightarrow>
    wired (connect_all cs h) \<and> (\<forall>j. mnum j (connect_all cs h) = mnum j h \<and> isMasterCache j (connect_all cs h) = isMasterCache j h)
    \<and> (\<forall>j. next_of j (connect_all cs h) = (case map_of (concat (map core_links cs)) j of Some nx \<Rightarrow> Some nx | None \<Rightarrow> next_of j h))"
proof (induction cs arbitrary: h)
  case (Cons c cs)
  obtain l1i l1d levels where c: "c = (l1i, l1d, levels)" by (cases c)
  let ?h = "connect_caches l1i l1d levels h" and ?L = "concat (map core_links cs)"
  have d: "distinct (core_cntlrs (l1i, l1d, levels))" "distinct (concat (map core_cntlrs cs))" using Cons.prems(2) by (simp_all add: c)
  have w: "wired ?h" by (rule connect_wired [OF Cons.prems(1) d(1)]) (use Cons.prems(3) in \<open>simp add: c\<close>)
  have disj: "j \<notin> set (map fst (core_links c))" if "j \<in> set (concat (map core_cntlrs cs))" for j
    using core_links_cntlrs [of c] Cons.prems(2) that by auto
  have new: "next_of i ?h = None" if "i \<in> set (concat (map core_cntlrs cs))" for i
  proof -
    have "map_of (core_links (l1i, l1d, levels)) i = None" using disj [OF that] by (simp add: map_of_eq_None_iff c)
    then show ?thesis using Cons.prems(3) [of i] that by (simp add: connect_next [OF d(1)])
  qed
  have "map_of (core_links c) j = None" if "map_of ?L j = Some q" for j q
  proof -
    have "j \<in> set (map fst ?L)" using map_of_SomeD [OF that] by force
    then show ?thesis using all_links_cntlrs [of cs] disj [of j] by (auto simp: map_of_eq_None_iff)
  qed
  then have *: "(case map_of ?L j of Some nx \<Rightarrow> Some nx | None \<Rightarrow> (case map_of (core_links c) j of Some nx \<Rightarrow> Some nx | None \<Rightarrow> next_of j h))
      = (case map_of (core_links c @ ?L) j of Some nx \<Rightarrow> Some nx | None \<Rightarrow> next_of j h)" for j
    by (auto simp: map_add_def split: option.splits)
  have all: "connect_all (c # cs) h = connect_all cs ?h" by (simp add: connect_all_def c)
  from Cons.IH [OF w d(2) new]
  have IH: "wired (connect_all cs ?h)" "mnum j (connect_all cs ?h) = mnum j h" "isMasterCache j (connect_all cs ?h) = isMasterCache j h"
    "next_of j (connect_all cs ?h) = (case map_of ?L j of Some nx \<Rightarrow> Some nx | None \<Rightarrow> next_of j ?h)" for j
    by simp_all
  show ?case unfolding all IH(4) connect_next [OF d(1)] using IH(1-3) * [unfolded c] by (simp add: c)
qed (simp add: connect_all_def)

lemma all_links_iff:
  assumes "distinct (concat (map core_cntlrs cs))" and "c \<in> set cs" and "j \<in> set (core_cntlrs c)"
  shows "map_of (concat (map core_links cs)) j = map_of (core_links c) j"
  using assms
proof (induction cs)
  case (Cons x cs)
  show ?case
  proof (cases "c = x")
    case True
    then have "j \<notin> set (concat (map core_cntlrs cs))" using Cons.prems(1,3) by auto
    then have "j \<notin> set (map fst (concat (map core_links cs)))" using all_links_cntlrs [of cs] by blast
    then have "map_of (concat (map core_links cs)) j = None" by (simp add: map_of_eq_None_iff)
    then show ?thesis using True by (simp add: map_add_def split: option.split)
  next
    case False
    then have c: "c \<in> set cs" using Cons.prems(2) by simp
    then have "j \<notin> set (core_cntlrs x)" using Cons.prems(1,3) by auto
    then have "map_of (core_links x) j = None" using core_links_cntlrs [of x] by (auto simp: map_of_eq_None_iff)
    then show ?thesis using Cons.IH Cons.prems(1,3) c by (simp add: map_add_def split: option.splits)
  qed
qed simp

lemma core_links_lookup:
  assumes "distinct (core_cntlrs (l1i, l1d, levels))" and "levels \<noteq> []"
  shows "map_of (core_links (l1i, l1d, levels)) l1i = Some (hd levels)" "map_of (core_links (l1i, l1d, levels)) l1d = Some (hd levels)"
    "map_of (core_links (l1i, l1d, levels)) (last levels) = None"
    "Suc k < length levels \<Longrightarrow> map_of (core_links (l1i, l1d, levels)) (levels ! k) = Some (levels ! Suc k)"
proof -
  have l1: "l1i \<notin> set levels" "l1d \<notin> set levels" "l1i \<noteq> l1d" "distinct levels" using assms(1) by (auto simp: core_cntlrs_def)
  show "map_of (core_links (l1i, l1d, levels)) l1i = Some (hd levels)" "map_of (core_links (l1i, l1d, levels)) l1d = Some (hd levels)"
    using l1(3) by (simp_all add: core_links_def)
  have "last levels \<notin> set (butlast levels)" using assms(2) l1(4) by (cases levels rule: rev_cases) auto
  moreover have "last levels \<noteq> l1i" "last levels \<noteq> l1d" using l1 assms(2) last_in_set by metis+
  ultimately show "map_of (core_links (l1i, l1d, levels)) (last levels) = None" by (simp add: core_links_def zip_tl_None)
  assume k: "Suc k < length levels"
  have dz: "distinct (map fst (zip levels (tl levels)))" using l1(4) by (simp add: fst_zip_tl distinct_butlast)
  have "(levels ! k, levels ! Suc k) \<in> set (zip levels (tl levels))"
    using k by (auto simp: set_zip nth_tl intro!: exI [of _ k])
  then have "map_of (zip levels (tl levels)) (levels ! k) = Some (levels ! Suc k)" using dz by (simp add: map_of_eq_Some_iff)
  moreover have "levels ! k \<in> set levels" using k by simp
  then have "levels ! k \<noteq> l1i" "levels ! k \<noteq> l1d" using l1 by metis+
  ultimately show "map_of (core_links (l1i, l1d, levels)) (levels ! k) = Some (levels ! Suc k)" by (simp add: core_links_def)
qed

text \<open>
  C26: The controllers of all cores, whatever caches the cores share, are connected to a tree of caches: after the constructors of all memory
  managers have run, on controllers that have no links yet, each controller of a core has the one of the next level as its next one and the last level has none,
  and the previous levels of a cache are exactly the master controllers whose next one is a controller of this cache, each listed once. A controller
  that is not the master of its cache is in no list.
\<close>

theorem connect_caches_is_tree:
  assumes "distinct (concat (map core_cntlrs cs))" and "\<And>i. next_of i h = None \<and> prevs_of i h = []"
    and "\<And>l1i l1d levels. (l1i, l1d, levels) \<in> set cs \<Longrightarrow> levels \<noteq> []"
  shows "(p \<in> set (prevs_of i (connect_all cs h)) \<longleftrightarrow>
      isMasterCache p h \<and> (\<exists>q. next_of p (connect_all cs h) = Some q \<and> mnum q h = mnum i h))
    \<and> distinct (prevs_of i (connect_all cs h))
    \<and> (\<forall>(l1i, l1d, levels) \<in> set cs. next_of l1i (connect_all cs h) = Some (hd levels) \<and> next_of l1d (connect_all cs h) = Some (hd levels)
         \<and> next_of (last levels) (connect_all cs h) = None
         \<and> (\<forall>k. Suc k < length levels \<longrightarrow> next_of (levels ! k) (connect_all cs h) = Some (levels ! Suc k)))"
proof -
  have "wired h" using assms(2) by (simp add: wired_def)
  from connect_all_links [OF this assms(1)] assms(2)
  have w: "wired (connect_all cs h)" "\<And>j. mnum j (connect_all cs h) = mnum j h" "\<And>j. isMasterCache j (connect_all cs h) = isMasterCache j h"
    and nx: "\<And>j. next_of j (connect_all cs h) = map_of (concat (map core_links cs)) j"
    by (auto split: option.splits)
  have core: "next_of j (connect_all cs h) = map_of (core_links c) j" if "c \<in> set cs" "j \<in> set (core_cntlrs c)" for c j
    unfolding nx by (rule all_links_iff [OF assms(1) that])
  have "next_of l1i (connect_all cs h) = Some (hd levels) \<and> next_of l1d (connect_all cs h) = Some (hd levels)
      \<and> next_of (last levels) (connect_all cs h) = None
      \<and> (\<forall>k. Suc k < length levels \<longrightarrow> next_of (levels ! k) (connect_all cs h) = Some (levels ! Suc k))"
    if c: "(l1i, l1d, levels) \<in> set cs" for l1i l1d levels
  proof -
    have ne: "levels \<noteq> []" by (rule assms(3) [OF c])
    have "distinct (core_cntlrs (l1i, l1d, levels))" by (rule below_distinct [OF assms(1) c])
    from core_links_lookup [OF this ne] core [OF c] ne show ?thesis by (simp add: core_cntlrs_def)
  qed
  then show ?thesis using w by (auto simp: wired_def)
qed

text \<open>Two cores with private first and second levels that share the L3 cache of the first one.\<close>

theorem connect_caches_is_tree_witness:
  "\<exists>c. let h = (example_hier c c)\<lparr>hi_cntlrs := (\<lambda>i. (example_cache_cntlr L2_CACHE (if i = 8 then 4 else i) None)\<lparr>cc_core_id := if i = 8 then 1 else 0\<rparr>),
         hi_masters := (\<lambda>_. example_master c [])\<rparr>
       in next_of 7 (connect_all [(1, 2, [3, 4]), (5, 6, [7, 8])] h) = Some 8 \<and> 7 \<in> set (prevs_of 4 (connect_all [(1, 2, [3, 4]), (5, 6, [7, 8])] h))"
proof -
  obtain c where "plain64 c" using empty_ex by blast
  let ?h = "(example_hier c c)\<lparr>hi_cntlrs := (\<lambda>i. (example_cache_cntlr L2_CACHE (if i = 8 then 4 else i) None)\<lparr>cc_core_id := if i = 8 then 1 else 0\<rparr>),
         hi_masters := (\<lambda>_. example_master c [])\<rparr>"
  have new: "next_of i ?h = None \<and> prevs_of i ?h = []" for i by (simp add: example_hier_simps)
  have d: "distinct (concat (map core_cntlrs [(1, 2, [3, 4]), (5, 6, [7, 8])]))" by (simp add: core_cntlrs_def)
  have ne: "levels \<noteq> []" if "(l1i, l1d, levels) \<in> set [(1, 2, [3, 4]), (5, 6, [7, 8 :: nat])]" for l1i l1d :: nat and levels
    using that by auto
  note tree = connect_caches_is_tree [of "[(1, 2, [3, 4]), (5, 6, [7, 8])]" ?h 7 4, OF d new ne]
  define H where "H = connect_all [(1, 2, [3, 4]), (5, 6, [7, 8])] ?h"
  have "\<forall>k. Suc k < length [7, 8 :: nat] \<longrightarrow> next_of ([7, 8] ! k) H = Some ([7, 8] ! Suc k)"
    using tree unfolding H_def by (simp add: core_cntlrs_def)
  then have n: "next_of 7 H = Some 8" by simp
  have "7 \<in> set (prevs_of 4 H) \<longleftrightarrow> isMasterCache 7 ?h \<and> (\<exists>q. next_of 7 H = Some q \<and> mnum q ?h = mnum 4 ?h)"
    using tree unfolding H_def [symmetric] by (simp add: core_cntlrs_def)
  moreover have "isMasterCache 7 ?h" "mnum 8 ?h = mnum 4 ?h" by (simp_all add: isMasterCache_def example_hier_simps)
  ultimately have "7 \<in> set (prevs_of 4 H)" using n by simp
  with n show ?thesis unfolding H_def by (auto simp: Let_def)
qed


end
