(* ===== verification/Branch_Predictor.thy ===== *)
theory Branch_Predictor
  imports Sniper_Prelude
begin

text \<open>
  The branch predictors of \<^verbatim>\<open>performance_model/branch_predictors\<close>: the one-bit predictor and the Pentium M predictor, which combines a global
  predictor indexed with the path history, a loop predictor, a branch target buffer and a bimodal table of saturating counters. The vectors of a
  \<^verbatim>\<open>Way\<close> are one list of entries; the masks of the index functions keep every index inside the tables of the Pentium M.
\<close>

section \<open>Saturating counters\<close>

text \<open>\<^verbatim>\<open>SaturatingPredictor<n>\<close>: a signed counter of \<open>n\<close> bits, kept in an \<^verbatim>\<open>int8_t\<close>.\<close>

definition sat_predict :: "int \<Rightarrow> bool" where
  "sat_predict c = (c \<ge> 0)"

definition sat_reset :: "nat \<Rightarrow> bool \<Rightarrow> int" where
  "sat_reset n prediction = (if prediction then 2 ^ (n - 1) - 1 else - (2 ^ (n - 1)))"

definition sat_incr :: "nat \<Rightarrow> int \<Rightarrow> int" where
  "sat_incr n c = (if c \<noteq> 2 ^ (n - 1) - 1 then c + 1 else c)"

definition sat_decr :: "nat \<Rightarrow> int \<Rightarrow> int" where
  "sat_decr n c = (if c \<noteq> - (2 ^ (n - 1)) then c - 1 else c)"

definition sat_update :: "nat \<Rightarrow> bool \<Rightarrow> int \<Rightarrow> int" where
  "sat_update n actual c = (if actual then sat_incr n c else sat_decr n c)"

section \<open>Replacement\<close>

text \<open>
  The loop over the ways of a set that the predictors share: the first way that matches (\<open>Inl\<close>), or else the first one with the least use
  count (\<open>Inr\<close>).
\<close>

fun find_way :: "(nat \<Rightarrow> bool) \<Rightarrow> (nat \<Rightarrow> UInt64) \<Rightarrow> nat list \<Rightarrow> nat \<Rightarrow> nat + nat" where
  "find_way hit lru [] lru_way = Inr lru_way"
| "find_way hit lru (w # ws) lru_way =
     (if hit w then Inl w else find_way hit lru ws (if lru w < lru lru_way then w else lru_way))"

text \<open>An entry of a table of ways is changed in place.\<close>

definition upd_way :: "nat \<Rightarrow> nat \<Rightarrow> ('e \<Rightarrow> 'e) \<Rightarrow> 'e list list \<Rightarrow> 'e list list" where
  "upd_way w i f ways = ways[w := (ways ! w)[i := f (ways ! w ! i)]]"

record BranchPredictorReturnValue =
  rv_prediction :: bool
  rv_hit :: bool

section \<open>Global predictor\<close>

record gp_entry =
  ge_valid :: bool
  ge_tag :: UInt8
  ge_predictor :: int
  ge_lru :: UInt64

record GlobalPredictor =
  gp_lru_use_count :: UInt64
  gp_ways :: "gp_entry list list"

definition GlobalPredictor_create :: "nat \<Rightarrow> nat \<Rightarrow> GlobalPredictor" where
  "GlobalPredictor_create entries ways =
     \<lparr>gp_lru_use_count = 0,
      gp_ways = replicate ways (replicate (entries div ways) \<lparr>ge_valid = False, ge_tag = 0, ge_predictor = 0, ge_lru = 0\<rparr>)\<rparr>"

definition gp_index :: "IntPtr \<Rightarrow> IntPtr \<Rightarrow> nat" where
  "gp_index ip pir = unat ((drop_bit 4 ip XOR drop_bit 6 pir) AND 0x1FF)"

definition gp_tag :: "IntPtr \<Rightarrow> IntPtr \<Rightarrow> UInt8" where
  "gp_tag ip pir = ucast ((drop_bit 13 ip XOR pir) AND 0x3F)"

definition gp_hit :: "nat \<Rightarrow> UInt8 \<Rightarrow> GlobalPredictor \<Rightarrow> nat \<Rightarrow> bool" where
  "gp_hit index tag g w = (let e = gp_ways g ! w ! index in ge_valid e \<and> ge_tag e = tag)"

definition gp_predict :: "IntPtr \<Rightarrow> IntPtr \<Rightarrow> GlobalPredictor \<Rightarrow> bool" where
  "gp_predict ip pir g = (first_index (gp_hit (gp_index ip pir) (gp_tag ip pir) g) (length (gp_ways g)) \<noteq> None)"

definition gp_lookup :: "IntPtr \<Rightarrow> IntPtr \<Rightarrow> GlobalPredictor \<Rightarrow> BranchPredictorReturnValue" where
  "gp_lookup ip pir g =
     (let index = gp_index ip pir
      in case first_index (gp_hit index (gp_tag ip pir) g) (length (gp_ways g)) of
           None \<Rightarrow> \<lparr>rv_prediction = False, rv_hit = False\<rparr>
         | Some w \<Rightarrow> \<lparr>rv_prediction = sat_predict (ge_predictor (gp_ways g ! w ! index)), rv_hit = True\<rparr>)"

definition gp_update :: "bool \<Rightarrow> IntPtr \<Rightarrow> IntPtr \<Rightarrow> GlobalPredictor \<Rightarrow> GlobalPredictor" where
  "gp_update actual ip pir g =
     (let index = gp_index ip pir; tag = gp_tag ip pir; count = gp_lru_use_count g
      in case find_way (gp_hit index tag g) (\<lambda>w. ge_lru (gp_ways g ! w ! index)) [0..<length (gp_ways g)] 0 of
           Inl w \<Rightarrow>
             g\<lparr>gp_ways := upd_way w index (\<lambda>e. e\<lparr>ge_predictor := sat_update 2 actual (ge_predictor e), ge_lru := count\<rparr>) (gp_ways g),
               gp_lru_use_count := count + 1\<rparr>
         | Inr lru_way \<Rightarrow>
             g\<lparr>gp_ways := upd_way lru_way index
                 (\<lambda>e. e\<lparr>ge_valid := True, ge_tag := tag, ge_predictor := sat_reset 2 actual, ge_lru := count\<rparr>) (gp_ways g),
               gp_lru_use_count := count + 1\<rparr>)"

definition gp_evict :: "IntPtr \<Rightarrow> IntPtr \<Rightarrow> GlobalPredictor \<Rightarrow> GlobalPredictor" where
  "gp_evict ip pir g =
     (let index = gp_index ip pir
      in case first_index (gp_hit index (gp_tag ip pir) g) (length (gp_ways g)) of
           None \<Rightarrow> g
         | Some w \<Rightarrow> g\<lparr>gp_ways := upd_way w index (\<lambda>e. e\<lparr>ge_valid := False\<rparr>) (gp_ways g)\<rparr>)"

section \<open>Loop predictor\<close>

record lpb_entry =
  le_tag :: UInt8
  le_previous_actual :: bool
  le_enabled :: bool
  le_predictor :: int
  le_lru :: UInt64
  le_count :: UInt32
  le_limit :: UInt32

record LoopBranchPredictor =
  lp_lru_use_count :: UInt64
  lp_ways :: "lpb_entry list list"

definition LoopBranchPredictor_create :: "nat \<Rightarrow> nat \<Rightarrow> LoopBranchPredictor" where
  "LoopBranchPredictor_create entries ways =
     \<lparr>lp_lru_use_count = 0,
      lp_ways = replicate ways (replicate (entries div ways)
        \<lparr>le_tag = 0, le_previous_actual = False, le_enabled = False, le_predictor = 0, le_lru = 0, le_count = 0, le_limit = 0\<rparr>)\<rparr>"

definition lpb_index :: "IntPtr \<Rightarrow> nat" where
  "lpb_index ip = unat (drop_bit 4 ip AND 0x3F)"

definition lpb_tag :: "IntPtr \<Rightarrow> UInt8" where
  "lpb_tag ip = ucast (drop_bit 10 ip AND 0x3F)"

text \<open>The prediction of an entry: the other direction when the count has reached the limit.\<close>

definition lpb_prediction :: "lpb_entry \<Rightarrow> bool" where
  "lpb_prediction e = (if le_count e = le_limit e then \<not> sat_predict (le_predictor e) else sat_predict (le_predictor e))"

definition lpb_lookup :: "IntPtr \<Rightarrow> LoopBranchPredictor \<Rightarrow> BranchPredictorReturnValue \<times> LoopBranchPredictor" where
  "lpb_lookup ip l =
     (let index = lpb_index ip
      in case first_index (\<lambda>w. let e = lp_ways l ! w ! index in le_enabled e \<and> le_tag e = lpb_tag ip) (length (lp_ways l)) of
           None \<Rightarrow> (\<lparr>rv_prediction = False, rv_hit = False\<rparr>, l)
         | Some w \<Rightarrow>
             (\<lparr>rv_prediction = lpb_prediction (lp_ways l ! w ! index), rv_hit = True\<rparr>,
              l\<lparr>lp_ways := upd_way w index (\<lambda>e. e\<lparr>le_lru := lp_lru_use_count l\<rparr>) (lp_ways l), lp_lru_use_count := lp_lru_use_count l + 1\<rparr>))"

definition prediction_match :: "bool \<Rightarrow> lpb_entry \<Rightarrow> bool" where
  "prediction_match actual e =
     (if le_count e = le_limit e then sat_predict (le_predictor e) \<noteq> actual else sat_predict (le_predictor e) = actual)"

text \<open>The counter, limit and enabled flag for a branch that goes on in the direction of the entry.\<close>

definition same_direction :: "bool \<Rightarrow> lpb_entry \<Rightarrow> UInt32 \<times> UInt32 \<times> bool" where
  "same_direction actual e =
     (if \<not> prediction_match actual e
      then if le_count e < le_limit e then (0, le_count e, le_enabled e) else (le_count e + 1, le_count e + 1, False)
      else (if le_count e = le_limit e then 0 else le_count e + 1, le_limit e, le_enabled e))"

definition lpb_next :: "bool \<Rightarrow> UInt64 \<Rightarrow> lpb_entry \<Rightarrow> lpb_entry" where
  "lpb_next actual use_count e =
     (let current_prediction = sat_predict (le_predictor e);
          (same_counter, same_limit, same_enabled) = same_direction actual e;
          e' = (if le_previous_actual e = actual \<and> actual = (\<not> current_prediction)
                then e\<lparr>le_count := 1, le_limit := 1, le_predictor := sat_update 1 actual (le_predictor e), le_enabled := False\<rparr>
                else if le_previous_actual e \<noteq> actual \<and> actual = (\<not> current_prediction) \<and> \<not> le_enabled e
                then e\<lparr>le_enabled := True, le_count := 0\<rparr>
                else e\<lparr>le_enabled := same_enabled, le_count := same_counter, le_limit := same_limit\<rparr>)
      in e'\<lparr>le_previous_actual := actual, le_lru := use_count\<rparr>)"

definition lpb_update :: "bool \<Rightarrow> IntPtr \<Rightarrow> LoopBranchPredictor \<Rightarrow> LoopBranchPredictor" where
  "lpb_update actual ip l =
     (let index = lpb_index ip; tag = lpb_tag ip; count = lp_lru_use_count l
      in case find_way (\<lambda>w. le_tag (lp_ways l ! w ! index) = tag) (\<lambda>w. le_lru (lp_ways l ! w ! index)) [0..<length (lp_ways l)] 0 of
           Inl w \<Rightarrow> l\<lparr>lp_ways := upd_way w index (lpb_next actual count) (lp_ways l), lp_lru_use_count := count + 1\<rparr>
         | Inr lru_way \<Rightarrow>
             l\<lparr>lp_ways := upd_way lru_way index
                 (\<lambda>e. e\<lparr>le_tag := tag, le_predictor := sat_reset 1 actual, le_previous_actual := actual, le_lru := count, le_count := 1, le_limit := 1\<rparr>)
                 (lp_ways l),
               lp_lru_use_count := count + 1\<rparr>)"

section \<open>Bimodal table and target buffers\<close>

record SimpleBimodalTable =
  bm_mask :: IntPtr
  bm_table :: "int list"

fun ilog2_loop :: "nat \<Rightarrow> UInt32 \<Rightarrow> nat \<Rightarrow> nat" where
  "ilog2_loop 0 n i = i"
| "ilog2_loop (Suc fuel) n i = (if n > 0 then ilog2_loop fuel (drop_bit 1 n) (Suc i) else i)"

text \<open>A 32-bit number is zero after at most 32 shifts.\<close>

definition ilog2 :: "UInt32 \<Rightarrow> nat" where
  "ilog2 n = ilog2_loop 32 n 0 - 1"

definition SimpleBimodalTable_create :: "UInt32 \<Rightarrow> SimpleBimodalTable" where
  "SimpleBimodalTable_create entries =
     \<lparr>bm_mask = fold (\<lambda>i m. m OR push_bit i 1) [0..<ilog2 entries] 0, bm_table = replicate (unat entries) (sat_reset 2 False)\<rparr>"

definition bm_index :: "IntPtr \<Rightarrow> SimpleBimodalTable \<Rightarrow> nat" where
  "bm_index ip b = unat (ucast (ip AND bm_mask b) :: UInt32)"

definition bm_predict :: "IntPtr \<Rightarrow> SimpleBimodalTable \<Rightarrow> bool" where
  "bm_predict ip b = sat_predict (bm_table b ! bm_index ip b)"

definition bm_update :: "bool \<Rightarrow> IntPtr \<Rightarrow> SimpleBimodalTable \<Rightarrow> SimpleBimodalTable" where
  "bm_update actual ip b =
     (let index = bm_index ip b in b\<lparr>bm_table := (bm_table b)[index := sat_update 2 actual (bm_table b ! index)]\<rparr>)"

record btb_entry =
  be_tag_offset :: UInt32
  be_plru :: UInt64

record PentiumMBranchTargetBuffer =
  bt_ways :: "btb_entry list list"
  bt_lru_use_count :: UInt64

definition BranchTargetBuffer_create :: PentiumMBranchTargetBuffer where
  "BranchTargetBuffer_create = \<lparr>bt_ways = replicate 4 (replicate 512 \<lparr>be_tag_offset = 0, be_plru = 0\<rparr>), bt_lru_use_count = 0\<rparr>"

definition ip_to_index :: "IntPtr \<Rightarrow> nat" where
  "ip_to_index ip = unat (drop_bit 4 ip AND 0x1ff)"

definition ip_to_tagoff :: "IntPtr \<Rightarrow> UInt32" where
  "ip_to_tagoff ip = ucast (ip AND 0x3fe00f)"

definition btb_hit :: "IntPtr \<Rightarrow> PentiumMBranchTargetBuffer \<Rightarrow> nat \<Rightarrow> bool" where
  "btb_hit ip b w = (be_tag_offset (bt_ways b ! w ! ip_to_index ip) = ip_to_tagoff ip)"

definition btb_lookup :: "IntPtr \<Rightarrow> PentiumMBranchTargetBuffer \<Rightarrow> BranchPredictorReturnValue" where
  "btb_lookup ip b = \<lparr>rv_prediction = False, rv_hit = (first_index (btb_hit ip b) 4 \<noteq> None)\<rparr>"

definition btb_update :: "IntPtr \<Rightarrow> PentiumMBranchTargetBuffer \<Rightarrow> PentiumMBranchTargetBuffer" where
  "btb_update ip b =
     (let index = ip_to_index ip; count = bt_lru_use_count b
      in case find_way (btb_hit ip b) (\<lambda>w. be_plru (bt_ways b ! w ! index)) [0..<4] 0 of
           Inl w \<Rightarrow> b\<lparr>bt_ways := upd_way w index (\<lambda>e. e\<lparr>be_plru := count\<rparr>) (bt_ways b), bt_lru_use_count := count + 1\<rparr>
         | Inr lru_way \<Rightarrow>
             b\<lparr>bt_ways := upd_way lru_way index (\<lambda>e. e\<lparr>be_tag_offset := ip_to_tagoff ip, be_plru := count\<rparr>) (bt_ways b),
               bt_lru_use_count := count + 1\<rparr>)"

record IndirectBranchTargetBuffer =
  ib_table :: "UInt8 list"

definition IndirectBranchTargetBuffer_create :: "nat \<Rightarrow> IndirectBranchTargetBuffer" where
  "IndirectBranchTargetBuffer_create entries = \<lparr>ib_table = replicate entries 0\<rparr>"

definition ibtb_index :: "IntPtr \<Rightarrow> nat" where
  "ibtb_index ip = unat (drop_bit 6 ip AND 0xFF)"

definition ibtb_tag :: "IntPtr \<Rightarrow> UInt32" where
  "ibtb_tag ip = ucast (drop_bit 8 (ip AND 0x4000) OR (ip AND 0x3F))"

definition ibtb_predict :: "IntPtr \<Rightarrow> IndirectBranchTargetBuffer \<Rightarrow> bool" where
  "ibtb_predict ip b = (ucast (ib_table b ! ibtb_index ip) = ibtb_tag ip)"

definition ibtb_update :: "IntPtr \<Rightarrow> IndirectBranchTargetBuffer \<Rightarrow> IndirectBranchTargetBuffer" where
  "ibtb_update ip b = b\<lparr>ib_table := (ib_table b)[ibtb_index ip := ucast (ibtb_tag ip)]\<rparr>"

section \<open>The predictors of a core\<close>

record bp_counters =
  bc_correct :: UInt64
  bc_incorrect :: UInt64

definition bp_updateCounters :: "bool \<Rightarrow> bool \<Rightarrow> bp_counters \<Rightarrow> bp_counters" where
  "bp_updateCounters predicted actual c =
     (if predicted = actual then c\<lparr>bc_correct := bc_correct c + 1\<rparr> else c\<lparr>bc_incorrect := bc_incorrect c + 1\<rparr>)"

definition bp_resetCounters :: bp_counters where
  "bp_resetCounters = \<lparr>bc_correct = 0, bc_incorrect = 0\<rparr>"

definition OneBit_predict :: "IntPtr \<Rightarrow> bool list \<Rightarrow> bool result" where
  "OneBit_predict ip bits = (if bits = [] then Inl (Trap ''division by zero'') else Inr (bits ! (unat ip mod length bits)))"

definition OneBit_update :: "bool \<Rightarrow> IntPtr \<Rightarrow> bool list \<Rightarrow> bool list result" where
  "OneBit_update actual ip bits = (if bits = [] then Inl (Trap ''division by zero'') else Inr (bits[unat ip mod length bits := actual]))"

datatype BranchType = InvalidBranch | DirectBranch | IndirectBranch | UnconditionalBranch | ConditionalBranch

text \<open>\<^verbatim>\<open>m_last_bm_pred\<close> is not initialised by the constructor.\<close>

record PentiumMBranchPredictor =
  pm_global_predictor :: GlobalPredictor
  pm_btb :: PentiumMBranchTargetBuffer
  pm_bimodal_table :: SimpleBimodalTable
  pm_lpb :: LoopBranchPredictor
  pm_pir :: IntPtr
  pm_last_gp_hit :: bool
  pm_last_bm_pred :: bool
  pm_last_lpb_hit :: bool

definition PentiumM_create :: "bool \<Rightarrow> PentiumMBranchPredictor" where
  "PentiumM_create uninit =
     \<lparr>pm_global_predictor = GlobalPredictor_create 2048 4, pm_btb = BranchTargetBuffer_create,
      pm_bimodal_table = SimpleBimodalTable_create 4096, pm_lpb = LoopBranchPredictor_create 128 2, pm_pir = 0,
      pm_last_gp_hit = False, pm_last_bm_pred = uninit, pm_last_lpb_hit = False\<rparr>"

definition PentiumM_predict :: "IntPtr \<Rightarrow> PentiumMBranchPredictor \<Rightarrow> bool \<times> PentiumMBranchPredictor" where
  "PentiumM_predict ip p =
     (let global_pred_out = gp_lookup ip (pm_pir p) (pm_global_predictor p);
          btb_out = btb_lookup ip (pm_btb p);
          (lpb_out, lpb) = lpb_lookup ip (pm_lpb p);
          bimodal_out = bm_predict ip (pm_bimodal_table p);
          p = p\<lparr>pm_lpb := lpb, pm_last_gp_hit := rv_hit global_pred_out, pm_last_bm_pred := bimodal_out,
                pm_last_lpb_hit := (rv_hit lpb_out \<and> rv_hit btb_out)\<rparr>
      in (if rv_hit global_pred_out then rv_prediction global_pred_out
          else if rv_hit lpb_out \<and> rv_hit btb_out then rv_prediction lpb_out
          else bimodal_out, p))"

definition update_pir :: "bool \<Rightarrow> IntPtr \<Rightarrow> IntPtr \<Rightarrow> BranchType \<Rightarrow> IntPtr \<Rightarrow> IntPtr" where
  "update_pir actual ip target branch_type pir =
     (if branch_type = ConditionalBranch \<and> actual then (push_bit 2 pir XOR drop_bit 4 ip) AND 0x7fff
      else if branch_type = IndirectBranch then (push_bit 2 pir XOR (drop_bit 4 ip OR target)) AND 0x7fff
      else pir)"

definition PentiumM_update :: "bool \<Rightarrow> bool \<Rightarrow> IntPtr \<Rightarrow> IntPtr \<Rightarrow> PentiumMBranchPredictor \<Rightarrow> PentiumMBranchPredictor" where
  "PentiumM_update predicted actual ip target p =
     (let p = p\<lparr>pm_btb := btb_update ip (pm_btb p), pm_lpb := lpb_update actual ip (pm_lpb p)\<rparr>;
          p = (if \<not> pm_last_gp_hit p \<and> \<not> pm_last_lpb_hit p then p\<lparr>pm_bimodal_table := bm_update actual ip (pm_bimodal_table p)\<rparr> else p);
          lpb_or_bm_hit = (pm_last_lpb_hit p \<or> pm_last_bm_pred p = actual);
          g = pm_global_predictor p;
          g' = (if pm_last_gp_hit p
                then if predicted \<noteq> actual \<and> lpb_or_bm_hit then gp_evict ip (pm_pir p) g else gp_update actual ip (pm_pir p) g
                else if predicted \<noteq> actual \<and> (pm_last_gp_hit p \<or> \<not> lpb_or_bm_hit) then gp_update actual ip (pm_pir p) g
                else g)
      in p\<lparr>pm_global_predictor := g', pm_pir := update_pir actual ip target ConditionalBranch (pm_pir p)\<rparr>)"

datatype bp_kind = BP_OneBit "bool list" | BP_PentiumM PentiumMBranchPredictor

record BranchPredictor =
  bp_counters :: bp_counters
  bp_kind :: bp_kind

definition BranchPredictor_create :: "string \<Rightarrow> UInt32 \<Rightarrow> bool \<Rightarrow> BranchPredictor option result" where
  "BranchPredictor_create type n uninit =
     (if type = ''none'' then Inr None
      else if type = ''one_bit'' then Inr (Some \<lparr>bp_counters = bp_resetCounters, bp_kind = BP_OneBit (replicate (unat n) False)\<rparr>)
      else if type = ''pentium_m'' then Inr (Some \<lparr>bp_counters = bp_resetCounters, bp_kind = BP_PentiumM (PentiumM_create uninit)\<rparr>)
      else Inl (LogError ''Invalid branch predictor type.''))"

definition bp_predict :: "IntPtr \<Rightarrow> BranchPredictor \<Rightarrow> (bool \<times> BranchPredictor) result" where
  "bp_predict ip b =
     (case bp_kind b of
        BP_OneBit bits \<Rightarrow> bindR (OneBit_predict ip bits) (\<lambda>r. Inr (r, b))
      | BP_PentiumM p \<Rightarrow> (case PentiumM_predict ip p of (r, p) \<Rightarrow> Inr (r, b\<lparr>bp_kind := BP_PentiumM p\<rparr>)))"

definition bp_update :: "bool \<Rightarrow> bool \<Rightarrow> IntPtr \<Rightarrow> IntPtr \<Rightarrow> BranchPredictor \<Rightarrow> BranchPredictor result" where
  "bp_update predicted actual ip target b =
     (let b = b\<lparr>bp_counters := bp_updateCounters predicted actual (bp_counters b)\<rparr>
      in case bp_kind b of
           BP_OneBit bits \<Rightarrow> bindR (OneBit_update actual ip bits) (\<lambda>bits. Inr (b\<lparr>bp_kind := BP_OneBit bits\<rparr>))
         | BP_PentiumM p \<Rightarrow> Inr (b\<lparr>bp_kind := BP_PentiumM (PentiumM_update predicted actual ip target p)\<rparr>))"

text \<open>\<^verbatim>\<open>Core::accessBranchPredictor\<close>: the first result says whether the branch was mispredicted.\<close>

definition accessBranchPredictor :: "IntPtr \<Rightarrow> bool \<Rightarrow> IntPtr \<Rightarrow> BranchPredictor option \<Rightarrow> (bool \<times> BranchPredictor option) result" where
  "accessBranchPredictor eip taken target bp =
     (case bp of
        None \<Rightarrow> Inr (False, None)
      | Some b \<Rightarrow>
          bindR (bp_predict eip b) (\<lambda>(prediction, b).
          bindR (bp_update prediction taken eip target b) (\<lambda>b. Inr (prediction \<noteq> taken, Some b))))"

section \<open>Searching and updating the ways\<close>

lemma find_way_Inl:
  "find_way hit lru ws x = Inl w \<Longrightarrow> w \<in> set ws \<and> hit w"
  by (induction ws arbitrary: x) (auto split: if_splits)

lemma find_way_Inr:
  "find_way hit lru ws x = Inr w \<Longrightarrow> (\<forall>v\<in>set ws. \<not> hit v) \<and> (w = x \<or> w \<in> set ws)"
  by (induction ws arbitrary: x) (fastforce split: if_splits)+

lemma find_way_only:
  assumes "w \<in> set ws" "\<And>v. v \<in> set ws \<Longrightarrow> hit v \<longleftrightarrow> v = w"
  shows "find_way hit lru ws x = Inl w"
  using assms by (induction ws arbitrary: x) auto

lemma find_way_none:
  assumes "\<And>v. v \<in> set ws \<Longrightarrow> \<not> hit v"
  shows "\<exists>w. find_way hit lru ws x = Inr w \<and> (w = x \<or> w \<in> set ws)"
  using assms find_way_Inl [of hit lru ws x] find_way_Inr [of hit lru ws x] by (cases "find_way hit lru ws x") auto

lemma length_upd_way [simp]: "length (upd_way w i f ways) = length ways"
  by (simp add: upd_way_def)

lemma upd_way_nth:
  "w < length ways \<Longrightarrow> i < length (ways ! w) \<Longrightarrow> v < length ways \<Longrightarrow>
   upd_way w i f ways ! v ! j = (if v = w \<and> j = i then f (ways ! w ! i) else ways ! v ! j)"
  by (auto simp: upd_way_def nth_list_update)

lemma length_upd_way_nth [simp]:
  "v < length ways \<Longrightarrow> length (upd_way w i f ways ! v) = length (ways ! v)"
  by (cases "w < length ways") (auto simp: upd_way_def nth_list_update)

text \<open>A table of \<open>n\<close> ways of \<open>m\<close> entries that all satisfy \<open>P\<close>.\<close>

definition table_ok :: "nat \<Rightarrow> nat \<Rightarrow> ('e \<Rightarrow> bool) \<Rightarrow> 'e list list \<Rightarrow> bool" where
  "table_ok n m P ways = (length ways = n \<and> (\<forall>way\<in>set ways. length way = m \<and> (\<forall>e\<in>set way. P e)))"

lemma table_ok_nth:
  "table_ok n m P ways \<longleftrightarrow> length ways = n \<and> (\<forall>w<n. length (ways ! w) = m \<and> (\<forall>i<m. P (ways ! w ! i)))"
  by (auto simp: table_ok_def all_set_conv_all_nth)

lemma table_ok_replicate: "P e \<Longrightarrow> table_ok n m P (replicate n (replicate m e))"
  by (auto simp: table_ok_nth)

lemma table_ok_upd:
  assumes "table_ok n m P ways" "w < n" "i < m" "\<And>e. P e \<Longrightarrow> P (f e)"
  shows "table_ok n m P (upd_way w i f ways)"
  using assms by (auto simp: table_ok_nth upd_way_nth)

text \<open>The masks keep the indices inside the tables.\<close>

lemma unat_and_le: "unat (a AND b) \<le> unat (b :: 'a::len word)"
  using word_and_le1 [of a b] by (simp add: word_le_nat_alt)

lemma index_bounds:
  "gp_index ip pir < 512" "lpb_index ip < 64" "ip_to_index ip < 512" "ibtb_index ip < 256"
  using unat_and_le [of "drop_bit 4 ip XOR drop_bit 6 pir" "0x1FF"] unat_and_le [of "drop_bit 4 ip" "0x3F"]
    unat_and_le [of "drop_bit 4 ip" "0x1ff"] unat_and_le [of "drop_bit 6 ip" "0xFF"]
  by (simp_all add: gp_index_def lpb_index_def ip_to_index_def ibtb_index_def)

section \<open>Saturation\<close>

definition sat_ok :: "nat \<Rightarrow> int \<Rightarrow> bool" where
  "sat_ok n c = (- (2 ^ (n - 1)) \<le> c \<and> c < 2 ^ (n - 1))"

lemma sat_ok_update: "sat_ok n c \<Longrightarrow> sat_ok n (sat_update n actual c)"
  by (auto simp: sat_ok_def sat_update_def sat_incr_def sat_decr_def)

lemma sat_ok_reset [simp]: "sat_ok n (sat_reset n actual)"
  by (auto simp: sat_ok_def sat_reset_def)

lemma sat_predict_reset [simp]: "sat_predict (sat_reset (Suc n) actual) = actual"
  by (auto simp: sat_predict_def sat_reset_def)

section \<open>The loop predictor learns the length of a loop\<close>

text \<open>A branch is looked up and then updated with its outcome, as \<^verbatim>\<open>Core::accessBranchPredictor\<close> does.\<close>

definition lpb_step :: "IntPtr \<Rightarrow> bool \<Rightarrow> LoopBranchPredictor \<Rightarrow> BranchPredictorReturnValue \<times> LoopBranchPredictor" where
  "lpb_step ip actual l = (case lpb_lookup ip l of (r, l) \<Rightarrow> (r, lpb_update actual ip l))"

fun lpb_trace :: "IntPtr \<Rightarrow> bool list \<Rightarrow> LoopBranchPredictor \<Rightarrow> BranchPredictorReturnValue list" where
  "lpb_trace ip [] l = []"
| "lpb_trace ip (a # as) l = (case lpb_step ip a l of (r, l) \<Rightarrow> r # lpb_trace ip as l)"

text \<open>The same on the entry of the branch alone.\<close>

definition entry_value :: "lpb_entry \<Rightarrow> BranchPredictorReturnValue" where
  "entry_value e = (if le_enabled e then \<lparr>rv_prediction = lpb_prediction e, rv_hit = True\<rparr> else \<lparr>rv_prediction = False, rv_hit = False\<rparr>)"

fun entry_trace :: "bool list \<Rightarrow> lpb_entry \<Rightarrow> BranchPredictorReturnValue list" where
  "entry_trace [] e = []"
| "entry_trace (a # as) e = entry_value e # entry_trace as (lpb_next a 0 e)"

definition in_way :: "IntPtr \<Rightarrow> nat \<Rightarrow> lpb_entry \<Rightarrow> LoopBranchPredictor \<Rightarrow> bool" where
  "in_way ip w e l =
     (w < length (lp_ways l) \<and> lpb_index ip < length (lp_ways l ! w)
      \<and> (\<forall>v<length (lp_ways l). le_tag (lp_ways l ! v ! lpb_index ip) = lpb_tag ip \<longleftrightarrow> v = w)
      \<and> (\<exists>t. lp_ways l ! w ! lpb_index ip = e\<lparr>le_lru := t\<rparr>))"

definition absent :: "IntPtr \<Rightarrow> LoopBranchPredictor \<Rightarrow> bool" where
  "absent ip l =
     (lp_ways l \<noteq> [] \<and> (\<forall>v<length (lp_ways l). lpb_index ip < length (lp_ways l ! v) \<and> le_tag (lp_ways l ! v ! lpb_index ip) \<noteq> lpb_tag ip))"

lemma first_index_only:
  assumes "w < n" "\<And>v. v < n \<Longrightarrow> hit v \<longleftrightarrow> v = w \<and> b"
  shows "first_index hit n = (if b then Some w else None)"
proof (cases b)
  case True
  then have "find hit [0..<n] = Some w" using assms by (auto simp: find_Some_iff intro!: exI [of _ w])
  then show ?thesis using True by (simp add: first_index_def)
next
  case False
  then have "find hit [0..<n] = None" using assms by (auto simp: find_None_iff)
  then show ?thesis using False by (simp add: first_index_def)
qed

lemma lpb_next_lru:
  "lpb_next a n (e\<lparr>le_lru := t\<rparr>) = (lpb_next a 0 e)\<lparr>le_lru := n\<rparr>" "lpb_prediction (e\<lparr>le_lru := t\<rparr>) = lpb_prediction e"
  "le_tag (lpb_next a n e) = le_tag e"
  by (auto simp: lpb_next_def same_direction_def prediction_match_def lpb_prediction_def Let_def split: prod.splits)

lemma lookup_in_way:
  assumes "in_way ip w e l"
  shows "\<exists>l'. lpb_lookup ip l = (entry_value e, l') \<and> in_way ip w e l'"
proof -
  obtain t where e: "lp_ways l ! w ! lpb_index ip = e\<lparr>le_lru := t\<rparr>" and w: "w < length (lp_ways l)" "lpb_index ip < length (lp_ways l ! w)"
    and tags: "\<And>v. v < length (lp_ways l) \<Longrightarrow> le_tag (lp_ways l ! v ! lpb_index ip) = lpb_tag ip \<longleftrightarrow> v = w"
    using assms by (auto simp: in_way_def)
  have "first_index (\<lambda>w. let e = lp_ways l ! w ! lpb_index ip in le_enabled e \<and> le_tag e = lpb_tag ip) (length (lp_ways l)) =
      (if le_enabled e then Some w else None)"
    by (rule first_index_only [OF w(1)]) (use tags e in \<open>auto simp: Let_def\<close>)
  moreover have "le_tag e = lpb_tag ip" using tags [OF w(1)] e by simp
  ultimately show ?thesis using assms e w tags
    by (auto simp: lpb_lookup_def entry_value_def in_way_def upd_way_nth lpb_next_lru)
qed

lemma update_in_way:
  assumes "in_way ip w e l"
  shows "in_way ip w (lpb_next a 0 e) (lpb_update a ip l)"
proof -
  obtain t where e: "lp_ways l ! w ! lpb_index ip = e\<lparr>le_lru := t\<rparr>" and w: "w < length (lp_ways l)" "lpb_index ip < length (lp_ways l ! w)"
    and tags: "\<And>v. v < length (lp_ways l) \<Longrightarrow> le_tag (lp_ways l ! v ! lpb_index ip) = lpb_tag ip \<longleftrightarrow> v = w"
    using assms by (auto simp: in_way_def)
  have "find_way (\<lambda>w. le_tag (lp_ways l ! w ! lpb_index ip) = lpb_tag ip) (\<lambda>w. le_lru (lp_ways l ! w ! lpb_index ip)) [0..<length (lp_ways l)] 0 = Inl w"
    by (rule find_way_only) (use w tags in auto)
  moreover have "le_tag e = lpb_tag ip" using tags [OF w(1)] e by simp
  ultimately show ?thesis using e w tags
    by (auto simp: lpb_update_def in_way_def upd_way_nth lpb_next_lru Let_def)
qed

lemma trace_in_way: "in_way ip w e l \<Longrightarrow> lpb_trace ip as l = entry_trace as e"
proof (induction as arbitrary: e l)
  case (Cons a as)
  obtain l' where "lpb_lookup ip l = (entry_value e, l')" "in_way ip w e l'" using lookup_in_way [OF Cons.prems] by blast
  then show ?case using Cons.IH [OF update_in_way] by (simp add: lpb_step_def)
qed simp

text \<open>A branch that is not in the table takes the least recently used entry of its set, with the enabled flag of the branch it replaces.\<close>

definition new_loop_entry :: "UInt8 \<Rightarrow> bool \<Rightarrow> bool \<Rightarrow> lpb_entry" where
  "new_loop_entry tag a en =
     \<lparr>le_tag = tag, le_previous_actual = a, le_enabled = en, le_predictor = sat_reset 1 a, le_lru = 0, le_count = 1, le_limit = 1\<rparr>"

lemma step_absent:
  assumes "absent ip l"
  shows "\<exists>l' w en. lpb_step ip a l = (\<lparr>rv_prediction = False, rv_hit = False\<rparr>, l') \<and> in_way ip w (new_loop_entry (lpb_tag ip) a en) l'"
proof -
  let ?i = "lpb_index ip"
  have look: "lpb_lookup ip l = (\<lparr>rv_prediction = False, rv_hit = False\<rparr>, l)"
  proof -
    have "first_index (\<lambda>w. let e = lp_ways l ! w ! ?i in le_enabled e \<and> le_tag e = lpb_tag ip) (length (lp_ways l)) = None"
      using assms by (auto simp: first_index_def find_None_iff absent_def Let_def)
    then show ?thesis by (simp add: lpb_lookup_def)
  qed
  obtain w where fw: "find_way (\<lambda>w. le_tag (lp_ways l ! w ! ?i) = lpb_tag ip) (\<lambda>w. le_lru (lp_ways l ! w ! ?i)) [0..<length (lp_ways l)] 0 = Inr w"
    and w: "w < length (lp_ways l)"
    using find_way_none [of "[0..<length (lp_ways l)]" "\<lambda>w. le_tag (lp_ways l ! w ! ?i) = lpb_tag ip" "\<lambda>w. le_lru (lp_ways l ! w ! ?i)" 0] assms
    by (auto simp: absent_def)
  let ?l = "lpb_update a ip l"
  have "in_way ip w (new_loop_entry (lpb_tag ip) a (le_enabled (lp_ways l ! w ! ?i))) ?l"
    using assms w fw by (auto simp: in_way_def absent_def lpb_update_def new_loop_entry_def upd_way_nth Let_def intro!: exI [of _ "lp_lru_use_count l"] lpb_entry.equality)
  then show ?thesis using look by (auto simp: lpb_step_def)
qed

text \<open>An entry that has learnt a loop of \<open>n\<close> branches in direction \<open>d\<close>, at the \<open>c\<close>-th of them.\<close>

definition learnt :: "bool \<Rightarrow> UInt32 \<Rightarrow> UInt32 \<Rightarrow> lpb_entry \<Rightarrow> bool" where
  "learnt d n c e = (le_enabled e \<and> le_limit e = n \<and> le_count e = c \<and> sat_predict (le_predictor e) = d \<and> (c = n \<longrightarrow> le_previous_actual e = d))"

definition counting :: "bool \<Rightarrow> UInt32 \<Rightarrow> lpb_entry \<Rightarrow> bool" where
  "counting d c e =
     (le_limit e = c \<and> le_count e = c \<and> sat_predict (le_predictor e) = d \<and> le_previous_actual e = d \<and> (le_enabled e \<longrightarrow> c = 1))"

lemmas entry_defs = learnt_def counting_def lpb_next_def same_direction_def prediction_match_def lpb_prediction_def entry_value_def

lemma counting_more: "counting d c e \<Longrightarrow> counting d (c + 1) (lpb_next d t e)"
  by (auto simp: entry_defs)

lemma counting_done: "counting d c e \<Longrightarrow> c \<noteq> 0 \<Longrightarrow> learnt d c 0 (lpb_next (\<not> d) t e)"
  by (auto simp: entry_defs)

lemma learnt_more:
  "learnt d n c e \<Longrightarrow> c \<noteq> n \<Longrightarrow> entry_value e = \<lparr>rv_prediction = d, rv_hit = True\<rparr> \<and> learnt d n (c + 1) (lpb_next d t e)"
  by (auto simp: entry_defs)

lemma learnt_done:
  "learnt d n n e \<Longrightarrow> n \<noteq> 0 \<Longrightarrow> entry_value e = \<lparr>rv_prediction = (\<not> d), rv_hit = True\<rparr> \<and> learnt d n 0 (lpb_next (\<not> d) t e)"
  by (auto simp: entry_defs)

lemma entry_trace_append:
  "entry_trace (as @ bs) e = entry_trace as e @ entry_trace bs (foldl (\<lambda>e a. lpb_next a 0 e) e as)"
  by (induction as arbitrary: e) auto

lemma length_entry_trace [simp]: "length (entry_trace as e) = length as"
  by (induction as arbitrary: e) auto

abbreviation next_all :: "lpb_entry \<Rightarrow> bool list \<Rightarrow> lpb_entry" where
  "next_all \<equiv> foldl (\<lambda>e a. lpb_next a 0 e)"

abbreviation exact :: "bool list \<Rightarrow> BranchPredictorReturnValue list" where
  "exact \<equiv> map (\<lambda>a. \<lparr>rv_prediction = a, rv_hit = True\<rparr>)"

lemma counting_replicate: "counting d c e \<Longrightarrow> counting d (c + of_nat k) (next_all e (replicate k d))"
proof (induction k arbitrary: c e)
  case (Suc k)
  from Suc.IH [OF counting_more [OF Suc.prems]] show ?case by (simp add: algebra_simps)
qed simp

lemma learnt_replicate:
  "learnt d (of_nat n) (of_nat c) e \<Longrightarrow> c + k \<le> n \<Longrightarrow> n < 2 ^ 32 \<Longrightarrow>
   entry_trace (replicate k d) e = exact (replicate k d) \<and> learnt d (of_nat n) (of_nat (c + k)) (next_all e (replicate k d))"
proof (induction k arbitrary: c e)
  case (Suc k)
  have ne: "(of_nat c :: UInt32) \<noteq> of_nat n" using Suc.prems(2,3) by (simp add: word_unat_eq_iff unat_of_nat take_bit_nat_eq_self)
  from learnt_more [OF Suc.prems(1) ne, of 0] have e: "entry_value e = \<lparr>rv_prediction = d, rv_hit = True\<rparr>"
    and l: "learnt d (of_nat n) (of_nat (Suc c)) (lpb_next d 0 e)" by (simp_all add: add.commute)
  from Suc.IH [OF l] Suc.prems(2,3) e show ?case by simp
qed simp

abbreviation iteration :: "nat \<Rightarrow> bool \<Rightarrow> bool list" where
  "iteration n d \<equiv> replicate n d @ [\<not> d]"

lemma learnt_iteration:
  assumes "learnt d (of_nat n) 0 e" "0 < n" "n < 2 ^ 32"
  shows "entry_trace (iteration n d) e = exact (iteration n d) \<and> learnt d (of_nat n) 0 (next_all e (iteration n d))"
proof -
  have "(of_nat n :: UInt32) \<noteq> 0" using assms(2,3) by (simp add: word_unat_eq_iff unat_of_nat take_bit_nat_eq_self)
  then show ?thesis
    using learnt_replicate [of d n 0 e n] learnt_done [of d "of_nat n" "next_all e (replicate n d)" 0] assms
    by (simp add: entry_trace_append)
qed

lemma learnt_iterations:
  assumes "learnt d (of_nat n) 0 e" "0 < n" "n < 2 ^ 32"
  shows "entry_trace (concat (replicate k (iteration n d))) e = exact (concat (replicate k (iteration n d)))"
  using assms(1)
proof (induction k arbitrary: e)
  case (Suc k)
  from learnt_iteration [OF Suc.prems assms(2,3)] Suc.IH show ?case by (simp only: replicate_Suc concat.simps entry_trace_append map_append)
qed simp

text \<open>
  C22: The loop predictor learns a loop in one pass. Take a branch that is in no way of its set and goes \<open>n\<close> times in one direction and then
  once in the other, again and again. From the second pass on, every lookup hits and predicts the outcome, including the exit of the loop,
  whatever was in the entry the branch was given.
\<close>

theorem lpb_learns_loop:
  assumes "absent ip l" "0 < n" "n < 2 ^ 32"
  shows "drop (Suc n) (lpb_trace ip (concat (replicate (Suc k) (iteration n d))) l) = exact (concat (replicate k (iteration n d)))"
proof -
  obtain m where n: "n = Suc m" using assms(2) by (cases n) auto
  let ?rest = "concat (replicate k (iteration n d))"
  obtain l' w en where st: "lpb_step ip d l = (\<lparr>rv_prediction = False, rv_hit = False\<rparr>, l')"
    and iw: "in_way ip w (new_loop_entry (lpb_tag ip) d en) l'" using step_absent [OF assms(1)] by blast
  let ?e = "new_loop_entry (lpb_tag ip) d en"
  have "counting d 1 ?e" by (simp add: counting_def new_loop_entry_def sat_predict_reset [of 0, simplified])
  from counting_replicate [OF this, of m] have c: "counting d (of_nat n) (next_all ?e (replicate m d))" by (simp add: n)
  have "(of_nat n :: UInt32) \<noteq> 0" using assms(2,3) by (simp add: word_unat_eq_iff unat_of_nat take_bit_nat_eq_self)
  from counting_done [OF c this, of 0] have l0: "learnt d (of_nat n) 0 (next_all ?e (iteration m d))" by simp
  have "lpb_trace ip (concat (replicate (Suc k) (iteration n d))) l =
      \<lparr>rv_prediction = False, rv_hit = False\<rparr> # entry_trace (iteration m d @ ?rest) ?e"
    using st trace_in_way [OF iw, of "iteration m d @ ?rest"] by (simp add: n)
  also have "drop (Suc n) \<dots> = entry_trace ?rest (next_all ?e (iteration m d))"
    by (subst entry_trace_append) (simp add: n)
  also have "\<dots> = exact ?rest" by (rule learnt_iterations [OF l0 assms(2,3)])
  finally show ?thesis .
qed

theorem lpb_learns_loop_witness:
  "absent 0x400 (LoopBranchPredictor_create 2 2)
   \<and> drop (Suc 3) (lpb_trace 0x400 (concat (replicate (Suc 2) (iteration 3 True))) (LoopBranchPredictor_create 2 2)) =
       exact (concat (replicate 2 (iteration 3 True)))"
proof -
  have a: "absent 0x400 (LoopBranchPredictor_create 2 2)"
    by code_simp
  from lpb_learns_loop [OF a, of 3 2 True] a show ?thesis by simp
qed

section \<open>The tables of the Pentium M keep their shape\<close>

definition PentiumM_ok :: "PentiumMBranchPredictor \<Rightarrow> bool" where
  "PentiumM_ok p =
     (table_ok 4 512 (\<lambda>e. sat_ok 2 (ge_predictor e)) (gp_ways (pm_global_predictor p))
      \<and> table_ok 2 64 (\<lambda>e. sat_ok 1 (le_predictor e)) (lp_ways (pm_lpb p))
      \<and> table_ok 4 512 (\<lambda>e. True) (bt_ways (pm_btb p))
      \<and> bm_mask (pm_bimodal_table p) = 0xFFF \<and> length (bm_table (pm_bimodal_table p)) = 4096
      \<and> (\<forall>c\<in>set (bm_table (pm_bimodal_table p)). sat_ok 2 c)
      \<and> pm_pir p \<le> 0x7fff)"

lemma find_way_upt:
  "find_way hit lru [0..<n] 0 = Inl w \<Longrightarrow> w < n"
  "0 < n \<Longrightarrow> find_way hit lru [0..<n] 0 = Inr w \<Longrightarrow> w < n"
  using find_way_Inl [of hit lru "[0..<n]" 0 w] find_way_Inr [of hit lru "[0..<n]" 0 w] by auto

lemma gp_update_ok:
  "table_ok 4 512 (\<lambda>e. sat_ok 2 (ge_predictor e)) (gp_ways g) \<Longrightarrow>
   table_ok 4 512 (\<lambda>e. sat_ok 2 (ge_predictor e)) (gp_ways (gp_update actual ip pir g))"
  by (auto simp: gp_update_def Let_def sat_ok_update table_ok_nth upd_way_nth index_bounds
      dest!: find_way_upt(1) find_way_upt(2) [rotated] split: sum.splits)

lemma first_index_less: "first_index hit n = Some w \<Longrightarrow> w < n"
  by (auto simp: first_index_def find_Some_iff)

lemma gp_evict_ok:
  "table_ok 4 512 (\<lambda>e. sat_ok 2 (ge_predictor e)) (gp_ways g) \<Longrightarrow>
   table_ok 4 512 (\<lambda>e. sat_ok 2 (ge_predictor e)) (gp_ways (gp_evict ip pir g))"
  by (auto simp: gp_evict_def Let_def index_bounds table_ok_nth upd_way_nth dest!: first_index_less split: option.splits)

lemma lpb_lookup_ok:
  "table_ok 2 64 (\<lambda>e. sat_ok 1 (le_predictor e)) (lp_ways l) \<Longrightarrow>
   table_ok 2 64 (\<lambda>e. sat_ok 1 (le_predictor e)) (lp_ways (snd (lpb_lookup ip l)))"
  by (auto simp: lpb_lookup_def Let_def index_bounds table_ok_nth upd_way_nth dest!: first_index_less split: option.splits)

lemma lpb_next_ok: "sat_ok 1 (le_predictor e) \<Longrightarrow> sat_ok 1 (le_predictor (lpb_next actual t e))"
  using sat_ok_update [of 1 "le_predictor e" actual] by (auto simp: lpb_next_def Let_def split: prod.splits)

lemma lpb_update_ok:
  "table_ok 2 64 (\<lambda>e. sat_ok 1 (le_predictor e)) (lp_ways l) \<Longrightarrow>
   table_ok 2 64 (\<lambda>e. sat_ok 1 (le_predictor e)) (lp_ways (lpb_update actual ip l))"
  using sat_ok_reset [of 1 actual]
  by (auto simp: lpb_update_def Let_def lpb_next_ok [simplified] table_ok_nth upd_way_nth index_bounds
      dest!: find_way_upt(1) find_way_upt(2) [rotated] split: sum.splits)

lemma btb_update_ok: "table_ok 4 512 (\<lambda>e. True) (bt_ways b) \<Longrightarrow> table_ok 4 512 (\<lambda>e. True) (bt_ways (btb_update ip b))"
  by (auto simp: btb_update_def Let_def table_ok_nth split: sum.splits)

lemma bm_index_bound: "bm_mask b = 0xFFF \<Longrightarrow> bm_index ip b < 4096"
  using unat_and_le [of ip "0xFFF"] by (simp add: bm_index_def unsigned_ucast_eq take_bit_nat_eq_self)

lemma bm_update_ok:
  assumes "bm_mask b = 0xFFF" "length (bm_table b) = 4096" "\<forall>c\<in>set (bm_table b). sat_ok 2 c"
  shows "length (bm_table (bm_update actual ip b)) = 4096 \<and> (\<forall>c\<in>set (bm_table (bm_update actual ip b)). sat_ok 2 c)"
  using assms bm_index_bound [OF assms(1), of ip] sat_ok_update [of 2 _ actual]
  by (auto simp: bm_update_def Let_def dest!: set_update_subset_insert [THEN subsetD])

lemma update_pir_bound: "pir \<le> 0x7fff \<Longrightarrow> update_pir actual ip target t pir \<le> 0x7fff"
  by (auto simp: update_pir_def word_and_le1)

lemma PentiumM_create_ok: "PentiumM_ok (PentiumM_create uninit)"
proof -
  have "bm_mask (SimpleBimodalTable_create 4096) = 0xFFF" by code_simp
  moreover have "bm_table (SimpleBimodalTable_create 4096) = replicate 4096 (sat_reset 2 False)"
    by (simp add: SimpleBimodalTable_create_def)
  ultimately show ?thesis
    by (auto simp: PentiumM_ok_def PentiumM_create_def GlobalPredictor_create_def LoopBranchPredictor_create_def BranchTargetBuffer_create_def
        sat_ok_def intro!: table_ok_replicate) (auto simp: sat_reset_def)
qed

lemma PentiumM_predict_ok: "PentiumM_ok p \<Longrightarrow> PentiumM_ok (snd (PentiumM_predict ip p))"
  using lpb_lookup_ok [of "pm_lpb p" ip] by (auto simp: PentiumM_ok_def PentiumM_predict_def Let_def split: prod.splits)

lemma bm_update_mask [simp]: "bm_mask (bm_update actual ip b) = bm_mask b"
  by (simp add: bm_update_def Let_def)

lemma PentiumM_update_ok:
  assumes "PentiumM_ok p"
  shows "PentiumM_ok (PentiumM_update predicted actual ip target p)"
  using assms bm_update_ok [of "pm_bimodal_table p" actual ip]
  by (simp add: PentiumM_ok_def PentiumM_update_def Let_def lpb_update_ok [simplified] btb_update_ok gp_update_ok gp_evict_ok update_pir_bound)

text \<open>The conditional branches of a core, in order: address, outcome and target. The results say which were mispredicted.\<close>

fun access_all :: "(IntPtr \<times> bool \<times> IntPtr) list \<Rightarrow> BranchPredictor option \<Rightarrow> (bool list \<times> BranchPredictor option) result" where
  "access_all [] b = Inr ([], b)"
| "access_all ((eip, taken, target) # bs) b =
     bindR (accessBranchPredictor eip taken target b) (\<lambda>(miss, b). bindR (access_all bs b) (\<lambda>(misses, b). Inr (miss # misses, b)))"

definition counted :: "bool list \<Rightarrow> bp_counters \<Rightarrow> bp_counters \<Rightarrow> bool" where
  "counted misses c c' =
     (bc_incorrect c' = bc_incorrect c + of_nat (length (filter (\<lambda>m. m) misses))
      \<and> bc_correct c' = bc_correct c + of_nat (length (filter (\<lambda>m. \<not> m) misses)))"

lemma access_PentiumM:
  assumes "PentiumM_ok p"
  shows "\<exists>m p' c'. accessBranchPredictor eip taken target (Some \<lparr>bp_counters = c, bp_kind = BP_PentiumM p\<rparr>) =
           Inr (m, Some \<lparr>bp_counters = c', bp_kind = BP_PentiumM p'\<rparr>) \<and> PentiumM_ok p' \<and> counted [m] c c'"
proof -
  obtain r p1 where p: "PentiumM_predict eip p = (r, p1)" by fastforce
  then have "PentiumM_ok p1" using PentiumM_predict_ok [OF assms, of eip] by simp
  then show ?thesis using p PentiumM_update_ok [of p1 r taken eip target]
    by (auto simp: accessBranchPredictor_def bp_predict_def bp_update_def bindR_def counted_def bp_updateCounters_def Let_def)
qed

lemma counted_Cons: "counted [m] c c1 \<Longrightarrow> counted ms c1 c2 \<Longrightarrow> counted (m # ms) c c2"
  by (auto simp: counted_def split: if_splits)

lemma access_all_PentiumM:
  assumes "PentiumM_ok p"
  shows "\<exists>ms p' c'. access_all bs (Some \<lparr>bp_counters = c, bp_kind = BP_PentiumM p\<rparr>) =
           Inr (ms, Some \<lparr>bp_counters = c', bp_kind = BP_PentiumM p'\<rparr>) \<and> length ms = length bs \<and> PentiumM_ok p' \<and> counted ms c c'"
  using assms
proof (induction bs arbitrary: p c)
  case Nil
  then show ?case by (simp add: counted_def)
next
  case (Cons b bs)
  obtain eip taken target where b: "b = (eip, taken, target)" by (cases b)
  obtain m p1 c1 where 1: "accessBranchPredictor eip taken target (Some \<lparr>bp_counters = c, bp_kind = BP_PentiumM p\<rparr>) =
      Inr (m, Some \<lparr>bp_counters = c1, bp_kind = BP_PentiumM p1\<rparr>)" "PentiumM_ok p1" "counted [m] c c1"
    using access_PentiumM [OF Cons.prems] by blast
  obtain ms p2 c2 where 2: "access_all bs (Some \<lparr>bp_counters = c1, bp_kind = BP_PentiumM p1\<rparr>) =
      Inr (ms, Some \<lparr>bp_counters = c2, bp_kind = BP_PentiumM p2\<rparr>)" "length ms = length bs" "PentiumM_ok p2" "counted ms c1 c2"
    using Cons.IH [OF 1(2)] by blast
  from 1 2 counted_Cons [OF 1(3) 2(4)] show ?case by (auto simp: b bindR_def)
qed

text \<open>
  C24: Whatever branches a core executes, its Pentium M predictor never fails and its tables keep their shape: every index the code computes is
  inside its table, every saturating counter stays within its two bits (one bit in the loop predictor) and the path history within 15 bits.
  The two counters are the numbers of branches that were and were not mispredicted, modulo \<open>2 ^ 64\<close>.
\<close>

theorem PentiumM_runs:
  "\<exists>b misses p c. BranchPredictor_create ''pentium_m'' n uninit = Inr (Some b)
     \<and> access_all branches (Some b) = Inr (misses, Some \<lparr>bp_counters = c, bp_kind = BP_PentiumM p\<rparr>)
     \<and> length misses = length branches \<and> PentiumM_ok p
     \<and> bc_incorrect c = of_nat (length (filter (\<lambda>m. m) misses)) \<and> bc_correct c = of_nat (length (filter (\<lambda>m. \<not> m) misses))"
  using access_all_PentiumM [OF PentiumM_create_ok [of uninit], of branches bp_resetCounters]
  by (auto simp: BranchPredictor_create_def counted_def bp_resetCounters_def)

end
