(* ===== verification/Performance_Model.thy ===== *)
theory Performance_Model
  imports Branch_Predictor Circular_Queue Shmem_Msg Subsecond_Time
begin

text \<open>
  The part of a core's performance model that all the core models share: the instructions of \<^verbatim>\<open>performance_model/instruction.cc\<close>,
  the base class \<^verbatim>\<open>PerformanceModel\<close> with its clock, its idle time and the instruction queue, and the fast-forward model of
  \<^verbatim>\<open>fastforward_performance_model.cc\<close>. The hooks \<^verbatim>\<open>notifyElapsedTimeUpdate\<close>, \<^verbatim>\<open>enableDetailedModel\<close> and
  \<^verbatim>\<open>disableDetailedModel\<close> are the empty ones of the base class, which the one-IPC model keeps; calls into the sampling manager
  are counted only. \<^verbatim>\<open>ENABLE_PERF_MODEL_OWN_THREAD\<close> is off, as in \<^verbatim>\<open>misc/config.h\<close>.
\<close>

section \<open>Instructions\<close>

datatype OperandType = OP_REG | OP_MEMORY | OP_IMMEDIATE

datatype Direction = OP_READ | OP_WRITE

record Operand =
  op_type :: OperandType
  op_direction :: Direction

datatype InstructionType = INST_GENERIC | INST_ADD | INST_SUB | INST_MUL | INST_DIV | INST_FADD | INST_FSUB | INST_FMUL | INST_FDIV
  | INST_JMP | INST_BRANCH | INST_PSEUDO_MISC | INST_RECV | INST_SYNC | INST_SPAWN | INST_TLB_MISS | INST_MEM_ACCESS | INST_DELAY | INST_UNKNOWN

datatype sync_type_t = SYNC_FUTEX | SYNC_PTHREAD_MUTEX | SYNC_PTHREAD_COND | SYNC_PTHREAD_BARRIER | SYNC_JOIN | SYNC_PAUSE | SYNC_SLEEP
  | SYNC_SYSCALL | SYNC_UNSCHEDULED

text \<open>
  The subclasses of \<^verbatim>\<open>PseudoInstruction\<close>; the only delay is a change of frequency. A sync or spawn instruction holds an absolute
  time, the others a cost.
\<close>

datatype PseudoInstruction =
    MiscInstruction SubsecondTime
  | RecvInstruction SubsecondTime
  | SyncInstruction SubsecondTime sync_type_t
  | SpawnInstruction SubsecondTime
  | TLBMissInstruction SubsecondTime bool
  | MemAccessInstruction SubsecondTime IntPtr UInt32 bool
  | DelayInstruction SubsecondTime
  | UnknownInstruction SubsecondTime

record StaticInstruction =
  in_type :: InstructionType
  in_addr :: IntPtr
  in_size :: UInt32
  in_atomic :: bool
  in_operands :: "Operand list"

datatype Instruction = Static StaticInstruction | Pseudo PseudoInstruction

primrec pseudo_type :: "PseudoInstruction \<Rightarrow> InstructionType" where
  "pseudo_type (MiscInstruction c) = INST_PSEUDO_MISC"
| "pseudo_type (RecvInstruction c) = INST_RECV"
| "pseudo_type (SyncInstruction t s) = INST_SYNC"
| "pseudo_type (SpawnInstruction t) = INST_SPAWN"
| "pseudo_type (TLBMissInstruction c b) = INST_TLB_MISS"
| "pseudo_type (MemAccessInstruction c a n f) = INST_MEM_ACCESS"
| "pseudo_type (DelayInstruction c) = INST_DELAY"
| "pseudo_type (UnknownInstruction c) = INST_UNKNOWN"

primrec getType :: "Instruction \<Rightarrow> InstructionType" where
  "getType (Static i) = in_type i"
| "getType (Pseudo i) = pseudo_type i"

definition isPseudo :: "Instruction \<Rightarrow> bool" where
  "isPseudo i = (getType i \<in> {INST_PSEUDO_MISC, INST_RECV, INST_SYNC, INST_SPAWN, INST_TLB_MISS, INST_MEM_ACCESS, INST_DELAY, INST_UNKNOWN})"

definition isIdle :: "Instruction \<Rightarrow> bool" where
  "isIdle i = (getType i \<in> {INST_SYNC, INST_DELAY, INST_RECV})"

definition getOperands :: "Instruction \<Rightarrow> Operand list" where
  "getOperands i = (case i of Static s \<Rightarrow> in_operands s | Pseudo _ \<Rightarrow> [])"

text \<open>
  What an instruction and a latency are computed from: the configured cost of each type, the periods of the frequency domains, and the
  domain of the core.
\<close>

record perf_env =
  pe_costs :: "InstructionType \<Rightarrow> UInt32"
  pe_periods :: "nat \<Rightarrow> SubsecondTime"
  pe_domain :: nat

definition pe_period :: "perf_env \<Rightarrow> SubsecondTime" where
  "pe_period env = pe_periods env (pe_domain env)"

definition pseudo_cost :: "PseudoInstruction \<Rightarrow> SubsecondTime result" where
  "pseudo_cost i =
     (case i of
        MiscInstruction c \<Rightarrow> Inr c
      | RecvInstruction c \<Rightarrow> Inr c
      | SyncInstruction t s \<Rightarrow> Inl (LogError ''SyncInstruction::getCost() called'')
      | SpawnInstruction t \<Rightarrow> Inl (LogError ''SpawnInstruction::getCost() called'')
      | TLBMissInstruction c b \<Rightarrow> Inr c
      | MemAccessInstruction c a n f \<Rightarrow> Inr c
      | DelayInstruction c \<Rightarrow> Inr c
      | UnknownInstruction c \<Rightarrow> Inr c)"

definition getInstructionCost :: "perf_env \<Rightarrow> Instruction \<Rightarrow> SubsecondTime result" where
  "getInstructionCost env i =
     (case i of Static s \<Rightarrow> Inr (pe_period env * ucast (pe_costs env (in_type s))) | Pseudo p \<Rightarrow> pseudo_cost p)"

record MemoryInfo =
  mi_executed :: bool
  mi_dir :: Direction
  mi_addr :: IntPtr
  mi_size :: UInt32
  mi_num_misses :: UInt32
  mi_latency :: SubsecondTime
  mi_hit_where :: where_t

record DynamicInstruction =
  dy_instruction :: Instruction
  dy_eip :: IntPtr
  dy_is_branch :: bool
  dy_taken :: bool
  dy_target :: IntPtr
  dy_memory :: "MemoryInfo list"

text \<open>The branch information and the array of memory operands are not initialised.\<close>

definition createDynamicInstruction :: "bool \<Rightarrow> IntPtr \<Rightarrow> Instruction \<Rightarrow> IntPtr \<Rightarrow> DynamicInstruction" where
  "createDynamicInstruction taken target ins eip =
     \<lparr>dy_instruction = ins, dy_eip = eip, dy_is_branch = False, dy_taken = taken, dy_target = target, dy_memory = []\<rparr>"

definition addMemory ::
  "bool \<Rightarrow> SubsecondTime \<Rightarrow> IntPtr \<Rightarrow> UInt32 \<Rightarrow> Direction \<Rightarrow> UInt32 \<Rightarrow> where_t \<Rightarrow> DynamicInstruction \<Rightarrow> DynamicInstruction result" where
  "addMemory e l a s dir num_misses hit_where d =
     bindR (logAssertR (length (dy_memory d) < 2) ''Got more than MAX_MEMORY memory operands'') (\<lambda>_.
     Inr (d\<lparr>dy_memory := dy_memory d @ [\<lparr>mi_executed = e, mi_dir = dir, mi_addr = a, mi_size = s, mi_num_misses = num_misses,
                                         mi_latency = l, mi_hit_where = hit_where\<rparr>]\<rparr>))"

definition addBranch :: "bool \<Rightarrow> IntPtr \<Rightarrow> DynamicInstruction \<Rightarrow> DynamicInstruction" where
  "addBranch taken target d = d\<lparr>dy_is_branch := True, dy_taken := taken, dy_target := target\<rparr>"

section \<open>State\<close>

record FastforwardPerformanceModel =
  ff_include_memory_latency :: bool
  ff_include_branch_mispredict :: bool
  ff_branch_misprediction_penalty :: ComponentLatency
  ff_cpi :: SubsecondTime
  ff_fastforwarded_time :: SubsecondTime
  ff_cpiBase :: SubsecondTime
  ff_cpiBranchPredictor :: SubsecondTime
  ff_cpiDataCache :: "where_t \<Rightarrow> SubsecondTime"
  ff_recalibrations :: nat

text \<open>\<open>pf_cpiSync\<close> holds the counters \<^verbatim>\<open>m_cpiSync...\<close> of the nine kinds of synchronisation.\<close>

record PerformanceModel =
  pf_enabled :: bool
  pf_fastforward :: bool
  pf_detailed_sync :: bool
  pf_fastforward_model :: FastforwardPerformanceModel
  pf_instruction_count :: UInt64
  pf_elapsed_time :: ComponentTime
  pf_idle_elapsed_time :: ComponentTime
  pf_cpiStartTime :: SubsecondTime
  pf_cpiSync :: "sync_type_t \<Rightarrow> SubsecondTime"
  pf_cpiSyncDvfsTransition :: SubsecondTime
  pf_cpiRecv :: SubsecondTime
  pf_instruction_queue :: "DynamicInstruction CircularQueue"
  pf_bp :: "BranchPredictor option"
  pf_mispredict_penalty :: UInt64

definition Fastforward_create :: "bool \<Rightarrow> bool \<Rightarrow> nat \<Rightarrow> UInt64 \<Rightarrow> FastforwardPerformanceModel" where
  "Fastforward_create memory_latency branch_mispredict domain penalty =
     \<lparr>ff_include_memory_latency = memory_latency, ff_include_branch_mispredict = branch_mispredict,
      ff_branch_misprediction_penalty = \<lparr>cl_period = domain, cl_cycles = penalty\<rparr>, ff_cpi = 0, ff_fastforwarded_time = 0, ff_cpiBase = 0,
      ff_cpiBranchPredictor = 0, ff_cpiDataCache = (\<lambda>_. 0), ff_recalibrations = 0\<rparr>"

definition PerformanceModel_create ::
  "nat \<Rightarrow> FastforwardPerformanceModel \<Rightarrow> BranchPredictor option \<Rightarrow> UInt64 \<Rightarrow> DynamicInstruction list \<Rightarrow> PerformanceModel" where
  "PerformanceModel_create domain ff bp penalty mem =
     \<lparr>pf_enabled = False, pf_fastforward = False, pf_detailed_sync = True, pf_fastforward_model = ff, pf_instruction_count = 0,
      pf_elapsed_time = ComponentTime_create domain, pf_idle_elapsed_time = ComponentTime_create domain, pf_cpiStartTime = 0,
      pf_cpiSync = (\<lambda>_. 0), pf_cpiSyncDvfsTransition = 0, pf_cpiRecv = 0, pf_instruction_queue = CircularQueue_create 1024 mem,
      pf_bp = bp, pf_mispredict_penalty = penalty\<rparr>"

definition pf_getElapsedTime :: "'a PerformanceModel_scheme \<Rightarrow> SubsecondTime" where
  "pf_getElapsedTime p = ct_time (pf_elapsed_time p)"

definition getNonIdleElapsedTime :: "'a PerformanceModel_scheme \<Rightarrow> SubsecondTime" where
  "getNonIdleElapsedTime p = pf_getElapsedTime p - ct_time (pf_idle_elapsed_time p)"

definition perf_enable :: "'a PerformanceModel_scheme \<Rightarrow> 'a PerformanceModel_scheme" where
  "perf_enable p = p\<lparr>pf_enabled := True\<rparr>"

definition perf_disable :: "'a PerformanceModel_scheme \<Rightarrow> 'a PerformanceModel_scheme" where
  "perf_disable p = p\<lparr>pf_enabled := False\<rparr>"

definition setFastForward :: "bool \<Rightarrow> bool \<Rightarrow> 'a PerformanceModel_scheme \<Rightarrow> 'a PerformanceModel_scheme" where
  "setFastForward fastforward detailed_sync p =
     (if pf_fastforward p = fastforward then p else p\<lparr>pf_fastforward := fastforward, pf_detailed_sync := detailed_sync\<rparr>)"

section \<open>Time\<close>

definition incrementElapsedTime :: "SubsecondTime \<Rightarrow> 'a PerformanceModel_scheme \<Rightarrow> 'a PerformanceModel_scheme" where
  "incrementElapsedTime time p = p\<lparr>pf_elapsed_time := addLatency time (pf_elapsed_time p)\<rparr>"

definition ff_notifyElapsedTimeUpdate :: "'a PerformanceModel_scheme \<Rightarrow> 'a PerformanceModel_scheme" where
  "ff_notifyElapsedTimeUpdate p =
     p\<lparr>pf_fastforward_model := (pf_fastforward_model p)\<lparr>ff_recalibrations := Suc (ff_recalibrations (pf_fastforward_model p))\<rparr>\<rparr>"

definition incrementIdleElapsedTime :: "SubsecondTime \<Rightarrow> 'a PerformanceModel_scheme \<Rightarrow> 'a PerformanceModel_scheme" where
  "incrementIdleElapsedTime time p =
     (let p = p\<lparr>pf_idle_elapsed_time := addLatency time (pf_idle_elapsed_time p)\<rparr>;
          p = incrementElapsedTime time p
      in if pf_fastforward p then ff_notifyElapsedTimeUpdate p else p)"

definition pf_setElapsedTime :: "SubsecondTime \<Rightarrow> 'a PerformanceModel_scheme \<Rightarrow> 'a PerformanceModel_scheme result" where
  "pf_setElapsedTime time p =
     bindR (logAssertR (time \<ge> pf_getElapsedTime p) ''setElapsedTime() cannot go backwards in time'') (\<lambda>_.
     let insn_cost = time - pf_getElapsedTime p;
         p = (if pf_getElapsedTime p > 0 then p\<lparr>pf_cpiSync := (pf_cpiSync p)(SYNC_UNSCHEDULED := pf_cpiSync p SYNC_UNSCHEDULED + insn_cost)\<rparr>
              else p\<lparr>pf_cpiStartTime := pf_cpiStartTime p + insn_cost\<rparr>)
     in Inr (incrementIdleElapsedTime insn_cost p))"

section \<open>Fast-forwarding\<close>

datatype ff_component = FF_Base | FF_BranchPredictor | FF_DataCache where_t

definition ff_add :: "ff_component \<Rightarrow> SubsecondTime \<Rightarrow> FastforwardPerformanceModel \<Rightarrow> FastforwardPerformanceModel" where
  "ff_add component latency f =
     (case component of
        FF_Base \<Rightarrow> f\<lparr>ff_cpiBase := ff_cpiBase f + latency\<rparr>
      | FF_BranchPredictor \<Rightarrow> f\<lparr>ff_cpiBranchPredictor := ff_cpiBranchPredictor f + latency\<rparr>
      | FF_DataCache w \<Rightarrow> f\<lparr>ff_cpiDataCache := (ff_cpiDataCache f)(w := ff_cpiDataCache f w + latency)\<rparr>)"

definition ff_incrementElapsedTime :: "SubsecondTime \<Rightarrow> ff_component \<Rightarrow> 'a PerformanceModel_scheme \<Rightarrow> 'a PerformanceModel_scheme" where
  "ff_incrementElapsedTime latency component p =
     (let f = pf_fastforward_model p;
          f = ff_add component latency (f\<lparr>ff_fastforwarded_time := ff_fastforwarded_time f + latency\<rparr>)
      in incrementElapsedTime latency (p\<lparr>pf_fastforward_model := f\<rparr>))"

definition pf_countInstructions :: "UInt32 \<Rightarrow> 'a PerformanceModel_scheme \<Rightarrow> 'a PerformanceModel_scheme" where
  "pf_countInstructions count p =
     (if pf_fastforward p then ff_incrementElapsedTime (ucast count * ff_cpi (pf_fastforward_model p)) FF_Base p else p)"

definition handleMemoryLatency :: "SubsecondTime \<Rightarrow> where_t \<Rightarrow> 'a PerformanceModel_scheme \<Rightarrow> 'a PerformanceModel_scheme" where
  "handleMemoryLatency latency hit_where p =
     (if pf_fastforward p \<and> ff_include_memory_latency (pf_fastforward_model p)
      then ff_incrementElapsedTime latency (FF_DataCache hit_where) p else p)"

definition handleBranchMispredict :: "perf_env \<Rightarrow> 'a PerformanceModel_scheme \<Rightarrow> 'a PerformanceModel_scheme" where
  "handleBranchMispredict env p =
     (if pf_fastforward p \<and> ff_include_branch_mispredict (pf_fastforward_model p)
      then ff_incrementElapsedTime (ComponentLatency_getLatency (pe_periods env) (ff_branch_misprediction_penalty (pf_fastforward_model p)))
             FF_BranchPredictor p
      else p)"

definition ff_queuePseudoInstruction :: "PseudoInstruction \<Rightarrow> 'a PerformanceModel_scheme \<Rightarrow> 'a PerformanceModel_scheme result" where
  "ff_queuePseudoInstruction i p =
     bindR (logAssertR (\<not> isIdle (Pseudo i)) ''Expected non-idle instruction'') (\<lambda>_.
     bindR (pseudo_cost i) (\<lambda>ffwdTime.
     Inr (ff_notifyElapsedTimeUpdate (ff_incrementElapsedTime ffwdTime FF_Base p))))"

section \<open>The instruction queue\<close>

definition handleIdleInstruction :: "PseudoInstruction \<Rightarrow> 'a PerformanceModel_scheme \<Rightarrow> 'a PerformanceModel_scheme result" where
  "handleIdleInstruction i p =
     (if pf_fastforward p \<and> \<not> pf_detailed_sync p then Inr p
      else bindR
        (case i of
           SyncInstruction time_end sync_type \<Rightarrow>
             (let time_begin = pf_getElapsedTime p;
                  insn_cost = (if time_end > time_begin then time_end - time_begin else 0)
              in Inr (incrementIdleElapsedTime insn_cost (p\<lparr>pf_cpiSync := (pf_cpiSync p)(sync_type := pf_cpiSync p sync_type + insn_cost)\<rparr>)))
         | DelayInstruction insn_cost \<Rightarrow>
             Inr (incrementIdleElapsedTime insn_cost (p\<lparr>pf_cpiSyncDvfsTransition := pf_cpiSyncDvfsTransition p + insn_cost\<rparr>))
         | RecvInstruction insn_cost \<Rightarrow> Inr (incrementIdleElapsedTime insn_cost (p\<lparr>pf_cpiRecv := pf_cpiRecv p + insn_cost\<rparr>))
         | _ \<Rightarrow> Inl (LogError ''Unexpectedly received something other than a Sync or Recv Instruction''))
        (\<lambda>p. Inr (if pf_fastforward p then ff_notifyElapsedTimeUpdate p else p)))"

definition push_instruction :: "DynamicInstruction \<Rightarrow> 'a PerformanceModel_scheme \<Rightarrow> 'a PerformanceModel_scheme result" where
  "push_instruction ins p = bindR (CircularQueue_push (pf_instruction_queue p) ins) (\<lambda>q. Inr (p\<lparr>pf_instruction_queue := q\<rparr>))"

text \<open>\<open>taken\<close> and \<open>target\<close> are the branch information of a new dynamic instruction, which is not initialised.\<close>

definition queuePseudoInstruction :: "bool \<Rightarrow> IntPtr \<Rightarrow> PseudoInstruction \<Rightarrow> 'a PerformanceModel_scheme \<Rightarrow> 'a PerformanceModel_scheme result" where
  "queuePseudoInstruction taken target i p =
     (case i of
        SpawnInstruction time \<Rightarrow> pf_setElapsedTime time p
      | _ \<Rightarrow>
          (if \<not> pf_enabled p then Inr p
           else if isIdle (Pseudo i) then handleIdleInstruction i p
           else if pf_fastforward p then ff_queuePseudoInstruction i p
           else push_instruction (createDynamicInstruction taken target (Pseudo i) 0) p))"

definition queueInstruction :: "DynamicInstruction \<Rightarrow> 'a PerformanceModel_scheme \<Rightarrow> 'a PerformanceModel_scheme result" where
  "queueInstruction ins p = (if pf_fastforward p \<or> \<not> pf_enabled p then Inr p else push_instruction ins p)"

section \<open>Branches\<close>

text \<open>\<^verbatim>\<open>DynamicInstruction::getBranchCost\<close>: the cost and whether the branch was mispredicted.\<close>

definition getBranchCost :: "perf_env \<Rightarrow> DynamicInstruction \<Rightarrow> 'a PerformanceModel_scheme \<Rightarrow> (SubsecondTime \<times> bool \<times> 'a PerformanceModel_scheme) result" where
  "getBranchCost env d p =
     bindR (accessBranchPredictor (dy_eip d) (dy_taken d) (dy_target d) (pf_bp p)) (\<lambda>(is_mispredict, bp).
     let cost = (if is_mispredict then pf_mispredict_penalty p else 1)
     in Inr (pe_period env * cost, is_mispredict, p\<lparr>pf_bp := bp\<rparr>))"

definition dyn_getCost :: "perf_env \<Rightarrow> DynamicInstruction \<Rightarrow> 'a PerformanceModel_scheme \<Rightarrow> (SubsecondTime \<times> 'a PerformanceModel_scheme) result" where
  "dyn_getCost env d p =
     (if dy_is_branch d then bindR (getBranchCost env d p) (\<lambda>(cost, _, p). Inr (cost, p))
      else bindR (getInstructionCost env (dy_instruction d)) (\<lambda>cost. Inr (cost, p)))"

end
