(* ===== verification/Core_Model.thy ===== *)
theory Core_Model
  imports Memory_Manager Performance_Model
begin

text \<open>
  The core of \<^verbatim>\<open>core/core.cc\<close>: it splits the accesses of the application into accesses to cache lines and gives them to the memory
  manager, keeps the line of the last instruction, counts instructions and triggers the periodic hooks, and answers \<^verbatim>\<open>cpuid\<close>.
  With it stand the one-IPC performance model of \<^verbatim>\<open>oneipc_performance_model.cc\<close>, whose instructions make memory accesses through the
  core, and \<^verbatim>\<open>core/topology_info.cc\<close>. A call that does not return is the value \<open>None\<close>. Not modelled are the locks, the cheetah
  manager and the basic-block vectors, which only observe the accesses, and the copies of data the trace front end makes.
\<close>

section \<open>State\<close>

record OneIPCPerformanceModel = PerformanceModel +
  oi_latency_cutoff :: UInt64
  oi_cpiBase :: SubsecondTime
  oi_cpiBranchPredictor :: SubsecondTime
  oi_cpiDataCache :: "where_t \<Rightarrow> SubsecondTime"

definition OneIPC_create ::
  "nat \<Rightarrow> FastforwardPerformanceModel \<Rightarrow> BranchPredictor option \<Rightarrow> UInt64 \<Rightarrow> DynamicInstruction list \<Rightarrow> UInt64 \<Rightarrow> OneIPCPerformanceModel" where
  "OneIPC_create domain ff bp penalty mem latency_cutoff =
     PerformanceModel.extend (PerformanceModel_create domain ff bp penalty mem)
       (OneIPCPerformanceModel.fields latency_cutoff 0 0 (\<lambda>_. 0))"

datatype core_state_t = CS_RUNNING | CS_INITIALIZING | CS_STALLED | CS_SLEEPING | CS_WAKING_UP | CS_IDLE | CS_BROKEN

datatype core_hook = HOOK_INSTR_COUNT core_id_t | HOOK_PERIODIC_INS UInt64

text \<open>
  \<open>co_shmem_...\<close> are the counters of the core's \<^verbatim>\<open>ShmemPerfModel\<close>, whose clocks are in the hierarchy; \<open>co_hooks\<close> are the calls of the
  hooks manager; \<open>co_uninit\<close> is the branch information of a new instruction, which is not initialised.
\<close>

record Core =
  co_core_id :: core_id_t
  co_dvfs_domain :: nat
  co_costs :: "InstructionType \<Rightarrow> UInt32"
  co_memory_manager :: MemoryManager
  co_performance_model :: OneIPCPerformanceModel
  co_shmem_enabled :: bool
  co_num_memory_accesses :: UInt64
  co_total_memory_access_latency :: SubsecondTime
  co_core_state :: core_state_t
  co_icache_last_block :: IntPtr
  co_spin_loops :: UInt64
  co_spin_instructions :: UInt64
  co_spin_elapsed_time :: SubsecondTime
  co_instructions :: UInt64
  co_instructions_callback :: UInt64
  co_instructions_hpi_callback :: UInt64
  co_instructions_hpi_last :: UInt64
  co_hooks :: "core_hook list"
  co_uninit :: "bool \<times> IntPtr"

definition Core_create ::
  "core_id_t \<Rightarrow> nat \<Rightarrow> (InstructionType \<Rightarrow> UInt32) \<Rightarrow> MemoryManager \<Rightarrow> OneIPCPerformanceModel \<Rightarrow> bool \<times> IntPtr \<Rightarrow> Core" where
  "Core_create core_id domain costs mm perf uninit =
     \<lparr>co_core_id = core_id, co_dvfs_domain = domain, co_costs = costs, co_memory_manager = mm, co_performance_model = perf, co_shmem_enabled = False,
      co_num_memory_accesses = 0, co_total_memory_access_latency = 0, co_core_state = CS_IDLE, co_icache_last_block = -1, co_spin_loops = 0,
      co_spin_instructions = 0, co_spin_elapsed_time = 0, co_instructions = 0, co_instructions_callback = -1, co_instructions_hpi_callback = 0,
      co_instructions_hpi_last = 0, co_hooks = [], co_uninit = uninit\<rparr>"

definition core_env :: "Core \<Rightarrow> hier \<Rightarrow> perf_env" where
  "core_env c h = \<lparr>pe_costs = co_costs c, pe_periods = hi_periods h, pe_domain = co_dvfs_domain c\<rparr>"

definition upd_perf :: "(OneIPCPerformanceModel \<Rightarrow> OneIPCPerformanceModel) \<Rightarrow> Core \<Rightarrow> Core" where
  "upd_perf f c = c\<lparr>co_performance_model := f (co_performance_model c)\<rparr>"

definition upd_perfR :: "(OneIPCPerformanceModel \<Rightarrow> OneIPCPerformanceModel result) \<Rightarrow> Core \<Rightarrow> Core result" where
  "upd_perfR f c = bindR (f (co_performance_model c)) (\<lambda>p. Inr (c\<lparr>co_performance_model := p\<rparr>))"

definition set_performance_models :: "bool \<Rightarrow> (component_t \<times> nat) list \<Rightarrow> Core \<Rightarrow> hier \<Rightarrow> Core \<times> hier" where
  "set_performance_models on caches c h =
     (case switch_models on caches (co_memory_manager c) h of
        (mm, h) \<Rightarrow> (upd_perf (if on then perf_enable else perf_disable) (c\<lparr>co_shmem_enabled := on, co_memory_manager := mm\<rparr>), h))"

definition updateSpinCount :: "UInt64 \<Rightarrow> SubsecondTime \<Rightarrow> Core \<Rightarrow> Core" where
  "updateSpinCount instructions elapsed_time c =
     c\<lparr>co_spin_loops := co_spin_loops c + 1, co_spin_instructions := co_spin_instructions c + instructions,
       co_spin_elapsed_time := co_spin_elapsed_time c + elapsed_time\<rparr>"

section \<open>Counting instructions\<close>

text \<open>The static members of the class, and the two configured intervals.\<close>

record hpi_globals =
  g_instructions_hpi_global :: UInt64
  g_instructions_hpi_global_callback :: UInt64
  g_per_core :: UInt64
  g_global :: UInt64

definition isEnabledInstructionsCallback :: "Core \<Rightarrow> bool" where
  "isEnabledInstructionsCallback c = (co_instructions_callback c \<noteq> -1)"

definition setInstructionsCallback :: "UInt64 \<Rightarrow> Core \<Rightarrow> Core" where
  "setInstructionsCallback instructions c = c\<lparr>co_instructions_callback := co_instructions c + instructions\<rparr>"

definition disableInstructionsCallback :: "Core \<Rightarrow> Core" where
  "disableInstructionsCallback c = c\<lparr>co_instructions_callback := -1\<rparr>"

definition call_hook :: "core_hook \<Rightarrow> Core \<Rightarrow> Core" where
  "call_hook k c = c\<lparr>co_hooks := co_hooks c @ [k]\<rparr>"

definition hookPeriodicInsCall :: "Core \<Rightarrow> hpi_globals \<Rightarrow> Core \<times> hpi_globals" where
  "hookPeriodicInsCall c g =
     (if g_instructions_hpi_global g > g_instructions_hpi_global_callback g
      then (call_hook (HOOK_PERIODIC_INS (g_instructions_hpi_global g)) c,
            g\<lparr>g_instructions_hpi_global_callback := g_instructions_hpi_global_callback g + g_global g\<rparr>)
      else (c, g))"

definition hookPeriodicInsCheck :: "Core \<Rightarrow> hpi_globals \<Rightarrow> Core \<times> hpi_globals" where
  "hookPeriodicInsCheck c g =
     (if co_instructions c > co_instructions_hpi_callback c
      then let g = g\<lparr>g_instructions_hpi_global := g_instructions_hpi_global g + (co_instructions c - co_instructions_hpi_last c)\<rparr>;
               c = c\<lparr>co_instructions_hpi_callback := co_instructions_hpi_callback c + g_per_core g, co_instructions_hpi_last := co_instructions c\<rparr>
           in if g_instructions_hpi_global g > g_instructions_hpi_global_callback g then hookPeriodicInsCall c g else (c, g)
      else (c, g))"

definition countInstructions :: "UInt32 \<Rightarrow> Core \<Rightarrow> hpi_globals \<Rightarrow> bool \<times> Core \<times> hpi_globals" where
  "countInstructions num c g =
     (let c = c\<lparr>co_instructions := co_instructions c + ucast num\<rparr>;
          c = upd_perf (pf_countInstructions num) c;
          fire = (isEnabledInstructionsCallback c \<and> co_instructions c \<ge> co_instructions_callback c);
          c = (if fire then call_hook (HOOK_INSTR_COUNT (co_core_id c)) (disableInstructionsCallback c) else c)
      in (fire, hookPeriodicInsCheck c g))"

section \<open>Splitting an access into lines\<close>

text \<open>
  The loop of \<^verbatim>\<open>initiateMemoryAccess\<close> over the cache lines of an access. \<open>step\<close> is its body, with the line, the offset in it and the size;
  the address arithmetic is in 64 bits, offset and size in 32.
\<close>

partial_function (option) line_loop ::
  "(IntPtr \<Rightarrow> UInt32 \<Rightarrow> UInt32 \<Rightarrow> 's \<Rightarrow> 's result) \<Rightarrow> UInt32 \<Rightarrow> IntPtr \<Rightarrow> IntPtr \<Rightarrow> IntPtr \<Rightarrow> 's \<Rightarrow> 's result option" where
  "line_loop step block_size begin_addr end_addr addr st =
     (let begin_aligned = begin_addr - begin_addr mod ucast block_size;
          end_aligned = end_addr - end_addr mod ucast block_size;
          curr_offset = (if addr = begin_aligned then ucast (begin_addr mod ucast block_size) else 0);
          curr_size = (if addr = end_aligned then ucast (end_addr mod ucast block_size) - curr_offset else block_size - curr_offset)
      in if addr \<le> end_aligned
         then if addr = end_aligned \<and> curr_size = 0 then line_loop step block_size begin_addr end_addr (addr + ucast block_size) st
              else case step addr curr_offset curr_size st of
                     Inl e \<Rightarrow> Some (Inl e)
                   | Inr st \<Rightarrow> line_loop step block_size begin_addr end_addr (addr + ucast block_size) st
         else Some (Inr st))"

definition access_lines ::
  "(IntPtr \<Rightarrow> UInt32 \<Rightarrow> UInt32 \<Rightarrow> 's \<Rightarrow> 's result) \<Rightarrow> UInt32 \<Rightarrow> IntPtr \<Rightarrow> UInt32 \<Rightarrow> 's \<Rightarrow> 's result option" where
  "access_lines step block_size address data_size st =
     (if block_size = 0 then Some (Inl (Trap ''division by zero''))
      else line_loop step block_size address (address + ucast data_size) (address - address mod ucast block_size) st)"

section \<open>Memory accesses\<close>

record MemoryResult =
  mr_hit_where :: where_t
  mr_latency :: SubsecondTime

definition merge_where :: "where_t \<Rightarrow> where_t \<Rightarrow> where_t" where
  "merge_where hit_where this_hit_where =
     (if hit_where = HIT_UNKNOWN \<or> (this_hit_where \<noteq> HIT_UNKNOWN \<and> where_num this_hit_where > where_num hit_where) then this_hit_where
      else hit_where)"

definition core_queuePseudo :: "PseudoInstruction \<Rightarrow> Core \<Rightarrow> Core result" where
  "core_queuePseudo i c = upd_perfR (queuePseudoInstruction (fst (co_uninit c)) (snd (co_uninit c)) i) c"

text \<open>The TLB miss instructions that the memory manager queues during an access go to the performance model.\<close>

definition queue_tlb_misses :: "Core \<Rightarrow> Core result" where
  "queue_tlb_misses c =
     foldR (\<lambda>(penalty, is_ifetch). core_queuePseudo (TLBMissInstruction penalty is_ifetch)) (mm_pseudo (co_memory_manager c))
       (c\<lparr>co_memory_manager := (co_memory_manager c)\<lparr>mm_pseudo := []\<rparr>\<rparr>)"

text \<open>
  The body of the loop. Its state is the worst place of a hit so far, the buffer and the position in it, the core and the hierarchy.
  \<open>wait\<close> is what the other threads do while the core waits, as for the cache controllers.
\<close>

type_synonym access_state = "where_t \<times> nat \<times> UInt8 list option \<times> Core \<times> hier"

definition line_access ::
  "(nat \<Rightarrow> IntPtr \<Rightarrow> hier \<Rightarrow> hier result) \<Rightarrow> component_t \<Rightarrow> lock_signal_t \<Rightarrow> mem_op_t \<Rightarrow> MemModeled \<Rightarrow> IntPtr \<Rightarrow>
     IntPtr \<Rightarrow> UInt32 \<Rightarrow> UInt32 \<Rightarrow> access_state \<Rightarrow> access_state result" where
  "line_access wait mem_component lock_signal mem_op_type modeled eip curr_addr_aligned curr_offset curr_size =
     (\<lambda>(hit_where, head, data_buf, c, h).
        bindR (coreInitiateMemoryAccess wait mem_component lock_signal mem_op_type curr_addr_aligned curr_offset
                 (map_option (drop head) data_buf) curr_size modeled eip (co_memory_manager c) h)
          (\<lambda>(this_hit_where, data, mm, h).
        bindR (queue_tlb_misses (c\<lparr>co_memory_manager := mm\<rparr>)) (\<lambda>c.
        Inr (merge_where hit_where this_hit_where, head + unat curr_size,
             (case (data_buf, data) of (Some buf, Some d) \<Rightarrow> Some (take head buf @ d) | _ \<Rightarrow> data_buf), c, h))))"

definition incrTotalMemoryAccessLatency :: "SubsecondTime \<Rightarrow> Core \<Rightarrow> Core" where
  "incrTotalMemoryAccessLatency shmem_time c =
     (if co_shmem_enabled c
      then c\<lparr>co_num_memory_accesses := co_num_memory_accesses c + 1,
             co_total_memory_access_latency := co_total_memory_access_latency c + shmem_time\<rparr>
      else c)"

definition account_access :: "MemModeled \<Rightarrow> SubsecondTime \<Rightarrow> where_t \<Rightarrow> IntPtr \<Rightarrow> UInt32 \<Rightarrow> Core \<Rightarrow> Core result" where
  "account_access modeled shmem_time hit_where address data_size c =
     (if modeled = MEM_MODELED_TIME \<or> modeled = MEM_MODELED_FENCED
      then if pf_enabled (co_performance_model c)
           then core_queuePseudo (MemAccessInstruction shmem_time address data_size (modeled = MEM_MODELED_FENCED)) c
           else Inr c
      else if modeled = MEM_MODELED_COUNT \<or> modeled = MEM_MODELED_COUNT_TLBTIME
      then Inr (if shmem_time > 0 then upd_perf (handleMemoryLatency shmem_time hit_where) c else c)
      else Inr c)"

definition finish_access ::
  "MemModeled \<Rightarrow> IntPtr \<Rightarrow> UInt32 \<Rightarrow> SubsecondTime \<Rightarrow> access_state \<Rightarrow> (MemoryResult \<times> UInt8 list option \<times> Core \<times> hier) result" where
  "finish_access modeled address data_size initial_time =
     (\<lambda>(hit_where, _, data_buf, c, h).
        let final_time = hi_time h (co_core_id c) USER_THREAD
        in bindR (logAssertR (final_time \<ge> initial_time) ''final_time < initial_time'') (\<lambda>_.
           let shmem_time = final_time - initial_time
           in bindR (account_access modeled shmem_time hit_where address data_size c) (\<lambda>c.
              let c = (if modeled \<noteq> MEM_MODELED_NONE then incrTotalMemoryAccessLatency shmem_time c else c)
              in bindR (logAssertR (hit_where \<noteq> HIT_UNKNOWN) ''HitWhere == UNKNOWN'') (\<lambda>_.
                 Inr (\<lparr>mr_hit_where = hit_where, mr_latency = shmem_time\<rparr>, data_buf, c, h)))))"

definition initiateMemoryAccess ::
  "(nat \<Rightarrow> IntPtr \<Rightarrow> hier \<Rightarrow> hier result) \<Rightarrow> component_t \<Rightarrow> lock_signal_t \<Rightarrow> mem_op_t \<Rightarrow> IntPtr \<Rightarrow> UInt8 list option \<Rightarrow> UInt32 \<Rightarrow> MemModeled \<Rightarrow>
     IntPtr \<Rightarrow> SubsecondTime \<Rightarrow> Core \<Rightarrow> hier \<Rightarrow> (MemoryResult \<times> UInt8 list option \<times> Core \<times> hier) result option" where
  "initiateMemoryAccess wait mem_component lock_signal mem_op_type address data_buf data_size modeled eip now c h =
     (if data_size = 0 then Some (Inr (\<lparr>mr_hit_where = where_of mem_component False, mr_latency = 0\<rparr>, data_buf, c, h))
      else let initial_time = (if now = MaxTime then pf_getElapsedTime (co_performance_model c) else now);
               core = co_core_id c;
               h = h\<lparr>hi_time := (hi_time h)(core := (hi_time h core)(USER_THREAD := initial_time))\<rparr>
           in map_option (\<lambda>r. bindR r (finish_access modeled address data_size initial_time))
                (access_lines (line_access wait mem_component lock_signal mem_op_type modeled eip) (mm_cache_block_size (co_memory_manager c))
                   address data_size (HIT_UNKNOWN, 0, data_buf, c, h)))"

definition getL1HitLatency :: "Core \<Rightarrow> hier \<Rightarrow> SubsecondTime" where
  "getL1HitLatency c h = CachePerfModel_getLatency (hi_periods h) ACCESS_CACHE_DATA_AND_TAGS (hi_perf_models h (co_core_id c) L1_ICACHE)"

definition readInstructionMemory ::
  "(nat \<Rightarrow> IntPtr \<Rightarrow> hier \<Rightarrow> hier result) \<Rightarrow> IntPtr \<Rightarrow> UInt32 \<Rightarrow> Core \<Rightarrow> hier \<Rightarrow> (MemoryResult \<times> Core \<times> hier) result option" where
  "readInstructionMemory wait address instruction_size c h =
     (let block_size = ucast (mm_cache_block_size (co_memory_manager c)) :: UInt64;
          blockmask = NOT (block_size - 1);
          single_cache_line = (address AND blockmask = (address + ucast instruction_size - 1) AND blockmask);
          hit = (address AND blockmask = co_icache_last_block c)
      in if hit \<and> single_cache_line then Some (Inr (\<lparr>mr_hit_where = HIT_L1I, mr_latency = getL1HitLatency c h\<rparr>, c, h))
         else let address = (if hit then (address AND blockmask) + block_size else address);
                  c = c\<lparr>co_icache_last_block := address AND blockmask\<rparr>
              in map_option (\<lambda>r. bindR r (\<lambda>(res, _, c, h). Inr (res, c, h)))
                   (initiateMemoryAccess wait L1_ICACHE LS_NONE READ (address AND blockmask) None (ucast block_size) MEM_MODELED_COUNT_TLBTIME 0
                      MaxTime c h))"

text \<open>
  The copy of the data between the buffer and the application is \<open>nativeMemOp\<close>; the memory system is given the buffer for a fault
  mask only.
\<close>

definition accessMemory ::
  "(nat \<Rightarrow> IntPtr \<Rightarrow> hier \<Rightarrow> hier result) \<Rightarrow> lock_signal_t \<Rightarrow> mem_op_t \<Rightarrow> IntPtr \<Rightarrow> UInt8 list option \<Rightarrow> UInt32 \<Rightarrow> MemModeled \<Rightarrow> IntPtr \<Rightarrow>
     SubsecondTime \<Rightarrow> bool \<Rightarrow> Core \<Rightarrow> hier \<Rightarrow> (MemoryResult \<times> UInt8 list option \<times> Core \<times> hier) result option" where
  "accessMemory wait lock_signal mem_op_type d_addr data_buffer data_size modeled eip now is_fault_mask c h =
     (if modeled = MEM_MODELED_NONE then Some (Inr (\<lparr>mr_hit_where = HIT_UNKNOWN, mr_latency = 0\<rparr>, data_buffer, c, h))
      else initiateMemoryAccess wait L1_DCACHE lock_signal mem_op_type d_addr (if is_fault_mask then data_buffer else None) data_size modeled eip now
             c h)"

definition app_read :: "IntPtr \<Rightarrow> nat \<Rightarrow> (IntPtr \<Rightarrow> UInt8) \<Rightarrow> UInt8 list" where
  "app_read a n mem = map (\<lambda>i. mem (a + of_nat i)) [0..<n]"

definition app_write :: "IntPtr \<Rightarrow> UInt8 list \<Rightarrow> (IntPtr \<Rightarrow> UInt8) \<Rightarrow> (IntPtr \<Rightarrow> UInt8)" where
  "app_write a data mem = fold (\<lambda>(i, b) mem. mem(a + of_nat i := b)) (enumerate 0 data) mem"

text \<open>The buffer and the memory of the application before and after; the global lock is not modelled.\<close>

definition nativeMemOp ::
  "lock_signal_t \<Rightarrow> mem_op_t \<Rightarrow> IntPtr \<Rightarrow> UInt32 \<Rightarrow> UInt8 list \<Rightarrow> (IntPtr \<Rightarrow> UInt8) \<Rightarrow> (UInt8 list \<times> (IntPtr \<Rightarrow> UInt8)) result" where
  "nativeMemOp lock_signal mem_op_type d_addr data_size buffer mem =
     (if data_size = 0 then Inr (buffer, mem)
      else bindR (assertR (lock_signal = LS_LOCK \<longrightarrow> mem_op_type = READ_EX) ''mem_op_type == READ_EX'') (\<lambda>_.
           let n = unat data_size;
               (buffer, mem) =
                 (if mem_op_type = READ \<or> mem_op_type = READ_EX then (memcpy_at 0 (app_read d_addr n mem) buffer, mem)
                  else if mem_op_type = WRITE then (buffer, app_write d_addr (take n buffer) mem) else (buffer, mem))
           in bindR (assertR (lock_signal = LS_UNLOCK \<longrightarrow> mem_op_type = WRITE) ''mem_op_type == WRITE'') (\<lambda>_. Inr (buffer, mem))))"

definition logMemoryHit :: "bool \<Rightarrow> mem_op_t \<Rightarrow> Core \<Rightarrow> hier \<Rightarrow> hier result" where
  "logMemoryHit icache mem_op_type c h =
     bindR (cache_cntlr_at (if icache then L1_ICACHE else L1_DCACHE) (co_memory_manager c)) (\<lambda>i. cntlr_updateHits 1 i mem_op_type h)"

section \<open>Topology and cpuid\<close>

record TopologyInfo =
  ti_apic_id :: "32 word"
  ti_smt_index :: "32 word"
  ti_smt_count :: "32 word"
  ti_core_index :: "32 word"
  ti_core_count :: "32 word"
  ti_package :: "32 word"

text \<open>The static members: the current package, the cores still to come in it, and the last core.\<close>

record topology_globals =
  tg_package :: int
  tg_cores_this_package :: int
  tg_core_id_last :: int

definition topology_start :: topology_globals where
  "topology_start = \<lparr>tg_package = -1, tg_cores_this_package = 0, tg_core_id_last = -1\<rparr>"

text \<open>\<open>mesh_cores\<close> is the number of application cores when the memory network is the mesh.\<close>

definition topology_setup ::
  "core_id_t \<Rightarrow> UInt32 \<Rightarrow> UInt32 \<Rightarrow> UInt32 option \<Rightarrow> topology_globals \<Rightarrow> (TopologyInfo \<times> topology_globals) result" where
  "topology_setup core_id smt_cores llc_sharers mesh_cores g =
     bindR (modR (of_int core_id) smt_cores) (\<lambda>smt_index.
     let idx = of_int core_id div smt_cores;
         cores_per_package = (case mesh_cores of Some n \<Rightarrow> n | None \<Rightarrow> llc_sharers) div smt_cores
     in bindR (modR idx cores_per_package) (\<lambda>core_index.
        bindR (logAssertR (tg_core_id_last g = core_id - 1) ''Cores not initialized in order'') (\<lambda>_.
        let g = (if tg_cores_this_package g = 0
                 then g\<lparr>tg_package := tg_package g + 1, tg_cores_this_package := sint (cores_per_package * smt_cores)\<rparr> else g);
            g = g\<lparr>tg_cores_this_package := tg_cores_this_package g - 1, tg_core_id_last := core_id\<rparr>
        in bindR (logAssertR (smt_cores \<le> 16) ''Too many smt_cores, increase SMT_SHIFT_BITS'') (\<lambda>_.
           bindR (logAssertR (push_bit 4 cores_per_package \<le> 0x10000) ''Too many cores_per_package, increase PACKAGE_SHIFT_BITS'') (\<lambda>_.
           let package = of_int (tg_package g)
           in Inr (\<lparr>ti_apic_id = push_bit 16 package OR push_bit 4 core_index OR smt_index, ti_smt_index = smt_index, ti_smt_count = smt_cores,
                    ti_core_index = core_index, ti_core_count = cores_per_package, ti_package = package\<rparr>, g))))))"

record cpuid_result_t =
  r_eax :: UInt32
  r_ebx :: UInt32
  r_ecx :: UInt32
  r_edx :: UInt32

text \<open>\<open>cpuid\<close> is the instruction of the host processor.\<close>

definition emulateCpuid ::
  "(UInt32 \<Rightarrow> UInt32 \<Rightarrow> cpuid_result_t) \<Rightarrow> core_id_t \<Rightarrow> UInt32 \<Rightarrow> TopologyInfo \<Rightarrow> UInt32 \<Rightarrow> UInt32 \<Rightarrow> cpuid_result_t" where
  "emulateCpuid cpuid core_id application_cores t eax ecx =
     (if eax = 0x0 then let res = cpuid 0 0 in res\<lparr>r_eax := max 0xb (r_eax res)\<rparr>
      else if eax = 0x1
      then let res = cpuid eax ecx
           in res\<lparr>r_ebx := push_bit 24 (of_int core_id) OR push_bit 16 application_cores OR (r_ebx res AND 0xffff)\<rparr>
      else if eax = 0xb
      then if ecx = 0 then \<lparr>r_eax = 4, r_ebx = ti_smt_count t, r_ecx = ecx OR push_bit 8 1, r_edx = ti_apic_id t\<rparr>
           else if ecx = 1
           then \<lparr>r_eax = 16, r_ebx = ti_smt_count t * ti_core_count t, r_ecx = ecx OR push_bit 8 2, r_edx = ti_apic_id t\<rparr>
           else \<lparr>r_eax = 0, r_ebx = 0, r_ecx = ecx, r_edx = ti_apic_id t\<rparr>
      else cpuid eax ecx)"

section \<open>The one-IPC model\<close>

text \<open>\<^verbatim>\<open>DynamicInstruction::accessMemory\<close>, over the operands still to do.\<close>

fun dyn_access ::
  "(nat \<Rightarrow> IntPtr \<Rightarrow> hier \<Rightarrow> hier result) \<Rightarrow> bool \<Rightarrow> IntPtr \<Rightarrow> MemoryInfo list \<Rightarrow> Core \<Rightarrow> hier \<Rightarrow> (MemoryInfo list \<times> Core \<times> hier) result option" where
  "dyn_access wait atomic addr [] c h = Some (Inr ([], c, h))"
| "dyn_access wait atomic addr (m # infos) c h =
     Option.bind
       (if mi_executed m \<and> mi_hit_where m = HIT_UNKNOWN
        then map_option (\<lambda>r. bindR r (\<lambda>(res, _, c, h). Inr (m\<lparr>mi_latency := mr_latency res, mi_hit_where := mr_hit_where res\<rparr>, c, h)))
               (accessMemory wait LS_NONE (if mi_dir m = OP_READ then if atomic then READ_EX else READ else WRITE) (mi_addr m) None (mi_size m)
                  MEM_MODELED_RETURN addr MaxTime False c h)
        else Some (Inr (m\<lparr>mi_latency := pe_period (core_env c h), mi_hit_where := HIT_PREDICATE_FALSE\<rparr>, c, h)))
       (\<lambda>r. case r of
              Inl e \<Rightarrow> Some (Inl e)
            | Inr (m, c, h) \<Rightarrow> map_option (\<lambda>r. bindR r (\<lambda>(infos, c, h). Inr (m # infos, c, h))) (dyn_access wait atomic addr infos c h))"

definition dyn_accessMemory ::
  "(nat \<Rightarrow> IntPtr \<Rightarrow> hier \<Rightarrow> hier result) \<Rightarrow> DynamicInstruction \<Rightarrow> Core \<Rightarrow> hier \<Rightarrow> (DynamicInstruction \<times> Core \<times> hier) result option" where
  "dyn_accessMemory wait d c h =
     (let (atomic, addr) = (case dy_instruction d of Static s \<Rightarrow> (in_atomic s, in_addr s) | Pseudo _ \<Rightarrow> (False, 0))
      in map_option (\<lambda>r. bindR r (\<lambda>(infos, c, h). Inr (d\<lparr>dy_memory := infos\<rparr>, c, h))) (dyn_access wait atomic addr (dy_memory d) c h))"

definition isModeled :: "Instruction \<Rightarrow> bool" where
  "isModeled i = (isPseudo i \<or> getType i = INST_BRANCH)"

text \<open>The cost of the memory operands above the cutoff, and the place of the first of them.\<close>

fun operand_cost :: "SubsecondTime \<Rightarrow> Operand list \<Rightarrow> MemoryInfo list \<Rightarrow> SubsecondTime \<times> where_t option \<Rightarrow> (SubsecondTime \<times> where_t option) result" where
  "operand_cost cutoff [] infos acc = Inr acc"
| "operand_cost cutoff (op # ops) infos (cost, place) =
     (if op_type op = OP_MEMORY
      then case infos of
             [] \<Rightarrow> Inl (LogError ''Did not get enough memory_info objects'')
           | info # infos \<Rightarrow>
               if mi_dir info \<noteq> op_direction op then Inl (LogError ''Expected memory info'')
               else operand_cost cutoff ops infos
                      (if op_direction op = OP_READ \<and> mi_latency info > cutoff then cost + mi_latency info else cost,
                       if place = None then Some (mi_hit_where info) else place)
      else operand_cost cutoff ops infos (cost, place))"

datatype oi_component = OI_Base | OI_BranchPredictor | OI_DataCache where_t

definition oi_add :: "oi_component \<Rightarrow> SubsecondTime \<Rightarrow> OneIPCPerformanceModel \<Rightarrow> OneIPCPerformanceModel" where
  "oi_add component cost p =
     (case component of
        OI_Base \<Rightarrow> p\<lparr>oi_cpiBase := oi_cpiBase p + cost\<rparr>
      | OI_BranchPredictor \<Rightarrow> p\<lparr>oi_cpiBranchPredictor := oi_cpiBranchPredictor p + cost\<rparr>
      | OI_DataCache w \<Rightarrow> p\<lparr>oi_cpiDataCache := (oi_cpiDataCache p)(w := oi_cpiDataCache p w + cost)\<rparr>)"

definition oi_account :: "SubsecondTime \<Rightarrow> oi_component \<Rightarrow> OneIPCPerformanceModel \<Rightarrow> OneIPCPerformanceModel" where
  "oi_account cost component p =
     oi_add component cost (p\<lparr>pf_instruction_count := pf_instruction_count p + 1, pf_elapsed_time := addLatency cost (pf_elapsed_time p)\<rparr>)"

definition oneipc_cost :: "perf_env \<Rightarrow> UInt64 \<Rightarrow> DynamicInstruction \<Rightarrow> (SubsecondTime \<times> oi_component) result" where
  "oneipc_cost env latency_cutoff d =
     (let cutoff = ComponentLatency_getLatency (pe_periods env) \<lparr>cl_period = pe_domain env, cl_cycles = latency_cutoff\<rparr>; i = dy_instruction d
      in bindR (operand_cost cutoff (getOperands i) (dy_memory d) (0, None)) (\<lambda>(cost, place).
         bindR (getInstructionCost env i) (\<lambda>instruction_cost.
         let cost = cost + (if isModeled i then instruction_cost
                            else ComponentLatency_getLatency (pe_periods env) \<lparr>cl_period = pe_domain env, cl_cycles = 1\<rparr>)
         in bindR (logAssertR (getType i \<noteq> INST_SYNC \<and> getType i \<noteq> INST_RECV) ''Unexpected non-idle instruction'') (\<lambda>_.
            Inr (cost, case place of Some w \<Rightarrow> OI_DataCache w | None \<Rightarrow> if getType i = INST_BRANCH then OI_BranchPredictor else OI_Base)))))"

definition oneipc_handleInstruction ::
  "(nat \<Rightarrow> IntPtr \<Rightarrow> hier \<Rightarrow> hier result) \<Rightarrow> DynamicInstruction \<Rightarrow> Core \<Rightarrow> hier \<Rightarrow> (Core \<times> hier) result option" where
  "oneipc_handleInstruction wait d c h =
     map_option (\<lambda>r. bindR r (\<lambda>(d, c, h).
       bindR (oneipc_cost (core_env c h) (oi_latency_cutoff (co_performance_model c)) d) (\<lambda>(cost, component).
       Inr (upd_perf (oi_account cost component) c, h))))
       (dyn_accessMemory wait d c h)"

text \<open>
  The loop of \<^verbatim>\<open>PerformanceModel::iterate\<close>; the closing synchronisation with the other cores is not part of it. An instruction may queue
  TLB misses while it is handled, which the loop then takes too.
\<close>

partial_function (option) iterate ::
  "(nat \<Rightarrow> IntPtr \<Rightarrow> hier \<Rightarrow> hier result) \<Rightarrow> Core \<Rightarrow> hier \<Rightarrow> (Core \<times> hier) result option" where
  "iterate wait c h =
     (if CircularQueue_size (pf_instruction_queue (co_performance_model c)) = 0 then Some (Inr (c, h))
      else case CircularQueue_front (pf_instruction_queue (co_performance_model c)) of
             Inl e \<Rightarrow> Some (Inl e)
           | Inr ins \<Rightarrow>
               if isIdle (dy_instruction ins) then Some (Inl (LogError ''Idle instructions should not make it here!''))
               else Option.bind
                      (if \<not> pf_fastforward (co_performance_model c) \<and> pf_enabled (co_performance_model c)
                       then oneipc_handleInstruction wait ins c h else Some (Inr (c, h)))
                      (\<lambda>r. case r of
                             Inl e \<Rightarrow> Some (Inl e)
                           | Inr (c, h) \<Rightarrow>
                               (case CircularQueue_pop (pf_instruction_queue (co_performance_model c)) of
                                  Inl e \<Rightarrow> Some (Inl e)
                                | Inr (_, q) \<Rightarrow> iterate wait (upd_perf (\<lambda>p. p\<lparr>pf_instruction_queue := q\<rparr>) c) h)))"

end
