(* ===== verification/Core_Timing.thy ===== *)
theory Core_Timing
  imports Core_Model
begin

text \<open>
  What the core and the one-IPC model guarantee: the lines of an access cover its bytes exactly once and in order, and every femtosecond of a
  core's clock is in exactly one of the components of its CPI stack, whatever sequence of accesses, instructions and synchronisations the
  core goes through.
\<close>

section \<open>The components of the CPI stack\<close>

instantiation sync_type_t :: finite
begin

instance
  by standard (rule finite_UNIV_set [of "[SYNC_FUTEX, SYNC_PTHREAD_MUTEX, SYNC_PTHREAD_COND, SYNC_PTHREAD_BARRIER, SYNC_JOIN, SYNC_PAUSE,
      SYNC_SLEEP, SYNC_SYSCALL, SYNC_UNSCHEDULED]"], case_tac x, simp_all)

end

instantiation where_t :: finite
begin

instance
  by standard (rule finite_UNIV_set [of "[WHERE_FIRST, HIT_L1I, HIT_L1_OWN, HIT_L2_OWN, HIT_L3_OWN, HIT_L4_OWN, HIT_MISS, HIT_NUCA_CACHE,
      HIT_DRAM_CACHE, HIT_DRAM, HIT_DRAM_LOCAL, HIT_DRAM_REMOTE, HIT_CACHE_REMOTE, HIT_SIBLING, HIT_L1_SIBLING, HIT_L2_SIBLING, HIT_L3_SIBLING,
      HIT_L4_SIBLING, HIT_UNKNOWN, HIT_PREDICATE_FALSE, HIT_PREFETCH_NO_MAPPING]"], case_tac x, simp_all)

end

definition idle_total :: "OneIPCPerformanceModel \<Rightarrow> SubsecondTime" where
  "idle_total p = pf_cpiStartTime p + (\<Sum>s\<in>UNIV. pf_cpiSync p s) + pf_cpiSyncDvfsTransition p + pf_cpiRecv p"

definition ff_total :: "FastforwardPerformanceModel \<Rightarrow> SubsecondTime" where
  "ff_total f = ff_cpiBase f + ff_cpiBranchPredictor f + (\<Sum>w\<in>UNIV. ff_cpiDataCache f w)"

definition busy_total :: "OneIPCPerformanceModel \<Rightarrow> SubsecondTime" where
  "busy_total p = oi_cpiBase p + oi_cpiBranchPredictor p + (\<Sum>w\<in>UNIV. oi_cpiDataCache p w)"

definition accounted :: "OneIPCPerformanceModel \<Rightarrow> bool" where
  "accounted p =
     (ct_time (pf_idle_elapsed_time p) = idle_total p
      \<and> ff_fastforwarded_time (pf_fastforward_model p) = ff_total (pf_fastforward_model p)
      \<and> ct_time (pf_elapsed_time p) = idle_total p + ff_total (pf_fastforward_model p) + busy_total p)"

lemmas accounted_defs = accounted_def idle_total_def ff_total_def busy_total_def

lemma sum_fun_upd_left:
  fixes f :: "'k::finite \<Rightarrow> 'v::comm_monoid_add"
  shows "(\<Sum>s\<in>UNIV. (f(r := d + f r)) s) = (\<Sum>s\<in>UNIV. f s) + d"
  using sum_fun_upd [of f r d] by (simp add: add.commute)

lemma accounted_idle:
  assumes "accounted p"
  shows "accounted (incrementIdleElapsedTime d (p\<lparr>pf_cpiSync := (pf_cpiSync p)(s := pf_cpiSync p s + d)\<rparr>))"
    and "accounted (incrementIdleElapsedTime d (p\<lparr>pf_cpiStartTime := pf_cpiStartTime p + d\<rparr>))"
    and "accounted (incrementIdleElapsedTime d (p\<lparr>pf_cpiSyncDvfsTransition := pf_cpiSyncDvfsTransition p + d\<rparr>))"
    and "accounted (incrementIdleElapsedTime d (p\<lparr>pf_cpiRecv := pf_cpiRecv p + d\<rparr>))"
  using assms unfolding accounted_defs
  by (simp_all add: incrementIdleElapsedTime_def incrementElapsedTime_def addLatency_def ff_notifyElapsedTimeUpdate_def Let_def sum_fun_upd_left
      algebra_simps del: fun_upd_apply)

lemma accounted_idle_0: "accounted p \<Longrightarrow> accounted (incrementIdleElapsedTime 0 p)"
  using accounted_idle(4) [of p 0] by simp

lemma accounted_notify [simp]: "accounted (ff_notifyElapsedTimeUpdate p) = accounted p"
  by (simp add: accounted_defs ff_notifyElapsedTimeUpdate_def)

lemma accounted_ff: "accounted p \<Longrightarrow> accounted (ff_incrementElapsedTime d component p)"
  unfolding accounted_defs
  by (cases component) (simp_all add: ff_incrementElapsedTime_def ff_add_def incrementElapsedTime_def addLatency_def Let_def sum_fun_upd_left
      algebra_simps del: fun_upd_apply)

lemma accounted_oi: "accounted p \<Longrightarrow> accounted (oi_account cost component p)"
  unfolding accounted_defs
  by (cases component) (simp_all add: oi_account_def oi_add_def addLatency_def sum_fun_upd_left algebra_simps del: fun_upd_apply)

lemma accounted_switches:
  "accounted (p\<lparr>pf_enabled := b\<rparr>) = accounted p" "accounted (p\<lparr>pf_instruction_queue := q\<rparr>) = accounted p"
  "accounted (p\<lparr>pf_bp := x\<rparr>) = accounted p" "accounted (setFastForward ff ds p) = accounted p"
  by (simp_all add: accounted_defs setFastForward_def)

text \<open>Every operation of the performance model keeps the accounts.\<close>

lemma bindR_Inr_iff: "bindR r f = Inr y \<longleftrightarrow> (\<exists>x. r = Inr x \<and> f x = Inr y)"
  by (cases r) (auto simp: bindR_def)

lemma accounted_setElapsedTime: "pf_setElapsedTime t p = Inr p' \<Longrightarrow> accounted p \<Longrightarrow> accounted p'"
  by (auto simp: pf_setElapsedTime_def bindR_Inr_iff Let_def accounted_idle split: if_splits)

lemma accounted_handleIdle:
  assumes "handleIdleInstruction i p = Inr p'" "accounted p"
  shows "accounted p'"
  using assms by (cases i) (auto simp: handleIdleInstruction_def bindR_Inr_iff Let_def accounted_idle accounted_idle_0 split: if_splits)

lemma accounted_queuePseudo:
  assumes "queuePseudoInstruction taken target i p = Inr p'" "accounted p"
  shows "accounted p'"
proof -
  have "pf_setElapsedTime t p = Inr p' \<or> p' = p \<or> handleIdleInstruction i p = Inr p' \<or> ff_queuePseudoInstruction i p = Inr p'
      \<or> (\<exists>d. push_instruction d p = Inr p')" if "i = SpawnInstruction t \<or> (\<forall>t. i \<noteq> SpawnInstruction t)" for t
    using assms(1) that by (cases i) (auto simp: queuePseudoInstruction_def split: if_splits)
  then consider t where "pf_setElapsedTime t p = Inr p'" | "p' = p" | "handleIdleInstruction i p = Inr p'"
    | "ff_queuePseudoInstruction i p = Inr p'" | d where "push_instruction d p = Inr p'" by blast
  then show ?thesis
    using assms(2) accounted_setElapsedTime accounted_handleIdle
    by cases (auto simp: ff_queuePseudoInstruction_def push_instruction_def bindR_Inr_iff accounted_ff accounted_switches)
qed

lemma accounted_handlers:
  assumes "accounted p"
  shows "accounted (pf_countInstructions n p)" "accounted (handleMemoryLatency l w p)" "accounted (handleBranchMispredict env p)"
    "queueInstruction d p = Inr p' \<Longrightarrow> accounted p'"
  using assms by (auto simp: pf_countInstructions_def handleMemoryLatency_def handleBranchMispredict_def accounted_ff queueInstruction_def
      push_instruction_def bindR_Inr_iff accounted_switches split: if_splits)

section \<open>Accesses keep what the performance model keeps\<close>

lemma line_loop_inv:
  assumes "line_loop step block_size b e addr st = Some r" "r = Inr st'" "P st"
    "\<And>a off sz st st'. P st \<Longrightarrow> step a off sz st = Inr st' \<Longrightarrow> P st'"
  shows "P st'"
proof -
  have "(\<forall>a off sz st st'. P st \<longrightarrow> step a off sz st = Inr st' \<longrightarrow> P st') \<longrightarrow> P st \<longrightarrow> (\<forall>st'. r = Inr st' \<longrightarrow> P st')"
    using assms(1)
  proof (induction step block_size b e addr st r rule: line_loop.raw_induct [rotated, consumes 1, case_names step])
    case (step loop step block_size b e addr st r)
    from step(2) show ?case by (auto simp: Let_def split: if_splits sum.splits dest!: step(1))
  qed
  then show ?thesis using assms(2-4) by blast
qed

text \<open>
  A property of the core that does not depend on the memory manager and the counters, and that the operations of the performance model
  an access may call keep.
\<close>

locale perf_property =
  fixes Q :: "OneIPCPerformanceModel \<Rightarrow> bool"
  assumes queuePseudo: "queuePseudoInstruction taken target i p = Inr p' \<Longrightarrow> Q p \<Longrightarrow> Q p'"
    and memoryLatency: "Q p \<Longrightarrow> Q (handleMemoryLatency l w p)"
begin

definition holds :: "Core \<Rightarrow> bool" where
  "holds c = Q (co_performance_model c)"

lemma holds_queuePseudo: "core_queuePseudo i c = Inr c' \<Longrightarrow> holds c \<Longrightarrow> holds c'"
  by (auto simp: core_queuePseudo_def upd_perfR_def bindR_Inr_iff holds_def intro: queuePseudo)

lemma holds_tlb:
  assumes "queue_tlb_misses c = Inr c'" "holds c"
  shows "holds c'"
proof -
  have "holds (c\<lparr>co_memory_manager := (co_memory_manager c)\<lparr>mm_pseudo := []\<rparr>\<rparr>)" using assms(2) by (simp add: holds_def)
  then show ?thesis using assms(1) unfolding queue_tlb_misses_def
    by (rule foldR_inv [rotated]) (auto intro: holds_queuePseudo)
qed

lemma holds_mm [simp]: "holds (c\<lparr>co_memory_manager := mm\<rparr>) = holds c"
  by (simp add: holds_def)

lemma holds_line:
  "holds (fst (snd (snd (snd st)))) \<Longrightarrow> line_access wait mc lock mo modeled eip a off sz st = Inr st' \<Longrightarrow> holds (fst (snd (snd (snd st'))))"
  by (auto simp: line_access_def bindR_Inr_iff intro: holds_tlb [OF _ holds_mm [THEN iffD2]] split: prod.splits)

lemma holds_account: "account_access modeled t w a n c = Inr c' \<Longrightarrow> holds c \<Longrightarrow> holds c'"
  by (auto simp: account_access_def upd_perf_def holds_def memoryLatency split: if_splits intro: holds_queuePseudo [unfolded holds_def])

lemma holds_finish:
  "finish_access modeled a n t0 st = Inr (res, buf, c', h') \<Longrightarrow> holds (fst (snd (snd (snd st)))) \<Longrightarrow> holds c'"
  by (auto simp: finish_access_def bindR_Inr_iff Let_def incrTotalMemoryAccessLatency_def holds_def
      dest!: holds_account [unfolded holds_def] split: prod.splits if_splits)

lemma holds_initiate:
  assumes "initiateMemoryAccess wait mc lock mo a buf n modeled eip now c h = Some (Inr (res, buf', c', h'))" "holds c"
  shows "holds c'"
proof (cases "n = 0")
  case True
  then show ?thesis using assms by (simp add: initiateMemoryAccess_def)
next
  case False
  let ?t = "if now = MaxTime then pf_getElapsedTime (co_performance_model c) else now"
  let ?h = "h\<lparr>hi_time := (hi_time h)(co_core_id c := (hi_time h (co_core_id c))(USER_THREAD := ?t))\<rparr>"
  obtain st where st: "access_lines (line_access wait mc lock mo modeled eip) (mm_cache_block_size (co_memory_manager c)) a n
      (HIT_UNKNOWN, 0, buf, c, ?h) = Some (Inr st)" and fin: "finish_access modeled a n ?t st = Inr (res, buf', c', h')"
    using assms(1) False by (auto simp: initiateMemoryAccess_def Let_def bindR_Inr_iff)
  from st have "holds (fst (snd (snd (snd st))))"
    unfolding access_lines_def
    by (auto split: if_splits elim!: line_loop_inv [where P = "\<lambda>st. holds (fst (snd (snd (snd st))))", OF _ refl] intro: holds_line assms(2))
  with fin show ?thesis by (rule holds_finish)
qed

lemma holds_access:
  "accessMemory wait lock mo a buf n modeled eip now is_mask c h = Some (Inr (res, buf', c', h')) \<Longrightarrow> holds c \<Longrightarrow> holds c'"
  by (auto simp: accessMemory_def split: if_splits intro: holds_initiate)

lemma holds_fetch:
  "readInstructionMemory wait a n c h = Some (Inr (res, c', h')) \<Longrightarrow> holds c \<Longrightarrow> holds c'"
  by (auto simp: readInstructionMemory_def Let_def bindR_Inr_iff holds_def split: if_splits dest!: holds_initiate [unfolded holds_def])

lemma holds_dyn_access:
  assumes "dyn_access wait atomic addr infos c h = Some (Inr (infos', c', h'))" "holds c"
  shows "holds c'"
  using assms
proof (induction infos arbitrary: infos' c h)
  case (Cons m infos)
  let ?X = "if mi_executed m \<and> mi_hit_where m = HIT_UNKNOWN
        then map_option (\<lambda>r. bindR r (\<lambda>(res, _, c, h). Inr (m\<lparr>mi_latency := mr_latency res, mi_hit_where := mr_hit_where res\<rparr>, c, h)))
               (accessMemory wait LS_NONE (if mi_dir m = OP_READ then if atomic then READ_EX else READ else WRITE) (mi_addr m) None (mi_size m)
                  MEM_MODELED_RETURN addr MaxTime False c h)
        else Some (Inr (m\<lparr>mi_latency := pe_period (core_env c h), mi_hit_where := HIT_PREDICATE_FALSE\<rparr>, c, h))"
  from Cons.prems(1) obtain r where r: "?X = Some r" and F: "(case r of Inl e \<Rightarrow> Some (Inl e)
      | Inr (m, c, h) \<Rightarrow> map_option (\<lambda>r. bindR r (\<lambda>(ms, c, h). Inr (m # ms, c, h))) (dyn_access wait atomic addr infos c h)) = Some (Inr (infos', c', h'))"
    by (auto simp del: split_paired_Ex simp: bind_eq_Some_conv)
  from F obtain m1 c1 h1 infos1 where r1: "r = Inr (m1, c1, h1)" and rest: "dyn_access wait atomic addr infos c1 h1 = Some (Inr (infos1, c', h'))"
    by (auto simp: bindR_Inr_iff split: sum.splits)
  have "holds c1" using r r1 Cons.prems(2) by (auto simp: bindR_Inr_iff split: if_split_asm dest: holds_access)
  then show ?case using rest Cons.IH by blast
qed simp

lemma holds_dyn: "dyn_accessMemory wait d c h = Some (Inr (d', c', h')) \<Longrightarrow> holds c \<Longrightarrow> holds c'"
  by (auto simp: dyn_accessMemory_def Let_def bindR_Inr_iff split: prod.splits dest!: holds_dyn_access)

end

interpretation acc: perf_property accounted
  by standard (auto intro: accounted_queuePseudo accounted_handlers)

section \<open>Every instant of a core is in one component\<close>

lemma accounted_handleInstruction:
  "oneipc_handleInstruction wait d c h = Some (Inr (c', h')) \<Longrightarrow> acc.holds c \<Longrightarrow> acc.holds c'"
  by (auto simp: oneipc_handleInstruction_def bindR_Inr_iff upd_perf_def acc.holds_def
      intro!: accounted_oi dest!: acc.holds_dyn [unfolded acc.holds_def])

lemma case_Inr_iff:
  "(case X of Inl e \<Rightarrow> Some (Inl e) | Inr x \<Rightarrow> F x) = Some (Inr y) \<longleftrightarrow> (\<exists>x. X = Inr x \<and> F x = Some (Inr y))"
  by (cases X) auto

lemma accounted_iterate:
  assumes "iterate wait c h = Some (Inr (c', h'))" "acc.holds c"
  shows "acc.holds c'"
proof -
  have "acc.holds c \<longrightarrow> (\<forall>c' h'. r = Inr (c', h') \<longrightarrow> acc.holds c')" if "iterate wait c h = Some r" for r
    using that
  proof (induction wait c h r rule: iterate.raw_induct [rotated, consumes 1, case_names step])
    case (step loop wait c h r)
    have pop: "acc.holds (upd_perf (\<lambda>p. p\<lparr>pf_instruction_queue := q\<rparr>) c1) = acc.holds c1" for q c1
      by (simp add: acc.holds_def upd_perf_def accounted_switches)
    show ?case
    proof (intro impI allI)
      fix c' h'
      assume h: "acc.holds c" and r: "r = Inr (c', h')"
      from step(2) [unfolded r] h show "acc.holds c'"
        by (auto simp: bind_eq_Some_conv case_Inr_iff pop simp del: split_paired_Ex split: if_split_asm prod.split_asm
            dest!: step(1) dest: accounted_handleInstruction)
    qed
  qed
  then show ?thesis using assms by blast
qed

text \<open>What a core does, seen from its performance model. Meanwhile other cores and the network change the hierarchy.\<close>

inductive core_op :: "(nat \<Rightarrow> IntPtr \<Rightarrow> hier \<Rightarrow> hier result) \<Rightarrow> Core \<times> hier \<Rightarrow> Core \<times> hier \<Rightarrow> bool" for wait where
  op_access: "accessMemory wait lock mem_op a buf n modeled eip now fm c h = Some (Inr (res, buf', c', h')) \<Longrightarrow> core_op wait (c, h) (c', h')"
| op_fetch: "readInstructionMemory wait a n c h = Some (Inr (res, c', h')) \<Longrightarrow> core_op wait (c, h) (c', h')"
| op_pseudo: "core_queuePseudo i c = Inr c' \<Longrightarrow> core_op wait (c, h) (c', h)"
| op_instruction: "upd_perfR (queueInstruction d) c = Inr c' \<Longrightarrow> core_op wait (c, h) (c', h)"
| op_iterate: "iterate wait c h = Some (Inr (c', h')) \<Longrightarrow> core_op wait (c, h) (c', h')"
| op_count: "countInstructions n c g = (b, c', g') \<Longrightarrow> core_op wait (c, h) (c', h)"
| op_mispredict: "core_op wait (c, h) (upd_perf (handleBranchMispredict (core_env c h)) c, h)"
| op_branch: "accessBranchPredictor eip taken target (pf_bp (co_performance_model c)) = Inr (miss, bp) \<Longrightarrow>
    core_op wait (c, h) (upd_perf (\<lambda>p. p\<lparr>pf_bp := bp\<rparr>) c, h)"
| op_switch: "set_performance_models on caches c h = (c', h') \<Longrightarrow> core_op wait (c, h) (c', h')"
| op_fastforward: "core_op wait (c, h) (upd_perf (setFastForward ff ds) c, h)"
| op_others: "core_op wait (c, h) (c, h')"

lemma accounted_count: "countInstructions n c g = (b, c', g') \<Longrightarrow> acc.holds c \<Longrightarrow> acc.holds c'"
  by (auto simp: countInstructions_def hookPeriodicInsCheck_def hookPeriodicInsCall_def call_hook_def disableInstructionsCallback_def upd_perf_def
      acc.holds_def accounted_handlers Let_def split: if_split_asm)

lemma acc_holds_iff:
  "acc.holds (c\<lparr>co_performance_model := p\<rparr>) \<longleftrightarrow> accounted p" "acc.holds c \<Longrightarrow> accounted (co_performance_model c)"
  by (simp_all add: acc.holds_def)

lemma accounted_op:
  assumes "core_op wait s s'" "acc.holds (fst s)"
  shows "acc.holds (fst s')"
  using assms
proof (induction rule: core_op.induct)
  case (op_switch on caches c h c' h')
  then show ?case
    by (auto simp: set_performance_models_def upd_perf_def acc.holds_def accounted_switches perf_enable_def perf_disable_def split: prod.split_asm if_split_asm)
qed (auto dest: accounted_handlers(4) [OF acc_holds_iff(2)] acc.holds_access acc.holds_fetch acc.holds_queuePseudo accounted_iterate accounted_count
    simp: upd_perfR_def upd_perf_def bindR_Inr_iff acc_holds_iff accounted_switches accounted_handlers)

lemma accounted_ops:
  assumes "(core_op wait)\<^sup>*\<^sup>* s s'" "acc.holds (fst s)"
  shows "acc.holds (fst s')"
  using assms by (induction rule: rtranclp_induct) (auto intro: accounted_op)

lemma accounted_create:
  "accounted (OneIPC_create domain (Fastforward_create ml bm domain' pen') bp pen mem cutoff)"
  by (simp add: accounted_defs OneIPC_create_def PerformanceModel_create_def Fastforward_create_def ComponentTime_create_def
      PerformanceModel.extend_def OneIPCPerformanceModel.fields_def)

text \<open>
  C17: The CPI stack of a core on the one-IPC model is complete. After any sequence of memory accesses, instruction fetches, queued instructions,
  synchronisations, fast-forward phases and switches of the models, the elapsed time of the core is the sum, modulo \<open>2 ^ 64\<close>, of its idle
  components (start, nine kinds of synchronisation, frequency changes and receives), its fast-forward components and the components of the
  instructions it simulated, and its non-idle time is the sum of the last two.
\<close>

theorem core_time_accounted:
  assumes "(core_op wait)\<^sup>*\<^sup>*
      (Core_create core_id domain costs mm (OneIPC_create domain (Fastforward_create ml bm domain penalty) bp penalty mem cutoff) uninit, h0) (c, h)"
  shows "pf_getElapsedTime (co_performance_model c) =
           idle_total (co_performance_model c) + ff_total (pf_fastforward_model (co_performance_model c)) + busy_total (co_performance_model c)
       \<and> getNonIdleElapsedTime (co_performance_model c) =
           ff_total (pf_fastforward_model (co_performance_model c)) + busy_total (co_performance_model c)"
proof -
  have "acc.holds c" using accounted_ops [OF assms] by (simp add: acc.holds_def Core_create_def accounted_create)
  then show ?thesis by (simp add: acc.holds_def accounted_def pf_getElapsedTime_def getNonIdleElapsedTime_def)
qed

theorem core_time_accounted_witness:
  "\<exists>mm h c. (core_op (\<lambda>_ _. Inr))\<^sup>*\<^sup>*
      (Core_create 0 0 (\<lambda>_. 1) mm (OneIPC_create 0 (Fastforward_create True True 0 8) None 8 [] 3) (False, 0), h) (c, h)
     \<and> pf_getElapsedTime (co_performance_model c) = 250
     \<and> idle_total (co_performance_model c) + ff_total (pf_fastforward_model (co_performance_model c)) + busy_total (co_performance_model c) = 250
     \<and> getNonIdleElapsedTime (co_performance_model c) =
         ff_total (pf_fastforward_model (co_performance_model c)) + busy_total (co_performance_model c)"
proof -
  fix mm h
  let ?c = "Core_create 0 0 (\<lambda>_. 1) mm (OneIPC_create 0 (Fastforward_create True True 0 8) None 8 [] 3) (False, 0)"
  note defs = core_queuePseudo_def upd_perfR_def queuePseudoInstruction_def pf_setElapsedTime_def pf_getElapsedTime_def logAssertR_def bindR_def
    incrementIdleElapsedTime_def incrementElapsedTime_def addLatency_def ComponentTime_create_def Core_create_def OneIPC_create_def
    PerformanceModel_create_def PerformanceModel.extend_def OneIPCPerformanceModel.fields_def Let_def
  obtain c1 where c1: "core_queuePseudo (SpawnInstruction 100) ?c = Inr c1" by (simp add: defs)
  then have t1: "pf_getElapsedTime (co_performance_model c1) = 100" by (auto simp: defs)
  then obtain c2 where c2: "core_queuePseudo (SpawnInstruction 250) c1 = Inr c2" by (simp add: defs)
  have t2: "pf_getElapsedTime (co_performance_model c2) = 250"
    using c2 t1 by (auto simp: core_queuePseudo_def upd_perfR_def queuePseudoInstruction_def pf_setElapsedTime_def pf_getElapsedTime_def
        logAssertR_def bindR_def incrementIdleElapsedTime_def incrementElapsedTime_def addLatency_def ff_notifyElapsedTimeUpdate_def Let_def)
  have r: "(core_op (\<lambda>_ _. Inr))\<^sup>*\<^sup>* (?c, h) (c2, h)"
    using op_pseudo [OF c1, of "\<lambda>_ _. Inr" h] op_pseudo [OF c2, of "\<lambda>_ _. Inr" h] by (meson r_into_rtranclp rtranclp_trans)
  from core_time_accounted [OF r] t2 r show ?thesis by auto
qed

section \<open>The lines of an access\<close>

text \<open>The reference: the bytes from \<open>b\<close> to \<open>e\<close> cut at the multiples of the block size, as line, offset and size.\<close>

function line_chunks :: "nat \<Rightarrow> nat \<Rightarrow> nat \<Rightarrow> (nat \<times> nat \<times> nat) list" where
  "line_chunks bs b e =
     (if bs = 0 \<or> e \<le> b then [] else (b - b mod bs, b mod bs, min (bs - b mod bs) (e - b)) # line_chunks bs (b + min (bs - b mod bs) (e - b)) e)"
  by pat_completeness auto

termination
proof (relation "measure (\<lambda>(bs, b, e). e - b)", goal_cases)
  case (2 bs b e)
  then have "b mod bs < bs" by simp
  with 2 show ?case by simp
qed simp

declare line_chunks.simps [simp del]

definition chunk_bytes :: "nat \<times> nat \<times> nat \<Rightarrow> nat list" where
  "chunk_bytes = (\<lambda>(l, off, n). [l + off..<l + off + n])"

lemma line_chunks_cover: "0 < bs \<Longrightarrow> concat (map chunk_bytes (line_chunks bs b e)) = [b..<e]"
proof (induction bs b e rule: line_chunks.induct)
  case (1 bs b e)
  let ?n = "min (bs - b mod bs) (e - b)"
  show ?case
  proof (cases "e \<le> b")
    case False
    then have "concat (map chunk_bytes (line_chunks bs (b + ?n) e)) = [b + ?n..<e]" using 1 by simp
    moreover have "[b..<b + ?n] @ [b + ?n..<e] = [b..<e]" using upt_add_eq_append [of b "b + ?n" "e - (b + ?n)"] False by simp
    ultimately show ?thesis using False 1(2) by (subst line_chunks.simps) (simp add: chunk_bytes_def)
  qed (subst line_chunks.simps, simp)
qed

lemma line_chunks_aligned: "0 < bs \<Longrightarrow> (l, off, n) \<in> set (line_chunks bs b e) \<Longrightarrow> l mod bs = 0 \<and> 0 < n \<and> off + n \<le> bs"
proof (induction bs b e rule: line_chunks.induct)
  case (1 bs b e)
  have "b mod bs < bs" "(b - b mod bs) mod bs = 0" using 1(2) by (simp_all add: minus_mod_eq_mult_div)
  with 1 show ?case by (subst (asm) (2) line_chunks.simps) (auto split: if_split_asm)
qed

lemma word_of_nat_mod:
  "a < 2 ^ LENGTH('a) \<Longrightarrow> b < 2 ^ LENGTH('a) \<Longrightarrow> (of_nat a :: 'a::len word) mod of_nat b = of_nat (a mod b)"
  by (simp add: word_unat_eq_iff unat_mod_distrib unat_of_nat take_bit_nat_eq_self order_le_less_trans [OF mod_less_eq_dividend])

lemma word_of_nat_eq: "a < 2 ^ LENGTH('a) \<Longrightarrow> b < 2 ^ LENGTH('a) \<Longrightarrow> (of_nat a :: 'a::len word) = of_nat b \<longleftrightarrow> a = b"
  by (simp add: word_unat_eq_iff unat_of_nat take_bit_nat_eq_self)

lemma word_of_nat_le: "a < 2 ^ LENGTH('a) \<Longrightarrow> b < 2 ^ LENGTH('a) \<Longrightarrow> (of_nat a :: 'a::len word) \<le> of_nat b \<longleftrightarrow> a \<le> b"
  by (simp add: word_le_nat_alt unat_of_nat take_bit_nat_eq_self)

lemma ucast_of_nat_small: "x < 2 ^ 32 \<Longrightarrow> ucast (of_nat x :: UInt64) = (of_nat x :: UInt32)"
  by (simp add: word_unat_eq_iff unat_of_nat take_bit_nat_eq_self unsigned_ucast_eq)

text \<open>The loop of the code, in natural numbers, when nothing wraps.\<close>

lemma line_loop_nat:
  assumes b: "0 < B" "B < 2 ^ 32" "A < E" "E + B < 2 ^ 64" and l: "l \<le> E + B"
  defines "al \<equiv> A - A mod B" and "el \<equiv> E - E mod B"
  defines "off \<equiv> if l = al then A mod B else 0"
  defines "n \<equiv> if l = el then E mod B - off else B - off"
  assumes off: "off \<le> E mod B \<or> l \<noteq> el"
  shows "line_loop step (of_nat B) (of_nat A) (of_nat E) (of_nat l) st =
    (if l \<le> el
     then if l = el \<and> n = 0 then line_loop step (of_nat B) (of_nat A) (of_nat E) (of_nat (l + B)) st
          else case step (of_nat l) (of_nat off) (of_nat n) st of
                 Inl e \<Rightarrow> Some (Inl e)
               | Inr st \<Rightarrow> line_loop step (of_nat B) (of_nat A) (of_nat E) (of_nat (l + B)) st
     else Some (Inr st))"
proof -
  have lt: "A mod B < B" "E mod B < B" "A < 2 ^ 64" "E < 2 ^ 64" "B < 2 ^ 64" "l < 2 ^ 64" "al < 2 ^ 64" "el < 2 ^ 64"
    using b l by (auto simp: al_def el_def)
  have B64: "ucast (of_nat B :: UInt32) = (of_nat B :: UInt64)"
    using b(2) by (simp add: word_unat_eq_iff unat_of_nat take_bit_nat_eq_self unsigned_ucast_eq)
  have m: "(of_nat A :: UInt64) mod of_nat B = of_nat (A mod B)" "(of_nat E :: UInt64) mod of_nat B = of_nat (E mod B)"
    using lt by (simp_all add: word_of_nat_mod)
  have al: "(of_nat A :: UInt64) - of_nat (A mod B) = of_nat al" "(of_nat E :: UInt64) - of_nat (E mod B) = of_nat el"
    by (simp_all add: al_def el_def of_nat_diff)
  have c: "ucast (of_nat (A mod B) :: UInt64) = (of_nat (A mod B) :: UInt32)" "ucast (of_nat (E mod B) :: UInt64) = (of_nat (E mod B) :: UInt32)"
    using lt(1,2) b(2) by (intro ucast_of_nat_small; linarith)+
  have o: "(if (of_nat l :: UInt64) = of_nat al then of_nat (A mod B) else 0) = (of_nat off :: UInt32)"
    using lt by (simp add: off_def word_of_nat_eq)
  have offB: "off < B" using lt b by (simp add: off_def)
  have s: "(if (of_nat l :: UInt64) = of_nat el then of_nat (E mod B) - of_nat off else of_nat B - of_nat off) = (of_nat n :: UInt32)"
    using lt off offB by (auto simp: n_def word_of_nat_eq of_nat_diff)
  have "n < 2 ^ 32" using lt b(2) by (auto simp: n_def)
  then have z: "(of_nat n :: UInt32) = 0 \<longleftrightarrow> n = 0" using word_of_nat_eq [of n 0, where 'a = 32] by simp
  have le: "(of_nat l :: UInt64) \<le> of_nat el \<longleftrightarrow> l \<le> el" "(of_nat l :: UInt64) = of_nat el \<longleftrightarrow> l = el"
    using lt by (simp_all add: word_of_nat_le word_of_nat_eq)
  have add: "(of_nat l :: UInt64) + of_nat B = of_nat (l + B)" by simp
  show ?thesis
    by (subst line_loop.simps) (simp only: Let_def B64 m al c o s add, simp only: z le)
qed

lemma multiples_gap:
  fixes x y :: nat
  shows "B dvd x \<Longrightarrow> B dvd y \<Longrightarrow> x < y \<Longrightarrow> x + B \<le> y"
  by (metis dvd_diff_nat add.commute le_diff_conv2 less_imp_le_nat nat_dvd_not_less not_less zero_less_diff)

lemma line_chunks_past: "B dvd l \<Longrightarrow> E - E mod B < l \<Longrightarrow> 0 < B \<Longrightarrow> l \<le> b \<Longrightarrow> line_chunks B b E = []"
proof -
  assume "B dvd l" "E - E mod B < l" "0 < B" "l \<le> b"
  then have "E - E mod B + B \<le> l" "E mod B < B" using multiples_gap [of B "E - E mod B" l] by simp_all
  then have "E \<le> b" using \<open>l \<le> b\<close> by linarith
  then show ?thesis by (subst line_chunks.simps) simp
qed

lemma line_chunks_at:
  assumes "0 < B" "B dvd l" "l \<le> E - E mod B" "off < B" "off \<le> E mod B \<or> l \<noteq> E - E mod B"
  defines "n \<equiv> if l = E - E mod B then E mod B - off else B - off"
  shows "line_chunks B (l + off) E = (if l = E - E mod B \<and> n = 0 then [] else (l, off, n) # line_chunks B (l + B) E)"
proof -
  have lt: "E mod B < B" using assms(1) by simp
  have E: "E = E - E mod B + E mod B" by simp
  have md: "(l + off) mod B = off" using assms(2,4) by (auto simp: mod_add_eq [symmetric] dvd_eq_mod_eq_0)
  show ?thesis
  proof (cases "l = E - E mod B")
    case True
    then have "E = l + E mod B" using E by simp
    then have "E - (l + off) = n" "E \<le> l + off \<longleftrightarrow> n = 0" using True assms(5) unfolding n_def by (simp, linarith)+
    moreover have "min (B - off) n = n" using True lt by (auto simp: n_def)
    moreover have "line_chunks B (l + off + n) E = []" "line_chunks B (l + B) E = []"
      using True E lt assms(5) by (simp_all add: n_def line_chunks.simps [of B _ E])
    ultimately show ?thesis using True md assms(1) by (subst line_chunks.simps) auto
  next
    case False
    then have le: "l + B \<le> E - E mod B" using multiples_gap [OF assms(2)] assms(3) by simp
    then have "E - (l + off) \<ge> B - off" "\<not> E \<le> l + off" using assms(4) by auto
    then show ?thesis using False md assms(1,4) by (subst line_chunks.simps) (auto simp: min_def n_def)
  qed
qed

lemma first_line_offset:
  fixes A B E l :: nat
  assumes "0 < B" "A < E" "B dvd l" "A - A mod B \<le> l"
  defines "off \<equiv> if l = A - A mod B then A mod B else 0"
  shows "max l A = l + off" "off < B" "off \<le> E mod B \<or> l \<noteq> E - E mod B"
proof -
  have lt: "A mod B < B" using assms(1) by simp
  show "max l A = l + off"
  proof (cases "l = A - A mod B")
    case False
    then have "A - A mod B + B \<le> l" using multiples_gap [OF _ assms(3), of "A - A mod B"] assms(4) by simp
    then have "A \<le> l" using lt(1) by linarith
    then show ?thesis using False by (simp add: off_def)
  qed (simp add: off_def)
  show "off < B" using lt by (simp add: off_def)
  show "off \<le> E mod B \<or> l \<noteq> E - E mod B"
  proof (cases "l = A - A mod B \<and> l = E - E mod B")
    case True
    then have "A = l + A mod B" "E = l + E mod B" by (metis le_add_diff_inverse2 mod_less_eq_dividend)+
    then show ?thesis using assms(2) True by (simp add: off_def)
  qed (auto simp: off_def)
qed

lemma line_loop_chunks:
  assumes b: "0 < B" "B < 2 ^ 32" "A < E" "E + B < 2 ^ 64"
    and l: "B dvd l" "A - A mod B \<le> l" "l \<le> E - E mod B + B"
  shows "line_loop step (of_nat B) (of_nat A) (of_nat E) (of_nat l) st =
    Some (foldR (\<lambda>(l, off, n). step (of_nat l) (of_nat off) (of_nat n)) (line_chunks B (max l A) E) st)"
  using l
proof (induction "E + B - l" arbitrary: l st rule: less_induct)
  case less
  let ?el = "E - E mod B" and ?off = "if l = A - A mod B then A mod B else 0"
  let ?n = "if l = ?el then E mod B - ?off else B - ?off"
  let ?f = "\<lambda>(l, off, n). step (of_nat l) (of_nat off) (of_nat n)"
  note off = first_line_offset [OF b(1,3) less.prems(1,2)]
  have "l \<le> E + B" using less.prems(3) by linarith
  note step = line_loop_nat [OF b this off(3), of step st]
  show ?case
  proof (cases "l \<le> ?el")
    case False
    then have "line_chunks B (max l A) E = []" using line_chunks_past [OF less.prems(1)] b(1) by simp
    then show ?thesis using False step by simp
  next
    case True
    have "A \<le> l + B" using off(1,2) by (metis add_left_mono le_trans less_imp_le_nat max.cobounded2)
    then have "max (l + B) A = l + B" by simp
    moreover have "E + B - (l + B) < E + B - l" using True b(1) by simp
    moreover have "B dvd l + B" "A - A mod B \<le> l + B" "l + B \<le> ?el + B" using less.prems(1,2) add_right_mono [OF True] by (simp, linarith, blast)
    ultimately have IH: "line_loop step (of_nat B) (of_nat A) (of_nat E) (of_nat (l + B)) st' = Some (foldR ?f (line_chunks B (l + B) E) st')" for st'
      using less.hyps [of "l + B" st'] by metis
    note chunks = line_chunks_at [OF b(1) less.prems(1) True off(2,3)]
    show ?thesis
    proof (cases "l = ?el \<and> ?n = 0")
      case skip: True
      then have "?el < l + B" using b(1) by linarith
      then have "line_chunks B (l + B) E = []" using line_chunks_past [of B "l + B" E "l + B"] less.prems(1) b(1) by simp
      moreover have "line_chunks B (max l A) E = []" using off(1) chunks skip by presburger
      ultimately show ?thesis using step IH skip True by presburger
    next
      case False
      then have ch: "line_chunks B (max l A) E = (l, ?off, ?n) # line_chunks B (l + B) E" using off(1) chunks by presburger
      have "line_loop step (of_nat B) (of_nat A) (of_nat E) (of_nat l) st =
          (case step (of_nat l) (of_nat ?off) (of_nat ?n) st of Inl e \<Rightarrow> Some (Inl e) | Inr st \<Rightarrow> Some (foldR ?f (line_chunks B (l + B) E) st))"
        using step False True by (simp only: IH if_True if_False simp_thms)
      also have "\<dots> = Some (foldR ?f (line_chunks B (max l A) E) st)"
        unfolding ch by (simp only: foldR.simps bindR_def prod.case) (simp split: sum.split)
      finally show ?thesis .
    qed
  qed
qed

text \<open>
  C18: The core cuts an access into lines exactly. When the access does not reach the last lines of the address space, the loop of
  \<^verbatim>\<open>initiateMemoryAccess\<close> ends and is the accesses to a list of pieces, in order and up to the first error; the bytes of the pieces are
  those of the access, each once and in increasing order, every piece is inside a line and none is empty.
\<close>

theorem access_lines_exact:
  assumes "0 < unat block_size" "0 < unat data_size" "unat address + unat data_size + unat block_size < 2 ^ 64"
  shows "access_lines step block_size address data_size st =
      Some (foldR (\<lambda>(l, off, n). step (of_nat l) (of_nat off) (of_nat n))
        (line_chunks (unat block_size) (unat address) (unat address + unat data_size)) st)
    \<and> concat (map chunk_bytes (line_chunks (unat block_size) (unat address) (unat address + unat data_size))) =
      [unat address..<unat address + unat data_size]
    \<and> (\<forall>(l, off, n)\<in>set (line_chunks (unat block_size) (unat address) (unat address + unat data_size)).
      l mod unat block_size = 0 \<and> 0 < n \<and> off + n \<le> unat block_size)"
proof -
  let ?B = "unat block_size" and ?A = "unat address"
  let ?E = "?A + unat data_size"
  have B: "?B < 2 ^ 32" using unsigned_less [of block_size, where 'a = nat] by simp
  have bs: "ucast block_size = (of_nat ?B :: UInt64)"
    by simp
  have al: "address - address mod ucast block_size = of_nat (?A - ?A mod ?B)"
  proof -
    have "?A < 2 ^ LENGTH(64)" "?B < 2 ^ LENGTH(64)" using B assms(3) by simp_all
    then have "address mod of_nat ?B = of_nat (?A mod ?B)" using word_of_nat_mod [of ?A ?B, where 'a = 64] by simp
    moreover have "(of_nat (?A - ?A mod ?B) :: UInt64) = of_nat ?A - of_nat (?A mod ?B)" by (rule of_nat_diff) simp
    ultimately show ?thesis unfolding bs by simp
  qed
  have le: "?A - ?A mod ?B \<le> ?E - ?E mod ?B"
    using div_le_mono [of ?A ?E ?B] by (simp add: minus_mod_eq_mult_div)
  have "line_loop step (of_nat ?B) (of_nat ?A) (of_nat ?E) (of_nat (?A - ?A mod ?B)) st =
      Some (foldR (\<lambda>(l, off, n). step (of_nat l) (of_nat off) (of_nat n)) (line_chunks ?B (max (?A - ?A mod ?B) ?A) ?E) st)"
    by (rule line_loop_chunks [OF assms(1) B _ assms(3) dvd_minus_mod order_refl trans_le_add1 [OF le]]) (simp add: assms(2))
  moreover have "max (?A - ?A mod ?B) ?A = ?A" "(of_nat ?B :: UInt32) = block_size" "(of_nat ?A :: UInt64) = address" by simp_all
  moreover have "(of_nat ?E :: UInt64) = address + ucast data_size" by simp
  ultimately have "line_loop step block_size address (address + ucast data_size) (address - address mod ucast block_size) st =
      Some (foldR (\<lambda>(l, off, n). step (of_nat l) (of_nat off) (of_nat n)) (line_chunks ?B ?A ?E) st)"
    unfolding al by argo
  moreover have "block_size \<noteq> 0" using assms(1) by auto
  ultimately have "access_lines step block_size address data_size st =
      Some (foldR (\<lambda>(l, off, n). step (of_nat l) (of_nat off) (of_nat n)) (line_chunks ?B ?A ?E) st)"
    unfolding access_lines_def by (simp only: if_False)
  moreover have "\<forall>(l, off, n)\<in>set (line_chunks ?B ?A ?E). l mod ?B = 0 \<and> 0 < n \<and> off + n \<le> ?B" using line_chunks_aligned [OF assms(1)] by blast
  ultimately show ?thesis using line_chunks_cover [OF assms(1)] by blast
qed

theorem access_lines_exact_witness:
  "access_lines (\<lambda>l off n log. Inr (log @ [(l, off, n)])) 64 100 60 [] = Some (Inr [(64, 36, 28), (128, 0, 32)])"
proof -
  have c: "line_chunks 64 100 160 = [(64, 36, 28), (128, 0, 32)]" by (simp add: line_chunks.simps)
  have "access_lines (\<lambda>l off n log. Inr (log @ [(l, off, n)])) 64 100 60 [] =
      Some (foldR (\<lambda>(l, off, n) log. Inr (log @ [(of_nat l, of_nat off, of_nat n)])) [(64, 36, 28), (128, 0, 32)] [])"
    using access_lines_exact [of 64 60 100 "\<lambda>l off n log. Inr (log @ [(l, off, n)])" "[]"] c by (simp add: case_prod_unfold)
  then show ?thesis by (simp add: bindR_def)
qed

text \<open>The last line of the address space: the loop condition holds for every line.\<close>

lemma line_loop_top:
  assumes "line_loop step block_size b e addr st = Some r"
  shows "block_size = 64 \<longrightarrow> e - e mod 64 = -64 \<longrightarrow> 64 dvd unat addr \<longrightarrow> \<not> (\<forall>a off n st. \<exists>st'. step a off n st = Inr st')"
  using assms
proof (induction step block_size b e addr st r rule: line_loop.raw_induct [rotated, consumes 1, case_names step])
  case (step loop step block_size b e addr st r)
  show ?case
  proof (intro impI notI)
    assume a: "block_size = 64" "e - e mod 64 = -64" "64 dvd unat addr" "\<forall>a off n st. \<exists>st'. step a off n st = Inr st'"
    have "unat addr < 2 ^ 64" using unsigned_less [of addr, where 'a = nat] by simp
    then have "unat addr + 64 \<le> 2 ^ 64" using multiples_gap [OF a(3), of "2 ^ 64"] by simp
    then have le: "addr \<le> -64" by (simp add: word_le_nat_alt)
    have "unat (addr + 64) = (unat addr + 64) mod 2 ^ 64" by (simp add: unat_word_ariths)
    then have dvd: "64 dvd unat (addr + 64)" using a(3) by (simp add: dvd_mod)
    have "\<exists>st'. loop step block_size b e (addr + 64) st' = Some r"
      using step(2) a(2,4) le by (auto simp: a(1) Let_def split: if_split_asm sum.split_asm) (metis Inr_not_Inl)+
    then show False using step(1) dvd a by blast
  qed
qed

text \<open>
  An access in the last line of the address space never returns: the address of the next line wraps to zero, which is again below the last
  line, so that the loop of \<^verbatim>\<open>initiateMemoryAccess\<close> goes through all of memory again and again (as long as no access fails).
\<close>

theorem access_top_line_never_returns:
  assumes "2 ^ 64 - 64 \<le> unat address" "unat address + unat data_size < 2 ^ 64" "\<forall>a off n st. \<exists>st'. step a off n st = Inr st'"
  shows "access_lines step 64 address data_size st = None"
proof -
  let ?e = "address + ucast data_size :: UInt64"
  have top: "x - x mod 64 = -64 \<and> 64 dvd unat (x - x mod 64)" if "2 ^ 64 - 64 \<le> unat x" for x :: UInt64
  proof -
    have "unat x < 2 ^ 64" using unsigned_less [of x, where 'a = nat] by simp
    then have d: "unat x div 64 = 2 ^ 58 - 1" using that by simp
    have "unat (x - x mod 64) = unat x - unat x mod 64"
      by (subst unat_sub) (simp_all add: word_le_nat_alt unat_mod_distrib)
    also have "\<dots> = 64 * (2 ^ 58 - 1)" using d by (simp add: minus_mod_eq_mult_div)
    finally show ?thesis by (simp add: word_unat_eq_iff)
  qed
  have "unat (ucast data_size :: UInt64) = unat data_size" by (simp add: unsigned_ucast_eq take_bit_nat_eq_self less_trans [OF unsigned_less])
  then have "unat ?e = unat address + unat data_size" using assms(2) by (simp add: unat_add_lem [THEN iffD1])
  then have "?e - ?e mod 64 = -64" using top [of ?e] assms(1) by simp
  moreover have "64 dvd unat (address - address mod 64)" using top [of address] assms(1) by blast
  ultimately show ?thesis using line_loop_top [of step 64 address ?e "address - address mod 64" st] assms(3)
    by (cases "line_loop step 64 address ?e (address - address mod 64) st") (auto simp: access_lines_def)
qed

theorem access_top_line_never_returns_witness:
  "access_lines (\<lambda>l off n count. Inr (Suc count)) 64 0xFFFFFFFFFFFFFFF0 8 (0::nat) = None"
  by (rule access_top_line_never_returns) simp_all

section \<open>Branches in the one-IPC model\<close>

lemma bp_unchanged:
  "queuePseudoInstruction taken target i p = Inr p' \<Longrightarrow> pf_bp p' = pf_bp p" "pf_bp (handleMemoryLatency l w p) = pf_bp p"
proof -
  have idle: "pf_bp (incrementIdleElapsedTime t q) = pf_bp q" for t and q :: "'c PerformanceModel_scheme"
    by (simp add: incrementIdleElapsedTime_def incrementElapsedTime_def ff_notifyElapsedTimeUpdate_def Let_def)
  have ff: "pf_bp (ff_incrementElapsedTime t x q) = pf_bp q" "pf_bp (ff_notifyElapsedTimeUpdate q) = pf_bp q" for t x and q :: "'c PerformanceModel_scheme"
    by (simp_all add: ff_incrementElapsedTime_def incrementElapsedTime_def ff_notifyElapsedTimeUpdate_def Let_def)
  show "pf_bp p' = pf_bp p" if "queuePseudoInstruction taken target i p = Inr p'"
    using that by (cases i) (auto simp: queuePseudoInstruction_def pf_setElapsedTime_def handleIdleInstruction_def ff_queuePseudoInstruction_def
        push_instruction_def bindR_Inr_iff Let_def split: if_split_asm simp: idle ff)
  show "pf_bp (handleMemoryLatency l w p) = pf_bp p" by (simp add: handleMemoryLatency_def ff)
qed

interpretation bpc: perf_property "\<lambda>p. pf_bp p = bp" for bp
  by standard (simp_all add: bp_unchanged)

lemma oi_account_bp: "pf_bp (oi_account cost component p) = pf_bp p"
  by (cases component) (simp_all add: oi_account_def oi_add_def)

text \<open>
  C40: The one-IPC model does not look at the branch predictor: what an instruction costs and does is the same whatever the outcome of its branch,
  and the predictor is left as it was. A mispredicted branch costs as much as any other, where the comment in
  \<^verbatim>\<open>OneIPCPerformanceModel::isModeled\<close> gives it the misprediction penalty.
\<close>

theorem oneipc_ignores_prediction:
  "oneipc_handleInstruction wait (d\<lparr>dy_is_branch := b, dy_taken := taken, dy_target := target\<rparr>) c h = oneipc_handleInstruction wait d c h
   \<and> (oneipc_handleInstruction wait d c h = Some (Inr (c', h')) \<longrightarrow> pf_bp (co_performance_model c') = pf_bp (co_performance_model c))"
proof -
  have cost: "oneipc_cost env cutoff (d\<lparr>dy_is_branch := b, dy_taken := taken, dy_target := target, dy_memory := infos\<rparr>) =
      oneipc_cost env cutoff (d\<lparr>dy_memory := infos\<rparr>)" for env cutoff infos by (simp add: oneipc_cost_def)
  have "oneipc_handleInstruction wait (d\<lparr>dy_is_branch := b, dy_taken := taken, dy_target := target\<rparr>) c h = oneipc_handleInstruction wait d c h"
    by (auto simp: oneipc_handleInstruction_def dyn_accessMemory_def option.map_comp Let_def cost bindR_def case_prod_unfold
        split: sum.split intro!: option.map_cong)
  moreover have "pf_bp (co_performance_model c') = pf_bp (co_performance_model c)" if "oneipc_handleInstruction wait d c h = Some (Inr (c', h'))"
    using that by (auto simp: oneipc_handleInstruction_def bindR_Inr_iff upd_perf_def oi_account_bp
        dest!: bpc.holds_dyn [unfolded bpc.holds_def, OF _ refl])
  ultimately show ?thesis by blast
qed

text \<open>Two executions of the same branch, taken and not taken, with a predictor that can be right about one of them only.\<close>

theorem oneipc_ignores_prediction_witness:
  "\<exists>mm h c'. let bp = Some \<lparr>bp_counters = bp_resetCounters, bp_kind = BP_OneBit [True]\<rparr>;
        c = Core_create 0 0 (\<lambda>_. 1) mm (OneIPC_create 0 (Fastforward_create True True 0 8) bp 8 [] 3) (False, 0);
        d = createDynamicInstruction True 0 (Static \<lparr>in_type = INST_BRANCH, in_addr = 64, in_size = 2, in_atomic = False, in_operands = []\<rparr>) 64
      in oneipc_handleInstruction (\<lambda>_ _. Inr) (addBranch False 0 d) c h = Some (Inr (c', h))
       \<and> oneipc_handleInstruction (\<lambda>_ _. Inr) (addBranch True 128 d) c h = Some (Inr (c', h))
       \<and> pf_bp (co_performance_model c') = bp"
proof -
  fix mm h
  define bp where "bp = Some \<lparr>bp_counters = bp_resetCounters, bp_kind = BP_OneBit [True]\<rparr>"
  define c where "c = Core_create 0 0 (\<lambda>_. 1) mm (OneIPC_create 0 (Fastforward_create True True 0 8) bp 8 [] 3) (False, 0)"
  define d where "d = createDynamicInstruction True 0
      (Static \<lparr>in_type = INST_BRANCH, in_addr = 64, in_size = 2, in_atomic = False, in_operands = []\<rparr>) 64"
  have m: "dy_memory d = []" "dy_instruction d = Static \<lparr>in_type = INST_BRANCH, in_addr = 64, in_size = 2, in_atomic = False, in_operands = []\<rparr>"
    by (simp_all add: d_def createDynamicInstruction_def)
  have "\<exists>c'. oneipc_handleInstruction (\<lambda>_ _. Inr) d c h = Some (Inr (c', h))"
    by (simp add: oneipc_handleInstruction_def dyn_accessMemory_def m bindR_def oneipc_cost_def getOperands_def getInstructionCost_def
        logAssertR_def Let_def)
  then obtain c' where c': "oneipc_handleInstruction (\<lambda>_ _. Inr) d c h = Some (Inr (c', h))" by blast
  have "pf_bp (co_performance_model c) = bp"
    by (simp add: c_def Core_create_def OneIPC_create_def PerformanceModel_create_def PerformanceModel.extend_def)
  then have "pf_bp (co_performance_model c') = bp" using oneipc_ignores_prediction c' by blast
  moreover have "oneipc_handleInstruction (\<lambda>_ _. Inr) (addBranch b t d) c h = Some (Inr (c', h))" for b t
    using oneipc_ignores_prediction [where d = d and b = True and taken = b and target = t and c = c and h = h and wait = "\<lambda>_ _. Inr", THEN conjunct1] c' by (simp add: addBranch_def)
  ultimately show ?thesis unfolding Let_def bp_def [symmetric] c_def [symmetric] d_def [symmetric]
    by (intro exI [of _ mm] exI [of _ h] exI [of _ c']) (simp add: c_def [symmetric])
qed

end
